(* ===== verification/Prelude.thy ===== *)
theory Prelude
  imports
    Main
    "HOL-Library.Char_ord"
    "HOL-Library.List_Lexorder"
    "HOL-Library.Multiset"
    "HOL-Library.Sublist"
begin

text \<open>
  Shared vocabulary of the development: the byte strings every component works on, the error
  values operations return, the simplification collections the component theories fill, and the
  generic facts on lists and sorting that several components use.

  Go's \<^verbatim>\<open>string\<close> and \<^verbatim>\<open>[]byte\<close> are both finite sequences of bytes; a HOL character is exactly a
  byte, so both are \<^typ>\<open>char list\<close> and the conversions between them are the identity.  The order
  on \<^typ>\<open>char list\<close> is the bytewise lexicographic one Go's \<^verbatim>\<open><\<close> on strings computes.
\<close>

type_synonym byte = char
type_synonym bytes = "char list"

text \<open>A Go call that may fail returns either an error message or a value.\<close>

type_synonym 'a result = "string + 'a"

named_theorems codec_simps "unfolding and length facts of the byte encodings"
named_theorems filter_simps "unfolding facts of the diagnostic filter"
named_theorems gate_simps "unfolding facts of the admission gate"


subsection \<open>Lists\<close>

lemma append_same_length_eq:
  "length xs = length ys \<Longrightarrow> xs @ as = ys @ bs \<longleftrightarrow> xs = ys \<and> as = bs"
  by simp

lemma append_prefix_eq_length:
  "prefix xs zs \<Longrightarrow> prefix ys zs \<Longrightarrow> length xs = length ys \<Longrightarrow> xs = ys"
  by (auto simp: prefix_def append_eq_append_conv)

lemma list_all_filter_id: "list_all P xs \<Longrightarrow> filter P xs = xs"
  by (induction xs) auto

lemma map_filter_map_of: "filter P (map f xs) = map f (filter (P \<circ> f) xs)"
  by (induction xs) auto


subsection \<open>Early returns\<close>

text \<open>Sequencing of calls that may fail, and a loop whose body may return early with an error.\<close>

definition ebind :: "'e + 'a \<Rightarrow> ('a \<Rightarrow> 'e + 'b) \<Rightarrow> 'e + 'b" where
  "ebind m f = (case m of Inl e \<Rightarrow> Inl e | Inr x \<Rightarrow> f x)"

lemma ebind_simps [simp]: "ebind (Inl e) f = Inl e" "ebind (Inr x) f = f x"
  by (simp_all add: ebind_def)

lemma ebind_Inr_iff: "ebind m f = Inr y \<longleftrightarrow> (\<exists>x. m = Inr x \<and> f x = Inr y)"
  by (simp add: ebind_def split: sum.split)

fun efold :: "('a \<Rightarrow> 's \<Rightarrow> 'e + 's) \<Rightarrow> 'a list \<Rightarrow> 's \<Rightarrow> 'e + 's" where
  "efold f [] s = Inr s"
| "efold f (x # xs) s = ebind (f x s) (efold f xs)"


text \<open>A loop whose body may fail to return.\<close>

fun ofold :: "('a \<Rightarrow> 's \<Rightarrow> 's option) \<Rightarrow> 'a list \<Rightarrow> 's \<Rightarrow> 's option" where
  "ofold f [] s = Some s"
| "ofold f (x # xs) s = Option.bind (f x s) (ofold f xs)"

lemma ofold_append: "ofold f (xs @ ys) s = Option.bind (ofold f xs s) (ofold f ys)"
  by (induction xs arbitrary: s) (auto split: option.splits bind_splits)

lemma ofold_map: "ofold f (map h xs) s = ofold (\<lambda>x. f (h x)) xs s"
proof (induction xs arbitrary: s)
  case (Cons x xs)
  then show ?case by (cases "f (h x) s") simp_all
qed simp


subsection \<open>Sorting by a key\<close>

text \<open>
  Go's \<^verbatim>\<open>sort.Slice\<close> is not stable, so its result is only determined up to the order of elements
  with equal keys.  Whenever the keys are pairwise distinct every sorted permutation of the input
  is the same list, which is what the stable \<^const>\<open>sort_key\<close> of the model computes.
\<close>

definition sorted_perm :: "('a \<Rightarrow> 'k::linorder) \<Rightarrow> 'a list \<Rightarrow> 'a list \<Rightarrow> bool" where
  "sorted_perm key xs ys \<longleftrightarrow> mset ys = mset xs \<and> sorted (map key ys)"

lemma filter_key_singleton:
  "distinct (map key xs) \<Longrightarrow> x \<in> set xs \<Longrightarrow> filter (\<lambda>y. key x = key y) xs = [x]"
  by (induction xs) (auto simp: filter_empty_conv image_iff)

lemma sort_key_mset_eq:
  assumes "mset xs = mset ys" and "distinct (map key ys)"
  shows "sort_key key xs = sort_key key ys"
proof (rule properties_for_sort_key)
  show "mset (sort_key key ys) = mset xs" using assms(1) by simp
  have dx: "distinct (map key xs)"
    using assms mset_eq_imp_distinct_iff [of "map key xs" "map key ys"] by simp
  have ds: "distinct (map key (sort_key key ys))"
    using assms(2) mset_eq_imp_distinct_iff [of "map key (sort_key key ys)" "map key ys"] by simp
  fix k assume k: "k \<in> set (sort_key key ys)"
  then have kx: "k \<in> set xs" using assms(1) by (metis set_sort set_mset_mset)
  show "filter (\<lambda>x. key k = key x) (sort_key key ys) = filter (\<lambda>x. key k = key x) xs"
    by (simp only: filter_key_singleton [OF dx kx] filter_key_singleton [OF ds k])
qed simp

lemma sorted_perm_unique:
  assumes "sorted_perm key xs ys" and "distinct (map key xs)"
  shows "ys = sort_key key xs"
proof -
  have "distinct (map key ys)"
    using assms mset_eq_imp_distinct_iff [of "map key xs" "map key ys"]
    by (simp add: sorted_perm_def)
  then have "sort_key key xs = sort_key key ys"
    using assms(1) sort_key_mset_eq by (metis sorted_perm_def)
  moreover have "sort_key key ys = ys"
    using assms(1) by (simp add: sorted_perm_def sort_key_id_if_sorted)
  ultimately show ?thesis by simp
qed

end
