(* ===== verification/Bytes.thy ===== *)
theory Bytes
  imports Prelude "HOL-Library.Word"
begin

text \<open>
  Byte-level encodings of the Go standard library that the caches are built on: little-endian
  integers (\<^verbatim>\<open>encoding/binary\<close>), hexadecimal (\<^verbatim>\<open>encoding/hex\<close>) and SHA-256 (\<^verbatim>\<open>crypto/sha256\<close>),
  together with the three interfaces the cache theories share:

  \<^item> locale \<open>codec\<close>: an encoder with a decoder that returns the rest of the input; the law is that
    decoding undoes encoding whatever follows, and sequences inherit it;
  \<^item> locale \<open>exact_codec\<close>: a codec whose decoder accepts nothing but encodings;
  \<^item> locale \<open>keyed_digest\<close>: a cache key computed as a digest of an injective byte string; equal keys
    then mean equal inputs, or the two byte strings are an explicit collision of the digest.

  Lengths are \<^typ>\<open>nat\<close>; the truncation of \<^verbatim>\<open>uint32(len(s))\<close> and \<^verbatim>\<open>uint64(len(s))\<close> is part of
  \<open>le\<close>, which keeps the low bytes of its argument.
\<close>

unbundle bit_operations_syntax


subsection \<open>Little-endian integers\<close>

fun le :: "nat \<Rightarrow> nat \<Rightarrow> bytes" where
  "le 0 n = []"
| "le (Suc k) n = char_of (n mod 256) # le k (n div 256)"

fun unle :: "bytes \<Rightarrow> nat" where
  "unle [] = 0"
| "unle (c # cs) = of_char c + 256 * unle cs"

lemma of_char_less: "(of_char c :: nat) < 256"
proof -
  have "(of_char c :: nat) = of_char c mod 256" using of_char_of [of "of_char c :: nat"] by simp
  then show ?thesis by simp
qed

lemma length_le [simp, codec_simps]: "length (le k n) = k"
  by (induction k arbitrary: n) auto

lemma unle_le_mod: "unle (le k n) = n mod 256 ^ k"
  by (induction k arbitrary: n) (auto simp: mod_mult2_eq)

lemma unle_le [codec_simps]: "n < 256 ^ k \<Longrightarrow> unle (le k n) = n"
  by (simp add: unle_le_mod)

lemma le_inject: "n < 256 ^ k \<Longrightarrow> m < 256 ^ k \<Longrightarrow> le k n = le k m \<longleftrightarrow> n = m"
  by (metis unle_le)

lemma unle_bound: "unle bs < 256 ^ length bs"
proof (induction bs)
  case (Cons c cs)
  have "(of_char c :: nat) < 256" by (rule of_char_less)
  moreover have "unle cs + 1 \<le> 256 ^ length cs" using Cons by simp
  ultimately have "of_char c + 256 * unle cs < 256 * (unle cs + 1)" by simp
  also have "\<dots> \<le> 256 * 256 ^ length cs" using \<open>unle cs + 1 \<le> 256 ^ length cs\<close> by (rule mult_le_mono2)
  finally show ?case by simp
qed simp

lemma le_unle: "le (length bs) (unle bs) = bs"
proof (induction bs)
  case (Cons c cs)
  have "(of_char c + 256 * unle cs) mod 256 = of_char c" "(of_char c + 256 * unle cs) div 256 = unle cs"
    using of_char_less [of c] by simp_all
  with Cons show ?case by simp
qed simp

text \<open>A Go slice or string length is a non-negative \<^verbatim>\<open>int\<close>.\<close>

definition go_len :: "'a list \<Rightarrow> bool" where
  "go_len s \<longleftrightarrow> length s < 2 ^ 63"

lemma go_len_le8 [codec_simps]: "go_len s \<Longrightarrow> unle (le 8 (length s)) = length s"
  by (simp add: unle_le go_len_def)


subsection \<open>Decoders that return the rest of the input\<close>

fun read_n :: "(nat \<Rightarrow> bytes \<Rightarrow> ('a \<times> bytes) result) \<Rightarrow> nat \<Rightarrow> nat \<Rightarrow> bytes \<Rightarrow> ('a list \<times> bytes) result" where
  "read_n dec i 0 bs = Inr ([], bs)"
| "read_n dec i (Suc n) bs =
     (case dec i bs of
        Inl e \<Rightarrow> Inl e
      | Inr (x, r) \<Rightarrow>
          (case read_n dec (Suc i) n r of
             Inl e \<Rightarrow> Inl e
           | Inr (xs, r') \<Rightarrow> Inr (x # xs, r')))"

lemma read_n_length: "read_n dec i n bs = Inr (xs, r) \<Longrightarrow> length xs = n"
  by (induction n arbitrary: i bs xs r) (auto split: sum.splits)

locale codec =
  fixes enc :: "'a \<Rightarrow> bytes"
    and dec :: "nat \<Rightarrow> bytes \<Rightarrow> ('a \<times> bytes) result"
    and ok :: "'a \<Rightarrow> bool"
  assumes dec_enc: "ok x \<Longrightarrow> dec i (enc x @ r) = Inr (x, r)"
    and enc_nonempty: "enc x \<noteq> []"
begin

lemma enc_append_inject:
  assumes "ok x" and "ok y" and "enc x @ r = enc y @ s"
  shows "x = y \<and> r = s"
proof -
  have "dec 0 (enc x @ r) = dec 0 (enc y @ s)" using assms(3) by (rule arg_cong)
  then show ?thesis unfolding dec_enc [OF assms(1)] dec_enc [OF assms(2)] by simp
qed

lemma enc_inject: "ok x \<Longrightarrow> ok y \<Longrightarrow> enc x = enc y \<Longrightarrow> x = y"
  using enc_append_inject [of x y "[]" "[]"] by simp

lemma read_n_encs:
  "list_all ok xs \<Longrightarrow> read_n dec i (length xs) (concat (map enc xs) @ r) = Inr (xs, r)"
  by (induction xs arbitrary: i) (auto simp: dec_enc)

lemma encs_inject:
  "list_all ok xs \<Longrightarrow> list_all ok ys \<Longrightarrow> concat (map enc xs) = concat (map enc ys) \<Longrightarrow> xs = ys"
proof (induction xs arbitrary: ys)
  case Nil
  then show ?case by (cases ys) (auto simp: enc_nonempty)
next
  case (Cons x xs)
  have "ys \<noteq> []" using Cons.prems(3) enc_nonempty [of x] by fastforce
  then obtain y ys' where ys: "ys = y # ys'" by (cases ys) auto
  have "enc x @ concat (map enc xs) = enc y @ concat (map enc ys')"
    using Cons.prems(3) unfolding ys list.map concat.simps .
  moreover have "ok x" "ok y" using Cons.prems(1,2) ys by simp_all
  ultimately have "x = y \<and> concat (map enc xs) = concat (map enc ys')"
    by (intro enc_append_inject)
  with Cons.IH [of ys'] Cons.prems ys show ?case by simp
qed

end


text \<open>A decoder that accepts nothing but encodings.\<close>

locale exact_codec = codec +
  assumes dec_sound: "dec i r = Inr (x, r') \<Longrightarrow> r = enc x @ r' \<and> ok x"
begin

lemma read_n_sound:
  "read_n dec i n r = Inr (xs, r') \<Longrightarrow> r = concat (map enc xs) @ r' \<and> list_all ok xs \<and> length xs = n"
proof (induction n arbitrary: i r xs)
  case (Suc n)
  then obtain x r1 ys where "dec i r = Inr (x, r1)" "read_n dec (Suc i) n r1 = Inr (ys, r')" "xs = x # ys"
    by (auto split: sum.splits)
  with Suc.IH [of "Suc i" r1 ys] dec_sound [of i r x r1] show ?case by simp
qed simp

end


subsection \<open>Length-prefixed chunks\<close>

text \<open>
  The framing every key derivation uses: \<^verbatim>\<open>PutUint64(len(p))\<close> followed by the bytes of \<^verbatim>\<open>p\<close>.
  \<open>unframe\<close> is its inverse; it is not code of the repository, only the reason the framing is
  injective.
\<close>

definition frame :: "bytes \<Rightarrow> bytes" where
  "frame s = le 8 (length s) @ s"

definition frames :: "bytes list \<Rightarrow> bytes" where
  "frames ps = concat (map frame ps)"

definition unframe :: "nat \<Rightarrow> bytes \<Rightarrow> (bytes \<times> bytes) result" where
  "unframe i bs = (let n = unle (take 8 bs); r = drop 8 bs in Inr (take n r, drop n r))"

interpretation frame: codec frame unframe go_len
  by unfold_locales (auto simp: frame_def unframe_def Let_def codec_simps dest!: arg_cong [of _ _ length])

lemma frames_inject:
  "list_all go_len xs \<Longrightarrow> list_all go_len ys \<Longrightarrow> frames xs = frames ys \<Longrightarrow> xs = ys"
  unfolding frames_def by (rule frame.encs_inject)

lemma frames_append [simp]: "frames (xs @ ys) = frames xs @ frames ys"
  by (simp add: frames_def)

lemma frames_Cons [simp]: "frames (x # xs) = frame x @ frames xs"
  by (simp add: frames_def)

lemma frames_Nil [simp]: "frames [] = []"
  by (simp add: frames_def)

lemmas frame_append_inject = frame.enc_append_inject


subsection \<open>Hexadecimal\<close>

definition hexdigit :: "nat \<Rightarrow> char" where
  \<comment> \<open>the digits 0 to 9, then a to f\<close>
  "hexdigit n = char_of (if n < 10 then 48 + n else 87 + n)"

fun hex_encode :: "bytes \<Rightarrow> string" where
  "hex_encode [] = []"
| "hex_encode (c # cs) =
     hexdigit (of_char c div 16) # hexdigit (of_char c mod 16) # hex_encode cs"

text \<open>\<^verbatim>\<open>hex.DecodeString\<close> accepts both letter cases.\<close>

definition unhexdigit :: "char \<Rightarrow> nat option" where
  "unhexdigit c =
     (let n = of_char c :: nat in
      if 48 \<le> n \<and> n \<le> 57 then Some (n - 48)
      else if 97 \<le> n \<and> n \<le> 102 then Some (n - 87)
      else if 65 \<le> n \<and> n \<le> 70 then Some (n - 55)
      else None)"

fun hex_decode :: "string \<Rightarrow> bytes option" where
  "hex_decode [] = Some []"
| "hex_decode [c] = None"
| "hex_decode (a # b # cs) =
     (case (unhexdigit a, unhexdigit b, hex_decode cs) of
        (Some x, Some y, Some r) \<Rightarrow> Some (char_of (16 * x + y) # r)
      | _ \<Rightarrow> None)"

lemma length_hex_encode [simp, codec_simps]: "length (hex_encode bs) = 2 * length bs"
  by (induction bs) auto

lemma unhexdigit_hexdigit: "n < 16 \<Longrightarrow> unhexdigit (hexdigit n) = Some n"
  by (auto simp: unhexdigit_def hexdigit_def Let_def)

lemma hex_decode_encode [simp, codec_simps]: "hex_decode (hex_encode bs) = Some bs"
proof (induction bs)
  case (Cons c cs)
  have "(of_char c :: nat) < 256" by (rule of_char_less)
  then have "of_char c div 16 < (16 :: nat)" by (simp add: less_mult_imp_div_less)
  then have "unhexdigit (hexdigit (of_char c div 16)) = Some (of_char c div 16)"
    and "unhexdigit (hexdigit (of_char c mod 16)) = Some (of_char c mod 16)"
    using unhexdigit_hexdigit by simp_all
  with Cons show ?case by simp
qed simp

lemma hex_encode_inject [simp]: "hex_encode xs = hex_encode ys \<longleftrightarrow> xs = ys"
  by (metis hex_decode_encode option.inject)


subsection \<open>SHA-256\<close>

text \<open>FIPS 180-4, on bytes: padding, 64-byte blocks, the message schedule and 64 rounds.\<close>

type_synonym w32 = "32 word"
type_synonym sha_state = "w32 \<times> w32 \<times> w32 \<times> w32 \<times> w32 \<times> w32 \<times> w32 \<times> w32"

definition sha_k :: "w32 list" where
  "sha_k = [
     1116352408, 1899447441, 3049323471, 3921009573, 961987163, 1508970993, 2453635748,
     2870763221, 3624381080, 310598401, 607225278, 1426881987, 1925078388, 2162078206,
     2614888103, 3248222580, 3835390401, 4022224774, 264347078, 604807628, 770255983,
     1249150122, 1555081692, 1996064986, 2554220882, 2821834349, 2952996808, 3210313671,
     3336571891, 3584528711, 113926993, 338241895, 666307205, 773529912, 1294757372,
     1396182291, 1695183700, 1986661051, 2177026350, 2456956037, 2730485921, 2820302411,
     3259730800, 3345764771, 3516065817, 3600352804, 4094571909, 275423344, 430227734,
     506948616, 659060556, 883997877, 958139571, 1322822218, 1537002063, 1747873779,
     1955562222, 2024104815, 2227730452, 2361852424, 2428436474, 2756734187, 3204031479,
     3329325298]"

definition sha_h0 :: sha_state where
  "sha_h0 = (
     1779033703, 3144134277, 1013904242, 2773480762, 1359893119, 2600822924, 528734635,
     1541459225)"

definition rotr32 :: "nat \<Rightarrow> w32 \<Rightarrow> w32" where
  "rotr32 n x = drop_bit n x OR push_bit (32 - n) x"

definition sha_sched_word :: "w32 list \<Rightarrow> w32" where
  \<comment> \<open>the words so far, the latest first\<close>
  "sha_sched_word ws =
     (let a = ws ! 1; b = ws ! 14
      in (rotr32 17 a XOR rotr32 19 a XOR drop_bit 10 a) + ws ! 6
       + (rotr32 7 b XOR rotr32 18 b XOR drop_bit 3 b) + ws ! 15)"

fun sha_schedule :: "nat \<Rightarrow> w32 list \<Rightarrow> w32 list" where
  "sha_schedule 0 ws = rev ws"
| "sha_schedule (Suc n) ws = sha_schedule n (sha_sched_word ws # ws)"

fun sha_round :: "w32 \<times> w32 \<Rightarrow> sha_state \<Rightarrow> sha_state" where
  "sha_round (k, w) (a, b, c, d, e, f, g, h) =
     (let t1 = h + (rotr32 6 e XOR rotr32 11 e XOR rotr32 25 e) + ((e AND f) XOR (NOT e AND g)) + k + w;
          t2 = (rotr32 2 a XOR rotr32 13 a XOR rotr32 22 a) + ((a AND b) XOR (a AND c) XOR (b AND c))
      in (t1 + t2, a, b, c, d + t1, e, f, g))"

fun sha_add :: "sha_state \<Rightarrow> sha_state \<Rightarrow> sha_state" where
  "sha_add (a, b, c, d, e, f, g, h) (a', b', c', d', e', f', g', h') =
     (a + a', b + b', c + c', d + d', e + e', f + f', g + g', h + h')"

definition be32_word :: "bytes \<Rightarrow> w32" where
  "be32_word bs = word_of_nat (unle (rev bs))"

definition word_be32 :: "w32 \<Rightarrow> bytes" where
  "word_be32 w = rev (le 4 (unat w))"

function chunks_of :: "nat \<Rightarrow> 'a list \<Rightarrow> 'a list list" where
  "chunks_of n xs = (if n = 0 \<or> xs = [] then [] else take n xs # chunks_of n (drop n xs))"
  by pat_completeness auto
termination
  by (relation "measure (\<lambda>(n, xs). length xs)") auto

declare chunks_of.simps [simp del]

definition sha_block :: "bytes \<Rightarrow> sha_state \<Rightarrow> sha_state" where
  "sha_block blk st =
     sha_add st (fold sha_round (zip sha_k (sha_schedule 48 (rev (map be32_word (chunks_of 4 blk))))) st)"

definition sha_pad :: "bytes \<Rightarrow> bytes" where
  "sha_pad m = m @ char_of (128 :: nat) # replicate ((119 - length m mod 64) mod 64) (char_of (0 :: nat))
     @ rev (le 8 (8 * length m))"

definition sha256 :: "bytes \<Rightarrow> bytes" where
  "sha256 m =
     (case fold sha_block (chunks_of 64 (sha_pad m)) sha_h0 of
        (a, b, c, d, e, f, g, h) \<Rightarrow> concat (map word_be32 [a, b, c, d, e, f, g, h]))"

lemma length_sha256 [simp, codec_simps]: "length (sha256 m) = 32"
  by (simp add: sha256_def word_be32_def split: prod.splits)

lemma length_sha_pad: "length (sha_pad m) mod 64 = 0"
proof -
  define k where "k = length m mod 64"
  have k: "k < 64" by (simp add: k_def)
  have "(k + 9 + (119 - k) mod 64) mod 64 = 0"
  proof (cases "k < 56")
    case True
    then have "(119 - k) mod 64 = 55 - k" by (simp add: le_mod_geq)
    with True show ?thesis by simp
  next
    case False
    with k show ?thesis by simp
  qed
  moreover have "length (sha_pad m) mod 64 = (k + 9 + (119 - k) mod 64) mod 64"
    unfolding sha_pad_def k_def by (simp add: mod_simps add.assoc)
  ultimately show ?thesis by simp
qed


subsection \<open>Keys as digests\<close>

definition collision :: "(bytes \<Rightarrow> bytes) \<Rightarrow> bytes \<Rightarrow> bytes \<Rightarrow> bool" where
  "collision H x y \<longleftrightarrow> x \<noteq> y \<and> H x = H y"

locale keyed_digest =
  fixes H :: "bytes \<Rightarrow> bytes"
    and pre :: "'a \<Rightarrow> bytes"
    and key :: "'a \<Rightarrow> bytes"
    and ok :: "'a \<Rightarrow> bool"
  assumes key_eq: "key x = H (pre x)"
    and pre_inject: "ok x \<Longrightarrow> ok y \<Longrightarrow> pre x = pre y \<Longrightarrow> x = y"
begin

lemma same_key:
  assumes "ok x" and "ok y" and "key x = key y"
  shows "x = y \<or> collision H (pre x) (pre y)"
  using assms pre_inject [of x y] by (auto simp: collision_def key_eq)

lemma collision_free_inject:
  assumes "ok x" and "ok y" and "key x = key y" and "\<not> collision H (pre x) (pre y)"
  shows "x = y"
  using same_key [OF assms(1-3)] assms(4) by blast

end

end
