(* ===== verification/GoLib.thy ===== *)
theory GoLib
  imports Prelude
begin

text \<open>
  The parts of Go's \<^verbatim>\<open>strings\<close>, \<^verbatim>\<open>path/filepath\<close>, \<^verbatim>\<open>strconv\<close> and \<^verbatim>\<open>fmt\<close> the modelled code calls,
  on byte strings, for a POSIX host (separator \<^verbatim>\<open>/\<close>, no volume names, \<^verbatim>\<open>ToSlash\<close> the identity).
  Case mapping is that of ASCII; the Unicode letters the library also maps are outside the model.
\<close>

subsection \<open>strings\<close>

definition HasPrefix :: "string \<Rightarrow> string \<Rightarrow> bool" where
  "HasPrefix s p \<longleftrightarrow> take (length p) s = p"

definition HasSuffix :: "string \<Rightarrow> string \<Rightarrow> bool" where
  "HasSuffix s p \<longleftrightarrow> length p \<le> length s \<and> drop (length s - length p) s = p"

definition TrimPrefix :: "string \<Rightarrow> string \<Rightarrow> string" where
  "TrimPrefix s p = (if HasPrefix s p then drop (length p) s else s)"

definition TrimSuffix :: "string \<Rightarrow> string \<Rightarrow> string" where
  "TrimSuffix s p = (if HasSuffix s p then take (length s - length p) s else s)"

fun str_index :: "string \<Rightarrow> string \<Rightarrow> nat option" where
  "str_index [] p = (if p = [] then Some 0 else None)"
| "str_index (c # cs) p =
     (if HasPrefix (c # cs) p then Some 0 else map_option Suc (str_index cs p))"

definition Contains :: "string \<Rightarrow> string \<Rightarrow> bool" where
  "Contains s p \<longleftrightarrow> str_index s p \<noteq> None"

fun split_on :: "char \<Rightarrow> string \<Rightarrow> string list" where
  "split_on c [] = [[]]"
| "split_on c (x # xs) =
     (case split_on c xs of
        [] \<Rightarrow> [[x]]
      | w # ws \<Rightarrow> if x = c then [] # w # ws else (x # w) # ws)"

fun join_with :: "string \<Rightarrow> string list \<Rightarrow> string" where
  "join_with sep [] = []"
| "join_with sep [w] = w"
| "join_with sep (w # ws) = w @ sep @ join_with sep ws"

definition is_space :: "char \<Rightarrow> bool" where
  "is_space c \<longleftrightarrow> (let n = of_char c :: nat in n = 32 \<or> (9 \<le> n \<and> n \<le> 13))"

text \<open>The UTF-8 forms of two and three bytes of the white space of \<^verbatim>\<open>unicode.IsSpace\<close> beyond ASCII.\<close>

definition wide_space2 :: "char \<Rightarrow> char \<Rightarrow> bool" where
  "wide_space2 a b \<longleftrightarrow> a = CHR 0xC2 \<and> (b = CHR 0x85 \<or> b = CHR 0xA0)"

definition wide_space3 :: "char \<Rightarrow> char \<Rightarrow> char \<Rightarrow> bool" where
  "wide_space3 a b c \<longleftrightarrow>
     (let n = of_char c :: nat in
      a = CHR 0xE1 \<and> b = CHR 0x9A \<and> n = 0x80
      \<or> a = CHR 0xE2 \<and> b = CHR 0x80 \<and> (0x80 \<le> n \<and> n \<le> 0x8A \<or> n = 0xA8 \<or> n = 0xA9 \<or> n = 0xAF)
      \<or> a = CHR 0xE2 \<and> b = CHR 0x81 \<and> n = 0x9F
      \<or> a = CHR 0xE3 \<and> b = CHR 0x80 \<and> n = 0x80)"

fun trim_run :: "(char \<Rightarrow> char \<Rightarrow> bool) \<Rightarrow> (char \<Rightarrow> char \<Rightarrow> char \<Rightarrow> bool) \<Rightarrow> string \<Rightarrow> string" where
  "trim_run w2 w3 [] = []"
| "trim_run w2 w3 [a] = (if is_space a then [] else [a])"
| "trim_run w2 w3 [a, b] = (if is_space a then trim_run w2 w3 [b] else if w2 a b then [] else [a, b])"
| "trim_run w2 w3 (a # b # c # r) =
     (if is_space a then trim_run w2 w3 (b # c # r)
      else if w2 a b then trim_run w2 w3 (c # r)
      else if w3 a b c then trim_run w2 w3 r
      else a # b # c # r)"

definition TrimSpace :: "string \<Rightarrow> string" where
  "TrimSpace s =
     rev (trim_run (\<lambda>b a. wide_space2 a b) (\<lambda>c b a. wide_space3 a b c) (rev (trim_run wide_space2 wide_space3 s)))"

abbreviation ascii :: "char \<Rightarrow> bool" where
  "ascii c \<equiv> (of_char c :: nat) < 128"

lemma wide_space_ascii:
  "ascii a \<or> ascii b \<Longrightarrow> \<not> wide_space2 a b" "ascii a \<or> ascii b \<or> ascii c \<Longrightarrow> \<not> wide_space3 a b c"
  by (auto simp: wide_space2_def wide_space3_def Let_def)

lemma trim_run_stop: "ascii a \<Longrightarrow> \<not> is_space a \<Longrightarrow> trim_run wide_space2 wide_space3 (a # s) = a # s"
  "ascii a \<Longrightarrow> \<not> is_space a \<Longrightarrow> trim_run (\<lambda>b a. wide_space2 a b) (\<lambda>c b a. wide_space3 a b c) (a # s) = a # s"
  by (cases s; cases "tl s"; auto simp: wide_space_ascii)+

lemma trim_run_skip: "is_space a \<Longrightarrow> trim_run w2 w3 (a # s) = trim_run w2 w3 s"
  by (cases s; cases "tl s") auto

lemma TrimSpace_tight:
  assumes "list_all (\<lambda>c. \<not> is_space c \<and> ascii c) s"
  shows "TrimSpace s = s"
proof (cases "rev s")
  case (Cons c r)
  then have "c \<in> set s" by (metis list.set_intros(1) set_rev)
  then have "\<not> is_space c" "ascii c" using assms by (auto simp: list_all_iff)
  moreover have "trim_run wide_space2 wide_space3 s = s" using assms by (cases s) (auto simp: trim_run_stop)
  ultimately show ?thesis using Cons by (simp add: TrimSpace_def trim_run_stop)
qed (simp add: TrimSpace_def)

lemmas trim_eval = TrimSpace_def is_space_def wide_space2_def wide_space3_def

definition to_lower_char :: "char \<Rightarrow> char" where
  "to_lower_char c = (let n = of_char c :: nat in if 65 \<le> n \<and> n \<le> 90 then char_of (n + 32) else c)"

definition to_upper_char :: "char \<Rightarrow> char" where
  "to_upper_char c = (let n = of_char c :: nat in if 97 \<le> n \<and> n \<le> 122 then char_of (n - 32) else c)"

definition ToLower :: "string \<Rightarrow> string" where
  "ToLower s = map to_lower_char s"

definition ToUpper :: "string \<Rightarrow> string" where
  "ToUpper s = map to_upper_char s"

definition EqualFold :: "string \<Rightarrow> string \<Rightarrow> bool" where
  "EqualFold s t \<longleftrightarrow> ToLower s = ToLower t"

lemma HasPrefix_append [simp]: "HasPrefix (p @ s) p"
  by (simp add: HasPrefix_def)

lemma HasPrefix_iff_prefix: "HasPrefix s p \<longleftrightarrow> prefix p s"
  unfolding HasPrefix_def prefix_def by (metis append_take_drop_id append_eq_conv_conj)

lemma str_index_char: "c \<notin> set s \<Longrightarrow> str_index (s @ c # t) [c] = Some (length s)"
  by (induction s) (auto simp: HasPrefix_def)

lemma TrimSpace_ends:
  assumes "s \<noteq> []" and "ascii (hd s) \<and> \<not> is_space (hd s)" and "ascii (last s) \<and> \<not> is_space (last s)"
  shows "TrimSpace s = s"
proof -
  have "s = hd s # tl s" using assms(1) by simp
  then have 1: "trim_run wide_space2 wide_space3 s = s" using assms(2) trim_run_stop(1) by metis
  have "rev s = last s # rev (butlast s)" using assms(1) by (metis append_butlast_last_id rev.simps(2) rev_rev_ident)
  then show ?thesis unfolding TrimSpace_def 1 using assms(3) trim_run_stop(2) by (metis rev_rev_ident)
qed

lemma split_on_neq_Nil [simp]: "split_on c s \<noteq> []"
  by (induction s) (auto split: list.splits)

lemma split_on_no_sep: "w \<in> set (split_on c s) \<Longrightarrow> c \<notin> set w"
  by (induction s arbitrary: w) (auto split: list.splits if_splits)

lemma split_on_id: "c \<notin> set s \<Longrightarrow> split_on c s = [s]"
  by (induction s) auto

lemma split_on_append:
  "c \<notin> set s \<Longrightarrow> split_on c (s @ c # t) = s # split_on c t"
proof (induction s)
  case Nil
  show ?case by (cases "split_on c t") auto
qed auto

lemma join_split_on: "join_with [c] (split_on c s) = s"
proof (induction s)
  case (Cons x xs)
  obtain w ws where w: "split_on c xs = w # ws"
    by (cases "split_on c xs") auto
  with Cons show ?case by (cases ws) auto
qed simp

lemma split_on_append_sep: "split_on c (s @ c # t) = split_on c s @ split_on c t"
proof (induction s)
  case Nil
  show ?case by (cases "split_on c t") auto
next
  case (Cons x xs)
  then show ?case by (cases "split_on c xs") auto
qed

lemma split_on_Cons_sep [simp]: "split_on c (c # t) = [] # split_on c t"
  using split_on_append_sep [of c "[]" t] by simp

lemma split_on_append_no_sep:
  "c \<notin> set t \<Longrightarrow> split_on c (s @ t) = butlast (split_on c s) @ [last (split_on c s) @ t]"
proof (induction s)
  case Nil
  then show ?case by (simp add: split_on_id)
next
  case (Cons x s)
  obtain w ws where w: "split_on c s = w # ws" by (cases "split_on c s") auto
  with Cons show ?case by (cases ws) auto
qed

lemma split_join_with:
  "ws \<noteq> [] \<Longrightarrow> \<forall>w \<in> set ws. c \<notin> set w \<Longrightarrow> split_on c (join_with [c] ws) = ws"
proof (induction "[c]" ws rule: join_with.induct [case_names Nil Single Cons])
  case (Single w)
  then show ?case by (simp add: split_on_id)
next
  case (Cons w v vs)
  then show ?case using split_on_append_sep [of c w "join_with [c] (v # vs)"] by (simp add: split_on_id)
qed simp


subsection \<open>path/filepath\<close>

definition IsAbs :: "string \<Rightarrow> bool" where
  "IsAbs p \<longleftrightarrow> HasPrefix p ''/''"

definition Base :: "string \<Rightarrow> string" where
  "Base p =
     (if p = [] then ''.''
      else let q = rev (dropWhile (\<lambda>c. c = CHR ''/'') (rev p));
               b = last (split_on (CHR ''/'') q)
           in if b = [] then ''/'' else b)"

text \<open>
  \<open>clean_step\<close> processes one path element against the reversed list of elements kept so far.
\<close>

fun clean_step :: "bool \<Rightarrow> string \<Rightarrow> string list \<Rightarrow> string list" where
  "clean_step rooted w st =
     (if w = [] \<or> w = ''.'' then st
      else if w = ''..'' then
        (case st of
           [] \<Rightarrow> if rooted then [] else [''..'']
         | t # ts \<Rightarrow> if t = ''..'' then ''..'' # st else ts)
      else w # st)"

definition clean_segs :: "string \<Rightarrow> string list" where
  "clean_segs p = rev (fold (clean_step (IsAbs p)) (split_on (CHR ''/'') p) [])"

definition Clean :: "string \<Rightarrow> string" where
  "Clean p =
     (if IsAbs p then ''/'' @ join_with ''/'' (clean_segs p)
      else if clean_segs p = [] then ''.'' else join_with ''/'' (clean_segs p))"

definition Join :: "string list \<Rightarrow> string" where
  "Join es = (case dropWhile (\<lambda>e. e = []) es of [] \<Rightarrow> [] | es' \<Rightarrow> Clean (join_with ''/'' es'))"

definition Dir :: "string \<Rightarrow> string" where
  "Dir p = Clean (concat (map (\<lambda>w. w @ ''/'') (butlast (split_on (CHR ''/'') p))))"

fun strip_common :: "'a list \<Rightarrow> 'a list \<Rightarrow> 'a list \<times> 'a list" where
  "strip_common (x # xs) (y # ys) = (if x = y then strip_common xs ys else (x # xs, y # ys))"
| "strip_common xs ys = (xs, ys)"

text \<open>\<^verbatim>\<open>filepath.Rel(base, target)\<close>; \<open>None\<close> is its error.\<close>

definition Rel :: "string \<Rightarrow> string \<Rightarrow> string option" where
  "Rel base targ =
     (if Clean base = Clean targ then Some ''.''
      else if IsAbs base \<noteq> IsAbs targ then None
      else let (bs, ts) = strip_common (clean_segs base) (clean_segs targ)
           in if bs \<noteq> [] \<and> hd bs = ''..'' then None
              else Some (join_with ''/'' (replicate (length bs) ''..'' @ ts)))"

lemma split_on_last:
  "c \<notin> set b \<Longrightarrow> last (split_on c (d @ c # b)) = b"
proof (induction d)
  case Nil
  then show ?case by (simp add: split_on_id)
next
  case (Cons x xs)
  obtain w ws where w: "split_on c (xs @ c # b) = w # ws" "ws \<noteq> []"
  proof (cases "split_on c (xs @ c # b)")
    case (Cons w ws)
    have "ws \<noteq> []"
    proof
      assume "ws = []"
      then have "xs @ c # b = w" using join_split_on [of c "xs @ c # b"] Cons by simp
      then show False using split_on_no_sep [of w c "xs @ c # b"] Cons by auto
    qed
    with Cons show thesis by (rule that)
  qed auto
  with Cons show ?case by auto
qed

lemma Base_join:
  assumes "CHR ''/'' \<notin> set b" and "b \<noteq> []"
  shows "Base (d @ ''/'' @ b) = b"
proof -
  have "last b \<noteq> CHR ''/''" using assms by (metis last_in_set)
  then have "rev b \<noteq> []" "hd (rev b) \<noteq> CHR ''/''"
    using assms(2) by (simp_all add: hd_rev)
  then have "dropWhile (\<lambda>c. c = CHR ''/'') (rev (d @ ''/'' @ b)) = rev (d @ ''/'' @ b)"
    by (cases "rev b") auto
  then show ?thesis
    using assms split_on_last [of "CHR ''/''" b d] by (simp add: Base_def Let_def)
qed

lemma Base_no_slash: "Base p = ''/'' \<or> CHR ''/'' \<notin> set (Base p)"
  unfolding Base_def Let_def
  using split_on_no_sep [OF last_in_set [OF split_on_neq_Nil]] by (auto simp del: split_on.simps)


text \<open>Path elements that \<^const>\<open>Clean\<close> keeps as they are.\<close>

definition plain_seg :: "string \<Rightarrow> bool" where
  "plain_seg w \<longleftrightarrow> w \<noteq> [] \<and> w \<noteq> ''.'' \<and> w \<noteq> ''..'' \<and> CHR ''/'' \<notin> set w"

lemma fold_clean_plain:
  "list_all plain_seg ws \<Longrightarrow> fold (clean_step b) ws st = rev ws @ st"
  by (induction ws arbitrary: st) (simp_all add: plain_seg_def)

lemma clean_step_no_slash:
  "CHR ''/'' \<notin> set w \<Longrightarrow> \<forall>v \<in> set st. CHR ''/'' \<notin> set v \<Longrightarrow>
   \<forall>v \<in> set (clean_step b w st). CHR ''/'' \<notin> set v"
  by (auto split: list.splits)

lemma clean_segs_no_slash: "v \<in> set (clean_segs p) \<Longrightarrow> CHR ''/'' \<notin> set v"
proof -
  have "\<forall>v \<in> set (fold (clean_step b) ws st). CHR ''/'' \<notin> set v"
    if "\<forall>w \<in> set ws. CHR ''/'' \<notin> set w" "\<forall>v \<in> set st. CHR ''/'' \<notin> set v" for b ws st
    using that
  proof (induction ws arbitrary: st)
    case (Cons w ws)
    have "\<forall>v \<in> set (clean_step b w st). CHR ''/'' \<notin> set v"
      by (rule clean_step_no_slash) (use Cons.prems in auto)
    moreover have "\<forall>w \<in> set ws. CHR ''/'' \<notin> set w" using Cons.prems by simp
    ultimately show ?case unfolding fold_simps by (rule Cons.IH [rotated])
  qed simp
  note fld = this
  have "\<forall>v \<in> set (clean_segs p). CHR ''/'' \<notin> set v"
    unfolding clean_segs_def set_rev by (rule fld) (auto dest: split_on_no_sep)
  then show "v \<in> set (clean_segs p) \<Longrightarrow> CHR ''/'' \<notin> set v" by blast
qed

lemma clean_segs_join:
  assumes "root \<noteq> []" and "list_all plain_seg ws" and "ws \<noteq> []"
  shows "clean_segs (root @ ''/'' @ join_with ''/'' ws) = clean_segs root @ ws"
proof -
  have "split_on (CHR ''/'') (join_with ''/'' ws) = ws"
    using assms by (intro split_join_with) (auto simp: list_all_iff plain_seg_def)
  moreover have "IsAbs (root @ ''/'' @ join_with ''/'' ws) = IsAbs root"
    using assms(1) by (cases root) (auto simp: IsAbs_def HasPrefix_def)
  ultimately show ?thesis
    using assms(2) by (simp add: clean_segs_def split_on_append_sep fold_clean_plain)
qed

lemma Clean_join:
  assumes "root \<noteq> []" and "list_all plain_seg ws" and "ws \<noteq> []"
  shows "Clean (root @ ''/'' @ join_with ''/'' ws) =
    (if IsAbs root then ''/'' else []) @ join_with ''/'' (clean_segs root @ ws)"
proof -
  have "IsAbs (root @ ''/'' @ join_with ''/'' ws) = IsAbs root"
    using assms(1) by (cases root) (auto simp: IsAbs_def HasPrefix_def)
  then show ?thesis unfolding Clean_def using clean_segs_join [OF assms] assms(3) by simp
qed


subsection \<open>strconv and fmt\<close>

fun nat_digits :: "nat \<Rightarrow> string" where
  "nat_digits n =
     (if n < 10 then [char_of (48 + n)] else nat_digits (n div 10) @ [char_of (48 + n mod 10)])"

declare nat_digits.simps [simp del]

definition itoa :: "int \<Rightarrow> string" where
  "itoa i = (if i < 0 then ''-'' @ nat_digits (nat (- i)) else nat_digits (nat i))"

definition digit_val :: "char \<Rightarrow> nat option" where
  "digit_val c = (let n = of_char c :: nat in if 48 \<le> n \<and> n \<le> 57 then Some (n - 48) else None)"

text \<open>\<^verbatim>\<open>strconv.ParseUint(s, 10, 64)\<close>: \<open>None\<close> on a syntax or range error.\<close>

fun parse_digits :: "nat \<Rightarrow> string \<Rightarrow> nat option" where
  "parse_digits acc [] = Some acc"
| "parse_digits acc (c # cs) =
     (case digit_val c of None \<Rightarrow> None | Some d \<Rightarrow> parse_digits (10 * acc + d) cs)"

definition ParseUint64 :: "string \<Rightarrow> nat option" where
  "ParseUint64 s =
     (if s = [] then None
      else case parse_digits 0 s of
             None \<Rightarrow> None
           | Some n \<Rightarrow> if n < 2 ^ 64 then Some n else None)"

lemma digit_val_digit: "d < 10 \<Longrightarrow> digit_val (char_of (48 + d)) = Some d"
  by (simp add: digit_val_def Let_def)

lemma parse_digits_append:
  "parse_digits a (xs @ ys) =
     (case parse_digits a xs of None \<Rightarrow> None | Some b \<Rightarrow> parse_digits b ys)"
  by (induction xs arbitrary: a) (auto split: option.splits)

lemma parse_nat_digits: "parse_digits 0 (nat_digits n) = Some n"
proof (induction n rule: nat_digits.induct)
  case (1 n)
  show ?case
  proof (cases "n < 10")
    case True
    then show ?thesis by (simp add: nat_digits.simps [of n] digit_val_digit)
  next
    case False
    have "digit_val (char_of (48 + n mod 10)) = Some (n mod 10)"
      by (rule digit_val_digit) simp
    with False 1 show ?thesis
      by (simp add: nat_digits.simps [of n] parse_digits_append)
  qed
qed

lemma nat_digits_chars: "c \<in> set (nat_digits n) \<Longrightarrow> 48 \<le> (of_char c :: nat) \<and> (of_char c :: nat) \<le> 57"
proof (induction n rule: nat_digits.induct)
  case (1 n)
  then show ?case by (subst (asm) nat_digits.simps) (auto split: if_splits)
qed

lemma nat_digits_neq [simp]: "nat_digits n \<noteq> []"
  by (subst nat_digits.simps) simp

end
