(* ===== verification/Diagnostics.thy ===== *)
theory Diagnostics
  imports GoLib "HOL-Library.Product_Lexorder"
begin

text \<open>
  The diagnostic data model and its orderings (\<^verbatim>\<open>internal/output/diagnostic.go\<close>,
  \<^verbatim>\<open>internal/output/util.go\<close>): every component passes these records around, and \<open>Sort\<close> is what
  makes printed output reproducible.
\<close>

subsection \<open>Records\<close>

record position =
  Filename :: string
  Line :: int
  Column :: int

record textedit =
  Start :: position
  End :: position
  NewText :: string

record suggestedfix =
  FixMessage :: string
  TextEdits :: "textedit list"

record relatedinformation =
  RelPosition :: position
  RelMessage :: string

record diagnostic =
  Linter :: string
  Message :: string
  Severity :: string
  Pos :: position
  SourceLines :: "string list"
  SuggestedFixes :: "suggestedfix list"
  Related :: "relatedinformation list"

definition SeverityError :: string where "SeverityError = ''error''"
definition SeverityWarning :: string where "SeverityWarning = ''warning''"
definition SeverityInfo :: string where "SeverityInfo = ''info''"

text \<open>A diagnostic with the given linter, message and position and every other field empty.\<close>

definition mk_diag :: "string \<Rightarrow> string \<Rightarrow> string \<Rightarrow> int \<Rightarrow> int \<Rightarrow> diagnostic" where
  "mk_diag l m f n c =
     \<lparr>Linter = l, Message = m, Severity = [], Pos = \<lparr>Filename = f, Line = n, Column = c\<rparr>,
      SourceLines = [], SuggestedFixes = [], Related = []\<rparr>"

text \<open>Every file name a diagnostic mentions, and rewriting all of them.\<close>

definition map_pos :: "(string \<Rightarrow> string) \<Rightarrow> position \<Rightarrow> position" where
  "map_pos f p = p\<lparr>Filename := f (Filename p)\<rparr>"

definition map_edit :: "(string \<Rightarrow> string) \<Rightarrow> textedit \<Rightarrow> textedit" where
  "map_edit f e = e\<lparr>Start := map_pos f (Start e), End := map_pos f (End e)\<rparr>"

definition map_filenames :: "(string \<Rightarrow> string) \<Rightarrow> diagnostic \<Rightarrow> diagnostic" where
  "map_filenames f d =
     d\<lparr>Pos := map_pos f (Pos d),
       Related := map (\<lambda>r. r\<lparr>RelPosition := map_pos f (RelPosition r)\<rparr>) (Related d),
       SuggestedFixes := map (\<lambda>s. s\<lparr>TextEdits := map (map_edit f) (TextEdits s)\<rparr>) (SuggestedFixes d)\<rparr>"

definition diag_filenames :: "diagnostic \<Rightarrow> string list" where
  "diag_filenames d =
     Filename (Pos d) # map (Filename \<circ> RelPosition) (Related d)
     @ concat (map (\<lambda>s. concat (map (\<lambda>e. [Filename (Start e), Filename (End e)]) (TextEdits s)))
         (SuggestedFixes d))"

lemma map_pos_id: "f (Filename p) = Filename p \<Longrightarrow> map_pos f p = p"
  by (simp add: map_pos_def)

lemma map_edit_id: "f (Filename (Start e)) = Filename (Start e) \<Longrightarrow>
    f (Filename (End e)) = Filename (End e) \<Longrightarrow> map_edit f e = e"
  by (simp add: map_edit_def map_pos_id)

lemma map_filenames_id:
  assumes "\<And>n. n \<in> set (diag_filenames d) \<Longrightarrow> f n = n"
  shows "map_filenames f d = d"
proof -
  have r: "map (\<lambda>r. r\<lparr>RelPosition := map_pos f (RelPosition r)\<rparr>) (Related d) = Related d"
    by (rule map_idI) (use assms in \<open>auto simp: diag_filenames_def map_pos_id\<close>)
  have e: "map (map_edit f) (TextEdits s) = TextEdits s" if "s \<in> set (SuggestedFixes d)" for s
    by (rule map_idI, rule map_edit_id) (use assms that in \<open>fastforce simp: diag_filenames_def\<close>)+
  have s: "map (\<lambda>s. s\<lparr>TextEdits := map (map_edit f) (TextEdits s)\<rparr>) (SuggestedFixes d) = SuggestedFixes d"
    by (rule map_idI) (simp add: e)
  have "f (Filename (Pos d)) = Filename (Pos d)" using assms by (simp add: diag_filenames_def)
  then show ?thesis unfolding map_filenames_def r s by (simp add: map_pos_id)
qed

lemma map_filenames_comp: "map_filenames f (map_filenames g d) = map_filenames (f \<circ> g) d"
  by (simp add: map_filenames_def map_edit_def map_pos_def comp_def)


subsection \<open>Rendering\<close>

definition formatPos :: "position \<Rightarrow> string" where
  "formatPos p =
     (let name = (if Filename p = [] then ''-'' else Filename p)
      in if Column p \<noteq> 0 then name @ '':'' @ itoa (Line p) @ '':'' @ itoa (Column p)
         else name @ '':'' @ itoa (Line p))"

definition Description :: "diagnostic \<Rightarrow> string" where
  "Description d = Linter d @ '': '' @ Message d"

definition PosString :: "diagnostic \<Rightarrow> string" where
  "PosString d = formatPos (Pos d)"


subsection \<open>The severity sanitizer\<close>

record severitySanitizer =
  allowed :: "string list"
  defaultSeverity :: string
  unsupported :: "string list"

definition newSeveritySanitizer :: "string list \<Rightarrow> string \<Rightarrow> severitySanitizer" where
  "newSeveritySanitizer al df = \<lparr>allowed = al, defaultSeverity = df, unsupported = []\<rparr>"

definition sanitize :: "severitySanitizer \<Rightarrow> string \<Rightarrow> severitySanitizer \<times> string" where
  "sanitize s sev =
     (if sev = [] then (s, defaultSeverity s)
      else if sev \<in> set (allowed s) then (s, sev)
      else (s\<lparr>unsupported := List.insert sev (unsupported s)\<rparr>, defaultSeverity s))"

fun sanitize_all :: "severitySanitizer \<Rightarrow> string list \<Rightarrow> severitySanitizer \<times> string list" where
  "sanitize_all s [] = (s, [])"
| "sanitize_all s (x # xs) =
     (let (s', y) = sanitize s x; (s'', ys) = sanitize_all s' xs in (s'', y # ys))"

lemma sanitize_all_spec:
  "snd (sanitize_all s xs) = map (\<lambda>x. if x \<in> set (allowed s) \<and> x \<noteq> [] then x else defaultSeverity s) xs
   \<and> set (unsupported (fst (sanitize_all s xs)))
     = set (unsupported s) \<union> {x \<in> set xs. x \<noteq> [] \<and> x \<notin> set (allowed s)}"
proof (induction xs arbitrary: s)
  case (Cons x xs)
  show ?case
    using Cons [of "fst (sanitize s x)"] by (auto simp: sanitize_def Let_def split: prod.splits)
qed simp


subsection \<open>Sorting\<close>

text \<open>The comparison \<^verbatim>\<open>Sort\<close> hands to \<^verbatim>\<open>sort.SliceStable\<close>, branch by branch.\<close>

definition diag_less :: "diagnostic \<Rightarrow> diagnostic \<Rightarrow> bool" where
  "diag_less a b =
     (if Filename (Pos a) \<noteq> Filename (Pos b) then Filename (Pos a) < Filename (Pos b)
      else if Line (Pos a) \<noteq> Line (Pos b) then Line (Pos a) < Line (Pos b)
      else if Column (Pos a) \<noteq> Column (Pos b) then Column (Pos a) < Column (Pos b)
      else if Linter a \<noteq> Linter b then Linter a < Linter b
      else Message a < Message b)"

text \<open>\<^verbatim>\<open>sort.SliceStable\<close>: the unique stable sort, written as an insertion sort.\<close>

fun insert_stable :: "('a \<Rightarrow> 'a \<Rightarrow> bool) \<Rightarrow> 'a \<Rightarrow> 'a list \<Rightarrow> 'a list" where
  "insert_stable lt x [] = [x]"
| "insert_stable lt x (y # ys) =
     (if lt y x then y # insert_stable lt x ys else x # y # ys)"

definition SliceStable :: "('a \<Rightarrow> 'a \<Rightarrow> bool) \<Rightarrow> 'a list \<Rightarrow> 'a list" where
  "SliceStable lt xs = foldr (insert_stable lt) xs []"

definition Sort :: "diagnostic list \<Rightarrow> diagnostic list" where
  "Sort diags = SliceStable diag_less diags"

definition diag_key :: "diagnostic \<Rightarrow> string \<times> int \<times> int \<times> string \<times> string" where
  "diag_key d = (Filename (Pos d), Line (Pos d), Column (Pos d), Linter d, Message d)"

lemma diag_less_key: "diag_less a b \<longleftrightarrow> diag_key a < diag_key b"
  by (auto simp: diag_less_def diag_key_def less_prod_def)

lemma insert_stable_key:
  fixes key :: "'a \<Rightarrow> 'k::linorder"
  shows "insert_stable (\<lambda>a b. key a < key b) x ys = insort_key key x ys"
  by (induction ys) (auto simp: not_less)

lemma SliceStable_key:
  fixes key :: "'a \<Rightarrow> 'k::linorder"
  shows "SliceStable (\<lambda>a b. key a < key b) xs = sort_key key xs"
  by (induction xs) (simp_all add: SliceStable_def sort_key_def insert_stable_key)

lemma Sort_key: "Sort ds = sort_key diag_key ds"
proof -
  have "diag_less = (\<lambda>a b. diag_key a < diag_key b)" by (intro ext) (rule diag_less_key)
  then show ?thesis using SliceStable_key [of diag_key ds] by (simp only: Sort_def)
qed

text \<open>
  Sorting diagnostics is a stable sort by file, line, column, linter and message: the result
  is a permutation of the input, is ordered by that key, and keeps the input order of diagnostics
  the key does not separate.
\<close>

theorem Sort_correct:
  "mset (Sort ds) = mset ds \<and> sorted (map diag_key (Sort ds))
   \<and> filter (\<lambda>d. diag_key d = k) (Sort ds) = filter (\<lambda>d. diag_key d = k) ds"
proof -
  have "filter (\<lambda>d. diag_key d = k) (sort_key diag_key ds) = filter (\<lambda>d. diag_key d = k) ds"
    by (rule sort_key_stable)
  then show ?thesis by (simp add: Sort_key)
qed

text \<open>
  Sorting removes every trace of the order diagnostics arrived in: two runs that produce the
  same diagnostics in different orders sort to the same list, as long as no two of them agree on
  file, line, column, linter and message.
\<close>

theorem Sort_order_independent:
  assumes "mset ds = mset es" and "distinct (map diag_key ds)"
  shows "Sort ds = Sort es"
proof -
  have "mset (map diag_key ds) = mset (map diag_key es)" using assms(1) by (simp only: mset_map)
  then have "distinct (map diag_key es)" using assms(2) mset_eq_imp_distinct_iff by blast
  then show ?thesis unfolding Sort_key by (rule sort_key_mset_eq [OF assms(1)])
qed

theorem Sort_order_independent_witness:
  "Sort [mk_diag ''govet'' ''m'' ''b.go'' 3 1, mk_diag ''errcheck'' ''m'' ''a.go'' 7 1]
   = Sort [mk_diag ''errcheck'' ''m'' ''a.go'' 7 1, mk_diag ''govet'' ''m'' ''b.go'' 3 1]"
  by (rule Sort_order_independent) (simp_all add: diag_key_def mk_diag_def)

end
