(* ===== verification/CanonicalPath.thy ===== *)
theory CanonicalPath
  imports Diagnostics
begin

text \<open>
  Portable file names in cached diagnostics (\<^verbatim>\<open>internal/canonicalpath\<close>,
  \<^verbatim>\<open>internal/engine/canonicalize.go\<close>, \<^verbatim>\<open>internal/output/canonicalize.go\<close>): the engine rewrites every
  absolute file name to \<open><package path>/<base name>\<close> before a diagnostic is cached, and the
  printers map it back with a resolver built from the packages of the current run.

  A Go map from strings to strings is an association list with distinct keys; its length is the
  number of entries.  \<open>uri_of\<close> stands for \<^verbatim>\<open>protocol.URIFromPath\<close>, the key function of the
  engine's file table; the results hold for every such function.
\<close>

type_synonym smap = "(string \<times> string) list"

definition Canonicalize :: "string \<Rightarrow> string \<Rightarrow> string" where
  "Canonicalize absPath pkgPath =
     (if absPath = [] then [] else if pkgPath = [] then absPath
      else pkgPath @ ''/'' @ Base absPath)"

record resolver =
  pkgDirs :: smap

definition NewResolver :: "smap \<Rightarrow> resolver" where
  "NewResolver m = \<lparr>pkgDirs = m\<rparr>"

text \<open>
  \<open>canonical[:idx]\<close> and \<open>canonical[idx+1:]\<close> for the index of the last slash: the elements before
  it, rejoined, and the last element.
\<close>

definition Resolve :: "resolver option \<Rightarrow> string \<Rightarrow> string" where
  "Resolve r canonical =
     (if canonical = [] then []
      else case r of
        None \<Rightarrow> canonical
      | Some rr \<Rightarrow>
          if pkgDirs rr = [] then canonical
          else let segs = split_on (CHR ''/'') canonical;
                   pkgPath = join_with ''/'' (butlast segs);
                   base = last segs
               in if length segs \<le> 1 \<or> pkgPath = [] then canonical
                  else case map_of (pkgDirs rr) pkgPath of
                         Some dir \<Rightarrow> Join [dir, base]
                       | None \<Rightarrow> canonical)"

definition IsCanonical :: "string \<Rightarrow> bool" where
  "IsCanonical s \<longleftrightarrow> s \<noteq> [] \<and> \<not> IsAbs s \<and> CHR ''/'' \<in> set s"

text \<open>\<^verbatim>\<open>canonicalizeName\<close> and \<^verbatim>\<open>canonicalizeDiagnostics\<close> of the engine, \<^verbatim>\<open>ResolveDiagnostics\<close> of the printers.\<close>

definition canonicalizeName :: "(string \<Rightarrow> string) \<Rightarrow> smap \<Rightarrow> string \<Rightarrow> string" where
  "canonicalizeName uri_of uriPkg name =
     (if name = [] then []
      else case map_of uriPkg (uri_of name) of
             None \<Rightarrow> name
           | Some pkgPath \<Rightarrow> if pkgPath = [] then name else Canonicalize name pkgPath)"

definition canonicalizeDiagnostics :: "(string \<Rightarrow> string) \<Rightarrow> smap \<Rightarrow> diagnostic list \<Rightarrow> diagnostic list" where
  "canonicalizeDiagnostics uri_of uriPkg diags = map (map_filenames (canonicalizeName uri_of uriPkg)) diags"

definition ResolveDiagnostics :: "resolver option \<Rightarrow> diagnostic list \<Rightarrow> diagnostic list" where
  "ResolveDiagnostics r diags = (if r = None then diags else map (map_filenames (Resolve r)) diags)"


subsection \<open>Splitting at the last slash\<close>

lemma split_on_butlast_join:
  assumes "CHR ''/'' \<notin> set b"
  shows "join_with ''/'' (butlast (split_on (CHR ''/'') (d @ ''/'' @ b))) = d"
    and "length (split_on (CHR ''/'') (d @ ''/'' @ b)) > 1"
proof -
  let ?s = "split_on (CHR ''/'')"
  have "?s (d @ ''/'' @ b) = ?s d @ [b]"
  proof (induction d)
    case Nil
    then show ?case using assms by (simp add: split_on_id)
  next
    case (Cons x xs)
    then show ?case by (cases "?s xs") auto
  qed
  then show "join_with ''/'' (butlast (?s (d @ ''/'' @ b))) = d" and "length (?s (d @ ''/'' @ b)) > 1"
    by (simp_all add: join_split_on)
qed

lemma Resolve_slash:
  assumes "CHR ''/'' \<notin> set b" and "p \<noteq> []" and "pkgDirs r \<noteq> []"
  shows "Resolve (Some r) (p @ ''/'' @ b) =
    (case map_of (pkgDirs r) p of Some dir \<Rightarrow> Join [dir, b] | None \<Rightarrow> p @ ''/'' @ b)"
proof -
  have "last (split_on (CHR ''/'') (p @ ''/'' @ b)) = b"
    using split_on_last [OF assms(1), of p] by simp
  then show ?thesis
    using assms split_on_butlast_join [OF assms(1), of p]
    by (simp add: Resolve_def Let_def split: option.splits)
qed


subsection \<open>Round trip\<close>

text \<open>
  \<open>owned\<close> is what the engine's tables say about a file of a loaded package: the file's package is
  in the resolver's directory map and the file lies, under a clean name, in that directory.
\<close>

definition owned :: "(string \<Rightarrow> string) \<Rightarrow> smap \<Rightarrow> resolver \<Rightarrow> string \<Rightarrow> bool" where
  "owned uri_of uriPkg r f \<longleftrightarrow>
     (\<exists>pkg dir b. map_of uriPkg (uri_of f) = Some pkg \<and> pkg \<noteq> []
        \<and> map_of (pkgDirs r) pkg = Some dir \<and> dir \<noteq> [] \<and> b \<noteq> [] \<and> CHR ''/'' \<notin> set b
        \<and> f = dir @ ''/'' @ b \<and> Clean f = f)"

text \<open>An unowned file name: absolute, and no package of the run has an absolute import path.\<close>

definition unowned :: "(string \<Rightarrow> string) \<Rightarrow> smap \<Rightarrow> resolver \<Rightarrow> string \<Rightarrow> bool" where
  "unowned uri_of uriPkg r f \<longleftrightarrow>
     map_of uriPkg (uri_of f) = None \<and> (f = [] \<or> IsAbs f \<and> (\<forall>k \<in> set (map fst (pkgDirs r)). \<not> IsAbs k \<and> k \<noteq> []))"

lemma resolve_canonicalize_owned:
  assumes "owned uri_of uriPkg r f"
  shows "Resolve (Some r) (canonicalizeName uri_of uriPkg f) = f"
proof -
  from assms obtain pkg dir b where o: "map_of uriPkg (uri_of f) = Some pkg" "pkg \<noteq> []"
    "map_of (pkgDirs r) pkg = Some dir" "dir \<noteq> []" "b \<noteq> []" "CHR ''/'' \<notin> set b"
    "f = dir @ ''/'' @ b" "Clean f = f"
    unfolding owned_def by blast
  have "Base f = b" unfolding o(7) by (rule Base_join [OF o(6,5)])
  then have c: "canonicalizeName uri_of uriPkg f = pkg @ ''/'' @ b"
    using o by (simp add: canonicalizeName_def Canonicalize_def)
  have "pkgDirs r \<noteq> []" using o(3) by auto
  then have "Resolve (Some r) (pkg @ ''/'' @ b) = Join [dir, b]"
    using Resolve_slash [OF o(6,2)] o(3) by simp
  also have "\<dots> = f" using o(4,7,8) by (simp add: Join_def)
  finally show ?thesis unfolding c .
qed

lemma IsAbs_join_butlast:
  assumes "IsAbs f" and "join_with ''/'' (butlast (split_on (CHR ''/'') f)) \<noteq> []"
  shows "IsAbs (join_with ''/'' (butlast (split_on (CHR ''/'') f)))"
proof -
  from assms(1) obtain g where f: "f = CHR ''/'' # g"
    by (cases f) (auto simp: IsAbs_def HasPrefix_def)
  obtain w ws where "split_on (CHR ''/'') g = w # ws" by (cases "split_on (CHR ''/'') g") auto
  with assms(2) show ?thesis
    by (cases ws) (auto simp: f IsAbs_def HasPrefix_def)
qed

lemma resolve_canonicalize_unowned:
  assumes "unowned uri_of uriPkg r f"
  shows "Resolve (Some r) (canonicalizeName uri_of uriPkg f) = f"
proof -
  have c: "canonicalizeName uri_of uriPkg f = f"
    using assms by (simp add: canonicalizeName_def unowned_def)
  let ?p = "join_with ''/'' (butlast (split_on (CHR ''/'') f))"
  have "map_of (pkgDirs r) ?p = None" if "f \<noteq> []"
  proof (rule ccontr)
    assume "map_of (pkgDirs r) ?p \<noteq> None"
    then have k: "?p \<in> set (map fst (pkgDirs r))" by (simp add: map_of_eq_None_iff)
    with assms that have "?p \<noteq> []" "\<not> IsAbs ?p" "IsAbs f" by (auto simp: unowned_def)
    then show False using IsAbs_join_butlast by blast
  qed
  then show ?thesis unfolding c by (simp add: Resolve_def Let_def)
qed

text \<open>
  C37. Caching does not change what the user sees: canonicalising a run's diagnostics for the cache
  and resolving them for the printers restores every file name (primary position, related
  positions and both ends of every text edit), for files of loaded packages as well as for absolute
  names no package owns.
\<close>

theorem resolve_canonicalize_diagnostics:
  assumes "\<forall>d \<in> set diags. \<forall>f \<in> set (diag_filenames d).
             owned uri_of uriPkg r f \<or> unowned uri_of uriPkg r f"
  shows "ResolveDiagnostics (Some r) (canonicalizeDiagnostics uri_of uriPkg diags) = diags"
proof -
  have "map_filenames (Resolve (Some r) \<circ> canonicalizeName uri_of uriPkg) d = d" if "d \<in> set diags" for d
    by (rule map_filenames_id)
      (use assms that resolve_canonicalize_owned resolve_canonicalize_unowned in fastforce)
  then show ?thesis
    by (simp add: ResolveDiagnostics_def canonicalizeDiagnostics_def map_filenames_comp comp_def map_idI)
qed

theorem resolve_canonicalize_diagnostics_witness:
  "ResolveDiagnostics (Some \<lparr>pkgDirs = [(''m/p'', ''/w/p'')]\<rparr>)
     (canonicalizeDiagnostics (\<lambda>f. f) [(''/w/p/a.go'', ''m/p'')]
        [mk_diag ''govet'' ''x'' ''/w/p/a.go'' 1 1, mk_diag ''typecheck'' ''y'' ''/c/cgo.go'' 2 0])
   = [mk_diag ''govet'' ''x'' ''/w/p/a.go'' 1 1, mk_diag ''typecheck'' ''y'' ''/c/cgo.go'' 2 0]"
proof (rule resolve_canonicalize_diagnostics)
  have "owned (\<lambda>f. f) [(''/w/p/a.go'', ''m/p'')] \<lparr>pkgDirs = [(''m/p'', ''/w/p'')]\<rparr> ''/w/p/a.go''"
    unfolding owned_def
    by (rule exI [of _ "''m/p''"], rule exI [of _ "''/w/p''"], rule exI [of _ "''a.go''"])
      (simp add: Clean_def clean_segs_def IsAbs_def HasPrefix_def)
  moreover have "unowned (\<lambda>f. f) [(''/w/p/a.go'', ''m/p'')] \<lparr>pkgDirs = [(''m/p'', ''/w/p'')]\<rparr> ''/c/cgo.go''"
    by (simp add: unowned_def IsAbs_def HasPrefix_def)
  ultimately show "\<forall>d \<in> set [mk_diag ''govet'' ''x'' ''/w/p/a.go'' 1 1, mk_diag ''typecheck'' ''y'' ''/c/cgo.go'' 2 0].
      \<forall>f \<in> set (diag_filenames d).
        owned (\<lambda>f. f) [(''/w/p/a.go'', ''m/p'')] \<lparr>pkgDirs = [(''m/p'', ''/w/p'')]\<rparr> f
        \<or> unowned (\<lambda>f. f) [(''/w/p/a.go'', ''m/p'')] \<lparr>pkgDirs = [(''m/p'', ''/w/p'')]\<rparr> f"
    by (simp add: diag_filenames_def mk_diag_def)
qed

text \<open>
  The canonical name of a file of a package is itself recognised as canonical, ends in the
  file's base name, and is the same on every machine: it depends on the absolute path only through
  the base name.
\<close>

theorem Canonicalize_portable:
  assumes "pkgPath \<noteq> []" and "\<not> IsAbs pkgPath" and "p \<noteq> []" and "q \<noteq> []" and "Base p = Base q"
  shows "IsCanonical (Canonicalize p pkgPath) \<and> Canonicalize p pkgPath = Canonicalize q pkgPath
    \<and> HasSuffix (Canonicalize p pkgPath) (Base p)"
proof -
  have "\<not> IsAbs (pkgPath @ ''/'' @ Base p)"
    using assms(1,2) by (cases pkgPath) (auto simp: IsAbs_def HasPrefix_def)
  then show ?thesis
    using assms by (simp add: Canonicalize_def IsCanonical_def HasSuffix_def)
qed

theorem Canonicalize_portable_witness:
  "IsCanonical (Canonicalize ''/home/x/m/p/a.go'' ''m/p'')
   \<and> Canonicalize ''/home/x/m/p/a.go'' ''m/p'' = Canonicalize ''/ci/a.go'' ''m/p''
   \<and> HasSuffix (Canonicalize ''/home/x/m/p/a.go'' ''m/p'') (Base ''/home/x/m/p/a.go'')"
  by (rule Canonicalize_portable) (simp_all add: IsAbs_def HasPrefix_def Base_def)

end
