(* ===== verification/ExclConfig.thy ===== *)
theory ExclConfig
  imports GoLib
begin

text \<open>
  The configuration the exclusion filter is built from (\<^verbatim>\<open>internal/config/base_rule.go\<close>,
  \<^verbatim>\<open>internal/config/linters.go\<close>, \<^verbatim>\<open>internal/exclusion/presets.go\<close>): the \<^verbatim>\<open>linters.exclusions\<close>
  block, its validation and the built-in presets.

  Go's \<^verbatim>\<open>regexp\<close> package enters as the two functions the code calls: \<open>re_compile p\<close> is \<open>None\<close> when
  \<^verbatim>\<open>regexp.Compile(p)\<close> succeeds and the error text otherwise, \<open>re_match p s\<close> is \<^verbatim>\<open>MatchString\<close> of the
  compiled pattern.  A compiled regular expression is its source pattern, which
  \<^verbatim>\<open>(*Regexp).String\<close> returns.  Error texts are those of the code without the quotes of \<^verbatim>\<open>%q\<close>.
\<close>

record regex_lib =
  re_compile :: "string \<Rightarrow> string option"
  re_match :: "string \<Rightarrow> string \<Rightarrow> bool"

record baserule =
  Linters :: "string list"
  Path :: string
  PathExcept :: string
  Text :: string
  Source :: string

type_synonym excluderule = baserule

definition validateOptionalRegex :: "regex_lib \<Rightarrow> string \<Rightarrow> string \<Rightarrow> string option" where
  "validateOptionalRegex rl field value =
     (if value = [] then None
      else map_option (\<lambda>e. ''invalid '' @ field @ '' regex: '' @ e) (re_compile rl value))"

definition nonBlank :: "baserule \<Rightarrow> nat" where
  "nonBlank b =
     (if Linters b \<noteq> [] then 1 else 0) + (if Path b \<noteq> [] \<or> PathExcept b \<noteq> [] then 1 else 0)
     + (if Text b \<noteq> [] then 1 else 0) + (if Source b \<noteq> [] then 1 else 0)"

text \<open>The first error in the source's order of checks.\<close>

fun first_error :: "string option list \<Rightarrow> string option" where
  "first_error [] = None"
| "first_error (None # es) = first_error es"
| "first_error (Some e # es) = Some e"

definition BaseRule_Validate :: "regex_lib \<Rightarrow> nat \<Rightarrow> baserule \<Rightarrow> string option" where
  "BaseRule_Validate rl minConditions b =
     first_error
       [validateOptionalRegex rl ''path'' (Path b),
        validateOptionalRegex rl ''path-except'' (PathExcept b),
        validateOptionalRegex rl ''text'' (Text b),
        validateOptionalRegex rl ''source'' (Source b),
        if Path b \<noteq> [] \<and> PathExcept b \<noteq> [] then Some ''path and path-except cannot both be set'' else None,
        if nonBlank b < minConditions
        then Some (''at least '' @ itoa (int minConditions)
          @ '' of (text, source, path[-except], linters) must be set'') else None]"

definition excludeRuleMinConditions :: nat where "excludeRuleMinConditions = 2"

definition ExcludeRule_Validate :: "regex_lib \<Rightarrow> excluderule \<Rightarrow> string option" where
  "ExcludeRule_Validate rl e = BaseRule_Validate rl excludeRuleMinConditions e"

definition GeneratedModeLax :: string where "GeneratedModeLax = ''lax''"
definition GeneratedModeStrict :: string where "GeneratedModeStrict = ''strict''"
definition GeneratedModeDisable :: string where "GeneratedModeDisable = ''disable''"

definition ExclusionPresetComments :: string where "ExclusionPresetComments = ''comments''"
definition ExclusionPresetStdErrorHandling :: string where
  "ExclusionPresetStdErrorHandling = ''std-error-handling''"
definition ExclusionPresetCommonFalsePositives :: string where
  "ExclusionPresetCommonFalsePositives = ''common-false-positives''"
definition ExclusionPresetLegacy :: string where "ExclusionPresetLegacy = ''legacy''"

lemmas config_consts = GeneratedModeLax_def GeneratedModeStrict_def GeneratedModeDisable_def
  ExclusionPresetComments_def ExclusionPresetStdErrorHandling_def
  ExclusionPresetCommonFalsePositives_def ExclusionPresetLegacy_def

record linterexclusions =
  Generated :: string
  WarnUnused :: bool
  Presets :: "string list"
  Rules :: "excluderule list"
  Paths :: "string list"
  PathsExcept :: "string list"

definition allPresets :: "string list" where
  "allPresets = [ExclusionPresetComments, ExclusionPresetStdErrorHandling,
     ExclusionPresetCommonFalsePositives, ExclusionPresetLegacy]"

fun validate_rules :: "regex_lib \<Rightarrow> nat \<Rightarrow> excluderule list \<Rightarrow> string option" where
  "validate_rules rl i [] = None"
| "validate_rules rl i (r # rs) =
     (case ExcludeRule_Validate rl r of
        Some e \<Rightarrow> Some (''linters.exclusions.rules['' @ itoa (int i) @ '']: '' @ e)
      | None \<Rightarrow> validate_rules rl (Suc i) rs)"

definition LinterExclusions_Validate :: "regex_lib \<Rightarrow> linterexclusions \<Rightarrow> string option" where
  "LinterExclusions_Validate rl e =
     (if Generated e \<notin> set [[], GeneratedModeLax, GeneratedModeStrict, GeneratedModeDisable]
      then Some (''linters.exclusions.generated: '' @ Generated e @ '' is not one of (lax|strict|disable)'')
      else case filter (\<lambda>p. p \<notin> set allPresets) (Presets e) of
             p # ps \<Rightarrow> Some (''linters.exclusions.presets: invalid preset '' @ p)
           | [] \<Rightarrow> validate_rules rl 0 (Rules e))"


subsection \<open>Presets\<close>

definition rule :: "string \<Rightarrow> string list \<Rightarrow> excluderule" where
  "rule text linters = \<lparr>Linters = linters, Path = [], PathExcept = [], Text = text, Source = []\<rparr>"

text \<open>A backslash and a double quote, the two characters the patterns below escape.\<close>

definition bsl :: string where "bsl = [CHR 0x5C]"
definition dquo :: string where "dquo = [CHR 0x22]"

definition presetRules :: "string \<Rightarrow> excluderule list" where
  "presetRules name =
     (if name = ExclusionPresetComments then
        [rule ''(ST1000|ST1020|ST1021|ST1022)'' [''staticcheck''],
         rule (''exported (.+) should have comment( '' @ bsl @ ''(or a comment on this block'' @ bsl @ ''))? or be unexported'') [''revive''],
         rule (''package comment should be of the form '' @ dquo @ ''(.+)...'' @ dquo) [''revive''],
         rule (''comment on exported (.+) should be of the form '' @ dquo @ ''(.+)...'' @ dquo) [''revive''],
         rule ''should have a package comment'' [''revive'']]
      else if name = ExclusionPresetStdErrorHandling then
        [rule (''(?i)Error return value of .((os'' @ bsl @ ''.)?std(out|err)'' @ bsl @ ''..*|.*Close|.*Flush|os'' @ bsl @ ''.Remove(All)?|.*print(f|ln)?|os'' @ bsl @ ''.(Un)?Setenv). is not checked'') [''errcheck'']]
      else if name = ExclusionPresetCommonFalsePositives then
        [rule ''G103: Use of unsafe calls should be audited'' [''gosec''],
         rule ''G204: Subprocess launched with variable'' [''gosec''],
         rule ''G304: Potential file inclusion via variable'' [''gosec'']]
      else if name = ExclusionPresetLegacy then
        [rule ''(possible misuse of unsafe.Pointer|should have signature)'' [''govet''],
         rule ''SA4011'' [''staticcheck''],
         rule ''G104'' [''gosec''],
         rule ''(G301|G302|G307): Expect (directory permissions to be 0750|file permissions to be 0600) or less'' [''gosec'']]
      else [])"


subsection \<open>Facts\<close>

lemma first_error_None: "first_error es = None \<longleftrightarrow> (\<forall>e \<in> set es. e = None)"
  by (induction es rule: first_error.induct) auto

lemma BaseRule_Validate_None:
  "BaseRule_Validate rl n b = None \<longleftrightarrow>
     (\<forall>p \<in> {Path b, PathExcept b, Text b, Source b}. p = [] \<or> re_compile rl p = None)
     \<and> (Path b = [] \<or> PathExcept b = []) \<and> n \<le> nonBlank b"
  by (auto simp: BaseRule_Validate_def first_error_None validateOptionalRegex_def)

lemma validate_rules_None:
  "validate_rules rl i rs = None \<longleftrightarrow> (\<forall>r \<in> set rs. ExcludeRule_Validate rl r = None)"
  by (induction rs arbitrary: i) (auto split: option.splits)

lemma LinterExclusions_Validate_None:
  "LinterExclusions_Validate rl e = None \<longleftrightarrow>
     Generated e \<in> {[], GeneratedModeLax, GeneratedModeStrict, GeneratedModeDisable}
     \<and> set (Presets e) \<subseteq> set allPresets \<and> (\<forall>r \<in> set (Rules e). ExcludeRule_Validate rl r = None)"
proof (cases "filter (\<lambda>p. p \<notin> set allPresets) (Presets e)")
  case Nil
  then have "set (Presets e) \<subseteq> set allPresets" by (auto simp: filter_empty_conv)
  with Nil show ?thesis by (simp add: LinterExclusions_Validate_def validate_rules_None)
next
  case (Cons p ps)
  then have "p \<in> set (filter (\<lambda>p. p \<notin> set allPresets) (Presets e))" by simp
  then have "\<not> set (Presets e) \<subseteq> set allPresets" by auto
  with Cons show ?thesis by (simp add: LinterExclusions_Validate_def)
qed

text \<open>Every built-in preset rule meets the two conditions a user rule needs.\<close>

lemma preset_rules_nonBlank: "r \<in> set (presetRules p) \<Longrightarrow> nonBlank r = excludeRuleMinConditions"
  by (auto simp: presetRules_def rule_def nonBlank_def excludeRuleMinConditions_def split: if_splits)

end
