(* ===== verification/Nolint.thy ===== *)
theory Nolint
  imports Diagnostics
begin

text \<open>
  \<^verbatim>\<open>//nolint\<close> directives (\<^verbatim>\<open>internal/exclusion/nolint.go\<close>, and \<^verbatim>\<open>familyByPrefix\<close> of
  \<^verbatim>\<open>exclusion.go\<close>): recognising a directive in a comment, the line ranges it covers, the expansion
  to the syntax node below it, and the per-file cache.

  A parsed Go file is the part of \<^verbatim>\<open>go/ast\<close> and \<^verbatim>\<open>go/token\<close> the code reads: its comment groups with
  their texts and positions, and the positions of all syntax nodes in the order \<^verbatim>\<open>ast.Inspect\<close>
  visits them.  Parsing itself is \<^verbatim>\<open>go/parser\<close> applied to the current file contents: a function from
  paths to parsed files, \<open>None\<close> when the parser returns an error.
\<close>

record comment =
  CText :: string
  CPos :: nat

record commentgroup =
  CList :: "comment list"
  GStartLine :: int
  GStartCol :: int
  GEndLine :: int

record nodepos =
  NStartLine :: int
  NStartCol :: int
  NEndLine :: int

record astfile =
  Comments :: "commentgroup list"
  PackagePos :: nat
  Nodes :: "nodepos list"

type_synonym parser = "string \<Rightarrow> astfile option"

record ignoredRange =
  fromLine :: int
  toLine :: int
  col :: int
  rlinters :: "string list"


subsection \<open>Linter families\<close>

definition govetSubAnalyzers :: "string list" where
  "govetSubAnalyzers =
     [''appends'', ''asmdecl'', ''assign'', ''atomic'', ''atomicalign'', ''bools'', ''buildtag'',
      ''cgocall'', ''composites'', ''copylocks'', ''deepequalerrors'', ''defers'', ''directive'',
      ''errorsas'', ''fieldalignment'', ''findcall'', ''framepointer'', ''hostport'', ''httpmux'',
      ''httpresponse'', ''ifaceassert'', ''loopclosure'', ''lostcancel'', ''nilfunc'', ''nilness'',
      ''printf'', ''reflectvaluecompare'', ''shadow'', ''shift'', ''sigchanyzer'', ''slog'',
      ''sortslice'', ''stdmethods'', ''stdversion'', ''stringintconv'', ''structtag'',
      ''testinggoroutine'', ''tests'', ''timeformat'', ''unmarshal'', ''unreachable'', ''unsafeptr'',
      ''unusedresult'', ''unusedwrite'', ''usesgenerics'', ''waitgroup'']"

definition familyByPrefix :: "string \<Rightarrow> string option" where
  "familyByPrefix name =
     (if HasPrefix name ''SA'' \<or> HasPrefix name ''ST'' \<or> HasPrefix name ''S1'' \<or> HasPrefix name ''QF''
      then Some ''staticcheck''
      else if name \<in> set govetSubAnalyzers then Some ''govet''
      else None)"


subsection \<open>Recognising a directive\<close>

text \<open>The text after the comment markers; \<open>None\<close> for a comment that is neither form.\<close>

definition nolint_body :: "string \<Rightarrow> string option" where
  "nolint_body text =
     (if HasPrefix text ''//'' then Some (dropWhile (\<lambda>c. c = CHR '' '' \<or> c = CHR 0x09) (drop 2 text))
      else if HasPrefix text ''/*'' \<and> HasSuffix text ''*/''
      then Some (TrimSpace (take (length text - 4) (drop 2 text)))
      else None)"

text \<open>The linter list of a directive body: \<open>None\<close> when it is not a directive, \<open>Some []\<close> for all linters.\<close>

fun nolint_names :: "string list \<Rightarrow> string list option" where
  "nolint_names [] = Some []"
| "nolint_names (name # rest) =
     (let n = ToLower (TrimSpace name)
      in if n = [] then None else map_option ((#) n) (nolint_names rest))"

definition nolint_linters :: "string \<Rightarrow> string list option" where
  "nolint_linters text =
     (if length text < 6 \<or> \<not> EqualFold (take 6 text) ''nolint'' then None
      else let rest = drop 6 text in
        if rest \<noteq> [] \<and> hd rest \<noteq> CHR '' '' \<and> hd rest \<noteq> CHR 0x09 \<and> hd rest \<noteq> CHR '':'' then None
        else let cut = (case str_index rest ''//'' of Some i \<Rightarrow> take i rest | None \<Rightarrow> rest);
                 r = TrimSpace cut
             in if r = [] then Some []
                else if HasPrefix r '':'' then
                  (let list = TrimSpace (drop 1 r)
                   in if list = [] then None
                      else if EqualFold list ''all'' then Some []
                      else nolint_names (split_on (CHR '','') list))
                else None)"

definition parseNolintRange :: "comment \<Rightarrow> commentgroup \<Rightarrow> ignoredRange option" where
  "parseNolintRange c g =
     (case nolint_body (CText c) of
        None \<Rightarrow> None
      | Some text \<Rightarrow>
          map_option (\<lambda>ls. \<lparr>fromLine = GStartLine g, toLine = GEndLine g, col = GStartCol g, rlinters = ls\<rparr>)
            (nolint_linters text))"

definition extractInlineNolintRanges :: "commentgroup list \<Rightarrow> ignoredRange list" where
  "extractInlineNolintRanges groups =
     concat (map (\<lambda>g. List.map_filter (\<lambda>c. parseNolintRange c g) (CList g)) groups)"


subsection \<open>Ranges of a file\<close>

text \<open>One step of the syntax-tree walk: the range \<open>r\<close> extended over a node it stands directly above.\<close>

definition expand_one :: "nodepos \<Rightarrow> ignoredRange \<Rightarrow> ignoredRange option" where
  "expand_one n r =
     (if toLine r = NStartLine n - 1 \<and> col r = NStartCol n
      then Some (if toLine r < NEndLine n then r\<lparr>toLine := NEndLine n\<rparr> else r)
      else None)"

definition expandNolintRanges :: "astfile \<Rightarrow> ignoredRange list \<Rightarrow> ignoredRange list" where
  "expandNolintRanges f inline =
     concat (map (\<lambda>n. List.map_filter (expand_one n) inline) (Nodes f))"

definition buildIgnoredRangesForFile :: "parser \<Rightarrow> string \<Rightarrow> ignoredRange list" where
  "buildIgnoredRangesForFile parse path =
     (case parse path of
        None \<Rightarrow> []
      | Some f \<Rightarrow>
          let inline = extractInlineNolintRanges (Comments f)
          in if inline = [] then [] else inline @ expandNolintRanges f inline)"

definition rangeCoversLinter :: "ignoredRange \<Rightarrow> string \<Rightarrow> bool" where
  "rangeCoversLinter r name =
     (rlinters r = [] \<or>
      list_ex (\<lambda>l. l = ToLower name
                 \<or> (case familyByPrefix name of Some fam \<Rightarrow> l = ToLower fam | None \<Rightarrow> False)) (rlinters r))"


subsection \<open>The filter with its cache\<close>

type_synonym nolintFilter = "string \<rightharpoonup> ignoredRange list"

definition newNolintFilter :: nolintFilter where
  "newNolintFilter = Map.empty"

definition rangesFor :: "parser \<Rightarrow> nolintFilter \<Rightarrow> string \<Rightarrow> nolintFilter \<times> ignoredRange list" where
  "rangesFor parse n path =
     (case n path of
        Some rs \<Rightarrow> (n, rs)
      | None \<Rightarrow> let rs = buildIgnoredRangesForFile parse path in (n(path \<mapsto> rs), rs))"

definition suppresses :: "parser \<Rightarrow> nolintFilter \<Rightarrow> diagnostic \<Rightarrow> nolintFilter \<times> bool" where
  "suppresses parse n d =
     (if Filename (Pos d) = [] \<or> Line (Pos d) = 0 then (n, False)
      else let (n', ranges) = rangesFor parse n (Filename (Pos d))
           in (n', list_ex (\<lambda>r. fromLine r \<le> Line (Pos d) \<and> Line (Pos d) \<le> toLine r
                              \<and> rangeCoversLinter r (Linter d)) ranges))"


subsection \<open>Behaviour without the cache\<close>

text \<open>What \<open>suppresses\<close> decides, as a function of the file contents alone.\<close>

definition nolint_covers :: "parser \<Rightarrow> diagnostic \<Rightarrow> bool" where
  "nolint_covers parse d \<longleftrightarrow>
     Filename (Pos d) \<noteq> [] \<and> Line (Pos d) \<noteq> 0 \<and>
     (\<exists>r \<in> set (buildIgnoredRangesForFile parse (Filename (Pos d))).
        fromLine r \<le> Line (Pos d) \<and> Line (Pos d) \<le> toLine r \<and> rangeCoversLinter r (Linter d))"

definition nolint_cache_ok :: "parser \<Rightarrow> nolintFilter \<Rightarrow> bool" where
  "nolint_cache_ok parse n \<longleftrightarrow> (\<forall>p rs. n p = Some rs \<longrightarrow> rs = buildIgnoredRangesForFile parse p)"

lemma nolint_cache_ok_new [simp]: "nolint_cache_ok parse newNolintFilter"
  by (simp add: nolint_cache_ok_def newNolintFilter_def)

lemma rangesFor_spec:
  assumes "nolint_cache_ok parse n"
  shows "snd (rangesFor parse n p) = buildIgnoredRangesForFile parse p"
    and "nolint_cache_ok parse (fst (rangesFor parse n p))"
  using assms by (auto simp: rangesFor_def nolint_cache_ok_def Let_def split: option.splits)

lemma suppresses_spec:
  assumes "nolint_cache_ok parse n"
  shows "snd (suppresses parse n d) = nolint_covers parse d"
    and "nolint_cache_ok parse (fst (suppresses parse n d))"
  using rangesFor_spec [OF assms, of "Filename (Pos d)"] assms
  by (auto simp: suppresses_def nolint_covers_def list_ex_iff split: prod.splits)

lemma set_map_filter_Some: "set (List.map_filter f xs) = {y. \<exists>x \<in> set xs. f x = Some y}"
  by (induction xs) (auto simp: List.map_filter_simps split: option.splits)

lemma expand_ranges_iff:
  "r \<in> set (expandNolintRanges f inline) \<longleftrightarrow>
     (\<exists>n \<in> set (Nodes f). \<exists>s \<in> set inline. expand_one n s = Some r)"
  by (auto simp: expandNolintRanges_def set_map_filter_Some)

lemma expand_one_covers:
  assumes "toLine r = NStartLine n - 1" and "col r = NStartCol n"
  obtains x where "expand_one n r = Some x" and "fromLine x = fromLine r" and "NEndLine n \<le> toLine x"
    and "rlinters x = rlinters r"
  using assms by (cases "toLine r < NEndLine n") (auto simp: expand_one_def)

lemma parseNolintRange_lines:
  "parseNolintRange c g = Some r \<Longrightarrow> fromLine r = GStartLine g \<and> toLine r = GEndLine g \<and> col r = GStartCol g"
  by (auto simp: parseNolintRange_def split: option.splits)

text \<open>Names in a directive are never empty.\<close>

lemma nolint_names_nonempty: "nolint_names xs = Some ns \<Longrightarrow> [] \<notin> set ns \<and> length ns = length xs"
  by (induction xs arbitrary: ns) (auto simp: Let_def split: if_splits)

lemma ToLower_idem [simp]: "ToLower (ToLower s) = ToLower s"
  by (auto simp: ToLower_def to_lower_char_def Let_def)

lemma nolint_names_lower: "nolint_names xs = Some ns \<Longrightarrow> n \<in> set ns \<Longrightarrow> ToLower n = n"
  by (induction xs arbitrary: ns) (auto simp: Let_def split: if_splits)

text \<open>
  The directive written above a function silences its whole body: if a comment group holds a
  directive, ends on the line before a syntax node and starts in the node's column, every diagnostic
  of a covered linter from the comment's first line to the node's last line is suppressed.
\<close>

theorem nolint_above_node:
  assumes "parse path = Some f" and "g \<in> set (Comments f)" and "c \<in> set (CList g)"
    and "parseNolintRange c g = Some r" and "n \<in> set (Nodes f)"
    and "GEndLine g = NStartLine n - 1" and "GStartCol g = NStartCol n"
    and "Filename (Pos d) = path" and "path \<noteq> []" and "Line (Pos d) \<noteq> 0"
    and "GStartLine g \<le> Line (Pos d)" and "Line (Pos d) \<le> NEndLine n" and "rangeCoversLinter r (Linter d)"
  shows "nolint_covers parse d"
proof -
  let ?inline = "extractInlineNolintRanges (Comments f)"
  have r: "r \<in> set ?inline"
    using assms(2-4) by (auto simp: extractInlineNolintRanges_def set_map_filter_Some)
  have lines: "fromLine r = GStartLine g" "toLine r = GEndLine g" "col r = GStartCol g"
    using parseNolintRange_lines [OF assms(4)] by auto
  obtain x where x: "expand_one n r = Some x" "fromLine x = fromLine r" "NEndLine n \<le> toLine x"
    "rlinters x = rlinters r"
    by (rule expand_one_covers [of r n]) (use assms(6,7) lines in auto)
  have "x \<in> set (expandNolintRanges f ?inline)"
    unfolding expand_ranges_iff using r x(1) assms(5) by blast
  then have "x \<in> set (buildIgnoredRangesForFile parse path)"
    using assms(1) r by (auto simp: buildIgnoredRangesForFile_def Let_def)
  moreover have "rangeCoversLinter x (Linter d)"
    using assms(13) x(4) by (simp add: rangeCoversLinter_def)
  moreover have "fromLine x \<le> Line (Pos d)" "Line (Pos d) \<le> toLine x"
    using assms(11,12) lines x(2,3) by simp_all
  ultimately show ?thesis using assms(8-10) unfolding nolint_covers_def by blast
qed

definition ex_group :: commentgroup where
  "ex_group = \<lparr>CList = [\<lparr>CText = ''//nolint:staticcheck // legacy'', CPos = 40\<rparr>],
     GStartLine = 4, GStartCol = 1, GEndLine = 4\<rparr>"

definition ex_file :: astfile where
  "ex_file = \<lparr>Comments = [ex_group], PackagePos = 0, Nodes = [\<lparr>NStartLine = 5, NStartCol = 1, NEndLine = 9\<rparr>]\<rparr>"

definition ex_parse :: parser where
  "ex_parse = [''a.go'' \<mapsto> ex_file]"

theorem nolint_above_node_witness:
  "nolint_covers ex_parse (mk_diag ''SA1019'' ''deprecated'' ''a.go'' 7 2)"
  by (rule nolint_above_node [where path = "''a.go''" and f = ex_file and g = ex_group
        and c = "\<lparr>CText = ''//nolint:staticcheck // legacy'', CPos = 40\<rparr>"
        and n = "\<lparr>NStartLine = 5, NStartCol = 1, NEndLine = 9\<rparr>"
        and r = "\<lparr>fromLine = 4, toLine = 4, col = 1, rlinters = [''staticcheck'']\<rparr>"])
    (simp_all add: ex_parse_def ex_file_def ex_group_def mk_diag_def parseNolintRange_def nolint_body_def
      nolint_linters_def Let_def HasPrefix_def EqualFold_def ToLower_def to_lower_char_def trim_eval
      rangeCoversLinter_def familyByPrefix_def)

subsection \<open>The directive grammar\<close>

definition plain_name :: "string \<Rightarrow> bool" where
  "plain_name n \<longleftrightarrow> n \<noteq> [] \<and> ToLower n = n
     \<and> list_all (\<lambda>c. ascii c \<and> \<not> is_space c \<and> c \<noteq> CHR '','' \<and> c \<noteq> CHR ''/'') n"

lemma str_index_absent: "CHR ''/'' \<notin> set s \<Longrightarrow> str_index s ''//'' = None"
  by (induction s) (auto simp: HasPrefix_def split: list.splits)

lemma str_index_at: "CHR ''/'' \<notin> set s \<Longrightarrow> str_index (s @ ''//'' @ t) ''//'' = Some (length s)"
  by (induction s) (auto simp: HasPrefix_def)

lemma is_space_blank: "is_space (CHR '' '')" "\<not> is_space (CHR '':'')"
  by (simp_all add: is_space_def)

lemma TrimSpace_blank_end:
  assumes "list_all (\<lambda>c. \<not> is_space c \<and> ascii c) s" and "s \<noteq> []"
  shows "TrimSpace (s @ '' '') = s"
proof -
  obtain c r where c: "rev s = c # r" using assms(2) by (cases "rev s") auto
  then have "c \<in> set s" by (metis list.set_intros(1) set_rev)
  then have "\<not> is_space c" "ascii c" using assms(1) by (auto simp: list_all_iff)
  moreover have "trim_run wide_space2 wide_space3 (s @ '' '') = s @ '' ''"
    using assms by (cases s) (auto simp: trim_run_stop)
  ultimately show ?thesis using c by (simp add: TrimSpace_def trim_run_skip is_space_blank trim_run_stop)
qed

lemma set_join_with: "set (join_with sep ws) \<subseteq> \<Union> (set ` set ws) \<union> set sep"
  by (induction sep ws rule: join_with.induct) auto

lemma nolint_names_plain:
  "list_all plain_name names \<Longrightarrow> nolint_names names = Some names"
proof (induction names)
  case (Cons n ns)
  then have "TrimSpace n = n" by (intro TrimSpace_tight) (auto simp: plain_name_def list_all_iff)
  with Cons show ?case by (simp add: Let_def plain_name_def)
qed simp

text \<open>
  Directives parse back to what was written: \<open>//nolint:a,b // reason\<close> yields exactly the list
  \<open>[a, b]\<close>, for any non-empty list of lower-case linter names other than the single name \<open>all\<close>
  (which, like a bare directive, stands for every linter), and whatever the reason says.
\<close>

theorem nolint_roundtrip:
  assumes "list_all plain_name names" and "names \<noteq> []" and "names \<noteq> [''all'']"
  shows "nolint_linters (''nolint:'' @ join_with '','' names @ '' //'' @ why) = Some names"
proof -
  let ?l = "join_with '','' names"
  have cs: "c \<in> set ?l \<Longrightarrow> ascii c \<and> \<not> is_space c \<and> c \<noteq> CHR ''/''" for c
    using assms(1) set_join_with [of "'',''" names]
    by (fastforce simp: plain_name_def list_all_iff is_space_def)
  have spl: "split_on (CHR '','') ?l = names"
    by (rule split_join_with) (use assms in \<open>auto simp: plain_name_def list_all_iff\<close>)
  have ne: "?l \<noteq> []"
    using spl assms by (cases names) (auto simp: plain_name_def)
  have cut: "str_index ('':'' @ ?l @ '' //'' @ why) ''//'' = Some (length ('':'' @ ?l @ '' ''))"
  proof -
    have "CHR ''/'' \<notin> set ('':'' @ ?l @ '' '')" using cs by auto
    then show ?thesis using str_index_at [of "'':'' @ ?l @ '' ''" why] by (simp del: str_index.simps)
  qed
  have t1: "TrimSpace ('':'' @ ?l @ '' '') = '':'' @ ?l"
    using TrimSpace_blank_end [of "'':'' @ ?l"] cs is_space_blank by (auto simp: list_all_iff)
  have t2: "TrimSpace ?l = ?l" by (rule TrimSpace_tight) (use cs in \<open>auto simp: list_all_iff\<close>)
  have low: "ToLower ?l = ?l"
    using assms(1) unfolding ToLower_def
    by (induction "'',''" names rule: join_with.induct) (auto simp: plain_name_def ToLower_def to_lower_char_def)
  have notall: "\<not> EqualFold ?l ''all''"
  proof
    assume "EqualFold ?l ''all''"
    then have "?l = ''all''" unfolding EqualFold_def low by (simp add: ToLower_def to_lower_char_def)
    then have "names = [''all'']" using spl by simp
    with assms(3) show False ..
  qed
  have fold: "EqualFold (take 6 (''nolint:'' @ ?l @ '' //'' @ why)) ''nolint''"
    by (simp add: EqualFold_def)
  have rest: "drop 6 (''nolint:'' @ ?l @ '' //'' @ why) = '':'' @ ?l @ '' //'' @ why" by simp
  have take: "take (length ('':'' @ ?l @ '' '')) ('':'' @ ?l @ '' //'' @ why) = '':'' @ ?l @ '' ''" by simp
  show ?thesis
    unfolding nolint_linters_def Let_def rest cut option.case take t1
    using fold ne t2 notall spl nolint_names_plain [OF assms(1)] by (simp add: HasPrefix_def)
qed

theorem nolint_roundtrip_witness:
  "nolint_linters (''nolint:'' @ join_with '','' [''errcheck'', ''govet''] @ '' //'' @ '' ok'')
   = Some [''errcheck'', ''govet'']"
  by (rule nolint_roundtrip)
    (simp_all add: plain_name_def is_space_def ToLower_def to_lower_char_def)

end
