(* ===== verification/Exclusion.thy ===== *)
theory Exclusion
  imports Nolint ExclConfig
begin

text \<open>
  The diagnostic filter (\<^verbatim>\<open>internal/exclusion/exclusion.go\<close>): building it from the configuration,
  the per-diagnostic decision with its two per-file caches, batch filtering, and the file-wide
  exclusion test the engine uses to skip whole packages.

  \<open>fenv\<close> collects what the filter reads from outside the package: the regular-expression library
  and the Go parser in its two modes.  The caches of the source are fields of the filter record, so
  every operation that fills one returns the new filter.
\<close>

record fenv =
  relib :: regex_lib
  parseFile :: parser
  parseClause :: parser


subsection \<open>Generated files\<close>

text \<open>\<^verbatim>\<open>ast.IsGenerated\<close>: a line of a comment before the package clause has the standard form.\<close>

definition generated_line :: "string \<Rightarrow> bool" where
  "generated_line line \<longleftrightarrow>
     HasPrefix line ''// Code generated '' \<and> HasSuffix (drop 18 line) '' DO NOT EDIT.''"

definition IsGenerated :: "astfile \<Rightarrow> bool" where
  "IsGenerated f =
     list_ex (\<lambda>g. list_ex (\<lambda>c. list_ex generated_line (split_on (CHR 0x0A) (CText c)))
                    (takeWhile (\<lambda>c. CPos c \<le> PackagePos f) (CList g))) (Comments f)"

text \<open>\<^verbatim>\<open>(*ast.CommentGroup).Text\<close>.\<close>

definition isDirective :: "string \<Rightarrow> bool" where
  "isDirective c =
     (if HasPrefix c ''line '' \<or> HasPrefix c ''extern '' \<or> HasPrefix c ''export '' then True
      else case str_index c '':'' of
             None \<Rightarrow> False
           | Some i \<Rightarrow> i \<noteq> 0 \<and> i + 1 < length c
               \<and> list_all (\<lambda>b. let n = of_char b :: nat in (97 \<le> n \<and> n \<le> 122) \<or> (48 \<le> n \<and> n \<le> 57))
                   (take i c @ [c ! (i + 1)]))"

definition comment_lines :: "string \<Rightarrow> string list" where
  "comment_lines t =
     (let blank = (\<lambda>c. c = CHR '' '' \<or> c = CHR 0x09 \<or> c = CHR 0x0A \<or> c = CHR 0x0D);
          strip = map (\<lambda>l. rev (dropWhile blank (rev l))) in
      if HasPrefix t ''//'' then
        (let c = drop 2 t in
         if c = [] then [[]]
         else if hd c = CHR '' '' then strip (split_on (CHR 0x0A) (tl c))
         else if isDirective c then []
         else strip (split_on (CHR 0x0A) c))
      else strip (split_on (CHR 0x0A) (take (length t - 4) (drop 2 t))))"

fun squeeze_blank :: "bool \<Rightarrow> string list \<Rightarrow> string list" where
  \<comment> \<open>drop leading blank lines and merge runs of blank lines; the flag: the last kept line is non-blank\<close>
  "squeeze_blank b [] = []"
| "squeeze_blank b (l # ls) =
     (if l \<noteq> [] then l # squeeze_blank True ls
      else if b then l # squeeze_blank False ls
      else squeeze_blank False ls)"

definition CommentGroup_Text :: "commentgroup \<Rightarrow> string" where
  "CommentGroup_Text g =
     (let ls = squeeze_blank False (concat (map (\<lambda>c. comment_lines (CText c)) (CList g)))
      in join_with [CHR 0x0A] (if ls \<noteq> [] \<and> last ls \<noteq> [] then ls @ [[]] else ls))"

definition laxMarkers :: "string list" where
  "laxMarkers = [''code generated'', ''do not edit'', ''autogenerated file'',
     ''* generated by: swagger codegen '']"

definition isGeneratedLax :: "astfile \<Rightarrow> bool" where
  "isGeneratedLax file =
     (Comments file \<noteq> [] \<and>
      (let doc = ToLower (join_with [CHR 0x0A] (map (TrimSpace \<circ> CommentGroup_Text) (Comments file)))
       in list_ex (Contains doc) laxMarkers))"

definition detectGenerated :: "parser \<Rightarrow> string \<Rightarrow> string \<Rightarrow> bool" where
  "detectGenerated parse path mode =
     (if mode = GeneratedModeDisable then False
      else case parse path of
             None \<Rightarrow> False
           | Some file \<Rightarrow> if mode = GeneratedModeStrict then IsGenerated file else isGeneratedLax file)"


subsection \<open>Compiled rules\<close>

record compiledRule =
  cr_linters :: "string list"
  cr_path :: "string option"
  cr_pathExcept :: "string option"
  cr_text :: "string option"
  cr_source :: "string option"

definition compilePathRegex :: "regex_lib \<Rightarrow> string \<Rightarrow> string result" where
  "compilePathRegex rl p =
     (if p = [] then Inl ''empty pattern''
      else case re_compile rl p of None \<Rightarrow> Inr p | Some e \<Rightarrow> Inl e)"

text \<open>Compile an optional field, tagging the error with the field's name.\<close>

definition compile_field :: "regex_lib \<Rightarrow> string \<Rightarrow> string \<Rightarrow> string option result" where
  "compile_field rl tag p =
     (if p = [] then Inr None
      else case re_compile rl p of None \<Rightarrow> Inr (Some p) | Some e \<Rightarrow> Inl (tag @ '': '' @ e))"

definition compileExcludeRule :: "regex_lib \<Rightarrow> excluderule \<Rightarrow> compiledRule result" where
  "compileExcludeRule rl r =
     (case compile_field rl ''path'' (Path r) of Inl e \<Rightarrow> Inl e | Inr p \<Rightarrow>
      case compile_field rl ''path-except'' (PathExcept r) of Inl e \<Rightarrow> Inl e | Inr pe \<Rightarrow>
      case compile_field rl ''text'' (Text r) of Inl e \<Rightarrow> Inl e | Inr t \<Rightarrow>
      case compile_field rl ''source'' (Source r) of Inl e \<Rightarrow> Inl e | Inr s \<Rightarrow>
      Inr \<lparr>cr_linters = Linters r, cr_path = p, cr_pathExcept = pe, cr_text = t, cr_source = s\<rparr>)"

definition rule_empty :: "compiledRule \<Rightarrow> bool" where
  "rule_empty r \<longleftrightarrow> cr_linters r = [] \<and> cr_path r = None \<and> cr_pathExcept r = None \<and> cr_text r = None \<and> cr_source r = None"

definition matchLinterName :: "string list \<Rightarrow> string \<Rightarrow> bool" where
  "matchLinterName selectors diagLinter =
     (diagLinter \<in> set selectors \<or>
      (case familyByPrefix diagLinter of Some family \<Rightarrow> family \<in> set selectors | None \<Rightarrow> False))"

definition rule_match :: "regex_lib \<Rightarrow> compiledRule \<Rightarrow> diagnostic \<Rightarrow> string \<Rightarrow> bool" where
  "rule_match rl r d rel =
     (if rule_empty r then False
      else if cr_linters r \<noteq> [] \<and> \<not> matchLinterName (cr_linters r) (Linter d) then False
      else if (case cr_path r of Some p \<Rightarrow> \<not> re_match rl p rel | None \<Rightarrow> False) then False
      else if (case cr_pathExcept r of Some p \<Rightarrow> re_match rl p rel | None \<Rightarrow> False) then False
      else if (case cr_text r of Some p \<Rightarrow> \<not> re_match rl p (Message d) | None \<Rightarrow> False) then False
      else cr_source r = None)"


subsection \<open>Target directories\<close>

record targetDir =
  dir :: string
  recursive :: bool

text \<open>\<open>None\<close> is the early \<^verbatim>\<open>return nil\<close>: no restriction.\<close>

fun resolve_targets :: "string list \<Rightarrow> targetDir list option" where
  "resolve_targets [] = Some []"
| "resolve_targets (p0 # ps) =
     (let p = TrimSpace p0 in
      if p = [] then resolve_targets ps
      else if p = ''./...'' \<or> p = ''...'' \<or> p = ''all'' then None
      else let p' = TrimPrefix p ''./'' in
           if HasSuffix p' ''/...'' then
             map_option ((#) \<lparr>dir = TrimSuffix p' ''/...'', recursive = True\<rparr>) (resolve_targets ps)
           else if p' = ''...'' then None
           else map_option ((#) \<lparr>dir = p', recursive = False\<rparr>) (resolve_targets ps))"

definition resolveTargetDirs :: "string list \<Rightarrow> targetDir list" where
  "resolveTargetDirs patterns = (case resolve_targets patterns of None \<Rightarrow> [] | Some ds \<Rightarrow> ds)"

definition matches_one :: "targetDir \<Rightarrow> string \<Rightarrow> bool" where
  "matches_one t rel =
     (if dir t = [] \<or> dir t = ''.'' then True
      else if recursive t then rel = dir t \<or> HasPrefix rel (dir t @ ''/'')
      else Dir rel = dir t)"

definition matchesTarget :: "targetDir list \<Rightarrow> string \<Rightarrow> bool" where
  "matchesTarget ts rel = list_ex (\<lambda>t. matches_one t rel) ts"


subsection \<open>The filter\<close>

record filter_state =
  basePath :: string
  pathPatterns :: "string list"
  pathExceptPatterns :: "string list"
  rules :: "compiledRule list"
  generatedMode :: string
  generatedCache :: "string \<rightharpoonup> bool"
  staticcheckDefaultDisabled :: "string list"
  targetDirs :: "targetDir list"
  uniqByLine :: bool
  nolint :: "nolintFilter option"

definition staticcheckDefaultDisabledChecks :: "string list" where
  "staticcheckDefaultDisabledChecks = [''ST1000'', ''ST1003'', ''ST1016'', ''ST1020'', ''ST1021'', ''ST1022'']"

text \<open>The argument is \<^verbatim>\<open>linters.settings.staticcheck.checks\<close>.\<close>

definition staticcheckDefaultDisabledSet :: "string list \<Rightarrow> string list" where
  "staticcheckDefaultDisabledSet checks = (if checks \<noteq> [] then [] else staticcheckDefaultDisabledChecks)"

fun compile_paths :: "regex_lib \<Rightarrow> string \<Rightarrow> string list \<Rightarrow> string list result" where
  "compile_paths rl tag [] = Inr []"
| "compile_paths rl tag (p # ps) =
     (case compilePathRegex rl p of Inl e \<Rightarrow> Inl (tag @ '': '' @ e) | Inr re \<Rightarrow>
      case compile_paths rl tag ps of Inl e \<Rightarrow> Inl e | Inr res \<Rightarrow> Inr (re # res))"

fun compile_rules :: "regex_lib \<Rightarrow> (nat \<Rightarrow> string) \<Rightarrow> nat \<Rightarrow> excluderule list \<Rightarrow> compiledRule list result" where
  "compile_rules rl tag i [] = Inr []"
| "compile_rules rl tag i (r # rs) =
     (case compileExcludeRule rl r of Inl e \<Rightarrow> Inl (tag i @ '': '' @ e) | Inr c \<Rightarrow>
      case compile_rules rl tag (Suc i) rs of Inl e \<Rightarrow> Inl e | Inr cs \<Rightarrow> Inr (c # cs))"

fun compile_presets :: "regex_lib \<Rightarrow> string list \<Rightarrow> compiledRule list result" where
  "compile_presets rl [] = Inr []"
| "compile_presets rl (p # ps) =
     (case compile_rules rl (\<lambda>_. ''linters.exclusions.presets['' @ p @ '']'') 0 (presetRules p) of
        Inl e \<Rightarrow> Inl e | Inr cs \<Rightarrow>
      case compile_presets rl ps of Inl e \<Rightarrow> Inl e | Inr cs' \<Rightarrow> Inr (cs @ cs'))"

text \<open>\<open>None\<close> is the nil configuration; otherwise the exclusions block and the staticcheck selector.\<close>

definition NewFilter ::
    "regex_lib \<Rightarrow> (linterexclusions \<times> string list) option \<Rightarrow> string \<Rightarrow> string list \<Rightarrow> filter_state result" where
  "NewFilter rl cfg base targetPatterns =
     (case cfg of
        None \<Rightarrow>
          Inr \<lparr>basePath = base, pathPatterns = [], pathExceptPatterns = [], rules = [],
               generatedMode = GeneratedModeStrict, generatedCache = Map.empty,
               staticcheckDefaultDisabled = [], targetDirs = resolveTargetDirs targetPatterns,
               uniqByLine = False, nolint = Some newNolintFilter\<rparr>
      | Some (exc, checks) \<Rightarrow>
          (case compile_paths rl ''linters.exclusions.paths'' (Paths exc) of Inl e \<Rightarrow> Inl e | Inr ps \<Rightarrow>
           case compile_paths rl ''linters.exclusions.paths-except'' (PathsExcept exc) of Inl e \<Rightarrow> Inl e | Inr pes \<Rightarrow>
           case compile_rules rl (\<lambda>i. ''linters.exclusions.rules['' @ itoa (int i) @ '']'') 0 (Rules exc) of
             Inl e \<Rightarrow> Inl e | Inr rs \<Rightarrow>
           case compile_presets rl (Presets exc) of Inl e \<Rightarrow> Inl e | Inr prs \<Rightarrow>
           Inr \<lparr>basePath = base, pathPatterns = ps, pathExceptPatterns = pes, rules = rs @ prs,
                generatedMode = (if Generated exc = [] then GeneratedModeStrict else Generated exc),
                generatedCache = Map.empty,
                staticcheckDefaultDisabled = staticcheckDefaultDisabledSet checks,
                targetDirs = resolveTargetDirs targetPatterns,
                uniqByLine = True, nolint = Some newNolintFilter\<rparr>))"

definition relativePath :: "filter_state \<Rightarrow> string \<Rightarrow> string" where
  "relativePath f name =
     (if basePath f = [] then name
      else if \<not> IsAbs name then name
      else case Rel (basePath f) name of None \<Rightarrow> name | Some rel \<Rightarrow> rel)"

definition isGenerated :: "fenv \<Rightarrow> filter_state \<Rightarrow> string \<Rightarrow> filter_state \<times> bool" where
  "isGenerated e f p =
     (if p = [] then (f, False)
      else if Base p = ''go.mod'' then (f, False)
      else case generatedCache f p of
             Some v \<Rightarrow> (f, v)
           | None \<Rightarrow>
               let gen = detectGenerated (parseClause e) p (generatedMode f)
               in (f\<lparr>generatedCache := (generatedCache f)(p \<mapsto> gen)\<rparr>, gen))"

definition dropLibraryVersionSkew :: "diagnostic \<Rightarrow> bool" where
  "dropLibraryVersionSkew d \<longleftrightarrow>
     Linter d = ''noctx'' \<and> HasPrefix (Message d) ''net/http/httptest.NewRequest must not be called''"

definition path_excluded :: "fenv \<Rightarrow> filter_state \<Rightarrow> string \<Rightarrow> bool" where
  "path_excluded e f rel \<longleftrightarrow>
     list_ex (\<lambda>re. re_match (relib e) re rel) (pathPatterns f)
     \<or> (pathExceptPatterns f \<noteq> [] \<and> \<not> list_ex (\<lambda>re. re_match (relib e) re rel) (pathExceptPatterns f))"

definition nolint_stage :: "fenv \<Rightarrow> filter_state \<Rightarrow> diagnostic \<Rightarrow> filter_state \<times> bool" where
  "nolint_stage e f d =
     (case nolint f of
        None \<Rightarrow> (f, False)
      | Some n \<Rightarrow> let (n', b) = suppresses (parseFile e) n d in (f\<lparr>nolint := Some n'\<rparr>, b))"

definition generated_stage :: "fenv \<Rightarrow> filter_state \<Rightarrow> string \<Rightarrow> filter_state \<times> bool" where
  "generated_stage e f p = (if generatedMode f \<noteq> GeneratedModeDisable then isGenerated e f p else (f, False))"

definition dropDiagnostic :: "fenv \<Rightarrow> filter_state \<Rightarrow> diagnostic \<Rightarrow> filter_state \<times> bool" where
  "dropDiagnostic e f d =
     (let rel = relativePath f (Filename (Pos d)) in
      if targetDirs f \<noteq> [] \<and> \<not> matchesTarget (targetDirs f) rel then (f, True)
      else let (f1, sup) = nolint_stage e f d in
        if sup then (f1, True)
        else if Linter d \<in> set (staticcheckDefaultDisabled f) then (f1, True)
        else if dropLibraryVersionSkew d then (f1, True)
        else if path_excluded e f rel then (f1, True)
        else let (f2, gen) = generated_stage e f1 (Filename (Pos d)) in
          if gen then (f2, True)
          else (f2, list_ex (\<lambda>r. rule_match (relib e) r d rel) (rules f)))"

definition excludesFile :: "fenv \<Rightarrow> filter_state \<Rightarrow> string \<Rightarrow> filter_state \<times> bool" where
  "excludesFile e f p =
     (if p = [] then (f, False)
      else let rel = relativePath f p in
        if targetDirs f \<noteq> [] \<and> \<not> matchesTarget (targetDirs f) rel then (f, True)
        else if path_excluded e f rel then (f, True)
        else generated_stage e f p)"

fun excludes_all :: "fenv \<Rightarrow> filter_state \<Rightarrow> string list \<Rightarrow> filter_state \<times> bool" where
  "excludes_all e f [] = (f, True)"
| "excludes_all e f (p # ps) =
     (let (f', b) = excludesFile e f p in if b then excludes_all e f' ps else (f', False))"

definition ExcludesAllFiles :: "fenv \<Rightarrow> filter_state option \<Rightarrow> string list \<Rightarrow> filter_state option \<times> bool" where
  "ExcludesAllFiles e fo paths =
     (case fo of
        None \<Rightarrow> (None, False)
      | Some f \<Rightarrow> if paths = [] then (Some f, False)
                  else let (f', b) = excludes_all e f paths in (Some f', b))"

type_synonym fileLine = "string \<times> int"

definition file_line :: "diagnostic \<Rightarrow> fileLine" where
  "file_line d = (Filename (Pos d), Line (Pos d))"

text \<open>
  The loop \<^verbatim>\<open>Apply\<close> and \<^verbatim>\<open>Stream.AddPackage\<close> share: drop a diagnostic the decision \<open>step\<close> rejects;
  with \<open>uniq\<close> also drop one whose key was seen, and remember the key otherwise.
\<close>

fun filter_loop ::
    "('s \<Rightarrow> 'd \<Rightarrow> 's \<times> bool) \<Rightarrow> bool \<Rightarrow> ('d \<Rightarrow> 'k) \<Rightarrow> 's \<Rightarrow> 'k list \<Rightarrow> 'd list \<Rightarrow> 's \<times> 'k list \<times> 'd list" where
  "filter_loop step uniq key s seen [] = (s, seen, [])"
| "filter_loop step uniq key s seen (d # ds) =
     (let (s', drop) = step s d in
      if drop then filter_loop step uniq key s' seen ds
      else if uniq \<and> key d \<in> set seen then filter_loop step uniq key s' seen ds
      else let (s'', seen', out) = filter_loop step uniq key s' (if uniq then key d # seen else seen) ds
           in (s'', seen', d # out))"

definition apply_inactive :: "filter_state \<Rightarrow> bool" where
  "apply_inactive f \<longleftrightarrow>
     pathPatterns f = [] \<and> pathExceptPatterns f = [] \<and> rules f = []
     \<and> generatedMode f = GeneratedModeDisable \<and> staticcheckDefaultDisabled f = [] \<and> targetDirs f = []
     \<and> \<not> uniqByLine f \<and> nolint f = None"

definition Apply :: "fenv \<Rightarrow> filter_state option \<Rightarrow> diagnostic list \<Rightarrow> filter_state option \<times> diagnostic list" where
  "Apply e fo diags =
     (case fo of
        None \<Rightarrow> (None, diags)
      | Some f \<Rightarrow>
          if diags = [] \<or> apply_inactive f then (Some f, diags)
          else let (f', _, out) = filter_loop (dropDiagnostic e) (uniqByLine f) file_line f [] diags in (Some f', out))"

end
