(* ===== verification/FilterProps.thy ===== *)
theory FilterProps
  imports Exclusion
begin

text \<open>
  What the filter does.  The caches never change an answer: a filter whose caches agree with the
  files decides every diagnostic exactly as \<open>drops\<close>, a function of the configuration and the files
  alone, and keeps its caches in agreement.  The locale \<open>stream_filter\<close> is the interface the
  filtering loop needs from such a decision procedure; it is interpreted on \<open>dropDiagnostic\<close>.
\<close>

subsection \<open>Decision procedures and the loop over them\<close>

fun uniq_first :: "('d \<Rightarrow> 'k) \<Rightarrow> 'k set \<Rightarrow> 'd list \<Rightarrow> 'd list" where
  "uniq_first key S [] = []"
| "uniq_first key S (d # ds) =
     (if key d \<in> S then uniq_first key S ds else d # uniq_first key (insert (key d) S) ds)"

definition keep_spec :: "('d \<Rightarrow> bool) \<Rightarrow> bool \<Rightarrow> ('d \<Rightarrow> 'k) \<Rightarrow> 'k set \<Rightarrow> 'd list \<Rightarrow> 'd list" where
  "keep_spec dr uniq key S ds =
     (let kept = filter (\<lambda>d. \<not> dr d) ds in if uniq then uniq_first key S kept else kept)"

lemma set_uniq_first: "key ` set (uniq_first key S ds) = key ` set ds - S"
  by (induction ds arbitrary: S) auto

lemma uniq_first_subset: "set (uniq_first key S ds) \<subseteq> set ds"
proof (induction ds arbitrary: S)
  case (Cons d ds)
  from Cons [of S] Cons [of "insert (key d) S"] show ?case by auto
qed simp

lemma distinct_uniq_first: "distinct (map key (uniq_first key S ds))"
proof (induction ds arbitrary: S)
  case (Cons d ds)
  have "key d \<notin> key ` set (uniq_first key (insert (key d) S) ds)" by (simp add: set_uniq_first)
  with Cons show ?case by simp
qed simp

lemma uniq_first_append:
  "uniq_first key S (xs @ ys) = uniq_first key S xs @ uniq_first key (S \<union> key ` set xs) ys"
proof (induction xs arbitrary: S)
  case (Cons x xs)
  have "insert (key x) (S \<union> key ` set xs) = insert (key x) S \<union> key ` set xs" by blast
  with Cons show ?case by (auto simp: insert_absorb)
qed simp

lemma uniq_first_id: "distinct (map key ds) \<Longrightarrow> key ` set ds \<inter> S = {} \<Longrightarrow> uniq_first key S ds = ds"
  by (induction ds arbitrary: S) auto

locale stream_filter =
  fixes step :: "'s \<Rightarrow> 'd \<Rightarrow> 's \<times> bool"
    and inv :: "'s \<Rightarrow> bool"
    and dr :: "'d \<Rightarrow> bool"
  assumes step_inv: "inv s \<Longrightarrow> inv (fst (step s d))"
    and step_dr: "inv s \<Longrightarrow> snd (step s d) = dr d"
begin

lemma loop_spec:
  assumes "inv s"
  shows "case filter_loop step uniq key s seen ds of (s', seen', out) \<Rightarrow>
     inv s' \<and> out = keep_spec dr uniq key (set seen) ds
     \<and> (uniq \<longrightarrow> set seen' = set seen \<union> key ` {d \<in> set ds. \<not> dr d})"
  using assms
proof (induction ds arbitrary: s seen)
  case (Cons d ds)
  obtain s' b where sb: "step s d = (s', b)" by (cases "step s d")
  have "inv s'" and b: "b = dr d" using step_inv [OF Cons.prems, of d] step_dr [OF Cons.prems, of d] sb by simp_all
  note IH = Cons.IH [OF \<open>inv s'\<close>]
  show ?case
  proof (cases "dr d \<or> uniq \<and> key d \<in> set seen")
    case True
    then show ?thesis
      using IH [of seen] by (auto simp: sb b keep_spec_def Let_def split: prod.splits)
  next
    case False
    then show ?thesis
      using IH [of "if uniq then key d # seen else seen"]
      by (auto simp: sb b keep_spec_def Let_def split: prod.splits)
  qed
qed (simp add: keep_spec_def)

end


subsection \<open>The decision without caches\<close>

definition gen_spec :: "fenv \<Rightarrow> filter_state \<Rightarrow> string \<Rightarrow> bool" where
  "gen_spec e f p \<longleftrightarrow> generatedMode f \<noteq> GeneratedModeDisable \<and> p \<noteq> [] \<and> Base p \<noteq> ''go.mod''
     \<and> detectGenerated (parseClause e) p (generatedMode f)"

definition file_excluded :: "fenv \<Rightarrow> filter_state \<Rightarrow> string \<Rightarrow> bool" where
  "file_excluded e f p \<longleftrightarrow>
     (targetDirs f \<noteq> [] \<and> \<not> matchesTarget (targetDirs f) (relativePath f p))
     \<or> path_excluded e f (relativePath f p) \<or> gen_spec e f p"

definition drops :: "fenv \<Rightarrow> filter_state \<Rightarrow> diagnostic \<Rightarrow> bool" where
  "drops e f d \<longleftrightarrow>
     file_excluded e f (Filename (Pos d))
     \<or> (nolint f \<noteq> None \<and> nolint_covers (parseFile e) d)
     \<or> Linter d \<in> set (staticcheckDefaultDisabled f) \<or> dropLibraryVersionSkew d
     \<or> (\<exists>r \<in> set (rules f). rule_match (relib e) r d (relativePath f (Filename (Pos d))))"

text \<open>The configuration of a filter: the filter with its caches emptied.\<close>

definition config_of :: "filter_state \<Rightarrow> filter_state" where
  "config_of f = f\<lparr>generatedCache := Map.empty, nolint := map_option (\<lambda>_. newNolintFilter) (nolint f)\<rparr>"

definition caches_ok :: "fenv \<Rightarrow> filter_state \<Rightarrow> bool" where
  "caches_ok e f \<longleftrightarrow>
     (\<forall>p v. generatedCache f p = Some v \<longrightarrow> v = detectGenerated (parseClause e) p (generatedMode f))
     \<and> (case nolint f of None \<Rightarrow> True | Some n \<Rightarrow> nolint_cache_ok (parseFile e) n)"

definition filter_inv :: "fenv \<Rightarrow> filter_state \<Rightarrow> filter_state \<Rightarrow> bool" where
  "filter_inv e c f \<longleftrightarrow> config_of f = config_of c \<and> caches_ok e f"

lemma config_of_fields [simp]:
  "basePath (config_of f) = basePath f" "pathPatterns (config_of f) = pathPatterns f"
  "pathExceptPatterns (config_of f) = pathExceptPatterns f" "rules (config_of f) = rules f"
  "generatedMode (config_of f) = generatedMode f"
  "staticcheckDefaultDisabled (config_of f) = staticcheckDefaultDisabled f"
  "targetDirs (config_of f) = targetDirs f" "uniqByLine (config_of f) = uniqByLine f"
  "nolint (config_of f) = None \<longleftrightarrow> nolint f = None"
  by (simp_all add: config_of_def)

lemma config_of_eqD:
  assumes "config_of f = config_of c"
  shows "basePath f = basePath c" "pathPatterns f = pathPatterns c"
    "pathExceptPatterns f = pathExceptPatterns c" "rules f = rules c" "generatedMode f = generatedMode c"
    "staticcheckDefaultDisabled f = staticcheckDefaultDisabled c" "targetDirs f = targetDirs c"
    "uniqByLine f = uniqByLine c" "nolint f = None \<longleftrightarrow> nolint c = None"
  using assms config_of_fields by metis+

lemma drops_config:
  assumes "config_of f = config_of c"
  shows "drops e f d = drops e c d"
  using config_of_eqD [OF assms]
  by (simp add: drops_def file_excluded_def gen_spec_def path_excluded_def relativePath_def)

lemma config_of_cache [simp]:
  "config_of (f\<lparr>generatedCache := m\<rparr>) = config_of f"
  "nolint f = Some n \<Longrightarrow> config_of (f\<lparr>nolint := Some n'\<rparr>) = config_of f"
  by (simp_all add: config_of_def)

lemma nolint_stage_spec:
  assumes "caches_ok e f"
  shows "snd (nolint_stage e f d) \<longleftrightarrow> nolint f \<noteq> None \<and> nolint_covers (parseFile e) d"
    and "config_of (fst (nolint_stage e f d)) = config_of f" and "caches_ok e (fst (nolint_stage e f d))"
proof -
  have "snd (nolint_stage e f d) = (nolint f \<noteq> None \<and> nolint_covers (parseFile e) d)
      \<and> config_of (fst (nolint_stage e f d)) = config_of f \<and> caches_ok e (fst (nolint_stage e f d))"
  proof (cases "nolint f")
    case None
    with assms show ?thesis by (simp add: nolint_stage_def)
  next
    case (Some n)
    with assms have "nolint_cache_ok (parseFile e) n" by (simp add: caches_ok_def)
    with Some assms show ?thesis
      using suppresses_spec [of "parseFile e" n d]
      by (auto simp: nolint_stage_def caches_ok_def split: prod.splits)
  qed
  then show "snd (nolint_stage e f d) \<longleftrightarrow> nolint f \<noteq> None \<and> nolint_covers (parseFile e) d"
    and "config_of (fst (nolint_stage e f d)) = config_of f" and "caches_ok e (fst (nolint_stage e f d))"
    by simp_all
qed

lemma generated_stage_spec:
  assumes "caches_ok e f"
  shows "snd (generated_stage e f p) \<longleftrightarrow> gen_spec e f p"
    and "config_of (fst (generated_stage e f p)) = config_of f" and "caches_ok e (fst (generated_stage e f p))"
  using assms
  by (auto simp: generated_stage_def gen_spec_def isGenerated_def caches_ok_def Let_def split: option.splits)

lemma dropDiagnostic_spec:
  assumes "caches_ok e f"
  shows "snd (dropDiagnostic e f d) = drops e f d"
    and "config_of (fst (dropDiagnostic e f d)) = config_of f" and "caches_ok e (fst (dropDiagnostic e f d))"
proof -
  obtain f1 b where n: "nolint_stage e f d = (f1, b)" by (cases "nolint_stage e f d")
  note N = nolint_stage_spec [OF assms, of d, unfolded n fst_conv snd_conv]
  obtain f2 g where gs: "generated_stage e f1 (Filename (Pos d)) = (f2, g)"
    by (cases "generated_stage e f1 (Filename (Pos d))")
  note G = generated_stage_spec [OF N(3), of "Filename (Pos d)", unfolded gs fst_conv snd_conv]
  have gm: "gen_spec e f1 = gen_spec e f"
    using config_of_eqD(5) [OF N(2)] by (intro ext) (simp add: gen_spec_def)
  show "snd (dropDiagnostic e f d) = drops e f d"
    using N(1) G(1) gm
    by (auto simp: dropDiagnostic_def drops_def file_excluded_def Let_def n gs list_ex_iff)
  show "config_of (fst (dropDiagnostic e f d)) = config_of f" and "caches_ok e (fst (dropDiagnostic e f d))"
    using N G assms by (auto simp: dropDiagnostic_def Let_def n gs)
qed

interpretation flt: stream_filter "dropDiagnostic e" "filter_inv e c" "drops e c" for e c
proof
  fix s d assume "filter_inv e c s"
  then have s: "config_of s = config_of c" "caches_ok e s" by (simp_all add: filter_inv_def)
  show "filter_inv e c (fst (dropDiagnostic e s d))"
    using dropDiagnostic_spec [OF s(2)] s(1) by (simp add: filter_inv_def)
  show "snd (dropDiagnostic e s d) = drops e c d"
    using dropDiagnostic_spec(1) [OF s(2)] drops_config [OF s(1)] by simp
qed


subsection \<open>Filters in use\<close>

text \<open>
  A run of a filter: the states a filter goes through while diagnostics are decided and files are
  tested for exclusion, in any order.
\<close>

inductive filter_run :: "fenv \<Rightarrow> filter_state \<Rightarrow> filter_state \<Rightarrow> bool" for e f0 where
  start: "filter_run e f0 f0"
| decide: "filter_run e f0 f \<Longrightarrow> filter_run e f0 (fst (dropDiagnostic e f d))"
| test: "filter_run e f0 f \<Longrightarrow> filter_run e f0 (fst (excludesFile e f p))"

inductive_cases filter_runE: "filter_run e f0 f"

lemma excludesFile_spec:
  assumes "caches_ok e f"
  shows "snd (excludesFile e f p) \<longleftrightarrow> p \<noteq> [] \<and> file_excluded e f p"
    and "config_of (fst (excludesFile e f p)) = config_of f" and "caches_ok e (fst (excludesFile e f p))"
  using assms generated_stage_spec [OF assms, of p]
  by (auto simp: excludesFile_def file_excluded_def Let_def)

lemma filter_run_inv:
  assumes "filter_run e f0 f" and "caches_ok e f0"
  shows "filter_inv e f0 f"
  using assms
proof (induction rule: filter_run.induct)
  case (decide f d)
  then show ?case using flt.step_inv [of e f0 f d] by simp
next
  case (test f p)
  then show ?case using excludesFile_spec [of e f p] by (simp add: filter_inv_def)
qed (simp add: filter_inv_def)

lemma file_excluded_config:
  assumes "config_of f = config_of c"
  shows "file_excluded e f p = file_excluded e c p"
  using config_of_eqD [OF assms]
  by (simp add: file_excluded_def gen_spec_def path_excluded_def relativePath_def)

lemma NewFilter_caches_ok:
  "NewFilter rl cfg base targets = Inr f \<Longrightarrow> caches_ok e f"
  by (auto simp: NewFilter_def caches_ok_def newNolintFilter_def nolint_cache_ok_def split: option.splits prod.splits sum.splits)

lemma NewFilter_nolint: "NewFilter rl cfg base targets = Inr f \<Longrightarrow> nolint f \<noteq> None"
  by (auto simp: NewFilter_def split: option.splits prod.splits sum.splits)

lemma inactive_drops:
  assumes "apply_inactive f"
  shows "\<not> file_excluded e f p" and "drops e f d \<longleftrightarrow> dropLibraryVersionSkew d"
  using assms by (auto simp: apply_inactive_def file_excluded_def gen_spec_def path_excluded_def drops_def)

lemma keep_spec_Nil [simp]: "keep_spec dr u key S [] = []"
  by (simp add: keep_spec_def)

lemma Apply_inv_spec:
  assumes "filter_inv e c f" and "nolint c \<noteq> None"
  shows "snd (Apply e (Some f) ds) = keep_spec (drops e c) (uniqByLine c) file_line {} ds"
proof -
  have u: "uniqByLine f = uniqByLine c" and n: "nolint f \<noteq> None"
    using assms config_of_eqD [of f c] by (auto simp: filter_inv_def)
  obtain f' seen out where L: "filter_loop (dropDiagnostic e) (uniqByLine c) file_line f [] ds = (f', seen, out)"
    by (metis prod_cases3)
  have "out = keep_spec (drops e c) (uniqByLine c) file_line {} ds"
    using flt.loop_spec [OF assms(1), of "uniqByLine c" file_line "[]" ds] by (simp add: L)
  then show ?thesis using n by (auto simp: Apply_def apply_inactive_def u L)
qed

text \<open>
  C2. Batch filtering is a function of the configuration and of the files alone.  Take a filter
  built by \<open>NewFilter\<close> and use it in any way, so that its caches for generated files and for nolint
  ranges are filled in some order.  Then \<open>Apply\<close> returns the diagnostics that no stage of the
  cache-free decision \<open>drops\<close> rejects, in their order, and with \<open>uniqByLine\<close> only the first of those
  on each line of a file.
\<close>

theorem Apply_correct:
  assumes "NewFilter rl cfg base targets = Inr f0" and "filter_run e f0 f"
  shows "snd (Apply e (Some f) ds) = keep_spec (drops e f0) (uniqByLine f0) file_line {} ds"
  using Apply_inv_spec [OF filter_run_inv [OF assms(2) NewFilter_caches_ok [OF assms(1)]]]
    NewFilter_nolint [OF assms(1)] by blast

text \<open>
  A concrete environment for the witnesses: patterns are plain substrings, one file of the tree is
  generated, and every other file parses to an empty one.
\<close>

definition demo_env :: fenv where
  "demo_env =
     \<lparr>relib = \<lparr>re_compile = (\<lambda>p. None), re_match = (\<lambda>p s. Contains s p)\<rparr>,
      parseFile = (\<lambda>p. None),
      parseClause = (\<lambda>p. if p = ''/m/gen.go'' then
          Some \<lparr>Comments = [\<lparr>CList = [\<lparr>CText = ''// Code generated x DO NOT EDIT.'', CPos = 1\<rparr>],
                                GStartLine = 1, GStartCol = 1, GEndLine = 1\<rparr>],
                PackagePos = 40, Nodes = []\<rparr>
        else None)\<rparr>"

definition demo_excl :: linterexclusions where
  "demo_excl = \<lparr>Generated = [], WarnUnused = False, Presets = [], Rules = [], Paths = [''mock''], PathsExcept = []\<rparr>"

definition demo_filter :: filter_state where
  "demo_filter =
     \<lparr>basePath = ''/m'', pathPatterns = [''mock''], pathExceptPatterns = [], rules = [],
      generatedMode = ''strict'', generatedCache = Map.empty,
      staticcheckDefaultDisabled = staticcheckDefaultDisabledChecks, targetDirs = [],
      uniqByLine = True, nolint = Some newNolintFilter\<rparr>"

definition demo_diags :: "diagnostic list" where
  "demo_diags =
     [mk_diag ''errcheck'' ''a'' ''/m/a.go'' 3 1, mk_diag ''govet'' ''b'' ''/m/a.go'' 3 9,
      mk_diag ''errcheck'' ''c'' ''/m/mock/b.go'' 1 1, mk_diag ''errcheck'' ''d'' ''/m/gen.go'' 7 1,
      mk_diag ''ST1000'' ''e'' ''/m/a.go'' 1 1]"

lemma demo_NewFilter:
  "NewFilter (relib demo_env) (Some (demo_excl, [])) ''/m'' [''./...''] = Inr demo_filter"
  by (simp add: NewFilter_def demo_env_def demo_excl_def demo_filter_def compilePathRegex_def
    config_consts staticcheckDefaultDisabledSet_def resolveTargetDirs_def trim_eval)

theorem Apply_correct_witness:
  "snd (Apply demo_env (Some (fst (dropDiagnostic demo_env demo_filter (hd demo_diags)))) demo_diags)
   = keep_spec (drops demo_env demo_filter) (uniqByLine demo_filter) file_line {} demo_diags
   \<and> uniqByLine demo_filter"
  using Apply_correct [OF demo_NewFilter filter_run.decide [OF filter_run.start]]
  by (simp add: demo_filter_def)

text \<open>
  Filtering is idempotent: passing the kept diagnostics through the same filter again, at any
  later point of its life, keeps all of them.
\<close>

theorem Apply_idempotent:
  assumes "NewFilter rl cfg base targets = Inr f0" and "filter_run e f0 f" and "filter_run e f0 g"
  shows "snd (Apply e (Some g) (snd (Apply e (Some f) ds))) = snd (Apply e (Some f) ds)"
proof -
  let ?I = "\<lambda>f. filter_inv e f0 f"
  have n: "nolint f0 \<noteq> None" by (rule NewFilter_nolint [OF assms(1)])
  have "?I f" "?I g" using assms filter_run_inv NewFilter_caches_ok by blast+
  note [simp] = Apply_inv_spec [OF \<open>?I f\<close> n] Apply_inv_spec [OF \<open>?I g\<close> n]
  let ?kept = "filter (\<lambda>d. \<not> drops e f0 d) ds"
  have "filter (\<lambda>d. \<not> drops e f0 d) (uniq_first file_line {} ?kept) = uniq_first file_line {} ?kept"
    using uniq_first_subset [of file_line "{}" ?kept] by (auto intro: filter_True)
  then show ?thesis
    by (simp add: keep_spec_def Let_def uniq_first_id distinct_uniq_first)
qed

theorem Apply_idempotent_witness:
  "snd (Apply demo_env (Some demo_filter) (snd (Apply demo_env (Some demo_filter) demo_diags)))
   = snd (Apply demo_env (Some demo_filter) demo_diags)"
  by (rule Apply_idempotent [OF demo_NewFilter filter_run.start filter_run.start])

lemma excludes_all_spec:
  assumes "filter_inv e c f"
  shows "filter_inv e c (fst (excludes_all e f ps))
     \<and> (snd (excludes_all e f ps) \<longleftrightarrow> (\<forall>p \<in> set ps. p \<noteq> [] \<and> file_excluded e c p))"
  using assms
proof (induction ps arbitrary: f)
  case (Cons p ps)
  have c: "caches_ok e f" "config_of f = config_of c" using Cons.prems by (simp_all add: filter_inv_def)
  note X = excludesFile_spec [OF c(1), of p]
  have i: "filter_inv e c (fst (excludesFile e f p))" using X c by (simp add: filter_inv_def)
  have b: "snd (excludesFile e f p) \<longleftrightarrow> p \<noteq> [] \<and> file_excluded e c p"
    using X(1) file_excluded_config [OF c(2)] by simp
  show ?case
    using Cons.IH [OF i] i b by (auto simp: case_prod_beta Let_def)
qed simp

text \<open>
  C15. The package skip is sound: whenever \<open>ExcludesAllFiles\<close> answers true for the files of a package,
  at whatever point of a run, every batch of diagnostics positioned in those files filters to
  nothing, also with the caches the test itself has filled.  Skipping the analysis of such a package
  loses no diagnostic.
\<close>

theorem ExcludesAllFiles_sound:
  assumes "NewFilter rl cfg base targets = Inr f0" and "filter_run e f0 f"
    and "ExcludesAllFiles e (Some f) paths = (g, True)"
    and "\<And>d. d \<in> set ds \<Longrightarrow> Filename (Pos d) \<in> set paths"
  shows "snd (Apply e g ds) = []"
proof -
  have n: "nolint f0 \<noteq> None" by (rule NewFilter_nolint [OF assms(1)])
  have i: "filter_inv e f0 f" using assms filter_run_inv NewFilter_caches_ok by blast
  have E: "excludes_all e f paths = (the g, True)" and g: "g = Some (the g)"
    using assms(3) by (auto simp: ExcludesAllFiles_def Let_def split: if_splits prod.splits)
  have "filter_inv e f0 (the g)" and x: "\<forall>p \<in> set paths. file_excluded e f0 p"
    using excludes_all_spec [OF i, of paths] by (simp_all add: E)
  have "drops e f0 d" if "d \<in> set ds" for d
    using assms(4) [OF that] x by (simp add: drops_def)
  then have "keep_spec (drops e f0) (uniqByLine f0) file_line {} ds = []"
    by (simp add: keep_spec_def filter_False)
  with Apply_inv_spec [OF \<open>filter_inv e f0 (the g)\<close> n] show ?thesis by (metis g)
qed

lemma demo_excludes:
  "snd (ExcludesAllFiles demo_env (Some demo_filter) [''/m/gen.go'', ''/m/mock/b.go''])"
  by code_simp

theorem ExcludesAllFiles_sound_witness:
  "snd (Apply demo_env (fst (ExcludesAllFiles demo_env (Some demo_filter) [''/m/gen.go'', ''/m/mock/b.go'']))
     [mk_diag ''errcheck'' ''c'' ''/m/mock/b.go'' 1 1, mk_diag ''errcheck'' ''d'' ''/m/gen.go'' 7 1]) = []"
proof -
  obtain g where g: "ExcludesAllFiles demo_env (Some demo_filter) [''/m/gen.go'', ''/m/mock/b.go''] = (g, True)"
    using demo_excludes by (metis prod.collapse)
  show ?thesis
    unfolding g fst_conv
    by (rule ExcludesAllFiles_sound [OF demo_NewFilter filter_run.start g]) (auto simp: mk_diag_def)
qed


subsection \<open>When construction succeeds\<close>

lemma compile_paths_Inr:
  "(\<exists>res. compile_paths rl tag ps = Inr res) \<longleftrightarrow> (\<forall>p \<in> set ps. p \<noteq> [] \<and> re_compile rl p = None)"
  by (induction ps) (auto simp: compilePathRegex_def split: option.splits sum.splits)

lemma compileExcludeRule_Inr:
  assumes "\<And>p. p \<in> {Path r, PathExcept r, Text r, Source r} \<Longrightarrow> p = [] \<or> re_compile rl p = None"
  shows "\<exists>c. compileExcludeRule rl r = Inr c"
proof -
  have "\<exists>q. compile_field rl tag p = Inr q" if "p \<in> {Path r, PathExcept r, Text r, Source r}" for tag p
    using assms [OF that] by (auto simp: compile_field_def)
  then obtain a b c d where "compile_field rl ''path'' (Path r) = Inr a"
    "compile_field rl ''path-except'' (PathExcept r) = Inr b"
    "compile_field rl ''text'' (Text r) = Inr c" "compile_field rl ''source'' (Source r) = Inr d"
    by (metis insertCI)
  then show ?thesis by (simp add: compileExcludeRule_def)
qed

lemma compile_rules_Inr:
  "(\<And>r. r \<in> set rs \<Longrightarrow> \<exists>c. compileExcludeRule rl r = Inr c) \<Longrightarrow> \<exists>cs. \<forall>tag i. compile_rules rl tag i rs = Inr cs"
proof (induction rs)
  case (Cons r rs)
  obtain c where "compileExcludeRule rl r = Inr c" using Cons.prems by auto
  moreover obtain cs where "\<forall>tag i. compile_rules rl tag i rs = Inr cs" using Cons by force
  ultimately show ?case by simp
qed simp

lemma compile_presets_Inr:
  assumes "\<And>n r. n \<in> set ps \<Longrightarrow> r \<in> set (presetRules n) \<Longrightarrow> re_compile rl (Text r) = None"
  shows "\<exists>cs. compile_presets rl ps = Inr cs"
  using assms
proof (induction ps)
  case (Cons n ps)
  have "\<exists>c. compileExcludeRule rl r = Inr c" if "r \<in> set (presetRules n)" for r
    by (rule compileExcludeRule_Inr)
      (use Cons.prems [of n r] that in \<open>auto simp: presetRules_def rule_def split: if_splits\<close>)
  then obtain cs where "\<forall>tag i. compile_rules rl tag i (presetRules n) = Inr cs"
    using compile_rules_Inr by metis
  moreover obtain cs' where "compile_presets rl ps = Inr cs'" using Cons by force
  ultimately show ?case by simp
qed simp

text \<open>
  Which configurations yield a filter.  For an exclusions block that passes
  \<open>LinterExclusions.Validate\<close> and whose presets have compiling patterns, \<open>NewFilter\<close> succeeds exactly
  when every entry of \<open>paths\<close> and \<open>paths-except\<close> is non-empty and compiles.  Validation alone does
  not imply this: it never looks at the two path lists.
\<close>

theorem NewFilter_succeeds_iff:
  assumes "LinterExclusions_Validate rl exc = None"
    and "\<And>n r. n \<in> set (Presets exc) \<Longrightarrow> r \<in> set (presetRules n) \<Longrightarrow> re_compile rl (Text r) = None"
  shows "(\<exists>f. NewFilter rl (Some (exc, checks)) base targets = Inr f) \<longleftrightarrow>
     (\<forall>p \<in> set (Paths exc @ PathsExcept exc). p \<noteq> [] \<and> re_compile rl p = None)"
proof -
  have "\<exists>c. compileExcludeRule rl r = Inr c" if "r \<in> set (Rules exc)" for r
    by (rule compileExcludeRule_Inr)
      (use assms(1) that in \<open>auto simp: LinterExclusions_Validate_None ExcludeRule_Validate_def BaseRule_Validate_None\<close>)
  then obtain rs where rs: "\<And>tag i. compile_rules rl tag i (Rules exc) = Inr rs"
    using compile_rules_Inr by metis
  obtain prs where prs: "compile_presets rl (Presets exc) = Inr prs"
    using compile_presets_Inr assms(2) by blast
  have "(\<exists>f. NewFilter rl (Some (exc, checks)) base targets = Inr f) \<longleftrightarrow>
      (\<exists>a. compile_paths rl ''linters.exclusions.paths'' (Paths exc) = Inr a)
      \<and> (\<exists>b. compile_paths rl ''linters.exclusions.paths-except'' (PathsExcept exc) = Inr b)"
    by (auto simp: NewFilter_def rs prs split: sum.splits)
  also have "\<dots> \<longleftrightarrow> (\<forall>p \<in> set (Paths exc @ PathsExcept exc). p \<noteq> [] \<and> re_compile rl p = None)"
    unfolding compile_paths_Inr by auto
  finally show ?thesis .
qed

theorem NewFilter_succeeds_iff_witness:
  "(\<exists>f. NewFilter (relib demo_env) (Some (demo_excl, [])) ''/m'' [] = Inr f)
   \<and> \<not> (\<exists>f. NewFilter (relib demo_env) (Some (demo_excl\<lparr>PathsExcept := ['''']\<rparr>, [])) ''/m'' [] = Inr f)"
proof -
  have v: "LinterExclusions_Validate (relib demo_env) (demo_excl\<lparr>PathsExcept := ps\<rparr>) = None" for ps
    by (simp add: LinterExclusions_Validate_def demo_excl_def)
  have "demo_excl = demo_excl\<lparr>PathsExcept := []\<rparr>" by (simp add: demo_excl_def)
  then show ?thesis
    using NewFilter_succeeds_iff [OF v [of "[]"], where checks = "[]" and base = "''/m''" and targets = "[]"]
      NewFilter_succeeds_iff [OF v [of "['''']"], where checks = "[]" and base = "''/m''" and targets = "[]"]
    by (simp add: demo_excl_def demo_env_def)
qed

end
