(* ===== verification/Streaming.thy ===== *)
theory Streaming
  imports FilterProps
begin

text \<open>
  The streaming view of the filter (\<^verbatim>\<open>internal/exclusion/streaming.go\<close>): diagnostics arrive one
  package at a time, every stage runs at once and one index of reported lines spans the run.

  \<open>uniqSeen\<close> is Go's map: \<open>None\<close> is the nil map, which \<open>Finish\<close> leaves behind and a write to which
  panics; a panic is the result \<open>None\<close> of \<open>AddPackage\<close>.  A nil \<^verbatim>\<open>*Stream\<close> or \<^verbatim>\<open>*Filter\<close> is the
  argument \<open>None\<close>.  The mutexes of the source make each decision and each test-and-insert of the
  index atomic, so a run with concurrent callers is a sequence of the steps below.
\<close>

record stream =
  sf :: filter_state
  uniqSeen :: "fileLine list option"

definition NewStream :: "filter_state option \<Rightarrow> stream option" where
  "NewStream fo =
     (case fo of
        None \<Rightarrow> None
      | Some f \<Rightarrow> Some \<lparr>sf = f, uniqSeen = (if uniqByLine f then Some [] else None)\<rparr>)"

definition anyStageActive :: "filter_state option \<Rightarrow> bool" where
  "anyStageActive fo =
     (case fo of
        None \<Rightarrow> False
      | Some f \<Rightarrow>
          if pathPatterns f \<noteq> [] \<or> pathExceptPatterns f \<noteq> [] \<or> rules f \<noteq> [] then True
          else if generatedMode f \<noteq> [] \<and> generatedMode f \<noteq> GeneratedModeDisable then True
          else if staticcheckDefaultDisabled f \<noteq> [] \<or> targetDirs f \<noteq> [] then True
          else if uniqByLine f then True
          else nolint f \<noteq> None)"

text \<open>The body of the loop of \<open>AddPackage\<close> for one diagnostic: the new stream and whether it is kept.\<close>

definition add_one :: "fenv \<Rightarrow> stream \<Rightarrow> diagnostic \<Rightarrow> (stream \<times> bool) option" where
  "add_one e s d =
     (let (f', drop) = dropDiagnostic e (sf s) d; s' = s\<lparr>sf := f'\<rparr> in
      if drop then Some (s', False)
      else if uniqByLine f' then
        (case uniqSeen s of
           None \<Rightarrow> None
         | Some seen \<Rightarrow>
             if file_line d \<in> set seen then Some (s', False)
             else Some (s'\<lparr>uniqSeen := Some (file_line d # seen)\<rparr>, True))
      else Some (s', True))"

fun add_loop :: "fenv \<Rightarrow> stream \<Rightarrow> diagnostic list \<Rightarrow> (stream \<times> diagnostic list) option" where
  "add_loop e s [] = Some (s, [])"
| "add_loop e s (d # ds) =
     (case add_one e s d of
        None \<Rightarrow> None
      | Some (s', keep) \<Rightarrow>
          map_option (\<lambda>(s'', out). (s'', if keep then d # out else out)) (add_loop e s' ds))"

definition AddPackage ::
    "fenv \<Rightarrow> stream option \<Rightarrow> string \<Rightarrow> diagnostic list \<Rightarrow> (stream option \<times> diagnostic list) option" where
  "AddPackage e so pkgID diags =
     (case so of
        None \<Rightarrow> Some (None, diags)
      | Some s \<Rightarrow>
          if diags = [] then Some (Some s, diags)
          else if \<not> anyStageActive (Some (sf s)) then Some (Some s, diags)
          else map_option (\<lambda>(s', out). (Some s', out)) (add_loop e s diags))"

definition AddBatch :: "fenv \<Rightarrow> stream option \<Rightarrow> diagnostic list \<Rightarrow> (stream option \<times> diagnostic list) option" where
  "AddBatch e so diags = AddPackage e so [] diags"

definition Finish :: "stream option \<Rightarrow> stream option" where
  "Finish so =
     map_option (\<lambda>s. s\<lparr>sf := (sf s)\<lparr>generatedCache := Map.empty,
                              nolint := map_option (\<lambda>n. newNolintFilter) (nolint (sf s))\<rparr>,
                       uniqSeen := None\<rparr>) so"

text \<open>A run adds the packages in the order they complete.\<close>

fun add_packages ::
    "fenv \<Rightarrow> stream option \<Rightarrow> (string \<times> diagnostic list) list \<Rightarrow> (stream option \<times> diagnostic list) option" where
  "add_packages e so [] = Some (so, [])"
| "add_packages e so ((pkgID, ds) # ps) =
     (case AddPackage e so pkgID ds of
        None \<Rightarrow> None
      | Some (so', out) \<Rightarrow> map_option (\<lambda>(so'', outs). (so'', out @ outs)) (add_packages e so' ps))"


subsection \<open>Streams and batches\<close>

text \<open>
  An open stream of configuration \<open>c\<close> that has reported the lines in \<open>S\<close>.
\<close>

definition stream_inv :: "fenv \<Rightarrow> filter_state \<Rightarrow> fileLine set \<Rightarrow> stream \<Rightarrow> bool" where
  "stream_inv e c S s \<longleftrightarrow> filter_inv e c (sf s)
     \<and> (if uniqByLine c then \<exists>seen. uniqSeen s = Some seen \<and> set seen = S else uniqSeen s = None)"

lemma add_one_spec:
  assumes "stream_inv e c S s"
  shows "\<exists>s'. add_one e s d = Some (s', \<not> drops e c d \<and> \<not> (uniqByLine c \<and> file_line d \<in> S))
     \<and> stream_inv e c (S \<union> (if drops e c d then {} else {file_line d})) s'"
proof -
  have i: "filter_inv e c (sf s)" using assms by (simp add: stream_inv_def)
  obtain f' b where fb: "dropDiagnostic e (sf s) d = (f', b)" by (cases "dropDiagnostic e (sf s) d")
  have f': "filter_inv e c f'" and b: "b = drops e c d"
    using flt.step_inv [OF i, of d] flt.step_dr [OF i, of d] fb by simp_all
  have u: "uniqByLine f' = uniqByLine c" using f' config_of_eqD(8) [of f' c] by (simp add: filter_inv_def)
  show ?thesis
    using assms f' b u by (auto simp: add_one_def stream_inv_def fb Let_def insert_absorb)
qed

lemma add_loop_spec:
  assumes "stream_inv e c S s"
  shows "\<exists>s'. add_loop e s ds = Some (s', keep_spec (drops e c) (uniqByLine c) file_line S ds)
     \<and> stream_inv e c (S \<union> file_line ` {d \<in> set ds. \<not> drops e c d}) s'"
  using assms
proof (induction ds arbitrary: s S)
  case Nil
  then show ?case by simp
next
  case (Cons d ds)
  let ?S = "S \<union> (if drops e c d then {} else {file_line d})"
  obtain s1 where s1: "add_one e s d = Some (s1, \<not> drops e c d \<and> \<not> (uniqByLine c \<and> file_line d \<in> S))"
    and i1: "stream_inv e c ?S s1"
    using add_one_spec [OF Cons.prems, of d] by blast
  obtain s2 where s2: "add_loop e s1 ds = Some (s2, keep_spec (drops e c) (uniqByLine c) file_line ?S ds)"
    and i2: "stream_inv e c (?S \<union> file_line ` {d \<in> set ds. \<not> drops e c d}) s2"
    using Cons.IH [OF i1] by blast
  have S: "?S \<union> file_line ` {d \<in> set ds. \<not> drops e c d} = S \<union> file_line ` {x \<in> set (d # ds). \<not> drops e c x}"
    by auto
  from i2 S have "stream_inv e c (S \<union> file_line ` {x \<in> set (d # ds). \<not> drops e c x}) s2" by simp
  then show ?case
    using s1 s2 by (auto simp: keep_spec_def Let_def insert_absorb)
qed

lemma stream_active: "stream_inv e c S s \<Longrightarrow> nolint c \<noteq> None \<Longrightarrow> anyStageActive (Some (sf s))"
  using config_of_eqD(9) [of "sf s" c] by (simp add: anyStageActive_def stream_inv_def filter_inv_def)

lemma AddPackage_spec:
  assumes "stream_inv e c S s" and "nolint c \<noteq> None"
  shows "\<exists>s'. AddPackage e (Some s) p ds = Some (Some s', keep_spec (drops e c) (uniqByLine c) file_line S ds)
     \<and> stream_inv e c (S \<union> file_line ` {d \<in> set ds. \<not> drops e c d}) s'"
proof -
  obtain s' where "add_loop e s ds = Some (s', keep_spec (drops e c) (uniqByLine c) file_line S ds)"
      "stream_inv e c (S \<union> file_line ` {d \<in> set ds. \<not> drops e c d}) s'"
    using add_loop_spec [OF assms(1)] by blast
  with stream_active [OF assms] show ?thesis by (auto simp: AddPackage_def)
qed

lemma keep_spec_append:
  "keep_spec dr u key S (xs @ ys) =
     keep_spec dr u key S xs @ keep_spec dr u key (S \<union> key ` {d \<in> set xs. \<not> dr d}) ys"
  by (simp add: keep_spec_def Let_def uniq_first_append)

lemma add_packages_spec:
  assumes "stream_inv e c S s" and "nolint c \<noteq> None"
  shows "\<exists>s'. add_packages e (Some s) ps = Some (Some s', keep_spec (drops e c) (uniqByLine c) file_line S (concat (map snd ps)))
     \<and> stream_inv e c (S \<union> file_line ` {d \<in> set (concat (map snd ps)). \<not> drops e c d}) s'"
  using assms
proof (induction ps arbitrary: s S)
  case Nil
  then show ?case by simp
next
  case (Cons p ps)
  obtain i ds where p: "p = (i, ds)" by (cases p)
  let ?S = "S \<union> file_line ` {d \<in> set ds. \<not> drops e c d}"
  obtain s1 where s1: "AddPackage e (Some s) i ds = Some (Some s1, keep_spec (drops e c) (uniqByLine c) file_line S ds)"
    and i1: "stream_inv e c ?S s1"
    using AddPackage_spec [OF Cons.prems] by blast
  obtain s2 where s2: "add_packages e (Some s1) ps = Some (Some s2, keep_spec (drops e c) (uniqByLine c) file_line ?S (concat (map snd ps)))"
    and i2: "stream_inv e c (?S \<union> file_line ` {d \<in> set (concat (map snd ps)). \<not> drops e c d}) s2"
    using Cons.IH [OF i1 Cons.prems(2)] by blast
  have "?S \<union> file_line ` {d \<in> set (concat (map snd ps)). \<not> drops e c d} =
      S \<union> file_line ` {d \<in> set (concat (map snd (p # ps))). \<not> drops e c d}"
    by (auto simp: p)
  with i2 have "stream_inv e c (S \<union> file_line ` {d \<in> set (concat (map snd (p # ps))). \<not> drops e c d}) s2" by simp
  then show ?case using s1 s2 by (auto simp: p keep_spec_append)
qed

lemma NewStream_inv:
  assumes "filter_inv e c f"
  shows "\<exists>s. NewStream (Some f) = Some s \<and> stream_inv e c {} s"
  using assms config_of_eqD(8) [of f c] by (auto simp: NewStream_def stream_inv_def filter_inv_def)

lemma add_packages_total:
  assumes "NewFilter rl cfg base targets = Inr f0" and "filter_run e f0 f"
  shows "\<exists>s. add_packages e (NewStream (Some f)) pkgs =
       Some (Some s, keep_spec (drops e f0) (uniqByLine f0) file_line {} (concat (map snd pkgs)))
     \<and> filter_inv e f0 (sf s)"
proof -
  have i: "filter_inv e f0 f" and n: "nolint f0 \<noteq> None"
    using assms filter_run_inv NewFilter_caches_ok NewFilter_nolint by blast+
  obtain s where "NewStream (Some f) = Some s" "stream_inv e f0 {} s" using NewStream_inv [OF i] by blast
  then show ?thesis using add_packages_spec [of e f0 "{}" s pkgs] n by (auto simp: stream_inv_def)
qed

text \<open>
  C1. Streaming equals batch filtering.  Open a stream on a filter that \<open>NewFilter\<close> built and that has
  been used in any way, and add packages one by one: no call panics, and the reported diagnostics
  are, in order, exactly what \<open>Apply\<close> keeps of all packages' diagnostics taken together.
\<close>

theorem stream_equals_batch:
  assumes "NewFilter rl cfg base targets = Inr f0" and "filter_run e f0 f"
  shows "\<exists>so. add_packages e (NewStream (Some f)) pkgs = Some (so, snd (Apply e (Some f) (concat (map snd pkgs))))"
proof -
  have i: "filter_inv e f0 f" and n: "nolint f0 \<noteq> None"
    using assms filter_run_inv NewFilter_caches_ok NewFilter_nolint by blast+
  show ?thesis using add_packages_total [OF assms, of pkgs] Apply_inv_spec [OF i n] by auto
qed

theorem stream_equals_batch_witness:
  "\<exists>so. add_packages demo_env (NewStream (Some demo_filter)) [(''a'', take 2 demo_diags), (''b'', drop 2 demo_diags)]
     = Some (so, snd (Apply demo_env (Some demo_filter) demo_diags))"
  using stream_equals_batch [OF demo_NewFilter filter_run.start,
      of demo_env "[(''a'', take 2 demo_diags), (''b'', drop 2 demo_diags)]"]
  by (simp only: list.map snd_conv concat.simps append_Nil2 append_take_drop_id)

text \<open>
  C18. Completion order does not change what is reported.  Two runs whose packages deliver the same
  diagnostics in different orders report the same set of (file, line) positions, and with
  \<open>uniqByLine\<close> each position exactly once.
\<close>

theorem stream_order_independent:
  assumes "NewFilter rl cfg base targets = Inr f0" and "filter_run e f0 f" and "filter_run e f0 g"
    and "mset (concat (map snd pkgs)) = mset (concat (map snd pkgs'))"
    and "add_packages e (NewStream (Some f)) pkgs = Some (s, out)"
    and "add_packages e (NewStream (Some g)) pkgs' = Some (s', out')"
  shows "file_line ` set out = file_line ` set out'
     \<and> (uniqByLine f0 \<longrightarrow> distinct (map file_line out) \<and> distinct (map file_line out'))"
proof -
  have o: "out = keep_spec (drops e f0) (uniqByLine f0) file_line {} (concat (map snd pkgs))"
    using add_packages_total [OF assms(1,2), of pkgs] assms(5) by auto
  have o': "out' = keep_spec (drops e f0) (uniqByLine f0) file_line {} (concat (map snd pkgs'))"
    using add_packages_total [OF assms(1,3), of pkgs'] assms(6) by auto
  have "set (concat (map snd pkgs)) = set (concat (map snd pkgs'))" using assms(4) by (metis set_mset_mset)
  then show ?thesis
    unfolding o o' by (simp add: keep_spec_def Let_def set_uniq_first distinct_uniq_first)
qed

theorem stream_order_independent_witness:
  "\<exists>s out s' out'.
     add_packages demo_env (NewStream (Some demo_filter)) [(''a'', demo_diags)] = Some (s, out)
     \<and> add_packages demo_env (NewStream (Some demo_filter)) [(''a'', rev demo_diags)] = Some (s', out')
     \<and> file_line ` set out = file_line ` set out' \<and> distinct (map file_line out')"
proof -
  obtain s out s' out' where
    r: "add_packages demo_env (NewStream (Some demo_filter)) [(''a'', demo_diags)] = Some (s, out)"
       "add_packages demo_env (NewStream (Some demo_filter)) [(''a'', rev demo_diags)] = Some (s', out')"
    using add_packages_total [OF demo_NewFilter filter_run.start] by metis
  have "uniqByLine demo_filter" by (simp add: demo_filter_def)
  with r stream_order_independent [OF demo_NewFilter filter_run.start filter_run.start _ r] show ?thesis
    by auto
qed

text \<open>
  \<open>Finish\<close> empties the caches, which leaves a filter that behaves as before; the stream itself is
  spent: adding a package that still has something to report then writes to the nil map.
\<close>

lemma Finish_filter_inv: "filter_inv e c (sf s) \<Longrightarrow> filter_inv e c (sf (the (Finish (Some s))))"
  by (auto simp: Finish_def filter_inv_def config_of_def caches_ok_def newNolintFilter_def nolint_cache_ok_def
    split: option.splits)

text \<open>
  After \<open>Finish\<close> the filter still decides as before, but the stream must not be used again: with
  \<open>uniqByLine\<close>, a later \<open>AddPackage\<close> panics exactly when one of its diagnostics would be kept.
\<close>

theorem add_after_Finish:
  assumes "NewFilter rl cfg base targets = Inr f0" and "uniqByLine f0"
    and "filter_run e f0 f" and "add_packages e (NewStream (Some f)) pkgs = Some (so, out)"
  shows "AddPackage e (Finish so) p ds = None \<longleftrightarrow> (\<exists>d \<in> set ds. \<not> drops e f0 d)"
proof -
  obtain s where s: "so = Some s" "filter_inv e f0 (sf s)"
    using add_packages_total [OF assms(1,3), of pkgs] assms(4) by auto
  define t where "t = the (Finish so)"
  have t: "Finish so = Some t" "uniqSeen t = None" "filter_inv e f0 (sf t)"
    using s Finish_filter_inv [OF s(2)] by (simp_all add: t_def Finish_def)
  have loop: "add_loop e t ds = None \<longleftrightarrow> (\<exists>d \<in> set ds. \<not> drops e f0 d)"
    if "uniqSeen t = None" "filter_inv e f0 (sf t)" for t
    using that
  proof (induction ds arbitrary: t)
    case (Cons d ds)
    obtain f' b where fb: "dropDiagnostic e (sf t) d = (f', b)" by (cases "dropDiagnostic e (sf t) d")
    have f': "filter_inv e f0 f'" and b: "b = drops e f0 d"
      using flt.step_inv [OF Cons.prems(2), of d] flt.step_dr [OF Cons.prems(2), of d] fb by simp_all
    have "uniqByLine f'" using f' assms(2) config_of_eqD(8) [of f' f0] by (simp add: filter_inv_def)
    then show ?case
      using Cons.IH [of "t\<lparr>sf := f'\<rparr>"] Cons.prems f' b by (auto simp: add_one_def fb Let_def)
  qed simp
  have "uniqByLine (sf t)" using t(3) assms(2) config_of_eqD(8) [of "sf t" f0] by (simp add: filter_inv_def)
  then have "anyStageActive (Some (sf t))" by (simp add: anyStageActive_def)
  then show ?thesis using loop [OF t(2,3)] by (auto simp: AddPackage_def t(1))
qed

theorem add_after_Finish_witness:
  "\<exists>so out. add_packages demo_env (NewStream (Some demo_filter)) [(''a'', demo_diags)] = Some (so, out)
     \<and> AddPackage demo_env (Finish so) ''b'' [mk_diag ''errcheck'' ''a'' ''/m/a.go'' 3 1] = None"
proof -
  obtain so out where r: "add_packages demo_env (NewStream (Some demo_filter)) [(''a'', demo_diags)] = Some (so, out)"
    using add_packages_total [OF demo_NewFilter filter_run.start] by metis
  have u: "uniqByLine demo_filter" by (simp add: demo_filter_def)
  have "\<not> drops demo_env demo_filter (mk_diag ''errcheck'' ''a'' ''/m/a.go'' 3 1)" by code_simp
  with r add_after_Finish [OF demo_NewFilter u filter_run.start r] show ?thesis by auto
qed

end
