(* ===== verification/FilterDigest.thy ===== *)
theory FilterDigest
  imports FilterProps Bytes
begin

text \<open>
  \<^verbatim>\<open>(*Filter).ConfigDigest\<close> (\<^verbatim>\<open>internal/exclusion/exclusion.go\<close>): the digest of the suppression
  configuration that goes into the key of cached, already filtered diagnostics.  The digest is
  SHA-256 of a sequence of length-prefixed strings in which section names and configured strings
  alternate.

  The digest identifies the configuration as long as no configured string is one of the section
  names that end a list; without that condition two configurations with different behaviour can
  share a digest.
\<close>

text \<open>\<open>writeRe\<close>: a missing pattern is written as the token \<open>nil_token\<close>.\<close>

definition nil_token :: string where
  "nil_token = CHR 0x00 # ''<nil>''"

definition re_token :: "string option \<Rightarrow> string" where
  "re_token re = (case re of None \<Rightarrow> nil_token | Some p \<Rightarrow> p)"

definition sorted_keys :: "string list \<Rightarrow> string list" where
  \<comment> \<open>the keys of a Go map, collected and passed to \<^verbatim>\<open>sort.Strings\<close>\<close>
  "sorted_keys ks = sort (remdups ks)"

definition rule_tokens :: "compiledRule \<Rightarrow> string list" where
  "rule_tokens r =
     [''linters''] @ sorted_keys (cr_linters r) @ [''path'', re_token (cr_path r),
      ''path-except'', re_token (cr_pathExcept r), ''text'', re_token (cr_text r),
      ''source'', re_token (cr_source r)]"

definition target_tokens :: "targetDir \<Rightarrow> string list" where
  "target_tokens t = [dir t, if recursive t then ''recursive'' else ''flat'']"

definition digest_tokens :: "filter_state \<Rightarrow> string list" where
  "digest_tokens f =
     [''paths''] @ pathPatterns f @ [''paths-except''] @ pathExceptPatterns f
     @ [''rules''] @ concat (map rule_tokens (rules f))
     @ [''generated'', generatedMode f]
     @ [''staticcheck-default-disabled''] @ sorted_keys (staticcheckDefaultDisabled f)
     @ [''target-dirs''] @ concat (map target_tokens (targetDirs f))
     @ [''uniq-by-line'', if uniqByLine f then ''true'' else ''false'']
     @ [''nolint'', if nolint f \<noteq> None then ''on'' else ''off'']"

definition ConfigDigest :: "filter_state option \<Rightarrow> bytes" where
  "ConfigDigest fo =
     (case fo of
        None \<Rightarrow> replicate 32 (CHR 0x00)
      | Some f \<Rightarrow> sha256 (frames (digest_tokens f)))"


subsection \<open>Reading the token sequence back\<close>

definition rule_marker_free :: "compiledRule \<Rightarrow> bool" where
  "rule_marker_free r \<longleftrightarrow> ''path'' \<notin> set (cr_linters r)
     \<and> Some nil_token \<notin> {cr_path r, cr_pathExcept r, cr_text r, cr_source r}"

definition marker_free :: "filter_state \<Rightarrow> bool" where
  "marker_free f \<longleftrightarrow> ''paths-except'' \<notin> set (pathPatterns f) \<and> ''rules'' \<notin> set (pathExceptPatterns f)
     \<and> list_all rule_marker_free (rules f) \<and> ''target-dirs'' \<notin> set (staticcheckDefaultDisabled f)
     \<and> list_all go_len (digest_tokens f)"

text \<open>
  The configuration a digest stands for: no base path, empty caches, and the two sets of names as
  sorted lists.
\<close>

definition norm_rule :: "compiledRule \<Rightarrow> compiledRule" where
  "norm_rule r = r\<lparr>cr_linters := sorted_keys (cr_linters r)\<rparr>"

definition norm :: "filter_state \<Rightarrow> filter_state" where
  "norm f =
     f\<lparr>basePath := [], rules := map norm_rule (rules f), generatedCache := Map.empty,
       staticcheckDefaultDisabled := sorted_keys (staticcheckDefaultDisabled f),
       nolint := map_option (\<lambda>n. newNolintFilter) (nolint f)\<rparr>"

lemma set_sorted_keys [simp]: "set (sorted_keys ks) = set ks"
  by (simp add: sorted_keys_def)

lemma sorted_keys_idem [simp]: "sorted_keys (sorted_keys ks) = sorted_keys ks"
proof -
  have "sorted (sorted_keys ks)" "distinct (sorted_keys ks)" by (simp_all add: sorted_keys_def)
  then show ?thesis unfolding sorted_keys_def [of "sorted_keys ks"] by (simp add: distinct_remdups_id sorted_sort_id)
qed

lemma sorted_keys_Nil [simp]: "sorted_keys ks = [] \<longleftrightarrow> ks = []"
  by (metis set_empty2 set_sorted_keys)

lemma norm_rule_idem [simp]: "norm_rule (norm_rule r) = norm_rule r"
  by (simp add: norm_rule_def)

lemma norm_idem [simp]: "norm (norm f) = norm f"
  by (cases "nolint f") (simp_all add: norm_def comp_def)

lemma rule_tokens_norm [simp]: "rule_tokens (norm_rule r) = rule_tokens r"
  by (simp add: rule_tokens_def norm_rule_def)

lemma digest_tokens_norm [simp]: "digest_tokens (norm f) = digest_tokens f"
  by (simp add: digest_tokens_def norm_def comp_def)

lemma marker_free_norm: "marker_free f \<Longrightarrow> marker_free (norm f)"
  by (auto simp: marker_free_def rule_marker_free_def list_all_iff) (auto simp: norm_def norm_rule_def)

lemma marker_split:
  "m \<notin> set xs \<Longrightarrow> m \<notin> set ys \<Longrightarrow> xs @ m # as = ys @ m # bs \<longleftrightarrow> xs = ys \<and> as = bs"
proof (induction xs arbitrary: ys)
  case Nil
  then show ?case by (cases ys) auto
next
  case (Cons x xs)
  then show ?case by (cases ys) auto
qed

lemma re_token_inject:
  "Some nil_token \<notin> {a, b} \<Longrightarrow> re_token a = re_token b \<longleftrightarrow> a = b"
  by (auto simp: re_token_def split: option.splits)

lemma rule_tokens_inject:
  assumes "rule_marker_free r" and "rule_marker_free s" and "norm_rule r = r" and "norm_rule s = s"
    and "rule_tokens r @ as = rule_tokens s @ bs"
  shows "r = s \<and> as = bs"
proof -
  have n: "sorted_keys (cr_linters r) = cr_linters r" "sorted_keys (cr_linters s) = cr_linters s"
    using arg_cong [OF assms(3), of cr_linters] arg_cong [OF assms(4), of cr_linters] by (simp_all add: norm_rule_def)
  have m: "''path'' \<notin> set (cr_linters r)" "''path'' \<notin> set (cr_linters s)"
    using assms(1,2) by (simp_all add: rule_marker_free_def)
  have "cr_linters r @ ''path'' # re_token (cr_path r) # ''path-except'' # re_token (cr_pathExcept r)
        # ''text'' # re_token (cr_text r) # ''source'' # re_token (cr_source r) # as
      = cr_linters s @ ''path'' # re_token (cr_path s) # ''path-except'' # re_token (cr_pathExcept s)
        # ''text'' # re_token (cr_text s) # ''source'' # re_token (cr_source s) # bs"
    using assms(5) by (simp add: rule_tokens_def n)
  then show ?thesis
    unfolding marker_split [OF m] using assms(1,2)
    by (auto simp: rule_marker_free_def re_token_inject intro!: compiledRule.equality)
qed

lemma rules_tokens_inject:
  assumes "list_all rule_marker_free rs" and "list_all rule_marker_free ss"
    and "map norm_rule rs = rs" and "map norm_rule ss = ss"
    and "concat (map rule_tokens rs) @ ''generated'' # as = concat (map rule_tokens ss) @ ''generated'' # bs"
  shows "rs = ss \<and> as = bs"
  using assms
proof (induction rs arbitrary: ss)
  case Nil
  then show ?case by (cases ss) (auto simp: rule_tokens_def)
next
  case (Cons r rs)
  then obtain s ss' where ss: "ss = s # ss'" by (cases ss) (auto simp: rule_tokens_def)
  have "r = s \<and> concat (map rule_tokens rs) @ ''generated'' # as = concat (map rule_tokens ss') @ ''generated'' # bs"
    by (rule rule_tokens_inject) (use Cons.prems ss in simp_all)
  with Cons ss show ?case by simp
qed

lemma target_tokens_inject:
  "concat (map target_tokens ts) = concat (map target_tokens us) \<Longrightarrow> ts = us"
proof (induction ts arbitrary: us)
  case Nil
  then show ?case by (cases us) (auto simp: target_tokens_def)
next
  case (Cons t ts)
  then obtain u us' where "us = u # us'" by (cases us) (auto simp: target_tokens_def)
  with Cons show ?case by (auto simp: target_tokens_def intro!: targetDir.equality split: if_splits)
qed

lemma norm_fixD:
  assumes "norm f = f"
  shows "sorted_keys (staticcheckDefaultDisabled f) = staticcheckDefaultDisabled f"
    and "map norm_rule (rules f) = rules f" and "basePath f = []" and "generatedCache f = Map.empty"
    and "nolint f = map_option (\<lambda>n. newNolintFilter) (nolint f)"
  using arg_cong [OF assms, of staticcheckDefaultDisabled] arg_cong [OF assms, of rules]
    arg_cong [OF assms, of basePath] arg_cong [OF assms, of generatedCache] arg_cong [OF assms, of nolint]
  by (simp_all add: norm_def)

lemma digest_tokens_inject:
  assumes "marker_free f" and "marker_free g" and "norm f = f" and "norm g = g"
    and "digest_tokens f = digest_tokens g"
  shows "f = g"
proof -
  note nf = norm_fixD [OF assms(3)] and ng = norm_fixD [OF assms(4)]
  define tl4 where "tl4 h = [''uniq-by-line'', if uniqByLine h then ''true'' else ''false'',
      ''nolint'', if nolint h \<noteq> None then ''on'' else ''off'']" for h :: filter_state
  define t3 where "t3 h = concat (map target_tokens (targetDirs h)) @ tl4 h" for h
  define t2 where "t2 h = generatedMode h # ''staticcheck-default-disabled'' #
      staticcheckDefaultDisabled h @ ''target-dirs'' # t3 h" for h
  define t1 where "t1 h = concat (map rule_tokens (rules h)) @ ''generated'' # t2 h" for h
  have d: "digest_tokens h = ''paths'' # pathPatterns h @ ''paths-except'' # pathExceptPatterns h @ ''rules'' # t1 h"
    if "sorted_keys (staticcheckDefaultDisabled h) = staticcheckDefaultDisabled h" for h
    by (simp add: digest_tokens_def t1_def t2_def t3_def tl4_def that)
  have p: "pathPatterns f = pathPatterns g"
      "pathExceptPatterns f @ ''rules'' # t1 f = pathExceptPatterns g @ ''rules'' # t1 g"
    using assms(1,2,5) unfolding d [OF nf(1)] d [OF ng(1)] by (simp_all add: marker_free_def marker_split)
  then have q: "pathExceptPatterns f = pathExceptPatterns g" "t1 f = t1 g"
    using assms(1,2) by (simp_all add: marker_free_def marker_split)
  then have r: "rules f = rules g" "t2 f = t2 g"
    using rules_tokens_inject [of "rules f" "rules g" "t2 f" "t2 g"] assms(1,2) nf ng
    by (simp_all add: marker_free_def t1_def)
  then have s: "generatedMode f = generatedMode g" "staticcheckDefaultDisabled f = staticcheckDefaultDisabled g" "t3 f = t3 g"
    using assms(1,2) by (simp_all add: marker_free_def t2_def marker_split)
  have "concat (map target_tokens (targetDirs f)) = concat (map target_tokens (targetDirs g)) \<and> tl4 f = tl4 g"
    using s(3) unfolding t3_def by (subst (asm) append_eq_append_conv) (simp_all add: tl4_def)
  then have "targetDirs f = targetDirs g" "uniqByLine f = uniqByLine g" "nolint f = None \<longleftrightarrow> nolint g = None"
    using target_tokens_inject by (auto simp: tl4_def split: if_splits)
  moreover have "nolint f = nolint g"    using \<open>nolint f = None \<longleftrightarrow> nolint g = None\<close> nf(5) ng(5) by (cases "nolint f"; cases "nolint g") auto
  ultimately show ?thesis using p(1) q(1) r(1) s nf ng by (intro filter_state.equality) simp_all
qed

interpretation cfgdigest: keyed_digest sha256 "frames \<circ> digest_tokens" "\<lambda>f. ConfigDigest (Some f)"
    "\<lambda>f. marker_free f \<and> norm f = f"
proof
  fix f g assume f: "marker_free f \<and> norm f = f" and g: "marker_free g \<and> norm g = g"
    and "(frames \<circ> digest_tokens) f = (frames \<circ> digest_tokens) g"
  then have "digest_tokens f = digest_tokens g"
    using frames_inject [of "digest_tokens f" "digest_tokens g"] by (simp add: marker_free_def)
  with f g show "f = g" using digest_tokens_inject by blast
qed (simp add: ConfigDigest_def)



subsection \<open>What the digest determines\<close>

lemma matchLinterName_norm: "matchLinterName (sorted_keys ls) l = matchLinterName ls l"
  by (simp add: matchLinterName_def split: option.splits)

lemma rule_match_norm [simp]: "rule_match rl (norm_rule r) d rel = rule_match rl r d rel"
  by (simp add: rule_match_def norm_rule_def rule_empty_def matchLinterName_norm)

lemma drops_norm:
  assumes "norm f = norm g" and "basePath f = basePath g"
  shows "drops e f d = drops e g d"
proof -
  have [simp]: "pathPatterns f = pathPatterns g" "pathExceptPatterns f = pathExceptPatterns g"
    "generatedMode f = generatedMode g" "targetDirs f = targetDirs g" "nolint f = None \<longleftrightarrow> nolint g = None"
    and r: "map norm_rule (rules f) = map norm_rule (rules g)"
    and s: "sorted_keys (staticcheckDefaultDisabled f) = sorted_keys (staticcheckDefaultDisabled g)"
    using arg_cong [OF assms(1), of pathPatterns] arg_cong [OF assms(1), of pathExceptPatterns]
      arg_cong [OF assms(1), of generatedMode] arg_cong [OF assms(1), of targetDirs]
      arg_cong [OF assms(1), of "\<lambda>f. nolint f = None"] arg_cong [OF assms(1), of rules]
      arg_cong [OF assms(1), of staticcheckDefaultDisabled]
    by (simp_all add: norm_def)
  have "set (staticcheckDefaultDisabled f) = set (staticcheckDefaultDisabled g)"
    using arg_cong [OF s, of set] by simp
  moreover have "(\<exists>r \<in> set (rules f). rule_match rl r d rel) \<longleftrightarrow> (\<exists>r \<in> set (rules g). rule_match rl r d rel)" for rl rel
    using arg_cong [OF r, of "\<lambda>rs. \<exists>r \<in> set rs. rule_match rl r d rel"] by simp
  ultimately show ?thesis
    by (simp add: drops_def file_excluded_def gen_spec_def path_excluded_def relativePath_def assms(2))
qed

lemma same_digest_same_filter:
  assumes "marker_free f" and "marker_free g" and "basePath f = basePath g"
    and "ConfigDigest (Some f) = ConfigDigest (Some g)"
  shows "(\<forall>e d. drops e f d = drops e g d) \<and> uniqByLine f = uniqByLine g
     \<or> collision sha256 (frames (digest_tokens f)) (frames (digest_tokens g))"
proof -
  have "norm f = norm g \<or> collision sha256 ((frames \<circ> digest_tokens) (norm f)) ((frames \<circ> digest_tokens) (norm g))"
    by (rule cfgdigest.same_key) (use assms in \<open>simp_all add: marker_free_norm ConfigDigest_def\<close>)
  moreover have "uniqByLine (norm h) = uniqByLine h" for h by (simp add: norm_def)
  then have "norm f = norm g \<Longrightarrow> uniqByLine f = uniqByLine g" by metis
  ultimately show ?thesis using drops_norm [OF _ assms(3)] by (auto simp: comp_def)
qed

text \<open>
  C7. Equal digests mean equal filtering: two filters of the same tree whose digests agree and whose
  configured strings avoid the section names decide every diagnostic alike and agree on
  \<open>uniqByLine\<close>, unless the two byte strings that were hashed are an explicit SHA-256 collision.
\<close>

theorem ConfigDigest_determines:
  assumes "marker_free f" and "marker_free g" and "basePath f = basePath g"
    and "ConfigDigest (Some f) = ConfigDigest (Some g)"
  shows "(\<forall>e d. drops e f d = drops e g d) \<and> uniqByLine f = uniqByLine g
     \<or> collision sha256 (frames (digest_tokens f)) (frames (digest_tokens g))"
  using assms by (rule same_digest_same_filter)

lemma demo_marker_free: "marker_free demo_filter"
  by (simp add: marker_free_def demo_filter_def digest_tokens_def list_all_iff go_len_def staticcheckDefaultDisabledChecks_def)

theorem ConfigDigest_determines_witness:
  "(\<forall>e d. drops e demo_filter d = drops e (demo_filter\<lparr>generatedCache := [''/m/a.go'' \<mapsto> True]\<rparr>) d)
     \<and> uniqByLine demo_filter = uniqByLine (demo_filter\<lparr>generatedCache := [''/m/a.go'' \<mapsto> True]\<rparr>)
   \<or> collision sha256 (frames (digest_tokens demo_filter))
       (frames (digest_tokens (demo_filter\<lparr>generatedCache := [''/m/a.go'' \<mapsto> True]\<rparr>)))"
proof (rule ConfigDigest_determines)
  show "marker_free demo_filter" "marker_free (demo_filter\<lparr>generatedCache := [''/m/a.go'' \<mapsto> True]\<rparr>)"
    using demo_marker_free by (simp_all add: marker_free_def digest_tokens_def)
qed (simp_all add: ConfigDigest_def digest_tokens_def)

text \<open>
  The condition on section names is needed.  There are two valid configurations, of the same
  tree, that \<open>NewFilter\<close> accepts and that give the same digest, although one of them drops a
  diagnostic the other reports: moving the pattern \<open>paths-except\<close> from the list of that name to
  \<open>paths\<close> leaves the token sequence unchanged.
\<close>

theorem ConfigDigest_ambiguous:
  "\<exists>exc exc' f g.
     LinterExclusions_Validate (relib demo_env) exc = None \<and> LinterExclusions_Validate (relib demo_env) exc' = None
     \<and> NewFilter (relib demo_env) (Some (exc, [])) ''/m'' [] = Inr f
     \<and> NewFilter (relib demo_env) (Some (exc', [])) ''/m'' [] = Inr g
     \<and> ConfigDigest (Some f) = ConfigDigest (Some g)
     \<and> \<not> drops demo_env f (mk_diag ''errcheck'' ''a'' ''/m/a.go'' 3 1)
     \<and> drops demo_env g (mk_diag ''errcheck'' ''a'' ''/m/a.go'' 3 1)"
proof -
  let ?ec = "\<lambda>ps es. \<lparr>Generated = [], WarnUnused = False, Presets = [], Rules = [], Paths = ps, PathsExcept = es\<rparr>"
  let ?f = "\<lambda>ps es. demo_filter\<lparr>pathPatterns := ps, pathExceptPatterns := es\<rparr>"
  have v: "LinterExclusions_Validate (relib demo_env) (?ec ps es) = None" for ps es
    by (simp add: LinterExclusions_Validate_def)
  have n: "NewFilter (relib demo_env) (Some (?ec [''paths-except''] [], [])) ''/m'' [] = Inr (?f [''paths-except''] [])"
       "NewFilter (relib demo_env) (Some (?ec [] [''paths-except''], [])) ''/m'' [] = Inr (?f [] [''paths-except''])"
    by (simp_all add: NewFilter_def demo_env_def demo_filter_def compilePathRegex_def config_consts
      staticcheckDefaultDisabledSet_def resolveTargetDirs_def)
  have d: "ConfigDigest (Some (?f [''paths-except''] [])) = ConfigDigest (Some (?f [] [''paths-except'']))"
    by (simp add: ConfigDigest_def digest_tokens_def)
  have a: "\<not> drops demo_env (?f [''paths-except''] []) (mk_diag ''errcheck'' ''a'' ''/m/a.go'' 3 1)"
    and b: "drops demo_env (?f [] [''paths-except'']) (mk_diag ''errcheck'' ''a'' ''/m/a.go'' 3 1)"
    by code_simp+
  show ?thesis using v n d a b by blast
qed

end
