(* ===== verification/Envelope.thy ===== *)
theory Envelope
  imports Bytes GoLib
begin

text \<open>
  The entry envelope of the disk caches (\<^verbatim>\<open>internal/cache/codec.go\<close>) and the content-addressed keys
  (\<^verbatim>\<open>internal/cache/keys.go\<close>).

  An envelope is a magic, a kind byte, a section count and length-prefixed sections.  Writing goes to
  a \<^verbatim>\<open>bytes.Buffer\<close> and cannot fail; reading reports which part was cut short or out of bounds.
  Lengths are written as \<^verbatim>\<open>uint32\<close>, so a section of \<open>2 ^ 32\<close> bytes or more is written with a truncated
  length; the reader refuses sections above \<open>2 ^ 28\<close> bytes in any case.
\<close>

subsection \<open>Envelopes\<close>

definition envelopeMagic :: bytes where "envelopeMagic = ''C1CL''"
definition kindL1 :: byte where "kindL1 = CHR 0x01"
definition kindL2 :: byte where "kindL2 = CHR 0x02"

definition write_section :: "bytes \<Rightarrow> bytes" where
  "write_section s = le 4 (length s) @ s"

definition writeEnvelope :: "byte \<Rightarrow> bytes list \<Rightarrow> bytes" where
  "writeEnvelope kind sections =
     envelopeMagic @ [kind] @ le 4 (length sections) @ concat (map write_section sections)"

text \<open>\<^verbatim>\<open>io.ReadFull\<close> of \<open>n\<close> bytes: the bytes and the rest of the stream.\<close>

definition ReadFull :: "nat \<Rightarrow> bytes \<Rightarrow> (bytes \<times> bytes) result" where
  "ReadFull n r =
     (if n \<le> length r then Inr (take n r, drop n r)
      else if r = [] then Inl ''EOF'' else Inl ''unexpected EOF'')"

definition max_sections :: nat where "max_sections = 2 ^ 20"
definition max_section_bytes :: nat where "max_section_bytes = 2 ^ 28"

definition read_section :: "nat \<Rightarrow> bytes \<Rightarrow> (bytes \<times> bytes) result" where
  "read_section i r =
     (case ReadFull 4 r of
        Inl e \<Rightarrow> Inl (''read section '' @ itoa (int i) @ '' length: '' @ e)
      | Inr (lenBuf, r1) \<Rightarrow>
          let n = unle lenBuf in
          if max_section_bytes < n then Inl (''section '' @ itoa (int i) @ '' too large: '' @ itoa (int n))
          else case ReadFull n r1 of
                 Inl e \<Rightarrow> Inl (''read section '' @ itoa (int i) @ '' body: '' @ e)
               | Inr (buf, r2) \<Rightarrow> Inr (buf, r2))"

definition readEnvelope :: "bytes \<Rightarrow> byte \<Rightarrow> bytes list result" where
  "readEnvelope r wantKind =
     (case ReadFull 5 r of
        Inl e \<Rightarrow> Inl (''read envelope header: '' @ e)
      | Inr (hdr, r1) \<Rightarrow>
          if take 4 hdr \<noteq> envelopeMagic then Inl (''bad envelope magic: '' @ take 4 hdr)
          else if hdr ! 4 \<noteq> wantKind then
            Inl (''envelope kind mismatch: want '' @ itoa (of_char wantKind) @ '', got '' @ itoa (of_char (hdr ! 4)))
          else case ReadFull 4 r1 of
                 Inl e \<Rightarrow> Inl (''read section count: '' @ e)
               | Inr (lenBuf, r2) \<Rightarrow>
                   let nSections = unle lenBuf in
                   if max_sections < nSections then Inl (''absurd section count: '' @ itoa (int nSections))
                   else case read_n read_section 0 nSections r2 of
                          Inl e \<Rightarrow> Inl e
                        | Inr (sections, _) \<Rightarrow> Inr sections)"


subsection \<open>sortStrings\<close>

text \<open>
  The in-place insertion sort.  \<open>sift\<close> is the inner loop: it moves the element at index \<open>j\<close> down while
  its left neighbour is larger.
\<close>

definition swap_at :: "nat \<Rightarrow> 'a list \<Rightarrow> 'a list" where
  "swap_at j s = s[j - 1 := s ! j, j := s ! (j - 1)]"

fun sift :: "nat \<Rightarrow> string list \<Rightarrow> string list" where
  "sift 0 s = s"
| "sift (Suc j) s = (if s ! Suc j < s ! j then sift j (swap_at (Suc j) s) else s)"

definition sortStrings :: "string list \<Rightarrow> string list" where
  "sortStrings s = fold sift [1..<length s] s"


subsection \<open>Facts on envelopes\<close>

lemma ReadFull_append: "length x = n \<Longrightarrow> ReadFull n (x @ r) = Inr (x, r)"
  by (auto simp: ReadFull_def)

lemma ReadFull_Inr: "ReadFull n r = Inr (x, r') \<longleftrightarrow> r = x @ r' \<and> length x = n"
  by (auto simp: ReadFull_def)

lemma ReadFull_short: "length r < n \<Longrightarrow> \<exists>e. ReadFull n r = Inl e"
  by (simp add: ReadFull_def)

definition section_ok :: "bytes \<Rightarrow> bool" where
  "section_ok s \<longleftrightarrow> length s \<le> max_section_bytes"

lemma unle_le4: "n \<le> 2 ^ 31 \<Longrightarrow> unle (le 4 n) = n"
  by (rule unle_le) simp

lemma read_section_write: "section_ok s \<Longrightarrow> read_section i (write_section s @ r) = Inr (s, r)"
  by (simp add: read_section_def write_section_def section_ok_def max_section_bytes_def
    ReadFull_append unle_le4 Let_def)

lemma read_section_sound:
  assumes "read_section i r = Inr (s, r')"
  shows "r = write_section s @ r' \<and> section_ok s"
proof -
  obtain lb r1 where l: "ReadFull 4 r = Inr (lb, r1)" and n: "unle lb \<le> max_section_bytes"
    and b: "ReadFull (unle lb) r1 = Inr (s, r')"
    using assms by (auto simp: read_section_def Let_def split: sum.splits if_splits)
  have "length lb = 4" using l by (simp add: ReadFull_Inr)
  then have "le 4 (unle lb) = lb" by (metis le_unle)
  then show ?thesis using l n b by (auto simp: ReadFull_Inr write_section_def section_ok_def)
qed

lemma write_section_nonempty: "write_section s \<noteq> []"
  by (auto simp: write_section_def dest!: arg_cong [of _ _ length])

interpretation sect: exact_codec write_section read_section section_ok
  by unfold_locales (simp_all only: read_section_write write_section_nonempty not_False_eq_True read_section_sound)

definition sections_ok :: "bytes list \<Rightarrow> bool" where
  "sections_ok ss \<longleftrightarrow> length ss \<le> max_sections \<and> list_all section_ok ss"

lemma readEnvelope_write:
  "sections_ok ss \<Longrightarrow> readEnvelope (writeEnvelope kind ss @ r) kind = Inr ss"
proof -
  assume ok: "sections_ok ss"
  have h: "ReadFull 5 (writeEnvelope kind ss @ r) =
      Inr (envelopeMagic @ [kind], le 4 (length ss) @ concat (map write_section ss) @ r)"
    using ReadFull_append [of "envelopeMagic @ [kind]" 5] by (simp add: writeEnvelope_def envelopeMagic_def)
  have "unle (le 4 (length ss)) = length ss"
    using ok by (intro unle_le4) (simp add: sections_ok_def max_sections_def)
  with ok show ?thesis
    unfolding readEnvelope_def h sections_ok_def
    by (simp add: ReadFull_append sect.read_n_encs envelopeMagic_def Let_def)
qed

lemma readEnvelope_sound:
  assumes "readEnvelope b kind = Inr ss"
  shows "\<exists>r. b = writeEnvelope kind ss @ r \<and> sections_ok ss"
proof -
  obtain hdr r1 lb r2 r3 where h: "ReadFull 5 b = Inr (hdr, r1)" "take 4 hdr = envelopeMagic" "hdr ! 4 = kind"
    and l: "ReadFull 4 r1 = Inr (lb, r2)" "unle lb \<le> max_sections"
    and s: "read_n read_section 0 (unle lb) r2 = Inr (ss, r3)"
    using assms by (auto simp: readEnvelope_def Let_def split: sum.splits if_splits)
  have "length hdr = 5" using h by (simp add: ReadFull_Inr)
  then have hdr: "hdr = envelopeMagic @ [kind]"
    using h(2,3) take_Suc_conv_app_nth [of 4 hdr] by simp
  have len: "length ss = unle lb" using s by (rule read_n_length)
  have "length lb = 4" using l by (simp add: ReadFull_Inr)
  then have lb: "lb = le 4 (length ss)" unfolding len using le_unle [of lb] by simp
  have "r2 = concat (map write_section ss) @ r3 \<and> list_all section_ok ss" using sect.read_n_sound [OF s] by simp
  moreover have "b = envelopeMagic @ [kind] @ lb @ r2" using h(1) l(1) by (simp add: ReadFull_Inr hdr)
  moreover have "length ss \<le> max_sections" using l(2) len by simp
  ultimately show ?thesis unfolding lb writeEnvelope_def sections_ok_def by auto
qed

text \<open>
  C33. Reading an envelope inverts writing it, whatever follows it in the file, and nothing else is
  accepted: \<open>readEnvelope\<close> returns the sections \<open>ss\<close> exactly on the byte strings that start with
  \<open>writeEnvelope kind ss\<close>, provided \<open>ss\<close> is within the reader's limits of \<open>2 ^ 20\<close> sections of at most
  \<open>2 ^ 28\<close> bytes.  In particular an entry of one kind is never read as the other.
\<close>

theorem envelope_exact:
  "readEnvelope b kind = Inr ss \<longleftrightarrow> (\<exists>r. b = writeEnvelope kind ss @ r) \<and> sections_ok ss"
  using readEnvelope_sound readEnvelope_write by blast

text \<open>
  Writing has no such limits: an envelope with a section above the reader's cap is written, and
  every later read of it fails.
\<close>

lemma read_section_oversize:
  assumes "max_section_bytes < length s" and "length s < 2 ^ 32"
  shows "\<exists>e. read_section i (write_section s @ r) = Inl e"
proof -
  have "unle (le 4 (length s)) = length s" using assms(2) by (intro unle_le) simp
  with assms show ?thesis by (simp add: read_section_def write_section_def ReadFull_append Let_def)
qed

lemma writeEnvelope_inject:
  assumes "sections_ok ss" and "sections_ok ts" and "writeEnvelope k ss = writeEnvelope k ts"
  shows "ss = ts"
  using readEnvelope_write [OF assms(1), of k "[]"] readEnvelope_write [OF assms(2), of k "[]"] assms(3) by simp


subsection \<open>Facts on sortStrings\<close>

lemma insort_snoc: "x < y \<Longrightarrow> insort x (xs @ [y]) = insort x xs @ [y]"
  by (induction xs) auto

lemma insort_last: "sorted xs \<Longrightarrow> \<forall>z \<in> set xs. z \<le> x \<Longrightarrow> insort x xs = xs @ [x]"
proof -
  assume s: "sorted xs" and le: "\<forall>z \<in> set xs. z \<le> x"
  have "sort (xs @ [x]) = insort x xs" by (rule properties_for_sort) (simp_all add: s sorted_insort)
  moreover have "sort (xs @ [x]) = xs @ [x]" by (rule properties_for_sort) (simp_all add: s le sorted_append)
  ultimately show ?thesis by simp
qed

lemma sift_spec:
  "j < length s \<Longrightarrow> sorted (take j s) \<Longrightarrow> sift j s = insort (s ! j) (take j s) @ drop (Suc j) s"
proof (induction j arbitrary: s)
  case 0
  then show ?case by (cases s) auto
next
  case (Suc j)
  have t: "take (Suc j) s = take j s @ [s ! j]" using Suc.prems by (simp add: take_Suc_conv_app_nth)
  then have so: "sorted (take j s)" and le: "\<forall>z \<in> set (take j s). z \<le> s ! j"
    using Suc.prems by (simp_all add: sorted_append)
  show ?case
  proof (cases "s ! Suc j < s ! j")
    case True
    let ?s = "swap_at (Suc j) s"
    have s': "length ?s = length s" "take j ?s = take j s" "?s ! j = s ! Suc j"
        "drop (Suc j) ?s = s ! j # drop (Suc (Suc j)) s"
      using Suc.prems by (simp_all add: swap_at_def Cons_nth_drop_Suc [symmetric] drop_update_cancel)
    have "sift j ?s = insort (s ! Suc j) (take j s) @ s ! j # drop (Suc (Suc j)) s"
      using Suc.IH [of ?s] Suc.prems so s' by simp
    with True show ?thesis by (simp add: t insort_snoc)
  next
    case False
    then have "insort (s ! Suc j) (take (Suc j) s) = take (Suc j) s @ [s ! Suc j]"
      using Suc.prems le t by (intro insort_last) fastforce+
    with False Suc.prems show ?thesis by (simp add: id_take_nth_drop [symmetric])
  qed
qed

lemma fold_sift: "Suc n \<le> length s \<Longrightarrow> fold sift [1..<Suc n] s = sort (take (Suc n) s) @ drop (Suc n) s"
proof (induction n)
  case 0
  then show ?case by (cases s) auto
next
  case (Suc n)
  let ?t = "sort (take (Suc n) s) @ drop (Suc n) s"
  have l: "length (sort (take (Suc n) s)) = Suc n" using Suc.prems by simp
  have "?t ! Suc n = s ! Suc n" "take (Suc n) ?t = sort (take (Suc n) s)" "drop (Suc (Suc n)) ?t = drop (Suc (Suc n)) s"
    using Suc.prems l by (simp_all add: nth_append)
  then have "sift (Suc n) ?t = insort (s ! Suc n) (sort (take (Suc n) s)) @ drop (Suc (Suc n)) s"
    using sift_spec [of "Suc n" ?t] Suc.prems by simp
  also have "insort (s ! Suc n) (sort (take (Suc n) s)) = sort (take (Suc (Suc n)) s)"
    by (rule properties_for_sort [symmetric])
      (use Suc.prems in \<open>simp_all add: take_Suc_conv_app_nth sorted_insort del: sort_append\<close>)
  finally show ?case using Suc by simp
qed

lemma sortStrings_sort: "sortStrings s = sort s"
proof (cases s)
  case (Cons x xs)
  then show ?thesis using fold_sift [of "length xs" s] by (simp add: sortStrings_def)
qed (simp add: sortStrings_def)

text \<open>The in-place insertion sort returns the strings it was given, in order.\<close>

theorem sortStrings_correct: "sorted (sortStrings s) \<and> mset (sortStrings s) = mset s"
  by (simp add: sortStrings_sort)

end
