(* ===== verification/FileStore.thy ===== *)
theory FileStore
  imports Envelope
begin

text \<open>
  Content-addressed keys (\<^verbatim>\<open>internal/cache/keys.go\<close>), the atomic write (\<^verbatim>\<open>internal/cache/atomic.go\<close>)
  and the file-system backend (\<^verbatim>\<open>internal/cache/local_backend.go\<close>).

  A file system maps paths to contents and modification times; directories are implicit.  Every call
  takes an \<open>io\<close> record with what the operating system contributes: the clock, the random suffix and,
  for each system call, the error it returns (\<open>None\<close> when it succeeds).
\<close>

type_synonym filesys = "string \<rightharpoonup> bytes \<times> int"

record io =
  now :: int
  rnd :: bytes
  mkdir_err :: "string option"
  rand_err :: "string option"
  write_err :: "string option"
  link_err :: "string option"
  remove_err :: "string option"
  read_err :: "string option"
  stat_err :: "string option"
  chtimes_err :: "string option"

definition healthy :: "io \<Rightarrow> bool" where
  "healthy i \<longleftrightarrow> mkdir_err i = None \<and> rand_err i = None \<and> write_err i = None \<and> link_err i = None
     \<and> remove_err i = None \<and> read_err i = None \<and> stat_err i = None \<and> chtimes_err i = None"

definition ErrNotExist :: string where "ErrNotExist = ''file does not exist''"


subsection \<open>Action identifiers\<close>

type_synonym actionID = bytes

definition Hex :: "actionID \<Rightarrow> string" where
  "Hex aid = hex_encode aid"

definition NewActionID :: "bytes list \<Rightarrow> actionID" where
  "NewActionID parts = sha256 (frames parts)"

definition ShardPath :: "actionID \<Rightarrow> string" where
  "ShardPath aid = (let hex = Hex aid in take 2 hex @ ''/'' @ hex)"

definition ParseActionID :: "string \<Rightarrow> actionID option" where
  "ParseActionID s = (if length s \<noteq> 2 * 32 then None else hex_decode s)"


subsection \<open>Atomic writes\<close>

definition tempName :: "io \<Rightarrow> string \<Rightarrow> string result" where
  "tempName i path =
     (case rand_err i of
        Some e \<Rightarrow> Inl (''plaid-lint cache: random tmp suffix: '' @ e)
      | None \<Rightarrow> Inr (path @ ''.tmp.'' @ hex_encode (rnd i)))"

text \<open>\<^verbatim>\<open>os.Link\<close>: \<open>Inl True\<close> is \<^verbatim>\<open>EEXIST\<close>, \<open>Inl False\<close> any other error.\<close>

definition os_link :: "io \<Rightarrow> filesys \<Rightarrow> string \<Rightarrow> string \<Rightarrow> bool + filesys" where
  "os_link i fs old new =
     (if fs new \<noteq> None then Inl True
      else if link_err i \<noteq> None then Inl False
      else Inr (fs(new := fs old)))"

definition os_remove :: "io \<Rightarrow> filesys \<Rightarrow> string \<Rightarrow> filesys \<times> string option" where
  "os_remove i fs p =
     (if fs p = None then (fs, Some ErrNotExist)
      else case remove_err i of Some e \<Rightarrow> (fs, Some e) | None \<Rightarrow> (fs(p := None), None))"

definition writeFileAtomic :: "io \<Rightarrow> filesys \<Rightarrow> string \<Rightarrow> bytes \<Rightarrow> filesys \<times> string option" where
  "writeFileAtomic i fs path data =
     (case mkdir_err i of
        Some e \<Rightarrow> (fs, Some (''plaid-lint cache: mkdir for atomic write: '' @ e))
      | None \<Rightarrow>
        case tempName i path of
          Inl e \<Rightarrow> (fs, Some e)
        | Inr tmp \<Rightarrow>
          case write_err i of
            Some e \<Rightarrow> (fst (os_remove i fs tmp), Some (''plaid-lint cache: write tmp: '' @ e))
          | None \<Rightarrow>
            let fs1 = fs(tmp \<mapsto> (data, now i));
                link = os_link i fs1 tmp path;
                fs2 = (case link of Inr g \<Rightarrow> g | Inl _ \<Rightarrow> fs1);
                (fs3, rmErr) = os_remove i fs2 tmp
            in case (link, rmErr) of
                 (Inr _, Some e) \<Rightarrow>
                   if e \<noteq> ErrNotExist then (fs3, Some (''plaid-lint cache: remove tmp after link: '' @ e))
                   else (fs3, None)
               | (Inr _, None) \<Rightarrow> (fs3, None)
               | (Inl True, _) \<Rightarrow> (fs3, None)
               | (Inl False, _) \<Rightarrow> (fs3, Some (''plaid-lint cache: link to final: '' @ the (link_err i))))"


subsection \<open>The local backend\<close>

definition entryPath :: "string \<Rightarrow> string \<Rightarrow> actionID \<Rightarrow> string" where
  "entryPath root ns aid = (let hex = Hex aid in Join [root, ns, take 2 hex, hex])"

definition os_readfile :: "io \<Rightarrow> filesys \<Rightarrow> string \<Rightarrow> bytes result" where
  "os_readfile i fs p =
     (case fs p of
        None \<Rightarrow> Inl ErrNotExist
      | Some (d, t) \<Rightarrow> (case read_err i of Some e \<Rightarrow> Inl e | None \<Rightarrow> Inr d))"

definition os_chtimes :: "io \<Rightarrow> filesys \<Rightarrow> string \<Rightarrow> filesys" where
  "os_chtimes i fs p =
     (case fs p of
        None \<Rightarrow> fs
      | Some (d, t) \<Rightarrow> if chtimes_err i = None then fs(p \<mapsto> (d, now i)) else fs)"

definition local_Get :: "string \<Rightarrow> io \<Rightarrow> filesys \<Rightarrow> string \<Rightarrow> actionID \<Rightarrow> filesys \<times> bytes result" where
  "local_Get root i fs ns aid =
     (let p = entryPath root ns aid in
      case os_readfile i fs p of
        Inl e \<Rightarrow> (fs, Inl e)
      | Inr data \<Rightarrow> (os_chtimes i fs p, Inr data))"

definition local_Put :: "string \<Rightarrow> io \<Rightarrow> filesys \<Rightarrow> string \<Rightarrow> actionID \<Rightarrow> bytes \<Rightarrow> filesys \<times> string option" where
  "local_Put root i fs ns aid body = writeFileAtomic i fs (entryPath root ns aid) body"

definition local_Has :: "string \<Rightarrow> io \<Rightarrow> filesys \<Rightarrow> string \<Rightarrow> actionID \<Rightarrow> bool" where
  "local_Has root i fs ns aid \<longleftrightarrow> stat_err i = None \<and> fs (entryPath root ns aid) \<noteq> None"


subsection \<open>Facts on keys\<close>

lemma Hex_length: "length aid = 32 \<Longrightarrow> length (Hex aid) = 64"
  by (simp add: Hex_def)

lemma hex_decode_length: "hex_decode s = Some b \<Longrightarrow> length s = 2 * length b"
  by (induction s arbitrary: b rule: hex_decode.induct) (auto split: option.splits)

lemma unhexdigit_fold: "unhexdigit c = Some n \<Longrightarrow> n < 16 \<and> hexdigit n = to_lower_char c"
  by (auto simp: unhexdigit_def hexdigit_def to_lower_char_def Let_def split: if_splits)

lemma hex_decode_fold: "hex_decode s = Some b \<Longrightarrow> ToLower s = hex_encode b"
proof (induction s arbitrary: b rule: hex_decode.induct)
  case (3 u v cs)
  then obtain x y r where xy: "unhexdigit u = Some x" "unhexdigit v = Some y" "hex_decode cs = Some r"
    and b: "b = char_of (16 * x + y) # r"
    by (auto split: option.splits)
  have lt: "x < 16" "y < 16" and h: "hexdigit x = to_lower_char u" "hexdigit y = to_lower_char v"
    using unhexdigit_fold xy by blast+
  then have n: "of_char (char_of (16 * x + y) :: char) = 16 * x + y" by simp
  then have "(16 * x + y) div 16 = x" "(16 * x + y) mod 16 = y" using lt by simp_all
  with "3.IH" xy b h n show ?case by (simp add: ToLower_def)
qed (auto simp: ToLower_def)

lemma ParseActionID_iff:
  "ParseActionID s = Some aid \<longleftrightarrow> hex_decode s = Some aid \<and> length aid = 32"
  using hex_decode_length by (auto simp: ParseActionID_def)

lemma unhexdigit_lower: "unhexdigit (to_lower_char c) = unhexdigit c"
  by (auto simp: unhexdigit_def to_lower_char_def Let_def)

lemma hex_decode_lower: "hex_decode (ToLower s) = hex_decode s"
  by (induction s rule: hex_decode.induct) (simp_all add: ToLower_def unhexdigit_lower)

text \<open>
  Action identifiers survive printing: a string parses to an identifier exactly when it is, up to
  the case of its letters, the hexadecimal form of those 32 bytes.  So parsing the printed form gives
  the identifier back, and upper-case input is accepted as well.
\<close>

theorem ParseActionID_Hex:
  "ParseActionID s = Some aid \<longleftrightarrow> length aid = 32 \<and> ToLower s = Hex aid"
  using hex_decode_fold hex_decode_lower [of s] by (auto simp: ParseActionID_iff Hex_def)

interpretation actionid: keyed_digest sha256 frames NewActionID "list_all go_len"
  by unfold_locales (auto simp: NewActionID_def intro: frames_inject)



subsection \<open>Facts on paths\<close>

definition ns_ok :: "string \<Rightarrow> bool" where
  "ns_ok ns \<longleftrightarrow> list_all plain_seg (split_on (CHR ''/'') ns)"

lemma hexdigit_set: "n < 16 \<Longrightarrow> hexdigit n \<noteq> CHR ''/'' \<and> hexdigit n \<noteq> CHR ''.''"
  using unhexdigit_hexdigit [of n] by (auto simp: unhexdigit_def)

lemma hex_encode_chars: "c \<in> set (hex_encode bs) \<Longrightarrow> c \<noteq> CHR ''/'' \<and> c \<noteq> CHR ''.''"
proof (induction bs)
  case (Cons b bs)
  have "(of_char b :: nat) < 256" by (rule of_char_less)
  then have "of_char b div 16 < (16 :: nat)" by (simp add: less_mult_imp_div_less)
  with Cons show ?case using hexdigit_set [of "of_char b div 16"] hexdigit_set [of "of_char b mod 16"] by auto
qed simp

lemma Hex_plain: "length aid = 32 \<Longrightarrow> plain_seg (Hex aid) \<and> plain_seg (take 2 (Hex aid))"
proof -
  assume l: "length aid = 32"
  have "CHR ''/'' \<notin> set (Hex aid)" "CHR ''.'' \<notin> set (Hex aid)" using hex_encode_chars by (auto simp: Hex_def)
  moreover from this have "CHR ''/'' \<notin> set (take 2 (Hex aid))" "CHR ''.'' \<notin> set (take 2 (Hex aid))"
    by (auto dest: in_set_takeD)
  moreover have "Hex aid \<noteq> []" "take 2 (Hex aid) \<noteq> []" using Hex_length [OF l] by auto
  ultimately show ?thesis by (auto simp: plain_seg_def)
qed

lemma split_entryPath:
  assumes "root \<noteq> []" and "ns_ok ns" and "length aid = 32"
  shows "split_on (CHR ''/'') (entryPath root ns aid) =
    (if IsAbs root then [[]] else []) @ clean_segs root @ split_on (CHR ''/'') ns @ [take 2 (Hex aid), Hex aid]"
proof -
  let ?ws = "split_on (CHR ''/'') ns @ [take 2 (Hex aid), Hex aid]"
  have pl: "list_all plain_seg ?ws" using assms Hex_plain by (simp add: ns_ok_def)
  have jn: "join_with ''/'' (ws @ [a, b]) = join_with ''/'' ws @ ''/'' @ a @ ''/'' @ b" if "ws \<noteq> []" for ws a b
    using that by (induction "''/''" ws rule: join_with.induct) auto
  have "entryPath root ns aid = Clean (root @ ''/'' @ join_with ''/'' ?ws)"
    using assms(1) jn [of "split_on (CHR ''/'') ns"] by (simp add: entryPath_def Join_def Let_def join_split_on)
  also have "\<dots> = (if IsAbs root then ''/'' else []) @ join_with ''/'' (clean_segs root @ ?ws)"
    using pl assms(1) by (intro Clean_join) simp_all
  finally have e: "entryPath root ns aid = (if IsAbs root then ''/'' else []) @ join_with ''/'' (clean_segs root @ ?ws)" .
  have "split_on (CHR ''/'') (join_with ''/'' (clean_segs root @ ?ws)) = clean_segs root @ ?ws"
  proof (rule split_join_with)
    have "\<forall>w \<in> set ?ws. CHR ''/'' \<notin> set w" using pl unfolding list_all_iff plain_seg_def by blast
    then show "\<forall>w \<in> set (clean_segs root @ ?ws). CHR ''/'' \<notin> set w"
      unfolding set_append using clean_segs_no_slash by blast
  qed simp
  then show ?thesis unfolding e by simp
qed

lemma entryPath_segs_inject:
  assumes "root \<noteq> []" and "ns_ok ns" and "ns_ok ns'" and "length aid = 32" and "length aid' = 32"
    and "entryPath root ns aid = entryPath root ns' aid'"
  shows "ns = ns' \<and> aid = aid'"
proof -
  have "split_on (CHR ''/'') ns @ [take 2 (Hex aid), Hex aid] = split_on (CHR ''/'') ns' @ [take 2 (Hex aid'), Hex aid']"
    using split_entryPath [OF assms(1,2,4)] split_entryPath [OF assms(1,3,5)] assms(6) by simp
  then have "split_on (CHR ''/'') ns = split_on (CHR ''/'') ns'" "Hex aid = Hex aid'" by simp_all
  then show ?thesis using join_split_on by (metis Hex_def hex_encode_inject)
qed

text \<open>
  The on-disk path of an entry determines its namespace and its key: two entries of one cache
  share a file only if they are the same entry.
\<close>

theorem entryPath_inject:
  assumes "root \<noteq> []" and "ns_ok ns" and "ns_ok ns'" and "length aid = 32" and "length aid' = 32"
  shows "entryPath root ns aid = entryPath root ns' aid' \<longleftrightarrow> ns = ns' \<and> aid = aid'"
  using entryPath_segs_inject [OF assms] by blast

theorem entryPath_inject_witness:
  "entryPath ''/c'' ''typecheck'' (replicate 32 (CHR ''a'')) \<noteq> entryPath ''/c'' ''analyzer/govet'' (replicate 32 (CHR ''a''))"
  using entryPath_inject [of "''/c''" "''typecheck''" "''analyzer/govet''" "replicate 32 (CHR ''a'')" "replicate 32 (CHR ''a'')"]
  by (auto simp: ns_ok_def plain_seg_def)

lemma tmp_not_entry:
  assumes "root \<noteq> []" and "ns_ok ns" and "ns_ok ns'" and "length aid = 32" and "length aid' = 32"
  shows "entryPath root ns aid @ ''.tmp.'' @ hex_encode r \<noteq> entryPath root ns' aid'"
proof
  let ?p = "entryPath root ns aid"
  assume eq: "?p @ ''.tmp.'' @ hex_encode r = entryPath root ns' aid'"
  have "CHR ''/'' \<notin> set (''.tmp.'' @ hex_encode r)" using hex_encode_chars by auto
  then have "last (split_on (CHR ''/'') (?p @ ''.tmp.'' @ hex_encode r)) = Hex aid @ ''.tmp.'' @ hex_encode r"
    using split_on_append_no_sep split_entryPath [OF assms(1,2,4)] by (simp del: append.simps)
  moreover have "last (split_on (CHR ''/'') (entryPath root ns' aid')) = Hex aid'"
    using split_entryPath [OF assms(1,3,5)] by simp
  ultimately have "Hex aid' = Hex aid @ ''.tmp.'' @ hex_encode r" using eq by simp
  then have "CHR ''.'' \<in> set (Hex aid')" by simp
  then show False using hex_encode_chars by (auto simp: Hex_def)
qed

end
