(* ===== verification/AtomicWrite.thy ===== *)
theory AtomicWrite
  imports FileStore
begin

text \<open>
  What the atomic write promises (\<^verbatim>\<open>internal/cache/atomic.go\<close>): alone, for every combination of
  failing system calls; and among any number of concurrent writers, readers that refresh times and a
  garbage collector, as a step relation in which temporary files are written in pieces.
\<close>

definition tmp_of :: "io \<Rightarrow> string \<Rightarrow> string" where
  "tmp_of i path = path @ ''.tmp.'' @ hex_encode (rnd i)"

lemma tmp_of_neq [simp]: "tmp_of i path \<noteq> path" "path \<noteq> tmp_of i path"
  by (simp_all add: tmp_of_def)

lemma tempName_Inr: "tempName i path = Inr t \<longleftrightarrow> rand_err i = None \<and> t = tmp_of i path"
  by (auto simp: tempName_def tmp_of_def split: option.splits)

lemma writeFileAtomic_other:
  "p \<noteq> path \<Longrightarrow> p \<noteq> tmp_of i path \<Longrightarrow> fst (writeFileAtomic i fs path data) p = fs p"
  by (auto simp: writeFileAtomic_def os_remove_def os_link_def tempName_def tmp_of_def Let_def
    split: option.splits sum.splits bool.splits if_splits)

lemma writeFileAtomic_path:
  "fst (writeFileAtomic i fs path data) path = fs path
   \<or> fs path = None \<and> fst (writeFileAtomic i fs path data) path = Some (data, now i)"
  by (auto simp: writeFileAtomic_def os_remove_def os_link_def tempName_def tmp_of_def Let_def
    split: option.splits sum.splits bool.splits if_splits)

lemma writeFileAtomic_ok:
  "snd (writeFileAtomic i fs path data) = None \<Longrightarrow>
   fst (writeFileAtomic i fs path data) path = (if fs path = None then Some (data, now i) else fs path)"
  by (auto simp: writeFileAtomic_def os_remove_def os_link_def tempName_def tmp_of_def Let_def
    split: option.splits sum.splits bool.splits if_splits)

lemma writeFileAtomic_healthy:
  "healthy i \<Longrightarrow> writeFileAtomic i fs path data =
     ((if fs path = None then fs(path \<mapsto> (data, now i)) else fs)(tmp_of i path := None), None)"
  by (auto simp: writeFileAtomic_def healthy_def os_remove_def os_link_def tempName_def tmp_of_def Let_def
    fun_upd_twist split: option.splits sum.splits bool.splits if_splits)

text \<open>
  The atomic write, whatever system call fails: the target keeps its contents or, if it did not
  exist, holds exactly the new data; no file other than the target and the temporary name changes; and
  when the call reports success the target exists, with the bytes of the first writer.
\<close>

theorem writeFileAtomic_correct:
  fixes i fs path data
  defines "fs' \<equiv> fst (writeFileAtomic i fs path data)" and "err \<equiv> snd (writeFileAtomic i fs path data)"
  shows "fs' path \<in> (if fs path = None then {None, Some (data, now i)} else {fs path})
    \<and> {p. fs' p \<noteq> fs p} \<subseteq> {path, tmp_of i path}
    \<and> (err = None \<longrightarrow> fs' path = (if fs path = None then Some (data, now i) else fs path))
    \<and> (healthy i \<longrightarrow> err = None \<and> fs' (tmp_of i path) = None)"
proof -
  have "fs' path \<in> (if fs path = None then {None, Some (data, now i)} else {fs path})"
    unfolding fs'_def using writeFileAtomic_path [of i fs path data] by auto
  moreover have "{p. fs' p \<noteq> fs p} \<subseteq> {path, tmp_of i path}"
    unfolding fs'_def using writeFileAtomic_other [of _ path i fs data] by blast
  moreover have "err = None \<longrightarrow> fs' path = (if fs path = None then Some (data, now i) else fs path)"
    unfolding fs'_def err_def using writeFileAtomic_ok [of i fs path data] by blast
  moreover have "healthy i \<longrightarrow> err = None \<and> fs' (tmp_of i path) = None"
    unfolding fs'_def err_def using writeFileAtomic_healthy [of i fs path data] by simp
  ultimately show ?thesis by blast
qed

definition quiet_io :: io where
  "quiet_io = \<lparr>now = 7, rnd = ''abcdefgh'', mkdir_err = None, rand_err = None, write_err = None,
     link_err = None, remove_err = None, read_err = None, stat_err = None, chtimes_err = None\<rparr>"

lemma quiet_healthy [simp]: "healthy quiet_io"
  by (simp add: healthy_def quiet_io_def)

theorem writeFileAtomic_correct_witness:
  "snd (writeFileAtomic quiet_io Map.empty ''/c/x'' ''data'') = None
   \<and> fst (writeFileAtomic quiet_io Map.empty ''/c/x'' ''data'') ''/c/x'' = Some (''data'', 7)"
  using writeFileAtomic_correct [of quiet_io Map.empty "''/c/x''" "''data''"] by (simp add: quiet_io_def healthy_def)


subsection \<open>Concurrent writers\<close>

text \<open>
  Writers of one path, each with its own data and random suffix.  A writer writes its temporary file
  piece by piece, links it to the target (or finds it taken), and unlinks the temporary; it may die
  at any point.  Meanwhile readers refresh the target's time and the collector may remove it.
\<close>

datatype wphase = Writing | Written | Linked | Finished

record wsys =
  wfs :: filesys
  phase :: "nat \<Rightarrow> wphase"

inductive wstep :: "string \<Rightarrow> (nat \<Rightarrow> bytes) \<Rightarrow> (nat \<Rightarrow> bytes) \<Rightarrow> wsys \<Rightarrow> wsys \<Rightarrow> bool"
  for path sfx dat where
  write_some: "phase s w = Writing \<Longrightarrow>
    wstep path sfx dat s (s\<lparr>wfs := (wfs s)(path @ ''.tmp.'' @ hex_encode (sfx w) \<mapsto> (take n (dat w), t))\<rparr>)"
| write_all: "phase s w = Writing \<Longrightarrow>
    wstep path sfx dat s (s\<lparr>wfs := (wfs s)(path @ ''.tmp.'' @ hex_encode (sfx w) \<mapsto> (dat w, t)),
      phase := (phase s)(w := Written)\<rparr>)"
| link_first: "phase s w = Written \<Longrightarrow> wfs s path = None \<Longrightarrow>
    wstep path sfx dat s (s\<lparr>wfs := (wfs s)(path := wfs s (path @ ''.tmp.'' @ hex_encode (sfx w))),
      phase := (phase s)(w := Linked)\<rparr>)"
| link_exists: "phase s w = Written \<Longrightarrow> wfs s path \<noteq> None \<Longrightarrow>
    wstep path sfx dat s (s\<lparr>phase := (phase s)(w := Linked)\<rparr>)"
| unlink: "phase s w = Linked \<Longrightarrow>
    wstep path sfx dat s (s\<lparr>wfs := (wfs s)(path @ ''.tmp.'' @ hex_encode (sfx w) := None),
      phase := (phase s)(w := Finished)\<rparr>)"
| die: "wstep path sfx dat s (s\<lparr>phase := (phase s)(w := Finished)\<rparr>)"
| touch: "wfs s path = Some (d, t) \<Longrightarrow> wstep path sfx dat s (s\<lparr>wfs := (wfs s)(path \<mapsto> (d, t'))\<rparr>)"
| collect: "wstep path sfx dat s (s\<lparr>wfs := (wfs s)(path := None)\<rparr>)"

inductive_simps wstep_iff: "wstep path sfx dat s s'"

text \<open>What every reachable state satisfies, when the random suffixes of the writers in \<open>W\<close> differ.\<close>

definition winv :: "nat set \<Rightarrow> string \<Rightarrow> (nat \<Rightarrow> bytes) \<Rightarrow> (nat \<Rightarrow> bytes) \<Rightarrow> bytes set \<Rightarrow> wsys \<Rightarrow> bool" where
  "winv W path sfx dat old s \<longleftrightarrow>
     (\<forall>d t. wfs s path = Some (d, t) \<longrightarrow> d \<in> old \<union> dat ` W)
     \<and> (\<forall>w. phase s w \<noteq> Finished \<longrightarrow> w \<in> W)
     \<and> (\<forall>w. phase s w = Written \<longrightarrow> (\<exists>t. wfs s (path @ ''.tmp.'' @ hex_encode (sfx w)) = Some (dat w, t)))"

lemma winv_sfx:
  assumes "winv W path sfx dat old s" and "inj_on sfx W" and "phase s w \<noteq> Finished" and "phase s v \<noteq> Finished"
  shows "sfx v = sfx w \<longleftrightarrow> v = w"
  using assms by (auto simp: winv_def inj_on_def)

lemma winv_step:
  assumes "wstep path sfx dat s s'" and "inj_on sfx W" and "winv W path sfx dat old s"
  shows "winv W path sfx dat old s'"
  using assms
proof (induction rule: wstep.induct)
  case (write_some s w n t)
  have "sfx v \<noteq> sfx w" if "phase s v = Written" for v
    using that write_some winv_sfx [of W path sfx dat old s w v] by auto
  with write_some show ?case by (auto simp: winv_def)
next
  case (write_all s w t)
  have "sfx v \<noteq> sfx w" if "phase s v = Written" for v
    using that write_all winv_sfx [of W path sfx dat old s w v] by auto
  with write_all show ?case by (auto simp: winv_def)
next
  case (link_first s w)
  then have "w \<in> W" by (simp add: winv_def)
  with link_first show ?case by (fastforce simp: winv_def)
next
  case (unlink s w)
  have "sfx v \<noteq> sfx w" if "phase s v = Written" for v
    using that unlink winv_sfx [of W path sfx dat old s w v] by auto
  with unlink show ?case by (auto simp: winv_def)
qed (auto simp: winv_def split: if_splits)

text \<open>
  C30. No torn reads.  However the writers in \<open>W\<close>, readers and the collector interleave, wherever
  writers stop or die, and however their temporary files are cut short, the published path holds
  either what it held at the start or the complete data of one of the writers, as long as their
  random suffixes differ.
\<close>

theorem no_torn_entry:
  assumes "(wstep path sfx dat)\<^sup>*\<^sup>* \<lparr>wfs = fs, phase = (\<lambda>w. if w \<in> W then Writing else Finished)\<rparr> s"
    and "inj_on sfx W" and "wfs s path = Some (d, t)"
  shows "(\<exists>t0. fs path = Some (d, t0)) \<or> (\<exists>w \<in> W. d = dat w)"
proof -
  let ?old = "{d. \<exists>t. fs path = Some (d, t)}"
  have "winv W path sfx dat ?old \<lparr>wfs = fs, phase = (\<lambda>w. if w \<in> W then Writing else Finished)\<rparr>"
    by (auto simp: winv_def)
  with assms(1) have "winv W path sfx dat ?old s"
    by (induction rule: rtranclp_induct) (auto intro: winv_step [OF _ assms(2)])
  with assms(3) show ?thesis by (auto simp: winv_def)
qed

text \<open>A writer that runs alone through its steps does what \<open>writeFileAtomic\<close> computes.\<close>

lemma solo_run:
  assumes "healthy i" and "sfx w = rnd i" and "phase s w = Writing"
  shows "\<exists>s'. (wstep path sfx dat)\<^sup>*\<^sup>* s s' \<and> wfs s' = fst (writeFileAtomic i (wfs s) path (dat w))"
proof -
  let ?t = "path @ ''.tmp.'' @ hex_encode (sfx w)"
  define s1 where "s1 = s\<lparr>wfs := (wfs s)(?t \<mapsto> (dat w, now i)), phase := (phase s)(w := Written)\<rparr>"
  define s2 where "s2 = (if wfs s path = None
      then s1\<lparr>wfs := (wfs s1)(path := wfs s1 ?t), phase := (phase s1)(w := Linked)\<rparr>
      else s1\<lparr>phase := (phase s1)(w := Linked)\<rparr>)"
  define s3 where "s3 = s2\<lparr>wfs := (wfs s2)(?t := None), phase := (phase s2)(w := Finished)\<rparr>"
  have "wstep path sfx dat s s1" unfolding s1_def by (rule write_all [OF assms(3)])
  moreover have "wstep path sfx dat s1 s2"
  proof (cases "wfs s path = None")
    case True
    then show ?thesis using link_first [of s1 w path sfx dat] by (simp add: s1_def s2_def)
  next
    case False
    then have "wfs s1 path \<noteq> None" "s2 = s1\<lparr>phase := (phase s1)(w := Linked)\<rparr>" by (auto simp: s1_def s2_def)
    then show ?thesis using link_exists [of s1 w path sfx dat] by (simp add: s1_def)
  qed
  moreover have "wstep path sfx dat s2 s3"
    unfolding s3_def by (rule unlink) (simp add: s2_def)
  ultimately have "(wstep path sfx dat)\<^sup>*\<^sup>* s s3" by (meson converse_rtranclp_into_rtranclp rtranclp.rtrancl_refl)
  moreover have "wfs s3 = fst (writeFileAtomic i (wfs s) path (dat w))"
    by (auto simp: writeFileAtomic_healthy [OF assms(1)] s3_def s2_def s1_def tmp_of_def assms(2) fun_eq_iff)
  ultimately show ?thesis by blast
qed

theorem no_torn_entry_witness:
  "\<exists>s. (wstep ''/c/x'' (\<lambda>w. if w = 0 then ''abcdefgh'' else ''ABCDEFGH'') (\<lambda>w. ''data'' @ nat_digits w))\<^sup>*\<^sup>*
       \<lparr>wfs = Map.empty, phase = (\<lambda>w. if w \<in> {0, 1} then Writing else Finished)\<rparr> s
     \<and> wfs s ''/c/x'' = Some (''data'' @ nat_digits 0, 7)
     \<and> (\<exists>w \<in> {0, 1}. ''data'' @ nat_digits 0 = ''data'' @ nat_digits w)"
proof -
  let ?sfx = "\<lambda>w :: nat. if w = 0 then ''abcdefgh'' else ''ABCDEFGH''"
  let ?dat = "\<lambda>w :: nat. ''data'' @ nat_digits w"
  let ?s = "\<lparr>wfs = Map.empty, phase = (\<lambda>w. if w \<in> {0, 1} then Writing else Finished)\<rparr>"
  obtain s' where s': "(wstep ''/c/x'' ?sfx ?dat)\<^sup>*\<^sup>* ?s s'"
      "wfs s' = fst (writeFileAtomic quiet_io (wfs ?s) ''/c/x'' (?dat 0))"
    using solo_run [of quiet_io ?sfx 0 ?s "''/c/x''" ?dat] by (auto simp: quiet_io_def healthy_def)
  then have c: "wfs s' ''/c/x'' = Some (''data'' @ nat_digits 0, 7)"
    using writeFileAtomic_healthy [of quiet_io Map.empty "''/c/x''"] by (simp add: tmp_of_def quiet_io_def healthy_def)
  have "inj_on ?sfx {0, 1}" by (simp add: inj_on_def)
  then show ?thesis using s'(1) c no_torn_entry [OF s'(1) _ c] by auto
qed

end
