(* ===== verification/Backend.thy ===== *)
theory Backend
  imports AtomicWrite
begin

text \<open>
  The storage seam of the caches (\<^verbatim>\<open>internal/cache/backend.go\<close>) and its two implementations.

  Locale \<open>backend\<close> is the Go interface with the contract its comments state: \<open>Get\<close> returns only what
  was stored and leaves the contents alone, \<open>Put\<close> publishes under one location and may keep an
  earlier body, \<open>Has\<close> may not miss an entry.  A state is described by the bodies readable at each
  location; a location is a file path for the local backend and a derived 32-byte identifier for the
  helper process.  The local backend (\<^verbatim>\<open>local_backend.go\<close>) and the GOCACHEPROG backend
  (\<^verbatim>\<open>gocacheprog_backend.go\<close>) interpret it.
\<close>

locale backend =
  fixes get :: "'io \<Rightarrow> 's \<Rightarrow> string \<Rightarrow> actionID \<Rightarrow> 's \<times> bytes result"
    and put :: "'io \<Rightarrow> 's \<Rightarrow> string \<Rightarrow> actionID \<Rightarrow> bytes \<Rightarrow> 's \<times> string option"
    and has :: "'io \<Rightarrow> 's \<Rightarrow> string \<Rightarrow> actionID \<Rightarrow> bool"
    and entries :: "'s \<Rightarrow> bytes \<rightharpoonup> bytes"
    and loc :: "string \<Rightarrow> actionID \<Rightarrow> bytes"
    and ok :: "'io \<Rightarrow> bool"
    and valid :: "string \<Rightarrow> actionID \<Rightarrow> bool"
  assumes get_entries: "valid n k \<Longrightarrow> entries (fst (get i s ns a)) (loc n k) = entries s (loc n k)"
    and get_sound: "snd (get i s ns a) = Inr b \<Longrightarrow> entries s (loc ns a) = Some b"
    and get_complete: "ok i \<Longrightarrow> entries s (loc ns a) = Some b \<Longrightarrow> snd (get i s ns a) = Inr b"
    and put_other: "valid ns a \<Longrightarrow> valid n k \<Longrightarrow> loc n k \<noteq> loc ns a \<Longrightarrow>
      entries (fst (put i s ns a b)) (loc n k) = entries s (loc n k)"
    and put_here: "entries (fst (put i s ns a b)) (loc ns a) = entries s (loc ns a)
      \<or> entries (fst (put i s ns a b)) (loc ns a) = Some b"
    and put_published: "snd (put i s ns a b) = None \<Longrightarrow> entries (fst (put i s ns a b)) (loc ns a) \<noteq> None"
    and put_total: "ok i \<Longrightarrow> snd (put i s ns a b) = None"
    and has_complete: "ok i \<Longrightarrow> entries s (loc ns a) \<noteq> None \<Longrightarrow> has i s ns a"
begin

text \<open>A body that reads back was published by a put, and a put on a free location reads back.\<close>

lemma put_get:
  assumes "snd (put i s ns a b) = None" and "entries s (loc ns a) = None" and "ok j"
  shows "snd (get j (fst (put i s ns a b)) ns a) = Inr b"
proof -
  have "entries (fst (put i s ns a b)) (loc ns a) = Some b"
    using put_published [OF assms(1)] put_here [of i s ns a b] assms(2) by auto
  then show ?thesis by (rule get_complete [OF assms(3)])
qed

lemma put_get_other:
  assumes "valid ns a" and "valid n k" and "loc n k \<noteq> loc ns a" and "ok i" and "ok j"
  shows "snd (get i s n k) = Inr v \<longleftrightarrow> snd (get j (fst (put l s ns a b)) n k) = Inr v"
  using put_other [OF assms(1-3)] get_sound get_complete assms(4,5) by metis

text \<open>A body that can be read after a put was there before or is the one the put published there.\<close>

lemma put_sound:
  assumes "entries (fst (put i s ns a b)) (loc n k) = Some v" and "valid ns a" and "valid n k"
  shows "entries s (loc n k) = Some v \<or> loc n k = loc ns a \<and> v = b"
  using assms put_other [OF assms(2,3)] put_here [of i s ns a b] by (cases "loc n k = loc ns a") auto

end


subsection \<open>A tier of entries on a backend\<close>

text \<open>
  A tier keeps encoded entries under one namespace.  \<open>rel aid e\<close> says that \<open>e\<close> is a right entry for the
  key \<open>aid\<close>; a store is faithful when it holds nothing else under the namespace.
\<close>

definition tier_faithful ::
    "('s \<Rightarrow> bytes \<rightharpoonup> bytes) \<Rightarrow> (string \<Rightarrow> actionID \<Rightarrow> bytes) \<Rightarrow> string \<Rightarrow> ('e \<Rightarrow> bytes) \<Rightarrow> (actionID \<Rightarrow> 'e \<Rightarrow> bool) \<Rightarrow> 's \<Rightarrow> bool" where
  "tier_faithful entries loc ns enc rel s \<longleftrightarrow>
     (\<forall>aid b. length aid = 32 \<longrightarrow> entries s (loc ns aid) = Some b \<longrightarrow> (\<exists>e. rel aid e \<and> b = enc e))"

lemma tier_faithful_mono:
  assumes "tier_faithful entries loc ns enc rel s"
    and "\<And>aid b. length aid = 32 \<Longrightarrow> entries s' (loc ns aid) = Some b \<Longrightarrow> entries s (loc ns aid) = Some b"
  shows "tier_faithful entries loc ns enc rel s'"
  using assms by (simp add: tier_faithful_def)

locale entry_tier = backend get put has entries loc ok valid
  for get :: "'io \<Rightarrow> 's \<Rightarrow> string \<Rightarrow> actionID \<Rightarrow> 's \<times> bytes result"
    and put :: "'io \<Rightarrow> 's \<Rightarrow> string \<Rightarrow> actionID \<Rightarrow> bytes \<Rightarrow> 's \<times> string option"
    and has :: "'io \<Rightarrow> 's \<Rightarrow> string \<Rightarrow> actionID \<Rightarrow> bool"
    and entries :: "'s \<Rightarrow> bytes \<rightharpoonup> bytes"
    and loc :: "string \<Rightarrow> actionID \<Rightarrow> bytes"
    and ok :: "'io \<Rightarrow> bool"
    and valid :: "string \<Rightarrow> actionID \<Rightarrow> bool" +
  fixes ns :: string
    and enc :: "'e \<Rightarrow> bytes"
    and dec :: "bytes \<Rightarrow> 'e result"
    and rel :: "actionID \<Rightarrow> 'e \<Rightarrow> bool"
  assumes rel_codec: "rel aid e \<Longrightarrow> dec (enc e) = Inr e"
    and ns_valid: "length aid = 32 \<Longrightarrow> valid ns aid"
    and loc_inject: "length aid = 32 \<Longrightarrow> valid n k \<Longrightarrow> loc ns aid = loc n k \<Longrightarrow> ns = n \<and> aid = k"
begin

lemma read_right:
  assumes "tier_faithful entries loc ns enc rel s" and "length aid = 32" and "snd (get i s ns aid) = Inr d"
  shows "\<exists>e. rel aid e \<and> d = enc e \<and> dec d = Inr e"
  using assms get_sound [OF assms(3)] rel_codec by (fastforce simp: tier_faithful_def)

lemma get_faithful:
  assumes "tier_faithful entries loc ns enc rel s"
  shows "tier_faithful entries loc ns enc rel (fst (get i s n k))"
  by (rule tier_faithful_mono [OF assms]) (simp add: get_entries ns_valid)

lemma put_faithful:
  assumes "tier_faithful entries loc ns enc rel s" and "rel aid e" and "length aid = 32"
  shows "tier_faithful entries loc ns enc rel (fst (put i s ns aid (enc e)))"
  unfolding tier_faithful_def
proof (intro allI impI)
  fix k b
  assume k: "length k = 32" and b: "entries (fst (put i s ns aid (enc e))) (loc ns k) = Some b"
  have "entries s (loc ns k) = Some b \<or> loc ns k = loc ns aid \<and> b = enc e"
    using put_sound [OF b] ns_valid assms(3) k by blast
  then show "\<exists>e. rel k e \<and> b = enc e"
    using assms k loc_inject [OF k ns_valid [OF assms(3)]] by (auto simp: tier_faithful_def)
qed

lemma put_foreign_faithful:
  assumes "tier_faithful entries loc ns enc rel s" and "n \<noteq> ns" and "valid n k"
  shows "tier_faithful entries loc ns enc rel (fst (put i s n k b))"
proof (rule tier_faithful_mono [OF assms(1)])
  fix aid c assume a: "length aid = 32" and "entries (fst (put i s n k b)) (loc ns aid) = Some c"
  then have "entries s (loc ns aid) = Some c \<or> loc ns aid = loc n k"
    using put_sound [of i s n k b ns aid c] assms(3) ns_valid by blast
  then show "entries s (loc ns aid) = Some c" using loc_inject [OF a assms(3)] assms(2) by auto
qed

lemma put_any_faithful:
  assumes "tier_faithful entries loc ns enc rel s" and "valid n k" and "length k = 32"
    and "n = ns \<Longrightarrow> \<exists>e. rel k e \<and> b = enc e"
  shows "tier_faithful entries loc ns enc rel (fst (put i s n k b))"
  using assms put_faithful [OF assms(1) _ assms(3), of _ i] put_foreign_faithful [OF assms(1) _ assms(2), of i b]
  by (cases "n = ns") auto

lemma put_then_read:
  assumes "tier_faithful entries loc ns enc rel s" and "rel aid e" and "length aid = 32" and "ok i" and "ok j"
  shows "\<exists>e'. rel aid e' \<and> snd (get j (fst (put i s ns aid (enc e))) ns aid) = Inr (enc e')"
proof -
  obtain b where b: "entries (fst (put i s ns aid (enc e))) (loc ns aid) = Some b"
    using put_published [OF put_total [OF assms(4)]] by blast
  then obtain e' where "rel aid e'" "b = enc e'"
    using put_faithful [OF assms(1-3), of i] assms(3) by (auto simp: tier_faithful_def)
  with get_complete [OF assms(5) b] show ?thesis by blast
qed

end


subsection \<open>The local backend\<close>

definition file_bodies :: "filesys \<Rightarrow> bytes \<rightharpoonup> bytes" where
  "file_bodies fs p = map_option fst (fs p)"

definition entry_valid :: "string \<Rightarrow> actionID \<Rightarrow> bool" where
  "entry_valid ns a \<longleftrightarrow> ns_ok ns \<and> length a = 32"

definition store_root :: "string \<Rightarrow> string" where
  \<comment> \<open>\<^verbatim>\<open>filepath.Join\<close> gives the same paths for an empty root and for the current directory\<close>
  "store_root r = (if r = [] then ''.'' else r)"

lemma store_root_neq [simp]: "store_root r \<noteq> []"
  by (simp add: store_root_def)

lemma file_bodies_chtimes [simp]: "file_bodies (os_chtimes i fs p) = file_bodies fs"
  by (auto simp: file_bodies_def os_chtimes_def fun_eq_iff split: option.splits)

interpretation localb: backend "local_Get (store_root r)" "local_Put (store_root r)" "local_Has (store_root r)"
    file_bodies "entryPath (store_root r)" healthy entry_valid for r
proof
  fix i fs ns a b n k
  let ?p = "entryPath (store_root r) ns a"
  show "file_bodies (fst (local_Get (store_root r) i fs ns a)) (entryPath (store_root r) n k)
      = file_bodies fs (entryPath (store_root r) n k)"
    by (simp add: local_Get_def Let_def split: sum.splits)
  show "snd (local_Get (store_root r) i fs ns a) = Inr b \<Longrightarrow> file_bodies fs ?p = Some b"
    by (auto simp: local_Get_def os_readfile_def file_bodies_def Let_def split: sum.splits option.splits)
  show "healthy i \<Longrightarrow> file_bodies fs ?p = Some b \<Longrightarrow> snd (local_Get (store_root r) i fs ns a) = Inr b"
    by (auto simp: local_Get_def os_readfile_def file_bodies_def healthy_def Let_def split: sum.splits option.splits)
  show "file_bodies (fst (local_Put (store_root r) i fs ns a b)) (entryPath (store_root r) n k)
      = file_bodies fs (entryPath (store_root r) n k)"
    if "entry_valid ns a" "entry_valid n k" "entryPath (store_root r) n k \<noteq> ?p"
  proof -
    have "entryPath (store_root r) n k \<noteq> tmp_of i ?p"
      using tmp_not_entry [of "store_root r" ns n a k "rnd i"] that by (simp add: entry_valid_def tmp_of_def)
    then show ?thesis using that(3) by (simp add: local_Put_def file_bodies_def writeFileAtomic_other)
  qed
  show "file_bodies (fst (local_Put (store_root r) i fs ns a b)) ?p = file_bodies fs ?p
      \<or> file_bodies (fst (local_Put (store_root r) i fs ns a b)) ?p = Some b"
    using writeFileAtomic_path [of i fs ?p b] by (auto simp: local_Put_def file_bodies_def)
  show "snd (local_Put (store_root r) i fs ns a b) = None \<Longrightarrow>
      file_bodies (fst (local_Put (store_root r) i fs ns a b)) ?p \<noteq> None"
    using writeFileAtomic_ok [of i fs ?p b] by (auto simp: local_Put_def file_bodies_def split: if_splits)
  show "healthy i \<Longrightarrow> snd (local_Put (store_root r) i fs ns a b) = None"
    by (simp add: local_Put_def writeFileAtomic_healthy)
  show "healthy i \<Longrightarrow> file_bodies fs ?p \<noteq> None \<Longrightarrow> local_Has (store_root r) i fs ns a"
    by (auto simp: local_Has_def healthy_def file_bodies_def)
qed


text \<open>Entries of different namespaces never share a file, so every codec gives a tier of the local backend.\<close>

lemma local_loc_inject:
  assumes "ns_ok ns" and "length aid = 32" and "entry_valid n k"
    and "entryPath (store_root r) ns aid = entryPath (store_root r) n k"
  shows "ns = n \<and> aid = k"
  using entryPath_segs_inject [of "store_root r" ns n aid k] assms by (simp add: entry_valid_def)

lemma local_tier:
  assumes "ns_ok ns" and "\<And>aid e. rel aid e \<Longrightarrow> dec (enc e) = Inr e"
  shows "entry_tier (local_Get (store_root r)) (local_Put (store_root r)) (local_Has (store_root r)) file_bodies
    (entryPath (store_root r)) healthy entry_valid ns enc dec rel"
  using assms local_loc_inject [OF assms(1)] localb.backend_axioms [of r]
  by (intro entry_tier.intro entry_tier_axioms.intro) (auto simp: entry_valid_def)

end
