(* ===== verification/Gocacheprog.thy ===== *)
theory Gocacheprog
  imports Backend
begin

text \<open>
  The GOCACHEPROG backend (\<^verbatim>\<open>internal/cache/gocacheprog_backend.go\<close>) and the request half of its client
  (\<^verbatim>\<open>internal/cache/gocacheprog/client.go\<close>): tokenising the helper command line, folding the namespace
  into the key, choosing a backend per tier, and \<open>Get\<close>, \<open>Put\<close> and \<open>Stat\<close> over the wire.

  The helper is another program.  It enters as the functions \<open>hget\<close> and \<open>hput\<close> that answer a request,
  and \<open>disk\<close>, what opening and reading a \<^verbatim>\<open>DiskPath\<close> yields; locale \<open>cacheprog_helper\<close> states the
  protocol they follow.  The process environment is a function from names to values, empty when unset.
\<close>

subsection \<open>The helper command line\<close>

definition isCacheProgSpace :: "char \<Rightarrow> bool" where
  "isCacheProgSpace c \<longleftrightarrow> c = CHR '' '' \<or> c = CHR 0x09 \<or> c = CHR 0x0A \<or> c = CHR 0x0D"

function splitQuoted :: "string \<Rightarrow> string list result" where
  "splitQuoted s =
     (case dropWhile isCacheProgSpace s of
        [] \<Rightarrow> Inr []
      | c # r \<Rightarrow>
          if c = CHR 0x22 \<or> c = CHR 0x27 then
            (let field = takeWhile (\<lambda>x. x \<noteq> c) r in
             if length field = length r then Inl (''unterminated '' @ [c] @ '' quote'')
             else case splitQuoted (drop (length field + 1) r) of
                    Inl e \<Rightarrow> Inl e | Inr fs \<Rightarrow> Inr (field # fs))
          else
            (let field = takeWhile (\<lambda>x. \<not> isCacheProgSpace x) (c # r) in
             case splitQuoted (drop (length field) (c # r)) of
               Inl e \<Rightarrow> Inl e | Inr fs \<Rightarrow> Inr (field # fs)))"
  by pat_completeness auto
termination
proof (relation "measure length", goal_cases)
  case (2 s c r field)
  then show ?case using length_dropWhile_le [of isCacheProgSpace s] by simp
next
  case (3 s c r field)
  then have "\<not> isCacheProgSpace c" by (metis dropWhile_eq_Cons_conv)
  then show ?case using 3 length_dropWhile_le [of isCacheProgSpace s] by simp
qed simp

declare splitQuoted.simps [simp del]

definition splitCacheProg :: "string \<Rightarrow> (string \<times> string list) result" where
  "splitCacheProg cacheprog =
     (case splitQuoted cacheprog of
        Inl e \<Rightarrow> Inl (''plaid-lint: parse GOCACHEPROG: '' @ e)
      | Inr [] \<Rightarrow> Inl ''plaid-lint: GOCACHEPROG is empty''
      | Inr (f # fs) \<Rightarrow> Inr (f, fs))"


subsection \<open>Choosing a backend\<close>

type_synonym environ = "string \<Rightarrow> string"

definition TierL0 :: string where "TierL0 = ''l0''"
definition TierL1 :: string where "TierL1 = ''l1''"
definition TierL2 :: string where "TierL2 = ''l2''"

definition backendForTier :: "environ \<Rightarrow> string \<Rightarrow> string" where
  "backendForTier env tier =
     (let v = env (''PLAID_'' @ ToUpper tier @ ''_CACHE_BACKEND''); g = env ''PLAID_CACHE_BACKEND'' in
      if tier \<noteq> [] \<and> v \<noteq> [] then v
      else if g \<noteq> [] then (if tier = TierL1 \<and> g = ''gocacheprog'' then ''local'' else g)
      else ''local'')"

definition tierCacheProg :: "environ \<Rightarrow> string \<Rightarrow> string" where
  "tierCacheProg env tier = (if tier = [] then [] else env (''PLAID_'' @ ToUpper tier @ ''_GOCACHEPROG''))"

definition cacheProgForTier :: "environ \<Rightarrow> string \<Rightarrow> string" where
  "cacheProgForTier env tier =
     (let v = tierCacheProg env tier in if v \<noteq> [] then v else env ''GOCACHEPROG'')"

datatype backend_choice = LocalBackend string | HelperBackend string "string list"

text \<open>Starting the helper process is left out: the choice names the program and its arguments.\<close>

definition selectBackendForTier :: "environ \<Rightarrow> string \<Rightarrow> string \<Rightarrow> backend_choice result" where
  "selectBackendForTier env root tier =
     (let name = backendForTier env tier in
      if name = ''local'' then Inr (LocalBackend root)
      else if name = ''gocacheprog'' then
        (let bin = cacheProgForTier env tier in
         if bin = [] then
           Inl (''plaid-lint: cache backend gocacheprog requires ''
             @ (if tier = [] then ''GOCACHEPROG env var to point at the helper binary''
                else ''PLAID_'' @ ToUpper tier @ ''_GOCACHEPROG or GOCACHEPROG to point at the helper binary''))
         else case splitCacheProg bin of Inl e \<Rightarrow> Inl e | Inr (n, as) \<Rightarrow> Inr (HelperBackend n as))
      else Inl (''plaid-lint: unknown cache backend: '' @ name @ '' (want one of: local, gocacheprog)''))"


subsection \<open>Requests\<close>

definition deriveActionID :: "string \<Rightarrow> actionID \<Rightarrow> bytes" where
  "deriveActionID ns aid = sha256 (''plaid-lint/v1/'' @ ns @ [CHR 0x00] @ aid)"

record hresponse =
  rErr :: string
  Miss :: bool
  OutputID :: bytes
  DiskPath :: string

text \<open>
  The answer of \<^verbatim>\<open>Client.send\<close> once the response for the request has arrived (\<open>Inl\<close>: a transport error).
\<close>

definition send_result :: "hresponse result \<Rightarrow> hresponse result" where
  "send_result r =
     (case r of
        Inl e \<Rightarrow> Inl e
      | Inr res \<Rightarrow> if rErr res \<noteq> [] then Inl (''gocacheprog: helper error: '' @ rErr res) else Inr res)"

text \<open>\<^verbatim>\<open>copy(gr.outputID[:], res.OutputID)\<close> into a zeroed array of 32 bytes.\<close>

definition to32 :: "bytes \<Rightarrow> bytes" where
  "to32 b = take 32 (b @ replicate 32 (CHR 0x00))"

definition getWire :: "hresponse result \<Rightarrow> (bytes \<times> string) option result" where
  "getWire r =
     (case send_result r of
        Inl e \<Rightarrow> Inl e
      | Inr res \<Rightarrow>
          if Miss res then Inr None
          else if DiskPath res = [] then Inl ''gocacheprog: hit without DiskPath''
          else Inr (Some (to32 (OutputID res), DiskPath res)))"

definition client_Get ::
    "string list \<Rightarrow> hresponse result \<Rightarrow> (string \<Rightarrow> bytes result) \<Rightarrow> (bytes \<times> bytes) option result" where
  "client_Get known r disk =
     (if ''get'' \<notin> set known then Inl ''gocacheprog: helper does not support get''
      else case getWire r of
             Inl e \<Rightarrow> Inl e
           | Inr None \<Rightarrow> Inr None
           | Inr (Some (outputID, p)) \<Rightarrow>
               (case disk p of
                  Inl e \<Rightarrow> Inl (''gocacheprog: open DiskPath: '' @ e)
                | Inr body \<Rightarrow> Inr (Some (outputID, body))))"

definition client_Stat :: "string list \<Rightarrow> hresponse result \<Rightarrow> bool result" where
  "client_Stat known r =
     (if ''get'' \<notin> set known then Inl ''gocacheprog: helper does not support get''
      else case send_result r of Inl e \<Rightarrow> Inl e | Inr res \<Rightarrow> Inr (\<not> Miss res))"

definition validGocacheprogBody :: "bytes \<Rightarrow> bytes \<Rightarrow> bool" where
  "validGocacheprogBody outputID body \<longleftrightarrow> sha256 body = outputID"

text \<open>
  The backend operations over a helper in state \<open>h\<close>; \<open>hget i h a\<close> and \<open>hput i h a out body\<close> are its
  responses under the conditions \<open>i\<close>.
\<close>

definition gcp_Get ::
    "string list \<Rightarrow> ('i \<Rightarrow> 'h \<Rightarrow> bytes \<Rightarrow> hresponse result) \<Rightarrow> ('i \<Rightarrow> 'h \<Rightarrow> string \<Rightarrow> bytes result)
     \<Rightarrow> 'i \<Rightarrow> 'h \<Rightarrow> string \<Rightarrow> actionID \<Rightarrow> 'h \<times> bytes result" where
  "gcp_Get known hget disk i h ns aid =
     (h, case client_Get known (hget i h (deriveActionID ns aid)) (disk i h) of
           Inl e \<Rightarrow> Inl (''gocacheprog backend: get: '' @ e)
         | Inr None \<Rightarrow> Inl ErrNotExist
         | Inr (Some (outputID, body)) \<Rightarrow>
             if \<not> validGocacheprogBody outputID body then Inl ErrNotExist else Inr body)"

definition gcp_Put ::
    "string list \<Rightarrow> ('i \<Rightarrow> 'h \<Rightarrow> bytes \<Rightarrow> bytes \<Rightarrow> bytes \<Rightarrow> 'h \<times> hresponse result)
     \<Rightarrow> 'i \<Rightarrow> 'h \<Rightarrow> string \<Rightarrow> actionID \<Rightarrow> bytes \<Rightarrow> 'h \<times> string option" where
  "gcp_Put known hput i h ns aid body =
     (if ''put'' \<notin> set known then (h, Some ''gocacheprog backend: put: gocacheprog: helper does not support put'')
      else let (h', r) = hput i h (deriveActionID ns aid) (sha256 body) body
           in (h', case send_result r of Inl e \<Rightarrow> Some (''gocacheprog backend: put: '' @ e) | Inr _ \<Rightarrow> None))"

definition gcp_Has ::
    "string list \<Rightarrow> ('i \<Rightarrow> 'h \<Rightarrow> bytes \<Rightarrow> hresponse result) \<Rightarrow> 'i \<Rightarrow> 'h \<Rightarrow> string \<Rightarrow> actionID \<Rightarrow> bool" where
  "gcp_Has known hget i h ns aid = (client_Stat known (hget i h (deriveActionID ns aid)) = Inr True)"


subsection \<open>Facts on the command line\<close>

definition unquoted_field :: "string \<Rightarrow> bool" where
  "unquoted_field f \<longleftrightarrow> f \<noteq> [] \<and> list_all (\<lambda>c. \<not> isCacheProgSpace c) f \<and> hd f \<noteq> CHR 0x22 \<and> hd f \<noteq> CHR 0x27"

text \<open>How a field is written: bare if it can be, in double quotes otherwise.\<close>

definition write_field :: "string \<Rightarrow> string" where
  "write_field f = (if unquoted_field f then f else [CHR 0x22] @ f @ [CHR 0x22])"

lemma splitQuoted_blank: "isCacheProgSpace c \<Longrightarrow> splitQuoted (c # s) = splitQuoted s"
  by (subst (1 2) splitQuoted.simps) simp

lemma takeWhile_stop: "list_all P xs \<Longrightarrow> \<not> P y \<Longrightarrow> takeWhile P (xs @ y # ys) = xs"
  by (induction xs) auto

lemma splitQuoted_field:
  assumes "CHR 0x22 \<notin> set f \<or> unquoted_field f" and "splitQuoted s = Inr fs"
  shows "splitQuoted (write_field f @ CHR '' '' # s) = Inr (f # fs)"
proof -
  have sp: "splitQuoted (CHR '' '' # s) = Inr fs" using assms(2) by (simp add: splitQuoted_blank isCacheProgSpace_def)
  show ?thesis
  proof (cases "unquoted_field f")
    case True
    then have f: "f \<noteq> []" "list_all (\<lambda>c. \<not> isCacheProgSpace c) f" "hd f \<noteq> CHR 0x22" "hd f \<noteq> CHR 0x27"
      by (simp_all add: unquoted_field_def)
    obtain c r where cr: "f = c # r" using f(1) by (cases f) auto
    have c: "\<not> isCacheProgSpace c" and "list_all (\<lambda>c. \<not> isCacheProgSpace c) r" using f(2) cr by simp_all
    then have t: "takeWhile (\<lambda>x. \<not> isCacheProgSpace x) (r @ CHR '' '' # s) = r"
      by (intro takeWhile_stop) (simp_all add: isCacheProgSpace_def)
    show ?thesis
      using True f(3,4) c t sp by (subst splitQuoted.simps) (simp add: write_field_def cr Let_def)
  next
    case False
    then have q: "CHR 0x22 \<notin> set f" using assms(1) by blast
    then have "takeWhile (\<lambda>x. x \<noteq> CHR 0x22) (f @ CHR 0x22 # CHR '' '' # s) = f"
      by (intro takeWhile_stop) (auto simp: list_all_iff)
    then show ?thesis
      using False sp by (subst splitQuoted.simps) (simp add: write_field_def isCacheProgSpace_def Let_def)
  qed
qed

text \<open>
  The helper command line round trips: writing fields bare or in double quotes, each followed by a
  blank, and tokenising the result gives the fields back; nothing is lost, merged or split.
\<close>

theorem splitQuoted_roundtrip:
  assumes "\<And>f. f \<in> set fs \<Longrightarrow> CHR 0x22 \<notin> set f \<or> unquoted_field f"
  shows "splitQuoted (concat (map (\<lambda>f. write_field f @ '' '') fs)) = Inr fs"
  using assms
proof (induction fs)
  case Nil
  show ?case by (subst splitQuoted.simps) simp
next
  case (Cons f fs)
  then show ?case using splitQuoted_field [of f "concat (map (\<lambda>f. write_field f @ '' '') fs)" fs] by simp
qed

theorem splitQuoted_roundtrip_witness:
  "splitQuoted (concat (map (\<lambda>f. write_field f @ '' '') [''helper'', ''--dir'', ''/tmp/my cache''])) =
   Inr [''helper'', ''--dir'', ''/tmp/my cache'']"
  by (rule splitQuoted_roundtrip) auto


subsection \<open>Facts on keys and bodies\<close>

interpretation derived: keyed_digest sha256 "\<lambda>(ns, aid). ''plaid-lint/v1/'' @ ns @ [CHR 0x00] @ aid"
    "\<lambda>(ns, aid). deriveActionID ns aid" "\<lambda>(ns, aid). length aid = 32"
  by unfold_locales (auto simp: deriveActionID_def)

text \<open>
  Whatever the helper answers, a body the backend returns has the digest the helper named for it:
  a body that was corrupted on the way, or replaced by one of another entry, is reported as a miss.
\<close>

theorem gcp_Get_verified:
  assumes "gcp_Get known hget disk i h ns aid = (h', Inr body)"
  shows "\<exists>res. hget i h (deriveActionID ns aid) = Inr res \<and> rErr res = [] \<and> \<not> Miss res
     \<and> disk i h (DiskPath res) = Inr body \<and> sha256 body = to32 (OutputID res)"
  using assms
  by (auto simp: gcp_Get_def client_Get_def getWire_def send_result_def validGocacheprogBody_def
    split: sum.splits option.splits if_splits)

text \<open>
  The protocol a helper follows, over its store of output identifiers and bodies.  Under conditions
  \<open>i\<close> a request may fail; a hit is always truthful, and under good conditions (\<open>good i\<close>) requests
  succeed.
\<close>

locale cacheprog_helper =
  fixes hget :: "'i \<Rightarrow> 'h \<Rightarrow> bytes \<Rightarrow> hresponse result"
    and hput :: "'i \<Rightarrow> 'h \<Rightarrow> bytes \<Rightarrow> bytes \<Rightarrow> bytes \<Rightarrow> 'h \<times> hresponse result"
    and disk :: "'i \<Rightarrow> 'h \<Rightarrow> string \<Rightarrow> bytes result"
    and stored :: "'h \<Rightarrow> bytes \<rightharpoonup> bytes \<times> bytes"
    and good :: "'i \<Rightarrow> bool"
  assumes hit_true: "hget i h a = Inr res \<Longrightarrow> rErr res = [] \<Longrightarrow> \<not> Miss res \<Longrightarrow> disk i h (DiskPath res) = Inr b \<Longrightarrow>
      stored h a = Some (OutputID res, b)"
    and hit_served: "good i \<Longrightarrow> stored h a = Some (out, b) \<Longrightarrow>
      \<exists>res. hget i h a = Inr res \<and> rErr res = [] \<and> \<not> Miss res \<and> DiskPath res \<noteq> [] \<and> OutputID res = out
        \<and> disk i h (DiskPath res) = Inr b"
    and put_elsewhere: "a' \<noteq> a \<Longrightarrow> stored (fst (hput i h a out b)) a' = stored h a'"
    and put_there: "stored (fst (hput i h a out b)) a \<in> {stored h a, Some (out, b)}"
    and put_stored: "snd (hput i h a out b) = Inr res \<Longrightarrow> rErr res = [] \<Longrightarrow>
      stored (fst (hput i h a out b)) a = Some (out, b)"
    and put_served: "good i \<Longrightarrow> \<exists>res. snd (hput i h a out b) = Inr res \<and> rErr res = []"

text \<open>The bodies the backend can read: those that match their output identifier.\<close>

definition stored_bodies :: "('h \<Rightarrow> bytes \<rightharpoonup> bytes \<times> bytes) \<Rightarrow> 'h \<Rightarrow> bytes \<rightharpoonup> bytes" where
  "stored_bodies stored h a =
     (case stored h a of Some (out, b) \<Rightarrow> if sha256 b = to32 out then Some b else None | None \<Rightarrow> None)"

lemma to32_id [simp]: "length b = 32 \<Longrightarrow> to32 b = b"
  by (simp add: to32_def)

definition known_all :: "string list" where "known_all = [''get'', ''put'', ''close'']"

lemma gcp_Get_hit:
  assumes "hget i h (deriveActionID ns aid) = Inr res" and "rErr res = []" and "\<not> Miss res" and "DiskPath res \<noteq> []"
    and "disk i h (DiskPath res) = Inr b" and "sha256 b = to32 (OutputID res)"
  shows "snd (gcp_Get known_all hget disk i h ns aid) = Inr b"
  using assms by (simp add: gcp_Get_def client_Get_def getWire_def send_result_def validGocacheprogBody_def known_all_def)

sublocale cacheprog_helper < gcp: backend "gcp_Get known_all hget disk" "gcp_Put known_all hput"
    "gcp_Has known_all hget" "stored_bodies stored" deriveActionID good "\<lambda>ns aid. True"
proof
  fix i h ns aid b n k
  let ?a = "deriveActionID ns aid"
  let ?put = "gcp_Put known_all hput i h ns aid b"
  have put: "fst ?put = fst (hput i h ?a (sha256 b) b)"
      "snd ?put = None \<longleftrightarrow> (\<exists>res. snd (hput i h ?a (sha256 b) b) = Inr res \<and> rErr res = [])"
    by (auto simp: gcp_Put_def known_all_def send_result_def split: prod.splits sum.splits if_splits)
  show "stored_bodies stored (fst (gcp_Get known_all hget disk i h ns aid)) (deriveActionID n k)
      = stored_bodies stored h (deriveActionID n k)"
    by (simp add: gcp_Get_def)
  show "stored_bodies stored h ?a = Some b" if "snd (gcp_Get known_all hget disk i h ns aid) = Inr b"
  proof -
    have "gcp_Get known_all hget disk i h ns aid = (fst (gcp_Get known_all hget disk i h ns aid), Inr b)"
      using that by (metis prod.collapse)
    then obtain res where "hget i h ?a = Inr res" "rErr res = []" "\<not> Miss res"
        "disk i h (DiskPath res) = Inr b" "sha256 b = to32 (OutputID res)"
      by (auto simp: gcp_Get_def client_Get_def getWire_def send_result_def validGocacheprogBody_def
        split: sum.splits option.splits if_splits)
    then show ?thesis using hit_true by (simp add: stored_bodies_def)
  qed
  show "snd (gcp_Get known_all hget disk i h ns aid) = Inr b" if g: "good i" and st: "stored_bodies stored h ?a = Some b"
  proof -
    obtain out where "stored h ?a = Some (out, b)" "sha256 b = to32 out"
      using st by (auto simp: stored_bodies_def split: option.splits if_splits)
    then show ?thesis using hit_served [OF g] gcp_Get_hit [of hget i h ns aid _ disk b] by blast
  qed
  show "deriveActionID n k \<noteq> ?a \<Longrightarrow>
      stored_bodies stored (fst ?put) (deriveActionID n k) = stored_bodies stored h (deriveActionID n k)"
    by (simp add: put stored_bodies_def put_elsewhere)
  show "stored_bodies stored (fst ?put) ?a = stored_bodies stored h ?a \<or> stored_bodies stored (fst ?put) ?a = Some b"
    using put_there [of i h ?a "sha256 b" b] by (auto simp: put stored_bodies_def)
  show "snd ?put = None \<Longrightarrow> stored_bodies stored (fst ?put) ?a \<noteq> None"
    using put_stored [of i h ?a "sha256 b" b] unfolding put(2) by (auto simp: put(1) stored_bodies_def)
  show "good i \<Longrightarrow> snd ?put = None" using put_served unfolding put(2) by blast
  show "gcp_Has known_all hget i h ns aid" if g: "good i" and st: "stored_bodies stored h ?a \<noteq> None"
  proof -
    obtain out c where "stored h ?a = Some (out, c)" using st by (auto simp: stored_bodies_def split: option.splits)
    then obtain res where "hget i h ?a = Inr res" "rErr res = []" "\<not> Miss res" using hit_served [OF g] by blast
    then show ?thesis by (simp add: gcp_Has_def client_Stat_def send_result_def known_all_def)
  qed
qed

text \<open>
  A reference helper that keeps its store in memory and fails the requests made under a fault: the
  protocol can be met.
\<close>

definition ref_path :: "bytes \<Rightarrow> string" where
  "ref_path a = ''/d/'' @ hex_encode a"

definition ref_disk :: "string option \<Rightarrow> (bytes \<rightharpoonup> bytes \<times> bytes) \<Rightarrow> string \<Rightarrow> bytes result" where
  "ref_disk i h p =
     (case hex_decode (drop 3 p) of
        None \<Rightarrow> Inl ErrNotExist
      | Some a \<Rightarrow> (case h a of None \<Rightarrow> Inl ErrNotExist | Some (out, b) \<Rightarrow> Inr b))"

definition ref_hget :: "string option \<Rightarrow> (bytes \<rightharpoonup> bytes \<times> bytes) \<Rightarrow> bytes \<Rightarrow> hresponse result" where
  "ref_hget i h a =
     (case i of
        Some e \<Rightarrow> Inl e
      | None \<Rightarrow>
          (case h a of
             None \<Rightarrow> Inr \<lparr>rErr = [], Miss = True, OutputID = [], DiskPath = []\<rparr>
           | Some (out, b) \<Rightarrow> Inr \<lparr>rErr = [], Miss = False, OutputID = out, DiskPath = ref_path a\<rparr>))"

definition ref_hput ::
    "string option \<Rightarrow> (bytes \<rightharpoonup> bytes \<times> bytes) \<Rightarrow> bytes \<Rightarrow> bytes \<Rightarrow> bytes \<Rightarrow> (bytes \<rightharpoonup> bytes \<times> bytes) \<times> hresponse result" where
  "ref_hput i h a out b =
     (case i of
        Some e \<Rightarrow> (h, Inl e)
      | None \<Rightarrow> (h(a \<mapsto> (out, b)), Inr \<lparr>rErr = [], Miss = False, OutputID = [], DiskPath = ref_path a\<rparr>))"

lemma ref_disk_path [simp]: "ref_disk i h (ref_path a) = (case h a of None \<Rightarrow> Inl ErrNotExist | Some (out, b) \<Rightarrow> Inr b)"
  by (simp add: ref_disk_def ref_path_def)

interpretation refh: cacheprog_helper ref_hget ref_hput ref_disk "\<lambda>h. h" "\<lambda>i. i = None"
proof (unfold_locales, goal_cases)
  case (1 i h a res b)
  then show ?case by (auto simp: ref_hget_def split: option.splits)
next
  case (2 i h a out b)
  then show ?case by (auto simp: ref_hget_def ref_path_def [symmetric]) (auto simp: ref_path_def)
qed (auto simp: ref_hput_def split: option.splits)

theorem gcp_Get_verified_witness:
  "\<exists>res. ref_hget None [deriveActionID ''typecheck'' ''k'' \<mapsto> (sha256 ''body'', ''body'')] (deriveActionID ''typecheck'' ''k'') = Inr res
     \<and> rErr res = [] \<and> \<not> Miss res
     \<and> ref_disk None [deriveActionID ''typecheck'' ''k'' \<mapsto> (sha256 ''body'', ''body'')] (DiskPath res) = Inr ''body''
     \<and> sha256 ''body'' = to32 (OutputID res)"
proof -
  let ?h = "[deriveActionID ''typecheck'' ''k'' \<mapsto> (sha256 ''body'', ''body'')]"
  have "snd (gcp_Get known_all ref_hget ref_disk None ?h ''typecheck'' ''k'') = Inr ''body''"
    by (rule refh.gcp.get_complete) (simp_all add: stored_bodies_def)
  then have "gcp_Get known_all ref_hget ref_disk None ?h ''typecheck'' ''k'' = (?h, Inr ''body'')"
    by (simp add: gcp_Get_def)
  then show ?thesis by (rule gcp_Get_verified)
qed

lemma splitCacheProg_Inr: "splitCacheProg s = Inr (p, as) \<longleftrightarrow> splitQuoted s = Inr (p # as)"
  by (auto simp: splitCacheProg_def split: sum.splits list.splits)

lemma splitQuoted_Nil: "splitQuoted [] = Inr []"
  by (subst splitQuoted.simps) simp

lemma backendForTier_helper:
  "backendForTier env tier = ''gocacheprog'' \<longleftrightarrow>
     (if tier \<noteq> [] \<and> env (''PLAID_'' @ ToUpper tier @ ''_CACHE_BACKEND'') \<noteq> []
      then env (''PLAID_'' @ ToUpper tier @ ''_CACHE_BACKEND'') = ''gocacheprog''
      else env ''PLAID_CACHE_BACKEND'' = ''gocacheprog'' \<and> tier \<noteq> TierL1)"
  unfolding backendForTier_def Let_def by (auto simp del: append_Cons append_Nil)

text \<open>
  When a tier talks to a helper process: exactly when the tier's own variable names the helper
  backend, or that variable is unset, the global one names it and the tier is not L1; and the helper
  variable in force tokenises to the program and arguments that are started.
\<close>

theorem selectBackendForTier_helper:
  "selectBackendForTier env root tier = Inr (HelperBackend p as) \<longleftrightarrow>
     (if tier \<noteq> [] \<and> env (''PLAID_'' @ ToUpper tier @ ''_CACHE_BACKEND'') \<noteq> []
      then env (''PLAID_'' @ ToUpper tier @ ''_CACHE_BACKEND'') = ''gocacheprog''
      else env ''PLAID_CACHE_BACKEND'' = ''gocacheprog'' \<and> tier \<noteq> TierL1)
     \<and> splitQuoted (cacheProgForTier env tier) = Inr (p # as)"
proof -
  have "selectBackendForTier env root tier = Inr (HelperBackend p as) \<longleftrightarrow>
      backendForTier env tier = ''gocacheprog'' \<and> splitQuoted (cacheProgForTier env tier) = Inr (p # as)"
    using splitCacheProg_Inr [of "cacheProgForTier env tier" p as] splitQuoted_Nil
    unfolding selectBackendForTier_def Let_def by (auto split: sum.splits)
  then show ?thesis unfolding backendForTier_helper .
qed

end
