(* ===== verification/GocacheClient.thy ===== *)
theory GocacheClient
  imports Gocacheprog
begin

text \<open>
  The multiplexing half of the helper client (\<^verbatim>\<open>internal/cache/gocacheprog/client.go\<close>): many callers
  share one pipe, the read loop routes each response to the caller whose request carries its number,
  and a transport failure wakes every waiting caller.

  A call is a natural number; its channel is a field of the state.  The operations are the critical
  sections of the source; \<open>cstep\<close> interleaves them with arbitrary helper behaviour.  Request numbers
  are \<^verbatim>\<open>int64\<close> in the source and unbounded here: they count requests of one run.
\<close>

datatype chan = NoChan | Open | Holds int hresponse | Closed | WriteFailed string

record client =
  nextID :: int
  inFlight :: "int \<rightharpoonup> nat"
  closing :: bool
  transportEr :: "string option"
  readLoopDone :: bool
  chans :: "nat \<Rightarrow> chan"
  callID :: "nat \<rightharpoonup> int"

text \<open>\<^verbatim>\<open>newOverPipes\<close>: number 0 is reserved for the handshake, which call 0 waits for.\<close>

definition newClient :: client where
  "newClient = \<lparr>nextID = 0, inFlight = [0 \<mapsto> 0], closing = False, transportEr = None, readLoopDone = False,
     chans = (\<lambda>w. NoChan)(0 := Open), callID = [0 \<mapsto> 0]\<rparr>"

definition transportError :: "client \<Rightarrow> string \<Rightarrow> string" where
  "transportError c fallback = (case transportEr c of Some e \<Rightarrow> e | None \<Rightarrow> fallback)"

text \<open>\<^verbatim>\<open>send\<close> up to the write: refuse on a closing client, otherwise take a number and register.\<close>

definition send_register :: "client \<Rightarrow> nat \<Rightarrow> string + client" where
  "send_register c w =
     (if closing c then Inl (transportError c ''gocacheprog: client closed'')
      else Inr (c\<lparr>nextID := nextID c + 1, inFlight := (inFlight c)(nextID c + 1 \<mapsto> w),
                  chans := (chans c)(w := Open), callID := (callID c)(w \<mapsto> nextID c + 1)\<rparr>))"

text \<open>The error path of the write: the caller unregisters and returns the write error.\<close>

definition send_write_failed :: "client \<Rightarrow> nat \<Rightarrow> string \<Rightarrow> client" where
  "send_write_failed c w err =
     c\<lparr>inFlight := (inFlight c)(the (callID c w) := None), chans := (chans c)(w := WriteFailed err)\<rparr>"

text \<open>One turn of \<^verbatim>\<open>readLoop\<close> on a decoded response with number \<open>rid\<close>.\<close>

definition readLoop_deliver :: "client \<Rightarrow> int \<Rightarrow> hresponse \<Rightarrow> client" where
  "readLoop_deliver c rid res =
     (case inFlight c rid of
        None \<Rightarrow> c\<lparr>inFlight := (inFlight c)(rid := None)\<rparr>
      | Some w \<Rightarrow> c\<lparr>inFlight := (inFlight c)(rid := None), chans := (chans c)(w := Holds rid res)\<rparr>)"

definition failPending :: "client \<Rightarrow> string \<Rightarrow> client" where
  "failPending c err =
     c\<lparr>transportEr := (case transportEr c of None \<Rightarrow> Some err | Some e \<Rightarrow> Some e),
       chans := (\<lambda>w. if w \<in> ran (inFlight c) then Closed else chans c w), inFlight := Map.empty\<rparr>"

definition readLoop_fail :: "client \<Rightarrow> string \<Rightarrow> client" where
  "readLoop_fail c err = (failPending c err)\<lparr>readLoopDone := True\<rparr>"

text \<open>What \<^verbatim>\<open>send\<close> returns; \<open>None\<close> while the caller is still waiting.\<close>

definition send_outcome :: "client \<Rightarrow> nat \<Rightarrow> hresponse result option" where
  "send_outcome c w =
     (case chans c w of
        Holds rid res \<Rightarrow> Some (send_result (Inr res))
      | WriteFailed err \<Rightarrow> Some (Inl err)
      | Closed \<Rightarrow> Some (Inl (transportError c ''gocacheprog: helper closed mid-request''))
      | _ \<Rightarrow> None)"

inductive cstep :: "client \<Rightarrow> client \<Rightarrow> bool" where
  c_register: "chans c w = NoChan \<Longrightarrow> send_register c w = Inr c' \<Longrightarrow> cstep c c'"
| c_write_failed: "chans c w = Open \<Longrightarrow> cstep c (send_write_failed c w err)"
| c_deliver: "\<not> readLoopDone c \<Longrightarrow> cstep c (readLoop_deliver c rid res)"
| c_fail: "\<not> readLoopDone c \<Longrightarrow> cstep c (readLoop_fail c err)"
| c_close: "cstep c (c\<lparr>closing := True\<rparr>)"

inductive_cases cstepE: "cstep c c'"


subsection \<open>Invariant\<close>

definition client_inv :: "client \<Rightarrow> bool" where
  "client_inv c \<longleftrightarrow>
     (\<forall>rid w. inFlight c rid = Some w \<longrightarrow> chans c w = Open \<and> callID c w = Some rid)
     \<and> (\<forall>w rid. callID c w = Some rid \<longrightarrow> rid \<le> nextID c)
     \<and> (\<forall>w. callID c w = None \<longleftrightarrow> chans c w = NoChan)
     \<and> (\<forall>w v rid. callID c w = Some rid \<longrightarrow> callID c v = Some rid \<longrightarrow> w = v)
     \<and> (\<forall>w rid res. chans c w = Holds rid res \<longrightarrow> callID c w = Some rid)
     \<and> (\<not> readLoopDone c \<longrightarrow> (\<forall>w. chans c w = Open \<longrightarrow> (\<exists>rid. inFlight c rid = Some w)))"

lemma newClient_inv: "client_inv newClient"
  by (auto simp: client_inv_def newClient_def)

lemma client_invD:
  assumes "client_inv c"
  shows "inFlight c rid = Some w \<Longrightarrow> chans c w = Open \<and> callID c w = Some rid"
    and "callID c w = Some rid \<Longrightarrow> rid \<le> nextID c"
    and "callID c w = None \<longleftrightarrow> chans c w = NoChan"
    and "callID c w = Some rid \<Longrightarrow> callID c v = Some rid \<Longrightarrow> w = v"
    and "chans c w = Holds rid res \<Longrightarrow> callID c w = Some rid"
    and "\<not> readLoopDone c \<Longrightarrow> chans c w = Open \<Longrightarrow> \<exists>rid. inFlight c rid = Some w"
proof -
  note I = assms [unfolded client_inv_def]
  note I1 = I [THEN conjunct1] and I2 = I [THEN conjunct2, THEN conjunct1]
    and I3 = I [THEN conjunct2, THEN conjunct2, THEN conjunct1]
    and I4 = I [THEN conjunct2, THEN conjunct2, THEN conjunct2, THEN conjunct1]
    and I5 = I [THEN conjunct2, THEN conjunct2, THEN conjunct2, THEN conjunct2, THEN conjunct1]
    and I6 = I [THEN conjunct2, THEN conjunct2, THEN conjunct2, THEN conjunct2, THEN conjunct2]
  show "inFlight c rid = Some w \<Longrightarrow> chans c w = Open \<and> callID c w = Some rid" using I1 by simp
  show "callID c w = Some rid \<Longrightarrow> rid \<le> nextID c" using I2 by simp
  show "callID c w = None \<longleftrightarrow> chans c w = NoChan" using I3 by simp
  show "callID c w = Some rid \<Longrightarrow> callID c v = Some rid \<Longrightarrow> w = v" using I4 by metis
  show "chans c w = Holds rid res \<Longrightarrow> callID c w = Some rid" using I5 by simp
  show "\<not> readLoopDone c \<Longrightarrow> chans c w = Open \<Longrightarrow> \<exists>rid. inFlight c rid = Some w" using I6 by simp
qed

lemma client_invI:
  assumes "\<And>rid w. inFlight c rid = Some w \<Longrightarrow> chans c w = Open \<and> callID c w = Some rid"
    and "\<And>w rid. callID c w = Some rid \<Longrightarrow> rid \<le> nextID c"
    and "\<And>w. callID c w = None \<longleftrightarrow> chans c w = NoChan"
    and "\<And>w v rid. callID c w = Some rid \<Longrightarrow> callID c v = Some rid \<Longrightarrow> w = v"
    and "\<And>w rid res. chans c w = Holds rid res \<Longrightarrow> callID c w = Some rid"
    and "\<And>w. \<not> readLoopDone c \<Longrightarrow> chans c w = Open \<Longrightarrow> \<exists>rid. inFlight c rid = Some w"
  shows "client_inv c"
  unfolding client_inv_def using assms by blast

lemma register_inv:
  assumes "client_inv c" and "chans c w = NoChan"
  shows "client_inv (c\<lparr>nextID := nextID c + 1, inFlight := (inFlight c)(nextID c + 1 \<mapsto> w),
      chans := (chans c)(w := Open), callID := (callID c)(w \<mapsto> nextID c + 1)\<rparr>)"
    (is "client_inv ?c")
proof -
  note I = client_invD [OF assms(1)]
  have fresh: "callID c v \<noteq> Some (nextID c + 1)" for v using I(2) [of v "nextID c + 1"] by auto
  have free: "inFlight c rid \<noteq> Some w" for rid using I(1) [of rid w] assms(2) by auto
  have unused: "inFlight c (nextID c + 1) = None" using I(1) [of "nextID c + 1"] fresh by (cases "inFlight c (nextID c + 1)") auto
  show ?thesis
  proof (rule client_invI)
    fix rid v assume "inFlight ?c rid = Some v"
    then show "chans ?c v = Open \<and> callID ?c v = Some rid" using I(1) [of rid v] free by (auto split: if_splits)
  next
    fix v rid assume "callID ?c v = Some rid"
    then show "rid \<le> nextID ?c" using I(2) [of v rid] by (auto split: if_splits)
  next
    fix v show "callID ?c v = None \<longleftrightarrow> chans ?c v = NoChan" using I(3) [of v] by simp
  next
    fix u v rid assume "callID ?c u = Some rid" "callID ?c v = Some rid"
    then show "u = v" using I(4) [of u rid v] fresh by (auto split: if_splits)
  next
    fix v rid res assume "chans ?c v = Holds rid res"
    then show "callID ?c v = Some rid" using I(5) [of v rid res] by (auto split: if_splits)
  next
    fix v assume "\<not> readLoopDone ?c" "chans ?c v = Open"
    then have "v = w \<or> (\<exists>rid. inFlight c rid = Some v)" using I(6) [of v] by (auto split: if_splits)
    moreover have "inFlight ?c (nextID c + 1) = Some w" "inFlight c rid = Some v \<Longrightarrow> inFlight ?c rid = Some v" for rid
      using unused by auto
    ultimately show "\<exists>rid. inFlight ?c rid = Some v" by metis
  qed
qed

lemma finish_inv:
  assumes "client_inv c" and "callID c w = Some r" and "x \<noteq> NoChan" and "x \<noteq> Open"
    and "\<And>q res. x = Holds q res \<Longrightarrow> q = r"
  shows "client_inv (c\<lparr>inFlight := (inFlight c)(r := None), chans := (chans c)(w := x)\<rparr>)" (is "client_inv ?c")
proof -
  note I = client_invD [OF assms(1)]
  have one: "inFlight c q = Some w \<Longrightarrow> q = r" "inFlight c r = Some v \<Longrightarrow> v = w" for q v
    using I(1) [of q w] I(1) [of r v] I(4) [of v r w] assms(2) by simp_all
  show ?thesis
  proof (rule client_invI)
    fix rid v assume "inFlight ?c rid = Some v"
    then show "chans ?c v = Open \<and> callID ?c v = Some rid" using I(1) [of rid v] one by (auto split: if_splits)
  next
    fix v rid assume "callID ?c v = Some rid"
    then show "rid \<le> nextID ?c" using I(2) [of v rid] by simp
  next
    fix v show "callID ?c v = None \<longleftrightarrow> chans ?c v = NoChan" using I(3) [of v] assms(2,3) by auto
  next
    fix u v rid assume "callID ?c u = Some rid" "callID ?c v = Some rid"
    then show "u = v" using I(4) [of u rid v] by simp
  next
    fix v rid res assume "chans ?c v = Holds rid res"
    then show "callID ?c v = Some rid" using I(5) [of v rid res] assms(2,5) by (auto split: if_splits)
  next
    fix v assume "\<not> readLoopDone ?c" "chans ?c v = Open"
    then obtain rid where "inFlight c rid = Some v" "v \<noteq> w" using I(6) [of v] assms(4) by (auto split: if_splits)
    moreover from this have "rid \<noteq> r" using one(2) [of v] by auto
    ultimately show "\<exists>rid. inFlight ?c rid = Some v" by (intro exI [of _ rid]) simp
  qed
qed

lemma client_inv_step: "cstep c c' \<Longrightarrow> client_inv c \<Longrightarrow> client_inv c'"
proof (induction rule: cstep.induct)
  case (c_register c w c')
  then show ?case using register_inv [of c w] by (auto simp: send_register_def split: if_splits)
next
  case (c_write_failed c w err)
  note I = client_invD [OF c_write_failed.prems]
  obtain r where "callID c w = Some r" using I(3) [of w] c_write_failed by (cases "callID c w") auto
  then show ?case using finish_inv [OF c_write_failed.prems, of w r "WriteFailed err"] by (simp add: send_write_failed_def)
next
  case (c_deliver c rid res)
  note I = client_invD [OF c_deliver.prems]
  show ?case
  proof (cases "inFlight c rid")
    case (Some w)
    then show ?thesis
      using I(1) [OF Some] finish_inv [OF c_deliver.prems, of w rid "Holds rid res"] by (simp add: readLoop_deliver_def)
  next
    case None
    then show ?thesis using c_deliver.prems by (simp add: readLoop_deliver_def fun_upd_idem)
  qed
next
  case (c_fail c err)
  note I = client_invD [OF c_fail.prems]
  have woken: "callID c v \<noteq> None" if "v \<in> ran (inFlight c)" for v using that I(1) by (auto simp: ran_def)
  show ?case
    unfolding readLoop_fail_def failPending_def
  proof (rule client_invI, goal_cases)
    case (2 w rid) then show ?case using I(2) by simp
  next
    case (3 w) then show ?case using I(3) [of w] woken [of w] by simp
  next
    case (4 w v rid) then show ?case using I(4) [of w rid v] by simp
  next
    case (5 w rid res) then show ?case using I(5) [of w rid res] by (simp split: if_splits)
  qed simp_all
next
  case (c_close c)
  then show ?case by (simp add: client_inv_def)
qed

lemma client_reachable_inv: "cstep\<^sup>*\<^sup>* newClient c \<Longrightarrow> client_inv c"
  by (induction rule: rtranclp_induct) (auto intro: newClient_inv client_inv_step)


subsection \<open>What callers observe\<close>

text \<open>
  C26. Responses are never mixed up.  In every reachable state request numbers identify calls, and a
  response a caller holds carries the number of that caller's own request, however requests,
  responses, failed writes and transport failures interleave and whatever numbers the helper sends.
\<close>

theorem responses_not_mixed:
  assumes "cstep\<^sup>*\<^sup>* newClient c"
  shows "inj_on (callID c) (dom (callID c)) \<and> (\<forall>w rid res. chans c w = Holds rid res \<longrightarrow> callID c w = Some rid)"
  using client_invD [OF client_reachable_inv [OF assms]] by (auto simp: inj_on_def)

text \<open>
  A transport failure wakes every waiting caller: after the read loop fails, each call registered
  before that point has an outcome, and the outcome of a call that was still waiting is the first
  transport error.
\<close>

theorem failure_wakes_callers:
  assumes "cstep\<^sup>*\<^sup>* newClient c" and "\<not> readLoopDone c" and "chans c w \<noteq> NoChan"
  shows "send_outcome (readLoop_fail c err) w \<noteq> None
     \<and> (chans c w = Open \<longrightarrow> send_outcome (readLoop_fail c err) w = Some (Inl (case transportEr c of Some e \<Rightarrow> e | None \<Rightarrow> err)))"
proof -
  have "w \<in> ran (inFlight c)" if "chans c w = Open"
    using client_invD(6) [OF client_reachable_inv [OF assms(1)] assms(2) that] by (auto simp: ran_def)
  with assms(3) show ?thesis
    by (cases "chans c w")
      (auto simp: send_outcome_def readLoop_fail_def failPending_def transportError_def split: option.splits)
qed

text \<open>The steps of everyone but call \<open>w\<close>, the helper included.\<close>

inductive cstep_other :: "nat \<Rightarrow> client \<Rightarrow> client \<Rightarrow> bool" for w where
  o_register: "v \<noteq> w \<Longrightarrow> chans c v = NoChan \<Longrightarrow> send_register c v = Inr c' \<Longrightarrow> cstep_other w c c'"
| o_write_failed: "v \<noteq> w \<Longrightarrow> cstep_other w c (send_write_failed c v err)"
| o_deliver: "\<not> readLoopDone c \<Longrightarrow> cstep_other w c (readLoop_deliver c rid res)"
| o_fail: "\<not> readLoopDone c \<Longrightarrow> cstep_other w c (readLoop_fail c err)"
| o_close: "cstep_other w c (c\<lparr>closing := True\<rparr>)"

lemma stuck_step:
  "cstep_other w c c' \<Longrightarrow> readLoopDone c \<and> chans c w = Open \<Longrightarrow> readLoopDone c' \<and> chans c' w = Open"
  by (induction rule: cstep_other.induct)
    (auto simp: send_register_def send_write_failed_def split: if_splits)

text \<open>
  A request made after the read loop has ended is never answered.  The client does not refuse it,
  since only closing does, and nothing routes responses any more: from then on the caller waits, unless
  its own write to the pipe fails.  A helper that stays alive after sending one malformed line
  therefore blocks the next cache access for good.
\<close>

theorem late_request_blocks:
  assumes "cstep\<^sup>*\<^sup>* newClient c" and "readLoopDone c" and "\<not> closing c" and "chans c w = NoChan"
  shows "\<exists>c1. send_register c w = Inr c1 \<and> (\<forall>c2. (cstep_other w)\<^sup>*\<^sup>* c1 c2 \<longrightarrow> send_outcome c2 w = None)"
proof -
  obtain c1 where c1: "send_register c w = Inr c1" "readLoopDone c1 \<and> chans c1 w = Open"
    using assms(2,3) by (auto simp: send_register_def)
  have "send_outcome c2 w = None" if "(cstep_other w)\<^sup>*\<^sup>* c1 c2" for c2
  proof -
    from that have "readLoopDone c2 \<and> chans c2 w = Open"
      by (induction rule: rtranclp_induct) (use c1(2) stuck_step in blast)+
    then show ?thesis by (simp add: send_outcome_def)
  qed
  with c1(1) show ?thesis by blast
qed

definition demo_response :: hresponse where
  "demo_response = \<lparr>rErr = [], Miss = True, OutputID = [], DiskPath = []\<rparr>"

lemma demo_failed_client: "cstep\<^sup>*\<^sup>* newClient (readLoop_fail newClient ''bad json'')"
  by (rule r_into_rtranclp, rule c_fail) (simp add: newClient_def)

theorem late_request_blocks_witness:
  "\<exists>c1. send_register (readLoop_fail newClient ''bad json'') 1 = Inr c1
     \<and> (\<forall>c2. (cstep_other 1)\<^sup>*\<^sup>* c1 c2 \<longrightarrow> send_outcome c2 1 = None)"
  by (rule late_request_blocks [OF demo_failed_client])
    (simp_all add: readLoop_fail_def failPending_def newClient_def)

theorem responses_not_mixed_witness:
  "chans (readLoop_deliver newClient 0 demo_response) 0 = Holds 0 demo_response
   \<and> callID (readLoop_deliver newClient 0 demo_response) 0 = Some 0"
proof -
  have "cstep\<^sup>*\<^sup>* newClient (readLoop_deliver newClient 0 demo_response)"
    by (rule r_into_rtranclp, rule c_deliver) (simp add: newClient_def)
  from responses_not_mixed [OF this]
  have "chans (readLoop_deliver newClient 0 demo_response) 0 = Holds 0 demo_response \<longrightarrow>
      callID (readLoop_deliver newClient 0 demo_response) 0 = Some 0" by blast
  moreover have "chans (readLoop_deliver newClient 0 demo_response) 0 = Holds 0 demo_response"
    by (simp add: readLoop_deliver_def newClient_def)
  ultimately show ?thesis by blast
qed

theorem failure_wakes_callers_witness:
  "send_outcome (readLoop_fail newClient ''bad json'') 0 = Some (Inl ''bad json'')"
  using failure_wakes_callers [of newClient 0 "''bad json''"] by (simp add: newClient_def)

end
