(* ===== verification/CacheDir.thy ===== *)
theory CacheDir
  imports Backend
begin

text \<open>
  The cache directory (\<^verbatim>\<open>internal/cache/cache.go\<close>): where it is, the version stamp that empties it,
  and the garbage collector.  Times are nanoseconds.  The lifecycle around them (the background
  goroutine, \<^verbatim>\<open>Close\<close>) is not modelled: a collection is a call of \<open>GC\<close> at some later time.
\<close>

definition CacheVersion :: string where "CacheVersion = ''3''"
definition GCInterval :: int where "GCInterval = 6 * 3600 * 10 ^ 9"
definition DefaultGCThreshold :: int where "DefaultGCThreshold = 30 * 24 * 3600 * 10 ^ 9"
definition lastGCMarker :: string where "lastGCMarker = ''.last-gc''"

definition nsL2 :: string where "nsL2 = ''typecheck''"
definition nsL1Prefix :: string where "nsL1Prefix = ''analyzer''"

definition l1Namespace :: "string \<Rightarrow> string" where
  "l1Namespace analyzer = nsL1Prefix @ ''/'' @ analyzer"

text \<open>\<open>userCache\<close> is the result of \<^verbatim>\<open>os.UserCacheDir\<close>, \<open>temp\<close> that of \<^verbatim>\<open>os.TempDir\<close>.\<close>

definition DefaultRoot :: "(string \<Rightarrow> string) \<Rightarrow> string option \<Rightarrow> string \<Rightarrow> string" where
  "DefaultRoot env userCache temp =
     (if env ''PLAID_CACHE_DIR'' \<noteq> [] then env ''PLAID_CACHE_DIR''
      else if env ''GOLANGCI_LINT_CACHE'' \<noteq> [] then env ''GOLANGCI_LINT_CACHE''
      else if env ''XDG_CACHE_HOME'' \<noteq> [] then Join [env ''XDG_CACHE_HOME'', ''plaid-lint'']
      else case userCache of
             Some home \<Rightarrow> Join [home, ''plaid-lint'']
           | None \<Rightarrow> Join [temp, ''plaid-lint-cache''])"

definition l2Path :: "string \<Rightarrow> actionID \<Rightarrow> string" where
  "l2Path root aid = (let hex = Hex aid in Join [root, ''typecheck'', take 2 hex, hex])"

definition l1Path :: "string \<Rightarrow> string \<Rightarrow> actionID \<Rightarrow> string" where
  "l1Path root analyzer aid = (let hex = Hex aid in Join [root, ''analyzer'', analyzer, take 2 hex, hex])"

definition shouldRunGC :: "(string \<Rightarrow> string) \<Rightarrow> io \<Rightarrow> filesys \<Rightarrow> string \<Rightarrow> bool" where
  "shouldRunGC env i fs root =
     (if env ''PLAID_DISABLE_GC'' = ''1'' then False
      else if env ''PLAID_FORCE_GC'' = ''1'' then True
      else if stat_err i \<noteq> None then True
      else case fs (Join [root, lastGCMarker]) of
             None \<Rightarrow> True
           | Some (d, t) \<Rightarrow> GCInterval < now i - t)"

definition stampLastGC :: "io \<Rightarrow> filesys \<Rightarrow> string \<Rightarrow> filesys" where
  "stampLastGC i fs root =
     (let path = Join [root, lastGCMarker] in
      case fs path of
        Some (d, t) \<Rightarrow>
          if chtimes_err i = None then fs(path \<mapsto> (d, now i))
          else if write_err i = None then fs(path \<mapsto> ([], now i)) else fs
      | None \<Rightarrow> if write_err i = None then fs(path \<mapsto> ([], now i)) else fs)"

definition Touch :: "io \<Rightarrow> filesys \<Rightarrow> string \<Rightarrow> filesys" where
  "Touch i fs path = os_chtimes i fs path"

definition in_tree :: "string \<Rightarrow> string \<Rightarrow> bool" where
  "in_tree d p \<longleftrightarrow> HasPrefix p (d @ ''/'')"

definition entry_trees :: "string \<Rightarrow> string list" where
  "entry_trees root = [Join [root, ''typecheck''], Join [root, ''analyzer'']]"

definition purgeEntries :: "io \<Rightarrow> filesys \<Rightarrow> string \<Rightarrow> filesys \<times> string option" where
  "purgeEntries i fs root =
     (case remove_err i of
        Some e \<Rightarrow> (fs, Some (''remove typecheck: '' @ e))
      | None \<Rightarrow>
          (case mkdir_err i of
             Some e \<Rightarrow> (\<lambda>p. if in_tree (Join [root, ''typecheck'']) p then None else fs p, Some (''recreate typecheck: '' @ e))
           | None \<Rightarrow> (\<lambda>p. if list_ex (\<lambda>d. in_tree d p) (entry_trees root) then None else fs p, None)))"

definition version_path :: "string \<Rightarrow> string" where
  "version_path root = Join [root, ''meta'', ''cache-version'']"

definition trim_newlines :: "bytes \<Rightarrow> bytes" where
  "trim_newlines b = rev (dropWhile (\<lambda>c. c = CHR 0x0A) (rev b))"

definition stamp_version :: "io \<Rightarrow> filesys \<Rightarrow> string \<Rightarrow> filesys \<times> string option" where
  "stamp_version i fs root =
     (case writeFileAtomic i fs (version_path root) (CacheVersion @ [CHR 0x0A]) of
        (fs', Some e) \<Rightarrow> (fs', Some (''plaid-lint cache: write cache-version: '' @ e))
      | (fs', None) \<Rightarrow> (fs', None))"

definition init :: "io \<Rightarrow> filesys \<Rightarrow> string \<Rightarrow> filesys \<times> string option" where
  "init i fs root =
     (case mkdir_err i of
        Some e \<Rightarrow> (fs, Some (''plaid-lint cache: mkdir typecheck: '' @ e))
      | None \<Rightarrow>
          (case os_readfile i fs (version_path root) of
             Inl e \<Rightarrow>
               if fs (version_path root) = None then stamp_version i fs root
               else (fs, Some (''plaid-lint cache: read cache-version: '' @ e))
           | Inr existing \<Rightarrow>
               if trim_newlines existing = CacheVersion then (fs, None)
               else (case purgeEntries i fs root of
                       (fs1, Some e) \<Rightarrow> (fs1, Some (''plaid-lint cache: purge on version bump: '' @ e))
                     | (fs1, None) \<Rightarrow>
                         (case os_remove i fs1 (version_path root) of
                            (fs2, Some e) \<Rightarrow>
                              if e \<noteq> ErrNotExist then (fs2, Some (''plaid-lint cache: remove stale cache-version: '' @ e))
                              else stamp_version i fs2 root
                          | (fs2, None) \<Rightarrow> stamp_version i fs2 root))))"

text \<open>The paths the collector could not remove stand for the joined errors.\<close>

definition gc_old :: "io \<Rightarrow> int \<Rightarrow> filesys \<Rightarrow> string \<Rightarrow> string \<Rightarrow> bool" where
  "gc_old i threshold fs root p \<longleftrightarrow>
     list_ex (\<lambda>d. in_tree d p) (entry_trees root)
     \<and> (case fs p of None \<Rightarrow> False | Some (d, t) \<Rightarrow> t < now i - threshold)"

definition GC :: "io \<Rightarrow> filesys \<Rightarrow> string \<Rightarrow> int \<Rightarrow> filesys" where
  "GC i fs root threshold = (\<lambda>p. if gc_old i threshold fs root p \<and> remove_err i = None then None else fs p)"


subsection \<open>Facts on the version stamp\<close>

lemma trim_version [simp]: "trim_newlines (CacheVersion @ [CHR 0x0A]) = CacheVersion"
  by (simp add: trim_newlines_def CacheVersion_def)

text \<open>Paths of the cache, in terms of the cleaned root.\<close>

definition root_prefix :: "string \<Rightarrow> string list \<Rightarrow> string" where
  "root_prefix root ws = (if IsAbs root then ''/'' else []) @ join_with ''/'' (clean_segs root @ ws)"

lemma Join_root:
  assumes "root \<noteq> []" and "list_all plain_seg ws" and "ws \<noteq> []"
  shows "Join (root # ws) = root_prefix root ws"
  using assms Clean_join [OF assms] by (cases ws) (simp_all add: Join_def root_prefix_def)

lemma join_with_append:
  "xs \<noteq> [] \<Longrightarrow> ys \<noteq> [] \<Longrightarrow> join_with sep (xs @ ys) = join_with sep xs @ sep @ join_with sep ys"
  by (induction sep xs rule: join_with.induct) (cases ys; auto)+

lemma in_tree_root_prefix:
  assumes "ws \<noteq> []" and "vs \<noteq> []"
  shows "in_tree (root_prefix root ws) (root_prefix root (ws @ vs))"
  using assms join_with_append [of "clean_segs root @ ws" vs "''/''"]
  by (simp add: in_tree_def root_prefix_def HasPrefix_def)

lemma split_root_prefix:
  assumes "list_all plain_seg ws" and "ws \<noteq> []"
  shows "split_on (CHR ''/'') (root_prefix root ws) = (if IsAbs root then [[]] else []) @ clean_segs root @ ws"
proof -
  have "split_on (CHR ''/'') (join_with ''/'' (clean_segs root @ ws)) = clean_segs root @ ws"
  proof (rule split_join_with)
    have "\<forall>w \<in> set ws. CHR ''/'' \<notin> set w" using assms(1) unfolding list_all_iff plain_seg_def by blast
    then show "\<forall>w \<in> set (clean_segs root @ ws). CHR ''/'' \<notin> set w"
      unfolding set_append using clean_segs_no_slash by blast
  qed (use assms(2) in simp)
  then show ?thesis by (simp add: root_prefix_def)
qed

lemma in_tree_same:
  assumes "in_tree (root_prefix root [a]) (root_prefix root (b # vs))" and "list_all plain_seg (a # b # vs)"
  shows "a = b"
proof -
  obtain s where s: "root_prefix root (b # vs) = root_prefix root [a] @ CHR ''/'' # s"
    using assms(1) by (auto simp: in_tree_def HasPrefix_iff_prefix prefix_def)
  have "split_on (CHR ''/'') (root_prefix root (b # vs)) = split_on (CHR ''/'') (root_prefix root [a]) @ split_on (CHR ''/'') s"
    unfolding s by (rule split_on_append_sep)
  then show ?thesis using assms(2) by (simp add: split_root_prefix)
qed

lemma version_path_prefix:
  "root \<noteq> [] \<Longrightarrow> version_path root @ s = root_prefix root [''meta'', ''cache-version'' @ s]"
  using Join_root [of root "[''meta'', ''cache-version'']"] join_with_append [of "clean_segs root @ [''meta'']" "[''cache-version'']" "''/''"]
    join_with_append [of "clean_segs root @ [''meta'']" "[''cache-version'' @ s]" "''/''"]
  by (simp add: version_path_def plain_seg_def root_prefix_def)

lemma entry_trees_eq: "root \<noteq> [] \<Longrightarrow> entry_trees root = [root_prefix root [''typecheck''], root_prefix root [''analyzer'']]"
  by (simp add: entry_trees_def Join_root plain_seg_def)

lemma version_not_in_tree:
  assumes "root \<noteq> []" and "CHR ''/'' \<notin> set s"
  shows "\<not> list_ex (\<lambda>d. in_tree d (version_path root @ s)) (entry_trees root)"
  using in_tree_same [of root "''typecheck''" "''meta''" "[''cache-version'' @ s]"]
    in_tree_same [of root "''analyzer''" "''meta''" "[''cache-version'' @ s]"] assms
  unfolding version_path_prefix [OF assms(1)] entry_trees_eq [OF assms(1)] by (auto simp: plain_seg_def)

lemma stamp_version_ok:
  assumes "stamp_version i fs root = (fs', None)"
  shows "fs' (version_path root) = (if fs (version_path root) = None then Some (CacheVersion @ [CHR 0x0A], now i) else fs (version_path root))"
    and "p \<noteq> version_path root \<Longrightarrow> p \<noteq> tmp_of i (version_path root) \<Longrightarrow> fs' p = fs p"
proof -
  let ?w = "writeFileAtomic i fs (version_path root) (CacheVersion @ [CHR 0x0A])"
  have w: "snd ?w = None" "fs' = fst ?w"
    using assms by (auto simp: stamp_version_def split: prod.splits option.splits)
  then show "fs' (version_path root) = (if fs (version_path root) = None then Some (CacheVersion @ [CHR 0x0A], now i) else fs (version_path root))"
    using writeFileAtomic_ok by metis
  show "p \<noteq> version_path root \<Longrightarrow> p \<noteq> tmp_of i (version_path root) \<Longrightarrow> fs' p = fs p"
    unfolding w(2) by (rule writeFileAtomic_other)
qed

lemma in_tree_not_stamp:
  assumes "root \<noteq> []" and "list_ex (\<lambda>d. in_tree d p) (entry_trees root)"
  shows "p \<noteq> version_path root" and "p \<noteq> tmp_of i (version_path root)"
proof -
  have h: "CHR ''/'' \<notin> set (''.tmp.'' @ hex_encode (rnd i))" using hex_encode_chars by auto
  show "p \<noteq> version_path root" using version_not_in_tree [OF assms(1), of "[]"] assms(2) by auto
  show "p \<noteq> tmp_of i (version_path root)"
    using version_not_in_tree [OF assms(1) h] assms(2) unfolding tmp_of_def by blast
qed

lemma stamp_version_other:
  "p \<noteq> version_path root \<Longrightarrow> p \<noteq> tmp_of i (version_path root) \<Longrightarrow> fst (stamp_version i fs root) p = fs p"
  using writeFileAtomic_other [of p "version_path root" i fs]
  by (simp add: stamp_version_def split: prod.splits option.splits) (metis fst_conv)

lemma init_other:
  assumes "p \<noteq> version_path root" and "p \<noteq> tmp_of i (version_path root)"
  shows "fst (init i fs root) p = fs p \<or> fst (init i fs root) p = None"
  using assms(1) stamp_version_other [OF assms]
  by (auto simp: init_def purgeEntries_def os_remove_def split: option.splits sum.splits if_splits)

lemma init_subset:
  assumes "root \<noteq> []" and "list_ex (\<lambda>d. in_tree d p) (entry_trees root)"
  shows "fst (init i fs root) p = fs p \<or> fst (init i fs root) p = None"
  by (rule init_other) (rule in_tree_not_stamp [OF assms])+

lemma init_stale:
  assumes "init i fs root = (fs', None)" and "fs (version_path root) = Some (d, t)" and "trim_newlines d \<noteq> CacheVersion"
    and "root \<noteq> []"
  obtains fs2 where "stamp_version i fs2 root = (fs', None)" and "fs2 (version_path root) = None"
    and "\<And>p. list_ex (\<lambda>d. in_tree d p) (entry_trees root) \<Longrightarrow> fs2 p = None"
proof -
  let ?v = "version_path root"
  have errs: "mkdir_err i = None" "read_err i = None" "remove_err i = None"
    using assms(1-3) by (auto simp: init_def os_readfile_def purgeEntries_def split: option.splits sum.splits if_splits)
  define fs1 where "fs1 = (\<lambda>p. if list_ex (\<lambda>d. in_tree d p) (entry_trees root) then None else fs p)"
  have v1: "fs1 ?v = Some (d, t)" using version_not_in_tree [OF assms(4), of "[]"] assms(2) by (simp add: fs1_def)
  have "stamp_version i (fs1(?v := None)) root = (fs', None)"
    using assms(1-3) errs v1 by (simp add: init_def os_readfile_def purgeEntries_def os_remove_def fs1_def [symmetric])
  then show thesis
    by (rule that) (auto simp: fs1_def dest: in_tree_not_stamp(1) [OF assms(4)])
qed

text \<open>
  Opening a cache leaves it at the current version, and the entry trees hold exactly what they held
  before, unless a version stamp was there and named another version: then they are empty.
\<close>

theorem init_version:
  assumes "root \<noteq> []" and "init i fs root = (fs', None)"
  shows "(\<exists>d t. fs' (version_path root) = Some (d, t) \<and> trim_newlines d = CacheVersion)
     \<and> (\<forall>p. list_ex (\<lambda>d. in_tree d p) (entry_trees root) \<longrightarrow>
          fs' p = (case fs (version_path root) of
                     Some (d, t) \<Rightarrow> if trim_newlines d = CacheVersion then fs p else None
                   | None \<Rightarrow> fs p))"
proof (cases "fs (version_path root)")
  case None
  then have s: "stamp_version i fs root = (fs', None)"
    using assms(2) by (auto simp: init_def os_readfile_def split: option.splits)
  show ?thesis
    using stamp_version_ok [OF s] None in_tree_not_stamp [OF assms(1)] by simp
next
  case (Some x)
  obtain d t where x: "x = (d, t)" by (cases x)
  show ?thesis
  proof (cases "trim_newlines d = CacheVersion")
    case True
    then have "fs' = fs" using assms(2) Some x by (auto simp: init_def os_readfile_def split: option.splits)
    with True Some x show ?thesis by simp
  next
    case False
    obtain fs2 where s: "stamp_version i fs2 root = (fs', None)" and v: "fs2 (version_path root) = None"
      and e: "\<And>p. list_ex (\<lambda>d. in_tree d p) (entry_trees root) \<Longrightarrow> fs2 p = None"
      using init_stale [OF assms(2) _ False assms(1)] Some x by metis
    show ?thesis
      using stamp_version_ok [OF s] v e in_tree_not_stamp [OF assms(1)] False Some x by simp
  qed
qed

theorem init_version_witness:
  "let fs = [version_path ''/c'' \<mapsto> (''2'', 0), l2Path ''/c'' (replicate 32 (CHR ''a'')) \<mapsto> (''old'', 0)];
       fs' = fst (init quiet_io fs ''/c'')
   in fs' (version_path ''/c'') \<noteq> None \<and> fs' (l2Path ''/c'' (replicate 32 (CHR ''a''))) = None"
proof -
  let ?e = "l2Path ''/c'' (replicate 32 (CHR ''a''))"
  let ?fs = "[version_path ''/c'' \<mapsto> (''2'', 0), ?e \<mapsto> (''old'', 0)]"
  have ne: "?e \<noteq> version_path ''/c''" by code_simp
  have "in_tree (Join [''/c'', ''typecheck'']) ?e" by code_simp
  then have t: "list_ex (\<lambda>d. in_tree d ?e) (entry_trees ''/c'')" by (simp add: entry_trees_def)
  have v: "?fs (version_path ''/c'') = Some (''2'', 0)" using ne by simp
  have st: "trim_newlines ''2'' \<noteq> CacheVersion" by code_simp
  have "snd (init quiet_io ?fs ''/c'') = None"
    unfolding init_def os_readfile_def v using st
    by (simp add: quiet_io_def purgeEntries_def os_remove_def stamp_version_def writeFileAtomic_healthy [of quiet_io, unfolded quiet_io_def]
        healthy_def split: option.splits)
  then have "init quiet_io ?fs ''/c'' = (fst (init quiet_io ?fs ''/c''), None)" by (metis prod.collapse)
  from init_version [OF _ this] t v st show ?thesis by (auto simp: Let_def)
qed



subsection \<open>Facts on the collector\<close>

lemma entryPath_prefix:
  assumes "root \<noteq> []" and "ns_ok ns" and "length aid = 32"
  shows "entryPath root ns aid = root_prefix root (split_on (CHR ''/'') ns @ [take 2 (Hex aid), Hex aid])"
proof -
  have "join_with [CHR ''/''] (split_on (CHR ''/'') (entryPath root ns aid)) = entryPath root ns aid" by (rule join_split_on)
  then show ?thesis
    using split_entryPath [OF assms] join_with_append [of "[[]]" "clean_segs root @ split_on (CHR ''/'') ns @ [take 2 (Hex aid), Hex aid]" "''/''"]
    by (auto simp: root_prefix_def split: if_splits)
qed

definition entry_ns :: "string \<Rightarrow> bool" where
  "entry_ns ns \<longleftrightarrow> ns = nsL2 \<or> (\<exists>a. plain_seg a \<and> ns = l1Namespace a)"

lemma entry_ns_ok: "entry_ns ns \<Longrightarrow> ns_ok ns"
  using split_on_append_sep [of "CHR ''/''" nsL1Prefix]
  by (auto simp: entry_ns_def ns_ok_def nsL2_def nsL1Prefix_def l1Namespace_def plain_seg_def split_on_id)

lemma entry_in_tree:
  assumes "root \<noteq> []" and "entry_ns ns" and "length aid = 32"
  shows "list_ex (\<lambda>d. in_tree d (entryPath root ns aid)) (entry_trees root)"
proof -
  have p: "entryPath root ns aid = root_prefix root (split_on (CHR ''/'') ns @ [take 2 (Hex aid), Hex aid])"
    using assms entry_ns_ok by (intro entryPath_prefix)
  have "split_on (CHR ''/'') ns = [''typecheck''] \<or> (\<exists>a. split_on (CHR ''/'') ns = [''analyzer''] @ [a])"
    using assms(2) split_on_append_sep [of "CHR ''/''" nsL1Prefix]
    by (auto simp: entry_ns_def nsL2_def nsL1Prefix_def l1Namespace_def plain_seg_def split_on_id)
  then show ?thesis
    unfolding p entry_trees_eq [OF assms(1)]
    using in_tree_root_prefix [of "[''typecheck'']" "[take 2 (Hex aid), Hex aid]" root]
      in_tree_root_prefix [of "[''analyzer'']" "[_, take 2 (Hex aid), Hex aid]" root]
    by auto
qed

text \<open>
  The collector removes an entry exactly when it is older than the threshold, and touches nothing
  outside the entry trees: the version stamp survives.
\<close>

theorem GC_exact:
  assumes "root \<noteq> []" and "entry_ns ns" and "length aid = 32" and "remove_err i = None"
  shows "file_bodies (GC i fs root threshold) (entryPath root ns aid) =
      (case fs (entryPath root ns aid) of
         None \<Rightarrow> None
       | Some (d, t) \<Rightarrow> if threshold < now i - t then None else Some d)
    \<and> GC i fs root threshold (version_path root) = fs (version_path root)"
  using entry_in_tree [OF assms(1-3)] assms(4) version_not_in_tree [OF assms(1), of "[]"]
  by (auto simp: file_bodies_def GC_def gc_old_def split: option.splits)

theorem GC_exact_witness:
  "file_bodies (GC quiet_io [entryPath ''/c'' nsL2 (replicate 32 (CHR ''a'')) \<mapsto> (''x'', 0)] ''/c'' 6)
     (entryPath ''/c'' nsL2 (replicate 32 (CHR ''a''))) = None"
proof -
  have "entry_ns nsL2" by (simp add: entry_ns_def)
  from GC_exact [OF _ this, of "''/c''" "replicate 32 (CHR ''a'')" quiet_io _ 6] show ?thesis
    by (simp add: quiet_io_def)
qed

text \<open>
  A hit keeps an entry alive: an entry that is read survives every collection that runs no later
  than the threshold after the read, and still reads back the same body.
\<close>

theorem hit_survives_GC:
  assumes "root \<noteq> []" and "entry_ns ns" and "length aid = 32"
    and "local_Get root i fs ns aid = (fs1, Inr b)" and "chtimes_err i = None"
    and "now j - now i \<le> threshold" and "healthy k"
  shows "snd (local_Get root k (GC j fs1 root threshold) ns aid) = Inr b"
proof -
  let ?p = "entryPath root ns aid"
  have f: "fs1 ?p = Some (b, now i)"
    using assms(4,5) by (auto simp: local_Get_def os_readfile_def os_chtimes_def Let_def split: option.splits sum.splits)
  have "GC j fs1 root threshold ?p = fs1 ?p"
    using f assms(6) by (simp add: GC_def gc_old_def)
  with f assms(7) show ?thesis by (simp add: local_Get_def os_readfile_def healthy_def Let_def)
qed

theorem hit_survives_GC_witness:
  "snd (local_Get ''/c'' quiet_io (GC (quiet_io\<lparr>now := 10\<rparr>)
     (fst (local_Get ''/c'' quiet_io [entryPath ''/c'' nsL2 (replicate 32 (CHR ''a'')) \<mapsto> (''x'', 0)] nsL2 (replicate 32 (CHR ''a''))))
     ''/c'' 5) nsL2 (replicate 32 (CHR ''a''))) = Inr ''x''"
  by (rule hit_survives_GC [where i = quiet_io and fs = "[entryPath ''/c'' nsL2 (replicate 32 (CHR ''a'')) \<mapsto> (''x'', 0)]"])
    (simp_all add: entry_ns_def local_Get_def os_readfile_def Let_def quiet_io_def healthy_def)

text \<open>The two path helpers of the cache name the files the backend uses.\<close>

lemma l2Path_entryPath: "l2Path root aid = entryPath root nsL2 aid"
  by (simp add: l2Path_def entryPath_def nsL2_def)

lemma l1Path_entryPath: "root \<noteq> [] \<Longrightarrow> l1Path root a aid = entryPath root (l1Namespace a) aid"
  by (simp add: l1Path_def entryPath_def l1Namespace_def nsL1Prefix_def Join_def Let_def)

end
