(* ===== verification/L2Cache.thy ===== *)
theory L2Cache
  imports CacheDir Gocacheprog
begin

text \<open>
  The type-check cache (\<^verbatim>\<open>internal/cache/l2.go\<close>, with \<^verbatim>\<open>fillDigest\<close>, \<^verbatim>\<open>nonNil\<close> and \<^verbatim>\<open>emptyToNil\<close> of
  \<^verbatim>\<open>l1.go\<close>): the entry, its encoding, its key, and the operations on any backend.  A nil byte slice
  and an empty one are both the empty list, which is what \<^verbatim>\<open>nonNil\<close> and \<^verbatim>\<open>emptyToNil\<close> arrange on disk.

  Clients of the backend are proved once, in the context of the locale \<open>backend\<close>, and hold for both
  implementations by its interpretations.
\<close>

record L2Entry =
  PackageID :: string
  GoVersion :: string
  BuildEnv :: string
  InputDigest :: bytes
  DepTypeDigest :: bytes
  ToolVersion :: string
  ExportData :: bytes
  FactsBlob :: bytes
  FileSetSnapshot :: bytes

definition fillDigest :: "bytes \<Rightarrow> string \<Rightarrow> bytes result" where
  "fillDigest src name =
     (if length src \<noteq> 32 then Inl (name @ '': want 32 bytes, got '' @ itoa (int (length src))) else Inr src)"

definition l2_sections :: "L2Entry \<Rightarrow> bytes list" where
  "l2_sections e =
     [PackageID e, GoVersion e, BuildEnv e, InputDigest e, DepTypeDigest e, ToolVersion e,
      ExportData e, FactsBlob e, FileSetSnapshot e]"

definition L2Entry_Encode :: "L2Entry \<Rightarrow> bytes" where
  "L2Entry_Encode e = writeEnvelope kindL2 (l2_sections e)"

definition DecodeL2 :: "bytes \<Rightarrow> L2Entry result" where
  "DecodeL2 b =
     (case readEnvelope b kindL2 of
        Inl e \<Rightarrow> Inl e
      | Inr secs \<Rightarrow>
          if length secs \<noteq> 9 then Inl (''L2 envelope: want 9 sections, got '' @ itoa (int (length secs)))
          else case fillDigest (secs ! 3) ''InputDigest'' of
                 Inl e \<Rightarrow> Inl e
               | Inr inp \<Rightarrow>
                   (case fillDigest (secs ! 4) ''DepTypeDigest'' of
                      Inl e \<Rightarrow> Inl e
                    | Inr dep \<Rightarrow>
                        Inr \<lparr>PackageID = secs ! 0, GoVersion = secs ! 1, BuildEnv = secs ! 2,
                             InputDigest = inp, DepTypeDigest = dep, ToolVersion = secs ! 5,
                             ExportData = secs ! 6, FactsBlob = secs ! 7, FileSetSnapshot = secs ! 8\<rparr>))"

definition ComputeL2ActionID :: "L2Entry \<Rightarrow> actionID" where
  "ComputeL2ActionID e =
     NewActionID [PackageID e, GoVersion e, BuildEnv e, InputDigest e, DepTypeDigest e, ToolVersion e]"

text \<open>The operations take the backend's \<open>Get\<close>, \<open>Put\<close> or \<open>Has\<close>.\<close>

definition WriteL2 ::
    "('s \<Rightarrow> string \<Rightarrow> actionID \<Rightarrow> bytes \<Rightarrow> 's \<times> string option) \<Rightarrow> 's \<Rightarrow> L2Entry \<Rightarrow> actionID \<Rightarrow> 's \<times> string option" where
  "WriteL2 put s e aid = put s nsL2 aid (L2Entry_Encode e)"

definition ReadL2 ::
    "('s \<Rightarrow> string \<Rightarrow> actionID \<Rightarrow> 's \<times> bytes result) \<Rightarrow> 's \<Rightarrow> actionID \<Rightarrow> 's \<times> L2Entry result" where
  "ReadL2 get s aid =
     (case get s nsL2 aid of (s', Inl e) \<Rightarrow> (s', Inl e) | (s', Inr data) \<Rightarrow> (s', DecodeL2 data))"

definition HasL2 :: "('s \<Rightarrow> string \<Rightarrow> actionID \<Rightarrow> bool) \<Rightarrow> 's \<Rightarrow> actionID \<Rightarrow> bool" where
  "HasL2 has s aid = has s nsL2 aid"


subsection \<open>Facts\<close>

definition L2_ok :: "L2Entry \<Rightarrow> bool" where
  "L2_ok e \<longleftrightarrow> length (InputDigest e) = 32 \<and> length (DepTypeDigest e) = 32 \<and> list_all section_ok (l2_sections e)"

lemma decode_encode_L2: "L2_ok e \<Longrightarrow> DecodeL2 (L2Entry_Encode e @ junk) = Inr e"
proof -
  assume ok: "L2_ok e"
  then have "readEnvelope (L2Entry_Encode e @ junk) kindL2 = Inr (l2_sections e)"
    unfolding L2Entry_Encode_def
    by (intro readEnvelope_write) (simp add: L2_ok_def sections_ok_def max_sections_def l2_sections_def)
  with ok show ?thesis by (simp add: DecodeL2_def l2_sections_def fillDigest_def L2_ok_def)
qed

lemma DecodeL2_sound:
  assumes "DecodeL2 b = Inr e"
  shows "L2_ok e \<and> (\<exists>junk. b = L2Entry_Encode e @ junk)"
proof -
  obtain secs where r: "readEnvelope b kindL2 = Inr secs" and l: "length secs = 9"
      "length (secs ! 3) = 32" "length (secs ! 4) = 32"
    and e: "e = \<lparr>PackageID = secs ! 0, GoVersion = secs ! 1, BuildEnv = secs ! 2, InputDigest = secs ! 3,
      DepTypeDigest = secs ! 4, ToolVersion = secs ! 5, ExportData = secs ! 6, FactsBlob = secs ! 7, FileSetSnapshot = secs ! 8\<rparr>"
    using assms by (auto simp: DecodeL2_def fillDigest_def split: sum.splits if_splits)
  have "map ((!) secs) [0..<9] = secs" using l(1) map_nth [of secs] by simp
  then have "l2_sections e = secs" by (simp add: e l2_sections_def upt_rec eval_nat_numeral)
  with readEnvelope_sound [OF r] l show ?thesis by (auto simp: L2_ok_def L2Entry_Encode_def sections_ok_def e)
qed

text \<open>
  Type-check entries: decoding returns the entry \<open>e\<close> exactly on the byte strings that begin with the
  encoding of \<open>e\<close>, for entries whose digests have 32 bytes and whose fields are within the envelope's
  limit.  So encoding loses nothing, and no other blob decodes.
\<close>

theorem L2_codec_exact:
  "DecodeL2 b = Inr e \<longleftrightarrow> L2_ok e \<and> (\<exists>junk. b = L2Entry_Encode e @ junk)"
  using DecodeL2_sound decode_encode_L2 by blast

text \<open>The part of an entry its key is computed from.\<close>

definition L2_inputs :: "L2Entry \<Rightarrow> bytes list" where
  "L2_inputs e = [PackageID e, GoVersion e, BuildEnv e, InputDigest e, DepTypeDigest e, ToolVersion e]"

text \<open>
  The key of a type-check entry determines its inputs: entries with the same key agree on package,
  Go version, build environment, both digests and tool version, or the two hashed byte strings are an
  explicit SHA-256 collision.
\<close>

theorem L2_key_determines_inputs:
  assumes "list_all go_len (L2_inputs e)" and "list_all go_len (L2_inputs e')"
    and "ComputeL2ActionID e = ComputeL2ActionID e'"
  shows "L2_inputs e = L2_inputs e' \<or> collision sha256 (frames (L2_inputs e)) (frames (L2_inputs e'))"
  by (rule actionid.same_key) (use assms in \<open>simp_all add: ComputeL2ActionID_def L2_inputs_def\<close>)

definition demo_L2 :: L2Entry where
  "demo_L2 = \<lparr>PackageID = ''p'', GoVersion = ''go1.26'', BuildEnv = ''linux'', InputDigest = replicate 32 (CHR ''i''),
     DepTypeDigest = replicate 32 (CHR ''d''), ToolVersion = ''1'', ExportData = ''x'', FactsBlob = [], FileSetSnapshot = []\<rparr>"

lemma demo_L2_ok: "L2_ok demo_L2"
  by (simp add: L2_ok_def demo_L2_def l2_sections_def section_ok_def max_section_bytes_def)

theorem L2_key_determines_inputs_witness:
  "L2_inputs demo_L2 = L2_inputs (demo_L2\<lparr>ExportData := ''y''\<rparr>)
   \<or> collision sha256 (frames (L2_inputs demo_L2)) (frames (L2_inputs (demo_L2\<lparr>ExportData := ''y''\<rparr>)))"
  by (rule L2_key_determines_inputs) (simp_all add: L2_inputs_def demo_L2_def go_len_def ComputeL2ActionID_def)



subsection \<open>L2 as a tier\<close>

text \<open>
  The outputs of a type check are a function \<open>compute\<close> of its inputs; the right entries for a key are
  those with that key whose outputs were computed from their inputs.
\<close>

definition L2_outputs :: "L2Entry \<Rightarrow> bytes \<times> bytes \<times> bytes" where
  "L2_outputs e = (ExportData e, FactsBlob e, FileSetSnapshot e)"

definition L2_right :: "(bytes list \<Rightarrow> bytes \<times> bytes \<times> bytes) \<Rightarrow> actionID \<Rightarrow> L2Entry \<Rightarrow> bool" where
  "L2_right compute aid e \<longleftrightarrow> L2_ok e \<and> L2_outputs e = compute (L2_inputs e) \<and> ComputeL2ActionID e = aid"

lemma length_ComputeL2ActionID [simp]: "length (ComputeL2ActionID e) = 32"
  by (simp add: ComputeL2ActionID_def NewActionID_def)

lemma L2_right_codec: "L2_right compute aid e \<Longrightarrow> DecodeL2 (L2Entry_Encode e) = Inr e"
  using decode_encode_L2 [of e "[]"] by (simp add: L2_right_def)

lemma L2_right_inputs: "L2_right compute aid e \<Longrightarrow> list_all go_len (L2_inputs e)"
  by (auto simp: L2_right_def L2_ok_def L2_inputs_def l2_sections_def section_ok_def max_section_bytes_def go_len_def)

interpretation l2tier: entry_tier "local_Get (store_root r)" "local_Put (store_root r)" "local_Has (store_root r)"
    file_bodies "entryPath (store_root r)" healthy entry_valid nsL2 L2Entry_Encode DecodeL2 "L2_right compute" for r compute
  by (rule local_tier) (simp_all add: entry_ns_ok entry_ns_def L2_right_codec)

lemma ReadL2_get: "snd (ReadL2 (get i) s aid) = Inr e \<longleftrightarrow> (\<exists>d. snd (get i s nsL2 aid) = Inr d \<and> DecodeL2 d = Inr e)"
  by (auto simp: ReadL2_def split: prod.splits sum.splits)

lemma fst_ReadL2 [simp]: "fst (ReadL2 (get i) s aid) = fst (get i s nsL2 aid)"
  by (simp add: ReadL2_def split: prod.splits sum.splits)

end
