(* ===== verification/JsonText.thy ===== *)
theory JsonText
  imports Bytes GoLib
begin

text \<open>
  The strings and numbers of Go's \<^verbatim>\<open>encoding/json\<close>, as the cache codec uses them: UTF-8 sequences,
  \<^verbatim>\<open>json.Marshal\<close> of a string with HTML escaping, the unquoting a decoder performs (invalid bytes and
  unpaired surrogates become the replacement character), and number literals, which \<^verbatim>\<open>UseNumber\<close>
  keeps as text.
\<close>

subsection \<open>UTF-8\<close>

definition ord :: "char \<Rightarrow> nat" where "ord c = of_char c"

definition in_rng :: "nat \<Rightarrow> nat \<Rightarrow> char \<Rightarrow> bool" where
  "in_rng lo hi c \<longleftrightarrow> lo \<le> ord c \<and> ord c \<le> hi"

text \<open>The length of the sequence at the head, 0 when it is not well formed.\<close>

definition utf8_len :: "bytes \<Rightarrow> nat" where
  "utf8_len bs =
     (case bs of
        [] \<Rightarrow> 0
      | c # r \<Rightarrow>
          let a = ord c in
          if a < 128 then 1
          else if a < 194 then 0
          else if a < 224 then (if 1 \<le> length r \<and> in_rng 128 191 (r ! 0) then 2 else 0)
          else if a < 240 then
            (if 2 \<le> length r \<and> in_rng (if a = 224 then 160 else 128) (if a = 237 then 159 else 191) (r ! 0)
                \<and> in_rng 128 191 (r ! 1) then 3 else 0)
          else if a < 245 then
            (if 3 \<le> length r \<and> in_rng (if a = 240 then 144 else 128) (if a = 244 then 143 else 191) (r ! 0)
                \<and> in_rng 128 191 (r ! 1) \<and> in_rng 128 191 (r ! 2) then 4 else 0)
          else 0)"

definition rune_error :: bytes where "rune_error = [CHR 0xEF, CHR 0xBF, CHR 0xBD]"

definition utf8_enc :: "nat \<Rightarrow> bytes" where
  "utf8_enc n =
     (if n < 128 then [char_of n]
      else if n < 2048 then [char_of (192 + n div 64), char_of (128 + n mod 64)]
      else if (55296 \<le> n \<and> n < 57344) \<or> 1114111 < n then rune_error
      else if n < 65536 then [char_of (224 + n div 4096), char_of (128 + n div 64 mod 64), char_of (128 + n mod 64)]
      else [char_of (240 + n div 262144), char_of (128 + n div 4096 mod 64), char_of (128 + n div 64 mod 64), char_of (128 + n mod 64)])"

inductive valid_utf8 :: "bytes \<Rightarrow> bool" where
  v_nil: "valid_utf8 []"
| v_seq: "utf8_len (s @ r) = length s \<Longrightarrow> s \<noteq> [] \<Longrightarrow> valid_utf8 r \<Longrightarrow> valid_utf8 (s @ r)"


subsection \<open>Quoting\<close>

definition bslash :: char where "bslash = CHR 0x5C"
definition dq :: char where "dq = CHR 0x22"

definition json_safe :: "char \<Rightarrow> bool" where
  "json_safe c \<longleftrightarrow> 32 \<le> ord c \<and> c \<notin> {dq, bslash, CHR ''<'', CHR ''>'', CHR ''&''}"

definition json_escape :: "char \<Rightarrow> bytes" where
  "json_escape c =
     (if c = dq \<or> c = bslash then [bslash, c]
      else if c = CHR 0x08 then [bslash, CHR ''b'']
      else if c = CHR 0x0C then [bslash, CHR ''f'']
      else if c = CHR 0x0A then [bslash, CHR ''n'']
      else if c = CHR 0x0D then [bslash, CHR ''r'']
      else if c = CHR 0x09 then [bslash, CHR ''t'']
      else [bslash, CHR ''u'', CHR ''0'', CHR ''0'', hexdigit (ord c div 16), hexdigit (ord c mod 16)])"

definition line_sep :: "bytes \<Rightarrow> bytes option" where
  \<comment> \<open>U+2028 and U+2029 are escaped\<close>
  "line_sep s =
     (if s = [CHR 0xE2, CHR 0x80, CHR 0xA8] then Some (bslash # ''u2028'')
      else if s = [CHR 0xE2, CHR 0x80, CHR 0xA9] then Some (bslash # ''u2029'')
      else None)"

function quote_body :: "bytes \<Rightarrow> bytes" where
  "quote_body bs =
     (case bs of
        [] \<Rightarrow> []
      | c # r \<Rightarrow>
          if ord c < 128 then (if json_safe c then [c] else json_escape c) @ quote_body r
          else if utf8_len bs = 0 then bslash # ''ufffd'' @ quote_body r
          else (case line_sep (take (utf8_len bs) bs) of Some e \<Rightarrow> e | None \<Rightarrow> take (utf8_len bs) bs)
               @ quote_body (drop (utf8_len bs) bs))"
  by pat_completeness auto
termination
  by (relation "measure length") (auto simp: utf8_len_def Let_def split: if_splits)

declare quote_body.simps [simp del]

definition json_quote :: "bytes \<Rightarrow> bytes" where
  "json_quote s = [dq] @ quote_body s @ [dq]"


subsection \<open>Unquoting\<close>

definition hex4 :: "bytes \<Rightarrow> nat option" where
  "hex4 bs =
     (case map unhexdigit (take 4 bs) of
        [Some a, Some b, Some c, Some d] \<Rightarrow> Some (((a * 16 + b) * 16 + c) * 16 + d)
      | _ \<Rightarrow> None)"

definition simple_escape :: "char \<Rightarrow> char option" where
  "simple_escape e =
     (if e = dq \<or> e = bslash \<or> e = CHR ''/'' then Some e
      else if e = CHR ''b'' then Some (CHR 0x08)
      else if e = CHR ''f'' then Some (CHR 0x0C)
      else if e = CHR ''n'' then Some (CHR 0x0A)
      else if e = CHR ''r'' then Some (CHR 0x0D)
      else if e = CHR ''t'' then Some (CHR 0x09)
      else None)"

text \<open>The low surrogate of an escape at the head of the input, when it completes the pair of \<open>hi\<close>.\<close>

definition low_surrogate :: "nat \<Rightarrow> bytes \<Rightarrow> nat option" where
  "low_surrogate hi bs =
     (if hi < 56320 \<and> take 2 bs = [bslash, CHR ''u''] then
        (case hex4 (drop 2 bs) of
           Some lo \<Rightarrow> if 56320 \<le> lo \<and> lo < 57344 then Some lo else None
         | None \<Rightarrow> None)
      else None)"

text \<open>The escape after a backslash: the bytes it stands for and the rest.\<close>

definition unquote_esc :: "bytes \<Rightarrow> (bytes \<times> bytes) option" where
  "unquote_esc bs =
     (case bs of
        [] \<Rightarrow> None
      | e # r1 \<Rightarrow>
          if e = CHR ''u'' then
            (case hex4 r1 of
               None \<Rightarrow> None
             | Some n \<Rightarrow>
                 if 55296 \<le> n \<and> n < 57344 then
                   (case low_surrogate n (drop 4 r1) of
                      Some lo \<Rightarrow> Some (utf8_enc (65536 + (n - 55296) * 1024 + (lo - 56320)), drop 10 r1)
                    | None \<Rightarrow> Some (rune_error, drop 4 r1))
                 else Some (utf8_enc n, drop 4 r1))
          else map_option (\<lambda>x. ([x], r1)) (simple_escape e))"

text \<open>
  One step on the text after an opening quote: \<open>Inl rest\<close> at the closing quote, \<open>Inr (piece, rest)\<close>
  after a character or escape, \<open>None\<close> on a syntax error.
\<close>

definition unquote_step :: "bytes \<Rightarrow> (bytes + bytes \<times> bytes) option" where
  "unquote_step bs =
     (case bs of
        [] \<Rightarrow> None
      | c # r \<Rightarrow>
          if c = dq then Some (Inl r)
          else if c = bslash then map_option Inr (unquote_esc r)
          else if ord c < 32 then None
          else if ord c < 128 then Some (Inr ([c], r))
          else if utf8_len bs = 0 then Some (Inr (rune_error, r))
          else Some (Inr (take (utf8_len bs) bs, drop (utf8_len bs) bs)))"

lemma unquote_esc_shorter: "unquote_esc bs = Some (s, r) \<Longrightarrow> length r < length bs"
  by (auto simp: unquote_esc_def split: list.splits if_splits option.splits)

lemma unquote_step_shorter: "unquote_step bs = Some (Inr (s, r)) \<Longrightarrow> length r < length bs"
  by (auto simp: unquote_step_def split: list.splits if_splits dest: unquote_esc_shorter)

function unquote :: "bytes \<Rightarrow> (bytes \<times> bytes) option" where
  "unquote bs =
     (case unquote_step bs of
        None \<Rightarrow> None
      | Some (Inl r) \<Rightarrow> Some ([], r)
      | Some (Inr (s, r)) \<Rightarrow> map_option (\<lambda>(t, r'). (s @ t, r')) (unquote r))"
  by pat_completeness auto
termination
  by (relation "measure length") (auto dest: unquote_step_shorter)

declare unquote.simps [simp del]


subsection \<open>Numbers\<close>

definition is_digit :: "char \<Rightarrow> bool" where
  "is_digit c \<longleftrightarrow> 48 \<le> ord c \<and> ord c \<le> 57"

definition scan_digits1 :: "bytes \<Rightarrow> (bytes \<times> bytes) option" where
  "scan_digits1 bs =
     (let ds = takeWhile is_digit bs in if ds = [] then None else Some (ds, drop (length ds) bs))"

definition scan_int :: "bytes \<Rightarrow> (bytes \<times> bytes) option" where
  "scan_int bs =
     (case bs of
        [] \<Rightarrow> None
      | c # r \<Rightarrow> if c = CHR ''0'' then Some ([c], r) else scan_digits1 bs)"

definition scan_frac :: "bytes \<Rightarrow> (bytes \<times> bytes) option" where
  "scan_frac bs =
     (case bs of
        c # r \<Rightarrow> if c = CHR ''.'' then map_option (\<lambda>(d, r'). (c # d, r')) (scan_digits1 r) else Some ([], bs)
      | [] \<Rightarrow> Some ([], []))"

definition scan_exp :: "bytes \<Rightarrow> (bytes \<times> bytes) option" where
  "scan_exp bs =
     (case bs of
        c # r \<Rightarrow>
          if c = CHR ''e'' \<or> c = CHR ''E'' then
            (case r of
               s # r' \<Rightarrow>
                 if s = CHR ''+'' \<or> s = CHR ''-'' then map_option (\<lambda>(d, q). (c # s # d, q)) (scan_digits1 r')
                 else map_option (\<lambda>(d, q). (c # d, q)) (scan_digits1 r)
             | [] \<Rightarrow> None)
          else Some ([], bs)
      | [] \<Rightarrow> Some ([], []))"

definition scan_sign :: "bytes \<Rightarrow> bytes \<times> bytes" where
  "scan_sign bs = (case bs of c # r \<Rightarrow> if c = CHR ''-'' then ([c], r) else ([], bs) | [] \<Rightarrow> ([], []))"

definition scan_number :: "bytes \<Rightarrow> (bytes \<times> bytes) option" where
  "scan_number bs =
     (let (sg, r0) = scan_sign bs in
      case scan_int r0 of None \<Rightarrow> None | Some (i, r1) \<Rightarrow>
      case scan_frac r1 of None \<Rightarrow> None | Some (f, r2) \<Rightarrow>
      case scan_exp r2 of None \<Rightarrow> None | Some (e, r3) \<Rightarrow> Some (sg @ i @ f @ e, r3))"



subsection \<open>Quoting round trips\<close>

lemma ord_simps [simp]: "ord dq = 34" "ord bslash = 92" "dq \<noteq> bslash" "bslash \<noteq> dq"
  by (simp_all add: ord_def dq_def bslash_def)

lemma ord_less [simp]: "ord c < 256"
  by (simp add: ord_def of_char_less)

lemma char_of_ord [simp]: "char_of (ord c) = c"
  by (simp add: ord_def)

lemma ord_inject: "ord c = ord d \<longleftrightarrow> c = d"
  by (metis char_of_ord)

lemma utf8_len_prefix:
  assumes "utf8_len (p @ r) = length p" and "p \<noteq> []"
  shows "utf8_len (p @ r') = length p"
proof -
  obtain c q where p: "p = c # q" using assms(2) by (cases p) auto
  have "length q \<in> {0, 1, 2, 3}"
    using assms(1) unfolding p utf8_len_def by (auto simp: Let_def split: if_splits)
  then consider "q = []" | x where "q = [x]" | x y where "q = [x, y]" | x y z where "q = [x, y, z]"
    by (auto simp: eval_nat_numeral length_Suc_conv)
  then show ?thesis
    by cases (use assms(1) in \<open>simp_all add: p utf8_len_def Let_def split: if_splits\<close>)
qed

lemma utf8_len_ascii: "ord c < 128 \<Longrightarrow> utf8_len (c # r) = 1"
  by (simp add: utf8_len_def)

lemma utf8_len_wide: "utf8_len (c # r) = n \<Longrightarrow> n \<noteq> 0 \<Longrightarrow> \<not> ord c < 128 \<Longrightarrow> 2 \<le> n"
  by (auto simp: utf8_len_def Let_def split: if_splits)

lemma quote_ascii: "ord c < 128 \<Longrightarrow> quote_body (c # r) = (if json_safe c then [c] else json_escape c) @ quote_body r"
  by (subst quote_body.simps) simp

lemma quote_wide:
  assumes "utf8_len (p @ r) = length p" and "p \<noteq> []" and "\<not> ord (hd p) < 128"
  shows "quote_body (p @ r) = (case line_sep p of Some e \<Rightarrow> e | None \<Rightarrow> p) @ quote_body r"
proof -
  obtain c q where p: "p = c # q" using assms(2) by (cases p) auto
  have "utf8_len (c # q @ r) = Suc (length q)" using assms(1) p by simp
  then show ?thesis
    using assms(3) unfolding p append_Cons list.sel by (subst quote_body.simps) (simp split: option.split)
qed

lemma hexdigit_hex4:
  "a < 16 \<Longrightarrow> b < 16 \<Longrightarrow> hex4 (CHR ''0'' # CHR ''0'' # hexdigit a # hexdigit b # r) = Some (a * 16 + b)"
proof -
  have "unhexdigit (CHR ''0'') = Some 0" by (simp add: unhexdigit_def)
  then show "a < 16 \<Longrightarrow> b < 16 \<Longrightarrow> hex4 (CHR ''0'' # CHR ''0'' # hexdigit a # hexdigit b # r) = Some (a * 16 + b)"
    by (simp add: hex4_def unhexdigit_hexdigit)
qed

lemma unquote_escape:
  assumes "ord c < 128" and "\<not> json_safe c"
  shows "unquote_step (json_escape c @ r) = Some (Inr ([c], r))"
proof -
  have "ord c div 16 < 16" "ord c mod 16 < 16" using assms(1) by simp_all
  note h = hexdigit_hex4 [OF this, of r]
  show ?thesis
    using assms h
    by (auto simp: unquote_step_def unquote_esc_def json_escape_def simple_escape_def utf8_enc_def bslash_def dq_def)
qed

lemma unquote_line_sep:
  assumes "line_sep p = Some e"
  shows "unquote_step (e @ r) = Some (Inr (p, r))"
  using assms
  by (auto simp: line_sep_def unquote_step_def unquote_esc_def hex4_def unhexdigit_def utf8_enc_def bslash_def dq_def char_of_eq_iff split: if_splits)

lemma unquote_copy:
  assumes "utf8_len (p @ r) = length p" and "p \<noteq> []" and "\<not> ord (hd p) < 128"
  shows "unquote_step (p @ r') = Some (Inr (p, r'))"
proof -
  obtain c q where p: "p = c # q" using assms(2) by (cases p) auto
  have "utf8_len (p @ r') = length p" by (rule utf8_len_prefix [OF assms(1,2)])
  moreover have "c \<noteq> dq" "c \<noteq> bslash" using assms(3) p by (auto simp: ord_simps)
  ultimately show ?thesis using assms(3) unfolding p by (simp add: unquote_step_def)
qed

lemma unquote_quote_body: "valid_utf8 s \<Longrightarrow> unquote (quote_body s @ dq # r) = Some (s, r)"
proof (induction rule: valid_utf8.induct)
  case v_nil
  show ?case by (subst unquote.simps, subst quote_body.simps) (simp add: unquote_step_def)
next
  case (v_seq p s)
  obtain c q where p: "p = c # q" using v_seq.hyps(2) by (cases p) auto
  have "\<exists>w. quote_body (p @ s) = w @ quote_body s \<and> (\<forall>t. unquote_step (w @ t) = Some (Inr (p, t)))"
  proof (cases "ord c < 128")
    case True
    then have "p = [c]" using v_seq.hyps(1) p utf8_len_ascii [of c] by (cases q) auto
    then show ?thesis
      using True quote_ascii [OF True, of s] unquote_escape [OF True]
      by (auto simp: json_safe_def unquote_step_def)
  next
    case False
    then have "\<not> ord (hd p) < 128" by (simp add: p)
    note W = quote_wide [OF v_seq.hyps(1,2) this] unquote_copy [OF v_seq.hyps(1,2) this]
    show ?thesis
      using W unquote_line_sep [of p] by (cases "line_sep p") auto
  qed
  then obtain w where "quote_body (p @ s) = w @ quote_body s" "\<And>t. unquote_step (w @ t) = Some (Inr (p, t))" by blast
  with v_seq.IH show ?case by (subst unquote.simps) simp
qed



subsection \<open>What decoding yields\<close>

lemma valid_piece:
  assumes "\<And>r. utf8_len (p @ r) = length p" and "p \<noteq> []" and "valid_utf8 s"
  shows "valid_utf8 (p @ s)"
  using assms by (intro v_seq) simp_all

lemma utf8_len_rune_error: "utf8_len (rune_error @ r) = length rune_error"
  by (simp add: utf8_len_def rune_error_def ord_def in_rng_def Let_def)

lemma of_char_of_small: "n < 256 \<Longrightarrow> ord (char_of n) = n"
  by (simp add: ord_def)

lemma utf8_len_enc: "utf8_len (utf8_enc n @ r) = length (utf8_enc n)"
proof -
  consider "n < 128" | "128 \<le> n" "n < 2048" | "2048 \<le> n" "n < 65536" "\<not> (55296 \<le> n \<and> n < 57344)"
    | "65536 \<le> n" "n \<le> 1114111" | "55296 \<le> n \<and> n < 57344 \<or> 1114111 < n"
    by linarith
  then show ?thesis
  proof cases
    case 1
    then show ?thesis by (simp add: utf8_enc_def utf8_len_def of_char_of_small)
  next
    case 2
    have "n div 64 < 32" "2 \<le> n div 64" using 2 by (simp_all add: less_mult_imp_div_less)
    then show ?thesis using 2 by (simp add: utf8_enc_def utf8_len_def of_char_of_small in_rng_def Let_def)
  next
    case 3
    define a where "a = n div 4096"
    define b where "b = n div 64 mod 64"
    have "n div 64 = a * 64 + b" unfolding a_def b_def using div_mult_mod_eq [of "n div 64" 64] by (simp add: div_mult2_eq [symmetric])
    then have n: "n = a * 4096 + b * 64 + n mod 64" using div_mult_mod_eq [of n 64] by linarith
    have ab: "a < 16" "b < 64" "n mod 64 < 64" using 3(2) by (simp_all add: a_def b_def less_mult_imp_div_less)
    have "a = 13 \<Longrightarrow> n < 57344" using n ab by linarith
    then have "a = 13 \<Longrightarrow> n < 55296" using 3(3) by linarith
    then have "a = 0 \<Longrightarrow> 32 \<le> b" "a = 13 \<Longrightarrow> b < 32" using n 3(1) ab(3) by linarith+
    with ab show ?thesis
      using 3 unfolding utf8_enc_def a_def [symmetric] b_def [symmetric]
      by (auto simp: utf8_len_def of_char_of_small in_rng_def Let_def)
  next
    case 4
    define a where "a = n div 262144"
    define b where "b = n div 4096 mod 64"
    define d where "d = n div 64 mod 64"
    have "n div 4096 = a * 64 + b" "n div 64 = n div 4096 * 64 + d" unfolding a_def b_def d_def
      using div_mult_mod_eq [of "n div 4096" 64] div_mult_mod_eq [of "n div 64" 64] by (simp_all add: div_mult2_eq [symmetric])
    then have n: "n = a * 262144 + b * 4096 + d * 64 + n mod 64" using div_mult_mod_eq [of n 64] by linarith
    have ab: "b < 64" "d < 64" "n mod 64 < 64" by (simp_all add: b_def d_def)
    have "a < 5" "a = 0 \<Longrightarrow> 16 \<le> b" "a = 4 \<Longrightarrow> b < 16" using n 4 ab by linarith+
    with ab show ?thesis
      using 4 unfolding utf8_enc_def a_def [symmetric] b_def [symmetric] d_def [symmetric]
      by (auto simp: utf8_len_def of_char_of_small in_rng_def Let_def)
  next
    case 5
    then have "utf8_enc n = rune_error" by (auto simp: utf8_enc_def)
    then show ?thesis by (simp add: utf8_len_rune_error)
  qed
qed

lemma utf8_enc_neq [simp]: "utf8_enc n \<noteq> []" "rune_error \<noteq> []"
  by (simp_all add: utf8_enc_def rune_error_def)

lemma utf8_len_le: "utf8_len bs \<le> length bs"
  by (auto simp: utf8_len_def Let_def split: list.splits)

lemma utf8_len_take:
  assumes "utf8_len bs \<noteq> 0"
  shows "take (utf8_len bs) bs \<noteq> []" and "utf8_len (take (utf8_len bs) bs @ t) = length (take (utf8_len bs) bs)"
proof -
  have l: "length (take (utf8_len bs) bs) = utf8_len bs" using utf8_len_le [of bs] by simp
  then show ne: "take (utf8_len bs) bs \<noteq> []" using assms by force
  have "utf8_len (take (utf8_len bs) bs @ drop (utf8_len bs) bs) = length (take (utf8_len bs) bs)"
    unfolding append_take_drop_id l ..
  then show "utf8_len (take (utf8_len bs) bs @ t) = length (take (utf8_len bs) bs)" by (rule utf8_len_prefix [OF _ ne])
qed

lemma unquote_esc_piece:
  assumes "unquote_esc bs = Some (s, r)"
  shows "s \<noteq> [] \<and> (\<forall>t. utf8_len (s @ t) = length s)"
proof -
  have simple: "ord x < 128" if "simple_escape e = Some x" for e x
    using that by (auto simp: simple_escape_def ord_def dq_def bslash_def split: if_splits)
  show ?thesis
    using assms simple utf8_len_ascii
    by (auto simp: unquote_esc_def utf8_len_enc utf8_len_rune_error split: list.splits if_splits option.splits)
qed

lemma unquote_step_piece:
  assumes "unquote_step bs = Some (Inr (s, r))"
  shows "s \<noteq> [] \<and> (\<forall>t. utf8_len (s @ t) = length s)"
proof (cases bs)
  case (Cons c q)
  then consider "unquote_esc q = Some (s, r)" | "ord c < 128" "s = [c]" | "s = rune_error"
    | "utf8_len bs \<noteq> 0" "s = take (utf8_len bs) bs"
    using assms by (auto simp: unquote_step_def split: if_splits)
  then show ?thesis
  proof cases
    case 1 then show ?thesis by (rule unquote_esc_piece)
  next
    case 4
    show ?thesis using utf8_len_take [OF 4(1)] unfolding 4(2) by (intro conjI allI)
  qed (simp_all add: utf8_len_ascii utf8_len_rune_error)
qed (use assms in \<open>simp add: unquote_step_def\<close>)

lemma unquote_valid: "unquote bs = Some (s, r) \<Longrightarrow> valid_utf8 s"
proof (induction bs arbitrary: s r rule: unquote.induct)
  case (1 bs)
  from "1.prems" show ?case
  proof (subst (asm) unquote.simps, cases "unquote_step bs")
    case (Some x)
    then show ?thesis
    proof (cases x)
      case (Inl a)
      with Some "1.prems" show ?thesis by (simp add: unquote.simps [of bs] v_nil)
    next
      case (Inr b)
      obtain p q where b: "b = (p, q)" by (cases b)
      obtain t where "unquote q = Some (t, r)" "s = p @ t"
        using Some Inr b "1.prems" by (auto simp: unquote.simps [of bs])
      then show ?thesis
        using "1.IH" [OF Some Inr b [symmetric]] unquote_step_piece [of bs p q] Some Inr b by (auto intro: valid_piece)
    qed
  qed simp
qed

end
