(* ===== verification/Json.thy ===== *)
theory Json
  imports JsonText Envelope
begin

text \<open>
  The JSON canonicaliser of the cache codec (\<^verbatim>\<open>internal/cache/codec.go\<close>: \<^verbatim>\<open>canonicalJSON\<close>,
  \<^verbatim>\<open>writeCanonical\<close>, \<^verbatim>\<open>marshalDiagnostics\<close>, \<^verbatim>\<open>unmarshalDiagnostics\<close>) over a model of the decoder of
  \<^verbatim>\<open>encoding/json\<close>.

  A decoded object is the list of its members with distinct keys; a Go map has no order, and
  \<open>writeCanonical\<close> sorts.  The parser takes fuel, two units per input byte and one more, which is
  always enough, and the depth that is left of the decoder's limit of 10000.
\<close>

datatype jval =
    JNull
  | JBool bool
  | JNumber bytes
  | JString bytes
  | JArray "jval list"
  | JObject "(bytes \<times> jval) list"


subsection \<open>Decoding\<close>

definition is_ws :: "char \<Rightarrow> bool" where
  "is_ws c \<longleftrightarrow> c = CHR '' '' \<or> c = CHR 0x09 \<or> c = CHR 0x0A \<or> c = CHR 0x0D"

abbreviation skip_ws :: "bytes \<Rightarrow> bytes" where
  "skip_ws \<equiv> dropWhile is_ws"

text \<open>Members read in order; a later member replaces an earlier one with the same key.\<close>

definition set_member :: "bytes \<times> jval \<Rightarrow> (bytes \<times> jval) list \<Rightarrow> (bytes \<times> jval) list" where
  "set_member kv kvs = (if fst kv \<in> fst ` set kvs then map (\<lambda>p. if fst p = fst kv then kv else p) kvs else kvs @ [kv])"

definition object_of :: "(bytes \<times> jval) list \<Rightarrow> (bytes \<times> jval) list" where
  "object_of ms = fold set_member ms []"

definition parse_literal :: "bytes \<Rightarrow> (jval \<times> bytes) option" where
  "parse_literal bs =
     (if HasPrefix bs ''null'' then Some (JNull, drop 4 bs)
      else if HasPrefix bs ''true'' then Some (JBool True, drop 4 bs)
      else if HasPrefix bs ''false'' then Some (JBool False, drop 5 bs)
      else map_option (\<lambda>(n, r). (JNumber n, r)) (scan_number bs))"

fun parse_value :: "nat \<Rightarrow> nat \<Rightarrow> bytes \<Rightarrow> (jval \<times> bytes) option"
  and parse_elems :: "nat \<Rightarrow> nat \<Rightarrow> bytes \<Rightarrow> (jval list \<times> bytes) option"
  and parse_members :: "nat \<Rightarrow> nat \<Rightarrow> bytes \<Rightarrow> ((bytes \<times> jval) list \<times> bytes) option" where
  "parse_value 0 d bs = None"
| "parse_value (Suc f) d bs =
     (case skip_ws bs of
        [] \<Rightarrow> None
      | c # r \<Rightarrow>
          if c = dq then map_option (\<lambda>(s, r'). (JString s, r')) (unquote r)
          else if c = CHR ''['' then
            (if d = 0 then None
             else if HasPrefix (skip_ws r) '']'' then Some (JArray [], tl (skip_ws r))
             else map_option (\<lambda>(vs, r'). (JArray vs, r')) (parse_elems f (d - 1) r))
          else if c = CHR ''{'' then
            (if d = 0 then None
             else if HasPrefix (skip_ws r) ''}'' then Some (JObject [], tl (skip_ws r))
             else map_option (\<lambda>(ms, r'). (JObject (object_of ms), r')) (parse_members f (d - 1) r))
          else parse_literal (c # r))"
| "parse_elems 0 d bs = None"
| "parse_elems (Suc f) d bs =
     (case parse_value f d bs of
        None \<Rightarrow> None
      | Some (v, r) \<Rightarrow>
          (case skip_ws r of
             [] \<Rightarrow> None
           | c # r' \<Rightarrow>
               if c = CHR '','' then map_option (\<lambda>(vs, q). (v # vs, q)) (parse_elems f d r')
               else if c = CHR '']'' then Some ([v], r') else None))"
| "parse_members 0 d bs = None"
| "parse_members (Suc f) d bs =
     (if HasPrefix (skip_ws bs) [dq] then
        (case unquote (tl (skip_ws bs)) of
           None \<Rightarrow> None
         | Some (k, r) \<Rightarrow>
             if HasPrefix (skip_ws r) '':'' then
               (case parse_value f d (tl (skip_ws r)) of
                  None \<Rightarrow> None
                | Some (v, r1) \<Rightarrow>
                    (case skip_ws r1 of
                       [] \<Rightarrow> None
                     | c # r' \<Rightarrow>
                         if c = CHR '','' then map_option (\<lambda>(ms, q). ((k, v) # ms, q)) (parse_members f d r')
                         else if c = CHR ''}'' then Some ([(k, v)], r') else None))
             else None)
      else None)"

definition max_depth :: nat where "max_depth = 10000"

text \<open>\<^verbatim>\<open>(*json.Decoder).Decode\<close> with \<^verbatim>\<open>UseNumber\<close>: the first value of the input.\<close>

definition json_decode :: "bytes \<Rightarrow> jval option" where
  "json_decode bs = map_option fst (parse_value (2 * length bs + 1) max_depth bs)"


subsection \<open>The canonical form\<close>

fun writeCanonical :: "jval \<Rightarrow> bytes" where
  "writeCanonical JNull = ''null''"
| "writeCanonical (JBool x) = (if x then ''true'' else ''false'')"
| "writeCanonical (JNumber x) = x"
| "writeCanonical (JString x) = json_quote x"
| "writeCanonical (JArray xs) = ''['' @ join_with '','' (map writeCanonical xs) @ '']''"
| "writeCanonical (JObject x) =
     (let vals = map (\<lambda>(k, v). (k, writeCanonical v)) x; keys = sortStrings (map fst x)
      in ''{'' @ join_with '','' (map (\<lambda>k. json_quote k @ '':'' @ the (map_of vals k)) keys) @ ''}'')"

definition canonicalJSON :: "bytes \<Rightarrow> bytes option" where
  "canonicalJSON raw = map_option writeCanonical (json_decode raw)"

text \<open>An error keeps the text this package puts before the wrapped error of the decoder.\<close>

fun canonical_all :: "nat \<Rightarrow> bytes list \<Rightarrow> bytes list result" where
  "canonical_all i [] = Inr []"
| "canonical_all i (d # ds) =
     (case canonicalJSON d of
        None \<Rightarrow> Inl (''canonicalize diagnostic '' @ itoa (int i))
      | Some c \<Rightarrow> (case canonical_all (Suc i) ds of Inl e \<Rightarrow> Inl e | Inr cs \<Rightarrow> Inr (c # cs)))"

definition marshalDiagnostics :: "bytes list \<Rightarrow> bytes result" where
  "marshalDiagnostics diags =
     (if diags = [] then Inr ''[]''
      else case canonical_all 0 diags of Inl e \<Rightarrow> Inl e | Inr cs \<Rightarrow> Inr (''['' @ join_with '','' cs @ '']''))"

text \<open>\<^verbatim>\<open>json.Unmarshal\<close> into \<^verbatim>\<open>[]json.RawMessage\<close>: the text of each element, and nothing after the array.\<close>

fun raw_elems :: "nat \<Rightarrow> bytes \<Rightarrow> (bytes list \<times> bytes) option" where
  "raw_elems 0 bs = None"
| "raw_elems (Suc f) bs =
     (let b = skip_ws bs in
      case parse_value (2 * length b + 1) (max_depth - 1) b of
        None \<Rightarrow> None
      | Some (v, r) \<Rightarrow>
          (case skip_ws r of
             [] \<Rightarrow> None
           | c # r' \<Rightarrow>
               let raw = take (length b - length r) b in
               if c = CHR '','' then map_option (\<lambda>(rs, q). (raw # rs, q)) (raw_elems f r')
               else if c = CHR '']'' then Some ([raw], r') else None))"

definition unmarshal_raws :: "bytes \<Rightarrow> bytes list option" where
  "unmarshal_raws bs =
     (case skip_ws bs of
        [] \<Rightarrow> None
      | c # r \<Rightarrow>
          if c = CHR ''['' then
            (if HasPrefix (skip_ws r) '']'' then (if skip_ws (tl (skip_ws r)) = [] then Some [] else None)
             else case raw_elems (length r) r of
                    None \<Rightarrow> None | Some (rs, q) \<Rightarrow> if skip_ws q = [] then Some rs else None)
          else if HasPrefix (c # r) ''null'' \<and> skip_ws (drop 4 (c # r)) = [] then Some []
          else None)"

definition unmarshalDiagnostics :: "bytes \<Rightarrow> bytes list result" where
  "unmarshalDiagnostics b =
     (if b = [] \<or> b = ''[]'' then Inr []
      else case unmarshal_raws b of None \<Rightarrow> Inl ''unmarshal diagnostics'' | Some out \<Rightarrow> Inr out)"

end
