(* ===== verification/JsonProps.thy ===== *)
theory JsonProps
  imports Json
begin

text \<open>
  What canonicalisation promises: the canonical text of a value decodes to that value, so
  canonicalising is idempotent and two texts have the same canonical form exactly when they denote the
  same value up to the order of object members; and a list of diagnostics survives being marshalled.
\<close>

subsection \<open>Numbers\<close>

definition digits :: "bytes \<Rightarrow> bool" where
  "digits ds \<longleftrightarrow> ds \<noteq> [] \<and> list_all is_digit ds"

definition int_form :: "bytes \<Rightarrow> bool" where
  "int_form i \<longleftrightarrow> i = ''0'' \<or> digits i \<and> hd i \<noteq> CHR ''0''"

definition frac_form :: "bytes \<Rightarrow> bool" where
  "frac_form f \<longleftrightarrow> f = [] \<or> (\<exists>ds. f = CHR ''.'' # ds \<and> digits ds)"

definition exp_form :: "bytes \<Rightarrow> bool" where
  "exp_form e \<longleftrightarrow> e = [] \<or> (\<exists>c ds. e = c # ds \<and> (c = CHR ''e'' \<or> c = CHR ''E'') \<and> digits ds)
     \<or> (\<exists>c s ds. e = c # s # ds \<and> (c = CHR ''e'' \<or> c = CHR ''E'') \<and> (s = CHR ''+'' \<or> s = CHR ''-'') \<and> digits ds)"

definition num_form :: "bytes \<Rightarrow> bool" where
  "num_form n \<longleftrightarrow> (\<exists>sg i f e. n = sg @ i @ f @ e \<and> sg \<in> {[], ''-''} \<and> int_form i \<and> frac_form f \<and> exp_form e)"

definition num_stop :: "bytes \<Rightarrow> bool" where
  "num_stop r \<longleftrightarrow> r = [] \<or> hd r \<in> {CHR '','', CHR '']'', CHR ''}''}"

lemma is_digit_simps [simp]:
  "\<not> is_digit (CHR ''.'')" "\<not> is_digit (CHR ''e'')" "\<not> is_digit (CHR ''E'')" "\<not> is_digit (CHR ''+'')"
  "\<not> is_digit (CHR ''-'')" "\<not> is_digit (CHR '','')" "\<not> is_digit (CHR '']'')" "\<not> is_digit (CHR ''}'')" "is_digit (CHR ''0'')"
  by (simp_all add: is_digit_def ord_def)

lemma scan_digits1_form: "scan_digits1 bs = Some (ds, r) \<Longrightarrow> digits ds \<and> bs = ds @ r"
  by (auto simp: scan_digits1_def digits_def Let_def list_all_iff dest: set_takeWhileD split: if_splits)
    (metis takeWhile_dropWhile_id dropWhile_eq_drop)

lemma scan_digits1_append:
  assumes "digits ds" and "r = [] \<or> \<not> is_digit (hd r)"
  shows "scan_digits1 (ds @ r) = Some (ds, r)"
proof -
  have "takeWhile is_digit (ds @ r) = ds"
    using assms by (cases r) (auto simp: digits_def list_all_iff takeWhile_append2 takeWhile_eq_all_conv)
  then show ?thesis using assms(1) by (simp add: scan_digits1_def digits_def)
qed

lemma scan_exp_form:
  assumes "scan_exp bs = Some (e, r)"
  shows "exp_form e \<and> bs = e @ r"
proof (cases "bs \<noteq> [] \<and> (hd bs = CHR ''e'' \<or> hd bs = CHR ''E'')")
  case True
  then obtain c q where bs: "bs = c # q" "c = CHR ''e'' \<or> c = CHR ''E''" by (cases bs) auto
  then obtain s q' where q: "q = s # q'" using assms by (cases q) (auto simp: scan_exp_def)
  show ?thesis
  proof (cases "s = CHR ''+'' \<or> s = CHR ''-''")
    case True
    then obtain ds where "scan_digits1 q' = Some (ds, r)" "e = c # s # ds" using assms bs q by (auto simp: scan_exp_def)
    with True bs q show ?thesis using scan_digits1_form [of q' ds r] unfolding exp_form_def by auto
  next
    case False
    then obtain ds where "scan_digits1 q = Some (ds, r)" "e = c # ds" using assms bs q by (auto simp: scan_exp_def)
    with bs show ?thesis using scan_digits1_form [of q ds r] unfolding exp_form_def by auto
  qed
next
  case False
  then have "e = [] \<and> bs = r" using assms by (cases bs) (auto simp: scan_exp_def)
  then show ?thesis by (simp add: exp_form_def)
qed

lemma scan_int_form:
  assumes "scan_int bs = Some (i, r)"
  shows "int_form i \<and> bs = i @ r"
proof (cases bs)
  case (Cons c q)
  show ?thesis
  proof (cases "c = CHR ''0''")
    case False
    then have d: "digits i" "bs = i @ r" using assms Cons scan_digits1_form [of bs i r] by (auto simp: scan_int_def)
    then have "hd i = c" using Cons by (cases i) (auto simp: digits_def)
    with d False show ?thesis by (simp add: int_form_def)
  qed (use assms Cons in \<open>auto simp: scan_int_def int_form_def\<close>)
qed (use assms in \<open>simp add: scan_int_def\<close>)

lemma scan_number_form:
  assumes "scan_number bs = Some (n, r)"
  shows "num_form n \<and> bs = n @ r"
proof -
  obtain sg r0 i r1 f r2 e where s: "scan_sign bs = (sg, r0)" "scan_int r0 = Some (i, r1)"
      "scan_frac r1 = Some (f, r2)" "scan_exp r2 = Some (e, r)" "n = sg @ i @ f @ e"
    using assms by (auto simp: scan_number_def split: prod.splits option.splits)
  have "sg \<in> {[], ''-''} \<and> bs = sg @ r0" using s(1) by (auto simp: scan_sign_def split: list.splits if_splits)
  moreover have "int_form i \<and> r0 = i @ r1"
    by (rule scan_int_form [OF s(2)])
  moreover have "frac_form f \<and> r1 = f @ r2"
    using s(3) by (auto simp: scan_frac_def frac_form_def split: list.splits if_splits dest!: scan_digits1_form)
  moreover have "exp_form e \<and> r2 = e @ r"
    by (rule scan_exp_form [OF s(4)])
  ultimately show ?thesis using s(5) by (auto simp: num_form_def)
qed

lemma scan_exp_append:
  assumes "exp_form e" and "num_stop r"
  shows "scan_exp (e @ r) = Some (e, r)"
proof -
  have stop: "r = [] \<or> \<not> is_digit (hd r)" using assms(2) by (auto simp: num_stop_def)
  have none: "scan_exp r = Some ([], r)" using assms(2) by (cases r) (auto simp: scan_exp_def num_stop_def)
  have plain: "scan_exp (c # ds @ r) = Some (c # ds, r)" if c: "c = CHR ''e'' \<or> c = CHR ''E''" and d: "digits ds" for c ds
  proof -
    obtain x xs where x: "ds = x # xs" using d by (cases ds) (auto simp: digits_def)
    then have "x \<noteq> CHR ''+''" "x \<noteq> CHR ''-''" using d by (auto simp: digits_def)
    then show ?thesis using c scan_digits1_append [OF d stop] x by (simp add: scan_exp_def)
  qed
  have signed: "scan_exp (c # s # ds @ r) = Some (c # s # ds, r)"
    if "c = CHR ''e'' \<or> c = CHR ''E''" "s = CHR ''+'' \<or> s = CHR ''-''" "digits ds" for c s ds
    using that scan_digits1_append [OF that(3) stop] by (simp add: scan_exp_def)
  from assms(1) [unfolded exp_form_def] show ?thesis
    by (elim disjE exE) (simp_all add: none plain signed)
qed

lemma num_form_scan:
  assumes "num_form n" and "num_stop r"
  shows "scan_number (n @ r) = Some (n, r)"
proof -
  obtain sg i f e where n: "n = sg @ i @ f @ e" "sg \<in> {[], ''-''}" "int_form i" "frac_form f" "exp_form e"
    using assms(1) by (auto simp: num_form_def)
  have er: "e @ r = [] \<or> hd (e @ r) \<in> {CHR ''e'', CHR ''E'', CHR '','', CHR '']'', CHR ''}''}"
    using n(5) assms(2) by (auto simp: exp_form_def num_stop_def)
  have fer: "f @ e @ r = [] \<or> \<not> is_digit (hd (f @ e @ r))"
    using n(4) er by (auto simp: frac_form_def)
  obtain x xs where x: "i = x # xs" "is_digit x" using n(3) by (cases i) (auto simp: int_form_def digits_def)
  then have "x \<noteq> CHR ''-''" by auto
  then have 1: "scan_sign (n @ r) = (sg, i @ f @ e @ r)" using n(1,2) x by (auto simp: scan_sign_def)
  have 2: "scan_int (i @ f @ e @ r) = Some (i, f @ e @ r)"
  proof (cases "i = ''0''")
    case False
    then have "digits i" "x \<noteq> CHR ''0''" using n(3) x by (auto simp: int_form_def)
    then show ?thesis using scan_digits1_append [OF _ fer, of i] x by (simp add: scan_int_def)
  qed (simp add: scan_int_def)
  have 3: "scan_frac (f @ e @ r) = Some (f, e @ r)"
  proof (cases "f = []")
    case True
    then show ?thesis using er by (cases "e @ r") (auto simp: scan_frac_def)
  next
    case False
    then obtain ds where "f = CHR ''.'' # ds" "digits ds" using n(4) by (auto simp: frac_form_def)
    moreover have "e @ r = [] \<or> \<not> is_digit (hd (e @ r))" using er by auto
    ultimately show ?thesis using scan_digits1_append [of ds "e @ r"] by (simp add: scan_frac_def)
  qed
  have "scan_number (n @ r) = Some (sg @ i @ f @ e, r)"
    unfolding scan_number_def Let_def 1 prod.case 2 option.case 3 scan_exp_append [OF n(5) assms(2)] ..
  then show ?thesis by (simp add: n(1))
qed



subsection \<open>Values\<close>

text \<open>The values a decoder yields, the nesting that fits a depth, and a value with its members in key order.\<close>

fun jwf :: "jval \<Rightarrow> bool" where
  "jwf (JNumber n) = num_form n"
| "jwf (JString s) = valid_utf8 s"
| "jwf (JArray vs) = (\<forall>v \<in> set vs. jwf v)"
| "jwf (JObject kvs) = (distinct (map fst kvs) \<and> (\<forall>p \<in> set kvs. valid_utf8 (fst p) \<and> jwf (snd p)))"
| "jwf v = True"

fun jfits :: "jval \<Rightarrow> nat \<Rightarrow> bool" where
  "jfits (JArray vs) d = (0 < d \<and> (\<forall>v \<in> set vs. jfits v (d - 1)))"
| "jfits (JObject kvs) d = (0 < d \<and> (\<forall>p \<in> set kvs. jfits (snd p) (d - 1)))"
| "jfits v d = True"

fun jcanon :: "jval \<Rightarrow> jval" where
  "jcanon (JArray vs) = JArray (map jcanon vs)"
| "jcanon (JObject kvs) = JObject (sort_key fst (map (\<lambda>p. (fst p, jcanon (snd p))) kvs))"
| "jcanon v = v"

definition write_member :: "bytes \<times> jval \<Rightarrow> bytes" where
  "write_member p = json_quote (fst p) @ '':'' @ writeCanonical (snd p)"

lemma sort_map_fst: "sort (map fst kvs) = map fst (sort_key fst kvs)"
  by (rule properties_for_sort) (simp_all add: mset_map)

lemma writeCanonical_object:
  assumes "distinct (map fst kvs)"
  shows "writeCanonical (JObject kvs) = ''{'' @ join_with '','' (map write_member (sort_key fst kvs)) @ ''}''"
proof -
  let ?vals = "map (\<lambda>(k, v). (k, writeCanonical v)) kvs"
  have "map fst ?vals = map fst kvs" by (induction kvs) auto
  then have d: "distinct (map fst ?vals)" using assms by (simp only:)
  have l: "the (map_of ?vals (fst p)) = writeCanonical (snd p)" if "p \<in> set kvs" for p
  proof -
    have "(fst p, writeCanonical (snd p)) \<in> set ?vals" using that by force
    then show ?thesis using d by simp
  qed
  have "map (\<lambda>k. json_quote k @ '':'' @ the (map_of ?vals k)) (map fst (sort_key fst kvs)) = map write_member (sort_key fst kvs)"
    unfolding map_map by (rule map_cong) (auto simp: write_member_def l)
  then show ?thesis by (simp only: writeCanonical.simps Let_def sortStrings_sort sort_map_fst)
qed

lemma join_with_Cons: "ws \<noteq> [] \<Longrightarrow> join_with sep (w # ws) = w @ sep @ join_with sep ws"
  by (cases ws) simp_all

lemma num_form_hd: "num_form n \<Longrightarrow> n \<noteq> [] \<and> (is_digit (hd n) \<or> hd n = CHR ''-'')"
  by (auto simp: num_form_def int_form_def digits_def) (auto simp: hd_append list_all_iff)

lemma is_digit_not: "is_digit c \<Longrightarrow> c \<noteq> dq \<and> c \<noteq> CHR ''['' \<and> c \<noteq> CHR ''{'' \<and> c \<noteq> CHR ''n'' \<and> c \<noteq> CHR ''t'' \<and> c \<noteq> CHR ''f'' \<and> \<not> is_ws c"
  by (auto simp: is_digit_def is_ws_def ord_def dq_def)

lemma is_ws_simps [simp]: "\<not> is_ws dq" "\<not> is_ws (CHR ''['')" "\<not> is_ws (CHR ''{'')" "\<not> is_ws (CHR '']'')" "\<not> is_ws (CHR ''}'')"
  "\<not> is_ws (CHR '','')" "\<not> is_ws (CHR '':'')" "\<not> is_ws (CHR ''n'')" "\<not> is_ws (CHR ''t'')" "\<not> is_ws (CHR ''f'')" "\<not> is_ws (CHR ''-'')"
  by (simp_all add: is_ws_def dq_def)

lemma writeCanonical_hd:
  assumes "jwf v"
  shows "writeCanonical v \<noteq> []" and "\<not> is_ws (hd (writeCanonical v))"
    and "hd (writeCanonical v) \<notin> {CHR '']'', CHR ''}''}"
proof -
  have *: "writeCanonical v \<noteq> [] \<and> \<not> is_ws (hd (writeCanonical v)) \<and> hd (writeCanonical v) \<notin> {CHR '']'', CHR ''}''}"
  proof (cases v)
    case (JNumber n)
    then have "n \<noteq> []" "is_digit (hd n) \<or> hd n = CHR ''-''" using assms num_form_hd [of n] by simp_all
    with JNumber show ?thesis by (auto dest: is_digit_not)
  next
    case (JObject kvs)
    then show ?thesis by (simp add: Let_def)
  qed (simp_all add: json_quote_def, simp_all add: dq_def)
  then show "writeCanonical v \<noteq> []" and "\<not> is_ws (hd (writeCanonical v))"
    and "hd (writeCanonical v) \<notin> {CHR '']'', CHR ''}''}" by blast+
qed

text \<open>The claim of the round trip for one value, for any sufficient fuel and depth.\<close>

definition parses_back :: "jval \<Rightarrow> bool" where
  "parses_back v \<longleftrightarrow> (\<forall>f d r. num_stop r \<longrightarrow> 2 * length (writeCanonical v) \<le> f \<longrightarrow> jfits v d \<longrightarrow>
     parse_value f d (writeCanonical v @ r) = Some (jcanon v, r))"

lemma skip_ws_value: "jwf v \<Longrightarrow> skip_ws (writeCanonical v @ r) = writeCanonical v @ r"
  using writeCanonical_hd [of v] by (cases "writeCanonical v") simp_all

lemma parse_elems_back:
  assumes "vs \<noteq> []" and "\<forall>v \<in> set vs. parses_back v \<and> jwf v \<and> jfits v d"
    and "2 * length (join_with '','' (map writeCanonical vs)) + 1 \<le> f"
  shows "parse_elems f d (join_with '','' (map writeCanonical vs) @ CHR '']'' # r) = Some (map jcanon vs, r)"
  using assms
proof (induction vs arbitrary: f)
  case (Cons v vs)
  obtain f' where f: "f = Suc f'" using Cons.prems(3) by (cases f) auto
  have pv: "parse_value f' d (writeCanonical v @ q) = Some (jcanon v, q)"
    if "num_stop q" "2 * length (writeCanonical v) \<le> f'" for q
    using Cons.prems(2) that by (simp add: parses_back_def)
  show ?case
  proof (cases "vs = []")
    case True
    then show ?thesis using pv [of "CHR '']'' # r"] Cons.prems(3) by (simp add: f num_stop_def)
  next
    case False
    let ?rest = "join_with '','' (map writeCanonical vs)"
    have j: "join_with '','' (map writeCanonical (v # vs)) = writeCanonical v @ '','' @ ?rest"
      using False by (simp add: join_with_Cons)
    have len: "2 * length (writeCanonical v) \<le> f'" "2 * length ?rest + 1 \<le> f'"
      using Cons.prems(3) writeCanonical_hd(1) [of v] Cons.prems(2) unfolding j f by auto
    then have "parse_elems f' d (?rest @ CHR '']'' # r) = Some (map jcanon vs, r)"
      using Cons.IH [OF False _ len(2)] Cons.prems(2) by simp
    then show ?thesis
      using pv [of "CHR '','' # ?rest @ CHR '']'' # r"] len unfolding j f by (simp add: num_stop_def)
  qed
qed simp

lemma skip_ws_quote [simp]: "skip_ws (json_quote s @ r) = json_quote s @ r"
  by (simp add: json_quote_def)

lemma parse_members_Suc_quote:
  assumes "valid_utf8 k"
  shows "parse_members (Suc f) d (json_quote k @ CHR '':'' # bs) =
    (case parse_value f d bs of
       None \<Rightarrow> None
     | Some (v, r1) \<Rightarrow>
         (case skip_ws r1 of
            [] \<Rightarrow> None
          | c # r' \<Rightarrow>
              if c = CHR '','' then map_option (\<lambda>(ms, q). ((k, v) # ms, q)) (parse_members f d r')
              else if c = CHR ''}'' then Some ([(k, v)], r') else None))"
  using unquote_quote_body [OF assms, of "CHR '':'' # bs"]
  by (simp add: json_quote_def HasPrefix_def)

lemma parse_members_back:
  assumes "kvs \<noteq> []" and "\<forall>p \<in> set kvs. parses_back (snd p) \<and> jwf (snd p) \<and> jfits (snd p) d \<and> valid_utf8 (fst p)"
    and "2 * length (join_with '','' (map write_member kvs)) + 1 \<le> f"
  shows "parse_members f d (join_with '','' (map write_member kvs) @ CHR ''}'' # r) =
    Some (map (\<lambda>p. (fst p, jcanon (snd p))) kvs, r)"
  using assms
proof (induction kvs arbitrary: f)
  case (Cons p kvs)
  obtain k v where p: "p = (k, v)" by (cases p)
  obtain f' where f: "f = Suc f'" using Cons.prems(3) by (cases f) auto
  have k: "valid_utf8 k" using Cons.prems(2) p by simp
  have pv: "parse_value f' d (writeCanonical v @ q) = Some (jcanon v, q)"
    if "num_stop q" "2 * length (writeCanonical v) \<le> f'" for q
    using Cons.prems(2) that by (simp add: parses_back_def p)
  show ?case
  proof (cases "kvs = []")
    case True
    then show ?thesis using pv [of "CHR ''}'' # r"] Cons.prems(3)
      by (simp add: f p num_stop_def write_member_def parse_members_Suc_quote [OF k] del: parse_members.simps)
  next
    case False
    let ?rest = "join_with '','' (map write_member kvs)"
    have j: "join_with '','' (map write_member (p # kvs)) = json_quote k @ '':'' @ writeCanonical v @ '','' @ ?rest"
      using False by (simp add: join_with_Cons write_member_def p)
    have len: "2 * length (writeCanonical v) \<le> f'" "2 * length ?rest + 1 \<le> f'"
      using Cons.prems(3) unfolding j f by auto
    then have "parse_members f' d (?rest @ CHR ''}'' # r) = Some (map (\<lambda>p. (fst p, jcanon (snd p))) kvs, r)"
      using Cons.IH [OF False _ len(2)] Cons.prems(2) by simp
    then show ?thesis
      using pv [of "CHR '','' # ?rest @ CHR ''}'' # r"] len unfolding j f
      by (simp add: p num_stop_def parse_members_Suc_quote [OF k] del: parse_members.simps)
  qed
qed simp

lemma object_of_distinct: "distinct (map fst kvs) \<Longrightarrow> object_of kvs = kvs"
proof -
  have "distinct (map fst (acc @ kvs)) \<Longrightarrow> fold set_member kvs acc = acc @ kvs" for acc
    by (induction kvs arbitrary: acc) (auto simp: set_member_def)
  from this [of "[]"] show "distinct (map fst kvs) \<Longrightarrow> object_of kvs = kvs" by (simp add: object_of_def)
qed

lemma sort_key_map_fst: "sort_key fst (map (\<lambda>p. (fst p, h (snd p))) kvs) = map (\<lambda>p. (fst p, h (snd p))) (sort_key fst kvs)"
proof -
  have i: "map (\<lambda>p. (fst p, h (snd p))) (insort_key fst x xs) = insort_key fst (fst x, h (snd x)) (map (\<lambda>p. (fst p, h (snd p))) xs)" for x xs
    by (induction xs) auto
  show ?thesis by (induction kvs) (simp_all add: i)
qed


lemma distinct_sort_fst: "distinct (map fst kvs) \<Longrightarrow> distinct (map fst (sort_key fst kvs))"
  by (simp flip: sort_map_fst)

lemma parse_array_back:
  assumes "\<And>v. v \<in> set vs \<Longrightarrow> parses_back v" and "jwf (JArray vs)"
  shows "parses_back (JArray vs)"
  unfolding parses_back_def
proof (intro allI impI)
  fix f d r assume "2 * length (writeCanonical (JArray vs)) \<le> f" and fit: "jfits (JArray vs) d"
  then obtain f' where f: "f = Suc f'" and f': "2 * length (join_with '','' (map writeCanonical vs)) + 1 \<le> f'"
    by (cases f) auto
  show "parse_value f d (writeCanonical (JArray vs) @ r) = Some (jcanon (JArray vs), r)"
  proof (cases vs)
    case (Cons v ws)
    let ?t = "join_with '','' (map writeCanonical vs)"
    have e: "parse_elems f' (d - 1) (?t @ CHR '']'' # r) = Some (map jcanon vs, r)"
      using assms fit f' by (intro parse_elems_back) (auto simp: Cons)
    have v: "jwf v" using assms(2) Cons by simp
    obtain x xs where x: "writeCanonical v = x # xs" using writeCanonical_hd(1) [OF v] by (cases "writeCanonical v") auto
    then obtain ys where "?t = x # ys" by (cases ws) (auto simp: Cons)
    moreover have "\<not> is_ws x" "x \<noteq> CHR '']''" using writeCanonical_hd [OF v] x by auto
    ultimately show ?thesis using fit e by (simp add: f HasPrefix_def dq_def)
  qed (use fit in \<open>simp add: f HasPrefix_def dq_def\<close>)
qed

lemma parse_object_back:
  assumes "\<And>p. p \<in> set kvs \<Longrightarrow> parses_back (snd p)" and wf: "jwf (JObject kvs)"
  shows "parses_back (JObject kvs)"
  unfolding parses_back_def
proof (intro allI impI)
  have w: "writeCanonical (JObject kvs) = ''{'' @ join_with '','' (map write_member (sort_key fst kvs)) @ ''}''"
    using wf by (intro writeCanonical_object) simp
  fix f d r assume "2 * length (writeCanonical (JObject kvs)) \<le> f" and fit: "jfits (JObject kvs) d"
  then obtain f' where f: "f = Suc f'" and f': "2 * length (join_with '','' (map write_member (sort_key fst kvs))) + 1 \<le> f'"
    unfolding w by (cases f) auto
  show "parse_value f d (writeCanonical (JObject kvs) @ r) = Some (jcanon (JObject kvs), r)"
  proof (cases "kvs = []")
    case True
    then have "writeCanonical (JObject kvs) = ''{}''" using w by simp
    then show ?thesis using fit True by (simp add: f HasPrefix_def del: writeCanonical.simps) (simp add: dq_def)
  next
    case False
    let ?t = "join_with '','' (map write_member (sort_key fst kvs))"
    let ?ms = "map (\<lambda>p. (fst p, jcanon (snd p))) (sort_key fst kvs)"
    have ne: "sort_key fst kvs \<noteq> []" using False by (metis set_empty set_sort)
    have e: "parse_members f' (d - 1) (?t @ CHR ''}'' # r) = Some (?ms, r)"
      using assms fit f' ne by (intro parse_members_back) auto
    obtain ys where t: "?t = dq # ys"
      using ne by (cases "sort_key fst kvs"; cases "tl (sort_key fst kvs)") (auto simp: write_member_def json_quote_def)
    have "map fst ?ms = map fst (sort_key fst kvs)" by simp
    then have "distinct (map fst ?ms)" using distinct_sort_fst [of kvs] wf by (simp only: jwf.simps)
    then have "JObject (object_of ?ms) = jcanon (JObject kvs)" by (simp add: object_of_distinct sort_key_map_fst)
    then show ?thesis unfolding w using fit e t by (simp add: f HasPrefix_def) (simp add: dq_def)
  qed
qed

lemma parse_literal_simps:
  "parse_literal (''null'' @ r) = Some (JNull, r)" "parse_literal (''true'' @ r) = Some (JBool True, r)"
  "parse_literal (''false'' @ r) = Some (JBool False, r)"
  by (simp_all add: parse_literal_def HasPrefix_def)

lemma parse_number_back:
  assumes "num_form n"
  shows "parses_back (JNumber n)"
  unfolding parses_back_def
proof (intro allI impI)
  fix f d r assume r: "num_stop r" and f: "2 * length (writeCanonical (JNumber n)) \<le> f"
  obtain c m where n: "n = c # m" and c: "is_digit c \<or> c = CHR ''-''" using num_form_hd [OF assms] by (cases n) auto
  obtain f' where f': "f = Suc f'" using f n by (cases f) auto
  have "c \<noteq> dq \<and> c \<noteq> CHR ''['' \<and> c \<noteq> CHR ''{'' \<and> c \<noteq> CHR ''n'' \<and> c \<noteq> CHR ''t'' \<and> c \<noteq> CHR ''f'' \<and> \<not> is_ws c"
    using c by (elim disjE) (rule is_digit_not, simp_all add: dq_def)
  then have ne: "c \<noteq> dq" "c \<noteq> CHR ''[''" "c \<noteq> CHR ''{''" "\<not> is_ws c"
    and "\<not> HasPrefix (c # m @ r) ''null''" "\<not> HasPrefix (c # m @ r) ''true''" "\<not> HasPrefix (c # m @ r) ''false''"
    by (simp_all add: HasPrefix_def)
  then have "parse_literal (c # m @ r) = Some (JNumber n, r)"
    using num_form_scan [OF assms r, unfolded n] by (simp add: parse_literal_def n)
  then show "parse_value f d (writeCanonical (JNumber n) @ r) = Some (jcanon (JNumber n), r)"
    using ne by (simp add: n f')
qed

lemma parse_other_back:
  "parses_back JNull" "parses_back (JBool b)" "valid_utf8 s \<Longrightarrow> parses_back (JString s)"
  unfolding parses_back_def
proof -
  have 1: "\<exists>f'. f = Suc f'" if "2 * length (writeCanonical v) \<le> f" "writeCanonical v \<noteq> []" for f v
    using that by (cases f) auto
  have n: "parse_value (Suc f) d (''null'' @ r) = Some (JNull, r)"
    "parse_value (Suc f) d (''true'' @ r) = Some (JBool True, r)" "parse_value (Suc f) d (''false'' @ r) = Some (JBool False, r)" for f d r
    using parse_literal_simps [of r] by (simp_all add: dq_def)
  show "\<forall>f d r. num_stop r \<longrightarrow> 2 * length (writeCanonical JNull) \<le> f \<longrightarrow> jfits JNull d \<longrightarrow>
      parse_value f d (writeCanonical JNull @ r) = Some (jcanon JNull, r)"
  proof (intro allI impI)
    fix f d r assume "2 * length (writeCanonical JNull) \<le> f"
    then obtain f' where "f = Suc f'" using 1 [of JNull] by auto
    then show "parse_value f d (writeCanonical JNull @ r) = Some (jcanon JNull, r)"
      using n(1) [of f' d r] by (simp del: parse_value.simps)
  qed
  show "\<forall>f d r. num_stop r \<longrightarrow> 2 * length (writeCanonical (JBool b)) \<le> f \<longrightarrow> jfits (JBool b) d \<longrightarrow>
      parse_value f d (writeCanonical (JBool b) @ r) = Some (jcanon (JBool b), r)"
  proof (intro allI impI)
    fix f d r assume "2 * length (writeCanonical (JBool b)) \<le> f"
    then obtain f' where "f = Suc f'" using 1 [of "JBool b"] by (auto split: if_splits)
    then show "parse_value f d (writeCanonical (JBool b) @ r) = Some (jcanon (JBool b), r)"
      using n(2,3) [of f' d r] by (cases b) (simp_all del: parse_value.simps)
  qed
  show "\<forall>f d r. num_stop r \<longrightarrow> 2 * length (writeCanonical (JString s)) \<le> f \<longrightarrow> jfits (JString s) d \<longrightarrow>
      parse_value f d (writeCanonical (JString s) @ r) = Some (jcanon (JString s), r)" if "valid_utf8 s"
  proof (intro allI impI)
    fix f d r assume "2 * length (writeCanonical (JString s)) \<le> f"
    then obtain f' where "f = Suc f'" by (cases f) (auto simp: json_quote_def)
    then show "parse_value f d (writeCanonical (JString s) @ r) = Some (jcanon (JString s), r)"
      using unquote_quote_body [OF that, of r] by (simp add: json_quote_def)
  qed
qed

lemma writeCanonical_parses_back: "jwf v \<Longrightarrow> parses_back v"
proof (induction v)
  case (JArray vs)
  then show ?case by (intro parse_array_back) auto
next
  case (JObject kvs)
  then have "parses_back (snd p)" if "p \<in> set kvs" for p
    using that by (cases p) (fastforce simp: snds.simps)
  then show ?case using JObject.prems by (rule parse_object_back)
qed (simp_all add: parse_other_back parse_number_back)


subsection \<open>What the decoder yields\<close>

lemma object_of_keys: "distinct (map fst (object_of ms))"
  and object_of_subset: "set (object_of ms) \<subseteq> set ms"
proof -
  have "distinct (map fst (set_member kv acc))" if "distinct (map fst acc)" for kv acc
  proof -
    have "map fst (map (\<lambda>p. if fst p = fst kv then kv else p) acc) = map fst acc" by (induction acc) auto
    then show ?thesis using that by (auto simp: set_member_def simp del: map_map)
  qed
  then have "distinct (map fst acc) \<Longrightarrow> distinct (map fst (fold set_member ms acc))" for acc
    by (induction ms arbitrary: acc) simp_all
  then show "distinct (map fst (object_of ms))" by (simp add: object_of_def)
  have "set (fold set_member ms acc) \<subseteq> set ms \<union> set acc" for acc
    by (induction ms arbitrary: acc) (fastforce simp: set_member_def split: if_splits)+
  from this [of "[]"] show "set (object_of ms) \<subseteq> set ms" by (simp add: object_of_def)
qed

lemma parse_literal_wf: "parse_literal bs = Some (v, r) \<Longrightarrow> jwf v \<and> jfits v d"
  by (auto simp: parse_literal_def dest: scan_number_form split: if_splits)

lemma parser_wf:
  "parse_value f d bs = Some (v, r) \<Longrightarrow> jwf v \<and> jfits v d"
  "parse_elems f d bs = Some (vs, r) \<Longrightarrow> \<forall>v \<in> set vs. jwf v \<and> jfits v d"
  "parse_members f d bs = Some (ms, r) \<Longrightarrow> \<forall>p \<in> set ms. valid_utf8 (fst p) \<and> jwf (snd p) \<and> jfits (snd p) d"
proof (induction f d bs and f d bs and f d bs arbitrary: v r and vs r and ms r
    rule: parse_value_parse_elems_parse_members.induct)
  case (2 f d bs)
  obtain c q where cq: "skip_ws bs = c # q" using "2.prems" by (cases "skip_ws bs") auto
  consider "c = dq" | "c \<noteq> dq" "c = CHR ''[''" | "c \<noteq> dq" "c = CHR ''{''"
    | "c \<noteq> dq" "c \<noteq> CHR ''[''" "c \<noteq> CHR ''{''" by blast
  then show ?case
  proof cases
    case 1
    then show ?thesis using "2.prems" cq by (auto dest: unquote_valid)
  next
    case 2
    then show ?thesis using "2.prems" "2.IH"(1) [OF cq] cq by (auto split: if_splits)
  next
    case 3
    then show ?thesis using "2.prems" "2.IH"(2) [OF cq] cq object_of_keys object_of_subset
      by (auto split: if_splits) fastforce+
  next
    case 4
    then show ?thesis using "2.prems" cq by (auto dest: parse_literal_wf)
  qed
next
  case (4 f d bs)
  then show ?case by (auto split: option.splits prod.splits list.splits if_splits)
next
  case (6 f d bs)
  then show ?case using unquote_valid [of "tl (skip_ws bs)"]
    by (auto split: option.splits prod.splits list.splits if_splits) fastforce+
qed simp_all

lemma json_decode_wf: "json_decode bs = Some v \<Longrightarrow> jwf v \<and> jfits v max_depth"
  using parser_wf(1) [of "2 * length bs + 1" max_depth bs v]
  by (auto simp: json_decode_def simp del: parse_value.simps One_nat_def add_Suc_right)

lemma jcanon_wf: "jwf v \<Longrightarrow> jwf (jcanon v) \<and> (\<forall>d. jfits v d \<longrightarrow> jfits (jcanon v) d)"
proof (induction v)
  case (JObject kvs)
  have IH: "jwf (jcanon (snd p)) \<and> (\<forall>d. jfits (snd p) d \<longrightarrow> jfits (jcanon (snd p)) d)" if "p \<in> set kvs" for p
    using JObject that by (cases p) (fastforce simp: snds.simps)
  have "map fst (map (\<lambda>p. (fst p, jcanon (snd p))) kvs) = map fst kvs" by simp
  then have "distinct (map fst (sort_key fst (map (\<lambda>p. (fst p, jcanon (snd p))) kvs)))"
    using JObject.prems by (intro distinct_sort_fst) (simp only: jwf.simps)
  then show ?case using IH JObject.prems by auto
qed auto

lemma writeCanonical_jcanon: "jwf v \<Longrightarrow> writeCanonical (jcanon v) = writeCanonical v"
proof (induction v)
  case (JObject kvs)
  have IH: "writeCanonical (jcanon (snd p)) = writeCanonical (snd p)" if "p \<in> set kvs" for p
    using JObject that by (cases p) (fastforce simp: snds.simps)
  have "map fst (map (\<lambda>p. (fst p, jcanon (snd p))) kvs) = map fst kvs" by simp
  then have d: "distinct (map fst (sort_key fst (map (\<lambda>p. (fst p, jcanon (snd p))) kvs)))"
    using JObject.prems by (intro distinct_sort_fst) (simp only: jwf.simps)
  have m: "map write_member (map (\<lambda>p. (fst p, jcanon (snd p))) (sort_key fst kvs)) = map write_member (sort_key fst kvs)"
    using IH by (auto simp: write_member_def)
  have s: "sort_key fst (sort_key fst (map (\<lambda>p. (fst p, jcanon (snd p))) kvs)) = map (\<lambda>p. (fst p, jcanon (snd p))) (sort_key fst kvs)"
    by (simp add: sort_key_map_fst sort_key_id_if_sorted)
  show ?case
    unfolding jcanon.simps writeCanonical_object [OF d] s m
    using JObject.prems by (simp add: writeCanonical_object del: writeCanonical.simps)
qed (auto intro!: arg_cong [where f = "join_with _"])



subsection \<open>The fuel is enough\<close>

lemma unquote_shorter: "unquote bs = Some (s, r) \<Longrightarrow> length r < length bs"
proof (induction bs arbitrary: s r rule: unquote.induct)
  case (1 bs)
  from "1.prems" show ?case
  proof (subst (asm) unquote.simps, cases "unquote_step bs")
    case (Some x)
    assume a: "(case unquote_step bs of None \<Rightarrow> None | Some (Inl r) \<Rightarrow> Some ([], r)
      | Some (Inr (s, r)) \<Rightarrow> map_option (\<lambda>(t, r'). (s @ t, r')) (unquote r)) = Some (s, r)"
    show ?thesis
    proof (cases x)
      case (Inl q)
      then have "unquote_step bs = Some (Inl r)" using a Some by simp
      then show ?thesis by (auto simp: unquote_step_def split: list.splits if_splits option.splits)
    next
      case (Inr y)
      obtain s' q where y: "y = (s', q)" by (cases y)
      then obtain t where "unquote q = Some (t, r)" using a Some Inr by auto
      then have "length r < length q" using "1.IH" [OF Some Inr y [symmetric]] by simp
      then show ?thesis using unquote_step_shorter [of bs s' q] Some Inr y by simp
    qed
  qed simp
qed

lemma skip_ws_le: "length (skip_ws bs) \<le> length bs"
  by (rule length_dropWhile_le)

lemma skip_ws_Cons_le: "skip_ws bs = c # r \<Longrightarrow> length r < length bs"
  using skip_ws_le [of bs] by simp

lemma HasPrefix_skip_le: "HasPrefix (skip_ws bs) [c] \<Longrightarrow> length (tl (skip_ws bs)) < length bs"
  using skip_ws_le [of bs] by (cases "skip_ws bs") (auto simp: HasPrefix_def)

lemma parse_literal_shorter: "parse_literal bs = Some (v, r) \<Longrightarrow> length r < length bs"
  by (auto simp: parse_literal_def HasPrefix_iff_prefix prefix_def dest!: scan_number_form num_form_hd split: if_splits)

lemma parser_shorter:
  "parse_value f d bs = Some (v, r) \<Longrightarrow> length r < length bs"
  "parse_elems f d bs = Some (vs, r) \<Longrightarrow> length r < length bs"
  "parse_members f d bs = Some (ms, r) \<Longrightarrow> length r < length bs"
proof (induction f d bs and f d bs and f d bs arbitrary: v r and vs r and ms r
    rule: parse_value_parse_elems_parse_members.induct)
  case (2 f d bs)
  obtain c q where cq: "skip_ws bs = c # q" using "2.prems" by (cases "skip_ws bs") auto
  consider "c = dq" | "c \<noteq> dq" "c = CHR ''[''" | "c \<noteq> dq" "c = CHR ''{''"
    | "c \<noteq> dq" "c \<noteq> CHR ''[''" "c \<noteq> CHR ''{''" by blast
  then have "length r < length (c # q)"
  proof cases
    case 1
    then show ?thesis using "2.prems" cq by (auto dest: unquote_shorter)
  next
    case 2
    then show ?thesis using "2.prems" "2.IH"(1) [OF cq] cq HasPrefix_skip_le [of q] by (auto split: if_splits) fastforce
  next
    case 3
    then show ?thesis using "2.prems" "2.IH"(2) [OF cq] cq HasPrefix_skip_le [of q] by (auto split: if_splits) fastforce
  next
    case 4
    then have "parse_literal (c # q) = Some (v, r)" using "2.prems" cq by simp
    then show ?thesis by (rule parse_literal_shorter)
  qed
  then show ?case using skip_ws_le [of bs] cq by simp
next
  case (4 f d bs)
  obtain v q where v: "parse_value f d bs = Some (v, q)" using "4.prems" by (cases "parse_value f d bs") auto
  then obtain c q' where c: "skip_ws q = c # q'" using "4.prems" by (cases "skip_ws q") auto
  have "length q < length bs" "length q' < length q" using "4.IH"(1) v skip_ws_Cons_le [OF c] by auto
  moreover have "length r \<le> length q'"
    using "4.prems" "4.IH"(2) [OF v _ c] v c by (fastforce split: if_splits)
  ultimately show ?case by simp
next
  case (6 f d bs)
  obtain k q where p: "HasPrefix (skip_ws bs) [dq]" and k: "unquote (tl (skip_ws bs)) = Some (k, q)"
    and h: "HasPrefix (skip_ws q) '':''"
    using "6.prems" by (auto split: if_splits option.splits)
  obtain v q1 where v: "parse_value f d (tl (skip_ws q)) = Some (v, q1)" using "6.prems" p k h
    by (cases "parse_value f d (tl (skip_ws q))") auto
  then obtain c q' where c: "skip_ws q1 = c # q'" using "6.prems" p k h by (cases "skip_ws q1") auto
  have "length q < length bs" using HasPrefix_skip_le [OF p] unquote_shorter [OF k] by simp
  moreover have "length q1 < length q" using HasPrefix_skip_le [OF h] "6.IH"(1) [OF p k _ h v] by simp
  moreover have "length q' < length q1" by (rule skip_ws_Cons_le [OF c])
  moreover have "length r \<le> length q'"
    using "6.prems" "6.IH"(2) [OF p k _ h v _ c] p k h v c by (fastforce split: if_splits)
  ultimately show ?case by simp
qed simp_all


lemmas parser_simps = parse_value.simps parse_elems.simps parse_members.simps dropWhile_eq_Nil_conv

lemma parser_fuel_Suc:
  "2 * length bs + 1 \<le> f \<Longrightarrow> parse_value (Suc f) d bs = parse_value f d bs"
  "2 * length bs + 2 \<le> f \<Longrightarrow> parse_elems (Suc f) d bs = parse_elems f d bs"
  "2 * length bs + 2 \<le> f \<Longrightarrow> parse_members (Suc f) d bs = parse_members f d bs"
proof (induction f d bs and f d bs and f d bs rule: parse_value_parse_elems_parse_members.induct)
  case (2 f d bs)
  show ?case
  proof (cases "skip_ws bs")
    case (Cons c q)
    then have "2 * length q + 2 \<le> f" using skip_ws_Cons_le [OF Cons] "2.prems" by simp
    then show ?thesis using "2.IH" [OF Cons] Cons parse_value.simps(2) [of "Suc f"] parse_value.simps(2) [of f]
      by (simp del: parse_value.simps)
  qed (simp only: parse_value.simps list.case)
next
  case (4 f d bs)
  have v: "parse_value (Suc f) d bs = parse_value f d bs" using "4.IH"(1) "4.prems" by simp
  have e: "parse_elems (Suc f) d q' = parse_elems f d q'"
    if p: "parse_value f d bs = Some (x, q)" and c: "skip_ws q = CHR '','' # q'" for x q q'
    using "4.IH"(2) [OF p _ c] parser_shorter(1) [OF p] skip_ws_Cons_le [OF c] "4.prems" by simp
  show ?case
    by (rule trans [OF parse_elems.simps(2) trans [OF _ parse_elems.simps(2) [symmetric]]])
      (use e in \<open>auto simp: v simp del: parser_simps split: option.split list.split\<close>)
next
  case (6 f d bs)
  show ?case
  proof (cases "HasPrefix (skip_ws bs) [dq]")
    case p: True
    show ?thesis
    proof (cases "unquote (tl (skip_ws bs))")
      case (Some y)
      obtain k q where y: "y = (k, q)" by (cases y)
      note k = Some [unfolded y]
      have lq: "length q < length bs" using HasPrefix_skip_le [OF p] unquote_shorter [OF k] by simp
      show ?thesis
      proof (cases "HasPrefix (skip_ws q) '':''")
        case h: True
        have v: "parse_value (Suc f) d (tl (skip_ws q)) = parse_value f d (tl (skip_ws q))"
          using "6.IH"(1) [OF p k _ h] lq HasPrefix_skip_le [OF h] "6.prems" by simp
        have e: "parse_members (Suc f) d q' = parse_members f d q'"
          if w: "parse_value f d (tl (skip_ws q)) = Some (x, q1)" and c: "skip_ws q1 = CHR '','' # q'" for x q1 q'
          using "6.IH"(2) [OF p k _ h w _ c] lq HasPrefix_skip_le [OF h] parser_shorter(1) [OF w]
            skip_ws_Cons_le [OF c] "6.prems" by simp
        show ?thesis
          by (rule trans [OF parse_members.simps(2) trans [OF _ parse_members.simps(2) [symmetric]]])
            (use e p h in \<open>auto simp: k v simp del: parser_simps split: option.split list.split\<close>)
      qed (simp add: k)
    qed simp
  qed simp
qed simp_all

lemma parser_fuel: "2 * length bs + 1 \<le> f \<Longrightarrow> parse_value f d bs = parse_value (2 * length bs + 1) d bs"
proof (induction f rule: dec_induct)
  case (step n)
  then show ?case using parser_fuel_Suc(1) [of bs n d] by simp
qed simp


subsection \<open>Equality of values\<close>

text \<open>The values that Go compares equal: arrays elementwise, objects as maps.\<close>

inductive same_json :: "jval \<Rightarrow> jval \<Rightarrow> bool" where
  SNull: "same_json JNull JNull"
| SBool: "same_json (JBool b) (JBool b)"
| SNumber: "same_json (JNumber n) (JNumber n)"
| SString: "same_json (JString s) (JString s)"
| SArray: "list_all2 same_json vs ws \<Longrightarrow> same_json (JArray vs) (JArray ws)"
| SObject: "(\<And>k. rel_option same_json (map_of a k) (map_of b k)) \<Longrightarrow> same_json (JObject a) (JObject b)"

abbreviation canon_members :: "(bytes \<times> jval) list \<Rightarrow> (bytes \<times> jval) list" where
  "canon_members kvs \<equiv> map (\<lambda>p. (fst p, jcanon (snd p))) kvs"

lemma map_of_canon: "map_of (canon_members kvs) k = map_option jcanon (map_of kvs k)"
  by (induction kvs) auto

lemma distinct_canon: "distinct (map fst kvs) \<Longrightarrow> distinct (map fst (canon_members kvs))"
proof -
  have "map fst (canon_members kvs) = map fst kvs" by simp
  then show "distinct (map fst kvs) \<Longrightarrow> ?thesis" by (simp only:)
qed

lemma sort_key_eq_iff:
  assumes "distinct (map fst xs)" and "distinct (map fst ys)"
  shows "sort_key fst xs = sort_key fst ys \<longleftrightarrow> map_of xs = map_of ys"
proof -
  have "sort_key fst xs = sort_key fst ys \<longleftrightarrow> mset xs = mset ys"
  proof
    assume "mset xs = mset ys"
    then show "sort_key fst xs = sort_key fst ys"
      using assms(1) by (intro sort_key_inj_key_eq) (simp_all add: distinct_map)
  qed (metis mset_sort)
  also have "\<dots> \<longleftrightarrow> set xs = set ys"
    using assms by (simp add: set_eq_iff_mset_eq_distinct distinct_map)
  also have "\<dots> \<longleftrightarrow> map_of xs = map_of ys" using assms by (simp add: map_of_inject_set)
  finally show ?thesis .
qed

lemma jcanon_object_eq:
  assumes "jwf (JObject a)" and "jwf (JObject b)"
  shows "jcanon (JObject a) = jcanon (JObject b) \<longleftrightarrow> (\<forall>k. map_option jcanon (map_of a k) = map_option jcanon (map_of b k))"
  using assms sort_key_eq_iff [OF distinct_canon distinct_canon, of a b] by (simp add: fun_eq_iff map_of_canon)

lemma jcanon_eq_same: "jcanon v = jcanon w \<Longrightarrow> jwf v \<Longrightarrow> jwf w \<Longrightarrow> same_json v w"
proof (induction v arbitrary: w)
  case (JArray vs)
  obtain ws where w: "w = JArray ws" using JArray.prems(1) by (cases w) auto
  then have "map jcanon vs = map jcanon ws" using JArray.prems(1) by simp
  then have "list_all2 same_json vs ws"
    using JArray.IH JArray.prems(2,3) by (auto simp: w list_all2_conv_all_nth list_eq_iff_nth_eq)
  then show ?case by (simp add: w same_json.SArray)
next
  case (JObject a)
  obtain b where w: "w = JObject b" using JObject.prems(1) by (cases w) auto
  have e: "map_option jcanon (map_of a k) = map_option jcanon (map_of b k)" for k
    using jcanon_object_eq [of a b] JObject.prems w by simp
  have "rel_option same_json (map_of a k) (map_of b k)" for k
  proof (cases "map_of a k")
    case None
    then show ?thesis using e [of k] by simp
  next
    case (Some x)
    then obtain y where y: "map_of b k = Some y" "jcanon x = jcanon y" using e [of k] by (cases "map_of b k") auto
    have "(k, x) \<in> set a" "(k, y) \<in> set b" using Some y by (auto dest: map_of_SomeD)
    then show ?thesis using JObject.IH [of "(k, x)" x y] JObject.prems y Some by (force simp: w snds.simps)
  qed
  then show ?case unfolding w by (rule same_json.SObject)
next
  case JNull then show ?case by (cases w) (auto intro: same_json.intros)
next
  case (JBool b) then show ?case by (cases w) (auto intro: same_json.intros)
next
  case (JNumber b) then show ?case by (cases w) (auto intro: same_json.intros)
next
  case (JString b) then show ?case by (cases w) (auto intro: same_json.intros)
qed

lemma same_jcanon_eq: "same_json v w \<Longrightarrow> jwf v \<Longrightarrow> jwf w \<Longrightarrow> jcanon v = jcanon w"
proof (induction rule: same_json.induct)
  case (SArray vs ws)
  then show ?case by (auto simp: list_all2_conv_all_nth intro: nth_equalityI)
next
  case (SObject a b)
  have "map_option jcanon (map_of a k) = map_option jcanon (map_of b k)" for k
    using SObject(1) [of k] SObject.prems
    by (cases "map_of a k"; cases "map_of b k") (force dest: map_of_SomeD)+
  then show ?case using jcanon_object_eq [OF SObject.prems] by blast
qed simp_all



subsection \<open>The properties of the canonicaliser\<close>

lemma json_decode_canonical:
  assumes "jwf v" and "jfits v max_depth"
  shows "json_decode (writeCanonical v) = Some (jcanon v)"
proof -
  have "parse_value (2 * length (writeCanonical v) + 1) max_depth (writeCanonical v @ []) = Some (jcanon v, [])"
    using writeCanonical_parses_back [OF assms(1), unfolded parses_back_def, rule_format, of "[]"] assms(2)
    by (simp add: num_stop_def del: parser_simps)
  then show ?thesis by (simp only: json_decode_def append_Nil2 option.map fst_conv)
qed

lemma canonicalJSON_SomeD:
  assumes "canonicalJSON raw = Some c"
  obtains v where "json_decode raw = Some v" "c = writeCanonical v" "jwf v" "jfits v max_depth"
  using assms json_decode_wf [of raw] by (auto simp: canonicalJSON_def)

lemma canonicalJSON_idempotent: "canonicalJSON raw = Some c \<Longrightarrow> canonicalJSON c = Some c"
  by (erule canonicalJSON_SomeD) (simp add: canonicalJSON_def json_decode_canonical writeCanonical_jcanon)

text \<open>
  C27. Two texts have the same canonical form exactly when they denote the same value: object members may
  come in any order, with any white space and any escapes, and nothing else may differ.
\<close>
theorem canonicalJSON_same_iff:
  assumes "json_decode a = Some v" and "json_decode b = Some w"
  shows "canonicalJSON a = canonicalJSON b \<longleftrightarrow> same_json v w"
proof -
  have wf: "jwf v" "jfits v max_depth" "jwf w" "jfits w max_depth" using assms json_decode_wf by blast+
  have "jcanon v = jcanon w" if "writeCanonical v = writeCanonical w"
    using json_decode_canonical [OF wf(1,2)] json_decode_canonical [OF wf(3,4)] that by simp
  moreover have "writeCanonical v = writeCanonical w" if "jcanon v = jcanon w"
    using writeCanonical_jcanon [OF wf(1)] writeCanonical_jcanon [OF wf(3)] that by simp
  moreover have "jcanon v = jcanon w \<longleftrightarrow> same_json v w"
    using jcanon_eq_same same_jcanon_eq wf(1,3) by blast
  ultimately show ?thesis using assms by (auto simp: canonicalJSON_def)
qed

definition demo_obj_a :: bytes where
  "demo_obj_a = [CHR ''{'', dq, CHR ''b'', dq, CHR '':'', CHR ''1'', CHR '','', dq, CHR ''a'', dq, CHR '':'', CHR ''2'', CHR ''}'']"

definition demo_obj_b :: bytes where
  "demo_obj_b = [CHR ''{'', dq, CHR ''a'', dq, CHR '':'', CHR ''2'', CHR '','', CHR '' '', dq, CHR ''b'', dq, CHR '':'', CHR ''1'', CHR ''}'']"

theorem canonicalJSON_same_iff_witness:
  "demo_obj_a \<noteq> demo_obj_b \<and> canonicalJSON demo_obj_a = canonicalJSON demo_obj_b"
proof -
  have "json_decode demo_obj_a = Some (JObject [(''b'', JNumber ''1''), (''a'', JNumber ''2'')])"
    "json_decode demo_obj_b = Some (JObject [(''a'', JNumber ''2''), (''b'', JNumber ''1'')])" by code_simp+
  moreover have "same_json (JObject [(''b'', JNumber ''1''), (''a'', JNumber ''2'')]) (JObject [(''a'', JNumber ''2''), (''b'', JNumber ''1'')])"
    by (rule same_json.SObject) (auto intro: same_json.intros)
  ultimately show ?thesis using canonicalJSON_same_iff by (auto simp: demo_obj_a_def demo_obj_b_def)
qed



subsection \<open>Lists of diagnostics\<close>

lemma raw_elems_back:
  assumes "vs \<noteq> []" and "\<forall>v \<in> set vs. jwf v \<and> jfits v (max_depth - 1)" and "length vs \<le> f"
  shows "raw_elems f (join_with '','' (map writeCanonical vs) @ CHR '']'' # r) = Some (map writeCanonical vs, r)"
  using assms
proof (induction vs arbitrary: f)
  case (Cons v vs)
  obtain f' where f: "f = Suc f'" using Cons.prems(3) by (cases f) auto
  let ?q = "if vs = [] then CHR '']'' # r else CHR '','' # join_with '','' (map writeCanonical vs) @ CHR '']'' # r"
  let ?b = "writeCanonical v @ ?q"
  have b: "join_with '','' (map writeCanonical (v # vs)) @ CHR '']'' # r = ?b" by (simp add: join_with_Cons)
  have wf: "jwf v" "jfits v (max_depth - 1)" using Cons.prems(2) by auto
  have "parse_value (2 * length ?b + 1) (max_depth - 1) ?b = Some (jcanon v, ?q)"
    using wf(2) by (intro writeCanonical_parses_back [OF wf(1), unfolded parses_back_def, rule_format]) (simp_all add: num_stop_def)
  then have "raw_elems f ?b = (if vs = [] then Some ([writeCanonical v], r)
      else map_option (\<lambda>(rs, q). (writeCanonical v # rs, q)) (raw_elems f' (tl ?q)))"
    unfolding f raw_elems.simps Let_def skip_ws_value [OF wf(1)] by (simp del: parser_simps)
  then show ?case unfolding b using Cons.IH [of f'] Cons.prems by (auto simp: f)
qed simp

lemma canonical_all_values:
  "canonical_all i ds = Inr cs \<Longrightarrow> \<exists>vs. map json_decode ds = map Some vs \<and> cs = map writeCanonical vs"
proof (induction i ds arbitrary: cs rule: canonical_all.induct)
  case (2 i d ds)
  then obtain v cs' where "json_decode d = Some v" "canonical_all (Suc i) ds = Inr cs'" "cs = writeCanonical v # cs'"
    by (auto simp: canonicalJSON_def split: option.splits sum.splits)
  moreover then obtain vs where "map json_decode ds = map Some vs" "cs' = map writeCanonical vs" using "2.IH" by (auto simp: canonicalJSON_def)
  ultimately show ?case by (intro exI [of _ "v # vs"]) simp
qed simp

lemma join_ne: "vs \<noteq> [] \<Longrightarrow> \<forall>v \<in> set vs. jwf v \<Longrightarrow>
    \<exists>c r. join_with '','' (map writeCanonical vs) = c # r \<and> \<not> is_ws c \<and> c \<noteq> CHR '']''"
proof (cases vs)
  case (Cons v ws)
  moreover assume "\<forall>v \<in> set vs. jwf v"
  ultimately have "writeCanonical v \<noteq> []" "\<not> is_ws (hd (writeCanonical v))" "hd (writeCanonical v) \<noteq> CHR '']''"
    using writeCanonical_hd [of v] by auto
  then show ?thesis using Cons by (cases "writeCanonical v"; cases ws) auto
qed simp

lemma unmarshal_back:
  assumes "vs \<noteq> []" and "\<forall>v \<in> set vs. jwf v \<and> jfits v (max_depth - 1)"
  shows "unmarshalDiagnostics (''['' @ join_with '','' (map writeCanonical vs) @ '']'') = Inr (map writeCanonical vs)"
proof -
  let ?j = "join_with '','' (map writeCanonical vs)"
  obtain c r where j: "?j = c # r" and c: "\<not> is_ws c" "c \<noteq> CHR '']''" using join_ne [of vs] assms by blast
  have "length vs \<le> length (?j @ '']'')"
    using assms(2) writeCanonical_hd(1)
  proof (induction vs)
    case (Cons v vs)
    then have "0 < length (writeCanonical v)" by auto
    then show ?case using Cons by (cases vs) auto
  qed simp
  then have "raw_elems (length (?j @ '']'')) (?j @ '']'') = Some (map writeCanonical vs, [])"
    by (rule raw_elems_back [OF assms])
  then show ?thesis using j c
    by (auto simp: unmarshalDiagnostics_def unmarshal_raws_def HasPrefix_def simp del: raw_elems.simps)
qed

text \<open>
  A list of diagnostics that was marshalled is read back: element by element in canonical form, in
  the same order, and marshalling what was read gives the same bytes again.  The array takes one level
  of the decoder's 10000 levels of nesting, so each diagnostic must fit in the remaining ones.
\<close>

lemma diagnostics_roundtrip:
  assumes "marshalDiagnostics ds = Inr b"
    and "\<forall>d \<in> set ds. jfits (the (json_decode d)) (max_depth - 1)"
  shows "\<exists>cs. unmarshalDiagnostics b = Inr cs \<and> map canonicalJSON ds = map Some cs \<and> marshalDiagnostics cs = Inr b"
proof (cases "ds = []")
  case True
  then show ?thesis using assms(1) by (simp add: marshalDiagnostics_def unmarshalDiagnostics_def)
next
  case False
  then obtain cs where cs: "canonical_all 0 ds = Inr cs" and b: "b = ''['' @ join_with '','' cs @ '']''"
    using assms(1) by (auto simp: marshalDiagnostics_def split: sum.splits)
  obtain vs where vs: "map json_decode ds = map Some vs" "cs = map writeCanonical vs" using canonical_all_values [OF cs] by blast
  have fit: "jwf v \<and> jfits v max_depth \<and> jfits v (max_depth - 1)" if v: "v \<in> set vs" for v
  proof -
    have "Some v \<in> set (map json_decode ds)" using v unfolding vs(1) by simp
    then obtain d where "d \<in> set ds" "json_decode d = Some v" by auto
    then show ?thesis using assms(2) json_decode_wf by fastforce
  qed
  have ne: "vs \<noteq> []" using vs(1) False by auto
  have "canonical_all i (map writeCanonical vs) = Inr (map writeCanonical vs)" for i
    using fit by (induction vs arbitrary: i)
      (simp_all add: canonicalJSON_def json_decode_canonical writeCanonical_jcanon)
  then have "marshalDiagnostics cs = Inr b" using ne by (simp add: marshalDiagnostics_def b vs(2))
  moreover have "map canonicalJSON ds = map Some cs"
    using arg_cong [OF vs(1), of "map (map_option writeCanonical)"] by (simp add: canonicalJSON_def [abs_def] vs(2) comp_def)
  moreover have "unmarshalDiagnostics b = Inr cs" unfolding b vs(2) using unmarshal_back [OF ne] fit by blast
  ultimately show ?thesis by blast
qed

end
