(* ===== verification/L1Cache.thy ===== *)
theory L1Cache
  imports L2Cache JsonProps
begin

text \<open>
  The analyzer cache (\<^verbatim>\<open>internal/cache/l1.go\<close>): the entry, its encoding with canonicalised diagnostics,
  the validation of analyzer names, the configuration salt, the key, and the operations on any backend.

  \<^verbatim>\<open>validateAnalyzerName\<close> ranges over runes; the runes it tests are ASCII, and an ASCII byte is never part
  of a longer UTF-8 form, so the test is one on bytes.  Error texts are those of the code without the
  quotes of \<^verbatim>\<open>%q\<close>.
\<close>

record L1Entry =
  l1Analyzer :: string
  l1PackageID :: string
  l1InputDigest :: bytes
  l1DepFactsDigest :: bytes
  l1DepTypeDigest :: bytes
  l1AnalyzerVersion :: string
  l1ConfigSalt :: bytes
  l1ToolVersion :: string
  l1Diagnostics :: "bytes list"
  l1ObjectFacts :: bytes
  l1PackageFacts :: bytes
  l1Result :: bytes

definition l1_sections :: "L1Entry \<Rightarrow> bytes \<Rightarrow> bytes list" where
  "l1_sections e diagBytes =
     [l1Analyzer e, l1PackageID e, l1InputDigest e, l1DepFactsDigest e, l1DepTypeDigest e, l1AnalyzerVersion e,
      l1ConfigSalt e, l1ToolVersion e, diagBytes, l1ObjectFacts e, l1PackageFacts e, l1Result e]"

definition L1Entry_Encode :: "L1Entry \<Rightarrow> bytes result" where
  "L1Entry_Encode e =
     (case marshalDiagnostics (l1Diagnostics e) of
        Inl err \<Rightarrow> Inl (''encode L1: diagnostics: '' @ err)
      | Inr diagBytes \<Rightarrow> Inr (writeEnvelope kindL1 (l1_sections e diagBytes)))"

definition DecodeL1 :: "bytes \<Rightarrow> L1Entry result" where
  "DecodeL1 b =
     (case readEnvelope b kindL1 of
        Inl e \<Rightarrow> Inl e
      | Inr secs \<Rightarrow>
          if length secs \<noteq> 12 then Inl (''L1 envelope: want 12 sections, got '' @ itoa (int (length secs)))
          else case fillDigest (secs ! 2) ''InputDigest'' of Inl e \<Rightarrow> Inl e | Inr inp \<Rightarrow>
               (case fillDigest (secs ! 3) ''DepFactsDigest'' of Inl e \<Rightarrow> Inl e | Inr dfd \<Rightarrow>
               (case fillDigest (secs ! 4) ''DepTypeDigest'' of Inl e \<Rightarrow> Inl e | Inr dtd \<Rightarrow>
               (case fillDigest (secs ! 6) ''ConfigSalt'' of Inl e \<Rightarrow> Inl e | Inr slt \<Rightarrow>
               (case unmarshalDiagnostics (secs ! 8) of Inl e \<Rightarrow> Inl e | Inr diags \<Rightarrow>
                  Inr \<lparr>l1Analyzer = secs ! 0, l1PackageID = secs ! 1, l1InputDigest = inp, l1DepFactsDigest = dfd,
                       l1DepTypeDigest = dtd, l1AnalyzerVersion = secs ! 5, l1ConfigSalt = slt, l1ToolVersion = secs ! 7,
                       l1Diagnostics = diags, l1ObjectFacts = secs ! 9, l1PackageFacts = secs ! 10, l1Result = secs ! 11\<rparr>)))))"

text \<open>The reason a name is refused, or \<open>None\<close>.\<close>

fun bad_rune :: "string \<Rightarrow> string option" where
  "bad_rune [] = None"
| "bad_rune (r # rs) =
     (if r = CHR ''/'' \<or> r = CHR 0x5C \<or> r = CHR '':'' then Some ''contains path separator''
      else if (of_char r :: nat) < 0x20 \<or> (of_char r :: nat) = 0x7F then Some ''contains control character''
      else bad_rune rs)"

definition validateAnalyzerName :: "string \<Rightarrow> string option" where
  "validateAnalyzerName name =
     (if name = [] then Some ''empty''
      else if name = ''.'' \<or> name = ''..'' then Some ''reserved path component''
      else if TrimSpace name \<noteq> name then Some ''leading or trailing whitespace''
      else case bad_rune name of
             Some reason \<Rightarrow> Some reason
           | None \<Rightarrow> if list_ex (\<lambda>part. part = ''..'') (split_on (CHR ''/'') name) then Some ''contains .. component'' else None)"

definition ErrInvalidAnalyzerName :: "string \<Rightarrow> string \<Rightarrow> string" where
  "ErrInvalidAnalyzerName name reason = ''invalid analyzer name '' @ name @ '': '' @ reason"

definition ComputeL1ActionID :: "L1Entry \<Rightarrow> actionID" where
  "ComputeL1ActionID e =
     NewActionID [l1Analyzer e, l1PackageID e, l1InputDigest e, l1DepFactsDigest e, l1DepTypeDigest e,
       l1AnalyzerVersion e, l1ConfigSalt e, l1ToolVersion e]"

definition salt_input :: "string \<Rightarrow> bytes \<Rightarrow> bytes" where
  "salt_input analyzer canonical = analyzer @ (if canonical \<noteq> [] then le 8 (length canonical) @ canonical else [])"

definition ConfigSaltForAnalyzer :: "string \<Rightarrow> bytes \<Rightarrow> bytes" where
  "ConfigSaltForAnalyzer analyzer canonical = sha256 (salt_input analyzer canonical)"

definition WriteL1 ::
    "('s \<Rightarrow> string \<Rightarrow> actionID \<Rightarrow> bytes \<Rightarrow> 's \<times> string option) \<Rightarrow> 's \<Rightarrow> L1Entry \<Rightarrow> actionID \<Rightarrow> 's \<times> string option" where
  "WriteL1 put s e aid =
     (case validateAnalyzerName (l1Analyzer e) of
        Some reason \<Rightarrow> (s, Some (''WriteL1: '' @ ErrInvalidAnalyzerName (l1Analyzer e) reason))
      | None \<Rightarrow> (case L1Entry_Encode e of
                   Inl err \<Rightarrow> (s, Some err)
                 | Inr data \<Rightarrow> put s (l1Namespace (l1Analyzer e)) aid data))"

definition ReadL1 ::
    "('s \<Rightarrow> string \<Rightarrow> actionID \<Rightarrow> 's \<times> bytes result) \<Rightarrow> 's \<Rightarrow> string \<Rightarrow> actionID \<Rightarrow> 's \<times> L1Entry result" where
  "ReadL1 get s analyzer aid =
     (case validateAnalyzerName analyzer of
        Some reason \<Rightarrow> (s, Inl (''ReadL1: '' @ ErrInvalidAnalyzerName analyzer reason))
      | None \<Rightarrow> (case get s (l1Namespace analyzer) aid of
                   (s', Inl e) \<Rightarrow> (s', Inl e) | (s', Inr data) \<Rightarrow> (s', DecodeL1 data)))"

definition HasL1 :: "('s \<Rightarrow> string \<Rightarrow> actionID \<Rightarrow> bool) \<Rightarrow> 's \<Rightarrow> string \<Rightarrow> actionID \<Rightarrow> bool" where
  "HasL1 has s analyzer aid =
     (case validateAnalyzerName analyzer of Some _ \<Rightarrow> False | None \<Rightarrow> has s (l1Namespace analyzer) aid)"


subsection \<open>Analyzer names\<close>

definition name_rune :: "char \<Rightarrow> bool" where
  "name_rune r \<longleftrightarrow> r \<noteq> CHR 0x5C \<and> r \<noteq> CHR '':'' \<and> 0x20 \<le> (of_char r :: nat) \<and> (of_char r :: nat) \<noteq> 0x7F"

lemma bad_rune_None: "bad_rune s = None \<longleftrightarrow> CHR ''/'' \<notin> set s \<and> list_all name_rune s"
  by (induction s) (auto simp: name_rune_def)

lemma validateAnalyzerName_None:
  "validateAnalyzerName name = None \<longleftrightarrow>
     name \<noteq> [] \<and> name \<noteq> ''.'' \<and> name \<noteq> ''..'' \<and> TrimSpace name = name \<and> bad_rune name = None"
proof -
  have "split_on (CHR ''/'') name = [name]" if "bad_rune name = None"
    using that by (intro split_on_id) (simp add: bad_rune_None)
  then show ?thesis by (auto simp: validateAnalyzerName_def split: option.split)
qed

text \<open>
  A name is accepted exactly when it is one path segment without separators, drive colons or control
  characters, and without white space at either end.  In particular the last check of the code, for a
  \<^verbatim>\<open>..\<close> component, never decides: a name with a slash is refused before it.
\<close>
theorem validateAnalyzerName_exact:
  "validateAnalyzerName name = None \<longleftrightarrow> plain_seg name \<and> TrimSpace name = name \<and> list_all name_rune name"
  unfolding validateAnalyzerName_None plain_seg_def bad_rune_None by blast

lemma valid_name:
  assumes "validateAnalyzerName name = None"
  shows "plain_seg name" and "\<And>r. r \<in> set name \<Longrightarrow> 0x20 \<le> (of_char r :: nat)"
  using assms by (auto simp: validateAnalyzerName_None bad_rune_None plain_seg_def name_rune_def list_all_iff)


subsection \<open>The configuration salt\<close>

lemma le_append: "le (j + k) n = le j n @ le k (n div 256 ^ j)"
  by (induction j arbitrary: n) (simp_all add: div_mult2_eq)

lemma le_zero: "n < 256 ^ j \<Longrightarrow> 0 < k \<Longrightarrow> CHR 0x00 \<in> set (le (j + k) n)"
  by (cases k) (simp_all only: le_append, simp_all add: char_of_def)

text \<open>
  A salt input cannot be read in two ways: a longer name would have to contain bytes of the length
  field, and then the field's remaining bytes would state a wrong length.
\<close>

lemma salt_no_overlap:
  assumes eq: "le 8 (length c) @ c = d @ y" and d: "d \<noteq> []" "\<And>r. r \<in> set d \<Longrightarrow> 0x20 \<le> (of_char r :: nat)"
    and c: "length c < 2 ^ 32" and y: "y = [] \<or> (\<exists>c'. y = le 8 (length c') @ c' \<and> length c' < 2 ^ 32)"
  shows False
proof -
  let ?n = "length c" and ?k = "length d"
  have zero: "CHR 0x00 \<notin> set d" using d(2) [of "CHR 0x00"] by auto
  have k: "?k \<le> 4"
  proof (rule ccontr)
    assume "\<not> ?k \<le> 4"
    then have "set (take 5 (d @ y)) \<subseteq> set d" using set_take_subset [of 5 d] by simp
    moreover have "take 5 (le 8 ?n @ c) = le (4 + 1) ?n" using le_append [of 5 3 ?n] by simp
    ultimately have "set (le (4 + 1) ?n) \<subseteq> set d" using eq by (simp only:)
    then show False using le_zero [of ?n 4 1] c zero by auto
  qed
  have "le 8 ?n = le ?k ?n @ le (8 - ?k) (?n div 256 ^ ?k)" using le_append [of ?k "8 - ?k" ?n] k by simp
  then have "d = le ?k ?n" and y': "y = le (8 - ?k) (?n div 256 ^ ?k) @ c"
    using eq append_eq_append_conv [of d "le ?k ?n" y "le (8 - ?k) (?n div 256 ^ ?k) @ c"] by auto
  then have "hd d = char_of (?n mod 256)" using d(1) by (cases ?k) auto
  then have "0x20 \<le> ?n mod 256" using d(2) [OF hd_in_set [OF d(1)]] by simp
  then have n32: "32 \<le> ?n" by (meson le_trans mod_less_eq_dividend numeral_le_iff order_refl)
  obtain c' where c': "y = le 8 (length c') @ c'" "length c' < 2 ^ 32" using y y' n32 by auto
  have "length c' = ?n - ?k" using arg_cong [OF y', of length] c'(1) k by simp
  moreover have "length c' mod 256 ^ (8 - ?k) = (?n div 256 ^ ?k) mod 256 ^ (8 - ?k)"
  proof -
    have "le 8 (length c') = le (8 - ?k) (length c') @ le ?k (length c' div 256 ^ (8 - ?k))"
      using le_append [of "8 - ?k" ?k "length c'"] k by simp
    then have "le (8 - ?k) (length c') = le (8 - ?k) (?n div 256 ^ ?k)" using y' c'(1) by simp
    then show ?thesis by (metis unle_le_mod)
  qed
  moreover have "length c' < 256 ^ (8 - ?k)" "?n div 256 ^ ?k < 256 ^ (8 - ?k)"
  proof -
    have "(2 ^ 32 :: nat) = 256 ^ 4" by simp
    also have "(256 :: nat) ^ 4 \<le> 256 ^ (8 - ?k)" using k by (intro power_increasing) auto
    finally have "(2 ^ 32 :: nat) \<le> 256 ^ (8 - ?k)" .
    then show "length c' < 256 ^ (8 - ?k)" "?n div 256 ^ ?k < 256 ^ (8 - ?k)"
      using c' c div_le_dividend [of ?n "256 ^ ?k"] by linarith+
  qed
  ultimately have "?n - ?k = ?n div 256 ^ ?k" by simp
  also have "\<dots> \<le> ?n div 256" using d(1) by (cases d) (auto simp: div_mult2_eq intro: div_le_dividend)
  finally show False using k n32 by linarith
qed

definition salt_ok :: "string \<times> bytes \<Rightarrow> bool" where
  "salt_ok p \<longleftrightarrow> validateAnalyzerName (fst p) = None \<and> length (snd p) < 2 ^ 32"

lemma salt_prefix:
  assumes "salt_input a c = salt_input b c'" and "salt_ok (a, c)" and "salt_ok (b, c')" and "length a \<le> length b"
  shows "a = b"
proof (rule ccontr)
  assume ne: "a \<noteq> b"
  let ?x = "if c \<noteq> [] then le 8 (length c) @ c else []"
  let ?y = "if c' \<noteq> [] then le 8 (length c') @ c' else []"
  have e: "a @ ?x = b @ ?y" using assms(1) by (simp only: salt_input_def)
  define d where "d = drop (length a) b"
  have "take (length a) b = a" using arg_cong [OF e, of "take (length a)"] assms(4) by simp
  then have d: "b = a @ d" unfolding d_def by (metis append_take_drop_id)
  then have dx: "?x = d @ ?y" using e by simp
  have "d \<noteq> []" using ne d(1) by auto
  moreover from this have "le 8 (length c) @ c = d @ ?y" using dx by (cases "c = []") simp_all
  moreover have "\<And>r. r \<in> set d \<Longrightarrow> 0x20 \<le> (of_char r :: nat)" using assms(3) valid_name(2) d(1) by (auto simp: salt_ok_def)
  ultimately show False using assms(2,3) by (intro salt_no_overlap [of c d ?y]) (auto simp: salt_ok_def)
qed

lemma salt_input_inject:
  assumes "salt_input a c = salt_input b c'" and "salt_ok (a, c)" and "salt_ok (b, c')"
  shows "a = b \<and> c = c'"
proof -
  have ab: "a = b" using salt_prefix [of a c b c'] salt_prefix [of b c' a c] assms by (metis nle_le)
  have "c = c'" if "le 8 (length c) @ c = le 8 (length c') @ c'" using that by (simp add: append_eq_append_conv)
  then show ?thesis using assms(1) ab by (auto simp: salt_input_def dest: arg_cong [of _ _ length] split: if_splits)
qed

interpretation salt: keyed_digest sha256 "\<lambda>p. salt_input (fst p) (snd p)" "\<lambda>p. ConfigSaltForAnalyzer (fst p) (snd p)" salt_ok
  by unfold_locales (auto simp: ConfigSaltForAnalyzer_def prod_eq_iff dest: salt_input_inject)

text \<open>
  A configuration salt determines what it was made from: two analyzers with valid names, and settings
  of less than 4 GiB, have the same salt only if both the names and the settings are the same, or the
  two hashed byte strings are an explicit SHA-256 collision.  The name is not length-prefixed; this
  holds because a valid name has no control bytes and the length field of the settings begins after it.
\<close>
theorem ConfigSalt_determines:
  assumes "validateAnalyzerName a = None" and "validateAnalyzerName b = None"
    and "length c < 2 ^ 32" and "length c' < 2 ^ 32"
    and "ConfigSaltForAnalyzer a c = ConfigSaltForAnalyzer b c'"
  shows "a = b \<and> c = c' \<or> collision sha256 (salt_input a c) (salt_input b c')"
  using salt.same_key [of "(a, c)" "(b, c')"] assms by (simp add: salt_ok_def)

theorem ConfigSalt_determines_witness:
  "\<not> (ConfigSaltForAnalyzer ''foobar'' [] = ConfigSaltForAnalyzer ''foo'' ''bar''
       \<and> \<not> collision sha256 (salt_input ''foobar'' []) (salt_input ''foo'' ''bar''))"
proof -
  have "validateAnalyzerName ''foobar'' = None" "validateAnalyzerName ''foo'' = None" by code_simp+
  then show ?thesis using ConfigSalt_determines [of "''foobar''" "''foo''" "[]" "''bar''"] by auto
qed



subsection \<open>The codec and the key\<close>

text \<open>The diagnostics are within the decoder's nesting limit once they are put in an array.\<close>

definition diags_fit :: "bytes list \<Rightarrow> bool" where
  "diags_fit ds \<longleftrightarrow> (\<forall>d \<in> set ds. jfits (the (json_decode d)) (max_depth - 1))"

definition L1_digests :: "L1Entry \<Rightarrow> bool" where
  "L1_digests e \<longleftrightarrow> length (l1InputDigest e) = 32 \<and> length (l1DepFactsDigest e) = 32
     \<and> length (l1DepTypeDigest e) = 32 \<and> length (l1ConfigSalt e) = 32"

definition L1_sizes :: "L1Entry \<Rightarrow> bytes \<Rightarrow> bool" where
  "L1_sizes e db \<longleftrightarrow> list_all section_ok (l1_sections e db)"

lemma decode_encode_sections:
  assumes "L1_digests e" and "L1_sizes e db" and "unmarshalDiagnostics db = Inr cs"
  shows "DecodeL1 (writeEnvelope kindL1 (l1_sections e db) @ junk) = Inr (e\<lparr>l1Diagnostics := cs\<rparr>)"
proof -
  have "readEnvelope (writeEnvelope kindL1 (l1_sections e db) @ junk) kindL1 = Inr (l1_sections e db)"
    using assms(2) by (intro readEnvelope_write) (simp add: L1_sizes_def sections_ok_def max_sections_def l1_sections_def)
  with assms show ?thesis by (simp add: DecodeL1_def l1_sections_def fillDigest_def L1_digests_def)
qed

text \<open>
  Analyzer entries: an encoded entry decodes to the same entry with every diagnostic in canonical
  form, whatever follows it in the file, and encoding the decoded entry gives the same bytes.  The
  digests have 32 bytes, the sections are within the envelope's limit, and the diagnostics within the
  decoder's nesting limit.
\<close>
theorem L1_codec:
  assumes "L1Entry_Encode e = Inr b" and "L1_digests e" and "diags_fit (l1Diagnostics e)"
    and "\<And>db. marshalDiagnostics (l1Diagnostics e) = Inr db \<Longrightarrow> L1_sizes e db"
  shows "\<exists>e'. DecodeL1 (b @ junk) = Inr e' \<and> L1Entry_Encode e' = Inr b
    \<and> map Some (l1Diagnostics e') = map canonicalJSON (l1Diagnostics e) \<and> e'\<lparr>l1Diagnostics := l1Diagnostics e\<rparr> = e"
proof -
  obtain db where db: "marshalDiagnostics (l1Diagnostics e) = Inr db" "b = writeEnvelope kindL1 (l1_sections e db)"
    using assms(1) by (auto simp: L1Entry_Encode_def split: sum.splits)
  obtain cs where cs: "unmarshalDiagnostics db = Inr cs" "map canonicalJSON (l1Diagnostics e) = map Some cs" "marshalDiagnostics cs = Inr db"
    using diagnostics_roundtrip [OF db(1)] assms(3) by (auto simp: diags_fit_def)
  have "DecodeL1 (b @ junk) = Inr (e\<lparr>l1Diagnostics := cs\<rparr>)"
    unfolding db(2) by (rule decode_encode_sections [OF assms(2) assms(4) [OF db(1)] cs(1)])
  then show ?thesis using cs by (intro exI [of _ "e\<lparr>l1Diagnostics := cs\<rparr>"]) (simp add: L1Entry_Encode_def db l1_sections_def)
qed

definition demo_L1 :: L1Entry where
  "demo_L1 = \<lparr>l1Analyzer = ''errcheck'', l1PackageID = ''p'', l1InputDigest = replicate 32 (CHR ''i''),
     l1DepFactsDigest = replicate 32 (CHR ''f''), l1DepTypeDigest = replicate 32 (CHR ''d''), l1AnalyzerVersion = ''1'',
     l1ConfigSalt = replicate 32 (CHR ''s''), l1ToolVersion = ''1'', l1Diagnostics = ['' [1 , true]'', ''null''],
     l1ObjectFacts = [], l1PackageFacts = ''x'', l1Result = []\<rparr>"

definition demo_L1_canon :: L1Entry where
  "demo_L1_canon = demo_L1\<lparr>l1Diagnostics := [''[1,true]'', ''null'']\<rparr>"

lemma demo_L1_diags: "marshalDiagnostics (l1Diagnostics demo_L1) = Inr ''[[1,true],null]''"
  "map canonicalJSON (l1Diagnostics demo_L1) = [Some ''[1,true]'', Some ''null'']" "diags_fit (l1Diagnostics demo_L1)"
proof -
  have d: "json_decode '' [1 , true]'' = Some (JArray [JNumber ''1'', JBool True])" "json_decode ''null'' = Some JNull" by code_simp+
  show "marshalDiagnostics (l1Diagnostics demo_L1) = Inr ''[[1,true],null]''" by code_simp
  show "map canonicalJSON (l1Diagnostics demo_L1) = [Some ''[1,true]'', Some ''null'']" by code_simp
  show "diags_fit (l1Diagnostics demo_L1)" by (simp add: diags_fit_def demo_L1_def d max_depth_def)
qed

theorem L1_codec_witness:
  "\<exists>b. L1Entry_Encode demo_L1 = Inr b \<and> DecodeL1 (b @ ''junk'') = Inr demo_L1_canon"
proof -
  obtain b where b: "L1Entry_Encode demo_L1 = Inr b" by (auto simp: L1Entry_Encode_def demo_L1_diags)
  have "L1_digests demo_L1" by (simp add: L1_digests_def demo_L1_def)
  moreover have "L1_sizes demo_L1 ''[[1,true],null]''"
    by (simp add: L1_sizes_def l1_sections_def demo_L1_def section_ok_def max_section_bytes_def)
  ultimately obtain e' where e': "DecodeL1 (b @ ''junk'') = Inr e'" "map Some (l1Diagnostics e') = [Some ''[1,true]'', Some ''null'']"
      "e'\<lparr>l1Diagnostics := l1Diagnostics demo_L1\<rparr> = demo_L1"
    using L1_codec [OF b _ demo_L1_diags(3), of "''junk''"] by (auto simp: demo_L1_diags(1,2))
  have "l1Diagnostics e' = [''[1,true]'', ''null'']" using e'(2) by auto
  then have "e' = demo_L1_canon" unfolding demo_L1_canon_def using e'(3)
    by (metis L1Entry.surjective L1Entry.update_convs(9))
  then show ?thesis using b e'(1) by auto
qed

definition L1_inputs :: "L1Entry \<Rightarrow> bytes list" where
  "L1_inputs e = [l1Analyzer e, l1PackageID e, l1InputDigest e, l1DepFactsDigest e, l1DepTypeDigest e,
     l1AnalyzerVersion e, l1ConfigSalt e, l1ToolVersion e]"

text \<open>
  The key of an analyzer entry determines its inputs: entries with the same key agree on analyzer,
  package, all digests, the configuration salt and both versions, or the two hashed byte strings are an
  explicit SHA-256 collision.
\<close>
lemma L1_key_determines_inputs:
  assumes "list_all go_len (L1_inputs e)" and "list_all go_len (L1_inputs e')"
    and "ComputeL1ActionID e = ComputeL1ActionID e'"
  shows "L1_inputs e = L1_inputs e' \<or> collision sha256 (frames (L1_inputs e)) (frames (L1_inputs e'))"
  by (rule actionid.same_key) (use assms in \<open>simp_all add: ComputeL1ActionID_def L1_inputs_def\<close>)



subsection \<open>L1 as a tier\<close>

text \<open>
  The outputs of an analysis are a function \<open>compute\<close> of its inputs.  An entry is stored in the form in
  which it is read back, with canonical diagnostics.
\<close>

definition L1_outputs :: "L1Entry \<Rightarrow> bytes list \<times> bytes \<times> bytes \<times> bytes" where
  "L1_outputs e = (l1Diagnostics e, l1ObjectFacts e, l1PackageFacts e, l1Result e)"

definition l1_canonical :: "L1Entry \<Rightarrow> L1Entry" where
  "l1_canonical e = e\<lparr>l1Diagnostics := map (the \<circ> canonicalJSON) (l1Diagnostics e)\<rparr>"

definition L1_normal :: "L1Entry \<Rightarrow> bool" where
  "L1_normal e \<longleftrightarrow> L1_digests e \<and> diags_fit (l1Diagnostics e) \<and> map canonicalJSON (l1Diagnostics e) = map Some (l1Diagnostics e)
     \<and> (case marshalDiagnostics (l1Diagnostics e) of Inl _ \<Rightarrow> False | Inr db \<Rightarrow> L1_sizes e db)"

definition L1_right :: "(bytes list \<Rightarrow> bytes list \<times> bytes \<times> bytes \<times> bytes) \<Rightarrow> string \<Rightarrow> actionID \<Rightarrow> L1Entry \<Rightarrow> bool" where
  "L1_right compute analyzer aid e \<longleftrightarrow> L1_normal e \<and> L1_outputs e = compute (L1_inputs e) \<and> ComputeL1ActionID e = aid
     \<and> l1Analyzer e = analyzer \<and> validateAnalyzerName analyzer = None"

definition l1_enc :: "L1Entry \<Rightarrow> bytes" where
  "l1_enc e = (case L1Entry_Encode e of Inl _ \<Rightarrow> [] | Inr b \<Rightarrow> b)"

lemma L1_normal_codec: "L1_normal e \<Longrightarrow> DecodeL1 (l1_enc e) = Inr e"
proof -
  assume n: "L1_normal e"
  then obtain db where db: "marshalDiagnostics (l1Diagnostics e) = Inr db" "L1_sizes e db"
    by (auto simp: L1_normal_def split: sum.splits)
  obtain cs where cs: "unmarshalDiagnostics db = Inr cs" "map canonicalJSON (l1Diagnostics e) = map Some cs"
    using diagnostics_roundtrip [OF db(1)] n by (auto simp: L1_normal_def diags_fit_def)
  have "cs = l1Diagnostics e" using cs(2) n by (simp add: L1_normal_def inj_map_eq_map inj_def)
  then show ?thesis
    using decode_encode_sections [of e db cs "[]"] n db cs(1) by (simp add: l1_enc_def L1Entry_Encode_def L1_normal_def)
qed

lemma canonical_all_cong: "map canonicalJSON ds = map canonicalJSON ds' \<Longrightarrow> canonical_all i ds = canonical_all i ds'"
proof (induction ds arbitrary: i ds')
  case (Cons d ds)
  then obtain d' es where e: "ds' = d' # es" "canonicalJSON d = canonicalJSON d'" "map canonicalJSON ds = map canonicalJSON es"
    by (cases ds') auto
  show ?case unfolding e(1) canonical_all.simps e(2) Cons.IH [OF e(3)] ..
qed simp

lemma Encode_canonical:
  assumes "L1Entry_Encode e = Inr b"
  shows "L1Entry_Encode (l1_canonical e) = Inr b"
proof -
  let ?ds = "l1Diagnostics e"
  have "canonicalJSON d \<noteq> None" if "d \<in> set ?ds" for d
  proof (cases "?ds = []")
    case False
    then obtain cs where "canonical_all 0 ?ds = Inr cs"
      using assms by (auto simp: L1Entry_Encode_def marshalDiagnostics_def split: sum.splits)
    then obtain vs where vs: "map json_decode ?ds = map Some vs" using canonical_all_values by blast
    have "json_decode d \<in> set (map json_decode ?ds)" using that by simp
    then show ?thesis unfolding vs by (auto simp: canonicalJSON_def)
  qed (use that in simp)
  then have "map canonicalJSON (map (the \<circ> canonicalJSON) ?ds) = map canonicalJSON ?ds"
    by (auto simp: canonicalJSON_idempotent)
  then have "canonical_all 0 (map (the \<circ> canonicalJSON) ?ds) = canonical_all 0 ?ds" by (rule canonical_all_cong)
  then have "marshalDiagnostics (l1Diagnostics (l1_canonical e)) = marshalDiagnostics ?ds"
    by (simp add: marshalDiagnostics_def l1_canonical_def)
  moreover have "l1_sections (l1_canonical e) = l1_sections e" by (simp add: fun_eq_iff l1_canonical_def l1_sections_def)
  ultimately show ?thesis using assms by (simp only: L1Entry_Encode_def)
qed

lemma L1_right_Encode: "L1_right compute analyzer aid e \<Longrightarrow> L1Entry_Encode e = Inr (l1_enc e)"
  by (auto simp: L1_right_def L1_normal_def l1_enc_def L1Entry_Encode_def split: sum.splits)

lemma length_ComputeL1ActionID [simp]: "length (ComputeL1ActionID e) = 32"
  by (simp add: ComputeL1ActionID_def NewActionID_def)

lemma L1_right_inputs: "L1_right compute analyzer aid e \<Longrightarrow> list_all go_len (L1_inputs e)"
  by (auto simp: L1_right_def L1_normal_def L1_sizes_def L1_inputs_def l1_sections_def section_ok_def
      max_section_bytes_def go_len_def split: sum.splits)

lemma L1_ns_ok: "validateAnalyzerName a = None \<Longrightarrow> entry_ns (l1Namespace a)"
  by (auto simp: entry_ns_def dest: valid_name(1))

lemma l1_tier:
  assumes "validateAnalyzerName a = None"
  shows "entry_tier (local_Get (store_root r)) (local_Put (store_root r)) (local_Has (store_root r)) file_bodies
    (entryPath (store_root r)) healthy entry_valid (l1Namespace a) l1_enc DecodeL1 (L1_right compute a)"
  by (rule local_tier) (auto simp: entry_ns_ok L1_ns_ok assms L1_right_def L1_normal_codec)

lemma ReadL1_get: "snd (ReadL1 (get i) s a aid) = Inr e \<longleftrightarrow>
    validateAnalyzerName a = None \<and> (\<exists>d. snd (get i s (l1Namespace a) aid) = Inr d \<and> DecodeL1 d = Inr e)"
  by (auto simp: ReadL1_def split: option.splits prod.splits sum.splits)

lemma fst_ReadL1: "fst (ReadL1 (get i) s a aid) = (if validateAnalyzerName a = None then fst (get i s (l1Namespace a) aid) else s)"
  by (simp add: ReadL1_def split: option.splits prod.splits sum.splits)

lemma WriteL1_cases:
  obtains (refused) err where "WriteL1 put s e aid = (s, Some err)"
  | (stored) "validateAnalyzerName (l1Analyzer e) = None" "L1Entry_Encode e = Inr (l1_enc e)"
      "WriteL1 put s e aid = put s (l1Namespace (l1Analyzer e)) aid (l1_enc e)"
  by (cases "validateAnalyzerName (l1Analyzer e)"; cases "L1Entry_Encode e") (auto simp: WriteL1_def l1_enc_def)

end
