(* ===== verification/L0Cache.thy ===== *)
theory L0Cache
  imports L2Cache Diagnostics
begin

text \<open>
  The diagnostic cache (\<^verbatim>\<open>internal/l0/l0.go\<close>): its key and the three digests that go into it, the entry,
  \<^verbatim>\<open>Open\<close>, \<^verbatim>\<open>Get\<close> and \<^verbatim>\<open>Put\<close> with the counters.

  An entry is stored in the encoding of \<^verbatim>\<open>encoding/gob\<close>, which is not part of the repository: the encoder
  and the decoder are arguments \<open>genc\<close> and \<open>gdec\<close> of the operations, and \<open>gob_roundtrip\<close> is what the
  cache relies on.  The digests sort their rows with \<^verbatim>\<open>sort.Slice\<close>, which fixes the result only when the
  sort keys are distinct; \<open>sort_key\<close> stands for it, and the facts on order ask for distinct keys.
\<close>

definition L0_CacheVersion :: nat where "L0_CacheVersion = 4"
definition nsL0 :: string where "nsL0 = ''l0''"

record KeyParts =
  kpPackageID :: string
  kpPackagePath :: string
  kpSourceHash :: bytes
  kpDepHash :: bytes
  kpAnalyzerSetHash :: bytes
  kpFilterConfigHash :: bytes
  kpToolVersion :: string
  kpBuildEnv :: string
  kpGoVersion :: string

definition key_parts :: "KeyParts \<Rightarrow> bytes list" where
  "key_parts p =
     [le 4 L0_CacheVersion, ''l0/v1'', kpPackageID p, kpPackagePath p, kpSourceHash p, kpDepHash p,
      kpAnalyzerSetHash p, kpFilterConfigHash p, kpToolVersion p, kpBuildEnv p, kpGoVersion p]"

definition ComputeKey :: "KeyParts \<Rightarrow> actionID" where
  "ComputeKey p = NewActionID (key_parts p)"

record ActionFacts =
  Facts :: bytes
  FactsHash :: bytes
  FErr :: string

record L0Entry =
  l0PackageID :: string
  l0Diagnostics :: "diagnostic list"
  l0Actions :: "string \<rightharpoonup> ActionFacts"
  l0Compiles :: bool

record Metrics =
  Hits :: int
  Misses :: int
  Stores :: int
  Errors :: int

definition zeroMetrics :: Metrics where
  "zeroMetrics = \<lparr>Hits = 0, Misses = 0, Stores = 0, Errors = 0\<rparr>"

text \<open>
  \<^verbatim>\<open>Open\<close> on a root, or on \<open>defaultRoot\<close> for the empty root: the version stamp, whose write may fail without
  notice, and then the backend, whose error is \<open>sel\<close>.
\<close>

definition L0_Open :: "string \<Rightarrow> string option \<Rightarrow> io \<Rightarrow> filesys \<Rightarrow> string \<Rightarrow> filesys \<times> string option" where
  "L0_Open defaultRoot sel i fs root0 =
     (case mkdir_err i of
        Some e \<Rightarrow> (fs, Some (''plaid-lint L0: mkdir: '' @ e))
      | None \<Rightarrow>
          (let root = (if root0 = [] then defaultRoot else root0);
               verPath = Join [root, nsL0, ''version''];
               fs' = (if stat_err i = None \<and> fs verPath = None \<and> write_err i = None
                      then fs(verPath \<mapsto> (itoa (int L0_CacheVersion) @ [CHR 0x0A], now i)) else fs)
           in (fs', map_option (\<lambda>e. ''plaid-lint L0: open backend: '' @ e) sel)))"

definition L0_Get ::
    "(bytes \<Rightarrow> L0Entry result) \<Rightarrow> ('s \<Rightarrow> string \<Rightarrow> actionID \<Rightarrow> 's \<times> bytes result)
     \<Rightarrow> 's \<times> Metrics \<Rightarrow> actionID \<Rightarrow> ('s \<times> Metrics) \<times> L0Entry result" where
  "L0_Get gdec get sm aid =
     (let (s, m) = sm in
      case get s nsL0 aid of
        (s', Inl e) \<Rightarrow>
          ((s', if e = ErrNotExist then m\<lparr>Misses := Misses m + 1\<rparr> else m\<lparr>Errors := Errors m + 1\<rparr>), Inl e)
      | (s', Inr data) \<Rightarrow>
          (case gdec data of
             Inl e \<Rightarrow> ((s', m\<lparr>Errors := Errors m + 1\<rparr>), Inl (''L0 decode '' @ Hex aid @ '': '' @ e))
           | Inr ent \<Rightarrow> ((s', m\<lparr>Hits := Hits m + 1\<rparr>), Inr ent)))"

definition L0_Put ::
    "(L0Entry \<Rightarrow> bytes result) \<Rightarrow> ('s \<Rightarrow> string \<Rightarrow> actionID \<Rightarrow> bytes \<Rightarrow> 's \<times> string option)
     \<Rightarrow> 's \<times> Metrics \<Rightarrow> actionID \<Rightarrow> L0Entry option \<Rightarrow> ('s \<times> Metrics) \<times> string option" where
  "L0_Put genc put sm aid e =
     (let (s, m) = sm in
      case e of
        None \<Rightarrow> ((s, m), Some ''L0 Put: nil entry'')
      | Some ent \<Rightarrow>
          (case genc ent of
             Inl er \<Rightarrow> ((s, m\<lparr>Errors := Errors m + 1\<rparr>), Some (''L0 encode '' @ Hex aid @ '': '' @ er))
           | Inr body \<Rightarrow>
               (case put s nsL0 aid body of
                  (s', Some er) \<Rightarrow> ((s', m\<lparr>Errors := Errors m + 1\<rparr>), Some er)
                | (s', None) \<Rightarrow> ((s', m\<lparr>Stores := Stores m + 1\<rparr>), None))))"

definition zero_digest :: bytes where "zero_digest = replicate 32 (CHR 0x00)"

definition pair_row :: "string \<times> bytes \<Rightarrow> bytes" where
  "pair_row p = frame (fst p) @ snd p"

definition HashFiles :: "string list \<Rightarrow> bytes list \<Rightarrow> bytes" where
  "HashFiles uris hashes =
     (if length uris \<noteq> length hashes then zero_digest
      else sha256 (concat (map pair_row (sort_key fst (zip uris hashes)))))"

definition HashDepClosure :: "string list \<Rightarrow> bytes list \<Rightarrow> bytes" where
  "HashDepClosure depIDs depSourceHashes =
     (if length depIDs \<noteq> length depSourceHashes then zero_digest
      else sha256 (concat (map pair_row (sort_key fst (zip depIDs depSourceHashes)))))"

definition analyzer_row :: "string \<times> string \<times> bytes \<Rightarrow> bytes" where
  "analyzer_row r = frame (fst r) @ frame (fst (snd r)) @ snd (snd r)"

definition HashAnalyzerSet :: "string list \<Rightarrow> string list \<Rightarrow> bytes list \<Rightarrow> bytes" where
  "HashAnalyzerSet names versions configSalts =
     (if length names \<noteq> length versions \<or> length names \<noteq> length configSalts then zero_digest
      else sha256 (concat (map analyzer_row (sort_key fst (zip names (zip versions configSalts))))))"


subsection \<open>Digests of sorted rows\<close>

text \<open>
  A digest over encoded rows sorted by a key: whatever order the rows come in, and nothing but the rows.
\<close>

locale row_digest = codec enc dec ok
  for enc :: "'a \<Rightarrow> bytes" and dec :: "nat \<Rightarrow> bytes \<Rightarrow> ('a \<times> bytes) result" and ok :: "'a \<Rightarrow> bool" +
  fixes key :: "'a \<Rightarrow> string"
begin

lemma order_irrelevant:
  assumes "mset xs = mset ys" and "distinct (map key xs)"
  shows "concat (map enc (sort_key key xs)) = concat (map enc (sort_key key ys))"
  using assms by (intro arg_cong [where f = "\<lambda>zs. concat (map enc zs)"] sort_key_inj_key_eq) (simp_all add: distinct_map)

lemma rows_determined:
  assumes "list_all ok xs" and "list_all ok ys"
    and "sha256 (concat (map enc (sort_key key xs))) = sha256 (concat (map enc (sort_key key ys)))"
  shows "mset xs = mset ys
    \<or> collision sha256 (concat (map enc (sort_key key xs))) (concat (map enc (sort_key key ys)))"
proof -
  have "list_all ok (sort_key key xs)" "list_all ok (sort_key key ys)" using assms(1,2) by (simp_all add: list_all_iff)
  then have "sort_key key xs = sort_key key ys" if "concat (map enc (sort_key key xs)) = concat (map enc (sort_key key ys))"
    using that by (intro encs_inject)
  then show ?thesis using assms(3) by (auto simp: collision_def) (metis mset_sort)
qed

lemma rows_exact:
  assumes "list_all ok xs" and "list_all ok ys" and "distinct (map key xs)"
  shows "sha256 (concat (map enc (sort_key key xs))) = sha256 (concat (map enc (sort_key key ys))) \<longleftrightarrow>
    mset xs = mset ys \<or> collision sha256 (concat (map enc (sort_key key xs))) (concat (map enc (sort_key key ys)))"
  using rows_determined [OF assms(1,2)] order_irrelevant [OF _ assms(3), of ys] by (auto simp: collision_def)

end

definition pair_ok :: "string \<times> bytes \<Rightarrow> bool" where
  "pair_ok p \<longleftrightarrow> go_len (fst p) \<and> length (snd p) = 32"

definition read_pair :: "nat \<Rightarrow> bytes \<Rightarrow> ((string \<times> bytes) \<times> bytes) result" where
  "read_pair i bs = (case unframe i bs of Inl e \<Rightarrow> Inl e | Inr (u, r) \<Rightarrow> Inr ((u, take 32 r), drop 32 r))"

interpretation prow: row_digest pair_row read_pair pair_ok fst
  by unfold_locales (auto simp: pair_row_def read_pair_def pair_ok_def frame.dec_enc frame.enc_nonempty)

definition analyzer_ok :: "string \<times> string \<times> bytes \<Rightarrow> bool" where
  "analyzer_ok r \<longleftrightarrow> go_len (fst r) \<and> pair_ok (snd r)"

definition read_analyzer :: "nat \<Rightarrow> bytes \<Rightarrow> ((string \<times> string \<times> bytes) \<times> bytes) result" where
  "read_analyzer i bs =
     (case unframe i bs of Inl e \<Rightarrow> Inl e
      | Inr (n, r) \<Rightarrow> (case read_pair i r of Inl e \<Rightarrow> Inl e | Inr (p, r') \<Rightarrow> Inr ((n, p), r')))"

lemma analyzer_row_pair: "analyzer_row r = frame (fst r) @ pair_row (snd r)"
  by (simp add: analyzer_row_def pair_row_def)

interpretation arow: row_digest analyzer_row read_analyzer analyzer_ok fst
  by unfold_locales
    (auto simp: analyzer_row_pair read_analyzer_def analyzer_ok_def frame.dec_enc prow.dec_enc frame.enc_nonempty)

text \<open>
  The source digest of a package is exact: two file lists with distinct names give the same digest
  exactly when they hold the same files with the same content hashes, in whatever order, unless the
  hashed byte strings are an explicit SHA-256 collision.
\<close>
theorem HashFiles_exact:
  assumes "length us = length hs" and "length vs = length gs" and "distinct us"
    and "list_all pair_ok (zip us hs)" and "list_all pair_ok (zip vs gs)"
  shows "HashFiles us hs = HashFiles vs gs \<longleftrightarrow> mset (zip us hs) = mset (zip vs gs)
    \<or> collision sha256 (concat (map pair_row (sort_key fst (zip us hs)))) (concat (map pair_row (sort_key fst (zip vs gs))))"
  using prow.rows_exact [OF assms(4,5)] assms(1-3) by (simp add: HashFiles_def)

theorem HashFiles_exact_witness:
  "HashFiles [''a.go'', ''b.go''] [replicate 32 (CHR ''1''), replicate 32 (CHR ''2'')]
   = HashFiles [''b.go'', ''a.go''] [replicate 32 (CHR ''2''), replicate 32 (CHR ''1'')]"
  using HashFiles_exact [of "[''a.go'', ''b.go'']" "[replicate 32 (CHR ''1''), replicate 32 (CHR ''2'')]"
      "[''b.go'', ''a.go'']" "[replicate 32 (CHR ''2''), replicate 32 (CHR ''1'')]"]
  by (simp add: pair_ok_def go_len_def add_mset_commute)

text \<open>
  The digest of the analyzer set is exact: two configurations of analyzers with distinct names give
  the same digest exactly when they enable the same analyzers with the same versions and salts, in
  whatever order, unless the hashed byte strings are an explicit SHA-256 collision.
\<close>
theorem HashAnalyzerSet_exact:
  assumes "length ns = length vs" and "length ns = length ss" and "length ns' = length vs'" and "length ns' = length ss'"
    and "distinct ns"
    and "list_all analyzer_ok (zip ns (zip vs ss))" and "list_all analyzer_ok (zip ns' (zip vs' ss'))"
  shows "HashAnalyzerSet ns vs ss = HashAnalyzerSet ns' vs' ss' \<longleftrightarrow>
    mset (zip ns (zip vs ss)) = mset (zip ns' (zip vs' ss'))
    \<or> collision sha256 (concat (map analyzer_row (sort_key fst (zip ns (zip vs ss)))))
        (concat (map analyzer_row (sort_key fst (zip ns' (zip vs' ss')))))"
  using arow.rows_exact [OF assms(6,7)] assms(1-5) by (simp add: HashAnalyzerSet_def)

theorem HashAnalyzerSet_exact_witness:
  "HashAnalyzerSet [''a'', ''b''] [''1'', ''2''] [replicate 32 (CHR ''1''), replicate 32 (CHR ''2'')]
   = HashAnalyzerSet [''b'', ''a''] [''2'', ''1''] [replicate 32 (CHR ''2''), replicate 32 (CHR ''1'')]"
  using HashAnalyzerSet_exact [of "[''a'', ''b'']" "[''1'', ''2'']" "[replicate 32 (CHR ''1''), replicate 32 (CHR ''2'')]"
      "[''b'', ''a'']" "[''2'', ''1'']" "[replicate 32 (CHR ''2''), replicate 32 (CHR ''1'')]"]
  by (simp add: analyzer_ok_def pair_ok_def go_len_def add_mset_commute)


text \<open>The digest of the dependency closure has the same form.\<close>

lemma HashDepClosure_HashFiles: "HashDepClosure = HashFiles"
  by (simp add: fun_eq_iff HashDepClosure_def HashFiles_def)


subsection \<open>The key\<close>

definition key_ok :: "KeyParts \<Rightarrow> bool" where
  "key_ok p \<longleftrightarrow> list_all go_len (key_parts p)"

lemma key_parts_inject: "key_parts p = key_parts q \<Longrightarrow> p = q"
  by (cases p; cases q) (simp add: key_parts_def)

interpretation l0key: keyed_digest sha256 "\<lambda>p. frames (key_parts p)" ComputeKey key_ok
  by unfold_locales (auto simp: ComputeKey_def NewActionID_def key_ok_def intro: key_parts_inject dest: frames_inject)

lemma length_ComputeKey [simp]: "length (ComputeKey p) = 32"
  by (simp add: ComputeKey_def NewActionID_def)


subsection \<open>The counters\<close>

text \<open>A sequence of calls: \<open>Inl aid\<close> is a Get, \<open>Inr (aid, e)\<close> a Put.\<close>

fun l0_calls ::
    "(bytes \<Rightarrow> L0Entry result) \<Rightarrow> (L0Entry \<Rightarrow> bytes result) \<Rightarrow> ('s \<Rightarrow> string \<Rightarrow> actionID \<Rightarrow> 's \<times> bytes result)
     \<Rightarrow> ('s \<Rightarrow> string \<Rightarrow> actionID \<Rightarrow> bytes \<Rightarrow> 's \<times> string option)
     \<Rightarrow> (actionID + actionID \<times> L0Entry option) list \<Rightarrow> 's \<times> Metrics \<Rightarrow> 's \<times> Metrics" where
  "l0_calls gdec genc get put [] sm = sm"
| "l0_calls gdec genc get put (Inl aid # cs) sm = l0_calls gdec genc get put cs (fst (L0_Get gdec get sm aid))"
| "l0_calls gdec genc get put (Inr (aid, e) # cs) sm = l0_calls gdec genc get put cs (fst (L0_Put genc put sm aid e))"

definition total :: "Metrics \<Rightarrow> int" where
  "total m = Hits m + Misses m + Stores m + Errors m"

definition counted :: "actionID + actionID \<times> L0Entry option \<Rightarrow> bool" where
  "counted c \<longleftrightarrow> (case c of Inl _ \<Rightarrow> True | Inr (_, e) \<Rightarrow> e \<noteq> None)"

lemma L0_Get_total: "total (snd (fst (L0_Get gdec get sm aid))) = total (snd sm) + 1"
  by (cases sm) (auto simp: L0_Get_def total_def split: prod.splits sum.splits)

lemma L0_Put_total: "total (snd (fst (L0_Put genc put sm aid e))) = total (snd sm) + (if e = None then 0 else 1)"
  by (cases sm) (auto simp: L0_Put_def total_def split: prod.splits sum.splits option.splits)

text \<open>
  The counters account for every call: after any sequence of reads and writes, each read has been
  counted as exactly one hit, miss or error, and each write of an entry as exactly one store or error.
\<close>
theorem L0_metrics_account:
  "total (snd (l0_calls gdec genc get put cs sm)) = total (snd sm) + int (length (filter counted cs))"
  by (induction gdec genc get put cs sm rule: l0_calls.induct) (auto simp: L0_Get_total L0_Put_total counted_def)


subsection \<open>L0 as a tier\<close>

definition gob_roundtrip :: "(L0Entry \<Rightarrow> bytes result) \<Rightarrow> (bytes \<Rightarrow> L0Entry result) \<Rightarrow> bool" where
  "gob_roundtrip genc gdec \<longleftrightarrow> (\<forall>e b. genc e = Inr b \<longrightarrow> gdec b = Inr e)"

definition l0_enc :: "(L0Entry \<Rightarrow> bytes result) \<Rightarrow> L0Entry \<Rightarrow> bytes" where
  "l0_enc genc e = (case genc e of Inl _ \<Rightarrow> [] | Inr b \<Rightarrow> b)"

definition L0_right :: "(L0Entry \<Rightarrow> bytes result) \<Rightarrow> (KeyParts \<Rightarrow> L0Entry) \<Rightarrow> actionID \<Rightarrow> L0Entry \<Rightarrow> bool" where
  "L0_right genc compute aid e \<longleftrightarrow> (\<exists>p. key_ok p \<and> ComputeKey p = aid \<and> e = compute p) \<and> (\<exists>b. genc e = Inr b)"

lemma L0_ns_ok: "ns_ok nsL0"
  by (simp add: ns_ok_def nsL0_def plain_seg_def split_on_id)

lemma l0_tier:
  assumes "gob_roundtrip genc gdec"
  shows "entry_tier (local_Get (store_root r)) (local_Put (store_root r)) (local_Has (store_root r)) file_bodies
    (entryPath (store_root r)) healthy entry_valid nsL0 (l0_enc genc) gdec (L0_right genc compute)"
  by (rule local_tier) (use assms in \<open>auto simp: L0_ns_ok L0_right_def l0_enc_def gob_roundtrip_def\<close>)

lemma L0_Get_hit:
  "snd (L0_Get gdec (get i) (s, m) aid) = Inr e \<longleftrightarrow> (\<exists>d. snd (get i s nsL0 aid) = Inr d \<and> gdec d = Inr e)"
  by (auto simp: L0_Get_def split: prod.splits sum.splits)

lemma fst_L0_Get: "fst (fst (L0_Get gdec (get i) (s, m) aid)) = fst (get i s nsL0 aid)"
  by (auto simp: L0_Get_def split: prod.splits sum.splits)

lemma fst_L0_Put:
  "fst (fst (L0_Put genc (put i) (s, m) aid (Some e))) =
     (case genc e of Inl _ \<Rightarrow> s | Inr b \<Rightarrow> fst (put i s nsL0 aid b))"
  by (auto simp: L0_Put_def split: prod.splits sum.splits option.splits)

end
