(* ===== verification/CacheRun.thy ===== *)
theory CacheRun
  imports L0Cache L1Cache
begin

text \<open>
  The three caches on one local directory, over time: any interleaving of opening, purging, collecting,
  touching, writing and reading, with any system call failing, by any number of processes.  The
  invariant is that every stored entry is a right one for its key; the cache is then transparent: a hit
  returns what the computation on the requested inputs would return.
\<close>

subsection \<open>Housekeeping paths\<close>

lemma house_path_neq:
  assumes "root \<noteq> []" and "list_all plain_seg ws" and "ws \<noteq> []" and "length ws \<le> 2" and "entry_valid ns aid"
  shows "entryPath root ns aid \<noteq> root_prefix root ws"
proof
  assume e: "entryPath root ns aid = root_prefix root ws"
  let ?vs = "split_on (CHR ''/'') ns @ [take 2 (Hex aid), Hex aid]"
  have ok: "ns_ok ns" "length aid = 32" using assms(5) by (auto simp: entry_valid_def)
  have "list_all plain_seg ?vs" using ok Hex_plain by (simp add: ns_ok_def)
  then have "split_on (CHR ''/'') (root_prefix root ?vs) = (if IsAbs root then [[]] else []) @ clean_segs root @ ?vs"
    by (intro split_root_prefix) simp_all
  moreover have "root_prefix root ?vs = root_prefix root ws" using entryPath_prefix [OF assms(1) ok] e by simp
  ultimately have "length ?vs = length ws" using split_root_prefix [OF assms(2,3), of root] by simp
  then show False using assms(4) by (cases "split_on (CHR ''/'') ns") (use split_on_neq_Nil in auto)
qed

text \<open>Housekeeping only removes entries.\<close>

definition no_new_entries :: "string \<Rightarrow> filesys \<Rightarrow> filesys \<Rightarrow> bool" where
  "no_new_entries root fs fs' \<longleftrightarrow>
     (\<forall>ns aid b. entry_valid ns aid \<longrightarrow> file_bodies fs' (entryPath root ns aid) = Some b \<longrightarrow>
        file_bodies fs (entryPath root ns aid) = Some b)"

lemma init_no_new: "root \<noteq> [] \<Longrightarrow> no_new_entries root fs (fst (init i fs root))"
  unfolding no_new_entries_def
proof (intro allI impI)
  fix ns aid b assume r: "root \<noteq> []" and v: "entry_valid ns aid"
    and b: "file_bodies (fst (init i fs root)) (entryPath root ns aid) = Some b"
  have pl: "plain_seg (''cache-version'' @ s)" if "CHR ''/'' \<notin> set s" for s using that by (simp add: plain_seg_def)
  have "entryPath root ns aid \<noteq> version_path root @ s" if "CHR ''/'' \<notin> set s" for s
    unfolding version_path_prefix [OF r]
    by (rule house_path_neq [OF r _ _ _ v]) (use pl [OF that] in \<open>simp_all add: plain_seg_def\<close>)
  from this [of "[]"] this [of "''.tmp.'' @ hex_encode (rnd i)"]
  have "entryPath root ns aid \<noteq> version_path root" "entryPath root ns aid \<noteq> tmp_of i (version_path root)"
    using hex_encode_chars by (auto simp: tmp_of_def)
  then have "fst (init i fs root) (entryPath root ns aid) = fs (entryPath root ns aid)
      \<or> fst (init i fs root) (entryPath root ns aid) = None" by (rule init_other)
  then show "file_bodies fs (entryPath root ns aid) = Some b" using b by (auto simp: file_bodies_def)
qed

lemma L0_Open_no_new: "root \<noteq> [] \<Longrightarrow> no_new_entries root fs (fst (L0_Open d sel i fs root))"
  using house_path_neq [of root "[nsL0, ''version'']"]
  by (auto simp: no_new_entries_def L0_Open_def Let_def Join_root plain_seg_def nsL0_def file_bodies_def split: option.splits)

lemma stampLastGC_no_new: "root \<noteq> [] \<Longrightarrow> no_new_entries root fs (stampLastGC i fs root)"
  using house_path_neq [of root "[lastGCMarker]"]
  by (auto simp: no_new_entries_def stampLastGC_def Let_def Join_root plain_seg_def lastGCMarker_def file_bodies_def
      split: option.splits)

lemma GC_no_new: "no_new_entries root fs (GC i fs root' th)"
  by (auto simp: no_new_entries_def GC_def file_bodies_def split: if_splits)

lemma Touch_no_new: "no_new_entries root fs (Touch i fs p)"
  by (simp add: no_new_entries_def Touch_def)

lemmas house_keeping = init_no_new L0_Open_no_new stampLastGC_no_new GC_no_new Touch_no_new


subsection \<open>Runs\<close>

inductive cache_run ::
    "string \<Rightarrow> (L0Entry \<Rightarrow> bytes result) \<Rightarrow> (bytes \<Rightarrow> L0Entry result)
     \<Rightarrow> (bytes list \<Rightarrow> bytes \<times> bytes \<times> bytes) \<Rightarrow> (bytes list \<Rightarrow> bytes list \<times> bytes \<times> bytes \<times> bytes)
     \<Rightarrow> (KeyParts \<Rightarrow> L0Entry) \<Rightarrow> filesys \<Rightarrow> bool"
  for r genc gdec c2 c1 c0 where
  start: "(\<And>ns aid. entry_valid ns aid \<Longrightarrow> fs (entryPath (store_root r) ns aid) = None)
    \<Longrightarrow> cache_run r genc gdec c2 c1 c0 fs"
| open12: "cache_run r genc gdec c2 c1 c0 fs \<Longrightarrow> cache_run r genc gdec c2 c1 c0 (fst (init i fs (store_root r)))"
| open0: "cache_run r genc gdec c2 c1 c0 fs \<Longrightarrow>
    cache_run r genc gdec c2 c1 c0 (fst (L0_Open d sel i fs (store_root r)))"
| collect: "cache_run r genc gdec c2 c1 c0 fs \<Longrightarrow> cache_run r genc gdec c2 c1 c0 (GC i fs (store_root r) threshold)"
| stamp: "cache_run r genc gdec c2 c1 c0 fs \<Longrightarrow> cache_run r genc gdec c2 c1 c0 (stampLastGC i fs (store_root r))"
| touch: "cache_run r genc gdec c2 c1 c0 fs \<Longrightarrow> cache_run r genc gdec c2 c1 c0 (Touch i fs p)"
| write2: "cache_run r genc gdec c2 c1 c0 fs \<Longrightarrow> L2_right c2 aid e \<Longrightarrow>
    cache_run r genc gdec c2 c1 c0 (fst (WriteL2 (local_Put (store_root r) i) fs e aid))"
| read2: "cache_run r genc gdec c2 c1 c0 fs \<Longrightarrow>
    cache_run r genc gdec c2 c1 c0 (fst (ReadL2 (local_Get (store_root r) i) fs aid))"
| write1: "cache_run r genc gdec c2 c1 c0 fs \<Longrightarrow> L1_right c1 (l1Analyzer e) aid (l1_canonical e) \<Longrightarrow>
    cache_run r genc gdec c2 c1 c0 (fst (WriteL1 (local_Put (store_root r) i) fs e aid))"
| read1: "cache_run r genc gdec c2 c1 c0 fs \<Longrightarrow>
    cache_run r genc gdec c2 c1 c0 (fst (ReadL1 (local_Get (store_root r) i) fs a aid))"
| put0: "cache_run r genc gdec c2 c1 c0 fs \<Longrightarrow> L0_right genc c0 aid e \<Longrightarrow>
    cache_run r genc gdec c2 c1 c0 (fst (fst (L0_Put genc (local_Put (store_root r) i) (fs, m) aid (Some e))))"
| get0: "cache_run r genc gdec c2 c1 c0 fs \<Longrightarrow>
    cache_run r genc gdec c2 c1 c0 (fst (fst (L0_Get gdec (local_Get (store_root r) i) (fs, m) aid)))"

abbreviation faithful_at :: "string \<Rightarrow> string \<Rightarrow> ('e \<Rightarrow> bytes) \<Rightarrow> (actionID \<Rightarrow> 'e \<Rightarrow> bool) \<Rightarrow> filesys \<Rightarrow> bool" where
  "faithful_at r \<equiv> tier_faithful file_bodies (entryPath (store_root r))"

definition all_faithful ::
    "string \<Rightarrow> (L0Entry \<Rightarrow> bytes result) \<Rightarrow> (bytes list \<Rightarrow> bytes \<times> bytes \<times> bytes)
     \<Rightarrow> (bytes list \<Rightarrow> bytes list \<times> bytes \<times> bytes \<times> bytes) \<Rightarrow> (KeyParts \<Rightarrow> L0Entry) \<Rightarrow> filesys \<Rightarrow> bool" where
  "all_faithful r genc c2 c1 c0 fs \<longleftrightarrow>
     faithful_at r nsL2 L2Entry_Encode (L2_right c2) fs
     \<and> (\<forall>a. validateAnalyzerName a = None \<longrightarrow> faithful_at r (l1Namespace a) l1_enc (L1_right c1 a) fs)
     \<and> faithful_at r nsL0 (l0_enc genc) (L0_right genc c0) fs"

lemma l2_tier:
  "entry_tier (local_Get (store_root r)) (local_Put (store_root r)) (local_Has (store_root r)) file_bodies
    (entryPath (store_root r)) healthy entry_valid nsL2 L2Entry_Encode DecodeL2 (L2_right c)"
  by (rule l2tier.entry_tier_axioms)

lemma ns_distinct [simp]: "nsL2 \<noteq> l1Namespace a" "nsL2 \<noteq> nsL0" "l1Namespace a \<noteq> nsL0"
    "l1Namespace a \<noteq> nsL2" "nsL0 \<noteq> nsL2" "nsL0 \<noteq> l1Namespace a" "l1Namespace a = l1Namespace b \<longleftrightarrow> a = b"
  by (simp_all add: nsL2_def nsL0_def l1Namespace_def nsL1Prefix_def)

lemma faithful_at_mono:
  assumes "no_new_entries (store_root r) fs fs'" and "ns_ok ns" and "faithful_at r ns enc rel fs"
  shows "faithful_at r ns enc rel fs'"
  using assms(1,2) by (intro tier_faithful_mono [OF assms(3)]) (auto simp: no_new_entries_def entry_valid_def)

lemma all_faithful_mono:
  assumes "all_faithful r genc c2 c1 c0 fs" and "no_new_entries (store_root r) fs fs'"
  shows "all_faithful r genc c2 c1 c0 fs'"
  using assms(1) entry_ns_ok [OF L1_ns_ok] L0_ns_ok entry_ns_ok [of nsL2]
  by (auto simp: all_faithful_def entry_ns_def intro: faithful_at_mono [OF assms(2)])

lemma all_faithful_get:
  assumes "all_faithful r genc c2 c1 c0 fs"
  shows "all_faithful r genc c2 c1 c0 (fst (local_Get (store_root r) i fs ns aid))"
  by (rule all_faithful_mono [OF assms]) (auto simp: no_new_entries_def localb.get_entries)

lemma all_faithful_put:
  assumes "all_faithful r genc c2 c1 c0 fs" and "gob_roundtrip genc gdec" and "entry_valid n k"
    and "n = nsL2 \<Longrightarrow> \<exists>e. L2_right c2 k e \<and> b = L2Entry_Encode e"
    and "\<And>a. n = l1Namespace a \<Longrightarrow> validateAnalyzerName a = None \<Longrightarrow> \<exists>e. L1_right c1 a k e \<and> b = l1_enc e"
    and "n = nsL0 \<Longrightarrow> \<exists>e. L0_right genc c0 k e \<and> b = l0_enc genc e"
  shows "all_faithful r genc c2 c1 c0 (fst (local_Put (store_root r) i fs n k b))"
proof -
  have k: "length k = 32" using assms(3) by (simp add: entry_valid_def)
  note f = assms(1) [unfolded all_faithful_def]
  have "faithful_at r nsL2 L2Entry_Encode (L2_right c2) (fst (local_Put (store_root r) i fs n k b))"
    using f assms(4) by (intro entry_tier.put_any_faithful [OF l2_tier _ assms(3) k]) auto
  moreover have "faithful_at r (l1Namespace a) l1_enc (L1_right c1 a) (fst (local_Put (store_root r) i fs n k b))"
    if "validateAnalyzerName a = None" for a
    using f assms(5) that by (intro entry_tier.put_any_faithful [OF l1_tier [OF that] _ assms(3) k]) auto
  moreover have "faithful_at r nsL0 (l0_enc genc) (L0_right genc c0) (fst (local_Put (store_root r) i fs n k b))"
    using f assms(6) by (intro entry_tier.put_any_faithful [OF l0_tier [OF assms(2)] _ assms(3) k]) auto
  ultimately show ?thesis by (simp add: all_faithful_def)
qed

lemma L1_right_canonical_enc:
  assumes "L1_right c1 (l1Analyzer e) aid (l1_canonical e)" and "L1Entry_Encode e = Inr b"
  shows "b = l1_enc (l1_canonical e)"
  using Encode_canonical [OF assms(2)] by (simp add: l1_enc_def)

lemma cache_run_faithful:
  assumes "cache_run r genc gdec c2 c1 c0 fs" and gob: "gob_roundtrip genc gdec"
  shows "all_faithful r genc c2 c1 c0 fs"
  using assms(1)
proof (induction rule: cache_run.induct)
  case (start fs)
  then show ?case
    using entry_ns_ok [OF L1_ns_ok] L0_ns_ok entry_ns_ok [of nsL2]
    by (auto simp: all_faithful_def tier_faithful_def file_bodies_def entry_valid_def entry_ns_def)
next
  case (write2 fs aid e i)
  then have "length aid = 32" by (auto simp: L2_right_def)
  then have "entry_valid nsL2 aid" using entry_ns_ok [of nsL2] by (simp add: entry_valid_def entry_ns_def)
  then show ?case unfolding WriteL2_def using write2 by (intro all_faithful_put [OF write2.IH gob]) auto
next
  case (write1 fs e aid i)
  let ?put = "local_Put (store_root r) i"
  show ?case
  proof (cases rule: WriteL1_cases [of ?put fs e aid])
    case refused
    then show ?thesis using write1.IH by simp
  next
    case stored
    have "length aid = 32" using write1.hyps by (auto simp: L1_right_def)
    then have "entry_valid (l1Namespace (l1Analyzer e)) aid"
      using stored(1) entry_ns_ok [OF L1_ns_ok] by (simp add: entry_valid_def)
    then show ?thesis
      unfolding stored(3) using write1.hyps L1_right_canonical_enc [OF write1.hyps(2) stored(2)]
      by (intro all_faithful_put [OF write1.IH gob]) auto
  qed
next
  case (put0 fs aid e i m)
  then obtain b where b: "genc e = Inr b" and "length aid = 32" by (auto simp: L0_right_def)
  then have "entry_valid nsL0 aid" using L0_ns_ok by (simp add: entry_valid_def)
  moreover have "b = l0_enc genc e" using b by (simp add: l0_enc_def)
  ultimately show ?case
    using put0.hyps unfolding fst_L0_Put b sum.case by (intro all_faithful_put [OF put0.IH gob]) auto
qed (simp_all add: all_faithful_get fst_ReadL1 fst_L0_Get house_keeping all_faithful_mono)



subsection \<open>Transparency\<close>


text \<open>
  C10. The analyzer cache is transparent: a hit for an analyzer and the key of some inputs returns an
  entry of exactly those inputs with the diagnostics (in canonical form), facts and result an analysis
  of them computes, unless two input lists are an explicit SHA-256 collision.
\<close>
theorem L1_transparent:
  assumes "cache_run r genc gdec c2 c1 c0 fs" and "gob_roundtrip genc gdec" and "list_all go_len (L1_inputs q)"
    and "snd (ReadL1 (local_Get (store_root r) i) fs a (ComputeL1ActionID q)) = Inr e"
  shows "L1_inputs e = L1_inputs q \<and> L1_outputs e = c1 (L1_inputs q) \<and> l1Analyzer e = a
    \<or> collision sha256 (frames (L1_inputs e)) (frames (L1_inputs q))"
proof -
  have a: "validateAnalyzerName a = None" using assms(4) by (simp add: ReadL1_get)
  then have "faithful_at r (l1Namespace a) l1_enc (L1_right c1 a) fs"
    using cache_run_faithful [OF assms(1,2)] by (simp add: all_faithful_def)
  then obtain e' where r: "L1_right c1 a (ComputeL1ActionID q) e'" and "DecodeL1 (l1_enc e') = Inr e"
    using entry_tier.read_right [OF l1_tier [OF a], where aid = "ComputeL1ActionID q"] assms(4) by (fastforce simp: ReadL1_get)
  then have "e' = e" using L1_normal_codec by (auto simp: L1_right_def)
  with r have *: "L1_outputs e = c1 (L1_inputs e)" "ComputeL1ActionID e = ComputeL1ActionID q"
      "list_all go_len (L1_inputs e)" "l1Analyzer e = a"
    using L1_right_inputs by (auto simp: L1_right_def)
  show ?thesis using L1_key_determines_inputs [OF *(3) assms(3) *(2)] *(1,4) by auto
qed




subsection \<open>A concrete run\<close>

definition demo_L0 :: L0Entry where
  "demo_L0 = \<lparr>l0PackageID = ''p'', l0Diagnostics = [mk_diag ''errcheck'' ''unchecked'' ''p/a.go'' 3 1],
     l0Actions = Map.empty, l0Compiles = True\<rparr>"

definition demo_genc :: "L0Entry \<Rightarrow> bytes result" where
  "demo_genc e = (if e = demo_L0 then Inr ''gob'' else Inl ''unsupported'')"

definition demo_gdec :: "bytes \<Rightarrow> L0Entry result" where
  "demo_gdec b = (if b = ''gob'' then Inr demo_L0 else Inl ''corrupt'')"


lemma demo_gob: "gob_roundtrip demo_genc demo_gdec"
  by (simp add: gob_roundtrip_def demo_genc_def demo_gdec_def)

abbreviation demo_run :: "filesys \<Rightarrow> bool" where
  "demo_run \<equiv> cache_run ''/c'' demo_genc demo_gdec (\<lambda>_. L2_outputs demo_L2) (\<lambda>_. L1_outputs demo_L1_canon) (\<lambda>_. demo_L0)"

abbreviation demo_put :: "filesys \<Rightarrow> string \<Rightarrow> actionID \<Rightarrow> bytes \<Rightarrow> filesys \<times> string option" where
  "demo_put \<equiv> local_Put (store_root ''/c'') quiet_io"

abbreviation demo_get :: "filesys \<Rightarrow> string \<Rightarrow> actionID \<Rightarrow> filesys \<times> bytes result" where
  "demo_get \<equiv> local_Get (store_root ''/c'') quiet_io"

lemma demo_start: "demo_run Map.empty"
  by (rule cache_run.start) simp

lemma demo_put_get: "snd (demo_get (fst (demo_put Map.empty ns aid b)) ns aid) = Inr b"
  by (rule localb.put_get) (simp_all add: quiet_healthy localb.put_total file_bodies_def)



lemma demo_L1_right: "L1_right (\<lambda>_. L1_outputs demo_L1_canon) ''errcheck'' (ComputeL1ActionID demo_L1_canon) demo_L1_canon"
  and demo_L1_canonical: "l1_canonical demo_L1_canon = demo_L1_canon"
proof -
  have m: "marshalDiagnostics (l1Diagnostics demo_L1_canon) = Inr ''[[1,true],null]''"
    "map canonicalJSON (l1Diagnostics demo_L1_canon) = [Some ''[1,true]'', Some ''null'']"
    "validateAnalyzerName ''errcheck'' = None" by code_simp+
  have d: "json_decode ''[1,true]'' = Some (JArray [JNumber ''1'', JBool True])" "json_decode ''null'' = Some JNull" by code_simp+
  have f: "diags_fit (l1Diagnostics demo_L1_canon)" by (simp add: diags_fit_def demo_L1_canon_def d max_depth_def)
  have s: "L1_sizes demo_L1_canon ''[[1,true],null]''" "L1_digests demo_L1_canon"
    by (simp_all add: L1_sizes_def L1_digests_def l1_sections_def demo_L1_def demo_L1_canon_def section_ok_def max_section_bytes_def)
  show "L1_right (\<lambda>_. L1_outputs demo_L1_canon) ''errcheck'' (ComputeL1ActionID demo_L1_canon) demo_L1_canon"
    using m f s by (simp add: L1_right_def L1_normal_def) (simp add: demo_L1_canon_def demo_L1_def)
  show "l1_canonical demo_L1_canon = demo_L1_canon"
    using m(2) by (simp add: l1_canonical_def demo_L1_canon_def)
qed

theorem L1_transparent_witness:
  "\<exists>e. snd (ReadL1 demo_get (fst (WriteL1 demo_put Map.empty demo_L1_canon (ComputeL1ActionID demo_L1_canon))) ''errcheck''
        (ComputeL1ActionID demo_L1_canon)) = Inr e
    \<and> (L1_inputs e = L1_inputs demo_L1_canon \<and> L1_outputs e = L1_outputs demo_L1_canon \<and> l1Analyzer e = ''errcheck''
       \<or> collision sha256 (frames (L1_inputs e)) (frames (L1_inputs demo_L1_canon)))"
proof -
  let ?fs = "fst (WriteL1 demo_put Map.empty demo_L1_canon (ComputeL1ActionID demo_L1_canon))"
  have n: "l1Analyzer demo_L1_canon = ''errcheck''" "validateAnalyzerName ''errcheck'' = None"
    using demo_L1_right by (simp_all add: L1_right_def)
  have run: "demo_run ?fs" by (rule cache_run.write1 [OF demo_start]) (simp only: demo_L1_canonical n demo_L1_right)
  have "?fs = fst (demo_put Map.empty (l1Namespace ''errcheck'') (ComputeL1ActionID demo_L1_canon) (l1_enc demo_L1_canon))"
    using L1_right_Encode [OF demo_L1_right] n by (simp add: WriteL1_def)
  then have hit: "snd (ReadL1 demo_get ?fs ''errcheck'' (ComputeL1ActionID demo_L1_canon)) = Inr demo_L1_canon"
    unfolding ReadL1_get using demo_put_get L1_normal_codec [of demo_L1_canon] demo_L1_right n by (simp add: L1_right_def)
  show ?thesis
    using L1_transparent [OF run demo_gob L1_right_inputs [OF demo_L1_right] hit] hit by blast
qed


end
