(* ===== verification/Gate.thy ===== *)
theory Gate
  imports Prelude "HOL-Library.Word"
begin

text \<open>
  The admission gate of the memory-aware scheduler (\<^verbatim>\<open>internal/scheduler/rss.go\<close>: \<^verbatim>\<open>budgetGate\<close>,
  \<^verbatim>\<open>NewRSSBudgetScheduler\<close>, \<^verbatim>\<open>Acquire\<close> with the release it returns, \<^verbatim>\<open>recordPeak\<close>, \<^verbatim>\<open>Run\<close>).

  Counters are 64-bit words and wrap as in Go.  Each critical section of the gate's mutex is one step:
  entering \<^verbatim>\<open>acquire\<close>, one turn of its loop after a wake-up, \<^verbatim>\<open>release\<close>, and the broadcast of the goroutine that
  watches for cancellation.  The updates of the statistics, which are separate atomic operations, are
  steps of their own, except that a release counts its completion at once.  A state holds one caller per action, as \<^verbatim>\<open>Run\<close> starts one goroutine per action;
  durations are left out.
\<close>

type_synonym u64 = "64 word"

record gate =
  budgetBytes :: u64
  maxConcurrency :: u64
  inFlight :: u64
  gbytes :: u64
  waiting :: u64

definition newBudgetGate :: "u64 \<Rightarrow> u64 \<Rightarrow> gate" where
  "newBudgetGate budget mc = \<lparr>budgetBytes = budget, maxConcurrency = mc, inFlight = 0, gbytes = 0, waiting = 0\<rparr>"

definition countOK :: "gate \<Rightarrow> bool" where
  "countOK g \<longleftrightarrow> inFlight g < maxConcurrency g"

definition bytesOK :: "gate \<Rightarrow> u64 \<Rightarrow> bool" where
  "bytesOK g want \<longleftrightarrow> budgetBytes g = 0 \<or> inFlight g = 0 \<or> gbytes g + want \<le> budgetBytes g"

text \<open>One turn of the loop of \<^verbatim>\<open>acquire\<close>: the cancellation test, admission, or parking.\<close>

datatype turn = Cancelled | Admit | Park

definition acquire_turn :: "bool \<Rightarrow> gate \<Rightarrow> u64 \<Rightarrow> turn \<times> gate" where
  "acquire_turn cancelled g want =
     (if cancelled then (Cancelled, g)
      else if countOK g \<and> bytesOK g want then (Admit, g\<lparr>inFlight := inFlight g + 1, gbytes := gbytes g + want\<rparr>)
      else (Park, g\<lparr>waiting := waiting g + 1\<rparr>))"

definition gate_release :: "gate \<Rightarrow> u64 \<Rightarrow> gate" where
  "gate_release g want =
     g\<lparr>inFlight := (if inFlight g > 0 then inFlight g - 1 else inFlight g),
       gbytes := (if gbytes g \<ge> want then gbytes g - want else 0)\<rparr>"

definition gate_snapshot :: "gate \<Rightarrow> u64 \<times> u64" where
  "gate_snapshot g = (maxConcurrency g, gbytes g)"

record schedStats =
  actionsAcquired :: u64
  actionsCompleted :: u64
  actionsBlocked :: u64
  peakConcurrency :: u64

text \<open>\<^verbatim>\<open>NewRSSBudgetScheduler\<close>: the concurrency is a Go \<^verbatim>\<open>int\<close>, \<open>procs\<close> is \<^verbatim>\<open>GOMAXPROCS\<close>.\<close>

definition newGateFor :: "int \<Rightarrow> u64 \<Rightarrow> int \<Rightarrow> gate" where
  "newGateFor gomaxprocs budget mc =
     newBudgetGate budget (if (of_int mc :: u64) = 0 then of_int gomaxprocs else of_int mc)"

definition recordPeak :: "schedStats \<Rightarrow> u64 \<Rightarrow> schedStats" where
  "recordPeak st n = (if n \<le> peakConcurrency st then st else st\<lparr>peakConcurrency := n\<rparr>)"


subsection \<open>Callers\<close>

text \<open>
  Where a caller is: not yet in \<^verbatim>\<open>Acquire\<close>; parked in \<^verbatim>\<open>cond.Wait\<close>, woken or not; back from the gate with an
  admission or a refusal but not yet counted; running its action; done.
\<close>

datatype phase =
    Idle u64
  | Parked u64 bool
  | Admitted u64 u64 bool
  | Refused bool
  | Running u64
  | Finished
  | Failed

record sched =
  sgate :: gate
  callers :: "phase list"
  stats :: schedStats
  cancelledCtx :: "nat set"
  watching :: "nat set"

definition broadcast :: "phase list \<Rightarrow> phase list" where
  "broadcast ps = map (\<lambda>p. case p of Parked w _ \<Rightarrow> Parked w True | _ \<Rightarrow> p) ps"

text \<open>The caller's next phase after a turn of the loop; \<open>blocked\<close> says whether it has waited.\<close>

definition after_turn :: "u64 \<Rightarrow> bool \<Rightarrow> turn \<times> gate \<Rightarrow> phase" where
  "after_turn want blocked t =
     (case fst t of
        Cancelled \<Rightarrow> Refused blocked
      | Admit \<Rightarrow> Admitted want (inFlight (snd t)) blocked
      | Park \<Rightarrow> Parked want False)"

definition count_blocked :: "bool \<Rightarrow> schedStats \<Rightarrow> schedStats" where
  "count_blocked blocked st = (if blocked then st\<lparr>actionsBlocked := actionsBlocked st + 1\<rparr> else st)"

definition enter :: "nat \<Rightarrow> u64 \<Rightarrow> sched \<Rightarrow> sched" where
  "enter t want s =
     (let r = acquire_turn (t \<in> cancelledCtx s) (sgate s) want
      in s\<lparr>sgate := snd r, callers := (callers s)[t := after_turn want False r],
           watching := (if t \<in> cancelledCtx s then watching s else insert t (watching s))\<rparr>)"

definition wake :: "nat \<Rightarrow> u64 \<Rightarrow> sched \<Rightarrow> sched" where
  "wake t want s =
     (let g = (sgate s)\<lparr>waiting := waiting (sgate s) - 1\<rparr>;
          r = acquire_turn (t \<in> cancelledCtx s) g want
      in s\<lparr>sgate := snd r, callers := (callers s)[t := after_turn want True r]\<rparr>)"

definition account :: "nat \<Rightarrow> u64 \<Rightarrow> u64 \<Rightarrow> bool \<Rightarrow> sched \<Rightarrow> sched" where
  "account t want n blocked s =
     (let st = count_blocked blocked (stats s)
      in s\<lparr>stats := recordPeak (st\<lparr>actionsAcquired := actionsAcquired st + 1\<rparr>) n, callers := (callers s)[t := Running want]\<rparr>)"

definition account_refusal :: "nat \<Rightarrow> bool \<Rightarrow> sched \<Rightarrow> sched" where
  "account_refusal t blocked s = s\<lparr>stats := count_blocked blocked (stats s), callers := (callers s)[t := Failed]\<rparr>"

definition release_action :: "nat \<Rightarrow> u64 \<Rightarrow> sched \<Rightarrow> sched" where
  "release_action t want s =
     s\<lparr>sgate := gate_release (sgate s) want,
       callers := broadcast ((callers s)[t := Finished]),
       stats := (stats s)\<lparr>actionsCompleted := actionsCompleted (stats s) + 1\<rparr>\<rparr>"

text \<open>The watcher a caller starts: it broadcasts once, when the caller's context has been cancelled.\<close>

definition watch :: "nat \<Rightarrow> sched \<Rightarrow> sched" where
  "watch t s = s\<lparr>callers := broadcast (callers s), watching := watching s - {t}\<rparr>"

inductive sstep :: "sched \<Rightarrow> sched \<Rightarrow> bool" where
  Enter: "t < length (callers s) \<Longrightarrow> callers s ! t = Idle want \<Longrightarrow> sstep s (enter t want s)"
| Wake: "t < length (callers s) \<Longrightarrow> callers s ! t = Parked want True \<Longrightarrow> sstep s (wake t want s)"
| Account: "t < length (callers s) \<Longrightarrow> callers s ! t = Admitted want n blocked \<Longrightarrow> sstep s (account t want n blocked s)"
| Account_refusal: "t < length (callers s) \<Longrightarrow> callers s ! t = Refused blocked \<Longrightarrow> sstep s (account_refusal t blocked s)"
| Release: "t < length (callers s) \<Longrightarrow> callers s ! t = Running want \<Longrightarrow> sstep s (release_action t want s)"
| Watch: "t < length (callers s) \<Longrightarrow> t \<in> cancelledCtx s \<Longrightarrow> t \<in> watching s \<Longrightarrow> sstep s (watch t s)"

definition cancel_ctx :: "nat \<Rightarrow> sched \<Rightarrow> sched" where
  "cancel_ctx t s = s\<lparr>cancelledCtx := insert t (cancelledCtx s)\<rparr>"

definition sched_init :: "gate \<Rightarrow> u64 list \<Rightarrow> sched" where
  "sched_init g wants =
     \<lparr>sgate = g, callers = map Idle wants,
      stats = \<lparr>actionsAcquired = 0, actionsCompleted = 0, actionsBlocked = 0, peakConcurrency = 0\<rparr>, cancelledCtx = {}, watching = {}\<rparr>"

inductive sched_run :: "u64 \<Rightarrow> u64 \<Rightarrow> u64 list \<Rightarrow> sched \<Rightarrow> bool" for budget mc wants where
  init: "sched_run budget mc wants (sched_init (newBudgetGate budget mc) wants)"
| step: "sched_run budget mc wants s \<Longrightarrow> sstep s s' \<Longrightarrow> sched_run budget mc wants s'"
| cancel: "sched_run budget mc wants s \<Longrightarrow> t < length (callers s) \<Longrightarrow> t \<notin> cancelledCtx s \<Longrightarrow>
    sched_run budget mc wants (cancel_ctx t s)"


subsection \<open>What the callers hold\<close>

fun held :: "phase \<Rightarrow> u64 option" where
  "held (Admitted w n b) = Some w"
| "held (Running w) = Some w"
| "held _ = None"

fun is_parked :: "phase \<Rightarrow> bool" where
  "is_parked (Parked w b) = True"
| "is_parked _ = False"

text \<open>The estimate a caller came with, while it may still matter.\<close>

fun estimate :: "phase \<Rightarrow> u64" where
  "estimate (Idle w) = w"
| "estimate (Parked w b) = w"
| "estimate (Admitted w n b) = w"
| "estimate (Running w) = w"
| "estimate _ = 0"

definition tally :: "('a \<Rightarrow> nat) \<Rightarrow> 'a list \<Rightarrow> nat" where
  "tally f ps = sum_list (map f ps)"

definition holders :: "phase list \<Rightarrow> nat" where
  "holders = tally (\<lambda>p. case held p of None \<Rightarrow> 0 | Some w \<Rightarrow> 1)"

definition reserved :: "phase list \<Rightarrow> nat" where
  "reserved = tally (\<lambda>p. case held p of None \<Rightarrow> 0 | Some w \<Rightarrow> unat w)"

definition parked :: "phase list \<Rightarrow> nat" where
  "parked = tally (\<lambda>p. if is_parked p then 1 else 0)"

fun run_weight :: "phase \<Rightarrow> nat" where
  "run_weight (Running w) = 1"
| "run_weight _ = 0"

definition running :: "phase list \<Rightarrow> nat" where
  "running = tally run_weight"

lemma tally_update: "t < length ps \<Longrightarrow> tally f (ps[t := p]) + f (ps ! t) = tally f ps + f p"
  by (induction ps arbitrary: t) (auto simp: tally_def nth_Cons' split: nat.splits)

lemma tally_mem: "t < length ps \<Longrightarrow> f (ps ! t) \<le> tally f ps"
  by (simp add: tally_def member_le_sum_list)

lemma tally_broadcast:
  assumes "\<And>w b c. f (Parked w b) = f (Parked w c)"
  shows "tally f (broadcast ps) = tally f ps"
proof -
  have "f (case p of Parked w _ \<Rightarrow> Parked w True | _ \<Rightarrow> p) = f p" for p using assms by (cases p) auto
  then show ?thesis by (simp add: tally_def broadcast_def comp_def)
qed

lemma length_broadcast [simp]: "length (broadcast ps) = length ps"
  by (simp add: broadcast_def)

lemma broadcast_nth: "t < length ps \<Longrightarrow> broadcast ps ! t = (case ps ! t of Parked w _ \<Rightarrow> Parked w True | p \<Rightarrow> p)"
  by (simp add: broadcast_def split: phase.split)

lemma no_unwoken_broadcast: "Parked w False \<notin> set (broadcast ps)"
  by (auto simp: broadcast_def split: phase.splits)

lemmas tallies = holders_def reserved_def parked_def running_def

lemma tallies_broadcast [simp]:
  "holders (broadcast ps) = holders ps" "reserved (broadcast ps) = reserved ps"
  "parked (broadcast ps) = parked ps" "running (broadcast ps) = running ps"
  by (simp_all add: tallies tally_broadcast)

lemma estimate_broadcast: "p \<in> set (broadcast ps) \<Longrightarrow> \<exists>q \<in> set ps. estimate p = estimate q"
  by (auto simp: broadcast_def split: phase.splits) (metis estimate.simps)+


subsection \<open>The invariant\<close>

definition ginv :: "u64 \<Rightarrow> u64 \<Rightarrow> nat \<Rightarrow> sched \<Rightarrow> bool" where
  "ginv budget mc W s \<longleftrightarrow>
     budgetBytes (sgate s) = budget \<and> maxConcurrency (sgate s) = mc
     \<and> unat (inFlight (sgate s)) = holders (callers s) \<and> holders (callers s) \<le> unat mc
     \<and> (\<forall>p \<in> set (callers s). unat (estimate p) \<le> W)
     \<and> (budget \<noteq> 0 \<longrightarrow> unat (gbytes (sgate s)) = reserved (callers s)
          \<and> (reserved (callers s) \<le> unat budget \<or> holders (callers s) = 1))
     \<and> waiting (sgate s) = of_nat (parked (callers s))
     \<and> (\<forall>w. Parked w False \<in> set (callers s) \<longrightarrow> \<not> (countOK (sgate s) \<and> bytesOK (sgate s) w))"

text \<open>Estimates so small that the gate's sum cannot wrap.\<close>

definition roomy :: "u64 \<Rightarrow> nat \<Rightarrow> bool" where
  "roomy budget W \<longleftrightarrow> max (unat budget) W + W < 2 ^ 64"

lemma unat_plus: "unat a + unat b < 2 ^ 64 \<Longrightarrow> unat (a + b) = unat a + unat b" for a b :: u64
  by (simp add: unat_word_ariths)

lemma reserved_bound:
  assumes "ginv budget mc W s" and "budget \<noteq> 0"
  shows "reserved (callers s) \<le> max (unat budget) W"
proof -
  have "reserved (callers s) \<le> W" if h: "holders (callers s) = 1"
  proof -
    have e: "\<forall>p \<in> set ps. unat (estimate p) \<le> W \<Longrightarrow> reserved ps \<le> holders ps * W" for ps
    proof (induction ps)
      case (Cons p ps)
      then show ?case by (cases p) (auto simp: reserved_def holders_def tally_def)
    qed (simp add: reserved_def holders_def tally_def)
    have "\<forall>p \<in> set (callers s). unat (estimate p) \<le> W" using assms(1) by (simp add: ginv_def)
    from e [OF this] h show ?thesis by simp
  qed
  then show ?thesis using assms by (auto simp: ginv_def)
qed

text \<open>A turn of the loop that admits.\<close>

lemma admit_gate:
  assumes inv: "ginv budget mc W s" and room: "roomy budget W" and want: "unat want \<le> W"
    and ok: "countOK (sgate s)" "bytesOK (sgate s) want"
  shows "unat (inFlight (sgate s) + 1) = holders (callers s) + 1" and "holders (callers s) + 1 \<le> unat mc"
    and "budget \<noteq> 0 \<Longrightarrow> unat (gbytes (sgate s) + want) = reserved (callers s) + unat want
      \<and> (reserved (callers s) + unat want \<le> unat budget \<or> holders (callers s) = 0)"
proof -
  have i: "unat (inFlight (sgate s)) = holders (callers s)" "maxConcurrency (sgate s) = mc" "budgetBytes (sgate s) = budget"
    using inv by (auto simp: ginv_def)
  have lt: "holders (callers s) < unat mc" using ok(1) i by (simp add: countOK_def word_less_nat_alt)
  then show "holders (callers s) + 1 \<le> unat mc" by simp
  have "unat mc < 2 ^ 64" using unsigned_less [of mc] by simp
  then show "unat (inFlight (sgate s) + 1) = holders (callers s) + 1"
    using lt i unat_plus [of "inFlight (sgate s)" 1] by simp
  show "unat (gbytes (sgate s) + want) = reserved (callers s) + unat want
      \<and> (reserved (callers s) + unat want \<le> unat budget \<or> holders (callers s) = 0)" if b: "budget \<noteq> 0"
  proof -
    have g: "unat (gbytes (sgate s)) = reserved (callers s)" using inv b by (simp add: ginv_def)
    have "reserved (callers s) + unat want < 2 ^ 64"
      using reserved_bound [OF inv b] want room by (simp add: roomy_def)
    then have u: "unat (gbytes (sgate s) + want) = reserved (callers s) + unat want" using unat_plus g by simp
    have "reserved (callers s) + unat want \<le> unat budget \<or> holders (callers s) = 0"
      using ok(2) b i u by (auto simp: bytesOK_def word_le_nat_alt)
    with u show ?thesis by blast
  qed
qed


lemma admit_keeps_blocked:
  assumes inv: "ginv budget mc W s" and room: "roomy budget W" and want: "unat want \<le> W" and w: "unat w \<le> W"
    and ok: "countOK (sgate s)" "bytesOK (sgate s) want" and no: "\<not> (countOK (sgate s) \<and> bytesOK (sgate s) w)"
  shows "\<not> bytesOK ((sgate s)\<lparr>inFlight := inFlight (sgate s) + 1, gbytes := gbytes (sgate s) + want\<rparr>) w"
proof -
  let ?g = "sgate s"
  have b: "budgetBytes ?g = budget" "budget \<noteq> 0" and f: "inFlight ?g \<noteq> 0" and big: "budget < gbytes ?g + w"
    using no ok(1) inv by (auto simp: bytesOK_def ginv_def)
  have g: "unat (gbytes ?g) = reserved (callers s)" using inv b(2) by (simp add: ginv_def)
  have n: "holders (callers s) \<noteq> 0" using inv f unfolding ginv_def by (metis unat_eq_zero)
  have s: "unat (gbytes ?g + want) = reserved (callers s) + unat want" "reserved (callers s) + unat want \<le> unat budget"
    using admit_gate(3) [OF inv room want ok b(2)] n by auto
  have lim: "unat budget + W < 2 ^ 64" using room by (simp add: roomy_def)
  have "unat (gbytes ?g + want + w) = reserved (callers s) + unat want + unat w"
    using unat_plus [of "gbytes ?g + want" w] s w lim by simp
  moreover have "unat (gbytes ?g + w) = reserved (callers s) + unat w" using unat_plus [of "gbytes ?g" w] g s(2) w lim by simp
  moreover have "unat budget < unat (gbytes ?g + w)" using big by (simp add: word_less_nat_alt)
  ultimately have "unat budget < unat (gbytes ?g + want + w)" by simp
  moreover have "inFlight ?g + 1 \<noteq> 0" using admit_gate(1) [OF inv room want ok] by (metis add_eq_0_iff_both_eq_0 one_neq_zero unat_0)
  ultimately show ?thesis using b by (simp add: bytesOK_def word_le_nat_alt)
qed

lemma no_holders: "holders ps = 0 \<Longrightarrow> reserved ps = 0"
proof (induction ps)
  case (Cons p ps)
  then show ?case by (cases p) (auto simp: holders_def reserved_def tally_def)
qed (simp add: reserved_def tally_def)

text \<open>Entering and waking share the turn of the loop; \<open>gw\<close> is the gate with the waiting counter adjusted.\<close>

lemma turn_inv:
  assumes inv: "ginv budget mc W s" and room: "roomy budget W" and t: "t < length (callers s)"
    and p: "callers s ! t = Idle want \<or> callers s ! t = Parked want True"
    and gw: "gw = (sgate s)\<lparr>waiting := of_nat (parked (callers s) - (if is_parked (callers s ! t) then 1 else 0))\<rparr>"
    and r: "r = acquire_turn c gw want"
  shows "ginv budget mc W (s\<lparr>sgate := snd r, callers := (callers s)[t := after_turn want b r], watching := wt\<rparr>)"
proof -
  let ?p = "after_turn want b r" and ?ps = "(callers s)[t := after_turn want b r]"
  have want: "unat want \<le> W" using inv p nth_mem [OF t] by (force simp: ginv_def)
  have h: "holders ?ps = holders (callers s) + (case held ?p of None \<Rightarrow> 0 | Some w \<Rightarrow> 1)"
    "reserved ?ps = reserved (callers s) + (case held ?p of None \<Rightarrow> 0 | Some w \<Rightarrow> unat w)"
    using tally_update [OF t, of "\<lambda>p. case held p of None \<Rightarrow> 0 | Some w \<Rightarrow> 1" ?p]
      tally_update [OF t, of "\<lambda>p. case held p of None \<Rightarrow> 0 | Some w \<Rightarrow> unat w" ?p] p
    by (auto simp: holders_def reserved_def)
  have k: "parked ?ps = parked (callers s) - (if is_parked (callers s ! t) then 1 else 0) + (if is_parked ?p then 1 else 0)"
    using tally_update [OF t, of "\<lambda>p. if is_parked p then 1 else 0" ?p] tally_mem [OF t, of "\<lambda>p. if is_parked p then 1 else 0"]
    by (auto simp: parked_def)
  have sub: "set ?ps \<subseteq> insert ?p (set (callers s))" by (rule set_update_subset_insert)
  have same: "countOK (g\<lparr>waiting := n\<rparr>) = countOK g" "bytesOK (g\<lparr>waiting := n\<rparr>) w = bytesOK g w" for g n w
    by (simp_all add: countOK_def bytesOK_def)
  have e: "unat (estimate ?p) \<le> W" using want by (simp add: after_turn_def split: turn.split)
  show ?thesis
  proof (cases "fst r")
    case Cancelled
    then have "snd r = gw" "?p = Refused b" using r by (auto simp: acquire_turn_def after_turn_def split: if_splits)
    then show ?thesis using inv h k sub e unfolding ginv_def by (auto simp: gw same)
  next
    case Park
    then have "snd r = gw\<lparr>waiting := waiting gw + 1\<rparr>" "?p = Parked want False" "\<not> (countOK (sgate s) \<and> bytesOK (sgate s) want)"
      using r by (auto simp: acquire_turn_def after_turn_def gw same split: if_splits)
    then show ?thesis using inv h k sub e unfolding ginv_def by (auto simp: gw same)
  next
    case Admit
    then have ok: "countOK (sgate s)" "bytesOK (sgate s) want"
      and sr: "snd r = gw\<lparr>inFlight := inFlight (sgate s) + 1, gbytes := gbytes (sgate s) + want\<rparr>"
      and pp: "?p = Admitted want (inFlight (sgate s) + 1) b"
      using r by (auto simp: acquire_turn_def after_turn_def gw same split: if_splits)
    note adm = admit_gate [OF inv room want ok]
    have "\<not> bytesOK (snd r) w" if "Parked w False \<in> set (callers s)" for w
    proof -
      have "unat w \<le> W" "\<not> (countOK (sgate s) \<and> bytesOK (sgate s) w)" using inv that by (force simp: ginv_def)+
      from admit_keeps_blocked [OF inv room want this(1) ok this(2)] show ?thesis by (simp add: sr gw bytesOK_def)
    qed
    then show ?thesis
      using inv h k sub e adm no_holders [of "callers s"] unfolding ginv_def pp by (auto simp: sr gw)
  qed
qed


lemma release_inv:
  assumes inv: "ginv budget mc W s" and t: "t < length (callers s)" and p: "callers s ! t = Running want"
  shows "ginv budget mc W (release_action t want s)"
proof -
  let ?ps = "(callers s)[t := Finished]" and ?g = "gate_release (sgate s) want"
  have h: "holders ?ps + 1 = holders (callers s)" "reserved ?ps + unat want = reserved (callers s)" "parked ?ps = parked (callers s)"
    using tally_update [OF t, of "\<lambda>p. case held p of None \<Rightarrow> 0 | Some w \<Rightarrow> 1" Finished]
      tally_update [OF t, of "\<lambda>p. case held p of None \<Rightarrow> 0 | Some w \<Rightarrow> unat w" Finished]
      tally_update [OF t, of "\<lambda>p. if is_parked p then 1 else 0" Finished] p
    by (auto simp: holders_def reserved_def parked_def)
  have n: "unat (inFlight (sgate s)) = holders (callers s)" using inv by (simp add: ginv_def)
  then have pos: "0 < inFlight (sgate s)" using h(1) by (simp add: word_less_nat_alt)
  then have f: "unat (inFlight ?g) = holders ?ps" using n h(1) by (simp add: gate_release_def unat_sub word_le_nat_alt)
  have b: "unat (gbytes ?g) = reserved ?ps" if "budget \<noteq> 0"
  proof -
    have g: "unat (gbytes (sgate s)) = reserved (callers s)" using inv that by (simp add: ginv_def)
    then have "want \<le> gbytes (sgate s)" using h(2) by (simp add: word_le_nat_alt)
    then show ?thesis using g h(2) by (simp add: gate_release_def unat_sub)
  qed
  have e: "unat (estimate p) \<le> W" if pm: "p \<in> set (broadcast ?ps)" for p
  proof -
    obtain q where q: "q \<in> set ?ps" "estimate p = estimate q" using estimate_broadcast [OF pm] by blast
    then have "q \<in> insert Finished (set (callers s))" using set_update_subset_insert by fast
    then show ?thesis using inv q(2) by (auto simp: ginv_def)
  qed
  have "reserved ?ps \<le> unat budget \<or> holders ?ps = 1" if "budget \<noteq> 0"
    using inv that h no_holders [of ?ps] by (auto simp: ginv_def)
  with inv f b e h no_unwoken_broadcast show ?thesis
    unfolding ginv_def release_action_def by (auto simp: gate_release_def)
qed

lemma same_hold_inv:
  assumes "ginv budget mc W s" and "t < length (callers s)"
    and "held p = held (callers s ! t)" and "is_parked p = is_parked (callers s ! t)" and "\<not> is_parked p"
    and "unat (estimate p) \<le> unat (estimate (callers s ! t))"
    and "sgate s' = sgate s" and "callers s' = (callers s)[t := p]"
  shows "ginv budget mc W s'"
proof -
  have "holders (callers s') = holders (callers s)" "reserved (callers s') = reserved (callers s)" "parked (callers s') = parked (callers s)"
    using tally_update [OF assms(2), of "\<lambda>p. case held p of None \<Rightarrow> 0 | Some w \<Rightarrow> 1" p]
      tally_update [OF assms(2), of "\<lambda>p. case held p of None \<Rightarrow> 0 | Some w \<Rightarrow> unat w" p]
      tally_update [OF assms(2), of "\<lambda>p. if is_parked p then 1 else 0" p] assms(3,4)
    unfolding assms(8) by (auto simp: holders_def reserved_def parked_def)
  moreover have "set (callers s') \<subseteq> insert p (set (callers s))" unfolding assms(8) by (rule set_update_subset_insert)
  moreover have "unat (estimate (callers s ! t)) \<le> W" using assms(1) nth_mem [OF assms(2)] by (simp add: ginv_def)
  then have "unat (estimate p) \<le> W" using assms(6) by simp
  moreover have "Parked w False \<noteq> p" for w using assms(5) by auto
  ultimately show ?thesis using assms(1,7) unfolding ginv_def by (auto 4 3)
qed

lemma parked_pos: "t < length ps \<Longrightarrow> is_parked (ps ! t) \<Longrightarrow> 1 \<le> parked ps"
  using tally_mem [of t ps "\<lambda>p. if is_parked p then 1 else 0"] by (simp add: parked_def)

lemma sstep_inv:
  assumes "sstep s s'" and inv: "ginv budget mc W s" and room: "roomy budget W"
  shows "ginv budget mc W s'"
  using assms(1)
proof cases
  case (Enter t want)
  have "(sgate s)\<lparr>waiting := of_nat (parked (callers s) - (if is_parked (callers s ! t) then 1 else 0))\<rparr> = sgate s"
    using inv Enter by (simp add: ginv_def)
  then show ?thesis using turn_inv [OF inv room, where t = t and want = want and gw = "sgate s" and c = "t \<in> cancelledCtx s" and b = False
      and wt = "if t \<in> cancelledCtx s then watching s else insert t (watching s)"] Enter by (simp add: enter_def Let_def)
next
  case (Wake t want)
  have "1 \<le> parked (callers s)" using Wake by (intro parked_pos) auto
  then have "(sgate s)\<lparr>waiting := of_nat (parked (callers s) - (if is_parked (callers s ! t) then 1 else 0))\<rparr> =
      (sgate s)\<lparr>waiting := waiting (sgate s) - 1\<rparr>"
    using inv Wake by (simp add: ginv_def of_nat_diff)
  then show ?thesis
    using turn_inv [OF inv room, where t = t and want = want and gw = "(sgate s)\<lparr>waiting := waiting (sgate s) - 1\<rparr>"
      and c = "t \<in> cancelledCtx s" and b = True and wt = "watching s"] Wake
    by (simp add: wake_def Let_def)
next
  case (Account t want n blocked)
  then show ?thesis by (intro same_hold_inv [OF inv, of t "Running want"]) (simp_all add: account_def Let_def)
next
  case (Account_refusal t blocked)
  then show ?thesis by (intro same_hold_inv [OF inv, of t Failed]) (simp_all add: account_refusal_def)
next
  case (Release t want)
  then show ?thesis using release_inv [OF inv] by simp
next
  case (Watch t)
  have "unat (estimate p) \<le> W" if "p \<in> set (broadcast (callers s))" for p
    using estimate_broadcast [OF that] inv by (force simp: ginv_def)
  then show ?thesis using inv no_unwoken_broadcast unfolding Watch(1) watch_def ginv_def by auto
qed

lemma sched_run_inv:
  assumes "sched_run budget mc wants s" and "\<forall>w \<in> set wants. unat w \<le> W" and "roomy budget W"
  shows "ginv budget mc W s"
  using assms(1)
proof (induction rule: sched_run.induct)
  case init
  have "holders (map Idle wants) = 0" "reserved (map Idle wants) = 0" "parked (map Idle wants) = 0"
    by (simp_all add: holders_def reserved_def parked_def tally_def comp_def)
  then show ?case using assms(2) by (auto simp: ginv_def sched_init_def newBudgetGate_def)
next
  case (step s s')
  then show ?case using sstep_inv assms(3) by blast
next
  case (cancel s t)
  then show ?case by (simp add: ginv_def cancel_ctx_def)
qed



subsection \<open>Limits\<close>

text \<open>
  C9. The gate keeps its limits under every interleaving: never more than the configured number of
  actions are in flight, and their estimates never sum to more than the budget unless a single action
  is in flight; and the gate's counters are exactly these numbers.  The estimates must be small enough
  that the budget plus one more of them stays below \<open>2 ^ 64\<close>.
\<close>
theorem gate_budget:
  assumes "sched_run budget mc wants s" and "\<forall>w \<in> set wants. unat w \<le> W" and "roomy budget W"
  shows "holders (callers s) \<le> unat mc \<and> unat (inFlight (sgate s)) = holders (callers s)
    \<and> (budget = 0 \<or> unat (gbytes (sgate s)) = reserved (callers s)
         \<and> (reserved (callers s) \<le> unat budget \<or> holders (callers s) = 1))"
  using sched_run_inv [OF assms] by (auto simp: ginv_def)

lemma demo_sched_start: "sched_run 10 2 [12, 3] (sched_init (newBudgetGate 10 2) [12, 3])"
  by (rule sched_run.init)

definition demo_sched :: sched where
  "demo_sched = enter 1 3 (enter 0 12 (sched_init (newBudgetGate 10 2) [12, 3]))"

lemma demo_sched_run: "sched_run 10 2 [12, 3] demo_sched"
  unfolding demo_sched_def
  by (rule sched_run.step [OF sched_run.step [OF demo_sched_start sstep.Enter] sstep.Enter])
    (simp_all add: sched_init_def newBudgetGate_def enter_def acquire_turn_def after_turn_def countOK_def bytesOK_def)

theorem gate_budget_witness:
  "holders (callers demo_sched) = 1 \<and> reserved (callers demo_sched) = 12 \<and> holders (callers demo_sched) \<le> 2"
  using gate_budget [OF demo_sched_run, of 12]
  by (simp add: roomy_def demo_sched_def sched_init_def newBudgetGate_def enter_def acquire_turn_def after_turn_def
      countOK_def bytesOK_def holders_def reserved_def tally_def)

text \<open>
  Without that bound the sum wraps: a second action is admitted beside one that already exceeds the
  budget.
\<close>
lemma gate_wraps:
  "fst (acquire_turn False ((newBudgetGate 10 2)\<lparr>inFlight := 1, gbytes := 2 ^ 64 - 1\<rparr>) 5) = Admit"
  by (simp add: acquire_turn_def newBudgetGate_def countOK_def bytesOK_def)


subsection \<open>Every schedule ends\<close>

fun rank :: "phase \<Rightarrow> nat" where
  "rank (Idle w) = 5"
| "rank (Parked w b) = 3"
| "rank (Admitted w n b) = 2"
| "rank (Refused b) = 1"
| "rank (Running w) = 1"
| "rank Finished = 0"
| "rank Failed = 0"

definition potential :: "sched \<Rightarrow> nat" where
  "potential s = (\<Sum>t < length (callers s). rank (callers s ! t) + (if t \<in> cancelledCtx s then 0 else 1) + (if t \<in> watching s then 1 else 0))"

definition woken :: "phase list \<Rightarrow> nat" where
  "woken = tally (\<lambda>p. case p of Parked w True \<Rightarrow> 1 | _ \<Rightarrow> 0)"

lemma potential_less:
  assumes "length (callers s') = length (callers s)" and "t < length (callers s)"
    and "\<And>u. u < length (callers s) \<Longrightarrow> u \<noteq> t \<Longrightarrow> rank (callers s' ! u) = rank (callers s ! u)"
    and "\<And>u. u \<noteq> t \<Longrightarrow> u \<in> cancelledCtx s' \<longleftrightarrow> u \<in> cancelledCtx s"
    and "\<And>u. u \<noteq> t \<Longrightarrow> u \<in> watching s' \<longleftrightarrow> u \<in> watching s"
    and "rank (callers s' ! t) + (if t \<in> cancelledCtx s' then 0 else 1) + (if t \<in> watching s' then 1 else 0) <
      rank (callers s ! t) + (if t \<in> cancelledCtx s then 0 else 1) + (if t \<in> watching s then 1 else (0 :: nat))"
  shows "potential s' < potential s"
  unfolding potential_def assms(1)
proof (rule sum_strict_mono_ex1)
  show "\<exists>u \<in> {..<length (callers s)}. rank (callers s' ! u) + (if u \<in> cancelledCtx s' then 0 else 1) + (if u \<in> watching s' then 1 else 0) <
      rank (callers s ! u) + (if u \<in> cancelledCtx s then 0 else 1) + (if u \<in> watching s then 1 else (0 :: nat))"
    using assms(2,6) by blast
  show "\<forall>u \<in> {..<length (callers s)}. rank (callers s' ! u) + (if u \<in> cancelledCtx s' then 0 else 1) + (if u \<in> watching s' then 1 else 0) \<le>
      rank (callers s ! u) + (if u \<in> cancelledCtx s then 0 else 1) + (if u \<in> watching s then 1 else (0 :: nat))"
  proof
    fix u assume u: "u \<in> {..<length (callers s)}"
    show "rank (callers s' ! u) + (if u \<in> cancelledCtx s' then 0 else 1) + (if u \<in> watching s' then 1 else 0) \<le>
      rank (callers s ! u) + (if u \<in> cancelledCtx s then 0 else 1) + (if u \<in> watching s then 1 else (0 :: nat))"
    proof (cases "u = t")
      case False
      with u assms(3) [of u] assms(4) [of u] assms(5) [of u] show ?thesis by simp
    qed (use assms(6) in simp)
  qed
qed simp

lemma rank_broadcast: "u < length ps \<Longrightarrow> rank (broadcast ps ! u) = rank (ps ! u)"
  by (cases "ps ! u") (simp_all add: broadcast_nth)

lemma rank_after_turn: "rank (after_turn want b r) < 4" "rank (after_turn want b r) < 5"
  by (simp_all add: after_turn_def split: turn.split)


lemma wake_decreases:
  assumes "t < length (callers s)" and "callers s ! t = Parked want True"
  shows "(wake t want s, s) \<in> measures [potential, woken \<circ> callers]"
proof (cases "fst (acquire_turn (t \<in> cancelledCtx s) ((sgate s)\<lparr>waiting := waiting (sgate s) - 1\<rparr>) want) = Park")
  case True
  let ?s = "wake t want s"
  have c: "callers ?s = (callers s)[t := Parked want False]" using True by (simp add: wake_def Let_def after_turn_def)
  have "cancelledCtx ?s = cancelledCtx s" "watching ?s = watching s" by (simp_all add: wake_def Let_def)
  moreover have "rank (callers ?s ! u) = rank (callers s ! u)" for u using assms by (cases "u = t") (simp_all add: c)
  ultimately have "potential ?s = potential s" by (simp add: potential_def c)
  moreover have "woken (callers ?s) < woken (callers s)"
    using tally_update [OF assms(1), of "\<lambda>p. case p of Parked w True \<Rightarrow> 1 | _ \<Rightarrow> 0" "Parked want False"] assms(2) by (simp add: c woken_def)
  ultimately show ?thesis by simp
next
  case False
  have "potential (wake t want s) < potential s"
    by (rule potential_less [of _ _ t]) (use assms False in \<open>auto simp: wake_def Let_def after_turn_def split: turn.split\<close>)
  then show ?thesis by simp
qed

lemma sstep_decreases: "sstep s s' \<Longrightarrow> (s', s) \<in> measures [potential, woken \<circ> callers]"
proof (induction rule: sstep.cases)
  case (Enter t s0 want)
  then have "potential s' < potential s"
    by (intro potential_less [of _ _ t]) (auto simp: enter_def Let_def rank_after_turn)
  then show ?case by simp
next
  case (Wake t s0 want)
  then show ?case using wake_decreases by simp
next
  case (Account t s0 want n blocked)
  then have "potential s' < potential s" by (intro potential_less [of _ _ t]) (auto simp: account_def Let_def)
  then show ?case by simp
next
  case (Account_refusal t s0 blocked)
  then have "potential s' < potential s" by (intro potential_less [of _ _ t]) (auto simp: account_refusal_def)
  then show ?case by simp
next
  case (Release t s0 want)
  then have "potential s' < potential s"
    by (intro potential_less [of _ _ t]) (auto simp: release_action_def rank_broadcast)
  then show ?case by simp
next
  case (Watch t s0)
  then have "potential s' < potential s" by (intro potential_less [of _ _ t]) (auto simp: watch_def rank_broadcast)
  then show ?case by simp
qed

lemma cancel_decreases:
  "t < length (callers s) \<Longrightarrow> t \<notin> cancelledCtx s \<Longrightarrow> (cancel_ctx t s, s) \<in> measures [potential, woken \<circ> callers]"
  using potential_less [of "cancel_ctx t s" s t] by (simp add: cancel_ctx_def)

text \<open>
  C20. Every schedule of the callers ends: whatever the order of admissions, wake-ups, releases and
  cancellations, only finitely many steps are possible; no caller can be woken and parked for ever.
\<close>
theorem schedule_terminates:
  "wf {(s', s). sstep s s' \<or> (\<exists>t < length (callers s). t \<notin> cancelledCtx s \<and> s' = cancel_ctx t s)}"
  by (rule wf_subset [OF wf_measures]) (auto intro: sstep_decreases cancel_decreases)


subsection \<open>Every action ends\<close>

definition cinv :: "sched \<Rightarrow> bool" where
  "cinv s \<longleftrightarrow> (\<forall>t < length (callers s).
     (callers s ! t = Failed \<or> (\<exists>b. callers s ! t = Refused b) \<longrightarrow> t \<in> cancelledCtx s)
     \<and> (\<forall>w b. callers s ! t = Parked w b \<longrightarrow> t \<in> watching s \<or> b \<and> t \<in> cancelledCtx s))"

lemma cinv_run: "sched_run budget mc wants s \<Longrightarrow> cinv s"
proof (induction rule: sched_run.induct)
  case init
  then show ?case by (simp add: cinv_def sched_init_def)
next
  case (step s s')
  from step.hyps(2) step.IH show ?case
  proof (induction rule: sstep.cases)
    case (Enter t s0 want)
    then show ?case
      by (auto simp: cinv_def enter_def Let_def after_turn_def acquire_turn_def nth_list_update split: turn.splits if_splits)
  next
    case (Wake t s0 want)
    then show ?case
      by (auto simp: cinv_def wake_def Let_def after_turn_def acquire_turn_def nth_list_update split: turn.splits if_splits)
  next
    case (Account t s0 want n blocked)
    then show ?case by (auto simp: cinv_def account_def Let_def nth_list_update)
  next
    case (Account_refusal t s0 blocked)
    then show ?case by (auto simp: cinv_def account_refusal_def nth_list_update)
  next
    case (Release t s0 want)
    then show ?case by (auto simp: cinv_def release_action_def broadcast_nth nth_list_update split: phase.splits)
  next
    case (Watch t s0)
    then show ?case by (auto simp: cinv_def watch_def broadcast_nth split: phase.splits)
  qed
next
  case (cancel s t)
  then show ?case by (auto simp: cinv_def cancel_ctx_def)
qed


lemma holder_exists: "holders ps \<noteq> 0 \<Longrightarrow> \<exists>t < length ps. held (ps ! t) \<noteq> None"
proof (rule ccontr)
  assume "\<not> (\<exists>t < length ps. held (ps ! t) \<noteq> None)" and "holders ps \<noteq> 0"
  then have "\<forall>p \<in> set ps. held p = None" by (auto simp: in_set_conv_nth)
  then show False using \<open>holders ps \<noteq> 0\<close> by (simp add: holders_def tally_def)
qed

lemma held_step: "t < length (callers s) \<Longrightarrow> held (callers s ! t) \<noteq> None \<Longrightarrow> \<exists>s'. sstep s s'"
  by (cases "callers s ! t") (auto intro: sstep.intros)

text \<open>
  C19. No action is lost: when no caller can take a step any more, every action has run and been released,
  or its context was cancelled.  In particular no caller stays parked, however large its estimate, and
  no wake-up is missed.
\<close>
theorem actions_complete:
  assumes "sched_run budget mc wants s" and "\<forall>w \<in> set wants. unat w \<le> W" and "roomy budget W" and "mc \<noteq> 0"
    and stuck: "\<not> (\<exists>s'. sstep s s')" and t: "t < length (callers s)"
  shows "callers s ! t = Finished \<or> callers s ! t = Failed \<and> t \<in> cancelledCtx s"
proof -
  have inv: "ginv budget mc W s" by (rule sched_run_inv [OF assms(1-3)])
  have "holders (callers s) = 0" using holder_exists held_step stuck by blast
  then have "inFlight (sgate s) = 0" "maxConcurrency (sgate s) = mc" using inv by (auto simp: ginv_def unat_eq_zero)
  then have ok: "countOK (sgate s) \<and> bytesOK (sgate s) w" for w using assms(4) by (simp add: countOK_def bytesOK_def word_gt_0)
  show ?thesis
  proof (cases "callers s ! t")
    case (Parked w b)
    then have "Parked w b \<in> set (callers s)" using nth_mem [OF t] by simp
    then have "b = True" using inv ok by (cases b) (auto simp: ginv_def)
    then show ?thesis using Parked t stuck by (auto intro: sstep.intros)
  next
    case Failed
    then show ?thesis using cinv_run [OF assms(1)] t by (simp add: cinv_def)
  qed (use t stuck in \<open>auto intro: sstep.intros\<close>)
qed

definition demo_final :: sched where
  "demo_final = release_action 0 5 (account 0 5 1 False (enter 0 5 (sched_init (newBudgetGate 10 1) [5])))"

lemmas sched_eval = sched_init_def newBudgetGate_def enter_def account_def release_action_def gate_release_def acquire_turn_def
  after_turn_def countOK_def bytesOK_def count_blocked_def recordPeak_def broadcast_def

theorem actions_complete_witness: "callers demo_final ! 0 = Finished \<and> actionsCompleted (stats demo_final) = 1"
proof -
  have 1: "sched_run 10 1 [5] (enter 0 5 (sched_init (newBudgetGate 10 1) [5]))"
    by (rule sched_run.step [OF sched_run.init sstep.Enter]) (simp_all add: sched_init_def)
  have 2: "sched_run 10 1 [5] (account 0 5 1 False (enter 0 5 (sched_init (newBudgetGate 10 1) [5])))"
    by (rule sched_run.step [OF 1 sstep.Account]) (simp_all add: sched_eval)
  have run: "sched_run 10 1 [5] demo_final"
    unfolding demo_final_def by (rule sched_run.step [OF 2 sstep.Release]) (simp_all add: sched_eval)
  have c: "callers demo_final = [Finished]" "cancelledCtx demo_final = {}" "actionsCompleted (stats demo_final) = 1"
    by (simp_all add: demo_final_def sched_eval)
  have "\<not> (\<exists>s'. sstep demo_final s')" by (auto elim!: sstep.cases simp: c)
  then show ?thesis using actions_complete [OF run, of 5 0] c by (simp add: roomy_def)
qed

text \<open>The counters: admissions minus completions are the running actions, and the peak stays within the cap.\<close>

lemma stats_run:
  assumes "sched_run budget mc wants s"
  shows "actionsAcquired (stats s) = actionsCompleted (stats s) + of_nat (running (callers s))"
  using assms
proof (induction rule: sched_run.induct)
  case init
  then show ?case by (simp add: sched_init_def running_def tally_def comp_def)
next
  case (step s s')
  let ?f = run_weight
  have same: "running ((callers s)[t := p]) = running (callers s)" if "t < length (callers s)" "?f p = ?f (callers s ! t)" for t p
    using tally_update [OF that(1), of ?f p] that(2) by (simp add: running_def)
  have nr: "?f (after_turn w b r) = 0" for w b r by (simp add: after_turn_def split: turn.split)
  from step.hyps(2) show ?case
  proof cases
    case (Enter t want)
    then show ?thesis using step.IH same [of t "after_turn want False _"] nr by (simp add: enter_def Let_def)
  next
    case (Wake t want)
    then show ?thesis using step.IH same [of t "after_turn want True _"] nr by (simp add: wake_def Let_def)
  next
    case (Account t want n blocked)
    then show ?thesis using step.IH tally_update [OF Account(2), of ?f "Running want"]
      by (simp add: account_def Let_def recordPeak_def count_blocked_def running_def)
  next
    case (Account_refusal t blocked)
    then show ?thesis using step.IH same [of t Failed] by (simp add: account_refusal_def count_blocked_def)
  next
    case (Release t want)
    then have "running (callers s) = Suc (running ((callers s)[t := Finished]))"
      using tally_update [OF Release(2), of ?f Finished] by (simp add: running_def)
    then show ?thesis using step.IH Release by (simp add: release_action_def)
  next
    case (Watch t)
    then show ?thesis using step.IH by (simp add: watch_def)
  qed
next
  case (cancel s t)
  then show ?case by (simp add: cancel_ctx_def)
qed

end
