(* ===== verification/Estimator.thy ===== *)
theory Estimator
  imports Gate GoLib
begin

text \<open>
  The memory estimator (\<^verbatim>\<open>internal/scheduler/estimator.go\<close>) and the observation source that feeds it
  (\<^verbatim>\<open>internal/scheduler/observation.go\<close>): windows of recent observations, their median, the projection of a
  cascade, and the reading of \<^verbatim>\<open>/proc/self/status\<close>.  Byte counts are 64-bit words and wrap.
\<close>

definition staticEstimateNonIR :: u64 where "staticEstimateNonIR = 12 * 1024 * 1024"
definition staticEstimateIR :: u64 where "staticEstimateIR = 64 * 1024 * 1024"
definition maxWindowSamples :: nat where "maxWindowSamples = 128"
definition observationsBeforeMedian :: nat where "observationsBeforeMedian = 10"

record estimator =
  windowIR :: "u64 list"
  windowNonIR :: "u64 list"

definition NewDefaultEstimator :: estimator where
  "NewDefaultEstimator = \<lparr>windowIR = [], windowNonIR = []\<rparr>"

definition medianBytes :: "u64 list \<Rightarrow> u64" where
  "medianBytes inp =
     (if inp = [] then 0
      else let cp = sort inp; mid = length cp div 2
           in if length cp mod 2 = 1 then cp ! mid else (cp ! (mid - 1) + cp ! mid) div 2)"

definition Estimate :: "estimator \<Rightarrow> bool \<Rightarrow> u64" where
  "Estimate e needsIR =
     (let window = (if needsIR then windowIR e else windowNonIR e);
          fallback = (if needsIR then staticEstimateIR else staticEstimateNonIR)
      in if length window < observationsBeforeMedian then fallback else medianBytes window)"

definition appendWindow :: "u64 list \<Rightarrow> u64 \<Rightarrow> u64 list" where
  "appendWindow window v = (if length window \<ge> maxWindowSamples then tl window else window) @ [v]"

definition Observe :: "bool \<Rightarrow> u64 \<Rightarrow> estimator \<Rightarrow> estimator" where
  "Observe needsIR observed e =
     (if observed = 0 then e
      else if needsIR then e\<lparr>windowIR := appendWindow (windowIR e) observed\<rparr>
      else e\<lparr>windowNonIR := appendWindow (windowNonIR e) observed\<rparr>)"

record CascadeEstimate =
  PackageCount :: int
  PerPackageBytes :: u64
  NeedsIRPackageCount :: int
  ProjectedPeakBytes :: u64
  ExceedsBudget :: bool

definition EstimateCascade :: "int \<Rightarrow> u64 \<Rightarrow> int \<Rightarrow> u64 \<Rightarrow> CascadeEstimate" where
  "EstimateCascade packageCount perPackageBytes needsIRPackageCount budget =
     (let peak = of_int packageCount * perPackageBytes
      in \<lparr>PackageCount = packageCount, PerPackageBytes = perPackageBytes, NeedsIRPackageCount = needsIRPackageCount,
          ProjectedPeakBytes = peak, ExceedsBudget = (budget > 0 \<and> peak > budget)\<rparr>)"

datatype sampler = HeapAllocSampler | VmHWMSampler | RuntimeMetricsSampler | NoopSampler

definition SamplerFromEnv :: "string \<Rightarrow> string \<Rightarrow> sampler" where
  "SamplerFromEnv goos raw =
     (if raw = ''heapalloc'' then HeapAllocSampler
      else if raw = ''vmhwm'' then VmHWMSampler
      else if raw = ''runtimemetrics'' then RuntimeMetricsSampler
      else if raw = ''noop'' then NoopSampler
      else if goos = ''linux'' then VmHWMSampler else HeapAllocSampler)"

text \<open>\<^verbatim>\<open>Delta\<close> of a sampler, given the two readings.\<close>

definition sampler_Delta :: "sampler \<Rightarrow> u64 \<Rightarrow> u64 \<Rightarrow> u64" where
  "sampler_Delta s before after = (if s = NoopSampler then 0 else if after > before then after - before else 0)"

text \<open>The value of the line \<^verbatim>\<open>VmHWM:\<close>, after the prefix.\<close>

definition vmhwm_value :: "bytes \<Rightarrow> u64" where
  "vmhwm_value line =
     (let rest = TrimSpace line;
          (mult, num) =
            (case str_index rest '' '' of
               None \<Rightarrow> (1024, rest)
             | Some i \<Rightarrow>
                 let unit = ToLower (TrimSpace (drop (i + 1) rest))
                 in (if unit = ''kb'' then 1024 else if unit = ''mb'' then 1024 * 1024 else if unit = ''b'' then 1 else 1024,
                     take i rest))
      in case ParseUint64 (TrimSpace num) of None \<Rightarrow> 0 | Some n \<Rightarrow> of_nat n * mult)"

definition readVmHWMBytes :: "bytes option \<Rightarrow> u64" where
  "readVmHWMBytes file =
     (case file of
        None \<Rightarrow> 0
      | Some buf \<Rightarrow>
          (case find (\<lambda>line. HasPrefix line ''VmHWM:'') (split_on (CHR 0x0A) buf) of
             None \<Rightarrow> 0
           | Some line \<Rightarrow> vmhwm_value (drop 6 line)))"


subsection \<open>The windows\<close>

definition last_n :: "nat \<Rightarrow> 'a list \<Rightarrow> 'a list" where
  "last_n n xs = drop (length xs - n) xs"

lemma appendWindow_last_n: "appendWindow (last_n maxWindowSamples xs) v = last_n maxWindowSamples (xs @ [v])"
proof (cases "128 \<le> length xs")
  case True
  then have "length xs - 127 = Suc (length xs - 128)" by simp
  with True show ?thesis by (simp add: appendWindow_def last_n_def maxWindowSamples_def drop_Suc tl_drop)
qed (simp add: appendWindow_def last_n_def maxWindowSamples_def)

text \<open>What the estimator has seen of one kind, oldest first.\<close>

definition seen :: "bool \<Rightarrow> (bool \<times> u64) list \<Rightarrow> u64 list" where
  "seen kind obs = map snd (filter (\<lambda>(k, v). k = kind \<and> v \<noteq> 0) obs)"

text \<open>
  C24. The estimator's windows refine the full history of observations: after any sequence of
  observations, each window holds exactly the last 128 non-zero observations of its kind, oldest first.
\<close>
theorem Observe_refines:
  "windowIR (fold (\<lambda>(k, v). Observe k v) obs NewDefaultEstimator) = last_n maxWindowSamples (seen True obs)
   \<and> windowNonIR (fold (\<lambda>(k, v). Observe k v) obs NewDefaultEstimator) = last_n maxWindowSamples (seen False obs)"
proof (induction obs rule: rev_induct)
  case Nil
  then show ?case by (simp add: NewDefaultEstimator_def seen_def last_n_def)
next
  case (snoc x obs)
  obtain k v where x: "x = (k, v)" by (cases x)
  show ?case using snoc by (cases k) (auto simp: x Observe_def seen_def simp flip: appendWindow_last_n)
qed


subsection \<open>The median\<close>

lemma average_bounds:
  fixes a b :: u64
  assumes "a \<le> b" and "unat b < 2 ^ 63"
  shows "a \<le> (a + b) div 2 \<and> (a + b) div 2 \<le> b"
proof -
  have ab: "unat a \<le> unat b" using assms(1) by (simp add: word_le_nat_alt)
  then have "unat (a + b) = unat a + unat b" using assms(2) by (intro unat_plus) simp
  then have "unat ((a + b) div 2) = (unat a + unat b) div 2" by (simp add: unat_div)
  moreover have "unat a \<le> (unat a + unat b) div 2" "(unat a + unat b) div 2 \<le> unat b" using ab by linarith+
  ultimately show ?thesis by (simp add: word_le_nat_alt)
qed

text \<open>
  The median lies among the observations: for observations below \<open>2 ^ 63\<close> bytes it is between the
  smallest and the largest of the window, and once ten observations are there the estimate is this
  median, before that the static fallback.
\<close>
theorem Estimate_bounds:
  assumes "window = (if needsIR then windowIR e else windowNonIR e)"
    and "\<forall>v \<in> set window. unat v < 2 ^ 63" and "observationsBeforeMedian \<le> length window"
  shows "Estimate e needsIR = medianBytes window
    \<and> (\<exists>lo \<in> set window. lo \<le> Estimate e needsIR) \<and> (\<exists>hi \<in> set window. Estimate e needsIR \<le> hi)"
proof -
  let ?cp = "sort window" and ?m = "length window div 2"
  have ne: "window \<noteq> []" and l2: "2 \<le> length window" using assms(3) by (auto simp: observationsBeforeMedian_def)
  have m: "?m < length window" "?m - 1 < length window" using l2 by auto
  have mem: "?cp ! i \<in> set window" if "i < length window" for i using that by (metis length_sort nth_mem set_sort)
  have e: "Estimate e needsIR = medianBytes window"
    using assms(1,3) by (simp add: Estimate_def Let_def not_less)
  have "?cp ! (?m - 1) \<le> medianBytes window \<and> medianBytes window \<le> ?cp ! ?m"
  proof (cases "length window mod 2 = 1")
    case True
    then show ?thesis using m ne by (simp add: medianBytes_def Let_def sorted_nth_mono)
  next
    case False
    have "?cp ! (?m - 1) \<le> ?cp ! ?m" using m by (intro sorted_nth_mono) simp_all
    then show ?thesis using average_bounds [of "?cp ! (?m - 1)" "?cp ! ?m"] assms(2) mem [OF m(1)] False ne
      by (simp add: medianBytes_def Let_def)
  qed
  then show ?thesis using e mem m by metis
qed

definition demo_estimator :: estimator where
  "demo_estimator = fold (\<lambda>v. Observe True v) [1, 2, 3, 4, 5, 6, 7, 8, 9, 10] NewDefaultEstimator"

theorem Estimate_bounds_witness:
  "\<exists>hi \<in> set (windowIR demo_estimator). Estimate demo_estimator True \<le> hi"
proof -
  have w: "windowIR demo_estimator = [1, 2, 3, 4, 5, 6, 7, 8, 9, 10]"
    by (simp add: demo_estimator_def Observe_def NewDefaultEstimator_def appendWindow_def maxWindowSamples_def)
  have "\<forall>v \<in> set (windowIR demo_estimator). unat v < 2 ^ 63" by (simp add: w)
  moreover have "observationsBeforeMedian \<le> length (windowIR demo_estimator)" by (simp add: w observationsBeforeMedian_def)
  ultimately show ?thesis using Estimate_bounds [of "windowIR demo_estimator" True demo_estimator] by auto
qed

text \<open>Above that bound the sum of the two middle observations wraps.\<close>

lemma median_wraps: "medianBytes (replicate 10 (2 ^ 63)) = 0"
proof -
  have "sort (replicate 10 (2 ^ 63 :: u64)) = replicate 10 (2 ^ 63)" by (simp add: sorted_sort_id)
  then show ?thesis by (simp only: medianBytes_def Let_def) simp
qed

lemma cascade_exact:
  assumes "0 \<le> packageCount" and "nat packageCount * unat perPackage < 2 ^ 64"
  shows "ExceedsBudget (EstimateCascade packageCount perPackage ir budget) \<longleftrightarrow>
    budget \<noteq> 0 \<and> unat budget < nat packageCount * unat perPackage"
proof -
  have "(of_int packageCount :: u64) = of_nat (nat packageCount)" using assms(1) by (simp add: of_nat_nat)
  then have "of_int packageCount * perPackage = (of_nat (nat packageCount * unat perPackage) :: u64)" by simp
  then have "unat (of_int packageCount * perPackage) = nat packageCount * unat perPackage"
    using assms(2) by (simp only: unsigned_of_nat) (simp add: take_bit_nat_eq_self)
  then show ?thesis using unat_eq_zero [of budget] by (auto simp: EstimateCascade_def Let_def word_less_nat_alt)
qed



subsection \<open>The status file\<close>

lemma trim_run_pad: "list_all is_space pad \<Longrightarrow> trim_run w2 w3 (pad @ s) = trim_run w2 w3 s"
  by (induction pad) (simp_all add: trim_run_skip)

lemma digit_solid: "48 \<le> (of_char c :: nat) \<and> (of_char c :: nat) \<le> 57 \<Longrightarrow> ascii c \<and> \<not> is_space c \<and> c \<noteq> CHR '' ''"
  by (auto simp: is_space_def)

lemma vmhwm_value_kb:
  assumes "list_all is_space pad" and "n < 2 ^ 54"
  shows "vmhwm_value (pad @ nat_digits n @ '' kB'') = of_nat (n * 1024)"
proof -
  let ?d = "nat_digits n"
  obtain c r where d: "?d = c # r" by (cases ?d) auto
  then have c: "ascii c" "\<not> is_space c" using nat_digits_chars [of c n] digit_solid by auto
  have t: "TrimSpace (pad @ ?d @ '' kB'') = ?d @ '' kB''"
    using c by (simp add: TrimSpace_def trim_run_pad [OF assms(1)] d trim_run_stop) (simp add: is_space_def wide_space2_def wide_space3_def)
  have td: "TrimSpace ?d = ?d"
    by (intro TrimSpace_tight) (use nat_digits_chars digit_solid in \<open>unfold list_all_iff, blast\<close>)
  have "CHR '' '' \<notin> set ?d" using nat_digits_chars digit_solid by blast
  then have i: "str_index (?d @ '' kB'') '' '' = Some (length ?d)" using str_index_char [of "CHR '' ''" ?d "''kB''"] by simp
  have "ToLower (TrimSpace ''kB'') = ''kb''" by code_simp
  moreover have "ParseUint64 ?d = Some n" using assms(2) by (simp add: ParseUint64_def parse_nat_digits)
  ultimately show ?thesis unfolding vmhwm_value_def Let_def t i by (simp add: td)
qed

text \<open>
  The status file is read right: for a file whose first line that starts with \<open>VmHWM:\<close> gives \<open>n\<close> in
  kB, whatever blanks separate the fields and whatever the other lines say, the reading is
  \<open>1024 n\<close> bytes.
\<close>
theorem readVmHWM_exact:
  assumes "list_all is_space pad" and "CHR 0x0A \<notin> set pad" and "n < 2 ^ 54"
    and "\<forall>l \<in> set before. \<not> HasPrefix l ''VmHWM:''" and "\<forall>l \<in> set (before @ after). CHR 0x0A \<notin> set l"
  shows "readVmHWMBytes (Some (join_with [CHR 0x0A] (before @ (''VmHWM:'' @ pad @ nat_digits n @ '' kB'') # after)))
    = of_nat (n * 1024)"
proof -
  let ?line = "''VmHWM:'' @ pad @ nat_digits n @ '' kB''"
  have "CHR 0x0A \<notin> set (nat_digits n)" using nat_digits_chars [of "CHR 0x0A" n] by auto
  then have "split_on (CHR 0x0A) (join_with [CHR 0x0A] (before @ ?line # after)) = before @ ?line # after"
    using assms(2,5) by (intro split_join_with) auto
  moreover have "find (\<lambda>l. HasPrefix l ''VmHWM:'') (before @ ?line # after) = Some ?line"
    using assms(4) by (induction before) (auto simp: HasPrefix_def)
  ultimately show ?thesis
    using vmhwm_value_kb [OF assms(1,3)] by (simp add: readVmHWMBytes_def)
qed

theorem readVmHWM_exact_witness:
  "readVmHWMBytes (Some (join_with [CHR 0x0A] ([''Name: plaid''] @ (''VmHWM:'' @ '' '' @ nat_digits 12 @ '' kB'') # [''Threads: 4''])))
   = 12288"
  using readVmHWM_exact [of "'' ''" 12 "[''Name: plaid'']" "[''Threads: 4'']"]
  by (simp add: is_space_def HasPrefix_def)

end
