(* ===== verification/IRManager.thy ===== *)
theory IRManager
  imports Gate
begin

text \<open>
  The pin accounting of the IR (\<^verbatim>\<open>internal/l3/manager.go\<close>: \<^verbatim>\<open>SequentialIRManager\<close>, \<^verbatim>\<open>Pin\<close>) and the counters the
  scheduler derives from it (\<^verbatim>\<open>internal/scheduler/rss.go\<close>: \<^verbatim>\<open>Pin\<close>, \<^verbatim>\<open>PinWithAnalyzer\<close>, \<^verbatim>\<open>Stats\<close>).

  A pin is a handle with a flag that makes its release idempotent.  Handles are numbered in the order
  of creation; a run is a sequence of pins and releases by any goroutines.
\<close>

record irmanager =
  pinned :: "string \<rightharpoonup> int"
  totPins :: int

record pin =
  ppkg :: string
  preleased :: bool

definition NewSequentialIRManager :: irmanager where
  "NewSequentialIRManager = \<lparr>pinned = Map.empty, totPins = 0\<rparr>"

definition mgr_count :: "irmanager \<Rightarrow> string \<Rightarrow> int" where
  "mgr_count m pkg = (case pinned m pkg of None \<Rightarrow> 0 | Some n \<Rightarrow> n)"

definition mgr_Pin :: "irmanager \<Rightarrow> string \<Rightarrow> irmanager \<times> pin" where
  "mgr_Pin m pkg =
     (m\<lparr>pinned := (pinned m)(pkg \<mapsto> mgr_count m pkg + 1), totPins := totPins m + 1\<rparr>, \<lparr>ppkg = pkg, preleased = False\<rparr>)"

definition mgr_release :: "irmanager \<Rightarrow> string \<Rightarrow> irmanager" where
  "mgr_release m pkg =
     (let n = mgr_count m pkg
      in m\<lparr>pinned := (if n \<le> 1 then (pinned m)(pkg := None) else (pinned m)(pkg \<mapsto> n - 1))\<rparr>)"

definition Pin_Release :: "irmanager \<Rightarrow> pin \<Rightarrow> irmanager \<times> pin" where
  "Pin_Release m p = (if preleased p then (m, p) else (mgr_release m (ppkg p), p\<lparr>preleased := True\<rparr>))"

definition Snapshot :: "irmanager \<Rightarrow> string \<rightharpoonup> int" where
  "Snapshot m pkg = (case pinned m pkg of None \<Rightarrow> None | Some v \<Rightarrow> if v > 0 then Some v else None)"

text \<open>\<^verbatim>\<open>Stats\<close>: the release events, from the pin events and the live pins of the snapshot.\<close>

definition releaseEvents :: "u64 \<Rightarrow> u64 \<Rightarrow> u64" where
  "releaseEvents pins live = (if pins > live then pins - live else 0)"


subsection \<open>Runs\<close>

datatype event = PinE string | ReleaseE nat

record irstate =
  mgr :: irmanager
  pins :: "pin list"

fun ir_step :: "event \<Rightarrow> irstate \<Rightarrow> irstate" where
  "ir_step (PinE pkg) s = (case mgr_Pin (mgr s) pkg of (m, p) \<Rightarrow> \<lparr>mgr = m, pins = pins s @ [p]\<rparr>)"
| "ir_step (ReleaseE k) s =
     (if k < length (pins s)
      then case Pin_Release (mgr s) (pins s ! k) of (m, p) \<Rightarrow> \<lparr>mgr = m, pins = (pins s)[k := p]\<rparr>
      else s)"

definition ir_run :: "event list \<Rightarrow> irstate" where
  "ir_run es = fold ir_step es \<lparr>mgr = NewSequentialIRManager, pins = []\<rparr>"

text \<open>The pins that are live, per package: what the counts stand for.\<close>

definition live :: "pin list \<Rightarrow> string \<Rightarrow> nat" where
  "live ps pkg = tally (\<lambda>p. if ppkg p = pkg \<and> \<not> preleased p then 1 else 0) ps"

definition ir_inv :: "irstate \<Rightarrow> bool" where
  "ir_inv s \<longleftrightarrow> (\<forall>pkg. pinned (mgr s) pkg = (if live (pins s) pkg = 0 then None else Some (int (live (pins s) pkg))))
     \<and> totPins (mgr s) = int (length (pins s))"

lemma live_release:
  assumes "k < length ps" and "\<not> preleased (ps ! k)"
  shows "live (ps[k := (ps ! k)\<lparr>preleased := True\<rparr>]) pkg = live ps pkg - (if pkg = ppkg (ps ! k) then 1 else 0)"
    and "1 \<le> live ps (ppkg (ps ! k))"
proof -
  show "live (ps[k := (ps ! k)\<lparr>preleased := True\<rparr>]) pkg = live ps pkg - (if pkg = ppkg (ps ! k) then 1 else 0)"
    using tally_update [OF assms(1), of "\<lambda>p. if ppkg p = pkg \<and> \<not> preleased p then 1 else 0" "(ps ! k)\<lparr>preleased := True\<rparr>"] assms(2)
    by (auto simp: live_def)
  show "1 \<le> live ps (ppkg (ps ! k))"
    using tally_mem [OF assms(1), of "\<lambda>p. if ppkg p = ppkg (ps ! k) \<and> \<not> preleased p then 1 else 0"] assms(2) by (simp add: live_def)
qed

lemma live_snoc: "live (ps @ [p]) pkg = live ps pkg + (if ppkg p = pkg \<and> \<not> preleased p then 1 else 0)"
  by (simp add: live_def tally_def)

lemma ir_step_inv: "ir_inv s \<Longrightarrow> ir_inv (ir_step e s)"
proof (cases e)
  case (PinE pkg)
  assume "ir_inv s"
  with PinE show ?thesis by (auto simp: ir_inv_def mgr_Pin_def mgr_count_def live_snoc)
next
  case (ReleaseE k)
  assume inv: "ir_inv s"
  show ?thesis
  proof (cases "k < length (pins s) \<and> \<not> preleased (pins s ! k)")
    case True
    then have k: "k < length (pins s)" and p: "\<not> preleased (pins s ! k)" by auto
    have c: "mgr_count (mgr s) (ppkg (pins s ! k)) = int (live (pins s) (ppkg (pins s ! k)))"
      using inv by (simp add: ir_inv_def mgr_count_def)
    show ?thesis
      using inv live_release [OF k p] c by (auto simp: ReleaseE k p ir_inv_def Pin_Release_def mgr_release_def Let_def)
  next
    case False
    then show ?thesis using inv by (auto simp: ir_inv_def ReleaseE Pin_Release_def)
  qed
qed

lemma ir_run_inv: "ir_inv (ir_run es)"
proof -
  have "ir_inv s \<Longrightarrow> ir_inv (fold ir_step es s)" for s
    by (induction es arbitrary: s) (auto intro: ir_step_inv)
  then show ?thesis by (simp add: ir_run_def ir_inv_def NewSequentialIRManager_def live_def tally_def)
qed

text \<open>
  C23. The pin counts refine the set of live pins: after any sequence of pins and releases, including
  repeated releases of the same pin, the snapshot lists exactly the packages with a pin that has not been
  released, each with the number of those pins.
\<close>
theorem Snapshot_refines:
  "Snapshot (mgr (ir_run es)) pkg =
     (if live (pins (ir_run es)) pkg = 0 then None else Some (int (live (pins (ir_run es)) pkg)))"
  using ir_run_inv [of es] by (simp add: ir_inv_def Snapshot_def)

text \<open>The derived counter is the number of released pins, as long as the pin counter has not wrapped.\<close>

lemma releaseEvents_exact:
  assumes "n < 2 ^ 64" and "l \<le> n"
  shows "releaseEvents (of_nat n) (of_nat l) = of_nat (n - l)"
proof -
  have u: "unat (of_nat n :: u64) = n" "unat (of_nat l :: u64) = l" using assms by (simp_all add: unsigned_of_nat take_bit_nat_eq_self)
  then have "(of_nat n :: u64) > of_nat l \<longleftrightarrow> l < n" by (simp add: word_less_nat_alt)
  then show ?thesis using assms(2) by (auto simp: releaseEvents_def of_nat_diff)
qed

end
