(* ===== verification/UnitConfig.thy ===== *)
theory UnitConfig
  imports GoLib Bytes "HOL-Library.AList"
begin

text \<open>
  The declared inputs of a unit action (\<^verbatim>\<open>internal/unit/config.go\<close>, \<^verbatim>\<open>importcfg.go\<close>, \<^verbatim>\<open>facts_io.go\<close>): the
  parsed \<^verbatim>\<open>unit.json\<close> with its validation, the importcfg parser, and the frame of a facts file.

  The struct decoder of \<^verbatim>\<open>encoding/json\<close> is an argument of \<open>LoadConfig\<close>.  Go maps are maps; where the code
  ranges over one, the order of the iteration is an argument.
\<close>

subsection \<open>unit.json\<close>

definition SchemaVersion :: int where "SchemaVersion = 1"

definition ModeFull :: string where "ModeFull = ''full''"
definition ModeFactsOnly :: string where "ModeFactsOnly = ''facts_only''"
definition ModeModule :: string where "ModeModule = ''module''"

record PackageConfig =
  pkg_Path :: string
  GoFiles :: "string list"
  IgnoredFiles :: "string list"
  GOOS :: string
  GOARCH :: string
  Tags :: "string list"
  Cgo :: bool
  GoVersion :: string
  TestFilter :: string

record DepsConfig =
  Importcfg :: string
  dep_Facts :: "(string \<times> string) list"
  StdlibDir :: string

record ModuleConfig =
  GoMod :: string
  mod_Path :: string

record AnalysisConfig =
  golangci_Config :: string
  cfg_Mode :: string
  EnableOnly :: "string list"

record OutConfig =
  out_Facts :: string
  out_Sarif :: string

record unitConfig =
  cfg_Schema :: int
  Package :: PackageConfig
  Deps :: DepsConfig
  Module :: ModuleConfig
  Analysis :: AnalysisConfig
  Out :: OutConfig

definition EffectiveMode :: "unitConfig \<Rightarrow> string" where
  "EffectiveMode c = (if cfg_Mode (Analysis c) = [] then ModeFull else cfg_Mode (Analysis c))"

datatype config_error =
    SchemaUnsupported int
  | UnknownMode string
  | UnknownTestFilter string
  | ModuleNeedsGoMod
  | PathRequired
  | GoFilesRequired
  | GOARCHRequired
  | GOOSRequired
  | SarifRequired
  | FactsRequired
  | EmptyGoFile

definition validate :: "unitConfig \<Rightarrow> config_error option" where
  "validate c =
     (let mode = EffectiveMode c in
      if cfg_Schema c \<noteq> SchemaVersion then Some (SchemaUnsupported (cfg_Schema c))
      else if cfg_Mode (Analysis c) \<notin> {[], ModeFull, ModeFactsOnly, ModeModule} then Some (UnknownMode (cfg_Mode (Analysis c)))
      else if TestFilter (Package c) \<notin> {[], ''off'', ''only'', ''exclude''} then Some (UnknownTestFilter (TestFilter (Package c)))
      else if mode = ModeModule \<and> GoMod (Module c) = [] then Some ModuleNeedsGoMod
      else if mode \<noteq> ModeModule \<and> pkg_Path (Package c) = [] then Some PathRequired
      else if mode \<noteq> ModeModule \<and> GoFiles (Package c) = [] then Some GoFilesRequired
      else if GOARCH (Package c) = [] \<and> mode \<noteq> ModeModule then Some GOARCHRequired
      else if GOOS (Package c) = [] \<and> mode \<noteq> ModeModule then Some GOOSRequired
      else if out_Sarif (Out c) = [] then Some SarifRequired
      else if out_Facts (Out c) = [] \<and> mode \<noteq> ModeModule then Some FactsRequired
      else if list_ex (\<lambda>f. \<not> IsAbs f \<and> f = []) (GoFiles (Package c)) then Some EmptyGoFile
      else None)"

datatype load_error = ReadFailed string | ParseFailed string | Invalid config_error

definition LoadConfig :: "(string \<Rightarrow> bytes result) \<Rightarrow> (bytes \<Rightarrow> unitConfig result) \<Rightarrow> string \<Rightarrow> load_error + unitConfig" where
  "LoadConfig read decode path =
     (case read path of
        Inl e \<Rightarrow> Inl (ReadFailed e)
      | Inr body \<Rightarrow>
          (case decode body of
             Inl e \<Rightarrow> Inl (ParseFailed e)
           | Inr c \<Rightarrow> (case validate c of Some e \<Rightarrow> Inl (Invalid e) | None \<Rightarrow> Inr c)))"


subsection \<open>importcfg\<close>

text \<open>
  \<^verbatim>\<open>bufio.Scanner\<close> with its default line splitter and a buffer of at most one mebibyte: the lines, each
  without its line feed and one carriage return, and whether the scan stopped at a line that does not fit.
\<close>

definition max_token :: nat where "max_token = 1024 * 1024"

definition dropCR :: "bytes \<Rightarrow> bytes" where
  "dropCR l = (if l \<noteq> [] \<and> last l = CHR 0x0D then butlast l else l)"

definition raw_lines :: "bytes \<Rightarrow> bytes list" where
  "raw_lines body = (let ls = split_on (CHR 0x0A) body in if last ls = [] then butlast ls else ls)"

definition scan_lines :: "bytes \<Rightarrow> bytes list \<times> bool" where
  "scan_lines body =
     (let ls = raw_lines body
      in (map dropCR (takeWhile (\<lambda>l. length l < max_token) ls), list_ex (\<lambda>l. max_token \<le> length l) ls))"

definition Cut :: "string \<Rightarrow> string \<Rightarrow> (string \<times> string) option" where
  "Cut s sep = (case str_index s sep of None \<Rightarrow> None | Some i \<Rightarrow> Some (take i s, drop (i + length sep) s))"

datatype importcfg_error =
    OpenImportcfg string
  | MalformedLine nat string
  | MalformedPackagefile nat string
  | MalformedImportmap nat string
  | UnknownVerb nat string
  | TokenTooLong

type_synonym smap2 = "(string \<times> string) list \<times> (string \<times> string) list"

text \<open>One line: the two maps are \<^verbatim>\<open>files\<close> and \<^verbatim>\<open>importmap\<close>, both ranged over later, so they are association lists.\<close>

definition cut_pair :: "string \<Rightarrow> (string \<times> string) option" where
  "cut_pair rest = (case Cut rest ''='' of Some (a, b) \<Rightarrow> if a = [] \<or> b = [] then None else Some (a, b) | None \<Rightarrow> None)"

definition importcfg_line :: "nat \<Rightarrow> bytes \<Rightarrow> smap2 \<Rightarrow> importcfg_error + smap2" where
  "importcfg_line ln text st =
     (let line = TrimSpace text in
      if line = [] \<or> HasPrefix line ''#'' then Inr st
      else case Cut line '' '' of
        None \<Rightarrow> Inl (MalformedLine ln line)
      | Some (verb, rest) \<Rightarrow>
          if verb = ''packagefile'' then
            (case cut_pair rest of
               None \<Rightarrow> Inl (MalformedPackagefile ln rest)
             | Some (ip, file) \<Rightarrow> Inr (AList.update ip file (fst st), snd st))
          else if verb = ''importmap'' then
            (case cut_pair rest of
               None \<Rightarrow> Inl (MalformedImportmap ln rest)
             | Some (from, to) \<Rightarrow> Inr (fst st, AList.update from to (snd st)))
          else if verb = ''packageshlib'' \<or> verb = ''modinfo'' then Inr st
          else Inl (UnknownVerb ln verb))"

fun importcfg_lines :: "nat \<Rightarrow> bytes list \<Rightarrow> smap2 \<Rightarrow> importcfg_error + smap2" where
  "importcfg_lines ln [] st = Inr st"
| "importcfg_lines ln (l # ls) st =
     (case importcfg_line ln l st of Inl e \<Rightarrow> Inl e | Inr st' \<Rightarrow> importcfg_lines (Suc ln) ls st')"

definition resolve_alias :: "string \<times> string \<Rightarrow> (string \<times> string) list \<Rightarrow> (string \<times> string) list" where
  "resolve_alias = (\<lambda>(from, to) files.
     case map_of files to of
       None \<Rightarrow> files
     | Some file \<Rightarrow> if map_of files from = None then AList.update from file files else files)"

definition parseImportcfg ::
  "((string \<times> string) list \<Rightarrow> (string \<times> string) list) \<Rightarrow> bytes result \<Rightarrow> importcfg_error + (string \<times> string) list" where
  "parseImportcfg iter file =
     (case file of
        Inl e \<Rightarrow> Inl (OpenImportcfg e)
      | Inr body \<Rightarrow>
          let (ls, long) = scan_lines body in
          (case importcfg_lines 1 ls ([], []) of
             Inl e \<Rightarrow> Inl e
           | Inr (files, importmap) \<Rightarrow>
               if long then Inl TokenTooLong else Inr (fold resolve_alias (iter importmap) files)))"


subsection \<open>Facts files\<close>

definition factsMagic :: bytes where "factsMagic = ''PLF'' @ [CHR 0x01]"

definition wrapFacts :: "bytes \<Rightarrow> bytes" where
  "wrapFacts payload = factsMagic @ payload"

datatype facts_error = FactsTruncated nat | FactsBadMagic bytes | FactsVersion byte

definition unwrapFacts :: "bytes \<Rightarrow> facts_error + bytes" where
  "unwrapFacts body =
     (if length body < length factsMagic then Inl (FactsTruncated (length body))
      else if take 3 body \<noteq> take 3 factsMagic then Inl (FactsBadMagic (take 3 body))
      else if body ! 3 \<noteq> factsMagic ! 3 then Inl (FactsVersion (body ! 3))
      else Inr (drop (length factsMagic) body))"



subsection \<open>What validation promises\<close>

definition unit_wf :: "unitConfig \<Rightarrow> bool" where
  "unit_wf c \<longleftrightarrow> cfg_Schema c = 1 \<and> EffectiveMode c \<in> {''full'', ''facts_only'', ''module''}
     \<and> TestFilter (Package c) \<in> {[], ''off'', ''only'', ''exclude''}
     \<and> out_Sarif (Out c) \<noteq> [] \<and> [] \<notin> set (GoFiles (Package c))
     \<and> (EffectiveMode c = ''module'' \<longrightarrow> GoMod (Module c) \<noteq> [])
     \<and> (EffectiveMode c \<noteq> ''module'' \<longrightarrow> pkg_Path (Package c) \<noteq> [] \<and> GoFiles (Package c) \<noteq> []
          \<and> GOARCH (Package c) \<noteq> [] \<and> GOOS (Package c) \<noteq> [] \<and> out_Facts (Out c) \<noteq> [])"

lemma validate_iff: "validate c = None \<longleftrightarrow> unit_wf c"
proof -
  have "list_ex (\<lambda>f. \<not> IsAbs f \<and> f = []) fs \<longleftrightarrow> [] \<in> set fs" for fs
    by (auto simp: list_ex_iff IsAbs_def HasPrefix_def)
  then show ?thesis
    by (auto simp: validate_def unit_wf_def EffectiveMode_def Let_def SchemaVersion_def ModeFull_def ModeFactsOnly_def ModeModule_def)
qed

text \<open>
  A configuration the driver accepts is well formed, and every well-formed one is accepted: loading
  succeeds with \<open>c\<close> exactly when the file reads, decodes to \<open>c\<close>, and \<open>c\<close> has the current schema, a known mode
  and test filter, a SARIF output, no empty source path, a go.mod in module mode, and otherwise a
  package path, sources, a target platform and a facts output.
\<close>
theorem LoadConfig_wf:
  "LoadConfig read decode path = Inr c \<longleftrightarrow> (\<exists>body. read path = Inr body \<and> decode body = Inr c \<and> unit_wf c)"
  by (auto simp: LoadConfig_def validate_iff [symmetric] split: sum.splits option.splits)


subsection \<open>What the importcfg parser reads\<close>

datatype importcfg_entry = Packagefile string string | Importmap string string | Remark string

fun entry_line :: "importcfg_entry \<Rightarrow> bytes" where
  "entry_line (Packagefile ip file) = ''packagefile '' @ ip @ ''='' @ file"
| "entry_line (Importmap from to) = ''importmap '' @ from @ ''='' @ to"
| "entry_line (Remark s) = ''#'' @ s"

definition print_importcfg :: "importcfg_entry list \<Rightarrow> bytes" where
  "print_importcfg es = concat (map (\<lambda>e. entry_line e @ [CHR 0x0A]) es)"

definition pair_ok :: "string \<Rightarrow> string \<Rightarrow> bool" where
  "pair_ok a b \<longleftrightarrow> a \<noteq> [] \<and> b \<noteq> [] \<and> CHR ''='' \<notin> set a \<and> CHR 0x0A \<notin> set (a @ b) \<and> ascii (last b) \<and> \<not> is_space (last b)"

fun entry_ok :: "importcfg_entry \<Rightarrow> bool" where
  "entry_ok (Packagefile ip file) = pair_ok ip file"
| "entry_ok (Importmap from to) = pair_ok from to"
| "entry_ok (Remark s) = (CHR 0x0A \<notin> set s \<and> (s = [] \<or> ascii (last s) \<and> \<not> is_space (last s)))"

fun entry_meaning :: "importcfg_entry \<Rightarrow> smap2 \<Rightarrow> smap2" where
  "entry_meaning (Packagefile ip file) (fs, im) = (AList.update ip file fs, im)"
| "entry_meaning (Importmap from to) (fs, im) = (fs, AList.update from to im)"
| "entry_meaning (Remark s) st = st"

lemma cut_pair_ok: "pair_ok a b \<Longrightarrow> cut_pair (a @ ''='' @ b) = Some (a, b)"
  using str_index_char [of "CHR ''=''" a b] by (simp add: cut_pair_def Cut_def pair_ok_def)

lemma line_trim:
  assumes "pair_ok a b" and "ascii v \<and> \<not> is_space v"
  shows "TrimSpace (v # s @ a @ ''='' @ b) = v # s @ a @ ''='' @ b"
  by (rule TrimSpace_ends) (use assms in \<open>auto simp: pair_ok_def\<close>)

lemma verb_cut: "CHR '' '' \<notin> set v \<Longrightarrow> Cut (v @ '' '' @ r) '' '' = Some (v, r)"
  using str_index_char [of "CHR '' ''" v r] by (simp add: Cut_def)

lemma importcfg_line_entry:
  assumes "entry_ok e"
  shows "importcfg_line ln (dropCR (entry_line e)) st = Inr (entry_meaning e st)"
proof (cases e)
  case (Packagefile ip f)
  then have ok: "pair_ok ip f" using assms by simp
  have cr: "dropCR (entry_line e) = entry_line e"
    using ok by (auto simp: Packagefile dropCR_def pair_ok_def is_space_def)
  have t: "TrimSpace (entry_line e) = entry_line e"
    using line_trim [OF ok, of "CHR ''p''" "''ackagefile ''"] by (simp add: Packagefile is_space_def)
  have c: "Cut (entry_line e) '' '' = Some (''packagefile'', ip @ ''='' @ f)"
    using verb_cut [of "''packagefile''" "ip @ ''='' @ f"] by (simp add: Packagefile)
  show ?thesis unfolding importcfg_line_def Let_def cr t c
    using cut_pair_ok [OF ok] by (cases st) (simp add: Packagefile HasPrefix_def)
next
  case (Importmap ip f)
  then have ok: "pair_ok ip f" using assms by simp
  have cr: "dropCR (entry_line e) = entry_line e"
    using ok by (auto simp: Importmap dropCR_def pair_ok_def is_space_def)
  have t: "TrimSpace (entry_line e) = entry_line e"
    using line_trim [OF ok, of "CHR ''i''" "''mportmap ''"] by (simp add: Importmap is_space_def)
  have c: "Cut (entry_line e) '' '' = Some (''importmap'', ip @ ''='' @ f)"
    using verb_cut [of "''importmap''" "ip @ ''='' @ f"] by (simp add: Importmap)
  show ?thesis unfolding importcfg_line_def Let_def cr t c
    using cut_pair_ok [OF ok] by (cases st) (simp add: Importmap HasPrefix_def)
next
  case (Remark s)
  have l: "ascii (last (entry_line e)) \<and> \<not> is_space (last (entry_line e))" using assms by (auto simp: Remark is_space_def)
  then have "dropCR (entry_line e) = entry_line e" by (auto simp: dropCR_def is_space_def)
  moreover have "TrimSpace (entry_line e) = entry_line e"
    by (rule TrimSpace_ends) (use l in \<open>simp_all add: Remark is_space_def\<close>)
  ultimately show ?thesis by (simp add: importcfg_line_def Remark HasPrefix_def)
qed

lemma importcfg_lines_entries:
  "list_all entry_ok es \<Longrightarrow> importcfg_lines ln (map (\<lambda>e. dropCR (entry_line e)) es) st = Inr (fold entry_meaning es st)"
  by (induction es arbitrary: ln st) (simp_all add: importcfg_line_entry)


lemma entry_line_plain: "entry_ok e \<Longrightarrow> CHR 0x0A \<notin> set (entry_line e)"
  by (cases e) (auto simp: pair_ok_def)

lemma split_print:
  "list_all entry_ok es \<Longrightarrow> split_on (CHR 0x0A) (print_importcfg es) = map entry_line es @ [[]]"
  by (induction es) (simp_all add: print_importcfg_def split_on_append entry_line_plain)

lemma scan_print:
  assumes "list_all entry_ok es" and "\<forall>e \<in> set es. length (entry_line e) < max_token"
  shows "scan_lines (print_importcfg es) = (map (\<lambda>e. dropCR (entry_line e)) es, False)"
proof -
  have tw: "takeWhile (\<lambda>l. length l < max_token) (map entry_line es) = map entry_line es"
    using assms(2) by (simp add: takeWhile_eq_all_conv)
  have "\<not> list_ex (\<lambda>l. max_token \<le> length l) (map entry_line es)" using assms(2) by (auto simp: list_ex_iff)
  then show ?thesis by (simp add: scan_lines_def raw_lines_def split_print [OF assms(1)] tw)
qed

text \<open>Aliases: what each import path resolves to, when no alias points at another alias.\<close>

definition alias_meaning :: "(string \<rightharpoonup> string) \<Rightarrow> (string \<times> string) list \<Rightarrow> string \<rightharpoonup> string" where
  "alias_meaning files im ip =
     (case files ip of Some f \<Rightarrow> Some f | None \<Rightarrow> (case map_of im ip of None \<Rightarrow> None | Some to \<Rightarrow> files to))"

definition flat_aliases :: "(string \<rightharpoonup> string) \<Rightarrow> (string \<times> string) list \<Rightarrow> bool" where
  "flat_aliases files im \<longleftrightarrow> list_all (\<lambda>(from, to). files to \<noteq> None \<or> to \<notin> fst ` set im) im"

lemma resolve_alias_meaning:
  assumes "distinct (map fst (done @ (from, to) # rest))" and "files to \<noteq> None \<or> to \<notin> fst ` set (done @ (from, to) # rest)"
    and "map_of fs = alias_meaning files done"
  shows "map_of (resolve_alias (from, to) fs) = alias_meaning files (done @ [(from, to)])"
proof -
  have "map_of done from = None" using assms(1) by (auto simp: map_of_eq_None_iff)
  moreover have "alias_meaning files done to = files to"
  proof (cases "files to")
    case None
    then have "map_of done to = None" using assms(2) by (auto simp: map_of_eq_None_iff)
    then show ?thesis using None by (simp add: alias_meaning_def)
  qed (simp add: alias_meaning_def)
  ultimately show ?thesis
    by (auto simp: resolve_alias_def assms(3) update_conv' alias_meaning_def fun_eq_iff map_add_def split: option.splits)
qed

lemma fold_resolve_alias:
  assumes "distinct (map fst (done @ im))" and "flat_aliases files (done @ im)"
    and "map_of fs = alias_meaning files done"
  shows "map_of (fold resolve_alias im fs) = alias_meaning files (done @ im)"
  using assms
proof (induction im arbitrary: "done" fs)
  case (Cons p im)
  obtain frm tgt where p: "p = (frm, tgt)" by (cases p)
  have "files tgt \<noteq> None \<or> tgt \<notin> fst ` set (done @ (frm, tgt) # im)"
    using Cons.prems(2) by (simp add: flat_aliases_def p)
  then show ?case using Cons.IH [of "done @ [p]" "resolve_alias p fs"] Cons.prems resolve_alias_meaning [of "done" frm tgt im files fs] by (simp add: p)
qed simp

lemma alias_meaning_perm:
  assumes "distinct (map fst im)" and "mset im' = mset im"
  shows "alias_meaning files im' = alias_meaning files im"
proof -
  have "distinct (map fst im')" using assms by (metis mset_eq_imp_distinct_iff mset_map)
  then have "map_of im' = map_of im" using assms by (simp add: map_of_inject_set) (metis set_mset_mset)
  then show ?thesis by (intro ext) (simp add: alias_meaning_def split: option.split)
qed


lemma AList_updates_distinct:
  "distinct (map fst fs) \<Longrightarrow> distinct (map fst im) \<Longrightarrow>
    distinct (map fst (fst (fold entry_meaning es (fs, im)))) \<and> distinct (map fst (snd (fold entry_meaning es (fs, im))))"
proof (induction es arbitrary: fs im)
  case (Cons e es)
  then show ?case by (cases e) (simp_all add: distinct_update)
qed simp

lemma fold_alias_distinct: "distinct (map fst files) \<Longrightarrow> distinct (map fst (fold resolve_alias im files))"
proof (induction im arbitrary: files)
  case (Cons p im)
  have "distinct (map fst (resolve_alias p files))"
    using Cons.prems by (cases p) (auto simp: resolve_alias_def distinct_update split: option.split)
  then show ?case using Cons.IH by simp
qed simp

text \<open>
  The importcfg is read right whatever the order in which the alias map is walked: each import path
  resolves to the last file declared for it, or, if it has none, to the file declared for the path it is
  an alias of.  No alias may point at a path that is itself only an alias.
\<close>
theorem parseImportcfg_exact:
  assumes "list_all entry_ok es" and "\<forall>e \<in> set es. length (entry_line e) < max_token"
    and "\<forall>xs. mset (iter xs) = mset xs"
    and "fold entry_meaning es ([], []) = (files, im)" and "flat_aliases (map_of files) im"
  shows "\<exists>al. parseImportcfg iter (Inr (print_importcfg es)) = Inr al \<and> distinct (map fst al)
    \<and> map_of al = alias_meaning (map_of files) im"
proof -
  have d: "distinct (map fst im)" "distinct (map fst files)" using AList_updates_distinct [of "[]" "[]" es] assms(4) by simp_all
  have p: "mset (iter im) = mset im" using assms(3) by simp
  have "set (iter im) = set im" using p by (metis set_mset_mset)
  then have "distinct (map fst ([] @ iter im))" "flat_aliases (map_of files) ([] @ iter im)"
    using d p assms(5) by (simp_all add: flat_aliases_def list_all_iff) (metis mset_eq_imp_distinct_iff mset_map)
  moreover have "map_of files = alias_meaning (map_of files) []" by (auto simp: alias_meaning_def fun_eq_iff split: option.splits)
  ultimately have "map_of (fold resolve_alias (iter im) files) = alias_meaning (map_of files) im"
    using fold_resolve_alias [of "[]" "iter im" "map_of files" files] alias_meaning_perm [OF d(1) p] by simp
  moreover have "parseImportcfg iter (Inr (print_importcfg es)) = Inr (fold resolve_alias (iter im) files)"
    using importcfg_lines_entries [OF assms(1), of 1 "([], [])"]
    by (simp add: parseImportcfg_def scan_print [OF assms(1,2)] assms(4))
  moreover have "distinct (map fst (fold resolve_alias (iter im) files))" by (rule fold_alias_distinct [OF d(2)])
  ultimately show ?thesis by blast
qed

definition demo_importcfg :: "importcfg_entry list" where
  "demo_importcfg = [Remark '' import config'', Importmap ''b'' ''a'', Packagefile ''a'' ''x.a'', Packagefile ''a'' ''y.a'']"

theorem parseImportcfg_exact_witness:
  "\<exists>al. parseImportcfg rev (Inr (print_importcfg demo_importcfg)) = Inr al \<and> map_of al ''b'' = Some ''y.a''"
proof -
  have "fold entry_meaning demo_importcfg ([], []) = ([(''a'', ''y.a'')], [(''b'', ''a'')])"
    by (simp add: demo_importcfg_def)
  moreover have "list_all entry_ok demo_importcfg" by (simp add: demo_importcfg_def pair_ok_def is_space_def)
  moreover have "\<forall>e \<in> set demo_importcfg. length (entry_line e) < max_token" by (simp add: demo_importcfg_def max_token_def)
  ultimately obtain al where "parseImportcfg rev (Inr (print_importcfg demo_importcfg)) = Inr al"
    "map_of al = alias_meaning (map_of [(''a'', ''y.a'')]) [(''b'', ''a'')]"
    using parseImportcfg_exact [of demo_importcfg rev "[(''a'', ''y.a'')]" "[(''b'', ''a'')]"] by (auto simp: flat_aliases_def)
  then show ?thesis by (simp add: alias_meaning_def)
qed

text \<open>
  With a chain of aliases the result depends on the order: walked from the far end both aliases resolve,
  walked from the near end the first is left out.
\<close>
lemma alias_chain_order:
  "fold resolve_alias [(''b'', ''c''), (''a'', ''b'')] [(''c'', ''c.a'')] = [(''c'', ''c.a''), (''b'', ''c.a''), (''a'', ''c.a'')]"
  "fold resolve_alias [(''a'', ''b''), (''b'', ''c'')] [(''c'', ''c.a'')] = [(''c'', ''c.a''), (''b'', ''c.a'')]"
  by (simp_all add: resolve_alias_def)


subsection \<open>Facts frame\<close>

text \<open>
  The frame of a facts file is exact: a body unwraps to \<open>p\<close> if and only if it is the wrapping of \<open>p\<close>;
  anything truncated, foreign or of another version is refused.
\<close>
theorem facts_frame_exact: "unwrapFacts body = Inr p \<longleftrightarrow> body = wrapFacts p"
proof -
  have "\<exists>a b c d r. body = a # b # c # d # r" if "\<not> length body < 4"
    using that by (cases body; cases "tl body"; cases "tl (tl body)"; cases "tl (tl (tl body))") auto
  then show ?thesis by (fastforce simp: unwrapFacts_def wrapFacts_def factsMagic_def split: if_splits)
qed

end
