(* ===== verification/UnitStore.thy ===== *)
theory UnitStore
  imports UnitConfig
begin

text \<open>
  The entry store of the unit cache (\<^verbatim>\<open>internal/unitcache/store.go\<close>): the entry codec, \<^verbatim>\<open>Get\<close>, \<^verbatim>\<open>Put\<close>,
  \<^verbatim>\<open>ReadOutputs\<close> and \<^verbatim>\<open>Entry.Write\<close>.

  A file system maps paths to contents.  What the operating system contributes to a write, the name of the
  temporary file and the error of each system call, is an argument.
\<close>

subsection \<open>Files\<close>

type_synonym ufs = "string \<rightharpoonup> bytes"

record wio =
  w_mkdir :: "string option"
  w_temp :: "string result"
  w_write :: "string option"
  w_part :: bytes
  w_close :: "string option"
  w_rename :: "string option"
  w_remove :: "string option"

definition u_remove :: "wio \<Rightarrow> ufs \<Rightarrow> string \<Rightarrow> ufs" where
  "u_remove w fs p = (if w_remove w = None then fs(p := None) else fs)"

text \<open>
  The write both packages share: \<^verbatim>\<open>MkdirAll\<close>, \<^verbatim>\<open>CreateTemp\<close>, write, close, rename.  \<open>tidy\<close> says whether the
  temporary file is removed after a failed rename: \<^verbatim>\<open>Put\<close> does that, \<^verbatim>\<open>writeFileAtomic\<close> does not.
\<close>

definition publish :: "bool \<Rightarrow> wio \<Rightarrow> ufs \<Rightarrow> string \<Rightarrow> bytes \<Rightarrow> ufs \<times> string option" where
  "publish tidy w fs path body =
     (case (w_mkdir w, w_temp w) of
        (Some e, _) \<Rightarrow> (fs, Some e)
      | (None, Inl e) \<Rightarrow> (fs, Some e)
      | (None, Inr tmp) \<Rightarrow>
          (case (w_write w, w_close w, w_rename w) of
             (Some e, _, _) \<Rightarrow> (u_remove w (fs(tmp \<mapsto> w_part w)) tmp, Some e)
           | (None, Some e, _) \<Rightarrow> (u_remove w (fs(tmp \<mapsto> body)) tmp, Some e)
           | (None, None, Some e) \<Rightarrow> (if tidy then u_remove w (fs(tmp \<mapsto> body)) tmp else fs(tmp \<mapsto> body), Some e)
           | (None, None, None) \<Rightarrow> (fs(tmp := None, path \<mapsto> body), None)))"

definition unit_writeFileAtomic :: "wio \<Rightarrow> ufs \<Rightarrow> string \<Rightarrow> bytes \<Rightarrow> ufs \<times> string option" where
  "unit_writeFileAtomic w fs path body = publish False w fs path body"


subsection \<open>Entries\<close>

record unitEntry =
  Sarif :: bytes
  Facts :: bytes
  HasFacts :: bool
  Warnings :: "string list"

record Outputs =
  o_Sarif :: string
  o_Facts :: string

definition entryMagic :: bytes where "entryMagic = ''PLUC'' @ [CHR 0x01]"

definition entry_payload :: "byte \<Rightarrow> bytes \<Rightarrow> unitEntry \<Rightarrow> bytes" where
  "entry_payload flag k e =
     entryMagic @ k @ le 4 (length (Warnings e)) @ concat (map frame (Warnings e)) @ [flag] @ frame (Sarif e) @ frame (Facts e)"

definition encodeEntry :: "bytes \<Rightarrow> unitEntry \<Rightarrow> bytes" where
  "encodeEntry k e =
     (let b = entry_payload (if HasFacts e then CHR 0x01 else CHR 0x00) k e in b @ sha256 b)"

datatype entry_error =
    Truncated | BadMagic | ChecksumMismatch | TruncatedKey | KeyMismatch | TruncatedBody | Part string | Trailing nat

definition readUint32 :: "bytes \<Rightarrow> (nat \<times> bytes) result" where
  "readUint32 r = (if length r < 4 then Inl ''truncated count'' else Inr (unle (take 4 r), drop 4 r))"

definition readBytes :: "nat \<Rightarrow> bytes \<Rightarrow> (bytes \<times> bytes) result" where
  "readBytes i r =
     (if length r < 8 then Inl ''truncated length''
      else let n = unle (take 8 r); r = drop 8 r in
           if length r < n then Inl ''truncated payload'' else Inr (take n r, drop n r))"

definition decode_fields :: "bytes \<Rightarrow> entry_error + unitEntry" where
  "decode_fields r =
     (case readUint32 r of
        Inl e \<Rightarrow> Inl (Part e)
      | Inr (n, r) \<Rightarrow>
        (case read_n readBytes 0 n r of
          Inl e \<Rightarrow> Inl (Part e)
        | Inr (ws, []) \<Rightarrow> Inl TruncatedBody
        | Inr (ws, flag # r) \<Rightarrow>
          (case readBytes 0 r of
             Inl e \<Rightarrow> Inl (Part e)
           | Inr (sarif, r) \<Rightarrow>
             (case readBytes 0 r of
                Inl e \<Rightarrow> Inl (Part e)
              | Inr (facts, r) \<Rightarrow>
                  if r \<noteq> [] then Inl (Trailing (length r))
                  else Inr \<lparr>Sarif = sarif, Facts = facts, HasFacts = (flag = CHR 0x01), Warnings = ws\<rparr>))))"

definition decodeEntry :: "bytes \<Rightarrow> bytes \<Rightarrow> entry_error + unitEntry" where
  "decodeEntry k body =
     (let n = length body - 32; payload = take n body; want = drop n body; r = drop (length entryMagic) payload in
      if length body < length entryMagic + 32 then Inl Truncated
      else if take (length entryMagic) body \<noteq> entryMagic then Inl BadMagic
      else if sha256 payload \<noteq> want then Inl ChecksumMismatch
      else if length r < 32 then Inl TruncatedKey
      else if take 32 r \<noteq> k then Inl KeyMismatch
      else decode_fields (drop 32 r))"


subsection \<open>The store\<close>

definition store_path :: "string \<Rightarrow> bytes \<Rightarrow> string" where
  "store_path root k = (let h = hex_encode k in Join [root, take 2 h, h])"

datatype get_error = GetRead string | GetDecode entry_error

text \<open>\<open>rd\<close> is the error, other than a missing file, of reading the entry.\<close>

definition store_Get :: "string \<Rightarrow> string option \<Rightarrow> ufs \<Rightarrow> bytes \<Rightarrow> get_error + unitEntry option" where
  "store_Get root rd fs k =
     (case fs (store_path root k) of
        None \<Rightarrow> Inr None
      | Some body \<Rightarrow>
          (case rd of
             Some e \<Rightarrow> Inl (GetRead e)
           | None \<Rightarrow> (case decodeEntry k body of Inl e \<Rightarrow> Inl (GetDecode e) | Inr e \<Rightarrow> Inr (Some e))))"

definition store_Put :: "string \<Rightarrow> wio \<Rightarrow> ufs \<Rightarrow> bytes \<Rightarrow> unitEntry \<Rightarrow> ufs \<times> string option" where
  "store_Put root w fs k e = publish True w fs (store_path root k) (encodeEntry k e)"

definition ReadOutputs :: "(string \<Rightarrow> bytes result) \<Rightarrow> Outputs \<Rightarrow> string list \<Rightarrow> unitEntry result" where
  "ReadOutputs read out warnings =
     (case read (o_Sarif out) of
        Inl e \<Rightarrow> Inl (''unitcache: read sarif output: '' @ e)
      | Inr sarif \<Rightarrow>
          if o_Facts out = [] then Inr \<lparr>Sarif = sarif, Facts = [], HasFacts = False, Warnings = warnings\<rparr>
          else case read (o_Facts out) of
                 Inl e \<Rightarrow> Inl (''unitcache: read facts output: '' @ e)
               | Inr facts \<Rightarrow> Inr \<lparr>Sarif = sarif, Facts = facts, HasFacts = True, Warnings = warnings\<rparr>)"

datatype write_error = FactsPresence | WriteSarif string | WriteFacts string

definition Entry_Write :: "wio \<Rightarrow> wio \<Rightarrow> ufs \<Rightarrow> unitEntry \<Rightarrow> Outputs \<Rightarrow> ufs \<times> write_error option" where
  "Entry_Write w1 w2 fs e out =
     (if (o_Facts out \<noteq> []) \<noteq> HasFacts e then (fs, Some FactsPresence)
      else case unit_writeFileAtomic w1 fs (o_Sarif out) (Sarif e) of
             (fs, Some m) \<Rightarrow> (fs, Some (WriteSarif m))
           | (fs, None) \<Rightarrow>
               if o_Facts out = [] then (fs, None)
               else case unit_writeFileAtomic w2 fs (o_Facts out) (Facts e) of
                      (fs, Some m) \<Rightarrow> (fs, Some (WriteFacts m))
                    | (fs, None) \<Rightarrow> (fs, None))"



subsection \<open>The codec is exact\<close>

definition len64 :: "bytes \<Rightarrow> bool" where
  "len64 s \<longleftrightarrow> length s < 2 ^ 64"

lemma readBytes_frame: "len64 s \<Longrightarrow> readBytes i (frame s @ r) = Inr (s, r)"
  by (simp add: readBytes_def frame_def len64_def unle_le Let_def)

lemma readBytes_sound:
  assumes "readBytes i r = Inr (x, r')"
  shows "r = frame x @ r' \<and> len64 x"
proof -
  let ?n = "unle (take 8 r)"
  have r: "8 \<le> length r" "?n \<le> length r - 8" "x = take ?n (drop 8 r)" "r' = drop ?n (drop 8 r)"
    using assms by (auto simp: readBytes_def Let_def split: if_splits)
  then have "length x = ?n" "length (take 8 r) = 8" by simp_all
  then have "le 8 (length x) = take 8 r" "?n < 2 ^ 64" using le_unle [of "take 8 r"] unle_bound [of "take 8 r"] by simp_all
  moreover have "x @ r' = drop 8 r" unfolding r(3,4) by (rule append_take_drop_id)
  ultimately show ?thesis using \<open>length x = ?n\<close> by (simp add: frame_def len64_def)
qed

lemma frame_nonempty: "frame s \<noteq> []"
  by (auto simp: frame_def dest!: arg_cong [of _ _ length])

interpretation chunk: exact_codec frame readBytes len64
  by unfold_locales (simp_all only: readBytes_frame frame_nonempty not_False_eq_True readBytes_sound)

definition entry_ok :: "unitEntry \<Rightarrow> bool" where
  "entry_ok e \<longleftrightarrow> length (Warnings e) < 2 ^ 32 \<and> list_all len64 (Warnings e) \<and> len64 (Sarif e) \<and> len64 (Facts e)"

lemma decode_fields_payload:
  assumes "entry_ok e"
  shows "decode_fields (le 4 (length (Warnings e)) @ concat (map frame (Warnings e)) @ flag # frame (Sarif e) @ frame (Facts e))
    = Inr (e\<lparr>HasFacts := (flag = CHR 0x01)\<rparr>)"
proof -
  have "readUint32 (le 4 (length (Warnings e)) @ r) = Inr (length (Warnings e), r)" for r
    using assms by (simp add: readUint32_def entry_ok_def unle_le)
  moreover have "readBytes 0 (frame (Facts e)) = Inr (Facts e, [])"
    using readBytes_frame [of "Facts e" 0 "[]"] assms by (simp add: entry_ok_def)
  ultimately show ?thesis using assms
    by (simp add: decode_fields_def chunk.read_n_encs readBytes_frame entry_ok_def)
qed

lemma decode_fields_sound:
  assumes "decode_fields r = Inr e"
  shows "\<exists>flag. r = le 4 (length (Warnings e)) @ concat (map frame (Warnings e)) @ flag # frame (Sarif e) @ frame (Facts e)
    \<and> HasFacts e = (flag = CHR 0x01) \<and> entry_ok e"
proof -
  obtain n r1 flag r2 r3 where n: "readUint32 r = Inr (n, r1)" and w: "read_n readBytes 0 n r1 = Inr (Warnings e, flag # r2)"
    and s: "readBytes 0 r2 = Inr (Sarif e, r3)" and f: "readBytes 0 r3 = Inr (Facts e, [])" and h: "HasFacts e = (flag = CHR 0x01)"
    using assms by (auto simp: decode_fields_def split: sum.splits list.splits if_splits)
  have r: "r = le 4 n @ r1" "n < 2 ^ 32"
    using n le_unle [of "take 4 r"] unle_bound [of "take 4 r"] by (auto simp: readUint32_def split: if_splits)
  then show ?thesis using chunk.read_n_sound [OF w] readBytes_sound [OF s] readBytes_sound [OF f] h
    by (auto simp: entry_ok_def)
qed

lemma decodeEntry_frame:
  assumes "length k = 32"
  shows "decodeEntry k body = Inr e \<longleftrightarrow> (\<exists>r. body = (entryMagic @ k @ r) @ sha256 (entryMagic @ k @ r) \<and> decode_fields r = Inr e)"
    (is "?L \<longleftrightarrow> ?R")
proof
  assume ?L
  let ?p = "take (length body - 32) body"
  have d: "length entryMagic + 32 \<le> length body" "take (length entryMagic) body = entryMagic" "sha256 ?p = drop (length body - 32) body"
    "32 \<le> length (drop (length entryMagic) ?p)" "take 32 (drop (length entryMagic) ?p) = k"
    and f: "decode_fields (drop 32 (drop (length entryMagic) ?p)) = Inr e"
    using \<open>?L\<close> by (auto simp: decodeEntry_def Let_def split: if_splits)
  have "take (length entryMagic) ?p = entryMagic" using d(1,2) by (simp add: min_absorb1)
  then have "?p = entryMagic @ k @ drop 32 (drop (length entryMagic) ?p)" by (metis append_take_drop_id d(5))
  then show ?R using f d(3) by (metis append_take_drop_id)
next
  assume ?R
  then show ?L using assms by (auto simp: decodeEntry_def Let_def)
qed

lemma decodeEntry_iff:
  assumes "length k = 32"
  shows "decodeEntry k body = Inr e \<longleftrightarrow>
    (\<exists>flag. HasFacts e = (flag = CHR 0x01) \<and> entry_ok e \<and> body = entry_payload flag k e @ sha256 (entry_payload flag k e))"
    (is "_ \<longleftrightarrow> ?R")
proof
  let ?r = "\<lambda>flag. le 4 (length (Warnings e)) @ concat (map frame (Warnings e)) @ flag # frame (Sarif e) @ frame (Facts e)"
  have pay: "entryMagic @ k @ ?r flag = entry_payload flag k e" for flag by (simp add: entry_payload_def)
  {
    assume "decodeEntry k body = Inr e"
    then obtain r where b: "body = (entryMagic @ k @ r) @ sha256 (entryMagic @ k @ r)" and "decode_fields r = Inr e"
      using decodeEntry_frame [OF assms] by blast
    then obtain flag where "r = ?r flag" "HasFacts e = (flag = CHR 0x01)" "entry_ok e" using decode_fields_sound by blast
    then show ?R using b pay by metis
  next
    assume ?R
    then obtain flag where f: "HasFacts e = (flag = CHR 0x01)" "entry_ok e"
      and b: "body = entry_payload flag k e @ sha256 (entry_payload flag k e)" by blast
    have "e\<lparr>HasFacts := (flag = CHR 0x01)\<rparr> = e" using f(1) by simp
    then have "decode_fields (?r flag) = Inr e" using decode_fields_payload [OF f(2), of flag] by simp
    then show "decodeEntry k body = Inr e" using decodeEntry_frame [OF assms] b pay by metis
  }
qed

lemma decode_encode:
  assumes "length k = 32" and "entry_ok e"
  shows "decodeEntry k (encodeEntry k e) = Inr e"
  unfolding decodeEntry_iff [OF assms(1)] encodeEntry_def Let_def
  by (rule exI [of _ "if HasFacts e then CHR 0x01 else CHR 0x00"]) (simp add: assms(2))

text \<open>
  The entry codec is exact: a stored body decodes under a key to an entry if and only if it is that
  entry's encoding under that very key, checksum included, up to the value of the byte that says whether
  facts are present.  So a misfiled, truncated, extended or damaged entry is never served.
\<close>
theorem decodeEntry_exact:
  assumes "length k = 32"
  shows "decodeEntry k body = Inr e \<longleftrightarrow>
    (\<exists>flag. HasFacts e = (flag = CHR 0x01) \<and> entry_ok e \<and> body = entry_payload flag k e @ sha256 (entry_payload flag k e))"
  by (rule decodeEntry_iff [OF assms])

definition demo_entry :: unitEntry where
  "demo_entry = \<lparr>Sarif = ''{}'', Facts = ''PLF'', HasFacts = True, Warnings = [''w'']\<rparr>"

lemma demo_entry_ok: "entry_ok demo_entry"
  by (simp add: demo_entry_def entry_ok_def len64_def)

theorem decodeEntry_exact_witness:
  "decodeEntry (replicate 32 CHR ''k'') (encodeEntry (replicate 32 CHR ''k'') demo_entry) = Inr demo_entry"
proof -
  have "\<exists>flag. HasFacts demo_entry = (flag = CHR 0x01) \<and> entry_ok demo_entry
    \<and> encodeEntry (replicate 32 CHR ''k'') demo_entry
      = entry_payload flag (replicate 32 CHR ''k'') demo_entry @ sha256 (entry_payload flag (replicate 32 CHR ''k'') demo_entry)"
    by (rule exI [of _ "CHR 0x01"]) (simp add: demo_entry_ok encodeEntry_def Let_def, simp add: demo_entry_def)
  then show ?thesis
    by (intro decodeEntry_exact [THEN iffD2, of "replicate 32 CHR ''k''"]) simp_all
qed

end
