(* ===== verification/UnitKey.thy ===== *)
theory UnitKey
  imports UnitConfig
begin

text \<open>
  The key of the unit cache (\<^verbatim>\<open>internal/unitcache/key.go\<close>): the builder with its per-path memo, the walk over a
  declared directory, and \<^verbatim>\<open>ComputeKey\<close>.

  The host's files are an argument: reading a file, resolving links, listing a directory (each name with
  whether the entry is a link), reading a link, the kind of what a path leads to, and the working directory.
  The recursion of the walk is over directories that links may join into cycles, so it takes fuel; that the
  number of real directories plus one is enough is a theorem below.
\<close>

datatype filekind = Directory | Regular | Special

record host =
  h_read :: "string \<Rightarrow> bytes result"
  h_eval :: "string \<Rightarrow> string result"
  h_list :: "string \<Rightarrow> (string \<times> bool) list result"
  h_link :: "string \<Rightarrow> string result"
  h_stat :: "string \<Rightarrow> filekind result"
  h_wd :: "string result"

subsection \<open>The builder\<close>

text \<open>
  What has been written to the hash: a tagged value is two chunks, a tagged path with a digest three.
\<close>

datatype item = Field string bytes | File string string bytes

fun item_chunks :: "item \<Rightarrow> bytes list" where
  "item_chunks (Field tag val) = [tag, val]"
| "item_chunks (File tag path digest) = [tag, path, digest]"

record keyBuilder =
  kb_items :: "item list"
  kb_seen :: "string \<rightharpoonup> bytes"

definition kb_bytes :: "item list \<Rightarrow> bytes" where
  "kb_bytes its = frames (concat (map item_chunks its))"

definition newKeyBuilder :: keyBuilder where
  "newKeyBuilder = \<lparr>kb_items = [], kb_seen = Map.empty\<rparr>"

definition kb_add :: "item \<Rightarrow> keyBuilder \<Rightarrow> keyBuilder" where
  "kb_add it kb = kb\<lparr>kb_items := kb_items kb @ [it]\<rparr>"

definition kb_field :: "string \<Rightarrow> bytes \<Rightarrow> keyBuilder \<Rightarrow> keyBuilder" where
  "kb_field tag val kb = kb_add (Field tag val) kb"

definition fileDigest :: "host \<Rightarrow> string \<Rightarrow> bytes result" where
  "fileDigest h path = ebind (h_read h path) (\<lambda>c. Inr (sha256 c))"

definition digest_failed :: "string \<Rightarrow> string" where
  "digest_failed e = ''unitcache: digest declared input: '' @ e"

definition kb_file :: "host \<Rightarrow> string \<Rightarrow> string \<Rightarrow> keyBuilder \<Rightarrow> keyBuilder result" where
  "kb_file h tag path kb =
     (case kb_seen kb path of
        Some dg \<Rightarrow> Inr (kb_add (File tag path dg) kb)
      | None \<Rightarrow>
          (case fileDigest h path of
             Inl e \<Rightarrow> Inl (digest_failed e)
           | Inr dg \<Rightarrow> Inr (kb_add (File tag path dg) (kb\<lparr>kb_seen := (kb_seen kb)(path \<mapsto> dg)\<rparr>))))"


subsection \<open>Directory trees\<close>

type_synonym walk_state = "string set \<times> keyBuilder"

definition fold_link :: "host \<Rightarrow> string \<Rightarrow> string \<Rightarrow> bool \<Rightarrow> keyBuilder \<Rightarrow> keyBuilder result" where
  "fold_link h path rel symlink kb =
     (if symlink
      then (case h_link h path of
              Inl e \<Rightarrow> Inl (''unitcache: readlink '' @ path @ '': '' @ e)
            | Inr target \<Rightarrow> Inr (kb_field ''symlink_target'' target (kb_field ''symlink'' rel kb)))
      else Inr kb)"

definition walk_entry ::
  "host \<Rightarrow> (string \<Rightarrow> string \<Rightarrow> walk_state \<Rightarrow> walk_state result option) \<Rightarrow> string \<Rightarrow> string \<Rightarrow> string \<times> bool
   \<Rightarrow> walk_state \<Rightarrow> walk_state result option" where
  "walk_entry h walk dir pre = (\<lambda>(name, symlink) (visited, kb).
     let path = Join [dir, name]; rel = pre @ name in
     case fold_link h path rel symlink kb of
       Inl e \<Rightarrow> Some (Inl e)
     | Inr kb \<Rightarrow>
         (case h_stat h path of
            Inl e \<Rightarrow> Some (Inl (''unitcache: stat '' @ path @ '': '' @ e))
          | Inr Directory \<Rightarrow> walk path (rel @ ''/'') (visited, kb_field ''dir'' rel kb)
          | Inr Special \<Rightarrow> Some (Inl (''unitcache: '' @ path @ '': not a regular file''))
          | Inr Regular \<Rightarrow>
              (case fileDigest h path of
                 Inl e \<Rightarrow> Some (Inl (digest_failed e))
               | Inr dg \<Rightarrow> Some (Inr (visited, kb_add (File ''tree_file'' rel dg) kb)))))"

fun walk_entries ::
  "('e \<Rightarrow> 's \<Rightarrow> 's result option) \<Rightarrow> 'e list \<Rightarrow> 's \<Rightarrow> 's result option" where
  "walk_entries f [] st = Some (Inr st)"
| "walk_entries f (e # es) st =
     (case f e st of
        None \<Rightarrow> None
      | Some (Inl m) \<Rightarrow> Some (Inl m)
      | Some (Inr st') \<Rightarrow> walk_entries f es st')"

primrec walkTree :: "host \<Rightarrow> nat \<Rightarrow> string \<Rightarrow> string \<Rightarrow> walk_state \<Rightarrow> walk_state result option" where
  "walkTree h 0 = (\<lambda>dir pre st. None)"
| "walkTree h (Suc n) = (\<lambda>dir pre (visited, kb).
     case h_eval h dir of
       Inl e \<Rightarrow> Some (Inl (''unitcache: resolve '' @ dir @ '': '' @ e))
     | Inr real \<Rightarrow>
         if real \<in> visited then Some (Inr (visited, kb_field ''cycle'' pre kb))
         else (case h_list h dir of
                 Inl e \<Rightarrow> Some (Inl (''unitcache: read '' @ dir @ '': '' @ e))
               | Inr entries \<Rightarrow>
                   walk_entries (walk_entry h (walkTree h n) dir pre) (sort_key fst entries) (insert real visited, kb)))"

definition kb_tree :: "host \<Rightarrow> nat \<Rightarrow> string \<Rightarrow> string \<Rightarrow> keyBuilder \<Rightarrow> keyBuilder result option" where
  "kb_tree h fuel tag root kb =
     map_option (\<lambda>r. ebind r (\<lambda>st. Inr (snd st))) (walkTree h fuel root [] ({}, kb_field tag root kb))"


subsection \<open>ComputeKey\<close>

definition keySchema :: string where "keySchema = ''plaid-lint/unit-cache/key/v1''"

definition declared_paths :: "unitConfig \<Rightarrow> string list" where
  "declared_paths cfg =
     GoFiles (Package cfg) @ IgnoredFiles (Package cfg) @ map snd (dep_Facts (Deps cfg))
     @ [Importcfg (Deps cfg), StdlibDir (Deps cfg), golangci_Config (Analysis cfg), GoMod (Module cfg),
        out_Sarif (Out cfg), out_Facts (Out cfg)]"

definition anyAbsolutePath :: "unitConfig \<Rightarrow> bool" where
  "anyAbsolutePath cfg \<longleftrightarrow> list_ex (\<lambda>p. p \<noteq> [] \<and> IsAbs p) (declared_paths cfg)"

text \<open>A map entry by entry in the order of its sorted keys: the key as a field, the file it names.\<close>

definition kb_map :: "host \<Rightarrow> string \<Rightarrow> (string \<times> string) list \<Rightarrow> keyBuilder \<Rightarrow> keyBuilder result" where
  "kb_map h tag m = efold (\<lambda>ip kb. kb_file h (tag @ ''_body'') (the (map_of m ip)) (kb_field tag ip kb)) (sort (map fst m))"

definition kb_optional :: "host \<Rightarrow> string \<Rightarrow> string \<Rightarrow> keyBuilder \<Rightarrow> keyBuilder result" where
  "kb_optional h tag path kb = (if path \<noteq> [] then kb_file h tag path kb else Inr kb)"

definition kb_importcfg ::
  "host \<Rightarrow> ((string \<times> string) list \<Rightarrow> (string \<times> string) list) \<Rightarrow> string \<Rightarrow> keyBuilder \<Rightarrow> keyBuilder result" where
  "kb_importcfg h iter path kb =
     (if path = [] then Inr kb
      else ebind (kb_file h ''importcfg'' path kb) (\<lambda>kb.
        case parseImportcfg iter (h_read h path) of
          Inl e \<Rightarrow> Inl ''unitcache: importcfg''
        | Inr files \<Rightarrow> kb_map h ''packagefile'' files kb))"

text \<open>Everything but the declared tree.\<close>

definition key_inputs ::
  "host \<Rightarrow> ((string \<times> string) list \<Rightarrow> (string \<times> string) list) \<Rightarrow> string \<Rightarrow> unitConfig \<Rightarrow> string \<Rightarrow> keyBuilder result" where
  "key_inputs h iter cfgPath cfg toolID =
     (if toolID = [] then Inl ''unitcache: empty tool identity''
      else ebind (h_read h cfgPath) (\<lambda>cfgBody.
        let kb = kb_field ''unit.json'' cfgBody (kb_field ''tool'' toolID (kb_field ''schema'' keySchema newKeyBuilder)) in
        ebind (if anyAbsolutePath cfg then ebind (h_wd h) (\<lambda>wd. Inr (kb_field ''wd'' wd kb)) else Inr kb) (\<lambda>kb.
        ebind (efold (kb_file h ''go_file'') (GoFiles (Package cfg)) kb) (\<lambda>kb.
        ebind (efold (kb_file h ''ignored_file'') (IgnoredFiles (Package cfg)) kb) (\<lambda>kb.
        ebind (kb_importcfg h iter (Importcfg (Deps cfg)) kb) (\<lambda>kb.
        ebind (kb_map h ''dep_facts'' (dep_Facts (Deps cfg)) kb) (\<lambda>kb.
        ebind (kb_optional h ''golangci'' (golangci_Config (Analysis cfg)) kb) (\<lambda>kb.
        kb_optional h ''go_mod'' (GoMod (Module cfg)) kb))))))))"

definition key_written ::
  "host \<Rightarrow> nat \<Rightarrow> ((string \<times> string) list \<Rightarrow> (string \<times> string) list) \<Rightarrow> string \<Rightarrow> unitConfig \<Rightarrow> string \<Rightarrow> item list result option" where
  "key_written h fuel iter cfgPath cfg toolID =
     (case key_inputs h iter cfgPath cfg toolID of
        Inl e \<Rightarrow> Some (Inl e)
      | Inr kb \<Rightarrow>
          map_option (\<lambda>r. ebind r (\<lambda>kb. Inr (kb_items kb)))
            (if StdlibDir (Deps cfg) \<noteq> [] then kb_tree h fuel ''stdlib_dir'' (StdlibDir (Deps cfg)) kb else Some (Inr kb)))"

definition unit_ComputeKey ::
  "host \<Rightarrow> nat \<Rightarrow> ((string \<times> string) list \<Rightarrow> (string \<times> string) list) \<Rightarrow> string \<Rightarrow> unitConfig \<Rightarrow> string \<Rightarrow> bytes result option" where
  "unit_ComputeKey h fuel iter cfgPath cfg toolID =
     map_option (\<lambda>r. ebind r (\<lambda>its. Inr (sha256 (kb_bytes its)))) (key_written h fuel iter cfgPath cfg toolID)"


subsection \<open>The walk ends\<close>

definition keeps :: "('s \<Rightarrow> bool) \<Rightarrow> ('e \<Rightarrow> 's \<Rightarrow> 's result option) \<Rightarrow> 'e \<Rightarrow> bool" where
  "keeps I f e \<longleftrightarrow> (\<forall>st st'. I st \<longrightarrow> f e st = Some (Inr st') \<longrightarrow> I st')"

lemma walk_entries_result:
  assumes "\<forall>e \<in> set es. keeps I f e" and "I st" and "walk_entries f es st = Some (Inr st')"
  shows "I st'"
  using assms
proof (induction es arbitrary: st)
  case (Cons e es)
  obtain st1 where st1: "f e st = Some (Inr st1)" "walk_entries f es st1 = Some (Inr st')"
    using Cons.prems(3) by (auto split: option.splits sum.splits)
  have "keeps I f e" using Cons.prems(1) by simp
  then have "I st1" using Cons.prems(2) st1(1) unfolding keeps_def by blast
  then show ?case using Cons.IH [of st1] Cons.prems(1) st1(2) by simp
qed simp

lemma walk_entries_inv:
  assumes "\<And>e st. I st \<Longrightarrow> f e st \<noteq> None" and "\<forall>e \<in> set es. keeps I f e" and "I st"
  shows "walk_entries f es st \<noteq> None"
  using assms(2,3)
proof (induction es arbitrary: st)
  case (Cons e es)
  obtain r where r: "f e st = Some r" using assms(1) [OF Cons.prems(2), of e] by auto
  show ?case
  proof (cases r)
    case (Inr st')
    have "keeps I f e" using Cons.prems(1) by simp
    then have "I st'" using Cons.prems(2) r Inr unfolding keeps_def by blast
    then show ?thesis using Cons.IH [of st'] Cons.prems(1) r Inr by simp
  qed (simp add: r)
qed simp

lemma walk_entry_Inr:
  "walk_entry h walk dir pre (name, symlink) (visited, kb) = Some (Inr st') \<longleftrightarrow>
    (\<exists>kb1. fold_link h (Join [dir, name]) (pre @ name) symlink kb = Inr kb1
      \<and> (h_stat h (Join [dir, name]) = Inr Directory
            \<and> walk (Join [dir, name]) ((pre @ name) @ ''/'') (visited, kb_field ''dir'' (pre @ name) kb1) = Some (Inr st')
         \<or> h_stat h (Join [dir, name]) = Inr Regular
            \<and> (\<exists>d. fileDigest h (Join [dir, name]) = Inr d \<and> st' = (visited, kb_add (File ''tree_file'' (pre @ name) d) kb1))))"
  by (auto simp: walk_entry_def Let_def split: sum.splits filekind.splits)

lemma walk_entry_None:
  "walk_entry h walk dir pre (name, symlink) (visited, kb) = None \<Longrightarrow> \<exists>kb1. walk (Join [dir, name]) ((pre @ name) @ ''/'') (visited, kb1) = None"
  by (auto simp: walk_entry_def Let_def split: sum.splits filekind.splits)

lemma walk_entry_grows:
  assumes "\<forall>d p s s'. walk d p s = Some (Inr s') \<longrightarrow> fst s \<subseteq> fst s'" and "walk_entry h walk dir pre e s = Some (Inr s')"
  shows "fst s \<subseteq> fst s'"
proof -
  obtain name symlink visited kb where es: "e = (name, symlink)" "s = (visited, kb)" by (cases e; cases s)
  from assms(2) obtain d p k where "walk d p (visited, k) = Some (Inr s') \<or> fst s' = visited"
    unfolding es walk_entry_Inr by fastforce
  then show ?thesis using assms(1) es(2) by fastforce
qed

lemma walkTree_grows: "walkTree h n dir pre st = Some (Inr st') \<Longrightarrow> fst st \<subseteq> fst st'"
proof (induction n arbitrary: dir pre st st')
  case (Suc n)
  obtain visited kb where st: "st = (visited, kb)" by (cases st)
  have "visited \<subseteq> fst st'" if w: "walk_entries (walk_entry h (walkTree h n) dir pre) es (insert r visited, kb) = Some (Inr st')" for es r
  proof (rule walk_entries_result [OF _ _ w])
    have "fst s \<subseteq> fst s'" if "walk_entry h (walkTree h n) dir pre e s = Some (Inr s')" for e s s'
      by (rule walk_entry_grows [OF _ that]) (use Suc.IH in blast)
    then show "\<forall>e \<in> set es. keeps (\<lambda>s. visited \<subseteq> fst s) (walk_entry h (walkTree h n) dir pre) e"
      unfolding keeps_def by (meson subset_trans)
  qed auto
  with Suc.prems show ?case by (auto simp: st split: sum.splits if_splits)
qed simp

definition real_dirs :: "host \<Rightarrow> string set" where
  "real_dirs h = {r. \<exists>d. h_eval h d = Inr r}"

lemma walkTree_fuel:
  assumes "finite (real_dirs h)"
  shows "card (real_dirs h - fst st) < n \<Longrightarrow> walkTree h n dir pre st \<noteq> None"
proof (induction n arbitrary: dir pre st)
  case (Suc n)
  obtain visited kb where st: "st = (visited, kb)" by (cases st)
  have "walk_entries (walk_entry h (walkTree h n) dir pre) es (insert r visited, kb) \<noteq> None"
    if r: "h_eval h dir = Inr r" "r \<notin> visited" for r es
  proof (rule walk_entries_inv [where I = "\<lambda>s. insert r visited \<subseteq> fst s"])
    have "walk_entry h (walkTree h n) dir pre e s \<noteq> None" if "insert r visited \<subseteq> fst s" for e s
    proof -
      have "real_dirs h - fst s \<subset> real_dirs h - visited" using that r by (auto simp: real_dirs_def)
      then have "card (real_dirs h - fst s) < n"
        using psubset_card_mono [of "real_dirs h - visited" "real_dirs h - fst s"] assms Suc.prems st by simp
      then have "walkTree h n d p (fst s, k) \<noteq> None" for d p k using Suc.IH [of "(fst s, k)"] by simp
      then show ?thesis using walk_entry_None [of h "walkTree h n" dir pre "fst e" "snd e" "fst s" "snd s"] unfolding prod.collapse by blast
    qed
    then show "insert r visited \<subseteq> fst s \<Longrightarrow> walk_entry h (walkTree h n) dir pre e s \<noteq> None" for e s .
    have "fst s \<subseteq> fst s'" if "walk_entry h (walkTree h n) dir pre e s = Some (Inr s')" for e s s'
      by (rule walk_entry_grows [OF _ that]) (use walkTree_grows in blast)
    then show "\<forall>e \<in> set es. keeps (\<lambda>s. insert r visited \<subseteq> fst s) (walk_entry h (walkTree h n) dir pre) e"
      unfolding keeps_def by (meson subset_trans)
  qed simp
  then show ?case by (auto simp: st split: sum.splits)
qed simp


lemma walk_entries_more:
  assumes "\<And>e st r. f e st = Some r \<Longrightarrow> g e st = Some r"
  shows "walk_entries f es st = Some r \<Longrightarrow> walk_entries g es st = Some r"
proof (induction es arbitrary: st)
  case (Cons e es)
  obtain q where q: "f e st = Some q" using Cons.prems by (auto split: option.splits)
  then have "g e st = Some q" by (rule assms)
  with q show ?case using Cons.IH Cons.prems by (cases q) auto
qed simp

lemma walk_entry_more:
  assumes "\<And>d p st r. walk d p st = Some r \<Longrightarrow> walk' d p st = Some r" and "walk_entry h walk dir pre e st = Some r"
  shows "walk_entry h walk' dir pre e st = Some r"
  using assms(2)
  by (cases e; cases st; cases "fold_link h (Join [dir, fst e]) (pre @ fst e) (snd e) (snd st)"; cases "h_stat h (Join [dir, fst e])")
    (auto simp: walk_entry_def Let_def assms(1) split: filekind.splits)

lemma walkTree_more: "walkTree h n dir pre st = Some r \<Longrightarrow> n \<le> m \<Longrightarrow> walkTree h m dir pre st = Some r"
proof (induction n arbitrary: m dir pre st r)
  case (Suc n)
  obtain m' where m: "m = Suc m'" "n \<le> m'" using Suc.prems(2) by (cases m) auto
  have step: "walk_entry h (walkTree h n) d p e s = Some q \<Longrightarrow> walk_entry h (walkTree h m') d p e s = Some q" for d p e s q
    by (rule walk_entry_more [of "walkTree h n"]) (use Suc.IH m(2) in blast)
  obtain visited kb where st: "st = (visited, kb)" by (cases st)
  from Suc.prems(1) show ?case
    by (auto simp: st m(1) split: sum.splits if_splits intro: walk_entries_more [of "walk_entry h (walkTree h n) dir pre", OF step])
qed simp

lemma key_total:
  assumes "finite (real_dirs h)"
  shows "\<exists>r. \<forall>fuel > card (real_dirs h). unit_ComputeKey h fuel iter cfgPath cfg toolID = Some r"
proof -
  let ?n = "Suc (card (real_dirs h))"
  have "\<exists>r. \<forall>fuel \<ge> ?n. walkTree h fuel d p ({}, kb) = Some r" for d p kb
    using walkTree_fuel [OF assms, of "({}, kb)" ?n d p] walkTree_more [of h ?n d p "({}, kb)"] by auto
  then have t: "\<exists>r. \<forall>fuel \<ge> ?n. kb_tree h fuel tag root kb = Some r" for tag root kb
    unfolding kb_tree_def by (metis option.map(2))
  show ?thesis
  proof (cases "key_inputs h iter cfgPath cfg toolID")
    case (Inr kb)
    obtain q where q: "\<forall>fuel \<ge> ?n. kb_tree h fuel ''stdlib_dir'' (StdlibDir (Deps cfg)) kb = Some q" using t by blast
    then show ?thesis unfolding Suc_le_eq [symmetric] by (cases "StdlibDir (Deps cfg) = []") (simp_all add: unit_ComputeKey_def key_written_def Inr)
  qed (simp add: unit_ComputeKey_def key_written_def)
qed

text \<open>
  C22. Computing a key always ends, even if links join directories into cycles: when the host has finitely
  many real directories, some key or error is reached by a recursion of depth their number plus one, and
  any deeper one gives the same.
\<close>
theorem key_decided:
  assumes "finite (real_dirs h)"
  shows "\<exists>r. \<forall>fuel > card (real_dirs h). unit_ComputeKey h fuel iter cfgPath cfg toolID = Some r"
  using assms by (rule key_total)



subsection \<open>What the key covers\<close>

text \<open>The memo never changes a digest, so every file item carries the digest of what the file holds.\<close>

definition seen_ok :: "host \<Rightarrow> keyBuilder \<Rightarrow> bool" where
  "seen_ok h kb \<longleftrightarrow> (\<forall>p d. kb_seen kb p = Some d \<longrightarrow> fileDigest h p = Inr d)"

definition file_item :: "host \<Rightarrow> string \<Rightarrow> string \<Rightarrow> item" where
  "file_item h tag p = File tag p (case fileDigest h p of Inr d \<Rightarrow> d | Inl e \<Rightarrow> [])"

definition readable :: "host \<Rightarrow> string \<Rightarrow> bool" where
  "readable h p \<longleftrightarrow> (\<exists>c. h_read h p = Inr c)"

text \<open>\<open>adds h f its\<close>: \<open>f\<close> adds exactly \<open>its\<close>, and succeeds exactly when the files they name are readable.\<close>

fun item_readable :: "host \<Rightarrow> item \<Rightarrow> bool" where
  "item_readable h (Field tag v) = True"
| "item_readable h (File tag p d) = readable h p"

fun added :: "host \<Rightarrow> keyBuilder \<Rightarrow> item list \<Rightarrow> keyBuilder result \<Rightarrow> bool" where
  "added h kb its (Inr kb') \<longleftrightarrow> list_all (item_readable h) its \<and> kb_items kb' = kb_items kb @ its \<and> seen_ok h kb'"
| "added h kb its (Inl e) \<longleftrightarrow> \<not> list_all (item_readable h) its"

definition adds :: "host \<Rightarrow> (keyBuilder \<Rightarrow> keyBuilder result) \<Rightarrow> item list \<Rightarrow> bool" where
  "adds h f its \<longleftrightarrow> (\<forall>kb. seen_ok h kb \<longrightarrow> added h kb its (f kb))"

lemma adds_file: "adds h (kb_file h tag p) [file_item h tag p]"
  by (auto simp: adds_def kb_file_def kb_add_def seen_ok_def file_item_def fileDigest_def ebind_def readable_def
      split: option.splits sum.splits)

lemma adds_field: "adds h (\<lambda>kb. Inr (kb_field tag v kb)) [Field tag v]"
  by (simp add: adds_def kb_field_def kb_add_def seen_ok_def)

lemma adds_none: "adds h Inr []"
  by (simp add: adds_def)

lemma adds_bind:
  assumes "adds h f xs" and "adds h g ys"
  shows "adds h (\<lambda>kb. ebind (f kb) g) (xs @ ys)"
  unfolding adds_def
proof (intro allI impI)
  fix kb
  assume "seen_ok h kb"
  then have 1: "added h kb xs (f kb)" using assms(1) by (simp add: adds_def)
  show "added h kb (xs @ ys) (ebind (f kb) g)"
  proof (cases "f kb")
    case (Inr kb1)
    then have "added h kb1 ys (g kb1)" using 1 assms(2) by (simp add: adds_def)
    then show ?thesis using 1 Inr by (cases "g kb1") simp_all
  qed (use 1 in simp)
qed

lemma adds_fold: "(\<And>x. adds h (f x) (g x)) \<Longrightarrow> adds h (efold f xs) (concat (map g xs))"
proof (induction xs)
  case Nil
  then show ?case using adds_none [of h] by (simp add: adds_def)
next
  case (Cons x xs)
  have "efold f (x # xs) = (\<lambda>kb. ebind (f x kb) (efold f xs))" by (rule ext) simp
  then show ?case using adds_bind [OF Cons.prems Cons.IH [OF Cons.prems]] by simp
qed

lemma adds_files: "adds h (efold (kb_file h tag) ps) (map (file_item h tag) ps)"
  using adds_fold [of h "kb_file h tag" "\<lambda>p. [file_item h tag p]", OF adds_file] by simp

definition map_items :: "host \<Rightarrow> string \<Rightarrow> (string \<times> string) list \<Rightarrow> item list" where
  "map_items h tag m = concat (map (\<lambda>ip. [Field tag ip, file_item h (tag @ ''_body'') (the (map_of m ip))]) (sort (map fst m)))"

lemma adds_map: "adds h (kb_map h tag m) (map_items h tag m)"
proof -
  have "adds h (\<lambda>kb. kb_file h (tag @ ''_body'') p (kb_field tag ip kb)) [Field tag ip, file_item h (tag @ ''_body'') p]" for p ip
    using adds_bind [OF adds_field adds_file, of h tag ip "tag @ ''_body''" p] by simp
  then show ?thesis unfolding kb_map_def map_items_def by (rule adds_fold)
qed

definition optional_items :: "host \<Rightarrow> string \<Rightarrow> string \<Rightarrow> item list" where
  "optional_items h tag p = (if p \<noteq> [] then [file_item h tag p] else [])"

lemma adds_optional: "adds h (kb_optional h tag p) (optional_items h tag p)"
  using adds_file adds_none by (auto simp: kb_optional_def [abs_def] optional_items_def adds_def)

definition importcfg_items :: "host \<Rightarrow> string \<Rightarrow> (string \<times> string) list \<Rightarrow> item list" where
  "importcfg_items h p files = (if p = [] then [] else file_item h ''importcfg'' p # map_items h ''packagefile'' files)"

lemma kb_importcfg_items:
  assumes "seen_ok h kb" and "kb_importcfg h iter p kb = Inr kb'"
  shows "\<exists>files. (p \<noteq> [] \<longrightarrow> parseImportcfg iter (h_read h p) = Inr files) \<and> list_all (item_readable h) (importcfg_items h p files)
    \<and> kb_items kb' = kb_items kb @ importcfg_items h p files \<and> seen_ok h kb'"
proof (cases "p = []")
  case False
  then obtain kb1 files where k: "kb_file h ''importcfg'' p kb = Inr kb1" "parseImportcfg iter (h_read h p) = Inr files"
    "kb_map h ''packagefile'' files kb1 = Inr kb'"
    using assms(2) by (cases "parseImportcfg iter (h_read h p)") (auto simp: kb_importcfg_def ebind_Inr_iff)
  have "adds h (\<lambda>kb. ebind (kb_file h ''importcfg'' p kb) (kb_map h ''packagefile'' files)) (importcfg_items h p files)"
    using adds_bind [OF adds_file adds_map] False by (simp add: importcfg_items_def)
  then show ?thesis using assms(1) k unfolding adds_def by (auto dest!: spec [of _ kb])
qed (use assms in \<open>simp add: kb_importcfg_def importcfg_items_def\<close>)


definition key_items :: "host \<Rightarrow> (string \<times> string) list \<Rightarrow> bytes \<Rightarrow> unitConfig \<Rightarrow> string \<Rightarrow> item list" where
  "key_items h files body cfg toolID =
     [Field ''schema'' keySchema, Field ''tool'' toolID, Field ''unit.json'' body]
     @ (if anyAbsolutePath cfg then [Field ''wd'' (case h_wd h of Inr wd \<Rightarrow> wd | Inl e \<Rightarrow> [])] else [])
     @ map (file_item h ''go_file'') (GoFiles (Package cfg))
     @ map (file_item h ''ignored_file'') (IgnoredFiles (Package cfg))
     @ importcfg_items h (Importcfg (Deps cfg)) files
     @ map_items h ''dep_facts'' (dep_Facts (Deps cfg))
     @ optional_items h ''golangci'' (golangci_Config (Analysis cfg))
     @ optional_items h ''go_mod'' (GoMod (Module cfg))"

lemma addsD:
  "adds h f its \<Longrightarrow> seen_ok h kb \<Longrightarrow> f kb = Inr kb' \<Longrightarrow>
    list_all (item_readable h) its \<and> kb_items kb' = kb_items kb @ its \<and> seen_ok h kb'"
  by (fastforce simp: adds_def)

lemma key_inputs_items:
  assumes "key_inputs h iter cfgPath cfg toolID = Inr kb"
  shows "\<exists>body files. h_read h cfgPath = Inr body \<and> (anyAbsolutePath cfg \<longrightarrow> (\<exists>wd. h_wd h = Inr wd))
    \<and> (Importcfg (Deps cfg) \<noteq> [] \<longrightarrow> parseImportcfg iter (h_read h (Importcfg (Deps cfg))) = Inr files)
    \<and> kb_items kb = key_items h files body cfg toolID \<and> list_all (item_readable h) (key_items h files body cfg toolID)"
proof -
  obtain body where body: "h_read h cfgPath = Inr body"
    using assms by (auto simp: key_inputs_def ebind_Inr_iff split: if_splits)
  define start where "start = kb_field ''unit.json'' body (kb_field ''tool'' toolID (kb_field ''schema'' keySchema newKeyBuilder))"
  have s: "kb_items start = [Field ''schema'' keySchema, Field ''tool'' toolID, Field ''unit.json'' body]" "seen_ok h start"
    by (simp_all add: start_def kb_field_def kb_add_def newKeyBuilder_def seen_ok_def)
  obtain kb0 kb1 kb2 kb3 kb4 kb5 where
    0: "(if anyAbsolutePath cfg then ebind (h_wd h) (\<lambda>wd. Inr (kb_field ''wd'' wd start)) else Inr start) = Inr kb0"
    and 1: "efold (kb_file h ''go_file'') (GoFiles (Package cfg)) kb0 = Inr kb1"
    and 2: "efold (kb_file h ''ignored_file'') (IgnoredFiles (Package cfg)) kb1 = Inr kb2"
    and 3: "kb_importcfg h iter (Importcfg (Deps cfg)) kb2 = Inr kb3"
    and 4: "kb_map h ''dep_facts'' (dep_Facts (Deps cfg)) kb3 = Inr kb4"
    and 5: "kb_optional h ''golangci'' (golangci_Config (Analysis cfg)) kb4 = Inr kb5"
    and 6: "kb_optional h ''go_mod'' (GoMod (Module cfg)) kb5 = Inr kb"
    using assms by (simp add: key_inputs_def body start_def [symmetric] Let_def split: if_splits) (auto simp: ebind_Inr_iff)
  let ?wd = "if anyAbsolutePath cfg then [Field ''wd'' (case h_wd h of Inr wd \<Rightarrow> wd | Inl e \<Rightarrow> [])] else []"
  have w: "kb_items kb0 = kb_items start @ ?wd" "seen_ok h kb0" "anyAbsolutePath cfg \<Longrightarrow> \<exists>wd. h_wd h = Inr wd"
    using 0 s(2) by (auto simp: ebind_Inr_iff kb_field_def kb_add_def seen_ok_def split: if_splits)
  note a1 = addsD [OF adds_files w(2) 1]
  note a2 = addsD [OF adds_files _ 2]
  obtain files where files: "Importcfg (Deps cfg) \<noteq> [] \<longrightarrow> parseImportcfg iter (h_read h (Importcfg (Deps cfg))) = Inr files"
    and a3: "list_all (item_readable h) (importcfg_items h (Importcfg (Deps cfg)) files)"
      "kb_items kb3 = kb_items kb2 @ importcfg_items h (Importcfg (Deps cfg)) files" "seen_ok h kb3"
    using kb_importcfg_items [OF _ 3] a1 a2 by blast
  note a4 = addsD [OF adds_map a3(3) 4]
  note a5 = addsD [OF adds_optional _ 5]
  note a6 = addsD [OF adds_optional _ 6]
  have "kb_items kb = key_items h files body cfg toolID" using s w a1 a2 a3 a4 a5 a6 by (simp add: key_items_def)
  moreover have "list_all (item_readable h) (key_items h files body cfg toolID)"
    using a1 a2 a3 a4 a5 a6 by (simp add: key_items_def)
  ultimately show ?thesis using body files w(3) by blast
qed


text \<open>Paths below the root of a declared tree, and what the walk records of them.\<close>

definition below :: "string \<Rightarrow> string list \<Rightarrow> string" where
  "below root segs = foldl (\<lambda>d n. Join [d, n]) root segs"

definition at_rel :: "string \<Rightarrow> string \<Rightarrow> string" where
  "at_rel root rel = below root (split_on (CHR ''/'') rel)"

fun tree_item :: "host \<Rightarrow> string \<Rightarrow> item \<Rightarrow> bool" where
  "tree_item h root (Field tag v) \<longleftrightarrow> tag \<in> {''symlink'', ''symlink_target'', ''dir'', ''cycle''}"
| "tree_item h root (File tag rel d) \<longleftrightarrow> tag = ''tree_file'' \<and> fileDigest h (at_rel root rel) = Inr d"

definition plain_names :: "host \<Rightarrow> bool" where
  "plain_names h \<longleftrightarrow> (\<forall>d es. h_list h d = Inr es \<longrightarrow> (\<forall>e \<in> set es. CHR ''/'' \<notin> set (fst e)))"

definition at_pre :: "string \<Rightarrow> string \<Rightarrow> string \<Rightarrow> bool" where
  "at_pre root pre dir \<longleftrightarrow> last (split_on (CHR ''/'') pre) = [] \<and> dir = below root (butlast (split_on (CHR ''/'') pre))"

lemma at_pre_name:
  assumes "at_pre root pre dir" and "CHR ''/'' \<notin> set name"
  shows "at_rel root (pre @ name) = Join [dir, name]" and "at_pre root ((pre @ name) @ ''/'') (Join [dir, name])"
proof -
  have s: "split_on (CHR ''/'') (pre @ name) = butlast (split_on (CHR ''/'') pre) @ [name]"
    using split_on_append_no_sep [OF assms(2), of pre] assms(1) by (simp add: at_pre_def)
  then show 1: "at_rel root (pre @ name) = Join [dir, name]" using assms(1) by (simp add: at_rel_def at_pre_def below_def)
  show "at_pre root ((pre @ name) @ ''/'') (Join [dir, name])"
    using 1 split_on_append_sep [of "CHR ''/''" "pre @ name" "[]"] by (simp add: at_pre_def at_rel_def)
qed

definition grew :: "host \<Rightarrow> string \<Rightarrow> keyBuilder \<Rightarrow> walk_state \<Rightarrow> bool" where
  "grew h root kb st \<longleftrightarrow> (\<exists>its. kb_items (snd st) = kb_items kb @ its \<and> list_all (tree_item h root) its)"

lemma grew_add: "grew h root kb (v, k) \<Longrightarrow> tree_item h root it \<Longrightarrow> grew h root kb (v', kb_add it k)"
  by (force simp: grew_def kb_add_def)

lemma grew_trans: "grew h root kb (v, k) \<Longrightarrow> grew h root k st \<Longrightarrow> grew h root kb st"
  by (fastforce simp: grew_def)

lemma grew_link: "grew h root kb (v, k) \<Longrightarrow> fold_link h path rel symlink k = Inr k' \<Longrightarrow> grew h root kb (v, k')"
  by (auto simp: fold_link_def kb_field_def grew_add split: if_splits sum.splits)

lemma walkTree_items:
  assumes "plain_names h"
  shows "at_pre root pre dir \<Longrightarrow> walkTree h n dir pre st = Some (Inr st') \<Longrightarrow> grew h root (snd st) st'"
proof (induction n arbitrary: dir pre st st')
  case (Suc n)
  obtain visited kb where st: "st = (visited, kb)" by (cases st)
  have entry: "keeps (grew h root kb) (walk_entry h (walkTree h n) dir pre) e" if e: "CHR ''/'' \<notin> set (fst e)" for e
    unfolding keeps_def
  proof (intro allI impI)
    fix s s'
    assume g: "grew h root kb s" and w: "walk_entry h (walkTree h n) dir pre e s = Some (Inr s')"
    obtain name symlink v k where es: "e = (name, symlink)" "s = (v, k)" by (cases e; cases s)
    note at = at_pre_name [OF Suc.prems(1), of name]
    obtain k1 where k1: "fold_link h (Join [dir, name]) (pre @ name) symlink k = Inr k1"
      and c: "walkTree h n (Join [dir, name]) ((pre @ name) @ ''/'') (v, kb_field ''dir'' (pre @ name) k1) = Some (Inr s')
        \<or> (\<exists>d. fileDigest h (Join [dir, name]) = Inr d \<and> s' = (v, kb_add (File ''tree_file'' (pre @ name) d) k1))"
      using w unfolding es walk_entry_Inr by blast
    have g1: "grew h root kb (v, k1)" using grew_link k1 g es(2) by simp
    from c show "grew h root kb s'"
    proof
      assume "walkTree h n (Join [dir, name]) ((pre @ name) @ ''/'') (v, kb_field ''dir'' (pre @ name) k1) = Some (Inr s')"
      then have "grew h root (kb_field ''dir'' (pre @ name) k1) s'" using Suc.IH [OF at(2)] e es(1) by fastforce
      moreover have "grew h root kb (v, kb_field ''dir'' (pre @ name) k1)" using grew_add [OF g1] by (simp add: kb_field_def)
      ultimately show ?thesis by (rule grew_trans [rotated])
    next
      assume "\<exists>d. fileDigest h (Join [dir, name]) = Inr d \<and> s' = (v, kb_add (File ''tree_file'' (pre @ name) d) k1)"
      then show ?thesis using grew_add [OF g1] at(1) e es(1) by auto
    qed
  qed
  have g0: "grew h root kb (insert r visited, kb)" for r by (simp add: grew_def)
  have "grew h root kb st'" if l: "h_list h dir = Inr es"
    and w: "walk_entries (walk_entry h (walkTree h n) dir pre) (sort_key fst es) (insert r visited, kb) = Some (Inr st')" for es r
    by (rule walk_entries_result [where I = "grew h root kb", OF _ g0 w]) (use entry l assms in \<open>auto simp: plain_names_def\<close>)
  moreover have "grew h root kb (visited, kb_field ''cycle'' pre kb)" using grew_add [OF g0] by (simp add: kb_field_def)
  ultimately show ?case using Suc.prems(2) by (auto simp: st split: sum.splits if_splits)
qed simp


lemma kb_tree_items:
  assumes "plain_names h" and "kb_tree h fuel tag root kb = Some (Inr kb')"
  shows "\<exists>its. kb_items kb' = kb_items kb @ Field tag root # its \<and> list_all (tree_item h root) its"
proof -
  obtain v where "walkTree h fuel root [] ({}, kb_field tag root kb) = Some (Inr (v, kb'))"
    using assms(2) by (auto simp: kb_tree_def ebind_Inr_iff)
  moreover have "at_pre root [] root" by (simp add: at_pre_def below_def)
  ultimately have "grew h root (kb_field tag root kb) (v, kb')" using walkTree_items [OF assms(1)] by fastforce
  then show ?thesis by (auto simp: grew_def kb_field_def kb_add_def)
qed

lemma key_written_items:
  assumes "plain_names h" and "key_written h fuel iter cfgPath cfg toolID = Some (Inr its)"
  obtains (out) body files tree where "h_read h cfgPath = Inr body" and "anyAbsolutePath cfg \<Longrightarrow> \<exists>wd. h_wd h = Inr wd"
    and "Importcfg (Deps cfg) \<noteq> [] \<Longrightarrow> parseImportcfg iter (h_read h (Importcfg (Deps cfg))) = Inr files"
    and "list_all (item_readable h) (key_items h files body cfg toolID)"
    and "its = key_items h files body cfg toolID @ (if StdlibDir (Deps cfg) = [] then [] else Field ''stdlib_dir'' (StdlibDir (Deps cfg)) # tree)"
    and "list_all (tree_item h (StdlibDir (Deps cfg))) tree"
proof -
  obtain kb where kb: "key_inputs h iter cfgPath cfg toolID = Inr kb"
    using assms(2) by (auto simp: key_written_def split: sum.splits)
  obtain tree where tree: "its = kb_items kb @ (if StdlibDir (Deps cfg) = [] then [] else Field ''stdlib_dir'' (StdlibDir (Deps cfg)) # tree)"
    "list_all (tree_item h (StdlibDir (Deps cfg))) tree"
  proof (cases "StdlibDir (Deps cfg) = []")
    case False
    then obtain kb' where "kb_tree h fuel ''stdlib_dir'' (StdlibDir (Deps cfg)) kb = Some (Inr kb')" "its = kb_items kb'"
      using assms(2) kb by (auto simp: key_written_def ebind_Inr_iff)
    then show ?thesis using kb_tree_items [OF assms(1)] False by (force intro: that)
  qed (use assms(2) kb in \<open>force simp: key_written_def intro: that [of "[]"]\<close>)
  obtain body files where *: "h_read h cfgPath = Inr body" "anyAbsolutePath cfg \<longrightarrow> (\<exists>wd. h_wd h = Inr wd)"
    "Importcfg (Deps cfg) \<noteq> [] \<longrightarrow> parseImportcfg iter (h_read h (Importcfg (Deps cfg))) = Inr files"
    "kb_items kb = key_items h files body cfg toolID" "list_all (item_readable h) (key_items h files body cfg toolID)"
    using key_inputs_items [OF kb] by blast
  show ?thesis by (rule out [OF *(1) _ _ *(5) tree(1) [unfolded *(4)] tree(2)]) (use * in auto)
qed

subsection \<open>Equal keys\<close>

definition field_tags :: "string set" where
  "field_tags = {''schema'', ''tool'', ''unit.json'', ''wd'', ''packagefile'', ''dep_facts'', ''stdlib_dir'',
     ''symlink'', ''symlink_target'', ''dir'', ''cycle''}"

definition file_tags :: "string set" where
  "file_tags = {''go_file'', ''ignored_file'', ''importcfg'', ''packagefile_body'', ''dep_facts_body'', ''golangci'', ''go_mod'', ''tree_file''}"

fun well_tagged :: "item \<Rightarrow> bool" where
  "well_tagged (Field tag v) \<longleftrightarrow> tag \<in> field_tags"
| "well_tagged (File tag p d) \<longleftrightarrow> tag \<in> file_tags"

lemma tags_disjoint: "t \<in> field_tags \<Longrightarrow> t \<notin> file_tags"
  by (auto simp: field_tags_def file_tags_def)

lemma chunks_inject:
  "list_all well_tagged xs \<Longrightarrow> list_all well_tagged ys \<Longrightarrow> concat (map item_chunks xs) = concat (map item_chunks ys) \<Longrightarrow> xs = ys"
proof (induction xs arbitrary: ys)
  case Nil
  then show ?case by (cases ys; cases "hd ys") auto
next
  case (Cons x xs)
  then obtain y ys' where ys: "ys = y # ys'" by (cases ys; cases x) auto
  have "x = y \<and> concat (map item_chunks xs) = concat (map item_chunks ys')"
    using Cons.prems tags_disjoint by (cases x; cases y) (auto simp: ys)
  then show ?case using Cons.IH [of ys'] Cons.prems ys by simp
qed

lemma kb_bytes_inject:
  assumes "list_all well_tagged xs" and "list_all well_tagged ys" and "list_all go_len (concat (map item_chunks xs))"
    and "list_all go_len (concat (map item_chunks ys))" and "kb_bytes xs = kb_bytes ys"
  shows "xs = ys"
  using assms by (intro chunks_inject) (auto simp: kb_bytes_def intro: frames_inject)

lemma map_items_tagged: "tag \<in> {''packagefile'', ''dep_facts''} \<Longrightarrow> list_all well_tagged (map_items h tag m)"
  by (auto simp: map_items_def list_all_iff file_item_def field_tags_def file_tags_def)

lemma key_items_tagged: "list_all well_tagged (key_items h files body cfg toolID)"
  using map_items_tagged by (auto simp: key_items_def importcfg_items_def optional_items_def list_all_iff file_item_def field_tags_def file_tags_def)

lemma tree_items_tagged: "list_all (tree_item h root) its \<Longrightarrow> list_all well_tagged its"
proof (induction its)
  case (Cons it its)
  then show ?case by (cases it) (auto simp: field_tags_def file_tags_def)
qed simp

text \<open>In the items of a key every file item outside the tree is the item of a readable file, and the working directory occurs once.\<close>

lemma key_items_file:
  assumes "list_all (item_readable h) (key_items h files body cfg toolID)" and "File tag p d \<in> set (key_items h files body cfg toolID)"
  shows "tag \<noteq> ''tree_file'' \<and> (\<exists>c. h_read h p = Inr c \<and> d = sha256 c)"
proof -
  have "readable h p" using assms by (auto simp: list_all_iff)
  moreover have "File tag p d = file_item h tag p \<and> tag \<noteq> ''tree_file''"
    using assms(2) by (auto simp: key_items_def importcfg_items_def optional_items_def map_items_def file_item_def split: if_splits)
  ultimately show ?thesis by (auto simp: readable_def file_item_def fileDigest_def)
qed

lemma key_items_wd: "Field ''wd'' v \<in> set (key_items h files body cfg toolID) \<Longrightarrow> h_wd h = Inr w \<Longrightarrow> v = w"
  by (auto simp: key_items_def importcfg_items_def optional_items_def map_items_def file_item_def split: if_splits)


definition declared_files :: "(string \<times> string) list \<Rightarrow> unitConfig \<Rightarrow> string set" where
  "declared_files files cfg =
     set (GoFiles (Package cfg)) \<union> set (IgnoredFiles (Package cfg))
     \<union> ({Importcfg (Deps cfg), golangci_Config (Analysis cfg), GoMod (Module cfg)} - {[]})
     \<union> (if Importcfg (Deps cfg) = [] then {} else ran (map_of files)) \<union> ran (map_of (dep_Facts (Deps cfg)))"

definition tree_files :: "string \<Rightarrow> item list \<Rightarrow> string set" where
  "tree_files root its = {at_rel root rel | rel d. File ''tree_file'' rel d \<in> set its}"

lemma map_items_ran: "p \<in> ran (map_of m) \<Longrightarrow> file_item h (tag @ ''_body'') p \<in> set (map_items h tag m)"
proof -
  assume "p \<in> ran (map_of m)"
  then obtain ip where "map_of m ip = Some p" by (auto simp: ran_def)
  moreover from this have "ip \<in> set (sort (map fst m))" by (force dest: map_of_SomeD)
  ultimately show ?thesis by (force simp: map_items_def)
qed

lemma declared_item:
  "p \<in> declared_files files cfg \<Longrightarrow> \<exists>tag. file_item h tag p \<in> set (key_items h files body cfg toolID)"
  using map_items_ran [of p files h "''packagefile''"] map_items_ran [of p "dep_Facts (Deps cfg)" h "''dep_facts''"]
  by (fastforce simp: declared_files_def key_items_def importcfg_items_def optional_items_def split: if_splits)

text \<open>What one key says about every file it covers, so that two equal keys can be compared.\<close>

lemma written_file:
  assumes "plain_names h" and "key_written h fuel iter cfgPath cfg toolID = Some (Inr its)" and "File tag p d \<in> set its"
  shows "\<exists>c. h_read h (if tag = ''tree_file'' then at_rel (StdlibDir (Deps cfg)) p else p) = Inr c \<and> d = sha256 c"
  using assms(1,2)
proof (rule key_written_items)
  fix body files tree
  assume k: "list_all (item_readable h) (key_items h files body cfg toolID)"
    and its: "its = key_items h files body cfg toolID @ (if StdlibDir (Deps cfg) = [] then [] else Field ''stdlib_dir'' (StdlibDir (Deps cfg)) # tree)"
    and t: "list_all (tree_item h (StdlibDir (Deps cfg))) tree"
  from assms(3) its have "File tag p d \<in> set (key_items h files body cfg toolID) \<or> File tag p d \<in> set tree" by (auto split: if_splits)
  then show ?thesis
  proof
    assume "File tag p d \<in> set (key_items h files body cfg toolID)"
    then show ?thesis using key_items_file [OF k] by auto
  next
    assume "File tag p d \<in> set tree"
    then have "tree_item h (StdlibDir (Deps cfg)) (File tag p d)" using t unfolding list_all_iff by (rule bspec [rotated])
    then show ?thesis by (auto simp: fileDigest_def ebind_Inr_iff)
  qed
qed

lemma written_wd:
  assumes "plain_names h" and "key_written h fuel iter cfgPath cfg toolID = Some (Inr its)"
  shows "anyAbsolutePath cfg \<Longrightarrow> \<exists>w. h_wd h = Inr w \<and> Field ''wd'' w \<in> set its"
    and "Field ''wd'' v \<in> set its \<Longrightarrow> h_wd h = Inr w \<Longrightarrow> v = w"
proof -
  obtain body files tree where *: "anyAbsolutePath cfg \<Longrightarrow> \<exists>wd. h_wd h = Inr wd"
    and its: "its = key_items h files body cfg toolID @ (if StdlibDir (Deps cfg) = [] then [] else Field ''stdlib_dir'' (StdlibDir (Deps cfg)) # tree)"
    and t: "list_all (tree_item h (StdlibDir (Deps cfg))) tree"
    by (rule key_written_items [OF assms]) blast
  show "anyAbsolutePath cfg \<Longrightarrow> \<exists>w. h_wd h = Inr w \<and> Field ''wd'' w \<in> set its"
    using * by (auto simp: its key_items_def)
  have "Field ''wd'' v \<notin> set tree" using t by (auto simp: list_all_iff)
  then show "Field ''wd'' v \<in> set its \<Longrightarrow> h_wd h = Inr w \<Longrightarrow> v = w"
    using key_items_wd [of v h files body cfg toolID w] by (auto simp: its split: if_splits)
qed

lemma written_tagged:
  assumes "plain_names h" and "key_written h fuel iter cfgPath cfg toolID = Some (Inr its)"
  shows "list_all well_tagged its"
  using assms
  by (rule key_written_items) (auto simp: key_items_tagged tree_items_tagged field_tags_def)

lemma written_head:
  assumes "plain_names h" and "key_written h fuel iter cfgPath cfg toolID = Some (Inr its)" and "h_read h cfgPath = Inr body"
  shows "its ! 1 = Field ''tool'' toolID \<and> its ! 2 = Field ''unit.json'' body"
  using assms(1,2) by (rule key_written_items) (use assms(3) in \<open>auto simp: key_items_def\<close>)

lemma written_declared:
  assumes "plain_names h" and "key_written h fuel iter cfgPath cfg toolID = Some (Inr its)"
    and "Importcfg (Deps cfg) \<noteq> [] \<longrightarrow> parseImportcfg iter (h_read h (Importcfg (Deps cfg))) = Inr files"
    and "p \<in> declared_files files cfg"
  shows "\<exists>tag d. File tag p d \<in> set its \<and> tag \<noteq> ''tree_file''"
  using assms(1,2)
proof (rule key_written_items)
  fix body files' tree
  assume f: "Importcfg (Deps cfg) \<noteq> [] \<Longrightarrow> parseImportcfg iter (h_read h (Importcfg (Deps cfg))) = Inr files'"
    and k: "list_all (item_readable h) (key_items h files' body cfg toolID)"
    and its: "its = key_items h files' body cfg toolID @ (if StdlibDir (Deps cfg) = [] then [] else Field ''stdlib_dir'' (StdlibDir (Deps cfg)) # tree)"
  have "p \<in> declared_files files' cfg" using assms(3,4) f by (auto simp: declared_files_def split: if_splits)
  then obtain tag where tag: "file_item h tag p \<in> set (key_items h files' body cfg toolID)" using declared_item by blast
  then show ?thesis using key_items_file [OF k] its unfolding file_item_def by fastforce
qed

lemma same_items_same_file:
  assumes "plain_names h1" and "key_written h1 n1 iter1 path1 cfg tool1 = Some (Inr its)"
    and "plain_names h2" and "key_written h2 n2 iter2 path2 cfg tool2 = Some (Inr its)"
    and "Importcfg (Deps cfg) \<noteq> [] \<longrightarrow> parseImportcfg iter1 (h_read h1 (Importcfg (Deps cfg))) = Inr files"
    and "p \<in> declared_files files cfg \<union> tree_files (StdlibDir (Deps cfg)) its"
  shows "\<exists>c1 c2. h_read h1 p = Inr c1 \<and> h_read h2 p = Inr c2 \<and> sha256 c1 = sha256 c2"
proof -
  obtain tag q d where i: "File tag q d \<in> set its" and p: "p = (if tag = ''tree_file'' then at_rel (StdlibDir (Deps cfg)) q else q)"
  proof (cases "p \<in> declared_files files cfg")
    case True
    then obtain tag d where "File tag p d \<in> set its" "tag \<noteq> ''tree_file''" using written_declared [OF assms(1,2,5)] by blast
    then show ?thesis using that [of tag p d] by simp
  next
    case False
    then obtain rel d where "File ''tree_file'' rel d \<in> set its" "p = at_rel (StdlibDir (Deps cfg)) rel"
      using assms(6) unfolding tree_files_def by blast
    then show ?thesis using that [of "''tree_file''" rel d] by simp
  qed
  have "\<exists>c. h_read h1 p = Inr c \<and> d = sha256 c" "\<exists>c. h_read h2 p = Inr c \<and> d = sha256 c"
    using written_file [OF assms(1,2) i] written_file [OF assms(3,4) i] unfolding p by blast+
  then show ?thesis by blast
qed

lemma key_covers:
  assumes "plain_names h1" and "key_written h1 n1 iter1 path1 cfg1 tool1 = Some (Inr its1)"
    and "plain_names h2" and "key_written h2 n2 iter2 path2 cfg2 tool2 = Some (Inr its2)"
    and "h_read h1 path1 = Inr body1" and "h_read h2 path2 = Inr body2"
    and "decode body1 = Inr cfg1" and "decode body2 = Inr cfg2"
    and "list_all go_len (concat (map item_chunks its1))" and "list_all go_len (concat (map item_chunks its2))"
    and "unit_ComputeKey h1 n1 iter1 path1 cfg1 tool1 = unit_ComputeKey h2 n2 iter2 path2 cfg2 tool2"
    and "Importcfg (Deps cfg1) \<noteq> [] \<longrightarrow> parseImportcfg iter1 (h_read h1 (Importcfg (Deps cfg1))) = Inr files"
  shows "collision sha256 (kb_bytes its1) (kb_bytes its2)
    \<or> (\<exists>p \<in> declared_files files cfg1 \<union> tree_files (StdlibDir (Deps cfg1)) its1. \<exists>c1 c2.
         h_read h1 p = Inr c1 \<and> h_read h2 p = Inr c2 \<and> collision sha256 c1 c2)
    \<or> tool1 = tool2 \<and> body1 = body2 \<and> cfg1 = cfg2 \<and> (anyAbsolutePath cfg1 \<longrightarrow> h_wd h1 = h_wd h2)
      \<and> (\<forall>p \<in> declared_files files cfg1 \<union> tree_files (StdlibDir (Deps cfg1)) its1. h_read h1 p = h_read h2 p)"
proof (cases "kb_bytes its1 = kb_bytes its2")
  case False
  moreover have "sha256 (kb_bytes its1) = sha256 (kb_bytes its2)" using assms(11) by (simp add: unit_ComputeKey_def assms(2,4))
  ultimately show ?thesis by (simp add: collision_def)
next
  case True
  then have its: "its2 = its1"
    using kb_bytes_inject [OF written_tagged [OF assms(1,2)] written_tagged [OF assms(3,4)] assms(9,10)] by simp
  then have same: "tool1 = tool2" "body1 = body2"
    using written_head [OF assms(1,2,5)] written_head [OF assms(3,4,6)] by simp_all
  then have cfg: "cfg2 = cfg1" using assms(7,8) by simp
  have "h_wd h1 = h_wd h2" if "anyAbsolutePath cfg1"
    using that written_wd [OF assms(1,2)] written_wd [OF assms(3,4)] unfolding its cfg by metis
  moreover have "\<exists>c1 c2. h_read h1 p = Inr c1 \<and> h_read h2 p = Inr c2 \<and> sha256 c1 = sha256 c2"
    if "p \<in> declared_files files cfg1 \<union> tree_files (StdlibDir (Deps cfg1)) its1" for p
    using same_items_same_file [OF assms(1,2) assms(3) assms(4) [unfolded its cfg] assms(12) that] .
  ultimately show ?thesis using same cfg unfolding collision_def by metis
qed

text \<open>
  C5. The key covers the action.  If two actions, on any two hosts, have the same key, then they run the
  same tool on the same \<^verbatim>\<open>unit.json\<close>, in the same working directory if an absolute path is declared, and
  every declared file, every export-data file the importcfg names and every file the walk of the declared
  standard library met has the same contents in both; or else two byte strings at hand, the written keys or the
  two contents of a covered file, are a collision of SHA-256.
\<close>
theorem unit_key_covers:
  assumes "plain_names h1" and "key_written h1 n1 iter1 path1 cfg1 tool1 = Some (Inr its1)"
    and "plain_names h2" and "key_written h2 n2 iter2 path2 cfg2 tool2 = Some (Inr its2)"
    and "h_read h1 path1 = Inr body1" and "h_read h2 path2 = Inr body2"
    and "decode body1 = Inr cfg1" and "decode body2 = Inr cfg2"
    and "list_all go_len (concat (map item_chunks its1))" and "list_all go_len (concat (map item_chunks its2))"
    and "unit_ComputeKey h1 n1 iter1 path1 cfg1 tool1 = unit_ComputeKey h2 n2 iter2 path2 cfg2 tool2"
    and "Importcfg (Deps cfg1) \<noteq> [] \<longrightarrow> parseImportcfg iter1 (h_read h1 (Importcfg (Deps cfg1))) = Inr files"
  shows "collision sha256 (kb_bytes its1) (kb_bytes its2)
    \<or> (\<exists>p \<in> declared_files files cfg1 \<union> tree_files (StdlibDir (Deps cfg1)) its1. \<exists>c1 c2.
         h_read h1 p = Inr c1 \<and> h_read h2 p = Inr c2 \<and> collision sha256 c1 c2)
    \<or> tool1 = tool2 \<and> body1 = body2 \<and> cfg1 = cfg2 \<and> (anyAbsolutePath cfg1 \<longrightarrow> h_wd h1 = h_wd h2)
      \<and> (\<forall>p \<in> declared_files files cfg1 \<union> tree_files (StdlibDir (Deps cfg1)) its1. h_read h1 p = h_read h2 p)"
  using assms by (rule key_covers)


definition demo_unit :: unitConfig where
  "demo_unit = \<lparr>cfg_Schema = 1,
     Package = \<lparr>pkg_Path = [], GoFiles = [], IgnoredFiles = [], GOOS = [], GOARCH = [], Tags = [], Cgo = False, GoVersion = [], TestFilter = []\<rparr>,
     Deps = \<lparr>Importcfg = [], dep_Facts = [], StdlibDir = []\<rparr>, Module = \<lparr>GoMod = ''go.mod'', mod_Path = []\<rparr>,
     Analysis = \<lparr>golangci_Config = [], cfg_Mode = ''module'', EnableOnly = []\<rparr>, Out = \<lparr>out_Facts = [], out_Sarif = ''o''\<rparr>\<rparr>"

text \<open>A host with two files, and whatever \<open>other\<close> says of the rest.\<close>

definition demo_host :: "bytes result \<Rightarrow> host" where
  "demo_host other = \<lparr>h_read = (\<lambda>p. if p = ''unit.json'' then Inr ''{}'' else if p = ''go.mod'' then Inr ''module m'' else other),
     h_eval = (\<lambda>p. Inr ''/''), h_list = (\<lambda>p. Inr []), h_link = (\<lambda>p. Inl ''no link''), h_stat = (\<lambda>p. Inr Directory), h_wd = other\<rparr>"

definition demo_items :: "item list" where
  "demo_items = [Field ''schema'' keySchema, Field ''tool'' ''t'', Field ''unit.json'' ''{}'', File ''go_mod'' ''go.mod'' (sha256 ''module m'')]"

lemma demo_written: "key_written (demo_host other) n id ''unit.json'' demo_unit ''t'' = Some (Inr demo_items)"
  by (simp add: key_written_def key_inputs_def demo_host_def demo_unit_def anyAbsolutePath_def declared_paths_def IsAbs_def
      HasPrefix_def kb_importcfg_def kb_map_def kb_optional_def kb_file_def newKeyBuilder_def kb_field_def kb_add_def
      fileDigest_def demo_items_def)

theorem unit_key_covers_witness:
  "h_read (demo_host (Inr ''x'')) ''go.mod'' = h_read (demo_host (Inl ''y'')) ''go.mod'' \<and> demo_items \<noteq> []"
proof -
  have d: "declared_files [] demo_unit = {''go.mod''}" "StdlibDir (Deps demo_unit) = []" "Importcfg (Deps demo_unit) = []"
    by (auto simp: declared_files_def demo_unit_def)
  have t: "tree_files [] demo_items = {}" by (simp add: tree_files_def demo_items_def)
  have l: "list_all go_len (concat (map item_chunks demo_items))" by (simp add: demo_items_def go_len_def keySchema_def)
  have "collision sha256 (kb_bytes demo_items) (kb_bytes demo_items)
    \<or> (\<exists>p \<in> {''go.mod''}. \<exists>c1 c2. h_read (demo_host (Inr ''x'')) p = Inr c1 \<and> h_read (demo_host (Inl ''y'')) p = Inr c2 \<and> collision sha256 c1 c2)
    \<or> (\<forall>p \<in> {''go.mod''}. h_read (demo_host (Inr ''x'')) p = h_read (demo_host (Inl ''y'')) p)"
    using unit_key_covers [OF _ demo_written [of "Inr ''x''" 1] _ demo_written [of "Inl ''y''" 2], of "''{}''" "''{}''" "\<lambda>b. Inr demo_unit" "[]"] l d t
    by (simp add: plain_names_def demo_host_def unit_ComputeKey_def demo_written [unfolded demo_host_def])
  moreover have "\<not> (\<exists>c1 c2. h_read (demo_host (Inr ''x'')) ''go.mod'' = Inr c1 \<and> h_read (demo_host (Inl ''y'')) ''go.mod'' = Inr c2 \<and> collision sha256 c1 c2)"
    by (simp add: demo_host_def collision_def)
  moreover have "\<not> collision sha256 (kb_bytes demo_items) (kb_bytes demo_items)" "demo_items \<noteq> []"
    by (simp_all add: collision_def demo_items_def)
  ultimately show ?thesis by blast
qed

theorem key_decided_witness: "\<exists>r. unit_ComputeKey (demo_host (Inr ''/'')) 2 id ''unit.json'' demo_unit ''t'' = Some r"
proof -
  have r: "real_dirs (demo_host (Inr ''/'')) = {''/''}" by (auto simp: real_dirs_def demo_host_def)
  have "\<exists>r. \<forall>fuel > card (real_dirs (demo_host (Inr ''/''))). unit_ComputeKey (demo_host (Inr ''/'')) fuel id ''unit.json'' demo_unit ''t'' = Some r"
    by (rule key_decided) (simp add: r)
  moreover have "card (real_dirs (demo_host (Inr ''/''))) < 2" by (simp add: r)
  ultimately show ?thesis by blast
qed


subsection \<open>What the key does not cover\<close>

text \<open>
  A tree with the directories \<open>a\<close> and \<open>b\<close>, each with a file \<open>f\<close>, and a link \<open>x\<close> to a path outside the tree that is
  itself a link back to \<open>a\<close> or to \<open>b\<close>, according to \<open>side\<close>.  The walk meets the target of \<open>x\<close> for the second time and
  records only that, so the two hosts give the same items although the file \<open>x/f\<close> differs.
\<close>

definition twin_host :: "string \<Rightarrow> host" where
  "twin_host side = (let real = (\<lambda>p. if p = ''r/x'' then ''r/'' @ side else p) in
     \<lparr>h_read = (\<lambda>p. if p = ''r/a/f'' \<or> p = ''r/x/f'' \<and> side = ''a'' then Inr ''1''
                    else if p = ''r/b/f'' \<or> p = ''r/x/f'' then Inr ''2'' else Inl ''missing''),
      h_eval = (\<lambda>p. Inr (real p)),
      h_list = (\<lambda>p. Inr (if p = ''r'' then [(''a'', False), (''b'', False), (''x'', True)] else [(''f'', False)])),
      h_link = (\<lambda>p. Inr ''/elsewhere''),
      h_stat = (\<lambda>p. Inr (if p \<in> {''r/a'', ''r/b'', ''r/x''} then Directory else Regular)),
      h_wd = Inr ''/w''\<rparr>)"

lemma twin_joins: "Join [''r'', ''a''] = ''r/a''" "Join [''r'', ''b''] = ''r/b''" "Join [''r'', ''x''] = ''r/x''"
  "Join [''r/a'', ''f''] = ''r/a/f''" "Join [''r/b'', ''f''] = ''r/b/f''"
  by code_simp+

lemma twin_walk:
  "side \<in> {''a'', ''b''} \<Longrightarrow> kb_tree (twin_host side) 4 ''stdlib_dir'' ''r'' newKeyBuilder = Some (Inr \<lparr>kb_items =
     [Field ''stdlib_dir'' ''r'', Field ''dir'' ''a'', File ''tree_file'' ''a/f'' (sha256 ''1''), Field ''dir'' ''b'',
      File ''tree_file'' ''b/f'' (sha256 ''2''), Field ''symlink'' ''x'', Field ''symlink_target'' ''/elsewhere'', Field ''dir'' ''x'',
      Field ''cycle'' ''x/''], kb_seen = Map.empty\<rparr>)"
  by (auto simp: kb_tree_def twin_host_def eval_nat_numeral newKeyBuilder_def kb_field_def kb_add_def walk_entry_def Let_def twin_joins
      fold_link_def fileDigest_def)

lemma tree_key_blind:
  "kb_tree (twin_host ''a'') 4 ''stdlib_dir'' ''r'' newKeyBuilder = kb_tree (twin_host ''b'') 4 ''stdlib_dir'' ''r'' newKeyBuilder
    \<and> h_read (twin_host ''a'') ''r/x/f'' \<noteq> h_read (twin_host ''b'') ''r/x/f''"
  by (simp add: twin_walk) (simp add: twin_host_def)

end
