(* ===== verification/AnalyzerGraph.thy ===== *)
theory AnalyzerGraph
  imports Diagnostics
begin

text \<open>
  The analyzer graph of a unit action (\<^verbatim>\<open>internal/unit/unit.go\<close>: \<^verbatim>\<open>factProducers\<close>; \<^verbatim>\<open>internal/unit/exec.go\<close>:
  \<^verbatim>\<open>runAnalyzers\<close>, \<^verbatim>\<open>runOne\<close>, \<^verbatim>\<open>convertDiagnostic\<close>).

  An analyzer is a pointer, here a number, and the graph maps it to its name, requirements, fact types and
  result type.  What an analyzer body does with its inputs is an argument.  The walks over the graph take
  fuel; how much is enough is part of each theorem.
\<close>

record analyzer =
  an_Name :: string
  an_Requires :: "nat list"
  an_FactTypes :: "string list"
  an_ResultType :: string

type_synonym agraph = "nat \<Rightarrow> analyzer"

record analyzerEntry =
  ae_linter :: string
  ae_analyzer :: nat


subsection \<open>Fact producers\<close>

text \<open>The walk: the analyzers seen, in the order of the visits, and the entries collected.\<close>

definition fp_entry :: "agraph \<Rightarrow> nat \<Rightarrow> analyzerEntry list" where
  "fp_entry g a = (if an_FactTypes (g a) = [] then [] else [\<lparr>ae_linter = an_Name (g a), ae_analyzer = a\<rparr>])"

primrec fp_walk :: "agraph \<Rightarrow> nat \<Rightarrow> nat \<Rightarrow> nat list \<times> analyzerEntry list \<Rightarrow> (nat list \<times> analyzerEntry list) option" where
  "fp_walk g 0 = (\<lambda>a st. None)"
| "fp_walk g (Suc n) = (\<lambda>a (seen, out).
     if a \<in> set seen then Some (seen, out)
     else ofold (fp_walk g n) (an_Requires (g a)) (seen @ [a], out @ fp_entry g a))"

definition factProducers :: "agraph \<Rightarrow> nat \<Rightarrow> analyzerEntry list \<Rightarrow> analyzerEntry list option" where
  "factProducers g fuel roots = map_option snd (ofold (\<lambda>r. fp_walk g fuel (ae_analyzer r)) roots ([], []))"


subsection \<open>What the walk collects\<close>

definition requires :: "agraph \<Rightarrow> nat \<Rightarrow> nat \<Rightarrow> bool" where
  "requires g a b \<longleftrightarrow> b \<in> set (an_Requires (g a))"

definition reach :: "agraph \<Rightarrow> nat set \<Rightarrow> nat set" where
  "reach g R = {b. \<exists>a \<in> R. (requires g)\<^sup>*\<^sup>* a b}"

lemma reach_closed: "a \<in> reach g R \<Longrightarrow> b \<in> set (an_Requires (g a)) \<Longrightarrow> b \<in> reach g R"
  unfolding reach_def mem_Collect_eq by (metis requires_def rtranclp.rtrancl_into_rtrancl)

lemma reach_least:
  assumes "R \<subseteq> S" and "\<And>x. x \<in> S \<Longrightarrow> set (an_Requires (g x)) \<subseteq> S"
  shows "reach g R \<subseteq> S"
proof
  fix b
  assume "b \<in> reach g R"
  then obtain a where "a \<in> R" "(requires g)\<^sup>*\<^sup>* a b" by (auto simp: reach_def)
  from this(2,1) show "b \<in> S"
    by (induction rule: rtranclp_induct) (use assms in \<open>auto simp: requires_def\<close>)
qed

definition visited_from :: "agraph \<Rightarrow> nat list \<Rightarrow> nat list \<times> analyzerEntry list \<Rightarrow> nat list \<times> analyzerEntry list \<Rightarrow> bool" where
  "visited_from g as = (\<lambda>(seen, out) (seen', out').
     \<exists>new. seen' = seen @ new \<and> out' = out @ concat (map (fp_entry g) new) \<and> set new \<subseteq> reach g (set as)
       \<and> (\<forall>x \<in> set new. set (an_Requires (g x)) \<subseteq> set seen') \<and> set as \<subseteq> set seen' \<and> (distinct seen \<longrightarrow> distinct seen'))"

lemma visited_from_iff:
  "visited_from g as (seen, out) (seen', out') \<longleftrightarrow>
     (\<exists>new. seen' = seen @ new \<and> out' = out @ concat (map (fp_entry g) new) \<and> set new \<subseteq> reach g (set as)
       \<and> (\<forall>x \<in> set new. set (an_Requires (g x)) \<subseteq> set seen') \<and> set as \<subseteq> set seen' \<and> (distinct seen \<longrightarrow> distinct seen'))"
  by (simp add: visited_from_def)

lemma reach_mono: "R \<subseteq> S \<Longrightarrow> reach g R \<subseteq> reach g S"
  by (auto simp: reach_def)

lemma visited_from_trans:
  assumes "visited_from g [a] s t" and "visited_from g as t u"
  shows "visited_from g (a # as) s u"
proof -
  obtain seen out seen1 out1 seen2 out2 where s: "s = (seen, out)" "t = (seen1, out1)" "u = (seen2, out2)" by (cases s; cases t; cases u)
  from assms(1) obtain new1 where 1: "seen1 = seen @ new1" "out1 = out @ concat (map (fp_entry g) new1)" "set new1 \<subseteq> reach g {a}"
    "\<forall>x \<in> set new1. set (an_Requires (g x)) \<subseteq> set seen1" "a \<in> set seen1" "distinct seen \<longrightarrow> distinct seen1"
    unfolding s visited_from_iff by auto
  from assms(2) obtain new2 where 2: "seen2 = seen1 @ new2" "out2 = out1 @ concat (map (fp_entry g) new2)" "set new2 \<subseteq> reach g (set as)"
    "\<forall>x \<in> set new2. set (an_Requires (g x)) \<subseteq> set seen2" "set as \<subseteq> set seen2" "distinct seen1 \<longrightarrow> distinct seen2"
    unfolding s visited_from_iff by auto
  have "set (new1 @ new2) \<subseteq> reach g (set (a # as))"
    using 1(3) 2(3) reach_mono [of "{a}" "set (a # as)" g] reach_mono [of "set as" "set (a # as)" g] by auto
  moreover have "\<forall>x \<in> set (new1 @ new2). set (an_Requires (g x)) \<subseteq> set seen2" using 1(4) 2(1,4) by auto
  moreover have "set (a # as) \<subseteq> set seen2" using 1(5) 2(1,5) by simp
  moreover have "distinct seen \<longrightarrow> distinct seen2" using 1(6) 2(6) by blast
  moreover have "seen2 = seen @ new1 @ new2" "out2 = out @ concat (map (fp_entry g) (new1 @ new2))" using 1(1,2) 2(1,2) by simp_all
  ultimately show ?thesis unfolding s visited_from_iff by blast
qed

lemma ofold_visits:
  assumes "\<And>a s. a \<in> set as \<Longrightarrow> length s0 \<le> length (fst s) \<Longrightarrow> set s0 \<subseteq> set (fst s) \<Longrightarrow> \<exists>t. f a s = Some t \<and> visited_from g [a] s t"
    and "set s0 \<subseteq> set (fst s)" and "length s0 \<le> length (fst s)"
  shows "\<exists>t. ofold f as s = Some t \<and> visited_from g as s t"
  using assms
proof (induction as arbitrary: s)
  case Nil
  then show ?case by (auto simp: visited_from_def)
next
  case (Cons a as)
  obtain t where t: "f a s = Some t" "visited_from g [a] s t" using Cons.prems(1) [of a s] Cons.prems(2,3) by auto
  then have "set s0 \<subseteq> set (fst t)" "length s0 \<le> length (fst t)" using Cons.prems(2,3) by (auto simp: visited_from_def split: prod.splits)
  then obtain u where "ofold f as t = Some u" "visited_from g as t u" using Cons.IH [of t] Cons.prems(1) by auto
  then show ?case using t visited_from_trans by fastforce
qed

lemma fp_walk_visits:
  assumes "finite R" and "\<And>x. x \<in> R \<Longrightarrow> set (an_Requires (g x)) \<subseteq> R"
  shows "a \<in> R \<Longrightarrow> card (R - set (fst s)) < n \<Longrightarrow> \<exists>t. fp_walk g n a s = Some t \<and> visited_from g [a] s t"
proof (induction n arbitrary: a s)
  case (Suc n)
  obtain seen out where s: "s = (seen, out)" by (cases s)
  show ?case
  proof (cases "a \<in> set seen")
    case True
    then show ?thesis by (auto simp: s visited_from_def)
  next
    case False
    let ?s = "(seen @ [a], out @ fp_entry g a)"
    have "\<exists>t. ofold (fp_walk g n) (an_Requires (g a)) ?s = Some t \<and> visited_from g (an_Requires (g a)) ?s t"
    proof (rule ofold_visits [of _ "seen @ [a]"])
      fix b and r :: "nat list \<times> analyzerEntry list"
      assume b: "b \<in> set (an_Requires (g a))" and r: "set (seen @ [a]) \<subseteq> set (fst r)"
      have "R - set (fst r) \<subset> R - set seen" using r False Suc.prems(1) by auto
      then have "card (R - set (fst r)) < n"
        using psubset_card_mono [of "R - set seen" "R - set (fst r)"] assms(1) Suc.prems(2) s by simp
      then show "\<exists>t. fp_walk g n b r = Some t \<and> visited_from g [b] r t" using Suc.IH [of b r] b assms(2) [OF Suc.prems(1)] by auto
    qed simp_all
    then obtain seen' out' where w: "ofold (fp_walk g n) (an_Requires (g a)) ?s = Some (seen', out')"
      and v: "visited_from g (an_Requires (g a)) ?s (seen', out')" by auto
    then obtain new where new: "seen' = (seen @ [a]) @ new" "out' = (out @ fp_entry g a) @ concat (map (fp_entry g) new)"
      "set new \<subseteq> reach g (set (an_Requires (g a)))" "\<forall>x \<in> set new. set (an_Requires (g x)) \<subseteq> set seen'"
      "set (an_Requires (g a)) \<subseteq> set seen'" "distinct (seen @ [a]) \<longrightarrow> distinct seen'"
      unfolding visited_from_iff by blast
    have "reach g (set (an_Requires (g a))) \<subseteq> reach g {a}"
      by (auto simp: reach_def requires_def intro: converse_rtranclp_into_rtranclp)
    moreover have "a \<in> reach g {a}" by (auto simp: reach_def)
    ultimately have "visited_from g [a] (seen, out) (seen', out')"
      unfolding visited_from_iff using new False by (intro exI [of _ "a # new"]) auto
    then show ?thesis using w False by (simp add: s)
  qed
qed simp

lemma factProducers_reach:
  assumes "finite (reach g (ae_analyzer ` set roots))" and "card (reach g (ae_analyzer ` set roots)) < fuel"
  shows "\<exists>out. factProducers g fuel roots = Some out \<and> distinct (map ae_analyzer out)
    \<and> ae_analyzer ` set out = {a \<in> reach g (ae_analyzer ` set roots). an_FactTypes (g a) \<noteq> []}
    \<and> list_all (\<lambda>e. ae_linter e = an_Name (g (ae_analyzer e))) out"
proof -
  let ?R = "reach g (ae_analyzer ` set roots)"
  have r: "ae_analyzer r \<in> ?R" if "r \<in> set roots" for r using that by (auto simp: reach_def)
  have "\<exists>t. ofold (fp_walk g fuel) (map ae_analyzer roots) ([], []) = Some t \<and> visited_from g (map ae_analyzer roots) ([], []) t"
  proof (rule ofold_visits [of _ "[]"])
    fix a and s :: "nat list \<times> analyzerEntry list"
    assume "a \<in> set (map ae_analyzer roots)"
    moreover have "card (?R - set (fst s)) < fuel" using card_mono [of ?R "?R - set (fst s)"] assms by auto
    ultimately show "\<exists>t. fp_walk g fuel a s = Some t \<and> visited_from g [a] s t"
      using fp_walk_visits [OF assms(1), of g a s fuel] reach_closed r by fastforce
  qed simp_all
  then obtain seen where w: "factProducers g fuel roots = Some (concat (map (fp_entry g) seen))"
    and v: "set seen \<subseteq> ?R" "\<forall>x \<in> set seen. set (an_Requires (g x)) \<subseteq> set seen" "ae_analyzer ` set roots \<subseteq> set seen" "distinct seen"
    by (auto simp: factProducers_def ofold_map visited_from_iff)
  have "set seen = ?R" using v(1) reach_least [of "ae_analyzer ` set roots" "set seen" g] v(2,3) by blast
  moreover have "map ae_analyzer (concat (map (fp_entry g) seen)) = filter (\<lambda>a. an_FactTypes (g a) \<noteq> []) seen"
    by (induction seen) (auto simp: fp_entry_def)
  moreover have "list_all (\<lambda>e. ae_linter e = an_Name (g (ae_analyzer e))) (concat (map (fp_entry g) seen))"
    by (auto simp: list_all_iff fp_entry_def split: if_splits)
  moreover have "ae_analyzer ` set (concat (map (fp_entry g) seen)) = set (map ae_analyzer (concat (map (fp_entry g) seen)))" by simp
  ultimately show ?thesis using w v(4) by (intro exI [of _ "concat (map (fp_entry g) seen)"]) (simp del: set_map image_set)
qed

text \<open>
  C31. A facts-only action runs exactly the right analyzers: the promoted roots are the analyzers that declare
  facts among all those the configured roots require, directly or not, each once, under its own name.
\<close>
theorem factProducers_exact:
  assumes "finite (reach g (ae_analyzer ` set roots))" and "card (reach g (ae_analyzer ` set roots)) < fuel"
  shows "\<exists>out. factProducers g fuel roots = Some out \<and> distinct (map ae_analyzer out)
    \<and> ae_analyzer ` set out = {a \<in> reach g (ae_analyzer ` set roots). an_FactTypes (g a) \<noteq> []}
    \<and> list_all (\<lambda>e. ae_linter e = an_Name (g (ae_analyzer e))) out"
  by (rule factProducers_reach [OF assms])


definition demo_graph :: agraph where
  "demo_graph a =
     (if a = 0 then \<lparr>an_Name = ''check'', an_Requires = [1, 2], an_FactTypes = [], an_ResultType = []\<rparr>
      else if a = 1 then \<lparr>an_Name = ''purity'', an_Requires = [2], an_FactTypes = [''pure''], an_ResultType = []\<rparr>
      else \<lparr>an_Name = ''inspect'', an_Requires = [], an_FactTypes = [], an_ResultType = []\<rparr>)"

lemma demo_reach: "reach demo_graph {0} = {0, 1, 2}"
proof
  show "reach demo_graph {0} \<subseteq> {0, 1, 2}" by (rule reach_least) (auto simp: demo_graph_def)
  have "requires demo_graph 0 1" "requires demo_graph 0 2" by (simp_all add: requires_def demo_graph_def)
  then show "{0, 1, 2} \<subseteq> reach demo_graph {0}" by (auto simp: reach_def)
qed

theorem factProducers_exact_witness:
  "\<exists>out. factProducers demo_graph 4 [\<lparr>ae_linter = ''check'', ae_analyzer = 0\<rparr>] = Some out \<and> ae_analyzer ` set out = {1}"
proof -
  have "{a \<in> reach demo_graph {0}. an_FactTypes (demo_graph a) \<noteq> []} = {1}" by (auto simp: demo_reach demo_graph_def)
  then show ?thesis
    using factProducers_exact [of demo_graph "[\<lparr>ae_linter = ''check'', ae_analyzer = 0\<rparr>]" 4] by (auto simp: demo_reach)
qed


subsection \<open>Running one analyzer\<close>

record adiag =
  ad_Pos :: int
  ad_Message :: string
  ad_Fixes :: "(string \<times> (int \<times> int \<times> string) list) list"
  ad_Related :: "(int \<times> string) list"

text \<open>What the body of an analyzer does: panic, return an error, or return a value of some type with diagnostics.\<close>

datatype 'r run_event = Panicked string | Errored string | Returned string 'r "adiag list"

definition runOne :: "agraph \<Rightarrow> (nat \<Rightarrow> (nat \<rightharpoonup> 'r) \<Rightarrow> 'r run_event) \<Rightarrow> nat \<Rightarrow> (nat \<rightharpoonup> 'r) \<Rightarrow> string + 'r \<times> adiag list" where
  "runOne g body a inputs =
     (case body a inputs of
        Panicked m \<Rightarrow> Inl (''panic: '' @ m)
      | Errored e \<Rightarrow> Inl e
      | Returned ty r diags \<Rightarrow>
          if ty \<noteq> an_ResultType (g a)
          then Inl (''internal error: result type '' @ ty @ '', declared '' @ an_ResultType (g a)) else Inr (r, diags))"

datatype exec_error = RunFailed string | Requirement string exec_error

datatype 'r outcome = Failed exec_error | Done 'r "adiag list"

definition ran :: "string + 'r \<times> adiag list \<Rightarrow> 'r outcome" where
  "ran x = (case x of Inl e \<Rightarrow> Failed (RunFailed e) | Inr (r, ds) \<Rightarrow> Done r ds)"

text \<open>\<^verbatim>\<open>exec\<close>: the memo holds the actions whose \<^verbatim>\<open>sync.Once\<close> has completed.\<close>

type_synonym 'r memo = "nat \<rightharpoonup> 'r outcome"

fun exec_reqs ::
  "agraph \<Rightarrow> (nat \<Rightarrow> 'r memo \<Rightarrow> 'r memo option) \<Rightarrow> nat list \<Rightarrow> (nat \<rightharpoonup> 'r) \<Rightarrow> 'r memo \<Rightarrow> ('r memo \<times> (exec_error + (nat \<rightharpoonup> 'r))) option" where
  "exec_reqs g ex [] inputs memo = Some (memo, Inr inputs)"
| "exec_reqs g ex (q # qs) inputs memo =
     Option.bind (ex q memo) (\<lambda>memo'.
       case the (memo' q) of
         Failed e \<Rightarrow> Some (memo', Inl (Requirement (an_Name (g q)) e))
       | Done r ds \<Rightarrow> exec_reqs g ex qs (inputs(q \<mapsto> r)) memo')"

primrec exec :: "agraph \<Rightarrow> (nat \<Rightarrow> (nat \<rightharpoonup> 'r) \<Rightarrow> 'r run_event) \<Rightarrow> nat \<Rightarrow> nat \<Rightarrow> 'r memo \<Rightarrow> 'r memo option" where
  "exec g body 0 = (\<lambda>a memo. None)"
| "exec g body (Suc n) = (\<lambda>a memo.
     if memo a \<noteq> None then Some memo
     else Option.bind (exec_reqs g (exec g body n) (an_Requires (g a)) Map.empty memo) (\<lambda>(memo', r).
       Some (memo'(a \<mapsto> (case r of Inl e \<Rightarrow> Failed e | Inr inputs \<Rightarrow> ran (runOne g body a inputs))))))"


subsection \<open>The whole action\<close>

primrec register :: "agraph \<Rightarrow> nat \<Rightarrow> analyzerEntry \<Rightarrow> bool \<Rightarrow> (nat \<times> analyzerEntry \<times> bool) list \<Rightarrow> (nat \<times> analyzerEntry \<times> bool) list option" where
  "register g 0 = (\<lambda>e root acts. None)"
| "register g (Suc n) = (\<lambda>e root acts.
     let a = ae_analyzer e in
     map_option (\<lambda>acts. if root then map (\<lambda>(b, x). if b = a then (b, e, True) else (b, x)) acts else acts)
       (if map_of acts a \<noteq> None then Some acts
        else ofold (\<lambda>q. register g n \<lparr>ae_linter = an_Name (g q), ae_analyzer = q\<rparr> False) (an_Requires (g a)) (acts @ [(a, e, False)])))"

text \<open>\<open>fset\<close> is \<^verbatim>\<open>FileSet.Position\<close>; position \<open>0\<close> is \<^verbatim>\<open>token.NoPos\<close>.\<close>

definition toPosition :: "(int \<Rightarrow> position) \<Rightarrow> int \<Rightarrow> position" where
  "toPosition fset pos = (if pos = 0 then \<lparr>Filename = [], Line = 0, Column = 0\<rparr> else fset pos)"

definition convertDiagnostic :: "(int \<Rightarrow> position) \<Rightarrow> string \<Rightarrow> adiag \<Rightarrow> diagnostic" where
  "convertDiagnostic fset linter d =
     \<lparr>Linter = linter, Message = ad_Message d, Severity = SeverityError, Pos = toPosition fset (ad_Pos d), SourceLines = [],
      SuggestedFixes = map (\<lambda>(m, eds). \<lparr>FixMessage = m, TextEdits = map (\<lambda>(s, e, new).
        \<lparr>Start = toPosition fset s, End = toPosition fset e, NewText = new\<rparr>) eds\<rparr>) (ad_Fixes d),
      Related = map (\<lambda>(p, m). \<lparr>RelPosition = toPosition fset p, RelMessage = m\<rparr>) (ad_Related d)\<rparr>"

fun error_text :: "exec_error \<Rightarrow> string" where
  "error_text (RunFailed e) = e"
| "error_text (Requirement q e) = ''requirement '' @ q @ '': '' @ error_text e"

definition collect_action ::
  "agraph \<Rightarrow> (int \<Rightarrow> position) \<Rightarrow> 'r memo \<Rightarrow> nat \<times> analyzerEntry \<times> bool \<Rightarrow> diagnostic list \<times> string list \<Rightarrow> diagnostic list \<times> string list" where
  "collect_action g fset memo = (\<lambda>(a, e, root) (diags, warnings).
     case memo a of
       Some (Failed err) \<Rightarrow> (diags, warnings @ [''analyzer '' @ an_Name (g a) @ '' failed: '' @ error_text err])
     | Some (Done r ds) \<Rightarrow> (if root then (diags @ map (convertDiagnostic fset (ae_linter e)) ds, warnings) else (diags, warnings))
     | None \<Rightarrow> (diags, warnings))"

text \<open>\<open>order\<close> is the order in which the goroutines of the roots reach \<^verbatim>\<open>exec\<close>.\<close>

definition runAnalyzers ::
  "agraph \<Rightarrow> (nat \<Rightarrow> (nat \<rightharpoonup> 'r) \<Rightarrow> 'r run_event) \<Rightarrow> (int \<Rightarrow> position) \<Rightarrow> nat \<Rightarrow> analyzerEntry list \<Rightarrow> nat list
   \<Rightarrow> (diagnostic list \<times> string list) option" where
  "runAnalyzers g body fset fuel roots order =
     Option.bind (ofold (\<lambda>e. register g fuel e True) roots []) (\<lambda>acts.
     Option.bind (ofold (exec g body fuel) order Map.empty) (\<lambda>memo.
     Some (fold (collect_action g fset memo) (sort_key (\<lambda>(a, x). an_Name (g a)) acts) ([], []))))"



subsection \<open>The memo computes the reference values\<close>

text \<open>The reference: the same analyzers without a memo, every requirement evaluated anew.\<close>

fun ref_reqs :: "agraph \<Rightarrow> (nat \<Rightarrow> 'r outcome option) \<Rightarrow> nat list \<Rightarrow> (nat \<rightharpoonup> 'r) \<Rightarrow> (exec_error + (nat \<rightharpoonup> 'r)) option" where
  "ref_reqs g ev [] inputs = Some (Inr inputs)"
| "ref_reqs g ev (q # qs) inputs =
     Option.bind (ev q) (\<lambda>v.
       case v of Failed e \<Rightarrow> Some (Inl (Requirement (an_Name (g q)) e)) | Done r ds \<Rightarrow> ref_reqs g ev qs (inputs(q \<mapsto> r)))"

primrec ref_exec :: "agraph \<Rightarrow> (nat \<Rightarrow> (nat \<rightharpoonup> 'r) \<Rightarrow> 'r run_event) \<Rightarrow> nat \<Rightarrow> nat \<Rightarrow> 'r outcome option" where
  "ref_exec g body 0 = (\<lambda>a. None)"
| "ref_exec g body (Suc n) = (\<lambda>a.
     map_option (\<lambda>r. case r of Inl e \<Rightarrow> Failed e | Inr inputs \<Rightarrow> ran (runOne g body a inputs))
       (ref_reqs g (ref_exec g body n) (an_Requires (g a)) Map.empty))"

text \<open>A rank that decreases along requirements: what \<^verbatim>\<open>analysis.Validate\<close> checks, that the graph has no cycle.\<close>

definition ranked :: "agraph \<Rightarrow> (nat \<Rightarrow> nat) \<Rightarrow> bool" where
  "ranked g rk \<longleftrightarrow> (\<forall>a b. requires g a b \<longrightarrow> rk b < rk a)"

definition ref_value :: "agraph \<Rightarrow> (nat \<Rightarrow> (nat \<rightharpoonup> 'r) \<Rightarrow> 'r run_event) \<Rightarrow> (nat \<Rightarrow> nat) \<Rightarrow> nat \<Rightarrow> 'r outcome" where
  "ref_value g body rk a = the (ref_exec g body (Suc (rk a)) a)"

lemma ref_reqs_total: "\<forall>q \<in> set qs. ev q = Some (v q) \<Longrightarrow> ref_reqs g ev qs inputs = ref_reqs g (\<lambda>q. Some (v q)) qs inputs"
  by (induction qs arbitrary: inputs) (auto split: outcome.splits)

lemma ref_reqs_Some: "\<exists>r. ref_reqs g (\<lambda>q. Some (v q)) qs inputs = Some r"
proof (induction qs arbitrary: inputs)
  case (Cons q qs)
  then show ?case by (cases "v q") auto
qed simp

lemma ref_exec_value:
  assumes "ranked g rk"
  shows "rk a < n \<Longrightarrow> ref_exec g body n a = Some (ref_value g body rk a)"
proof (induction "rk a" arbitrary: a n rule: less_induct)
  case less
  have q: "ref_exec g body m b = Some (ref_value g body rk b)" if "b \<in> set (an_Requires (g a))" "rk a \<le> m" for b m
    using less.hyps [of b m] that assms by (auto simp: ranked_def requires_def)
  obtain n' where n: "n = Suc n'" "rk a \<le> n'" using less.prems by (cases n) auto
  have "ref_reqs g (ref_exec g body m) (an_Requires (g a)) Map.empty
      = ref_reqs g (\<lambda>b. Some (ref_value g body rk b)) (an_Requires (g a)) Map.empty" if "rk a \<le> m" for m
    by (rule ref_reqs_total) (use q that in blast)
  then have "ref_exec g body (Suc m) a = ref_exec g body (Suc (rk a)) a" if "rk a \<le> m" for m using that by simp
  moreover have "ref_exec g body (Suc (rk a)) a \<noteq> None"
    using ref_reqs_Some [of g "ref_value g body rk"] ref_reqs_total [of "an_Requires (g a)" "ref_exec g body (rk a)" "ref_value g body rk" g Map.empty] q
    by auto
  ultimately show ?case using n unfolding ref_value_def by (metis option.collapse)
qed

lemma ref_value_rec:
  assumes "ranked g rk"
  shows "ref_reqs g (\<lambda>b. Some (ref_value g body rk b)) (an_Requires (g a)) Map.empty = Some r \<Longrightarrow>
    ref_value g body rk a = (case r of Inl e \<Rightarrow> Failed e | Inr inputs \<Rightarrow> ran (runOne g body a inputs))"
proof -
  assume r: "ref_reqs g (\<lambda>b. Some (ref_value g body rk b)) (an_Requires (g a)) Map.empty = Some r"
  have "ref_reqs g (ref_exec g body (rk a)) (an_Requires (g a)) Map.empty = Some r"
    unfolding r [symmetric]
  proof (rule ref_reqs_total, rule ballI)
    fix b
    assume "b \<in> set (an_Requires (g a))"
    then have "rk b < rk a" using assms by (simp add: ranked_def requires_def)
    then show "ref_exec g body (rk a) b = Some (ref_value g body rk b)" by (rule ref_exec_value [OF assms])
  qed
  then show ?thesis using ref_exec_value [OF assms, of a "Suc (rk a)" body] by simp
qed

text \<open>The requirements an action really waits for: up to the first that fails.\<close>

fun needed :: "(nat \<Rightarrow> 'r outcome) \<Rightarrow> nat list \<Rightarrow> nat list" where
  "needed v [] = []"
| "needed v (q # qs) = q # (case v q of Failed e \<Rightarrow> [] | Done r ds \<Rightarrow> needed v qs)"

definition waits :: "agraph \<Rightarrow> (nat \<Rightarrow> 'r outcome) \<Rightarrow> nat \<Rightarrow> nat \<Rightarrow> bool" where
  "waits g v a b \<longleftrightarrow> b \<in> set (needed v (an_Requires (g a)))"

definition runs :: "agraph \<Rightarrow> (nat \<Rightarrow> 'r outcome) \<Rightarrow> nat set \<Rightarrow> nat set" where
  "runs g v R = {b. \<exists>a \<in> R. (waits g v)\<^sup>*\<^sup>* a b}"

lemma runs_least:
  assumes "R \<subseteq> S" and "\<And>x y. x \<in> S \<Longrightarrow> waits g v x y \<Longrightarrow> y \<in> S"
  shows "runs g v R \<subseteq> S"
proof
  fix b
  assume "b \<in> runs g v R"
  then obtain a where "a \<in> R" "(waits g v)\<^sup>*\<^sup>* a b" by (auto simp: runs_def)
  from this(2,1) show "b \<in> S" by (induction rule: rtranclp_induct) (use assms in auto)
qed

definition stage :: "agraph \<Rightarrow> (nat \<Rightarrow> 'r outcome) \<Rightarrow> nat set \<Rightarrow> 'r memo \<Rightarrow> 'r memo \<Rightarrow> bool" where
  "stage g v Y m m' \<longleftrightarrow> (\<forall>a. m' a \<noteq> None \<longrightarrow> m' a = Some (v a)) \<and> dom m \<subseteq> dom m' \<and> Y \<subseteq> dom m'
     \<and> (\<forall>x \<in> dom m' - dom m. x \<in> runs g v Y \<and> (\<forall>y. waits g v x y \<longrightarrow> y \<in> dom m'))"

lemma stage_trans:
  assumes "stage g v Y m m1" and "stage g v Z m1 m2"
  shows "stage g v (Y \<union> Z) m m2"
proof -
  have "runs g v Y \<subseteq> runs g v (Y \<union> Z)" "runs g v Z \<subseteq> runs g v (Y \<union> Z)" by (auto simp: runs_def)
  then show ?thesis using assms unfolding stage_def by blast
qed


lemma exec_reqs_stage:
  assumes "\<And>q m. q \<in> set qs \<Longrightarrow> stage g v {} m m \<Longrightarrow> \<exists>m'. ex q m = Some m' \<and> stage g v {q} m m'"
    and "stage g v {} m m"
  shows "\<exists>m' r. exec_reqs g ex qs inputs m = Some (m', r) \<and> ref_reqs g (\<lambda>q. Some (v q)) qs inputs = Some r
    \<and> stage g v (set (needed v qs)) m m'"
  using assms
proof (induction qs arbitrary: m inputs)
  case (Cons q qs)
  obtain m1 where m1: "ex q m = Some m1" "stage g v {q} m m1" using Cons.prems(1) [of q m] Cons.prems(2) by auto
  then have v: "m1 q = Some (v q)" by (auto simp: stage_def)
  show ?case
  proof (cases "v q")
    case (Failed e)
    then show ?thesis using m1 v by simp
  next
    case (Done r ds)
    have "stage g v {} m1 m1" using m1(2) by (simp add: stage_def)
    then have "\<exists>m2 s. exec_reqs g ex qs (inputs(q \<mapsto> r)) m1 = Some (m2, s)
      \<and> ref_reqs g (\<lambda>q. Some (v q)) qs (inputs(q \<mapsto> r)) = Some s \<and> stage g v (set (needed v qs)) m1 m2"
      by (intro Cons.IH) (use Cons.prems(1) in auto)
    then obtain m2 s where "exec_reqs g ex qs (inputs(q \<mapsto> r)) m1 = Some (m2, s)"
      "ref_reqs g (\<lambda>q. Some (v q)) qs (inputs(q \<mapsto> r)) = Some s" "stage g v (set (needed v qs)) m1 m2" by blast
    then show ?thesis using m1 v Done stage_trans [OF m1(2), of "set (needed v qs)" m2] by simp
  qed
qed simp

lemma exec_stage:
  assumes "ranked g rk"
  shows "rk a < n \<Longrightarrow> stage g (ref_value g body rk) {} m m \<Longrightarrow> \<exists>m'. exec g body n a m = Some m' \<and> stage g (ref_value g body rk) {a} m m'"
proof (induction n arbitrary: a m)
  case (Suc n)
  let ?v = "ref_value g body rk"
  show ?case
  proof (cases "m a = None")
    case False
    then show ?thesis using Suc.prems(2) by (auto simp: stage_def)
  next
    case True
    have "rk q < n" if "q \<in> set (an_Requires (g a))" for q using that assms Suc.prems(1) by (force simp: ranked_def requires_def)
    then obtain m1 r where x: "exec_reqs g (exec g body n) (an_Requires (g a)) Map.empty m = Some (m1, r)"
      and r: "ref_reqs g (\<lambda>q. Some (?v q)) (an_Requires (g a)) Map.empty = Some r"
      and st: "stage g ?v (set (needed ?v (an_Requires (g a)))) m m1"
      using exec_reqs_stage [of "an_Requires (g a)" g ?v "exec g body n" m Map.empty] Suc.IH Suc.prems(2) by blast
    let ?m = "m1(a \<mapsto> ?v a)"
    have "x \<in> runs g ?v {a}" if "x \<in> runs g ?v (set (needed ?v (an_Requires (g a))))" for x
      using that by (auto simp: runs_def waits_def intro: converse_rtranclp_into_rtranclp)
    moreover have "a \<in> runs g ?v {a}" by (auto simp: runs_def)
    moreover have "y \<in> dom m1" if "waits g ?v a y" for y using that st by (auto simp: stage_def waits_def)
    ultimately have "stage g ?v {a} m ?m" using st unfolding stage_def dom_fun_upd by simp blast
    then show ?thesis using True x ref_value_rec [OF assms r] by auto
  qed
qed simp

lemma ofold_exec:
  assumes "ranked g rk" and "\<forall>a \<in> set order. rk a < fuel"
  shows "stage g (ref_value g body rk) {} m m \<Longrightarrow> \<exists>m'. ofold (exec g body fuel) order m = Some m' \<and> stage g (ref_value g body rk) (set order) m m'"
  using assms(2)
proof (induction order arbitrary: m)
  case (Cons a order)
  obtain m1 where m1: "exec g body fuel a m = Some m1" "stage g (ref_value g body rk) {a} m m1"
    using exec_stage [OF assms(1), of a fuel body m] Cons.prems by auto
  then have "stage g (ref_value g body rk) {} m1 m1" by (simp add: stage_def)
  then obtain m2 where "ofold (exec g body fuel) order m1 = Some m2" "stage g (ref_value g body rk) (set order) m1 m2"
    using Cons.IH [of m1] Cons.prems(2) by auto
  then show ?case using m1 stage_trans [OF m1(2), of "set order" m2] by simp
qed simp

lemma exec_memo:
  assumes "ranked g rk" and "\<forall>a \<in> set order. rk a < fuel"
  shows "ofold (exec g body fuel) order Map.empty =
    Some (\<lambda>a. if a \<in> runs g (ref_value g body rk) (set order) then Some (ref_value g body rk a) else None)"
proof -
  let ?v = "ref_value g body rk"
  have "stage g ?v {} Map.empty Map.empty" by (simp add: stage_def)
  then obtain m where m: "ofold (exec g body fuel) order Map.empty = Some m" and st: "stage g ?v (set order) Map.empty m"
    using ofold_exec [OF assms, of body Map.empty] by blast
  have "runs g ?v (set order) \<subseteq> dom m" by (rule runs_least) (use st in \<open>auto simp: stage_def\<close>)
  then have d: "dom m = runs g ?v (set order)" using st by (auto simp: stage_def)
  have "m a = (if a \<in> runs g ?v (set order) then Some (?v a) else None)" for a
  proof (cases "m a = None")
    case True
    then show ?thesis using d by auto
  next
    case False
    then have "m a = Some (?v a)" using st by (auto simp: stage_def)
    moreover have "a \<in> runs g ?v (set order)" using False d by blast
    ultimately show ?thesis by simp
  qed
  then show ?thesis using m by auto
qed


text \<open>
  C32. Running every analyzer at most once is right: after all roots have been executed, in whatever order, the
  memo holds for exactly the actions some root waits for the outcome the memo-free reference gives, errors
  of requirements passed on to those that wait for them.
\<close>
theorem exec_equals_reference:
  assumes "ranked g rk" and "\<forall>a \<in> set order. rk a < fuel"
  shows "ofold (exec g body fuel) order Map.empty =
    Some (\<lambda>a. if a \<in> runs g (ref_value g body rk) (set order) then Some (ref_value g body rk a) else None)"
  using exec_memo [OF assms] .

definition demo_body :: "nat \<Rightarrow> (nat \<rightharpoonup> nat) \<Rightarrow> nat run_event" where
  "demo_body a inputs = (if a = 1 then Panicked ''bad'' else Returned [] a [])"

lemma demo_ranked: "ranked demo_graph (\<lambda>a. 2 - a)"
  by (auto simp: ranked_def requires_def demo_graph_def split: if_splits)

theorem exec_equals_reference_witness:
  "\<exists>m. ofold (exec demo_graph demo_body 3) [0] Map.empty = Some m \<and> m 0 = Some (Failed (Requirement ''purity'' (RunFailed ''panic: bad'')))"
proof -
  have v: "ref_value demo_graph demo_body (\<lambda>a. 2 - a) 0 = Failed (Requirement ''purity'' (RunFailed ''panic: bad''))"
    by (simp add: ref_value_def eval_nat_numeral demo_graph_def ran_def runOne_def demo_body_def)
  have "0 \<in> runs demo_graph (ref_value demo_graph demo_body (\<lambda>a. 2 - a)) (set [0])" by (auto simp: runs_def)
  moreover have "\<forall>a \<in> set [0]. 2 - a < (3::nat)" by simp
  ultimately show ?thesis using exec_equals_reference [OF demo_ranked, of "[0]" 3 demo_body] v by simp
qed

lemma register_total:
  assumes "ranked g rk"
  shows "rk (ae_analyzer e) < n \<Longrightarrow> \<exists>acts'. register g n e root acts = Some acts'"
proof (induction n arbitrary: e root acts)
  case (Suc n)
  have "\<exists>acts'. ofold (\<lambda>q. register g n \<lparr>ae_linter = an_Name (g q), ae_analyzer = q\<rparr> False) qs acts = Some acts'"
    if "set qs \<subseteq> set (an_Requires (g (ae_analyzer e)))" for qs acts
    using that
  proof (induction qs arbitrary: acts)
    case (Cons q qs)
    then have "rk q < n" using assms Suc.prems by (force simp: ranked_def requires_def)
    then obtain acts1 where "register g n \<lparr>ae_linter = an_Name (g q), ae_analyzer = q\<rparr> False acts = Some acts1"
      using Suc.IH [of "\<lparr>ae_linter = an_Name (g q), ae_analyzer = q\<rparr>"] by auto
    then show ?case using Cons by simp
  qed simp
  then show ?case by (simp add: Let_def)
qed simp

text \<open>
  The scheduler does not show: whatever the order in which the roots' goroutines reach the analyzers, the
  action ends with the same diagnostics and the same warnings.
\<close>
theorem runAnalyzers_schedule:
  assumes "ranked g rk" and "\<forall>e \<in> set roots. rk (ae_analyzer e) < fuel"
  shows "\<exists>out. \<forall>order. set order = ae_analyzer ` set roots \<longrightarrow> runAnalyzers g body fset fuel roots order = Some out"
proof -
  have "\<exists>acts'. ofold (\<lambda>e. register g fuel e True) es acts = Some acts'" if "set es \<subseteq> set roots" for es acts
    using that
  proof (induction es arbitrary: acts)
    case (Cons e es)
    then obtain acts1 where "register g fuel e True acts = Some acts1" using register_total [OF assms(1), of e fuel True acts] assms(2) by auto
    then show ?case using Cons by simp
  qed simp
  then obtain acts where acts: "ofold (\<lambda>e. register g fuel e True) roots [] = Some acts" by blast
  let ?v = "ref_value g body rk"
  have "runAnalyzers g body fset fuel roots order =
      Some (fold (collect_action g fset (\<lambda>a. if a \<in> runs g ?v (ae_analyzer ` set roots) then Some (?v a) else None))
        (sort_key (\<lambda>(a, x). an_Name (g a)) acts) ([], []))"
    if "set order = ae_analyzer ` set roots" for order
  proof -
    have "\<forall>a \<in> set order. rk a < fuel" using that assms(2) by auto
    then show ?thesis by (simp only: runAnalyzers_def acts exec_memo [OF assms(1), of order fuel body] that Option.bind.simps)
  qed
  then show ?thesis by blast
qed

theorem runAnalyzers_schedule_witness:
  "\<exists>out. runAnalyzers demo_graph demo_body (\<lambda>p. \<lparr>Filename = ''f'', Line = p, Column = 1\<rparr>) 3
       [\<lparr>ae_linter = ''check'', ae_analyzer = 0\<rparr>, \<lparr>ae_linter = ''inspect'', ae_analyzer = 2\<rparr>] [2, 0] = Some out
     \<and> runAnalyzers demo_graph demo_body (\<lambda>p. \<lparr>Filename = ''f'', Line = p, Column = 1\<rparr>) 3
       [\<lparr>ae_linter = ''check'', ae_analyzer = 0\<rparr>, \<lparr>ae_linter = ''inspect'', ae_analyzer = 2\<rparr>] [0, 2] = Some out"
proof -
  let ?roots = "[\<lparr>ae_linter = ''check'', ae_analyzer = 0\<rparr>, \<lparr>ae_linter = ''inspect'', ae_analyzer = 2\<rparr>]"
  let ?run = "runAnalyzers demo_graph demo_body (\<lambda>p. \<lparr>Filename = ''f'', Line = p, Column = 1\<rparr>) 3 ?roots"
  have "\<exists>out. \<forall>order. set order = ae_analyzer ` set ?roots \<longrightarrow> ?run order = Some out"
    by (rule runAnalyzers_schedule [OF demo_ranked]) simp
  then obtain out where o: "\<And>order. set order = ae_analyzer ` set ?roots \<Longrightarrow> ?run order = Some out" by (elim exE) simp
  have "?run [2, 0] = Some out" "?run [0, 2] = Some out" by (rule o, auto)+
  then show ?thesis by (intro exI conjI)
qed

end
