(* ===== verification/Collect.thy ===== *)
theory Collect
  imports Diagnostics
begin

text \<open>
  Merging the results of many unit actions (\<^verbatim>\<open>internal/unit/collect.go\<close>: \<^verbatim>\<open>Collect\<close>, \<^verbatim>\<open>strictSuperset\<close>,
  \<^verbatim>\<open>readSarifRun\<close>).  The decoder of \<^verbatim>\<open>encoding/json\<close> is an argument; what the code takes from the decoded
  document is modelled.
\<close>

subsection \<open>Reading a file\<close>

record sarifResult =
  sr_RuleID :: string
  sr_Level :: string
  sr_Text :: string
  sr_Locations :: "(string \<times> int \<times> int) list"

record sarifRun =
  sr_Results :: "sarifResult list"
  pu_Package :: string
  pu_Mode :: string
  pu_GoFiles :: "string list"
  pu_Compiles :: "bool option"

record collectRun =
  cr_pkg :: string
  cr_mode :: string
  cr_goFiles :: "string list"
  cr_compiles :: bool
  cr_diags :: "diagnostic list"

definition result_diag :: "sarifResult \<Rightarrow> diagnostic" where
  "result_diag r =
     \<lparr>Linter = sr_RuleID r, Message = sr_Text r, Severity = sr_Level r,
      Pos = (case sr_Locations r of
               [] \<Rightarrow> \<lparr>Filename = [], Line = 0, Column = 0\<rparr>
             | (uri, line, col) # _ \<Rightarrow> \<lparr>Filename = uri, Line = line, Column = col\<rparr>),
      SourceLines = [], SuggestedFixes = [], Related = []\<rparr>"

definition add_run :: "sarifRun \<Rightarrow> collectRun \<Rightarrow> collectRun" where
  "add_run r run =
     (let run = (if cr_pkg run = []
                 then run\<lparr>cr_pkg := pu_Package r, cr_mode := pu_Mode r, cr_goFiles := sort (pu_GoFiles r),
                          cr_compiles := (pu_Compiles r = None \<or> pu_Compiles r = Some True)\<rparr>
                 else run)
      in run\<lparr>cr_diags := cr_diags run @ map result_diag (sr_Results r)\<rparr>)"

definition readSarifRun :: "(string \<Rightarrow> bytes result) \<Rightarrow> (bytes \<Rightarrow> sarifRun list result) \<Rightarrow> string \<Rightarrow> collectRun result" where
  "readSarifRun read decode path =
     ebind (read path) (\<lambda>body. ebind (decode body) (\<lambda>doc.
       Inr (fold add_run doc \<lparr>cr_pkg = [], cr_mode = [], cr_goFiles = [], cr_compiles = False, cr_diags = []\<rparr>)))"

fun read_runs :: "(string \<Rightarrow> collectRun result) \<Rightarrow> string list \<Rightarrow> collectRun list result" where
  "read_runs rd [] = Inr []"
| "read_runs rd (p # ps) = ebind (rd p) (\<lambda>r. ebind (read_runs rd ps) (\<lambda>rs. Inr (r # rs)))"


subsection \<open>Supersession\<close>

definition strictSuperset :: "string list \<Rightarrow> string list \<Rightarrow> bool" where
  "strictSuperset a b \<longleftrightarrow> \<not> length a \<le> length b \<and> list_all (\<lambda>s. s \<in> set a) b"

definition bucket :: "collectRun list \<Rightarrow> string \<Rightarrow> nat list" where
  "bucket runs pkg = filter (\<lambda>i. cr_pkg (runs ! i) = pkg \<and> cr_goFiles (runs ! i) \<noteq> []) [0..<length runs]"

definition superseded :: "collectRun list \<Rightarrow> nat \<Rightarrow> bool" where
  "superseded runs i \<longleftrightarrow> cr_pkg (runs ! i) \<noteq> [] \<and> cr_goFiles (runs ! i) \<noteq> []
     \<and> list_ex (\<lambda>j. i \<noteq> j \<and> cr_compiles (runs ! j) \<and> strictSuperset (cr_goFiles (runs ! j)) (cr_goFiles (runs ! i)))
         (bucket runs (cr_pkg (runs ! i)))"


subsection \<open>Merging\<close>

definition nul :: string where "nul = [CHR 0x00]"

definition dedup_key :: "diagnostic \<Rightarrow> string" where
  "dedup_key d = Filename (Pos d) @ nul @ itoa (Line (Pos d)) @ nul @ itoa (Column (Pos d)) @ nul @ Linter d @ nul @ Message d"

record collectState =
  cs_seen :: "string set"
  cs_Diagnostics :: "diagnostic list"
  cs_Superseded :: nat

definition collect_diag :: "bool \<Rightarrow> diagnostic \<Rightarrow> collectState \<Rightarrow> collectState" where
  "collect_diag old d st =
     (if old \<and> Linter d = ''unused'' then st\<lparr>cs_Superseded := Suc (cs_Superseded st)\<rparr>
      else if dedup_key d \<in> cs_seen st then st
      else st\<lparr>cs_seen := insert (dedup_key d) (cs_seen st), cs_Diagnostics := cs_Diagnostics st @ [d]\<rparr>)"

definition merge_runs :: "collectRun list \<Rightarrow> collectState" where
  "merge_runs runs =
     fold (\<lambda>i. fold (collect_diag (superseded runs i)) (cr_diags (runs ! i))) [0..<length runs]
       \<lparr>cs_seen = {}, cs_Diagnostics = [], cs_Superseded = 0\<rparr>"

definition Collect_files :: "(string \<Rightarrow> bytes result) \<Rightarrow> (bytes \<Rightarrow> sarifRun list result) \<Rightarrow> string list \<Rightarrow> (diagnostic list \<times> nat) result" where
  "Collect_files read decode paths =
     ebind (read_runs (readSarifRun read decode) paths) (\<lambda>runs.
       let st = merge_runs runs in Inr (Sort (cs_Diagnostics st), cs_Superseded st))"


subsection \<open>What is merged\<close>

text \<open>Supersession does not depend on the positions of the runs.\<close>

definition sup_in :: "collectRun set \<Rightarrow> collectRun \<Rightarrow> bool" where
  "sup_in R r \<longleftrightarrow> cr_pkg r \<noteq> [] \<and> cr_goFiles r \<noteq> [] \<and> (\<exists>r' \<in> R. cr_pkg r' = cr_pkg r \<and> cr_compiles r'
     \<and> length (cr_goFiles r) < length (cr_goFiles r') \<and> set (cr_goFiles r) \<subseteq> set (cr_goFiles r'))"

lemma superseded_sup_in:
  assumes "i < length runs"
  shows "superseded runs i \<longleftrightarrow> sup_in (set runs) (runs ! i)" (is "?L \<longleftrightarrow> ?R")
proof
  assume ?L
  then show ?R by (auto simp: superseded_def sup_in_def list_ex_iff bucket_def strictSuperset_def list_all_iff)
next
  assume R: ?R
  then obtain r' where r': "r' \<in> set runs" "cr_pkg r' = cr_pkg (runs ! i)" "cr_compiles r'"
    "length (cr_goFiles (runs ! i)) < length (cr_goFiles r')" "set (cr_goFiles (runs ! i)) \<subseteq> set (cr_goFiles r')"
    by (auto simp: sup_in_def)
  then obtain j where j: "j < length runs" "runs ! j = r'" by (auto simp: in_set_conv_nth)
  then have "i \<noteq> j" "cr_goFiles (runs ! j) \<noteq> []" using r' by auto
  then show ?L using R j r' unfolding superseded_def list_ex_iff
    by (auto simp: sup_in_def bucket_def strictSuperset_def list_all_iff intro!: bexI [of _ j])
qed

text \<open>The findings that count, in the order of the loop, and those that are dropped.\<close>

definition dropped :: "collectRun set \<Rightarrow> collectRun \<Rightarrow> diagnostic \<Rightarrow> bool" where
  "dropped R r d \<longleftrightarrow> sup_in R r \<and> Linter d = ''unused''"

definition live_diags :: "collectRun list \<Rightarrow> diagnostic list" where
  "live_diags runs = concat (map (\<lambda>r. filter (\<lambda>d. \<not> dropped (set runs) r d) (cr_diags r)) runs)"

definition dropped_count :: "collectRun list \<Rightarrow> nat" where
  "dropped_count runs = sum_list (map (\<lambda>r. length (filter (dropped (set runs) r) (cr_diags r))) runs)"

fun first_of_key :: "string set \<Rightarrow> diagnostic list \<Rightarrow> diagnostic list" where
  "first_of_key S [] = []"
| "first_of_key S (d # ds) = (if dedup_key d \<in> S then first_of_key S ds else d # first_of_key (insert (dedup_key d) S) ds)"

lemma fold_collect_diag:
  "fold (collect_diag old) ds st =
     \<lparr>cs_seen = cs_seen st \<union> dedup_key ` set (filter (\<lambda>d. \<not> (old \<and> Linter d = ''unused'')) ds),
      cs_Diagnostics = cs_Diagnostics st @ first_of_key (cs_seen st) (filter (\<lambda>d. \<not> (old \<and> Linter d = ''unused'')) ds),
      cs_Superseded = cs_Superseded st + length (filter (\<lambda>d. old \<and> Linter d = ''unused'') ds)\<rparr>"
proof (induction ds arbitrary: st)
  case (Cons d ds)
  show ?case unfolding fold_simps comp_apply Cons.IH by (auto simp: collect_diag_def)
qed simp

lemma first_of_key_append: "first_of_key S (xs @ ys) = first_of_key S xs @ first_of_key (S \<union> dedup_key ` set xs) ys"
  by (induction xs arbitrary: S) (auto simp: insert_absorb)

lemma merge_runs_state:
  "merge_runs runs = \<lparr>cs_seen = dedup_key ` set (live_diags runs), cs_Diagnostics = first_of_key {} (live_diags runs),
     cs_Superseded = dropped_count runs\<rparr>"
proof -
  let ?live = "\<lambda>r. filter (\<lambda>d. \<not> dropped (set runs) r d) (cr_diags r)" and ?dead = "\<lambda>r. length (filter (dropped (set runs) r) (cr_diags r))"
  let ?F = "\<lambda>n. fold (\<lambda>i. fold (collect_diag (superseded runs i)) (cr_diags (runs ! i))) [0..<n] \<lparr>cs_seen = {}, cs_Diagnostics = [], cs_Superseded = 0\<rparr>"
  have "n \<le> length runs \<Longrightarrow> ?F n = \<lparr>cs_seen = dedup_key ` set (concat (map ?live (take n runs))), cs_Diagnostics = first_of_key {} (concat (map ?live (take n runs))),
       cs_Superseded = sum_list (map ?dead (take n runs))\<rparr>" for n
  proof (induction n)
    case (Suc n)
    then have n: "n < length runs" "take (Suc n) runs = take n runs @ [runs ! n]" by (simp_all add: take_Suc_conv_app_nth)
    have F: "?F (Suc n) = fold (collect_diag (superseded runs n)) (cr_diags (runs ! n)) (?F n)" by simp
    have live: "filter (\<lambda>d. \<not> (superseded runs n \<and> Linter d = ''unused'')) (cr_diags (runs ! n)) = ?live (runs ! n)"
      and dead: "filter (\<lambda>d. superseded runs n \<and> Linter d = ''unused'') (cr_diags (runs ! n)) = filter (dropped (set runs) (runs ! n)) (cr_diags (runs ! n))"
      by (simp_all add: superseded_sup_in [OF n(1)] dropped_def [abs_def])
    show ?case unfolding F Suc.IH [OF Suc_leD [OF Suc.prems]]
      by (simp only: fold_collect_diag live dead n(2)) (simp add: first_of_key_append image_Un)
  qed simp
  from this [of "length runs"] show ?thesis by (simp add: merge_runs_def live_diags_def dropped_count_def)
qed

lemma first_of_key_props:
  "distinct (map dedup_key (first_of_key S ds)) \<and> set (first_of_key S ds) \<subseteq> set ds
   \<and> dedup_key ` set (first_of_key S ds) = dedup_key ` set ds - S"
proof (induction ds arbitrary: S)
  case (Cons d ds)
  then show ?case using Cons.IH [of "insert (dedup_key d) S"] Cons.IH [of S] by (auto split: if_splits)
qed simp

text \<open>
  Merging loses nothing it should keep and keeps nothing it should drop: what comes out are findings of
  the given runs that are not \<^verbatim>\<open>unused\<close> findings of a superseded run, sorted, no two with the same file, line, column,
  linter and message key; every such finding is represented by one with its key; and the counter says how
  many findings were dropped.
\<close>
theorem Collect_exact:
  assumes "read_runs (readSarifRun read decode) paths = Inr runs"
  shows "\<exists>ds. Collect_files read decode paths = Inr (ds, dropped_count runs)
    \<and> distinct (map dedup_key ds) \<and> sorted (map diag_key ds) \<and> set ds \<subseteq> set (live_diags runs)
    \<and> dedup_key ` set ds = dedup_key ` set (live_diags runs)"
proof -
  let ?ds = "first_of_key {} (live_diags runs)"
  have "mset (map dedup_key (sort_key diag_key ?ds)) = mset (map dedup_key ?ds)" by simp
  then have "distinct (map dedup_key (Sort ?ds))"
    unfolding Sort_key using first_of_key_props [of "{}" "live_diags runs"] mset_eq_imp_distinct_iff by blast
  moreover have "Collect_files read decode paths = Inr (Sort ?ds, dropped_count runs)"
    by (simp add: Collect_files_def assms merge_runs_state)
  ultimately show ?thesis using first_of_key_props [of "{}" "live_diags runs"] by (auto simp: Sort_key)
qed


definition demo_read :: "string \<Rightarrow> bytes result" where
  "demo_read p = Inr p"

definition demo_doc :: "bytes \<Rightarrow> sarifRun list result" where
  "demo_doc b = Inr [\<lparr>sr_Results = [\<lparr>sr_RuleID = ''unused'', sr_Level = ''error'', sr_Text = ''f is unused'', sr_Locations = [(''a.go'', 3, 1)]\<rparr>],
     pu_Package = ''p'', pu_Mode = ''full'', pu_GoFiles = (if b = ''lib'' then [''a.go''] else [''a.go'', ''a_test.go'']), pu_Compiles = Some True\<rparr>]"

definition demo_run :: "string list \<Rightarrow> collectRun" where
  "demo_run fs = \<lparr>cr_pkg = ''p'', cr_mode = ''full'', cr_goFiles = fs, cr_compiles = True,
     cr_diags = [\<lparr>Linter = ''unused'', Message = ''f is unused'', Severity = ''error'', Pos = \<lparr>Filename = ''a.go'', Line = 3, Column = 1\<rparr>,
       SourceLines = [], SuggestedFixes = [], Related = []\<rparr>]\<rparr>"

lemma demo_read_run:
  "readSarifRun demo_read demo_doc ''lib'' = Inr (demo_run [''a.go''])"
  "readSarifRun demo_read demo_doc ''test'' = Inr (demo_run [''a.go'', ''a_test.go''])"
proof -
  have "sort [''a.go'', ''a_test.go''] = [''a.go'', ''a_test.go'']" by code_simp
  then show "readSarifRun demo_read demo_doc ''lib'' = Inr (demo_run [''a.go''])"
    "readSarifRun demo_read demo_doc ''test'' = Inr (demo_run [''a.go'', ''a_test.go''])"
    by (simp_all add: readSarifRun_def demo_read_def demo_doc_def add_run_def result_diag_def demo_run_def Let_def)
qed

lemma demo_live:
  "live_diags [demo_run [''a.go''], demo_run [''a.go'', ''a_test.go'']] = cr_diags (demo_run [])"
  "dropped_count [demo_run [''a.go''], demo_run [''a.go'', ''a_test.go'']] = 1"
  by (simp_all add: live_diags_def dropped_count_def dropped_def sup_in_def demo_run_def)

theorem Collect_exact_witness:
  "\<exists>ds. Collect_files demo_read demo_doc [''lib'', ''test''] = Inr (ds, 1) \<and> dedup_key ` set ds = dedup_key ` set (cr_diags (demo_run []))"
  using Collect_exact [of demo_read demo_doc "[''lib'', ''test'']"] by (force simp: demo_read_run demo_live)

text \<open>The order of the input files matters only for the choice among findings with the same key.\<close>

lemma mset_concat_map: "mset (concat (map f xs)) = (\<Sum>x \<in># mset xs. mset (f x))"
  by (induction xs) simp_all

lemma sum_list_mset: "sum_list (map h xs) = (\<Sum>x \<in># mset xs. h x)" for h :: "'a \<Rightarrow> nat"
  by (induction xs) simp_all

lemma live_diags_perm:
  assumes "mset runs = mset runs'"
  shows "mset (live_diags runs) = mset (live_diags runs')" and "dropped_count runs = dropped_count runs'"
proof -
  have s: "set runs = set runs'" using assms by (rule mset_eq_setD)
  show "mset (live_diags runs) = mset (live_diags runs')" unfolding live_diags_def s mset_concat_map assms ..
  show "dropped_count runs = dropped_count runs'" unfolding dropped_count_def s sum_list_mset assms ..
qed

lemma first_of_key_unique:
  assumes "set ds = set es" and "\<forall>x \<in> set ds. \<forall>y \<in> set ds. dedup_key x = dedup_key y \<longrightarrow> x = y"
  shows "set (first_of_key {} ds) = set (first_of_key {} es)"
proof -
  have "x \<in> set (first_of_key {} zs)" if zs: "set zs = set ds" and x: "x \<in> set ds" for x zs
  proof -
    have "dedup_key x \<in> dedup_key ` set (first_of_key {} zs)" using first_of_key_props [of "{}" zs] zs x by auto
    then obtain y where y: "y \<in> set (first_of_key {} zs)" "dedup_key y = dedup_key x" by auto
    then have "y \<in> set ds" using first_of_key_props [of "{}" zs] zs by blast
    then show ?thesis using y x assms(2) by metis
  qed
  moreover have "set (first_of_key {} zs) \<subseteq> set zs" for zs using first_of_key_props [of "{}" zs] by blast
  ultimately show ?thesis using assms(1) by blast
qed

lemma key_separates: "distinct (map dedup_key ds) \<Longrightarrow> distinct (map diag_key ds)"
  by (induction ds) (auto simp: dedup_key_def diag_key_def image_iff)

text \<open>
  Merging does not depend on the order in which the files are named: for any two orders the same
  diagnostics come out, in the same order, with the same count, provided findings with the same key are equal.
\<close>
theorem Collect_order_independent:
  assumes "read_runs (readSarifRun read decode) paths = Inr runs" and "read_runs (readSarifRun read decode) paths' = Inr runs'"
    and "mset runs = mset runs'"
    and "\<forall>x \<in> set (live_diags runs). \<forall>y \<in> set (live_diags runs). dedup_key x = dedup_key y \<longrightarrow> x = y"
  shows "Collect_files read decode paths = Collect_files read decode paths'"
proof -
  note p = live_diags_perm [OF assms(3)]
  let ?f = "first_of_key {}"
  have d: "distinct (map diag_key (?f ds))" for ds by (rule key_separates) (use first_of_key_props in blast)
  have "set (?f (live_diags runs)) = set (?f (live_diags runs'))"
    by (rule first_of_key_unique [OF mset_eq_setD [OF p(1)] assms(4)])
  moreover have "distinct (?f ds)" for ds using d [of ds] by (simp add: distinct_map)
  ultimately have "mset (?f (live_diags runs)) = mset (?f (live_diags runs'))" by (simp add: set_eq_iff_mset_eq_distinct)
  then have "Sort (?f (live_diags runs)) = Sort (?f (live_diags runs'))" unfolding Sort_key by (rule sort_key_mset_eq) (rule d)
  then show ?thesis by (simp add: Collect_files_def assms(1,2) merge_runs_state p(2))
qed

theorem Collect_order_independent_witness:
  "Collect_files demo_read demo_doc [''lib'', ''test''] = Collect_files demo_read demo_doc [''test'', ''lib'']"
proof (rule Collect_order_independent)
  let ?a = "demo_run [''a.go'']" and ?b = "demo_run [''a.go'', ''a_test.go'']"
  show "read_runs (readSarifRun demo_read demo_doc) [''lib'', ''test''] = Inr [?a, ?b]"
    "read_runs (readSarifRun demo_read demo_doc) [''test'', ''lib''] = Inr [?b, ?a]" by (simp_all add: demo_read_run)
  show "mset [?a, ?b] = mset [?b, ?a]" by simp
  show "\<forall>x \<in> set (live_diags [?a, ?b]). \<forall>y \<in> set (live_diags [?a, ?b]). dedup_key x = dedup_key y \<longrightarrow> x = y"
    unfolding demo_live by (simp add: demo_run_def)
qed

text \<open>
  The superset test counts elements: it is the strict inclusion of the sets only when neither list repeats
  a file.  A run that names a file twice supersedes one that names it once.
\<close>
lemma strictSuperset_distinct: "distinct a \<Longrightarrow> distinct b \<Longrightarrow> strictSuperset a b \<longleftrightarrow> set b \<subset> set a"
proof -
  assume d: "distinct a" "distinct b"
  then have "length a = card (set a)" "length b = card (set b)" by (simp_all add: distinct_card)
  then show ?thesis using psubset_card_mono [of "set a" "set b"] by (fastforce simp: strictSuperset_def list_all_iff)
qed

lemma strictSuperset_repeats: "strictSuperset [''a.go'', ''a.go''] [''a.go'']"
  by (simp add: strictSuperset_def)

end
