(* ===== verification/EditDistance.thy ===== *)
theory EditDistance
  imports Prelude
begin

text \<open>
  The did-you-mean distance of \<^verbatim>\<open>src/internal/registry/validate.go\<close>: the two-row dynamic program
  \<^verbatim>\<open>levenshtein\<close>, and its correctness against the definition of edit distance as the least number
  of single-byte insertions, deletions and substitutions.  Distances are bounded by the lengths of
  the strings, so Go's \<^verbatim>\<open>int\<close> never wraps and the rows hold natural numbers.
\<close>

subsection \<open>The code\<close>

definition minInt :: "nat \<Rightarrow> nat \<Rightarrow> nat \<Rightarrow> nat" where
  "minInt a b c = (if a < b then (if a < c then a else c) else if b < c then b else c)"

text \<open>
  One pass of the inner loop: \<^term>\<open>left\<close> is \<^verbatim>\<open>cur[j-1]\<close>, the row argument starts at \<^verbatim>\<open>prev[j-1]\<close>,
  and the result is the rest of \<^verbatim>\<open>cur\<close> from index \<^verbatim>\<open>j\<close> on.
\<close>

fun lev_cells :: "char \<Rightarrow> string \<Rightarrow> nat list \<Rightarrow> nat \<Rightarrow> nat list" where
  "lev_cells a (b # bs) (p # q # ps) left =
     (let cost = (if a = b then 0 else 1);
          c = minInt (q + 1) (left + 1) (p + cost)
      in c # lev_cells a bs (q # ps) c)"
| "lev_cells a bs ps left = []"

fun lev_rows :: "string \<Rightarrow> nat \<Rightarrow> string \<Rightarrow> nat list \<Rightarrow> nat list" where
  "lev_rows [] i b prev = prev"
| "lev_rows (c # cs) i b prev = lev_rows cs (i + 1) b (i # lev_cells c b prev i)"

definition levenshtein :: "string \<Rightarrow> string \<Rightarrow> nat" where
  "levenshtein a b =
     (if a = b then 0
      else if a = [] then length b
      else if b = [] then length a
      else lev_rows a 1 b [0..<length b + 1] ! length b)"


subsection \<open>Edit distance\<close>

definition edit1 :: "string \<Rightarrow> string \<Rightarrow> bool" where
  "edit1 s t \<longleftrightarrow>
     (\<exists>u v c. s = u @ c # v \<and> t = u @ v) \<or>
     (\<exists>u v c. s = u @ v \<and> t = u @ c # v) \<or>
     (\<exists>u v c d. s = u @ c # v \<and> t = u @ d # v)"

definition edit_distance :: "string \<Rightarrow> string \<Rightarrow> nat" where
  "edit_distance s t = (LEAST n. (edit1 ^^ n) s t)"

text \<open>The recursive distance on the front of both strings, which links the two.\<close>

fun lev :: "string \<Rightarrow> string \<Rightarrow> nat" where
  "lev [] t = length t"
| "lev s [] = length s"
| "lev (a # s) (b # t) =
     min (lev s (b # t) + 1) (min (lev (a # s) t + 1) (lev s t + (if a = b then 0 else 1)))"

lemma lev_Nil2 [simp]: "lev s [] = length s"
  by (cases s) simp_all

lemma lev_self [simp]: "lev s s = 0"
  by (induction s) simp_all

lemma lev_push_left: "lev (a # s) t \<le> lev s t + 1"
  by (cases t) simp_all

lemma lev_push_right: "lev s (b # t) \<le> lev s t + 1"
  by (cases s) simp_all

lemma lev_pop_left: "lev s t \<le> lev (a # s) t + 1"
proof (induction t)
  case (Cons b t)
  have "lev s (b # t) \<le> lev s t + 1" by (rule lev_push_right)
  then show ?case using Cons by simp
qed simp

lemma lev_swap: "lev (a # s) t \<le> lev (b # s) t + 1"
  by (induction t) auto

lemma lev_Cons_cong:
  assumes "\<And>t. lev s t \<le> lev s' t + 1"
  shows "lev (a # s) t \<le> lev (a # s') t + 1"
proof (induction t)
  case Nil
  show ?case using assms [of "[]"] by simp
next
  case (Cons b t)
  then show ?case using assms [of t] assms [of "b # t"] by (auto simp: min_def)
qed

lemma lev_append_cong:
  "(\<And>t. lev s t \<le> lev s' t + 1) \<Longrightarrow> lev (u @ s) t \<le> lev (u @ s') t + 1"
proof (induction u arbitrary: t)
  case (Cons a u)
  show ?case using lev_Cons_cong [of "u @ s" "u @ s'" a t] Cons by simp
qed simp

lemma lev_edit1: "edit1 s s' \<Longrightarrow> lev s t \<le> lev s' t + 1"
  by (auto simp only: edit1_def intro!: lev_append_cong lev_push_left lev_pop_left lev_swap)

lemma lev_lower: "(edit1 ^^ n) s t \<Longrightarrow> lev s t \<le> n"
proof (induction n arbitrary: s)
  case (Suc n)
  then obtain r where r: "edit1 s r" "(edit1 ^^ n) r t" using relpowp_Suc_D2 [of n edit1 s t] by blast
  show ?case using lev_edit1 [OF r(1), of t] Suc.IH [OF r(2)] by simp
qed simp

lemma edit1_Cons: "edit1 s t \<Longrightarrow> edit1 (a # s) (a # t)"
  unfolding edit1_def by (metis append_Cons)

lemma relpow_edit1_map:
  assumes "\<And>s t. edit1 s t \<Longrightarrow> edit1 (f s) (f t)"
  shows "(edit1 ^^ n) s t \<Longrightarrow> (edit1 ^^ n) (f s) (f t)"
proof (induction n arbitrary: s)
  case (Suc n)
  then obtain r where r: "edit1 s r" "(edit1 ^^ n) r t" using relpowp_Suc_D2 [of n edit1 s t] by blast
  show ?case by (rule relpowp_Suc_I2 [OF assms [OF r(1)] Suc.IH [OF r(2)]])
qed simp

lemma edit1_head: "edit1 (a # s) s" "edit1 s (a # s)" "edit1 (a # s) (b # s)"
  unfolding edit1_def by (metis append_Nil)+

lemma min3_cases:
  obtains "min x (min y z) = x" | "min x (min y z) = y" | "min x (min y z) = (z::nat)"
  by (metis min_def)

lemma edits_insert: "(edit1 ^^ length t) [] t"
proof (induction t)
  case (Cons b t)
  then show ?case using relpowp_Suc_I [OF Cons.IH edit1_head(2)] by simp
qed simp

lemma edits_delete: "(edit1 ^^ length s) s []"
proof (induction s)
  case (Cons a s)
  then show ?case using relpowp_Suc_I2 [OF edit1_head(1) Cons.IH] by simp
qed simp

lemma lev_reached: "(edit1 ^^ lev s t) s t"
proof (induction s t rule: lev.induct)
  case (1 t)
  show ?case using edits_insert [of t] by simp
next
  case (2 a s)
  show ?case using edits_delete [of "a # s"] by (simp only: lev.simps)
next
  case (3 a s b t)
  show ?case
  proof (cases rule: min3_cases [of "lev s (b # t) + 1" "lev (a # s) t + 1" "lev s t + (if a = b then 0 else 1)"])
    case 1
    then show ?thesis using relpowp_Suc_I2 [OF edit1_head(1) "3.IH"(1)] by simp
  next
    case 2
    then show ?thesis using relpowp_Suc_I [OF "3.IH"(2) edit1_head(2)] by simp
  next
    case 3
    have s: "(edit1 ^^ lev s t) (b # s) (b # t)" by (rule relpow_edit1_map [OF edit1_Cons "3.IH"(3)])
    show ?thesis
    proof (cases "a = b")
      case True
      then show ?thesis using 3 s by simp
    next
      case False
      then show ?thesis using 3 relpowp_Suc_I2 [OF edit1_head(3) s] by simp
    qed
  qed
qed

lemma edit_distance_lev: "edit_distance s t = lev s t"
  unfolding edit_distance_def by (rule Least_equality) (simp_all add: lev_reached lev_lower)

lemma edit1_rev: "edit1 s t \<Longrightarrow> edit1 (rev s) (rev t)"
  unfolding edit1_def by (elim disjE exE) (simp, metis append.assoc append_Cons append_Nil)+

lemma edit_distance_rev: "edit_distance (rev s) (rev t) = edit_distance s t"
proof -
  have "(edit1 ^^ n) (rev s) (rev t) = (edit1 ^^ n) s t" for n
    using relpow_edit1_map [of rev n s t, OF edit1_rev] relpow_edit1_map [of rev n "rev s" "rev t", OF edit1_rev]
    by auto
  then show ?thesis by (simp add: edit_distance_def)
qed


subsection \<open>The dynamic program\<close>

text \<open>Row \<^verbatim>\<open>i\<close> of the program, for the first \<^verbatim>\<open>i\<close> bytes of \<^verbatim>\<open>a\<close> read backwards.\<close>

definition lev_row :: "string \<Rightarrow> string \<Rightarrow> string \<Rightarrow> nat list" where
  "lev_row x y b = map (\<lambda>j. lev x (rev (take j b) @ y)) [0..<length b + 1]"

lemma lev_row_Cons: "lev_row x y (c # b) = lev x y # lev_row x (c # y) b"
proof -
  have "[0..<length (c # b) + 1] = 0 # map Suc [0..<length b + 1]"
    by (simp add: map_Suc_upt upt_conv_Cons del: upt_Suc)
  then show ?thesis by (simp add: lev_row_def comp_def del: upt_Suc)
qed

lemma lev_row_Nil [simp]: "lev_row x y [] = [lev x y]"
  by (simp add: lev_row_def)

lemma minInt_min: "minInt a b c = min a (min b c)"
  by (auto simp: minInt_def min_def)

lemma lev_cells_row:
  "lev (a # x) y # lev_cells a b (lev_row x y b) (lev (a # x) y) = lev_row (a # x) y b"
proof (induction b arbitrary: y)
  case (Cons c b)
  obtain ps where ps: "lev_row x (c # y) b = lev x (c # y) # ps"
    by (cases b) (auto simp: lev_row_Cons)
  show ?case using Cons.IH [of "c # y"] by (simp add: lev_row_Cons ps minInt_min Let_def)
qed simp

lemma lev_rows_correct:
  "i = length x + 1 \<Longrightarrow> lev_rows a i b (lev_row x [] b) = lev_row (rev a @ x) [] b"
proof (induction a arbitrary: i x)
  case (Cons c a)
  have "i # lev_cells c b (lev_row x [] b) i = lev_row (c # x) [] b"
    using lev_cells_row [of c x "[]" b] Cons.prems by simp
  then show ?case using Cons.IH [of "i + 1" "c # x"] Cons.prems by simp
qed simp

lemma lev_row_first: "[0..<length b + 1] = lev_row [] [] b"
  by (rule nth_equalityI) (simp_all add: lev_row_def nth_append min_def del: upt_Suc)

lemma lev_rows_last: "lev_rows a 1 b [0..<length b + 1] ! length b = lev (rev a) (rev b)"
proof -
  have "lev_rows a 1 b [0..<length b + 1] = lev_row (rev a) [] b"
    using lev_rows_correct [of 1 "[]" a b] lev_row_first [of b] by simp
  then show ?thesis by (simp add: lev_row_def del: upt_Suc)
qed

lemma levenshtein_lev: "levenshtein a b = edit_distance a b"
proof -
  have "levenshtein a b = lev (rev a) (rev b)"
    using lev_rows_last [of a b] by (simp add: levenshtein_def del: upt_Suc One_nat_def)
  then show ?thesis by (simp add: edit_distance_lev [symmetric] edit_distance_rev)
qed

text \<open>
  The two-row dynamic program of \<^verbatim>\<open>levenshtein\<close> computes the edit distance: the number it
  returns is enough single-byte insertions, deletions and substitutions to turn the first string
  into the second, and no smaller number is.
\<close>

theorem levenshtein_exact:
  "(edit1 ^^ levenshtein a b) a b \<and> levenshtein a b = (LEAST n. (edit1 ^^ n) a b)"
proof -
  have "levenshtein a b = lev a b" by (simp add: levenshtein_lev edit_distance_lev)
  then show ?thesis
    using lev_reached [of a b] levenshtein_lev [of a b] by (simp add: edit_distance_def)
qed

end
