(* ===== verification/Registry.thy ===== *)
theory Registry
  imports EditDistance GoLib "HOL-Library.AList" "HOL-Library.Product_Lexorder"
begin

text \<open>
  The linter registry, \<^verbatim>\<open>src/internal/registry\<close>: the static catalog (\<^verbatim>\<open>catalog.go\<close>, \<^verbatim>\<open>seed.go\<close>),
  the check of a configuration against it with did-you-mean suggestions (\<^verbatim>\<open>validate.go\<close>), the
  resolution of a configuration into analysis rows (\<^verbatim>\<open>build.go\<close>, \<^verbatim>\<open>propagate.go\<close>) and the
  selection of named analyzers (\<^verbatim>\<open>select.go\<close>).

  The functions that turn a settings block into analyzers come from third-party linters; they are
  the list \<^term>\<open>wires\<close> of the wired names with their functions, as \<^verbatim>\<open>wireAnalyzerFns\<close> installs
  them.  An analyzer is any value; where its name matters the name function is an argument.  Linter
  names are compared case-insensitively by ASCII folding.  Errors and warnings are values that
  carry the arguments of the message the code formats.
\<close>

subsection \<open>Types\<close>

datatype Shape = ShapeNative | ShapeNativeFamily | ShapeRegistryOnly | ShapeSubprocess | ShapeFormatter

datatype Status = StatusEnabled | StatusDisabled | StatusDeferredPhase3 | StatusNoAnalyzerWired

text \<open>
  \<^verbatim>\<open>perLinterSettings\<close> returns a pointer to a block of the settings struct, named here by its field,
  the value of a custom plugin, or nil.
\<close>

datatype 'c Settings = SettingsField string | CustomSettings 'c | NoSettings

record seedRow =
  sr_name :: string
  sr_aliases :: "string list"
  sr_shape :: Shape
  sr_standard :: bool
  sr_fast :: bool
  sr_deprecated :: string
  sr_hasGoVersion :: bool
  sr_subprocessWired :: bool

text \<open>The parts of the configuration the registry reads and writes.\<close>

record 'c RegConfig =
  rc_default :: string
  rc_enable :: "string list"
  rc_disable :: "string list"
  rc_custom :: "(string \<times> 'c) list"
  rc_checks :: "string list"
  rc_runGo :: string
  rc_govetGo :: string
  rc_reviveGo :: string
  rc_gocriticGo :: string
  rc_paralleltestGo :: string
  rc_fmtEnable :: "string list"
  rc_gofumptLang :: string

type_synonym ('c, 'a) AnalyzerFn = "'c RegConfig \<Rightarrow> 'c Settings \<Rightarrow> 'a list"

record ('c, 'a) Entry =
  e_Name :: string
  e_Aliases :: "string list"
  e_Shape :: Shape
  e_InGroup :: "(string \<times> bool) list"
  e_Deprecated :: string
  e_HasGoVersion :: bool
  e_AnalyzerFn :: "('c, 'a) AnalyzerFn option"
  e_SubprocessWired :: bool

record ('c, 'a) Resolved =
  r_Name :: string
  r_Shape :: Shape
  r_Status :: Status
  r_Analyzer :: "'a option"
  r_Settings :: "'c Settings"
  r_Reason :: string

datatype Warning =
    ChecksConsolidated
  | AliasUsed nat string string
  | DeprecatedLinter string string


subsection \<open>Catalog\<close>

text \<open>
  \<^verbatim>\<open>all\<close> holds the same entry pointers as \<^verbatim>\<open>byName\<close>; an entry is identified by its name, so
  \<^term>\<open>c_all\<close> is the list of names in insertion order.  A panic is None.
\<close>

record ('c, 'a) catalog =
  c_byName :: "(string \<times> ('c, 'a) Entry) list"
  c_byAlias :: "(string \<times> string) list"
  c_all :: "string list"

definition newCatalog :: "('c, 'a) catalog" where
  "newCatalog = \<lparr>c_byName = [], c_byAlias = [], c_all = []\<rparr>"

definition cat_addAlias :: "string \<Rightarrow> string \<Rightarrow> ('c, 'a) catalog \<Rightarrow> ('c, 'a) catalog option" where
  "cat_addAlias name a c =
     (if map_of (c_byAlias c) a \<noteq> None then None
      else Some (c\<lparr>c_byAlias := AList.update a name (c_byAlias c)\<rparr>))"

definition cat_add :: "('c, 'a) Entry \<Rightarrow> ('c, 'a) catalog \<Rightarrow> ('c, 'a) catalog option" where
  "cat_add e c =
     (if map_of (c_byName c) (e_Name e) \<noteq> None then None
      else ofold (cat_addAlias (e_Name e)) (e_Aliases e)
             (c\<lparr>c_byName := AList.update (e_Name e) e (c_byName c), c_all := c_all c @ [e_Name e]\<rparr>))"

definition cat_resolve :: "('c, 'a) catalog \<Rightarrow> string \<Rightarrow> ('c, 'a) Entry option" where
  "cat_resolve c name =
     (let n = ToLower name
      in case map_of (c_byName c) n of
           Some e \<Rightarrow> Some e
         | None \<Rightarrow> (case map_of (c_byAlias c) n of
                       Some canon \<Rightarrow> map_of (c_byName c) canon
                     | None \<Rightarrow> None))"

definition cat_names :: "('c, 'a) catalog \<Rightarrow> string list" where
  "cat_names c = sort (map fst (c_byName c) @ map fst (c_byAlias c))"

definition cat_entries :: "('c, 'a) catalog \<Rightarrow> ('c, 'a) Entry list" where
  "cat_entries c = sort_key e_Name (List.map_filter (map_of (c_byName c)) (c_all c))"

definition seed_entry :: "seedRow \<Rightarrow> ('c, 'a) Entry" where
  "seed_entry r =
     (let groups = [(''none'', False), (''standard'', sr_standard r), (''fast'', sr_fast r), (''all'', True)];
          groups = (if sr_deprecated r \<noteq> '''' then AList.update ''all'' False groups else groups)
      in \<lparr>e_Name = sr_name r, e_Aliases = sr_aliases r, e_Shape = sr_shape r, e_InGroup = groups,
          e_Deprecated = sr_deprecated r, e_HasGoVersion = sr_hasGoVersion r, e_AnalyzerFn = None,
          e_SubprocessWired = sr_subprocessWired r\<rparr>)"

definition wireFn ::
  "string \<times> ('c, 'a) AnalyzerFn \<Rightarrow> ('c, 'a) catalog \<Rightarrow> ('c, 'a) catalog option" where
  "wireFn w c =
     (case cat_resolve c (fst w) of
        None \<Rightarrow> None
      | Some e \<Rightarrow>
          if e_Shape e \<noteq> ShapeNative \<and> e_Shape e \<noteq> ShapeNativeFamily then None
          else Some (c\<lparr>c_byName := AList.update (e_Name e) (e\<lparr>e_AnalyzerFn := Some (snd w)\<rparr>) (c_byName c)\<rparr>))"

definition cat_seed ::
  "seedRow list \<Rightarrow> (string \<times> ('c, 'a) AnalyzerFn) list \<Rightarrow> ('c, 'a) catalog \<Rightarrow> ('c, 'a) catalog option" where
  "cat_seed rows wires c = Option.bind (ofold cat_add (map seed_entry rows) c) (ofold wireFn wires)"

definition row :: "string \<Rightarrow> Shape \<Rightarrow> seedRow" where
  "row n s = \<lparr>sr_name = n, sr_aliases = [], sr_shape = s, sr_standard = False, sr_fast = False,
              sr_deprecated = '''', sr_hasGoVersion = False, sr_subprocessWired = False\<rparr>"

definition seedRows :: "seedRow list" where
  "seedRows = [
    row ''asasalint'' ShapeNative, row ''asciicheck'' ShapeNative, (row ''bidichk'' ShapeNative)\<lparr>sr_fast := True\<rparr>,
    row ''bodyclose'' ShapeNative, row ''canonicalheader'' ShapeNative, row ''containedctx'' ShapeNative, row ''contextcheck'' ShapeNative,
    row ''copyloopvar'' ShapeNative, row ''cyclop'' ShapeNative, (row ''decorder'' ShapeNative)\<lparr>sr_fast := True\<rparr>,
    row ''depguard'' ShapeNative, (row ''dogsled'' ShapeNative)\<lparr>sr_fast := True\<rparr>, row ''dupl'' ShapeNative,
    (row ''dupword'' ShapeNative)\<lparr>sr_fast := True\<rparr>, row ''durationcheck'' ShapeNative, row ''embeddedstructfieldcheck'' ShapeNative,
    (row ''errcheck'' ShapeNative)\<lparr>sr_standard := True\<rparr>, row ''errchkjson'' ShapeNative, row ''errname'' ShapeNative,
    row ''errorlint'' ShapeNative, row ''exhaustive'' ShapeNative, row ''exhaustruct'' ShapeNative, row ''exptostd'' ShapeNative,
    row ''fatcontext'' ShapeNative, row ''forbidigo'' ShapeNative, row ''forcetypeassert'' ShapeNative, row ''funcorder'' ShapeNative,
    (row ''funlen'' ShapeNative)\<lparr>sr_fast := True\<rparr>, row ''ginkgolinter'' ShapeNative,
    (row ''gocheckcompilerdirectives'' ShapeNative)\<lparr>sr_fast := True\<rparr>, row ''gochecknoglobals'' ShapeNative,
    row ''gochecknoinits'' ShapeNative, row ''gochecksumtype'' ShapeNative, row ''gocognit'' ShapeNative,
    (row ''goconst'' ShapeNative)\<lparr>sr_fast := True\<rparr>, (row ''gocritic'' ShapeNative)\<lparr>sr_hasGoVersion := True\<rparr>,
    (row ''gocyclo'' ShapeNative)\<lparr>sr_fast := True\<rparr>, row ''godoclint'' ShapeNative,
    (row ''godot'' ShapeNative)\<lparr>sr_fast := True\<rparr>, (row ''godox'' ShapeNative)\<lparr>sr_fast := True\<rparr>,
    (row ''goheader'' ShapeNative)\<lparr>sr_fast := True\<rparr>, (row ''gomoddirectives'' ShapeNative)\<lparr>sr_fast := True\<rparr>,
    (row ''gomodguard'' ShapeNative)\<lparr>sr_fast := True\<rparr>, (row ''goprintffuncname'' ShapeNative)\<lparr>sr_fast := True\<rparr>,
    row ''gosec'' ShapeNative, row ''gosmopolitan'' ShapeNative,
    (row ''govet'' ShapeNativeFamily)\<lparr>sr_standard := True, sr_hasGoVersion := True\<rparr>,
    (row ''grouper'' ShapeNative)\<lparr>sr_fast := True\<rparr>, row ''iface'' ShapeNativeFamily, row ''importas'' ShapeNative,
    row ''inamedparam'' ShapeNative, (row ''ineffassign'' ShapeNative)\<lparr>sr_standard := True\<rparr>, row ''interfacebloat'' ShapeNative,
    row ''intrange'' ShapeNative, (row ''iotamixing'' ShapeRegistryOnly)\<lparr>sr_fast := True\<rparr>, row ''ireturn'' ShapeNative,
    (row ''lll'' ShapeNative)\<lparr>sr_fast := True\<rparr>, row ''loggercheck'' ShapeNative,
    (row ''maintidx'' ShapeNative)\<lparr>sr_fast := True\<rparr>, row ''makezero'' ShapeNative, row ''mirror'' ShapeNative,
    (row ''misspell'' ShapeNative)\<lparr>sr_fast := True\<rparr>,
    (row ''mnd'' ShapeRegistryOnly)\<lparr>sr_fast := True, sr_deprecated := ''mnd is deprecated; use the upstream replacement''\<rparr>,
    row ''modernize'' ShapeNativeFamily, row ''musttag'' ShapeNative, (row ''nakedret'' ShapeNative)\<lparr>sr_fast := True\<rparr>,
    (row ''nestif'' ShapeNative)\<lparr>sr_fast := True\<rparr>, row ''nilerr'' ShapeNative, row ''nilnesserr'' ShapeNative,
    row ''nilnil'' ShapeNative, (row ''nlreturn'' ShapeNative)\<lparr>sr_fast := True\<rparr>, row ''noctx'' ShapeNative,
    row ''noinlineerr'' ShapeNative, row ''nolintlint'' ShapeNative, (row ''nonamedreturns'' ShapeNative)\<lparr>sr_fast := True\<rparr>,
    row ''nosprintfhostport'' ShapeNative, (row ''paralleltest'' ShapeNative)\<lparr>sr_hasGoVersion := True\<rparr>, row ''perfsprint'' ShapeNative,
    row ''prealloc'' ShapeNative, (row ''predeclared'' ShapeNative)\<lparr>sr_fast := True\<rparr>,
    (row ''promlinter'' ShapeNative)\<lparr>sr_fast := True\<rparr>, row ''protogetter'' ShapeNative,
    (row ''queryscope'' ShapeNative)\<lparr>sr_fast := True\<rparr>, row ''reassign'' ShapeNative, row ''recvcheck'' ShapeNative,
    (row ''revive'' ShapeNative)\<lparr>sr_hasGoVersion := True\<rparr>, row ''rowserrcheck'' ShapeNative, row ''sloglint'' ShapeNative,
    row ''spancheck'' ShapeNative, row ''sqlclosecheck'' ShapeNative,
    (row ''staticcheck'' ShapeNativeFamily)\<lparr>sr_standard := True, sr_aliases := [''gosimple'', ''stylecheck'']\<rparr>,
    (row ''tagalign'' ShapeNative)\<lparr>sr_fast := True\<rparr>, row ''tagliatelle'' ShapeNative, row ''testableexamples'' ShapeNative,
    row ''testifylint'' ShapeNative, row ''testpackage'' ShapeNative, row ''thelper'' ShapeNative, row ''tparallel'' ShapeNative,
    row ''tracecheck'' ShapeNative, (row ''typecheck'' ShapeNative)\<lparr>sr_standard := True, sr_fast := True\<rparr>,
    row ''unconvert'' ShapeNative, row ''unparam'' ShapeNative, row ''unqueryvet'' ShapeNative,
    (row ''unused'' ShapeNative)\<lparr>sr_standard := True\<rparr>, (row ''usestdlibvars'' ShapeNative)\<lparr>sr_fast := True\<rparr>,
    row ''usetesting'' ShapeNative, row ''varnamelen'' ShapeNative, row ''wastedassign'' ShapeNative,
    (row ''whitespace'' ShapeNative)\<lparr>sr_fast := True\<rparr>, row ''wrapcheck'' ShapeNative,
    (row ''wsl'' ShapeRegistryOnly)\<lparr>sr_fast := True, sr_deprecated := ''wsl is deprecated; use wsl_v5''\<rparr>,
    (row ''wsl_v5'' ShapeNative)\<lparr>sr_fast := True\<rparr>, row ''zerologlint'' ShapeNative, row ''gci'' ShapeFormatter,
    row ''gofmt'' ShapeFormatter, (row ''gofumpt'' ShapeFormatter)\<lparr>sr_hasGoVersion := True\<rparr>, row ''goimports'' ShapeFormatter,
    row ''golines'' ShapeFormatter, row ''swaggo'' ShapeFormatter
  ]"


subsection \<open>Validation\<close>

text \<open>An unknown name carries the list it is in, its index, and the suggestion (empty: none).\<close>

datatype RegError = BadDefault string | UnknownLinter string nat string string

definition closer :: "string \<Rightarrow> string \<Rightarrow> string \<times> nat \<Rightarrow> string \<times> nat" where
  "closer want n best =
     (let d = levenshtein want n
      in if d < snd best \<or> (d = snd best \<and> n < fst best) then (n, d) else best)"

definition suggestion :: "('c, 'a) catalog \<Rightarrow> string \<Rightarrow> string" where
  "suggestion cat want =
     (let best = fold (closer want) (cat_names cat) ('''', 3 + 1)
      in if snd best > 3 then '''' else fst best)"

definition unknown_names :: "('c, 'a) catalog \<Rightarrow> string \<Rightarrow> string list \<Rightarrow> RegError list" where
  "unknown_names cat field ns =
     map (\<lambda>(i, n). UnknownLinter field i n (suggestion cat n))
       (filter (\<lambda>(i, n). cat_resolve cat n = None) (enumerate 0 ns))"

definition validateAgainstCatalog :: "'c RegConfig \<Rightarrow> ('c, 'a) catalog \<Rightarrow> RegError list" where
  "validateAgainstCatalog cfg cat =
     (if rc_default cfg \<in> {'''', ''none'', ''standard'', ''fast'', ''all''} then [] else [BadDefault (rc_default cfg)])
     @ unknown_names cat ''linters.enable'' (rc_enable cfg)
     @ unknown_names cat ''linters.disable'' (rc_disable cfg)"


subsection \<open>Settings\<close>

fun dedupe_loop :: "string list \<Rightarrow> string list \<Rightarrow> string list" where
  "dedupe_loop seen [] = []"
| "dedupe_loop seen (v # vs) = (if v \<in> set seen then dedupe_loop seen vs else v # dedupe_loop (v # seen) vs)"

definition dedupePreserveOrder :: "string list \<Rightarrow> string list" where
  "dedupePreserveOrder s = (if length s \<le> 1 then s else dedupe_loop [] s)"

definition consolidateStaticcheckChecks :: "'c RegConfig \<Rightarrow> 'c RegConfig \<times> Warning list" where
  "consolidateStaticcheckChecks cfg =
     (let checks = rc_checks cfg; deduped = dedupePreserveOrder checks
      in if checks = [] \<or> length deduped = length checks then (cfg, [])
         else (cfg\<lparr>rc_checks := deduped\<rparr>, [ChecksConsolidated]))"

definition fill_empty :: "bool \<Rightarrow> string \<Rightarrow> string \<Rightarrow> string" where
  "fill_empty on v cur = (if on \<and> cur = [] then v else cur)"

definition propagateGoVersion :: "'c RegConfig \<Rightarrow> (string \<times> ('c, 'a) Entry) list \<Rightarrow> 'c RegConfig" where
  "propagateGoVersion cfg active =
     (let v = rc_runGo cfg; on = (\<lambda>n. map_of active n \<noteq> None)
      in if v = [] then cfg
         else cfg\<lparr>rc_govetGo := fill_empty (on ''govet'') v (rc_govetGo cfg),
                  rc_reviveGo := fill_empty (on ''revive'') v (rc_reviveGo cfg),
                  rc_gocriticGo := fill_empty (on ''gocritic'') v (rc_gocriticGo cfg),
                  rc_paralleltestGo := fill_empty (on ''paralleltest'') v (rc_paralleltestGo cfg),
                  rc_gofumptLang := fill_empty (''gofumpt'' \<in> set (rc_fmtEnable cfg)) v (rc_gofumptLang cfg)\<rparr>)"

definition settings_fields :: "(string \<times> string) list" where
  "settings_fields = [
    (''asasalint'', ''Asasalint''), (''bidichk'', ''BiDiChk''), (''copyloopvar'', ''CopyLoopVar''),
    (''cyclop'', ''Cyclop''), (''decorder'', ''Decorder''), (''depguard'', ''Depguard''),
    (''dogsled'', ''Dogsled''), (''dupl'', ''Dupl''), (''dupword'', ''DupWord''),
    (''embeddedstructfieldcheck'', ''EmbeddedStructFieldCheck''), (''errcheck'', ''Errcheck''),
    (''errchkjson'', ''ErrChkJSON''), (''errorlint'', ''ErrorLint''), (''exhaustive'', ''Exhaustive''),
    (''exhaustruct'', ''Exhaustruct''), (''fatcontext'', ''Fatcontext''), (''forbidigo'', ''Forbidigo''),
    (''funcorder'', ''FuncOrder''), (''funlen'', ''Funlen''), (''ginkgolinter'', ''GinkgoLinter''),
    (''gochecksumtype'', ''GoChecksumType''), (''gocognit'', ''Gocognit''), (''goconst'', ''Goconst''),
    (''gocritic'', ''Gocritic''), (''gocyclo'', ''Gocyclo''), (''godoclint'', ''Godoclint''),
    (''godot'', ''Godot''), (''godox'', ''Godox''), (''goheader'', ''Goheader''),
    (''gomoddirectives'', ''GoModDirectives''), (''gomodguard'', ''Gomodguard''), (''gosec'', ''Gosec''),
    (''gosmopolitan'', ''Gosmopolitan''), (''govet'', ''Govet''), (''grouper'', ''Grouper''),
    (''iface'', ''Iface''), (''importas'', ''ImportAs''), (''inamedparam'', ''Inamedparam''),
    (''ineffassign'', ''Ineffassign''), (''interfacebloat'', ''InterfaceBloat''),
    (''iotamixing'', ''IotaMixing''), (''ireturn'', ''Ireturn''), (''lll'', ''Lll''),
    (''loggercheck'', ''LoggerCheck''), (''maintidx'', ''MaintIdx''), (''makezero'', ''Makezero''),
    (''misspell'', ''Misspell''), (''mnd'', ''Mnd''), (''modernize'', ''Modernize''),
    (''musttag'', ''MustTag''), (''nakedret'', ''Nakedret''), (''nestif'', ''Nestif''),
    (''nilnil'', ''NilNil''), (''nlreturn'', ''Nlreturn''), (''nolintlint'', ''NoLintLint''),
    (''nonamedreturns'', ''NoNamedReturns''), (''paralleltest'', ''ParallelTest''),
    (''perfsprint'', ''PerfSprint''), (''prealloc'', ''Prealloc''), (''predeclared'', ''Predeclared''),
    (''promlinter'', ''Promlinter''), (''protogetter'', ''ProtoGetter''), (''queryscope'', ''QueryScope''),
    (''reassign'', ''Reassign''), (''recvcheck'', ''Recvcheck''), (''revive'', ''Revive''),
    (''rowserrcheck'', ''RowsErrCheck''), (''sloglint'', ''SlogLint''), (''spancheck'', ''Spancheck''),
    (''staticcheck'', ''Staticcheck''), (''tagalign'', ''TagAlign''), (''tagliatelle'', ''Tagliatelle''),
    (''testifylint'', ''Testifylint''), (''testpackage'', ''Testpackage''), (''thelper'', ''Thelper''),
    (''unconvert'', ''Unconvert''), (''unparam'', ''Unparam''), (''unqueryvet'', ''Unqueryvet''),
    (''unused'', ''Unused''), (''usestdlibvars'', ''UseStdlibVars''), (''usetesting'', ''UseTesting''),
    (''varnamelen'', ''Varnamelen''), (''whitespace'', ''Whitespace''), (''wrapcheck'', ''Wrapcheck''),
    (''wsl'', ''WSL''), (''wsl_v5'', ''WSLv5'')
  ]"

definition perLinterSettings :: "'c RegConfig \<Rightarrow> string \<Rightarrow> 'c Settings" where
  "perLinterSettings cfg name =
     (case map_of settings_fields name of
        Some f \<Rightarrow> SettingsField f
      | None \<Rightarrow> (case map_of (rc_custom cfg) name of
                    Some v \<Rightarrow> CustomSettings v
                  | None \<Rightarrow> NoSettings))"


subsection \<open>Resolution\<close>

definition defaultGroup :: "'c RegConfig \<Rightarrow> string" where
  "defaultGroup cfg =
     (if rc_default cfg \<in> {''none'', ''standard'', ''fast'', ''all''} then rc_default cfg else ''standard'')"

definition in_group :: "string \<Rightarrow> ('c, 'a) Entry \<Rightarrow> bool" where
  "in_group g e = (map_of (e_InGroup e) g = Some True)"

type_synonym ('c, 'a) active = "(string \<times> ('c, 'a) Entry) list"

definition seed_one :: "string \<Rightarrow> ('c, 'a) Entry \<Rightarrow> ('c, 'a) active \<Rightarrow> ('c, 'a) active" where
  "seed_one g e act =
     (if e_Shape e = ShapeFormatter then act
      else if in_group g e then AList.update (e_Name e) e act else act)"

definition enable_one ::
  "('c, 'a) catalog \<Rightarrow> nat \<times> string \<Rightarrow> ('c, 'a) active \<times> Warning list \<Rightarrow> ('c, 'a) active \<times> Warning list" where
  "enable_one cat = (\<lambda>(i, n) (act, ws).
     case cat_resolve cat n of
       None \<Rightarrow> (act, ws)
     | Some e \<Rightarrow>
         if e_Shape e = ShapeFormatter then (act, ws)
         else (AList.update (e_Name e) e act,
               if EqualFold (e_Name e) n then ws else ws @ [AliasUsed i n (e_Name e)]))"

definition disable_one :: "('c, 'a) catalog \<Rightarrow> string \<Rightarrow> ('c, 'a) active \<Rightarrow> ('c, 'a) active" where
  "disable_one cat n act =
     (case cat_resolve cat n of None \<Rightarrow> act | Some e \<Rightarrow> AList.delete (e_Name e) act)"

definition custom_entry :: "string \<Rightarrow> ('c, 'a) Entry" where
  "custom_entry name =
     \<lparr>e_Name = name, e_Aliases = [], e_Shape = ShapeRegistryOnly, e_InGroup = [], e_Deprecated = '''',
      e_HasGoVersion = False, e_AnalyzerFn = None, e_SubprocessWired = False\<rparr>"

definition custom_one :: "string \<times> 'c \<Rightarrow> ('c, 'a) active \<Rightarrow> ('c, 'a) active" where
  "custom_one p act = AList.update (fst p) (custom_entry (fst p)) act"

definition resolveActiveSet :: "'c RegConfig \<Rightarrow> ('c, 'a) catalog \<Rightarrow> ('c, 'a) active \<times> Warning list" where
  "resolveActiveSet cfg cat =
     (let act0 = fold (seed_one (defaultGroup cfg)) (cat_entries cat) [];
          (act1, ws) = fold (enable_one cat) (enumerate 0 (rc_enable cfg)) (act0, []);
          act2 = fold (disable_one cat) (rc_disable cfg) act1;
          act3 = fold custom_one (rc_custom cfg) act2
      in (act3, ws))"

definition sortedNames :: "('c, 'a) active \<Rightarrow> string list" where
  "sortedNames m = sort (map fst m)"

definition resolved_row :: "('c, 'a) Entry \<Rightarrow> 'c Settings \<Rightarrow> Status \<Rightarrow> string \<Rightarrow> 'a option \<Rightarrow> ('c, 'a) Resolved" where
  "resolved_row e s st reason a =
     \<lparr>r_Name = e_Name e, r_Shape = e_Shape e, r_Status = st, r_Analyzer = a, r_Settings = s, r_Reason = reason\<rparr>"

definition resolved_rows :: "'c RegConfig \<Rightarrow> ('c, 'a) Entry \<Rightarrow> ('c, 'a) Resolved list" where
  "resolved_rows cfg e =
     (let s = perLinterSettings cfg (e_Name e)
      in case e_Shape e of
           ShapeSubprocess \<Rightarrow>
             (if e_SubprocessWired e then [resolved_row e s StatusEnabled '''' None]
              else [resolved_row e s StatusDeferredPhase3 ''deferred to Phase 3 (subprocess wrapper)'' None])
         | ShapeFormatter \<Rightarrow>
             [resolved_row e s StatusDisabled
                ''formatters belong under formatters.enable; this linter row is informational'' None]
         | ShapeRegistryOnly \<Rightarrow>
             [resolved_row e s StatusNoAnalyzerWired
                ''no *analysis.Analyzer wired in plaid-lint yet; add the module dep + AnalyzerFn'' None]
         | _ \<Rightarrow>
             (case e_AnalyzerFn e of
                None \<Rightarrow> [resolved_row e s StatusEnabled '''' None]
              | Some fn \<Rightarrow>
                  (let analyzers = fn cfg s
                   in if analyzers = [] then
                        [resolved_row e s StatusDisabled ''every family member disabled by user config'' None]
                      else map (\<lambda>a. resolved_row e s StatusEnabled '''' (Some a)) analyzers)))"

text \<open>
  Every branch of the switch appends its rows and goes on; the deprecation warning follows the
  switch, so the two branches that \<^verbatim>\<open>continue\<close> the loop, both of native shape, skip it.
\<close>

definition deprecation_skipped :: "'c RegConfig \<Rightarrow> ('c, 'a) Entry \<Rightarrow> bool" where
  "deprecation_skipped cfg e =
     ((e_Shape e = ShapeNative \<or> e_Shape e = ShapeNativeFamily) \<and>
      (case e_AnalyzerFn e of None \<Rightarrow> True | Some fn \<Rightarrow> fn cfg (perLinterSettings cfg (e_Name e)) = []))"

definition deprecation_warning :: "'c RegConfig \<Rightarrow> ('c, 'a) Entry \<Rightarrow> Warning list" where
  "deprecation_warning cfg e =
     (if deprecation_skipped cfg e \<or> e_Deprecated e = '''' then []
      else [DeprecatedLinter (e_Name e) (e_Deprecated e)])"

record ('c, 'a) Registry =
  reg_catalog :: "('c, 'a) catalog"
  reg_resolved :: "('c, 'a) Resolved list"
  reg_enabled :: "('c, 'a) Resolved list"
  reg_warnings :: "Warning list"

text \<open>
  \<^verbatim>\<open>buildWith\<close> changes the caller's configuration in place; the model returns the changed
  configuration with the outcome.
\<close>

definition buildWith ::
  "'c RegConfig \<Rightarrow> ('c, 'a) catalog \<Rightarrow> 'c RegConfig \<times> Warning list \<times> (RegError + ('c, 'a) Registry)" where
  "buildWith cfg0 cat =
     (let (cfg, ws0) = consolidateStaticcheckChecks cfg0
      in case validateAgainstCatalog cfg cat of
           err # _ \<Rightarrow> (cfg, ws0, Inl err)
         | [] \<Rightarrow>
             (let (active, ws1) = resolveActiveSet cfg cat;
                  cfg' = propagateGoVersion cfg active;
                  es = List.map_filter (map_of active) (sortedNames active);
                  rows = concat (map (resolved_rows cfg') es);
                  ws = ws0 @ ws1 @ concat (map (deprecation_warning cfg') es)
              in (cfg', ws,
                  Inr \<lparr>reg_catalog = cat, reg_resolved = rows,
                       reg_enabled = filter (\<lambda>r. r_Status r = StatusEnabled) rows, reg_warnings = ws\<rparr>)))"

definition Enabled :: "('c, 'a) Registry \<Rightarrow> ('c, 'a) Resolved list" where
  "Enabled r = reg_enabled r"


subsection \<open>Analyzer selection\<close>

definition select_want :: "string list \<Rightarrow> string list" where
  "select_want names = remdups (filter (\<lambda>n. n \<noteq> []) (map TrimSpace names))"

definition SelectAnalyzers ::
  "('a \<Rightarrow> string) \<Rightarrow> string list \<Rightarrow> ('c, 'a) Registry \<Rightarrow> string + ('c, 'a) Registry" where
  "SelectAnalyzers aname names r =
     (let want = select_want names;
          avail = List.map_filter (\<lambda>rr. map_option aname (r_Analyzer rr)) (reg_enabled r);
          selected = filter (\<lambda>rr. case r_Analyzer rr of None \<Rightarrow> False | Some a \<Rightarrow> aname a \<in> set want) (reg_enabled r);
          missing = sort (filter (\<lambda>n. n \<notin> set avail) want)
      in if want = [] then Inl ''analyzer selector is empty''
         else if missing \<noteq> [] then
           Inl (''analyzer(s) not enabled or unknown: '' @ join_with '', '' missing)
         else Inr (r\<lparr>reg_enabled := selected\<rparr>))"


subsection \<open>Suggestions\<close>

definition near_names :: "('c, 'a) catalog \<Rightarrow> string \<Rightarrow> (nat \<times> string) set" where
  "near_names cat want = {(d, n). n \<in> set (cat_names cat) \<and> d = edit_distance want n \<and> d \<le> 3}"

definition best_ok :: "string \<Rightarrow> string set \<Rightarrow> string \<times> nat \<Rightarrow> bool" where
  "best_ok want N best \<longleftrightarrow>
     (if \<exists>n\<in>N. levenshtein want n \<le> 3
      then fst best \<in> N \<and> snd best = levenshtein want (fst best) \<and> snd best \<le> 3
           \<and> (\<forall>n\<in>N. (snd best, fst best) \<le> (levenshtein want n, n))
      else best = ('''', 4))"

lemma closer_ok: "best_ok want N best \<Longrightarrow> best_ok want (insert n N) (closer want n best)"
  by (cases best) (auto simp: best_ok_def closer_def Let_def less_eq_prod_def split: if_splits)

lemma fold_closer_ok: "best_ok want N best \<Longrightarrow> best_ok want (set ns \<union> N) (fold (closer want) ns best)"
proof (induction ns arbitrary: N best)
  case (Cons n ns)
  show ?case using Cons.IH [OF closer_ok [OF Cons.prems, of n]] by (simp add: insert_commute)
qed simp

text \<open>
  The did-you-mean suggestion is the catalog name at the least edit distance from the unknown
  name, the alphabetically first among equally near ones, and there is none exactly when no name
  of the catalog is within three edits.
\<close>

theorem suggestion_exact:
  "suggestion cat want = (if near_names cat want = {} then '''' else snd (Min (near_names cat want)))"
proof -
  let ?best = "fold (closer want) (cat_names cat) ('''', 4)"
  have ok: "best_ok want (set (cat_names cat)) ?best"
    using fold_closer_ok [of want "{}" "('''', 4)" "cat_names cat"] by (simp add: best_ok_def)
  show ?thesis
  proof (cases "\<exists>n\<in>set (cat_names cat). levenshtein want n \<le> 3")
    case True
    have fin: "finite (near_names cat want)"
      by (rule finite_subset [of _ "(\<lambda>n. (edit_distance want n, n)) ` set (cat_names cat)"])
        (auto simp: near_names_def)
    have b: "fst ?best \<in> set (cat_names cat)" "snd ?best = levenshtein want (fst ?best)" "snd ?best \<le> 3"
      "\<And>n. n \<in> set (cat_names cat) \<Longrightarrow> (snd ?best, fst ?best) \<le> (levenshtein want n, n)"
      using ok True by (auto simp: best_ok_def)
    have "Min (near_names cat want) = (snd ?best, fst ?best)"
      by (rule Min_eqI [OF fin]) (use b in \<open>auto simp: near_names_def levenshtein_lev\<close>)
    moreover have "near_names cat want \<noteq> {}" using True by (auto simp: near_names_def levenshtein_lev)
    ultimately show ?thesis using b(3) by (simp add: suggestion_def Let_def)
  next
    case False
    then have "?best = ('''', 4)" using ok by (simp add: best_ok_def)
    moreover have "near_names cat want = {}" using False by (auto simp: near_names_def levenshtein_lev)
    ultimately show ?thesis by (simp add: suggestion_def)
  qed
qed


subsection \<open>The catalog invariant\<close>

definition cat_ok :: "('c, 'a) catalog \<Rightarrow> bool" where
  "cat_ok c \<longleftrightarrow>
     distinct (map fst (c_byName c)) \<and> c_all c = map fst (c_byName c)
     \<and> (\<forall>(k, e)\<in>set (c_byName c). e_Name e = k)
     \<and> (\<forall>(a, k)\<in>set (c_byAlias c). k \<in> fst ` set (c_byName c))"

lemma cat_ok_new: "cat_ok newCatalog"
  by (simp add: cat_ok_def newCatalog_def)

lemma update_new: "k \<notin> fst ` set al \<Longrightarrow> AList.update k v al = al @ [(k, v)]"
  by (induction al) auto

lemma set_update: "set (AList.update k v al) \<subseteq> insert (k, v) (set al)"
  by (induction al) auto

lemma map_of_None_fst: "map_of al k = None \<longleftrightarrow> k \<notin> fst ` set al"
  by (simp add: map_of_eq_None_iff)

lemma cat_addAlias_ok:
  assumes "cat_ok c" "n \<in> fst ` set (c_byName c)" "cat_addAlias n a c = Some c'"
  shows "cat_ok c' \<and> c_byName c' = c_byName c"
proof -
  have "c' = c\<lparr>c_byAlias := c_byAlias c @ [(a, n)]\<rparr>"
    using assms(3) by (simp add: cat_addAlias_def update_new map_of_None_fst split: if_splits)
  then show ?thesis using assms(1,2) by (simp add: cat_ok_def)
qed

lemma cat_addAliases_ok:
  "cat_ok c \<Longrightarrow> n \<in> fst ` set (c_byName c) \<Longrightarrow> ofold (cat_addAlias n) as c = Some c' \<Longrightarrow>
   cat_ok c' \<and> c_byName c' = c_byName c"
proof (induction as arbitrary: c)
  case (Cons a as)
  from Cons.prems(3) obtain d where d: "cat_addAlias n a c = Some d" "ofold (cat_addAlias n) as d = Some c'"
    by (auto simp: bind_eq_Some_conv)
  show ?case using cat_addAlias_ok [OF Cons.prems(1,2) d(1)] Cons.IH [of d] Cons.prems(2) d(2) by auto
qed simp

lemma cat_add_ok: 
  assumes "cat_ok c" "cat_add e c = Some c'"
  shows "cat_ok c' \<and> c_byName c' = c_byName c @ [(e_Name e, e)]"
proof -
  let ?d = "c\<lparr>c_byName := AList.update (e_Name e) e (c_byName c), c_all := c_all c @ [e_Name e]\<rparr>"
  have new: "e_Name e \<notin> fst ` set (c_byName c)" and al: "ofold (cat_addAlias (e_Name e)) (e_Aliases e) ?d = Some c'"
    using assms(2) by (auto simp: cat_add_def map_of_None_fst split: if_splits)
  have "cat_ok ?d" using assms(1) new by (auto simp: cat_ok_def update_new)
  from cat_addAliases_ok [OF this _ al] new show ?thesis by (simp add: update_new)
qed

lemma cat_adds_ok:
  "cat_ok c \<Longrightarrow> ofold cat_add es c = Some c' \<Longrightarrow>
   cat_ok c' \<and> c_byName c' = c_byName c @ map (\<lambda>e. (e_Name e, e)) es"
proof (induction es arbitrary: c)
  case (Cons e es)
  from Cons.prems(2) obtain d where d: "cat_add e c = Some d" "ofold cat_add es d = Some c'"
    by (auto simp: bind_eq_Some_conv)
  show ?case using cat_add_ok [OF Cons.prems(1) d(1)] Cons.IH [of d] d(2) by auto
qed simp

lemma cat_resolve_ok:
  assumes "cat_ok c" "cat_resolve c n = Some e"
  shows "map_of (c_byName c) (e_Name e) = Some e"
proof -
  obtain k where k: "map_of (c_byName c) k = Some e"
    using assms(2) by (auto simp: cat_resolve_def Let_def split: option.splits)
  then have "e_Name e = k" using assms(1) map_of_SomeD [OF k] by (auto simp: cat_ok_def)
  then show ?thesis using k by simp
qed

lemma wireFn_ok:
  assumes "cat_ok c" "wireFn w c = Some c'"
  shows "cat_ok c'"
proof -
  from assms(2) obtain e where e: "cat_resolve c (fst w) = Some e"
    and c': "c' = c\<lparr>c_byName := AList.update (e_Name e) (e\<lparr>e_AnalyzerFn := Some (snd w)\<rparr>) (c_byName c)\<rparr>"
    by (auto simp: wireFn_def split: option.splits if_splits)
  have "e_Name e \<in> fst ` set (c_byName c)"
    using map_of_SomeD [OF cat_resolve_ok [OF assms(1) e]] by force
  then have keys: "map fst (c_byName c') = map fst (c_byName c)" by (simp add: c' update_keys)
  then have "fst ` set (c_byName c') = fst ` set (c_byName c)" by (metis list.set_map)
  moreover have "\<forall>(k, x)\<in>set (c_byName c'). e_Name x = k"
    using assms(1) set_update [of "e_Name e" "e\<lparr>e_AnalyzerFn := Some (snd w)\<rparr>" "c_byName c"]
    by (fastforce simp: c' cat_ok_def)
  ultimately show ?thesis using assms(1) keys by (simp add: cat_ok_def c')
qed

lemma wireFns_ok: "cat_ok c \<Longrightarrow> ofold wireFn ws c = Some c' \<Longrightarrow> cat_ok c'"
proof (induction ws arbitrary: c)
  case (Cons w ws)
  from Cons.prems(2) obtain d where d: "wireFn w c = Some d" "ofold wireFn ws d = Some c'"
    by (auto simp: bind_eq_Some_conv)
  show ?case using Cons.IH [OF wireFn_ok [OF Cons.prems(1) d(1)] d(2)] .
qed simp

lemma cat_seed_ok: "cat_seed rows wires newCatalog = Some c \<Longrightarrow> cat_ok c"
  by (auto simp: cat_seed_def bind_eq_Some_conv intro: wireFns_ok dest: cat_adds_ok [OF cat_ok_new])



subsection \<open>The active set\<close>

text \<open>The linter a configuration selects under a name, stated without the order of the loops.\<close>

definition resolves_to :: "('c, 'a) catalog \<Rightarrow> string \<Rightarrow> string \<Rightarrow> bool" where
  "resolves_to cat n k = (case cat_resolve cat n of None \<Rightarrow> False | Some e \<Rightarrow> e_Name e = k)"

definition selected_linter :: "'c RegConfig \<Rightarrow> ('c, 'a) catalog \<Rightarrow> string \<Rightarrow> ('c, 'a) Entry option" where
  "selected_linter cfg cat k =
     (if k \<in> fst ` set (rc_custom cfg) then Some (custom_entry k)
      else case map_of (c_byName cat) k of
             None \<Rightarrow> None
           | Some e \<Rightarrow>
               if e_Shape e \<noteq> ShapeFormatter
                  \<and> (in_group (defaultGroup cfg) e \<or> (\<exists>n\<in>set (rc_enable cfg). resolves_to cat n k))
                  \<and> \<not> (\<exists>n\<in>set (rc_disable cfg). resolves_to cat n k)
               then Some e else None)"

lemma map_of_update [simp]: "map_of (AList.update k v al) = (map_of al)(k \<mapsto> v)"
  by (rule update_conv')

lemma map_of_seed_one:
  "map_of (seed_one g e act) k =
     (if k = e_Name e \<and> e_Shape e \<noteq> ShapeFormatter \<and> in_group g e then Some e else map_of act k)"
  by (auto simp: seed_one_def)

lemma fold_seed_one:
  assumes "\<And>e. e \<in> set es \<Longrightarrow> map_of N (e_Name e) = Some e"
    and names: "\<And>k e. map_of N k = Some e \<Longrightarrow> e_Name e = k"
  shows "map_of (fold (seed_one g) es act) k =
    (case map_of N k of
       Some e \<Rightarrow> if e \<in> set es \<and> e_Shape e \<noteq> ShapeFormatter \<and> in_group g e then Some e else map_of act k
     | None \<Rightarrow> map_of act k)"
  using assms(1)
proof (induction es arbitrary: act)
  case (Cons e es)
  have e: "map_of N (e_Name e) = Some e" using Cons.prems [of e] by simp
  have IH: "map_of (fold (seed_one g) es (seed_one g e act)) k =
    (case map_of N k of
       Some e' \<Rightarrow> if e' \<in> set es \<and> e_Shape e' \<noteq> ShapeFormatter \<and> in_group g e' then Some e'
                 else map_of (seed_one g e act) k
     | None \<Rightarrow> map_of (seed_one g e act) k)"
    using Cons.IH [of "seed_one g e act"] Cons.prems by simp
  show ?case
  proof (cases "map_of N k")
    case None
    then have "k \<noteq> e_Name e" using e by auto
    then show ?thesis using IH None by (simp add: map_of_seed_one)
  next
    case (Some e')
    then have "e_Name e' = k" by (rule names)
    then show ?thesis using IH Some e by (cases "e' = e") (auto simp: map_of_seed_one)
  qed
qed (simp split: option.splits)

lemma map_filter_keys:
  "(\<And>p. p \<in> set ps \<Longrightarrow> m (fst p) = Some (snd p)) \<Longrightarrow> List.map_filter m (map fst ps) = map snd ps"
  by (induction ps) (simp_all add: map_filter_simps)

lemma cat_entries_set:
  assumes "cat_ok c"
  shows "set (cat_entries c) = snd ` set (c_byName c)"
proof -
  have "List.map_filter (map_of (c_byName c)) (map fst (c_byName c)) = map snd (c_byName c)"
    using assms by (intro map_filter_keys) (auto simp: cat_ok_def)
  then show ?thesis using assms by (simp add: cat_entries_def cat_ok_def)
qed

lemma cat_ok_entry: "cat_ok c \<Longrightarrow> e \<in> snd ` set (c_byName c) \<Longrightarrow> map_of (c_byName c) (e_Name e) = Some e"
  by (force simp: cat_ok_def)

lemma cat_ok_name: "cat_ok c \<Longrightarrow> map_of (c_byName c) k = Some e \<Longrightarrow> e_Name e = k"
  by (drule map_of_SomeD) (auto simp: cat_ok_def)

lemma fold_enable_one:
  assumes "cat_ok cat"
  shows "map_of (fst (fold (enable_one cat) ns (act, ws))) k =
    (if \<exists>n\<in>snd ` set ns. resolves_to cat n k \<and> e_Shape (the (map_of (c_byName cat) k)) \<noteq> ShapeFormatter
     then map_of (c_byName cat) k else map_of act k)"
proof (induction ns arbitrary: act ws)
  case (Cons p ns)
  obtain i n where p: "p = (i, n)" by (cases p)
  obtain act' ws' where s: "enable_one cat p (act, ws) = (act', ws')" by fastforce
  have "map_of act' k = (if resolves_to cat n k \<and> e_Shape (the (map_of (c_byName cat) k)) \<noteq> ShapeFormatter
                         then map_of (c_byName cat) k else map_of act k)"
    using s cat_resolve_ok [OF assms, of n]
    by (auto simp: p enable_one_def resolves_to_def split: option.splits if_splits)
  then show ?case using Cons.IH [of act' ws'] s by (auto simp: p)
qed simp

lemma fold_disable_one:
  "map_of (fold (disable_one cat) ns act) k =
     (if \<exists>n\<in>set ns. resolves_to cat n k then None else map_of act k)"
proof (induction ns arbitrary: act)
  case (Cons n ns)
  have "map_of (disable_one cat n act) k = (if resolves_to cat n k then None else map_of act k)"
    by (auto simp: disable_one_def resolves_to_def delete_conv' split: option.splits)
  then show ?case using Cons.IH by auto
qed simp

lemma fold_custom_one:
  "map_of (fold custom_one ps act) k = (if k \<in> fst ` set ps then Some (custom_entry k) else map_of act k)"
proof (induction ps arbitrary: act)
  case (Cons p ps)
  show ?case using Cons.IH by (auto simp: custom_one_def)
qed simp

lemma resolves_to_known:
  assumes "cat_ok cat" "resolves_to cat n k"
  obtains e where "map_of (c_byName cat) k = Some e" "cat_resolve cat n = Some e"
  using assms cat_resolve_ok [OF assms(1)] by (auto simp: resolves_to_def split: option.splits)

lemma resolveActiveSet_selected:
  assumes "cat_ok cat"
  shows "map_of (fst (resolveActiveSet cfg cat)) k = selected_linter cfg cat k"
proof -
  let ?act0 = "fold (seed_one (defaultGroup cfg)) (cat_entries cat) []"
  have "map_of ?act0 k = (case map_of (c_byName cat) k of
      Some e \<Rightarrow> if e_Shape e \<noteq> ShapeFormatter \<and> in_group (defaultGroup cfg) e then Some e else None | None \<Rightarrow> None)"
    by (subst fold_seed_one [where N = "c_byName cat"])
      (auto simp: cat_entries_set [OF assms] cat_ok_entry [OF assms] cat_ok_name [OF assms]
        split: option.splits dest!: map_of_SomeD intro!: image_eqI)
  moreover have "snd ` set (enumerate 0 (rc_enable cfg)) = set (rc_enable cfg)"
    by (metis list.set_map map_snd_enumerate)
  moreover have "\<exists>e. map_of (c_byName cat) k = Some e" if "\<exists>n. resolves_to cat n k"
    using that resolves_to_known [OF assms] by metis
  ultimately show ?thesis
    using fold_enable_one [OF assms, of "enumerate 0 (rc_enable cfg)" ?act0 "[]" k]
    by (auto simp: resolveActiveSet_def Let_def fold_custom_one fold_disable_one selected_linter_def
        split: prod.splits option.splits if_splits)
qed



subsection \<open>Building a registry\<close>

lemma update_distinct: "distinct (map fst al) \<Longrightarrow> distinct (map fst (AList.update k v al))"
  by (rule distinct_update)

lemma fold_keeps: "(\<And>x s. P s \<Longrightarrow> P (f x s)) \<Longrightarrow> P s \<Longrightarrow> P (fold f xs s)"
  by (induction xs arbitrary: s) simp_all

lemma active_distinct: "distinct (map fst (fst (resolveActiveSet cfg cat)))"
proof -
  let ?D = "\<lambda>act. distinct (map fst act)"
  have s: "?D (fold (seed_one g) es [])" for g and es :: "('a, 'b) Entry list"
    by (rule fold_keeps [where P = ?D]) (simp_all add: seed_one_def distinct_update)
  have e: "?D (fst (fold (enable_one cat) ns (act, ws)))" if "?D act" for ns act ws
    by (rule fold_keeps [where P = "\<lambda>p. ?D (fst p)"])
      (use that in \<open>auto simp: enable_one_def distinct_update split: option.splits\<close>)
  have d: "?D (fold (disable_one cat) ns act)" if "?D act" for ns act
    by (rule fold_keeps [where P = ?D])
      (use that in \<open>simp_all add: disable_one_def distinct_delete split: option.splits\<close>)
  have c: "?D (fold custom_one ps act)" if "?D act" for ps act
    by (rule fold_keeps [where P = ?D]) (use that in \<open>simp_all add: custom_one_def distinct_update\<close>)
  show ?thesis
    using c [OF d [OF e [OF s]]] by (simp add: resolveActiveSet_def Let_def case_prod_beta)
qed

lemma enumerate_filter_Nil: "filter (\<lambda>(i, n). P n) (enumerate k ns) = [] \<longleftrightarrow> (\<forall>n\<in>set ns. \<not> P n)"
  by (induction ns arbitrary: k) (auto split: if_splits)

lemma validate_Nil:
  "validateAgainstCatalog cfg cat = [] \<longleftrightarrow>
     rc_default cfg \<in> {'''', ''none'', ''standard'', ''fast'', ''all''}
     \<and> (\<forall>n\<in>set (rc_enable cfg) \<union> set (rc_disable cfg). cat_resolve cat n \<noteq> None)"
  by (auto simp: validateAgainstCatalog_def unknown_names_def enumerate_filter_Nil)

lemma dedupe_loop_uniq: "set (dedupe_loop seen vs) = set vs - set seen \<and> distinct (dedupe_loop seen vs)"
  by (induction vs arbitrary: seen) auto

lemma dedupe_loop_id: "distinct vs \<Longrightarrow> set vs \<inter> set seen = {} \<Longrightarrow> dedupe_loop seen vs = vs"
  by (induction vs arbitrary: seen) auto

lemma dedupe_idem: "dedupePreserveOrder (dedupePreserveOrder s) = dedupePreserveOrder s"
  using dedupe_loop_uniq [of "[]" s]
  by (auto simp: dedupePreserveOrder_def intro!: dedupe_loop_id)

lemma consolidate_fields:
  "rc_default (fst (consolidateStaticcheckChecks cfg)) = rc_default cfg"
  "rc_enable (fst (consolidateStaticcheckChecks cfg)) = rc_enable cfg"
  "rc_disable (fst (consolidateStaticcheckChecks cfg)) = rc_disable cfg"
  "rc_custom (fst (consolidateStaticcheckChecks cfg)) = rc_custom cfg"
  by (simp_all add: consolidateStaticcheckChecks_def Let_def)

lemma propagate_fields:
  "rc_default (propagateGoVersion cfg act) = rc_default cfg"
  "rc_enable (propagateGoVersion cfg act) = rc_enable cfg"
  "rc_disable (propagateGoVersion cfg act) = rc_disable cfg"
  "rc_custom (propagateGoVersion cfg act) = rc_custom cfg"
  "rc_checks (propagateGoVersion cfg act) = rc_checks cfg"
  by (simp_all add: propagateGoVersion_def Let_def)

lemma validate_cong:
  "rc_default cfg = rc_default cfg' \<Longrightarrow> rc_enable cfg = rc_enable cfg' \<Longrightarrow> rc_disable cfg = rc_disable cfg' \<Longrightarrow>
   validateAgainstCatalog cfg cat = validateAgainstCatalog cfg' cat"
  by (simp add: validateAgainstCatalog_def)

lemma resolve_cong:
  "rc_default cfg = rc_default cfg' \<Longrightarrow> rc_enable cfg = rc_enable cfg' \<Longrightarrow> rc_disable cfg = rc_disable cfg' \<Longrightarrow>
   rc_custom cfg = rc_custom cfg' \<Longrightarrow> resolveActiveSet cfg cat = resolveActiveSet cfg' cat"
  by (simp add: resolveActiveSet_def defaultGroup_def)

lemma fill_empty_idem [simp]: "fill_empty on v (fill_empty on v cur) = fill_empty on v cur"
  by (simp add: fill_empty_def)

lemma propagate_idem: "propagateGoVersion (propagateGoVersion cfg act) act = propagateGoVersion cfg act"
  by (simp add: propagateGoVersion_def Let_def)

lemma buildWith_Inr:
  assumes "buildWith cfg cat = (cfg', ws, Inr r)"
  shows "validateAgainstCatalog cfg cat = []"
    "cfg' = propagateGoVersion (fst (consolidateStaticcheckChecks cfg)) (fst (resolveActiveSet cfg cat))"
    "reg_resolved r = concat (map (resolved_rows cfg')
       (List.map_filter (map_of (fst (resolveActiveSet cfg cat))) (sortedNames (fst (resolveActiveSet cfg cat)))))"
    "reg_enabled r = filter (\<lambda>row. r_Status row = StatusEnabled) (reg_resolved r)"
proof -
  let ?c = "fst (consolidateStaticcheckChecks cfg)"
  have v: "validateAgainstCatalog ?c cat = validateAgainstCatalog cfg cat"
    by (rule validate_cong) (simp_all add: consolidate_fields)
  have a: "resolveActiveSet ?c cat = resolveActiveSet cfg cat"
    by (rule resolve_cong) (simp_all add: consolidate_fields)
  show "validateAgainstCatalog cfg cat = []"
    "cfg' = propagateGoVersion ?c (fst (resolveActiveSet cfg cat))"
    "reg_resolved r = concat (map (resolved_rows cfg')
       (List.map_filter (map_of (fst (resolveActiveSet cfg cat))) (sortedNames (fst (resolveActiveSet cfg cat)))))"
    "reg_enabled r = filter (\<lambda>row. r_Status row = StatusEnabled) (reg_resolved r)"
    using assms v a
    by (auto simp: buildWith_def Let_def split: prod.splits list.splits)
qed


lemma resolved_rows_Name: "rw \<in> set (resolved_rows cfg e) \<Longrightarrow> r_Name rw = e_Name e"
  by (auto simp: resolved_rows_def resolved_row_def Let_def split: Shape.splits option.splits if_splits)

lemma selected_linter_Name: "cat_ok cat \<Longrightarrow> selected_linter cfg cat k = Some e \<Longrightarrow> e_Name e = k"
  by (auto simp: selected_linter_def custom_entry_def cat_ok_name split: if_splits option.splits)

lemma rows_sorted:
  "sorted (map e_Name es) \<Longrightarrow> sorted (map r_Name (concat (map (resolved_rows cfg) es)))"
proof (induction es)
  case (Cons e es)
  have "sorted (map r_Name (resolved_rows cfg e))"
    using map_cong [of "resolved_rows cfg e" "resolved_rows cfg e" r_Name "\<lambda>_. e_Name e"]
    by (simp add: resolved_rows_Name map_replicate_const)
  then show ?case using Cons by (auto simp: sorted_append resolved_rows_Name)
qed simp

lemma map_filter_names:
  "(\<And>k e. m k = Some e \<Longrightarrow> e_Name e = k) \<Longrightarrow> (\<And>k. k \<in> set ks \<Longrightarrow> m k \<noteq> None) \<Longrightarrow>
   map e_Name (List.map_filter m ks) = ks"
  by (induction ks) (auto simp: map_filter_simps split: option.splits)

lemma active_entries:
  assumes "cat_ok cat" and es_def: "es = List.map_filter (map_of (fst (resolveActiveSet cfg cat))) (sortedNames (fst (resolveActiveSet cfg cat)))"
  shows "sorted (map e_Name es)" "set es = {e. \<exists>k. selected_linter cfg cat k = Some e}"
proof -
  let ?m = "map_of (fst (resolveActiveSet cfg cat))" and ?ks = "sortedNames (fst (resolveActiveSet cfg cat))"
  have m: "?m k = selected_linter cfg cat k" for k by (rule resolveActiveSet_selected [OF assms(1)])
  have ks: "k \<in> set ?ks \<longleftrightarrow> ?m k \<noteq> None" for k
    by (simp add: sortedNames_def map_of_None_fst)
  have "map e_Name es = ?ks"
    unfolding es_def by (rule map_filter_names) (auto simp: m selected_linter_Name [OF assms(1)] ks simp del: not_None_eq)
  then show "sorted (map e_Name es)" by (simp add: sortedNames_def)
  show "set es = {e. \<exists>k. selected_linter cfg cat k = Some e}"
    by (force simp: es_def List.map_filter_def ks m)
qed

text \<open>
  C28. A registry built from a configuration runs exactly the linters the configuration selects:
  an enabled row belongs to a linter that is in the default group or named under
  \<^verbatim>\<open>linters.enable\<close> (by its name or an alias, in any case), that no entry of
  \<^verbatim>\<open>linters.disable\<close> resolves to and that is not a formatter, a custom plugin taking the place of a
  catalog linter of the same name; and the rows are in the order of the linter names.
\<close>

theorem Build_exact:
  assumes "cat_seed rows wires newCatalog = Some cat" "buildWith cfg cat = (cfg', ws, Inr r)"
  shows "set (Enabled r) = {rw. \<exists>k e. selected_linter cfg cat k = Some e \<and> rw \<in> set (resolved_rows cfg' e)
                                         \<and> r_Status rw = StatusEnabled}
         \<and> sorted (map r_Name (Enabled r))"
proof -
  let ?es = "List.map_filter (map_of (fst (resolveActiveSet cfg cat))) (sortedNames (fst (resolveActiveSet cfg cat)))"
  note ok = cat_seed_ok [OF assms(1)]
  note b = buildWith_Inr [OF assms(2)]
  have "sorted (map r_Name (reg_resolved r))"
    unfolding b(3) by (rule rows_sorted [OF active_entries(1) [OF ok refl]])
  then have "sorted (map r_Name (Enabled r))" by (simp add: Enabled_def b(4) sorted_filter)
  moreover have "set (reg_resolved r) = (\<Union>e\<in>set ?es. set (resolved_rows cfg' e))" by (simp add: b(3))
  ultimately show ?thesis by (auto simp: Enabled_def b(4) active_entries(2) [OF ok refl])
qed

text \<open>
  Building a registry fails exactly when the default group is not one of the four names or a
  name under \<^verbatim>\<open>linters.enable\<close> or \<^verbatim>\<open>linters.disable\<close> is unknown; the error is the first of the
  list \<^verbatim>\<open>Validate\<close> reports for the caller's configuration.
\<close>

theorem Build_fails_iff:
  "(snd (snd (buildWith cfg cat)) = Inl err) =
     (validateAgainstCatalog cfg cat \<noteq> [] \<and> err = hd (validateAgainstCatalog cfg cat))
   \<and> (validateAgainstCatalog cfg cat \<noteq> []) =
     (rc_default cfg \<notin> {'''', ''none'', ''standard'', ''fast'', ''all''}
      \<or> (\<exists>n\<in>set (rc_enable cfg) \<union> set (rc_disable cfg). cat_resolve cat n = None))"
proof -
  have "validateAgainstCatalog (fst (consolidateStaticcheckChecks cfg)) cat = validateAgainstCatalog cfg cat"
    by (rule validate_cong) (simp_all add: consolidate_fields)
  then have "(snd (snd (buildWith cfg cat)) = Inl err) =
     (validateAgainstCatalog cfg cat \<noteq> [] \<and> err = hd (validateAgainstCatalog cfg cat))"
    by (auto simp: buildWith_def Let_def case_prod_beta split: list.splits)
  then show ?thesis by (simp add: validate_Nil)
qed

text \<open>
  \<^verbatim>\<open>Build\<close> changes the configuration it is given; building again from the changed
  configuration changes nothing more and gives the same rows, the warnings apart.
\<close>

theorem Build_idempotent:
  assumes "buildWith cfg cat = (cfg', ws, Inr r)"
  shows "\<exists>ws'. buildWith cfg' cat = (cfg', ws', Inr (r\<lparr>reg_warnings := ws'\<rparr>))"
proof -
  let ?c = "fst (consolidateStaticcheckChecks cfg)"
  note b = buildWith_Inr [OF assms]
  have f: "rc_default cfg' = rc_default cfg" "rc_enable cfg' = rc_enable cfg"
    "rc_disable cfg' = rc_disable cfg" "rc_custom cfg' = rc_custom cfg" "rc_checks cfg' = rc_checks ?c"
    by (simp_all add: b(2) propagate_fields consolidate_fields)
  have c: "consolidateStaticcheckChecks cfg' = (cfg', [])"
    using f(5) dedupe_idem [of "rc_checks cfg"]
    by (auto simp: consolidateStaticcheckChecks_def Let_def split: if_splits)
  have v: "validateAgainstCatalog cfg' cat = []" using validate_cong [of cfg' cfg cat] f b(1) by simp
  have a: "resolveActiveSet cfg' cat = resolveActiveSet cfg cat" using f by (intro resolve_cong) simp_all
  have p: "propagateGoVersion cfg' (fst (resolveActiveSet cfg cat)) = cfg'"
    by (simp add: b(2) propagate_idem)
  have "reg_catalog r = cat" using assms by (auto simp: buildWith_def Let_def split: prod.splits list.splits)
  then show ?thesis
    by (simp add: buildWith_def c v a p Let_def case_prod_beta b(3,4) [symmetric])
qed



subsection \<open>Seeding the catalog\<close>

lemma aliases_total:
  "distinct as \<Longrightarrow> set as \<inter> fst ` set (c_byAlias c) = {} \<Longrightarrow>
   \<exists>c'. ofold (cat_addAlias n) as c = Some c' \<and> fst ` set (c_byAlias c') = fst ` set (c_byAlias c) \<union> set as"
proof (induction as arbitrary: c)
  case (Cons a as)
  have "cat_addAlias n a c = Some (c\<lparr>c_byAlias := c_byAlias c @ [(a, n)]\<rparr>)"
    using Cons.prems by (auto simp: cat_addAlias_def update_new map_of_None_fst)
  then show ?case using Cons.IH [of "c\<lparr>c_byAlias := c_byAlias c @ [(a, n)]\<rparr>"] Cons.prems by auto
qed auto

lemma cat_add_total:
  assumes "cat_ok c" "e_Name e \<notin> fst ` set (c_byName c)" "distinct (e_Aliases e)"
    "set (e_Aliases e) \<inter> fst ` set (c_byAlias c) = {}"
  shows "\<exists>c'. cat_add e c = Some c' \<and> fst ` set (c_byAlias c') = fst ` set (c_byAlias c) \<union> set (e_Aliases e)"
  using assms aliases_total [of "e_Aliases e"
      "c\<lparr>c_byName := AList.update (e_Name e) e (c_byName c), c_all := c_all c @ [e_Name e]\<rparr>" "e_Name e"]
  by (simp add: cat_add_def map_of_None_fst)

lemma cat_adds_total:
  "cat_ok c \<Longrightarrow> distinct (map fst (c_byName c) @ map e_Name es) \<Longrightarrow> distinct (concat (map e_Aliases es)) \<Longrightarrow>
   set (concat (map e_Aliases es)) \<inter> fst ` set (c_byAlias c) = {} \<Longrightarrow> \<exists>c'. ofold cat_add es c = Some c'"
proof (induction es arbitrary: c)
  case (Cons e es)
  from Cons.prems have "e_Name e \<notin> fst ` set (c_byName c)" "distinct (e_Aliases e)"
    "set (e_Aliases e) \<inter> fst ` set (c_byAlias c) = {}" by auto
  from cat_add_total [OF Cons.prems(1) this]
  obtain d where d: "cat_add e c = Some d" "fst ` set (c_byAlias d) = fst ` set (c_byAlias c) \<union> set (e_Aliases e)"
    by blast
  from cat_add_ok [OF Cons.prems(1) d(1)]
  have ok: "cat_ok d" and n: "c_byName d = c_byName c @ [(e_Name e, e)]" by simp_all
  have "\<exists>c'. ofold cat_add es d = Some c'"
    by (rule Cons.IH [OF ok]) (use Cons.prems d(2) n in auto)
  then show ?case using d(1) by simp
qed simp

definition is_native :: "Shape \<Rightarrow> bool" where
  "is_native s \<longleftrightarrow> s = ShapeNative \<or> s = ShapeNativeFamily"

definition wirable :: "('c, 'a) catalog \<Rightarrow> string \<Rightarrow> bool" where
  "wirable c n = (case map_of (c_byName c) (ToLower n) of None \<Rightarrow> False | Some e \<Rightarrow> is_native (e_Shape e))"

lemma wireFn_total:
  assumes "cat_ok c" "wirable c (fst w)"
  shows "\<exists>c'. wireFn w c = Some c' \<and> (\<forall>n. wirable c n \<longrightarrow> wirable c' n)"
  using assms cat_ok_name [OF assms(1)]
  by (auto simp: wirable_def wireFn_def cat_resolve_def is_native_def Let_def split: option.splits)

lemma wireFns_total:
  "cat_ok c \<Longrightarrow> list_all (\<lambda>w. wirable c (fst w)) ws \<Longrightarrow> \<exists>c'. ofold wireFn ws c = Some c'"
proof (induction ws arbitrary: c)
  case (Cons w ws)
  have "wirable c (fst w)" using Cons.prems(2) by simp
  from wireFn_total [OF Cons.prems(1) this]
  obtain d where d: "wireFn w c = Some d" "\<And>n. wirable c n \<Longrightarrow> wirable d n" by blast
  have "\<exists>c'. ofold wireFn ws d = Some c'"
    by (rule Cons.IH [OF wireFn_ok [OF Cons.prems(1) d(1)]])
      (use Cons.prems(2) d(2) in \<open>auto simp: list_all_iff\<close>)
  then show ?case using d(1) by simp
qed simp

lemma seed_entry_fields [simp]:
  "e_Name (seed_entry r) = sr_name r" "e_Aliases (seed_entry r) = sr_aliases r" "e_Shape (seed_entry r) = sr_shape r"
  by (simp_all add: seed_entry_def Let_def)

lemma seed_total:
  assumes "distinct (map sr_name rows)" "distinct (concat (map sr_aliases rows))"
    and wires: "\<And>w. w \<in> set wires \<Longrightarrow> \<exists>r\<in>set rows. sr_name r = ToLower (fst w) \<and> is_native (sr_shape r)"
  shows "\<exists>c. cat_seed rows wires newCatalog = Some c"
proof -
  have maps: "map e_Name (map seed_entry rows) = map sr_name rows" "map e_Aliases (map seed_entry rows) = map sr_aliases rows"
    by simp_all
  obtain c :: "('a, 'b) catalog" where c: "ofold cat_add (map seed_entry rows) newCatalog = Some c"
    using cat_adds_total [OF cat_ok_new, of "map seed_entry rows"] assms(1,2)
    by (auto simp: newCatalog_def comp_def)
  from cat_adds_ok [OF cat_ok_new c]
  have ok: "cat_ok c" and n: "c_byName c = map (\<lambda>e. (e_Name e, e)) (map seed_entry rows)"
    by (simp_all add: newCatalog_def)
  have "wirable c (fst w)" if w: "w \<in> set wires" for w
  proof -
    from wires [OF w] obtain r where r: "r \<in> set rows" "sr_name r = ToLower (fst w)" "is_native (sr_shape r)" by blast
    have "map_of (c_byName c) (sr_name r) = Some (seed_entry r)"
      using cat_ok_entry [OF ok, of "seed_entry r"] r(1) by (force simp: n)
    then show ?thesis using r(2,3) by (simp add: wirable_def)
  qed
  then have "\<exists>c'. ofold wireFn wires c = Some c'" using wireFns_total [OF ok, of wires] by (simp add: list_all_iff)
  then show ?thesis using c by (simp add: cat_seed_def)
qed

text \<open>Facts of the shipped table, by evaluation.\<close>

lemma seedRows_distinct: "distinct (map sr_name seedRows)"
  by (simp add: seedRows_def row_def)

lemma seedRows_aliases: "concat (map sr_aliases seedRows) = [''gosimple'', ''stylecheck'']"
  by (simp add: seedRows_def row_def)

lemma seedRows_standard:
  "map sr_name (filter sr_standard seedRows) =
     [''errcheck'', ''govet'', ''ineffassign'', ''staticcheck'', ''typecheck'', ''unused'']"
  by (simp add: seedRows_def row_def)

lemma seedRows_no_subprocess: "\<forall>r\<in>set seedRows. sr_shape r \<noteq> ShapeSubprocess"
  by (simp add: seedRows_def row_def)


text \<open>
  Seeding the process-wide catalog from the shipped table never panics: no two rows share a
  name, no two rows share an alias, and wiring an analyzer function to any native row of the table
  finds the row.
\<close>

theorem seed_never_panics:
  assumes "list_all (\<lambda>w. \<exists>r\<in>set seedRows. sr_name r = ToLower (fst w) \<and> is_native (sr_shape r)) wires"
  shows "\<exists>c. cat_seed seedRows wires newCatalog = Some c \<and> cat_ok c"
proof -
  have "\<exists>c. cat_seed seedRows wires newCatalog = Some c"
    by (rule seed_total [OF seedRows_distinct]) (use assms seedRows_aliases in \<open>auto simp: list_all_iff\<close>)
  then show ?thesis using cat_seed_ok by blast
qed

lemma errcheck_row: "row ''errcheck'' ShapeNative\<lparr>sr_standard := True\<rparr> \<in> set seedRows"
  by (simp add: seedRows_def)

lemma ToLower_errcheck: "ToLower ''errcheck'' = ''errcheck''"
  by code_simp

theorem seed_never_panics_witness:
  "\<exists>c. cat_seed seedRows [(''errcheck'', \<lambda>cfg s. [''errcheck''])] newCatalog = Some (c :: (unit, string) catalog) \<and> cat_ok c"
proof -
  have "\<exists>r\<in>set seedRows. sr_name r = ToLower ''errcheck'' \<and> is_native (sr_shape r)"
    by (rule bexI [OF _ errcheck_row]) (simp add: ToLower_errcheck row_def is_native_def)
  then show ?thesis
    using seed_never_panics [of "[(''errcheck'', (\<lambda>cfg s. [''errcheck'']) :: (unit, string) AnalyzerFn)]"] by simp
qed


subsection \<open>Selecting analyzers\<close>

definition analyzer_names :: "('a \<Rightarrow> string) \<Rightarrow> ('c, 'a) Registry \<Rightarrow> string set" where
  "analyzer_names aname r = {n. \<exists>rr\<in>set (reg_enabled r). map_option aname (r_Analyzer rr) = Some n}"

lemma set_select_want: "set (select_want names) = TrimSpace ` set names - {[]}"
  by (auto simp: select_want_def)

text \<open>
  \<^verbatim>\<open>SelectAnalyzers\<close> succeeds exactly when some name remains after trimming blanks and every
  remaining name is that of an enabled analyzer; it then keeps, in order, exactly the enabled rows
  whose analyzer is named, and changes nothing else of the registry.
\<close>

theorem SelectAnalyzers_exact:
  "SelectAnalyzers aname names r = Inr r' \<longleftrightarrow>
     (let W = TrimSpace ` set names - {[]}
      in W \<noteq> {} \<and> W \<subseteq> analyzer_names aname r
         \<and> r' = r\<lparr>reg_enabled := filter (\<lambda>rr. map_option aname (r_Analyzer rr) \<in> Some ` W) (reg_enabled r)\<rparr>)"
proof -
  let ?W = "TrimSpace ` set names - {[]}"
  let ?avail = "List.map_filter (\<lambda>rr. map_option aname (r_Analyzer rr)) (reg_enabled r)"
  have avail: "set ?avail = analyzer_names aname r"
    by (force simp: List.map_filter_def analyzer_names_def)
  have missing: "(sort (filter (\<lambda>n. n \<notin> set ?avail) (select_want names)) \<noteq> []) = (\<not> ?W \<subseteq> analyzer_names aname r)"
    by (auto simp: avail filter_empty_conv set_select_want simp flip: set_empty)
  have empty: "(select_want names = []) = (?W = {})"
    using set_select_want [of names] by (metis set_empty)
  have sel: "(case r_Analyzer rr of None \<Rightarrow> False | Some a \<Rightarrow> aname a \<in> set (select_want names)) =
      (map_option aname (r_Analyzer rr) \<in> Some ` ?W)" for rr :: "('a, 'b) Resolved"
    by (simp add: set_select_want image_iff split: option.split)
  show ?thesis
    unfolding SelectAnalyzers_def Let_def missing empty sel by auto
qed



subsection \<open>A concrete build\<close>

definition demo_rows :: "seedRow list" where
  "demo_rows = [(row ''vet'' ShapeNative)\<lparr>sr_standard := True\<rparr>,
                (row ''check'' ShapeNativeFamily)\<lparr>sr_aliases := [''old'']\<rparr>, row ''fmt'' ShapeFormatter]"

definition demo_wires :: "(string \<times> (unit, string) AnalyzerFn) list" where
  "demo_wires = [(''vet'', \<lambda>cfg s. [''vet'']), (''check'', \<lambda>cfg s. [''c1'', ''c2''])]"

definition demo_cfg :: "unit RegConfig" where
  "demo_cfg = \<lparr>rc_default = '''', rc_enable = [''OLD'', ''fmt''], rc_disable = [''vet''], rc_custom = [(''mine'', ())],
     rc_checks = [''a'', ''b'', ''a''], rc_runGo = ''1.22'', rc_govetGo = '''', rc_reviveGo = '''', rc_gocriticGo = '''',
     rc_paralleltestGo = '''', rc_fmtEnable = [''gofumpt''], rc_gofumptLang = ''''\<rparr>"

definition demo_entry :: "(unit, string) Entry" where
  "demo_entry = (seed_entry ((row ''check'' ShapeNativeFamily)\<lparr>sr_aliases := [''old'']\<rparr>))\<lparr>e_AnalyzerFn := Some (\<lambda>cfg s. [''c1'', ''c2''])\<rparr>"

definition demo_catalog :: "(unit, string) catalog" where
  "demo_catalog = the (cat_seed demo_rows demo_wires newCatalog)"

lemma demo_lower:
  "ToLower ''vet'' = ''vet''" "ToLower ''check'' = ''check''" "ToLower ''OLD'' = ''old''" "ToLower ''fmt'' = ''fmt''"
  by code_simp+

lemmas demo_eval = demo_rows_def demo_wires_def row_def seed_entry_def cat_add_def cat_addAlias_def newCatalog_def
  cat_resolve_def wireFn_def Let_def demo_lower

lemma demo_seed: "cat_seed demo_rows demo_wires newCatalog = Some demo_catalog"
  by (simp add: demo_catalog_def cat_seed_def demo_eval)

lemma demo_build_ok: "\<exists>cfg' ws r. buildWith demo_cfg demo_catalog = (cfg', ws, Inr r)"
proof -
  have "validateAgainstCatalog demo_cfg demo_catalog = []"
    by (simp add: validate_Nil demo_cfg_def demo_catalog_def cat_seed_def demo_eval)
  then have "snd (snd (buildWith demo_cfg demo_catalog)) \<noteq> Inl err" for err
    using validate_cong [of "fst (consolidateStaticcheckChecks demo_cfg)" demo_cfg demo_catalog]
    by (simp add: buildWith_def Let_def case_prod_beta consolidate_fields)
  then show ?thesis by (metis prod.exhaust_sel sum.exhaust_sel)
qed

lemma demo_selected: "selected_linter demo_cfg demo_catalog ''check'' = Some demo_entry"
  by (simp add: selected_linter_def resolves_to_def demo_cfg_def demo_catalog_def cat_seed_def demo_entry_def demo_eval)

lemma demo_row: "\<exists>rw\<in>set (resolved_rows cfg demo_entry). r_Status rw = StatusEnabled \<and> r_Analyzer rw = Some ''c2''"
  by (simp add: resolved_rows_def resolved_row_def demo_entry_def seed_entry_def row_def Let_def)

theorem Build_exact_witness:
  "\<exists>r rw. snd (snd (buildWith demo_cfg demo_catalog)) = Inr r \<and> rw \<in> set (Enabled r) \<and> r_Analyzer rw = Some ''c2''"
proof -
  obtain cfg' ws r where b: "buildWith demo_cfg demo_catalog = (cfg', ws, Inr r)" using demo_build_ok by blast
  have "\<exists>rw\<in>set (Enabled r). r_Analyzer rw = Some ''c2''"
    using Build_exact [OF demo_seed b] demo_selected demo_row [of cfg'] by blast
  then show ?thesis using b by auto
qed

theorem Build_idempotent_witness:
  "\<exists>cfg' ws r ws'. buildWith demo_cfg demo_catalog = (cfg', ws, Inr r) \<and>
     buildWith cfg' demo_catalog = (cfg', ws', Inr (r\<lparr>reg_warnings := ws'\<rparr>))"
proof -
  obtain cfg' ws r where b: "buildWith demo_cfg demo_catalog = (cfg', ws, Inr r)" using demo_build_ok by blast
  from Build_idempotent [OF b] show ?thesis using b by blast
qed

end
