(* ===== verification/UnitTypecheck.thy ===== *)
theory UnitTypecheck
  imports UnitKey Diagnostics
begin

text \<open>
  Loading the package of a unit action (\<^verbatim>\<open>internal/unit/constraints.go\<close>, \<^verbatim>\<open>internal/unit/typecheck.go\<close>): the
  choice of the source files by build constraints, cgo and the test filter, the importer over declared export
  data with its two kinds of failure, and \<^verbatim>\<open>typecheck\<close>.

  What the Go standard library contributes is an argument: \<^verbatim>\<open>build.Context.MatchFile\<close>, the parser, the export
  data reader and the type checker.  The checker is the list of the import paths it asks the importer for and
  the errors it reports given the answers.
\<close>

subsection \<open>Build constraints\<close>

record buildContext =
  bc_GOOS :: string
  bc_GOARCH :: string
  bc_Tags :: "string list"
  bc_Cgo :: bool
  bc_ReleaseTags :: "string list"

definition leading_digits :: "string \<Rightarrow> string" where
  "leading_digits s = takeWhile (\<lambda>c. digit_val c \<noteq> None) s"

text \<open>\<^verbatim>\<open>strconv.Atoi\<close> of a run of digits, which has no sign: fails on the empty string and out of range.\<close>

definition Atoi_digits :: "string \<Rightarrow> nat option" where
  "Atoi_digits s =
     (if s = [] then None
      else case parse_digits 0 s of None \<Rightarrow> None | Some n \<Rightarrow> if n < 2 ^ 63 then Some n else None)"

definition releaseTags :: "string list \<Rightarrow> string \<Rightarrow> string list" where
  "releaseTags defaults goVersion =
     (if \<not> HasPrefix goVersion ''1.'' then defaults
      else case Atoi_digits (leading_digits (drop 2 goVersion)) of
             None \<Rightarrow> defaults
           | Some n \<Rightarrow> if n < 1 then defaults else map (\<lambda>i. ''go1.'' @ nat_digits i) [1..<n + 1])"

record golib =
  go_ReleaseTags :: "string list"
  go_MatchFile :: "buildContext \<Rightarrow> string \<Rightarrow> bool result"
  go_Imports :: "string \<Rightarrow> string list result"

definition build_context :: "golib \<Rightarrow> PackageConfig \<Rightarrow> buildContext" where
  "build_context L pkg =
     \<lparr>bc_GOOS = GOOS pkg, bc_GOARCH = GOARCH pkg, bc_Tags = Tags pkg, bc_Cgo = Cgo pkg,
      bc_ReleaseTags = releaseTags (go_ReleaseTags L) (GoVersion pkg)\<rparr>"

definition notCgoFile :: "golib \<Rightarrow> string \<Rightarrow> bool" where
  "notCgoFile L name = (case go_Imports L name of Inl _ \<Rightarrow> True | Inr imports \<Rightarrow> ''\"C\"'' \<notin> set imports)"

definition source_error :: "string \<Rightarrow> string \<Rightarrow> string" where
  "source_error name e = ''unit: source '' @ name @ '': '' @ e"

definition constrain_one ::
  "golib \<Rightarrow> PackageConfig \<Rightarrow> string \<Rightarrow> string list \<times> string list \<Rightarrow> (string list \<times> string list) result" where
  "constrain_one L pkg name = (\<lambda>(matched, excluded).
     case go_MatchFile L (build_context L pkg) name of
       Inl e \<Rightarrow> Inl (source_error name e)
     | Inr ok \<Rightarrow>
         let ok = (if ok \<and> \<not> Cgo pkg then notCgoFile L name else ok)
         in if ok then Inr (matched @ [name], excluded) else Inr (matched, excluded @ [name]))"

definition filterByConstraints :: "golib \<Rightarrow> PackageConfig \<Rightarrow> (string list \<times> string list) result" where
  "filterByConstraints L pkg = efold (constrain_one L pkg) (GoFiles pkg) ([], [])"


subsection \<open>The importer\<close>

text \<open>
  A type-checked dependency is opaque but for \<^verbatim>\<open>Complete()\<close>.  The export data reader also fills the shared map of
  packages; \<open>decode\<close> returns the package and the map it leaves.
\<close>

record 'p importer =
  imp_paths :: "(string \<times> string) list"
  imp_stdlibDir :: string
  imp_platform :: string
  imp_imports :: "string \<rightharpoonup> 'p"
  imp_infraErrs :: "string list"

record 'p pkglib =
  pk_unsafe :: 'p
  pk_Complete :: "'p \<Rightarrow> bool"
  pk_NewReader :: "bytes \<Rightarrow> bytes result"
  pk_Read :: "bytes \<Rightarrow> (string \<rightharpoonup> 'p) \<Rightarrow> string \<Rightarrow> (string \<rightharpoonup> 'p) \<times> 'p result"

definition imp_candidate :: "'p importer \<Rightarrow> string \<Rightarrow> string" where
  "imp_candidate imp path = Join [imp_stdlibDir imp, imp_platform imp, path @ ''.a'']"

text \<open>The file that is to hold the export data of an import path, if one is declared.\<close>

definition imp_file :: "host \<Rightarrow> 'p importer \<Rightarrow> string \<Rightarrow> string option" where
  "imp_file h imp path =
     (case map_of (imp_paths imp) path of
        Some f \<Rightarrow> Some f
      | None \<Rightarrow>
          if imp_stdlibDir imp \<noteq> [] then
            (case h_stat h (imp_candidate imp path) of Inr _ \<Rightarrow> Some (imp_candidate imp path) | Inl _ \<Rightarrow> None)
          else None)"

definition infra :: "string \<Rightarrow> 'p importer \<Rightarrow> 'p importer \<times> 'p result" where
  "infra e imp = (imp\<lparr>imp_infraErrs := imp_infraErrs imp @ [e]\<rparr>, Inl e)"

definition Import :: "'p pkglib \<Rightarrow> host \<Rightarrow> string \<Rightarrow> 'p importer \<Rightarrow> 'p importer \<times> 'p result" where
  "Import K h path imp =
     (if path = ''unsafe'' then (imp, Inr (pk_unsafe K))
      else case (case imp_imports imp path of Some p \<Rightarrow> if pk_Complete K p then Some p else None | None \<Rightarrow> None) of
        Some p \<Rightarrow> (imp, Inr p)
      | None \<Rightarrow>
          (case imp_file h imp path of
             None \<Rightarrow> (imp, Inl (''package '' @ path @ '' not named by importcfg''))
           | Some file \<Rightarrow>
               (case h_read h file of
                  Inl e \<Rightarrow> infra (''open export data for '' @ path @ '': '' @ e) imp
                | Inr body \<Rightarrow>
                    (case pk_NewReader K body of
                       Inl e \<Rightarrow> infra (''export data for '' @ path @ '' ('' @ file @ ''): '' @ e) imp
                     | Inr r \<Rightarrow>
                         (case pk_Read K r (imp_imports imp) path of
                            (m, Inl e) \<Rightarrow>
                              infra (''decode export data for '' @ path @ '' ('' @ file @ ''): '' @ e) (imp\<lparr>imp_imports := m\<rparr>)
                          | (m, Inr p) \<Rightarrow> (imp\<lparr>imp_imports := m\<rparr>, Inr p))))))"

fun import_all :: "'p pkglib \<Rightarrow> host \<Rightarrow> string list \<Rightarrow> 'p importer \<Rightarrow> 'p importer \<times> 'p result list" where
  "import_all K h [] imp = (imp, [])"
| "import_all K h (p # ps) imp =
     (let (imp, r) = Import K h p imp; (imp, rs) = import_all K h ps imp in (imp, r # rs))"


subsection \<open>typecheck\<close>

datatype parseError = ErrorList "(position \<times> string) list" | ScanError position string | OtherError string

text \<open>A parsed file: its package clause, if the parser got that far, and the rest.\<close>

record 'a astFile =
  af_Name :: "string option"
  af_Decls :: 'a

record typeError =
  te_Pos :: position
  te_Msg :: string

record 'a checkedPackage =
  cp_files :: "'a astFile list"
  cp_name :: string
  cp_typeErrs :: "typeError list"
  cp_parseErrs :: "parseError list"
  cp_goFiles :: "string list"
  cp_ignoredFiles :: "string list"

definition compiles :: "'a checkedPackage \<Rightarrow> bool" where
  "compiles p \<longleftrightarrow> cp_typeErrs p = [] \<and> cp_parseErrs p = []"

record ('a, 'p) gochecker =
  ck_parse :: "string \<Rightarrow> 'a astFile option \<times> parseError option"
  ck_stat :: "string \<Rightarrow> string option"
  ck_sizes :: "string \<Rightarrow> bool"
  ck_requests :: "'a astFile list \<Rightarrow> string list"
  ck_errors :: "unitConfig \<Rightarrow> string \<Rightarrow> 'a astFile list \<Rightarrow> 'p result list \<Rightarrow> typeError list"

definition test_filtered :: "string \<Rightarrow> 'a astFile \<Rightarrow> bool" where
  "test_filtered tf f =
     (case af_Name f of
        None \<Rightarrow> False
      | Some n \<Rightarrow>
          let isTestPkg = HasSuffix n ''_test'' in
          if tf = ''only'' then \<not> isTestPkg else if tf = ''exclude'' then isTestPkg else False)"

type_synonym 'a parsed = "'a astFile list \<times> string list \<times> parseError list"

definition parse_one :: "('a, 'p) gochecker \<Rightarrow> string \<Rightarrow> string \<Rightarrow> 'a parsed \<Rightarrow> 'a parsed result" where
  "parse_one C tf name = (\<lambda>(files, goFiles, errs).
     let (f, err) = ck_parse C name;
         errs' = (case err of None \<Rightarrow> errs | Some e \<Rightarrow> errs @ [e])
     in case f of
          None \<Rightarrow>
            (case (err, ck_stat C name) of
               (Some _, Some e) \<Rightarrow> Inl (source_error name e)
             | _ \<Rightarrow> Inr (files, goFiles, errs'))
        | Some f \<Rightarrow>
            if test_filtered tf f then Inr (files, goFiles, errs')
            else Inr (files @ [f], goFiles @ [name], errs'))"

definition packageName :: "'a astFile list \<Rightarrow> string \<Rightarrow> string" where
  "packageName files importPath =
     (case List.find (\<lambda>f. af_Name f \<noteq> None \<and> af_Name f \<noteq> Some []) files of
        Some f \<Rightarrow> the (af_Name f)
      | None \<Rightarrow> last (split_on (CHR ''/'') importPath))"

datatype typecheck_error =
    Source string
  | ImportcfgFailed importcfg_error
  | UnknownGOARCH string
  | BrokenInputs "string list"

definition check_files ::
  "('a, 'p) gochecker \<Rightarrow> 'p pkglib \<Rightarrow> host \<Rightarrow> unitConfig \<Rightarrow> (string \<times> string) list \<Rightarrow> string list \<Rightarrow> 'a parsed
   \<Rightarrow> typecheck_error + 'a checkedPackage" where
  "check_files C K h cfg paths ignored = (\<lambda>(files, goFiles, errs).
     let imp = \<lparr>imp_paths = paths, imp_stdlibDir = StdlibDir (Deps cfg),
                imp_platform = GOOS (Package cfg) @ ''_'' @ GOARCH (Package cfg), imp_imports = Map.empty, imp_infraErrs = []\<rparr>;
         name = packageName files (pkg_Path (Package cfg));
         (imp', rs) = import_all K h (ck_requests C files) imp
     in if \<not> ck_sizes C (GOARCH (Package cfg)) then Inl (UnknownGOARCH (GOARCH (Package cfg)))
        else if imp_infraErrs imp' \<noteq> [] then Inl (BrokenInputs (imp_infraErrs imp'))
        else Inr \<lparr>cp_files = files, cp_name = name, cp_typeErrs = ck_errors C cfg name files rs, cp_parseErrs = errs,
                  cp_goFiles = goFiles, cp_ignoredFiles = ignored\<rparr>)"

definition typecheck ::
  "golib \<Rightarrow> ('a, 'p) gochecker \<Rightarrow> 'p pkglib \<Rightarrow> ((string \<times> string) list \<Rightarrow> (string \<times> string) list) \<Rightarrow> host \<Rightarrow> unitConfig
   \<Rightarrow> typecheck_error + 'a checkedPackage" where
  "typecheck L C K iter h cfg =
     (case filterByConstraints L (Package cfg) of
        Inl e \<Rightarrow> Inl (Source e)
      | Inr (srcs, ignored) \<Rightarrow>
          (case efold (parse_one C (TestFilter (Package cfg))) srcs ([], [], []) of
             Inl e \<Rightarrow> Inl (Source e)
           | Inr parsed \<Rightarrow>
               if Importcfg (Deps cfg) = [] then check_files C K h cfg [] ignored parsed
               else case parseImportcfg iter (h_read h (Importcfg (Deps cfg))) of
                      Inl e \<Rightarrow> Inl (ImportcfgFailed e)
                    | Inr paths \<Rightarrow> check_files C K h cfg paths ignored parsed))"

definition parse_error_items :: "parseError \<Rightarrow> (position \<times> string) list" where
  "parse_error_items e =
     (case e of
        ErrorList items \<Rightarrow> items
      | ScanError p m \<Rightarrow> [(p, m)]
      | OtherError m \<Rightarrow> [(\<lparr>Filename = [], Line = 0, Column = 0\<rparr>, m)])"

definition parseErrorDiagnostics :: "parseError list \<Rightarrow> (position \<times> string) list" where
  "parseErrorDiagnostics errs = concat (map parse_error_items errs)"



subsection \<open>Which files are analyzed\<close>

text \<open>The files that build under the configured platform, tags and cgo setting.\<close>

definition builds :: "golib \<Rightarrow> PackageConfig \<Rightarrow> string \<Rightarrow> bool" where
  "builds L pkg name \<longleftrightarrow>
     go_MatchFile L (build_context L pkg) name = Inr True \<and> (Cgo pkg \<or> notCgoFile L name)"

definition keeps_file :: "('a, 'p) gochecker \<Rightarrow> string \<Rightarrow> string \<Rightarrow> bool" where
  "keeps_file C tf name = (case fst (ck_parse C name) of None \<Rightarrow> False | Some f \<Rightarrow> \<not> test_filtered tf f)"

lemma constrain_fold:
  assumes "efold (constrain_one L pkg) names (m, x) = Inr (m', x')"
  shows "m' = m @ filter (builds L pkg) names \<and> x' = x @ filter (\<lambda>n. \<not> builds L pkg n) names"
  using assms
proof (induction names arbitrary: m x)
  case (Cons n names)
  obtain ok where ok: "go_MatchFile L (build_context L pkg) n = Inr ok"
    using Cons.prems by (auto simp: constrain_one_def split: sum.splits)
  have "constrain_one L pkg n (m, x) = Inr (if builds L pkg n then (m @ [n], x) else (m, x @ [n]))"
    using ok by (auto simp: constrain_one_def builds_def Let_def)
  then have "efold (constrain_one L pkg) names (if builds L pkg n then (m @ [n], x) else (m, x @ [n])) = Inr (m', x')"
    using Cons.prems by simp
  then show ?case using Cons.IH [of "m @ [n]" x] Cons.IH [of m "x @ [n]"] by (auto split: if_splits)
qed simp

lemma filterByConstraints_Inr:
  "filterByConstraints L pkg = Inr (m, x) \<Longrightarrow>
   m = filter (builds L pkg) (GoFiles pkg) \<and> x = filter (\<lambda>n. \<not> builds L pkg n) (GoFiles pkg)"
  unfolding filterByConstraints_def by (drule constrain_fold) simp

lemma parse_one_Inr:
  assumes "parse_one C tf n (files, goFiles, errs) = Inr (files', goFiles', errs')"
  shows "goFiles' = goFiles @ (if keeps_file C tf n then [n] else [])"
    "files' = files @ (if keeps_file C tf n then [the (fst (ck_parse C n))] else [])"
  using assms by (auto simp: parse_one_def keeps_file_def Let_def split: prod.splits option.splits if_splits)

lemma parse_fold:
  assumes "efold (parse_one C tf) names (files, goFiles, errs) = Inr (files', goFiles', errs')"
  shows "goFiles' = goFiles @ filter (keeps_file C tf) names
    \<and> files' = files @ map (\<lambda>n. the (fst (ck_parse C n))) (filter (keeps_file C tf) names)"
  using assms
proof (induction names arbitrary: files goFiles errs)
  case (Cons n names)
  obtain f g e where s: "parse_one C tf n (files, goFiles, errs) = Inr (f, g, e)"
    "efold (parse_one C tf) names (f, g, e) = Inr (files', goFiles', errs')"
    using Cons.prems by (auto simp: ebind_Inr_iff)
  show ?case using Cons.IH [OF s(2)] parse_one_Inr [OF s(1)] by auto
qed simp

lemma check_files_Inr:
  "check_files C K h cfg paths ignored (files, goFiles, errs) = Inr cp \<Longrightarrow>
   cp_files cp = files \<and> cp_goFiles cp = goFiles \<and> cp_ignoredFiles cp = ignored \<and> cp_parseErrs cp = errs"
  by (auto simp: check_files_def Let_def split: prod.splits if_splits)

lemma typecheck_stages:
  assumes "typecheck L C K iter h cfg = Inr cp"
  obtains srcs ignored files goFiles errs paths where
    "filterByConstraints L (Package cfg) = Inr (srcs, ignored)"
    "efold (parse_one C (TestFilter (Package cfg))) srcs ([], [], []) = Inr (files, goFiles, errs)"
    "check_files C K h cfg paths ignored (files, goFiles, errs) = Inr cp"
  using assms by (auto simp: typecheck_def split: sum.splits if_splits)

text \<open>
  A package that loads is analyzed on exactly the declared sources that build under the configured
  platform, tags, release tags and cgo setting, that the parser gave a syntax tree and that are on the
  configured side of the \<^verbatim>\<open>_test\<close> split, in the declared order, and the declared sources that do not build are
  exactly the ignored ones.
\<close>

theorem typecheck_selects:
  assumes "typecheck L C K iter h cfg = Inr cp"
  shows "cp_goFiles cp = filter (\<lambda>n. builds L (Package cfg) n \<and> keeps_file C (TestFilter (Package cfg)) n) (GoFiles (Package cfg))
    \<and> cp_files cp = map (\<lambda>n. the (fst (ck_parse C n))) (cp_goFiles cp)
    \<and> cp_ignoredFiles cp = filter (\<lambda>n. \<not> builds L (Package cfg) n) (GoFiles (Package cfg))"
  using assms
proof (rule typecheck_stages)
  fix srcs ignored files goFiles errs paths
  assume "filterByConstraints L (Package cfg) = Inr (srcs, ignored)"
    and "efold (parse_one C (TestFilter (Package cfg))) srcs ([], [], []) = Inr (files, goFiles, errs)"
    and "check_files C K h cfg paths ignored (files, goFiles, errs) = Inr cp"
  from filterByConstraints_Inr [OF this(1)] parse_fold [OF this(2)] check_files_Inr [OF this(3)]
  show ?thesis by (simp add: conj_commute)
qed


subsection \<open>Broken inputs and missing imports\<close>

definition import_cached :: "'p pkglib \<Rightarrow> 'p importer \<Rightarrow> string \<Rightarrow> bool" where
  "import_cached K imp path \<longleftrightarrow> path = ''unsafe'' \<or> (\<exists>p. imp_imports imp path = Some p \<and> pk_Complete K p)"

definition undecodable :: "'p pkglib \<Rightarrow> (string \<rightharpoonup> 'p) \<Rightarrow> string \<Rightarrow> bytes result \<Rightarrow> bool" where
  "undecodable K m path body \<longleftrightarrow>
     (case body of
        Inl _ \<Rightarrow> True
      | Inr b \<Rightarrow> (case pk_NewReader K b of
                    Inl _ \<Rightarrow> True
                  | Inr r \<Rightarrow> (case snd (pk_Read K r m path) of Inl _ \<Rightarrow> True | Inr _ \<Rightarrow> False)))"

definition broken_import :: "'p pkglib \<Rightarrow> host \<Rightarrow> 'p importer \<Rightarrow> string \<Rightarrow> bool" where
  "broken_import K h imp path \<longleftrightarrow>
     \<not> import_cached K imp path
     \<and> (\<exists>file. imp_file h imp path = Some file \<and> undecodable K (imp_imports imp) path (h_read h file))"

lemma Import_infra: "(imp_infraErrs (fst (Import K h path imp)) \<noteq> imp_infraErrs imp) = broken_import K h imp path"
  by (auto simp: Import_def broken_import_def import_cached_def undecodable_def infra_def
      split: option.splits sum.splits prod.splits)

lemma Import_infra_grows: "\<exists>es. imp_infraErrs (fst (Import K h path imp)) = imp_infraErrs imp @ es"
  by (auto simp: Import_def infra_def split: option.splits sum.splits prod.splits)

lemma import_all_Cons: "fst (import_all K h (p # ps) imp) = fst (import_all K h ps (fst (Import K h p imp)))"
  by (simp add: Let_def case_prod_beta)

lemma import_all_append:
  "fst (import_all K h (ps @ qs) imp) = fst (import_all K h qs (fst (import_all K h ps imp)))"
  by (induction ps arbitrary: imp) (simp_all add: import_all_Cons del: import_all.simps(2))

lemma import_all_grows: "\<exists>es. imp_infraErrs (fst (import_all K h ps imp)) = imp_infraErrs imp @ es"
proof (induction ps arbitrary: imp)
  case (Cons p ps)
  show ?case
    using Cons.IH [of "fst (Import K h p imp)"] Import_infra_grows [of K h p imp]
    by (auto simp: Let_def split: prod.splits)
qed simp

lemma split_snoc:
  "(\<exists>ps p qs. xs @ [r] = ps @ p # qs \<and> B ps p) \<longleftrightarrow> (\<exists>ps p qs. xs = ps @ p # qs \<and> B ps p) \<or> B xs r" (is "?L = ?R")
proof
  assume ?L
  then obtain ps p qs where s: "xs @ [r] = ps @ p # qs" "B ps p" by blast
  then show ?R by (cases qs rule: rev_cases) auto
next
  assume ?R
  then show ?L
  proof
    assume "\<exists>ps p qs. xs = ps @ p # qs \<and> B ps p"
    then obtain ps p qs where "xs = ps @ p # qs" "B ps p" by blast
    then have "xs @ [r] = ps @ p # (qs @ [r])" "B ps p" by simp_all
    then show ?L by blast
  qed blast
qed

lemma import_all_broken:
  "imp_infraErrs imp = [] \<Longrightarrow>
   (imp_infraErrs (fst (import_all K h reqs imp)) \<noteq> []) \<longleftrightarrow>
     (\<exists>ps p qs. reqs = ps @ p # qs \<and> broken_import K h (fst (import_all K h ps imp)) p)"
proof (induction reqs rule: rev_induct)
  case (snoc r reqs)
  let ?i = "fst (import_all K h reqs imp)"
  have last: "fst (import_all K h (reqs @ [r]) imp) = fst (Import K h r ?i)"
    by (simp add: import_all_append Let_def split: prod.splits)
  have "(imp_infraErrs (fst (Import K h r ?i)) \<noteq> []) \<longleftrightarrow> imp_infraErrs ?i \<noteq> [] \<or> broken_import K h ?i r"
    using Import_infra [of K h r ?i] Import_infra_grows [of K h r ?i] by auto
  then show ?case using snoc last split_snoc [of reqs r] by simp
qed simp


definition first_importer :: "(string \<times> string) list \<Rightarrow> unitConfig \<Rightarrow> 'p importer" where
  "first_importer paths cfg =
     \<lparr>imp_paths = paths, imp_stdlibDir = StdlibDir (Deps cfg),
      imp_platform = GOOS (Package cfg) @ ''_'' @ GOARCH (Package cfg), imp_imports = Map.empty, imp_infraErrs = []\<rparr>"

text \<open>The importer when the checker asks for the path after \<open>ps\<close>.\<close>

definition importer_at :: "'p pkglib \<Rightarrow> host \<Rightarrow> (string \<times> string) list \<Rightarrow> unitConfig \<Rightarrow> string list \<Rightarrow> 'p importer" where
  "importer_at K h paths cfg ps = fst (import_all K h ps (first_importer paths cfg))"

text \<open>
  Broken declared inputs and missing imports are told apart: checking the files fails the action exactly
  when, for some import the checker asks for, a file is declared (by the importcfg or found in the declared
  standard library) and cannot be opened or decoded.  An import that no declared input names never fails it.
\<close>

theorem broken_inputs_exact:
  assumes "ck_sizes C (GOARCH (Package cfg))"
  shows "(\<exists>es. check_files C K h cfg paths ignored (files, goFiles, errs) = Inl (BrokenInputs es)) \<longleftrightarrow>
    (\<exists>ps p qs. ck_requests C files = ps @ p # qs \<and> broken_import K h (importer_at K h paths cfg ps) p)"
proof -
  have "(\<exists>es. check_files C K h cfg paths ignored (files, goFiles, errs) = Inl (BrokenInputs es)) \<longleftrightarrow>
    imp_infraErrs (fst (import_all K h (ck_requests C files) (first_importer paths cfg))) \<noteq> []"
    using assms by (auto simp: check_files_def first_importer_def Let_def split: prod.splits)
  also have "\<dots> \<longleftrightarrow> (\<exists>ps p qs. ck_requests C files = ps @ p # qs \<and> broken_import K h (importer_at K h paths cfg ps) p)"
    unfolding importer_at_def by (rule import_all_broken) (simp add: first_importer_def)
  finally show ?thesis .
qed


subsection \<open>Release tags\<close>

lemma takeWhile_stop_append: "list_all P xs \<Longrightarrow> ys = [] \<or> \<not> P (hd ys) \<Longrightarrow> takeWhile P (xs @ ys) = xs"
  by (induction xs) (auto simp: takeWhile_eq_Nil_iff)

lemma nat_digits_all: "list_all (\<lambda>c. digit_val c \<noteq> None) (nat_digits n)"
  by (auto simp: list_all_iff digit_val_def Let_def dest!: nat_digits_chars)

text \<open>
  The release tags of a language version \<^verbatim>\<open>1.N\<close>, with or without a patch level or a pre-release suffix, are
  exactly \<^verbatim>\<open>go1.1\<close> to \<^verbatim>\<open>go1.N\<close>.
\<close>

theorem releaseTags_exact:
  assumes "0 < n" "n < 2 ^ 63" "rest = [] \<or> digit_val (hd rest) = None"
  shows "releaseTags defaults (''1.'' @ nat_digits n @ rest) = map (\<lambda>i. ''go1.'' @ nat_digits i) [1..<n + 1]"
proof -
  have "leading_digits (nat_digits n @ rest) = nat_digits n"
    unfolding leading_digits_def using assms(3) by (intro takeWhile_stop_append [OF nat_digits_all]) auto
  moreover have "Atoi_digits (nat_digits n) = Some n"
    using assms(2) by (simp add: Atoi_digits_def parse_nat_digits)
  ultimately show ?thesis using assms(1) by (simp add: releaseTags_def HasPrefix_def del: upt_Suc)
qed



subsection \<open>A concrete package\<close>

definition demo_golib :: golib where
  "demo_golib = \<lparr>go_ReleaseTags = [''go1.1''], go_MatchFile = (\<lambda>b n. Inr (n \<noteq> ''b.go'')), go_Imports = (\<lambda>n. Inr [])\<rparr>"

definition demo_checker :: "(unit, nat) gochecker" where
  "demo_checker =
     \<lparr>ck_parse = (\<lambda>n. (Some \<lparr>af_Name = Some (if n = ''x.go'' then ''p_test'' else ''p''), af_Decls = ()\<rparr>, None)),
      ck_stat = (\<lambda>n. None), ck_sizes = (\<lambda>a. True), ck_requests = (\<lambda>fs. [''fmt'', ''gone'']),
      ck_errors = (\<lambda>cfg n fs rs. [])\<rparr>"

definition demo_pkglib :: "nat pkglib" where
  "demo_pkglib = \<lparr>pk_unsafe = 0, pk_Complete = (\<lambda>p. True), pk_NewReader = Inr, pk_Read = (\<lambda>r m p. (m(p \<mapsto> 1), Inr 1))\<rparr>"

definition demo_package :: unitConfig where
  "demo_package = demo_unit\<lparr>Package := (Package demo_unit)\<lparr>GoFiles := [''a.go'', ''b.go'', ''x.go''], TestFilter := ''exclude''\<rparr>\<rparr>"

lemmas demo_package_eval = demo_package_def demo_golib_def demo_checker_def demo_unit_def typecheck_def filterByConstraints_def
  constrain_one_def notCgoFile_def parse_one_def test_filtered_def HasSuffix_def check_files_def Import_def demo_pkglib_def
  imp_file_def Let_def

theorem typecheck_selects_witness:
  "\<exists>cp. typecheck demo_golib demo_checker demo_pkglib id (demo_host (Inl ''none'')) demo_package = Inr cp \<and> cp_goFiles cp = [''a.go'']"
proof -
  obtain cp where cp: "typecheck demo_golib demo_checker demo_pkglib id (demo_host (Inl ''none'')) demo_package = Inr cp"
    by (simp add: demo_package_eval)
  have "cp_goFiles cp = [''a.go'']"
    using typecheck_selects [OF cp] by (simp add: builds_def keeps_file_def demo_package_eval)
  then show ?thesis using cp by blast
qed

theorem broken_inputs_exact_witness:
  "\<exists>es. check_files demo_checker demo_pkglib (demo_host (Inl ''none'')) demo_package [(''fmt'', ''fmt.a'')] [] ([], [], []) = Inl (BrokenInputs es)"
proof -
  have "ck_requests demo_checker [] = [] @ ''fmt'' # [''gone'']" by (simp add: demo_checker_def)
  moreover have "broken_import demo_pkglib (demo_host (Inl ''none'')) (importer_at demo_pkglib (demo_host (Inl ''none'')) [(''fmt'', ''fmt.a'')] demo_package []) ''fmt''"
    by (simp add: broken_import_def import_cached_def importer_at_def first_importer_def imp_file_def undecodable_def demo_host_def)
  ultimately show ?thesis
    by (subst broken_inputs_exact) (simp add: demo_checker_def, blast)
qed

lemma nat_digits_22: "nat_digits 22 = ''22''"
  by code_simp

theorem releaseTags_exact_witness:
  "length (releaseTags [] ''1.22rc1'') = 22"
  using releaseTags_exact [of 22 "''rc1''" "[]"] by (simp add: nat_digits_22 digit_val_def del: upt_Suc)

end
