(* ===== verification/UnitRun.thy ===== *)
theory UnitRun
  imports UnitTypecheck UnitStore AnalyzerGraph Registry Streaming
begin

text \<open>
  One unit action (\<^verbatim>\<open>internal/unit/unit.go\<close>: \<^verbatim>\<open>Run\<close>, \<^verbatim>\<open>selectRoots\<close>, \<^verbatim>\<open>typecheckDiagnostics\<close>, \<^verbatim>\<open>writeSarif\<close>;
  \<^verbatim>\<open>internal/unit/hermetic.go\<close>; \<^verbatim>\<open>internal/unit/module_mode.go\<close>): which analyzers run, what becomes of a package
  that does not compile, the exclusion stream, and the two declared outputs.

  An enabled analyzer of the registry is a pointer of the analyzer graph.  The body of the analysis with its
  facts, the SARIF rendering, the go.mod parser and the directive linter are arguments.
\<close>

subsection \<open>Linters that cannot run from declared inputs\<close>

record depguardRule =
  dg_Files :: "string list"
  dg_Allow :: "string list"
  dg_Deny :: "string list"

record goModSettings =
  gm_ReplaceAllowList :: "string list"
  gm_ReplaceLocal :: bool
  gm_ExcludeForbidden :: bool
  gm_RetractAllowNoExplanation :: bool
  gm_ToolchainForbidden :: bool
  gm_ToolForbidden :: bool
  gm_GoDebugForbidden :: bool
  gm_CheckModulePath :: bool
  gm_ToolchainPattern :: string
  gm_GoVersionPattern :: string

text \<open>The settings the unit driver reads itself; the rules are the values of a Go map of pointers.\<close>

record unitSettings =
  us_Depguard :: "depguardRule option list"
  us_GoMod :: goModSettings

definition hermeticUnsupported :: "(string \<times> string) list" where
  "hermeticUnsupported =
     [(''gomodguard'', ''requires the Go toolchain (`go env`) at analysis time; not runnable from declared inputs'')]"

definition rule_uses_gostd :: "depguardRule \<Rightarrow> bool" where
  "rule_uses_gostd r =
     list_ex (\<lambda>s. Contains s ''$gostd'') (dg_Files r @ dg_Allow r @ dg_Deny r)"

definition depguardUsesGostd :: "unitSettings option \<Rightarrow> bool" where
  "depguardUsesGostd gc =
     (case gc of
        None \<Rightarrow> False
      | Some s \<Rightarrow> list_ex (\<lambda>r. case r of None \<Rightarrow> False | Some r \<Rightarrow> rule_uses_gostd r) (us_Depguard s))"

definition gostd_warning :: string where
  "gostd_warning =
     ''linter depguard is not supported in unit mode when its rules use $gostd '' @
     ''(expansion lists $GOROOT/src, which is not a declared input); '' @
     ''rewrite the rule with explicit std package prefixes or drop $gostd''"

definition hermeticSkip :: "string \<Rightarrow> unitSettings option \<Rightarrow> string option" where
  "hermeticSkip name gc =
     (case map_of hermeticUnsupported name of
        Some reason \<Rightarrow> Some (''linter '' @ name @ '' is not supported in unit mode: '' @ reason)
      | None \<Rightarrow> if name = ''depguard'' \<and> depguardUsesGostd gc then Some gostd_warning else None)"

definition moduleScopedLinters :: "string list" where
  "moduleScopedLinters = [''gomoddirectives'']"

definition isModuleScoped :: "string \<Rightarrow> bool" where
  "isModuleScoped name \<longleftrightarrow> name \<in> set moduleScopedLinters"


subsection \<open>Roots\<close>

definition select_one ::
  "agraph \<Rightarrow> unitSettings option \<Rightarrow> ('c, nat) Resolved \<Rightarrow> analyzerEntry list \<times> string list \<Rightarrow> analyzerEntry list \<times> string list" where
  "select_one g gc r = (\<lambda>(roots, notes).
     case r_Analyzer r of
       None \<Rightarrow> (roots, notes)
     | Some a \<Rightarrow>
         if isModuleScoped (r_Name r) then (roots, notes)
         else case hermeticSkip (r_Name r) gc of
                Some warn \<Rightarrow> (roots, notes @ [warn])
              | None \<Rightarrow> (roots @ [\<lparr>ae_linter = an_Name (g a), ae_analyzer = a\<rparr>], notes))"

definition selectRoots ::
  "agraph \<Rightarrow> nat \<Rightarrow> ('c, nat) Registry \<Rightarrow> unitSettings option \<Rightarrow> string \<Rightarrow> (analyzerEntry list \<times> string list) option" where
  "selectRoots g fuel reg gc mode =
     (let (roots, notes) = fold (select_one g gc) (Enabled reg) ([], [])
      in if mode = ModeFactsOnly then map_option (\<lambda>rs. (rs, notes)) (factProducers g fuel roots) else Some (roots, notes))"


subsection \<open>Module mode\<close>

text \<open>The options of the directive linter, with the patterns compiled; a pattern that does not compile is left out.\<close>

record 'x goModOptions =
  go_settings :: goModSettings
  go_ToolchainPattern :: "'x option"
  go_GoVersionPattern :: "'x option"

definition compiled_pattern :: "(string \<Rightarrow> 'x option) \<Rightarrow> string \<Rightarrow> 'x option" where
  "compiled_pattern compile p = (if p = [] then None else compile p)"

definition empty_goModSettings :: goModSettings where
  "empty_goModSettings =
     \<lparr>gm_ReplaceAllowList = [], gm_ReplaceLocal = False, gm_ExcludeForbidden = False, gm_RetractAllowNoExplanation = False,
      gm_ToolchainForbidden = False, gm_ToolForbidden = False, gm_GoDebugForbidden = False, gm_CheckModulePath = False,
      gm_ToolchainPattern = [], gm_GoVersionPattern = []\<rparr>"

definition gomoddirectivesOptions :: "(string \<Rightarrow> 'x option) \<Rightarrow> unitSettings option \<Rightarrow> 'x goModOptions" where
  "gomoddirectivesOptions compile gc =
     (let s = (case gc of None \<Rightarrow> empty_goModSettings | Some u \<Rightarrow> us_GoMod u)
      in \<lparr>go_settings = s, go_ToolchainPattern = compiled_pattern compile (gm_ToolchainPattern s),
          go_GoVersionPattern = compiled_pattern compile (gm_GoVersionPattern s)\<rparr>)"

definition error_at :: "string \<Rightarrow> string \<Rightarrow> position \<Rightarrow> diagnostic" where
  "error_at l m p =
     \<lparr>Linter = l, Message = m, Severity = SeverityError, Pos = p, SourceLines = [], SuggestedFixes = [], Related = []\<rparr>"

definition runModuleMode ::
  "(bytes \<Rightarrow> 'm result) \<Rightarrow> ('m \<Rightarrow> (string \<times> int \<times> int) list) \<Rightarrow> host \<Rightarrow> unitConfig \<Rightarrow> ('c, nat) Registry
   \<Rightarrow> diagnostic list result" where
  "runModuleMode parse analyze h cfg reg =
     (if \<not> list_ex (\<lambda>r. isModuleScoped (r_Name r)) (Enabled reg) then Inr []
      else case h_read h (GoMod (Module cfg)) of
             Inl e \<Rightarrow> Inl (''unit: read go.mod: '' @ e)
           | Inr body \<Rightarrow>
               (case parse body of
                  Inl e \<Rightarrow> Inl (''unit: parse '' @ GoMod (Module cfg) @ '': '' @ e)
                | Inr mf \<Rightarrow>
                    Inr (if list_ex (\<lambda>r. r_Name r = ''gomoddirectives'') (Enabled reg)
                         then map (\<lambda>(reason, line, col).
                                error_at ''gomoddirectives'' reason \<lparr>Filename = GoMod (Module cfg), Line = line, Column = col\<rparr>)
                                (analyze mf)
                         else [])))"


subsection \<open>Run\<close>

definition typecheckDiagnostics :: "'a checkedPackage \<Rightarrow> diagnostic list" where
  "typecheckDiagnostics cp =
     map (\<lambda>(p, m). error_at ''typecheck'' m p) (parseErrorDiagnostics (cp_parseErrs cp))
     @ map (\<lambda>te. error_at ''typecheck'' (te_Msg te) (te_Pos te)) (cp_typeErrs cp)"

record execResult =
  er_diagnostics :: "diagnostic list"
  er_warnings :: "string list"
  er_facts :: bytes

record 'a analysisLib =
  al_typecheck :: "unitConfig \<Rightarrow> typecheck_error + 'a checkedPackage"
  al_module :: "unitConfig \<Rightarrow> diagnostic list result"
  al_analyze :: "unitConfig \<Rightarrow> 'a checkedPackage \<Rightarrow> analyzerEntry list \<Rightarrow> execResult result"
  al_render :: "unitConfig \<Rightarrow> diagnostic list \<Rightarrow> string list \<Rightarrow> bool \<Rightarrow> bytes result"

datatype run_error =
    ModuleFailed string
  | TypecheckFailed typecheck_error
  | AnalyzersFailed string
  | RenderFailed string
  | SarifWriteFailed string
  | FactsWriteFailed string

record analysisResult =
  ar_diags :: "diagnostic list"
  ar_facts :: bytes
  ar_warnings :: "string list"
  ar_files :: "string list"
  ar_compiled :: bool

definition not_compiled_warning :: "unitConfig \<Rightarrow> nat \<Rightarrow> string" where
  "not_compiled_warning cfg n =
     ''package '' @ pkg_Path (Package cfg) @ '' does not compile ('' @ nat_digits n @ '' typecheck findings); facts output is empty''"

definition analyze_package ::
  "'a analysisLib \<Rightarrow> agraph \<Rightarrow> nat \<Rightarrow> unitConfig \<Rightarrow> unitSettings option \<Rightarrow> ('c, nat) Registry
   \<Rightarrow> (run_error + analysisResult) option" where
  "analyze_package A g fuel cfg gc reg =
     (case al_typecheck A cfg of
        Inl e \<Rightarrow> Some (Inl (TypecheckFailed e))
      | Inr cp \<Rightarrow>
          if \<not> compiles cp then
            (let ds = typecheckDiagnostics cp
             in Some (Inr \<lparr>ar_diags = ds, ar_facts = [],
                  ar_warnings = (if EffectiveMode cfg = ModeFactsOnly then [not_compiled_warning cfg (length ds)] else []),
                  ar_files = cp_goFiles cp, ar_compiled = False\<rparr>))
          else
            Option.bind (selectRoots g fuel reg gc (EffectiveMode cfg)) (\<lambda>(roots, skipped).
              case al_analyze A cfg cp roots of
                Inl e \<Rightarrow> Some (Inl (AnalyzersFailed e))
              | Inr er \<Rightarrow>
                  Some (Inr \<lparr>ar_diags = (if EffectiveMode cfg = ModeFactsOnly then [] else er_diagnostics er),
                    ar_facts = er_facts er, ar_warnings = skipped @ er_warnings er, ar_files = cp_goFiles cp, ar_compiled = True\<rparr>)))"

definition analyze_mode ::
  "'a analysisLib \<Rightarrow> agraph \<Rightarrow> nat \<Rightarrow> unitConfig \<Rightarrow> unitSettings option \<Rightarrow> ('c, nat) Registry
   \<Rightarrow> (run_error + analysisResult) option" where
  "analyze_mode A g fuel cfg gc reg =
     (if EffectiveMode cfg = ModeModule then
        (case al_module A cfg of
           Inl e \<Rightarrow> Some (Inl (ModuleFailed e))
         | Inr ds \<Rightarrow> Some (Inr \<lparr>ar_diags = ds, ar_facts = [], ar_warnings = [], ar_files = [], ar_compiled = True\<rparr>))
      else if EffectiveMode cfg = ModeFull \<or> EffectiveMode cfg = ModeFactsOnly then analyze_package A g fuel cfg gc reg
      else Some (Inr \<lparr>ar_diags = [], ar_facts = [], ar_warnings = [], ar_files = [], ar_compiled = True\<rparr>))"

text \<open>
  The exclusion stream and the order of the findings.  The stream shares the filter with the session, so the
  filter is returned as the deferred \<^verbatim>\<open>Finish\<close> leaves it.
\<close>

definition finished :: "stream option \<Rightarrow> filter_state option" where
  "finished so = map_option sf (Finish so)"

definition filter_findings ::
  "fenv \<Rightarrow> filter_state option \<Rightarrow> unitConfig \<Rightarrow> diagnostic list \<Rightarrow> (filter_state option \<times> diagnostic list) option" where
  "filter_findings e fo cfg diags =
     (if EffectiveMode cfg = ModeFactsOnly then Some (finished (NewStream fo), [])
      else map_option (\<lambda>(so, out). (finished so, Sort out)) (AddPackage e (NewStream fo) (pkg_Path (Package cfg)) diags))"

definition write_outputs ::
  "'a analysisLib \<Rightarrow> wio \<Rightarrow> wio \<Rightarrow> ufs \<Rightarrow> unitConfig \<Rightarrow> diagnostic list \<Rightarrow> analysisResult \<Rightarrow> ufs \<times> run_error option" where
  "write_outputs A w1 w2 fs cfg diags ar =
     (case al_render A cfg diags (ar_files ar) (ar_compiled ar) of
        Inl e \<Rightarrow> (fs, Some (RenderFailed e))
      | Inr buf \<Rightarrow>
          (case unit_writeFileAtomic w1 fs (out_Sarif (Out cfg)) buf of
             (fs, Some e) \<Rightarrow> (fs, Some (SarifWriteFailed e))
           | (fs, None) \<Rightarrow>
               if out_Facts (Out cfg) = [] then (fs, None)
               else (case unit_writeFileAtomic w2 fs (out_Facts (Out cfg)) (wrapFacts (ar_facts ar)) of
                       (fs, Some e) \<Rightarrow> (fs, Some (FactsWriteFailed e))
                     | (fs, None) \<Rightarrow> (fs, None))))"

record runResult =
  res_Diagnostics :: "diagnostic list"
  res_Warnings :: "string list"

definition Run ::
  "'a analysisLib \<Rightarrow> agraph \<Rightarrow> nat \<Rightarrow> fenv \<Rightarrow> wio \<Rightarrow> wio \<Rightarrow> ufs \<Rightarrow> unitConfig \<Rightarrow> unitSettings option \<Rightarrow> ('c, nat) Registry
   \<Rightarrow> filter_state option \<Rightarrow> (ufs \<times> filter_state option \<times> (run_error + runResult)) option" where
  "Run A g fuel e w1 w2 fs cfg gc reg fo =
     Option.bind (analyze_mode A g fuel cfg gc reg) (\<lambda>r.
       case r of
         Inl err \<Rightarrow> Some (fs, finished (NewStream fo), Inl err)
       | Inr ar \<Rightarrow>
           Option.bind (filter_findings e fo cfg (ar_diags ar)) (\<lambda>(fo', diags).
             case write_outputs A w1 w2 fs cfg diags ar of
               (fs', Some err) \<Rightarrow> Some (fs', fo', Inl err)
             | (fs', None) \<Rightarrow> Some (fs', fo', Inr \<lparr>res_Diagnostics = diags, res_Warnings = ar_warnings ar\<rparr>)))"


subsection \<open>The declared outputs\<close>

text \<open>A write leaves the target as it was or complete, and touches nothing else but its temporary file.\<close>

lemma publish_target:
  assumes "publish tidy w fs p b = (fs', r)" "w_temp w \<noteq> Inr p"
  shows "fs' p = (if r = None then Some b else fs p)"
  using assms by (auto simp: publish_def u_remove_def split: option.splits sum.splits prod.splits if_splits)

lemma publish_ok: "publish tidy w fs p b = (fs', None) \<Longrightarrow> fs' p = Some b"
  by (auto simp: publish_def split: option.splits sum.splits prod.splits if_splits)

lemma publish_other:
  assumes "publish tidy w fs p b = (fs', r)" "q \<noteq> p" "w_temp w \<noteq> Inr q"
  shows "fs' q = fs q"
  using assms by (auto simp: publish_def u_remove_def split: option.splits sum.splits prod.splits if_splits)

definition outputs_apart :: "unitConfig \<Rightarrow> wio \<Rightarrow> bool" where
  "outputs_apart cfg w \<longleftrightarrow> out_Facts (Out cfg) \<noteq> out_Sarif (Out cfg) \<and> w_temp w \<noteq> Inr (out_Sarif (Out cfg))"

lemma write_outputs_ok:
  assumes "write_outputs A w1 w2 fs cfg diags ar = (fs', None)" "outputs_apart cfg w2"
  shows "\<exists>buf. al_render A cfg diags (ar_files ar) (ar_compiled ar) = Inr buf \<and> fs' (out_Sarif (Out cfg)) = Some buf
    \<and> (out_Facts (Out cfg) = [] \<or> fs' (out_Facts (Out cfg)) = Some (wrapFacts (ar_facts ar)))"
proof -
  obtain buf fs1 where b: "al_render A cfg diags (ar_files ar) (ar_compiled ar) = Inr buf"
    and s: "publish False w1 fs (out_Sarif (Out cfg)) buf = (fs1, None)"
    and f: "out_Facts (Out cfg) = [] \<and> fs' = fs1
      \<or> out_Facts (Out cfg) \<noteq> [] \<and> publish False w2 fs1 (out_Facts (Out cfg)) (wrapFacts (ar_facts ar)) = (fs', None)"
    using assms(1)
    by (auto simp: write_outputs_def unit_writeFileAtomic_def split: sum.splits prod.splits option.splits if_splits)
  from f show ?thesis
  proof
    assume "out_Facts (Out cfg) = [] \<and> fs' = fs1"
    then show ?thesis using b publish_ok [OF s] by auto
  next
    assume w: "out_Facts (Out cfg) \<noteq> [] \<and> publish False w2 fs1 (out_Facts (Out cfg)) (wrapFacts (ar_facts ar)) = (fs', None)"
    have "fs' (out_Sarif (Out cfg)) = fs1 (out_Sarif (Out cfg))"
      using publish_other [of False w2 fs1 "out_Facts (Out cfg)" _ fs' None "out_Sarif (Out cfg)"] w assms(2)
      by (auto simp: outputs_apart_def)
    then show ?thesis using b publish_ok [OF s] w publish_ok by auto
  qed
qed


subsection \<open>The filter across actions\<close>

lemma finished_config: "finished (Some s) = Some (config_of (sf s))"
  by (simp add: finished_def Finish_def config_of_def)

lemma filter_findings_exact:
  assumes "NewFilter rl xcfg base targets = Inr f0" and "filter_inv e f0 f"
  shows "filter_findings e (Some f) cfg ds =
    Some (Some (config_of f0),
      if EffectiveMode cfg = ModeFactsOnly then []
      else Sort (keep_spec (drops e f0) (uniqByLine f0) file_line {} ds))"
proof -
  have n: "nolint f0 \<noteq> None" using assms(1) NewFilter_nolint by blast
  obtain s where s: "NewStream (Some f) = Some s" "stream_inv e f0 {} s" using NewStream_inv [OF assms(2)] by blast
  obtain s' where s': "AddPackage e (Some s) (pkg_Path (Package cfg)) ds =
      Some (Some s', keep_spec (drops e f0) (uniqByLine f0) file_line {} ds)"
    "stream_inv e f0 ({} \<union> file_line ` {d \<in> set ds. \<not> drops e f0 d}) s'"
    using AddPackage_spec [OF s(2) n] by blast
  have "config_of (sf s) = config_of f0" "config_of (sf s') = config_of f0"
    using s(2) s'(2) by (simp_all add: stream_inv_def filter_inv_def)
  then show ?thesis by (simp add: filter_findings_def s(1) s'(1) finished_config)
qed

lemma finished_new: "filter_inv e f0 f \<Longrightarrow> finished (NewStream (Some f)) = Some (config_of f0)"
  by (simp add: NewStream_def finished_config filter_inv_def)

lemma analyze_package_facts:
  assumes "analyze_package A g fuel cfg gc reg = Some (Inr ar)" "\<not> ar_compiled ar"
  shows "ar_facts ar = []"
proof (cases "al_typecheck A cfg")
  case (Inl err)
  then show ?thesis using assms(1) by (simp add: analyze_package_def)
next
  case (Inr cp)
  show ?thesis
  proof (cases "selectRoots g fuel reg gc (EffectiveMode cfg)")
    case None
    then show ?thesis using assms Inr by (auto simp: analyze_package_def Let_def split: if_splits)
  next
    case (Some sel)
    obtain roots msgs where "sel = (roots, msgs)" by fastforce
    then show ?thesis using assms Inr Some
      by (cases "al_analyze A cfg cp roots") (auto simp: analyze_package_def Let_def split: if_splits)
  qed
qed

lemma analyze_mode_facts:
  assumes "analyze_mode A g fuel cfg gc reg = Some (Inr ar)"
  shows "ar_compiled ar \<or> ar_facts ar = []"
  using assms analyze_package_facts [of A g fuel cfg gc reg ar]
  by (cases "al_module A cfg") (auto simp: analyze_mode_def split: if_splits)

lemma Run_outputs:
  assumes "NewFilter rl xcfg base targets = Inr f0" and "filter_inv e f0 f" and "outputs_apart cfg w2"
    and "Run A g fuel e w1 w2 fs cfg gc reg (Some f) = Some (fs', fo', Inr res)"
  shows "\<exists>ar buf. analyze_mode A g fuel cfg gc reg = Some (Inr ar)
    \<and> res_Diagnostics res = (if EffectiveMode cfg = ModeFactsOnly then []
        else Sort (keep_spec (drops e f0) (uniqByLine f0) file_line {} (ar_diags ar)))
    \<and> al_render A cfg (res_Diagnostics res) (ar_files ar) (ar_compiled ar) = Inr buf
    \<and> fs' (out_Sarif (Out cfg)) = Some buf
    \<and> (out_Facts (Out cfg) = [] \<or> fs' (out_Facts (Out cfg)) = Some (wrapFacts (ar_facts ar)))
    \<and> (ar_compiled ar \<or> ar_facts ar = []) \<and> fo' = Some (config_of f0)"
proof -
  obtain r where r: "analyze_mode A g fuel cfg gc reg = Some r"
    using assms(4) by (cases "analyze_mode A g fuel cfg gc reg") (simp_all add: Run_def)
  then obtain ar where ar: "analyze_mode A g fuel cfg gc reg = Some (Inr ar)"
    using assms(4) by (cases r) (simp_all add: Run_def)
  let ?ds = "if EffectiveMode cfg = ModeFactsOnly then [] else Sort (keep_spec (drops e f0) (uniqByLine f0) file_line {} (ar_diags ar))"
  obtain fsx err where x: "write_outputs A w1 w2 fs cfg ?ds ar = (fsx, err)" by fastforce
  have "err = None" "fsx = fs'" and res: "res_Diagnostics res = ?ds" "fo' = Some (config_of f0)"
    using assms(4) x by (auto simp: Run_def ar filter_findings_exact [OF assms(1,2)] split: option.splits)
  then have w: "write_outputs A w1 w2 fs cfg ?ds ar = (fs', None)" using x by simp
  show ?thesis using ar analyze_mode_facts [OF ar] res write_outputs_ok [OF w assms(3)] by auto
qed

text \<open>
  C16. The contract of a unit action.  When it returns no error, the SARIF output is the rendering of the
  reported findings, the facts output, if declared, is the framed facts, the findings are exactly those of the
  analysis that the exclusion filter keeps, in order (none in facts-only mode), and a package that does not
  compile has an empty fact set.  The filter is left as it was configured, with nothing read by this action
  remembered for the next one.
\<close>

theorem Run_contract:
  assumes "NewFilter rl xcfg base targets = Inr f0" and "filter_inv e f0 f" and "outputs_apart cfg w2"
    and "Run A g fuel e w1 w2 fs cfg gc reg (Some f) = Some (fs', fo', Inr res)"
  shows "\<exists>ar buf. analyze_mode A g fuel cfg gc reg = Some (Inr ar)
    \<and> res_Diagnostics res = (if EffectiveMode cfg = ModeFactsOnly then []
        else Sort (keep_spec (drops e f0) (uniqByLine f0) file_line {} (ar_diags ar)))
    \<and> al_render A cfg (res_Diagnostics res) (ar_files ar) (ar_compiled ar) = Inr buf
    \<and> fs' (out_Sarif (Out cfg)) = Some buf
    \<and> (out_Facts (Out cfg) = [] \<or> fs' (out_Facts (Out cfg)) = Some (wrapFacts (ar_facts ar)))
    \<and> (ar_compiled ar \<or> ar_facts ar = []) \<and> fo' = Some (config_of f0)"
  using assms by (rule Run_outputs)


lemma Run_filter:
  assumes "NewFilter rl xcfg base targets = Inr f0" and "filter_inv e f0 f"
    and "Run A g fuel e w1 w2 fs cfg gc reg (Some f) = Some (fs', fo', r)"
  shows "fo' = Some (config_of f0)"
proof -
  obtain x where x: "analyze_mode A g fuel cfg gc reg = Some x"
    using assms(3) by (cases "analyze_mode A g fuel cfg gc reg") (simp_all add: Run_def)
  show ?thesis using assms(3)
    by (cases x) (auto simp: Run_def x filter_findings_exact [OF assms(1,2)] finished_new [OF assms(2)]
        split: prod.splits option.splits)
qed


subsection \<open>An action always returns\<close>

definition enabled_analyzers :: "('c, nat) Registry \<Rightarrow> nat set" where
  "enabled_analyzers reg = {a. \<exists>r\<in>set (Enabled reg). r_Analyzer r = Some a}"

lemma select_fold_roots:
  "ae_analyzer ` set (fst (fold (select_one g gc) rs (roots, msgs)))
     \<subseteq> ae_analyzer ` set roots \<union> {a. \<exists>r\<in>set rs. r_Analyzer r = Some a}"
proof (induction rs arbitrary: roots msgs)
  case (Cons r rs)
  obtain roots' msgs' where s: "select_one g gc r (roots, msgs) = (roots', msgs')" by fastforce
  then have sub: "ae_analyzer ` set roots' \<subseteq> ae_analyzer ` set roots \<union> {a. r_Analyzer r = Some a}"
    by (auto simp: select_one_def split: option.splits if_splits)
  have f: "fold (select_one g gc) (r # rs) (roots, msgs) = fold (select_one g gc) rs (roots', msgs')" by (simp add: s)
  have "{a. r_Analyzer r = Some a} \<union> {a. \<exists>x\<in>set rs. r_Analyzer x = Some a} = {a. \<exists>x\<in>set (r # rs). r_Analyzer x = Some a}" by auto
  then show ?case
    unfolding f using order_trans [OF Cons.IH Un_mono [OF sub order_refl], of msgs']
    by (simp only: Un_assoc)
qed simp

lemma selectRoots_total:
  assumes "finite (reach g (enabled_analyzers reg))" "card (reach g (enabled_analyzers reg)) < fuel"
  shows "\<exists>x. selectRoots g fuel reg gc mode = Some x"
proof -
  obtain roots msgs where s: "fold (select_one g gc) (Enabled reg) ([], []) = (roots, msgs)" by fastforce
  have "ae_analyzer ` set roots \<subseteq> enabled_analyzers reg"
    using select_fold_roots [of g gc "Enabled reg" "[]" "[]"] by (simp add: s enabled_analyzers_def)
  then have sub: "reach g (ae_analyzer ` set roots) \<subseteq> reach g (enabled_analyzers reg)" by (rule reach_mono)
  have "\<exists>out. factProducers g fuel roots = Some out"
    using factProducers_reach [of g roots fuel] finite_subset [OF sub assms(1)] card_mono [OF assms(1) sub] assms(2)
    by auto
  then show ?thesis by (auto simp: selectRoots_def s)
qed

text \<open>
  A unit action always returns: whatever the configuration, the package and the errors of the operating
  system, \<^verbatim>\<open>Run\<close> ends in a result or an error (there is no panic in the exclusion stream and the walk over the
  analyzer graph ends once its fuel exceeds the number of analyzers the enabled ones require).
\<close>

theorem Run_returns:
  assumes "NewFilter rl xcfg base targets = Inr f0" and "filter_inv e f0 f"
    and "finite (reach g (enabled_analyzers reg))" and "card (reach g (enabled_analyzers reg)) < fuel"
  shows "\<exists>out. Run A g fuel e w1 w2 fs cfg gc reg (Some f) = Some out"
proof -
  obtain sel where sel: "selectRoots g fuel reg gc (EffectiveMode cfg) = Some sel"
    using selectRoots_total [OF assms(3,4)] by blast
  obtain roots msgs where rn: "sel = (roots, msgs)" by fastforce
  have "analyze_package A g fuel cfg gc reg \<noteq> None"
    by (simp add: analyze_package_def sel rn Let_def split: sum.splits)
  then have "analyze_mode A g fuel cfg gc reg \<noteq> None" by (simp add: analyze_mode_def split: sum.splits)
  then obtain x where x: "analyze_mode A g fuel cfg gc reg = Some x" by blast
  show ?thesis
    by (cases x) (auto simp: Run_def x filter_findings_exact [OF assms(1,2)] split: prod.splits option.splits)
qed



subsection \<open>A concrete action\<close>

definition demo_lib :: "unit analysisLib" where
  "demo_lib =
     \<lparr>al_typecheck = (\<lambda>cfg. Inr \<lparr>cp_files = [], cp_name = ''p'', cp_typeErrs = [\<lparr>te_Pos = \<lparr>Filename = ''/m/a.go'', Line = 1, Column = 2\<rparr>, te_Msg = ''bad''\<rparr>],
        cp_parseErrs = [], cp_goFiles = [''/m/a.go''], cp_ignoredFiles = []\<rparr>),
      al_module = (\<lambda>cfg. Inr []), al_analyze = (\<lambda>cfg cp roots. Inl ''not run''), al_render = (\<lambda>cfg ds fs c. Inr ''{}'')\<rparr>"

definition demo_io :: wio where
  "demo_io = \<lparr>w_mkdir = None, w_temp = Inr ''tmp'', w_write = None, w_part = [], w_close = None, w_rename = None, w_remove = None\<rparr>"

definition demo_action :: unitConfig where
  "demo_action = demo_unit\<lparr>Analysis := (Analysis demo_unit)\<lparr>cfg_Mode := []\<rparr>, Out := \<lparr>out_Facts = ''f'', out_Sarif = ''o''\<rparr>\<rparr>"

definition demo_registry :: "(unit, nat) Registry" where
  "demo_registry = \<lparr>reg_catalog = newCatalog, reg_resolved = [], reg_enabled = [], reg_warnings = []\<rparr>"

lemma demo_filter_inv: "filter_inv demo_env demo_filter demo_filter"
  using NewFilter_caches_ok [OF demo_NewFilter] by (simp add: filter_inv_def)

lemma demo_modes: "EffectiveMode demo_action = ModeFull" "ModeFull \<noteq> ModeModule" "ModeFull \<noteq> ModeFactsOnly"
  by (simp_all add: EffectiveMode_def demo_action_def demo_unit_def ModeFull_def ModeModule_def ModeFactsOnly_def)

lemma demo_action_out: "Out demo_action = \<lparr>out_Facts = ''f'', out_Sarif = ''o''\<rparr>"
  by (simp add: demo_action_def)

theorem Run_contract_witness:
  "\<exists>fs' fo' res. Run demo_lib demo_graph 1 demo_env demo_io demo_io Map.empty demo_action None demo_registry (Some demo_filter) = Some (fs', fo', Inr res)
     \<and> fs' ''o'' = Some ''{}'' \<and> fs' ''f'' = Some (wrapFacts []) \<and> fo' = Some (config_of demo_filter)"
proof -
  obtain fs' fo' res where run: "Run demo_lib demo_graph 1 demo_env demo_io demo_io Map.empty demo_action None demo_registry (Some demo_filter)
      = Some (fs', fo', Inr res)"
    by (simp add: Run_def analyze_mode_def analyze_package_def demo_modes filter_findings_exact [OF demo_NewFilter demo_filter_inv]
        demo_lib_def compiles_def write_outputs_def unit_writeFileAtomic_def publish_def demo_io_def demo_action_out Let_def)
  have apart: "outputs_apart demo_action demo_io" by (simp add: outputs_apart_def demo_action_out demo_io_def)
  obtain ar where "analyze_mode demo_lib demo_graph 1 demo_action None demo_registry = Some (Inr ar)"
      "fs' ''o'' = Some ''{}''" "fs' ''f'' = Some (wrapFacts (ar_facts ar))" "fo' = Some (config_of demo_filter)"
    using Run_contract [OF demo_NewFilter demo_filter_inv apart run] by (auto simp: demo_action_out demo_lib_def)
  moreover from this(1) have "ar_facts ar = []"
    by (auto simp: analyze_mode_def analyze_package_def demo_modes demo_lib_def compiles_def Let_def)
  ultimately show ?thesis using run by auto
qed

theorem Run_returns_witness:
  "\<exists>out. Run demo_lib demo_graph 1 demo_env demo_io demo_io Map.empty demo_action None demo_registry (Some demo_filter) = Some out"
proof -
  have "enabled_analyzers demo_registry = {}" by (simp add: enabled_analyzers_def demo_registry_def Enabled_def)
  then have "reach demo_graph (enabled_analyzers demo_registry) = {}" by (simp add: reach_def)
  then show ?thesis by (intro Run_returns [OF demo_NewFilter demo_filter_inv]) simp_all
qed

end
