(* ===== verification/UnitSession.thy ===== *)
theory UnitSession
  imports UnitRun FileStore
begin

text \<open>
  The unit subcommand's process (\<^verbatim>\<open>cmd/plaid-lint/unit.go\<close>): params files, the session that memoizes the parsed
  configuration, the registry and the filter between requests, the lookup and the store side of the unit cache,
  and \<^verbatim>\<open>unitOnce\<close>.

  Building a registry also sets the package-global flags of the analyzers and does not reset those a
  configuration leaves alone; the flags are a component of the process state, read by the analysis.  So what a
  process answers is compared with a cold run only for processes that serve one configuration.  The rebuild that
  pins the type ids of facts, before the first analysis of a process, is part of the analysis library here: with one
  configuration every analysis of a process comes after it.  The configuration loader, the registry builder, the analysis and the
  regular expressions are arguments, collected in a driver; the session, its order of commits and the cache are
  modelled.  A request carries the host as it is during the request and the errors of its system calls.  The
  notes about a failed read of the cache and about a discarded hit keep their fixed text and leave out the error
  the code appends, which is a datatype here.
\<close>

subsection \<open>Params files\<close>

definition args_lines :: "bytes \<Rightarrow> string list" where
  "args_lines body = filter (\<lambda>l. l \<noteq> []) (map dropCR (split_on (CHR 0x0A) body))"

fun expandArgsFiles :: "(string \<Rightarrow> bytes result) \<Rightarrow> string list \<Rightarrow> string list result" where
  "expandArgsFiles read [] = Inr []"
| "expandArgsFiles read (arg # args) =
     (if \<not> HasPrefix arg ''@'' \<or> length arg = 1 then ebind (expandArgsFiles read args) (\<lambda>out. Inr (arg # out))
      else case read (drop 1 arg) of
             Inl e \<Rightarrow> Inl (''params file '' @ arg @ '': '' @ e)
           | Inr body \<Rightarrow> ebind (expandArgsFiles read args) (\<lambda>out. Inr (args_lines body @ out)))"


subsection \<open>The driver and the session\<close>

record ('w, 'g, 'c, 'a) unitDriver =
  ud_decode :: "bytes \<Rightarrow> unitConfig result"
  ud_default :: 'g
  ud_load :: "string \<Rightarrow> bytes \<Rightarrow> ('g \<times> string list) result"
  ud_validate :: "'g \<Rightarrow> string list"
  ud_build :: "'w \<Rightarrow> 'g \<Rightarrow> 'w \<times> ('g \<times> ('c, nat) Registry \<times> string list) result"
  ud_name :: "nat \<Rightarrow> string"
  ud_regex :: regex_lib
  ud_exclusions :: "'g \<Rightarrow> (linterexclusions \<times> string list) option"
  ud_settings :: "'g \<Rightarrow> unitSettings option"
  ud_graph :: agraph
  ud_fuel :: nat
  ud_lib :: "'w \<Rightarrow> host \<Rightarrow> 'a analysisLib"
  ud_env :: "host \<Rightarrow> fenv"
  ud_error :: "run_error \<Rightarrow> string"
  ud_loaderr :: "load_error \<Rightarrow> string"

record ('w, 'g, 'c) unitSession =
  us_configPath :: string
  us_digest :: bytes
  us_enableOnly :: string
  us_state :: "('g \<times> ('c, nat) Registry \<times> filter_state) option"
  us_cache :: "string option"
  us_toolID :: string
  us_flags :: 'w

record unitReq =
  rq_host :: host
  rq_fuel :: nat
  rq_iter :: "(string \<times> string) list \<Rightarrow> (string \<times> string) list"
  rq_path :: string
  rq_read :: "string option"
  rq_w1 :: wio
  rq_w2 :: wio
  rq_r1 :: wio
  rq_r2 :: wio
  rq_put :: wio

definition exitSuccess :: nat where "exitSuccess = 0"
definition exitInternalError :: nat where "exitInternalError = 3"
definition exitConfigError :: nat where "exitConfigError = 7"

definition zero_digest :: bytes where "zero_digest = replicate 32 (CHR 0x00)"

definition mustGetwd :: "host \<Rightarrow> string" where
  "mustGetwd h = (case h_wd h of Inl _ \<Rightarrow> [] | Inr wd \<Rightarrow> wd)"

text \<open>Opening the store and identifying the binary are best effort: either failure leaves the cache off.\<close>

definition newUnitSession ::
  "string \<Rightarrow> string result \<Rightarrow> string result \<Rightarrow> 'w \<Rightarrow> ('w, 'g, 'c) unitSession \<times> string list" where
  "newUnitSession cacheDir opened toolID w =
     (let sess = \<lparr>us_configPath = [], us_digest = zero_digest, us_enableOnly = [], us_state = None, us_cache = None,
                  us_toolID = [], us_flags = w\<rparr>
      in if cacheDir = [] then (sess, [])
         else case opened of
                Inl e \<Rightarrow> (sess, [''warning: unit cache disabled: '' @ e])
              | Inr root \<Rightarrow>
                  (case toolID of
                     Inl e \<Rightarrow> (sess, [''warning: unit cache disabled: '' @ e])
                   | Inr t \<Rightarrow> (sess\<lparr>us_cache := Some root, us_toolID := t\<rparr>, [])))"


subsection \<open>The cache side of a request\<close>

definition unitCacheOutputs :: "unitConfig \<Rightarrow> Outputs" where
  "unitCacheOutputs cfg = \<lparr>o_Sarif = out_Sarif (Out cfg), o_Facts = out_Facts (Out cfg)\<rparr>"

text \<open>The store and key to fill after a miss, the entry that satisfied the action, the notes, and the files.\<close>

type_synonym lookup = "(string \<times> bytes) option \<times> unitEntry option \<times> string list \<times> ufs"

definition unitCacheLookup :: "unitReq \<Rightarrow> ('w, 'g, 'c) unitSession \<Rightarrow> ufs \<Rightarrow> unitConfig \<Rightarrow> lookup option" where
  "unitCacheLookup rq sess fs cfg =
     (case us_cache sess of
        None \<Rightarrow> Some (None, None, [], fs)
      | Some root \<Rightarrow>
          (case unit_ComputeKey (rq_host rq) (rq_fuel rq) (rq_iter rq) (rq_path rq) cfg (us_toolID sess) of
             None \<Rightarrow> None
           | Some (Inl e) \<Rightarrow> Some (None, None, [''warning: unit cache skipped for this action: '' @ e], fs)
           | Some (Inr key) \<Rightarrow>
               (case store_Get root (rq_read rq) fs key of
                  Inl e \<Rightarrow> Some (Some (root, key), None, [''warning: unit cache read failed''], fs)
                | Inr None \<Rightarrow> Some (Some (root, key), None, [], fs)
                | Inr (Some entry) \<Rightarrow>
                    (case Entry_Write (rq_w1 rq) (rq_w2 rq) fs entry (unitCacheOutputs cfg) of
                       (fs', Some e) \<Rightarrow> Some (Some (root, key), None, [''warning: unit cache hit discarded''], fs')
                     | (fs', None) \<Rightarrow> Some (Some (root, key), Some entry, [], fs')))))"

definition read_file :: "ufs \<Rightarrow> string \<Rightarrow> bytes result" where
  "read_file fs p = (case fs p of Some b \<Rightarrow> Inr b | None \<Rightarrow> Inl ''no such file'')"

definition unitCacheStore :: "unitReq \<Rightarrow> (string \<times> bytes) option \<Rightarrow> ufs \<Rightarrow> unitConfig \<Rightarrow> string list \<Rightarrow> ufs \<times> string list" where
  "unitCacheStore rq attempt fs cfg msgs =
     (case attempt of
        None \<Rightarrow> (fs, [])
      | Some (root, key) \<Rightarrow>
          (case ReadOutputs (read_file fs) (unitCacheOutputs cfg) msgs of
             Inl e \<Rightarrow> (fs, [''warning: unit cache write failed: '' @ e])
           | Inr entry \<Rightarrow>
               (case store_Put root (rq_put rq) fs key entry of
                  (fs', Some e) \<Rightarrow> (fs', [''warning: unit cache write failed: '' @ e])
                | (fs', None) \<Rightarrow> (fs', []))))"


subsection \<open>The session side of a request\<close>

text \<open>
  Everything a process derives from a \<^verbatim>\<open>.golangci\<close> file: the flags it leaves, and an exit code with the
  message, or the session state with the warnings.
\<close>

definition golangci_source :: "('w, 'g, 'c, 'a) unitDriver \<Rightarrow> string \<Rightarrow> bytes \<Rightarrow> ('g \<times> string list) result" where
  "golangci_source D path body = (if path = [] then Inr (ud_default D, []) else ud_load D path body)"

definition select_only :: "('w, 'g, 'c, 'a) unitDriver \<Rightarrow> string list \<Rightarrow> ('c, nat) Registry \<Rightarrow> ('c, nat) Registry result" where
  "select_only D only reg = (if only = [] then Inr reg else SelectAnalyzers (ud_name D) only reg)"

definition build_session ::
  "('w, 'g, 'c, 'a) unitDriver \<Rightarrow> 'w \<Rightarrow> string \<Rightarrow> string \<Rightarrow> bytes \<Rightarrow> string list
   \<Rightarrow> 'w \<times> (nat \<times> string list + ('g \<times> ('c, nat) Registry \<times> filter_state) \<times> string list)" where
  "build_session D w wd path body only =
     (case golangci_source D path body of
        Inl e \<Rightarrow> (w, Inl (exitConfigError, [e]))
      | Inr (g, ws) \<Rightarrow>
          if ud_validate D g \<noteq> [] then (w, Inl (exitConfigError, ws @ ud_validate D g))
          else case ud_build D w g of
                 (w', Inl e) \<Rightarrow> (w', Inl (exitInternalError, ws @ [e]))
               | (w', Inr (g', reg, rws)) \<Rightarrow>
                   (case select_only D only reg of
                      Inl e \<Rightarrow> (w', Inl (exitInternalError, ws @ rws @ [e]))
                    | Inr reg' \<Rightarrow>
                        (case NewFilter (ud_regex D) (ud_exclusions D g') wd [] of
                           Inl e \<Rightarrow> (w', Inl (exitInternalError, ws @ rws @ [''exclusion filter: '' @ e]))
                         | Inr f \<Rightarrow> (w', Inr ((g', reg', f), ws @ rws)))))"

definition config_body :: "host \<Rightarrow> unitConfig \<Rightarrow> bytes result" where
  "config_body h cfg =
     (let p = golangci_Config (Analysis cfg) in if p = [] then Inr [] else h_read h p)"

definition config_digest :: "unitConfig \<Rightarrow> bytes \<Rightarrow> bytes" where
  "config_digest cfg body = (if golangci_Config (Analysis cfg) = [] then zero_digest else sha256 body)"

definition joined_only :: "unitConfig \<Rightarrow> string" where
  "joined_only cfg = join_with '','' (EnableOnly (Analysis cfg))"

definition memo_hit :: "('w, 'g, 'c) unitSession \<Rightarrow> unitConfig \<Rightarrow> bytes \<Rightarrow> bool" where
  "memo_hit sess cfg body \<longleftrightarrow>
     us_state sess \<noteq> None \<and> us_configPath sess = golangci_Config (Analysis cfg)
     \<and> us_digest sess = config_digest cfg body \<and> us_enableOnly sess = joined_only cfg"

text \<open>
  The session after the memo test: the fields are committed only when every stage succeeded, the flags are
  whatever the builder left.
\<close>

definition refresh ::
  "('w, 'g, 'c, 'a) unitDriver \<Rightarrow> host \<Rightarrow> unitConfig \<Rightarrow> bytes \<Rightarrow> ('w, 'g, 'c) unitSession
   \<Rightarrow> ('w, 'g, 'c) unitSession \<times> (nat \<times> string list + string list)" where
  "refresh D h cfg body sess =
     (if memo_hit sess cfg body then (sess, Inr [])
      else case build_session D (us_flags sess) (mustGetwd h) (golangci_Config (Analysis cfg)) body (EnableOnly (Analysis cfg)) of
             (w, Inl err) \<Rightarrow> (sess\<lparr>us_flags := w\<rparr>, Inl err)
           | (w, Inr (st, msgs)) \<Rightarrow>
               (sess\<lparr>us_flags := w, us_configPath := golangci_Config (Analysis cfg), us_digest := config_digest cfg body,
                     us_enableOnly := joined_only cfg, us_state := Some st\<rparr>, Inr msgs))"

definition run_session ::
  "('w, 'g, 'c, 'a) unitDriver \<Rightarrow> unitReq \<Rightarrow> unitConfig \<Rightarrow> ('w, 'g, 'c) unitSession \<Rightarrow> ufs
   \<Rightarrow> (('w, 'g, 'c) unitSession \<times> ufs \<times> (run_error + runResult)) option" where
  "run_session D rq cfg sess fs =
     (case us_state sess of
        None \<Rightarrow> None
      | Some (g, reg, f) \<Rightarrow>
          map_option (\<lambda>(fs', fo, r). (sess\<lparr>us_state := Some (g, reg, case fo of Some f' \<Rightarrow> f' | None \<Rightarrow> f)\<rparr>, fs', r))
            (Run (ud_lib D (us_flags sess) (rq_host rq)) (ud_graph D) (ud_fuel D) (ud_env D (rq_host rq)) (rq_r1 rq) (rq_r2 rq)
               fs cfg (ud_settings D g) reg (Some f)))"

definition req_config :: "('w, 'g, 'c, 'a) unitDriver \<Rightarrow> unitReq \<Rightarrow> load_error + unitConfig" where
  "req_config D rq = LoadConfig (h_read (rq_host rq)) (ud_decode D) (rq_path rq)"

type_synonym ('w, 'g, 'c) answer = "(('w, 'g, 'c) unitSession \<times> ufs \<times> nat \<times> string list) option"

definition unit_run ::
  "('w, 'g, 'c, 'a) unitDriver \<Rightarrow> unitReq \<Rightarrow> unitConfig \<Rightarrow> (string \<times> bytes) option \<Rightarrow> string list
   \<Rightarrow> ('w, 'g, 'c) unitSession \<Rightarrow> ufs \<Rightarrow> ('w, 'g, 'c) answer" where
  "unit_run D rq cfg attempt cacheMsgs sess fs =
     (case config_body (rq_host rq) cfg of
        Inl e \<Rightarrow> Some (sess, fs, exitConfigError, [''read config: '' @ e])
      | Inr body \<Rightarrow>
          (case refresh D (rq_host rq) cfg body sess of
             (sess1, Inl (code, msgs)) \<Rightarrow> Some (sess1, fs, code, msgs)
           | (sess1, Inr msgs) \<Rightarrow>
               (case run_session D rq cfg sess1 fs of
                  None \<Rightarrow> None
                | Some (sess2, fs', Inl e) \<Rightarrow> Some (sess2, fs', exitInternalError, msgs @ [ud_error D e])
                | Some (sess2, fs', Inr res) \<Rightarrow>
                    (let msgs = msgs @ map (\<lambda>w. ''warning: '' @ w) (res_Warnings res);
                         (fs'', storeMsgs) = unitCacheStore rq attempt fs' cfg msgs
                     in Some (sess2, fs'', exitSuccess, msgs @ cacheMsgs @ storeMsgs)))))"

definition unitOnce ::
  "('w, 'g, 'c, 'a) unitDriver \<Rightarrow> unitReq \<Rightarrow> ('w, 'g, 'c) unitSession \<Rightarrow> ufs \<Rightarrow> ('w, 'g, 'c) answer" where
  "unitOnce D rq sess fs =
     (case req_config D rq of
        Inl e \<Rightarrow> Some (sess, fs, exitInternalError, [ud_loaderr D e])
      | Inr cfg \<Rightarrow>
          (case unitCacheLookup rq sess fs cfg of
             None \<Rightarrow> None
           | Some (attempt, Some entry, notes', fs') \<Rightarrow> Some (sess, fs', exitSuccess, Warnings entry @ notes')
           | Some (attempt, None, notes', fs') \<Rightarrow> unit_run D rq cfg attempt notes' sess fs'))"



subsection \<open>A cold run\<close>

text \<open>What a fresh process without a cache writes: the two outputs, if it succeeds.\<close>

definition run_bytes ::
  "'a analysisLib \<Rightarrow> agraph \<Rightarrow> nat \<Rightarrow> fenv \<Rightarrow> unitConfig \<Rightarrow> unitSettings option \<Rightarrow> ('c, nat) Registry \<Rightarrow> filter_state
   \<Rightarrow> (bytes \<times> bytes) option" where
  "run_bytes A g fuel e cfg gc reg f =
     (case analyze_mode A g fuel cfg gc reg of
        Some (Inr ar) \<Rightarrow>
          (case al_render A cfg (if EffectiveMode cfg = ModeFactsOnly then []
                                 else Sort (keep_spec (drops e f) (uniqByLine f) file_line {} (ar_diags ar)))
                  (ar_files ar) (ar_compiled ar) of
             Inr buf \<Rightarrow> Some (buf, wrapFacts (ar_facts ar))
           | Inl _ \<Rightarrow> None)
      | _ \<Rightarrow> None)"

definition cold :: "('w, 'g, 'c, 'a) unitDriver \<Rightarrow> 'w \<Rightarrow> host \<Rightarrow> unitConfig \<Rightarrow> (bytes \<times> bytes) option" where
  "cold D w h cfg =
     (case config_body h cfg of
        Inl _ \<Rightarrow> None
      | Inr body \<Rightarrow>
          (case build_session D w (mustGetwd h) (golangci_Config (Analysis cfg)) body (EnableOnly (Analysis cfg)) of
             (_, Inl _) \<Rightarrow> None
           | (w', Inr ((g, reg, f), _)) \<Rightarrow>
               run_bytes (ud_lib D w' h) (ud_graph D) (ud_fuel D) (ud_env D h) cfg (ud_settings D g) reg f))"

definition left_by :: "(bytes \<times> bytes) option \<Rightarrow> unitConfig \<Rightarrow> ufs \<Rightarrow> bool" where
  "left_by out cfg fs \<longleftrightarrow>
     (\<exists>s x. out = Some (s, x) \<and> fs (out_Sarif (Out cfg)) = Some s
        \<and> (out_Facts (Out cfg) = [] \<or> fs (out_Facts (Out cfg)) = Some x))"

lemma build_session_filter:
  assumes "build_session D w wd path body only = (v, Inr ((g, reg, f), msgs))"
  shows "NewFilter (ud_regex D) (ud_exclusions D g) wd [] = Inr f"
  using assms by (auto simp: build_session_def split: sum.splits prod.splits if_splits)

lemma NewFilter_config: "NewFilter rl xcfg base targets = Inr f \<Longrightarrow> config_of f = f"
  by (auto simp: NewFilter_def config_of_def split: option.splits prod.splits sum.splits)


subsection \<open>The memo\<close>

definition only_ok :: "unitConfig \<Rightarrow> bool" where
  "only_ok cfg \<longleftrightarrow> list_all (\<lambda>n. n \<noteq> [] \<and> CHR '','' \<notin> set n) (EnableOnly (Analysis cfg))"

lemma join_nonempty: "n \<noteq> [] \<Longrightarrow> join_with sep (n # ns) \<noteq> []"
  by (cases ns) simp_all

lemma joined_only_inject:
  assumes "only_ok c1" "only_ok c2" "joined_only c1 = joined_only c2"
  shows "EnableOnly (Analysis c1) = EnableOnly (Analysis c2)"
proof -
  let ?a = "EnableOnly (Analysis c1)" and ?b = "EnableOnly (Analysis c2)"
  have j: "join_with '','' ?a = join_with '','' ?b" using assms(3) by (simp add: joined_only_def)
  have e: "ns = []" if "join_with '','' ns = []" "list_all (\<lambda>n. n \<noteq> [] \<and> CHR '','' \<notin> set n) ns" for ns :: "string list"
    using that join_nonempty [of _ "'',''"] by (cases ns) auto
  have iff: "?a = [] \<longleftrightarrow> ?b = []"
    using e [OF _ assms(1) [unfolded only_ok_def]] e [OF _ assms(2) [unfolded only_ok_def]] j by (metis join_with.simps(1))
  show ?thesis
  proof (cases "?a = []")
    case True
    then show ?thesis using iff by simp
  next
    case False
    then have "?b \<noteq> []" using iff by simp
    with False have "split_on (CHR '','') (join_with '','' ?a) = ?a" "split_on (CHR '','') (join_with '','' ?b) = ?b"
      using assms(1,2) by (auto simp: only_ok_def list_all_iff intro!: split_join_with)
    then show ?thesis using j by metis
  qed
qed

definition contents_clash :: "host \<Rightarrow> host \<Rightarrow> bool" where
  "contents_clash h1 h2 \<longleftrightarrow> (\<exists>p c1 c2. h_read h1 p = Inr c1 \<and> h_read h2 p = Inr c2 \<and> collision sha256 c1 c2)"

lemma same_config_body:
  assumes "config_body h1 c1 = Inr b1" "config_body h2 c2 = Inr b2" "\<not> contents_clash h1 h2"
    and "golangci_Config (Analysis c1) = golangci_Config (Analysis c2)" "config_digest c1 b1 = config_digest c2 b2"
  shows "b1 = b2"
proof (cases "golangci_Config (Analysis c2) = []")
  case True
  then show ?thesis using assms(1,2,4) by (simp add: config_body_def)
next
  case False
  then have r: "h_read h1 (golangci_Config (Analysis c2)) = Inr b1" "h_read h2 (golangci_Config (Analysis c2)) = Inr b2"
    and "sha256 b1 = sha256 b2"
    using assms(1,2,4,5) by (simp_all add: config_body_def config_digest_def)
  then show ?thesis using assms(3) unfolding contents_clash_def collision_def by blast
qed

text \<open>
  A memoized session answers only for the configuration it was built from: the same path, the same contents unless two
  texts collide, and the same selection of analyzers as long as no name in it is empty or has a comma.
\<close>

lemma memo_same_config:
  assumes "refresh D h1 c1 b1 sess0 = (sess, Inr ms)" "config_body h1 c1 = Inr b1" "config_body h2 c2 = Inr b2" "only_ok c1" "only_ok c2"
    and "memo_hit sess c2 b2" "\<not> memo_hit sess0 c1 b1" "\<not> contents_clash h1 h2"
  shows "golangci_Config (Analysis c1) = golangci_Config (Analysis c2) \<and> b1 = b2 \<and> EnableOnly (Analysis c1) = EnableOnly (Analysis c2)"
proof -
  have "us_configPath sess = golangci_Config (Analysis c1)" "us_digest sess = config_digest c1 b1" "us_enableOnly sess = joined_only c1"
    using assms(1,7) by (auto simp: refresh_def split: prod.splits sum.splits)
  then have e: "golangci_Config (Analysis c1) = golangci_Config (Analysis c2)" "config_digest c1 b1 = config_digest c2 b2" "joined_only c1 = joined_only c2"
    using assms(6) by (simp_all add: memo_hit_def)
  show ?thesis using e(1) same_config_body [OF assms(2,3,8) e(1,2)] joined_only_inject [OF assms(4,5) e(3)] by simp
qed


subsection \<open>One configuration per process\<close>

text \<open>The path and the contents of the configuration file, and the selection of analyzers, that a process serves.\<close>

type_synonym unit_setup = "string \<times> bytes \<times> string list"

definition setup_of :: "unitConfig \<Rightarrow> bytes \<Rightarrow> unit_setup" where
  "setup_of cfg body = (golangci_Config (Analysis cfg), body, EnableOnly (Analysis cfg))"

definition build_setup ::
  "('w, 'g, 'c, 'a) unitDriver \<Rightarrow> 'w \<Rightarrow> string \<Rightarrow> unit_setup
   \<Rightarrow> 'w \<times> (nat \<times> string list + ('g \<times> ('c, nat) Registry \<times> filter_state) \<times> string list)" where
  "build_setup D w wd c = (case c of (path, body, only) \<Rightarrow> build_session D w wd path body only)"

definition accepted :: "('w, 'g, 'c, 'a) unitDriver \<Rightarrow> 'w \<Rightarrow> string \<Rightarrow> unit_setup \<Rightarrow> bool" where
  "accepted D w wd c \<longleftrightarrow> (\<exists>v st msgs. build_setup D w wd c = (v, Inr (st, msgs)))"

text \<open>The session holds what the build from the start flags gave, or nothing was built yet.\<close>

definition built :: "('w, 'g, 'c, 'a) unitDriver \<Rightarrow> 'w \<Rightarrow> string \<Rightarrow> unit_setup \<Rightarrow> ('w, 'g, 'c) unitSession \<Rightarrow> bool" where
  "built D w wd c sess \<longleftrightarrow>
     (\<exists>st msgs. us_state sess = Some st \<and> build_setup D w wd c = (us_flags sess, Inr (st, msgs)) \<and> us_configPath sess = fst c
        \<and> us_digest sess = (if fst c = [] then zero_digest else sha256 (fst (snd c))) \<and> us_enableOnly sess = join_with '','' (snd (snd c)))"

definition coherent :: "('w, 'g, 'c, 'a) unitDriver \<Rightarrow> 'w \<Rightarrow> string \<Rightarrow> unit_setup \<Rightarrow> ('w, 'g, 'c) unitSession \<Rightarrow> bool" where
  "coherent D w wd c sess \<longleftrightarrow> us_state sess = None \<and> us_flags sess = w \<or> built D w wd c sess"

lemma refresh_built:
  assumes "accepted D w wd c" "coherent D w wd c sess" "setup_of cfg body = c" "mustGetwd h = wd"
  obtains sess1 ms where "refresh D h cfg body sess = (sess1, Inr ms)" "built D w wd c sess1"
proof (cases "us_state sess = None")
  case True
  then have w: "us_flags sess = w" using assms(2) by (auto simp: coherent_def built_def)
  obtain v st msgs where "build_session D w wd (golangci_Config (Analysis cfg)) body (EnableOnly (Analysis cfg)) = (v, Inr (st, msgs))"
    using assms(1,3) by (auto simp: accepted_def build_setup_def setup_of_def)
  note b = this
  let ?sess = "sess\<lparr>us_flags := v, us_configPath := golangci_Config (Analysis cfg), us_digest := config_digest cfg body,
      us_enableOnly := joined_only cfg, us_state := Some st\<rparr>"
  show ?thesis
  proof (rule that)
    show "refresh D h cfg body sess = (?sess, Inr msgs)" using b True w assms(4) by (simp add: refresh_def memo_hit_def)
    show "built D w wd c ?sess"
      using b assms(3) by (auto simp: built_def build_setup_def setup_of_def config_digest_def joined_only_def)
  qed
next
  case False
  then have b: "built D w wd c sess" using assms(2) by (auto simp: coherent_def)
  then have "memo_hit sess cfg body"
    using assms(3) by (auto simp: built_def memo_hit_def setup_of_def config_digest_def joined_only_def)
  then show ?thesis using that [OF _ b] by (simp add: refresh_def)
qed

subsection \<open>A run from the session is a cold run\<close>

text \<open>
  Where a request may write: its outputs are two files outside the store, and temporary names are neither
  outputs nor entries.
\<close>

definition temps :: "unitReq \<Rightarrow> string set" where
  "temps rq = {t. \<exists>w\<in>{rq_w1 rq, rq_w2 rq, rq_r1 rq, rq_r2 rq, rq_put rq}. w_temp w = Inr t}"

definition entry_paths :: "string \<Rightarrow> string set" where
  "entry_paths root = store_path root ` {k. length k = 32}"

definition apart :: "string \<Rightarrow> unitReq \<Rightarrow> unitConfig \<Rightarrow> bool" where
  "apart root rq cfg \<longleftrightarrow>
     out_Facts (Out cfg) \<noteq> out_Sarif (Out cfg)
     \<and> {out_Sarif (Out cfg), out_Facts (Out cfg)} \<inter> entry_paths root = {}
     \<and> temps rq \<inter> ({out_Sarif (Out cfg), out_Facts (Out cfg)} \<union> entry_paths root) = {}"

lemma apart_temps:
  assumes "apart root rq cfg" "w \<in> {rq_w1 rq, rq_w2 rq, rq_r1 rq, rq_r2 rq, rq_put rq}"
  shows "w_temp w \<noteq> Inr (out_Sarif (Out cfg))" "w_temp w \<noteq> Inr (out_Facts (Out cfg))"
    "length k = 32 \<Longrightarrow> w_temp w \<noteq> Inr (store_path root k)"
proof -
  have t: "t \<in> temps rq" if "w_temp w = Inr t" for t using assms(2) that unfolding temps_def by blast
  have "temps rq \<inter> ({out_Sarif (Out cfg), out_Facts (Out cfg)} \<union> entry_paths root) = {}" using assms(1) by (simp only: apart_def)
  then show "w_temp w \<noteq> Inr (out_Sarif (Out cfg))" "w_temp w \<noteq> Inr (out_Facts (Out cfg))"
    "length k = 32 \<Longrightarrow> w_temp w \<noteq> Inr (store_path root k)"
    using t unfolding entry_paths_def by blast+
qed

lemma apart_outputs: "apart root rq cfg \<Longrightarrow> outputs_apart cfg (rq_r2 rq)"
  using apart_temps(1) [of root rq cfg "rq_r2 rq"] by (simp add: outputs_apart_def apart_def)

lemma Run_bytes:
  assumes "NewFilter rl xcfg base targets = Inr f" and "outputs_apart cfg w2"
    and "Run A g fuel e w1 w2 fs cfg gc reg (Some f) = Some (fs', fo, Inr res)"
  shows "fo = Some f \<and> left_by (run_bytes A g fuel e cfg gc reg f) cfg fs'"
proof -
  have i: "filter_inv e f f" using NewFilter_caches_ok [OF assms(1)] by (simp add: filter_inv_def)
  obtain ar buf where "analyze_mode A g fuel cfg gc reg = Some (Inr ar)"
    "res_Diagnostics res = (if EffectiveMode cfg = ModeFactsOnly then []
        else Sort (keep_spec (drops e f) (uniqByLine f) file_line {} (ar_diags ar)))"
    "al_render A cfg (res_Diagnostics res) (ar_files ar) (ar_compiled ar) = Inr buf"
    "fs' (out_Sarif (Out cfg)) = Some buf"
    "out_Facts (Out cfg) = [] \<or> fs' (out_Facts (Out cfg)) = Some (wrapFacts (ar_facts ar))" "fo = Some (config_of f)"
    using Run_outputs [OF assms(1) i assms(2,3)] by blast
  then show ?thesis by (auto simp: left_by_def run_bytes_def NewFilter_config [OF assms(1)])
qed


subsection \<open>The store stays honest\<close>

text \<open>An action that was performed: the request and the identity of the tool that performed it.\<close>

type_synonym performed = "unitReq \<times> string"

definition action_key ::
  "(string \<Rightarrow> ('w, 'g, 'c, 'a) unitDriver) \<Rightarrow> performed \<Rightarrow> unitConfig \<Rightarrow> item list \<Rightarrow> bool" where
  "action_key Dv a cfg its \<longleftrightarrow>
     req_config (Dv (snd a)) (fst a) = Inr cfg \<and> plain_names (rq_host (fst a))
     \<and> key_written (rq_host (fst a)) (rq_fuel (fst a)) (rq_iter (fst a)) (rq_path (fst a)) cfg (snd a) = Some (Inr its)
     \<and> list_all go_len (concat (map item_chunks its))"

definition entry_of :: "(bytes \<times> bytes) option \<Rightarrow> unitConfig \<Rightarrow> unitEntry \<Rightarrow> bool" where
  "entry_of out cfg e \<longleftrightarrow>
     (\<exists>s x. out = Some (s, x) \<and> Sarif e = s \<and> HasFacts e = (out_Facts (Out cfg) \<noteq> []) \<and> (HasFacts e \<longrightarrow> Facts e = x))"

text \<open>Every entry that can be served is what a cold run of some performed action writes.\<close>

definition honest ::
  "(string \<Rightarrow> ('w, 'g, 'c, 'a) unitDriver) \<Rightarrow> 'w \<Rightarrow> performed set \<Rightarrow> string \<Rightarrow> ufs \<Rightarrow> bool" where
  "honest Dv w past root fs \<longleftrightarrow>
     (\<forall>k body e. length k = 32 \<longrightarrow> fs (store_path root k) = Some body \<longrightarrow> decodeEntry k body = Inr e \<longrightarrow>
        (\<exists>a\<in>past. \<exists>cfg its. action_key Dv a cfg its \<and> k = sha256 (kb_bytes its)
           \<and> entry_of (cold (Dv (snd a)) w (rq_host (fst a)) cfg) cfg e))"

definition clash :: "(string \<Rightarrow> ('w, 'g, 'c, 'a) unitDriver) \<Rightarrow> performed \<Rightarrow> performed \<Rightarrow> bool" where
  "clash Dv a b \<longleftrightarrow>
     contents_clash (rq_host (fst a)) (rq_host (fst b))
     \<or> (\<exists>c1 i1 c2 i2. action_key Dv a c1 i1 \<and> action_key Dv b c2 i2 \<and> collision sha256 (kb_bytes i1) (kb_bytes i2))"

text \<open>
  The contract of the unit driver: the outcome is a function of the declared inputs, that is of \<^verbatim>\<open>unit.json\<close>, the
  contents of the files it names, those the importcfg names and those of the declared standard library, and the
  working directory when an absolute path is declared.
\<close>

definition driver_pure :: "('w, 'g, 'c, 'a) unitDriver \<Rightarrow> 'w \<Rightarrow> bool" where
  "driver_pure D w \<longleftrightarrow>
     (\<forall>h1 h2 n iter path cfg tool its files.
        key_written h1 n iter path cfg tool = Some (Inr its) \<longrightarrow>
        (Importcfg (Deps cfg) \<noteq> [] \<longrightarrow> parseImportcfg iter (h_read h1 (Importcfg (Deps cfg))) = Inr files) \<longrightarrow>
        (anyAbsolutePath cfg \<longrightarrow> h_wd h1 = h_wd h2) \<longrightarrow>
        (\<forall>p \<in> declared_files files cfg \<union> tree_files (StdlibDir (Deps cfg)) its. h_read h1 p = h_read h2 p) \<longrightarrow>
        cold D w h1 cfg = cold D w h2 cfg)"

lemma req_config_body:
  assumes "req_config D rq = Inr cfg"
  obtains body where "h_read (rq_host rq) (rq_path rq) = Inr body" "ud_decode D body = Inr cfg"
  using assms by (auto simp: req_config_def LoadConfig_def split: sum.splits option.splits)

lemma same_key_same_outcome:
  assumes "\<And>t. ud_decode (Dv t) = dec" and "driver_pure (Dv (snd a)) w"
    and a: "action_key Dv a c1 i1" and b: "action_key Dv b c2 i2"
    and "sha256 (kb_bytes i1) = sha256 (kb_bytes i2)" and "\<not> clash Dv a b"
  shows "c1 = c2 \<and> cold (Dv (snd a)) w (rq_host (fst a)) c1 = cold (Dv (snd b)) w (rq_host (fst b)) c2"
proof -
  let ?h1 = "rq_host (fst a)" and ?h2 = "rq_host (fst b)"
  have w1: "plain_names ?h1" "key_written ?h1 (rq_fuel (fst a)) (rq_iter (fst a)) (rq_path (fst a)) c1 (snd a) = Some (Inr i1)"
    and w2: "plain_names ?h2" "key_written ?h2 (rq_fuel (fst b)) (rq_iter (fst b)) (rq_path (fst b)) c2 (snd b) = Some (Inr i2)"
    and l: "list_all go_len (concat (map item_chunks i1))" "list_all go_len (concat (map item_chunks i2))"
    using a b by (simp_all add: action_key_def)
  obtain b1 where b1: "h_read ?h1 (rq_path (fst a)) = Inr b1" "dec b1 = Inr c1"
    using a req_config_body [of "Dv (snd a)" "fst a" c1] assms(1) by (auto simp: action_key_def)
  obtain b2 where b2: "h_read ?h2 (rq_path (fst b)) = Inr b2" "dec b2 = Inr c2"
    using b req_config_body [of "Dv (snd b)" "fst b" c2] assms(1) by (auto simp: action_key_def)
  obtain files where f: "Importcfg (Deps c1) \<noteq> [] \<longrightarrow> parseImportcfg (rq_iter (fst a)) (h_read ?h1 (Importcfg (Deps c1))) = Inr files"
    by (rule key_written_items [OF w1]) blast
  have eq: "unit_ComputeKey ?h1 (rq_fuel (fst a)) (rq_iter (fst a)) (rq_path (fst a)) c1 (snd a)
      = unit_ComputeKey ?h2 (rq_fuel (fst b)) (rq_iter (fst b)) (rq_path (fst b)) c2 (snd b)"
    using assms(5) by (simp add: unit_ComputeKey_def w1(2) w2(2))
  have "\<not> collision sha256 (kb_bytes i1) (kb_bytes i2)" "\<not> contents_clash ?h1 ?h2" using assms(6) a b unfolding clash_def by blast+
  then have same: "snd a = snd b" "c1 = c2" "anyAbsolutePath c1 \<longrightarrow> h_wd ?h1 = h_wd ?h2"
    "\<forall>p \<in> declared_files files c1 \<union> tree_files (StdlibDir (Deps c1)) i1. h_read ?h1 p = h_read ?h2 p"
    using key_covers [OF w1 w2 b1(1) b2(1) b1(2) b2(2) l eq f] unfolding contents_clash_def by blast+
  have "cold (Dv (snd a)) w ?h1 c1 = cold (Dv (snd a)) w ?h2 c1"
    using assms(2) w1(2) f same(3,4) unfolding driver_pure_def by blast
  then show ?thesis using same(1,2) by simp
qed

definition store_same :: "string \<Rightarrow> ufs \<Rightarrow> ufs \<Rightarrow> bool" where
  "store_same root fs fs' \<longleftrightarrow> (\<forall>k. length k = 32 \<longrightarrow> fs' (store_path root k) = fs (store_path root k))"

lemma store_same_refl [simp]: "store_same root fs fs"
  by (simp add: store_same_def)

lemma store_same_trans: "store_same root fs fs1 \<Longrightarrow> store_same root fs1 fs2 \<Longrightarrow> store_same root fs fs2"
  by (simp add: store_same_def)

lemma honest_same: "honest Dv w past root fs \<Longrightarrow> store_same root fs fs' \<Longrightarrow> past \<subseteq> past' \<Longrightarrow> honest Dv w past' root fs'"
  unfolding honest_def store_same_def by (metis subsetD)

lemma publish_store:
  assumes "apart root rq cfg" "w \<in> {rq_w1 rq, rq_w2 rq, rq_r1 rq, rq_r2 rq, rq_put rq}"
    and "p \<in> {out_Sarif (Out cfg), out_Facts (Out cfg)}" "publish tidy w fs p b = (fs', r)"
  shows "store_same root fs fs'"
proof -
  have "store_path root k \<noteq> p" if "length k = 32" for k using assms(1,3) that unfolding apart_def entry_paths_def by blast
  then show ?thesis unfolding store_same_def using publish_other [OF assms(4)] apart_temps(3) [OF assms(1,2)] by metis
qed

lemma Entry_Write_ok:
  assumes "apart root rq cfg" "Entry_Write (rq_w1 rq) (rq_w2 rq) fs e (unitCacheOutputs cfg) = (fs', None)"
  shows "HasFacts e = (out_Facts (Out cfg) \<noteq> []) \<and> fs' (out_Sarif (Out cfg)) = Some (Sarif e)
    \<and> (out_Facts (Out cfg) = [] \<or> fs' (out_Facts (Out cfg)) = Some (Facts e))"
proof -
  obtain fs1 where h: "HasFacts e = (out_Facts (Out cfg) \<noteq> [])"
    and s: "publish False (rq_w1 rq) fs (out_Sarif (Out cfg)) (Sarif e) = (fs1, None)"
    and f: "if out_Facts (Out cfg) = [] then fs' = fs1
      else publish False (rq_w2 rq) fs1 (out_Facts (Out cfg)) (Facts e) = (fs', None)"
    using assms(2)
    by (auto simp: Entry_Write_def unitCacheOutputs_def unit_writeFileAtomic_def split: prod.splits option.splits if_splits)
  have "fs' (out_Sarif (Out cfg)) = fs1 (out_Sarif (Out cfg))" if "out_Facts (Out cfg) \<noteq> []"
    using publish_other [of False "rq_w2 rq" fs1 "out_Facts (Out cfg)" "Facts e" fs' None "out_Sarif (Out cfg)"] f that
      apart_temps(1) [OF assms(1), of "rq_w2 rq"] assms(1) by (auto simp: apart_def)
  then show ?thesis using h publish_ok [OF s] f publish_ok [of False "rq_w2 rq" fs1] by (auto split: if_splits)
qed

lemma Entry_Write_store:
  assumes "apart root rq cfg" "Entry_Write (rq_w1 rq) (rq_w2 rq) fs e (unitCacheOutputs cfg) = (fs', r)"
  shows "store_same root fs fs'"
proof (cases "(out_Facts (Out cfg) \<noteq> []) \<noteq> HasFacts e")
  case True
  then show ?thesis using assms(2) by (simp add: Entry_Write_def unitCacheOutputs_def)
next
  case False
  obtain fs1 r1 where s: "publish False (rq_w1 rq) fs (out_Sarif (Out cfg)) (Sarif e) = (fs1, r1)" by fastforce
  obtain fs2 r2 where f: "publish False (rq_w2 rq) fs1 (out_Facts (Out cfg)) (Facts e) = (fs2, r2)" by fastforce
  have "store_same root fs fs1" "store_same root fs1 fs2"
    using publish_store [OF assms(1) _ _ s] publish_store [OF assms(1) _ _ f] by simp_all
  moreover have "fs' = fs1 \<or> fs' = fs2"
    using assms(2) False s f
    by (auto simp: Entry_Write_def unitCacheOutputs_def unit_writeFileAtomic_def split: option.splits if_splits)
  ultimately show ?thesis using store_same_trans by blast
qed

lemma write_outputs_store:
  assumes "apart root rq cfg" "write_outputs A (rq_r1 rq) (rq_r2 rq) fs cfg ds ar = (fs', r)"
  shows "store_same root fs fs'"
proof (cases "al_render A cfg ds (ar_files ar) (ar_compiled ar)")
  case (Inl e)
  then show ?thesis using assms(2) by (simp add: write_outputs_def)
next
  case (Inr buf)
  obtain fs1 r1 where s: "publish False (rq_r1 rq) fs (out_Sarif (Out cfg)) buf = (fs1, r1)" by fastforce
  obtain fs2 r2 where f: "publish False (rq_r2 rq) fs1 (out_Facts (Out cfg)) (wrapFacts (ar_facts ar)) = (fs2, r2)" by fastforce
  have "store_same root fs fs1" "store_same root fs1 fs2"
    using publish_store [OF assms(1) _ _ s] publish_store [OF assms(1) _ _ f] by simp_all
  moreover have "fs' = fs1 \<or> fs' = fs2"
    using assms(2) Inr s f by (auto simp: write_outputs_def unit_writeFileAtomic_def split: option.splits if_splits)
  ultimately show ?thesis using store_same_trans by blast
qed


lemma Run_store:
  assumes "apart root rq cfg" "NewFilter rl xcfg base targets = Inr f"
    and "Run A g fuel e (rq_r1 rq) (rq_r2 rq) fs cfg gc reg (Some f) = Some (fs', fo, r)"
  shows "store_same root fs fs'"
proof -
  have i: "filter_inv e f f" using NewFilter_caches_ok [OF assms(2)] by (simp add: filter_inv_def)
  obtain x where x: "analyze_mode A g fuel cfg gc reg = Some x"
    using assms(3) by (cases "analyze_mode A g fuel cfg gc reg") (simp_all add: Run_def)
  show ?thesis
  proof (cases x)
    case (Inl err)
    then show ?thesis using assms(3) by (simp add: Run_def x)
  next
    case (Inr ar)
    let ?ds = "if EffectiveMode cfg = ModeFactsOnly then [] else Sort (keep_spec (drops e f) (uniqByLine f) file_line {} (ar_diags ar))"
    obtain fsx err where w: "write_outputs A (rq_r1 rq) (rq_r2 rq) fs cfg ?ds ar = (fsx, err)" by fastforce
    have "fsx = fs'"
      using assms(3) w by (auto simp: Run_def x Inr filter_findings_exact [OF assms(2) i] split: option.splits)
    then show ?thesis using write_outputs_store [OF assms(1) w] by simp
  qed
qed

lemma run_session_cold:
  assumes "built D w wd c sess" "config_body (rq_host rq) cfg = Inr body" "setup_of cfg body = c" "mustGetwd (rq_host rq) = wd"
    and "apart root rq cfg" "run_session D rq cfg sess fs = Some (sess', fs', r)"
  shows "sess' = sess" "store_same root fs fs'" "r = Inr res \<Longrightarrow> left_by (cold D w (rq_host rq) cfg) cfg fs'"
proof -
  let ?A = "ud_lib D (us_flags sess) (rq_host rq)" and ?e = "ud_env D (rq_host rq)"
  from assms(1,3) obtain st m where o: "us_state sess = Some st"
      "build_session D w wd (golangci_Config (Analysis cfg)) body (EnableOnly (Analysis cfg)) = (us_flags sess, Inr (st, m))"
    unfolding built_def build_setup_def setup_of_def by auto
  obtain g reg f where st: "st = (g, reg, f)" by (cases st)
  have nf: "NewFilter (ud_regex D) (ud_exclusions D g) wd [] = Inr f" by (rule build_session_filter [OF o(2) [unfolded st]])
  have inv: "filter_inv ?e f f" using NewFilter_caches_ok [OF nf] by (simp add: filter_inv_def)
  obtain fo where run: "Run ?A (ud_graph D) (ud_fuel D) ?e (rq_r1 rq) (rq_r2 rq) fs cfg (ud_settings D g) reg (Some f) = Some (fs', fo, r)"
    and s': "sess' = sess\<lparr>us_state := Some (g, reg, case fo of Some f' \<Rightarrow> f' | None \<Rightarrow> f)\<rparr>"
    using assms(6) by (auto simp: run_session_def o(1) st)
  have "fo = Some f" using Run_filter [OF nf inv run] NewFilter_config [OF nf] by simp
  then show "sess' = sess" using s' o(1) st by simp
  show "store_same root fs fs'" by (rule Run_store [OF assms(5) nf run])
  assume "r = Inr res"
  then have "left_by (run_bytes ?A (ud_graph D) (ud_fuel D) ?e cfg (ud_settings D g) reg f) cfg fs'"
    using Run_bytes [OF nf apart_outputs [OF assms(5)]] run by blast
  moreover have "cold D w (rq_host rq) cfg = run_bytes ?A (ud_graph D) (ud_fuel D) ?e cfg (ud_settings D g) reg f"
    by (simp add: cold_def assms(2,4) o(2) st)
  ultimately show "left_by (cold D w (rq_host rq) cfg) cfg fs'" by simp
qed

lemma decode_unique:
  assumes "length k = 32" "length k' = 32" "entry_ok e" "decodeEntry k' (encodeEntry k e) = Inr e'"
  shows "k' = k \<and> e' = e"
proof -
  obtain r where r: "encodeEntry k e = (entryMagic @ k' @ r) @ sha256 (entryMagic @ k' @ r)"
    using assms(4) decodeEntry_frame [OF assms(2)] by blast
  obtain t where t: "entry_payload (if HasFacts e then CHR 0x01 else CHR 0x00) k e = entryMagic @ k @ t"
    by (simp add: entry_payload_def)
  have "(entryMagic @ k @ t) @ sha256 (entryMagic @ k @ t) = (entryMagic @ k' @ r) @ sha256 (entryMagic @ k' @ r)"
    using r t by (simp add: encodeEntry_def Let_def)
  then have "entryMagic @ k @ t = entryMagic @ k' @ r" by (rule append_eq_append_conv [THEN iffD1, THEN conjunct1, rotated]) simp
  then have "k' = k" using assms(1,2) by simp
  then show ?thesis using assms(4) decode_encode [OF assms(1,3)] by simp
qed

lemma ReadOutputs_entry:
  assumes "ReadOutputs (read_file fs) (unitCacheOutputs cfg) msgs = Inr e" "left_by out cfg fs"
  shows "entry_of out cfg e \<and> Warnings e = msgs"
  using assms by (auto simp: ReadOutputs_def unitCacheOutputs_def read_file_def left_by_def entry_of_def split: option.splits if_splits)

definition sizes_ok :: "(bytes \<times> bytes) option \<Rightarrow> string list \<Rightarrow> bool" where
  "sizes_ok out msgs \<longleftrightarrow>
     (\<forall>s x. out = Some (s, x) \<longrightarrow> len64 s \<and> len64 x) \<and> length msgs < 2 ^ 32 \<and> list_all len64 msgs"

lemma ReadOutputs_sizes:
  assumes "ReadOutputs (read_file fs) (unitCacheOutputs cfg) msgs = Inr e" "left_by out cfg fs" "sizes_ok out msgs"
  shows "entry_ok e"
  using assms
  by (auto simp: ReadOutputs_def unitCacheOutputs_def read_file_def left_by_def sizes_ok_def entry_ok_def len64_def split: option.splits if_splits)

lemma unitCacheStore_honest:
  assumes "apart root rq cfg" "honest Dv w past root fs" "action_key Dv b cfg its"
    and "left_by (cold (Dv (snd b)) w (rq_host (fst b)) cfg) cfg fs" "sizes_ok (cold (Dv (snd b)) w (rq_host (fst b)) cfg) msgs"
    and "unitCacheStore rq (Some (root, sha256 (kb_bytes its))) fs cfg msgs = (fs', ms)"
  shows "honest Dv w (insert b past) root fs'"
proof (cases "ReadOutputs (read_file fs) (unitCacheOutputs cfg) msgs")
  case (Inl e)
  then show ?thesis using assms(2,6) honest_same [of Dv w past root fs fs "insert b past"] by (auto simp: unitCacheStore_def)
next
  case (Inr e)
  let ?k = "sha256 (kb_bytes its)"
  obtain r where p: "publish True (rq_put rq) fs (store_path root ?k) (encodeEntry ?k e) = (fs', r)"
    using assms(6) Inr by (auto simp: unitCacheStore_def store_Put_def split: prod.splits option.splits)
  note tmp = apart_temps(3) [OF assms(1), of "rq_put rq"]
  have old: "fs (store_path root k') = Some body \<or> body = encodeEntry ?k e"
    if "length k' = 32" "fs' (store_path root k') = Some body" for k' body
  proof (cases "store_path root k' = store_path root ?k")
    case True
    then show ?thesis using publish_target [OF p] tmp that by (auto split: if_splits)
  next
    case False
    then show ?thesis using publish_other [OF p, of "store_path root k'"] tmp that by simp
  qed
  have new: "k' = ?k \<and> e' = e" if "length k' = 32" "decodeEntry k' (encodeEntry ?k e) = Inr e'" for k' e'
    using decode_unique [OF _ that(1) ReadOutputs_sizes [OF Inr assms(4,5)] that(2)] by simp
  have "entry_of (cold (Dv (snd b)) w (rq_host (fst b)) cfg) cfg e" using ReadOutputs_entry [OF Inr assms(4)] by simp
  then show ?thesis
    using assms(2,3) old new unfolding honest_def by (metis insertCI)
qed



subsection \<open>One request\<close>

text \<open>
  What a request of the process is assumed to be: it has the working directory and the configuration of the process,
  its outputs are outside the store, names and declared inputs are of the kind and length a Go program has.
\<close>

definition req_ok ::
  "(string \<Rightarrow> ('w, 'g, 'c, 'a) unitDriver) \<Rightarrow> 'w \<Rightarrow> string \<Rightarrow> string \<Rightarrow> string \<Rightarrow> unit_setup \<Rightarrow> unitReq \<Rightarrow> string list \<Rightarrow> bool" where
  "req_ok Dv w root tool wd c rq msgs \<longleftrightarrow>
     plain_names (rq_host rq) \<and> mustGetwd (rq_host rq) = wd
     \<and> (\<forall>cfg. req_config (Dv tool) rq = Inr cfg \<longrightarrow>
          (\<forall>body. config_body (rq_host rq) cfg = Inr body \<longrightarrow> setup_of cfg body = c)
          \<and> apart root rq cfg \<and> sizes_ok (cold (Dv tool) w (rq_host rq) cfg) msgs
          \<and> (\<forall>its. key_written (rq_host rq) (rq_fuel rq) (rq_iter rq) (rq_path rq) cfg tool = Some (Inr its) \<longrightarrow>
               list_all go_len (concat (map item_chunks its))))"

lemma lookup_cases:
  assumes "unitCacheLookup rq sess fs cfg = Some (attempt, ent, ms, fs1)" "us_cache sess = Some root" "apart root rq cfg"
  obtains (skipped) "attempt = None" "ent = None" "fs1 = fs"
  | (keyed) its where "key_written (rq_host rq) (rq_fuel rq) (rq_iter rq) (rq_path rq) cfg (us_toolID sess) = Some (Inr its)"
      "attempt = Some (root, sha256 (kb_bytes its))" "store_same root fs fs1"
      "\<And>e. ent = Some e \<Longrightarrow> (\<exists>body. fs (store_path root (sha256 (kb_bytes its))) = Some body
          \<and> decodeEntry (sha256 (kb_bytes its)) body = Inr e)
        \<and> Entry_Write (rq_w1 rq) (rq_w2 rq) fs e (unitCacheOutputs cfg) = (fs1, None)"
proof (cases "key_written (rq_host rq) (rq_fuel rq) (rq_iter rq) (rq_path rq) cfg (us_toolID sess)")
  case None
  then show ?thesis using assms(1,2) by (simp add: unitCacheLookup_def unit_ComputeKey_def)
next
  case (Some r)
  show ?thesis
  proof (cases r)
    case (Inl e)
    then show ?thesis using assms(1,2) Some by (intro skipped) (auto simp: unitCacheLookup_def unit_ComputeKey_def)
  next
    case (Inr its)
    let ?k = "sha256 (kb_bytes its)"
    have key: "unit_ComputeKey (rq_host rq) (rq_fuel rq) (rq_iter rq) (rq_path rq) cfg (us_toolID sess) = Some (Inr ?k)"
      by (simp add: unit_ComputeKey_def Some Inr)
    note l = assms(1) [unfolded unitCacheLookup_def assms(2) option.case key sum.case]
    have at: "attempt = Some (root, ?k)"
      using l by (auto split: sum.splits option.splits prod.splits)
    have same: "store_same root fs fs1"
      using l Entry_Write_store [OF assms(3)] by (auto split: sum.splits option.splits prod.splits)
    have hit: "(\<exists>body. fs (store_path root ?k) = Some body \<and> decodeEntry ?k body = Inr e)
        \<and> Entry_Write (rq_w1 rq) (rq_w2 rq) fs e (unitCacheOutputs cfg) = (fs1, None)" if "ent = Some e" for e
      using l that by (auto simp: store_Get_def split: sum.splits option.splits prod.splits)
    show ?thesis using keyed [OF _ at same hit] Some Inr by simp
  qed
qed

lemma hit_outcome:
  assumes "\<And>t. ud_decode (Dv t) = dec" "\<And>t. driver_pure (Dv t) w"
    and "honest Dv w past root fs" "\<And>a. a \<in> past \<Longrightarrow> \<not> clash Dv a b" "action_key Dv b cfg its" "apart root (fst b) cfg"
    and "fs (store_path root (sha256 (kb_bytes its))) = Some body" "decodeEntry (sha256 (kb_bytes its)) body = Inr e"
    and "Entry_Write (rq_w1 (fst b)) (rq_w2 (fst b)) fs e (unitCacheOutputs cfg) = (fs', None)"
  shows "left_by (cold (Dv (snd b)) w (rq_host (fst b)) cfg) cfg fs'"
proof -
  have "length (sha256 (kb_bytes its)) = 32" by simp
  then obtain a c1 i1 where a: "a \<in> past" "action_key Dv a c1 i1" "sha256 (kb_bytes i1) = sha256 (kb_bytes its)"
      "entry_of (cold (Dv (snd a)) w (rq_host (fst a)) c1) c1 e"
    using assms(3,7,8) unfolding honest_def by metis
  have "c1 = cfg \<and> cold (Dv (snd a)) w (rq_host (fst a)) c1 = cold (Dv (snd b)) w (rq_host (fst b)) cfg"
    using same_key_same_outcome [OF assms(1,2) a(2) assms(5) a(3) assms(4) [OF a(1)]] .
  then have "entry_of (cold (Dv (snd b)) w (rq_host (fst b)) cfg) cfg e" using a(4) by metis
  then show ?thesis using Entry_Write_ok [OF assms(6,9)] by (auto simp: entry_of_def left_by_def)
qed

lemma refresh_fields:
  assumes "refresh D h cfg body sess = (sess1, r)"
  shows "us_cache sess1 = us_cache sess" "us_toolID sess1 = us_toolID sess"
  using assms by (auto simp: refresh_def split: if_splits prod.splits sum.splits)

lemma unit_run_cases:
  assumes "unit_run D rq cfg attempt cm sess fs = Some (sess', fs', code, msgs)" "accepted D w wd c" "coherent D w wd c sess"
    and "\<forall>body. config_body (rq_host rq) cfg = Inr body \<longrightarrow> setup_of cfg body = c" "mustGetwd (rq_host rq) = wd"
  obtains (unread) "sess' = sess" "fs' = fs" "code \<noteq> 0"
  | (failed) body sess1 ms e where "config_body (rq_host rq) cfg = Inr body" "refresh D (rq_host rq) cfg body sess = (sess1, Inr ms)"
      "built D w wd c sess1" "run_session D rq cfg sess1 fs = Some (sess', fs', Inl e)" "code \<noteq> 0"
  | (ran) body sess1 ms fs2 res ms2 where "config_body (rq_host rq) cfg = Inr body" "refresh D (rq_host rq) cfg body sess = (sess1, Inr ms)"
      "built D w wd c sess1" "run_session D rq cfg sess1 fs = Some (sess', fs2, Inr res)"
      "unitCacheStore rq attempt fs2 cfg (ms @ map (\<lambda>w. ''warning: '' @ w) (res_Warnings res)) = (fs', ms2)"
      "msgs = (ms @ map (\<lambda>w. ''warning: '' @ w) (res_Warnings res)) @ cm @ ms2"
proof (cases "config_body (rq_host rq) cfg")
  case (Inl e)
  then show ?thesis using assms(1) unread by (simp add: unit_run_def exitConfigError_def)
next
  case (Inr body)
  obtain sess1 ms where r: "refresh D (rq_host rq) cfg body sess = (sess1, Inr ms)" "built D w wd c sess1"
    using refresh_built [OF assms(2,3) _ assms(5)] assms(4) Inr by metis
  obtain sess2 fs2 x where x: "run_session D rq cfg sess1 fs = Some (sess2, fs2, x)"
    using assms(1) Inr r by (cases "run_session D rq cfg sess1 fs") (auto simp: unit_run_def)
  show ?thesis
  proof (cases x)
    case (Inl e)
    then have "sess' = sess2" "fs' = fs2" "code \<noteq> 0" using assms(1) Inr r x by (simp_all add: unit_run_def exitInternalError_def)
    then show ?thesis using failed [OF Inr r] x Inl by simp
  next
    case res: (Inr res)
    obtain fs3 ms2 where st: "unitCacheStore rq attempt fs2 cfg (ms @ map (\<lambda>w. ''warning: '' @ w) (res_Warnings res)) = (fs3, ms2)" by fastforce
    have "sess' = sess2" "fs' = fs3" "msgs = (ms @ map (\<lambda>w. ''warning: '' @ w) (res_Warnings res)) @ cm @ ms2"
      using assms(1) Inr r x res st by (auto simp: unit_run_def Let_def)
    then show ?thesis using ran [OF Inr r] x res st by blast
  qed
qed


lemma unitCacheStore_left:
  assumes "apart root rq cfg" "left_by out cfg fs" "length k = 32" "unitCacheStore rq (Some (root, k)) fs cfg msgs = (fs', ms)"
  shows "left_by out cfg fs'"
proof (cases "ReadOutputs (read_file fs) (unitCacheOutputs cfg) msgs")
  case (Inl e)
  then show ?thesis using assms(2,4) by (auto simp: unitCacheStore_def)
next
  case (Inr e)
  obtain r where p: "publish True (rq_put rq) fs (store_path root k) (encodeEntry k e) = (fs', r)"
    using assms(4) Inr by (auto simp: unitCacheStore_def store_Put_def split: prod.splits option.splits)
  have "fs' q = fs q" if "q \<in> {out_Sarif (Out cfg), out_Facts (Out cfg)}" for q
  proof (rule publish_other [OF p])
    show "q \<noteq> store_path root k" using assms(1,3) that unfolding apart_def entry_paths_def by blast
    show "w_temp (rq_put rq) \<noteq> Inr q" using apart_temps(1,2) [OF assms(1), of "rq_put rq"] that by auto
  qed
  then show ?thesis using assms(2) by (simp add: left_by_def)
qed

text \<open>The process state between requests, and what one request does to it.\<close>

definition process_ok ::
  "(string \<Rightarrow> ('w, 'g, 'c, 'a) unitDriver) \<Rightarrow> 'w \<Rightarrow> string \<Rightarrow> string \<Rightarrow> string \<Rightarrow> unit_setup \<Rightarrow> performed set \<Rightarrow> ('w, 'g, 'c) unitSession \<Rightarrow> ufs \<Rightarrow> bool" where
  "process_ok Dv w root tool wd c past sess fs \<longleftrightarrow>
     us_cache sess = Some root \<and> us_toolID sess = tool \<and> honest Dv w past root fs \<and> coherent (Dv tool) w wd c sess"

text \<open>
  What is assumed of the tools that share the store: they read \<^verbatim>\<open>unit.json\<close> alike and the outcome of each is a
  function of the declared inputs; and the configuration of the process builds.
\<close>

definition tools_ok :: "(string \<Rightarrow> ('w, 'g, 'c, 'a) unitDriver) \<Rightarrow> (bytes \<Rightarrow> unitConfig result) \<Rightarrow> 'w \<Rightarrow> bool" where
  "tools_ok Dv dec w \<longleftrightarrow> (\<forall>t. ud_decode (Dv t) = dec \<and> driver_pure (Dv t) w)"

lemma tools_okD:
  assumes "tools_ok Dv dec w"
  shows "ud_decode (Dv t) = dec" "driver_pure (Dv t) w"
  using assms by (simp_all add: tools_ok_def)

lemma req_okD:
  assumes "req_ok Dv w root tool wd c rq msgs" "req_config (Dv tool) rq = Inr cfg"
  shows "\<forall>body. config_body (rq_host rq) cfg = Inr body \<longrightarrow> setup_of cfg body = c" "apart root rq cfg"
    "sizes_ok (cold (Dv tool) w (rq_host rq) cfg) msgs" "mustGetwd (rq_host rq) = wd"
    "key_written (rq_host rq) (rq_fuel rq) (rq_iter rq) (rq_path rq) cfg tool = Some (Inr its) \<Longrightarrow> action_key Dv (rq, tool) cfg its"
  using assms by (auto simp: req_ok_def action_key_def)

lemma sizes_ok_prefix: "sizes_ok out (ms @ rest) \<Longrightarrow> sizes_ok out ms"
  by (simp add: sizes_ok_def)

lemma process_ok_same:
  assumes "process_ok Dv w root tool wd c past sess fs" "store_same root fs fs'" "past \<subseteq> past'"
    and "us_cache sess' = us_cache sess" "us_toolID sess' = us_toolID sess" "coherent (Dv tool) w wd c sess'"
  shows "process_ok Dv w root tool wd c past' sess' fs'"
  using assms honest_same [of Dv w past root fs fs' past'] by (simp add: process_ok_def)

lemma run_step:
  assumes acc: "accepted (Dv tool) w wd c" and p: "process_ok Dv w root tool wd c past sess fs"
    and rq: "req_ok Dv w root tool wd c rq msgs" and cfg: "req_config (Dv tool) rq = Inr cfg"
    and attempt: "attempt = None \<or> (\<exists>its. action_key Dv (rq, tool) cfg its \<and> attempt = Some (root, sha256 (kb_bytes its)))"
    and run: "unit_run (Dv tool) rq cfg attempt cm sess fs = Some (sess', fs', code, msgs)"
  shows "process_ok Dv w root tool wd c (insert (rq, tool) past) sess' fs' \<and> (code = 0 \<longrightarrow> left_by (cold (Dv tool) w (rq_host rq) cfg) cfg fs')"
proof -
  let ?out = "cold (Dv tool) w (rq_host rq) cfg" and ?past = "insert (rq, tool) past"
  note ok = req_okD [OF rq cfg]
  have co: "coherent (Dv tool) w wd c sess" using p by (simp add: process_ok_def)
  note same = process_ok_same [OF p, of _ ?past]
  show ?thesis
  proof (cases rule: unit_run_cases [OF run acc co ok(1,4), case_names unread failed ran])
    case unread
    then show ?thesis using same [of fs sess] co by auto
  next
    case (failed body sess1 ms e)
    note r = run_session_cold [OF failed(3,1) _ ok(4,2) failed(4)]
    have "setup_of cfg body = c" using ok(1) failed(1) by blast
    then show ?thesis using same [of fs' sess1] r(1,2) refresh_fields [OF failed(2)] failed(3,5) by (auto simp: coherent_def)
  next
    case (ran body sess1 ms fs2 res ms2)
    note r = run_session_cold [OF ran(3,1) _ ok(4,2) ran(4)]
    have c: "setup_of cfg body = c" using ok(1) ran(1) by blast
    have left2: "left_by ?out cfg fs2" using r(3) [OF c] by blast
    have p2: "process_ok Dv w root tool wd c past sess' fs2"
      using process_ok_same [OF p, of fs2 past sess'] r(1,2) [OF c] refresh_fields [OF ran(2)] ran(3) by (simp add: coherent_def)
    have sizes: "sizes_ok ?out (ms @ map (\<lambda>w. ''warning: '' @ w) (res_Warnings res))" using ok(3) ran(6) sizes_ok_prefix by metis
    show ?thesis
    proof (cases attempt)
      case None
      then have "fs' = fs2" using ran(5) by (simp add: unitCacheStore_def)
      then show ?thesis using process_ok_same [OF p2, of fs2 ?past sess'] p2 left2 by (auto simp: process_ok_def)
    next
      case (Some x)
      then obtain its where its: "action_key Dv (rq, tool) cfg its" "attempt = Some (root, sha256 (kb_bytes its))" using attempt by auto
      have "honest Dv w past root fs2" using p2 by (simp add: process_ok_def)
      then have "honest Dv w ?past root fs'"
        using unitCacheStore_honest [OF ok(2) _ its(1) _ _ ran(5) [unfolded its(2)]] left2 sizes by simp
      moreover have "left_by ?out cfg fs'" using unitCacheStore_left [OF ok(2) left2 _ ran(5) [unfolded its(2)]] by simp
      ultimately show ?thesis using p2 by (simp add: process_ok_def)
    qed
  qed
qed

lemma unitOnce_step:
  assumes tools: "tools_ok Dv dec w" and acc: "accepted (Dv tool) w wd c" and p: "process_ok Dv w root tool wd c past sess fs"
    and free: "\<And>a. a \<in> past \<Longrightarrow> \<not> clash Dv a (rq, tool)" and rq: "req_ok Dv w root tool wd c rq msgs"
    and run: "unitOnce (Dv tool) rq sess fs = Some (sess', fs', code, msgs)"
  shows "process_ok Dv w root tool wd c (insert (rq, tool) past) sess' fs'
    \<and> (code = 0 \<longrightarrow> (\<exists>cfg. req_config (Dv tool) rq = Inr cfg \<and> left_by (cold (Dv tool) w (rq_host rq) cfg) cfg fs'))"
proof (cases "req_config (Dv tool) rq")
  case (Inl e)
  then show ?thesis using run process_ok_same [OF p, of fs "insert (rq, tool) past" sess] p
    by (auto simp: unitOnce_def exitInternalError_def process_ok_def)
next
  case (Inr cfg)
  note ok = req_okD [OF rq Inr]
  have root: "us_cache sess = Some root" "us_toolID sess = tool" "coherent (Dv tool) w wd c sess" using p by (simp_all add: process_ok_def)
  obtain attempt ent ms fs1 where l: "unitCacheLookup rq sess fs cfg = Some (attempt, ent, ms, fs1)"
    using run Inr by (cases "unitCacheLookup rq sess fs cfg") (auto simp: unitOnce_def)
  from l root(1) ok(2) show ?thesis
  proof (cases rule: lookup_cases)
    case skipped
    then have "unit_run (Dv tool) rq cfg None ms sess fs = Some (sess', fs', code, msgs)" using run Inr l by (simp add: unitOnce_def)
    from run_step [OF acc p rq Inr _ this] show ?thesis using Inr by simp
  next
    case (keyed its)
    have key: "action_key Dv (rq, tool) cfg its" using ok(5) keyed(1) root(2) by simp
    have p1: "process_ok Dv w root tool wd c past sess fs1" using process_ok_same [OF p keyed(3), of past sess] root(3) by simp
    show ?thesis
    proof (cases ent)
      case None
      then have "unit_run (Dv tool) rq cfg attempt ms sess fs1 = Some (sess', fs', code, msgs)" using run Inr l by (simp add: unitOnce_def)
      from run_step [OF acc p1 rq Inr _ this] show ?thesis using Inr keyed(2) key by auto
    next
      case (Some e)
      have r: "sess' = sess" "fs' = fs1" using run Inr l Some by (simp_all add: unitOnce_def)
      obtain body where "fs (store_path root (sha256 (kb_bytes its))) = Some body" "decodeEntry (sha256 (kb_bytes its)) body = Inr e"
        "Entry_Write (rq_w1 rq) (rq_w2 rq) fs e (unitCacheOutputs cfg) = (fs1, None)" using keyed(4) [OF Some] by blast
      then have "left_by (cold (Dv tool) w (rq_host rq) cfg) cfg fs1"
        using hit_outcome [of Dv dec w past root fs "(rq, tool)" cfg its body e fs1] tools_okD [OF tools] p free key ok(2)
        by (simp add: process_ok_def)
      moreover have "process_ok Dv w root tool wd c (insert (rq, tool) past) sess fs1"
        using process_ok_same [OF p1, of fs1 "insert (rq, tool) past" sess] root(3) by auto
      ultimately show ?thesis using Inr r by simp
    qed
  qed
qed


subsection \<open>A history of requests\<close>

text \<open>
  A process starts with a fresh session over a store that earlier processes filled and serves requests one after
  the other, with success or not, and between two requests other processes may change any file, as long as what is
  in the store was written by performed actions.
\<close>

inductive unit_history ::
  "(string \<Rightarrow> ('w, 'g, 'c, 'a) unitDriver) \<Rightarrow> 'w \<Rightarrow> string \<Rightarrow> string \<Rightarrow> string \<Rightarrow> unit_setup \<Rightarrow> performed set \<Rightarrow> ('w, 'g, 'c) unitSession \<Rightarrow> ufs \<Rightarrow> bool"
  for Dv w root tool wd c where
  start: "honest Dv w past root fs \<Longrightarrow> newUnitSession cacheDir (Inr root) (Inr tool) w = (sess, []) \<Longrightarrow> cacheDir \<noteq> [] \<Longrightarrow>
    unit_history Dv w root tool wd c past sess fs"
| served: "unit_history Dv w root tool wd c past sess fs \<Longrightarrow> unitOnce (Dv tool) rq sess fs = Some (sess', fs', code, msgs) \<Longrightarrow>
    req_ok Dv w root tool wd c rq msgs \<Longrightarrow> unit_history Dv w root tool wd c (insert (rq, tool) past) sess' fs'"
| others: "unit_history Dv w root tool wd c past sess fs \<Longrightarrow> past \<subseteq> past' \<Longrightarrow> honest Dv w past' root fs' \<Longrightarrow>
    unit_history Dv w root tool wd c past' sess fs'"

definition clash_free :: "(string \<Rightarrow> ('w, 'g, 'c, 'a) unitDriver) \<Rightarrow> performed set \<Rightarrow> bool" where
  "clash_free Dv past \<longleftrightarrow> (\<forall>a\<in>past. \<forall>b\<in>past. \<not> clash Dv a b)"

lemma clash_free_mono: "clash_free Dv past' \<Longrightarrow> past \<subseteq> past' \<Longrightarrow> clash_free Dv past"
  unfolding clash_free_def by blast

lemma history_ok:
  assumes "tools_ok Dv dec w" "accepted (Dv tool) w wd c" "unit_history Dv w root tool wd c past sess fs"
  shows "clash_free Dv past \<Longrightarrow> process_ok Dv w root tool wd c past sess fs"
  using assms(3)
proof (induction rule: unit_history.induct)
  case (start past fs cacheDir sess)
  then show ?case by (auto simp: process_ok_def newUnitSession_def coherent_def Let_def)
next
  case (served past sess fs rq sess' fs' code msgs)
  have "clash_free Dv past" by (rule clash_free_mono [OF served.prems]) blast
  moreover have "\<not> clash Dv a (rq, tool)" if "a \<in> past" for a using served.prems that unfolding clash_free_def by blast
  ultimately show ?case using unitOnce_step [OF assms(1,2) served.IH _ served.hyps(3,2)] by blast
next
  case (others past sess fs past' fs')
  have "clash_free Dv past" by (rule clash_free_mono [OF others.prems others.hyps(2)])
  then have "process_ok Dv w root tool wd c past sess fs" by (rule others.IH)
  then show ?case using others.hyps(3) by (simp add: process_ok_def)
qed

text \<open>
  C6. The unit cache and the memoized session are transparent for a process that serves one configuration.  After any
  history of requests of that process, successful or not, with other processes filling the same store, a request that
  exits with success leaves exactly the SARIF and facts files that a fresh process without a cache would write for it,
  whether it was served from the store, from the memoized session or from scratch, or two of the performed actions are
  an explicit collision of SHA-256.  Assumed are the contract of the driver (the outcome is a function of the declared
  inputs) for every tool that shares the store, that the configuration of the process builds, and of each request that
  it names that configuration and working directory, that its two outputs and its temporary files are apart from each
  other and from the store, and that names and lengths are those a Go program can have.
\<close>

theorem unit_transparent:
  assumes "tools_ok Dv dec w" and "accepted (Dv tool) w wd c" and "unit_history Dv w root tool wd c past sess fs"
    and "unitOnce (Dv tool) rq sess fs = Some (sess', fs', 0, msgs)" and "req_ok Dv w root tool wd c rq msgs"
  shows "(\<exists>cfg. req_config (Dv tool) rq = Inr cfg \<and> left_by (cold (Dv tool) w (rq_host rq) cfg) cfg fs')
    \<or> (\<exists>a\<in>insert (rq, tool) past. \<exists>b\<in>insert (rq, tool) past. clash Dv a b)"
proof (cases "clash_free Dv (insert (rq, tool) past)")
  case True
  have "process_ok Dv w root tool wd c past sess fs"
    using history_ok [OF assms(1-3)] clash_free_mono [OF True] by blast
  moreover have "\<not> clash Dv a (rq, tool)" if "a \<in> past" for a using True that unfolding clash_free_def by blast
  ultimately show ?thesis using unitOnce_step [OF assms(1,2) _ _ assms(5,4)] by blast
qed (simp add: clash_free_def)



subsection \<open>A concrete process\<close>

definition demo_driver :: "(unit, unit, unit, unit) unitDriver" where
  "demo_driver =
     \<lparr>ud_decode = (\<lambda>b. Inr demo_unit), ud_default = (), ud_load = (\<lambda>p b. Inr ((), [])), ud_validate = (\<lambda>g. []),
      ud_build = (\<lambda>w g. ((), Inr ((), demo_registry, []))), ud_name = (\<lambda>a. []), ud_regex = relib demo_env,
      ud_exclusions = (\<lambda>g. None), ud_settings = (\<lambda>g. None), ud_graph = demo_graph, ud_fuel = 1,
      ud_lib = (\<lambda>w h. demo_lib), ud_env = (\<lambda>h. demo_env), ud_error = (\<lambda>e. ''run''), ud_loaderr = (\<lambda>e. ''load'')\<rparr>"

definition demo_request :: unitReq where
  "demo_request =
     \<lparr>rq_host = demo_host (Inl ''none''), rq_fuel = 1, rq_iter = id, rq_path = ''unit.json'', rq_read = None,
      rq_w1 = demo_io, rq_w2 = demo_io, rq_r1 = demo_io, rq_r2 = demo_io, rq_put = demo_io\<rparr>"

definition demo_session :: "(unit, unit, unit) unitSession" where
  "demo_session = \<lparr>us_configPath = [], us_digest = zero_digest, us_enableOnly = [], us_state = None, us_cache = Some ''c'',
     us_toolID = ''t'', us_flags = ()\<rparr>"

lemma run_bytes_demo: "run_bytes demo_lib g n e cfg gc reg f = run_bytes demo_lib g n e cfg gc reg f'"
proof -
  have "al_render demo_lib cfg ds fs c = Inr ''{}''" for ds fs c by (simp add: demo_lib_def)
  then show ?thesis by (simp add: run_bytes_def split: option.splits sum.splits)
qed

lemma demo_cold_config:
  assumes "config_body h1 cfg = config_body h2 cfg"
  shows "cold demo_driver w h1 cfg = cold demo_driver w h2 cfg"
proof -
  let ?only = "EnableOnly (Analysis cfg)"
  obtain f1 where f1: "NewFilter (relib demo_env) None (mustGetwd h1) [] = Inr f1" by (simp add: NewFilter_def)
  obtain f2 where f2: "NewFilter (relib demo_env) None (mustGetwd h2) [] = Inr f2" by (simp add: NewFilter_def)
  show ?thesis
  proof (cases "config_body h2 cfg")
    case (Inr body)
    show ?thesis
    proof (cases "select_only demo_driver ?only demo_registry")
      case (Inl e)
      then show ?thesis using Inr assms
        by (simp add: cold_def build_session_def golangci_source_def) (simp add: demo_driver_def)
    next
      case sel: (Inr reg)
      have "build_session demo_driver w (mustGetwd h) (golangci_Config (Analysis cfg)) body ?only = ((), Inr (((), reg, f), []))"
        if "NewFilter (relib demo_env) None (mustGetwd h) [] = Inr f" for h f
        using that sel by (simp add: build_session_def golangci_source_def) (simp add: demo_driver_def)
      from this [OF f1] this [OF f2] show ?thesis
        using Inr assms run_bytes_demo [of demo_graph 1 demo_env cfg None reg f1 f2] by (simp add: cold_def demo_driver_def)
    qed
  qed (simp add: cold_def assms)
qed

lemma demo_tools_ok: "tools_ok (\<lambda>t. demo_driver) (\<lambda>b. Inr demo_unit) ()"
proof -
  have "config_body h1 cfg = config_body h2 cfg"
    if "\<forall>p \<in> declared_files files cfg \<union> X. h_read h1 p = h_read h2 p" for h1 h2 cfg files X
    using that by (auto simp: config_body_def declared_files_def Let_def)
  then have "driver_pure demo_driver ()" unfolding driver_pure_def using demo_cold_config by metis
  then show ?thesis by (simp add: tools_ok_def demo_driver_def)
qed

lemma demo_validate: "validate demo_unit = None"
  by (simp add: validate_def demo_unit_def EffectiveMode_def SchemaVersion_def ModeFull_def ModeModule_def ModeFactsOnly_def Let_def)

lemma demo_config: "req_config demo_driver demo_request = Inr demo_unit"
  by (simp add: req_config_def LoadConfig_def demo_request_def demo_host_def demo_driver_def demo_validate)

lemma demo_names: "golangci_Config (Analysis demo_unit) = []" "EnableOnly (Analysis demo_unit) = []"
  "out_Sarif (Out demo_unit) = ''o''" "out_Facts (Out demo_unit) = []" "config_body (rq_host demo_request) demo_unit = Inr []"
  "mustGetwd (rq_host demo_request) = []"
  by (simp_all add: demo_unit_def config_body_def mustGetwd_def demo_request_def demo_host_def)

lemma demo_builds: obtains f where "NewFilter (relib demo_env) None [] [] = Inr f"
  "build_session demo_driver () [] [] [] [] = ((), Inr (((), demo_registry, f), []))"
proof -
  obtain f where f: "NewFilter (relib demo_env) None [] [] = Inr f" by (simp add: NewFilter_def)
  then show ?thesis using that by (simp add: build_session_def golangci_source_def select_only_def demo_driver_def)
qed

lemma demo_accepted: "accepted demo_driver () [] ([], [], [])"
  using demo_builds by (metis accepted_def build_setup_def case_prod_conv)

lemma demo_history: "unit_history (\<lambda>t. demo_driver) () ''c'' ''t'' [] c {} demo_session Map.empty"
  by (rule unit_history.start [where cacheDir = "''d''"])
    (simp_all add: honest_def newUnitSession_def demo_session_def Let_def)

text \<open>The entry that the first request leaves in the store.\<close>

definition demo_reply :: unitEntry where
  "demo_reply = \<lparr>Sarif = ''{}'', Facts = [], HasFacts = False, Warnings = []\<rparr>"

lemma demo_first:
  obtains sess fs where "unitOnce demo_driver demo_request demo_session Map.empty = Some (sess, fs, 0, [])"
    "us_cache sess = Some ''c''" "us_toolID sess = ''t''"
    "fs (store_path ''c'' (sha256 (kb_bytes demo_items))) = Some (encodeEntry (sha256 (kb_bytes demo_items)) demo_reply)"
proof -
  let ?k = "sha256 (kb_bytes demo_items)"
  obtain f where f: "NewFilter (relib demo_env) None [] [] = Inr f" and b: "build_session demo_driver () [] [] [] [] = ((), Inr (((), demo_registry, f), []))"
    by (rule demo_builds)
  have i: "filter_inv demo_env f f" using NewFilter_caches_ok [OF f] by (simp add: filter_inv_def)
  have l: "unitCacheLookup demo_request demo_session Map.empty demo_unit = Some (Some (''c'', ?k), None, [], Map.empty)"
    using demo_written [of "Inl ''none''" 1]
    by (simp add: unitCacheLookup_def demo_session_def demo_request_def unit_ComputeKey_def store_Get_def)
  have m: "EffectiveMode demo_unit = ModeModule" "ModeModule \<noteq> ModeFactsOnly"
    by (simp_all add: EffectiveMode_def demo_unit_def ModeFull_def ModeModule_def ModeFactsOnly_def)
  obtain sess1 where r: "refresh demo_driver (rq_host demo_request) demo_unit [] demo_session = (sess1, Inr [])"
    and s1: "us_state sess1 = Some ((), demo_registry, f)" "us_cache sess1 = Some ''c''" "us_toolID sess1 = ''t''"
    using b by (simp add: refresh_def memo_hit_def demo_session_def demo_names)
  have "\<exists>fs' fo. Run demo_lib demo_graph 1 demo_env demo_io demo_io Map.empty demo_unit None demo_registry (Some f)
      = Some (fs', fo, Inr \<lparr>res_Diagnostics = Sort (keep_spec (drops demo_env f) (uniqByLine f) file_line {} []), res_Warnings = []\<rparr>)
      \<and> fs' ''o'' = Some ''{}''"
    using m by (simp add: Run_def analyze_mode_def filter_findings_exact [OF f i] write_outputs_def unit_writeFileAtomic_def publish_def demo_names demo_lib_def demo_io_def)
  then obtain sess2 fs' ds where run: "run_session demo_driver demo_request demo_unit sess1 Map.empty = Some (sess2, fs', Inr \<lparr>res_Diagnostics = ds, res_Warnings = []\<rparr>)"
    and s2: "us_cache sess2 = Some ''c''" "us_toolID sess2 = ''t''" and o: "fs' ''o'' = Some ''{}''"
    using s1 by (auto simp: run_session_def demo_driver_def demo_request_def)
  obtain fs'' where st: "unitCacheStore demo_request (Some (''c'', ?k)) fs' demo_unit [] = (fs'', [])" "fs'' (store_path ''c'' ?k) = Some (encodeEntry ?k demo_reply)"
    using o by (simp add: unitCacheStore_def ReadOutputs_def unitCacheOutputs_def read_file_def demo_names store_Put_def publish_def demo_request_def demo_io_def demo_reply_def)
  have "unitOnce demo_driver demo_request demo_session Map.empty = Some (sess2, fs'', 0, [])"
    by (simp add: unitOnce_def demo_config l unit_run_def demo_names r run st exitSuccess_def Let_def)
  then show ?thesis using that s2 st(2) by blast
qed

lemma demo_second:
  assumes "us_cache sess = Some ''c''" "us_toolID sess = ''t''"
    and "fs (store_path ''c'' (sha256 (kb_bytes demo_items))) = Some (encodeEntry (sha256 (kb_bytes demo_items)) demo_reply)"
  obtains fs' where "unitCacheLookup demo_request sess fs demo_unit = Some (Some (''c'', sha256 (kb_bytes demo_items)), Some demo_reply, [], fs')"
    "unitOnce demo_driver demo_request sess fs = Some (sess, fs', 0, [])"
proof -
  let ?k = "sha256 (kb_bytes demo_items)"
  have "entry_ok demo_reply" by (simp add: entry_ok_def demo_reply_def len64_def)
  then have d: "decodeEntry ?k (encodeEntry ?k demo_reply) = Inr demo_reply" by (intro decode_encode) simp_all
  obtain fs' where "Entry_Write demo_io demo_io fs demo_reply (unitCacheOutputs demo_unit) = (fs', None)"
    by (simp add: Entry_Write_def unitCacheOutputs_def demo_names demo_reply_def unit_writeFileAtomic_def publish_def demo_io_def)
  then have l: "unitCacheLookup demo_request sess fs demo_unit = Some (Some (''c'', ?k), Some demo_reply, [], fs')"
    using demo_written [of "Inl ''none''" 1] assms d
    by (simp add: unitCacheLookup_def demo_request_def unit_ComputeKey_def store_Get_def)
  have "Warnings demo_reply = []" by (simp add: demo_reply_def)
  then show ?thesis using that [OF l] by (simp add: unitOnce_def demo_config l exitSuccess_def)
qed

lemma store_path_slash:
  assumes "length k = 32"
  shows "CHR ''/'' \<in> set (store_path ''c'' k)"
proof -
  let ?ws = "[take 2 (Hex k), Hex k]"
  have "plain_seg ''c''" by (simp add: plain_seg_def)
  then have "list_all plain_seg ?ws" "clean_segs ''c'' = [''c'']"
    using Hex_plain [OF assms] by (simp_all add: clean_segs_def plain_seg_def)
  then have "store_path ''c'' k = join_with ''/'' (''c'' # ?ws)"
    using Clean_join [of "''c''" ?ws] Hex_plain [OF assms]
    by (simp add: store_path_def Hex_def Join_def Let_def IsAbs_def HasPrefix_def plain_seg_def)
  then show ?thesis by simp
qed

lemma demo_req_ok: "req_ok (\<lambda>t. demo_driver) () ''c'' ''t'' [] ([], [], []) demo_request []"
proof -
  have "p \<notin> entry_paths ''c''" if "CHR ''/'' \<notin> set p" for p
    using store_path_slash that by (auto simp: entry_paths_def)
  then have "apart ''c'' demo_request demo_unit"
    by (auto simp: apart_def temps_def demo_request_def demo_io_def demo_unit_def)
  moreover have "sizes_ok (cold demo_driver () (rq_host demo_request) demo_unit) []"
  proof -
    have "analyze_mode demo_lib demo_graph 1 demo_unit None reg
        = Some (Inr \<lparr>ar_diags = [], ar_facts = [], ar_warnings = [], ar_files = [], ar_compiled = True\<rparr>)" for reg :: "(unit, nat) Registry"
      by (simp add: analyze_mode_def demo_unit_def EffectiveMode_def ModeModule_def demo_lib_def)
    then have "run_bytes demo_lib demo_graph 1 demo_env demo_unit None reg f = Some (''{}'', factsMagic)"
      for f and reg :: "(unit, nat) Registry" by (simp add: run_bytes_def) (simp add: demo_lib_def wrapFacts_def)
    then have "cold demo_driver () (rq_host demo_request) demo_unit \<in> {None, Some (''{}'', factsMagic)}"
      by (simp add: cold_def demo_driver_def split: sum.split prod.split)
    then show ?thesis by (auto simp: sizes_ok_def len64_def factsMagic_def)
  qed
  moreover have "list_all go_len (concat (map item_chunks demo_items))"
    by (simp add: demo_items_def go_len_def keySchema_def)
  ultimately show ?thesis
    using demo_config demo_written [of "Inl ''none''" 1]
    by (simp add: req_ok_def plain_names_def setup_of_def demo_names)
      (simp add: demo_request_def demo_unit_def demo_host_def)
qed

theorem unit_transparent_witness:
  "\<exists>sess fs fs'. unitOnce demo_driver demo_request demo_session Map.empty = Some (sess, fs, 0, [])
    \<and> (\<exists>attempt. unitCacheLookup demo_request sess fs demo_unit = Some (attempt, Some demo_reply, [], fs'))
    \<and> unitOnce demo_driver demo_request sess fs = Some (sess, fs', 0, [])
    \<and> (\<exists>cfg. req_config demo_driver demo_request = Inr cfg \<and> left_by (cold demo_driver () (rq_host demo_request) cfg) cfg fs')"
proof -
  obtain sess fs where one: "unitOnce demo_driver demo_request demo_session Map.empty = Some (sess, fs, 0, [])"
    and s: "us_cache sess = Some ''c''" "us_toolID sess = ''t''"
      "fs (store_path ''c'' (sha256 (kb_bytes demo_items))) = Some (encodeEntry (sha256 (kb_bytes demo_items)) demo_reply)"
    by (rule demo_first)
  obtain fs' where hit: "unitCacheLookup demo_request sess fs demo_unit = Some (Some (''c'', sha256 (kb_bytes demo_items)), Some demo_reply, [], fs')"
    and two: "unitOnce demo_driver demo_request sess fs = Some (sess, fs', 0, [])"
    by (rule demo_second [where sess = sess and fs = fs, OF s])
  have h: "unit_history (\<lambda>t. demo_driver) () ''c'' ''t'' [] ([], [], []) {(demo_request, ''t'')} sess fs"
    by (rule unit_history.served [OF demo_history one demo_req_ok])
  have "\<not> clash (\<lambda>t. demo_driver) (demo_request, ''t'') (demo_request, ''t'')"
    by (auto simp: clash_def contents_clash_def collision_def action_key_def)
  then show ?thesis using unit_transparent [OF demo_tools_ok demo_accepted h two demo_req_ok] one hit two by auto
qed

end
