(* ===== verification/GraphWalk.thy ===== *)
theory GraphWalk
  imports Main
begin

text \<open>
  Depth-first collection of the nodes reachable in a finite graph, as several parts of the program do it with a
  recursive closure and a visited map.  The call stack is explicit: the successors of a node are visited before
  the rest of the work list, each node is expanded once, and the visited nodes are kept in the order of their
  first visit.  A Go map of successors is an association list, so the iteration order of the map is whatever
  order the list has.
\<close>

definition succs :: "('a \<times> 'a list) list \<Rightarrow> 'a \<Rightarrow> 'a list" where
  "succs es x = (case map_of es x of None \<Rightarrow> [] | Some ys \<Rightarrow> ys)"

definition edge_ends :: "('a \<times> 'a list) list \<Rightarrow> 'a set" where
  "edge_ends es = \<Union> (set ` snd ` set es)"

lemma finite_nodes [simp]: "finite (edge_ends es)"
  by (simp add: edge_ends_def)

lemma succs_nodes: "set (succs es x) \<subseteq> edge_ends es"
proof (cases "map_of es x")
  case (Some ys)
  then have "(x, ys) \<in> set es" by (rule map_of_SomeD)
  then show ?thesis using Some by (force simp: succs_def edge_ends_def)
qed (simp add: succs_def)

function walk :: "('a \<times> 'a list) list \<Rightarrow> 'a list \<Rightarrow> 'a list \<Rightarrow> 'a list" where
  "walk es seen [] = seen"
| "walk es seen (x # todo) =
     (if x \<in> set seen then walk es seen todo else walk es (seen @ [x]) (succs es x @ todo))"
  by pat_completeness auto

termination
proof (relation "measures [\<lambda>(es, seen, todo). card ((edge_ends es \<union> set todo) - set seen), \<lambda>(es, seen, todo). length todo]", goal_cases)
  case 1
  show ?case by simp
next
  case (2 es seen x todo)
  have "card (edge_ends es \<union> set todo - set seen) \<le> card (edge_ends es \<union> set (x # todo) - set seen)"
    by (rule card_mono) auto
  then show ?case by (simp add: le_less)
next
  case (3 es seen x todo)
  have "card (edge_ends es \<union> set (succs es x @ todo) - set (seen @ [x])) < card (edge_ends es \<union> set (x # todo) - set seen)"
    by (rule psubset_card_mono) (use 3 succs_nodes [of es x] in auto)
  then show ?case by simp
qed

definition edge :: "('a \<times> 'a list) list \<Rightarrow> 'a \<Rightarrow> 'a \<Rightarrow> bool" where
  "edge es x y \<longleftrightarrow> y \<in> set (succs es x)"

definition reachable :: "('a \<times> 'a list) list \<Rightarrow> 'a set \<Rightarrow> 'a set" where
  "reachable es R = {y. \<exists>x\<in>R. (edge es)\<^sup>*\<^sup>* x y}"

lemma reachable_base: "R \<subseteq> reachable es R"
  by (auto simp: reachable_def)

lemma reachable_step: "x \<in> reachable es R \<Longrightarrow> set (succs es x) \<subseteq> reachable es R"
  by (auto simp: reachable_def edge_def [symmetric]) (metis rtranclp.rtrancl_into_rtrancl)

lemma reachable_least:
  assumes "R \<subseteq> S" and "\<And>x. x \<in> S \<Longrightarrow> set (succs es x) \<subseteq> S"
  shows "reachable es R \<subseteq> S"
proof
  fix y assume "y \<in> reachable es R"
  then obtain x where "x \<in> R" "(edge es)\<^sup>*\<^sup>* x y" by (auto simp: reachable_def)
  from this(2) this(1) assms show "y \<in> S" by (induction rule: rtranclp_induct) (auto simp: edge_def)
qed

lemma reachable_insert_succs: "reachable es (insert x (set (succs es x) \<union> T)) = reachable es (insert x T)"
proof (rule antisym)
  show "reachable es (insert x (set (succs es x) \<union> T)) \<subseteq> reachable es (insert x T)"
    by (rule reachable_least) (use reachable_base [of "insert x T" es] reachable_step [of _ es "insert x T"] in blast)+
  show "reachable es (insert x T) \<subseteq> reachable es (insert x (set (succs es x) \<union> T))"
    by (auto simp: reachable_def)
qed

text \<open>
  The walk collects exactly what is reachable, once each, provided the nodes already seen were left with their
  successors on the work list.
\<close>

lemma walk_reachable:
  assumes "\<And>x. x \<in> set seen \<Longrightarrow> set (succs es x) \<subseteq> set seen \<union> set todo"
  shows "set (walk es seen todo) = reachable es (set seen \<union> set todo)"
  using assms
proof (induction es seen todo rule: walk.induct)
  case (1 es seen)
  then show ?case using reachable_base [of "set seen" es] reachable_least [of "set seen" "set seen" es] by auto
next
  case (2 es seen x todo)
  show ?case
  proof (cases "x \<in> set seen")
    case True
    then show ?thesis using 2 by (simp add: insert_absorb)
  next
    case False
    have "set (walk es (seen @ [x]) (succs es x @ todo)) = reachable es (set (seen @ [x]) \<union> set (succs es x @ todo))"
      using "2.prems" by (intro "2.IH"(2) [OF False]) auto
    also have "set (seen @ [x]) \<union> set (succs es x @ todo) = insert x (set (succs es x) \<union> (set seen \<union> set todo))" by auto
    finally show ?thesis using False by (simp add: reachable_insert_succs)
  qed
qed

lemma walk_distinct: "distinct seen \<Longrightarrow> distinct (walk es seen todo)"
  by (induction es seen todo rule: walk.induct) auto

lemma walk_roots: "set (walk es [] todo) = reachable es (set todo)"
  using walk_reachable [of "[]" es todo] by simp

end
