(* ===== verification/EngineKeys.thy ===== *)
theory EngineKeys
  imports GraphWalk L0Cache "HOL-Library.AList"
begin

text \<open>
  The keys under which the engine stores a package's diagnostics (\<^verbatim>\<open>internal/engine/l0.go\<close>): the per-run
  context with its two memo tables, the digest of a package's own sources, the digest over its transitive
  dependencies, and the digest of the analyzer set.

  The package graph of the loader is given: \<open>mgraph\<close> is the map from package identifiers to metadata.  Reading a
  compiled file through the snapshot, which yields the hash of its content, is \<open>se_hash\<close>, constant during a run;
  \<open>se_path\<close> is the path of a document URI.
\<close>

record package =
  pID :: string
  pPkgPath :: string
  pForTest :: string
  CompiledGoFiles :: "string list"
  pGoFiles :: "string list"
  DepsByPkgPath :: "(string \<times> string) list"

type_synonym mgraph = "(string \<times> package) list"

record senv =
  se_hash :: "string \<Rightarrow> bytes option"
  se_path :: "string \<Rightarrow> string"

record l0Context =
  lc_graph :: mgraph
  sourceHashCache :: "string \<rightharpoonup> bytes"
  depHashCache :: "string \<rightharpoonup> bytes"
  lc_analyzerSetHash :: bytes
  lc_filterConfigHash :: bytes
  lc_toolVersion :: string
  lc_buildEnv :: string
  lc_goVersion :: string


subsection \<open>Building the context\<close>

text \<open>\<open>all\<close> is what the snapshot returns for all metadata; a nil pointer is \<open>None\<close>.\<close>

definition graph_of :: "package option list \<Rightarrow> mgraph" where
  "graph_of all = fold (\<lambda>mo g. case mo of None \<Rightarrow> g | Some mp \<Rightarrow> AList.update (pID mp) mp g) all []"

definition newL0Context ::
  "package option list result \<Rightarrow> bytes \<Rightarrow> bytes \<Rightarrow> string \<Rightarrow> string \<Rightarrow> string \<Rightarrow> l0Context result" where
  "newL0Context all analyzerSetHash filterConfigHash toolVersion buildEnv goVersion =
     (case all of
        Inl e \<Rightarrow> Inl e
      | Inr mps \<Rightarrow>
          Inr \<lparr>lc_graph = graph_of mps, sourceHashCache = Map.empty, depHashCache = Map.empty,
               lc_analyzerSetHash = analyzerSetHash, lc_filterConfigHash = filterConfigHash,
               lc_toolVersion = toolVersion, lc_buildEnv = buildEnv, lc_goVersion = goVersion\<rparr>)"


subsection \<open>The digest of the analyzer set\<close>

definition EngineCacheVersion :: nat where "EngineCacheVersion = 8"

record analyzerDescriptor =
  ad_AnalyzerVersion :: string
  ad_CacheVersion :: nat
  ad_ConfigSalt :: "bytes option"

text \<open>\<open>ad_ConfigSalt\<close> is the salt function of the descriptor applied to nil; \<open>None\<close> when there is no function.\<close>

definition stubAnalyzerVersion :: "string \<Rightarrow> string" where
  "stubAnalyzerVersion name = hex_encode (take 8 (sha256 name))"

definition analyzerVersionFor :: "string \<Rightarrow> analyzerDescriptor option \<Rightarrow> string" where
  "analyzerVersionFor name d =
     (let base = (case d of Some x \<Rightarrow> if ad_AnalyzerVersion x \<noteq> [] then ad_AnalyzerVersion x else stubAnalyzerVersion name
                          | None \<Rightarrow> stubAnalyzerVersion name);
          wrapper = (case d of Some x \<Rightarrow> ad_CacheVersion x | None \<Rightarrow> 0)
      in base @ ''.cv'' @ itoa (int wrapper) @ ''.e'' @ itoa (int EngineCacheVersion))"

definition configSaltFor :: "string \<Rightarrow> analyzerDescriptor option \<Rightarrow> bytes" where
  "configSaltFor name d =
     (case d of
        Some x \<Rightarrow> (case ad_ConfigSalt x of Some s \<Rightarrow> s | None \<Rightarrow> sha256 name)
      | None \<Rightarrow> sha256 name)"

text \<open>
  The analyzers of the plan are pointers, here natural numbers; \<open>None\<close> is a nil pointer, \<open>name\<close> reads the name of
  an analyzer and \<open>look\<close> its descriptor.
\<close>

fun first_pointers :: "nat option list \<Rightarrow> nat list \<Rightarrow> nat list" where
  "first_pointers [] seen = []"
| "first_pointers (None # as) seen = first_pointers as seen"
| "first_pointers (Some a # as) seen =
     (if a \<in> set seen then first_pointers as seen else a # first_pointers as (a # seen))"

definition computeAnalyzerSetHash ::
  "(nat \<Rightarrow> string) \<Rightarrow> (nat \<Rightarrow> analyzerDescriptor option) \<Rightarrow> nat option list option \<Rightarrow> bytes" where
  "computeAnalyzerSetHash name look plan =
     (case plan of
        None \<Rightarrow> zero_digest
      | Some as \<Rightarrow>
          if as = [] then zero_digest
          else let ps = first_pointers as []
               in HashAnalyzerSet (map name ps) (map (\<lambda>a. analyzerVersionFor (name a) (look a)) ps)
                    (map (\<lambda>a. configSaltFor (name a) (look a)) ps))"


subsection \<open>Digests of packages\<close>

definition base_names :: "senv \<Rightarrow> package \<Rightarrow> string list" where
  "base_names E mp = map (\<lambda>u. Base (se_path E u)) (CompiledGoFiles mp)"

definition sourceHashOf :: "senv \<Rightarrow> l0Context \<Rightarrow> package \<Rightarrow> l0Context \<times> bytes option" where
  "sourceHashOf E lc mp =
     (case sourceHashCache lc (pID mp) of
        Some h \<Rightarrow> (lc, Some h)
      | None \<Rightarrow>
          (case those (map (se_hash E) (CompiledGoFiles mp)) of
             None \<Rightarrow> (lc, None)
           | Some hashes \<Rightarrow>
               (let h = HashFiles (base_names E mp) hashes
                in (lc\<lparr>sourceHashCache := (sourceHashCache lc)(pID mp \<mapsto> h)\<rparr>, Some h))))"

text \<open>
  \<^verbatim>\<open>collectClosure\<close>: an identifier enters \<^verbatim>\<open>visiting\<close> together with \<^verbatim>\<open>closure\<close> and never leaves the latter, so the
  test for a cycle is never reached with a different answer, and no branch returns false; a dependency without
  metadata is skipped.
\<close>

definition known_deps :: "mgraph \<Rightarrow> package \<Rightarrow> string list" where
  "known_deps g mp = filter (\<lambda>d. map_of g d \<noteq> None) (map snd (DepsByPkgPath mp))"

definition known_edges :: "mgraph \<Rightarrow> (string \<times> string list) list" where
  "known_edges g = map (\<lambda>(id, mp). (id, known_deps g mp)) g"

definition collectClosure :: "mgraph \<Rightarrow> package \<Rightarrow> string list" where
  "collectClosure g mp = walk (known_edges g) [pID mp] (known_deps g mp)"

fun hash_deps :: "senv \<Rightarrow> l0Context \<Rightarrow> string list \<Rightarrow> l0Context \<times> bytes list option" where
  "hash_deps E lc [] = (lc, Some [])"
| "hash_deps E lc (d # ids) =
     (case map_of (lc_graph lc) d of
        None \<Rightarrow> (lc, None)
      | Some dep \<Rightarrow>
          (case sourceHashOf E lc dep of
             (lc', None) \<Rightarrow> (lc', None)
           | (lc', Some h) \<Rightarrow> (case hash_deps E lc' ids of (lc'', r) \<Rightarrow> (lc'', map_option (\<lambda>hs. h # hs) r))))"

definition depHashOf :: "senv \<Rightarrow> l0Context \<Rightarrow> package \<Rightarrow> l0Context \<times> bytes option" where
  "depHashOf E lc mp =
     (case depHashCache lc (pID mp) of
        Some h \<Rightarrow> (lc, Some h)
      | None \<Rightarrow>
          (let ids = removeAll (pID mp) (collectClosure (lc_graph lc) mp)
           in case hash_deps E lc ids of
                (lc', None) \<Rightarrow> (lc', None)
              | (lc', Some hashes) \<Rightarrow>
                  (let h = HashDepClosure ids hashes
                   in (lc'\<lparr>depHashCache := (depHashCache lc')(pID mp \<mapsto> h)\<rparr>, Some h))))"

definition keyFor :: "senv \<Rightarrow> l0Context \<Rightarrow> package option \<Rightarrow> l0Context \<times> actionID option" where
  "keyFor E lc mo =
     (case mo of
        None \<Rightarrow> (lc, None)
      | Some mp \<Rightarrow>
          (case sourceHashOf E lc mp of
             (lc1, None) \<Rightarrow> (lc1, None)
           | (lc1, Some src) \<Rightarrow>
               (case depHashOf E lc1 mp of
                  (lc2, None) \<Rightarrow> (lc2, None)
                | (lc2, Some dep) \<Rightarrow>
                    (lc2, Some (ComputeKey
                       \<lparr>kpPackageID = pID mp, kpPackagePath = pPkgPath mp, kpSourceHash = src, kpDepHash = dep,
                        kpAnalyzerSetHash = lc_analyzerSetHash lc2, kpFilterConfigHash = lc_filterConfigHash lc2,
                        kpToolVersion = lc_toolVersion lc2, kpBuildEnv = lc_buildEnv lc2, kpGoVersion = lc_goVersion lc2\<rparr>)))))"


subsection \<open>What the memo tables compute\<close>

definition src_spec :: "senv \<Rightarrow> package \<Rightarrow> bytes option" where
  "src_spec E mp = map_option (HashFiles (base_names E mp)) (those (map (se_hash E) (CompiledGoFiles mp)))"

definition dep_ids :: "mgraph \<Rightarrow> package \<Rightarrow> string list" where
  "dep_ids g mp = removeAll (pID mp) (collectClosure g mp)"

definition dep_spec :: "senv \<Rightarrow> mgraph \<Rightarrow> package \<Rightarrow> bytes option" where
  "dep_spec E g mp =
     map_option (HashDepClosure (dep_ids g mp)) (those (map (\<lambda>d. Option.bind (map_of g d) (src_spec E)) (dep_ids g mp)))"

definition parts_spec :: "senv \<Rightarrow> l0Context \<Rightarrow> package \<Rightarrow> KeyParts option" where
  "parts_spec E lc mp =
     (case (src_spec E mp, dep_spec E (lc_graph lc) mp) of
        (Some src, Some dep) \<Rightarrow>
          Some \<lparr>kpPackageID = pID mp, kpPackagePath = pPkgPath mp, kpSourceHash = src, kpDepHash = dep,
                kpAnalyzerSetHash = lc_analyzerSetHash lc, kpFilterConfigHash = lc_filterConfigHash lc,
                kpToolVersion = lc_toolVersion lc, kpBuildEnv = lc_buildEnv lc, kpGoVersion = lc_goVersion lc\<rparr>
      | _ \<Rightarrow> None)"

text \<open>The tables hold only what recomputing would give, and the graph files every package under its own identifier.\<close>

definition graph_ok :: "mgraph \<Rightarrow> bool" where
  "graph_ok g \<longleftrightarrow> (\<forall>id mp. map_of g id = Some mp \<longrightarrow> pID mp = id)"

definition lc_ok :: "senv \<Rightarrow> l0Context \<Rightarrow> bool" where
  "lc_ok E lc \<longleftrightarrow> graph_ok (lc_graph lc)
     \<and> (\<forall>id h. sourceHashCache lc id = Some h \<longrightarrow> (\<exists>mp. map_of (lc_graph lc) id = Some mp \<and> src_spec E mp = Some h))
     \<and> (\<forall>id h. depHashCache lc id = Some h \<longrightarrow> (\<exists>mp. map_of (lc_graph lc) id = Some mp \<and> dep_spec E (lc_graph lc) mp = Some h))"

text \<open>Everything of the context but its tables.\<close>

definition lc_fixed :: "l0Context \<Rightarrow> l0Context" where
  "lc_fixed lc = lc\<lparr>sourceHashCache := Map.empty, depHashCache := Map.empty\<rparr>"

lemma lc_fixed_eqD:
  assumes "lc_fixed lc' = lc_fixed lc"
  shows "lc_graph lc' = lc_graph lc" "lc_analyzerSetHash lc' = lc_analyzerSetHash lc"
    "lc_filterConfigHash lc' = lc_filterConfigHash lc" "lc_toolVersion lc' = lc_toolVersion lc"
    "lc_buildEnv lc' = lc_buildEnv lc" "lc_goVersion lc' = lc_goVersion lc"
  using assms by (cases lc; cases lc'; simp add: lc_fixed_def)+

lemma parts_spec_fixed:
  assumes "lc_fixed lc' = lc_fixed lc"
  shows "parts_spec E lc' mp = parts_spec E lc mp"
  unfolding parts_spec_def lc_fixed_eqD [OF assms] ..

lemma sourceHashOf_spec:
  assumes "lc_ok E lc" and "map_of (lc_graph lc) (pID mp) = Some mp"
  shows "\<exists>lc'. sourceHashOf E lc mp = (lc', src_spec E mp) \<and> lc_ok E lc' \<and> lc_fixed lc' = lc_fixed lc"
proof (cases "sourceHashCache lc (pID mp)")
  case (Some h)
  then have "src_spec E mp = Some h" using assms unfolding lc_ok_def by fastforce
  then show ?thesis using Some assms(1) by (simp add: sourceHashOf_def)
next
  case None
  show ?thesis
  proof (cases "those (map (se_hash E) (CompiledGoFiles mp))")
    case r: None
    then show ?thesis using None assms(1) by (simp add: sourceHashOf_def src_spec_def)
  next
    case (Some hs)
    then show ?thesis using None assms by (auto simp: sourceHashOf_def src_spec_def lc_ok_def lc_fixed_def Let_def)
  qed
qed

lemma hash_deps_spec:
  assumes "lc_ok E lc"
  shows "\<exists>lc'. hash_deps E lc ids = (lc', those (map (\<lambda>d. Option.bind (map_of (lc_graph lc) d) (src_spec E)) ids))
    \<and> lc_ok E lc' \<and> lc_fixed lc' = lc_fixed lc"
  using assms
proof (induction ids arbitrary: lc)
  case (Cons d ids)
  show ?case
  proof (cases "map_of (lc_graph lc) d")
    case None
    then show ?thesis using Cons.prems by simp
  next
    case (Some dep)
    then have "pID dep = d" using Cons.prems by (simp add: lc_ok_def graph_ok_def)
    then obtain lc1 where s: "sourceHashOf E lc dep = (lc1, src_spec E dep)" "lc_ok E lc1" "lc_fixed lc1 = lc_fixed lc"
      using sourceHashOf_spec [OF Cons.prems, of dep] Some by auto
    show ?thesis
    proof (cases "src_spec E dep")
      case None
      then show ?thesis using Some s by simp
    next
      case h: (Some h)
      then show ?thesis using Some s Cons.IH [OF s(2)] lc_fixed_eqD(1) [OF s(3)] by (auto simp: option.map_comp)
    qed
  qed
qed simp

lemma depHashOf_spec:
  assumes "lc_ok E lc" and "map_of (lc_graph lc) (pID mp) = Some mp"
  shows "\<exists>lc'. depHashOf E lc mp = (lc', dep_spec E (lc_graph lc) mp) \<and> lc_ok E lc' \<and> lc_fixed lc' = lc_fixed lc"
proof (cases "depHashCache lc (pID mp)")
  case (Some h)
  then have "dep_spec E (lc_graph lc) mp = Some h" using assms unfolding lc_ok_def by fastforce
  then show ?thesis using Some assms(1) by (simp add: depHashOf_def)
next
  case None
  let ?r = "those (map (\<lambda>d. Option.bind (map_of (lc_graph lc) d) (src_spec E)) (dep_ids (lc_graph lc) mp))"
  obtain lc1 where d: "hash_deps E lc (dep_ids (lc_graph lc) mp) = (lc1, ?r)" "lc_ok E lc1" "lc_fixed lc1 = lc_fixed lc"
    using hash_deps_spec [OF assms(1)] by blast
  show ?thesis
  proof (cases ?r)
    case r: None
    then show ?thesis using None d by (simp add: depHashOf_def dep_spec_def dep_ids_def Let_def)
  next
    case (Some hs)
    let ?lc = "lc1\<lparr>depHashCache := (depHashCache lc1)(pID mp \<mapsto> HashDepClosure (dep_ids (lc_graph lc) mp) hs)\<rparr>"
    have "dep_spec E (lc_graph lc) mp = Some (HashDepClosure (dep_ids (lc_graph lc) mp) hs)" using Some by (simp add: dep_spec_def)
    moreover from this have "lc_ok E ?lc" "lc_fixed ?lc = lc_fixed lc"
      using d(2,3) assms(2) lc_fixed_eqD(1) [OF d(3)] by (auto simp: lc_ok_def lc_fixed_def)
    ultimately show ?thesis using None d Some by (simp add: depHashOf_def dep_ids_def Let_def)
  qed
qed

lemma keyFor_parts:
  assumes "lc_ok E lc" and "map_of (lc_graph lc) (pID mp) = Some mp"
  shows "\<exists>lc'. keyFor E lc (Some mp) = (lc', map_option ComputeKey (parts_spec E lc mp)) \<and> lc_ok E lc' \<and> lc_fixed lc' = lc_fixed lc"
proof -
  obtain lc1 where s: "sourceHashOf E lc mp = (lc1, src_spec E mp)" "lc_ok E lc1" "lc_fixed lc1 = lc_fixed lc"
    using sourceHashOf_spec [OF assms] by blast
  obtain lc2 where d: "depHashOf E lc1 mp = (lc2, dep_spec E (lc_graph lc) mp)" "lc_ok E lc2" "lc_fixed lc2 = lc_fixed lc"
    using depHashOf_spec [OF s(2)] assms(2) s(3) lc_fixed_eqD(1) [OF s(3)] by metis
  show ?thesis
  proof (cases "src_spec E mp")
    case None
    then show ?thesis using s by (simp add: keyFor_def parts_spec_def)
  next
    case (Some src)
    show ?thesis
    proof (cases "dep_spec E (lc_graph lc) mp")
      case None
      then show ?thesis using s(1) d Some by (simp add: keyFor_def parts_spec_def)
    next
      case dep: (Some dep)
      then show ?thesis using s(1) d Some by (simp add: keyFor_def parts_spec_def lc_fixed_eqD [OF d(3)])
    qed
  qed
qed


subsection \<open>When there is a key\<close>

lemma map_of_known_edges: "map_of (known_edges g) x = map_option (known_deps g) (map_of g x)"
  by (simp add: known_edges_def map_of_map)

lemma succs_known_edges: "succs (known_edges g) x = (case map_of g x of None \<Rightarrow> [] | Some mp \<Rightarrow> known_deps g mp)"
  by (simp add: succs_def map_of_known_edges split: option.split)

lemma collectClosure_reachable:
  assumes "map_of g (pID mp) = Some mp"
  shows "set (collectClosure g mp) = reachable (known_edges g) {pID mp}"
proof -
  have s: "succs (known_edges g) (pID mp) = known_deps g mp" using assms by (simp add: succs_known_edges)
  have "set (collectClosure g mp) = reachable (known_edges g) (insert (pID mp) (set (known_deps g mp) \<union> {}))"
    unfolding collectClosure_def using s by (subst walk_reachable) auto
  then show ?thesis using reachable_insert_succs [of "known_edges g" "pID mp" "{}"] s by simp
qed

lemma reachable_known:
  assumes "map_of g r = Some mp" and "d \<in> reachable (known_edges g) {r}"
  shows "\<exists>p. map_of g d = Some p"
proof -
  have "reachable (known_edges g) {r} \<subseteq> {d. map_of g d \<noteq> None}"
    by (rule reachable_least) (use assms(1) in \<open>auto simp: succs_known_edges known_deps_def split: option.splits\<close>)
  then show ?thesis using assms(2) by auto
qed

lemma those_eq_Some: "those xs = Some ys \<longleftrightarrow> xs = map Some ys"
  by (induction xs arbitrary: ys) (auto split: option.splits simp: Cons_eq_map_conv)

lemma those_defined: "(\<exists>ys. those xs = Some ys) \<longleftrightarrow> None \<notin> set xs"
  by (induction xs) (auto split: option.splits)

definition files_readable :: "senv \<Rightarrow> package \<Rightarrow> bool" where
  "files_readable E mp \<longleftrightarrow> (\<forall>u\<in>set (CompiledGoFiles mp). se_hash E u \<noteq> None)"

lemma src_spec_defined: "(\<exists>h. src_spec E mp = Some h) \<longleftrightarrow> files_readable E mp"
proof -
  have "files_readable E mp \<longleftrightarrow> None \<notin> set (map (se_hash E) (CompiledGoFiles mp))" by (force simp: files_readable_def)
  then show ?thesis using those_defined [of "map (se_hash E) (CompiledGoFiles mp)"] by (auto simp: src_spec_def)
qed

lemma dep_spec_defined:
  assumes "map_of g (pID mp) = Some mp"
  shows "(\<exists>h. dep_spec E g mp = Some h) \<longleftrightarrow>
    (\<forall>d p. d \<in> reachable (known_edges g) {pID mp} - {pID mp} \<longrightarrow> map_of g d = Some p \<longrightarrow> files_readable E p)"
proof -
  let ?f = "\<lambda>d. Option.bind (map_of g d) (src_spec E)"
  have i: "set (dep_ids g mp) = reachable (known_edges g) {pID mp} - {pID mp}"
    using collectClosure_reachable [OF assms] by (auto simp: dep_ids_def)
  have "(\<exists>h. dep_spec E g mp = Some h) \<longleftrightarrow> (\<forall>d\<in>set (dep_ids g mp). \<exists>h. ?f d = Some h)"
    using those_defined [of "map ?f (dep_ids g mp)"] by (auto simp: dep_spec_def image_iff) (metis option.exhaust)+
  also have "\<dots> \<longleftrightarrow> (\<forall>d\<in>set (dep_ids g mp). \<exists>p. map_of g d = Some p \<and> files_readable E p)"
    by (simp add: src_spec_defined [symmetric] bind_eq_Some_conv) blast
  finally show ?thesis using reachable_known [OF assms] unfolding i by (metis DiffD1 option.inject)
qed

text \<open>
  A package has a key exactly when every compiled file of the package, and of every package that is reachable
  from it over dependencies with metadata, can be read: whatever was asked before, whatever cycles the graph
  has.  A dependency without metadata does not stand in the way.
\<close>

theorem keyFor_decides:
  assumes "lc_ok E lc" and "map_of (lc_graph lc) (pID mp) = Some mp"
  shows "snd (keyFor E lc (Some mp)) \<noteq> None \<longleftrightarrow>
    (\<forall>d p. d \<in> reachable (known_edges (lc_graph lc)) {pID mp} \<longrightarrow> map_of (lc_graph lc) d = Some p \<longrightarrow> files_readable E p)"
proof -
  let ?R = "reachable (known_edges (lc_graph lc)) {pID mp}"
  have self: "pID mp \<in> ?R" using reachable_base [of "{pID mp}"] by auto
  have "snd (keyFor E lc (Some mp)) \<noteq> None \<longleftrightarrow> (\<exists>h. src_spec E mp = Some h) \<and> (\<exists>h. dep_spec E (lc_graph lc) mp = Some h)"
    using keyFor_parts [OF assms] by (auto simp: parts_spec_def split: option.splits)
  then show ?thesis
    unfolding src_spec_defined dep_spec_defined [OF assms(2)] using self assms(2) by (metis DiffD1 DiffI option.inject singletonD)
qed


subsection \<open>What a key covers\<close>

text \<open>The rows of a package's files and of its dependencies, and the byte strings the digests hash.\<close>

definition pkg_rows :: "senv \<Rightarrow> package \<Rightarrow> (string \<times> bytes) list" where
  "pkg_rows E mp = map (\<lambda>u. (Base (se_path E u), the (se_hash E u))) (CompiledGoFiles mp)"

definition row_bytes :: "(string \<times> bytes) list \<Rightarrow> bytes" where
  "row_bytes rs = concat (map pair_row (sort_key fst rs))"

definition dep_rows :: "senv \<Rightarrow> mgraph \<Rightarrow> package \<Rightarrow> (string \<times> bytes) list" where
  "dep_rows E g mp = map (\<lambda>d. (d, sha256 (row_bytes (pkg_rows E (the (map_of g d)))))) (dep_ids g mp)"

lemma src_spec_rows:
  assumes "src_spec E mp = Some h"
  shows "h = sha256 (row_bytes (pkg_rows E mp))"
proof -
  obtain hs where hs: "map (se_hash E) (CompiledGoFiles mp) = map Some hs" "h = HashFiles (base_names E mp) hs"
    using assms by (auto simp: src_spec_def those_eq_Some)
  have l: "length hs = length (CompiledGoFiles mp)" using arg_cong [OF hs(1), of length] by simp
  have "zip (base_names E mp) hs = pkg_rows E mp"
  proof (rule nth_equalityI)
    fix i assume "i < length (zip (base_names E mp) hs)"
    then have i: "i < length hs" by simp
    then have "se_hash E (CompiledGoFiles mp ! i) = Some (hs ! i)" using arg_cong [OF hs(1), of "\<lambda>xs. xs ! i"] l by simp
    then show "zip (base_names E mp) hs ! i = pkg_rows E mp ! i" using i l by (simp add: base_names_def pkg_rows_def)
  qed (simp add: base_names_def pkg_rows_def l)
  then show ?thesis using hs(2) l by (simp add: HashFiles_def row_bytes_def base_names_def)
qed

lemma dep_spec_rows:
  assumes "map_of g (pID mp) = Some mp" "dep_spec E g mp = Some h"
  shows "h = sha256 (row_bytes (dep_rows E g mp))"
proof -
  let ?f = "\<lambda>d. Option.bind (map_of g d) (src_spec E)"
  obtain hs where hs: "map ?f (dep_ids g mp) = map Some hs" "h = HashDepClosure (dep_ids g mp) hs"
    using assms(2) by (auto simp: dep_spec_def those_eq_Some)
  have l: "length hs = length (dep_ids g mp)" using arg_cong [OF hs(1), of length] by simp
  have "zip (dep_ids g mp) hs = dep_rows E g mp"
  proof (rule nth_equalityI)
    fix i assume "i < length (zip (dep_ids g mp) hs)"
    then have i: "i < length hs" by simp
    then have "?f (dep_ids g mp ! i) = Some (hs ! i)" using arg_cong [OF hs(1), of "\<lambda>xs. xs ! i"] l by simp
    then obtain p where "map_of g (dep_ids g mp ! i) = Some p" "src_spec E p = Some (hs ! i)" by (auto simp: bind_eq_Some_conv)
    then show "zip (dep_ids g mp) hs ! i = dep_rows E g mp ! i" using i l src_spec_rows by (simp add: dep_rows_def)
  qed (simp add: dep_rows_def l)
  then show ?thesis using hs(2) l by (simp add: HashDepClosure_def row_bytes_def)
qed

definition key_clash :: "senv \<Rightarrow> l0Context \<Rightarrow> package \<Rightarrow> senv \<Rightarrow> l0Context \<Rightarrow> package \<Rightarrow> bool" where
  "key_clash E1 lc1 m1 E2 lc2 m2 \<longleftrightarrow>
     (\<exists>p q. parts_spec E1 lc1 m1 = Some p \<and> parts_spec E2 lc2 m2 = Some q \<and> collision sha256 (frames (key_parts p)) (frames (key_parts q)))
     \<or> collision sha256 (row_bytes (pkg_rows E1 m1)) (row_bytes (pkg_rows E2 m2))
     \<or> collision sha256 (row_bytes (dep_rows E1 (lc_graph lc1) m1)) (row_bytes (dep_rows E2 (lc_graph lc2) m2))
     \<or> (\<exists>d p q. map_of (lc_graph lc1) d = Some p \<and> map_of (lc_graph lc2) d = Some q
          \<and> collision sha256 (row_bytes (pkg_rows E1 p)) (row_bytes (pkg_rows E2 q)))"

text \<open>Content hashes have 32 bytes, and names and identifiers have lengths a Go program can hold.\<close>

definition env_ok :: "senv \<Rightarrow> l0Context \<Rightarrow> package \<Rightarrow> bool" where
  "env_ok E lc mp \<longleftrightarrow> list_all pair_ok (pkg_rows E mp) \<and> list_all (\<lambda>d. go_len d) (dep_ids (lc_graph lc) mp)
     \<and> (\<forall>d p. map_of (lc_graph lc) d = Some p \<longrightarrow> d \<in> set (dep_ids (lc_graph lc) mp) \<longrightarrow> list_all pair_ok (pkg_rows E p))
     \<and> (\<forall>k. parts_spec E lc mp = Some k \<longrightarrow> key_ok k)"

definition same_sources :: "senv \<Rightarrow> package \<Rightarrow> senv \<Rightarrow> package \<Rightarrow> bool" where
  "same_sources E1 p E2 q \<longleftrightarrow> mset (pkg_rows E1 p) = mset (pkg_rows E2 q)"

lemma rows_same:
  assumes "list_all pair_ok rs" "list_all pair_ok ts" "sha256 (row_bytes rs) = sha256 (row_bytes ts)"
    and "\<not> collision sha256 (row_bytes rs) (row_bytes ts)"
  shows "mset rs = mset ts"
  using prow.rows_determined [OF assms(1,2)] assms(3,4) by (auto simp: row_bytes_def)

lemma dep_rows_ok: "env_ok E lc mp \<Longrightarrow> list_all pair_ok (dep_rows E (lc_graph lc) mp)"
  by (auto simp: env_ok_def dep_rows_def pair_ok_def list_all_iff)

text \<open>Two packages, each in its own run, that agree in everything a key is meant to cover.\<close>

definition covered :: "senv \<Rightarrow> l0Context \<Rightarrow> package \<Rightarrow> senv \<Rightarrow> l0Context \<Rightarrow> package \<Rightarrow> bool" where
  "covered E1 lc1 m1 E2 lc2 m2 \<longleftrightarrow>
     pID m1 = pID m2 \<and> pPkgPath m1 = pPkgPath m2 \<and> same_sources E1 m1 E2 m2
     \<and> set (dep_ids (lc_graph lc1) m1) = set (dep_ids (lc_graph lc2) m2)
     \<and> (\<forall>d\<in>set (dep_ids (lc_graph lc1) m1). \<exists>p q. map_of (lc_graph lc1) d = Some p \<and> map_of (lc_graph lc2) d = Some q
          \<and> same_sources E1 p E2 q)
     \<and> lc_analyzerSetHash lc1 = lc_analyzerSetHash lc2 \<and> lc_filterConfigHash lc1 = lc_filterConfigHash lc2
     \<and> lc_toolVersion lc1 = lc_toolVersion lc2 \<and> lc_buildEnv lc1 = lc_buildEnv lc2 \<and> lc_goVersion lc1 = lc_goVersion lc2"

lemma parts_covered:
  assumes "map_of (lc_graph lc1) (pID m1) = Some m1" "map_of (lc_graph lc2) (pID m2) = Some m2"
    and "env_ok E1 lc1 m1" "env_ok E2 lc2 m2"
    and p: "parts_spec E1 lc1 m1 = Some p" and q: "parts_spec E2 lc2 m2 = Some q" and "ComputeKey p = ComputeKey q"
    and "\<not> key_clash E1 lc1 m1 E2 lc2 m2"
  shows "covered E1 lc1 m1 E2 lc2 m2"
proof -
  let ?g1 = "lc_graph lc1" and ?g2 = "lc_graph lc2"
  have "p = q" by (rule l0key.collision_free_inject) (use assms(3-8) in \<open>auto simp: env_ok_def key_clash_def\<close>)
  obtain s d where sd: "src_spec E1 m1 = Some s" "dep_spec E1 ?g1 m1 = Some d" "src_spec E2 m2 = Some s" "dep_spec E2 ?g2 m2 = Some d"
    and f: "pID m1 = pID m2" "pPkgPath m1 = pPkgPath m2" "lc_analyzerSetHash lc1 = lc_analyzerSetHash lc2"
      "lc_filterConfigHash lc1 = lc_filterConfigHash lc2" "lc_toolVersion lc1 = lc_toolVersion lc2"
      "lc_buildEnv lc1 = lc_buildEnv lc2" "lc_goVersion lc1 = lc_goVersion lc2"
    using p q \<open>p = q\<close> by (fastforce simp: parts_spec_def split: option.splits)
  have src: "same_sources E1 m1 E2 m2"
    using rows_same [of "pkg_rows E1 m1" "pkg_rows E2 m2"] src_spec_rows sd(1,3) assms(3,4,8)
    by (auto simp: same_sources_def env_ok_def key_clash_def)
  have dep: "mset (dep_rows E1 ?g1 m1) = mset (dep_rows E2 ?g2 m2)"
    using rows_same [OF dep_rows_ok [OF assms(3)] dep_rows_ok [OF assms(4)]]
      dep_spec_rows [OF assms(1) sd(2)] dep_spec_rows [OF assms(2) sd(4)] assms(8) by (auto simp: key_clash_def)
  then have rows: "set (dep_rows E1 ?g1 m1) = set (dep_rows E2 ?g2 m2)" by (rule mset_eq_setD)
  have ids: "fst ` set (dep_rows E g m) = set (dep_ids g m)" for E g m by (force simp: dep_rows_def)
  have "set (dep_ids ?g1 m1) = set (dep_ids ?g2 m2)" using rows ids by metis
  moreover have "\<exists>p q. map_of ?g1 d = Some p \<and> map_of ?g2 d = Some q \<and> same_sources E1 p E2 q" if d: "d \<in> set (dep_ids ?g1 m1)" for d
  proof -
    have d2: "d \<in> set (dep_ids ?g2 m2)" using d calculation by simp
    obtain p q where pq: "map_of ?g1 d = Some p" "map_of ?g2 d = Some q"
      using reachable_known [OF assms(1)] reachable_known [OF assms(2)] d d2
        collectClosure_reachable [OF assms(1)] collectClosure_reachable [OF assms(2)] by (fastforce simp: dep_ids_def)
    have "(d, sha256 (row_bytes (pkg_rows E1 p))) \<in> set (dep_rows E1 ?g1 m1)" using d pq by (auto simp: dep_rows_def)
    then have "(d, sha256 (row_bytes (pkg_rows E1 p))) \<in> set (dep_rows E2 ?g2 m2)" using rows by simp
    then have "sha256 (row_bytes (pkg_rows E1 p)) = sha256 (row_bytes (pkg_rows E2 q))" using pq by (auto simp: dep_rows_def)
    then have "same_sources E1 p E2 q"
      unfolding same_sources_def using assms(3,4,8) pq d d2 by (intro rows_same) (auto simp: env_ok_def key_clash_def)
    then show ?thesis using pq by blast
  qed
  ultimately show ?thesis unfolding covered_def using f src by blast
qed

end
