(* ===== verification/Engine.thy ===== *)
theory Engine
  imports Streaming FilterDigest CanonicalPath EngineKeys
begin

text \<open>
  The in-process half of a run (\<^verbatim>\<open>internal/engine/engine.go\<close>, \<^verbatim>\<open>dep_override.go\<close>, \<^verbatim>\<open>canonicalize.go\<close> and
  \<^verbatim>\<open>internal/output/convert.go\<close>): which packages are analyzed, which are served from the diagnostic cache, how
  fresh diagnostics are attributed, filtered, made portable and stored, and how the facts of dependencies are
  served and stored.

  A Go map with package identifiers as keys is an association list; the order in which the \<open>n\<close>-th range statement
  visits it is \<open>in_ord n\<close>, an arbitrary permutation.  The loader and the analysis driver (the gopls fork) are
  arguments: \<open>in_snapshot\<close> and \<open>in_init\<close> tell whether the workspace opens and the error of its initialization, \<open>in_ws\<close>, \<open>in_meta\<close> and \<open>in_all\<close> give the workspace packages and their metadata, \<open>in_analyze\<close> runs
  the analyzers on the given roots with the given overrides and returns the diagnostics and the node data its
  callback reports.  The diagnostic cache is a pair of operations on a state \<open>'s\<close>; \<open>None\<close> is the nil cache.
\<close>

subsection \<open>Conversion of diagnostics\<close>

datatype lspSeverity = LspError | LspWarning | LspInformation | LspHint | LspOther

record lspRelated =
  lr_Path :: string
  lr_Line :: nat
  lr_Character :: nat
  lr_Message :: string

record lspDiagnostic =
  ld_Path :: string
  ld_Line :: nat
  ld_Character :: nat
  ld_Severity :: lspSeverity
  ld_Source :: string
  ld_Message :: string
  ld_Related :: "lspRelated list"

fun severityFromLSP :: "lspSeverity \<Rightarrow> string" where
  "severityFromLSP LspWarning = SeverityWarning"
| "severityFromLSP LspInformation = SeverityInfo"
| "severityFromLSP LspHint = SeverityInfo"
| "severityFromLSP _ = SeverityError"

definition lsp_position :: "string \<Rightarrow> nat \<Rightarrow> nat \<Rightarrow> position" where
  "lsp_position p l c = \<lparr>Filename = p, Line = int l + 1, Column = int c + 1\<rparr>"

definition FromAnalysis :: "lspDiagnostic option \<Rightarrow> diagnostic" where
  "FromAnalysis do =
     (case do of
        None \<Rightarrow> \<lparr>Linter = [], Message = [], Severity = [], Pos = \<lparr>Filename = [], Line = 0, Column = 0\<rparr>, SourceLines = [],
                 SuggestedFixes = [], Related = []\<rparr>
      | Some d \<Rightarrow>
          \<lparr>Linter = ld_Source d, Message = ld_Message d, Severity = severityFromLSP (ld_Severity d),
           Pos = lsp_position (ld_Path d) (ld_Line d) (ld_Character d), SourceLines = [], SuggestedFixes = [],
           Related = map (\<lambda>r. \<lparr>RelPosition = lsp_position (lr_Path r) (lr_Line r) (lr_Character r), RelMessage = lr_Message r\<rparr>) (ld_Related d)\<rparr>)"


subsection \<open>The input of a run\<close>

record l0DepEntry =
  de_Compiles :: bool
  de_Actions :: "nat \<rightharpoonup> ActionFacts"

record l0NodeData =
  nd_PackageID :: string
  nd_Compiles :: bool
  nd_Actions :: "(nat \<times> ActionFacts) list"

type_synonym 's l0get = "'s \<Rightarrow> actionID \<Rightarrow> 's \<times> L0Entry result"
type_synonym 's l0put = "'s \<Rightarrow> actionID \<Rightarrow> L0Entry \<Rightarrow> 's \<times> string option"

record 's engineIn =
  in_snapshot :: bool
  in_init :: "string option"
  in_senv :: senv
  in_uri :: "string \<Rightarrow> string"
  in_fenv :: fenv
  in_all :: "package option list result"
  in_ws :: "string list"
  in_meta :: "string \<Rightarrow> package option"
  in_plan :: "nat option list"
  in_name :: "nat \<Rightarrow> string"
  in_stable :: "nat \<Rightarrow> string"
  in_requires :: "(nat \<times> nat list) list"
  in_look :: "nat \<Rightarrow> analyzerDescriptor option"
  in_toolVersion :: string
  in_buildEnv :: string
  in_goVersion :: string
  in_depOverride :: bool
  in_analyze :: "(string \<rightharpoonup> l0DepEntry) \<Rightarrow> mgraph \<Rightarrow> (lspDiagnostic option list \<times> l0NodeData list) result"
  in_ord :: "nat \<Rightarrow> mgraph \<Rightarrow> mgraph"
  in_ords :: "(string \<times> diagnostic list) list \<Rightarrow> (string \<times> diagnostic list) list"
  in_L0 :: "('s l0get \<times> 's l0put) option"


subsection \<open>The packages of a run\<close>

definition in_package_test :: "package \<Rightarrow> bool" where
  "in_package_test mp \<longleftrightarrow> pForTest mp \<noteq> [] \<and> pForTest mp = pPkgPath mp"

definition dropTestSupersededPackages :: "mgraph \<Rightarrow> mgraph" where
  "dropTestSupersededPackages pkgs =
     filter (\<lambda>(pid, mp). \<not> (pForTest mp = [] \<and> (\<exists>q\<in>snd ` set pkgs. in_package_test q \<and> pPkgPath q = pPkgPath mp))) pkgs"

definition workspace_packages :: "'s engineIn \<Rightarrow> mgraph" where
  "workspace_packages I = dropTestSupersededPackages (graph_of (map (in_meta I) (in_ws I)))"

text \<open>A file that several packages compile belongs to the first one visited.\<close>

definition uriPkgMap :: "mgraph \<Rightarrow> (string \<times> string) list" where
  "uriPkgMap pkgs = concat (map (\<lambda>(pid, mp). map (\<lambda>u. (u, pid)) (CompiledGoFiles mp)) pkgs)"

definition uriPkgPathMap :: "mgraph \<Rightarrow> smap" where
  "uriPkgPathMap pkgs =
     concat (map (\<lambda>(pid, mp). if pPkgPath mp = [] then [] else map (\<lambda>u. (u, pPkgPath mp)) (CompiledGoFiles mp)) pkgs)"

fun pkgDirsFor :: "(string \<Rightarrow> string) \<Rightarrow> mgraph \<Rightarrow> smap \<Rightarrow> smap" where
  "pkgDirsFor path [] out = out"
| "pkgDirsFor path ((pid, mp) # pkgs) out =
     pkgDirsFor path pkgs
       (if pPkgPath mp = [] \<or> map_of out (pPkgPath mp) \<noteq> None then out
        else case (CompiledGoFiles mp, pGoFiles mp) of
               (u # _, _) \<Rightarrow> (pPkgPath mp, Dir (path u)) # out
             | ([], u # _) \<Rightarrow> (pPkgPath mp, Dir (path u)) # out
             | ([], []) \<Rightarrow> out)"

fun pruneExcludedRoots :: "'s engineIn \<Rightarrow> filter_state option \<Rightarrow> mgraph \<Rightarrow> filter_state option \<times> mgraph" where
  "pruneExcludedRoots I fo [] = (fo, [])"
| "pruneExcludedRoots I fo ((pid, mp) # pkgs) =
     (if fo = None then (fo, (pid, mp) # pkgs)
      else case ExcludesAllFiles (in_fenv I) fo (map (se_path (in_senv I)) (CompiledGoFiles mp)) of
             (fo', excluded) \<Rightarrow>
               (case pruneExcludedRoots I fo' pkgs of
                  (fo'', roots) \<Rightarrow> (fo'', if excluded then roots else (pid, mp) # roots)))"


subsection \<open>Looking packages up in the diagnostic cache\<close>

text \<open>
  The loop of \<^verbatim>\<open>splitByL0\<close> and of \<^verbatim>\<open>installDepOverrides\<close>: for every package its key, when it has one, and the
  entry found under it.
\<close>

type_synonym lookup_row = "string \<times> package \<times> actionID option \<times> L0Entry option"

fun lookup_rows :: "senv \<Rightarrow> 's l0get \<Rightarrow> l0Context \<Rightarrow> 's \<Rightarrow> mgraph \<Rightarrow> l0Context \<times> 's \<times> lookup_row list" where
  "lookup_rows E get lc s [] = (lc, s, [])"
| "lookup_rows E get lc s ((pid, mp) # pkgs) =
     (case keyFor E lc (Some mp) of
        (lc1, None) \<Rightarrow> (case lookup_rows E get lc1 s pkgs of (lc2, s2, rows) \<Rightarrow> (lc2, s2, (pid, mp, None, None) # rows))
      | (lc1, Some key) \<Rightarrow>
          (case get s key of
             (s1, r) \<Rightarrow>
               (case lookup_rows E get lc1 s1 pkgs of
                  (lc2, s2, rows) \<Rightarrow>
                    (lc2, s2, (pid, mp, Some key, case r of Inl _ \<Rightarrow> None | Inr e \<Rightarrow> Some e) # rows))))"

definition row_keys :: "lookup_row list \<Rightarrow> string \<rightharpoonup> actionID" where
  "row_keys rows = map_of (List.map_filter (\<lambda>(pid, mp, ko, eo). map_option (Pair pid) ko) rows)"

definition missed :: "lookup_row list \<Rightarrow> mgraph" where
  "missed rows = List.map_filter (\<lambda>(pid, mp, ko, eo). case eo of None \<Rightarrow> Some (pid, mp) | Some _ \<Rightarrow> None) rows"

definition found :: "lookup_row list \<Rightarrow> (string \<times> L0Entry) list" where
  "found rows = List.map_filter (\<lambda>(pid, mp, ko, eo). map_option (Pair pid) eo) rows"

record split =
  sp_analyze :: mgraph
  sp_hits :: nat
  sp_keys :: "string \<rightharpoonup> actionID"
  sp_cached :: "diagnostic list"
  sp_lc :: "l0Context option"

definition all_missed :: "mgraph \<Rightarrow> split" where
  "all_missed pkgs = \<lparr>sp_analyze = pkgs, sp_hits = 0, sp_keys = Map.empty, sp_cached = [], sp_lc = None\<rparr>"

definition run_context :: "'s engineIn \<Rightarrow> filter_state option \<Rightarrow> l0Context result" where
  "run_context I fo =
     newL0Context (in_all I) (computeAnalyzerSetHash (in_name I) (in_look I) (Some (in_plan I))) (ConfigDigest fo)
       (in_toolVersion I) (in_buildEnv I) (in_goVersion I)"

definition splitByL0 :: "'s engineIn \<Rightarrow> filter_state option \<Rightarrow> 's \<Rightarrow> mgraph \<Rightarrow> 's \<times> split" where
  "splitByL0 I fo s pkgs =
     (case in_L0 I of
        None \<Rightarrow> (s, all_missed pkgs)
      | Some (get, put) \<Rightarrow>
          (case run_context I fo of
             Inl _ \<Rightarrow> (s, all_missed pkgs)
           | Inr lc \<Rightarrow>
               (case lookup_rows (in_senv I) get lc s pkgs of
                  (lc', s', rows) \<Rightarrow>
                    (s', \<lparr>sp_analyze = missed rows, sp_hits = length (found rows), sp_keys = row_keys rows,
                          sp_cached = concat (map (l0Diagnostics \<circ> snd) (found rows)), sp_lc = Some lc'\<rparr>))))"


subsection \<open>Overrides for dependencies\<close>

definition dep_edges :: "mgraph \<Rightarrow> (string \<times> string list) list" where
  "dep_edges g = map (\<lambda>(pid, mp). (pid, map snd (DepsByPkgPath mp))) g"

definition collectDepClosure :: "mgraph \<Rightarrow> mgraph \<Rightarrow> mgraph" where
  "collectDepClosure g roots =
     List.map_filter (\<lambda>d. case map_of g d of Some mp \<Rightarrow> if d \<in> fst ` set roots then None else Some (d, mp) | None \<Rightarrow> None)
       (walk (dep_edges g) [] (map fst roots))"

text \<open>The last analyzer visited under a stable name is the one found under it.\<close>

definition analyzersByStableName :: "'s engineIn \<Rightarrow> string \<rightharpoonup> nat" where
  "analyzersByStableName I =
     map_of (rev (map (\<lambda>a. (in_stable I a, a)) (walk (in_requires I) [] (List.map_filter (\<lambda>a. a) (in_plan I)))))"

definition dep_entry :: "'s engineIn \<Rightarrow> L0Entry \<Rightarrow> l0DepEntry" where
  "dep_entry I e =
     \<lparr>de_Compiles = l0Compiles e,
      de_Actions = (\<lambda>a. if analyzersByStableName I (in_stable I a) = Some a then l0Actions e (in_stable I a) else None)\<rparr>"

record overrides =
  ov_lc :: l0Context
  ov_keys :: "(string \<rightharpoonup> actionID) option"
  ov_hits :: nat
  ov_map :: "string \<rightharpoonup> l0DepEntry"

definition installDepOverrides :: "'s engineIn \<Rightarrow> 's l0get \<Rightarrow> l0Context \<Rightarrow> 's \<Rightarrow> mgraph \<Rightarrow> 's \<times> overrides" where
  "installDepOverrides I get lc s roots =
     (let deps = collectDepClosure (lc_graph lc) roots
      in if deps = [] then (s, \<lparr>ov_lc = lc, ov_keys = None, ov_hits = 0, ov_map = Map.empty\<rparr>)
         else case lookup_rows (in_senv I) get lc s (in_ord I 7 deps) of
                (lc', s', rows) \<Rightarrow>
                  (s', \<lparr>ov_lc = lc', ov_keys = Some (row_keys rows), ov_hits = length (found rows),
                        ov_map = map_of (map (\<lambda>(d, e). (d, dep_entry I e)) (found rows))\<rparr>))"

fun compute_keys :: "senv \<Rightarrow> l0Context \<Rightarrow> mgraph \<Rightarrow> l0Context \<times> (string \<times> actionID) list" where
  "compute_keys E lc [] = (lc, [])"
| "compute_keys E lc ((d, mp) # deps) =
     (case keyFor E lc (Some mp) of
        (lc1, ko) \<Rightarrow>
          (case compute_keys E lc1 deps of
             (lc2, ks) \<Rightarrow> (lc2, (case ko of None \<Rightarrow> ks | Some k \<Rightarrow> (d, k) # ks))))"

definition computeAllDepKeys :: "'s engineIn \<Rightarrow> l0Context \<Rightarrow> mgraph \<Rightarrow> string \<rightharpoonup> actionID" where
  "computeAllDepKeys I lc roots = map_of (snd (compute_keys (in_senv I) lc (in_ord I 8 (collectDepClosure (lc_graph lc) roots))))"

text \<open>What the callback has recorded: the last report of a package wins.\<close>

definition captured :: "l0NodeData list \<Rightarrow> string \<rightharpoonup> l0NodeData" where
  "captured nodes = map_of (rev (map (\<lambda>nd. (nd_PackageID nd, nd)) nodes))"

definition stringActions :: "(nat \<Rightarrow> string) \<Rightarrow> (nat \<times> ActionFacts) list \<Rightarrow> string \<rightharpoonup> ActionFacts" where
  "stringActions stab acts = map_of (rev (map (\<lambda>(a, d). (stab a, d)) acts))"


subsection \<open>Attribution and filtering\<close>

definition owner_of :: "'s engineIn \<Rightarrow> mgraph \<Rightarrow> diagnostic \<Rightarrow> string option" where
  "owner_of I pkgs d = map_of (uriPkgMap (in_ord I 4 pkgs)) (in_uri I (Filename (Pos d)))"

definition owner_bucket :: "'s engineIn \<Rightarrow> mgraph \<Rightarrow> mgraph \<Rightarrow> diagnostic \<Rightarrow> string" where
  "owner_bucket I allPkgs analyzed d =
     (case owner_of I allPkgs d of
        None \<Rightarrow> []
      | Some o' \<Rightarrow> if o' \<in> fst ` set analyzed then o' else [])"

fun stream_packages ::
  "fenv \<Rightarrow> stream option \<Rightarrow> (string \<Rightarrow> diagnostic list) \<Rightarrow> string list \<Rightarrow> (stream option \<times> (string \<times> diagnostic list) list) option" where
  "stream_packages e so raw [] = Some (so, [])"
| "stream_packages e so raw (pid # pids) =
     (case AddPackage e so pid (raw pid) of
        None \<Rightarrow> None
      | Some (so', kept) \<Rightarrow> map_option (\<lambda>(so'', rest). (so'', (pid, kept) # rest)) (stream_packages e so' raw pids))"

definition finished_filter :: "filter_state option \<Rightarrow> stream option \<Rightarrow> filter_state option" where
  "finished_filter fo so = (case Finish so of None \<Rightarrow> fo | Some s \<Rightarrow> Some (sf s))"

definition partitionAndFilter ::
  "'s engineIn \<Rightarrow> filter_state option \<Rightarrow> mgraph \<Rightarrow> mgraph \<Rightarrow> lspDiagnostic option list
   \<Rightarrow> (filter_state option \<times> (string \<times> diagnostic list) list) option" where
  "partitionAndFilter I fo allPkgs analyzed fresh =
     (let ids = map fst (in_ord I 5 analyzed)
      in if fresh = [] then Some (fo, map (\<lambda>pid. (pid, [])) ids)
         else let conv = map FromAnalysis fresh;
                  raw = (\<lambda>pid. filter (\<lambda>d. owner_bucket I allPkgs analyzed d = pid) conv)
              in case stream_packages (in_fenv I) (NewStream fo) raw ids of
                   None \<Rightarrow> None
                 | Some (so, byPkg) \<Rightarrow>
                     if raw [] = [] then Some (finished_filter fo so, byPkg)
                     else (case AddBatch (in_fenv I) so (raw []) of
                             None \<Rightarrow> None
                           | Some (so', owls) \<Rightarrow> Some (finished_filter fo so', AList.update [] owls byPkg)))"


subsection \<open>Writing entries\<close>

definition root_entry ::
  "(nat \<Rightarrow> string) \<Rightarrow> (string \<times> diagnostic list) list \<Rightarrow> (string \<rightharpoonup> l0NodeData) option \<Rightarrow> string \<Rightarrow> L0Entry" where
  "root_entry stab byPkg capture pid =
     (let e = \<lparr>l0PackageID = pid, l0Diagnostics = (case map_of byPkg pid of None \<Rightarrow> [] | Some ds \<Rightarrow> ds), l0Actions = Map.empty,
               l0Compiles = False\<rparr>
      in case capture of
           None \<Rightarrow> e
         | Some nodes \<Rightarrow>
             (case nodes pid of
                None \<Rightarrow> e
              | Some nd \<Rightarrow> e\<lparr>l0Compiles := nd_Compiles nd, l0Actions := stringActions stab (nd_Actions nd)\<rparr>))"

fun writeL0Entries :: "'s l0put \<Rightarrow> (string \<rightharpoonup> actionID) \<Rightarrow> (string \<Rightarrow> L0Entry) \<Rightarrow> string list \<Rightarrow> 's \<Rightarrow> 's" where
  "writeL0Entries put keys entry [] s = s"
| "writeL0Entries put keys entry (pid # pids) s =
     writeL0Entries put keys entry pids
       (case keys pid of None \<Rightarrow> s | Some key \<Rightarrow> fst (put s key (entry pid)))"

definition facts_entry :: "(nat \<Rightarrow> string) \<Rightarrow> l0NodeData \<Rightarrow> L0Entry" where
  "facts_entry stab nd =
     \<lparr>l0PackageID = nd_PackageID nd, l0Diagnostics = [], l0Actions = stringActions stab (nd_Actions nd), l0Compiles = nd_Compiles nd\<rparr>"

fun writeDepL0Entries ::
  "'s l0put \<Rightarrow> (string \<rightharpoonup> actionID) \<Rightarrow> (nat \<Rightarrow> string) \<Rightarrow> string set \<Rightarrow> (string \<times> l0NodeData) list \<Rightarrow> 's \<Rightarrow> 's \<times> nat" where
  "writeDepL0Entries put depKeys stab roots [] s = (s, 0)"
| "writeDepL0Entries put depKeys stab roots ((pid, nd) # nodes) s =
     (if pid \<in> roots then writeDepL0Entries put depKeys stab roots nodes s
      else case depKeys pid of
             None \<Rightarrow> writeDepL0Entries put depKeys stab roots nodes s
           | Some key \<Rightarrow>
               (case put s key (facts_entry stab nd) of
                  (s1, err) \<Rightarrow>
                    (case writeDepL0Entries put depKeys stab roots nodes s1 of
                       (s2, n) \<Rightarrow> (s2, if err = None then n + 1 else n))))"


subsection \<open>The in-process run\<close>

record ipResult =
  ip_Diags :: "diagnostic list"
  ip_PkgCount :: nat
  ip_UriPkg :: smap
  ip_PkgDirs :: smap
  ip_SkippedPkgs :: nat
  ip_DepHits :: nat
  ip_DepWrites :: nat

definition no_packages :: ipResult where
  "no_packages = \<lparr>ip_Diags = [], ip_PkgCount = 0, ip_UriPkg = [], ip_PkgDirs = [], ip_SkippedPkgs = 0, ip_DepHits = 0, ip_DepWrites = 0\<rparr>"

text \<open>The node data of each package once, for the loop that stores the facts of dependencies.\<close>

definition captured_nodes :: "l0NodeData list \<Rightarrow> (string \<times> l0NodeData) list" where
  "captured_nodes nodes = fold (\<lambda>nd ns. AList.update (nd_PackageID nd) nd ns) nodes []"

definition dep_override_on :: "'s engineIn \<Rightarrow> split \<Rightarrow> bool" where
  "dep_override_on I sp \<longleftrightarrow> in_depOverride I \<and> in_L0 I \<noteq> None \<and> sp_lc sp \<noteq> None \<and> sp_analyze sp \<noteq> []"

definition overrides_of :: "'s engineIn \<Rightarrow> split \<Rightarrow> 's \<Rightarrow> 's \<times> overrides option" where
  "overrides_of I sp s =
     (case (in_L0 I, sp_lc sp) of
        (Some (get, put), Some lc) \<Rightarrow>
          if dep_override_on I sp then (case installDepOverrides I get lc s (sp_analyze sp) of (s', ov) \<Rightarrow> (s', Some ov)) else (s, None)
      | _ \<Rightarrow> (s, None))"

definition store_run ::
  "'s engineIn \<Rightarrow> split \<Rightarrow> overrides option \<Rightarrow> l0NodeData list \<Rightarrow> (string \<times> diagnostic list) list \<Rightarrow> 's \<Rightarrow> 's \<times> nat" where
  "store_run I sp ovo nodes fresh s =
     (case in_L0 I of
        None \<Rightarrow> (s, 0)
      | Some (get, put) \<Rightarrow>
          (let capture = map_option (\<lambda>ov. captured nodes) ovo;
               s1 = writeL0Entries put (sp_keys sp) (root_entry (in_stable I) fresh capture) (map fst (in_ord I 6 (sp_analyze sp))) s
           in case ovo of
                None \<Rightarrow> (s1, 0)
              | Some ov \<Rightarrow>
                  (let depKeys = (case ov_keys ov of Some ks \<Rightarrow> ks | None \<Rightarrow> computeAllDepKeys I (ov_lc ov) (sp_analyze sp))
                   in writeDepL0Entries put depKeys (in_stable I) (fst ` set (sp_analyze sp)) (captured_nodes nodes) s1)))"

definition runInProcess ::
  "'s engineIn \<Rightarrow> filter_state option \<Rightarrow> 's \<Rightarrow> (filter_state option \<times> 's \<times> (string + ipResult)) option" where
  "runInProcess I fo s =
     (if \<not> in_snapshot I then Some (fo, s, Inl ''workspace returned nil snapshot'')
      else case in_init I of
        Some e \<Rightarrow> Some (fo, s, Inl (''initialize workspace: '' @ e))
      | None \<Rightarrow>
      let pkgs = workspace_packages I
      in if pkgs = [] then Some (fo, s, Inr no_packages)
         else let uriPkg = uriPkgPathMap (in_ord I 0 pkgs);
                  dirs = pkgDirsFor (se_path (in_senv I)) (in_ord I 1 pkgs) [];
                  (fo1, roots) = pruneExcludedRoots I fo (in_ord I 2 pkgs);
                  (s1, sp) = splitByL0 I fo1 s (in_ord I 3 roots);
                  (s2, ovo) = overrides_of I sp s1;
                  analyzed = (if sp_analyze sp = [] then Inr ([], [])
                              else in_analyze I (case ovo of None \<Rightarrow> Map.empty | Some ov \<Rightarrow> ov_map ov) (sp_analyze sp))
              in case analyzed of
                   Inl e \<Rightarrow> Some (fo1, s2, Inl (''analyze: '' @ e))
                 | Inr (freshDiags, nodes) \<Rightarrow>
                     (case partitionAndFilter I fo1 pkgs (sp_analyze sp) freshDiags of
                        None \<Rightarrow> None
                      | Some (fo2, byPkg) \<Rightarrow>
                          (let fresh = map (\<lambda>(pid, ds). (pid, canonicalizeDiagnostics (in_uri I) uriPkg ds)) byPkg;
                               (s3, depWrites) = store_run I sp ovo nodes fresh s2
                           in Some (fo2, s3, Inr \<lparr>ip_Diags = sp_cached sp @ concat (map snd (in_ords I fresh)), ip_PkgCount = length pkgs,
                                ip_UriPkg = uriPkg, ip_PkgDirs = dirs, ip_SkippedPkgs = sp_hits sp,
                                ip_DepHits = (case ovo of None \<Rightarrow> 0 | Some ov \<Rightarrow> ov_hits ov), ip_DepWrites = depWrites\<rparr>))))"

end
