(* ===== verification/EngineProps.thy ===== *)
theory EngineProps
  imports Engine CacheRun
begin

text \<open>
  Correctness of the in-process run: attribution and filtering lose nothing and keep the packages independent
  of each other, and what one run with the cache reports against the same run without it.  The analysis driver may fail;
  what is asked of it is \<open>driver_ok\<close>.
\<close>

subsection \<open>What the engine relies on of the diagnostic cache\<close>

text \<open>
  \<open>stored s k\<close> are the entries a read of \<open>k\<close> may return.  A read returns one of them and changes none; a write
  adds at most its entry, under its key, and never replaces an entry that can be read.
\<close>

definition known_in :: "mgraph \<Rightarrow> mgraph \<Rightarrow> bool" where
  "known_in g pkgs \<longleftrightarrow> (\<forall>(pid, mp) \<in> set pkgs. pid = pID mp \<and> map_of g pid = Some mp)"

locale l0_store =
  fixes get :: "'s l0get" and put :: "'s l0put" and stored :: "'s \<Rightarrow> actionID \<Rightarrow> L0Entry set"
  assumes get_stored: "length k = 32 \<Longrightarrow> stored (fst (get s a)) k = stored s k"
    and get_sound: "snd (get s a) = Inr e \<Longrightarrow> e \<in> stored s a"
    and put_other: "length k = 32 \<Longrightarrow> length a = 32 \<Longrightarrow> k \<noteq> a \<Longrightarrow> stored (fst (put s a e)) k = stored s k"
    and put_here: "length a = 32 \<Longrightarrow> stored (fst (put s a e)) a \<subseteq> insert e (stored s a)"
    and put_first: "stored s a \<noteq> {} \<Longrightarrow> stored (fst (put s a e)) a = stored s a"
begin

text \<open>
  Some writes took place, each of an entry for which \<open>W\<close> holds: what could be read before is unchanged, and under
  a key that had no entry there is at most a written one.
\<close>

definition adds :: "(actionID \<Rightarrow> L0Entry \<Rightarrow> bool) \<Rightarrow> 's \<Rightarrow> 's \<Rightarrow> bool" where
  "adds W s s' \<longleftrightarrow> (\<forall>k. length k = 32 \<longrightarrow>
     (stored s k \<noteq> {} \<longrightarrow> stored s' k = stored s k) \<and> (\<forall>e \<in> stored s' k. e \<in> stored s k \<or> W k e))"

lemma adds_refl: "adds W s s"
  by (simp add: adds_def)

lemma adds_trans: "adds W s s1 \<Longrightarrow> adds W s1 s2 \<Longrightarrow> adds W s s2"
  unfolding adds_def by blast

lemma put_adds: "length a = 32 \<Longrightarrow> W a e \<Longrightarrow> adds W s (fst (put s a e))"
  unfolding adds_def using put_other [of _ a s e] put_here [of a s e] put_first [of s a e] by blast

lemma lookup_rows_exact:
  assumes "lc_ok E lc" "known_in (lc_graph lc) pkgs"
    and "lookup_rows E get lc s pkgs = (lc', s', rows)"
  shows "lc_ok E lc' \<and> lc_fixed lc' = lc_fixed lc \<and> (\<forall>k. length k = 32 \<longrightarrow> stored s' k = stored s k)
    \<and> map (\<lambda>(pid, mp, ko, eo). (pid, mp)) rows = pkgs
    \<and> (\<forall>(pid, mp, ko, eo) \<in> set rows. ko = map_option ComputeKey (parts_spec E lc mp)
         \<and> (\<forall>e. eo = Some e \<longrightarrow> (\<exists>k. ko = Some k \<and> e \<in> stored s k)))"
  using assms
proof (induction pkgs arbitrary: lc s lc' s' rows)
  case (Cons p pkgs)
  obtain pid mp where p: "p = (pid, mp)" by (cases p)
  have mp: "pid = pID mp" "map_of (lc_graph lc) (pID mp) = Some mp" using Cons.prems(2) p by (auto simp: known_in_def)
  obtain lc1 where k: "keyFor E lc (Some mp) = (lc1, map_option ComputeKey (parts_spec E lc mp))"
    and ok1: "lc_ok E lc1" and fx1: "lc_fixed lc1 = lc_fixed lc" using keyFor_parts [OF Cons.prems(1) mp(2)] by blast
  note fx = lc_fixed_eqD [OF fx1]
  have pre: "known_in (lc_graph lc1) pkgs" using Cons.prems(2) fx(1) by (simp add: known_in_def)
  have parts: "parts_spec E lc1 m = parts_spec E lc m" for m by (rule parts_spec_fixed [OF fx1])
  show ?case
  proof (cases "parts_spec E lc mp")
    case None
    obtain lc2 s2 rs where r: "lookup_rows E get lc1 s pkgs = (lc2, s2, rs)" by (cases "lookup_rows E get lc1 s pkgs")
    have "lc' = lc2" "s' = s2" "rows = (pid, mp, None, None) # rs" using Cons.prems(3) p k None r by simp_all
    with Cons.IH [OF ok1 pre r] None fx1 show ?thesis by (simp add: p parts)
  next
    case (Some q)
    obtain s1 res where g: "get s (ComputeKey q) = (s1, res)" by fastforce
    obtain lc2 s2 rs where r: "lookup_rows E get lc1 s1 pkgs = (lc2, s2, rs)" by (cases "lookup_rows E get lc1 s1 pkgs")
    have st: "stored s1 k = stored s k" if "length k = 32" for k using get_stored [OF that, of s "ComputeKey q"] g by simp
    have e: "lc' = lc2" "s' = s2" "rows = (pid, mp, Some (ComputeKey q), case res of Inl _ \<Rightarrow> None | Inr e \<Rightarrow> Some e) # rs"
      using Cons.prems(3) p k Some g r by simp_all
    have hit: "e \<in> stored s (ComputeKey q)" if "res = Inr e" for e using get_sound [of s "ComputeKey q" e] g that by simp
    have rest: "\<forall>(pid, mp, ko, eo) \<in> set rs. ko = map_option ComputeKey (parts_spec E lc mp)
         \<and> (\<forall>e. eo = Some e \<longrightarrow> (\<exists>k. ko = Some k \<and> e \<in> stored s k))"
    proof (clarify)
      fix pid mp ko eo assume "(pid, mp, ko, eo) \<in> set rs"
      then have "ko = map_option ComputeKey (parts_spec E lc1 mp) \<and> (\<forall>e. eo = Some e \<longrightarrow> (\<exists>k. ko = Some k \<and> e \<in> stored s1 k))"
        using Cons.IH [OF ok1 pre r] by fastforce
      then show "ko = map_option ComputeKey (parts_spec E lc mp) \<and> (\<forall>e. eo = Some e \<longrightarrow> (\<exists>k. ko = Some k \<and> e \<in> stored s k))"
        unfolding parts using st by fastforce
    qed
    show ?thesis using Cons.IH [OF ok1 pre r] fx1 st hit rest Some by (auto simp: p e split: sum.splits)
  qed
qed simp

end

text \<open>The diagnostic cache on the local backend is such a store, whatever system calls fail.\<close>

definition l0_stored :: "string \<Rightarrow> (bytes \<Rightarrow> L0Entry result) \<Rightarrow> filesys \<times> Metrics \<Rightarrow> actionID \<Rightarrow> L0Entry set" where
  "l0_stored r gdec sm k = {e. \<exists>b. file_bodies (fst sm) (entryPath (store_root r) nsL0 k) = Some b \<and> gdec b = Inr e}"

definition l0_get :: "string \<Rightarrow> (bytes \<Rightarrow> L0Entry result) \<Rightarrow> io \<Rightarrow> (filesys \<times> Metrics) l0get" where
  "l0_get r gdec i sm k = L0_Get gdec (local_Get (store_root r) i) sm k"

definition l0_put :: "string \<Rightarrow> (L0Entry \<Rightarrow> bytes result) \<Rightarrow> io \<Rightarrow> (filesys \<times> Metrics) l0put" where
  "l0_put r genc i sm k e = L0_Put genc (local_Put (store_root r) i) sm k (Some e)"

text \<open>Encodings that decode to what was encoded: all of them, when gob round trips.\<close>

definition sound_enc :: "(bytes \<Rightarrow> L0Entry result) \<Rightarrow> (L0Entry \<Rightarrow> bytes result) \<Rightarrow> L0Entry \<Rightarrow> bytes result" where
  "sound_enc gdec genc e =
     (case genc e of Inl x \<Rightarrow> Inl x | Inr b \<Rightarrow> if gdec b = Inr e then Inr b else Inl ''not decodable'')"

lemma sound_enc_roundtrip: "gob_roundtrip (sound_enc gdec genc) gdec"
  by (auto simp: gob_roundtrip_def sound_enc_def split: sum.splits if_splits)

lemma sound_enc_id: "gob_roundtrip genc gdec \<Longrightarrow> sound_enc gdec genc = genc"
  by (auto simp: gob_roundtrip_def sound_enc_def fun_eq_iff split: sum.splits)

interpretation l0s: l0_store "l0_get r gdec i" "l0_put r (sound_enc gdec genc) i" "l0_stored r gdec" for r gdec genc i
proof
  let ?genc = "sound_enc gdec genc"
  have v: "entry_valid nsL0 k" if "length k = 32" for k using that L0_ns_ok by (simp add: entry_valid_def)
  fix s :: "filesys \<times> Metrics" and a e k
  obtain fs m where s: "s = (fs, m)" by (cases s)
  show "l0_stored r gdec (fst (l0_get r gdec i s a)) k = l0_stored r gdec s k" if "length k = 32"
    using localb.get_entries [OF v [OF that], of r i fs nsL0 a] fst_L0_Get [of gdec "local_Get (store_root r)" i fs m a]
    by (simp add: l0_stored_def l0_get_def s)
  show "e \<in> l0_stored r gdec s a" if "snd (l0_get r gdec i s a) = Inr e"
    using that L0_Get_hit [of gdec "local_Get (store_root r)" i fs m a e] localb.get_sound [of r i fs nsL0 a]
    by (auto simp: l0_stored_def l0_get_def s)
  have put: "fst (fst (l0_put r ?genc i s a e)) = (case ?genc e of Inl _ \<Rightarrow> fs | Inr b \<Rightarrow> fst (local_Put (store_root r) i fs nsL0 a b))"
    using fst_L0_Put [of ?genc "local_Put (store_root r)" i fs m a e] by (simp add: l0_put_def s)
  show "l0_stored r gdec (fst (l0_put r ?genc i s a e)) k = l0_stored r gdec s k"
    if "length k = 32" "length a = 32" "k \<noteq> a"
  proof -
    have "entryPath (store_root r) nsL0 k \<noteq> entryPath (store_root r) nsL0 a"
      using local_loc_inject [OF L0_ns_ok that(1) v [OF that(2)]] that(3) by blast
    then show ?thesis
      using put localb.put_other [OF v [OF that(2)] v [OF that(1)], of r i fs] by (simp add: l0_stored_def s split: sum.split)
  qed
  show "l0_stored r gdec (fst (l0_put r ?genc i s a e)) a \<subseteq> insert e (l0_stored r gdec s a)" if "length a = 32"
  proof (cases "?genc e")
    case (Inl x)
    then show ?thesis using put by (auto simp: l0_stored_def s)
  next
    case (Inr b)
    have "gdec b = Inr e" using sound_enc_roundtrip [of gdec genc] Inr by (simp add: gob_roundtrip_def)
    then show ?thesis using put Inr localb.put_here [of r i fs nsL0 a b] by (auto simp: l0_stored_def s)
  qed
  show "l0_stored r gdec (fst (l0_put r ?genc i s a e)) a = l0_stored r gdec s a" if "l0_stored r gdec s a \<noteq> {}"
  proof -
    have "fs (entryPath (store_root r) nsL0 a) \<noteq> None" using that by (auto simp: l0_stored_def s file_bodies_def)
    then have "fst (local_Put (store_root r) i fs nsL0 a b) (entryPath (store_root r) nsL0 a) = fs (entryPath (store_root r) nsL0 a)" for b
      using writeFileAtomic_path [of i fs "entryPath (store_root r) nsL0 a" b] by (auto simp: local_Put_def)
    then show ?thesis using put by (simp add: l0_stored_def s file_bodies_def split: sum.split)
  qed
qed


subsection \<open>Pruning\<close>

definition fully_excluded :: "'s engineIn \<Rightarrow> filter_state \<Rightarrow> package \<Rightarrow> bool" where
  "fully_excluded I f mp \<longleftrightarrow> CompiledGoFiles mp \<noteq> []
     \<and> (\<forall>u\<in>set (CompiledGoFiles mp). se_path (in_senv I) u \<noteq> [] \<and> file_excluded (in_fenv I) f (se_path (in_senv I) u))"

lemma prune_exact:
  assumes "filter_inv (in_fenv I) f0 f"
  shows "\<exists>f'. pruneExcludedRoots I (Some f) pkgs = (Some f', filter (\<lambda>(pid, mp). \<not> fully_excluded I f0 mp) pkgs)
    \<and> filter_inv (in_fenv I) f0 f'"
  using assms
proof (induction pkgs arbitrary: f)
  case (Cons p pkgs)
  obtain pid mp where p: "p = (pid, mp)" by (cases p)
  let ?ps = "map (se_path (in_senv I)) (CompiledGoFiles mp)"
  have "\<exists>f1. ExcludesAllFiles (in_fenv I) (Some f) ?ps = (Some f1, fully_excluded I f0 mp) \<and> filter_inv (in_fenv I) f0 f1"
    using excludes_all_spec [OF Cons.prems, of ?ps] Cons.prems
    by (cases "excludes_all (in_fenv I) f ?ps") (auto simp: ExcludesAllFiles_def fully_excluded_def)
  then obtain f1 where x: "ExcludesAllFiles (in_fenv I) (Some f) ?ps = (Some f1, fully_excluded I f0 mp)" "filter_inv (in_fenv I) f0 f1" by blast
  from Cons.IH [OF x(2)] x(1) show ?case by (auto simp: p)
qed simp


subsection \<open>Attribution and filtering\<close>

lemma uniq_first_disjoint: "key ` set ds \<inter> S = {} \<Longrightarrow> uniq_first key (S \<union> T) ds = uniq_first key T ds"
proof (induction ds arbitrary: T)
  case (Cons d ds)
  have "uniq_first key (S \<union> insert (key d) T) ds = uniq_first key (insert (key d) T) ds" by (rule Cons.IH) (use Cons.prems in auto)
  then show ?case using Cons by (auto simp: insert_commute)
qed simp

lemma keep_spec_disjoint: "key ` set ds \<inter> S = {} \<Longrightarrow> keep_spec dr u key S ds = keep_spec dr u key {} ds"
  using uniq_first_disjoint [of key "filter (\<lambda>d. \<not> dr d) ds" S "{}"] by (auto simp: keep_spec_def Let_def)

definition kept :: "'s engineIn \<Rightarrow> filter_state \<Rightarrow> diagnostic list \<Rightarrow> diagnostic list" where
  "kept I f0 ds = keep_spec (drops (in_fenv I) f0) (uniqByLine f0) file_line {} ds"

lemma kept_Nil [simp]: "kept I f0 [] = []"
  by (simp add: kept_def)

lemma stream_packages_exact:
  assumes "stream_inv (in_fenv I) f0 S s" "nolint f0 \<noteq> None" "distinct ids"
    and "\<forall>p\<in>set ids. file_line ` set (raw p) \<inter> S = {}"
    and "\<forall>p\<in>set ids. \<forall>q\<in>set ids. p \<noteq> q \<longrightarrow> file_line ` set (raw p) \<inter> file_line ` set (raw q) = {}"
  shows "\<exists>s'. stream_packages (in_fenv I) (Some s) raw ids = Some (Some s', map (\<lambda>p. (p, kept I f0 (raw p))) ids)
    \<and> stream_inv (in_fenv I) f0 (S \<union> (\<Union>p\<in>set ids. file_line ` {d \<in> set (raw p). \<not> drops (in_fenv I) f0 d})) s'"
  using assms
proof (induction ids arbitrary: s S)
  case (Cons p ids)
  let ?S = "S \<union> file_line ` {d \<in> set (raw p). \<not> drops (in_fenv I) f0 d}"
  obtain s1 where s1: "AddPackage (in_fenv I) (Some s) p (raw p)
      = Some (Some s1, keep_spec (drops (in_fenv I) f0) (uniqByLine f0) file_line S (raw p))" "stream_inv (in_fenv I) f0 ?S s1"
    using AddPackage_spec [OF Cons.prems(1,2)] by blast
  have "keep_spec (drops (in_fenv I) f0) (uniqByLine f0) file_line S (raw p) = kept I f0 (raw p)"
    unfolding kept_def by (rule keep_spec_disjoint) (use Cons.prems(4) in simp)
  moreover have later: "\<forall>q\<in>set ids. file_line ` set (raw q) \<inter> ?S = {}"
  proof
    fix q assume q: "q \<in> set ids"
    then have "file_line ` set (raw q) \<inter> file_line ` set (raw p) = {}" using Cons.prems(3,5) by (metis distinct.simps(2) list.set_intros(1,2))
    moreover have "file_line ` set (raw q) \<inter> S = {}" using Cons.prems(4) q by simp
    ultimately show "file_line ` set (raw q) \<inter> ?S = {}" by blast
  qed
  moreover have "?S \<union> (\<Union>p\<in>set ids. file_line ` {d \<in> set (raw p). \<not> drops (in_fenv I) f0 d})
      = S \<union> (\<Union>q\<in>set (p # ids). file_line ` {d \<in> set (raw q). \<not> drops (in_fenv I) f0 d})" by auto
  moreover obtain s2 where "stream_packages (in_fenv I) (Some s1) raw ids = Some (Some s2, map (\<lambda>p. (p, kept I f0 (raw p))) ids)"
      "stream_inv (in_fenv I) f0 (?S \<union> (\<Union>p\<in>set ids. file_line ` {d \<in> set (raw p). \<not> drops (in_fenv I) f0 d})) s2"
    using Cons.IH [OF s1(2) Cons.prems(2) _ later] Cons.prems(3,5) by auto
  ultimately show ?case using s1(1) by simp
qed simp

definition raw_of :: "'s engineIn \<Rightarrow> mgraph \<Rightarrow> mgraph \<Rightarrow> lspDiagnostic option list \<Rightarrow> string \<Rightarrow> diagnostic list" where
  "raw_of I allPkgs analyzed fresh pid = filter (\<lambda>d. owner_bucket I allPkgs analyzed d = pid) (map FromAnalysis fresh)"

lemma owner_bucket_file: "file_line d = file_line d' \<Longrightarrow> owner_bucket I allPkgs analyzed d = owner_bucket I allPkgs analyzed d'"
  by (simp add: owner_bucket_def owner_of_def file_line_def)

lemma raw_disjoint:
  assumes "p \<noteq> q"
  shows "file_line ` set (raw_of I a b fresh p) \<inter> file_line ` set (raw_of I a b fresh q) = {}"
proof -
  have "file_line d \<noteq> file_line d'" if "d \<in> set (raw_of I a b fresh p)" "d' \<in> set (raw_of I a b fresh q)" for d d'
    using that assms owner_bucket_file [of d d' I a b] by (auto simp: raw_of_def)
  then show ?thesis by blast
qed

lemma AList_update_new: "k \<notin> fst ` set xs \<Longrightarrow> AList.update k v xs = xs @ [(k, v)]"
  by (induction xs) auto

definition by_package :: "'s engineIn \<Rightarrow> filter_state \<Rightarrow> mgraph \<Rightarrow> mgraph \<Rightarrow> lspDiagnostic option list \<Rightarrow> (string \<times> diagnostic list) list" where
  "by_package I f0 allPkgs analyzed fresh =
     map (\<lambda>pid. (pid, kept I f0 (raw_of I allPkgs analyzed fresh pid))) (map fst (in_ord I 5 analyzed))
     @ (if raw_of I allPkgs analyzed fresh [] = [] then [] else [([], kept I f0 (raw_of I allPkgs analyzed fresh []))])"

lemma partition_exact_lemma:
  assumes "filter_inv (in_fenv I) f0 f" "nolint f0 \<noteq> None"
    and "mset (in_ord I 5 analyzed) = mset analyzed" "distinct (map fst analyzed)" "[] \<notin> fst ` set analyzed"
  shows "\<exists>f'. partitionAndFilter I (Some f) allPkgs analyzed fresh = Some (Some f', by_package I f0 allPkgs analyzed fresh)
    \<and> filter_inv (in_fenv I) f0 f'"
proof (cases "fresh = []")
  case True
  then show ?thesis using assms(1) by (auto simp: partitionAndFilter_def by_package_def raw_of_def Let_def)
next
  case False
  let ?raw = "raw_of I allPkgs analyzed fresh" and ?ids = "map fst (in_ord I 5 analyzed)"
  have "mset ?ids = mset (map fst analyzed)" using assms(3) by simp
  then have d: "distinct ?ids" "[] \<notin> set ?ids" using assms(4,5) by (metis mset_eq_imp_distinct_iff, metis mset_eq_setD set_map)
  obtain s where s: "NewStream (Some f) = Some s" "stream_inv (in_fenv I) f0 {} s" using NewStream_inv [OF assms(1)] by blast
  obtain s1 where s1: "stream_packages (in_fenv I) (Some s) ?raw ?ids = Some (Some s1, map (\<lambda>p. (p, kept I f0 (?raw p))) ?ids)"
    and i1: "stream_inv (in_fenv I) f0 ({} \<union> (\<Union>p\<in>set ?ids. file_line ` {d \<in> set (?raw p). \<not> drops (in_fenv I) f0 d})) s1"
    using stream_packages_exact [OF s(2) assms(2) d(1), of ?raw] raw_disjoint by (metis (no_types, lifting) inf_bot_right)
  have fin: "filter_inv (in_fenv I) f0 (sf (the (Finish (Some t))))" if "stream_inv (in_fenv I) f0 T t" for t T
    using that Finish_filter_inv by (auto simp: stream_inv_def)
  note defs = partitionAndFilter_def Let_def raw_of_def [symmetric] finished_filter_def
  show ?thesis
  proof (cases "?raw [] = []")
    case True
    then show ?thesis using False s(1) s1 fin [OF i1] by (auto simp: defs by_package_def Finish_def)
  next
    case raw: False
    obtain s2 where s2: "AddPackage (in_fenv I) (Some s1) [] (?raw []) = Some (Some s2, keep_spec (drops (in_fenv I) f0) (uniqByLine f0) file_line
        ({} \<union> (\<Union>p\<in>set ?ids. file_line ` {d \<in> set (?raw p). \<not> drops (in_fenv I) f0 d})) (?raw []))"
      and i2: "\<exists>T. stream_inv (in_fenv I) f0 T s2" using AddPackage_spec [OF i1 assms(2)] by blast
    have "keep_spec (drops (in_fenv I) f0) (uniqByLine f0) file_line
        ({} \<union> (\<Union>p\<in>set ?ids. file_line ` {d \<in> set (?raw p). \<not> drops (in_fenv I) f0 d})) (?raw []) = kept I f0 (?raw [])"
      unfolding kept_def
    proof (rule keep_spec_disjoint)
      show "file_line ` set (?raw []) \<inter> ({} \<union> (\<Union>p\<in>set ?ids. file_line ` {d \<in> set (?raw p). \<not> drops (in_fenv I) f0 d})) = {}"
      proof -
        have "file_line ` set (?raw []) \<inter> file_line ` {d \<in> set (?raw p). \<not> drops (in_fenv I) f0 d} = {}" if "p \<in> set ?ids" for p
        proof -
          have "[] \<noteq> p" using that d(2) by metis
          then show ?thesis using raw_disjoint [of "[]" p I allPkgs analyzed fresh] by blast
        qed
        then show ?thesis by blast
      qed
    qed
    moreover have "AList.update [] x (map (\<lambda>p. (p, kept I f0 (?raw p))) ?ids) = map (\<lambda>p. (p, kept I f0 (?raw p))) ?ids @ [([], x)]" for x
      by (rule AList_update_new) (use d(2) in force)
    ultimately show ?thesis using False raw s(1) s1 s2 i2 fin by (auto simp: defs by_package_def AddBatch_def Finish_def)
  qed
qed


subsection \<open>What a run is assumed to be\<close>

definition ctx_of :: "'s engineIn \<Rightarrow> filter_state \<Rightarrow> l0Context" where
  "ctx_of I f0 =
     \<lparr>lc_graph = (case in_all I of Inl _ \<Rightarrow> [] | Inr mps \<Rightarrow> graph_of mps), sourceHashCache = Map.empty, depHashCache = Map.empty,
      lc_analyzerSetHash = computeAnalyzerSetHash (in_name I) (in_look I) (Some (in_plan I)),
      lc_filterConfigHash = ConfigDigest (Some f0), lc_toolVersion = in_toolVersion I, lc_buildEnv = in_buildEnv I,
      lc_goVersion = in_goVersion I\<rparr>"

definition pkg_key :: "'s engineIn \<Rightarrow> filter_state \<Rightarrow> package \<Rightarrow> actionID option" where
  "pkg_key I f0 mp = map_option ComputeKey (parts_spec (in_senv I) (ctx_of I f0) mp)"

definition analysis_roots :: "'s engineIn \<Rightarrow> filter_state \<Rightarrow> mgraph" where
  "analysis_roots I f0 = filter (\<lambda>(pid, mp). \<not> fully_excluded I f0 mp) (workspace_packages I)"

text \<open>
  The analysis driver.  A driver that succeeds on some roots without overrides succeeds on each part of them, with
  overrides that may stand in for the analysis of a dependency (\<open>good\<close>); and whenever it succeeds, it reports for
  every root the diagnostics \<open>ad\<close>, all in files the root owns, and nothing else.
\<close>

definition attributed :: "'s engineIn \<Rightarrow> (string \<Rightarrow> diagnostic list) \<Rightarrow> mgraph \<Rightarrow> lspDiagnostic option list \<Rightarrow> bool" where
  "attributed I ad rs fresh \<longleftrightarrow>
     (\<forall>pid\<in>fst ` set rs. filter (\<lambda>d. owner_of I (workspace_packages I) d = Some pid) (map FromAnalysis fresh) = ad pid)
     \<and> (\<forall>d\<in>set (map FromAnalysis fresh). \<exists>pid\<in>fst ` set rs. owner_of I (workspace_packages I) d = Some pid)"

definition driver_ok :: "'s engineIn \<Rightarrow> filter_state \<Rightarrow> (string \<Rightarrow> diagnostic list) \<Rightarrow> (string \<Rightarrow> l0DepEntry \<Rightarrow> bool) \<Rightarrow> bool" where
  "driver_ok I f0 ad good \<longleftrightarrow>
     (\<forall>ov rs. set rs \<subseteq> set (analysis_roots I f0) \<longrightarrow> (\<forall>d x. ov d = Some x \<longrightarrow> good d x) \<longrightarrow>
        (\<forall>fresh nodes. in_analyze I ov rs = Inr (fresh, nodes) \<longrightarrow> attributed I ad rs fresh)
        \<and> (\<forall>all x. set rs \<subseteq> set all \<longrightarrow> set all \<subseteq> set (analysis_roots I f0) \<longrightarrow> in_analyze I Map.empty all = Inr x \<longrightarrow>
             (\<exists>y. in_analyze I ov rs = Inr y)))"

definition run_ok ::
  "'s engineIn \<Rightarrow> filter_state \<Rightarrow> filter_state \<Rightarrow> (string \<Rightarrow> diagnostic list) \<Rightarrow> (string \<Rightarrow> l0DepEntry \<Rightarrow> bool) \<Rightarrow> bool" where
  "run_ok I f0 f ad good \<longleftrightarrow>
     filter_inv (in_fenv I) f0 f \<and> nolint f0 \<noteq> None
     \<and> (\<forall>n g. mset (in_ord I n g) = mset g) \<and> (\<forall>x. mset (in_ords I x) = mset x)
     \<and> (\<forall>mps. in_all I = Inr mps \<longrightarrow> known_in (graph_of mps) (workspace_packages I))
     \<and> [] \<notin> fst ` set (workspace_packages I) \<and> driver_ok I f0 ad good"

definition uri_paths :: "'s engineIn \<Rightarrow> smap" where
  "uri_paths I = uriPkgPathMap (in_ord I 0 (workspace_packages I))"

text \<open>The diagnostics a run reports for a package when it analyzes it.\<close>

definition truth :: "'s engineIn \<Rightarrow> filter_state \<Rightarrow> (string \<Rightarrow> diagnostic list) \<Rightarrow> string \<Rightarrow> diagnostic list" where
  "truth I f0 ad pid = canonicalizeDiagnostics (in_uri I) (uri_paths I) (kept I f0 (ad pid))"

text \<open>
  A store is honest for a run when every entry the run may read is right: for a root it holds the diagnostics of
  the root, or none at all and the root is one of \<open>hid\<close>, and for any package of the graph its facts may stand in for
  the analysis.
\<close>

definition honest_for ::
  "('s \<Rightarrow> actionID \<Rightarrow> L0Entry set) \<Rightarrow> 's engineIn \<Rightarrow> filter_state \<Rightarrow> (string \<Rightarrow> diagnostic list) \<Rightarrow> (string \<Rightarrow> l0DepEntry \<Rightarrow> bool)
   \<Rightarrow> string set \<Rightarrow> 's \<Rightarrow> bool" where
  "honest_for stored I f0 ad good hid s \<longleftrightarrow>
     (\<forall>pid mp k e. (pid, mp) \<in> set (analysis_roots I f0) \<longrightarrow> pkg_key I f0 mp = Some k \<longrightarrow> e \<in> stored s k \<longrightarrow>
        l0Diagnostics e = truth I f0 ad pid \<or> l0Diagnostics e = [] \<and> pid \<in> hid)
     \<and> (\<forall>d mp k e. map_of (lc_graph (ctx_of I f0)) d = Some mp \<longrightarrow> pkg_key I f0 mp = Some k \<longrightarrow> e \<in> stored s k \<longrightarrow>
        good d (dep_entry I e))"


subsection \<open>The graph and the context\<close>

lemma graph_of_update:
  "fold (\<lambda>mo g. case mo of None \<Rightarrow> g | Some mp \<Rightarrow> AList.update (pID mp) mp g) ms g0 = g \<Longrightarrow>
   distinct (map fst g0) \<Longrightarrow> (\<forall>(pid, mp)\<in>set g0. pid = pID mp) \<Longrightarrow> distinct (map fst g) \<and> (\<forall>(pid, mp)\<in>set g. pid = pID mp)"
proof (induction ms arbitrary: g0)
  case (Cons mo ms)
  show ?case
  proof (cases mo)
    case (Some mp)
    have "(\<forall>(pid, m)\<in>set (AList.update (pID mp) mp g0). pid = pID m)"
      using Cons.prems(3) by (induction g0) auto
    then show ?thesis
      using Cons.IH [of "AList.update (pID mp) mp g0"] Cons.prems(1,2) Some distinct_update [of g0 "pID mp" mp] by simp
  qed (use Cons in simp)
qed simp

lemma graph_of_wf: "distinct (map fst (graph_of ms))" "(pid, mp) \<in> set (graph_of ms) \<Longrightarrow> pid = pID mp"
  using graph_of_update [of ms "[]" "graph_of ms"] by (auto simp: graph_of_def)

lemma graph_of_ok: "graph_ok (graph_of ms)"
  using graph_of_wf(2) by (fastforce simp: graph_ok_def dest: map_of_SomeD)

lemma workspace_distinct: "distinct (map fst (workspace_packages I))"
  unfolding workspace_packages_def dropTestSupersededPackages_def by (rule distinct_map_filter [OF graph_of_wf(1)])

lemma digest_tokens_config: "config_of f = config_of g \<Longrightarrow> digest_tokens f = digest_tokens g"
  using config_of_eqD [of f g] by (simp add: digest_tokens_def)

lemma run_context_ctx:
  assumes "in_all I = Inr mps" "filter_inv e f0 f"
  shows "run_context I (Some f) = Inr (ctx_of I f0)"
proof -
  have "config_of f = config_of f0" using assms(2) by (simp add: filter_inv_def)
  from digest_tokens_config [OF this] show ?thesis using assms(1) by (simp add: run_context_def newL0Context_def ctx_of_def ConfigDigest_def)
qed

lemma ctx_ok: "lc_ok E (ctx_of I f0)"
  using graph_of_ok by (auto simp: lc_ok_def ctx_of_def graph_ok_def split: sum.split)

lemma dep_closure_known:
  assumes "graph_ok g"
  shows "known_in g (collectDepClosure g roots)"
  using assms by (auto simp: known_in_def collectDepClosure_def graph_ok_def List.map_filter_def split: option.splits if_splits)


subsection \<open>Sums of diagnostics\<close>

lemma mset_concat_snd: "mset (concat (map snd xs)) = (\<Sum>x\<in>#mset xs. mset (snd x))"
  by (induction xs) auto

text \<open>The rows that were found with no diagnostics although the package has some.\<close>

definition emptied :: "(string \<Rightarrow> diagnostic list) \<Rightarrow> lookup_row list \<Rightarrow> mgraph" where
  "emptied t rows = map (\<lambda>(pid, mp, ko, eo). (pid, mp)) (filter (\<lambda>(pid, mp, ko, eo). \<exists>e. eo = Some e \<and> l0Diagnostics e \<noteq> t pid) rows)"

lemma row_sum:
  assumes "\<forall>(pid, mp, ko, eo)\<in>set rows. \<forall>e. eo = Some e \<longrightarrow> l0Diagnostics e = t pid \<or> l0Diagnostics e = []"
  shows "mset (concat (map (l0Diagnostics \<circ> snd) (found rows))) + (\<Sum>(pid, mp)\<in>#mset (emptied t rows). mset (t pid))
      + (\<Sum>(pid, mp)\<in>#mset (missed rows). mset (t pid))
    = (\<Sum>(pid, mp)\<in>#mset (map (\<lambda>(pid, mp, ko, eo). (pid, mp)) rows). mset (t pid))"
  using assms
proof (induction rows)
  case (Cons r rows)
  obtain pid mp ko eo where r: "r = (pid, mp, ko, eo)" by (cases r)
  show ?case using Cons by (cases eo) (auto simp: r found_def missed_def emptied_def List.map_filter_def ac_simps)
qed (simp add: found_def missed_def emptied_def List.map_filter_def)

lemma fresh_sum:
  assumes "\<forall>x. mset (in_ords I x) = mset x" "mset (in_ord I 5 analyzed) = mset analyzed"
    and "\<forall>pid\<in>fst ` set analyzed. raw_of I allPkgs analyzed fresh pid = ad pid" "raw_of I allPkgs analyzed fresh [] = []"
  shows "mset (concat (map snd (in_ords I (map (\<lambda>(pid, ds). (pid, canonicalizeDiagnostics (in_uri I) (uri_paths I) ds))
      (by_package I f0 allPkgs analyzed fresh))))) = (\<Sum>(pid, mp)\<in>#mset analyzed. mset (truth I f0 ad pid))"
proof -
  have s: "set (in_ord I 5 analyzed) = set analyzed" using mset_eq_setD [OF assms(2)] .
  have "by_package I f0 allPkgs analyzed fresh = map (\<lambda>x. (fst x, kept I f0 (ad (fst x)))) (in_ord I 5 analyzed)"
    using assms(3,4) s by (auto simp: by_package_def)
  then have "mset (concat (map snd (in_ords I (map (\<lambda>(pid, ds). (pid, canonicalizeDiagnostics (in_uri I) (uri_paths I) ds))
      (by_package I f0 allPkgs analyzed fresh))))) = (\<Sum>x\<in>#mset (in_ord I 5 analyzed). mset (truth I f0 ad (fst x)))"
    unfolding mset_concat_snd using assms(1) by (simp add: image_mset.compositionality comp_def truth_def)
  then show ?thesis unfolding assms(2) case_prod_unfold .
qed

lemma attributed_raw:
  assumes "attributed I ad analyzed fresh" "[] \<notin> fst ` set analyzed"
  shows "\<forall>pid\<in>fst ` set analyzed. raw_of I (workspace_packages I) analyzed fresh pid = ad pid"
    and "raw_of I (workspace_packages I) analyzed fresh [] = []"
proof -
  have own: "\<exists>pid\<in>fst ` set analyzed. owner_of I (workspace_packages I) d = Some pid" if "d \<in> set (map FromAnalysis fresh)" for d
    using assms(1) that unfolding attributed_def by blast
  have b: "owner_bucket I (workspace_packages I) analyzed d = pid \<longleftrightarrow> owner_of I (workspace_packages I) d = Some pid"
    if d: "d \<in> set (map FromAnalysis fresh)" and "pid \<in> fst ` set analyzed" for d pid
  proof -
    obtain o' where "o' \<in> fst ` set analyzed" "owner_of I (workspace_packages I) d = Some o'" using own [OF d] by blast
    then show ?thesis by (simp add: owner_bucket_def)
  qed
  show "\<forall>pid\<in>fst ` set analyzed. raw_of I (workspace_packages I) analyzed fresh pid = ad pid"
  proof
    fix pid assume p: "pid \<in> fst ` set analyzed"
    have "raw_of I (workspace_packages I) analyzed fresh pid = filter (\<lambda>d. owner_of I (workspace_packages I) d = Some pid) (map FromAnalysis fresh)"
      unfolding raw_of_def by (rule filter_cong [OF refl]) (rule b [OF _ p])
    then show "raw_of I (workspace_packages I) analyzed fresh pid = ad pid" using assms(1) p unfolding attributed_def by metis
  qed
  have "owner_bucket I (workspace_packages I) analyzed d \<noteq> []" if d: "d \<in> set (map FromAnalysis fresh)" for d
  proof -
    obtain o' where o: "o' \<in> fst ` set analyzed" "owner_of I (workspace_packages I) d = Some o'" using own [OF d] by blast
    then have "o' \<noteq> []" using assms(2) by metis
    then show ?thesis using o by (simp add: owner_bucket_def)
  qed
  then show "raw_of I (workspace_packages I) analyzed fresh [] = []" unfolding raw_of_def by (simp add: filter_empty_conv)
qed


subsection \<open>The lookups of a run\<close>

lemma row_keysD: "row_keys rows pid = Some k \<Longrightarrow> \<exists>mp eo. (pid, mp, Some k, eo) \<in> set rows"
  by (fastforce simp: row_keys_def List.map_filter_def dest: map_of_SomeD split: option.splits)

lemma foundD: "(pid, e) \<in> set (found rows) \<Longrightarrow> \<exists>mp ko. (pid, mp, ko, Some e) \<in> set rows"
  by (fastforce simp: found_def List.map_filter_def split: option.splits)

lemma missed_map: "missed rows = map (\<lambda>(pid, mp, ko, eo). (pid, mp)) (filter (\<lambda>(pid, mp, ko, eo). eo = None) rows)"
  by (induction rows) (auto simp: missed_def List.map_filter_def split: option.splits)

lemma set_missed: "(pid, mp) \<in> set (missed rows) \<longleftrightarrow> (\<exists>ko. (pid, mp, ko, None) \<in> set rows)"
  by (force simp: missed_map)

lemma distinct_missed:
  assumes "distinct (map fst (map (\<lambda>(pid, mp, ko, eo). (pid, mp)) rows))"
  shows "distinct (map fst (missed rows))"
  unfolding missed_map map_map using assms unfolding map_map by (rule distinct_map_filter)

lemma pkg_key_fixed:
  assumes "lc_fixed lc = lc_fixed (ctx_of I f0)"
  shows "pkg_key I f0 mp = map_option ComputeKey (parts_spec (in_senv I) lc mp)"
  unfolding pkg_key_def parts_spec_fixed [OF assms] ..

lemma pkg_key_length: "pkg_key I f0 mp = Some k \<Longrightarrow> length k = 32"
  by (auto simp: pkg_key_def)

context l0_store
begin

lemma split_exact:
  assumes "in_L0 I = Some (get, put)" "run_context I fo = Inr (ctx_of I f0)" "known_in (lc_graph (ctx_of I f0)) roots"
    and "distinct (map fst roots)" "splitByL0 I fo s roots = (s', sp)"
    and "\<forall>pid mp k e. (pid, mp) \<in> set roots \<longrightarrow> pkg_key I f0 mp = Some k \<longrightarrow> e \<in> stored s k \<longrightarrow> l0Diagnostics e = t pid \<or> l0Diagnostics e = [] \<and> pid \<in> hid"
  shows "\<And>k. length k = 32 \<Longrightarrow> stored s' k = stored s k"
    and "set (sp_analyze sp) \<subseteq> set roots" "distinct (map fst (sp_analyze sp))"
    and "\<exists>hs. set hs \<subseteq> set roots \<and> fst ` set hs \<subseteq> hid \<and> distinct (map fst hs)
      \<and> mset (sp_cached sp) + (\<Sum>(pid, mp)\<in>#mset hs. mset (t pid)) + (\<Sum>(pid, mp)\<in>#mset (sp_analyze sp). mset (t pid))
        = (\<Sum>(pid, mp)\<in>#mset roots. mset (t pid))"
    and "\<And>pid k. sp_keys sp pid = Some k \<Longrightarrow> \<exists>mp. (pid, mp) \<in> set roots \<and> pkg_key I f0 mp = Some k"
    and "\<And>pid mp. (pid, mp) \<in> set roots \<Longrightarrow> (pid, mp) \<notin> set (sp_analyze sp) \<Longrightarrow> \<exists>k. pkg_key I f0 mp = Some k \<and> stored s k \<noteq> {}"
    and "\<exists>lc. sp_lc sp = Some lc \<and> lc_ok (in_senv I) lc \<and> lc_fixed lc = lc_fixed (ctx_of I f0)"
proof -
  obtain lc' s1 rows where r: "lookup_rows (in_senv I) get (ctx_of I f0) s roots = (lc', s1, rows)"
    by (cases "lookup_rows (in_senv I) get (ctx_of I f0) s roots")
  have e: "s' = s1" "sp_analyze sp = missed rows" "sp_keys sp = row_keys rows" "sp_lc sp = Some lc'"
    "sp_cached sp = concat (map (l0Diagnostics \<circ> snd) (found rows))"
    using assms(1,2,5) r by (auto simp: splitByL0_def)
  note x = lookup_rows_exact [OF ctx_ok assms(3) r]
  have rows: "(pid, mp) \<in> set roots \<and> ko = pkg_key I f0 mp \<and> (\<forall>e. eo = Some e \<longrightarrow> (\<exists>k. ko = Some k \<and> e \<in> stored s k))"
    if row: "(pid, mp, ko, eo) \<in> set rows" for pid mp ko eo
  proof -
    have "(pid, mp) \<in> (\<lambda>(pid, mp, ko, eo). (pid, mp)) ` set rows" using row by force
    then have "(pid, mp) \<in> set roots" using x by (metis set_map)
    moreover have "ko = pkg_key I f0 mp \<and> (\<forall>e. eo = Some e \<longrightarrow> (\<exists>k. ko = Some k \<and> e \<in> stored s k))"
      unfolding pkg_key_def using x row by blast
    ultimately show ?thesis by blast
  qed
  have all: "\<exists>ko eo. (pid, mp, ko, eo) \<in> set rows" if "(pid, mp) \<in> set roots" for pid mp
  proof -
    have "(pid, mp) \<in> (\<lambda>(pid, mp, ko, eo). (pid, mp)) ` set rows" using x that by (metis set_map)
    then show ?thesis by auto
  qed
  show "\<And>k. length k = 32 \<Longrightarrow> stored s' k = stored s k" using x e by blast
  show "set (sp_analyze sp) \<subseteq> set roots" using rows by (auto simp: e set_missed)
  show "distinct (map fst (sp_analyze sp))" unfolding e using x assms(4) by (intro distinct_missed) metis
  have hit: "l0Diagnostics e = t pid \<or> l0Diagnostics e = [] \<and> pid \<in> hid" if "(pid, mp, ko, Some e) \<in> set rows" for pid mp ko e
    using rows [OF that] assms(6) by auto
  then have "\<forall>(pid, mp, ko, eo)\<in>set rows. \<forall>e. eo = Some e \<longrightarrow> l0Diagnostics e = t pid \<or> l0Diagnostics e = []" by fastforce
  note sum = row_sum [OF this]
  have "set (emptied t rows) \<subseteq> set roots" using rows by (fastforce simp: emptied_def)
  moreover have "fst ` set (emptied t rows) \<subseteq> hid" using hit by (fastforce simp: emptied_def)
  moreover have "distinct (map fst (map (\<lambda>(pid, mp, ko, eo). (pid, mp)) rows))" using x assms(4) by metis
  then have "distinct (map fst (emptied t rows))" unfolding emptied_def map_map by (rule distinct_map_filter)
  ultimately show "\<exists>hs. set hs \<subseteq> set roots \<and> fst ` set hs \<subseteq> hid \<and> distinct (map fst hs)
      \<and> mset (sp_cached sp) + (\<Sum>(pid, mp)\<in>#mset hs. mset (t pid)) + (\<Sum>(pid, mp)\<in>#mset (sp_analyze sp). mset (t pid))
        = (\<Sum>(pid, mp)\<in>#mset roots. mset (t pid))"
    using sum x e by (intro exI [of _ "emptied t rows"]) simp
  show "\<exists>mp. (pid, mp) \<in> set roots \<and> pkg_key I f0 mp = Some k" if "sp_keys sp pid = Some k" for pid k
    using row_keysD [of rows pid k] that rows e by fastforce
  show "\<exists>k. pkg_key I f0 mp = Some k \<and> stored s k \<noteq> {}" if root: "(pid, mp) \<in> set roots" and other: "(pid, mp) \<notin> set (sp_analyze sp)" for pid mp
  proof -
    obtain ko eo where row: "(pid, mp, ko, eo) \<in> set rows" using all [OF root] by blast
    then obtain e where "eo = Some e" using other row by (cases eo) (auto simp: e set_missed)
    then show ?thesis using rows [OF row] by auto
  qed
  show "\<exists>lc. sp_lc sp = Some lc \<and> lc_ok (in_senv I) lc \<and> lc_fixed lc = lc_fixed (ctx_of I f0)" using x e by blast
qed

lemma overrides_exact:
  assumes "in_L0 I = Some (get, put)" "sp_lc sp = Some lc" "lc_ok (in_senv I) lc" "lc_fixed lc = lc_fixed (ctx_of I f0)"
    and "\<forall>n g. mset (in_ord I n g) = mset g" "overrides_of I sp s = (s', ovo)"
    and "\<forall>d mp k e. map_of (lc_graph (ctx_of I f0)) d = Some mp \<longrightarrow> pkg_key I f0 mp = Some k \<longrightarrow> e \<in> stored s k \<longrightarrow> good d (dep_entry I e)"
  shows "\<And>k. length k = 32 \<Longrightarrow> stored s' k = stored s k"
    and "\<And>ov d x. ovo = Some ov \<Longrightarrow> ov_map ov d = Some x \<Longrightarrow> good d x"
    and "\<And>ov ks d k. ovo = Some ov \<Longrightarrow> ov_keys ov = Some ks \<Longrightarrow> ks d = Some k \<Longrightarrow>
      \<exists>mp. map_of (lc_graph (ctx_of I f0)) d = Some mp \<and> pkg_key I f0 mp = Some k"
    and "\<And>ov. ovo = Some ov \<Longrightarrow> lc_ok (in_senv I) (ov_lc ov) \<and> lc_fixed (ov_lc ov) = lc_fixed (ctx_of I f0)"
proof -
  let ?g = "lc_graph (ctx_of I f0)"
  have g: "lc_graph lc = ?g" using lc_fixed_eqD(1) [OF assms(4)] .
  let ?deps = "collectDepClosure ?g (sp_analyze sp)"
  have G: "graph_ok ?g" using ctx_ok [of "in_senv I" I f0] by (simp add: lc_ok_def)
  have kn: "known_in (lc_graph lc) (in_ord I 7 ?deps)"
    using dep_closure_known [OF G, of "sp_analyze sp"] mset_eq_setD [OF assms(5) [rule_format, of 7 ?deps]] by (simp add: known_in_def g)
  obtain lc1 s1 rows where r: "lookup_rows (in_senv I) get lc s (in_ord I 7 ?deps) = (lc1, s1, rows)"
    by (cases "lookup_rows (in_senv I) get lc s (in_ord I 7 ?deps)")
  note x = lookup_rows_exact [OF assms(3) kn r]
  have rows: "map_of ?g d = Some mp \<and> ko = pkg_key I f0 mp \<and> (\<forall>e. eo = Some e \<longrightarrow> (\<exists>k. ko = Some k \<and> e \<in> stored s k))"
    if row: "(d, mp, ko, eo) \<in> set rows" for d mp ko eo
  proof -
    have "(d, mp) \<in> (\<lambda>(pid, mp, ko, eo). (pid, mp)) ` set rows" using row by force
    then have "(d, mp) \<in> set (in_ord I 7 ?deps)" using x by (metis set_map)
    then have "map_of ?g d = Some mp" using kn g by (auto simp: known_in_def)
    moreover have "ko = pkg_key I f0 mp \<and> (\<forall>e. eo = Some e \<longrightarrow> (\<exists>k. ko = Some k \<and> e \<in> stored s k))"
      unfolding pkg_key_fixed [OF assms(4)] using x row by blast
    ultimately show ?thesis by blast
  qed
  have cases: "(s' = s \<and> (ovo = None \<or> ovo = Some \<lparr>ov_lc = lc, ov_keys = None, ov_hits = 0, ov_map = Map.empty\<rparr>))
    \<or> (s' = s1 \<and> ovo = Some \<lparr>ov_lc = lc1, ov_keys = Some (row_keys rows), ov_hits = length (found rows),
          ov_map = map_of (map (\<lambda>(d, e). (d, dep_entry I e)) (found rows))\<rparr>)"
    using assms(1,2,6) r by (auto simp: overrides_of_def installDepOverrides_def Let_def g split: if_splits)
  show "\<And>k. length k = 32 \<Longrightarrow> stored s' k = stored s k" using cases x by metis
  show "good d x'" if "ovo = Some ov" "ov_map ov d = Some x'" for ov d x'
  proof -
    have "map_of (map (\<lambda>(d, e). (d, dep_entry I e)) (found rows)) d = Some x'" using cases that by auto
    then obtain e where e: "(d, e) \<in> set (found rows)" "x' = dep_entry I e" by (auto dest!: map_of_SomeD)
    then obtain mp ko where "(d, mp, ko, Some e) \<in> set rows" using foundD by blast
    then show ?thesis using rows [of d mp ko "Some e"] assms(7) e(2) by auto
  qed
  show "\<exists>mp. map_of ?g d = Some mp \<and> pkg_key I f0 mp = Some k" if "ovo = Some ov" "ov_keys ov = Some ks" "ks d = Some k" for ov ks d k
  proof -
    have "row_keys rows d = Some k" using cases that by auto
    then show ?thesis using row_keysD rows by metis
  qed
  show "lc_ok (in_senv I) (ov_lc ov) \<and> lc_fixed (ov_lc ov) = lc_fixed (ctx_of I f0)" if "ovo = Some ov" for ov
    using cases x assms(3,4) that by auto
qed

end


subsection \<open>What a run writes\<close>

text \<open>
  The facts of an entry: those of a node the driver reported for the package, or none at all, when overrides are
  off or the driver reported no node for it.
\<close>

definition made :: "'s engineIn \<Rightarrow> string \<Rightarrow> L0Entry \<Rightarrow> bool" where
  "made I pid e \<longleftrightarrow>
     (l0Actions e = Map.empty \<and> \<not> l0Compiles e
        \<and> (\<not> in_depOverride I \<or> (\<exists>ov rs fresh nodes. in_analyze I ov rs = Inr (fresh, nodes) \<and> pid \<notin> nd_PackageID ` set nodes)))
     \<or> (\<exists>ov rs fresh nodes nd. in_analyze I ov rs = Inr (fresh, nodes) \<and> nd \<in> set nodes \<and> nd_PackageID nd = pid
          \<and> l0Compiles e = nd_Compiles nd \<and> l0Actions e = stringActions (in_stable I) (nd_Actions nd))"

text \<open>A root's entry holds its diagnostics; the entry of a package that was only met as a dependency holds none.\<close>

definition root_write :: "'s engineIn \<Rightarrow> filter_state \<Rightarrow> (string \<Rightarrow> diagnostic list) \<Rightarrow> actionID \<Rightarrow> L0Entry \<Rightarrow> bool" where
  "root_write I f0 ad k e \<longleftrightarrow>
     (\<exists>pid mp. (pid, mp) \<in> set (analysis_roots I f0) \<and> pkg_key I f0 mp = Some k \<and> l0Diagnostics e = truth I f0 ad pid \<and> made I pid e)"

definition dep_write :: "'s engineIn \<Rightarrow> filter_state \<Rightarrow> string set \<Rightarrow> actionID \<Rightarrow> L0Entry \<Rightarrow> bool" where
  "dep_write I f0 roots k e \<longleftrightarrow>
     (\<exists>d mp. map_of (lc_graph (ctx_of I f0)) d = Some mp \<and> d \<notin> roots \<and> pkg_key I f0 mp = Some k \<and> l0Diagnostics e = [] \<and> made I d e)"

lemma made_node:
  assumes "in_analyze I ov rs = Inr (fresh, nodes)" "nd \<in> set nodes" "nd_PackageID nd = pid"
    and "l0Compiles e = nd_Compiles nd" "l0Actions e = stringActions (in_stable I) (nd_Actions nd)"
  shows "made I pid e"
  unfolding made_def using assms by blast

lemma capturedD:
  assumes "captured nodes pid = Some nd"
  shows "nd \<in> set nodes \<and> nd_PackageID nd = pid"
  using map_of_SomeD [OF assms [unfolded captured_def]] by auto

lemma captured_None: "captured nodes pid = None \<longleftrightarrow> pid \<notin> nd_PackageID ` set nodes"
  by (auto simp: captured_def map_of_eq_None_iff image_image)

lemma captured_nodes_fold:
  "(pid, nd) \<in> set (fold (\<lambda>nd ns. AList.update (nd_PackageID nd) nd ns) nodes ns0) \<Longrightarrow>
   (\<forall>(p, n) \<in> set ns0. n \<in> N \<and> nd_PackageID n = p) \<Longrightarrow> set nodes \<subseteq> N \<Longrightarrow> nd \<in> N \<and> nd_PackageID nd = pid"
proof (induction nodes arbitrary: ns0)
  case (Cons n nodes)
  have "\<forall>(p, m) \<in> set (AList.update (nd_PackageID n) n ns0). m \<in> N \<and> nd_PackageID m = p"
    using Cons.prems(2,3) by (induction ns0) auto
  then show ?case using Cons.IH [of "AList.update (nd_PackageID n) n ns0"] Cons.prems(1,3) by simp
qed auto

lemma captured_nodesD: "(pid, nd) \<in> set (captured_nodes nodes) \<Longrightarrow> nd \<in> set nodes \<and> nd_PackageID nd = pid"
  using captured_nodes_fold [of pid nd nodes "[]" "set nodes"] by (simp add: captured_nodes_def)

context l0_store
begin

lemma writeL0Entries_adds:
  assumes "\<And>pid k. pid \<in> set pids \<Longrightarrow> keys pid = Some k \<Longrightarrow> length k = 32 \<and> W k (entry pid)"
  shows "adds W s (writeL0Entries put keys entry pids s)"
  using assms
proof (induction pids arbitrary: s)
  case (Cons pid pids)
  let ?s = "case keys pid of None \<Rightarrow> s | Some key \<Rightarrow> fst (put s key (entry pid))"
  have "adds W s ?s" using Cons.prems [of pid] put_adds [of _ W "entry pid" s] by (auto simp: adds_refl split: option.split)
  moreover have "adds W ?s (writeL0Entries put keys entry pids ?s)" by (rule Cons.IH) (use Cons.prems in auto)
  ultimately show ?case using adds_trans by simp
qed (simp add: adds_refl)

lemma writeDepL0Entries_adds:
  assumes "\<And>pid nd k. (pid, nd) \<in> set nds \<Longrightarrow> pid \<notin> roots \<Longrightarrow> depKeys pid = Some k \<Longrightarrow> length k = 32 \<and> W k (facts_entry stab nd)"
    and "writeDepL0Entries put depKeys stab roots nds s = (s', n)"
  shows "adds W s s'"
  using assms
proof (induction nds arbitrary: s s' n)
  case (Cons x nds)
  obtain pid nd where x: "x = (pid, nd)" by (cases x)
  have IH: "writeDepL0Entries put depKeys stab roots nds t = (t', m) \<Longrightarrow> adds W t t'" for t t' m
    using Cons.IH [of t t' m] Cons.prems(1) by auto
  show ?case
  proof (cases "pid \<in> roots \<or> depKeys pid = None")
    case True
    then have "writeDepL0Entries put depKeys stab roots nds s = (s', n)" using Cons.prems(2) by (auto simp: x split: if_splits)
    then show ?thesis by (rule IH)
  next
    case False
    then obtain k where k: "depKeys pid = Some k" by auto
    obtain s1 err where p: "put s k (facts_entry stab nd) = (s1, err)" by fastforce
    have "adds W s s1" using put_adds [of k W "facts_entry stab nd" s] Cons.prems(1) [of pid nd k] False k p by (simp add: x)
    moreover obtain m where "writeDepL0Entries put depKeys stab roots nds s1 = (s', m)"
      using Cons.prems(2) False k p by (auto simp: x split: prod.splits)
    ultimately show ?thesis using IH adds_trans by blast
  qed
qed (simp add: adds_refl)

end


lemma compute_keys_exact:
  assumes "lc_ok E lc" "known_in (lc_graph lc) deps" "compute_keys E lc deps = (lc', ks)" "(d, k) \<in> set ks"
  shows "\<exists>mp. (d, mp) \<in> set deps \<and> map_option ComputeKey (parts_spec E lc mp) = Some k"
  using assms
proof (induction deps arbitrary: lc lc' ks)
  case (Cons p deps)
  obtain pid mp where p: "p = (pid, mp)" by (cases p)
  have mp: "map_of (lc_graph lc) (pID mp) = Some mp" using Cons.prems(2) p by (auto simp: known_in_def)
  obtain lc1 where k: "keyFor E lc (Some mp) = (lc1, map_option ComputeKey (parts_spec E lc mp))"
    and ok1: "lc_ok E lc1" and fx1: "lc_fixed lc1 = lc_fixed lc" using keyFor_parts [OF Cons.prems(1) mp] by blast
  obtain lc2 ks2 where r: "compute_keys E lc1 deps = (lc2, ks2)" by fastforce
  have pre: "known_in (lc_graph lc1) deps" using Cons.prems(2) lc_fixed_eqD(1) [OF fx1] by (simp add: known_in_def)
  have parts: "parts_spec E lc1 m = parts_spec E lc m" for m by (rule parts_spec_fixed [OF fx1])
  have "(d, k) \<in> set ks2 \<or> d = pid \<and> map_option ComputeKey (parts_spec E lc mp) = Some k"
    using Cons.prems(3,4) by (auto simp: p k r split: option.splits)
  then show ?case using Cons.IH [OF ok1 pre r] by (auto simp: p parts)
qed simp

context l0_store
begin

lemma store_run_adds:
  assumes L0: "in_L0 I = Some (get, put)" and order: "\<forall>n g. mset (in_ord I n g) = mset g"
    and keys: "\<And>pid k. sp_keys sp pid = Some k \<Longrightarrow> \<exists>mp. (pid, mp) \<in> set (analysis_roots I f0) \<and> pkg_key I f0 mp = Some k"
    and lc: "sp_lc sp \<noteq> None" and ov: "overrides_of I sp s0 = (s2, ovo)"
    and ovk: "\<And>ov ks d k. ovo = Some ov \<Longrightarrow> ov_keys ov = Some ks \<Longrightarrow> ks d = Some k \<Longrightarrow>
      \<exists>mp. map_of (lc_graph (ctx_of I f0)) d = Some mp \<and> pkg_key I f0 mp = Some k"
    and ovl: "\<And>ov. ovo = Some ov \<Longrightarrow> lc_ok (in_senv I) (ov_lc ov) \<and> lc_fixed (ov_lc ov) = lc_fixed (ctx_of I f0)"
    and an: "sp_analyze sp \<noteq> [] \<Longrightarrow> in_analyze I om rs = Inr (fresh, nodes)"
    and fr: "\<forall>pid\<in>fst ` set (sp_analyze sp). map_of fr pid = Some (truth I f0 ad pid)"
    and st: "store_run I sp ovo nodes fr s = (s', n)"
  shows "adds (\<lambda>k e. root_write I f0 ad k e \<or> dep_write I f0 (fst ` set (sp_analyze sp)) k e) s s'"
proof -
  let ?W = "\<lambda>k e. root_write I f0 ad k e \<or> dep_write I f0 (fst ` set (sp_analyze sp)) k e"
  let ?cap = "map_option (\<lambda>ov. captured nodes) ovo" and ?pids = "map fst (in_ord I 6 (sp_analyze sp))"
  let ?s1 = "writeL0Entries put (sp_keys sp) (root_entry (in_stable I) fr ?cap) ?pids s"
  have pids: "set ?pids = fst ` set (sp_analyze sp)" using mset_eq_setD [of "in_ord I 6 (sp_analyze sp)" "sp_analyze sp"] order by simp
  have made: "made I pid (root_entry (in_stable I) fr ?cap pid)" if p: "pid \<in> set ?pids" for pid
  proof -
    have ne: "sp_analyze sp \<noteq> []" using p pids by auto
    then have off: "ovo = None \<Longrightarrow> \<not> in_depOverride I"
      using ov L0 lc by (auto simp: overrides_of_def dep_override_on_def split: if_splits prod.splits option.splits)
    show ?thesis
    proof (cases ovo)
      case None
      then show ?thesis using off by (simp add: made_def root_entry_def Let_def)
    next
      case (Some o')
      show ?thesis
      proof (cases "captured nodes pid")
        case None
        then have "\<exists>ov rs fresh nodes. in_analyze I ov rs = Inr (fresh, nodes) \<and> pid \<notin> nd_PackageID ` set nodes"
          using an [OF ne] captured_None by blast
        then show ?thesis using None Some by (simp add: made_def root_entry_def Let_def)
      next
        case nd: (Some nd)
        then show ?thesis
          using Some capturedD [OF nd] by (intro made_node [OF an [OF ne], of nd]) (simp_all add: root_entry_def Let_def)
      qed
    qed
  qed
  have roots: "adds ?W s ?s1"
  proof (rule writeL0Entries_adds)
    fix pid k assume p: "pid \<in> set ?pids" and k: "sp_keys sp pid = Some k"
    from keys [OF k] obtain mp where mp: "(pid, mp) \<in> set (analysis_roots I f0)" "pkg_key I f0 mp = Some k" by blast
    have "l0Diagnostics (root_entry (in_stable I) fr ?cap pid) = truth I f0 ad pid"
      using fr p unfolding pids by (auto simp: root_entry_def Let_def split: option.splits)
    then show "length k = 32 \<and> ?W k (root_entry (in_stable I) fr ?cap pid)"
      using mp made [OF p] pkg_key_length [OF mp(2)] by (auto simp: root_write_def)
  qed
  show ?thesis
  proof (cases ovo)
    case None
    then show ?thesis using st L0 roots by (simp add: store_run_def Let_def)
  next
    case (Some o')
    have ne: "sp_analyze sp \<noteq> []"
      using ov L0 lc Some by (auto simp: overrides_of_def dep_override_on_def split: if_splits prod.splits option.splits)
    let ?dk = "case ov_keys o' of Some ks \<Rightarrow> ks | None \<Rightarrow> computeAllDepKeys I (ov_lc o') (sp_analyze sp)"
    have dk: "\<exists>mp. map_of (lc_graph (ctx_of I f0)) d = Some mp \<and> pkg_key I f0 mp = Some k" if d: "?dk d = Some k" for d k
    proof (cases "ov_keys o'")
      case (Some ks)
      then show ?thesis using ovk [OF \<open>ovo = Some o'\<close> Some] d by simp
    next
      case None
      let ?deps = "in_ord I 8 (collectDepClosure (lc_graph (ov_lc o')) (sp_analyze sp))"
      note l = ovl [OF \<open>ovo = Some o'\<close>]
      have g: "lc_graph (ov_lc o') = lc_graph (ctx_of I f0)" using lc_fixed_eqD(1) l by blast
      have "graph_ok (lc_graph (ov_lc o'))" using l by (simp add: lc_ok_def)
      from dep_closure_known [OF this, of "sp_analyze sp"] have kn: "known_in (lc_graph (ov_lc o')) ?deps"
        using mset_eq_setD [of ?deps] order by (simp add: known_in_def)
      obtain lc' ks where c: "compute_keys (in_senv I) (ov_lc o') ?deps = (lc', ks)" by fastforce
      have "(d, k) \<in> set ks" using d None c by (auto simp: computeAllDepKeys_def dest: map_of_SomeD)
      from compute_keys_exact [OF _ kn c this] obtain mp where "(d, mp) \<in> set ?deps"
        "map_option ComputeKey (parts_spec (in_senv I) (ov_lc o') mp) = Some k" using l by blast
      then show ?thesis using kn g pkg_key_fixed [of "ov_lc o'" I f0 mp] l by (auto simp: known_in_def)
    qed
    have w: "writeDepL0Entries put ?dk (in_stable I) (fst ` set (sp_analyze sp)) (captured_nodes nodes) ?s1 = (s', n)"
      using st L0 Some by (simp add: store_run_def Let_def)
    have "adds ?W ?s1 s'"
    proof (rule writeDepL0Entries_adds [OF _ w])
      fix pid nd k assume x: "(pid, nd) \<in> set (captured_nodes nodes)" "pid \<notin> fst ` set (sp_analyze sp)" "?dk pid = Some k"
      from dk [OF x(3)] obtain mp where mp: "map_of (lc_graph (ctx_of I f0)) pid = Some mp" "pkg_key I f0 mp = Some k" by blast
      have "made I pid (facts_entry (in_stable I) nd)"
        using captured_nodesD [OF x(1)] by (intro made_node [OF an [OF ne], of nd]) (simp_all add: facts_entry_def)
      then have "dep_write I f0 (fst ` set (sp_analyze sp)) k (facts_entry (in_stable I) nd)"
        using mp x(2) by (auto simp: dep_write_def facts_entry_def)
      then show "length k = 32 \<and> ?W k (facts_entry (in_stable I) nd)" using pkg_key_length [OF mp(2)] by blast
    qed
    then show ?thesis using roots adds_trans by blast
  qed
qed

end


subsection \<open>The whole run\<close>

lemma map_of_by_key: "pid \<in> set ids \<Longrightarrow> map_of (map (\<lambda>p. (p, h p)) ids) pid = Some (h pid)"
  by (induction ids) auto

lemma fresh_map:
  assumes "mset (in_ord I 5 analyzed) = mset analyzed" "pid \<in> fst ` set analyzed"
    and "\<forall>pid\<in>fst ` set analyzed. raw_of I allPkgs analyzed fresh pid = ad pid" "raw_of I allPkgs analyzed fresh [] = []"
  shows "map_of (map (\<lambda>(pid, ds). (pid, canonicalizeDiagnostics (in_uri I) (uri_paths I) ds)) (by_package I f0 allPkgs analyzed fresh)) pid
    = Some (truth I f0 ad pid)"
proof -
  have p: "pid \<in> set (map fst (in_ord I 5 analyzed))" using assms(2) mset_eq_setD [OF assms(1)] by simp
  have "map (\<lambda>(pid, ds). (pid, canonicalizeDiagnostics (in_uri I) (uri_paths I) ds)) (by_package I f0 allPkgs analyzed fresh)
      = map (\<lambda>p. (p, canonicalizeDiagnostics (in_uri I) (uri_paths I) (kept I f0 (raw_of I allPkgs analyzed fresh p)))) (map fst (in_ord I 5 analyzed))"
    using assms(4) by (simp add: by_package_def)
  then show ?thesis unfolding truth_def by (simp only: map_of_by_key [OF p] bspec [OF assms(3,2)])
qed

lemma roots_of_run:
  assumes "run_ok I f0 f ad good"
  shows "\<exists>f1. pruneExcludedRoots I (Some f) (in_ord I 2 (workspace_packages I))
      = (Some f1, filter (\<lambda>(pid, mp). \<not> fully_excluded I f0 mp) (in_ord I 2 (workspace_packages I)))
    \<and> filter_inv (in_fenv I) f0 f1
    \<and> mset (in_ord I 3 (filter (\<lambda>(pid, mp). \<not> fully_excluded I f0 mp) (in_ord I 2 (workspace_packages I)))) = mset (analysis_roots I f0)"
  using prune_exact [of I f0 f "in_ord I 2 (workspace_packages I)"] assms by (auto simp: run_ok_def analysis_roots_def)

lemma analysis_roots_facts:
  assumes "run_ok I f0 f ad good"
  shows "distinct (map fst (analysis_roots I f0))" "[] \<notin> fst ` set (analysis_roots I f0)"
    "set (analysis_roots I f0) \<subseteq> set (workspace_packages I)"
proof -
  show "set (analysis_roots I f0) \<subseteq> set (workspace_packages I)" by (auto simp: analysis_roots_def)
  then show "[] \<notin> fst ` set (analysis_roots I f0)" using assms by (auto simp: run_ok_def)
  show "distinct (map fst (analysis_roots I f0))" unfolding analysis_roots_def by (rule distinct_map_filter [OF workspace_distinct])
qed

lemma roots_known:
  assumes "run_ok I f0 f ad good" "in_all I = Inr mps"
  shows "known_in (lc_graph (ctx_of I f0)) (analysis_roots I f0)"
  using assms analysis_roots_facts(3) [OF assms(1)] by (auto simp: run_ok_def known_in_def ctx_of_def)

text \<open>From a successful analysis on, a run is the same with and without a cache.\<close>

lemma analyzed_part:
  assumes ok: "run_ok I f0 f ad good" and sub: "set an \<subseteq> set (analysis_roots I f0)" and dist: "distinct (map fst an)"
    and ov: "\<And>d x. om d = Some x \<Longrightarrow> good d x" and f1: "filter_inv (in_fenv I) f0 f1"
    and a: "(if an = [] then Inr ([], []) else in_analyze I om an) = Inr (fresh, nodes)"
  shows "\<exists>f2 fr. partitionAndFilter I (Some f1) (workspace_packages I) an fresh = Some (Some f2, fr)
    \<and> filter_inv (in_fenv I) f0 f2
    \<and> (\<forall>pid\<in>fst ` set an. map_of (map (\<lambda>(pid, ds). (pid, canonicalizeDiagnostics (in_uri I) (uri_paths I) ds)) fr) pid = Some (truth I f0 ad pid))
    \<and> mset (concat (map snd (in_ords I (map (\<lambda>(pid, ds). (pid, canonicalizeDiagnostics (in_uri I) (uri_paths I) ds)) fr))))
       = (\<Sum>(pid, mp)\<in>#mset an. mset (truth I f0 ad pid))"
proof -
  have n: "nolint f0 \<noteq> None" and o5: "mset (in_ord I 5 an) = mset an" and os: "\<forall>x. mset (in_ords I x) = mset x"
    and dr: "driver_ok I f0 ad good" using ok by (simp_all add: run_ok_def)
  have ne: "[] \<notin> fst ` set an" using analysis_roots_facts(2) [OF ok] sub by blast
  have "attributed I ad an fresh"
  proof (cases "an = []")
    case True
    then show ?thesis using a by (simp add: attributed_def)
  next
    case False
    then have "in_analyze I om an = Inr (fresh, nodes)" using a by simp
    then show ?thesis using dr sub ov unfolding driver_ok_def by blast
  qed
  note raw = attributed_raw [OF this ne]
  obtain f2 where "partitionAndFilter I (Some f1) (workspace_packages I) an fresh = Some (Some f2, by_package I f0 (workspace_packages I) an fresh)"
    "filter_inv (in_fenv I) f0 f2" using partition_exact_lemma [OF f1 n o5 dist ne] by blast
  then show ?thesis using fresh_map [OF o5 _ raw] fresh_sum [OF os o5 raw] by (intro exI conjI ballI) assumption+
qed

text \<open>What a run returns about the loaded packages, beside their diagnostics.\<close>

definition packages_of :: "ipResult \<Rightarrow> nat \<times> smap \<times> smap" where
  "packages_of res = (ip_PkgCount res, ip_UriPkg res, ip_PkgDirs res)"

definition loaded :: "'s engineIn \<Rightarrow> nat \<times> smap \<times> smap" where
  "loaded I = (if workspace_packages I = [] then (0, [], [])
     else (length (workspace_packages I), uri_paths I, pkgDirsFor (se_path (in_senv I)) (in_ord I 1 (workspace_packages I)) []))"

text \<open>A workspace that does not open ends the run with the same error whatever the cache.\<close>

definition open_error :: "'s engineIn \<Rightarrow> string option" where
  "open_error I = (if \<not> in_snapshot I then Some ''workspace returned nil snapshot''
     else map_option (\<lambda>e. ''initialize workspace: '' @ e) (in_init I))"

lemma not_opened: "open_error I = Some e \<Longrightarrow> runInProcess I fo s = Some (fo, s, Inl e)"
  by (auto simp: open_error_def runInProcess_def split: if_splits)

lemma opened: "open_error I = None \<Longrightarrow> in_snapshot I \<and> in_init I = None"
  by (auto simp: open_error_def split: if_splits)

text \<open>The diagnostics of some packages.\<close>

abbreviation diags_of :: "'s engineIn \<Rightarrow> filter_state \<Rightarrow> (string \<Rightarrow> diagnostic list) \<Rightarrow> mgraph \<Rightarrow> diagnostic multiset" where
  "diags_of I f0 ad rs \<equiv> (\<Sum>(pid, mp)\<in>#mset rs. mset (truth I f0 ad pid))"

text \<open>The analysis of all roots fails: in whatever order they are listed.\<close>

definition analysis_fails :: "'s engineIn \<Rightarrow> filter_state \<Rightarrow> bool" where
  "analysis_fails I f0 \<longleftrightarrow> analysis_roots I f0 \<noteq> []
     \<and> (\<forall>rs. mset rs = mset (analysis_roots I f0) \<longrightarrow> (\<exists>e. in_analyze I Map.empty rs = Inl e))"

text \<open>When the driver fails on a part of the roots with good overrides, it fails on all of them without.\<close>

lemma driver_failure:
  assumes ok: "run_ok I f0 f ad good" and sub: "set an \<subseteq> set (analysis_roots I f0)" and ov: "\<And>d x. om d = Some x \<Longrightarrow> good d x"
    and fail: "an \<noteq> []" "in_analyze I om an = Inl e"
  shows "analysis_fails I f0"
proof -
  have "\<exists>e. in_analyze I Map.empty rs = Inl e" if m: "mset rs = mset (analysis_roots I f0)" for rs
  proof (cases "in_analyze I Map.empty rs")
    case (Inr x)
    have "set an \<subseteq> set rs" "set rs \<subseteq> set (analysis_roots I f0)" using mset_eq_setD [OF m] sub by simp_all
    moreover have "driver_ok I f0 ad good" using ok by (simp add: run_ok_def)
    ultimately have "\<exists>y. in_analyze I om an = Inr y" using sub ov Inr unfolding driver_ok_def by blast
    then show ?thesis using fail(2) by simp
  qed simp
  moreover have "analysis_roots I f0 \<noteq> []" using fail(1) sub by auto
  ultimately show ?thesis by (simp add: analysis_fails_def)
qed

text \<open>
  An outcome without the help of a cache: the error of an analysis of all roots, or their diagnostics.
\<close>

definition complete :: "'s engineIn \<Rightarrow> filter_state \<Rightarrow> (string \<Rightarrow> diagnostic list) \<Rightarrow> string + ipResult \<Rightarrow> bool" where
  "complete I f0 ad r \<longleftrightarrow>
     (case r of Inl e \<Rightarrow> \<exists>rs e'. e = ''analyze: '' @ e' \<and> mset rs = mset (analysis_roots I f0) \<and> rs \<noteq> [] \<and> in_analyze I Map.empty rs = Inl e'
       | Inr res \<Rightarrow> mset (ip_Diags res) = diags_of I f0 ad (analysis_roots I f0) \<and> packages_of res = loaded I \<and> \<not> analysis_fails I f0)"

text \<open>A run that looks nothing up: there is no cache, or its context cannot be built.\<close>

lemma cold_run:
  assumes ok: "run_ok I f0 f ad good" and op: "open_error I = None" and L0: "in_L0 I = None \<or> (\<exists>e. in_all I = Inl e)"
  shows "\<exists>f' r. runInProcess I (Some f) s = Some (Some f', s, r) \<and> filter_inv (in_fenv I) f0 f'
    \<and> complete I f0 ad r"
proof (cases "workspace_packages I = []")
  case True
  then show ?thesis using opened [OF op] ok
    by (simp add: runInProcess_def analysis_roots_def no_packages_def packages_of_def loaded_def run_ok_def analysis_fails_def complete_def)
next
  case False
  obtain f1 roots where p: "pruneExcludedRoots I (Some f) (in_ord I 2 (workspace_packages I)) = (Some f1, roots)"
    and f1: "filter_inv (in_fenv I) f0 f1" and m: "mset (in_ord I 3 roots) = mset (analysis_roots I f0)"
    using roots_of_run [OF ok] by blast
  let ?rs = "in_ord I 3 roots"
  have sp: "splitByL0 I (Some f1) s ?rs = (s, all_missed ?rs)"
    using L0 by (auto simp: splitByL0_def run_context_def newL0Context_def split: option.split)
  have ov: "overrides_of I (all_missed ?rs) s = (s, None)" by (simp add: overrides_of_def all_missed_def split: option.split)
  have w: "writeL0Entries put Map.empty en ids s = s" for put :: "'a l0put" and en ids by (induction ids) simp_all
  have st: "store_run I (all_missed ?rs) None nodes fr s = (s, 0)" for nodes fr
    by (simp add: store_run_def all_missed_def w split: option.split)
  have d: "distinct (map fst ?rs)" using analysis_roots_facts(1) [OF ok] m by (metis mset_map mset_eq_imp_distinct_iff)
  let ?a = "if ?rs = [] then Inr ([], []) else in_analyze I Map.empty ?rs"
  note simps = False p sp ov opened [OF op] and defs = runInProcess_def uri_paths_def [symmetric] Let_def packages_of_def loaded_def
  show ?thesis
  proof (cases ?a)
    case (Inl e)
    then have "?rs \<noteq> []" "in_analyze I Map.empty ?rs = Inl e" by (auto split: if_splits)
    then show ?thesis using m f1 simps by (auto simp: defs complete_def) (auto simp: all_missed_def)
  next
    case (Inr x)
    obtain fresh nodes where x: "?a = Inr (fresh, nodes)" using Inr by (cases x) simp
    have sub: "set ?rs \<subseteq> set (analysis_roots I f0)" using mset_eq_setD [OF m] by simp
    obtain f2 fr where a: "partitionAndFilter I (Some f1) (workspace_packages I) ?rs fresh = Some (Some f2, fr)" "filter_inv (in_fenv I) f0 f2"
      "mset (concat (map snd (in_ords I (map (\<lambda>(pid, ds). (pid, canonicalizeDiagnostics (in_uri I) (uri_paths I) ds)) fr))))
         = diags_of I f0 ad ?rs"
      using analyzed_part [OF ok sub d _ f1 x] by auto
    have "\<not> analysis_fails I f0"
    proof
      assume af: "analysis_fails I f0"
      then have "?rs \<noteq> []" using m by (metis analysis_fails_def mset_zero_iff)
      then show False using af m x unfolding analysis_fails_def by (metis sum.distinct(1))
    qed
    moreover have "sp_analyze (all_missed ?rs) = ?rs" "sp_cached (all_missed ?rs) = []" by (simp_all add: all_missed_def)
    then obtain res where "runInProcess I (Some f) s = Some (Some f2, s, Inr res)" "packages_of res = loaded I"
        "ip_Diags res = concat (map snd (in_ords I (map (\<lambda>(pid, ds). (pid, canonicalizeDiagnostics (in_uri I) (uri_paths I) ds)) fr)))"
      using a(1) x st simps by (cases "?rs = []") (simp_all add: defs)
    ultimately show ?thesis using a(2,3) m by (simp add: complete_def)
  qed
qed

context l0_store
begin

lemma adds_weaken:
  assumes "adds W s s'" "\<And>k e. length k = 32 \<Longrightarrow> stored s k = {} \<Longrightarrow> W k e \<Longrightarrow> W' k e"
  shows "adds W' s s'"
  using assms unfolding adds_def by (metis empty_iff)

lemma adds_same: "(\<And>k. length k = 32 \<Longrightarrow> stored s' k = stored s k) \<Longrightarrow> adds W s s'"
  by (simp add: adds_def)

text \<open>
  A run over an honest store: it ends in an error of the analysis, and then the analysis of all roots fails too, or it
  reports what it would report without the store but the diagnostics of some roots \<open>hs\<close> that the store hides.
\<close>

lemma warm_run:
  assumes ok: "run_ok I f0 f ad good" and op: "open_error I = None" and L0: "in_L0 I = Some (get, put)" "in_all I = Inr mps"
    and h: "honest_for stored I f0 ad good hid s"
  shows "\<exists>f' s' r. runInProcess I (Some f) s = Some (Some f', s', r) \<and> filter_inv (in_fenv I) f0 f'
    \<and> adds (\<lambda>k e. root_write I f0 ad k e \<or> dep_write I f0 (fst ` set (analysis_roots I f0)) k e) s s'
    \<and> (case r of Inl e \<Rightarrow> analysis_fails I f0
       | Inr res \<Rightarrow> packages_of res = loaded I \<and> (\<exists>hs. set hs \<subseteq> set (analysis_roots I f0) \<and> fst ` set hs \<subseteq> hid \<and> distinct (map fst hs)
           \<and> mset (ip_Diags res) + diags_of I f0 ad hs = diags_of I f0 ad (analysis_roots I f0)))"
proof (cases "workspace_packages I = []")
  case True
  then show ?thesis using opened [OF op] ok
    by (simp add: runInProcess_def analysis_roots_def no_packages_def adds_refl packages_of_def loaded_def run_ok_def)
next
  case False
  have order: "\<forall>n g. mset (in_ord I n g) = mset g" using ok by (simp add: run_ok_def)
  obtain f1 roots where p: "pruneExcludedRoots I (Some f) (in_ord I 2 (workspace_packages I)) = (Some f1, roots)"
    and f1: "filter_inv (in_fenv I) f0 f1" and m: "mset (in_ord I 3 roots) = mset (analysis_roots I f0)"
    using roots_of_run [OF ok] by blast
  have sr: "set (in_ord I 3 roots) = set (analysis_roots I f0)" using mset_eq_setD [OF m] .
  have d: "distinct (map fst (in_ord I 3 roots))" using analysis_roots_facts(1) [OF ok] m by (metis mset_map mset_eq_imp_distinct_iff)
  have kn: "known_in (lc_graph (ctx_of I f0)) (in_ord I 3 roots)" using roots_known [OF ok L0(2)] sr by (simp add: known_in_def)
  have rc: "run_context I (Some f1) = Inr (ctx_of I f0)" using run_context_ctx [OF L0(2) f1] .
  obtain s1 sp where sp: "splitByL0 I (Some f1) s (in_ord I 3 roots) = (s1, sp)" by fastforce
  have ht: "\<forall>pid mp k e. (pid, mp) \<in> set (in_ord I 3 roots) \<longrightarrow> pkg_key I f0 mp = Some k \<longrightarrow> e \<in> stored s k \<longrightarrow>
      l0Diagnostics e = truth I f0 ad pid \<or> l0Diagnostics e = [] \<and> pid \<in> hid"
    using h sr unfolding honest_for_def by blast
  note x = split_exact [OF L0(1) rc kn d sp ht]
  obtain lc where lc: "sp_lc sp = Some lc" "lc_ok (in_senv I) lc" "lc_fixed lc = lc_fixed (ctx_of I f0)" using x(7) by blast
  obtain s2 ovo where ov: "overrides_of I sp s1 = (s2, ovo)" by fastforce
  have hg: "\<forall>d mp k e. map_of (lc_graph (ctx_of I f0)) d = Some mp \<longrightarrow> pkg_key I f0 mp = Some k \<longrightarrow> e \<in> stored s1 k \<longrightarrow> good d (dep_entry I e)"
    using h x(1) pkg_key_length unfolding honest_for_def by metis
  note y = overrides_exact [OF L0(1) lc order ov hg]
  have s2: "stored s2 k = stored s k" if "length k = 32" for k using x(1) y(1) that by simp
  let ?om = "case ovo of None \<Rightarrow> Map.empty | Some ov \<Rightarrow> ov_map ov"
  have om: "\<And>d x. ?om d = Some x \<Longrightarrow> good d x" using y(2) by (auto split: option.splits)
  have sub: "set (sp_analyze sp) \<subseteq> set (analysis_roots I f0)" using x(2) sr by blast
  let ?a = "if sp_analyze sp = [] then Inr ([], []) else in_analyze I ?om (sp_analyze sp)"
  note simps = False p sp ov opened [OF op] and defs = runInProcess_def uri_paths_def [symmetric] Let_def packages_of_def loaded_def
  show ?thesis
  proof (cases ?a)
    case (Inl e)
    then have a: "sp_analyze sp \<noteq> []" "in_analyze I ?om (sp_analyze sp) = Inl e" by (auto split: if_splits)
    have "analysis_fails I f0" by (rule driver_failure [OF ok sub om a])
    moreover have "runInProcess I (Some f) s = Some (Some f1, s2, Inl (''analyze: '' @ e))" using Inl simps by (simp add: defs)
    moreover have "adds W s s2" for W using adds_same [OF s2] .
    ultimately show ?thesis using f1 by (intro exI conjI) (assumption | simp)+
  next
    case (Inr z)
    obtain fresh nodes where a: "?a = Inr (fresh, nodes)" using Inr by (cases z) simp
    obtain f2 fr where pf: "partitionAndFilter I (Some f1) (workspace_packages I) (sp_analyze sp) fresh = Some (Some f2, fr)"
      and f2: "filter_inv (in_fenv I) f0 f2"
      and mp: "\<forall>pid\<in>fst ` set (sp_analyze sp). map_of (map (\<lambda>(pid, ds). (pid, canonicalizeDiagnostics (in_uri I) (uri_paths I) ds)) fr) pid = Some (truth I f0 ad pid)"
      and sum: "mset (concat (map snd (in_ords I (map (\<lambda>(pid, ds). (pid, canonicalizeDiagnostics (in_uri I) (uri_paths I) ds)) fr))))
         = diags_of I f0 ad (sp_analyze sp)"
      using analyzed_part [OF ok sub x(3) om f1 a] by blast
    let ?fr = "map (\<lambda>(pid, ds). (pid, canonicalizeDiagnostics (in_uri I) (uri_paths I) ds)) fr"
    obtain s3 n where st: "store_run I sp ovo nodes ?fr s2 = (s3, n)" by fastforce
    obtain res where run: "runInProcess I (Some f) s = Some (Some f2, s3, Inr res)" "packages_of res = loaded I"
        "ip_Diags res = sp_cached sp @ concat (map snd (in_ords I ?fr))"
      using a pf st simps by (simp add: defs)
    have keys: "\<And>pid k. sp_keys sp pid = Some k \<Longrightarrow> \<exists>mp. (pid, mp) \<in> set (analysis_roots I f0) \<and> pkg_key I f0 mp = Some k"
      using x(5) sr by blast
    have an: "sp_analyze sp \<noteq> [] \<Longrightarrow> in_analyze I ?om (sp_analyze sp) = Inr (fresh, nodes)" using a by simp
    have "adds (\<lambda>k e. root_write I f0 ad k e \<or> dep_write I f0 (fst ` set (sp_analyze sp)) k e) s2 s3"
      by (rule store_run_adds [where om = ?om and rs = "sp_analyze sp" and fresh = fresh and nodes = nodes, OF L0(1) order _ _ ov])
        (use keys y(3,4) an mp st lc(1) in \<open>simp | blast\<close>)+
    then have "adds (\<lambda>k e. root_write I f0 ad k e \<or> dep_write I f0 (fst ` set (sp_analyze sp)) k e) s s3"
      using s2 unfolding adds_def by simp
    then have "adds (\<lambda>k e. root_write I f0 ad k e \<or> dep_write I f0 (fst ` set (analysis_roots I f0)) k e) s s3"
    proof (rule adds_weaken)
      fix k e assume k: "length k = 32" "stored s k = {}"
        and w: "root_write I f0 ad k e \<or> dep_write I f0 (fst ` set (sp_analyze sp)) k e"
      have "d \<notin> fst ` set (analysis_roots I f0)"
        if "map_of (lc_graph (ctx_of I f0)) d = Some mp" "d \<notin> fst ` set (sp_analyze sp)" "pkg_key I f0 mp = Some k" for d mp
      proof
        assume "d \<in> fst ` set (analysis_roots I f0)"
        then obtain mp' where r: "(d, mp') \<in> set (in_ord I 3 roots)" using sr by auto
        then have "mp' = mp" using kn that(1) by (auto simp: known_in_def)
        moreover have "(d, mp') \<notin> set (sp_analyze sp)" using that(2) by force
        ultimately show False using x(6) [OF r] that(3) k(2) by auto
      qed
      then show "root_write I f0 ad k e \<or> dep_write I f0 (fst ` set (analysis_roots I f0)) k e" using w unfolding dep_write_def by metis
    qed
    moreover obtain hs where "set hs \<subseteq> set (analysis_roots I f0)" "fst ` set hs \<subseteq> hid" "distinct (map fst hs)"
      "mset (sp_cached sp) + diags_of I f0 ad hs + diags_of I f0 ad (sp_analyze sp) = diags_of I f0 ad (analysis_roots I f0)"
      using x(4) unfolding m sr by blast
    then have "\<exists>hs. set hs \<subseteq> set (analysis_roots I f0) \<and> fst ` set hs \<subseteq> hid \<and> distinct (map fst hs)
           \<and> mset (ip_Diags res) + diags_of I f0 ad hs = diags_of I f0 ad (analysis_roots I f0)"
      using run(3) sum by (intro exI [of _ hs]) (simp add: ac_simps)
    ultimately show ?thesis using run(1,2) f2 by (intro exI conjI) (assumption | simp)+
  qed
qed

end

end
