(* ===== verification/EngineHistory.thy ===== *)
theory EngineHistory
  imports EngineProps
begin

text \<open>
  Runs over one cache directory, over time.  First what equal keys of two runs mean, then the transparency of the
  diagnostic cache: after any sequence of runs, a run reports what it would report without the cache, less the findings
  of the packages that an earlier run stored as mere dependencies.
\<close>

subsection \<open>What equal keys mean\<close>

text \<open>The analyzers of a run: the name, version and configuration salt of every analyzer of the plan, each once.\<close>

definition analyzer_rows :: "'s engineIn \<Rightarrow> (string \<times> string \<times> bytes) list" where
  "analyzer_rows I =
     map (\<lambda>a. (in_name I a, analyzerVersionFor (in_name I a) (in_look I a), configSaltFor (in_name I a) (in_look I a)))
       (first_pointers (in_plan I) [])"

definition analyzer_bytes :: "'s engineIn \<Rightarrow> bytes" where
  "analyzer_bytes I = concat (map analyzer_row (sort_key fst (analyzer_rows I)))"

lemma analyzer_set_hash:
  assumes "in_plan I \<noteq> []"
  shows "lc_analyzerSetHash (ctx_of I f0) = sha256 (analyzer_bytes I)"
proof -
  have "zip (map f xs) (zip (map g xs) (map h xs)) = map (\<lambda>a. (f a, g a, h a)) xs" for f :: "nat \<Rightarrow> string" and g :: "nat \<Rightarrow> string" and h :: "nat \<Rightarrow> bytes" and xs
    by (induction xs) simp_all
  then show ?thesis using assms by (simp add: ctx_of_def computeAnalyzerSetHash_def HashAnalyzerSet_def analyzer_bytes_def analyzer_rows_def Let_def)
qed

text \<open>
  Two packages, each in its own run, that agree: the identifier and the path, the files by base name and content hash,
  the transitive dependencies with metadata, each with its files, the analyzers with their versions and salts, every
  decision of the filter, the tool, the build environment and the version of Go.
\<close>

definition agree :: "'s engineIn \<Rightarrow> filter_state \<Rightarrow> package \<Rightarrow> 't engineIn \<Rightarrow> filter_state \<Rightarrow> package \<Rightarrow> bool" where
  "agree I1 f1 m1 I2 f2 m2 \<longleftrightarrow>
     (let g1 = lc_graph (ctx_of I1 f1); g2 = lc_graph (ctx_of I2 f2) in
     pID m1 = pID m2 \<and> pPkgPath m1 = pPkgPath m2 \<and> same_sources (in_senv I1) m1 (in_senv I2) m2
     \<and> set (dep_ids g1 m1) = set (dep_ids g2 m2)
     \<and> (\<forall>d\<in>set (dep_ids g1 m1). \<exists>p q. map_of g1 d = Some p \<and> map_of g2 d = Some q \<and> same_sources (in_senv I1) p (in_senv I2) q)
     \<and> mset (analyzer_rows I1) = mset (analyzer_rows I2)
     \<and> (\<forall>e d. drops e f1 d = drops e f2 d) \<and> uniqByLine f1 = uniqByLine f2
     \<and> in_toolVersion I1 = in_toolVersion I2 \<and> in_buildEnv I1 = in_buildEnv I2 \<and> in_goVersion I1 = in_goVersion I2)"

text \<open>Two of the byte strings the two keys are computed from collide.\<close>

definition run_clash :: "'s engineIn \<Rightarrow> filter_state \<Rightarrow> package \<Rightarrow> 't engineIn \<Rightarrow> filter_state \<Rightarrow> package \<Rightarrow> bool" where
  "run_clash I1 f1 m1 I2 f2 m2 \<longleftrightarrow>
     key_clash (in_senv I1) (ctx_of I1 f1) m1 (in_senv I2) (ctx_of I2 f2) m2
     \<or> collision sha256 (analyzer_bytes I1) (analyzer_bytes I2)
     \<or> collision sha256 (frames (digest_tokens f1)) (frames (digest_tokens f2))"

text \<open>
  A run has analyzers, with names and versions of lengths a Go program can hold and salts of 32 bytes, and the strings of
  its exclusion configuration are none of the section names of the digest.
\<close>

definition run_wf :: "'s engineIn \<Rightarrow> filter_state \<Rightarrow> bool" where
  "run_wf I f0 \<longleftrightarrow> in_plan I \<noteq> [] \<and> list_all analyzer_ok (analyzer_rows I) \<and> marker_free f0"

lemma covered_agree:
  assumes wf: "run_wf I1 f1" "run_wf I2 f2" and base: "basePath f1 = basePath f2"
    and c: "covered (in_senv I1) (ctx_of I1 f1) m1 (in_senv I2) (ctx_of I2 f2) m2" and free: "\<not> run_clash I1 f1 m1 I2 f2 m2"
  shows "agree I1 f1 m1 I2 f2 m2"
proof -
  have h: "lc_analyzerSetHash (ctx_of I1 f1) = lc_analyzerSetHash (ctx_of I2 f2)" "lc_filterConfigHash (ctx_of I1 f1) = lc_filterConfigHash (ctx_of I2 f2)"
    using c by (simp_all add: covered_def)
  have "sha256 (analyzer_bytes I1) = sha256 (analyzer_bytes I2)" using h(1) wf by (simp add: analyzer_set_hash run_wf_def)
  then have a: "mset (analyzer_rows I1) = mset (analyzer_rows I2)"
    using arow.rows_determined [of "analyzer_rows I1" "analyzer_rows I2"] wf free by (auto simp: run_wf_def run_clash_def analyzer_bytes_def)
  have "ConfigDigest (Some f1) = ConfigDigest (Some f2)" using h(2) by (simp add: ctx_of_def)
  then have "(\<forall>e d. drops e f1 d = drops e f2 d) \<and> uniqByLine f1 = uniqByLine f2"
    using same_digest_same_filter [of f1 f2] wf base free by (auto simp: run_wf_def run_clash_def)
  then show ?thesis using c a unfolding agree_def covered_def Let_def by (simp add: ctx_of_def)
qed

lemma ctx_graph_ok: "graph_ok (lc_graph (ctx_of I f0))"
  using ctx_ok [of "in_senv I" I f0] by (simp add: lc_ok_def)

lemma same_key_agree:
  assumes "run_wf I1 f1" "run_wf I2 f2" "basePath f1 = basePath f2"
    and "map_of (lc_graph (ctx_of I1 f1)) d1 = Some m1" "map_of (lc_graph (ctx_of I2 f2)) d2 = Some m2"
    and "env_ok (in_senv I1) (ctx_of I1 f1) m1" "env_ok (in_senv I2) (ctx_of I2 f2) m2"
    and "pkg_key I1 f1 m1 = Some k" "pkg_key I2 f2 m2 = Some k" "\<not> run_clash I1 f1 m1 I2 f2 m2"
  shows "agree I1 f1 m1 I2 f2 m2"
proof -
  obtain p q where p: "parts_spec (in_senv I1) (ctx_of I1 f1) m1 = Some p" "ComputeKey p = k"
    and q: "parts_spec (in_senv I2) (ctx_of I2 f2) m2 = Some q" "ComputeKey q = k"
    using assms(8,9) by (auto simp: pkg_key_def)
  have "pID m1 = d1" "pID m2 = d2" using assms(4,5) ctx_graph_ok by (auto simp: graph_ok_def)
  then have "covered (in_senv I1) (ctx_of I1 f1) m1 (in_senv I2) (ctx_of I2 f2) m2"
    using parts_covered [OF _ _ assms(6,7) p(1) q(1)] assms(4,5,10) p(2) q(2) by (simp add: run_clash_def)
  from covered_agree [OF assms(1-3) this assms(10)] show ?thesis .
qed

text \<open>
  C8. A key covers its inputs.  When two packages of two runs have the same key, whatever the runs have looked up before,
  they agree in the identifier and path, in the files by base name and content hash, in the transitive dependencies with
  metadata and the files of each, in the analyzers with their versions and salts, in every decision of the exclusion
  filter, and in tool, build environment and version of Go; unless two of the hashed byte strings are an explicit SHA-256
  collision.  The configured strings of the filter must avoid the section names of its digest.
\<close>

theorem keyFor_covers:
  assumes "run_wf I1 f1" "run_wf I2 f2" "basePath f1 = basePath f2"
    and "map_of (lc_graph (ctx_of I1 f1)) (pID m1) = Some m1" "map_of (lc_graph (ctx_of I2 f2)) (pID m2) = Some m2"
    and "env_ok (in_senv I1) (ctx_of I1 f1) m1" "env_ok (in_senv I2) (ctx_of I2 f2) m2"
    and "lc_ok (in_senv I1) lc1" "lc_fixed lc1 = lc_fixed (ctx_of I1 f1)" "lc_ok (in_senv I2) lc2" "lc_fixed lc2 = lc_fixed (ctx_of I2 f2)"
    and "snd (keyFor (in_senv I1) lc1 (Some m1)) = Some k" "snd (keyFor (in_senv I2) lc2 (Some m2)) = Some k"
  shows "agree I1 f1 m1 I2 f2 m2 \<or> run_clash I1 f1 m1 I2 f2 m2"
proof -
  have "pkg_key I f m = snd (keyFor (in_senv I) lc (Some m))"
    if "map_of (lc_graph (ctx_of I f)) (pID m) = Some m" "lc_ok (in_senv I) lc" "lc_fixed lc = lc_fixed (ctx_of I f)" for I :: "'x engineIn" and f m lc
    using keyFor_parts [OF that(2), of m] that(1) pkg_key_fixed [OF that(3), of m] lc_fixed_eqD(1) [OF that(3)] by auto
  from this [OF assms(4,8,9)] this [OF assms(5,10,11)] show ?thesis
    using same_key_agree [OF assms(1-7), of k] assms(12,13) by auto
qed

subsection \<open>A history of runs\<close>

text \<open>
  A run with the filter it was configured with, the findings \<open>er_ad\<close> its analysis has for every root, and which facts
  \<open>er_good\<close> may stand in for the analysis of a dependency.
\<close>

record engineRun =
  er_in :: "(filesys \<times> Metrics) engineIn"
  er_f0 :: filter_state
  er_f :: filter_state
  er_ad :: "string \<Rightarrow> diagnostic list"
  er_good :: "string \<Rightarrow> l0DepEntry \<Rightarrow> bool"

abbreviation er_graph :: "engineRun \<Rightarrow> mgraph" where
  "er_graph x \<equiv> lc_graph (ctx_of (er_in x) (er_f0 x))"

abbreviation er_roots :: "engineRun \<Rightarrow> mgraph" where
  "er_roots x \<equiv> analysis_roots (er_in x) (er_f0 x)"

abbreviation er_truth :: "engineRun \<Rightarrow> string \<Rightarrow> diagnostic list" where
  "er_truth x \<equiv> truth (er_in x) (er_f0 x) (er_ad x)"

definition er_agree :: "engineRun \<Rightarrow> package \<Rightarrow> engineRun \<Rightarrow> package \<Rightarrow> bool" where
  "er_agree x m y n \<longleftrightarrow> agree (er_in x) (er_f0 x) m (er_in y) (er_f0 y) n"

text \<open>
  What is asked of one run: the contract of the analysis driver, a filter whose caches are right, iteration orders that
  are permutations, and strings of lengths a Go program can hold.  The workspace may fail to open, the metadata may be
  missing and the driver may fail.
\<close>

definition valid_run :: "engineRun \<Rightarrow> bool" where
  "valid_run x \<longleftrightarrow> run_ok (er_in x) (er_f0 x) (er_f x) (er_ad x) (er_good x) \<and> run_wf (er_in x) (er_f0 x)
     \<and> (\<forall>d m. map_of (er_graph x) d = Some m \<longrightarrow> env_ok (in_senv (er_in x)) (ctx_of (er_in x) (er_f0 x)) m)"

text \<open>
  What is asked of two runs: the analysis is a function of what the key is meant to cover.  Where a package of \<open>x\<close> agrees
  with one of \<open>y\<close>, both analyses report the same findings, which meet the same nolint comments and get the same canonical
  names, and the facts made in \<open>x\<close> may stand in for the analysis in \<open>y\<close>.  Whether the package is a root is not covered.
\<close>

definition same_analysis :: "engineRun \<Rightarrow> engineRun \<Rightarrow> bool" where
  "same_analysis x y \<longleftrightarrow> basePath (er_f0 x) = basePath (er_f0 y)
     \<and> (\<forall>p m q n. (p, m) \<in> set (er_roots x) \<longrightarrow> (q, n) \<in> set (er_roots y) \<longrightarrow> er_agree x m y n \<longrightarrow>
          er_ad x p = er_ad y q
          \<and> (\<forall>f. \<forall>d\<in>set (er_ad y q). drops (in_fenv (er_in x)) f d = drops (in_fenv (er_in y)) f d)
          \<and> (\<forall>ds. set ds \<subseteq> set (er_ad y q) \<longrightarrow>
               canonicalizeDiagnostics (in_uri (er_in x)) (uri_paths (er_in x)) ds = canonicalizeDiagnostics (in_uri (er_in y)) (uri_paths (er_in y)) ds))
     \<and> (\<forall>d m d' n e. map_of (er_graph x) d = Some m \<longrightarrow> map_of (er_graph y) d' = Some n \<longrightarrow> er_agree x m y n \<longrightarrow>
          made (er_in x) d e \<longrightarrow> er_good y d' (dep_entry (er_in y) e))"

definition er_clash :: "engineRun \<Rightarrow> engineRun \<Rightarrow> bool" where
  "er_clash x y \<longleftrightarrow> (\<exists>d m d' n. map_of (er_graph x) d = Some m \<and> map_of (er_graph y) d' = Some n
     \<and> run_clash (er_in x) (er_f0 x) m (er_in y) (er_f0 y) n)"

text \<open>The roots of \<open>y\<close> that agree with a package an earlier run met only as a dependency.\<close>

definition hidden :: "engineRun list \<Rightarrow> engineRun \<Rightarrow> string set" where
  "hidden xs y = {q. \<exists>x\<in>set xs. \<exists>m n. (q, n) \<in> set (er_roots y) \<and> map_of (er_graph x) q = Some m \<and> q \<notin> fst ` set (er_roots x) \<and> er_agree x m y n}"

definition runs_on :: "string \<Rightarrow> (L0Entry \<Rightarrow> bytes result) \<Rightarrow> (bytes \<Rightarrow> L0Entry result) \<Rightarrow> io \<Rightarrow> engineRun \<Rightarrow> bool" where
  "runs_on r genc gdec i x \<longleftrightarrow> in_L0 (er_in x) = Some (l0_get r gdec i, l0_put r genc i)"

text \<open>
  Runs over one cache directory, the latest first: a directory without entries, runs that may fail, each with its own
  failing system calls, and housekeeping that removes entries between runs.
\<close>

inductive engine_history ::
  "string \<Rightarrow> (L0Entry \<Rightarrow> bytes result) \<Rightarrow> (bytes \<Rightarrow> L0Entry result) \<Rightarrow> engineRun list \<Rightarrow> filesys \<times> Metrics \<Rightarrow> bool"
  for r genc gdec where
  fresh: "(\<And>k. l0_stored r gdec s k = {}) \<Longrightarrow> engine_history r genc gdec [] s"
| ran: "engine_history r genc gdec xs s \<Longrightarrow> runs_on r genc gdec i x \<Longrightarrow>
    runInProcess (er_in x) (Some (er_f x)) s = Some (fo, s', res) \<Longrightarrow> engine_history r genc gdec (x # xs) s'"
| removed: "engine_history r genc gdec xs s \<Longrightarrow> (\<And>k. length k = 32 \<Longrightarrow> l0_stored r gdec s' k \<subseteq> l0_stored r gdec s k) \<Longrightarrow>
    engine_history r genc gdec xs s'"

lemma kept_subset: "set (kept I f0 ds) \<subseteq> set ds"
  using uniq_first_subset [of file_line "{}" "filter (\<lambda>d. \<not> drops (in_fenv I) f0 d) ds"]
  by (auto simp: kept_def keep_spec_def Let_def)

lemma agree_truth:
  assumes "same_analysis x y" "(p, m) \<in> set (er_roots x)" "(q, n) \<in> set (er_roots y)" "er_agree x m y n"
  shows "er_truth x p = er_truth y q"
proof -
  have a: "er_ad x p = er_ad y q" "\<forall>f. \<forall>d\<in>set (er_ad y q). drops (in_fenv (er_in x)) f d = drops (in_fenv (er_in y)) f d"
    "\<And>ds. set ds \<subseteq> set (er_ad y q) \<Longrightarrow>
       canonicalizeDiagnostics (in_uri (er_in x)) (uri_paths (er_in x)) ds = canonicalizeDiagnostics (in_uri (er_in y)) (uri_paths (er_in y)) ds"
    using assms unfolding same_analysis_def by blast+
  have f: "drops e (er_f0 x) d = drops e (er_f0 y) d" "uniqByLine (er_f0 x) = uniqByLine (er_f0 y)" for e d
    using assms(4) by (simp_all add: er_agree_def agree_def Let_def)
  have "filter (\<lambda>d. \<not> drops (in_fenv (er_in x)) (er_f0 x) d) (er_ad y q) = filter (\<lambda>d. \<not> drops (in_fenv (er_in y)) (er_f0 y) d) (er_ad y q)"
    by (rule filter_cong) (use a(2) f(1) in auto)
  then have k: "kept (er_in x) (er_f0 x) (er_ad x p) = kept (er_in y) (er_f0 y) (er_ad y q)"
    unfolding kept_def keep_spec_def a(1) f(2) by simp
  have "set (kept (er_in y) (er_f0 y) (er_ad y q)) \<subseteq> set (er_ad y q)" by (rule kept_subset)
  from a(3) [OF this] show ?thesis unfolding truth_def k .
qed

lemma er_roots_in_graph:
  assumes "valid_run x" "in_all (er_in x) = Inr mps" "(p, m) \<in> set (er_roots x)"
  shows "map_of (er_graph x) p = Some m"
  using roots_known [OF _ assms(2)] assms(1,3) unfolding valid_run_def known_in_def by blast

lemma er_same_key:
  assumes "valid_run x" "valid_run y" "same_analysis x y" "\<not> er_clash x y"
    and "map_of (er_graph x) d = Some m" "map_of (er_graph y) d' = Some n"
    and "pkg_key (er_in x) (er_f0 x) m = Some k" "pkg_key (er_in y) (er_f0 y) n = Some k"
  shows "er_agree x m y n"
proof -
  have "\<not> run_clash (er_in x) (er_f0 x) m (er_in y) (er_f0 y) n" using assms(4-6) unfolding er_clash_def by blast
  then show ?thesis
    unfolding er_agree_def using assms same_key_agree [of "er_in x" "er_f0 x" "er_in y" "er_f0 y" d m d' n k]
    by (simp add: valid_run_def same_analysis_def)
qed

definition er_honest :: "string \<Rightarrow> (bytes \<Rightarrow> L0Entry result) \<Rightarrow> engineRun \<Rightarrow> string set \<Rightarrow> filesys \<times> Metrics \<Rightarrow> bool" where
  "er_honest r gdec y hid s \<longleftrightarrow> honest_for (l0_stored r gdec) (er_in y) (er_f0 y) (er_ad y) (er_good y) hid s"

lemma honest_adds:
  assumes x: "valid_run x" and y: "valid_run y" and c: "same_analysis x y" "\<not> er_clash x y"
    and all: "in_all (er_in x) = Inr mx" "in_all (er_in y) = Inr my"
    and h: "er_honest r gdec y (hidden xs y) s"
    and a: "l0s.adds r gdec (\<lambda>k e. root_write (er_in x) (er_f0 x) (er_ad x) k e
      \<or> dep_write (er_in x) (er_f0 x) (fst ` set (er_roots x)) k e) s s'"
  shows "er_honest r gdec y (hidden (x # xs) y) s'"
proof -
  let ?t = "er_truth y"
  have new: "e \<in> l0_stored r gdec s k \<or> root_write (er_in x) (er_f0 x) (er_ad x) k e
      \<or> dep_write (er_in x) (er_f0 x) (fst ` set (er_roots x)) k e" if "e \<in> l0_stored r gdec s' k" "length k = 32" for e k
    using a that unfolding l0s.adds_def by blast
  have old: "hidden xs y \<subseteq> hidden (x # xs) y" unfolding hidden_def list.set by blast
  have "l0Diagnostics e = ?t q \<or> l0Diagnostics e = [] \<and> q \<in> hidden (x # xs) y"
    if q: "(q, n) \<in> set (er_roots y)" "pkg_key (er_in y) (er_f0 y) n = Some k" "e \<in> l0_stored r gdec s' k" for q n k e
    using new [OF q(3) pkg_key_length [OF q(2)]]
  proof (elim disjE)
    assume "e \<in> l0_stored r gdec s k"
    then show ?thesis using h q(1,2) old unfolding er_honest_def honest_for_def by blast
  next
    assume "root_write (er_in x) (er_f0 x) (er_ad x) k e"
    then obtain p m where p: "(p, m) \<in> set (er_roots x)" "pkg_key (er_in x) (er_f0 x) m = Some k" "l0Diagnostics e = er_truth x p"
      unfolding root_write_def by blast
    have "er_agree x m y n"
      using er_same_key [OF x y c er_roots_in_graph [OF x all(1) p(1)] er_roots_in_graph [OF y all(2) q(1)] p(2) q(2)] .
    then show ?thesis using agree_truth [OF c(1) p(1) q(1)] p(3) by simp
  next
    assume "dep_write (er_in x) (er_f0 x) (fst ` set (er_roots x)) k e"
    then obtain d m where d: "map_of (er_graph x) d = Some m" "d \<notin> fst ` set (er_roots x)"
      "pkg_key (er_in x) (er_f0 x) m = Some k" "l0Diagnostics e = []" unfolding dep_write_def by blast
    have gq: "map_of (er_graph y) q = Some n" by (rule er_roots_in_graph [OF y all(2) q(1)])
    have ag: "er_agree x m y n" using er_same_key [OF x y c d(1) gq d(3) q(2)] .
    have "pID m = d" "pID n = q" using d(1) gq ctx_graph_ok by (auto simp: graph_ok_def)
    then have "d = q" using ag by (simp add: er_agree_def agree_def Let_def)
    then have "q \<in> hidden (x # xs) y" using d(1,2) q(1) ag by (auto simp: hidden_def)
    then show ?thesis using d(4) by simp
  qed
  moreover have "er_good y d' (dep_entry (er_in y) e)"
    if q: "map_of (er_graph y) d' = Some n" "pkg_key (er_in y) (er_f0 y) n = Some k" "e \<in> l0_stored r gdec s' k" for d' n k e
  proof (cases "e \<in> l0_stored r gdec s k")
    case True
    then show ?thesis using h q(1,2) unfolding er_honest_def honest_for_def by blast
  next
    case False
    then obtain d m where d: "map_of (er_graph x) d = Some m" "pkg_key (er_in x) (er_f0 x) m = Some k" "made (er_in x) d e"
      using new [OF q(3) pkg_key_length [OF q(2)]] er_roots_in_graph [OF x all(1)] unfolding root_write_def dep_write_def by blast
    have "er_agree x m y n" using er_same_key [OF x y c d(1) q(1) d(2) q(2)] .
    then show ?thesis using c(1) d(1,3) q(1) unfolding same_analysis_def by blast
  qed
  ultimately show ?thesis unfolding er_honest_def honest_for_def by blast
qed

lemma honest_mono:
  assumes "honest_for st I f0 ad good hid s" "\<And>k. length k = 32 \<Longrightarrow> st s' k \<subseteq> st s k" "hid \<subseteq> hid'"
  shows "honest_for st I f0 ad good hid' s'"
proof -
  have sub: "e \<in> st s k" if "pkg_key I f0 m = Some k" "e \<in> st s' k" for m k e
    using assms(2) [OF pkg_key_length [OF that(1)]] that(2) by blast
  show ?thesis
    unfolding honest_for_def
  proof (intro conjI allI impI)
    show "l0Diagnostics e = truth I f0 ad p \<or> l0Diagnostics e = [] \<and> p \<in> hid'"
      if "(p, m) \<in> set (analysis_roots I f0)" "pkg_key I f0 m = Some k" "e \<in> st s' k" for p m k e
      using assms(1,3) that(1,2) sub [OF that(2,3)] unfolding honest_for_def by blast
    show "good d (dep_entry I e)"
      if "map_of (lc_graph (ctx_of I f0)) d = Some m" "pkg_key I f0 m = Some k" "e \<in> st s' k" for d m k e
      using assms(1) that(1,2) sub [OF that(2,3)] unfolding honest_for_def by blast
  qed
qed

text \<open>What one run does to the store: nothing, or writes for its roots and dependencies.\<close>

lemma run_adds:
  assumes x: "valid_run x" and on: "runs_on r genc gdec i x" and g: "gob_roundtrip genc gdec"
    and h: "\<And>mps. in_all (er_in x) = Inr mps \<Longrightarrow> er_honest r gdec x hid s"
    and run: "runInProcess (er_in x) (Some (er_f x)) s = Some (fo, s', res)"
  shows "s' = s \<or> (\<exists>mps. in_all (er_in x) = Inr mps) \<and> l0s.adds r gdec (\<lambda>k e. root_write (er_in x) (er_f0 x) (er_ad x) k e
      \<or> dep_write (er_in x) (er_f0 x) (fst ` set (er_roots x)) k e) s s'"
proof (cases "open_error (er_in x)")
  case (Some e)
  then show ?thesis using run by (simp add: not_opened)
next
  case None
  have ok: "run_ok (er_in x) (er_f0 x) (er_f x) (er_ad x) (er_good x)" using x by (simp add: valid_run_def)
  have L0: "in_L0 (er_in x) = Some (l0_get r gdec i, l0_put r (sound_enc gdec genc) i)"
    using on unfolding runs_on_def sound_enc_id [OF g] .
  show ?thesis
  proof (cases "in_all (er_in x)")
    case (Inl e)
    then show ?thesis using cold_run [OF ok None, of s] run by auto
  next
    case (Inr mps)
    then show ?thesis using l0s.warm_run [OF ok None L0 Inr h [unfolded er_honest_def, OF Inr]] run by auto
  qed
qed

text \<open>Runs that are each valid, analyze alike and do not collide.\<close>

definition family :: "engineRun set \<Rightarrow> bool" where
  "family S \<longleftrightarrow> (\<forall>x\<in>S. valid_run x) \<and> (\<forall>x\<in>S. \<forall>y\<in>S. same_analysis x y \<and> \<not> er_clash x y)"

lemma family_mono: "family S \<Longrightarrow> T \<subseteq> S \<Longrightarrow> family T"
  unfolding family_def by blast

lemma history_honest:
  assumes "engine_history r genc gdec xs s" "gob_roundtrip genc gdec" "family (insert y (set xs))" "in_all (er_in y) = Inr my"
  shows "er_honest r gdec y (hidden xs y) s"
  using assms(1,3,4)
proof (induction arbitrary: y my rule: engine_history.induct)
  case (fresh s)
  then show ?case by (simp add: er_honest_def honest_for_def)
next
  case (ran xs s i x fo s' res)
  have fx: "family (insert x (set xs))" "family (insert y (set xs))" using family_mono [OF ran.prems(1)] by auto
  have v: "valid_run x" "valid_run y" "same_analysis x y" "\<not> er_clash x y" using ran.prems(1) by (simp_all add: family_def)
  have old: "er_honest r gdec y (hidden xs y) s" by (rule ran.IH [OF fx(2) ran.prems(2)])
  have "s' = s \<or> (\<exists>mps. in_all (er_in x) = Inr mps) \<and> l0s.adds r gdec (\<lambda>k e. root_write (er_in x) (er_f0 x) (er_ad x) k e
      \<or> dep_write (er_in x) (er_f0 x) (fst ` set (er_roots x)) k e) s s'"
    by (rule run_adds [OF v(1) ran.hyps(2) assms(2) ran.IH [OF fx(1)] ran.hyps(3)])
  then show ?case
  proof (elim disjE conjE exE)
    assume "s' = s"
    then show ?thesis using honest_mono [OF old [unfolded er_honest_def], of s "hidden (x # xs) y"] by (auto simp: er_honest_def hidden_def)
  next
    fix mps assume "in_all (er_in x) = Inr mps" and a: "l0s.adds r gdec (\<lambda>k e. root_write (er_in x) (er_f0 x) (er_ad x) k e
      \<or> dep_write (er_in x) (er_f0 x) (fst ` set (er_roots x)) k e) s s'"
    then show ?thesis using honest_adds [OF v _ ran.prems(2) old a] by blast
  qed
next
  case (removed xs s s')
  then show ?case using honest_mono [of "l0_stored r gdec" _ _ _ _ "hidden xs y" s s' "hidden xs y"] unfolding er_honest_def by blast
qed

lemma without_cache:
  "workspace_packages (I\<lparr>in_L0 := c\<rparr>) = workspace_packages I" "analysis_roots (I\<lparr>in_L0 := c\<rparr>) f0 = analysis_roots I f0"
  "truth (I\<lparr>in_L0 := c\<rparr>) f0 ad = truth I f0 ad" "loaded (I\<lparr>in_L0 := c\<rparr>) = loaded I" "run_ok (I\<lparr>in_L0 := c\<rparr>) f0 f ad good = run_ok I f0 f ad good"
  "open_error (I\<lparr>in_L0 := c\<rparr>) = open_error I" "analysis_fails (I\<lparr>in_L0 := c\<rparr>) f0 = analysis_fails I f0"
  "complete (I\<lparr>in_L0 := c\<rparr>) f0 ad r = complete I f0 ad r"
proof -
  show w: "workspace_packages (I\<lparr>in_L0 := c\<rparr>) = workspace_packages I" by (simp add: workspace_packages_def)
  have "fully_excluded (I\<lparr>in_L0 := c\<rparr>) f0 = fully_excluded I f0" by (simp add: fully_excluded_def fun_eq_iff)
  then show a: "analysis_roots (I\<lparr>in_L0 := c\<rparr>) f0 = analysis_roots I f0" by (simp add: analysis_roots_def w)
  show t: "truth (I\<lparr>in_L0 := c\<rparr>) f0 ad = truth I f0 ad" by (simp add: truth_def uri_paths_def w kept_def fun_eq_iff)
  show l: "loaded (I\<lparr>in_L0 := c\<rparr>) = loaded I" by (simp add: loaded_def uri_paths_def w)
  have "attributed (I\<lparr>in_L0 := c\<rparr>) = attributed I" by (simp add: attributed_def w owner_of_def fun_eq_iff)
  then show "run_ok (I\<lparr>in_L0 := c\<rparr>) f0 f ad good = run_ok I f0 f ad good" by (simp add: run_ok_def driver_ok_def a w)
  show "open_error (I\<lparr>in_L0 := c\<rparr>) = open_error I" by (cases "in_init I") (simp_all add: open_error_def)
  show f: "analysis_fails (I\<lparr>in_L0 := c\<rparr>) f0 = analysis_fails I f0" by (simp add: analysis_fails_def a)
  show "complete (I\<lparr>in_L0 := c\<rparr>) f0 ad r = complete I f0 ad r" by (cases r) (simp_all add: complete_def t l a f)
qed

text \<open>
  The outcome \<open>r\<close> of a run with the cache against the outcome \<open>r'\<close> without it: unless the analysis failed without the cache,
  both fail with the same error, or both succeed with the same packages and the same diagnostics as multisets, less those of
  the roots \<open>hs\<close>.
\<close>

definition shows_less :: "engineRun \<Rightarrow> mgraph \<Rightarrow> string + ipResult \<Rightarrow> string + ipResult \<Rightarrow> bool" where
  "shows_less x hs r r' \<longleftrightarrow>
     (case r' of
        Inl e \<Rightarrow> r = Inl e \<or> (\<exists>e'. e = ''analyze: '' @ e')
      | Inr res' \<Rightarrow> \<exists>res. r = Inr res \<and> packages_of res = packages_of res'
          \<and> mset (ip_Diags res) + diags_of (er_in x) (er_f0 x) (er_ad x) hs = mset (ip_Diags res'))"

lemma run_pair:
  assumes g: "gob_roundtrip genc gdec" and h: "engine_history r genc gdec xs s" and on: "runs_on r genc gdec i x"
    and fam: "family (insert x (set xs))"
  shows "\<exists>f s' r f' r' hs. runInProcess (er_in x) (Some (er_f x)) s = Some (Some f, s', r)
    \<and> runInProcess ((er_in x)\<lparr>in_L0 := None\<rparr>) (Some (er_f x)) s = Some (Some f', s, r')
    \<and> filter_inv (in_fenv (er_in x)) (er_f0 x) f \<and> filter_inv (in_fenv (er_in x)) (er_f0 x) f'
    \<and> set hs \<subseteq> set (er_roots x) \<and> fst ` set hs \<subseteq> hidden xs x \<and> distinct (map fst hs) \<and> shows_less x hs r r'"
proof (cases "open_error (er_in x)")
  case (Some e)
  have "filter_inv (in_fenv (er_in x)) (er_f0 x) (er_f x)" using fam by (simp add: family_def valid_run_def run_ok_def)
  then show ?thesis
    using not_opened [OF Some] not_opened [of "(er_in x)\<lparr>in_L0 := None\<rparr>" e] Some
    by (intro exI [of _ "er_f x"] exI [of _ s] exI [of _ "Inl e"] exI [of _ "[]"]) (simp add: without_cache shows_less_def)
next
  case op: None
  have ok: "run_ok (er_in x) (er_f0 x) (er_f x) (er_ad x) (er_good x)" using fam by (simp add: family_def valid_run_def)
  have ok': "run_ok ((er_in x)\<lparr>in_L0 := None\<rparr>) (er_f0 x) (er_f x) (er_ad x) (er_good x)" using ok by (simp add: without_cache)
  obtain f' r' where c: "runInProcess ((er_in x)\<lparr>in_L0 := None\<rparr>) (Some (er_f x)) s = Some (Some f', s, r')"
    "filter_inv (in_fenv (er_in x)) (er_f0 x) f'"
    and cr: "complete (er_in x) (er_f0 x) (er_ad x) r'"
    using cold_run [OF ok', of s] op by (auto simp: without_cache)
  obtain f s' r hs where w: "runInProcess (er_in x) (Some (er_f x)) s = Some (Some f, s', r)" "filter_inv (in_fenv (er_in x)) (er_f0 x) f"
    "set hs \<subseteq> set (er_roots x)" "fst ` set hs \<subseteq> hidden xs x" "distinct (map fst hs)"
    and wr: "case r of Inl e \<Rightarrow> analysis_fails (er_in x) (er_f0 x) \<or> r' = Inl e
       | Inr res \<Rightarrow> packages_of res = loaded (er_in x)
           \<and> mset (ip_Diags res) + diags_of (er_in x) (er_f0 x) (er_ad x) hs = diags_of (er_in x) (er_f0 x) (er_ad x) (er_roots x)"
  proof (cases "in_all (er_in x)")
    case (Inl e)
    obtain f r where "runInProcess (er_in x) (Some (er_f x)) s = Some (Some f, s, r)" "filter_inv (in_fenv (er_in x)) (er_f0 x) f"
      "complete (er_in x) (er_f0 x) (er_ad x) r"
      using cold_run [OF ok op, of s] Inl by blast
    moreover have "analysis_fails (er_in x) (er_f0 x)"
      if "mset rs = mset (er_roots x)" "rs \<noteq> []" "in_analyze (er_in x) Map.empty rs = Inl e'" for rs e'
      by (rule driver_failure [OF ok _ _ that(2,3)]) (use mset_eq_setD [OF that(1)] in simp_all)
    ultimately show ?thesis using that [of f s r "[]"] by (auto simp: complete_def split: sum.splits)
  next
    case (Inr mps)
    have "in_L0 (er_in x) = Some (l0_get r gdec i, l0_put r (sound_enc gdec genc) i)" using on unfolding runs_on_def sound_enc_id [OF g] .
    from l0s.warm_run [OF ok op this Inr history_honest [OF h g fam Inr, unfolded er_honest_def]]
    obtain f s' r where a: "runInProcess (er_in x) (Some (er_f x)) s = Some (Some f, s', r)" "filter_inv (in_fenv (er_in x)) (er_f0 x) f"
      and b: "case r of Inl e \<Rightarrow> analysis_fails (er_in x) (er_f0 x)
       | Inr res \<Rightarrow> packages_of res = loaded (er_in x) \<and> (\<exists>hs. set hs \<subseteq> set (er_roots x) \<and> fst ` set hs \<subseteq> hidden xs x \<and> distinct (map fst hs)
           \<and> mset (ip_Diags res) + diags_of (er_in x) (er_f0 x) (er_ad x) hs = diags_of (er_in x) (er_f0 x) (er_ad x) (er_roots x))" by blast
    show ?thesis
    proof (cases r)
      case (Inl e)
      then show ?thesis using that [OF a, of "[]"] b by simp
    next
      case (Inr res)
      then show ?thesis using that [OF a] b by auto
    qed
  qed
  have "shows_less x hs r r'"
    using cr wr by (auto simp: shows_less_def complete_def split: sum.splits)
  then show ?thesis using w c by blast
qed


subsection \<open>A concrete engine run\<close>

definition eng_pkg :: package where
  "eng_pkg = \<lparr>pID = ''p'', pPkgPath = ''m/p'', pForTest = [], CompiledGoFiles = [''/m/p.go''], pGoFiles = [], DepsByPkgPath = []\<rparr>"

definition eng_finding :: lspDiagnostic where
  "eng_finding = \<lparr>ld_Path = ''/m/p.go'', ld_Line = 1, ld_Character = 2, ld_Severity = LspOther, ld_Source = ''vet'', ld_Message = ''bad'',
     ld_Related = []\<rparr>"

definition eng_base :: "(filesys \<times> Metrics) engineIn" where
  "eng_base =
     \<lparr>in_snapshot = True, in_init = None, in_senv = \<lparr>se_hash = (\<lambda>u. Some (replicate 32 (CHR ''h''))), se_path = (\<lambda>u. u)\<rparr>, in_uri = (\<lambda>p. p), in_fenv = demo_env,
      in_all = Inr [Some eng_pkg], in_ws = [''p''], in_meta = (\<lambda>d. if d = ''p'' then Some eng_pkg else None), in_plan = [Some 0],
      in_name = (\<lambda>a. ''vet''), in_stable = (\<lambda>a. []), in_requires = [], in_look = (\<lambda>a. None), in_toolVersion = ''v'', in_buildEnv = ''linux/arm64/cgo0'',
      in_goVersion = ''go1.25'', in_depOverride = True,
      in_analyze = (\<lambda>ov rs. Inr (if rs = [] then [] else [Some eng_finding], [])),
      in_ord = (\<lambda>n g. g), in_ords = (\<lambda>x. x), in_L0 = None\<rparr>"

text \<open>A codec for the two entries of the example: what the run stores for \<open>p\<close> as a root, and as a dependency.\<close>

definition eng_stored :: L0Entry where
  "eng_stored = \<lparr>l0PackageID = ''p'', l0Diagnostics = truth eng_base demo_filter (\<lambda>d. [FromAnalysis (Some eng_finding)]) ''p'',
     l0Actions = Map.empty, l0Compiles = False\<rparr>"

definition eng_node :: l0NodeData where
  "eng_node = \<lparr>nd_PackageID = ''p'', nd_Compiles = True, nd_Actions = []\<rparr>"

definition eng_genc :: "L0Entry \<Rightarrow> bytes result" where
  "eng_genc e = (if e = eng_stored then Inr ''root'' else if e = facts_entry (\<lambda>a. []) eng_node then Inr ''dep'' else Inl ''unsupported'')"

definition eng_gdec :: "bytes \<Rightarrow> L0Entry result" where
  "eng_gdec b = (if b = ''root'' then Inr eng_stored else if b = ''dep'' then Inr (facts_entry (\<lambda>a. []) eng_node) else Inl ''corrupt'')"

lemma eng_gob: "gob_roundtrip eng_genc eng_gdec"
  by (simp add: gob_roundtrip_def eng_genc_def eng_gdec_def)

definition eng_in :: "(filesys \<times> Metrics) engineIn" where
  "eng_in = eng_base\<lparr>in_L0 := Some (l0_get ''/c'' eng_gdec quiet_io, l0_put ''/c'' eng_genc quiet_io)\<rparr>"

definition eng_run :: engineRun where
  "eng_run = \<lparr>er_in = eng_in, er_f0 = demo_filter, er_f = demo_filter, er_ad = (\<lambda>d. [FromAnalysis (Some eng_finding)]), er_good = (\<lambda>d x. True)\<rparr>"

lemma eng_workspace: "workspace_packages eng_in = [(''p'', eng_pkg)]"
  by (simp add: workspace_packages_def dropTestSupersededPackages_def in_package_test_def graph_of_def eng_in_def eng_base_def eng_pkg_def)

lemma eng_graph: "lc_graph (ctx_of eng_in demo_filter) = [(''p'', eng_pkg)]"
  by (simp add: ctx_of_def graph_of_def eng_in_def eng_base_def eng_pkg_def)

lemma eng_owner: "owner_of eng_in (workspace_packages eng_in) (FromAnalysis (Some eng_finding)) = Some ''p''"
  unfolding eng_workspace by (simp add: owner_of_def uriPkgMap_def eng_in_def eng_base_def eng_pkg_def FromAnalysis_def eng_finding_def lsp_position_def)

lemma eng_roots: "analysis_roots eng_in demo_filter = [(''p'', eng_pkg)]"
proof -
  have "\<not> file_excluded demo_env demo_filter ''/m/p.go''" by code_simp
  then have "\<not> fully_excluded eng_in demo_filter eng_pkg" by (simp add: fully_excluded_def eng_in_def eng_base_def eng_pkg_def)
  then show ?thesis by (simp add: analysis_roots_def eng_workspace)
qed

lemma eng_driver: "driver_ok eng_in demo_filter (\<lambda>d. [FromAnalysis (Some eng_finding)]) (\<lambda>d x. True)"
proof -
  have r: "set rs \<subseteq> {(''p'', eng_pkg)} \<Longrightarrow> rs \<noteq> [] \<Longrightarrow> fst ` set rs = {''p''}" for rs :: mgraph
    by (cases rs) auto
  have "set (analysis_roots eng_in demo_filter) \<subseteq> {(''p'', eng_pkg)}" by (simp add: eng_roots)
  moreover have "in_analyze eng_in ov rs = Inr (if rs = [] then [] else [Some eng_finding], [])" for ov rs by (simp add: eng_in_def eng_base_def)
  moreover have "attributed eng_in (\<lambda>d. [FromAnalysis (Some eng_finding)]) rs (if rs = [] then [] else [Some eng_finding])"
    if s: "set rs \<subseteq> {(''p'', eng_pkg)}" for rs
  proof (cases "rs = []")
    case False
    show ?thesis unfolding attributed_def r [OF s False] using False eng_owner by simp
  qed (simp add: attributed_def)
  ultimately have "in_analyze eng_in ov rs = Inr (fresh, nodes) \<Longrightarrow> attributed eng_in (\<lambda>d. [FromAnalysis (Some eng_finding)]) rs fresh"
    and "\<exists>y. in_analyze eng_in ov rs = Inr y" if "set rs \<subseteq> set (analysis_roots eng_in demo_filter)" for ov rs fresh nodes
    using that by auto
  then show ?thesis unfolding driver_ok_def by blast
qed

lemma eng_filter_inv: "filter_inv demo_env demo_filter demo_filter" "nolint demo_filter \<noteq> None"
  using NewFilter_caches_ok [OF demo_NewFilter] NewFilter_nolint [OF demo_NewFilter] by (simp_all add: filter_inv_def)

lemma eng_valid: "valid_run eng_run"
proof -
  have "\<forall>mps. in_all eng_in = Inr mps \<longrightarrow> known_in (graph_of mps) (workspace_packages eng_in)"
    unfolding eng_workspace by (simp add: eng_in_def eng_base_def graph_of_def known_in_def) (simp add: eng_pkg_def)
  then have ok: "run_ok eng_in demo_filter demo_filter (\<lambda>d. [FromAnalysis (Some eng_finding)]) (\<lambda>d x. True)"
    using eng_driver eng_filter_inv unfolding run_ok_def eng_workspace by (simp add: eng_in_def eng_base_def)
  have deps: "dep_ids [(''p'', eng_pkg)] eng_pkg = []"
    by (simp add: dep_ids_def collectClosure_def known_deps_def eng_pkg_def)
  have rows: "list_all pair_ok (pkg_rows (in_senv eng_in) eng_pkg)"
    by (simp add: pkg_rows_def eng_in_def eng_base_def eng_pkg_def pair_ok_def go_len_def Base_def)
  have "key_ok k" if k: "parts_spec (in_senv eng_in) (ctx_of eng_in demo_filter) eng_pkg = Some k" for k
  proof -
    have h: "length (HashFiles us hs) = 32" "length (HashDepClosure us hs) = 32" for us hs
      by (simp_all add: HashFiles_def HashDepClosure_def zero_digest_def)
    have "kpPackageID k = pID eng_pkg" "kpPackagePath k = pPkgPath eng_pkg" "kpToolVersion k = in_toolVersion eng_in"
      "kpBuildEnv k = in_buildEnv eng_in" "kpGoVersion k = in_goVersion eng_in" "length (kpSourceHash k) = 32" "length (kpDepHash k) = 32"
      "kpAnalyzerSetHash k = computeAnalyzerSetHash (in_name eng_in) (in_look eng_in) (Some (in_plan eng_in))"
      "kpFilterConfigHash k = ConfigDigest (Some demo_filter)"
      using k by (auto simp: parts_spec_def src_spec_def dep_spec_def h ctx_of_def split: option.splits)
    moreover have "length (computeAnalyzerSetHash (in_name eng_in) (in_look eng_in) (Some (in_plan eng_in))) = 32"
      by (simp add: computeAnalyzerSetHash_def HashAnalyzerSet_def zero_digest_def Let_def)
    ultimately show ?thesis
      by (simp add: key_ok_def key_parts_def) (simp add: go_len_def eng_in_def eng_base_def eng_pkg_def ConfigDigest_def)
  qed
  then have "env_ok (in_senv eng_in) (ctx_of eng_in demo_filter) eng_pkg"
    using deps rows by (simp add: env_ok_def eng_graph)
  moreover have "run_wf eng_in demo_filter"
    using demo_marker_free by (simp add: run_wf_def analyzer_rows_def eng_in_def eng_base_def analyzer_ok_def pair_ok_def configSaltFor_def
        analyzerVersionFor_def stubAnalyzerVersion_def go_len_def EngineCacheVersion_def itoa_def nat_digits.simps [of 0] nat_digits.simps [of 8])
  ultimately show ?thesis using ok by (simp add: valid_run_def eng_run_def eng_graph split: if_splits)
qed

lemma eng_graph_run: "map_of (er_graph eng_run) d = Some m \<longleftrightarrow> d = ''p'' \<and> m = eng_pkg"
  by (auto simp: eng_run_def eng_graph)

lemma eng_roots_run: "er_roots eng_run = [(''p'', eng_pkg)]"
  by (simp add: eng_run_def eng_roots)

lemma eng_family: "family {eng_run}"
proof -
  have "same_analysis eng_run eng_run" unfolding same_analysis_def eng_graph_run eng_roots_run by (simp add: eng_run_def)
  moreover have "\<not> er_clash eng_run eng_run"
    unfolding er_clash_def eng_graph_run run_clash_def key_clash_def
    by (auto simp: collision_def)
  ultimately show ?thesis by (simp add: family_def eng_valid)
qed

lemma eng_not_hidden: "hidden [eng_run] eng_run = {}"
  by (auto simp: hidden_def eng_graph_run eng_roots_run)

lemma eng_run_fields: "er_in eng_run = eng_in" "er_f eng_run = demo_filter" "runs_on ''/c'' eng_genc eng_gdec quiet_io eng_run"
  by (simp_all add: eng_run_def runs_on_def eng_in_def eng_base_def)

lemma eng_cold: "\<exists>f res. runInProcess (eng_in\<lparr>in_L0 := None\<rparr>) (Some demo_filter) s = Some (Some f, s, Inr res)"
proof -
  have ok: "run_ok (eng_in\<lparr>in_L0 := None\<rparr>) demo_filter demo_filter (er_ad eng_run) (er_good eng_run)"
    using eng_valid unfolding without_cache valid_run_def by (simp add: eng_run_def)
  have op: "open_error (eng_in\<lparr>in_L0 := None\<rparr>) = None" by (simp add: open_error_def eng_in_def eng_base_def)
  have "in_analyze eng_in ov rs \<noteq> Inl e" for ov rs e by (simp add: eng_in_def eng_base_def)
  then have "\<not> complete (eng_in\<lparr>in_L0 := None\<rparr>) demo_filter ad (Inl e)" for ad e by (simp add: complete_def)
  then show ?thesis using cold_run [OF ok op, of s] by (auto) (metis sum.exhaust)
qed

text \<open>A directory in which the example has run once.\<close>

lemma eng_history: "\<exists>s'. engine_history ''/c'' eng_genc eng_gdec [eng_run] s' \<and> (\<exists>fo res. runInProcess eng_in (Some demo_filter) (Map.empty, zeroMetrics) = Some (fo, s', Inr res))"
proof -
  have h0: "engine_history ''/c'' eng_genc eng_gdec [] (Map.empty, zeroMetrics)"
    by (rule engine_history.fresh) (simp add: l0_stored_def file_bodies_def)
  obtain f s' r f' r' hs where r: "runInProcess eng_in (Some demo_filter) (Map.empty, zeroMetrics) = Some (Some f, s', r)"
    and c: "runInProcess (eng_in\<lparr>in_L0 := None\<rparr>) (Some demo_filter) (Map.empty, zeroMetrics) = Some (Some f', (Map.empty, zeroMetrics), r')"
    and l: "shows_less eng_run hs r r'"
    using run_pair [OF eng_gob h0 eng_run_fields(3)] eng_family unfolding eng_run_fields(1,2) by auto
  have "\<exists>res. r' = Inr res" using eng_cold [of "(Map.empty, zeroMetrics)"] c by auto
  then have "\<exists>res. r = Inr res" using l by (auto simp: shows_less_def)
  then show ?thesis using engine_history.ran [OF h0 eng_run_fields(3), of "Some f" s' r] r by (intro exI [of _ s']) (auto simp: eng_run_fields(1,2))
qed

end
