(* ===== verification/EngineLaws.thy ===== *)
theory EngineLaws
  imports EngineHistory
begin

text \<open>
  The laws of the single steps of an in-process run: which packages have a key and what equal keys mean, how
  findings are attributed and filtered, which dependencies are served and stored, and what a stored entry for a
  dependency does to a later run in which the package is a root.
\<close>

lemma map_of_by_key': "map_of (map (\<lambda>p. (p, h p)) ids) pid = (if pid \<in> set ids then Some (h pid) else None)"
  by (induction ids) auto

text \<open>
  Findings are attributed and filtered per package.  Every package that was analyzed gets the findings in the
  files it owns, filtered as if it were the only package of the run; the findings that no analyzed package owns
  are filtered together, under the empty identifier.  Nothing else is returned, and the caches of the filter stay
  right.
\<close>

theorem partitionAndFilter_exact:
  assumes "filter_inv (in_fenv I) f0 f" "nolint f0 \<noteq> None"
    and "mset (in_ord I 5 analyzed) = mset analyzed" "distinct (map fst analyzed)" "[] \<notin> fst ` set analyzed"
  shows "\<exists>f' out. partitionAndFilter I (Some f) allPkgs analyzed fresh = Some (Some f', out)
    \<and> (\<forall>pid. map_of out pid =
         (if pid \<in> fst ` set analyzed
          then Some (kept I f0 (filter (\<lambda>d. owner_of I allPkgs d = Some pid) (map FromAnalysis fresh)))
          else if pid = [] \<and> (\<exists>d\<in>set fresh. \<forall>o'. owner_of I allPkgs (FromAnalysis d) = Some o' \<longrightarrow> o' \<notin> fst ` set analyzed)
          then Some (kept I f0 (filter (\<lambda>d. \<forall>o'. owner_of I allPkgs d = Some o' \<longrightarrow> o' \<notin> fst ` set analyzed) (map FromAnalysis fresh)))
          else None))
    \<and> distinct (map fst out) \<and> filter_inv (in_fenv I) f0 f'"
proof -
  let ?raw = "raw_of I allPkgs analyzed fresh" and ?A = "fst ` set analyzed"
  let ?none = "\<lambda>d. \<forall>o'. owner_of I allPkgs d = Some o' \<longrightarrow> o' \<notin> ?A"
  have b: "owner_bucket I allPkgs analyzed d = pid \<longleftrightarrow> owner_of I allPkgs d = Some pid" if "pid \<in> ?A" for d pid
    using that assms(5) by (auto simp: owner_bucket_def split: option.split)
  have b0: "owner_bucket I allPkgs analyzed d = [] \<longleftrightarrow> ?none d" for d
    using assms(5) by (force simp: owner_bucket_def split: option.split)
  have r: "?raw pid = filter (\<lambda>d. owner_of I allPkgs d = Some pid) (map FromAnalysis fresh)" if "pid \<in> ?A" for pid
    unfolding raw_of_def b [OF that] ..
  have r0: "?raw [] = filter ?none (map FromAnalysis fresh)" unfolding raw_of_def b0 ..
  have e: "?raw [] = [] \<longleftrightarrow> \<not> (\<exists>d\<in>set fresh. ?none (FromAnalysis d))" unfolding r0 by (auto simp: filter_empty_conv)
  have "set (map fst (in_ord I 5 analyzed)) = ?A" using mset_eq_setD [OF assms(3)] by simp
  then have m: "map_of (map (\<lambda>p. (p, h p)) (map fst (in_ord I 5 analyzed))) pid = (if pid \<in> ?A then Some (h pid) else None)" for h :: "string \<Rightarrow> diagnostic list" and pid
    using map_of_by_key' [of h "map fst (in_ord I 5 analyzed)" pid] by simp
  have "map_of (by_package I f0 allPkgs analyzed fresh) pid =
      (if pid \<in> ?A then Some (kept I f0 (?raw pid)) else if pid = [] \<and> ?raw [] \<noteq> [] then Some (kept I f0 (?raw [])) else None)" for pid
    unfolding by_package_def map_of_append map_add_def m by simp
  then have "map_of (by_package I f0 allPkgs analyzed fresh) pid =
         (if pid \<in> ?A
          then Some (kept I f0 (filter (\<lambda>d. owner_of I allPkgs d = Some pid) (map FromAnalysis fresh)))
          else if pid = [] \<and> (\<exists>d\<in>set fresh. ?none (FromAnalysis d))
          then Some (kept I f0 (filter ?none (map FromAnalysis fresh))) else None)" for pid
    unfolding e r0 [symmetric] using r [of pid] by simp
  moreover have "distinct (map fst (by_package I f0 allPkgs analyzed fresh))"
  proof -
    have "mset (map fst (in_ord I 5 analyzed)) = mset (map fst analyzed)" using assms(3) by simp
    then have "distinct (map fst (in_ord I 5 analyzed))" "[] \<notin> set (map fst (in_ord I 5 analyzed))"
      using assms(4,5) by (metis mset_eq_imp_distinct_iff, metis mset_eq_setD set_map)
    then show ?thesis by (simp add: by_package_def comp_def)
  qed
  ultimately show ?thesis using partition_exact_lemma [OF assms, of allPkgs fresh] by blast
qed

theorem partitionAndFilter_exact_witness:
  "\<exists>f' out. partitionAndFilter eng_in (Some demo_filter) [(''p'', eng_pkg)] [(''p'', eng_pkg)] [Some eng_finding] = Some (Some f', out)
     \<and> map_of out ''p'' = Some (kept eng_in demo_filter [FromAnalysis (Some eng_finding)]) \<and> map_of out [] = None"
proof -
  have o: "owner_of eng_in [(''p'', eng_pkg)] (FromAnalysis (Some eng_finding)) = Some ''p''" using eng_owner by (simp add: eng_workspace)
  have i: "in_fenv eng_in = demo_env" "in_ord eng_in 5 g = g" for g by (simp_all add: eng_in_def eng_base_def)
  show ?thesis
    using partitionAndFilter_exact [of eng_in demo_filter demo_filter "[(''p'', eng_pkg)]" "[(''p'', eng_pkg)]" "[Some eng_finding]"]
      eng_filter_inv by (auto simp: i o)
qed

subsection \<open>Keys\<close>

lemma eng_ctx_known: "map_of (lc_graph (ctx_of eng_in demo_filter)) (pID eng_pkg) = Some eng_pkg"
  unfolding eng_graph by (simp add: eng_pkg_def)

lemma keyFor_exists: "snd (keyFor (in_senv eng_in) (ctx_of eng_in demo_filter) (Some eng_pkg)) \<noteq> None"
  using keyFor_parts [OF ctx_ok eng_ctx_known, of "in_senv eng_in"]
  by (auto simp: parts_spec_def src_spec_def dep_spec_def eng_graph dep_ids_def collectClosure_def known_deps_def) (simp_all add: eng_in_def eng_base_def eng_pkg_def)

theorem keyFor_decides_witness: "snd (keyFor (in_senv eng_in) (ctx_of eng_in demo_filter) (Some eng_pkg)) \<noteq> None"
  using keyFor_decides [OF ctx_ok eng_ctx_known, of "in_senv eng_in"] unfolding eng_graph
  by (simp add: files_readable_def) (simp add: eng_in_def eng_base_def)

lemma eng_env_ok: "env_ok (in_senv eng_in) (ctx_of eng_in demo_filter) eng_pkg"
  using eng_valid unfolding valid_run_def eng_run_def by (auto simp: eng_graph)

theorem keyFor_covers_witness:
  "\<exists>lc k. keyFor (in_senv eng_in) (ctx_of eng_in demo_filter) (Some eng_pkg) = (lc, Some k) \<and> snd (keyFor (in_senv eng_in) lc (Some eng_pkg)) = Some k
     \<and> (agree eng_in demo_filter eng_pkg eng_in demo_filter eng_pkg \<or> run_clash eng_in demo_filter eng_pkg eng_in demo_filter eng_pkg)"
proof -
  let ?E = "in_senv eng_in" and ?c = "ctx_of eng_in demo_filter"
  obtain lc where lc: "keyFor ?E ?c (Some eng_pkg) = (lc, map_option ComputeKey (parts_spec ?E ?c eng_pkg))" "lc_ok ?E lc" "lc_fixed lc = lc_fixed ?c"
    using keyFor_parts [OF ctx_ok eng_ctx_known, of ?E] by blast
  obtain k where k: "map_option ComputeKey (parts_spec ?E ?c eng_pkg) = Some k" using keyFor_exists lc(1) by force
  have known: "map_of (lc_graph lc) (pID eng_pkg) = Some eng_pkg" unfolding lc_fixed_eqD(1) [OF lc(3)] by (rule eng_ctx_known)
  have again: "snd (keyFor ?E lc (Some eng_pkg)) = Some k" using keyFor_parts [OF lc(2) known] k unfolding parts_spec_fixed [OF lc(3)] by auto
  have wf: "run_wf eng_in demo_filter" using eng_valid by (simp add: valid_run_def eng_run_def)
  have "snd (keyFor ?E ?c (Some eng_pkg)) = Some k" using lc(1) k by simp
  from keyFor_covers [OF wf wf refl eng_ctx_known eng_ctx_known eng_env_ok eng_env_ok ctx_ok refl lc(2,3) this again]
  show ?thesis using lc(1) k again by auto
qed

subsection \<open>Dependencies\<close>

lemma set_map_filter: "set (List.map_filter h xs) = {y. \<exists>x\<in>set xs. h x = Some y}"
  by (induction xs) (auto simp: List.map_filter_simps split: option.splits)

lemma distinct_map_filter:
  assumes "\<forall>d x. h d = Some x \<longrightarrow> fst x = d"
  shows "distinct xs \<Longrightarrow> distinct (map fst (List.map_filter h xs))"
proof (induction xs)
  case (Cons d xs)
  have sub: "fst ` set (List.map_filter h xs) \<subseteq> set xs" unfolding set_map_filter using assms by fastforce
  show ?case
  proof (cases "h d")
    case (Some x)
    have "fst x = d" using assms Some by blast
    then have "fst x \<notin> fst ` set (List.map_filter h xs)" using sub Cons.prems by auto
    then show ?thesis using Cons Some by (simp add: List.map_filter_simps)
  qed (use Cons in \<open>simp add: List.map_filter_simps\<close>)
qed (simp add: List.map_filter_simps)

text \<open>
  The dependencies that are served from the cache and stored in it: every package of the graph that is reachable
  from a root, the roots excepted, each once; on every graph, cyclic ones included.
\<close>

theorem collectDepClosure_exact:
  "set (collectDepClosure g roots) = {(d, mp). d \<in> reachable (dep_edges g) (fst ` set roots) - fst ` set roots \<and> map_of g d = Some mp}
    \<and> distinct (map fst (collectDepClosure g roots))"
proof
  let ?w = "walk (dep_edges g) [] (map fst roots)"
  have w: "set ?w = reachable (dep_edges g) (fst ` set roots)" using walk_roots [of "dep_edges g" "map fst roots"] by simp
  show "set (collectDepClosure g roots) = {(d, mp). d \<in> reachable (dep_edges g) (fst ` set roots) - fst ` set roots \<and> map_of g d = Some mp}"
    unfolding collectDepClosure_def w [symmetric] unfolding set_map_filter by (auto split: option.splits if_splits)
  show "distinct (map fst (collectDepClosure g roots))"
    unfolding collectDepClosure_def by (rule distinct_map_filter) (auto simp: walk_distinct split: option.splits if_splits)
qed

text \<open>
  An entry that was written for a dependency holds no diagnostics, and is filed under the key that the package has
  as a root: a later run with the same key in which the package is a root is served the empty entry, analyzes
  nothing and reports nothing for it.
\<close>

theorem dep_entry_hides:
  assumes "gob_roundtrip genc gdec" "genc (facts_entry stab nd) = Inr b" "healthy i" "healthy j"
    and "nd_PackageID nd \<notin> roots" "depKeys (nd_PackageID nd) = Some k"
    and "file_bodies (fst s) (entryPath (store_root r) nsL0 k) = None"
    and "in_L0 I = Some (l0_get r gdec j, put)" "in_all I = Inr mps" "filter_inv e f0 f"
    and "map_of (graph_of mps) (pID mp) = Some mp" "pkg_key I f0 mp = Some k"
  shows "\<exists>s' s'' sp. writeDepL0Entries (l0_put r genc i) depKeys stab roots [(nd_PackageID nd, nd)] s = (s', 1)
    \<and> splitByL0 I (Some f) s' [(pID mp, mp)] = (s'', sp) \<and> sp_analyze sp = [] \<and> sp_hits sp = 1 \<and> sp_cached sp = []"
proof -
  let ?e = "facts_entry stab nd" and ?P = "entryPath (store_root r) nsL0 k"
  obtain s' err where s': "l0_put r genc i s k ?e = (s', err)" by fastforce
  obtain fs m where s: "s = (fs, m)" by (cases s)
  have put: "fst s' = fst (local_Put (store_root r) i fs nsL0 k b)" "err = None"
    using s' fst_L0_Put [of genc "local_Put (store_root r)" i fs m k ?e] assms(2) localb.put_total [OF assms(3), of r fs nsL0 k b]
    by (simp_all add: l0_put_def s L0_Put_def split: prod.splits)
  have "file_bodies (fst s') ?P = Some b"
    using localb.put_here [of r i fs nsL0 k b] localb.put_published [of r i fs nsL0 k b] localb.put_total [OF assms(3), of r fs nsL0 k b] assms(7)
    unfolding put(1) by (auto simp: s)
  then have "snd (local_Get (store_root r) j (fst s') nsL0 k) = Inr b" by (rule localb.get_complete [OF assms(4)])
  moreover have "gdec b = Inr ?e" using assms(1,2) by (simp add: gob_roundtrip_def)
  ultimately have hit: "snd (l0_get r gdec j s' k) = Inr ?e"
    unfolding l0_get_def by (cases s') (simp add: L0_Get_hit)
  let ?c = "ctx_of I f0"
  have c: "run_context I (Some f) = Inr ?c" "lc_graph ?c = graph_of mps" using run_context_ctx [OF assms(9,10)] assms(9) by (simp_all add: ctx_of_def)
  obtain lc' where lc': "keyFor (in_senv I) ?c (Some mp) = (lc', Some k)"
    using keyFor_parts [OF ctx_ok, of I f0 mp "in_senv I"] assms(11,12) c(2) by (auto simp: pkg_key_def)
  have rows: "lookup_rows (in_senv I) (l0_get r gdec j) ?c s' [(pID mp, mp)] = (lc', fst (l0_get r gdec j s' k), [(pID mp, mp, Some k, Some ?e)])"
    using hit by (cases "l0_get r gdec j s' k") (simp add: lc')
  have "splitByL0 I (Some f) s' [(pID mp, mp)] = (fst (l0_get r gdec j s' k),
      \<lparr>sp_analyze = [], sp_hits = 1, sp_keys = row_keys [(pID mp, mp, Some k, Some ?e)], sp_cached = [], sp_lc = Some lc'\<rparr>)"
    unfolding splitByL0_def by (simp del: lookup_rows.simps add: assms(8) c rows missed_def found_def List.map_filter_simps facts_entry_def)
  moreover have "writeDepL0Entries (l0_put r genc i) depKeys stab roots [(nd_PackageID nd, nd)] s = (s', 1)"
    using assms(5,6) s' put(2) by simp
  ultimately show ?thesis by simp
qed

theorem dep_entry_hides_witness:
  "\<exists>k s' s'' sp. pkg_key eng_in demo_filter eng_pkg = Some k
    \<and> writeDepL0Entries (l0_put ''/c'' eng_genc quiet_io) [''p'' \<mapsto> k] (\<lambda>a. []) {''q''} [(''p'', eng_node)] (Map.empty, zeroMetrics) = (s', 1)
    \<and> splitByL0 eng_in (Some demo_filter) s' [(''p'', eng_pkg)] = (s'', sp) \<and> sp_analyze sp = [] \<and> sp_cached sp = []"
proof -
  obtain k where k: "pkg_key eng_in demo_filter eng_pkg = Some k"
    using keyFor_parts [OF ctx_ok eng_ctx_known, of "in_senv eng_in"] keyFor_exists by (auto simp: pkg_key_def)
  have b: "eng_genc (facts_entry (\<lambda>a. []) eng_node) = Inr ''dep''" by (simp add: eng_genc_def facts_entry_def eng_stored_def eng_node_def)
  have n: "nd_PackageID eng_node = ''p''" "pID eng_pkg = ''p''" by (simp_all add: eng_node_def eng_pkg_def)
  have g: "map_of (graph_of [Some eng_pkg]) (pID eng_pkg) = Some eng_pkg" by (simp add: graph_of_def)
  have "\<exists>s' s'' sp. writeDepL0Entries (l0_put ''/c'' eng_genc quiet_io) [''p'' \<mapsto> k] (\<lambda>a. []) {''q''} [(nd_PackageID eng_node, eng_node)] (Map.empty, zeroMetrics) = (s', 1)
    \<and> splitByL0 eng_in (Some demo_filter) s' [(pID eng_pkg, eng_pkg)] = (s'', sp) \<and> sp_analyze sp = [] \<and> sp_hits sp = 1 \<and> sp_cached sp = []"
    by (rule dep_entry_hides [OF eng_gob b quiet_healthy quiet_healthy, where mps = "[Some eng_pkg]" and put = "l0_put ''/c'' eng_genc quiet_io"])
      (use k g eng_filter_inv(1) in \<open>simp_all add: n file_bodies_def eng_in_def eng_base_def\<close>)
  then show ?thesis using k unfolding n by blast
qed

end
