(* ===== verification/EngineRun.thy ===== *)
theory EngineRun
  imports EngineHistory Registry
begin

text \<open>
  The entry point of the engine (\<^verbatim>\<open>internal/engine/engine.go\<close>: \<^verbatim>\<open>Run\<close>, \<^verbatim>\<open>validateInput\<close>, \<^verbatim>\<open>runSubproc\<close>,
  \<^verbatim>\<open>wrapAnalyzers\<close> and the resolved cache keys) and the plan it derives from the registry
  (\<^verbatim>\<open>internal/engine/plan.go\<close>).

  A subprocess runner is its name and the outcome of running it to the end; \<open>ri_custom\<close> stands for
  \<^verbatim>\<open>subproc.NewCustomRunner\<close>.  The runners run concurrently: \<open>ri_done\<close> is the order in which they finish, an
  arbitrary permutation.
\<close>

subsection \<open>The plan\<close>

datatype planWarning = NoWrapper string | RegistryOnlySkipped string

record ('c, 'a) runPlan =
  pl_analyzers :: "(string \<times> 'a) list"
  pl_subproc :: "(string \<times> 'c) list"
  pl_warnings :: "planWarning list"

fun asCustomLinterSettings :: "'c Settings \<Rightarrow> 'c option" where
  "asCustomLinterSettings (CustomSettings c) = Some c"
| "asCustomLinterSettings _ = None"

definition plan_row :: "('c, 'a) Resolved \<Rightarrow> ('c, 'a) runPlan \<Rightarrow> ('c, 'a) runPlan" where
  "plan_row r plan =
     (case r_Shape r of
        ShapeSubprocess \<Rightarrow> plan\<lparr>pl_warnings := pl_warnings plan @ [NoWrapper (r_Name r)]\<rparr>
      | ShapeRegistryOnly \<Rightarrow>
          (case asCustomLinterSettings (r_Settings r) of
             Some cs \<Rightarrow> plan\<lparr>pl_subproc := pl_subproc plan @ [(r_Name r, cs)]\<rparr>
           | None \<Rightarrow> plan\<lparr>pl_warnings := pl_warnings plan @ [RegistryOnlySkipped (r_Name r)]\<rparr>)
      | ShapeFormatter \<Rightarrow> plan
      | _ \<Rightarrow>
          (case r_Analyzer r of
             None \<Rightarrow> plan
           | Some a \<Rightarrow> plan\<lparr>pl_analyzers := pl_analyzers plan @ [(r_Name r, a)]\<rparr>))"

definition planFromRegistry :: "('c, 'a) Registry option \<Rightarrow> ('c, 'a) runPlan" where
  "planFromRegistry ro =
     (let empty = \<lparr>pl_analyzers = [], pl_subproc = [], pl_warnings = []\<rparr>
      in case ro of None \<Rightarrow> empty | Some reg \<Rightarrow> fold plan_row (Enabled reg) empty)"



subsection \<open>Subprocess runners\<close>

record runner =
  rn_Name :: string
  rn_Run :: "diagnostic list result"

fun merge_runners :: "runner list \<Rightarrow> diagnostic list \<Rightarrow> diagnostic list result" where
  "merge_runners [] merged = Inr merged"
| "merge_runners (r # rs) merged =
     (case rn_Run r of
        Inl e \<Rightarrow> Inl (rn_Name r @ '': '' @ e)
      | Inr ds \<Rightarrow> merge_runners rs (merged @ ds))"

definition runSubproc :: "(runner list \<Rightarrow> runner list) \<Rightarrow> runner list \<Rightarrow> diagnostic list result" where
  "runSubproc done' runners = (if runners = [] then Inr [] else merge_runners (done' runners) [])"


subsection \<open>Run\<close>

record ('s, 'c) runInput =
  ri_HasConfig :: bool
  ri_Registry :: "('c, nat) Registry option"
  ri_ModuleRoot :: string
  ri_HasL1 :: bool
  ri_HasL2 :: bool
  ri_CacheToolVersion :: string
  ri_L2BuildEnv :: string
  ri_L2GoVersion :: string
  ri_goos :: string
  ri_goarch :: string
  ri_goVersion :: string
  ri_env :: "'s engineIn"
  ri_analyze :: "nat list \<Rightarrow> (string \<rightharpoonup> l0DepEntry) \<Rightarrow> mgraph \<Rightarrow> (lspDiagnostic option list \<times> l0NodeData list) result"
  ri_custom :: "string \<Rightarrow> 'c \<Rightarrow> runner"
  ri_extra :: "runner list"
  ri_done :: "runner list \<Rightarrow> runner list"






record RunOutput =
  ro_Diagnostics :: "diagnostic list"
  ro_InProcDiagnostics :: nat
  ro_SubprocDiagnostics :: nat
  ro_AnalyzerCount :: nat
  ro_SubprocRunnerCount :: nat
  ro_WorkspacePackageCount :: nat
  ro_Warnings :: "planWarning list"
  ro_PkgDirs :: smap

definition finish_run ::
  "('s, 'c) runInput \<Rightarrow> ('c, nat) runPlan \<Rightarrow> filter_state option \<Rightarrow> ipResult option \<Rightarrow> filter_state option \<times> (string + RunOutput)" where
  "finish_run R plan fo ip =
     (case runSubproc (ri_done R) (map (\<lambda>(n, c). ri_custom R n c) (pl_subproc plan) @ ri_extra R) of
        Inl e \<Rightarrow> (fo, Inl (''engine.Run: subprocess linters: '' @ e))
      | Inr subDiags \<Rightarrow>
          (let (fo', kept) = (if fo \<noteq> None \<and> subDiags \<noteq> [] then Apply (in_fenv (ri_env R)) fo subDiags else (fo, subDiags));
               named = (case ip of
                          None \<Rightarrow> kept
                        | Some res \<Rightarrow> if ip_UriPkg res \<noteq> [] \<and> kept \<noteq> [] then canonicalizeDiagnostics (in_uri (ri_env R)) (ip_UriPkg res) kept else kept);
               inProc = (case ip of None \<Rightarrow> [] | Some res \<Rightarrow> ip_Diags res)
           in (fo', Inr \<lparr>ro_Diagnostics = inProc @ named, ro_InProcDiagnostics = length inProc, ro_SubprocDiagnostics = length subDiags,
                ro_AnalyzerCount = length (pl_analyzers plan), ro_SubprocRunnerCount = length (pl_subproc plan),
                ro_WorkspacePackageCount = (case ip of None \<Rightarrow> 0 | Some res \<Rightarrow> ip_PkgCount res),
                ro_Warnings = pl_warnings plan, ro_PkgDirs = (case ip of None \<Rightarrow> [] | Some res \<Rightarrow> ip_PkgDirs res)\<rparr>)))"



subsection \<open>The plan of a resolved registry\<close>

definition native_of :: "('c, 'a) Resolved \<Rightarrow> (string \<times> 'a) option" where
  "native_of r = (if r_Shape r \<in> {ShapeNative, ShapeNativeFamily} then map_option (Pair (r_Name r)) (r_Analyzer r) else None)"

definition plugin_of :: "('c, 'a) Resolved \<Rightarrow> (string \<times> 'c) option" where
  "plugin_of r = (if r_Shape r = ShapeRegistryOnly then map_option (Pair (r_Name r)) (asCustomLinterSettings (r_Settings r)) else None)"

definition warning_of :: "('c, 'a) Resolved \<Rightarrow> planWarning option" where
  "warning_of r =
     (if r_Shape r = ShapeSubprocess then Some (NoWrapper (r_Name r))
      else if r_Shape r = ShapeRegistryOnly \<and> asCustomLinterSettings (r_Settings r) = None then Some (RegistryOnlySkipped (r_Name r))
      else None)"

lemma plan_row_parts:
  "plan_row r p =
     \<lparr>pl_analyzers = pl_analyzers p @ List.map_filter native_of [r], pl_subproc = pl_subproc p @ List.map_filter plugin_of [r],
      pl_warnings = pl_warnings p @ List.map_filter warning_of [r]\<rparr>"
  by (cases p) (auto simp: plan_row_def native_of_def plugin_of_def warning_of_def List.map_filter_simps split: Shape.split option.split)

lemma plan_rows:
  "fold plan_row rs p =
     \<lparr>pl_analyzers = pl_analyzers p @ List.map_filter native_of rs, pl_subproc = pl_subproc p @ List.map_filter plugin_of rs,
      pl_warnings = pl_warnings p @ List.map_filter warning_of rs\<rparr>"
  by (induction rs arbitrary: p) (simp_all add: plan_row_parts List.map_filter_def)

lemma plan_parts:
  "planFromRegistry (Some reg) =
     \<lparr>pl_analyzers = List.map_filter native_of (Enabled reg), pl_subproc = List.map_filter plugin_of (Enabled reg),
      pl_warnings = List.map_filter warning_of (Enabled reg)\<rparr>"
  by (simp add: planFromRegistry_def plan_rows)

lemma enabled_shape:
  assumes "rw \<in> set (resolved_rows cfg e)" "r_Status rw = StatusEnabled"
  shows "r_Shape rw \<noteq> ShapeRegistryOnly" "r_Shape rw = ShapeSubprocess \<Longrightarrow> e_SubprocessWired e"
  using assms by (auto simp: resolved_rows_def resolved_row_def Let_def split: Shape.splits option.splits if_splits)

text \<open>
  The engine never runs a custom plugin.  A plugin of \<^verbatim>\<open>linters.settings.custom\<close> is resolved with the shape that
  the plan turns into a subprocess runner, but with a status that keeps it out of the enabled rows the plan is
  made of: whatever the configuration, the plan has no subprocess runner and does not warn about a skipped
  linter.
\<close>

theorem plan_has_no_plugins:
  assumes "buildWith cfg cat = (cfg', ws, Inr reg)"
  shows "pl_subproc (planFromRegistry (Some reg)) = [] \<and> (\<forall>n. RegistryOnlySkipped n \<notin> set (pl_warnings (planFromRegistry (Some reg))))"
proof -
  have shape: "r_Shape rw \<noteq> ShapeRegistryOnly" if "rw \<in> set (Enabled reg)" for rw
    using that buildWith_Inr(3,4) [OF assms] enabled_shape(1) by (auto simp: Enabled_def)
  then have "plugin_of rw = None" "warning_of rw \<noteq> Some (RegistryOnlySkipped n)" if "rw \<in> set (Enabled reg)" for rw n
    using that by (auto simp: plugin_of_def warning_of_def)
  then show ?thesis by (auto simp: plan_parts List.map_filter_def filter_empty_conv)
qed

theorem plan_has_no_plugins_witness:
  "\<exists>cfg' ws reg. rc_custom demo_cfg = [(''mine'', ())] \<and> buildWith demo_cfg demo_catalog = (cfg', ws, Inr reg)
     \<and> pl_subproc (planFromRegistry (Some reg)) = []"
proof -
  obtain cfg' ws r where b: "buildWith demo_cfg demo_catalog = (cfg', ws, Inr r)" using demo_build_ok by blast
  from plan_has_no_plugins [OF b] show ?thesis using b by (simp add: demo_cfg_def)
qed


subsection \<open>Transparency of the whole run\<close>


definition without_L0 :: "('s, 'c) runInput \<Rightarrow> ('s, 'c) runInput" where
  "without_L0 R = R\<lparr>ri_env := (ri_env R)\<lparr>in_L0 := None\<rparr>\<rparr>"

lemma without_L0_fields:
  "ri_done (without_L0 R) = ri_done R" "ri_custom (without_L0 R) = ri_custom R" "ri_extra (without_L0 R) = ri_extra R"
  "in_fenv (ri_env (without_L0 R)) = in_fenv (ri_env R)" "in_uri (ri_env (without_L0 R)) = in_uri (ri_env R)"
  by (simp_all add: without_L0_def)

lemma without_L0_finish [simp]: "finish_run (without_L0 R) plan fo ip = finish_run R plan fo ip"
  unfolding finish_run_def without_L0_fields ..
















end
