(* ===== verification/UnitWorker.thy ===== *)
theory UnitWorker
  imports UnitSession
begin

text \<open>
  The persistent worker of \<^verbatim>\<open>plaid-lint unit\<close> (\<^verbatim>\<open>cmd/plaid-lint/unit_worker.go\<close>): one JSON request per line on
  standard input, one response per request on standard output, served one at a time by \<^verbatim>\<open>unitOnce\<close> over one
  session, and the release of the heap after a response.

  The decoder of a request line (\<^verbatim>\<open>encoding/json\<close>) is \<open>wp_decode\<close>; \<open>wp_write n\<close> tells whether the \<open>n\<close>-th write of a
  response succeeds and \<open>wp_heap n\<close> is the heap the runtime holds after it.  \<open>wp_once\<close> answers a unit
  configuration in a session; \<open>None\<close> stands for a computation that does not end within its fuel, and the contract of
  an answering function that always ends is the locale \<open>server\<close>, met by \<open>unitOnce\<close> with a fuel above the number of
  directories and of analyzers.  Error texts are those of the code without the quotes of \<^verbatim>\<open>%q\<close>.
\<close>

subsection \<open>Requests and responses\<close>

record workRequest =
  wr_Arguments :: "string list"
  wr_RequestID :: int
  wr_Cancel :: bool
  wr_SandboxDir :: string

record workResponse =
  ws_ExitCode :: int
  ws_Output :: string
  ws_RequestID :: int
  ws_WasCancelled :: bool

definition exitCLIError :: nat where "exitCLIError = 2"

fun cfg_arg :: "string list \<Rightarrow> string list \<Rightarrow> string result" where
  "cfg_arg all [] = Inl (''unit worker: request has no --cfg argument (got ['' @ join_with '' '' all @ ''])'')"
| "cfg_arg all (arg # rest) =
     (if HasPrefix arg ''--cfg='' then Inr (TrimPrefix arg ''--cfg='')
      else if arg = ''--cfg'' then (case rest of p # _ \<Rightarrow> Inr p | [] \<Rightarrow> Inl ''unit worker: --cfg missing value'')
      else cfg_arg all rest)"

definition unitCfgFromArgs :: "string list \<Rightarrow> string result" where
  "unitCfgFromArgs args = cfg_arg args args"


subsection \<open>Releasing the heap\<close>

record heapReleaser =
  hr_thresholdBytes :: "64 word"

definition newHeapReleaser :: "int \<Rightarrow> heapReleaser option" where
  "newHeapReleaser thresholdMB =
     (if thresholdMB \<le> 0 then None else Some \<lparr>hr_thresholdBytes = push_bit 20 (word_of_int thresholdMB)\<rparr>)"

definition afterResponse :: "heapReleaser option \<Rightarrow> 64 word \<Rightarrow> bool" where
  "afterResponse r retained = (case r of None \<Rightarrow> False | Some h \<Rightarrow> \<not> retained \<le> hr_thresholdBytes h)"


subsection \<open>Lines\<close>

text \<open>
  \<^verbatim>\<open>bufio.Scanner\<close> with a buffer of at most 16 MiB: a line of that length or more ends the scan with an error,
  a trailing carriage return is dropped, and a last line without newline counts when it is not empty.
\<close>

definition maxLine :: nat where "maxLine = 16 * 1024 * 1024"

fun request_lines :: "bytes list \<Rightarrow> bytes list \<times> bool" where
  "request_lines [] = ([], False)"
| "request_lines (l # ls) = (if maxLine \<le> length l then ([], True) else (case request_lines ls of (ts, err) \<Rightarrow> (dropCR l # ts, err)))"


subsection \<open>The loop\<close>

record 's workerParams =
  wp_decode :: "bytes \<Rightarrow> workRequest result"
  wp_once :: "string \<Rightarrow> 's \<Rightarrow> ('s \<times> nat \<times> string list) option"
  wp_write :: "nat \<Rightarrow> bool"
  wp_heap :: "nat \<Rightarrow> 64 word"
  wp_release :: "heapReleaser option"

record 's workerState =
  wk_sess :: 's
  wk_tries :: nat
  wk_out :: "workResponse list"
  wk_freed :: nat

definition send :: "'s workerParams \<Rightarrow> workResponse \<Rightarrow> 's workerState \<Rightarrow> 's workerState" where
  "send P resp st =
     st\<lparr>wk_tries := wk_tries st + 1, wk_out := (if wp_write P (wk_tries st) then wk_out st @ [resp] else wk_out st)\<rparr>"

definition sandbox_text :: string where
  "sandbox_text = ''plaid-lint: unit worker: worker sandboxing (sandboxDir) is not supported; do not set supports-worker-sandboxing''"

definition answer_request :: "'s workerParams \<Rightarrow> workRequest \<Rightarrow> 's \<Rightarrow> ('s \<times> workResponse) option" where
  "answer_request P req sess =
     (case (case unitCfgFromArgs (wr_Arguments req) of
              Inl e \<Rightarrow> Some (sess, exitCLIError, [e])
            | Inr cfgPath \<Rightarrow> wp_once P cfgPath sess) of
        None \<Rightarrow> None
      | Some (sess', code, msgs) \<Rightarrow>
          Some (sess', \<lparr>ws_ExitCode = int code, ws_Output = join_with [CHR 0x0A] msgs, ws_RequestID = wr_RequestID req, ws_WasCancelled = False\<rparr>))"

definition worker_line :: "'s workerParams \<Rightarrow> bytes \<Rightarrow> 's workerState \<Rightarrow> ('s workerState \<times> nat option) option" where
  "worker_line P line st =
     (if line = [] then Some (st, None)
      else case wp_decode P line of
             Inl _ \<Rightarrow> Some (st, Some exitInternalError)
           | Inr req \<Rightarrow>
               if wr_Cancel req then
                 Some (send P \<lparr>ws_ExitCode = 0, ws_Output = [], ws_RequestID = wr_RequestID req, ws_WasCancelled = True\<rparr> st, None)
               else if wr_SandboxDir req \<noteq> [] then
                 Some (send P \<lparr>ws_ExitCode = int exitInternalError, ws_Output = sandbox_text, ws_RequestID = wr_RequestID req,
                               ws_WasCancelled = False\<rparr> st, None)
               else case answer_request P req (wk_sess st) of
                      None \<Rightarrow> None
                    | Some (sess', resp) \<Rightarrow>
                        (let st' = send P resp (st\<lparr>wk_sess := sess'\<rparr>)
                         in if wp_write P (wk_tries st)
                            then Some (st'\<lparr>wk_freed := wk_freed st' + (if afterResponse (wp_release P) (wp_heap P (wk_tries st)) then 1 else 0)\<rparr>, None)
                            else Some (st', Some exitInternalError)))"

fun worker_lines :: "'s workerParams \<Rightarrow> bytes list \<Rightarrow> 's workerState \<Rightarrow> ('s workerState \<times> nat option) option" where
  "worker_lines P [] st = Some (st, None)"
| "worker_lines P (l # ls) st =
     (case worker_line P l st of
        Some (st', None) \<Rightarrow> worker_lines P ls st'
      | res \<Rightarrow> res)"

definition unitWorkerLoop :: "'s workerParams \<Rightarrow> bytes \<Rightarrow> bool \<Rightarrow> 's \<Rightarrow> ('s workerState \<times> nat) option" where
  "unitWorkerLoop P input readFails sess =
     (case request_lines (raw_lines input) of
        (ls, tooLong) \<Rightarrow>
          (case worker_lines P ls \<lparr>wk_sess = sess, wk_tries = 0, wk_out = [], wk_freed = 0\<rparr> of
             None \<Rightarrow> None
           | Some (st, Some code) \<Rightarrow> Some (st, code)
           | Some (st, None) \<Rightarrow> Some (st, if tooLong \<or> readFails then exitInternalError else exitSuccess)))"


subsection \<open>One reply per request\<close>

text \<open>The protocol without the stream: what a list of requests is answered, and the session it leaves.\<close>

definition reply_to :: "'s workerParams \<Rightarrow> workRequest \<Rightarrow> 's \<Rightarrow> ('s \<times> workResponse) option" where
  "reply_to P req sess =
     (if wr_Cancel req then Some (sess, \<lparr>ws_ExitCode = 0, ws_Output = [], ws_RequestID = wr_RequestID req, ws_WasCancelled = True\<rparr>)
      else if wr_SandboxDir req \<noteq> [] then
        Some (sess, \<lparr>ws_ExitCode = int exitInternalError, ws_Output = sandbox_text, ws_RequestID = wr_RequestID req, ws_WasCancelled = False\<rparr>)
      else answer_request P req sess)"

fun replies :: "'s workerParams \<Rightarrow> workRequest list \<Rightarrow> 's \<Rightarrow> ('s \<times> workResponse list) option" where
  "replies P [] sess = Some (sess, [])"
| "replies P (req # reqs) sess =
     (case reply_to P req sess of
        None \<Rightarrow> None
      | Some (sess', resp) \<Rightarrow> map_option (\<lambda>(s, rs). (s, resp # rs)) (replies P reqs sess'))"

definition worked :: "workRequest \<Rightarrow> bool" where
  "worked req \<longleftrightarrow> \<not> wr_Cancel req \<and> wr_SandboxDir req = []"

lemma reply_to_id: "reply_to P req s = Some (s', resp) \<Longrightarrow> ws_RequestID resp = wr_RequestID req"
  by (auto simp: reply_to_def answer_request_def split: if_splits option.splits sum.splits)

lemma reply_to_skip: "\<not> worked req \<Longrightarrow> reply_to P req s = Some (s', resp) \<Longrightarrow> s' = s"
  by (auto simp: reply_to_def worked_def split: if_splits)

lemma reply_to_worked: "worked req \<Longrightarrow> reply_to P req s = answer_request P req s"
  by (simp add: reply_to_def worked_def)

lemma replies_ids: "replies P reqs s = Some (s', rs) \<Longrightarrow> map ws_RequestID rs = map wr_RequestID reqs"
  by (induction P reqs s arbitrary: rs rule: replies.induct) (auto split: option.splits dest: reply_to_id)

lemma replies_length: "replies P reqs s = Some (s', rs) \<Longrightarrow> length rs = length reqs"
  using replies_ids [of P reqs s s' rs] by (metis length_map)

lemma replies_worked:
  "replies P reqs s = Some (s', rs) \<Longrightarrow> replies P (filter worked reqs) s = Some (s', map snd (filter (worked \<circ> fst) (zip reqs rs)))"
proof (induction reqs arbitrary: s rs)
  case (Cons req reqs)
  obtain s1 resp rs' where r: "reply_to P req s = Some (s1, resp)" "replies P reqs s1 = Some (s', rs')" "rs = resp # rs'"
    using Cons.prems by (auto split: option.splits)
  show ?case
  proof (cases "worked req")
    case False
    then show ?thesis using reply_to_skip [OF False r(1)] Cons.IH [OF r(2)] r(3) by simp
  qed (use Cons.IH [OF r(2)] r in simp)
qed simp


subsection \<open>What the loop does\<close>

lemma worker_line_reply:
  assumes "\<forall>n. wp_write P n" "l \<noteq> []" "wp_decode P l = Inr req" "reply_to P req (wk_sess st) = Some (s', resp)"
  shows "\<exists>st'. worker_line P l st = Some (st', None) \<and> wk_sess st' = s' \<and> wk_out st' = wk_out st @ [resp]"
  using assms by (auto simp: worker_line_def reply_to_def send_def Let_def split: if_splits option.splits)

definition requests_of :: "'s workerParams \<Rightarrow> bytes list \<Rightarrow> workRequest list \<Rightarrow> bool" where
  "requests_of P ls reqs \<longleftrightarrow> map (wp_decode P) (filter (\<lambda>l. l \<noteq> []) ls) = map Inr reqs"

lemma worker_lines_replies:
  assumes "\<forall>n. wp_write P n" "requests_of P ls reqs" "replies P reqs (wk_sess st) = Some (s', rs)"
  shows "\<exists>st'. (\<forall>rest. worker_lines P (ls @ rest) st = worker_lines P rest st') \<and> wk_sess st' = s' \<and> wk_out st' = wk_out st @ rs"
  using assms(2,3)
proof (induction ls arbitrary: st reqs rs)
  case Nil
  then show ?case by (auto simp: requests_of_def)
next
  case (Cons l ls)
  show ?case
  proof (cases "l = []")
    case True
    then show ?thesis using Cons by (auto simp: requests_of_def worker_line_def)
  next
    case False
    then obtain req reqs' where q: "reqs = req # reqs'" "wp_decode P l = Inr req" "requests_of P ls reqs'"
      using Cons.prems(1) by (auto simp: requests_of_def Cons_eq_map_conv)
    obtain s1 resp rs' where r: "reply_to P req (wk_sess st) = Some (s1, resp)" "replies P reqs' s1 = Some (s', rs')" "rs = resp # rs'"
      using Cons.prems(2) q(1) by (auto split: option.splits)
    obtain st1 where st1: "worker_line P l st = Some (st1, None)" "wk_sess st1 = s1" "wk_out st1 = wk_out st @ [resp]"
      using worker_line_reply [OF assms(1) False q(2) r(1)] by blast
    then show ?thesis using Cons.IH [OF q(3), of st1 rs'] r(2,3) by auto
  qed
qed

text \<open>
  What the loop relies on: as long as the session is ready, a unit request ends and leaves a ready session.
\<close>

locale server =
  fixes once :: "string \<Rightarrow> 's \<Rightarrow> ('s \<times> nat \<times> string list) option"
    and ready :: "'s \<Rightarrow> bool"
  assumes serves: "ready s \<Longrightarrow> \<exists>s' code msgs. once p s = Some (s', code, msgs) \<and> ready s'"
begin

lemma replies_total: "wp_once P = once \<Longrightarrow> ready s \<Longrightarrow> \<exists>s' rs. replies P reqs s = Some (s', rs)"
proof (induction reqs arbitrary: s)
  case (Cons req reqs)
  have "\<exists>s1 resp. reply_to P req s = Some (s1, resp) \<and> ready s1"
  proof (cases "unitCfgFromArgs (wr_Arguments req)")
    case (Inr p)
    then show ?thesis using serves [OF Cons.prems(2), of p] Cons.prems by (auto simp: reply_to_def answer_request_def)
  qed (use Cons.prems in \<open>simp add: reply_to_def answer_request_def\<close>)
  then show ?case using Cons by fastforce
qed simp

lemma lines_answered:
  assumes "wp_once P = once" "ready sess" "\<forall>n. wp_write P n" "requests_of P ls reqs"
  shows "\<exists>st. (\<forall>rest. worker_lines P (ls @ rest) \<lparr>wk_sess = sess, wk_tries = 0, wk_out = [], wk_freed = 0\<rparr> = worker_lines P rest st)
    \<and> replies P reqs sess = Some (wk_sess st, wk_out st)"
proof -
  let ?st = "\<lparr>wk_sess = sess, wk_tries = 0, wk_out = [], wk_freed = 0\<rparr>"
  obtain s' rs where r: "replies P reqs sess = Some (s', rs)" using replies_total [OF assms(1,2)] by blast
  then have "replies P reqs (wk_sess ?st) = Some (s', rs)" by simp
  from worker_lines_replies [OF assms(3,4) this] obtain st
    where "\<forall>rest. worker_lines P (ls @ rest) ?st = worker_lines P rest st" "wk_sess st = s'" "wk_out st = rs" by auto
  then show ?thesis using r by blast
qed

lemma in_order:
  assumes "wp_once P = once" "ready sess" "\<forall>n. wp_write P n"
    and "request_lines (raw_lines input) = (ls, False)" "requests_of P ls reqs"
  shows "\<exists>st. unitWorkerLoop P input False sess = Some (st, exitSuccess)
    \<and> map ws_RequestID (wk_out st) = map wr_RequestID reqs
    \<and> replies P (filter worked reqs) sess = Some (wk_sess st, map snd (filter (worked \<circ> fst) (zip reqs (wk_out st))))"
proof -
  let ?st = "\<lparr>wk_sess = sess, wk_tries = 0, wk_out = [], wk_freed = 0\<rparr>"
  obtain st where st: "\<forall>rest. worker_lines P (ls @ rest) ?st = worker_lines P rest st" and r: "replies P reqs sess = Some (wk_sess st, wk_out st)"
    using lines_answered [OF assms(1-3,5)] by blast
  have "worker_lines P ls ?st = Some (st, None)" using spec [OF st, of "[]"] by simp
  then show ?thesis using replies_ids [OF r] replies_worked [OF r] by (auto simp: unitWorkerLoop_def assms(4))
qed

lemma stops:
  assumes "wp_once P = once" "ready sess" "\<forall>n. wp_write P n"
    and "request_lines (raw_lines input) = (ls @ bad # later, err)" "requests_of P ls reqs" "bad \<noteq> []" "wp_decode P bad = Inl e"
  shows "\<exists>st. unitWorkerLoop P input readFails sess = Some (st, exitInternalError) \<and> replies P reqs sess = Some (wk_sess st, wk_out st)"
proof -
  let ?st = "\<lparr>wk_sess = sess, wk_tries = 0, wk_out = [], wk_freed = 0\<rparr>"
  obtain st where st: "\<forall>rest. worker_lines P (ls @ rest) ?st = worker_lines P rest st" and r: "replies P reqs sess = Some (wk_sess st, wk_out st)"
    using lines_answered [OF assms(1-3,5)] by blast
  have "worker_lines P (ls @ bad # later) ?st = Some (st, Some exitInternalError)" using st assms(6,7) by (simp add: worker_line_def)
  then show ?thesis using r by (auto simp: unitWorkerLoop_def assms(4))
qed

end


subsection \<open>The worker over a unit session\<close>

text \<open>
  The session of the worker is the memoized unit session with the file system; the \<open>n\<close>-th request that is worked on
  meets the environment \<open>env n\<close>.
\<close>

type_synonym ('w, 'g, 'c) workSession = "('w, 'g, 'c) unitSession \<times> ufs \<times> nat"

definition unit_serve ::
  "('w, 'g, 'c, 'a) unitDriver \<Rightarrow> (nat \<Rightarrow> unitReq) \<Rightarrow> string \<Rightarrow> ('w, 'g, 'c) workSession \<Rightarrow> (('w, 'g, 'c) workSession \<times> nat \<times> string list) option" where
  "unit_serve D env cfgPath ws =
     (case ws of (sess, fs, n) \<Rightarrow>
        map_option (\<lambda>(sess', fs', code, msgs). ((sess', fs', n + 1), code, msgs)) (unitOnce D (env n\<lparr>rq_path := cfgPath\<rparr>) sess fs))"

text \<open>
  The fuel is enough: above the number of directories a walk of the declared standard library can meet, and above the
  number of analyzers that those of a registry require.
\<close>

definition walks_end :: "unitReq \<Rightarrow> bool" where
  "walks_end rq \<longleftrightarrow> finite (real_dirs (rq_host rq)) \<and> card (real_dirs (rq_host rq)) < rq_fuel rq"

definition small_registry :: "('w, 'g, 'c, 'a) unitDriver \<Rightarrow> ('c, nat) Registry \<Rightarrow> bool" where
  "small_registry D reg \<longleftrightarrow>
     finite (reach (ud_graph D) (enabled_analyzers reg)) \<and> card (reach (ud_graph D) (enabled_analyzers reg)) < ud_fuel D"

definition selections_end :: "('w, 'g, 'c, 'a) unitDriver \<Rightarrow> bool" where
  "selections_end D \<longleftrightarrow>
     (\<forall>w wd path body only v g reg f msgs. build_session D w wd path body only = (v, Inr ((g, reg, f), msgs)) \<longrightarrow> small_registry D reg)"

text \<open>The session holds a filter as it was built, with a registry of a built configuration.\<close>

definition session_ok :: "('w, 'g, 'c, 'a) unitDriver \<Rightarrow> ('w, 'g, 'c) unitSession \<Rightarrow> bool" where
  "session_ok D sess \<longleftrightarrow>
     (\<forall>g reg f. us_state sess = Some (g, reg, f) \<longrightarrow>
        small_registry D reg \<and> (\<exists>wd. NewFilter (ud_regex D) (ud_exclusions D g) wd [] = Inr f))"

lemma refresh_session_ok:
  assumes "selections_end D" "session_ok D sess" "refresh D h cfg body sess = (sess1, r)"
  shows "session_ok D sess1" "r = Inr ms \<Longrightarrow> us_state sess1 \<noteq> None"
proof -
  show "session_ok D sess1"
  proof (cases "memo_hit sess cfg body")
    case False
    obtain v x where b: "build_session D (us_flags sess) (mustGetwd h) (golangci_Config (Analysis cfg)) body (EnableOnly (Analysis cfg)) = (v, x)" by fastforce
    show ?thesis
    proof (cases x)
      case (Inl e)
      then show ?thesis using assms(2,3) False b by (auto simp: refresh_def session_ok_def)
    next
      case (Inr y)
      obtain g reg f m where y: "y = ((g, reg, f), m)" by (metis prod.collapse)
      have "small_registry D reg" using assms(1) b Inr y unfolding selections_end_def by blast
      moreover have "NewFilter (ud_regex D) (ud_exclusions D g) (mustGetwd h) [] = Inr f" using build_session_filter b Inr y by metis
      ultimately show ?thesis using assms(3) False b Inr y by (auto simp: refresh_def session_ok_def)
    qed
  qed (use assms(2,3) in \<open>auto simp: refresh_def\<close>)
  show "us_state sess1 \<noteq> None" if "r = Inr ms"
    using assms(3) that by (auto simp: refresh_def memo_hit_def split: if_splits prod.splits sum.splits)
qed

lemma run_session_returns:
  assumes "session_ok D sess" "us_state sess \<noteq> None"
  shows "\<exists>fs' r. run_session D rq cfg sess fs = Some (sess, fs', r)"
proof -
  obtain g reg f where st: "us_state sess = Some (g, reg, f)" using assms(2) by (metis not_None_eq prod_cases3)
  obtain wd where nf: "NewFilter (ud_regex D) (ud_exclusions D g) wd [] = Inr f" and small: "small_registry D reg"
    using assms(1) st by (auto simp: session_ok_def)
  let ?e = "ud_env D (rq_host rq)"
  have inv: "filter_inv ?e f f" using NewFilter_caches_ok [OF nf] by (simp add: filter_inv_def)
  obtain fs' fo r where run: "Run (ud_lib D (us_flags sess) (rq_host rq)) (ud_graph D) (ud_fuel D) ?e (rq_r1 rq) (rq_r2 rq) fs cfg (ud_settings D g) reg (Some f)
      = Some (fs', fo, r)"
    using Run_returns [OF nf inv small [unfolded small_registry_def, THEN conjunct1] small [unfolded small_registry_def, THEN conjunct2]]
    by (metis prod_cases3)
  have "fo = Some f" using Run_filter [OF nf inv run] NewFilter_config [OF nf] by simp
  then show ?thesis by (simp add: run_session_def st run)
qed

lemma unit_run_returns:
  assumes "selections_end D" "session_ok D sess"
  shows "\<exists>sess' fs' code msgs. unit_run D rq cfg attempt cm sess fs = Some (sess', fs', code, msgs) \<and> session_ok D sess'"
proof (cases "config_body (rq_host rq) cfg")
  case (Inr body)
  obtain sess1 r where r: "refresh D (rq_host rq) cfg body sess = (sess1, r)" by fastforce
  note s1 = refresh_session_ok [OF assms r]
  show ?thesis
  proof (cases r)
    case (Inl x)
    then show ?thesis using Inr r s1(1) by (cases x) (simp add: unit_run_def)
  next
    case ms: (Inr ms)
    obtain fs' x where "run_session D rq cfg sess1 fs = Some (sess1, fs', x)" using run_session_returns [OF s1(1) s1(2) [OF ms]] by blast
    then show ?thesis using Inr r ms s1(1) by (cases x) (simp_all add: unit_run_def Let_def split: prod.splits)
  qed
qed (use assms in \<open>simp add: unit_run_def\<close>)

lemma unitOnce_returns:
  assumes "selections_end D" "walks_end rq" "session_ok D sess"
  shows "\<exists>sess' fs' code msgs. unitOnce D rq sess fs = Some (sess', fs', code, msgs) \<and> session_ok D sess'"
proof (cases "req_config D rq")
  case (Inr cfg)
  obtain key where key: "unit_ComputeKey (rq_host rq) (rq_fuel rq) (rq_iter rq) (rq_path rq) cfg (us_toolID sess) = Some key"
    using key_total [of "rq_host rq" "rq_iter rq" "rq_path rq" cfg "us_toolID sess"] assms(2) unfolding walks_end_def by blast
  have "unitCacheLookup rq sess fs cfg \<noteq> None"
    by (simp add: unitCacheLookup_def key split: option.split sum.split prod.split)
  then obtain attempt ent ms fs1 where l: "unitCacheLookup rq sess fs cfg = Some (attempt, ent, ms, fs1)" by auto
  show ?thesis
  proof (cases ent)
    case None
    then show ?thesis using unit_run_returns [OF assms(1,3), of rq cfg attempt ms fs1] by (simp add: unitOnce_def Inr l)
  qed (use assms(3) in \<open>simp add: unitOnce_def Inr l\<close>)
qed (use assms in \<open>simp add: unitOnce_def\<close>)

definition unit_ready :: "('w, 'g, 'c, 'a) unitDriver \<Rightarrow> (nat \<Rightarrow> unitReq) \<Rightarrow> ('w, 'g, 'c) workSession \<Rightarrow> bool" where
  "unit_ready D env ws \<longleftrightarrow> selections_end D \<and> (\<forall>n. walks_end (env n)) \<and> session_ok D (fst ws)"

interpretation unit_server: server "unit_serve D env" "unit_ready D env" for D env
proof
  fix ws :: "('a, 'b, 'c) workSession" and p
  assume r: "unit_ready D env ws"
  obtain sess fs n where ws: "ws = (sess, fs, n)" by (cases ws)
  have "walks_end (env n\<lparr>rq_path := p\<rparr>)" using r by (simp add: unit_ready_def walks_end_def)
  then show "\<exists>ws' code msgs. unit_serve D env p ws = Some (ws', code, msgs) \<and> unit_ready D env ws'"
    using unitOnce_returns [of D "env n\<lparr>rq_path := p\<rparr>" sess fs] r ws by (auto simp: unit_serve_def unit_ready_def)
qed

lemma new_session_ready:
  "selections_end D \<Longrightarrow> \<forall>n. walks_end (env n) \<Longrightarrow> unit_ready D env (fst (newUnitSession cacheDir opened tool w), fs, n)"
  by (simp add: unit_ready_def session_ok_def newUnitSession_def Let_def split: sum.split)

text \<open>
  C17. The worker answers unit requests in order.  Started on a fresh session, with the fuel above the number of
  directories of the host and of analyzers of a registry, when every line decodes and every response can be written, the
  worker ends with success at the end of its input and has answered every request once, in the order of arrival and under
  the identifier of the request; and the answers to the requests that are neither cancelled nor sandboxed, and the
  session and files left, are those of the unit requests served one after the other with the others left out.
\<close>

theorem worker_in_order:
  assumes "wp_once P = unit_serve D env" "selections_end D" "\<forall>n. walks_end (env n)" "\<forall>n. wp_write P n"
    and "request_lines (raw_lines input) = (ls, False)" "requests_of P ls reqs"
    and "sess = (fst (newUnitSession cacheDir opened tool w), fs, 0)"
  shows "\<exists>st. unitWorkerLoop P input False sess = Some (st, exitSuccess)
    \<and> map ws_RequestID (wk_out st) = map wr_RequestID reqs
    \<and> replies P (filter worked reqs) sess = Some (wk_sess st, map snd (filter (worked \<circ> fst) (zip reqs (wk_out st))))"
  unfolding assms(7) by (rule unit_server.in_order [OF assms(1) new_session_ready [OF assms(2,3)] assms(4-6)])

text \<open>
  A line that does not decode ends the worker with an internal error, after the requests before it were answered
  and before anything behind it is looked at.
\<close>

theorem worker_stops:
  assumes "wp_once P = unit_serve D env" "selections_end D" "\<forall>n. walks_end (env n)" "\<forall>n. wp_write P n"
    and "request_lines (raw_lines input) = (ls @ bad # later, err)" "requests_of P ls reqs" "bad \<noteq> []" "wp_decode P bad = Inl e"
    and "sess = (fst (newUnitSession cacheDir opened tool w), fs, 0)"
  shows "\<exists>st. unitWorkerLoop P input readFails sess = Some (st, exitInternalError) \<and> replies P reqs sess = Some (wk_sess st, wk_out st)"
  unfolding assms(9) by (rule unit_server.stops [OF assms(1) new_session_ready [OF assms(2,3)] assms(4-8)])


subsection \<open>A concrete worker\<close>

text \<open>A line that is a path asks for work on it, an exclamation mark cancels, a question mark is malformed.\<close>

definition demo_decode :: "bytes \<Rightarrow> workRequest result" where
  "demo_decode l =
     (if l = ''?'' then Inl ''malformed''
      else Inr \<lparr>wr_Arguments = [''--cfg='' @ l], wr_RequestID = int (length l), wr_Cancel = (l = ''!''), wr_SandboxDir = []\<rparr>)"

definition demo_environment :: "nat \<Rightarrow> unitReq" where
  "demo_environment n = demo_request\<lparr>rq_fuel := 2\<rparr>"

definition demo_worker :: "(unit, unit, unit) workSession workerParams" where
  "demo_worker = \<lparr>wp_decode = demo_decode, wp_once = unit_serve demo_driver demo_environment, wp_write = (\<lambda>n. True), wp_heap = (\<lambda>n. 0), wp_release = None\<rparr>"

definition demo_started :: "(unit, unit, unit) workSession" where
  "demo_started = (fst (newUnitSession ''d'' (Inr ''c'') (Inr ''t'') ()), Map.empty, 0)"

definition demo_input :: bytes where
  "demo_input = ''unit.json'' @ [CHR 0x0A, CHR 0x0A] @ ''!'' @ [CHR 0x0D, CHR 0x0A] @ ''unit.json''"

lemma demo_lines: "request_lines (raw_lines demo_input) = ([''unit.json'', [], ''!'', ''unit.json''], False)"
  by (simp add: demo_input_def raw_lines_def dropCR_def maxLine_def)

lemma demo_selections_end: "selections_end demo_driver"
proof -
  have "reg_enabled reg = []" if "build_session demo_driver w wd path body only = (v, Inr ((g, reg, f), msgs))" for w wd path body only v g reg f msgs
    using that by (auto simp: build_session_def demo_driver_def select_only_def SelectAnalyzers_def demo_registry_def Let_def
        split: sum.splits prod.splits if_splits)
  then show ?thesis
    by (auto simp: selections_end_def small_registry_def enabled_analyzers_def Enabled_def reach_def) (simp add: demo_driver_def)
qed

lemma demo_walks_end: "walks_end (demo_environment n)"
proof -
  have "real_dirs (demo_host other) = {''/''}" for other by (auto simp: real_dirs_def demo_host_def)
  then show ?thesis by (simp add: walks_end_def demo_environment_def demo_request_def)
qed

lemma demo_worker_fields: "wp_once demo_worker = unit_serve demo_driver demo_environment" "\<forall>n. wp_write demo_worker n" "wp_decode demo_worker = demo_decode"
  by (simp_all add: demo_worker_def)

theorem worker_in_order_witness:
  "\<exists>st. unitWorkerLoop demo_worker demo_input False demo_started = Some (st, exitSuccess) \<and> map ws_RequestID (wk_out st) = [9, 1, 9]"
proof -
  let ?q = "map (\<lambda>l. \<lparr>wr_Arguments = [''--cfg='' @ l], wr_RequestID = int (length l), wr_Cancel = (l = ''!''), wr_SandboxDir = []\<rparr>) [''unit.json'', ''!'', ''unit.json'']"
  have q: "requests_of demo_worker [''unit.json'', [], ''!'', ''unit.json''] ?q" by (simp add: requests_of_def demo_worker_def demo_decode_def)
  show ?thesis
    using worker_in_order [OF demo_worker_fields(1) demo_selections_end _ demo_worker_fields(2) demo_lines q demo_started_def] demo_walks_end by auto
qed

theorem worker_stops_witness:
  "\<exists>st. unitWorkerLoop demo_worker (''unit.json'' @ [CHR 0x0A] @ ''?'' @ [CHR 0x0A] @ ''unit.json'') False demo_started = Some (st, exitInternalError)"
proof -
  let ?q = "[\<lparr>wr_Arguments = [''--cfg=unit.json''], wr_RequestID = 9, wr_Cancel = False, wr_SandboxDir = []\<rparr>]"
  have l: "request_lines (raw_lines (''unit.json'' @ [CHR 0x0A] @ ''?'' @ [CHR 0x0A] @ ''unit.json'')) = ([''unit.json''] @ ''?'' # [''unit.json''], False)"
    by (simp add: raw_lines_def dropCR_def maxLine_def)
  have q: "requests_of demo_worker [''unit.json''] ?q" by (simp add: requests_of_def demo_worker_def demo_decode_def)
  have "wp_decode demo_worker ''?'' = Inl ''malformed''" by (simp add: demo_worker_def demo_decode_def)
  then show ?thesis
    using worker_stops [OF demo_worker_fields(1) demo_selections_end _ demo_worker_fields(2) l q _ _ demo_started_def] demo_walks_end by blast
qed


subsection \<open>The threshold\<close>

text \<open>
  With a threshold of \<open>mb\<close> MiB, below \<open>2 ^ 44\<close>, the heap is released exactly after the responses that find more than
  \<open>mb\<close> MiB in use; a threshold that is not positive never releases.
\<close>

theorem release_threshold:
  assumes "mb < 2 ^ 44"
  shows "afterResponse (newHeapReleaser mb) heap \<longleftrightarrow> 0 < mb \<and> mb * 2 ^ 20 < uint heap"
proof (cases "0 < mb")
  case True
  have "mb * 2 ^ 20 < 2 ^ 64" using assms by simp
  then have "uint (push_bit 20 (word_of_int mb) :: 64 word) = mb * 2 ^ 20"
    using True by (simp add: push_bit_eq_mult uint_word_ariths unsigned_of_int take_bit_eq_mod)
  then show ?thesis using True by (simp add: afterResponse_def newHeapReleaser_def word_le_def not_le)
qed (simp add: afterResponse_def newHeapReleaser_def)

theorem release_threshold_witness: "afterResponse (newHeapReleaser 1024) (2 ^ 31) \<and> \<not> afterResponse (newHeapReleaser 1024) (2 ^ 30)"
  using release_threshold [of 1024 "2 ^ 31"] release_threshold [of 1024 "2 ^ 30"] by simp

text \<open>From \<open>2 ^ 44\<close> MiB on the shift wraps: that threshold is zero, and every response with a heap is followed by a release.\<close>

lemma release_wraps: "newHeapReleaser (2 ^ 44) = Some \<lparr>hr_thresholdBytes = 0\<rparr>"
  by (simp add: newHeapReleaser_def)


subsection \<open>The worker and the unit cache\<close>

text \<open>
  A worker leaves its session and the store in a state that a history of requests reaches, so every answer and every
  later request is covered by the transparency of the unit cache.
\<close>

lemma worker_keeps_history:
  assumes "unit_history Dv w root tool wd c past sess fs"
    and "replies P (filter worked reqs) (sess, fs, n) = Some ((sess', fs', n'), rs)" "wp_once P = unit_serve (Dv tool) env"
    and "\<forall>m path past s f s' f' code msgs. unit_history Dv w root tool wd c past s f \<longrightarrow>
      unitOnce (Dv tool) (env m\<lparr>rq_path := path\<rparr>) s f = Some (s', f', code, msgs) \<longrightarrow> req_ok Dv w root tool wd c (env m\<lparr>rq_path := path\<rparr>) msgs"
  shows "\<exists>past'. past \<subseteq> past' \<and> unit_history Dv w root tool wd c past' sess' fs'"
  using assms(1,2)
proof (induction reqs arbitrary: past sess fs n rs)
  case Nil
  then show ?case by auto
next
  case (Cons req reqs)
  show ?case
  proof (cases "worked req")
    case False
    then show ?thesis using Cons by simp
  next
    case True
    obtain ws1 resp rs' where r: "answer_request P req (sess, fs, n) = Some (ws1, resp)"
      "replies P (filter worked reqs) ws1 = Some ((sess', fs', n'), rs')"
      using Cons.prems(2) True unfolding filter.simps if_P [OF True] replies.simps reply_to_worked [OF True] by (auto split: option.splits)
    show ?thesis
    proof (cases "unitCfgFromArgs (wr_Arguments req)")
      case (Inl e)
      then have "ws1 = (sess, fs, n)" using r(1) by (simp add: answer_request_def)
      then show ?thesis using Cons.IH [OF Cons.prems(1)] r(2) by simp
    next
      case (Inr p)
      then obtain s1 fs1 code msgs where u: "unitOnce (Dv tool) (env n\<lparr>rq_path := p\<rparr>) sess fs = Some (s1, fs1, code, msgs)" "ws1 = (s1, fs1, n + 1)"
        using r(1) assms(3) by (auto simp: answer_request_def unit_serve_def split: option.splits)
      have "req_ok Dv w root tool wd c (env n\<lparr>rq_path := p\<rparr>) msgs" by (rule assms(4) [rule_format, OF Cons.prems(1) u(1)])
      from unit_history.served [OF Cons.prems(1) u(1) this]
      have h: "unit_history Dv w root tool wd c (insert (env n\<lparr>rq_path := p\<rparr>, tool) past) s1 fs1" .
      from Cons.IH [OF h, of "n + 1" rs'] r(2) u(2) obtain past' where "insert (env n\<lparr>rq_path := p\<rparr>, tool) past \<subseteq> past'"
          "unit_history Dv w root tool wd c past' sess' fs'" by auto
      then show ?thesis by auto
    qed
  qed
qed

end
