(* ===== verification/ConfigMerge.thy ===== *)
theory ConfigMerge
  imports ExclConfig Bytes
begin

text \<open>
  Layering of configurations (\<^verbatim>\<open>internal/config/merge.go\<close>) and the command line as the last layer
  (\<^verbatim>\<open>cmd/plaid-lint/flags.go\<close>).

  The settings blocks of the linters and of the formatters are opaque: the code only asks whether a block equals
  the zero block after marshalling (\<open>md_lin\<close>, \<open>md_for\<close>: \<^verbatim>\<open>yaml.Marshal\<close>, \<open>None\<close> when it fails).  Slices are lists;
  the difference between a nil and an empty slice is not observed by the code modelled here.
\<close>

subsection \<open>The configuration\<close>

record cfgRun =
  run_Timeout :: int
  run_Concurrency :: int
  run_Go :: string
  run_RelativePathMode :: string
  run_BuildTags :: "string list"
  run_ModulesDownloadMode :: string
  run_EnableBuildVCS :: bool
  run_ExitCodeIfIssuesFound :: int
  run_AnalyzeTests :: "bool option"
  run_AllowParallelRunners :: bool
  run_AllowSerialRunners :: bool

record cfgFormats =
  fmt_TextPath :: string
  fmt_TextPrintLinterName :: bool
  fmt_TextPrintIssuedLine :: bool
  fmt_TextColors :: bool
  fmt_JSONPath :: string
  fmt_TabPath :: string
  fmt_TabPrintLinterName :: bool
  fmt_TabColors :: bool
  fmt_HTMLPath :: string
  fmt_CheckstylePath :: string
  fmt_CodeClimatePath :: string
  fmt_JUnitXMLPath :: string
  fmt_JUnitXMLExtended :: bool
  fmt_TeamCityPath :: string
  fmt_SarifPath :: string

record cfgOutput =
  out_Formats :: cfgFormats
  out_SortOrder :: "string list"
  out_ShowStats :: bool
  out_PathPrefix :: string
  out_PathMode :: string

record 's cfgLinters =
  lin_Default :: string
  lin_Enable :: "string list"
  lin_Disable :: "string list"
  lin_FastOnly :: bool
  lin_Settings :: 's
  lin_Exclusions :: "linterexclusions"

record cfgIssues =
  iss_MaxIssuesPerLinter :: int
  iss_MaxSameIssues :: int
  iss_UniqByLine :: bool
  iss_DiffFromRevision :: string
  iss_DiffFromMergeBase :: string
  iss_DiffPatchFilePath :: string
  iss_WholeFiles :: bool
  iss_Diff :: bool
  iss_NeedFix :: bool

record severityrule =
  sr_Base :: "baserule"
  sr_Severity :: string

record cfgSeverity =
  sev_Default :: string
  sev_Rules :: "severityrule list"

record formatterexclusions =
  fe_Generated :: string
  fe_Paths :: "string list"
  fe_WarnUnused :: bool

record 't cfgFormatters =
  for_Enable :: "string list"
  for_Settings :: 't
  for_Exclusions :: formatterexclusions

record ('s, 't) cfg =
  cf_Version :: string
  cf_Run :: cfgRun
  cf_Output :: cfgOutput
  cf_Linters :: "'s cfgLinters"
  cf_Issues :: cfgIssues
  cf_Severity :: cfgSeverity
  cf_Formatters :: "'t cfgFormatters"
  cf_cfgDir :: string
  cf_sourcePath :: string

record ('s, 't) marshaller =
  md_lin :: "'s \<Rightarrow> bytes option"
  md_lin0 :: 's
  md_for :: "'t \<Rightarrow> bytes option"
  md_for0 :: 't


subsection \<open>Merging\<close>

definition pickString :: "string \<Rightarrow> string \<Rightarrow> string" where
  "pickString b v = (if v \<noteq> [] then v else b)"

text \<open>The scalar rule for integers and durations, which the code writes out at every field.\<close>

definition pickInt :: "int \<Rightarrow> int \<Rightarrow> int" where
  "pickInt b v = (if v \<noteq> 0 then v else b)"

definition appendUnique :: "string list \<Rightarrow> string list \<Rightarrow> string list" where
  "appendUnique b v = fold (\<lambda>o' out. if o' \<in> set out then out else out @ [o']) v b"

definition structuralEqual :: "bytes option \<Rightarrow> bytes option \<Rightarrow> bool" where
  "structuralEqual a b \<longleftrightarrow> a \<noteq> None \<and> a = b"

definition isZeroLintersSettings :: "('s, 't) marshaller \<Rightarrow> 's \<Rightarrow> bool" where
  "isZeroLintersSettings M s \<longleftrightarrow> structuralEqual (md_lin M s) (md_lin M (md_lin0 M))"

definition isZeroFormatterSettings :: "('s, 't) marshaller \<Rightarrow> 't \<Rightarrow> bool" where
  "isZeroFormatterSettings M s \<longleftrightarrow> structuralEqual (md_for M s) (md_for M (md_for0 M))"

definition mergeRun :: "cfgRun \<Rightarrow> cfgRun \<Rightarrow> cfgRun" where
  "mergeRun b v =
     \<lparr>run_Timeout = pickInt (run_Timeout b) (run_Timeout v),
      run_Concurrency = pickInt (run_Concurrency b) (run_Concurrency v),
      run_Go = pickString (run_Go b) (run_Go v),
      run_RelativePathMode = pickString (run_RelativePathMode b) (run_RelativePathMode v),
      run_BuildTags = appendUnique (run_BuildTags b) (run_BuildTags v),
      run_ModulesDownloadMode = pickString (run_ModulesDownloadMode b) (run_ModulesDownloadMode v),
      run_EnableBuildVCS = (run_EnableBuildVCS b \<or> run_EnableBuildVCS v),
      run_ExitCodeIfIssuesFound = pickInt (run_ExitCodeIfIssuesFound b) (run_ExitCodeIfIssuesFound v),
      run_AnalyzeTests = (case run_AnalyzeTests v of None \<Rightarrow> run_AnalyzeTests b | Some t \<Rightarrow> Some t),
      run_AllowParallelRunners = (run_AllowParallelRunners b \<or> run_AllowParallelRunners v),
      run_AllowSerialRunners = (run_AllowSerialRunners b \<or> run_AllowSerialRunners v)\<rparr>"

definition mergeFormats :: "cfgFormats \<Rightarrow> cfgFormats \<Rightarrow> cfgFormats" where
  "mergeFormats b v =
     \<lparr>fmt_TextPath = pickString (fmt_TextPath b) (fmt_TextPath v),
      fmt_TextPrintLinterName = (fmt_TextPrintLinterName b \<or> fmt_TextPrintLinterName v),
      fmt_TextPrintIssuedLine = (fmt_TextPrintIssuedLine b \<or> fmt_TextPrintIssuedLine v),
      fmt_TextColors = (fmt_TextColors b \<or> fmt_TextColors v),
      fmt_JSONPath = pickString (fmt_JSONPath b) (fmt_JSONPath v),
      fmt_TabPath = pickString (fmt_TabPath b) (fmt_TabPath v),
      fmt_TabPrintLinterName = (fmt_TabPrintLinterName b \<or> fmt_TabPrintLinterName v),
      fmt_TabColors = (fmt_TabColors b \<or> fmt_TabColors v),
      fmt_HTMLPath = pickString (fmt_HTMLPath b) (fmt_HTMLPath v),
      fmt_CheckstylePath = pickString (fmt_CheckstylePath b) (fmt_CheckstylePath v),
      fmt_CodeClimatePath = pickString (fmt_CodeClimatePath b) (fmt_CodeClimatePath v),
      fmt_JUnitXMLPath = pickString (fmt_JUnitXMLPath b) (fmt_JUnitXMLPath v),
      fmt_JUnitXMLExtended = (fmt_JUnitXMLExtended b \<or> fmt_JUnitXMLExtended v),
      fmt_TeamCityPath = pickString (fmt_TeamCityPath b) (fmt_TeamCityPath v),
      fmt_SarifPath = pickString (fmt_SarifPath b) (fmt_SarifPath v)\<rparr>"

definition mergeOutput :: "cfgOutput \<Rightarrow> cfgOutput \<Rightarrow> cfgOutput" where
  "mergeOutput b v =
     \<lparr>out_Formats = mergeFormats (out_Formats b) (out_Formats v),
      out_SortOrder = appendUnique (out_SortOrder b) (out_SortOrder v),
      out_ShowStats = (out_ShowStats b \<or> out_ShowStats v),
      out_PathPrefix = pickString (out_PathPrefix b) (out_PathPrefix v),
      out_PathMode = pickString (out_PathMode b) (out_PathMode v)\<rparr>"

definition mergeLinterExclusions :: "linterexclusions \<Rightarrow> linterexclusions \<Rightarrow> linterexclusions" where
  "mergeLinterExclusions b v =
     \<lparr>Generated = pickString (Generated b) (Generated v),
      WarnUnused = (WarnUnused b \<or> WarnUnused v),
      Presets = appendUnique (Presets b) (Presets v),
      Rules = Rules b @ Rules v,
      Paths = appendUnique (Paths b) (Paths v),
      PathsExcept = appendUnique (PathsExcept b) (PathsExcept v)\<rparr>"

definition GroupNone :: string where "GroupNone = ''none''"

definition mergeLinters :: "('s, 't) marshaller \<Rightarrow> 's cfgLinters \<Rightarrow> 's cfgLinters \<Rightarrow> 's cfgLinters" where
  "mergeLinters M b v =
     \<lparr>lin_Default = pickString (lin_Default b) (lin_Default v),
      lin_Enable = (if lin_Default v = GroupNone then appendUnique [] (lin_Enable v) else appendUnique (lin_Enable b) (lin_Enable v)),
      lin_Disable = appendUnique (lin_Disable b) (lin_Disable v),
      lin_FastOnly = (lin_FastOnly b \<or> lin_FastOnly v),
      lin_Settings = (if isZeroLintersSettings M (lin_Settings v) then lin_Settings b else lin_Settings v),
      lin_Exclusions = mergeLinterExclusions (lin_Exclusions b) (lin_Exclusions v)\<rparr>"

definition mergeIssues :: "cfgIssues \<Rightarrow> cfgIssues \<Rightarrow> cfgIssues" where
  "mergeIssues b v =
     \<lparr>iss_MaxIssuesPerLinter = pickInt (iss_MaxIssuesPerLinter b) (iss_MaxIssuesPerLinter v),
      iss_MaxSameIssues = pickInt (iss_MaxSameIssues b) (iss_MaxSameIssues v),
      iss_UniqByLine = (iss_UniqByLine b \<or> iss_UniqByLine v),
      iss_DiffFromRevision = pickString (iss_DiffFromRevision b) (iss_DiffFromRevision v),
      iss_DiffFromMergeBase = pickString (iss_DiffFromMergeBase b) (iss_DiffFromMergeBase v),
      iss_DiffPatchFilePath = pickString (iss_DiffPatchFilePath b) (iss_DiffPatchFilePath v),
      iss_WholeFiles = (iss_WholeFiles b \<or> iss_WholeFiles v),
      iss_Diff = (iss_Diff b \<or> iss_Diff v),
      iss_NeedFix = (iss_NeedFix b \<or> iss_NeedFix v)\<rparr>"

definition mergeSeverity :: "cfgSeverity \<Rightarrow> cfgSeverity \<Rightarrow> cfgSeverity" where
  "mergeSeverity b v =
     \<lparr>sev_Default = pickString (sev_Default b) (sev_Default v),
      sev_Rules = sev_Rules b @ sev_Rules v\<rparr>"

definition mergeFormatterExclusions :: "formatterexclusions \<Rightarrow> formatterexclusions \<Rightarrow> formatterexclusions" where
  "mergeFormatterExclusions b v =
     \<lparr>fe_Generated = pickString (fe_Generated b) (fe_Generated v),
      fe_Paths = appendUnique (fe_Paths b) (fe_Paths v),
      fe_WarnUnused = (fe_WarnUnused b \<or> fe_WarnUnused v)\<rparr>"

definition mergeFormatters :: "('s, 't) marshaller \<Rightarrow> 't cfgFormatters \<Rightarrow> 't cfgFormatters \<Rightarrow> 't cfgFormatters" where
  "mergeFormatters M b v =
     \<lparr>for_Enable = appendUnique (for_Enable b) (for_Enable v),
      for_Settings = (if isZeroFormatterSettings M (for_Settings v) then for_Settings b else for_Settings v),
      for_Exclusions = mergeFormatterExclusions (for_Exclusions b) (for_Exclusions v)\<rparr>"

text \<open>The zero configuration, which stands for a nil argument.\<close>

definition zeroConfig :: "('s, 't) marshaller \<Rightarrow> ('s, 't) cfg" where
  "zeroConfig M =
     \<lparr>cf_Version = [],
      cf_Run = \<lparr>run_Timeout = 0, run_Concurrency = 0, run_Go = [], run_RelativePathMode = [], run_BuildTags = [], run_ModulesDownloadMode = [], run_EnableBuildVCS = False, run_ExitCodeIfIssuesFound = 0, run_AnalyzeTests = None, run_AllowParallelRunners = False, run_AllowSerialRunners = False\<rparr>,
      cf_Output = \<lparr>out_Formats = \<lparr>fmt_TextPath = [], fmt_TextPrintLinterName = False, fmt_TextPrintIssuedLine = False, fmt_TextColors = False, fmt_JSONPath = [], fmt_TabPath = [], fmt_TabPrintLinterName = False, fmt_TabColors = False, fmt_HTMLPath = [], fmt_CheckstylePath = [], fmt_CodeClimatePath = [], fmt_JUnitXMLPath = [], fmt_JUnitXMLExtended = False, fmt_TeamCityPath = [], fmt_SarifPath = []\<rparr>, out_SortOrder = [], out_ShowStats = False, out_PathPrefix = [], out_PathMode = []\<rparr>,
      cf_Linters = \<lparr>lin_Default = [], lin_Enable = [], lin_Disable = [], lin_FastOnly = False, lin_Settings = md_lin0 M,
        lin_Exclusions = \<lparr>Generated = [], WarnUnused = False, Presets = [], Rules = [], Paths = [], PathsExcept = []\<rparr>\<rparr>,
      cf_Issues = \<lparr>iss_MaxIssuesPerLinter = 0, iss_MaxSameIssues = 0, iss_UniqByLine = False, iss_DiffFromRevision = [], iss_DiffFromMergeBase = [], iss_DiffPatchFilePath = [], iss_WholeFiles = False, iss_Diff = False, iss_NeedFix = False\<rparr>,
      cf_Severity = \<lparr>sev_Default = [], sev_Rules = []\<rparr>,
      cf_Formatters = \<lparr>for_Enable = [], for_Settings = md_for0 M, for_Exclusions = \<lparr>fe_Generated = [], fe_Paths = [], fe_WarnUnused = False\<rparr>\<rparr>,
      cf_cfgDir = [], cf_sourcePath = []\<rparr>"

definition merge_set :: "('s, 't) marshaller \<Rightarrow> ('s, 't) cfg \<Rightarrow> ('s, 't) cfg \<Rightarrow> ('s, 't) cfg" where
  "merge_set M b v =
     \<lparr>cf_Version = pickString (cf_Version b) (cf_Version v), cf_Run = mergeRun (cf_Run b) (cf_Run v),
      cf_Output = mergeOutput (cf_Output b) (cf_Output v), cf_Linters = mergeLinters M (cf_Linters b) (cf_Linters v),
      cf_Issues = mergeIssues (cf_Issues b) (cf_Issues v), cf_Severity = mergeSeverity (cf_Severity b) (cf_Severity v),
      cf_Formatters = mergeFormatters M (cf_Formatters b) (cf_Formatters v),
      cf_cfgDir = pickString (cf_cfgDir b) (cf_cfgDir v), cf_sourcePath = pickString (cf_sourcePath b) (cf_sourcePath v)\<rparr>"

definition Merge :: "('s, 't) marshaller \<Rightarrow> ('s, 't) cfg option \<Rightarrow> ('s, 't) cfg option \<Rightarrow> ('s, 't) cfg" where
  "Merge M base overlay =
     (let b = (case base of None \<Rightarrow> zeroConfig M | Some b \<Rightarrow> b)
      in case overlay of None \<Rightarrow> b | Some v \<Rightarrow> merge_set M b v)"


subsection \<open>The command line\<close>

text \<open>The flags of \<^verbatim>\<open>plaid-lint run\<close> that reach the configuration, and the names of the flags that were given.\<close>

record runFlags =
  rf_Default :: string
  rf_Disable :: "string list"
  rf_Enable :: "string list"
  rf_EnableOnly :: "string list"
  rf_FastOnly :: bool
  rf_Concurrency :: int
  rf_ModulesDownloadMode :: string
  rf_IssuesExitCode :: "int option"
  rf_BuildTags :: "string list"
  rf_Timeout :: int
  rf_Tests :: "bool option"
  rf_AllowParallelRunners :: bool
  rf_AllowSerialRunners :: bool
  rf_PathPrefix :: string
  rf_PathMode :: string
  rf_ShowStats :: "bool option"
  rf_OutputTextPath :: string
  rf_OutputTextPrintLinterName :: "bool option"
  rf_OutputTextPrintIssuedLine :: "bool option"
  rf_OutputTextColors :: "bool option"
  rf_OutputJSONPath :: string
  rf_OutputTabPath :: string
  rf_OutputTabPrintLinterName :: "bool option"
  rf_OutputTabColors :: "bool option"
  rf_OutputHTMLPath :: string
  rf_OutputCheckstylePath :: string
  rf_OutputCodeClimatePath :: string
  rf_OutputJUnitXMLPath :: string
  rf_OutputJUnitXMLExtended :: bool
  rf_OutputTeamCityPath :: string
  rf_OutputSarifPath :: string
  rf_MaxIssuesPerLinter :: "int option"
  rf_MaxSameIssues :: "int option"
  rf_UniqByLine :: "bool option"
  rf_NewIssues :: bool
  rf_NewFromRev :: string
  rf_NewFromPatch :: string
  rf_NewFromMergeBase :: string
  rf_WholeFiles :: bool
  rf_Fix :: bool
  rf_setFlags :: "string set"

definition wasSet :: "runFlags \<Rightarrow> string list \<Rightarrow> bool" where
  "wasSet rf names \<longleftrightarrow> (\<exists>n\<in>set names. n \<in> rf_setFlags rf)"

definition set_string :: "runFlags \<Rightarrow> string list \<Rightarrow> string \<Rightarrow> string" where
  "set_string rf names v = (if wasSet rf names then v else [])"

definition set_int :: "runFlags \<Rightarrow> string list \<Rightarrow> int \<Rightarrow> int" where
  "set_int rf names v = (if wasSet rf names then v else 0)"

definition given :: "'a \<Rightarrow> 'a option \<Rightarrow> 'a" where
  "given z v = (case v of None \<Rightarrow> z | Some x \<Rightarrow> x)"

definition overlay_run :: "runFlags \<Rightarrow> cfgRun" where
  "overlay_run rf =
     \<lparr>run_Timeout = set_int rf [''timeout''] (rf_Timeout rf),
      run_Concurrency = set_int rf [''concurrency'', ''j''] (rf_Concurrency rf),
      run_Go = [],
      run_RelativePathMode = [],
      run_BuildTags = rf_BuildTags rf,
      run_ModulesDownloadMode = set_string rf [''modules-download-mode''] (rf_ModulesDownloadMode rf),
      run_EnableBuildVCS = False,
      run_ExitCodeIfIssuesFound = given 0 (rf_IssuesExitCode rf),
      run_AnalyzeTests = rf_Tests rf,
      run_AllowParallelRunners = rf_AllowParallelRunners rf,
      run_AllowSerialRunners = rf_AllowSerialRunners rf\<rparr>"

definition overlay_formats :: "runFlags \<Rightarrow> cfgFormats" where
  "overlay_formats rf =
     \<lparr>fmt_TextPath = set_string rf [''output.text.path''] (rf_OutputTextPath rf),
      fmt_TextPrintLinterName = given False (rf_OutputTextPrintLinterName rf),
      fmt_TextPrintIssuedLine = given False (rf_OutputTextPrintIssuedLine rf),
      fmt_TextColors = given False (rf_OutputTextColors rf),
      fmt_JSONPath = set_string rf [''output.json.path''] (rf_OutputJSONPath rf),
      fmt_TabPath = set_string rf [''output.tab.path''] (rf_OutputTabPath rf),
      fmt_TabPrintLinterName = given False (rf_OutputTabPrintLinterName rf),
      fmt_TabColors = given False (rf_OutputTabColors rf),
      fmt_HTMLPath = set_string rf [''output.html.path''] (rf_OutputHTMLPath rf),
      fmt_CheckstylePath = set_string rf [''output.checkstyle.path''] (rf_OutputCheckstylePath rf),
      fmt_CodeClimatePath = set_string rf [''output.code-climate.path''] (rf_OutputCodeClimatePath rf),
      fmt_JUnitXMLPath = set_string rf [''output.junit-xml.path''] (rf_OutputJUnitXMLPath rf),
      fmt_JUnitXMLExtended = rf_OutputJUnitXMLExtended rf,
      fmt_TeamCityPath = set_string rf [''output.teamcity.path''] (rf_OutputTeamCityPath rf),
      fmt_SarifPath = set_string rf [''output.sarif.path''] (rf_OutputSarifPath rf)\<rparr>"

definition overlay_issues :: "runFlags \<Rightarrow> cfgIssues" where
  "overlay_issues rf =
     \<lparr>iss_MaxIssuesPerLinter = given 0 (rf_MaxIssuesPerLinter rf),
      iss_MaxSameIssues = given 0 (rf_MaxSameIssues rf),
      iss_UniqByLine = given False (rf_UniqByLine rf),
      iss_DiffFromRevision = set_string rf [''new-from-rev''] (rf_NewFromRev rf),
      iss_DiffFromMergeBase = set_string rf [''new-from-merge-base''] (rf_NewFromMergeBase rf),
      iss_DiffPatchFilePath = set_string rf [''new-from-patch''] (rf_NewFromPatch rf),
      iss_WholeFiles = rf_WholeFiles rf,
      iss_Diff = rf_NewIssues rf,
      iss_NeedFix = rf_Fix rf\<rparr>"

definition overlay_linters :: "('s, 't) marshaller \<Rightarrow> runFlags \<Rightarrow> 's cfgLinters" where
  "overlay_linters M rf =
     (cf_Linters (zeroConfig M))
       \<lparr>lin_Default := (if rf_EnableOnly rf \<noteq> [] then ''none'' else set_string rf [''default''] (rf_Default rf)),
        lin_Enable := (if rf_EnableOnly rf \<noteq> [] then rf_EnableOnly rf else rf_Enable rf),
        lin_Disable := rf_Disable rf, lin_FastOnly := rf_FastOnly rf\<rparr>"

definition cli_overlay :: "('s, 't) marshaller \<Rightarrow> runFlags \<Rightarrow> ('s, 't) cfg" where
  "cli_overlay M rf =
     (zeroConfig M)
       \<lparr>cf_Run := overlay_run rf, cf_Linters := overlay_linters M rf, cf_Issues := overlay_issues rf,
        cf_Output := \<lparr>out_Formats = overlay_formats rf, out_SortOrder = [], out_ShowStats = given False (rf_ShowStats rf),
                      out_PathPrefix = set_string rf [''path-prefix''] (rf_PathPrefix rf),
                      out_PathMode = set_string rf [''path-mode''] (rf_PathMode rf)\<rparr>\<rparr>"

definition applyOverlay :: "('s, 't) marshaller \<Rightarrow> runFlags \<Rightarrow> ('s, 't) cfg option \<Rightarrow> ('s, 't) cfg" where
  "applyOverlay M rf base = Merge M base (Some (cli_overlay M rf))"


subsection \<open>Values of flags\<close>

definition csv_Set :: "string list \<Rightarrow> string \<Rightarrow> string list" where
  "csv_Set c v = (if v = [] then c else c @ filter (\<lambda>p. p \<noteq> []) (map TrimSpace (split_on (CHR '','') v)))"

definition bool_Set :: "string \<Rightarrow> bool result" where
  "bool_Set v =
     (let w = ToLower (TrimSpace v)
      in if w \<in> {'''', ''true'', ''1'', ''yes'', ''on''} then Inr True
         else if w \<in> {''false'', ''0'', ''no'', ''off''} then Inr False
         else Inl (''invalid boolean '' @ v))"

text \<open>A Go \<^verbatim>\<open>int\<close> has 64 bits: the accumulation wraps.\<close>

fun int_digits :: "64 word \<Rightarrow> string \<Rightarrow> 64 word option" where
  "int_digits n [] = Some n"
| "int_digits n (c # cs) = (case digit_val c of None \<Rightarrow> None | Some d \<Rightarrow> int_digits (n * 10 + of_nat d) cs)"

definition parseInt :: "string \<Rightarrow> int result" where
  "parseInt v0 =
     (let v = TrimSpace v0
      in if v = [] then Inl ''empty integer''
         else let (sign, w) = (if hd v = CHR ''-'' then (-1 :: 64 word, tl v) else if hd v = CHR ''+'' then (1, tl v) else (1, v))
              in if w = [] then Inl ''empty integer''
                 else case int_digits 0 w of
                        None \<Rightarrow> Inl (''invalid integer '' @ w)
                      | Some n \<Rightarrow> Inr (sint (sign * n)))"


subsection \<open>Laws of the field rules\<close>

named_theorems merge_laws

lemma pickString_laws [merge_laws]:
  "pickString (pickString a b) c = pickString a (pickString b c)" "pickString [] b = b" "pickString b [] = b"
  by (simp_all add: pickString_def)

lemma pickInt_laws [merge_laws]: "pickInt (pickInt a b) c = pickInt a (pickInt b c)" "pickInt 0 b = b" "pickInt b 0 = b"
  by (simp_all add: pickInt_def)

lemma appendUnique_Cons: "appendUnique b (x # xs) = appendUnique (if x \<in> set b then b else b @ [x]) xs"
  by (simp add: appendUnique_def)

lemma appendUnique_Nil [merge_laws, simp]: "appendUnique b [] = b"
  by (simp add: appendUnique_def)

lemma set_appendUnique [simp]: "set (appendUnique b v) = set b \<union> set v"
  by (induction v arbitrary: b) (auto simp: appendUnique_Cons)

lemma appendUnique_append: "appendUnique b (v @ w) = appendUnique (appendUnique b v) w"
  by (simp add: appendUnique_def)

lemma appendUnique_new: "distinct v \<Longrightarrow> set v \<inter> set b = {} \<Longrightarrow> appendUnique b v = b @ v"
  by (induction v arbitrary: b) (auto simp: appendUnique_Cons)

lemma appendUnique_distinct: "distinct b \<Longrightarrow> distinct (appendUnique b v)"
  by (induction v arbitrary: b) (auto simp: appendUnique_Cons)

lemma appendUnique_prefix: "\<exists>w. appendUnique b v = b @ w \<and> distinct w \<and> set w = set v - set b"
proof (induction v arbitrary: b)
  case (Cons x v)
  show ?case
  proof (cases "x \<in> set b")
    case True
    then show ?thesis using Cons [of b] by (auto simp: appendUnique_Cons)
  next
    case False
    obtain w where "appendUnique (b @ [x]) v = (b @ [x]) @ w" "distinct w" "set w = set v - set (b @ [x])" using Cons by blast
    then show ?thesis using False by (intro exI [of _ "x # w"]) (auto simp: appendUnique_Cons)
  qed
qed simp

lemma appendUnique_assoc [merge_laws]: "appendUnique (appendUnique a b) c = appendUnique a (appendUnique b c)"
proof (induction c arbitrary: b)
  case (Cons x c)
  have "appendUnique a (if x \<in> set b then b else b @ [x]) = (if x \<in> set a \<union> set b then appendUnique a b else appendUnique a b @ [x])"
    by (auto simp: appendUnique_append appendUnique_Cons)
  then show ?case using Cons [of "if x \<in> set b then b else b @ [x]"] by (simp add: appendUnique_Cons split: if_splits)
qed simp

lemma appendUnique_id [merge_laws]: "distinct v \<Longrightarrow> appendUnique [] v = v"
  by (simp add: appendUnique_new)

lemma mergeRun_assoc: "mergeRun (mergeRun r1 r2) r3 = mergeRun r1 (mergeRun r2 r3)"
  by (cases "run_AnalyzeTests r3") (simp_all add: mergeRun_def merge_laws)

lemma merge_blocks_assoc:
  "mergeFormats (mergeFormats f1 f2) f3 = mergeFormats f1 (mergeFormats f2 f3)"
  "mergeOutput (mergeOutput o1 o2) o3 = mergeOutput o1 (mergeOutput o2 o3)"
  "mergeLinterExclusions (mergeLinterExclusions e1 e2) e3 = mergeLinterExclusions e1 (mergeLinterExclusions e2 e3)"
  "mergeIssues (mergeIssues i1 i2) i3 = mergeIssues i1 (mergeIssues i2 i3)"
  "mergeSeverity (mergeSeverity s1 s2) s3 = mergeSeverity s1 (mergeSeverity s2 s3)"
  "mergeFormatterExclusions (mergeFormatterExclusions x1 x2) x3 = mergeFormatterExclusions x1 (mergeFormatterExclusions x2 x3)"
  "mergeFormatters M (mergeFormatters M y1 y2) y3 = mergeFormatters M y1 (mergeFormatters M y2 y3)"
  by (simp_all add: mergeFormats_def mergeOutput_def mergeLinterExclusions_def mergeIssues_def mergeSeverity_def
      mergeFormatterExclusions_def mergeFormatters_def merge_laws)

text \<open>
  The one rule that depends on two fields: a layer with the default group none starts the enabled linters afresh,
  unless a later layer names another group.
\<close>

definition resets :: "'s cfgLinters \<Rightarrow> 's cfgLinters \<Rightarrow> bool" where
  "resets l2 l3 \<longleftrightarrow> lin_Default l2 = GroupNone \<and> lin_Default l3 \<noteq> [] \<and> lin_Default l3 \<noteq> GroupNone"

lemma mergeLinters_assoc:
  assumes "\<not> resets l2 l3"
  shows "mergeLinters M (mergeLinters M l1 l2) l3 = mergeLinters M l1 (mergeLinters M l2 l3)"
proof -
  have n: "GroupNone \<noteq> []" by (simp add: GroupNone_def)
  have u: "appendUnique [] (appendUnique [] v) = appendUnique [] v" for v
    by (rule appendUnique_id) (simp add: appendUnique_distinct)
  have "lin_Enable (mergeLinters M (mergeLinters M l1 l2) l3) = lin_Enable (mergeLinters M l1 (mergeLinters M l2 l3))"
    using assms n u
    by (cases "lin_Default l3 = GroupNone"; cases "lin_Default l3 = []"; cases "lin_Default l2 = GroupNone")
      (simp_all add: mergeLinters_def resets_def pickString_def appendUnique_assoc)
  then show ?thesis by (simp add: mergeLinters_def merge_laws merge_blocks_assoc)
qed

text \<open>
  C36. Layering configurations is associative: the file under the environment under the command line gives one result,
  in whatever order the layers are joined; except that a layer with the default group none loses its effect on
  the enabled linters when it is first joined with a later layer that names another group.
\<close>

theorem Merge_assoc:
  assumes "\<not> resets (cf_Linters b) (cf_Linters c)"
  shows "Merge M (Some (Merge M a (Some b))) (Some c) = Merge M a (Some (Merge M (Some b) (Some c)))"
proof -
  have "merge_set M (merge_set M x b) c = merge_set M x (merge_set M b c)" for x
    by (simp add: merge_set_def merge_laws merge_blocks_assoc mergeRun_assoc mergeLinters_assoc [OF assms])
  then show ?thesis by (simp add: Merge_def Let_def)
qed


subsection \<open>Units\<close>

text \<open>
  No list of the configuration repeats a name, and a settings block that marshals like the zero block is the zero
  block.
\<close>

definition cfg_lists :: "('s, 't) cfg \<Rightarrow> string list list" where
  "cfg_lists c =
     [run_BuildTags (cf_Run c), out_SortOrder (cf_Output c), lin_Enable (cf_Linters c), lin_Disable (cf_Linters c),
      Presets (lin_Exclusions (cf_Linters c)), Paths (lin_Exclusions (cf_Linters c)), PathsExcept (lin_Exclusions (cf_Linters c)),
      for_Enable (cf_Formatters c), fe_Paths (for_Exclusions (cf_Formatters c))]"

definition plain_cfg :: "('s, 't) marshaller \<Rightarrow> ('s, 't) cfg \<Rightarrow> bool" where
  "plain_cfg M c \<longleftrightarrow> list_all distinct (cfg_lists c)
     \<and> (isZeroLintersSettings M (lin_Settings (cf_Linters c)) \<longrightarrow> lin_Settings (cf_Linters c) = md_lin0 M)
     \<and> (isZeroFormatterSettings M (for_Settings (cf_Formatters c)) \<longrightarrow> for_Settings (cf_Formatters c) = md_for0 M)"

text \<open>
  A missing layer changes nothing.  A missing overlay leaves the base as it is, and over a missing base the
  overlay is the result, provided none of its lists repeats a name and its settings survive marshalling.
\<close>

theorem Merge_units:
  assumes "plain_cfg M c"
  shows "Merge M (Some b) None = b \<and> Merge M None (Some c) = c"
proof -
  have l: "mergeLinters M (cf_Linters (zeroConfig M)) (cf_Linters c) = cf_Linters c"
    using assms by (simp add: mergeLinters_def mergeLinterExclusions_def zeroConfig_def plain_cfg_def cfg_lists_def merge_laws)
  have f: "mergeFormatters M (cf_Formatters (zeroConfig M)) (cf_Formatters c) = cf_Formatters c"
    using assms by (simp add: mergeFormatters_def mergeFormatterExclusions_def zeroConfig_def plain_cfg_def cfg_lists_def merge_laws)
  have r: "mergeRun (cf_Run (zeroConfig M)) (cf_Run c) = cf_Run c"
    using assms by (simp add: mergeRun_def zeroConfig_def plain_cfg_def cfg_lists_def merge_laws split: option.split)
  have o: "mergeOutput (cf_Output (zeroConfig M)) (cf_Output c) = cf_Output c"
    using assms by (simp add: mergeOutput_def mergeFormats_def zeroConfig_def plain_cfg_def cfg_lists_def merge_laws)
  have i: "mergeIssues (cf_Issues (zeroConfig M)) (cf_Issues c) = cf_Issues c" "mergeSeverity (cf_Severity (zeroConfig M)) (cf_Severity c) = cf_Severity c"
    by (simp_all add: mergeIssues_def mergeSeverity_def zeroConfig_def merge_laws)
  have "merge_set M (zeroConfig M) c = c"
    unfolding merge_set_def l f r o i by (simp add: zeroConfig_def merge_laws)
  then show ?thesis by (simp add: Merge_def)
qed

subsection \<open>What the command line can and cannot override\<close>

text \<open>
  Four flags whose explicit zero does not reach the configuration, although the flags keep the difference between unset
  and zero: \<^verbatim>\<open>--uniq-by-line=false\<close>, \<^verbatim>\<open>--show-stats=false\<close>, \<^verbatim>\<open>--max-same-issues=0\<close> and \<^verbatim>\<open>--timeout=0\<close> leave the value of the
  file.  The merge keeps \<^verbatim>\<open>--tests=false\<close>, which is a pointer there.
\<close>

lemma explicit_zero_is_lost:
  "iss_UniqByLine (cf_Issues (applyOverlay M (rf\<lparr>rf_UniqByLine := Some False\<rparr>) (Some base))) = iss_UniqByLine (cf_Issues base)
   \<and> out_ShowStats (cf_Output (applyOverlay M (rf\<lparr>rf_ShowStats := Some False\<rparr>) (Some base))) = out_ShowStats (cf_Output base)
   \<and> iss_MaxSameIssues (cf_Issues (applyOverlay M (rf\<lparr>rf_MaxSameIssues := Some 0\<rparr>) (Some base))) = iss_MaxSameIssues (cf_Issues base)
   \<and> run_Timeout (cf_Run (applyOverlay M (rf\<lparr>rf_Timeout := 0, rf_setFlags := {''timeout''}\<rparr>) (Some base))) = run_Timeout (cf_Run base)
   \<and> run_AnalyzeTests (cf_Run (applyOverlay M (rf\<lparr>rf_Tests := Some False\<rparr>) (Some base))) = Some False"
  by (simp add: applyOverlay_def Merge_def merge_set_def cli_overlay_def mergeIssues_def mergeOutput_def mergeRun_def overlay_issues_def
      overlay_run_def given_def set_int_def merge_laws)

text \<open>
  The exclusive flag: with names in \<^verbatim>\<open>--enable-only\<close> the default group is none and the enabled linters are exactly
  these names, each once; the linters disabled by the file stay disabled.
\<close>

theorem enable_only_exact:
  assumes "rf_EnableOnly rf \<noteq> []"
  shows "lin_Default (cf_Linters (applyOverlay M rf (Some base))) = GroupNone
    \<and> set (lin_Enable (cf_Linters (applyOverlay M rf (Some base)))) = set (rf_EnableOnly rf)
    \<and> distinct (lin_Enable (cf_Linters (applyOverlay M rf (Some base))))
    \<and> set (lin_Disable (cf_Linters (applyOverlay M rf (Some base)))) = set (lin_Disable (cf_Linters base)) \<union> set (rf_Disable rf)"
  using assms
  by (simp add: applyOverlay_def Merge_def merge_set_def cli_overlay_def mergeLinters_def overlay_linters_def pickString_def GroupNone_def
      appendUnique_distinct)


subsection \<open>Integers of flags\<close>

lemma int_digits_value:
  "parse_digits n cs = Some m \<Longrightarrow> int_digits (of_nat n) cs = Some (of_nat m)"
proof (induction cs arbitrary: n)
  case (Cons c cs)
  then obtain d where d: "digit_val c = Some d" "parse_digits (10 * n + d) cs = Some m" by (auto split: option.splits)
  from Cons.IH [OF d(2)] d(1) show ?case by (simp add: mult.commute)
qed simp

lemma parseInt_digits:
  "parseInt (itoa z) = Inr (sint (word_of_int z :: 64 word))"
proof -
  have dig: "\<not> is_space c \<and> ascii c \<and> c \<noteq> CHR ''-'' \<and> c \<noteq> CHR ''+''" if "c \<in> set (nat_digits n)" for c n
    using nat_digits_chars [OF that] by (auto simp: is_space_def Let_def)
  have "\<not> is_space (CHR ''-'') \<and> ascii (CHR ''-'')" by (simp add: is_space_def Let_def)
  then have t: "TrimSpace (itoa z) = itoa z" using dig by (intro TrimSpace_tight) (auto simp: itoa_def list_all_iff)
  have v: "int_digits 0 (nat_digits n) = Some (of_nat n)" for n using int_digits_value [of 0 _ n] parse_nat_digits [of n] by simp
  show ?thesis
  proof (cases "z < 0")
    case True
    have "(- 1 :: 64 word) * of_nat (nat (- z)) = word_of_int z" using True by simp
    then show ?thesis using True by (simp add: parseInt_def t Let_def) (simp add: itoa_def v)
  next
    case False
    have h: "hd (nat_digits n) \<noteq> CHR ''-''" "hd (nat_digits n) \<noteq> CHR ''+''" for n using dig [OF hd_in_set [OF nat_digits_neq]] by blast+
    have e: "itoa z = nat_digits (nat z)" "(of_nat (nat z) :: 64 word) = word_of_int z" using False by (simp_all add: itoa_def)
    show ?thesis using h t unfolding parseInt_def e(1) by (simp add: Let_def v e(2))
  qed
qed

text \<open>
  Integer flags: the decimal text of a 64-bit integer is read back exactly; the text of any other integer is
  accepted as well, and read modulo \<open>2 ^ 64\<close>.
\<close>

theorem parseInt_wraps:
  "parseInt (itoa z) = Inr (signed_take_bit 63 z) \<and> (-(2 ^ 63) \<le> z \<and> z < 2 ^ 63 \<longrightarrow> parseInt (itoa z) = Inr z)"
proof -
  have "sint (word_of_int z :: 64 word) = signed_take_bit 63 z" by (simp add: sint_sbintrunc')
  moreover have "signed_take_bit 63 z = z" if "-(2 ^ 63) \<le> z" "z < 2 ^ 63" using that by (simp add: signed_take_bit_int_eq_self)
  ultimately show ?thesis unfolding parseInt_digits by simp
qed

theorem parseInt_wraps_witness: "parseInt (itoa (2 ^ 63)) = Inr (- (2 ^ 63)) \<and> parseInt ''-42'' = Inr (- 42)"
proof -
  have "itoa (- 42) = ''-42''" by code_simp
  moreover have "signed_take_bit 63 (2 ^ 63 :: int) = - (2 ^ 63)" by (simp add: signed_take_bit_eq_take_bit_shift)
  ultimately show ?thesis using parseInt_wraps [of "2 ^ 63"] parseInt_wraps [of "- 42"] by simp
qed


subsection \<open>Concrete layers\<close>

definition demo_marshal :: "(nat, nat) marshaller" where
  "demo_marshal = \<lparr>md_lin = (\<lambda>n. Some (replicate n (CHR ''x''))), md_lin0 = 0, md_for = (\<lambda>n. Some (replicate n (CHR ''x''))), md_for0 = 0\<rparr>"

definition layer :: "string \<Rightarrow> string list \<Rightarrow> (nat, nat) cfg" where
  "layer d names = (zeroConfig demo_marshal)\<lparr>cf_Linters := (cf_Linters (zeroConfig demo_marshal))\<lparr>lin_Default := d, lin_Enable := names\<rparr>\<rparr>"

lemma layer_fields [simp]: "lin_Default (cf_Linters (layer d names)) = d" "lin_Enable (cf_Linters (layer d names)) = names"
  by (simp_all add: layer_def)

theorem Merge_assoc_witness:
  "Merge demo_marshal (Some (Merge demo_marshal (Some (layer [] [''a''])) (Some (layer ''none'' [''b''])))) (Some (layer [] [''c''])) =
   Merge demo_marshal (Some (layer [] [''a''])) (Some (Merge demo_marshal (Some (layer ''none'' [''b''])) (Some (layer [] [''c'']))))"
  by (rule Merge_assoc) (simp add: resets_def)

theorem Merge_units_witness: "Merge demo_marshal None (Some (layer ''all'' [''a'', ''b''])) = layer ''all'' [''a'', ''b'']"
proof -
  have "plain_cfg demo_marshal (layer ''all'' [''a'', ''b''])"
    by (simp add: plain_cfg_def cfg_lists_def layer_def zeroConfig_def demo_marshal_def isZeroLintersSettings_def isZeroFormatterSettings_def structuralEqual_def)
  from Merge_units [OF this] show ?thesis by blast
qed

text \<open>The exception of associativity, and the loss of repeated names over a missing base.\<close>

lemma none_forgotten:
  "lin_Enable (cf_Linters (Merge M (Some (Merge M (Some (layer [] [''a''])) (Some (layer ''none'' [''b''])))) (Some (layer ''all'' [])))) = [''b'']"
  "lin_Enable (cf_Linters (Merge M (Some (layer [] [''a''])) (Some (Merge M (Some (layer ''none'' [''b''])) (Some (layer ''all'' [])))))) = [''a'', ''b'']"
  by (simp_all add: Merge_def merge_set_def mergeLinters_def pickString_def GroupNone_def appendUnique_def Let_def)

lemma repeats_lost: "lin_Enable (cf_Linters (Merge M None (Some (layer [] [''a'', ''a''])))) = [''a'']"
  by (simp add: Merge_def merge_set_def mergeLinters_def GroupNone_def appendUnique_def zeroConfig_def Let_def)

definition demo_flags :: runFlags where
  "demo_flags = \<lparr>rf_Default = [], rf_Disable = [], rf_Enable = [], rf_EnableOnly = [''a'', ''a''], rf_FastOnly = False, rf_Concurrency = 0,
     rf_ModulesDownloadMode = [], rf_IssuesExitCode = None, rf_BuildTags = [], rf_Timeout = 0, rf_Tests = None, rf_AllowParallelRunners = False,
     rf_AllowSerialRunners = False, rf_PathPrefix = [], rf_PathMode = [], rf_ShowStats = None, rf_OutputTextPath = [],
     rf_OutputTextPrintLinterName = None, rf_OutputTextPrintIssuedLine = None, rf_OutputTextColors = None, rf_OutputJSONPath = [],
     rf_OutputTabPath = [], rf_OutputTabPrintLinterName = None, rf_OutputTabColors = None, rf_OutputHTMLPath = [], rf_OutputCheckstylePath = [],
     rf_OutputCodeClimatePath = [], rf_OutputJUnitXMLPath = [], rf_OutputJUnitXMLExtended = False, rf_OutputTeamCityPath = [],
     rf_OutputSarifPath = [], rf_MaxIssuesPerLinter = None, rf_MaxSameIssues = None, rf_UniqByLine = None, rf_NewIssues = False,
     rf_NewFromRev = [], rf_NewFromPatch = [], rf_NewFromMergeBase = [], rf_WholeFiles = False, rf_Fix = False, rf_setFlags = {}\<rparr>"

theorem enable_only_exact_witness:
  "set (lin_Enable (cf_Linters (applyOverlay demo_marshal demo_flags (Some (layer ''all'' [''b'']))))) = {''a''}"
  using enable_only_exact [of demo_flags demo_marshal "layer ''all'' [''b'']"] by (simp add: demo_flags_def)

end
