(* ===== verification/JsonMarshal.thy ===== *)
theory JsonMarshal
  imports JsonProps
begin

text \<open>
  The encoder of \<^verbatim>\<open>encoding/json\<close> as the printers use it: members in the order of the struct fields, strings quoted
  with the HTML-safe escapes, no white space, and a line feed at the end of \<^verbatim>\<open>Encode\<close>.  What is encoded is read back
  by the decoder.
\<close>

fun json_marshal :: "jval \<Rightarrow> bytes" where
  "json_marshal JNull = ''null''"
| "json_marshal (JBool x) = (if x then ''true'' else ''false'')"
| "json_marshal (JNumber x) = x"
| "json_marshal (JString x) = json_quote x"
| "json_marshal (JArray xs) = ''['' @ join_with '','' (map json_marshal xs) @ '']''"
| "json_marshal (JObject kvs) = ''{'' @ join_with '','' (map (\<lambda>p. json_quote (fst p) @ '':'' @ json_marshal (snd p)) kvs) @ ''}''"

definition json_encode :: "jval \<Rightarrow> bytes" where
  "json_encode v = json_marshal v @ [CHR 0x0A]"

definition jint :: "int \<Rightarrow> jval" where "jint n = JNumber (itoa n)"

text \<open>A member with \<^verbatim>\<open>omitempty\<close>.\<close>

definition omit_if :: "bool \<Rightarrow> bytes \<times> jval \<Rightarrow> (bytes \<times> jval) list" where
  "omit_if b m = (if b then [] else [m])"


subsection \<open>Reading back\<close>

definition reads_back :: "jval \<Rightarrow> bool" where
  "reads_back v \<longleftrightarrow> (\<forall>f d r. num_stop r \<longrightarrow> 2 * length (json_marshal v) \<le> f \<longrightarrow> jfits v d \<longrightarrow>
     parse_value f d (json_marshal v @ r) = Some (v, r))"

lemma json_marshal_hd:
  assumes "jwf v"
  shows "json_marshal v \<noteq> [] \<and> \<not> is_ws (hd (json_marshal v)) \<and> hd (json_marshal v) \<notin> {CHR '']'', CHR ''}''}"
proof (cases v)
  case (JNumber n)
  then have "n \<noteq> []" "is_digit (hd n) \<or> hd n = CHR ''-''" using assms num_form_hd [of n] by simp_all
  with JNumber show ?thesis by (auto dest: is_digit_not)
qed (simp_all add: json_quote_def, simp_all add: dq_def)

lemma read_elems:
  assumes "vs \<noteq> []" and "\<forall>v \<in> set vs. reads_back v \<and> jwf v \<and> jfits v d"
    and "2 * length (join_with '','' (map json_marshal vs)) + 1 \<le> f"
  shows "parse_elems f d (join_with '','' (map json_marshal vs) @ CHR '']'' # r) = Some (vs, r)"
  using assms
proof (induction vs arbitrary: f)
  case (Cons v vs)
  obtain g where f: "f = Suc g" using Cons.prems(3) by (cases f) auto
  have pv: "parse_value g d (json_marshal v @ q) = Some (v, q)" if "num_stop q" "2 * length (json_marshal v) \<le> g" for q
    using Cons.prems(2) that by (simp add: reads_back_def)
  show ?case
  proof (cases "vs = []")
    case True
    then show ?thesis using pv [of "CHR '']'' # r"] Cons.prems(3) by (simp add: f num_stop_def)
  next
    case False
    let ?rest = "join_with '','' (map json_marshal vs)"
    have j: "join_with '','' (map json_marshal (v # vs)) = json_marshal v @ '','' @ ?rest" using False by (simp add: join_with_Cons)
    have len: "2 * length (json_marshal v) \<le> g" "2 * length ?rest + 1 \<le> g" using Cons.prems(3) unfolding j f by auto
    then have "parse_elems g d (?rest @ CHR '']'' # r) = Some (vs, r)" using Cons.IH [OF False _ len(2)] Cons.prems(2) by simp
    then show ?thesis using pv [of "CHR '','' # ?rest @ CHR '']'' # r"] len unfolding j f by (simp add: num_stop_def)
  qed
qed simp

abbreviation marshal_member :: "bytes \<times> jval \<Rightarrow> bytes" where
  "marshal_member p \<equiv> json_quote (fst p) @ '':'' @ json_marshal (snd p)"

lemma read_members:
  assumes "kvs \<noteq> []" and "\<forall>p \<in> set kvs. reads_back (snd p) \<and> jfits (snd p) d \<and> valid_utf8 (fst p)"
    and "2 * length (join_with '','' (map marshal_member kvs)) + 1 \<le> f"
  shows "parse_members f d (join_with '','' (map marshal_member kvs) @ CHR ''}'' # r) = Some (kvs, r)"
  using assms
proof (induction kvs arbitrary: f)
  case (Cons p kvs)
  obtain k v where p: "p = (k, v)" by (cases p)
  obtain g where f: "f = Suc g" using Cons.prems(3) by (cases f) auto
  have k: "valid_utf8 k" using Cons.prems(2) p by simp
  have pv: "parse_value g d (json_marshal v @ q) = Some (v, q)" if "num_stop q" "2 * length (json_marshal v) \<le> g" for q
    using Cons.prems(2) that by (simp add: reads_back_def p)
  show ?case
  proof (cases "kvs = []")
    case True
    then show ?thesis using pv [of "CHR ''}'' # r"] Cons.prems(3)
      by (simp add: f p num_stop_def parse_members_Suc_quote [OF k] del: parse_members.simps)
  next
    case False
    let ?rest = "join_with '','' (map marshal_member kvs)"
    have j: "join_with '','' (map marshal_member (p # kvs)) = json_quote k @ '':'' @ json_marshal v @ '','' @ ?rest"
      using False by (simp add: join_with_Cons p)
    have len: "2 * length (json_marshal v) \<le> g" "2 * length ?rest + 1 \<le> g" using Cons.prems(3) unfolding j f by auto
    then have "parse_members g d (?rest @ CHR ''}'' # r) = Some (kvs, r)" using Cons.IH [OF False _ len(2)] Cons.prems(2) by simp
    then show ?thesis using pv [of "CHR '','' # ?rest @ CHR ''}'' # r"] len unfolding j f
      by (simp add: p num_stop_def parse_members_Suc_quote [OF k] del: parse_members.simps)
  qed
qed simp

lemma read_array:
  assumes "\<And>v. v \<in> set vs \<Longrightarrow> reads_back v" "jwf (JArray vs)" "2 * length (json_marshal (JArray vs)) \<le> f" "jfits (JArray vs) d"
  shows "parse_value f d (json_marshal (JArray vs) @ r) = Some (JArray vs, r)"
proof -
  obtain g where f: "f = Suc g" and g: "2 * length (join_with '','' (map json_marshal vs)) + 1 \<le> g" using assms(3) by (cases f) auto
  show ?thesis
  proof (cases vs)
    case (Cons v ws)
    let ?t = "join_with '','' (map json_marshal vs)"
    have e: "parse_elems g (d - 1) (?t @ CHR '']'' # r) = Some (vs, r)" using assms g by (intro read_elems) (auto simp: Cons)
    have v: "json_marshal v \<noteq> [] \<and> \<not> is_ws (hd (json_marshal v)) \<and> hd (json_marshal v) \<notin> {CHR '']'', CHR ''}''}"
      using assms(2) Cons by (intro json_marshal_hd) simp
    then obtain x xs where x: "json_marshal v = x # xs" by (cases "json_marshal v") auto
    then obtain ys where "?t = x # ys" by (cases ws) (auto simp: Cons)
    then show ?thesis using assms(4) e v x by (simp add: f HasPrefix_def dq_def)
  qed (use assms(4) in \<open>simp add: f HasPrefix_def dq_def\<close>)
qed

lemma read_object:
  assumes "\<And>p. p \<in> set kvs \<Longrightarrow> reads_back (snd p)" "jwf (JObject kvs)" "2 * length (json_marshal (JObject kvs)) \<le> f" "jfits (JObject kvs) d"
  shows "parse_value f d (json_marshal (JObject kvs) @ r) = Some (JObject kvs, r)"
proof -
  obtain g where f: "f = Suc g" and g: "2 * length (join_with '','' (map marshal_member kvs)) + 1 \<le> g" using assms(3) by (cases f) auto
  show ?thesis
  proof (cases "kvs = []")
    case True
    then show ?thesis using assms(4) by (simp add: f HasPrefix_def dq_def)
  next
    case False
    let ?t = "join_with '','' (map marshal_member kvs)"
    have e: "parse_members g (d - 1) (?t @ CHR ''}'' # r) = Some (kvs, r)" using assms g False by (intro read_members) auto
    obtain ys where t: "?t = dq # ys" using False by (cases kvs; cases "tl kvs") (auto simp: json_quote_def)
    have "object_of kvs = kvs" using assms(2) by (simp add: object_of_distinct)
    then show ?thesis using assms(4) e t by (simp add: f HasPrefix_def) (simp add: dq_def)
  qed
qed

lemma json_marshal_reads_back: "jwf v \<Longrightarrow> reads_back v"
proof (induction v)
  case JNull
  show ?case using parse_other_back(1) by (simp add: reads_back_def parses_back_def del: parser_simps)
next
  case (JBool b)
  show ?case using parse_other_back(2) [of b] by (simp add: reads_back_def parses_back_def del: parser_simps)
next
  case (JNumber n)
  then show ?case using parse_number_back [of n] by (simp add: reads_back_def parses_back_def del: parser_simps)
next
  case (JString s)
  then show ?case using parse_other_back(3) [of s] by (simp add: reads_back_def parses_back_def del: parser_simps)
next
  case (JArray vs)
  then have r: "reads_back v" if "v \<in> set vs" for v using that by simp
  show ?case unfolding reads_back_def by (intro allI impI read_array r JArray.prems) simp_all
next
  case (JObject kvs)
  then have r: "reads_back (snd p)" if "p \<in> set kvs" for p using that by (cases p) (fastforce simp: snds.simps)
  show ?case unfolding reads_back_def by (intro allI impI read_object r JObject.prems) simp_all
qed

text \<open>Decoding the output of \<^verbatim>\<open>Encode\<close> gives the encoded object.\<close>

lemma json_decode_encode:
  assumes "jwf (JObject kvs)" "jfits (JObject kvs) max_depth"
  shows "json_decode (json_encode (JObject kvs)) = Some (JObject kvs)"
proof -
  have "reads_back (snd p)" if "p \<in> set kvs" for p using that assms(1) by (intro json_marshal_reads_back) simp
  then have "parse_value (2 * length (json_encode (JObject kvs)) + 1) max_depth (json_encode (JObject kvs)) = Some (JObject kvs, [CHR 0x0A])"
    unfolding json_encode_def using assms by (intro read_object) simp_all
  then show ?thesis by (simp only: json_decode_def option.map fst_conv)
qed

lemma nat_digits_form: "int_form (nat_digits n) \<and> (0 < n \<longrightarrow> hd (nat_digits n) \<noteq> CHR ''0'')"
proof (induction n rule: nat_digits.induct)
  case (1 n)
  have d: "digits (nat_digits n)" using nat_digits_chars [of _ n] by (auto simp: digits_def list_all_iff is_digit_def ord_def)
  show ?case
  proof (cases "n < 10")
    case True
    then have "nat_digits n = [char_of (48 + n)]" by (simp add: nat_digits.simps [of n])
    moreover have "char_of (48 + n) \<noteq> CHR ''0''" if "0 < n"
    proof
      assume "char_of (48 + n) = CHR ''0''"
      then have "(of_char (char_of (48 + n)) :: nat) = of_char (CHR ''0'')" by simp
      then show False using that True by simp
    qed
    ultimately show ?thesis using d by (cases "n = 0") (simp_all add: int_form_def)
  next
    case False
    then have "nat_digits n = nat_digits (n div 10) @ [char_of (48 + n mod 10)]" by (simp add: nat_digits.simps [of n])
    then have "hd (nat_digits n) \<noteq> CHR ''0''" using 1 False by (simp add: nat_digits_neq)
    then show ?thesis using d by (simp add: int_form_def)
  qed
qed

lemma itoa_form: "num_form (itoa n)"
proof -
  have "num_form (sg @ nat_digits m)" if "sg \<in> {[], ''-''}" for sg m
    unfolding num_form_def using that nat_digits_form [of m] by (intro exI [of _ sg] exI [of _ "nat_digits m"] exI [of _ "[]"]) (simp add: frac_form_def exp_form_def)
  from this [of "''-''"] this [of "[]"] show ?thesis by (simp add: itoa_def)
qed

lemma jint_simps [simp]: "jwf (jint n)" "jfits (jint n) d"
  by (simp_all add: jint_def itoa_form)

end
