(* ===== verification/Printers.thy ===== *)
theory Printers
  imports JsonMarshal Diagnostics
begin

text \<open>
  The printers (\<^verbatim>\<open>internal/output\<close>: \<^verbatim>\<open>text.go\<close>, \<^verbatim>\<open>tab.go\<close>, \<^verbatim>\<open>json.go\<close>, \<^verbatim>\<open>codeclimate.go\<close>, \<^verbatim>\<open>teamcity.go\<close>, \<^verbatim>\<open>sarif.go\<close>,
  \<^verbatim>\<open>checkstyle.go\<close>, \<^verbatim>\<open>junitxml.go\<close>, \<^verbatim>\<open>html.go\<close>, \<^verbatim>\<open>printer.go\<close>).  Text, TeamCity and the JSON formats are modelled byte for byte; for
  the others the value handed to \<^verbatim>\<open>encoding/xml\<close>, \<^verbatim>\<open>html/template\<close> and \<^verbatim>\<open>text/tabwriter\<close> is modelled and those encoders
  are arguments, as is MD5.  A sanitizer only records what it rejects, so each call is modelled on a fresh one; severities
  are ASCII.
\<close>

abbreviation lf :: char where "lf \<equiv> CHR 0x0A"
abbreviation cr :: char where "cr \<equiv> CHR 0x0D"
abbreviation tab :: char where "tab \<equiv> CHR 0x09"
abbreviation sq :: char where "sq \<equiv> CHR 0x27"


subsection \<open>Text and tab\<close>

definition printOne :: "bool \<Rightarrow> diagnostic \<Rightarrow> bytes" where
  "printOne printLinterName d =
     formatPos (Pos d) @ '': '' @ (if printLinterName then Message d @ '' ('' @ Linter d @ '')'' else Message d) @ [lf]"

definition printSource :: "diagnostic \<Rightarrow> bytes" where
  "printSource d = concat (map (\<lambda>l. l @ [lf]) (SourceLines d))"

text \<open>A negative column makes the capacity of the buffer negative: the allocation panics.\<close>

definition printUnderline :: "diagnostic \<Rightarrow> bytes result" where
  "printUnderline d =
     (case SourceLines d of
        [line] \<Rightarrow>
          (let col0 = Column (Pos d) - 1
           in if Column (Pos d) = 0 then Inr []
              else if col0 < 0 then Inl ''makeslice: cap out of range''
              else Inr (map (\<lambda>c. if c = tab then tab else CHR '' '') (take (nat col0) line) @ ''^'' @ [lf]))
      | _ \<Rightarrow> Inr [])"

fun Text_Print :: "bool \<Rightarrow> bool \<Rightarrow> diagnostic list \<Rightarrow> bytes result" where
  "Text_Print name issued [] = Inr []"
| "Text_Print name issued (d # ds) =
     ebind (if issued then ebind (printUnderline d) (\<lambda>u. Inr (printOne name d @ printSource d @ u)) else Inr (printOne name d)) (\<lambda>b.
       ebind (Text_Print name issued ds) (\<lambda>bs. Inr (b @ bs)))"

definition tab_row :: "bool \<Rightarrow> diagnostic \<Rightarrow> bytes" where
  "tab_row printLinterName d =
     formatPos (Pos d) @ [tab] @ (if printLinterName then Linter d @ [tab] @ Message d else Message d) @ [lf]"

definition Tab_Print :: "(bytes \<Rightarrow> bytes) \<Rightarrow> bool \<Rightarrow> diagnostic list \<Rightarrow> bytes" where
  "Tab_Print tabwriter name ds = tabwriter (concat (map (tab_row name) ds))"


subsection \<open>JSON\<close>

definition position_json :: "position \<Rightarrow> jval" where
  "position_json p = JObject ([(''filename'', JString (Filename p)), (''line'', jint (Line p))] @ omit_if (Column p = 0) (''column'', jint (Column p)))"

definition edit_json :: "textedit \<Rightarrow> jval" where
  "edit_json e = JObject [(''start'', position_json (Start e)), (''end'', position_json (End e)), (''new_text'', JString (NewText e))]"

definition fix_json :: "suggestedfix \<Rightarrow> jval" where
  "fix_json s = JObject (omit_if (FixMessage s = []) (''message'', JString (FixMessage s))
     @ omit_if (TextEdits s = []) (''text_edits'', JArray (map edit_json (TextEdits s))))"

definition related_json :: "relatedinformation \<Rightarrow> jval" where
  "related_json r = JObject [(''position'', position_json (RelPosition r)), (''message'', JString (RelMessage r))]"

definition diagnostic_json :: "diagnostic \<Rightarrow> jval" where
  "diagnostic_json d = JObject
     ([(''linter'', JString (Linter d)), (''message'', JString (Message d))]
      @ omit_if (Severity d = []) (''severity'', JString (Severity d))
      @ [(''pos'', position_json (Pos d))]
      @ omit_if (SourceLines d = []) (''source_lines'', JArray (map JString (SourceLines d)))
      @ omit_if (SuggestedFixes d = []) (''suggested_fixes'', JArray (map fix_json (SuggestedFixes d)))
      @ omit_if (Related d = []) (''related'', JArray (map related_json (Related d))))"

definition json_payload :: "diagnostic list \<Rightarrow> jval" where
  "json_payload ds = JObject [(''issues'', JArray (map diagnostic_json ds))]"

definition JSON_Print :: "diagnostic list \<Rightarrow> bytes" where
  "JSON_Print ds = json_encode (json_payload ds)"


subsection \<open>Code Climate\<close>

definition level_of :: "string list \<Rightarrow> string \<Rightarrow> string \<Rightarrow> string" where
  "level_of al df sev = snd (sanitize (newSeveritySanitizer al df) sev)"

definition fingerprint :: "(bytes \<Rightarrow> bytes) \<Rightarrow> diagnostic \<Rightarrow> string" where
  "fingerprint md5 d =
     ToUpper (hex_encode (md5 (Filename (Pos d) @ Message d @ (case SourceLines d of [] \<Rightarrow> [] | l # _ \<Rightarrow> l))))"

definition codeClimateSeverity :: "string \<Rightarrow> string" where
  "codeClimateSeverity = level_of [''info'', ''minor'', ''major'', ''critical'', ''blocker''] ''critical''"

definition codeClimateIssue :: "(bytes \<Rightarrow> bytes) \<Rightarrow> diagnostic \<Rightarrow> jval" where
  "codeClimateIssue md5 d = JObject
     ([(''description'', JString (Description d)), (''check_name'', JString (Linter d))]
      @ omit_if (codeClimateSeverity (Severity d) = []) (''severity'', JString (codeClimateSeverity (Severity d)))
      @ [(''fingerprint'', JString (fingerprint md5 d)),
         (''location'', JObject [(''path'', JString (Filename (Pos d))), (''lines'', JObject [(''begin'', jint (Line (Pos d)))])])])"

definition CodeClimate_Print :: "(bytes \<Rightarrow> bytes) \<Rightarrow> diagnostic list \<Rightarrow> bytes" where
  "CodeClimate_Print md5 ds = json_encode (JArray (map (codeClimateIssue md5) ds))"


subsection \<open>TeamCity\<close>

text \<open>\<^verbatim>\<open>range\<close> over a string: the encodings of its runes; a byte that starts no sequence is the replacement character.\<close>

function runes :: "bytes \<Rightarrow> bytes list" where
  "runes bs =
     (if bs = [] then []
      else if utf8_len bs = 0 then rune_error # runes (tl bs)
      else take (utf8_len bs) bs # runes (drop (utf8_len bs) bs))"
  by pat_completeness auto
termination
  by (relation "measure length") auto

declare runes.simps [simp del]

definition tc_escape :: "bytes \<Rightarrow> bytes" where
  "tc_escape r =
     (if r = [sq] then [CHR ''|'', sq] else if r = [lf] then ''|n'' else if r = [cr] then ''|r''
      else if r = ''|'' then ''||'' else if r = ''['' then ''|['' else if r = '']'' then ''|]'' else r)"

definition tc_cost :: "bytes \<Rightarrow> nat" where
  "tc_cost r = (if tc_escape r \<noteq> r then length (tc_escape r) else 1)"

fun tc_attr :: "int \<Rightarrow> nat \<Rightarrow> bytes list \<Rightarrow> bytes" where
  "tc_attr limit used [] = []"
| "tc_attr limit used (r # rs) =
     (if limit < int (used + tc_cost r) then [] else tc_escape r @ tc_attr limit (used + tc_cost r) rs)"

definition teamcityAttr :: "bytes \<Rightarrow> int \<Rightarrow> bytes" where
  "teamcityAttr s limit = (if limit \<le> 0 then [] else tc_attr limit 0 (runes s))"

definition tcSmallLimit :: int where "tcSmallLimit = 255"
definition tcLargeLimit :: int where "tcLargeLimit = 4000"

definition teamcitySeverity :: "string \<Rightarrow> string" where
  "teamcitySeverity sev = level_of [''INFO'', ''ERROR'', ''WARNING'', ''WEAK WARNING''] ''ERROR'' (ToUpper sev)"

definition tc_type :: "string \<Rightarrow> bytes" where
  "tc_type linter =
     ''##teamcity[inspectionType id='' @ [sq] @ teamcityAttr linter tcSmallLimit @ [sq] @ '' name='' @ [sq] @ teamcityAttr linter tcSmallLimit @ [sq]
     @ '' description='' @ [sq] @ teamcityAttr linter tcLargeLimit @ [sq]
     @ '' category='' @ [sq] @ teamcityAttr ''Golangci-lint reports'' tcSmallLimit @ [sq] @ '']'' @ [lf]"

definition tc_inspection :: "diagnostic \<Rightarrow> bytes" where
  "tc_inspection d =
     ''##teamcity[inspection typeId='' @ [sq] @ teamcityAttr (Linter d) tcSmallLimit @ [sq] @ '' message='' @ [sq] @ teamcityAttr (Message d) tcLargeLimit @ [sq]
     @ '' file='' @ [sq] @ teamcityAttr (Filename (Pos d)) tcLargeLimit @ [sq] @ '' line='' @ [sq] @ itoa (Line (Pos d)) @ [sq]
     @ '' SEVERITY='' @ [sq] @ teamcitySeverity (Severity d) @ [sq] @ '']'' @ [lf]"

fun tc_print :: "string list \<Rightarrow> diagnostic list \<Rightarrow> bytes" where
  "tc_print seen [] = []"
| "tc_print seen (d # ds) =
     (if Linter d \<in> set seen then tc_inspection d @ tc_print seen ds
      else tc_type (Linter d) @ tc_inspection d @ tc_print (Linter d # seen) ds)"

definition TeamCity_Print :: "diagnostic list \<Rightarrow> bytes" where
  "TeamCity_Print ds = tc_print [] ds"


subsection \<open>Grouping by file\<close>

text \<open>
  A map from names to positions in a list of groups: a value goes to the end of the group of its name, a new name opens a
  new group at the end.
\<close>

definition group_add :: "'k \<Rightarrow> 'v \<Rightarrow> ('k \<times> 'v list) list \<Rightarrow> ('k \<times> 'v list) list" where
  "group_add k v gs = (if k \<in> fst ` set gs then map (\<lambda>g. if fst g = k then (k, snd g @ [v]) else g) gs else gs @ [(k, [v])])"

definition group_all :: "('d \<Rightarrow> 'k) \<Rightarrow> ('d \<Rightarrow> 'v) \<Rightarrow> 'd list \<Rightarrow> ('k \<times> 'v list) list" where
  "group_all key val ds = fold (\<lambda>d. group_add (key d) (val d)) ds []"

definition in_name_order :: "(string \<times> 'v list) list \<Rightarrow> (string \<times> 'v list) list" where
  "in_name_order gs = map (\<lambda>n. (n, the (map_of gs n))) (sort (map fst gs))"

record checkstyleError =
  ce_Column :: int
  ce_Line :: int
  ce_Message :: string
  ce_Severity :: string
  ce_Source :: string

definition checkstyle_error :: "diagnostic \<Rightarrow> checkstyleError" where
  "checkstyle_error d =
     \<lparr>ce_Column = Column (Pos d), ce_Line = Line (Pos d), ce_Message = Message d,
      ce_Severity = level_of [''ignore'', ''info'', ''warning'', ''error''] ''error'' (Severity d), ce_Source = Linter d\<rparr>"

definition checkstyle_files :: "diagnostic list \<Rightarrow> (string \<times> checkstyleError list) list" where
  "checkstyle_files ds = in_name_order (group_all (Filename \<circ> Pos) checkstyle_error ds)"

definition xml_header :: bytes where
  "xml_header = ''<?xml version='' @ [dq] @ ''1.0'' @ [dq] @ '' encoding='' @ [dq] @ ''UTF-8'' @ [dq] @ ''?>'' @ [lf]"

definition Checkstyle_Print :: "((string \<times> checkstyleError list) list \<Rightarrow> bytes result) \<Rightarrow> diagnostic list \<Rightarrow> bytes result" where
  "Checkstyle_Print xml ds = ebind (xml (checkstyle_files ds)) (\<lambda>b. Inr (xml_header @ b @ [lf]))"

record junitCase =
  jc_Name :: string
  jc_ClassName :: string
  jc_FailureType :: string
  jc_FailureMessage :: string
  jc_Content :: string
  jc_File :: string
  jc_Line :: int

definition junit_case :: "bool \<Rightarrow> diagnostic \<Rightarrow> junitCase" where
  "junit_case extended d =
     \<lparr>jc_Name = Linter d, jc_ClassName = PosString d, jc_FailureType = Severity d, jc_FailureMessage = PosString d @ '': '' @ Message d,
      jc_Content = Severity d @ '': '' @ Message d @ [lf] @ ''Category: '' @ Linter d @ [lf] @ ''File: '' @ Filename (Pos d) @ [lf]
        @ ''Line: '' @ itoa (Line (Pos d)) @ [lf] @ ''Details: '' @ join_with [lf] (SourceLines d),
      jc_File = (if extended then Filename (Pos d) else []), jc_Line = (if extended then Line (Pos d) else 0)\<rparr>"

text \<open>A suite with its counts of tests, errors and failures.\<close>

record junitSuite =
  js_Suite :: string
  js_Tests :: nat
  js_Errors :: nat
  js_Failures :: nat
  js_TestCases :: "junitCase list"

definition junit_suites :: "bool \<Rightarrow> diagnostic list \<Rightarrow> junitSuite list" where
  "junit_suites extended ds =
     map (\<lambda>(n, cs). \<lparr>js_Suite = n, js_Tests = length cs, js_Errors = 0, js_Failures = length cs, js_TestCases = cs\<rparr>)
       (in_name_order (group_all (Filename \<circ> Pos) (junit_case extended) ds))"

definition JUnitXML_Print :: "(junitSuite list \<Rightarrow> bytes result) \<Rightarrow> bool \<Rightarrow> diagnostic list \<Rightarrow> bytes result" where
  "JUnitXML_Print xml extended ds = xml (junit_suites extended ds)"

record htmlRow =
  hr_Pos :: string
  hr_Linter :: string
  hr_Severity :: string
  hr_Message :: string
  hr_Code :: string

definition html_row :: "diagnostic \<Rightarrow> htmlRow" where
  "html_row d =
     \<lparr>hr_Pos = PosString d, hr_Linter = Linter d, hr_Severity = (if Severity d = [] then SeverityError else Severity d),
      hr_Message = TrimSpace (Message d), hr_Code = join_with [lf] (SourceLines d)\<rparr>"

definition HTML_Print :: "(nat \<Rightarrow> htmlRow list \<Rightarrow> bytes result) \<Rightarrow> diagnostic list \<Rightarrow> bytes result" where
  "HTML_Print tmpl ds = tmpl (length ds) (map html_row ds)"


subsection \<open>SARIF\<close>

definition sarifLevel :: "string \<Rightarrow> string" where
  "sarifLevel = level_of [''none'', ''note'', ''warning'', ''error''] ''error''"

definition sarif_message :: "string \<Rightarrow> jval" where "sarif_message t = JObject [(''text'', JString t)]"

definition sarif_artifact :: "string \<Rightarrow> jval" where "sarif_artifact uri = JObject [(''uri'', JString uri), (''index'', jint 0)]"

definition sarif_replacement :: "textedit \<Rightarrow> jval" where
  "sarif_replacement ed = JObject
     ([(''deletedRegion'', JObject
          ([(''startLine'', jint (Line (Start ed))), (''startColumn'', jint (max (Column (Start ed)) 1))]
           @ omit_if (Line (End ed) = 0) (''endLine'', jint (Line (End ed)))
           @ [(''endColumn'', jint (max (Column (End ed)) 1))]))]
      @ omit_if (NewText ed = []) (''insertedContent'', sarif_message (NewText ed)))"

definition sarif_changes :: "textedit list \<Rightarrow> (string \<times> jval list) list" where
  "sarif_changes eds = group_all (Filename \<circ> Start) sarif_replacement eds"

definition sarif_change :: "string \<times> jval list \<Rightarrow> jval" where
  "sarif_change c = JObject [(''artifactLocation'', sarif_artifact (fst c)), (''replacements'', JArray (snd c))]"

definition sarif_fix :: "suggestedfix \<Rightarrow> jval" where
  "sarif_fix sf = JObject
     (omit_if (FixMessage sf = []) (''description'', sarif_message (FixMessage sf))
      @ [(''artifactChanges'', JArray (map sarif_change (sarif_changes (TextEdits sf))))])"

definition sarifFixes :: "diagnostic \<Rightarrow> jval list" where
  "sarifFixes d = map sarif_fix (filter (\<lambda>sf. TextEdits sf \<noteq> []) (SuggestedFixes d))"

definition sarif_column :: "diagnostic \<Rightarrow> int" where
  "sarif_column d = (if Column (Pos d) < 1 then 1 else Column (Pos d))"

definition sarif_result :: "diagnostic \<Rightarrow> jval" where
  "sarif_result d = JObject
     ([(''ruleId'', JString (Linter d)), (''level'', JString (sarifLevel (Severity d))), (''message'', sarif_message (Message d)),
       (''locations'', JArray [JObject [(''physicalLocation'', JObject
          [(''artifactLocation'', sarif_artifact (Filename (Pos d))),
           (''region'', JObject [(''startLine'', jint (Line (Pos d))), (''startColumn'', jint (sarif_column d))])])]])]
      @ omit_if (sarifFixes d = []) (''fixes'', JArray (sarifFixes d)))"

definition sarifSchemaURI :: string where "sarifSchemaURI = ''https://schemastore.azurewebsites.net/schemas/json/sarif-2.1.0-rtm.6.json''"

text \<open>The properties of the run are the members of a map, in key order; an empty map is left out.\<close>

definition sarif_run :: "(bytes \<times> jval) list \<Rightarrow> diagnostic list \<Rightarrow> jval" where
  "sarif_run props ds = JObject
     ([(''tool'', JObject [(''driver'', JObject [(''name'', JString ''plaid-lint'')])]), (''results'', JArray (map sarif_result ds))]
      @ omit_if (props = []) (''properties'', JObject props))"

definition sarif_output :: "(bytes \<times> jval) list \<Rightarrow> diagnostic list \<Rightarrow> jval" where
  "sarif_output props ds = JObject
     [(''version'', JString ''2.1.0''), (''$schema'', JString sarifSchemaURI), (''runs'', JArray [sarif_run props ds])]"

definition Sarif_Print :: "(bytes \<times> jval) list \<Rightarrow> diagnostic list \<Rightarrow> bytes" where
  "Sarif_Print props ds = json_encode (sarif_output props ds)"


subsection \<open>The printer of a format\<close>

record encoders =
  enc_md5 :: "bytes \<Rightarrow> bytes"
  enc_tab :: "bytes \<Rightarrow> bytes"
  enc_checkstyle :: "(string \<times> checkstyleError list) list \<Rightarrow> bytes result"
  enc_junit :: "junitSuite list \<Rightarrow> bytes result"
  enc_html :: "nat \<Rightarrow> htmlRow list \<Rightarrow> bytes result"

definition NewPrinter :: "encoders \<Rightarrow> string \<Rightarrow> (diagnostic list \<Rightarrow> bytes result) result" where
  "NewPrinter X fmt =
     (if fmt = ''text'' then Inr (Text_Print True True)
      else if fmt = ''json'' then Inr (\<lambda>ds. Inr (JSON_Print ds))
      else if fmt = ''tab'' then Inr (\<lambda>ds. Inr (Tab_Print (enc_tab X) True ds))
      else if fmt = ''html'' then Inr (HTML_Print (enc_html X))
      else if fmt = ''checkstyle'' then Inr (Checkstyle_Print (enc_checkstyle X))
      else if fmt = ''code-climate'' then Inr (\<lambda>ds. Inr (CodeClimate_Print (enc_md5 X) ds))
      else if fmt = ''junit-xml'' then Inr (JUnitXML_Print (enc_junit X) False)
      else if fmt = ''teamcity'' then Inr (\<lambda>ds. Inr (TeamCity_Print ds))
      else if fmt = ''sarif'' then Inr (\<lambda>ds. Inr (Sarif_Print [] ds))
      else Inl (''unknown format '' @ fmt))"

definition AllFormats :: "string list" where
  "AllFormats = [''text'', ''json'', ''tab'', ''html'', ''checkstyle'', ''code-climate'', ''junit-xml'', ''teamcity'', ''sarif'']"

end
