(* ===== verification/RunCommand.thy ===== *)
theory RunCommand
  imports ConfigMerge EngineRun UnitWorker Printers
begin

text \<open>
  The command \<^verbatim>\<open>plaid-lint run\<close> (\<^verbatim>\<open>cmd/plaid-lint/run.go\<close>): where reports are written, the confinement of output
  paths that come from a configuration file, the printing of the sorted diagnostics to every configured format,
  and the order of the stages with their exit codes.

  The operating system and the printers are arguments: \<open>cx\<close> holds the working directory, the resolution of symbolic
  links before and after a directory was created, and the outcome of creating directories and files; \<open>pr\<close> holds the
  encoders the printers call.  The directories a call tries to create are part of its result.  Paths in messages are not
  quoted the way \<^verbatim>\<open>%q\<close> does.  Profiles, traces, the metrics file and the settings of the Go runtime are left out: their
  failures are warnings.
\<close>

subsection \<open>Output paths\<close>

record pathEnv =
  cx_wd :: "string result"
  cx_eval :: "string \<Rightarrow> string result"
  cx_mkdir :: "string \<Rightarrow> string option"
  cx_evalAfter :: "string \<Rightarrow> string result"
  cx_open :: "string \<Rightarrow> string option"
  cx_create :: "string \<Rightarrow> string option"

definition withinRoot :: "string \<Rightarrow> string \<Rightarrow> bool" where
  "withinRoot root p \<longleftrightarrow> p = root \<or> HasPrefix p (root @ ''/'')"

definition confined_abs :: "string \<Rightarrow> string \<Rightarrow> string" where
  "confined_abs root path = Clean (if IsAbs path then path else Join [root, path])"

definition resolveConfinedOutputPath :: "pathEnv \<Rightarrow> string \<Rightarrow> string list \<times> string result" where
  "resolveConfinedOutputPath cx path =
     (case cx_wd cx of
        Inl e \<Rightarrow> ([], Inl e)
      | Inr wd \<Rightarrow>
          (case cx_eval cx wd of
             Inl e \<Rightarrow> ([], Inl e)
           | Inr root \<Rightarrow>
               (let abs = confined_abs root path; dir = Dir abs
                in if \<not> withinRoot root abs then ([], Inl (''output path '' @ path @ '' escapes the working directory''))
                   else case cx_mkdir cx dir of
                          Some e \<Rightarrow> ([dir], Inl e)
                        | None \<Rightarrow>
                            (case cx_evalAfter cx dir of
                               Inl e \<Rightarrow> ([dir], Inl e)
                             | Inr realDir \<Rightarrow>
                                 if \<not> withinRoot root realDir
                                 then ([dir], Inl (''output path '' @ path @ '' escapes the working directory via a symlinked directory''))
                                 else ([dir], Inr abs)))))"

datatype outputPathAuthority = outputPathConfined | outputPathOperator

datatype target = ToStdout | ToStderr | ToFile string

definition openOperatorOutputFile :: "pathEnv \<Rightarrow> string \<Rightarrow> string list \<times> target result" where
  "openOperatorOutputFile cx path =
     (case cx_mkdir cx (Dir path) of
        Some e \<Rightarrow> ([Dir path], Inl e)
      | None \<Rightarrow> ([Dir path], case cx_create cx path of Some e \<Rightarrow> Inl e | None \<Rightarrow> Inr (ToFile path)))"

definition openSink :: "pathEnv \<Rightarrow> string \<Rightarrow> outputPathAuthority \<Rightarrow> string list \<times> target result" where
  "openSink cx path authority =
     (if path = [] \<or> path = ''stdout'' then ([], Inr ToStdout)
      else if path = ''stderr'' then ([], Inr ToStderr)
      else if authority = outputPathOperator then openOperatorOutputFile cx path
      else case resolveConfinedOutputPath cx path of
             (ds, Inl e) \<Rightarrow> (ds, Inl e)
           | (ds, Inr resolved) \<Rightarrow> (ds, case cx_open cx resolved of Some e \<Rightarrow> Inl e | None \<Rightarrow> Inr (ToFile resolved)))"

definition outputPathAuthorityForFlag :: "runFlags option \<Rightarrow> string \<Rightarrow> outputPathAuthority" where
  "outputPathAuthorityForFlag rfo flag =
     (case rfo of Some rf \<Rightarrow> if wasSet rf [flag] then outputPathOperator else outputPathConfined | None \<Rightarrow> outputPathConfined)"


subsection \<open>Reports\<close>

record sink =
  sk_format :: string
  sk_path :: string
  sk_authority :: outputPathAuthority

definition format_paths :: "cfgFormats \<Rightarrow> (string \<times> string \<times> string) list" where
  "format_paths f =
     [(''text'', fmt_TextPath f, ''output.text.path''), (''json'', fmt_JSONPath f, ''output.json.path''),
      (''tab'', fmt_TabPath f, ''output.tab.path''), (''html'', fmt_HTMLPath f, ''output.html.path''),
      (''checkstyle'', fmt_CheckstylePath f, ''output.checkstyle.path''), (''code-climate'', fmt_CodeClimatePath f, ''output.code-climate.path''),
      (''junit-xml'', fmt_JUnitXMLPath f, ''output.junit-xml.path''), (''teamcity'', fmt_TeamCityPath f, ''output.teamcity.path''),
      (''sarif'', fmt_SarifPath f, ''output.sarif.path'')]"

definition configured_sinks :: "cfgFormats \<Rightarrow> runFlags option \<Rightarrow> sink list" where
  "configured_sinks f rfo =
     List.map_filter
       (\<lambda>(fmt, path, flag). if path \<noteq> [] then Some \<lparr>sk_format = fmt, sk_path = path, sk_authority = outputPathAuthorityForFlag rfo flag\<rparr> else None)
       (format_paths f)"

definition sinks_of :: "cfgFormats \<Rightarrow> runFlags option \<Rightarrow> sink list" where
  "sinks_of f rfo =
     (let sinks = configured_sinks f rfo
      in if sinks = [] then [\<lparr>sk_format = ''text'', sk_path = ''stdout'', sk_authority = outputPathOperator\<rparr>] else sinks)"

text \<open>
  Printing one sink after the other; \<open>cl s\<close> is the error of closing the file of a sink.  What a printer wrote before it
  failed is not part of the result.
\<close>

fun print_sinks ::
  "pathEnv \<Rightarrow> encoders \<Rightarrow> (sink \<Rightarrow> string option) \<Rightarrow> diagnostic list \<Rightarrow> sink list
   \<Rightarrow> (target \<times> bytes) list \<Rightarrow> (target \<times> bytes) list \<times> string option" where
  "print_sinks cx pr cl ds [] written = (written, None)"
| "print_sinks cx pr cl ds (s # sinks) written =
     (case snd (openSink cx (sk_path s) (sk_authority s)) of
        Inl e \<Rightarrow> (written, Some (''open '' @ sk_path s @ '': '' @ e))
      | Inr t \<Rightarrow>
          (case NewPrinter pr (sk_format s) of
             Inl e \<Rightarrow> (written, Some (''printer '' @ sk_format s @ '': '' @ e))
           | Inr printer \<Rightarrow>
               (case printer ds of
                  Inl e \<Rightarrow> (written, Some (''print '' @ sk_format s @ '': '' @ e))
                | Inr text \<Rightarrow>
                    (case (case t of ToFile _ \<Rightarrow> cl s | _ \<Rightarrow> None) of
                       Some e \<Rightarrow> (written @ [(t, text)], Some (''close '' @ sk_path s @ '': '' @ e))
                     | None \<Rightarrow> print_sinks cx pr cl ds sinks (written @ [(t, text)])))))"

definition emitDiagnostics ::
  "pathEnv \<Rightarrow> encoders \<Rightarrow> (sink \<Rightarrow> string option) \<Rightarrow> cfgFormats \<Rightarrow> runFlags option
   \<Rightarrow> diagnostic list \<Rightarrow> (target \<times> bytes) list \<times> string option" where
  "emitDiagnostics cx pr cl f rfo diags = print_sinks cx pr cl (Sort diags) (sinks_of f rfo) []"


subsection \<open>Stages and exit codes\<close>

definition exitIssuesFound :: nat where "exitIssuesFound = 1"

definition resolveConcurrency :: "int \<Rightarrow> int \<times> bool" where
  "resolveConcurrency n = (if n < 0 then (0, True) else (n, False))"

text \<open>What the stages of a run yield: the loader, the validators, the registry, the filter and the engine.\<close>

record ('s, 't, 'r, 'f) runStages =
  st_marshal :: "('s, 't) marshaller"
  st_parse :: "runFlags option"
  st_help :: bool
  st_analyzers :: "string list"
  st_load :: "('s, 't) cfg result"
  st_validate :: "('s, 't) cfg \<Rightarrow> string list"
  st_build :: "('s, 't) cfg \<Rightarrow> (('s, 't) cfg \<times> 'r) result"
  st_select :: "'r \<Rightarrow> string list \<Rightarrow> 'r result"
  st_root :: "string result"
  st_filter :: "('s, 't) cfg \<Rightarrow> 'f result"
  st_engine :: "('s, 't) cfg \<Rightarrow> 'r \<Rightarrow> 'f \<Rightarrow> diagnostic list result"
  st_env :: pathEnv
  st_print :: encoders
  st_close :: "sink \<Rightarrow> string option"

definition issues_exit :: "runFlags \<Rightarrow> ('s, 't) cfg \<Rightarrow> diagnostic list \<Rightarrow> int" where
  "issues_exit rf c ds =
     (if ds = [] then int exitSuccess
      else case rf_IssuesExitCode rf of
             Some v \<Rightarrow> v
           | None \<Rightarrow> if run_ExitCodeIfIssuesFound (cf_Run c) \<noteq> 0 then run_ExitCodeIfIssuesFound (cf_Run c) else int exitIssuesFound)"

definition select_stage :: "('s, 't, 'r, 'f) runStages \<Rightarrow> 'r \<Rightarrow> 'r result" where
  "select_stage S reg = (if st_analyzers S \<noteq> [] then st_select S reg (st_analyzers S) else Inr reg)"

definition report_stage :: "('s, 't, 'r, 'f) runStages \<Rightarrow> runFlags \<Rightarrow> ('s, 't) cfg \<Rightarrow> diagnostic list \<Rightarrow> (target \<times> bytes) list \<times> int" where
  "report_stage S rf c ds =
     (case emitDiagnostics (st_env S) (st_print S) (st_close S) (out_Formats (cf_Output c)) (Some rf) ds of
        (written, Some _) \<Rightarrow> (written, int exitInternalError)
      | (written, None) \<Rightarrow> (written, issues_exit rf c ds))"

text \<open>The printed reports and the exit code of a run.\<close>

definition runRun :: "('s, 't, 'r, 'f) runStages \<Rightarrow> (target \<times> bytes) list \<times> int" where
  "runRun S =
     (case st_parse S of
        None \<Rightarrow> ([], int exitCLIError)
      | Some rf \<Rightarrow>
          if st_help S then ([], int exitSuccess)
          else case st_load S of
                 Inl _ \<Rightarrow> ([], int exitConfigError)
               | Inr base \<Rightarrow>
                   (let c = applyOverlay (st_marshal S) rf (Some base)
                    in if st_validate S c \<noteq> [] then ([], int exitConfigError)
                       else case st_build S c of
                              Inl _ \<Rightarrow> ([], int exitInternalError)
                            | Inr (c', reg0) \<Rightarrow>
                                (case select_stage S reg0 of
                                   Inl _ \<Rightarrow> ([], int exitCLIError)
                                 | Inr reg \<Rightarrow>
                                     (case st_root S of
                                        Inl _ \<Rightarrow> ([], int exitInternalError)
                                      | Inr root \<Rightarrow>
                                          (case st_filter S c' of
                                             Inl _ \<Rightarrow> ([], int exitInternalError)
                                           | Inr flt \<Rightarrow>
                                               (case st_engine S c' reg flt of
                                                  Inl _ \<Rightarrow> ([], int exitInternalError)
                                                | Inr ds \<Rightarrow> report_stage S rf c' ds))))))"


subsection \<open>The engine behind the command\<close>

text \<open>
  What opening the caches meets: the working directory, the root of the caches, the outcome of creating a directory
  and of opening the analyzer and type-check caches, the diagnostic cache and the cache of subprocess linters.
\<close>

record openings =
  op_getwd :: "string result"
  op_cacheRoot :: "string result"
  op_mkdir :: "string \<Rightarrow> string option"
  op_tier :: "string \<Rightarrow> string option"
  op_disableL0 :: string
  op_L0 :: "string \<Rightarrow> string option"
  op_subproc :: "string option"

definition resolveModuleRoot :: "openings \<Rightarrow> string result" where
  "resolveModuleRoot Q = (case op_getwd Q of Inl e \<Rightarrow> Inl e | Inr cwd \<Rightarrow> Inr (if IsAbs cwd then Clean cwd else Join [cwd, cwd]))"

definition cacheSubdir :: "openings \<Rightarrow> string \<Rightarrow> string result" where
  "cacheSubdir Q sub =
     (case op_cacheRoot Q of
        Inl e \<Rightarrow> Inl e
      | Inr root \<Rightarrow>
          (let p = Join [root, sub]
           in case op_mkdir Q p of Some e \<Rightarrow> Inl (''mkdir '' @ p @ '': '' @ e) | None \<Rightarrow> Inr p))"

text \<open>The error of opening the cache of a tier in its subdirectory, if any.\<close>

definition open_tier :: "openings \<Rightarrow> string \<Rightarrow> string option" where
  "open_tier Q sub = (case cacheSubdir Q sub of Inl e \<Rightarrow> Some e | Inr p \<Rightarrow> op_tier Q p)"

definition openL1Cache :: "openings \<Rightarrow> string option" where "openL1Cache Q = open_tier Q ''l1''"

definition openL2Cache :: "openings \<Rightarrow> string option" where "openL2Cache Q = open_tier Q ''l2''"

definition l0_opened :: "openings \<Rightarrow> bool" where
  "l0_opened Q \<longleftrightarrow> op_disableL0 Q \<noteq> ''1'' \<and> (case op_cacheRoot Q of Inl e \<Rightarrow> False | Inr root \<Rightarrow> op_L0 Q root = None)"

definition subproc_warnings :: "openings \<Rightarrow> string list" where
  "subproc_warnings Q = (case op_subproc Q of None \<Rightarrow> [] | Some e \<Rightarrow> [''subproc cache disabled: '' @ e])"


fun same_report :: "(planWarning list \<times> diagnostic list) result \<Rightarrow> (planWarning list \<times> diagnostic list) result \<Rightarrow> bool" where
  "same_report (Inl e) (Inl e') \<longleftrightarrow> e = e'"
| "same_report (Inr (ws, ds)) (Inr (ws', ds')) \<longleftrightarrow> ws = ws' \<and> mset ds = mset ds'
     \<and> (distinct (map diag_key ds) \<longrightarrow> (\<forall>cx pr cl f rfo. emitDiagnostics cx pr cl f rfo ds = emitDiagnostics cx pr cl f rfo ds'))"
| "same_report _ _ \<longleftrightarrow> False"

lemma same_report_refl [simp]: "same_report r r"
  by (cases r) (auto simp: split_paired_all)



text \<open>The environment variable \<^verbatim>\<open>PLAID_DISABLE_L0_CACHE=1\<close>.\<close>

definition disabled_L0 :: "openings \<Rightarrow> openings" where "disabled_L0 Q = Q\<lparr>op_disableL0 := ''1''\<rparr>"

lemma disabled_L0_simps [simp]:
  "resolveModuleRoot (disabled_L0 Q) = resolveModuleRoot Q" "openL1Cache (disabled_L0 Q) = openL1Cache Q"
  "openL2Cache (disabled_L0 Q) = openL2Cache Q" "subproc_warnings (disabled_L0 Q) = subproc_warnings Q" "\<not> l0_opened (disabled_L0 Q)"
  by (simp_all add: disabled_L0_def resolveModuleRoot_def openL1Cache_def openL2Cache_def open_tier_def cacheSubdir_def Let_def
      subproc_warnings_def l0_opened_def split: sum.split option.split)





text \<open>Every format of a sink has a printer.\<close>

lemma map_filter_mem: "s \<in> set (List.map_filter g xs) \<Longrightarrow> \<exists>x\<in>set xs. g x = Some s"
  by (auto simp: List.map_filter_def)

lemma sink_has_printer: "\<forall>s\<in>set (sinks_of f rfo). sk_format s \<in> set AllFormats \<and> (\<exists>p. NewPrinter X (sk_format s) = Inr p)"
proof -
  have p: "\<exists>p. NewPrinter X fmt = Inr p" if "fmt \<in> set AllFormats" for fmt using that by (auto simp: AllFormats_def NewPrinter_def)
  have f: "fst ` set (format_paths f) = set AllFormats" by (simp add: format_paths_def AllFormats_def)
  have "sk_format s \<in> fst ` set (format_paths f)" if mem: "s \<in> set (configured_sinks f rfo)" for s
  proof -
    obtain x where "x \<in> set (format_paths f)"
      "(\<lambda>(fmt, path, flag). if path \<noteq> [] then Some \<lparr>sk_format = fmt, sk_path = path, sk_authority = outputPathAuthorityForFlag rfo flag\<rparr> else None) x = Some s"
      using map_filter_mem [OF mem [unfolded configured_sinks_def]] by blast
    then have "x \<in> set (format_paths f) \<and> sk_format s = fst x" by (auto simp: case_prod_beta split: if_splits)
    then show ?thesis by blast
  qed
  then have "sk_format s \<in> set AllFormats" if "s \<in> set (sinks_of f rfo)" for s
    using that unfolding f by (auto simp: sinks_of_def Let_def split: if_splits) (simp add: AllFormats_def)
  then show ?thesis using p by blast
qed


subsection \<open>Confinement\<close>

lemma clean_step_plain: "CHR ''/'' \<notin> set w \<Longrightarrow> list_all plain_seg st \<Longrightarrow> list_all plain_seg (clean_step True w st)"
  by (auto simp: plain_seg_def split: list.splits)

lemma clean_segs_plain:
  assumes "IsAbs p"
  shows "list_all plain_seg (clean_segs p)"
proof -
  have "list_all plain_seg (fold (clean_step True) ws st)" if "\<forall>w\<in>set ws. CHR ''/'' \<notin> set w" "list_all plain_seg st" for ws st
    using that
  proof (induction ws arbitrary: st)
    case (Cons w ws)
    then have "list_all plain_seg (clean_step True w st)" by (intro clean_step_plain) simp_all
    then show ?case using Cons by (simp del: clean_step.simps)
  qed simp
  then show ?thesis using assms unfolding clean_segs_def by (simp add: list_all_rev split_on_no_sep)
qed

lemma confined_abs_form:
  assumes "IsAbs root"
  shows "\<exists>segs. confined_abs root path = ''/'' @ join_with ''/'' segs \<and> list_all plain_seg segs"
proof -
  have "root \<noteq> []" using assms by (auto simp: IsAbs_def HasPrefix_def)
  then have "IsAbs (join_with ''/'' [root, path])" using assms by (cases root) (auto simp: IsAbs_def HasPrefix_def)
  then have "IsAbs (Join [root, path])" using \<open>root \<noteq> []\<close> by (simp add: Join_def Clean_def) (simp add: IsAbs_def HasPrefix_def)
  then have a: "IsAbs (if IsAbs path then path else Join [root, path])" by simp
  then show ?thesis unfolding confined_abs_def Clean_def using clean_segs_plain [OF a] by auto
qed

text \<open>
  C29. A report whose path comes from a configuration file stays in the working tree: a file is opened only at a path
  without dot segments beneath the resolved working directory, and only when the resolved parent directory is
  beneath it too.
\<close>

theorem confined_output:
  assumes "cx_wd cx = Inr wd" "cx_eval cx wd = Inr root" "IsAbs root" "snd (openSink cx path outputPathConfined) = Inr (ToFile p)"
  shows "\<exists>segs realDir. p = ''/'' @ join_with ''/'' segs \<and> list_all plain_seg segs \<and> withinRoot root p
    \<and> cx_evalAfter cx (Dir p) = Inr realDir \<and> withinRoot root realDir"
proof -
  have "snd (resolveConfinedOutputPath cx path) = Inr p"
    using assms(4) by (auto simp: openSink_def split: if_splits prod.splits sum.splits option.splits)
  then have "p = confined_abs root path" "withinRoot root p" "\<exists>realDir. cx_evalAfter cx (Dir p) = Inr realDir \<and> withinRoot root realDir"
    using assms(1,2) by (auto simp: resolveConfinedOutputPath_def Let_def split: if_splits option.splits sum.splits)
  then show ?thesis using confined_abs_form [OF assms(3), of path] by auto
qed

definition tree_env :: pathEnv where
  "tree_env = \<lparr>cx_wd = Inr ''/w'', cx_eval = Inr, cx_mkdir = (\<lambda>d. None), cx_evalAfter = (\<lambda>d. if d = ''/w/link'' then Inr ''/etc'' else Inr d),
     cx_open = (\<lambda>f. None), cx_create = (\<lambda>f. None)\<rparr>"

lemma tree_paths: "confined_abs ''/w'' ''a/../r.txt'' = ''/w/r.txt''" "Dir ''/w/r.txt'' = ''/w''" "confined_abs ''/w'' ''link/r.txt'' = ''/w/link/r.txt''" "Dir ''/w/link/r.txt'' = ''/w/link''"
  by code_simp+

theorem confined_output_witness:
  "snd (openSink tree_env ''a/../r.txt'' outputPathConfined) = Inr (ToFile ''/w/r.txt'') \<and> withinRoot ''/w'' ''/w/r.txt''"
proof -
  have "withinRoot ''/w'' ''/w/r.txt''" "withinRoot ''/w'' ''/w''" by (simp_all add: withinRoot_def HasPrefix_def)
  then have o: "snd (openSink tree_env ''a/../r.txt'' outputPathConfined) = Inr (ToFile ''/w/r.txt'')"
    by (simp add: openSink_def resolveConfinedOutputPath_def tree_env_def tree_paths Let_def)
  have e: "cx_wd tree_env = Inr ''/w''" "cx_eval tree_env ''/w'' = Inr ''/w''" "IsAbs ''/w''"
    by (simp_all add: tree_env_def IsAbs_def HasPrefix_def)
  show ?thesis using confined_output [OF e o] o by blast
qed

text \<open>
  The check for symbolic links comes after the directory was created: a configured path through a link that leaves
  the tree is refused, but the directory behind the link has been created by then.
\<close>

lemma refused_after_mkdir: "resolveConfinedOutputPath tree_env ''link/r.txt'' =
    ([''/w/link''], Inl (''output path '' @ ''link/r.txt'' @ '' escapes the working directory via a symlinked directory''))"
  by (simp add: resolveConfinedOutputPath_def tree_env_def tree_paths Let_def) (simp add: withinRoot_def HasPrefix_def)

text \<open>In the root directory no path is beneath the working directory: every configured report is refused.\<close>

lemma root_refuses: "withinRoot ''/'' (confined_abs ''/'' path) \<longleftrightarrow> confined_abs ''/'' path = ''/''"
proof -
  have "IsAbs ''/''" by (simp add: IsAbs_def HasPrefix_def)
  then obtain segs where s: "confined_abs ''/'' path = ''/'' @ join_with ''/'' segs" "list_all plain_seg segs"
    using confined_abs_form by blast
  have "\<not> HasPrefix (''/'' @ join_with ''/'' segs) ''//''"
  proof (cases segs)
    case (Cons w ws)
    then obtain c v where "w = c # v" "c \<noteq> CHR ''/''" using s(2) by (cases w) (auto simp: plain_seg_def)
    then show ?thesis using Cons by (cases ws) (auto simp: HasPrefix_def)
  qed (simp add: HasPrefix_def)
  then show ?thesis unfolding withinRoot_def s(1) by auto
qed


subsection \<open>Exit codes\<close>

text \<open>
  C34. A run that ends with exit code zero found nothing: unless help was asked for or zero is the code the command
  line asks for in case of findings, every stage succeeded, the engine reported no diagnostics and every report
  was written.
\<close>

theorem exit_zero_is_clean:
  assumes "st_parse S = Some rf" "\<not> st_help S" "rf_IssuesExitCode rf \<noteq> Some 0" "runRun S = (written, 0)"
  shows "\<exists>base c reg0 reg flt. st_load S = Inr base \<and> st_validate S (applyOverlay (st_marshal S) rf (Some base)) = []
    \<and> st_build S (applyOverlay (st_marshal S) rf (Some base)) = Inr (c, reg0) \<and> select_stage S reg0 = Inr reg
    \<and> st_filter S c = Inr flt \<and> st_engine S c reg flt = Inr []
    \<and> emitDiagnostics (st_env S) (st_print S) (st_close S) (out_Formats (cf_Output c)) (Some rf) [] = (written, None)"
proof -
  have ex: "ds = [] \<and> emitDiagnostics (st_env S) (st_print S) (st_close S) (out_Formats (cf_Output c)) (Some rf) ds = (written, None)"
    if "report_stage S rf c ds = (written, 0)" for c ds
    using that assms(3) by (auto simp: report_stage_def issues_exit_def exitInternalError_def exitIssuesFound_def split: prod.splits option.splits if_splits)
  have "\<exists>base c reg0 reg flt ds. st_load S = Inr base \<and> st_validate S (applyOverlay (st_marshal S) rf (Some base)) = []
    \<and> st_build S (applyOverlay (st_marshal S) rf (Some base)) = Inr (c, reg0) \<and> select_stage S reg0 = Inr reg
    \<and> st_filter S c = Inr flt \<and> st_engine S c reg flt = Inr ds \<and> report_stage S rf c ds = (written, 0)"
    using assms(1,2,4)
    by (auto simp: runRun_def Let_def exitConfigError_def exitInternalError_def exitCLIError_def split: sum.splits prod.splits if_splits)
  then show ?thesis using ex by metis
qed

definition demo_encoders :: encoders where
  "demo_encoders = \<lparr>enc_md5 = (\<lambda>b. b), enc_tab = (\<lambda>b. b), enc_checkstyle = (\<lambda>fs. Inr []), enc_junit = (\<lambda>js. Inr []), enc_html = (\<lambda>n rs. Inr [])\<rparr>"

definition demo_stages :: "(nat, nat, unit, unit) runStages" where
  "demo_stages = \<lparr>st_marshal = demo_marshal, st_parse = Some demo_flags, st_help = False, st_analyzers = [], st_load = Inr (zeroConfig demo_marshal),
     st_validate = (\<lambda>c. []), st_build = (\<lambda>c. Inr (zeroConfig demo_marshal, ())), st_select = (\<lambda>r names. Inr r), st_root = Inr ''/w'',
     st_filter = (\<lambda>c. Inr ()), st_engine = (\<lambda>c r f. Inr []), st_env = tree_env, st_print = demo_encoders, st_close = (\<lambda>k. None)\<rparr>"

lemma demo_emit: "emitDiagnostics tree_env demo_encoders (\<lambda>k. None) (out_Formats (cf_Output (zeroConfig demo_marshal))) (Some demo_flags) [] = ([(ToStdout, [])], None)"
  by (simp add: emitDiagnostics_def sinks_of_def configured_sinks_def format_paths_def zeroConfig_def List.map_filter_def openSink_def NewPrinter_def Sort_key)

theorem exit_zero_is_clean_witness:
  "runRun demo_stages = ([(ToStdout, [])], 0)
   \<and> (\<exists>c reg flt. st_engine demo_stages c reg flt = Inr [] \<and> emitDiagnostics (st_env demo_stages) (st_print demo_stages) (st_close demo_stages) (out_Formats (cf_Output c)) (Some demo_flags) [] = ([(ToStdout, [])], None))"
proof -
  have p: "st_parse demo_stages = Some demo_flags" "\<not> st_help demo_stages" "rf_IssuesExitCode demo_flags \<noteq> Some 0"
    by (simp_all add: demo_stages_def demo_flags_def)
  have r: "runRun demo_stages = ([(ToStdout, [])], 0)"
    by (simp add: runRun_def demo_stages_def select_stage_def report_stage_def demo_emit issues_exit_def exitSuccess_def)
  show ?thesis using exit_zero_is_clean [OF p r] r by blast
qed

end
