(* ===== verification/PrinterProps.thy ===== *)
theory PrinterProps
  imports Printers
begin

text \<open>
  What the printers guarantee: groups hold exactly the findings of a file in input order, a TeamCity attribute cannot break
  out of its message, and a JSON report determines the diagnostics it was printed from.
\<close>

subsection \<open>Groups\<close>

text \<open>The distinct elements in the order of their first occurrence.\<close>

definition firsts :: "'a list \<Rightarrow> 'a list" where "firsts xs = rev (remdups (rev xs))"

lemma firsts_snoc: "firsts (xs @ [x]) = (if x \<in> set xs then firsts xs else firsts xs @ [x])"
  by (simp add: firsts_def)

lemma firsts_props [simp]: "set (firsts xs) = set xs" "distinct (firsts xs)" "firsts [] = []"
  by (simp_all add: firsts_def)

lemma group_all_exact:
  "group_all key val ds = map (\<lambda>k. (k, map val (filter (\<lambda>d. key d = k) ds))) (firsts (map key ds))"
proof (induction ds rule: rev_induct)
  case (snoc d ds)
  let ?g = "\<lambda>ds k. (k, map val (filter (\<lambda>x. key x = k) ds))"
  have "group_all key val (ds @ [d]) = group_add (key d) (val d) (map (?g ds) (firsts (map key ds)))"
    using snoc by (simp add: group_all_def)
  also have "\<dots> = map (?g (ds @ [d])) (firsts (map key (ds @ [d])))"
  proof (cases "key d \<in> key ` set ds")
    case True
    then have "key d \<in> fst ` set (map (?g ds) (firsts (map key ds)))" by (simp add: image_image)
    moreover have "key d \<in> set (map key ds)" using True by simp
    ultimately show ?thesis by (simp add: group_add_def firsts_snoc del: set_map)
  next
    case False
    then have "key d \<notin> fst ` set (map (?g ds) (firsts (map key ds)))" by (simp add: image_image)
    moreover have "filter (\<lambda>x. key x = key d) ds = []" using False by (intro filter_False) (metis image_eqI)
    moreover have "map (?g (ds @ [d])) (firsts (map key ds)) = map (?g ds) (firsts (map key ds))" using False by auto
    moreover have "key d \<notin> set (map key ds)" using False by simp
    ultimately show ?thesis by (simp add: group_add_def firsts_snoc del: set_map)
  qed
  finally show ?case .
qed (simp add: group_all_def)

lemma in_name_order_exact:
  "in_name_order (group_all key val ds) = map (\<lambda>n. (n, map val (filter (\<lambda>d. key d = n) ds))) (sorted_list_of_set (key ` set ds))"
proof -
  let ?g = "\<lambda>k. (k, map val (filter (\<lambda>x. key x = k) ds))"
  have f: "map fst (map ?g (firsts (map key ds))) = firsts (map key ds)" by (simp add: comp_def)
  have "sort (firsts (map key ds)) = sorted_list_of_set (key ` set ds)"
    using sorted_list_of_set_sort_remdups [of "firsts (map key ds)"] by (simp add: distinct_remdups_id)
  moreover have "map_of (map ?g (firsts (map key ds))) n = Some (snd (?g n))" if "n \<in> key ` set ds" for n
    using that by (simp add: map_of_map_restrict)
  ultimately show ?thesis unfolding in_name_order_def group_all_exact f by simp
qed

text \<open>
  Reports grouped by file lose and mix nothing.  Checkstyle and JUnit list the files in name order, each once, with exactly its
  findings in input order; a SARIF fix lists the touched files in the order of their first edit with their edits in order.
\<close>

theorem grouped_by_file:
  "checkstyle_files ds = map (\<lambda>n. (n, map checkstyle_error (filter (\<lambda>d. Filename (Pos d) = n) ds))) (sorted_list_of_set ((Filename \<circ> Pos) ` set ds))
   \<and> map (\<lambda>s. (js_Suite s, js_TestCases s)) (junit_suites x ds)
     = map (\<lambda>n. (n, map (junit_case x) (filter (\<lambda>d. Filename (Pos d) = n) ds))) (sorted_list_of_set ((Filename \<circ> Pos) ` set ds))
   \<and> (\<forall>s\<in>set (junit_suites x ds). js_Tests s = length (js_TestCases s) \<and> js_Failures s = js_Tests s \<and> js_Errors s = 0)
   \<and> sarif_changes eds = map (\<lambda>n. (n, map sarif_replacement (filter (\<lambda>e. Filename (Start e) = n) eds))) (firsts (map (Filename \<circ> Start) eds))"
proof -
  have "sarif_changes eds = map (\<lambda>n. (n, map sarif_replacement (filter (\<lambda>e. Filename (Start e) = n) eds))) (firsts (map (Filename \<circ> Start) eds))"
    by (simp add: sarif_changes_def group_all_exact)
  then show ?thesis by (auto simp: checkstyle_files_def junit_suites_def in_name_order_exact)
qed

theorem grouped_by_file_witness:
  "map fst (checkstyle_files [mk_diag ''l'' ''m1'' ''b.go'' 1 1, mk_diag ''l'' ''m2'' ''a.go'' 2 1, mk_diag ''l'' ''m3'' ''b.go'' 3 1]) = [''a.go'', ''b.go'']"
proof -
  let ?ds = "[mk_diag ''l'' ''m1'' ''b.go'' 1 1, mk_diag ''l'' ''m2'' ''a.go'' 2 1, mk_diag ''l'' ''m3'' ''b.go'' 3 1]"
  have s: "(Filename \<circ> Pos) ` set ?ds = set [''a.go'', ''b.go'']" by (simp add: mk_diag_def insert_commute)
  have "sorted_list_of_set (set [''a.go'', ''b.go'']) = [''a.go'', ''b.go'']" unfolding sorted_list_of_set_sort_remdups by code_simp
  then show ?thesis using grouped_by_file [of ?ds True "[]"] unfolding s by (simp add: comp_def)
qed


subsection \<open>TeamCity attributes\<close>

text \<open>How a reader of service messages takes a quoted attribute apart: the value and what follows the closing quote.\<close>

definition tc_unescape :: "char \<Rightarrow> char option" where
  "tc_unescape c = (if c = CHR ''n'' then Some lf else if c = CHR ''r'' then Some cr
     else if c = sq \<or> c = CHR ''|'' \<or> c = CHR ''['' \<or> c = CHR '']'' then Some c else None)"

fun tc_read :: "bytes \<Rightarrow> (bytes \<times> bytes) option" where
  "tc_read [] = None"
| "tc_read (c # r) =
     (if c = sq then Some ([], r)
      else if c = CHR ''|'' then
        (case r of
           [] \<Rightarrow> None
         | e # r' \<Rightarrow> (case tc_unescape e of None \<Rightarrow> None | Some x \<Rightarrow> map_option (\<lambda>(v, q). (x # v, q)) (tc_read r')))
      else if c = lf \<or> c = cr \<or> c = CHR ''['' \<or> c = CHR '']'' then None
      else map_option (\<lambda>(v, q). (c # v, q)) (tc_read r))"

definition tc_plain :: "char \<Rightarrow> bool" where
  "tc_plain c \<longleftrightarrow> c \<noteq> sq \<and> c \<noteq> CHR ''|'' \<and> c \<noteq> lf \<and> c \<noteq> cr \<and> c \<noteq> CHR ''['' \<and> c \<noteq> CHR '']''"

lemma tc_read_plain: "list_all tc_plain p \<Longrightarrow> tc_read (p @ r) = map_option (\<lambda>(v, q). (p @ v, q)) (tc_read r)"
proof (induction p)
  case Nil
  then show ?case by (cases "tc_read r") auto
next
  case (Cons c p)
  then show ?case by (cases "tc_read r") (auto simp: tc_plain_def)
qed

text \<open>A rune is a single ASCII character or has no byte below 128.\<close>

lemma rune_shape:
  assumes "utf8_len bs \<noteq> 0"
  shows "(\<exists>c. take (utf8_len bs) bs = [c]) \<or> list_all (\<lambda>c. 128 \<le> ord c) (take (utf8_len bs) bs)"
proof (cases bs)
  case (Cons c r)
  show ?thesis
  proof (cases "ord c < 128")
    case True
    then show ?thesis by (simp add: Cons utf8_len_ascii)
  next
    case False
    then have c: "128 \<le> ord c" by simp
    consider "r = []" | x where "r = [x]" | x y where "r = [x, y]" | x y z r' where "r = x # y # z # r'"
      by (metis list.exhaust)
    then have "list_all (\<lambda>c. 128 \<le> ord c) (take (utf8_len bs) bs)"
    proof cases
      case 1
      then show ?thesis using assms c by (simp add: Cons utf8_len_def Let_def split: if_splits)
    next
      case (2 x)
      then show ?thesis using assms c by (auto simp: Cons utf8_len_def Let_def in_rng_def split: if_splits)
    next
      case (3 x y)
      then show ?thesis using assms c by (auto simp: Cons utf8_len_def Let_def in_rng_def split: if_splits)
    next
      case (4 x y z r')
      then show ?thesis using assms c by (auto simp: Cons utf8_len_def Let_def in_rng_def split: if_splits)
    qed
    then show ?thesis by blast
  qed
qed (use assms in \<open>simp add: utf8_len_def\<close>)

lemma runes_shape: "r \<in> set (runes bs) \<Longrightarrow> (\<exists>c. r = [c]) \<or> list_all (\<lambda>c. 128 \<le> ord c) r"
proof (induction bs rule: runes.induct)
  case (1 bs)
  have e: "list_all (\<lambda>c. 128 \<le> ord c) rune_error" by (simp add: rune_error_def ord_def)
  show ?case
  proof (cases "bs = [] \<or> utf8_len bs = 0")
    case True
    then show ?thesis using 1 e by (subst (asm) (2) runes.simps) (auto split: if_splits)
  next
    case False
    then have "r = take (utf8_len bs) bs \<or> r \<in> set (runes (drop (utf8_len bs) bs))" using "1.prems" by (subst (asm) runes.simps) simp
    then show ?thesis using 1 False rune_shape [of bs] by auto
  qed
qed

lemma tc_read_escape:
  assumes "(\<exists>c. r = [c]) \<or> list_all (\<lambda>c. 128 \<le> ord c) r"
  shows "tc_read (tc_escape r @ s) = map_option (\<lambda>(v, q). (r @ v, q)) (tc_read s)"
proof (cases "tc_escape r = r")
  case True
  have "list_all tc_plain r"
  proof (cases "\<exists>c. r = [c]")
    case True
    then show ?thesis using \<open>tc_escape r = r\<close> by (auto simp: tc_escape_def tc_plain_def split: if_splits)
  next
    case False
    then show ?thesis using assms by (auto simp: list_all_iff tc_plain_def ord_def)
  qed
  then show ?thesis using tc_read_plain True by simp
next
  case False
  then show ?thesis by (auto simp: tc_escape_def tc_unescape_def split: if_splits)
qed

text \<open>The runes that fit, and what they cost.\<close>

lemma tc_attr_prefix:
  "\<exists>k. tc_attr limit used rs = concat (map tc_escape (take k rs)) \<and> k \<le> length rs
     \<and> (k < length rs \<longrightarrow> limit < int (used + sum_list (map tc_cost (take (Suc k) rs))))
     \<and> (int used \<le> limit \<longrightarrow> int (used + sum_list (map tc_cost (take k rs))) \<le> limit)"
proof (induction rs arbitrary: used)
  case (Cons r rs)
  show ?case
  proof (cases "limit < int (used + tc_cost r)")
    case True
    then show ?thesis by (intro exI [of _ 0]) simp
  next
    case False
    obtain k where k: "tc_attr limit (used + tc_cost r) rs = concat (map tc_escape (take k rs))" "k \<le> length rs"
      "k < length rs \<longrightarrow> limit < int (used + tc_cost r + sum_list (map tc_cost (take (Suc k) rs)))"
      "int (used + tc_cost r) \<le> limit \<longrightarrow> int (used + tc_cost r + sum_list (map tc_cost (take k rs))) \<le> limit"
      using Cons.IH by blast
    then show ?thesis using False by (intro exI [of _ "Suc k"]) (auto simp: add.assoc)
  qed
qed simp

lemma tc_read_runes:
  assumes "\<forall>r\<in>set rs. (\<exists>c. r = [c]) \<or> list_all (\<lambda>c. 128 \<le> ord c) r"
  shows "tc_read (concat (map tc_escape rs) @ sq # rest) = Some (concat rs, rest)"
  using assms
proof (induction rs)
  case (Cons r rs)
  then show ?case using tc_read_escape [of r "concat (map tc_escape rs) @ sq # rest"] by simp
qed simp

text \<open>
  An attribute of a TeamCity message is read back as the longest prefix of the value that fits the limit, and what follows the
  closing quote is untouched: no file name, linter name or message can end its attribute, its message or its line early.
\<close>

theorem teamcityAttr_exact:
  assumes "0 \<le> limit"
  shows "\<exists>k. tc_read (teamcityAttr s limit @ sq # rest) = Some (concat (take k (runes s)), rest)
    \<and> int (sum_list (map tc_cost (take k (runes s)))) \<le> limit
    \<and> (k < length (runes s) \<longrightarrow> limit < int (sum_list (map tc_cost (take (Suc k) (runes s)))))"
proof -
  have pos: "0 < tc_cost r" for r by (auto simp: tc_cost_def tc_escape_def)
  have t: "teamcityAttr s limit = tc_attr limit 0 (runes s)"
    using assms pos by (cases "runes s") (auto simp: teamcityAttr_def)
  obtain k where k: "tc_attr limit 0 (runes s) = concat (map tc_escape (take k (runes s)))"
    "k < length (runes s) \<longrightarrow> limit < int (0 + sum_list (map tc_cost (take (Suc k) (runes s))))"
    "int 0 \<le> limit \<longrightarrow> int (0 + sum_list (map tc_cost (take k (runes s)))) \<le> limit"
    using tc_attr_prefix [of limit 0 "runes s"] by blast
  have "\<forall>r\<in>set (take k (runes s)). (\<exists>c. r = [c]) \<or> list_all (\<lambda>c. 128 \<le> ord c) r"
    by (intro ballI, drule in_set_takeD, rule runes_shape)
  then show ?thesis using k assms tc_read_runes unfolding t by (intro exI [of _ k]) simp
qed

theorem teamcityAttr_exact_witness:
  "\<exists>k. tc_read (teamcityAttr [sq, lf, CHR '']''] 4 @ sq # '' line=1'') = Some (concat (take k [[sq], [lf], '']'']), '' line=1'') \<and> k < 3"
proof -
  have r: "runes [sq, lf, CHR '']''] = [[sq], [lf], '']'']" by code_simp
  have c: "tc_cost [sq] = 2" "tc_cost [lf] = 2" "tc_cost '']'' = 2" by code_simp+
  obtain k where k: "tc_read (teamcityAttr [sq, lf, CHR '']''] 4 @ sq # '' line=1'') = Some (concat (take k [[sq], [lf], '']'']), '' line=1'')"
    "int (sum_list (map tc_cost (take k [[sq], [lf], '']'']))) \<le> 4"
    using teamcityAttr_exact [of 4 "[sq, lf, CHR '']'']" "'' line=1''"] unfolding r by auto
  have "\<not> 3 \<le> k"
  proof
    assume "3 \<le> k"
    then have "take k [[sq], [lf], '']''] = [[sq], [lf], '']'']" by (intro take_all) simp
    then show False using k(2) by (simp add: c)
  qed
  then have "k < 3" by simp
  then show ?thesis using k(1) by blast
qed

lemma tc_escape_no_lf: "(\<exists>c. r = [c]) \<or> list_all (\<lambda>c. 128 \<le> ord c) r \<Longrightarrow> lf \<notin> set (tc_escape r)"
  by (auto simp: tc_escape_def list_all_iff ord_def)

lemma teamcityAttr_no_lf [simp]: "lf \<notin> set (teamcityAttr s limit)"
proof -
  obtain k where "tc_attr limit 0 (runes s) = concat (map tc_escape (take k (runes s)))" using tc_attr_prefix [of limit 0 "runes s"] by blast
  moreover have "lf \<notin> set (tc_escape r)" if "r \<in> set (take k (runes s))" for r
    by (rule tc_escape_no_lf [OF runes_shape [OF in_set_takeD [OF that]]])
  ultimately show ?thesis by (auto simp: teamcityAttr_def)
qed

lemma itoa_no_lf [simp]: "lf \<notin> set (itoa n)"
  using nat_digits_chars [of lf] by (auto simp: itoa_def)

lemma teamcitySeverity_no_lf [simp]: "lf \<notin> set (teamcitySeverity sev)"
  by (simp add: teamcitySeverity_def level_of_def sanitize_def newSeveritySanitizer_def)

lemma tc_message_lf: "count_list (tc_type l) lf = 1" "count_list (tc_inspection d) lf = 1"
  by (simp_all add: tc_type_def tc_inspection_def count_notin)

text \<open>One line for every finding and one for every linter: values add no lines.\<close>

lemma teamcity_lines: "count_list (TeamCity_Print ds) lf = length ds + card (Linter ` set ds)"
proof -
  have "count_list (tc_print seen ds) lf = length ds + card (Linter ` set ds - set seen)" for seen
  proof (induction ds arbitrary: seen)
    case (Cons d ds)
    have i: "insert (Linter d) (Linter ` set ds) - set seen = insert (Linter d) (Linter ` set ds - insert (Linter d) (set seen))"
      if "Linter d \<notin> set seen" using that by auto
    show ?case
    proof (cases "Linter d \<in> set seen")
      case True
      then show ?thesis using Cons by (simp add: tc_message_lf insert_Diff_if)
    next
      case False
      then show ?thesis using Cons [of "Linter d # seen"] i [OF False] by (simp add: tc_message_lf)
    qed
  qed simp
  from this [of "[]"] show ?thesis by (simp add: TeamCity_Print_def)
qed


subsection \<open>JSON reports\<close>

lemma valid_utf8_Cons [simp]: "ord c < 128 \<Longrightarrow> valid_utf8 s \<Longrightarrow> valid_utf8 (c # s)"
  using v_seq [of "[c]" s] by (simp add: utf8_len_ascii)

lemma valid_utf8_Nil [simp]: "valid_utf8 []"
  by (rule v_nil)

lemma ord_Char [simp]: "ord (Char b0 b1 b2 b3 b4 b5 b6 b7) = of_char (Char b0 b1 b2 b3 b4 b5 b6 b7)"
  by (simp add: ord_def)

lemma itoa_inject [simp]: "itoa a = itoa b \<longleftrightarrow> a = b"
proof
  assume e: "itoa a = itoa b"
  have d: "m = n" if "nat_digits m = nat_digits n" for m n using parse_nat_digits that by (metis option.inject)
  have m: "CHR ''-'' # s \<noteq> nat_digits n" for s n
  proof
    assume "CHR ''-'' # s = nat_digits n"
    then have "CHR ''-'' \<in> set (nat_digits n)" by (metis list.set_intros(1))
    from nat_digits_chars [OF this] show False by simp
  qed
  have "nat_digits n \<noteq> CHR ''-'' # s" for s n using m by metis
  then consider "a < 0" "b < 0" "nat_digits (nat (- a)) = nat_digits (nat (- b))" | "0 \<le> a" "0 \<le> b" "nat_digits (nat a) = nat_digits (nat b)"
    using e m by (cases "a < 0"; cases "b < 0") (simp_all add: itoa_def)
  then show "a = b" by cases (drule d, simp)+
qed simp

lemma jint_inject [simp]: "jint a = jint b \<longleftrightarrow> a = b"
  by (simp add: jint_def)

lemma map_of_omit [simp]: "map_of (omit_if b m @ xs) k = (if \<not> b \<and> fst m = k then Some (snd m) else map_of xs k)"
  "map_of (omit_if b m) k = (if \<not> b \<and> fst m = k then Some (snd m) else None)"
  by (simp_all add: omit_if_def)

lemma JObject_member: "JObject kvs = JObject kvs' \<Longrightarrow> map_of kvs k = map_of kvs' k"
  by simp

lemma position_json_inject [simp]: "position_json p = position_json q \<longleftrightarrow> p = q"
proof
  assume e: "position_json p = position_json q"
  note m = JObject_member [OF e [unfolded position_json_def]]
  have "Filename p = Filename q" "Line p = Line q" using m [of "''filename''"] m [of "''line''"] by simp_all
  moreover have "Column p = Column q" using m [of "''column''"] by (simp del: map_of_append split: if_splits)
  ultimately show "p = q" by (cases p; cases q) simp
qed simp

lemma edit_json_inject: "edit_json e = edit_json e' \<Longrightarrow> e = e'"
  by (cases e; cases e') (simp add: edit_json_def)

lemma edit_json_inj: "inj edit_json"
  by (rule injI) (rule edit_json_inject)

lemma related_json_inject: "related_json r = related_json r' \<Longrightarrow> r = r'"
  by (cases r; cases r') (simp add: related_json_def)

lemma related_json_inj: "inj related_json"
  by (rule injI) (rule related_json_inject)

lemma fix_json_inject: "fix_json s = fix_json t \<Longrightarrow> s = t"
proof -
  assume e: "fix_json s = fix_json t"
  note m = JObject_member [OF e [unfolded fix_json_def]]
  have "FixMessage s = FixMessage t" using m [of "''message''"] by (simp del: map_of_append split: if_splits)
  moreover have "TextEdits s = TextEdits t" using m [of "''text_edits''"]
    by (auto simp del: map_of_append split: if_splits simp: inj_map_eq_map [OF edit_json_inj])
  ultimately show "s = t" by (cases s; cases t) simp
qed

lemma fix_json_inj: "inj fix_json"
  by (rule injI) (rule fix_json_inject)

lemma JString_inj: "inj JString"
  by (rule injI) simp

lemma diagnostic_json_inject: "diagnostic_json d = diagnostic_json d' \<Longrightarrow> d = d'"
proof -
  assume e: "diagnostic_json d = diagnostic_json d'"
  note m = JObject_member [OF e [unfolded diagnostic_json_def]]
  have "Linter d = Linter d'" "Message d = Message d'" "Pos d = Pos d'"
    using m [of "''linter''"] m [of "''message''"] m [of "''pos''"] by (simp_all del: map_of_append)
  moreover have "Severity d = Severity d'" using m [of "''severity''"] by (simp del: map_of_append split: if_splits)
  moreover have "SourceLines d = SourceLines d'" using m [of "''source_lines''"] by (auto simp del: map_of_append split: if_splits simp: inj_map_eq_map [OF JString_inj])
  moreover have "SuggestedFixes d = SuggestedFixes d'" using m [of "''suggested_fixes''"]
    by (auto simp del: map_of_append split: if_splits simp: inj_map_eq_map [OF fix_json_inj])
  moreover have "Related d = Related d'" using m [of "''related''"]
    by (auto simp del: map_of_append split: if_splits simp: inj_map_eq_map [OF related_json_inj])
  ultimately show "d = d'" by (cases d; cases d') simp
qed

lemma diagnostic_json_inj: "inj diagnostic_json"
  by (rule injI) (rule diagnostic_json_inject)

text \<open>Every string of a diagnostic is UTF-8; other bytes are replaced when they are printed.\<close>

definition utf8_position :: "position \<Rightarrow> bool" where "utf8_position p \<longleftrightarrow> valid_utf8 (Filename p)"

definition utf8_edit :: "textedit \<Rightarrow> bool" where
  "utf8_edit e \<longleftrightarrow> utf8_position (Start e) \<and> utf8_position (End e) \<and> valid_utf8 (NewText e)"

definition utf8_diagnostic :: "diagnostic \<Rightarrow> bool" where
  "utf8_diagnostic d \<longleftrightarrow> valid_utf8 (Linter d) \<and> valid_utf8 (Message d) \<and> valid_utf8 (Severity d) \<and> utf8_position (Pos d)
     \<and> (\<forall>l\<in>set (SourceLines d). valid_utf8 l) \<and> (\<forall>s\<in>set (SuggestedFixes d). valid_utf8 (FixMessage s) \<and> (\<forall>e\<in>set (TextEdits s). utf8_edit e))
     \<and> (\<forall>r\<in>set (Related d). utf8_position (RelPosition r) \<and> valid_utf8 (RelMessage r))"

lemma jwf_omit [simp]: "jwf (JObject (xs @ omit_if b m @ ys)) \<longleftrightarrow> jwf (JObject (xs @ (if b then [] else [m]) @ ys))"
  "jwf (JObject (omit_if b m @ ys)) \<longleftrightarrow> jwf (JObject ((if b then [] else [m]) @ ys))"
  by (simp_all add: omit_if_def)

lemma set_omit: "set (omit_if b m) = (if b then {} else {m})" "map fst (omit_if b m) = (if b then [] else [fst m])"
  by (simp_all add: omit_if_def)

lemma position_json_wf [simp]: "utf8_position p \<Longrightarrow> jwf (position_json p)" "2 \<le> d \<Longrightarrow> jfits (position_json p) d"
  by (simp_all add: position_json_def set_omit utf8_position_def)

lemma edit_json_wf: "utf8_edit e \<Longrightarrow> jwf (edit_json e)" "3 \<le> d \<Longrightarrow> jfits (edit_json e) d"
  by (simp_all add: edit_json_def utf8_edit_def)

lemma fix_json_wf:
  "valid_utf8 (FixMessage s) \<Longrightarrow> \<forall>e\<in>set (TextEdits s). utf8_edit e \<Longrightarrow> jwf (fix_json s)" "5 \<le> d \<Longrightarrow> jfits (fix_json s) d"
  by (simp_all add: fix_json_def set_omit edit_json_wf)

lemma related_json_wf: "utf8_position (RelPosition r) \<Longrightarrow> valid_utf8 (RelMessage r) \<Longrightarrow> jwf (related_json r)" "3 \<le> d \<Longrightarrow> jfits (related_json r) d"
  by (simp_all add: related_json_def)

lemma diagnostic_json_wf: "utf8_diagnostic d \<Longrightarrow> jwf (diagnostic_json d)" "7 \<le> n \<Longrightarrow> jfits (diagnostic_json d) n"
  by (simp_all add: diagnostic_json_def utf8_diagnostic_def set_omit fix_json_wf related_json_wf)

text \<open>
  C40. The JSON report is lossless: decoding it gives the array of the diagnostics with every field, and two lists of diagnostics
  have the same report only if they are equal, in order; for diagnostics whose strings are UTF-8.
\<close>

theorem json_report_lossless:
  assumes "\<forall>d\<in>set ds \<union> set ds'. utf8_diagnostic d"
  shows "json_decode (JSON_Print ds) = Some (json_payload ds) \<and> (JSON_Print ds = JSON_Print ds' \<longleftrightarrow> ds = ds')"
proof -
  have r: "json_decode (JSON_Print xs) = Some (json_payload xs)" if "\<forall>d\<in>set xs. utf8_diagnostic d" for xs
    unfolding JSON_Print_def json_payload_def using that by (intro json_decode_encode) (simp_all add: diagnostic_json_wf max_depth_def)
  have "ds = ds'" if "JSON_Print ds = JSON_Print ds'"
  proof -
    have "json_payload ds = json_payload ds'" using that r [of ds] r [of ds'] assms by auto
    then show ?thesis by (auto simp: json_payload_def simp: inj_map_eq_map [OF diagnostic_json_inj])
  qed
  then show ?thesis using r [of ds] assms by auto
qed

theorem json_report_lossless_witness:
  "json_decode (JSON_Print [mk_diag ''vet'' ''m'' ''a.go'' 3 0]) = Some (json_payload [mk_diag ''vet'' ''m'' ''a.go'' 3 0])"
  using json_report_lossless [of "[mk_diag ''vet'' ''m'' ''a.go'' 3 0]" "[]"] by (simp add: utf8_diagnostic_def mk_diag_def utf8_position_def)

end
