(* ===== verification/SarifCollect.thy ===== *)
theory SarifCollect
  imports PrinterProps Collect
begin

text \<open>
  The two ends of a SARIF file: the unit action prints it (\<^verbatim>\<open>internal/unit/unit.go\<close>: \<^verbatim>\<open>renderSarif\<close>), the collector reads it
  (\<^verbatim>\<open>internal/unit/collect.go\<close>).  The collector sees what the unit action knew, up to what the format does not carry.
\<close>

subsection \<open>Printing\<close>

text \<open>\<^verbatim>\<open>encoding/json\<close> writes a map in key order and a nil slice as \<^verbatim>\<open>null\<close>; the list of files is nil exactly when it is empty.\<close>

definition unit_properties :: "string \<Rightarrow> string \<Rightarrow> string list \<Rightarrow> bool \<Rightarrow> (bytes \<times> jval) list" where
  "unit_properties pkg mode files compiled =
     [(''plaidUnit'', JObject
         [(''compiles'', JBool compiled), (''goFiles'', if files = [] then JNull else JArray (map JString files)),
          (''mode'', JString mode), (''package'', JString pkg)])]"

definition renderSarif :: "string \<Rightarrow> string \<Rightarrow> diagnostic list \<Rightarrow> string list \<Rightarrow> bool \<Rightarrow> bytes" where
  "renderSarif pkg mode diags files compiled = Sarif_Print (unit_properties pkg mode files compiled) diags"

definition RenderAggregateSarif :: "diagnostic list \<Rightarrow> bytes" where
  "RenderAggregateSarif diags = Sarif_Print [] diags"


subsection \<open>Reading\<close>

text \<open>What \<^verbatim>\<open>json.Unmarshal\<close> takes from a document into the structs of the collector: absent members leave zero values.\<close>

fun jpath :: "bytes list \<Rightarrow> jval \<Rightarrow> jval option" where
  "jpath [] v = Some v"
| "jpath (k # ks) v = (case v of JObject kvs \<Rightarrow> (case map_of kvs k of None \<Rightarrow> None | Some w \<Rightarrow> jpath ks w) | _ \<Rightarrow> None)"

definition string_at :: "bytes list \<Rightarrow> jval \<Rightarrow> string" where
  "string_at ks v = (case jpath ks v of Some (JString s) \<Rightarrow> s | _ \<Rightarrow> [])"

definition number_value :: "bytes \<Rightarrow> int" where
  "number_value n =
     (case n of
        [] \<Rightarrow> 0
      | c # r \<Rightarrow> if c = CHR ''-'' then - int (the (parse_digits 0 r)) else int (the (parse_digits 0 n)))"

definition int_at :: "bytes list \<Rightarrow> jval \<Rightarrow> int" where
  "int_at ks v = (case jpath ks v of Some (JNumber n) \<Rightarrow> number_value n | _ \<Rightarrow> 0)"

definition array_at :: "bytes list \<Rightarrow> jval \<Rightarrow> jval list" where
  "array_at ks v = (case jpath ks v of Some (JArray vs) \<Rightarrow> vs | _ \<Rightarrow> [])"

definition location_view :: "jval \<Rightarrow> string \<times> int \<times> int" where
  "location_view v =
     (string_at [''physicalLocation'', ''artifactLocation'', ''uri''] v, int_at [''physicalLocation'', ''region'', ''startLine''] v,
      int_at [''physicalLocation'', ''region'', ''startColumn''] v)"

definition result_view :: "jval \<Rightarrow> sarifResult" where
  "result_view v =
     \<lparr>sr_RuleID = string_at [''ruleId''] v, sr_Level = string_at [''level''] v, sr_Text = string_at [''message'', ''text''] v,
      sr_Locations = map location_view (array_at [''locations''] v)\<rparr>"

definition run_view :: "jval \<Rightarrow> sarifRun" where
  "run_view v =
     \<lparr>sr_Results = map result_view (array_at [''results''] v), pu_Package = string_at [''properties'', ''plaidUnit'', ''package''] v,
      pu_Mode = string_at [''properties'', ''plaidUnit'', ''mode''] v,
      pu_GoFiles = map (string_at []) (array_at [''properties'', ''plaidUnit'', ''goFiles''] v),
      pu_Compiles = (case jpath [''properties'', ''plaidUnit'', ''compiles''] v of Some (JBool b) \<Rightarrow> Some b | _ \<Rightarrow> None)\<rparr>"

definition doc_view :: "jval \<Rightarrow> sarifRun list" where
  "doc_view v = map run_view (array_at [''runs''] v)"

text \<open>
  Documents on which that reading is the documented one: every member the structs name has the type of its field, integers fit
  64 bits, and no object has two members whose names differ at most in case.
\<close>

fun plain_keys :: "jval \<Rightarrow> bool" where
  "plain_keys (JArray vs) = list_all plain_keys vs"
| "plain_keys (JObject kvs) = (distinct (map (ToLower \<circ> fst) kvs) \<and> list_all (\<lambda>p. list_all ascii (fst p) \<and> plain_keys (snd p)) kvs)"
| "plain_keys v = True"

definition is_string :: "jval option \<Rightarrow> bool" where
  "is_string v = (case v of None \<Rightarrow> True | Some (JString _) \<Rightarrow> True | _ \<Rightarrow> False)"

definition is_int :: "jval option \<Rightarrow> bool" where
  "is_int v = (case v of None \<Rightarrow> True | Some (JNumber n) \<Rightarrow> itoa (number_value n) = n \<and> - (2 ^ 63) \<le> number_value n \<and> number_value n < 2 ^ 63 | _ \<Rightarrow> False)"

definition array_of :: "(jval \<Rightarrow> bool) \<Rightarrow> jval option \<Rightarrow> bool" where
  "array_of P v = (case v of None \<Rightarrow> True | Some JNull \<Rightarrow> True | Some (JArray vs) \<Rightarrow> list_all P vs | _ \<Rightarrow> False)"

definition object_at :: "bytes list \<Rightarrow> jval \<Rightarrow> bool" where
  "object_at ks v = (case jpath ks v of None \<Rightarrow> True | Some (JObject _) \<Rightarrow> True | _ \<Rightarrow> False)"

definition location_typed :: "jval \<Rightarrow> bool" where
  "location_typed v \<longleftrightarrow> object_at [] v \<and> object_at [''physicalLocation''] v \<and> object_at [''physicalLocation'', ''artifactLocation''] v
     \<and> object_at [''physicalLocation'', ''region''] v \<and> is_string (jpath [''physicalLocation'', ''artifactLocation'', ''uri''] v)
     \<and> is_int (jpath [''physicalLocation'', ''region'', ''startLine''] v) \<and> is_int (jpath [''physicalLocation'', ''region'', ''startColumn''] v)"

definition result_typed :: "jval \<Rightarrow> bool" where
  "result_typed v \<longleftrightarrow> object_at [] v \<and> is_string (jpath [''ruleId''] v) \<and> is_string (jpath [''level''] v) \<and> object_at [''message''] v
     \<and> is_string (jpath [''message'', ''text''] v) \<and> array_of location_typed (jpath [''locations''] v)"

definition run_typed :: "jval \<Rightarrow> bool" where
  "run_typed v \<longleftrightarrow> object_at [] v \<and> array_of result_typed (jpath [''results''] v) \<and> object_at [''properties''] v
     \<and> object_at [''properties'', ''plaidUnit''] v \<and> is_string (jpath [''properties'', ''plaidUnit'', ''package''] v)
     \<and> is_string (jpath [''properties'', ''plaidUnit'', ''mode''] v)
     \<and> array_of (\<lambda>w. is_string (Some w)) (jpath [''properties'', ''plaidUnit'', ''goFiles''] v)
     \<and> (case jpath [''properties'', ''plaidUnit'', ''compiles''] v of None \<Rightarrow> True | Some (JBool _) \<Rightarrow> True | _ \<Rightarrow> False)"

definition doc_typed :: "jval \<Rightarrow> bool" where
  "doc_typed v \<longleftrightarrow> object_at [] v \<and> array_of run_typed (jpath [''runs''] v)"

definition unmarshals :: "(bytes \<Rightarrow> sarifRun list result) \<Rightarrow> bool" where
  "unmarshals decode \<longleftrightarrow> (\<forall>b v. json_decode b = Some v \<longrightarrow> plain_keys v \<longrightarrow> doc_typed v \<longrightarrow> decode b = Inr (doc_view v))"


subsection \<open>Both ends\<close>

definition sarif_visible :: "diagnostic \<Rightarrow> diagnostic" where
  "sarif_visible d =
     \<lparr>Linter = Linter d, Message = Message d, Severity = sarifLevel (Severity d),
      Pos = \<lparr>Filename = Filename (Pos d), Line = Line (Pos d), Column = sarif_column d\<rparr>, SourceLines = [], SuggestedFixes = [], Related = []\<rparr>"

definition int64 :: "int \<Rightarrow> bool" where "int64 n \<longleftrightarrow> - (2 ^ 63) \<le> n \<and> n < 2 ^ 63"

definition sarif_ok :: "diagnostic \<Rightarrow> bool" where
  "sarif_ok d \<longleftrightarrow> utf8_diagnostic d \<and> int64 (Line (Pos d)) \<and> int64 (Column (Pos d))"

lemma number_value_itoa [simp]: "number_value (itoa n) = n"
proof (cases "n < 0")
  case True
  then show ?thesis by (simp add: itoa_def number_value_def parse_nat_digits)
next
  case False
  obtain c r where d: "nat_digits (nat n) = c # r" using nat_digits_neq [of "nat n"] by (cases "nat_digits (nat n)") auto
  have "c \<noteq> CHR ''-''" using nat_digits_chars [of c "nat n"] by (auto simp: d)
  then show ?thesis using False parse_nat_digits [of "nat n"] by (simp add: itoa_def number_value_def d)
qed

lemma sarifLevel_utf8: "valid_utf8 (sarifLevel s)"
  by (auto simp: sarifLevel_def level_of_def sanitize_def newSeveritySanitizer_def)

lemma replacement_wf: "utf8_edit e \<Longrightarrow> jwf (sarif_replacement e)" "3 \<le> n \<Longrightarrow> jfits (sarif_replacement e) n" "plain_keys (sarif_replacement e)"
  by (simp_all add: sarif_replacement_def sarif_message_def omit_if_def utf8_edit_def jint_def itoa_form ToLower_def to_lower_char_def)

lemma artifact_wf: "valid_utf8 u \<Longrightarrow> jwf (sarif_artifact u)" "1 \<le> n \<Longrightarrow> jfits (sarif_artifact u) n" "plain_keys (sarif_artifact u)"
  by (simp_all add: sarif_artifact_def jint_def itoa_form ToLower_def to_lower_char_def)

lemma sarif_changes_members:
  assumes "c \<in> set (sarif_changes eds)"
  shows "fst c \<in> Filename ` Start ` set eds" "set (snd c) \<subseteq> sarif_replacement ` set eds"
  using assms by (auto simp: sarif_changes_def group_all_exact)

lemma change_wf:
  assumes "c \<in> set (sarif_changes eds)"
  shows "\<forall>e\<in>set eds. utf8_edit e \<Longrightarrow> jwf (sarif_change c)" "5 \<le> n \<Longrightarrow> jfits (sarif_change c) n" "plain_keys (sarif_change c)"
proof -
  note m = sarif_changes_members [OF assms]
  show "jwf (sarif_change c)" if u: "\<forall>e\<in>set eds. utf8_edit e"
  proof -
    have "valid_utf8 (fst c)" using m(1) u by (auto simp: utf8_edit_def utf8_position_def)
    moreover have "\<forall>r\<in>set (snd c). jwf r" using m(2) u by (auto simp: replacement_wf)
    ultimately show ?thesis by (simp add: sarif_change_def artifact_wf)
  qed
  have "\<forall>r\<in>set (snd c). jfits r k \<and> plain_keys r" if "3 \<le> k" for k using m(2) that by (auto simp: replacement_wf)
  then show "5 \<le> n \<Longrightarrow> jfits (sarif_change c) n" "plain_keys (sarif_change c)"
    by (auto simp: sarif_change_def artifact_wf list_all_iff ToLower_def to_lower_char_def)
qed

lemma sarif_fix_wf:
  "valid_utf8 (FixMessage sf) \<Longrightarrow> \<forall>e\<in>set (TextEdits sf). utf8_edit e \<Longrightarrow> jwf (sarif_fix sf)" "7 \<le> n \<Longrightarrow> jfits (sarif_fix sf) n" "plain_keys (sarif_fix sf)"
  using change_wf [of _ "TextEdits sf"]
  by (auto simp: sarif_fix_def sarif_message_def omit_if_def list_all_iff ToLower_def to_lower_char_def)

lemma sarif_result_wf: "sarif_ok d \<Longrightarrow> jwf (sarif_result d)" "9 \<le> n \<Longrightarrow> jfits (sarif_result d) n" "plain_keys (sarif_result d)"
  by (auto simp: sarif_result_def sarif_ok_def sarif_message_def utf8_diagnostic_def utf8_position_def sarifFixes_def sarif_fix_wf sarifLevel_utf8
      artifact_wf omit_if_def list_all_iff jint_def itoa_form ToLower_def to_lower_char_def)

definition unit_ok :: "string \<Rightarrow> string \<Rightarrow> string list \<Rightarrow> diagnostic list \<Rightarrow> bool" where
  "unit_ok pkg mode files ds \<longleftrightarrow> valid_utf8 pkg \<and> valid_utf8 mode \<and> (\<forall>f\<in>set files. valid_utf8 f) \<and> (\<forall>d\<in>set ds. sarif_ok d)"

lemma valid_utf8_ascii: "list_all (\<lambda>c. ord c < 128) s \<Longrightarrow> valid_utf8 s"
  by (induction s) simp_all

lemma schema_utf8: "valid_utf8 sarifSchemaURI"
  by (rule valid_utf8_ascii) (simp add: sarifSchemaURI_def)

lemma sarif_output_wf:
  assumes "jwf (JObject props)" "\<forall>n\<ge>10. jfits (JObject props) n" "plain_keys (JObject props)" "\<forall>d\<in>set ds. sarif_ok d"
  shows "jwf (sarif_output props ds)" "jfits (sarif_output props ds) max_depth" "plain_keys (sarif_output props ds)"
proof -
  show "jwf (sarif_output props ds)" using assms(1,4)
    by (simp add: sarif_output_def sarif_run_def omit_if_def sarif_result_wf schema_utf8)
  have "\<forall>p\<in>set props. jfits (snd p) (9997 - 1)" using assms(2) [rule_format, of 9997] by simp
  then show "jfits (sarif_output props ds) max_depth"
    by (simp add: sarif_output_def sarif_run_def omit_if_def sarif_result_wf max_depth_def)
  show "plain_keys (sarif_output props ds)" using assms(3)
    by (simp add: sarif_output_def sarif_run_def omit_if_def sarif_result_wf list_all_iff ToLower_def to_lower_char_def)
qed

lemma unit_properties_wf:
  assumes "valid_utf8 pkg" "valid_utf8 mode" "\<forall>f\<in>set files. valid_utf8 f"
  shows "jwf (JObject (unit_properties pkg mode files compiled))" "\<forall>n\<ge>10. jfits (JObject (unit_properties pkg mode files compiled)) n"
    "plain_keys (JObject (unit_properties pkg mode files compiled))"
  using assms by (simp_all add: unit_properties_def list_all_iff ToLower_def to_lower_char_def)

lemma result_seen:
  assumes "sarif_ok d"
  shows "result_typed (sarif_result d)" "result_diag (result_view (sarif_result d)) = sarif_visible d"
  using assms
  by (simp_all add: sarif_result_def sarif_message_def sarif_artifact_def result_typed_def result_view_def location_typed_def location_view_def result_diag_def
      sarif_visible_def object_at_def is_string_def array_of_def string_at_def int_at_def array_at_def is_int_def jint_def sarif_ok_def int64_def sarif_column_def)

lemma run_seen:
  assumes "unit_ok pkg mode files ds" 
  shows "run_typed (sarif_run (unit_properties pkg mode files compiled) ds)"
    "run_view (sarif_run (unit_properties pkg mode files compiled) ds) =
      \<lparr>sr_Results = map (result_view \<circ> sarif_result) ds, pu_Package = pkg, pu_Mode = mode, pu_GoFiles = files, pu_Compiles = Some compiled\<rparr>"
proof -
  have t: "\<forall>d\<in>set ds. result_typed (sarif_result d)" using assms result_seen by (simp add: unit_ok_def)
  show "run_typed (sarif_run (unit_properties pkg mode files compiled) ds)" using t
    by (simp add: sarif_run_def unit_properties_def omit_if_def run_typed_def object_at_def is_string_def array_of_def list_all_iff)
  show "run_view (sarif_run (unit_properties pkg mode files compiled) ds) =
      \<lparr>sr_Results = map (result_view \<circ> sarif_result) ds, pu_Package = pkg, pu_Mode = mode, pu_GoFiles = files, pu_Compiles = Some compiled\<rparr>"
    by (simp add: sarif_run_def unit_properties_def omit_if_def run_view_def string_at_def array_at_def comp_def)
qed

lemma sarif_decoded:
  assumes "unmarshals decode" "unit_ok pkg mode files ds"
  shows "decode (renderSarif pkg mode ds files compiled) = Inr [run_view (sarif_run (unit_properties pkg mode files compiled) ds)]"
proof -
  let ?p = "unit_properties pkg mode files compiled"
  have w: "jwf (sarif_output ?p ds)" "jfits (sarif_output ?p ds) max_depth" "plain_keys (sarif_output ?p ds)"
    using sarif_output_wf [of ?p ds] unit_properties_wf [of pkg mode files compiled] assms(2) by (auto simp: unit_ok_def)
  have "json_decode (renderSarif pkg mode ds files compiled) = Some (sarif_output ?p ds)"
    unfolding renderSarif_def Sarif_Print_def using w(1,2) unfolding sarif_output_def by (rule json_decode_encode)
  moreover have "doc_typed (sarif_output ?p ds)" using run_seen(1) [OF assms(2)]
    by (simp add: doc_typed_def sarif_output_def object_at_def array_of_def)
  ultimately show ?thesis using assms(1) w(3)
    by (simp add: unmarshals_def) (simp add: doc_view_def sarif_output_def array_at_def)
qed

lemma unit_read_back:
  assumes "unmarshals decode" "unit_ok pkg mode files ds" "rd path = Inr (renderSarif pkg mode ds files compiled)"
  shows "readSarifRun rd decode path = Inr \<lparr>cr_pkg = pkg, cr_mode = mode, cr_goFiles = sort files, cr_compiles = compiled, cr_diags = map sarif_visible ds\<rparr>"
proof -
  have "map (result_diag \<circ> (result_view \<circ> sarif_result)) ds = map sarif_visible ds" using assms(2) result_seen(2) by (auto simp: unit_ok_def)
  then show ?thesis using assms(3)
    by (simp add: readSarifRun_def sarif_decoded [OF assms(1,2)] run_seen(2) [OF assms(2)] add_run_def Let_def)
qed

text \<open>
  C21. What a unit action reports is what the collector reads: the package, mode, sorted file list and compile flag, and the
  findings in order with linter, message, position and SARIF level; a missing column becomes 1 and a level outside
  SARIF's becomes \<^verbatim>\<open>error\<close>.
\<close>

theorem collect_reads_unit:
  assumes "unmarshals decode" "unit_ok pkg mode files ds" "rd path = Inr (renderSarif pkg mode ds files compiled)"
  shows "readSarifRun rd decode path = Inr \<lparr>cr_pkg = pkg, cr_mode = mode, cr_goFiles = sort files, cr_compiles = compiled, cr_diags = map sarif_visible ds\<rparr>"
  using assms by (rule unit_read_back)

definition demo_unmarshal :: "bytes \<Rightarrow> sarifRun list result" where
  "demo_unmarshal b = (case json_decode b of None \<Rightarrow> Inl ''bad'' | Some v \<Rightarrow> Inr (doc_view v))"

theorem collect_reads_unit_witness:
  "readSarifRun (\<lambda>p. Inr (renderSarif ''p'' ''full'' [mk_diag ''vet'' ''m'' ''b.go'' 3 0] [''b.go'', ''a.go''] True)) demo_unmarshal ''x''
   = Inr \<lparr>cr_pkg = ''p'', cr_mode = ''full'', cr_goFiles = sort [''b.go'', ''a.go''], cr_compiles = True, cr_diags = [sarif_visible (mk_diag ''vet'' ''m'' ''b.go'' 3 0)]\<rparr>"
proof -
  have u: "unmarshals demo_unmarshal" by (simp add: unmarshals_def demo_unmarshal_def)
  have k: "unit_ok ''p'' ''full'' [''b.go'', ''a.go''] [mk_diag ''vet'' ''m'' ''b.go'' 3 0]"
    by (simp add: unit_ok_def sarif_ok_def utf8_diagnostic_def mk_diag_def utf8_position_def int64_def)
  show ?thesis using collect_reads_unit [OF u k, of "\<lambda>p. Inr (renderSarif ''p'' ''full'' [mk_diag ''vet'' ''m'' ''b.go'' 3 0] [''b.go'', ''a.go''] True)"] by simp
qed

text \<open>Reading and printing again changes nothing more, so an aggregate can be collected again; an informational finding becomes an error.\<close>

lemma sarif_visible_idem: "sarif_visible (sarif_visible d) = sarif_visible d"
  by (simp add: sarif_visible_def sarif_column_def sarifLevel_def level_of_def sanitize_def newSeveritySanitizer_def)

lemma info_becomes_error: "Severity (sarif_visible (d\<lparr>Severity := SeverityInfo\<rparr>)) = SeverityError"
  by (simp add: sarif_visible_def sarifLevel_def level_of_def sanitize_def newSeveritySanitizer_def SeverityInfo_def SeverityError_def)

end
