(* ===== verification/ConfigLoad.thy ===== *)
theory ConfigLoad
  imports RunCommand
begin

text \<open>
  Finding, decoding and checking the configuration file (\<^verbatim>\<open>internal/config/load.go\<close>, \<^verbatim>\<open>legacy.go\<close>, \<^verbatim>\<open>validate.go\<close> and the
  \<^verbatim>\<open>Validate\<close> methods; \<^verbatim>\<open>loadConfig\<close> of \<^verbatim>\<open>cmd/plaid-lint/run.go\<close>).  The decoders of \<^verbatim>\<open>yaml.v3\<close> and \<^verbatim>\<open>encoding/json\<close> are
  arguments, as are the file system and the validation of the settings of single linters.  Values in messages are not quoted.
\<close>

subsection \<open>The v1 shim\<close>

record 'w legacyConfig =
  lg_SkipDirs :: "string list"
  lg_SkipFiles :: "string list"
  lg_SkipDirsUseDefault :: bool
  lg_RunShowStats :: bool
  lg_EnableAll :: bool
  lg_DisableAll :: bool
  lg_Fast :: bool
  lg_LinterPresets :: "string list"
  lg_LintersSettings :: "'w option"
  lg_Format :: string
  lg_PrintIssuedLines :: "bool option"
  lg_PrintLinterName :: "bool option"
  lg_SortResults :: "bool option"
  lg_UniqByLine :: "bool option"
  lg_ExcludeRules :: "baserule list"
  lg_ExcludeFiles :: "string list"
  lg_ExcludeDirs :: "string list"
  lg_ExcludeGenerated :: string
  lg_ExcludeGeneratedStrict :: "bool option"
  lg_Exclude :: "string list"
  lg_ExcludeUseDefault :: "bool option"
  lg_ExcludeDirsUseDefault :: "bool option"
  lg_ExcludeCaseSensitive :: "bool option"
  lg_Include :: "string list"
  lg_DefaultSeverity :: string
  lg_CaseSensitive :: "bool option"

text \<open>An empty map of settings is \<open>None\<close>.\<close>

definition hasLegacyKeys :: "'w legacyConfig \<Rightarrow> bool" where
  "hasLegacyKeys l \<longleftrightarrow>
     lg_SkipDirs l \<noteq> [] \<or> lg_SkipFiles l \<noteq> [] \<or> lg_SkipDirsUseDefault l \<or> lg_RunShowStats l
     \<or> lg_EnableAll l \<or> lg_DisableAll l \<or> lg_Fast l \<or> lg_LinterPresets l \<noteq> []
     \<or> lg_LintersSettings l \<noteq> None
     \<or> lg_Format l \<noteq> [] \<or> lg_PrintIssuedLines l \<noteq> None \<or> lg_PrintLinterName l \<noteq> None \<or> lg_SortResults l \<noteq> None \<or> lg_UniqByLine l \<noteq> None
     \<or> lg_ExcludeRules l \<noteq> [] \<or> lg_ExcludeFiles l \<noteq> [] \<or> lg_ExcludeDirs l \<noteq> [] \<or> lg_ExcludeGenerated l \<noteq> []
     \<or> lg_ExcludeGeneratedStrict l \<noteq> None \<or> lg_Exclude l \<noteq> [] \<or> lg_ExcludeUseDefault l \<noteq> None \<or> lg_ExcludeDirsUseDefault l \<noteq> None
     \<or> lg_ExcludeCaseSensitive l \<noteq> None \<or> lg_Include l \<noteq> []
     \<or> lg_DefaultSeverity l \<noteq> [] \<or> lg_CaseSensitive l \<noteq> None"


subsection \<open>Migration\<close>

type_synonym warning = "string \<times> string"

definition warn_if :: "bool \<Rightarrow> string \<Rightarrow> string \<Rightarrow> warning list" where
  "warn_if b field msg = (if b then [(field, msg)] else [])"

abbreviation on_linters :: "('s cfgLinters \<Rightarrow> 's cfgLinters) \<Rightarrow> ('s, 't) cfg \<Rightarrow> ('s, 't) cfg" where
  "on_linters f c \<equiv> c\<lparr>cf_Linters := f (cf_Linters c)\<rparr>"

definition on_exclusions :: "(linterexclusions \<Rightarrow> linterexclusions) \<Rightarrow> ('s, 't) cfg \<Rightarrow> ('s, 't) cfg" where
  "on_exclusions f c = c\<lparr>cf_Linters := (cf_Linters c)\<lparr>lin_Exclusions := f (lin_Exclusions (cf_Linters c))\<rparr>\<rparr>"

definition add_paths :: "string list \<Rightarrow> ('s, 't) cfg \<Rightarrow> ('s, 't) cfg" where
  "add_paths ps = on_exclusions (\<lambda>e. e\<lparr>Paths := Paths e @ filter (\<lambda>p. p \<noteq> []) ps\<rparr>)"

definition migrate_run :: "'w legacyConfig \<Rightarrow> ('s, 't) cfg \<times> warning list \<Rightarrow> ('s, 't) cfg \<times> warning list" where
  "migrate_run l = (\<lambda>(c, ws).
     (let c = add_paths (lg_SkipDirs l) (add_paths (lg_SkipFiles l) c)
      in (if lg_RunShowStats l then c\<lparr>cf_Output := (cf_Output c)\<lparr>out_ShowStats := True\<rparr>\<rparr> else c,
          ws @ warn_if (lg_SkipFiles l \<noteq> []) ''run.skip-files'' ''moved to linters.exclusions.paths''
             @ warn_if (lg_SkipDirs l \<noteq> []) ''run.skip-dirs'' ''moved to linters.exclusions.paths''
             @ warn_if (lg_SkipDirsUseDefault l) ''run.skip-dirs-use-default'' ''removed in v2; built-in dir excludes no longer exist (set linters.exclusions.presets: [legacy] for closest equivalent)''
             @ warn_if (lg_RunShowStats l) ''run.show-stats'' ''moved to output.show-stats'')))"

definition set_default :: "string \<Rightarrow> ('s, 't) cfg \<Rightarrow> ('s, 't) cfg" where
  "set_default g c = c\<lparr>cf_Linters := (cf_Linters c)\<lparr>lin_Default := g\<rparr>\<rparr>"

definition migrate_default :: "'w legacyConfig \<Rightarrow> ('s, 't) cfg \<times> warning list \<Rightarrow> ('s, 't) cfg \<times> warning list" where
  "migrate_default l = (\<lambda>(c, ws).
     (let (c, ws) =
        (if lg_EnableAll l then (set_default ''all'' c, ws @ [(''linters.enable-all'', ''use linters.default: all'')])
         else if lg_DisableAll l then (set_default GroupNone c, ws @ [(''linters.disable-all'', ''use linters.default: none'')])
         else if lg_Fast l then (set_default ''fast'' c, ws @ [(''linters.fast'', ''use linters.default: fast'')])
         else (c, ws))
      in (c, ws @ warn_if (lg_LinterPresets l \<noteq> []) ''linters.presets''
             ''removed in v2; the closest replacement is linters.exclusions.presets (different semantics)'')))"

definition allFormatterNames :: "string list" where
  "allFormatterNames = [''gci'', ''gofmt'', ''gofumpt'', ''goimports'', ''golines'', ''swaggo'']"

definition appendIfMissing :: "string list \<Rightarrow> string \<Rightarrow> string list" where
  "appendIfMissing ss s = (if s \<in> set ss then ss else ss @ [s])"

definition migrateFormatterEnables :: "('s, 't) cfg \<times> warning list \<Rightarrow> ('s, 't) cfg \<times> warning list" where
  "migrateFormatterEnables = (\<lambda>(c, ws).
     (let en = lin_Enable (cf_Linters c); moved = filter (\<lambda>n. n \<in> set allFormatterNames) en
      in if en = [] then (c, ws)
         else (c\<lparr>cf_Linters := (cf_Linters c)\<lparr>lin_Enable := filter (\<lambda>n. n \<notin> set allFormatterNames) en\<rparr>,
                 cf_Formatters := (cf_Formatters c)\<lparr>for_Enable := foldl appendIfMissing (for_Enable (cf_Formatters c)) moved\<rparr>\<rparr>,
               ws @ warn_if (moved \<noteq> []) ''linters.enable''
                 ''formatters (gci/gofmt/gofumpt/goimports/golines/swaggo) moved from linters.enable to formatters.enable'')))"

text \<open>\<open>remarshal\<close> decodes the free-form settings over the typed ones: the settings after it and its error.\<close>

definition migrate_settings ::
  "('w \<Rightarrow> 's \<Rightarrow> 's \<times> string option) \<Rightarrow> 'w legacyConfig \<Rightarrow> ('s, 't) cfg \<times> warning list \<Rightarrow> ('s, 't) cfg \<times> warning list" where
  "migrate_settings remarshal l = (\<lambda>(c, ws).
     (case lg_LintersSettings l of
        None \<Rightarrow> (c, ws)
      | Some raw \<Rightarrow>
          (case remarshal raw (lin_Settings (cf_Linters c)) of
             (s, err) \<Rightarrow>
               (c\<lparr>cf_Linters := (cf_Linters c)\<lparr>lin_Settings := s\<rparr>\<rparr>,
                ws @ [(''linters-settings'',
                  case err of None \<Rightarrow> ''moved to linters.settings'' | Some e \<Rightarrow> ''could not migrate ('' @ e @ ''); structured keys lost'')]))))"

definition parseV1Format :: "string \<Rightarrow> string \<times> string" where
  "parseV1Format v = (takeWhile (\<lambda>c. c \<noteq> CHR '':'') v, tl (dropWhile (\<lambda>c. c \<noteq> CHR '':'') v))"

definition applyV1Format :: "cfgFormats \<Rightarrow> string \<Rightarrow> string \<Rightarrow> cfgFormats" where
  "applyV1Format f name path =
     (if name = ''tab'' \<or> name = ''colored-tab'' then
        (let f = f\<lparr>fmt_TabPath := path\<rparr> in if name = ''colored-tab'' then f\<lparr>fmt_TabColors := True\<rparr> else f)
      else if name = [] \<or> name = ''colored-line-number'' \<or> name = ''line-number'' then
        (let f = f\<lparr>fmt_TextPath := path\<rparr> in if name = ''colored-line-number'' then f\<lparr>fmt_TextColors := True\<rparr> else f)
      else if name = ''json'' then f\<lparr>fmt_JSONPath := path\<rparr>
      else if name = ''html'' then f\<lparr>fmt_HTMLPath := path\<rparr>
      else if name = ''checkstyle'' then f\<lparr>fmt_CheckstylePath := path\<rparr>
      else if name = ''code-climate'' then f\<lparr>fmt_CodeClimatePath := path\<rparr>
      else if name = ''junit-xml'' then f\<lparr>fmt_JUnitXMLPath := path\<rparr>
      else if name = ''teamcity'' then f\<lparr>fmt_TeamCityPath := path\<rparr>
      else if name = ''sarif'' then f\<lparr>fmt_SarifPath := path\<rparr>
      else f)"

definition on_formats :: "(cfgFormats \<Rightarrow> cfgFormats) \<Rightarrow> ('s, 't) cfg \<Rightarrow> ('s, 't) cfg" where
  "on_formats g c = c\<lparr>cf_Output := (cf_Output c)\<lparr>out_Formats := g (out_Formats (cf_Output c))\<rparr>\<rparr>"

definition migrate_output :: "'w legacyConfig \<Rightarrow> ('s, 't) cfg \<times> warning list \<Rightarrow> ('s, 't) cfg \<times> warning list" where
  "migrate_output l = (\<lambda>(c, ws).
     (let c = (if lg_Format l \<noteq> [] then on_formats (\<lambda>f. case parseV1Format (lg_Format l) of (n, p) \<Rightarrow> applyV1Format f n p) c else c);
          c = (case lg_PrintIssuedLines l of None \<Rightarrow> c | Some b \<Rightarrow> on_formats (\<lambda>f. f\<lparr>fmt_TextPrintIssuedLine := b\<rparr>) c);
          c = (case lg_PrintLinterName l of None \<Rightarrow> c | Some b \<Rightarrow> on_formats (\<lambda>f. f\<lparr>fmt_TextPrintLinterName := b, fmt_TabPrintLinterName := b\<rparr>) c);
          c = (case lg_UniqByLine l of None \<Rightarrow> c | Some b \<Rightarrow> c\<lparr>cf_Issues := (cf_Issues c)\<lparr>iss_UniqByLine := b\<rparr>\<rparr>)
      in (c, ws @ warn_if (lg_Format l \<noteq> []) ''output.format'' ''moved to output.formats.<name>.path (one named printer per format)''
             @ warn_if (lg_PrintIssuedLines l \<noteq> None) ''output.print-issued-lines'' ''moved to output.formats.text.print-issued-lines''
             @ warn_if (lg_PrintLinterName l \<noteq> None) ''output.print-linter-name'' ''moved to output.formats.{text,tab}.print-linter-name''
             @ warn_if (lg_SortResults l \<noteq> None) ''output.sort-results'' ''removed in v2 (output is always sorted)''
             @ warn_if (lg_UniqByLine l \<noteq> None) ''output.uniq-by-line'' ''moved to issues.uniq-by-line'')))"

definition normalizeV1Generated :: "string \<Rightarrow> string" where
  "normalizeV1Generated v =
     (if v = ''none'' \<or> v = ''disable'' then GeneratedModeDisable else if v = ''lax'' then GeneratedModeLax
      else if v = ''default'' \<or> v = ''strict'' then GeneratedModeStrict else v)"

definition text_rule :: "string \<Rightarrow> excluderule" where
  "text_rule txt = \<lparr>Linters = [], Path = ''.*'', PathExcept = [], Text = txt, Source = []\<rparr>"

definition add_rules :: "excluderule list \<Rightarrow> ('s, 't) cfg \<Rightarrow> ('s, 't) cfg" where
  "add_rules rs = on_exclusions (\<lambda>e. e\<lparr>Rules := Rules e @ rs\<rparr>)"

definition migrate_issues :: "'w legacyConfig \<Rightarrow> ('s, 't) cfg \<times> warning list \<Rightarrow> ('s, 't) cfg \<times> warning list" where
  "migrate_issues l = (\<lambda>(c, ws).
     (let g = normalizeV1Generated (lg_ExcludeGenerated l);
          c = add_paths (lg_ExcludeDirs l) (add_paths (lg_ExcludeFiles l) (add_rules (lg_ExcludeRules l) c));
          c = (if g \<noteq> [] then on_exclusions (\<lambda>e. e\<lparr>Generated := g\<rparr>) c else c);
          c = (if lg_ExcludeGeneratedStrict l = Some True then on_exclusions (\<lambda>e. e\<lparr>Generated := GeneratedModeStrict\<rparr>) c else c);
          c = add_rules (map text_rule (filter (\<lambda>t. t \<noteq> []) (lg_Exclude l))) c;
          c = (if lg_ExcludeUseDefault l = Some True then on_exclusions (\<lambda>e. e\<lparr>Presets := appendIfMissing (Presets e) ExclusionPresetLegacy\<rparr>) c else c)
      in (c, ws @ warn_if (lg_ExcludeRules l \<noteq> []) ''issues.exclude-rules'' ''moved to linters.exclusions.rules''
             @ warn_if (lg_ExcludeFiles l \<noteq> []) ''issues.exclude-files'' ''moved to linters.exclusions.paths''
             @ warn_if (lg_ExcludeDirs l \<noteq> []) ''issues.exclude-dirs'' ''moved to linters.exclusions.paths''
             @ warn_if (g \<noteq> []) ''issues.exclude-generated'' ''moved to linters.exclusions.generated (none|default|strict -> disable|lax|strict)''
             @ warn_if (lg_ExcludeGeneratedStrict l = Some True) ''issues.exclude-generated-strict'' ''moved to linters.exclusions.generated: strict''
             @ warn_if (lg_Exclude l \<noteq> []) ''issues.exclude'' ''wrapped into linters.exclusions.rules (each entry becomes a {text, path: .*} rule)''
             @ warn_if (lg_ExcludeUseDefault l = Some True) ''issues.exclude-use-default'' ''add 'legacy' to linters.exclusions.presets''
             @ warn_if (lg_ExcludeDirsUseDefault l \<noteq> None) ''issues.exclude-dirs-use-default'' ''removed in v2; no equivalent''
             @ warn_if (lg_ExcludeCaseSensitive l \<noteq> None) ''issues.exclude-case-sensitive'' ''removed in v2 (always case-sensitive)''
             @ warn_if (lg_Include l \<noteq> []) ''issues.include'' ''removed in v2; use linters.exclusions.{presets, rules} to re-enable specific defaults'')))"

definition migrate_severity :: "'w legacyConfig \<Rightarrow> ('s, 't) cfg \<times> warning list \<Rightarrow> ('s, 't) cfg \<times> warning list" where
  "migrate_severity l = (\<lambda>(c, ws).
     (let move = (lg_DefaultSeverity l \<noteq> [] \<and> sev_Default (cf_Severity c) = [])
      in (if move then c\<lparr>cf_Severity := (cf_Severity c)\<lparr>sev_Default := lg_DefaultSeverity l\<rparr>\<rparr> else c,
          ws @ warn_if move ''severity.default-severity'' ''moved to severity.default''
             @ warn_if (lg_CaseSensitive l \<noteq> None) ''severity.case-sensitive'' ''removed in v2'')))"

definition migrateLegacy :: "('w \<Rightarrow> 's \<Rightarrow> 's \<times> string option) \<Rightarrow> ('s, 't) cfg \<Rightarrow> 'w legacyConfig \<Rightarrow> ('s, 't) cfg \<times> warning list" where
  "migrateLegacy remarshal dst l =
     migrate_severity l (migrate_issues l (migrate_output l (migrate_settings remarshal l (migrateFormatterEnables
       (migrate_default l (migrate_run l (dst, [])))))))"

subsection \<open>Defaults\<close>

record goconstSettings =
  gc_MinStringLen :: int
  gc_MinOccurrencesCount :: int
  gc_NumberMin :: int
  gc_NumberMax :: int
  gc_MatchWithConstants :: bool
  gc_IgnoreCalls :: bool
  gc_ParseNumbers :: bool
  gc_FindDuplicates :: bool
  gc_EvalConstExpressions :: bool

definition goconst_defaults :: "goconstSettings \<Rightarrow> goconstSettings" where
  "goconst_defaults s =
     (let three = (\<lambda>n. if n = 0 then 3 else n);
          untouched = (\<not> gc_MatchWithConstants s \<and> \<not> gc_IgnoreCalls s \<and> \<not> gc_ParseNumbers s \<and> \<not> gc_FindDuplicates s \<and> \<not> gc_EvalConstExpressions s)
      in s\<lparr>gc_MinStringLen := three (gc_MinStringLen s), gc_MinOccurrencesCount := three (gc_MinOccurrencesCount s),
           gc_NumberMin := three (gc_NumberMin s), gc_NumberMax := three (gc_NumberMax s),
           gc_MatchWithConstants := (gc_MatchWithConstants s \<or> untouched), gc_IgnoreCalls := (gc_IgnoreCalls s \<or> untouched)\<rparr>)"

record unusedSettings =
  us_FieldWritesAreUses :: bool
  us_PostStatementsAreReads :: bool
  us_ExportedFieldsAreUsed :: bool
  us_ParametersAreUsed :: bool
  us_LocalVariablesAreUsed :: bool
  us_GeneratedIsUsed :: bool

definition unused_defaults :: "unusedSettings \<Rightarrow> unusedSettings" where
  "unused_defaults s =
     (if \<not> us_FieldWritesAreUses s \<and> \<not> us_PostStatementsAreReads s \<and> \<not> us_ExportedFieldsAreUsed s \<and> \<not> us_ParametersAreUsed s
         \<and> \<not> us_LocalVariablesAreUsed s \<and> \<not> us_GeneratedIsUsed s
      then s\<lparr>us_FieldWritesAreUses := True, us_ExportedFieldsAreUsed := True, us_ParametersAreUsed := True,
             us_LocalVariablesAreUsed := True, us_GeneratedIsUsed := True\<rparr>
      else s)"

text \<open>The two blocks of the settings that have defaults, and how the settings hold them.\<close>

record 's settingsLens =
  sl_goconst :: "'s \<Rightarrow> goconstSettings"
  sl_set_goconst :: "goconstSettings \<Rightarrow> 's \<Rightarrow> 's"
  sl_unused :: "'s \<Rightarrow> unusedSettings"
  sl_set_unused :: "unusedSettings \<Rightarrow> 's \<Rightarrow> 's"

definition applyLinterSettingsDefaults :: "'s settingsLens \<Rightarrow> 's \<Rightarrow> 's" where
  "applyLinterSettingsDefaults SL s =
     (let s = sl_set_goconst SL (goconst_defaults (sl_goconst SL s)) s in sl_set_unused SL (unused_defaults (sl_unused SL s)) s)"

definition finalize :: "'s settingsLens \<Rightarrow> ('s, 't) cfg \<Rightarrow> ('s, 't) cfg" where
  "finalize SL c =
     (let c = (if Generated (lin_Exclusions (cf_Linters c)) = [] then on_exclusions (\<lambda>e. e\<lparr>Generated := GeneratedModeStrict\<rparr>) c else c)
      in c\<lparr>cf_Linters := (cf_Linters c)\<lparr>lin_Settings := applyLinterSettingsDefaults SL (lin_Settings (cf_Linters c))\<rparr>\<rparr>)"

definition NewDefault :: "('s, 't) marshaller \<Rightarrow> 's settingsLens \<Rightarrow> ('s, 't) cfg" where
  "NewDefault M SL =
     (let c = on_exclusions (\<lambda>e. e\<lparr>Generated := GeneratedModeStrict\<rparr>) (zeroConfig M)
      in c\<lparr>cf_Linters := (cf_Linters c)\<lparr>lin_Settings := applyLinterSettingsDefaults SL (lin_Settings (cf_Linters c))\<rparr>\<rparr>)"


subsection \<open>Decoding\<close>

text \<open>
  The decoders: a body as the v2 configuration, as the v1 shim (for JSON after re-encoding, \<open>None\<close> when that fails), and the
  migration of free-form settings.
\<close>

record ('s, 't, 'w) codecs =
  cd_marshal :: "('s, 't) marshaller"
  cd_lens :: "'s settingsLens"
  cd_yaml :: "bytes \<Rightarrow> ('s, 't) cfg result"
  cd_yamlLegacy :: "bytes \<Rightarrow> 'w legacyConfig option"
  cd_json :: "bytes \<Rightarrow> ('s, 't) cfg result"
  cd_jsonLegacy :: "bytes \<Rightarrow> 'w legacyConfig option"
  cd_remarshal :: "'w \<Rightarrow> 's \<Rightarrow> 's \<times> string option"

definition migrated :: "('s, 't, 'w) codecs \<Rightarrow> ('s, 't) cfg \<Rightarrow> 'w legacyConfig option \<Rightarrow> ('s, 't) cfg \<times> warning list" where
  "migrated C c lo =
     (case lo of
        None \<Rightarrow> (finalize (cd_lens C) c, [])
      | Some l \<Rightarrow>
          (let (c, ws) = (if hasLegacyKeys l then migrateLegacy (cd_remarshal C) c l else (c, []))
           in (finalize (cd_lens C) c, ws)))"

definition decodeYAML :: "('s, 't, 'w) codecs \<Rightarrow> bytes \<Rightarrow> (('s, 't) cfg \<times> warning list) result" where
  "decodeYAML C body =
     (if body = [] then Inr (NewDefault (cd_marshal C) (cd_lens C), [])
      else case cd_yaml C body of Inl e \<Rightarrow> Inl (''yaml decode: '' @ e) | Inr c \<Rightarrow> Inr (migrated C c (cd_yamlLegacy C body)))"

definition decodeJSON :: "('s, 't, 'w) codecs \<Rightarrow> bytes \<Rightarrow> (('s, 't) cfg \<times> warning list) result" where
  "decodeJSON C body =
     (if body = [] then Inr (NewDefault (cd_marshal C) (cd_lens C), [])
      else case cd_json C body of Inl e \<Rightarrow> Inl (''json decode: '' @ e) | Inr c \<Rightarrow> Inr (migrated C c (cd_jsonLegacy C body)))"

definition Decode :: "('s, 't, 'w) codecs \<Rightarrow> bytes \<Rightarrow> string \<Rightarrow> (('s, 't) cfg \<times> warning list) result" where
  "Decode C body ext =
     (let ext = ToLower ext
      in if ext = [] \<or> ext = ''.yml'' \<or> ext = ''.yaml'' then decodeYAML C body
         else if ext = ''.json'' then decodeJSON C body
         else if ext = ''.toml'' then Inl ''TOML configs are not yet supported; see internal/config/SCHEMA.md''
         else Inl (''unsupported config extension '' @ ext))"


subsection \<open>Finding the file\<close>

definition Ext :: "string \<Rightarrow> string" where
  "Ext p = (let b = takeWhile (\<lambda>c. c \<noteq> CHR ''/'') (rev p) in if CHR ''.'' \<in> set b then ''.'' @ rev (takeWhile (\<lambda>c. c \<noteq> CHR ''.'') b) else [])"

datatype statResult = Found | NotExist | StatError string

record fileEnv =
  fe_getwd :: "string result"
  fe_home :: "string option"
  fe_stat :: "string \<Rightarrow> statResult"
  fe_read :: "string \<Rightarrow> bytes result"

definition filepath_Abs :: "fileEnv \<Rightarrow> string \<Rightarrow> string result" where
  "filepath_Abs E p = (if IsAbs p then Inr (Clean p) else case fe_getwd E of Inl e \<Rightarrow> Inl e | Inr wd \<Rightarrow> Inr (Join [wd, p]))"

definition Load :: "('s, 't, 'w) codecs \<Rightarrow> fileEnv \<Rightarrow> string \<Rightarrow> (('s, 't) cfg \<times> warning list) result" where
  "Load C E path =
     (case filepath_Abs E path of
        Inl e \<Rightarrow> Inl (''config: resolve '' @ path @ '': '' @ e)
      | Inr ap \<Rightarrow>
          (case fe_read E ap of
             Inl e \<Rightarrow> Inl (''config: read '' @ ap @ '': '' @ e)
           | Inr body \<Rightarrow>
               (case Decode C body (Ext ap) of
                  Inl e \<Rightarrow> Inl (''config: parse '' @ ap @ '': '' @ e)
                | Inr (c, ws) \<Rightarrow> Inr (c\<lparr>cf_sourcePath := ap, cf_cfgDir := Dir ap\<rparr>, ws))))"

definition supportedExtensions :: "string list" where "supportedExtensions = [''.yml'', ''.yaml'', ''.toml'', ''.json'']"
definition supportedBasename :: string where "supportedBasename = ''.golangci''"

text \<open>The configuration, the warnings and the path, or the path and the error.\<close>

type_synonym ('s, 't) loaded = "(string \<times> string) + ('s, 't) cfg \<times> warning list \<times> string"

fun try_exts :: "('s, 't, 'w) codecs \<Rightarrow> fileEnv \<Rightarrow> string \<Rightarrow> string list \<Rightarrow> ('s, 't) loaded option" where
  "try_exts C E dn [] = None"
| "try_exts C E dn (ext # exts) =
     (let path = Join [dn, supportedBasename @ ext]
      in case fe_stat E path of
           Found \<Rightarrow> Some (case Load C E path of Inl e \<Rightarrow> Inl (path, e) | Inr (c, ws) \<Rightarrow> Inr (c, ws, path))
         | NotExist \<Rightarrow> try_exts C E dn exts
         | StatError e \<Rightarrow> Some (Inl (path, ''config: stat '' @ path @ '': '' @ e)))"

fun LoadDirs :: "('s, 't, 'w) codecs \<Rightarrow> fileEnv \<Rightarrow> string list \<Rightarrow> ('s, 't) loaded" where
  "LoadDirs C E [] = Inr (NewDefault (cd_marshal C) (cd_lens C), [], [])"
| "LoadDirs C E (dn # dns) =
     (if dn = [] then LoadDirs C E dns
      else case try_exts C E dn supportedExtensions of Some r \<Rightarrow> r | None \<Rightarrow> LoadDirs C E dns)"

text \<open>The walk to the root with fuel; \<open>None\<close> when the fuel is not enough.\<close>

fun walk_up :: "nat \<Rightarrow> string \<Rightarrow> string list option" where
  "walk_up 0 cur = None"
| "walk_up (Suc n) cur =
     (if Dir cur = cur \<or> Dir cur = [] then Some [cur] else map_option (\<lambda>ds. cur # ds) (walk_up n (Dir cur)))"

definition with_home :: "string option \<Rightarrow> string list \<Rightarrow> string list" where
  "with_home home dns = (case home of None \<Rightarrow> dns | Some h \<Rightarrow> if h \<in> set dns then dns else dns @ [h])"

definition DiscoverDirs :: "fileEnv \<Rightarrow> string \<Rightarrow> string list option" where
  "DiscoverDirs E startDir =
     (let ap = (case filepath_Abs E startDir of Inl e \<Rightarrow> Clean startDir | Inr a \<Rightarrow> a)
      in map_option (with_home (fe_home E)) (walk_up (Suc (length ap)) ap))"

record loadFlags =
  lf_NoConfig :: bool
  lf_ConfigPath :: string

definition loadConfig :: "('s, 't, 'w) codecs \<Rightarrow> fileEnv \<Rightarrow> loadFlags \<Rightarrow> (('s, 't) cfg \<times> warning list \<times> string) result option" where
  "loadConfig C E fl =
     (if lf_NoConfig fl then Some (Inr (NewDefault (cd_marshal C) (cd_lens C), [], []))
      else if lf_ConfigPath fl \<noteq> [] then
        Some (case Load C E (lf_ConfigPath fl) of
                Inl e \<Rightarrow> Inl (''load config '' @ lf_ConfigPath fl @ '': '' @ e)
              | Inr (c, ws) \<Rightarrow> Inr (c, ws, lf_ConfigPath fl))
      else case fe_getwd E of
             Inl e \<Rightarrow> Some (Inl (''getwd: '' @ e))
           | Inr cwd \<Rightarrow>
               map_option (\<lambda>dns. case LoadDirs C E dns of Inl (p, e) \<Rightarrow> Inl (''discover config: '' @ e) | Inr r \<Rightarrow> Inr r) (DiscoverDirs E cwd))"


subsection \<open>Validation\<close>

definition Run_Validate :: "cfgRun \<Rightarrow> string option" where
  "Run_Validate r =
     (if run_ModulesDownloadMode r \<noteq> [] \<and> run_ModulesDownloadMode r \<notin> set [''mod'', ''readonly'', ''vendor'']
      then Some (''run.modules-download-mode: '' @ run_ModulesDownloadMode r @ '' is not one of (mod|readonly|vendor)'')
      else if run_RelativePathMode r \<noteq> [] \<and> run_RelativePathMode r \<notin> set [''wd'', ''cfg'', ''gomod'', ''gitroot'']
      then Some (''run.relative-path-mode: '' @ run_RelativePathMode r @ '' is not one of (wd|cfg|gomod|gitroot)'')
      else None)"

text \<open>\<^verbatim>\<open>strings.Count\<close>: non-overlapping occurrences, and one more than the number of characters for the empty string.\<close>

function count_sub :: "string \<Rightarrow> string \<Rightarrow> nat" where
  "count_sub s sub =
     (if sub = [] then Suc (length s)
      else case str_index s sub of None \<Rightarrow> 0 | Some i \<Rightarrow> Suc (count_sub (drop (i + length sub) s) sub))"
  by pat_completeness auto
termination
proof (relation "measure (\<lambda>(s, sub). length s)", goal_cases)
  case (2 s sub i)
  then have "s \<noteq> []" by (cases sub) auto
  then show ?case using 2 by simp
qed simp

declare count_sub.simps [simp del]

fun check_orders :: "string \<Rightarrow> string list \<Rightarrow> string option" where
  "check_orders all [] = None"
| "check_orders all (order # os) =
     (if 1 < count_sub all order then Some (''output.sort-order: name '' @ order @ '' is repeated'')
      else if order \<notin> set [''linter'', ''file'', ''severity''] then Some (''output.sort-order: '' @ order @ '' is not one of (linter|file|severity)'')
      else check_orders all os)"

definition validateSortOrder :: "cfgOutput \<Rightarrow> string option" where
  "validateSortOrder out = check_orders (join_with '' '' (out_SortOrder out)) (out_SortOrder out)"

definition validatePathMode :: "cfgOutput \<Rightarrow> string option" where
  "validatePathMode out = (if out_PathMode out = [] \<or> out_PathMode out = ''abs'' then None
     else Some (''output.path-mode: '' @ out_PathMode out @ '' is not one of (|abs)''))"

definition Output_Validate :: "cfgOutput \<Rightarrow> string option" where
  "Output_Validate out = (case validateSortOrder out of Some e \<Rightarrow> Some e | None \<Rightarrow> validatePathMode out)"

definition validateNoFormatters :: "'s cfgLinters \<Rightarrow> string option" where
  "validateNoFormatters l =
     (case filter (\<lambda>n. n \<in> set allFormatterNames) (lin_Enable l @ lin_Disable l) of
        [] \<Rightarrow> None
      | n # _ \<Rightarrow> Some (''linters: '' @ n @ '' is a formatter (move it to formatters.enable)''))"

definition Linters_Validate :: "regex_lib \<Rightarrow> 's cfgLinters \<Rightarrow> string option" where
  "Linters_Validate rl l = (case LinterExclusions_Validate rl (lin_Exclusions l) of Some e \<Rightarrow> Some e | None \<Rightarrow> validateNoFormatters l)"

definition Formatters_Validate :: "'t cfgFormatters \<Rightarrow> string option" where
  "Formatters_Validate f =
     (case filter (\<lambda>n. n \<notin> set allFormatterNames) (for_Enable f) of [] \<Rightarrow> None | n # _ \<Rightarrow> Some (''formatters.enable: '' @ n @ '' is not a formatter''))"

definition severityRuleMinConditions :: nat where "severityRuleMinConditions = 1"

definition SeverityRule_Validate :: "regex_lib \<Rightarrow> severityrule \<Rightarrow> string option" where
  "SeverityRule_Validate rl s =
     (if sr_Severity s = [] then Some ''severity must be set'' else BaseRule_Validate rl severityRuleMinConditions (sr_Base s))"

fun validate_severities :: "regex_lib \<Rightarrow> nat \<Rightarrow> severityrule list \<Rightarrow> string option" where
  "validate_severities rl i [] = None"
| "validate_severities rl i (r # rs) =
     (case SeverityRule_Validate rl r of
        Some e \<Rightarrow> Some (''severity.rules['' @ itoa (int i) @ '']: '' @ e)
      | None \<Rightarrow> validate_severities rl (Suc i) rs)"

definition Severity_Validate :: "regex_lib \<Rightarrow> cfgSeverity \<Rightarrow> string option" where
  "Severity_Validate rl s =
     (if sev_Rules s \<noteq> [] \<and> sev_Default s = [] then Some ''severity.default must be set when severity.rules is non-empty''
      else validate_severities rl 0 (sev_Rules s))"

definition Validate :: "regex_lib \<Rightarrow> ('s \<Rightarrow> string option) \<Rightarrow> ('s, 't) cfg option \<Rightarrow> string list" where
  "Validate rl vs co =
     (case co of
        None \<Rightarrow> [''config: nil Config'']
      | Some c \<Rightarrow>
          List.map_filter id
            [Run_Validate (cf_Run c), Output_Validate (cf_Output c), Linters_Validate rl (cf_Linters c), vs (lin_Settings (cf_Linters c)),
             Formatters_Validate (cf_Formatters c), Severity_Validate rl (cf_Severity c)])"

end
