(* ===== verification/ConfigProps.thy ===== *)
theory ConfigProps
  imports ConfigLoad
begin

text \<open>
  What loading guarantees: the search ends at the root and the nearest file wins, validation accepts exactly the documented
  configurations, and a migrated v1 configuration keeps what it moves.
\<close>

subsection \<open>The search\<close>

definition rooted :: "string list \<Rightarrow> string" where "rooted segs = ''/'' @ join_with ''/'' segs"

lemma Clean_rooted: "IsAbs p \<Longrightarrow> Clean p = rooted (clean_segs p)"
  by (simp add: Clean_def rooted_def)

lemma split_slashes:
  assumes "list_all plain_seg ws"
  shows "split_on (CHR ''/'') (concat (map (\<lambda>w. w @ ''/'') ws)) = ws @ [[]]"
  using assms
proof (induction ws)
  case (Cons w ws)
  then show ?case using split_on_append [of "CHR ''/''" w "concat (map (\<lambda>w. w @ ''/'') ws)"] by (simp add: plain_seg_def)
qed simp

lemma split_rooted:
  assumes "list_all plain_seg segs" "segs \<noteq> []"
  shows "split_on (CHR ''/'') (rooted segs) = [] # segs"
  using split_on_append [of "CHR ''/''" "[]" "join_with ''/'' segs"] split_join_with [of segs "CHR ''/''"] assms
  by (simp add: rooted_def list_all_iff plain_seg_def del: split_on.simps)

lemma Dir_rooted:
  assumes "list_all plain_seg (ws @ [w])"
  shows "Dir (rooted (ws @ [w])) = rooted ws"
proof -
  let ?p = "''/'' @ concat (map (\<lambda>w. w @ ''/'') ws)"
  have "split_on (CHR ''/'') (rooted (ws @ [w])) = [] # ws @ [w]" using split_rooted assms by simp
  then have "concat (map (\<lambda>w. w @ ''/'') (butlast (split_on (CHR ''/'') (rooted (ws @ [w]))))) = ?p"
    by (simp add: butlast_append del: split_on.simps)
  moreover have "IsAbs ?p" by (simp add: IsAbs_def HasPrefix_def)
  moreover have "split_on (CHR ''/'') ?p = [] # ws @ [[]]"
    using split_on_append [of "CHR ''/''" "[]"] split_slashes [of ws] assms by (simp del: split_on.simps)
  then have "clean_segs ?p = ws" using assms \<open>IsAbs ?p\<close> by (simp add: clean_segs_def fold_clean_plain del: split_on.simps)
  ultimately show ?thesis unfolding Dir_def by (simp add: Clean_rooted)
qed

lemma Dir_root: "Dir (rooted []) = rooted []"
  by (simp add: rooted_def) code_simp

lemma rooted_snoc_neq:
  assumes "list_all plain_seg (ws @ [w])"
  shows "rooted ws \<noteq> rooted (ws @ [w])"
proof (cases ws)
  case Nil
  then show ?thesis using assms by (auto simp: rooted_def plain_seg_def)
next
  case (Cons x xs)
  then have "split_on (CHR ''/'') (rooted ws) \<noteq> split_on (CHR ''/'') (rooted (ws @ [w]))"
    using split_rooted [of ws] split_rooted [of "ws @ [w]"] assms by (simp del: split_on.simps)
  then show ?thesis by metis
qed

text \<open>The chain of directories from one up to the root.\<close>

fun chain :: "string list \<Rightarrow> string list" where
  "chain segs = map (\<lambda>k. rooted (take k segs)) (rev [0..<Suc (length segs)])"

declare chain.simps [simp del]

lemma chain_snoc: "chain (ws @ [w]) = rooted (ws @ [w]) # chain ws"
  by (simp add: chain.simps)

lemma walk_up_chain:
  assumes "list_all plain_seg segs" "length segs < n"
  shows "walk_up n (rooted segs) = Some (chain segs)"
  using assms
proof (induction segs arbitrary: n rule: rev_induct)
  case Nil
  then show ?case by (cases n) (simp_all add: Dir_root chain.simps)
next
  case (snoc w ws)
  then obtain m where n: "n = Suc m" by (cases n) auto
  have "walk_up m (rooted ws) = Some (chain ws)" using snoc n by simp
  moreover have "Dir (rooted (ws @ [w])) = rooted ws" "rooted ws \<noteq> rooted (ws @ [w])" "rooted ws \<noteq> []"
    using Dir_rooted rooted_snoc_neq snoc.prems(1) by (auto simp: rooted_def)
  ultimately show ?case by (simp add: n chain_snoc)
qed

lemma rooted_length: "list_all plain_seg segs \<Longrightarrow> length segs < Suc (length (rooted segs))"
proof (induction segs rule: rev_induct)
  case (snoc w ws)
  have "length (join_with ''/'' ws) \<le> length (join_with ''/'' (ws @ [w]))"
    by (induction "''/''" ws rule: join_with.induct) auto
  moreover have "length (join_with ''/'' ws) < length (join_with ''/'' (ws @ [w]))" if "w \<noteq> []"
    using that by (induction "''/''" ws rule: join_with.induct) auto
  ultimately show ?case using snoc by (simp add: rooted_def plain_seg_def)
qed (simp add: rooted_def)

lemma DiscoverDirs_chain:
  assumes "IsAbs cwd"
  shows "DiscoverDirs E cwd = Some (with_home (fe_home E) (chain (clean_segs cwd)))"
proof -
  have p: "list_all plain_seg (clean_segs cwd)" by (rule clean_segs_plain [OF assms])
  have "filepath_Abs E cwd = Inr (rooted (clean_segs cwd))" using assms by (simp add: filepath_Abs_def Clean_rooted)
  then show ?thesis using walk_up_chain [OF p rooted_length [OF p]] by (simp add: DiscoverDirs_def)
qed

text \<open>The paths in the order in which they are tried.\<close>

definition candidates :: "string list \<Rightarrow> string list" where
  "candidates dns = concat (map (\<lambda>d. map (\<lambda>e. Join [d, supportedBasename @ e]) supportedExtensions) (filter (\<lambda>d. d \<noteq> []) dns))"

definition use_file :: "('s, 't, 'w) codecs \<Rightarrow> fileEnv \<Rightarrow> string \<Rightarrow> ('s, 't) loaded" where
  "use_file C E p =
     (case fe_stat E p of
        StatError e \<Rightarrow> Inl (p, ''config: stat '' @ p @ '': '' @ e)
      | _ \<Rightarrow> (case Load C E p of Inl e \<Rightarrow> Inl (p, e) | Inr (c, ws) \<Rightarrow> Inr (c, ws, p)))"

lemma try_exts_first:
  "try_exts C E dn exts = map_option (use_file C E) (find (\<lambda>p. fe_stat E p \<noteq> NotExist) (map (\<lambda>e. Join [dn, supportedBasename @ e]) exts))"
  by (induction exts) (auto simp: use_file_def Let_def split: statResult.split)

lemma find_append: "find P (xs @ ys) = (case find P xs of Some x \<Rightarrow> Some x | None \<Rightarrow> find P ys)"
  by (induction xs) auto

lemma LoadDirs_first:
  "LoadDirs C E dns = (case find (\<lambda>p. fe_stat E p \<noteq> NotExist) (candidates dns) of
     None \<Rightarrow> Inr (NewDefault (cd_marshal C) (cd_lens C), [], []) | Some p \<Rightarrow> use_file C E p)"
proof (induction dns)
  case (Cons d dns)
  then show ?case by (auto simp: candidates_def find_append try_exts_first split: option.split)
qed (simp add: candidates_def)

text \<open>
  C38. Without flags the command finds its configuration by walking from the working directory to the root and then to the
  home directory; the search ends, and the first of the candidate files in that order that exists is the one that is used,
  with \<^verbatim>\<open>.yml\<close> before \<^verbatim>\<open>.yaml\<close> before \<^verbatim>\<open>.toml\<close> before \<^verbatim>\<open>.json\<close> in one directory; a candidate whose state cannot be determined ends the search.
\<close>

theorem nearest_config_wins:
  assumes "\<not> lf_NoConfig fl" "lf_ConfigPath fl = []" "fe_getwd E = Inr cwd" "IsAbs cwd"
  shows "loadConfig C E fl = Some
    (case find (\<lambda>p. fe_stat E p \<noteq> NotExist) (candidates (with_home (fe_home E) (chain (clean_segs cwd)))) of
       None \<Rightarrow> Inr (NewDefault (cd_marshal C) (cd_lens C), [], [])
     | Some p \<Rightarrow> (case use_file C E p of Inl (q, e) \<Rightarrow> Inl (''discover config: '' @ e) | Inr r \<Rightarrow> Inr r))"
  using assms by (auto simp: loadConfig_def DiscoverDirs_chain LoadDirs_first split: option.split)

definition demo_files :: fileEnv where
  "demo_files = \<lparr>fe_getwd = Inr ''/w/a'', fe_home = None, fe_stat = (\<lambda>p. if p = ''/w/.golangci.yaml'' then StatError ''EIO'' else NotExist), fe_read = (\<lambda>p. Inl ''ENOENT'')\<rparr>"

theorem nearest_config_wins_witness:
  "\<forall>C :: (nat, nat, nat) codecs. loadConfig C demo_files \<lparr>lf_NoConfig = False, lf_ConfigPath = []\<rparr> = Some (Inl ''discover config: config: stat /w/.golangci.yaml: EIO'')"
proof -
  have "IsAbs ''/w/a''" by (simp add: IsAbs_def HasPrefix_def)
  have c: "candidates (chain (clean_segs ''/w/a'')) = [''/w/a/.golangci.yml'', ''/w/a/.golangci.yaml'', ''/w/a/.golangci.toml'', ''/w/a/.golangci.json'',
    ''/w/.golangci.yml'', ''/w/.golangci.yaml'', ''/w/.golangci.toml'', ''/w/.golangci.json'', ''/.golangci.yml'', ''/.golangci.yaml'', ''/.golangci.toml'', ''/.golangci.json'']"
    by code_simp
  show ?thesis
  proof
    fix C :: "(nat, nat, nat) codecs"
    show "loadConfig C demo_files \<lparr>lf_NoConfig = False, lf_ConfigPath = []\<rparr> = Some (Inl ''discover config: config: stat /w/.golangci.yaml: EIO'')"
      using nearest_config_wins [of "\<lparr>lf_NoConfig = False, lf_ConfigPath = []\<rparr>" demo_files "''/w/a''" C] \<open>IsAbs ''/w/a''\<close>
      by (simp add: demo_files_def with_home_def c use_file_def)
  qed
qed


subsection \<open>Validation\<close>

lemma str_index_found: "\<exists>i\<le>length a. str_index (a @ sub @ c) sub = Some i"
proof (induction a)
  case Nil
  have "HasPrefix (sub @ c) sub" by (simp add: HasPrefix_def)
  then show ?case by (cases "sub @ c") simp_all
next
  case (Cons x a)
  then show ?case by (auto intro: exI [of _ 0])
qed

lemma count_sub_found: "sub \<noteq> [] \<Longrightarrow> \<exists>i\<le>length a. count_sub (a @ sub @ c) sub = Suc (count_sub (drop (i + length sub) (a @ sub @ c)) sub)"
  using str_index_found [of a sub c] by (subst count_sub.simps) force

lemma count_sub_twice:
  assumes "sub \<noteq> []"
  shows "2 \<le> count_sub (a @ sub @ b @ sub @ c) sub"
proof -
  obtain i where i: "i \<le> length a" "count_sub (a @ sub @ b @ sub @ c) sub = Suc (count_sub (drop (i + length sub) (a @ sub @ b @ sub @ c)) sub)"
    using count_sub_found [OF assms, of a "b @ sub @ c"] by auto
  let ?a = "drop (i + length sub) (a @ sub @ b)"
  have "drop (i + length sub) (a @ sub @ b @ sub @ c) = ?a @ sub @ c" using i(1) by simp
  then show ?thesis using i(2) count_sub_found [OF assms, of ?a c] by auto
qed

lemma join_with_snoc_parts: "xs \<noteq> [] \<Longrightarrow> ys \<noteq> [] \<Longrightarrow> join_with sep (xs @ ys) = join_with sep xs @ sep @ join_with sep ys"
  by (induction sep xs rule: join_with.induct) (auto simp: neq_Nil_conv)

lemma join_with_infix: "\<exists>a c. join_with sep (xs @ w # ys) = a @ w @ c \<and> (\<forall>v zs. ys = v # zs \<longrightarrow> c = sep @ join_with sep ys)"
proof -
  obtain c where c: "join_with sep (w # ys) = w @ c" "\<forall>v zs. ys = v # zs \<longrightarrow> c = sep @ join_with sep ys" by (cases ys) auto
  show ?thesis
  proof (cases xs)
    case Nil
    then show ?thesis using c by (intro exI [of _ "[]"] exI [of _ c]) simp
  next
    case Cons
    then show ?thesis using c join_with_snoc_parts [of xs "w # ys" sep] by (intro exI [of _ "join_with sep xs @ sep"] exI [of _ c]) simp
  qed
qed

definition valid_orders :: "string list" where "valid_orders = [''linter'', ''file'', ''severity'']"

lemma repeated_counted:
  assumes "\<not> distinct os" "[] \<notin> set os"
  shows "\<exists>order\<in>set os. 2 \<le> count_sub (join_with '' '' os) order"
proof -
  obtain xs ys zs order where os: "os = xs @ [order] @ ys @ [order] @ zs" using not_distinct_decomp [OF assms(1)] by blast
  then have ne: "order \<noteq> []" using assms(2) by auto
  obtain a c where 1: "join_with '' '' (xs @ order # (ys @ [order] @ zs)) = a @ order @ c"
    "c = '' '' @ join_with '' '' (ys @ [order] @ zs)"
    using join_with_infix [of "'' ''" xs order "ys @ [order] @ zs"] by (cases "ys @ [order] @ zs") auto
  obtain a' c' where 2: "join_with '' '' (ys @ order # zs) = a' @ order @ c'" using join_with_infix [of "'' ''" ys order zs] by blast
  have "join_with '' '' os = a @ order @ ('' '' @ a') @ order @ c'" using 1 2 os by simp
  then show ?thesis using count_sub_twice [OF ne, of a "'' '' @ a'" c'] os by auto
qed

lemma distinct_counted:
  assumes "distinct os" "set os \<subseteq> set valid_orders" "order \<in> set os"
  shows "count_sub (join_with '' '' os) order \<le> 1"
proof -
  have "length os \<le> 3" using distinct_card [OF assms(1)] card_mono [OF _ assms(2)] by (simp add: valid_orders_def)
  then have l: "os \<in> set (concat (map (\<lambda>n. List.n_lists n valid_orders) [1, 2, 3]))"
    using assms(2,3) by (cases os; cases "tl os"; cases "tl (tl os)"; cases "tl (tl (tl os))") (auto simp: set_n_lists)
  have "list_all (\<lambda>os. distinct os \<longrightarrow> list_all (\<lambda>order. count_sub (join_with '' '' os) order \<le> 1) os) (concat (map (\<lambda>n. List.n_lists n valid_orders) [1, 2, 3]))"
    by code_simp
  then show ?thesis using l assms(1,3) unfolding list_all_iff by blast
qed

lemma check_orders_None: "check_orders al os = None \<longleftrightarrow> (\<forall>order\<in>set os. count_sub al order \<le> 1 \<and> order \<in> set valid_orders)"
  by (induction os) (auto simp: valid_orders_def not_less)

lemma validateSortOrder_None: "validateSortOrder out = None \<longleftrightarrow> distinct (out_SortOrder out) \<and> set (out_SortOrder out) \<subseteq> set valid_orders"
proof -
  let ?os = "out_SortOrder out"
  have "distinct ?os" if "\<forall>order\<in>set ?os. count_sub (join_with '' '' ?os) order \<le> 1" "set ?os \<subseteq> set valid_orders"
  proof (rule ccontr)
    assume d: "\<not> distinct ?os"
    have "[] \<notin> set ?os" using that(2) by (auto simp: valid_orders_def)
    from repeated_counted [OF d this] show False using that(1) by fastforce
  qed
  then show ?thesis using distinct_counted [of ?os] by (auto simp: validateSortOrder_def check_orders_None)
qed

lemma first_of_filter_None: "(case filter P xs of [] \<Rightarrow> None | n # _ \<Rightarrow> Some (f n)) = None \<longleftrightarrow> (\<forall>n\<in>set xs. \<not> P n)"
  by (auto simp: filter_empty_conv split: list.splits) (metis filter_eq_ConsD in_set_conv_decomp list.discI filter_False)

lemma validate_severities_None: "validate_severities rl i rs = None \<longleftrightarrow> (\<forall>r\<in>set rs. SeverityRule_Validate rl r = None)"
  by (induction rs arbitrary: i) (auto split: option.splits)

lemma map_filter_id_Nil: "List.map_filter id es = [] \<longleftrightarrow> (\<forall>e\<in>set es. e = None)"
  by (auto simp: List.map_filter_def filter_empty_conv)

lemma Linters_Validate_None:
  "Linters_Validate rl l = None \<longleftrightarrow> LinterExclusions_Validate rl (lin_Exclusions l) = None
     \<and> set (lin_Enable l) \<inter> set allFormatterNames = {} \<and> set (lin_Disable l) \<inter> set allFormatterNames = {}"
proof -
  have "validateNoFormatters l = None \<longleftrightarrow> (\<forall>n\<in>set (lin_Enable l @ lin_Disable l). n \<notin> set allFormatterNames)"
    unfolding validateNoFormatters_def by (rule first_of_filter_None)
  then show ?thesis by (auto simp: Linters_Validate_def split: option.split)
qed

text \<open>
  C39. Validation accepts exactly the documented configurations: known download, relative-path, path and generated modes, sort
  orders that are known and not repeated, known presets, exclusion rules with two conditions and severity rules with a severity and
  one, all with patterns that compile, formatters only under \<^verbatim>\<open>formatters\<close>, and a default severity when there are severity rules.
\<close>

theorem Validate_exact:
  "Validate rl vs (Some c) = [] \<longleftrightarrow>
     run_ModulesDownloadMode (cf_Run c) \<in> {[], ''mod'', ''readonly'', ''vendor''}
   \<and> run_RelativePathMode (cf_Run c) \<in> {[], ''wd'', ''cfg'', ''gomod'', ''gitroot''}
   \<and> distinct (out_SortOrder (cf_Output c)) \<and> set (out_SortOrder (cf_Output c)) \<subseteq> set valid_orders
   \<and> out_PathMode (cf_Output c) \<in> {[], ''abs''}
   \<and> Generated (lin_Exclusions (cf_Linters c)) \<in> {[], GeneratedModeLax, GeneratedModeStrict, GeneratedModeDisable}
   \<and> set (Presets (lin_Exclusions (cf_Linters c))) \<subseteq> set allPresets
   \<and> (\<forall>r\<in>set (Rules (lin_Exclusions (cf_Linters c))). BaseRule_Validate rl 2 r = None)
   \<and> (set (lin_Enable (cf_Linters c)) \<union> set (lin_Disable (cf_Linters c))) \<inter> set allFormatterNames = {}
   \<and> vs (lin_Settings (cf_Linters c)) = None
   \<and> set (for_Enable (cf_Formatters c)) \<subseteq> set allFormatterNames
   \<and> (sev_Rules (cf_Severity c) \<noteq> [] \<longrightarrow> sev_Default (cf_Severity c) \<noteq> [])
   \<and> (\<forall>r\<in>set (sev_Rules (cf_Severity c)). sr_Severity r \<noteq> [] \<and> BaseRule_Validate rl 1 (sr_Base r) = None)"
proof -
  have r: "Run_Validate r = None \<longleftrightarrow> run_ModulesDownloadMode r \<in> {[], ''mod'', ''readonly'', ''vendor''} \<and> run_RelativePathMode r \<in> {[], ''wd'', ''cfg'', ''gomod'', ''gitroot''}" for r
    by (simp add: Run_Validate_def)
  have o: "Output_Validate out = None \<longleftrightarrow> validateSortOrder out = None \<and> out_PathMode out \<in> {[], ''abs''}" for out
    by (simp add: Output_Validate_def validatePathMode_def split: option.split)
  have f: "Formatters_Validate f = None \<longleftrightarrow> set (for_Enable f) \<subseteq> set allFormatterNames" for f
    by (auto simp: Formatters_Validate_def first_of_filter_None)
  have sv: "Severity_Validate rl sv = None \<longleftrightarrow> (sev_Rules sv \<noteq> [] \<longrightarrow> sev_Default sv \<noteq> [])
      \<and> (\<forall>r\<in>set (sev_Rules sv). sr_Severity r \<noteq> [] \<and> BaseRule_Validate rl 1 (sr_Base r) = None)" for sv
    by (auto simp: Severity_Validate_def validate_severities_None SeverityRule_Validate_def severityRuleMinConditions_def)
  have v: "Validate rl vs (Some c) = [] \<longleftrightarrow> Run_Validate (cf_Run c) = None \<and> Output_Validate (cf_Output c) = None
    \<and> Linters_Validate rl (cf_Linters c) = None \<and> vs (lin_Settings (cf_Linters c)) = None
    \<and> Formatters_Validate (cf_Formatters c) = None \<and> Severity_Validate rl (cf_Severity c) = None"
    unfolding Validate_def option.case map_filter_id_Nil by simp
  show ?thesis
    unfolding v r o f sv Linters_Validate_None LinterExclusions_Validate_None validateSortOrder_None ExcludeRule_Validate_def
      excludeRuleMinConditions_def Int_Un_distrib2 Un_empty
    by argo
qed

theorem Validate_exact_witness:
  "Validate \<lparr>re_compile = (\<lambda>p. None), re_match = (\<lambda>p s. False)\<rparr> (\<lambda>s. None) (Some (zeroConfig demo_marshal)) = []"
  unfolding Validate_exact by (simp add: zeroConfig_def)


subsection \<open>Migration\<close>

abbreviation excl :: "('s, 't) cfg \<Rightarrow> linterexclusions" where "excl c \<equiv> lin_Exclusions (cf_Linters c)"

abbreviation kept_paths :: "string list \<Rightarrow> string list" where "kept_paths \<equiv> filter (\<lambda>p. p \<noteq> [])"

lemma stage_excl:
  "excl (fst (migrate_run l x)) = (excl (fst x))\<lparr>Paths := Paths (excl (fst x)) @ kept_paths (lg_SkipFiles l) @ kept_paths (lg_SkipDirs l)\<rparr>"
  "excl (fst (migrate_default l x)) = excl (fst x)" "excl (fst (migrateFormatterEnables x)) = excl (fst x)"
  "excl (fst (migrate_settings rm l x)) = excl (fst x)" "excl (fst (migrate_output l x)) = excl (fst x)" "excl (fst (migrate_severity l x)) = excl (fst x)"
  by (simp_all add: migrate_run_def migrate_default_def migrateFormatterEnables_def migrate_settings_def migrate_output_def migrate_severity_def
      add_paths_def on_exclusions_def set_default_def on_formats_def Let_def case_prod_beta split: option.split)

lemma stage_issues:
  "Paths (excl (fst (migrate_issues l x))) = Paths (excl (fst x)) @ kept_paths (lg_ExcludeFiles l) @ kept_paths (lg_ExcludeDirs l)"
  "Rules (excl (fst (migrate_issues l x))) = Rules (excl (fst x)) @ lg_ExcludeRules l @ map text_rule (filter (\<lambda>t. t \<noteq> []) (lg_Exclude l))"
  "Presets (excl (fst (migrate_issues l x))) = (if lg_ExcludeUseDefault l = Some True then appendIfMissing (Presets (excl (fst x))) ExclusionPresetLegacy else Presets (excl (fst x)))"
  "Generated (excl (fst (migrate_issues l x))) = (if lg_ExcludeGeneratedStrict l = Some True then GeneratedModeStrict
     else if lg_ExcludeGenerated l \<noteq> [] then normalizeV1Generated (lg_ExcludeGenerated l) else Generated (excl (fst x)))"
proof -
  have n: "normalizeV1Generated g = [] \<longleftrightarrow> g = []" for g by (simp add: normalizeV1Generated_def config_consts)
  show "Paths (excl (fst (migrate_issues l x))) = Paths (excl (fst x)) @ kept_paths (lg_ExcludeFiles l) @ kept_paths (lg_ExcludeDirs l)"
    "Rules (excl (fst (migrate_issues l x))) = Rules (excl (fst x)) @ lg_ExcludeRules l @ map text_rule (filter (\<lambda>t. t \<noteq> []) (lg_Exclude l))"
    "Presets (excl (fst (migrate_issues l x))) = (if lg_ExcludeUseDefault l = Some True then appendIfMissing (Presets (excl (fst x))) ExclusionPresetLegacy else Presets (excl (fst x)))"
    "Generated (excl (fst (migrate_issues l x))) = (if lg_ExcludeGeneratedStrict l = Some True then GeneratedModeStrict
       else if lg_ExcludeGenerated l \<noteq> [] then normalizeV1Generated (lg_ExcludeGenerated l) else Generated (excl (fst x)))"
    by (simp_all add: migrate_issues_def add_paths_def add_rules_def on_exclusions_def Let_def case_prod_beta n)
qed

lemma stage_names:
  "lin_Enable (cf_Linters (fst (migrate_run l x))) = lin_Enable (cf_Linters (fst x))" "lin_Enable (cf_Linters (fst (migrate_default l x))) = lin_Enable (cf_Linters (fst x))"
  "lin_Enable (cf_Linters (fst (migrate_settings rm l x))) = lin_Enable (cf_Linters (fst x))" "lin_Enable (cf_Linters (fst (migrate_output l x))) = lin_Enable (cf_Linters (fst x))"
  "lin_Enable (cf_Linters (fst (migrate_issues l x))) = lin_Enable (cf_Linters (fst x))" "lin_Enable (cf_Linters (fst (migrate_severity l x))) = lin_Enable (cf_Linters (fst x))"
  "lin_Disable (cf_Linters (fst (migrate_run l x))) = lin_Disable (cf_Linters (fst x))" "lin_Disable (cf_Linters (fst (migrate_default l x))) = lin_Disable (cf_Linters (fst x))"
  "lin_Disable (cf_Linters (fst (migrateFormatterEnables x))) = lin_Disable (cf_Linters (fst x))" "lin_Disable (cf_Linters (fst (migrate_settings rm l x))) = lin_Disable (cf_Linters (fst x))"
  "lin_Disable (cf_Linters (fst (migrate_output l x))) = lin_Disable (cf_Linters (fst x))" "lin_Disable (cf_Linters (fst (migrate_issues l x))) = lin_Disable (cf_Linters (fst x))"
  "lin_Disable (cf_Linters (fst (migrate_severity l x))) = lin_Disable (cf_Linters (fst x))"
  "cf_Formatters (fst (migrate_run l x)) = cf_Formatters (fst x)" "cf_Formatters (fst (migrate_default l x)) = cf_Formatters (fst x)"
  "cf_Formatters (fst (migrate_settings rm l x)) = cf_Formatters (fst x)" "cf_Formatters (fst (migrate_output l x)) = cf_Formatters (fst x)"
  "cf_Formatters (fst (migrate_issues l x)) = cf_Formatters (fst x)" "cf_Formatters (fst (migrate_severity l x)) = cf_Formatters (fst x)"
  by (simp_all add: migrate_run_def migrate_default_def migrateFormatterEnables_def migrate_settings_def migrate_output_def migrate_severity_def migrate_issues_def
      add_paths_def add_rules_def on_exclusions_def set_default_def on_formats_def Let_def case_prod_beta split: option.split)

lemma append_missing_set: "set (foldl appendIfMissing xs ys) = set xs \<union> set ys"
  by (induction ys arbitrary: xs) (auto simp: appendIfMissing_def)

lemma stage_formatters:
  "lin_Enable (cf_Linters (fst (migrateFormatterEnables x))) = filter (\<lambda>n. n \<notin> set allFormatterNames) (lin_Enable (cf_Linters (fst x)))"
  "set (for_Enable (cf_Formatters (fst (migrateFormatterEnables x)))) = set (for_Enable (cf_Formatters (fst x))) \<union> (set (lin_Enable (cf_Linters (fst x))) \<inter> set allFormatterNames)"
  by (auto simp: migrateFormatterEnables_def Let_def case_prod_beta append_missing_set)

text \<open>
  Migration keeps what it moves: the v1 path lists, exclusion rules and texts are appended to their v2 homes in order, formatters
  leave the enabled linters and join the enabled formatters, the other enabled and all disabled linters stay.
\<close>

theorem migration_keeps:
  "Paths (excl (fst (migrateLegacy rm c l))) = Paths (excl c) @ kept_paths (lg_SkipFiles l) @ kept_paths (lg_SkipDirs l)
      @ kept_paths (lg_ExcludeFiles l) @ kept_paths (lg_ExcludeDirs l)
   \<and> Rules (excl (fst (migrateLegacy rm c l))) = Rules (excl c) @ lg_ExcludeRules l @ map text_rule (filter (\<lambda>t. t \<noteq> []) (lg_Exclude l))
   \<and> lin_Enable (cf_Linters (fst (migrateLegacy rm c l))) = filter (\<lambda>n. n \<notin> set allFormatterNames) (lin_Enable (cf_Linters c))
   \<and> lin_Disable (cf_Linters (fst (migrateLegacy rm c l))) = lin_Disable (cf_Linters c)
   \<and> set (for_Enable (cf_Formatters (fst (migrateLegacy rm c l)))) = set (for_Enable (cf_Formatters c)) \<union> (set (lin_Enable (cf_Linters c)) \<inter> set allFormatterNames)"
  by (simp add: migrateLegacy_def stage_excl stage_issues stage_names stage_formatters)

text \<open>
  A migrated linters block is valid whenever its parts are: the v2 exclusions and the v1 rules, texts that compile, a known v1 mode,
  and no formatter under \<^verbatim>\<open>disable\<close>.
\<close>

theorem migrated_validates:
  assumes "LinterExclusions_Validate rl (excl c) = None" "\<forall>r\<in>set (lg_ExcludeRules l). ExcludeRule_Validate rl r = None"
    and "\<forall>t\<in>set (lg_Exclude l). t \<noteq> [] \<longrightarrow> re_compile rl t = None" "re_compile rl ''.*'' = None"
    and "lg_ExcludeGenerated l \<in> {[], ''none'', ''disable'', ''lax'', ''default'', ''strict''}"
    and "set (lin_Disable (cf_Linters c)) \<inter> set allFormatterNames = {}"
  shows "Linters_Validate rl (cf_Linters (fst (migrateLegacy rm c l))) = None"
proof -
  have t: "ExcludeRule_Validate rl (text_rule t) = None" if "t \<in> set (lg_Exclude l)" "t \<noteq> []" for t
    using assms(3,4) that by (simp add: ExcludeRule_Validate_def BaseRule_Validate_None text_rule_def nonBlank_def excludeRuleMinConditions_def)
  have g: "normalizeV1Generated (lg_ExcludeGenerated l) \<in> {[], GeneratedModeLax, GeneratedModeStrict, GeneratedModeDisable}"
    using assms(5) by (auto simp: normalizeV1Generated_def)
  have "LinterExclusions_Validate rl (excl (fst (migrateLegacy rm c l))) = None"
    using assms(1,2) t g unfolding LinterExclusions_Validate_None
    by (auto simp: migrateLegacy_def stage_excl stage_issues appendIfMissing_def allPresets_def)
  then show ?thesis unfolding Linters_Validate_None using assms(6)
    by (auto simp: migrateLegacy_def stage_names stage_formatters)
qed

definition v1_demo :: "nat legacyConfig" where
  "v1_demo = \<lparr>lg_SkipDirs = [''gen''], lg_SkipFiles = [], lg_SkipDirsUseDefault = False, lg_RunShowStats = False, lg_EnableAll = False, lg_DisableAll = True,
     lg_Fast = False, lg_LinterPresets = [], lg_LintersSettings = None, lg_Format = [], lg_PrintIssuedLines = None, lg_PrintLinterName = None,
     lg_SortResults = None, lg_UniqByLine = None, lg_ExcludeRules = [], lg_ExcludeFiles = [], lg_ExcludeDirs = [], lg_ExcludeGenerated = ''none'',
     lg_ExcludeGeneratedStrict = None, lg_Exclude = [''todo''], lg_ExcludeUseDefault = Some True, lg_ExcludeDirsUseDefault = None,
     lg_ExcludeCaseSensitive = None, lg_Include = [], lg_DefaultSeverity = [], lg_CaseSensitive = None\<rparr>"

theorem migrated_validates_witness:
  "Linters_Validate \<lparr>re_compile = (\<lambda>p. None), re_match = (\<lambda>p s. False)\<rparr>
     (cf_Linters (fst (migrateLegacy (\<lambda>w s. (s, None)) (layer [] [''gofmt'', ''vet'']) v1_demo))) = None"
  by (rule migrated_validates)
    (simp_all add: v1_demo_def layer_def zeroConfig_def LinterExclusions_Validate_None)

text \<open>The shim is consulted only when it has a v1 key, so a v1 file that merely enables a formatter is not migrated, and rejected.\<close>

lemma formatter_not_migrated:
  assumes "\<not> hasLegacyKeys l" "''gofmt'' \<in> set (lin_Enable (cf_Linters c))"
  shows "Linters_Validate rl (cf_Linters (fst (migrated C c (Some l)))) \<noteq> None"
proof -
  have "lin_Enable (cf_Linters (fst (migrated C c (Some l)))) = lin_Enable (cf_Linters c)"
    using assms(1) by (simp add: migrated_def finalize_def on_exclusions_def Let_def)
  then show ?thesis using assms(2) unfolding Linters_Validate_None by (auto simp: allFormatterNames_def)
qed

text \<open>A v1 format without a path names no destination, so nothing but the default text report is printed.\<close>

lemma v1_format_lost: "sinks_of (applyV1Format (out_Formats (cf_Output (zeroConfig M))) ''json'' []) rfo = [\<lparr>sk_format = ''text'', sk_path = ''stdout'', sk_authority = outputPathOperator\<rparr>]"
  by (simp add: applyV1Format_def zeroConfig_def sinks_of_def configured_sinks_def format_paths_def List.map_filter_def)

text \<open>The defaults are idempotent; a block that sets only a length still gets the default toggles.\<close>

lemma defaults_idem: "goconst_defaults (goconst_defaults g) = goconst_defaults g" "unused_defaults (unused_defaults u) = unused_defaults u"
  by (cases g; auto simp: goconst_defaults_def Let_def) (simp add: unused_defaults_def)

lemma toggles_not_authoritative:
  "gc_MatchWithConstants (goconst_defaults \<lparr>gc_MinStringLen = 5, gc_MinOccurrencesCount = 2, gc_NumberMin = 0, gc_NumberMax = 0, gc_MatchWithConstants = False,
     gc_IgnoreCalls = False, gc_ParseNumbers = False, gc_FindDuplicates = False, gc_EvalConstExpressions = False\<rparr>)"
  by (simp add: goconst_defaults_def)

end
