(* ===== verification/Subproc.thy ===== *)
theory Subproc
  imports FileStore Printers UnitConfig
begin

text \<open>
  Linters run as child processes (\<^verbatim>\<open>internal/subproc\<close>): starting a child and classifying its end
  (\<^verbatim>\<open>invoke.go\<close>, \<^verbatim>\<open>errors.go\<close>), splitting long argument lists (\<^verbatim>\<open>pkgmain_shared.go\<close>), the content-addressed cache and its key
  (\<^verbatim>\<open>cache.go\<close>), the translation of findings (\<^verbatim>\<open>diagnostic.go\<close>) and the runner of a plugin binary (\<^verbatim>\<open>custom.go\<close>).

  What the operating system contributes is in records of arguments: how a child behaves, the directory tree, the
  contents of files.  Error texts are those of the code without the quotes of \<^verbatim>\<open>%q\<close>.
\<close>

record workspaceRef =
  sp_ModuleRoot :: string
  sp_BuildTags :: "string list"
  sp_Env :: "string list"


subsection \<open>Starting a child\<close>

text \<open>Why a call failed: the context ended, the child exited with a status (\<open>- 1\<close> for a signal), or it did not start.\<close>

datatype cause = DeadlineExceeded | Canceled | Exited int string | NoStart string

fun cause_text :: "cause \<Rightarrow> string" where
  "cause_text DeadlineExceeded = ''context deadline exceeded''"
| "cause_text Canceled = ''context canceled''"
| "cause_text (Exited code t) = t"
| "cause_text (NoStart t) = t"

record invokeError =
  ie_Name :: string
  ie_ExitCode :: int
  ie_Stderr :: bytes
  ie_Err :: "cause option"

record subprocParseError =
  pe_Name :: string
  pe_Detail :: string
  pe_Err :: "string option"

datatype runError = Invoke_failed invokeError | Parse_failed subprocParseError | Ctx_failed cause | Failed string

definition InvokeError_Error :: "invokeError option \<Rightarrow> string" where
  "InvokeError_Error eo =
     (case eo of
        None \<Rightarrow> ''<nil InvokeError>''
      | Some e \<Rightarrow>
          if 0 \<le> ie_ExitCode e then ''subproc '' @ ie_Name e @ '': exit '' @ itoa (ie_ExitCode e) @ '': ''
            @ (case ie_Err e of None \<Rightarrow> ''<nil>'' | Some c \<Rightarrow> cause_text c)
          else (case ie_Err e of
                  Some c \<Rightarrow> ''subproc '' @ ie_Name e @ '': '' @ cause_text c
                | None \<Rightarrow> ''subproc '' @ ie_Name e @ '': failed (no exit code)''))"

definition ParseError_Error :: "subprocParseError option \<Rightarrow> string" where
  "ParseError_Error eo =
     (case eo of
        None \<Rightarrow> ''<nil ParseError>''
      | Some e \<Rightarrow> ''subproc '' @ pe_Name e @ '': parse: '' @ pe_Detail e @ (case pe_Err e of None \<Rightarrow> [] | Some t \<Rightarrow> '': '' @ t))"

definition IsTimeout :: "runError option \<Rightarrow> bool" where
  "IsTimeout eo =
     (case eo of
        Some (Ctx_failed c) \<Rightarrow> c = DeadlineExceeded \<or> c = Canceled
      | Some (Invoke_failed e) \<Rightarrow> ie_Err e = Some DeadlineExceeded \<or> ie_Err e = Some Canceled
      | _ \<Rightarrow> False)"

text \<open>A command as \<^verbatim>\<open>os/exec\<close> takes it: an empty directory is inherited, as is an absent environment.\<close>

record command =
  cm_name :: string
  cm_args :: "string list"
  cm_dir :: string
  cm_env :: "string list option"
  cm_stdin :: "bytes option"

record osProc =
  op_environ :: "string list"
  op_run :: "command \<Rightarrow> bytes \<times> bytes \<times> cause option"

record invoked =
  iv_stdout :: bytes
  iv_stderr :: bytes
  iv_code :: int
  iv_err :: "invokeError option"

text \<open>How the end of \<^verbatim>\<open>cmd.Run\<close> is classified; \<open>ctx\<close> is the error of the context at that time.\<close>

definition classify :: "string \<Rightarrow> cause option \<Rightarrow> bytes \<times> bytes \<times> cause option \<Rightarrow> invoked" where
  "classify name ctx r =
     (case r of
        (out, err, None) \<Rightarrow> \<lparr>iv_stdout = out, iv_stderr = err, iv_code = 0, iv_err = None\<rparr>
      | (out, err, Some c) \<Rightarrow>
          (let failed = (\<lambda>code cs. \<lparr>iv_stdout = out, iv_stderr = err, iv_code = code,
                            iv_err = Some \<lparr>ie_Name = name, ie_ExitCode = code, ie_Stderr = err, ie_Err = Some cs\<rparr>\<rparr>)
           in case ctx of
                Some cx \<Rightarrow> failed (- 1) cx
              | None \<Rightarrow> (case c of Exited code t \<Rightarrow> failed code c | _ \<Rightarrow> failed (- 1) c)))"

definition Invoke :: "osProc \<Rightarrow> cause option \<Rightarrow> string \<Rightarrow> string list \<Rightarrow> bytes option \<Rightarrow> invoked" where
  "Invoke P ctx name args stdin =
     classify name ctx (op_run P \<lparr>cm_name = name, cm_args = args, cm_dir = [], cm_env = None, cm_stdin = stdin\<rparr>)"

definition invokeInDirWithStdin ::
    "osProc \<Rightarrow> cause option \<Rightarrow> string \<Rightarrow> string \<Rightarrow> string list \<Rightarrow> string list \<Rightarrow> bytes option \<Rightarrow> invoked" where
  "invokeInDirWithStdin P ctx name cwd env args stdin =
     classify name ctx (op_run P \<lparr>cm_name = name, cm_args = args, cm_dir = cwd,
       cm_env = (if env = [] then None else Some (op_environ P @ env)), cm_stdin = stdin\<rparr>)"

definition invokeInDir :: "osProc \<Rightarrow> cause option \<Rightarrow> string \<Rightarrow> string \<Rightarrow> string list \<Rightarrow> string list \<Rightarrow> invoked" where
  "invokeInDir P ctx name cwd env args =
     classify name ctx (op_run P \<lparr>cm_name = name, cm_args = args, cm_dir = cwd,
       cm_env = (if env = [] then None else Some (op_environ P @ env)), cm_stdin = None\<rparr>)"

definition invokeWithStdinFiles ::
    "osProc \<Rightarrow> cause option \<Rightarrow> string \<Rightarrow> string \<Rightarrow> string list \<Rightarrow> string list \<Rightarrow> string list \<Rightarrow> invoked" where
  "invokeWithStdinFiles P ctx binary cwd env args files =
     invokeInDirWithStdin P ctx binary cwd env args (Some (concat (map (\<lambda>f. f @ [lf]) files)))"


subsection \<open>Chunks of arguments\<close>

definition argvChunkBudgetBytes :: nat where "argvChunkBudgetBytes = 96 * 1024"

fun chunk_loop :: "nat \<Rightarrow> string list list \<Rightarrow> string list \<Rightarrow> nat \<Rightarrow> string list \<Rightarrow> string list list" where
  "chunk_loop budget chunks cur curBytes [] = (if cur \<noteq> [] then chunks @ [cur] else chunks)"
| "chunk_loop budget chunks cur curBytes (a # args) =
     (let cost = length a + 1
      in if cur \<noteq> [] \<and> budget < curBytes + cost then chunk_loop budget (chunks @ [cur]) [a] cost args
         else chunk_loop budget chunks (cur @ [a]) (curBytes + cost) args)"

definition chunkArgv :: "string list \<Rightarrow> string list list" where
  "chunkArgv args = (if args = [] then [] else chunk_loop argvChunkBudgetBytes [] [] 0 args)"

record chunkedInvokeResult =
  cr_stdout :: bytes
  cr_stderr :: bytes
  cr_exitCode :: int
  cr_err :: "runError option"

definition stitch :: "bytes \<Rightarrow> bytes \<Rightarrow> bytes" where
  "stitch buf out =
     (if out = [] then buf else (if buf \<noteq> [] \<and> last buf \<noteq> lf then buf @ [lf] else buf) @ out)"

text \<open>\<open>ctx k\<close> is the error of the context before and after the \<open>k\<close>-th child.\<close>

fun chunk_runs ::
    "osProc \<Rightarrow> (nat \<Rightarrow> cause option \<times> cause option) \<Rightarrow> string \<Rightarrow> string \<Rightarrow> string list \<Rightarrow> string list \<Rightarrow> nat \<Rightarrow> chunkedInvokeResult
     \<Rightarrow> string list list \<Rightarrow> chunkedInvokeResult" where
  "chunk_runs P ctx binary cwd env fixedFlags k r [] = r"
| "chunk_runs P ctx binary cwd env fixedFlags k r (chunk # chunks) =
     (case fst (ctx k) of
        Some cx \<Rightarrow> (if cr_err r = None then r\<lparr>cr_err := Some (Ctx_failed cx)\<rparr> else r)
      | None \<Rightarrow>
          (let v = invokeInDir P (snd (ctx k)) binary cwd env (fixedFlags @ chunk)
           in chunk_runs P ctx binary cwd env fixedFlags (Suc k)
                \<lparr>cr_stdout = stitch (cr_stdout r) (iv_stdout v), cr_stderr = stitch (cr_stderr r) (iv_stderr v),
                 cr_exitCode = (if cr_exitCode r < iv_code v then iv_code v else cr_exitCode r),
                 cr_err = (case iv_err v of Some e \<Rightarrow> if cr_err r = None then Some (Invoke_failed e) else cr_err r | None \<Rightarrow> cr_err r)\<rparr> chunks))"

definition chunkedInvoke ::
    "osProc \<Rightarrow> (nat \<Rightarrow> cause option \<times> cause option) \<Rightarrow> string \<Rightarrow> string \<Rightarrow> string list \<Rightarrow> string list \<Rightarrow> string list \<Rightarrow> chunkedInvokeResult" where
  "chunkedInvoke P ctx binary cwd env fixedFlags positional =
     chunk_runs P ctx binary cwd env fixedFlags 0 \<lparr>cr_stdout = [], cr_stderr = [], cr_exitCode = 0, cr_err = None\<rparr> (chunkArgv positional)"


subsection \<open>Walking a module\<close>

text \<open>
  A directory tree as \<^verbatim>\<open>filepath.WalkDir\<close> sees it: a directory with its entries in name order, or the error of reading it;
  anything else, a symbolic link included, is a leaf with what reading it gives.
\<close>

datatype dtree = Leaf "bytes result" | Branch "(string \<times> dtree) list result"

text \<open>
  The visits of Go files with their path below the root and their contents, in order, or the error of a directory; a
  directory whose name is skipped is not entered.
\<close>

type_synonym visit = "string + string list \<times> bytes result"

fun go_visits :: "(string \<Rightarrow> bool) \<Rightarrow> string list \<Rightarrow> string \<Rightarrow> dtree \<Rightarrow> visit list" where
  "go_visits skip segs name (Leaf r) = (if HasSuffix name ''.go'' then [Inr (segs, r)] else [])"
| "go_visits skip segs name (Branch (Inl e)) = (if skip name then [] else [Inl e])"
| "go_visits skip segs name (Branch (Inr es)) =
     (if skip name then [] else concat (map (\<lambda>(n, t). go_visits skip (segs @ [n]) n t) es))"

definition rel_name :: "string list \<Rightarrow> string" where
  "rel_name segs = (if segs = [] then ''.'' else join_with ''/'' segs)"

definition skipDirNames :: "string \<Rightarrow> bool" where
  "skipDirNames n \<longleftrightarrow> n \<in> set [''.git'', ''.idea'', ''.vscode'', ''node_modules'', ''testdata'', ''vendor'']"

definition enumerateGoFiles :: "(string \<Rightarrow> dtree result) \<Rightarrow> string \<Rightarrow> string list result" where
  "enumerateGoFiles lstat root =
     (case lstat root of
        Inl e \<Rightarrow> Inl e
      | Inr t \<Rightarrow> map_sum (\<lambda>e. e) sort (efold (\<lambda>v fs. ebind v (\<lambda>(segs, r). Inr (fs @ [rel_name segs]))) (go_visits skipDirNames [] (Base root) t) []))"

definition enumerateGoDirs :: "(string \<Rightarrow> dtree result) \<Rightarrow> string \<Rightarrow> string list result" where
  "enumerateGoDirs lstat root =
     ebind (enumerateGoFiles lstat root) (\<lambda>files. Inr (sort (fold (\<lambda>f ds. if Dir f \<in> set ds then ds else ds @ [Dir f]) files [])))"


subsection \<open>The key of a run\<close>

definition writeField :: "string \<Rightarrow> string \<Rightarrow> bytes" where
  "writeField tag value = tag @ '':'' @ nat_digits (length value) @ '':'' @ value"

definition hash_skips :: "string \<Rightarrow> bool" where
  "hash_skips n \<longleftrightarrow> n = ''vendor'' \<or> n = ''testdata'' \<or> n = ''.git''"

definition hash_visit :: "string \<Rightarrow> visit \<Rightarrow> (string \<times> bytes) list \<Rightarrow> (string \<times> bytes) list result" where
  "hash_visit root v fs =
     (case v of
        Inl e \<Rightarrow> Inl e
      | Inr (segs, Inl e) \<Rightarrow> Inl (''read '' @ (if segs = [] then root else Join (root # segs)) @ '': '' @ e)
      | Inr (segs, Inr data) \<Rightarrow> Inr (fs @ [(rel_name segs, sha256 data)]))"

definition file_hashes :: "(string \<Rightarrow> dtree result) \<Rightarrow> string \<Rightarrow> (string \<times> bytes) list result" where
  "file_hashes lstat root =
     ebind (lstat root) (\<lambda>t. map_sum (\<lambda>e. e) (sort_key fst) (efold (hash_visit root) (go_visits hash_skips [] (Base root) t) []))"

definition workspace_text :: "(string \<times> bytes) list \<Rightarrow> string list \<Rightarrow> string list \<Rightarrow> bytes" where
  "workspace_text files tags env =
     concat (map (\<lambda>f. writeField ''file'' (fst f) @ snd f) files) @ concat (map (writeField ''tag'') (sort tags))
     @ concat (map (writeField ''env'') (sort env))"

definition WorkspaceContentHash :: "(string \<Rightarrow> dtree result) \<Rightarrow> workspaceRef \<Rightarrow> string result" where
  "WorkspaceContentHash lstat ws =
     (if sp_ModuleRoot ws = [] then Inl ''subproc cache: WorkspaceRef.ModuleRoot is required''
      else if \<not> IsAbs (sp_ModuleRoot ws) then Inl (''subproc cache: WorkspaceRef.ModuleRoot must be absolute, got '' @ sp_ModuleRoot ws)
      else case file_hashes lstat (sp_ModuleRoot ws) of
             Inl e \<Rightarrow> Inl (''subproc cache: walk '' @ sp_ModuleRoot ws @ '': '' @ e)
           | Inr files \<Rightarrow> Inr (hex_encode (sha256 (workspace_text files (sp_BuildTags ws) (sp_Env ws)))))"

definition key_text :: "string \<Rightarrow> string \<Rightarrow> string \<Rightarrow> string \<Rightarrow> bytes" where
  "key_text linterName linterVersion settingsHash wsHash =
     writeField ''linter'' linterName @ writeField ''version'' linterVersion @ writeField ''settings'' settingsHash @ writeField ''workspace'' wsHash"

definition CacheKey :: "(string \<Rightarrow> dtree result) \<Rightarrow> string \<Rightarrow> string \<Rightarrow> string \<Rightarrow> workspaceRef \<Rightarrow> string result" where
  "CacheKey lstat linterName linterVersion settingsHash ws =
     ebind (WorkspaceContentHash lstat ws) (\<lambda>h. Inr (hex_encode (sha256 (key_text linterName linterVersion settingsHash h))))"


subsection \<open>The cache\<close>

definition DefaultCacheRoot :: "(string \<Rightarrow> string) \<Rightarrow> string result \<Rightarrow> string result" where
  "DefaultCacheRoot env home =
     (if env ''XDG_CACHE_HOME'' \<noteq> [] then Inr (Join [env ''XDG_CACHE_HOME'', ''plaid-lint'', ''subproc''])
      else case home of
             Inl e \<Rightarrow> Inl (''subproc cache: resolve home dir: '' @ e)
           | Inr h \<Rightarrow> Inr (Join [h, ''.cache'', ''plaid-lint'', ''subproc'']))"

definition OpenCache :: "(string \<Rightarrow> string) \<Rightarrow> string result \<Rightarrow> (string \<Rightarrow> string option) \<Rightarrow> string \<Rightarrow> string result" where
  "OpenCache env home mkdirAll root =
     ebind (if root = [] then DefaultCacheRoot env home else Inr root) (\<lambda>r.
       case mkdirAll r of Some e \<Rightarrow> Inl (''subproc cache: mkdir '' @ r @ '': '' @ e) | None \<Rightarrow> Inr r)"

definition cacheFormatVersion :: int where "cacheFormatVersion = 1"

definition subproc_entryPath :: "string \<Rightarrow> string \<Rightarrow> string" where
  "subproc_entryPath root key = Join [root, (if 2 < length key then take 2 key else key), key]"

text \<open>The calls of a store: those of \<open>io\<close>, closing the temporary file and renaming it.\<close>

record storeIO = io +
  close_err :: "string option"
  rename_err :: "string option"

text \<open>An empty list of diagnostics is the nil slice.\<close>

definition entry_json :: "int \<Rightarrow> diagnostic list \<Rightarrow> jval" where
  "entry_json v ds = JObject [(''v'', jint v), (''diags'', if ds = [] then JNull else JArray (map diagnostic_json ds))]"

definition Lookup ::
    "(bytes \<Rightarrow> (int \<times> diagnostic list) result) \<Rightarrow> storeIO \<Rightarrow> string \<Rightarrow> string \<Rightarrow> filesys \<Rightarrow> filesys \<times> diagnostic list option result" where
  "Lookup dec i root key fs =
     (if key = [] then (fs, Inl ''subproc cache: empty key'')
      else let path = subproc_entryPath root key
           in case os_readfile (io.truncate i) fs path of
                Inl e \<Rightarrow> if fs path = None then (fs, Inr None) else (fs, Inl (''subproc cache: read '' @ key @ '': '' @ e))
              | Inr data \<Rightarrow>
                  (case dec data of
                     Inl e \<Rightarrow> (fst (os_remove (io.truncate i) fs path), Inl (''subproc cache: decode '' @ key @ '': '' @ e))
                   | Inr (v, ds) \<Rightarrow>
                       if v \<noteq> cacheFormatVersion then (fst (os_remove (io.truncate i) fs path), Inr None) else (fs, Inr (Some ds))))"

text \<open>\<^verbatim>\<open>os.CreateTemp\<close> puts a random number in decimal for the star of the pattern.\<close>

definition temp_path :: "storeIO \<Rightarrow> string \<Rightarrow> string \<Rightarrow> string" where
  "temp_path i path key =
     (let d = Dir path in (if HasSuffix d ''/'' then d else d @ ''/'') @ ''.'' @ key @ ''.'' @ nat_digits (unle (rnd i)))"

definition Store :: "storeIO \<Rightarrow> string \<Rightarrow> string \<Rightarrow> diagnostic list \<Rightarrow> filesys \<Rightarrow> filesys \<times> string option" where
  "Store i root key ds fs =
     (if key = [] then (fs, Some ''subproc cache: empty key'')
      else let data = json_marshal (entry_json cacheFormatVersion ds); path = subproc_entryPath root key; tmp = temp_path i path key;
               cleanup = (\<lambda>g. fst (os_remove (io.truncate i) g tmp)); full = fs(tmp \<mapsto> (data, now i))
           in case mkdir_err i of Some e \<Rightarrow> (fs, Some (''subproc cache: mkdir shard for '' @ key @ '': '' @ e)) | None \<Rightarrow>
              case rand_err i of Some e \<Rightarrow> (fs, Some (''subproc cache: create temp for '' @ key @ '': '' @ e)) | None \<Rightarrow>
              case write_err i of Some e \<Rightarrow> (cleanup (fs(tmp \<mapsto> ([], now i))), Some (''subproc cache: write temp for '' @ key @ '': '' @ e)) | None \<Rightarrow>
              case close_err i of Some e \<Rightarrow> (cleanup full, Some (''subproc cache: close temp for '' @ key @ '': '' @ e)) | None \<Rightarrow>
              case rename_err i of Some e \<Rightarrow> (cleanup full, Some (''subproc cache: rename for '' @ key @ '': '' @ e)) | None \<Rightarrow>
                (full(tmp := None, path \<mapsto> (data, now i)), None))"


subsection \<open>Findings\<close>

record subprocRelated =
  rl_Message :: string
  rl_File :: string
  rl_Line :: int
  rl_Column :: int

record subprocDiagnostic =
  sd_Message :: string
  sd_Severity :: string
  sd_File :: string
  sd_Line :: int
  sd_Column :: int
  sd_Related :: "subprocRelated list"

definition trim_right :: "string \<Rightarrow> string" where
  "trim_right s = rev (dropWhile (\<lambda>c. c \<in> set [CHR '' '', tab, cr, lf]) (rev s))"

definition mapSeverity :: "string \<Rightarrow> string" where
  "mapSeverity raw =
     (let s = ToLower (TrimSpace raw)
      in if s \<in> set [''error'', ''err'', ''high'', ''fatal''] then SeverityError
         else if s \<in> set [''warning'', ''warn'', ''medium''] then SeverityWarning
         else if s \<in> set [''info'', ''note'', ''low'', ''hint''] then SeverityInfo
         else SeverityError)"

definition canonicalizePath :: "string \<Rightarrow> string \<Rightarrow> string" where
  "canonicalizePath moduleRoot p =
     (if p = [] then []
      else if IsAbs p then Clean p
      else if moduleRoot = [] \<or> \<not> IsAbs moduleRoot then Clean p
      else Clean (Join [moduleRoot, p]))"

definition canonicalizeRelated :: "string \<Rightarrow> subprocRelated list \<Rightarrow> relatedinformation list" where
  "canonicalizeRelated moduleRoot related =
     map (\<lambda>r. \<lparr>RelPosition = \<lparr>Filename = canonicalizePath moduleRoot (rl_File r), Line = rl_Line r, Column = rl_Column r\<rparr>,
               RelMessage = trim_right (rl_Message r)\<rparr>) related"

definition Subproc_Canonicalize :: "string \<Rightarrow> workspaceRef \<Rightarrow> subprocDiagnostic list \<Rightarrow> diagnostic list" where
  "Subproc_Canonicalize linterName ws subprocs =
     map (\<lambda>s. \<lparr>Linter = linterName, Message = trim_right (sd_Message s), Severity = mapSeverity (sd_Severity s),
               Pos = \<lparr>Filename = canonicalizePath (sp_ModuleRoot ws) (sd_File s), Line = sd_Line s, Column = sd_Column s\<rparr>,
               SourceLines = [], SuggestedFixes = [], Related = canonicalizeRelated (sp_ModuleRoot ws) (sd_Related s)\<rparr>) subprocs"


subsection \<open>The output of a plugin\<close>

record customDiagPoint =
  cp_File :: string
  cp_Line :: int
  cp_Column :: int
  cp_Message :: string

record customDiagLine =
  cl_File :: string
  cl_Line :: int
  cl_Column :: int
  cl_Severity :: string
  cl_Message :: string
  cl_Code :: string
  cl_Related :: "customDiagPoint list"

text \<open>
  The two decoders of a line: \<open>ld_strict\<close> reads the first value of the line and refuses unknown members, \<open>ld_relaxed\<close> reads
  the whole line.
\<close>

record lineDecoders =
  ld_strict :: "bytes \<Rightarrow> customDiagLine result"
  ld_relaxed :: "bytes \<Rightarrow> customDiagLine result"

definition decode_line :: "lineDecoders \<Rightarrow> bytes \<Rightarrow> customDiagLine result" where
  "decode_line D raw = (case ld_strict D raw of Inr l \<Rightarrow> Inr l | Inl _ \<Rightarrow> ld_relaxed D raw)"

definition line_diagnostic :: "customDiagLine \<Rightarrow> subprocDiagnostic" where
  "line_diagnostic l =
     \<lparr>sd_Message = cl_Message l, sd_Severity = cl_Severity l, sd_File = cl_File l, sd_Line = cl_Line l, sd_Column = cl_Column l,
      sd_Related = map (\<lambda>p. \<lparr>rl_Message = cp_Message p, rl_File = cp_File p, rl_Line = cp_Line p, rl_Column = cp_Column p\<rparr>) (cl_Related l)\<rparr>"

definition ndjson_limit :: nat where "ndjson_limit = 4 * 1024 * 1024"

definition token_too_long :: string where "token_too_long = ''bufio.Scanner: token too long''"

fun parse_lines :: "lineDecoders \<Rightarrow> string \<Rightarrow> nat \<Rightarrow> bytes list \<Rightarrow> subprocParseError + subprocDiagnostic list" where
  "parse_lines D binary n [] = Inr []"
| "parse_lines D binary n (l # ls) =
     (let raw = TrimSpace (dropCR l); num = itoa (int (Suc n))
      in if ndjson_limit \<le> length l then Inl \<lparr>pe_Name = binary, pe_Detail = ''scan ndjson stdout'', pe_Err = Some token_too_long\<rparr>
         else if raw = [] then parse_lines D binary (Suc n) ls
         else case decode_line D raw of
                Inl e \<Rightarrow> Inl \<lparr>pe_Name = binary, pe_Detail = ''decode ndjson line '' @ num, pe_Err = Some e\<rparr>
              | Inr line \<Rightarrow>
                  if cl_File line = [] \<or> cl_Line line \<le> 0 \<or> cl_Message line = []
                  then Inl \<lparr>pe_Name = binary, pe_Detail = ''ndjson line '' @ num @ '' missing required field (file/line/message)'', pe_Err = None\<rparr>
                  else ebind (parse_lines D binary (Suc n) ls) (\<lambda>ds. Inr (line_diagnostic line # ds)))"

definition parseCustomNDJSON :: "lineDecoders \<Rightarrow> string \<Rightarrow> bytes \<Rightarrow> subprocParseError + subprocDiagnostic list" where
  "parseCustomNDJSON D binary stdout =
     (if TrimSpace stdout = [] then Inr [] else parse_lines D binary 0 (raw_lines stdout))"

definition summarizeStderr :: "bytes \<Rightarrow> string" where
  "summarizeStderr stderr =
     (let s = takeWhile (\<lambda>c. c \<noteq> lf) (TrimSpace stderr)
      in if 200 < length s then take 200 s @ [CHR 0xE2, CHR 0x80, CHR 0xA6] else s)"


subsection \<open>The runner of a plugin\<close>

text \<open>
  A value of the settings as the decoders leave it: \<open>SFloat\<close> carries the integer a number equals, if any, and its shortest form;
  \<open>SOther\<close> the \<^verbatim>\<open>%v\<close> form of anything else.
\<close>

datatype setting = SNil | SString string | SBool bool | SInt int | SFloat "int option" string | SOther string

fun stringifySetting :: "setting \<Rightarrow> string" where
  "stringifySetting SNil = []"
| "stringifySetting (SString s) = s"
| "stringifySetting (SBool b) = (if b then ''true'' else ''false'')"
| "stringifySetting (SInt n) = itoa n"
| "stringifySetting (SFloat (Some n) t) = itoa n"
| "stringifySetting (SFloat None t) = t"
| "stringifySetting (SOther t) = t"

text \<open>The settings of the plugin are a map, given by its members, or something else.\<close>

record customLinterSettings =
  cu_Type :: string
  cu_Path :: string
  cu_Description :: string
  cu_OriginalURL :: string
  cu_Settings :: "(string \<times> setting) list + setting"

record customRunner =
  cu_name :: string
  cu_settings :: customLinterSettings
  cu_cache :: "string option"

record pluginHost =
  ph_proc :: osProc
  ph_lookPath :: "string \<Rightarrow> string result"
  ph_read :: "string \<Rightarrow> bytes result"
  ph_lstat :: "string \<Rightarrow> dtree result"
  ph_marshal :: "customLinterSettings \<Rightarrow> bytes result"
  ph_lines :: lineDecoders
  ph_entry :: "bytes \<Rightarrow> (int \<times> diagnostic list) result"

definition sha256File :: "(string \<Rightarrow> bytes result) \<Rightarrow> string \<Rightarrow> string result" where
  "sha256File read path = ebind (read path) (\<lambda>d. Inr (hex_encode (sha256 d)))"

definition readGoSumHash :: "(string \<Rightarrow> bytes result) \<Rightarrow> workspaceRef \<Rightarrow> string result" where
  "readGoSumHash read ws =
     (if sp_ModuleRoot ws = [] then Inr []
      else case sha256File read (Join [sp_ModuleRoot ws, ''go.sum'']) of
             Inr h \<Rightarrow> Inr h
           | Inl e \<Rightarrow> if e = ErrNotExist then Inr [] else Inl e)"

definition resolveBinary :: "(string \<Rightarrow> string result) \<Rightarrow> customRunner \<Rightarrow> string result" where
  "resolveBinary lookPath r =
     (let p = cu_Path (cu_settings r)
      in if p = [] then Inl (''custom '' @ cu_name r @ '': CustomLinterSettings.Path is empty'')
         else if IsAbs p then Inr p
         else case lookPath p of Inl e \<Rightarrow> Inl (''custom '' @ cu_name r @ '': locate binary '' @ p @ '': '' @ e) | Inr q \<Rightarrow> Inr q)"

definition binaryDisplayName :: "customRunner \<Rightarrow> string" where
  "binaryDisplayName r = (if cu_Path (cu_settings r) \<noteq> [] then cu_Path (cu_settings r) else cu_name r)"

definition version_text :: "string \<Rightarrow> string \<Rightarrow> bytes" where
  "version_text binHash sumHash = writeField ''bin'' binHash @ writeField ''go.sum'' sumHash"

definition linterVersion :: "pluginHost \<Rightarrow> customRunner \<Rightarrow> string \<Rightarrow> workspaceRef \<Rightarrow> string result" where
  "linterVersion H r binary ws =
     (case sha256File (ph_read H) binary of
        Inl e \<Rightarrow> Inl (''custom '' @ cu_name r @ '': hash binary '' @ binary @ '': '' @ e)
      | Inr binHash \<Rightarrow>
          (let sumPath = Join [sp_ModuleRoot ws, ''go.sum'']
           in case sha256File (ph_read H) sumPath of
                Inr sumHash \<Rightarrow> Inr (hex_encode (sha256 (version_text binHash sumHash)))
              | Inl e \<Rightarrow>
                  if e = ErrNotExist then Inr (hex_encode (sha256 (version_text binHash [])))
                  else Inl (''custom '' @ cu_name r @ '': hash '' @ sumPath @ '': '' @ e)))"

definition settingsHash :: "pluginHost \<Rightarrow> customRunner \<Rightarrow> string result" where
  "settingsHash H r =
     (case ph_marshal H (cu_settings r) of
        Inl e \<Rightarrow> Inl (''custom '' @ cu_name r @ '': encode settings: '' @ e)
      | Inr data \<Rightarrow> Inr (hex_encode (sha256 data)))"

definition buildArgs :: "customRunner \<Rightarrow> string list" where
  "buildArgs r =
     (case cu_Settings (cu_settings r) of
        Inl m \<Rightarrow> map (\<lambda>k. ''--'' @ k @ ''='' @ stringifySetting (the (map_of m k))) (sort (map fst m))
      | Inr _ \<Rightarrow> []) @ [''./...'']"

definition joinTags :: "string list \<Rightarrow> string" where
  "joinTags tags = join_with '','' tags"

definition buildEnv :: "workspaceRef \<Rightarrow> string list" where
  "buildEnv ws =
     sp_Env ws @ (if sp_BuildTags ws = [] then []
       else [''GOFLAGS=-tags='' @ joinTags (sort (fold (\<lambda>t ts. if t \<in> set ts then ts else ts @ [t]) (sp_BuildTags ws) []))])"

text \<open>The plugin run without the cache.\<close>

definition run_plugin :: "pluginHost \<Rightarrow> cause option \<Rightarrow> customRunner \<Rightarrow> string \<Rightarrow> workspaceRef \<Rightarrow> runError + diagnostic list" where
  "run_plugin H ctx r binary ws =
     (let v = invokeInDir (ph_proc H) ctx binary (sp_ModuleRoot ws) (buildEnv ws) (buildArgs r)
      in if iv_err v \<noteq> None \<and> iv_code v \<noteq> 0 \<and> iv_code v \<noteq> 1 then Inl (Invoke_failed (the (iv_err v)))
         else case parseCustomNDJSON (ph_lines H) binary (iv_stdout v) of
                Inl e \<Rightarrow> Inl (Parse_failed (if iv_stderr v \<noteq> [] then e\<lparr>pe_Detail := pe_Detail e @ ''; stderr='' @ summarizeStderr (iv_stderr v)\<rparr> else e))
              | Inr ds \<Rightarrow> Inr (Subproc_Canonicalize (cu_name r) ws ds))"

definition run_key :: "pluginHost \<Rightarrow> customRunner \<Rightarrow> string \<Rightarrow> workspaceRef \<Rightarrow> string result" where
  "run_key H r binary ws =
     ebind (linterVersion H r binary ws) (\<lambda>version. ebind (settingsHash H r) (\<lambda>sh. CacheKey (ph_lstat H) (cu_name r) version sh ws))"

definition CustomRunner_Run ::
    "pluginHost \<Rightarrow> cause option \<Rightarrow> storeIO \<Rightarrow> customRunner \<Rightarrow> workspaceRef \<Rightarrow> filesys \<Rightarrow> filesys \<times> (runError + diagnostic list)" where
  "CustomRunner_Run H ctx i r ws fs =
     (case resolveBinary (ph_lookPath H) r of
        Inl e \<Rightarrow> (fs, Inl (Invoke_failed \<lparr>ie_Name = binaryDisplayName r, ie_ExitCode = - 1, ie_Stderr = [], ie_Err = Some (NoStart e)\<rparr>))
      | Inr binary \<Rightarrow>
          (case run_key H r binary ws of
             Inl e \<Rightarrow> (fs, Inl (Failed e))
           | Inr key \<Rightarrow>
               (case cu_cache r of
                  None \<Rightarrow> (fs, run_plugin H ctx r binary ws)
                | Some root \<Rightarrow>
                    (case Lookup (ph_entry H) i root key fs of
                       (fs1, Inr (Some ds)) \<Rightarrow> (fs1, Inr ds)
                     | (fs1, _) \<Rightarrow>
                         (case run_plugin H ctx r binary ws of
                            Inl e \<Rightarrow> (fs1, Inl e)
                          | Inr ds \<Rightarrow>
                              (case Store i root key ds fs1 of
                                 (fs2, Some e) \<Rightarrow> (fs2, Inl (Failed e))
                               | (fs2, None) \<Rightarrow> (fs2, Inr ds)))))))"

end
