(* ===== verification/SubprocProps.thy ===== *)
theory SubprocProps
  imports Subproc CacheDir
begin

text \<open>
  Chunks of arguments lose nothing, fit and are as few as possible; the outputs of the chunks are joined line by line; the
  key of a plugin run covers what the run reads but the place of the module.
\<close>

subsection \<open>Chunks\<close>

definition argv_cost :: "string list \<Rightarrow> nat" where
  "argv_cost c = sum_list (map (\<lambda>a. length a + 1) c)"

definition argv_fits :: "nat \<Rightarrow> string list \<Rightarrow> bool" where
  "argv_fits budget c \<longleftrightarrow> c \<noteq> [] \<and> (argv_cost c \<le> budget \<or> length c = 1)"

lemma argv_cost_simps [simp]: "argv_cost [] = 0" "argv_cost (a # c) = length a + 1 + argv_cost c" "argv_cost (c @ d) = argv_cost c + argv_cost d"
  by (simp_all add: argv_cost_def)

lemma chunk_loop_acc: "chunk_loop b chunks cur n args = chunks @ chunk_loop b [] cur n args"
proof (induction args arbitrary: chunks cur n)
  case (Cons a args)
  show ?case
    unfolding chunk_loop.simps Let_def
    using Cons [of "chunks @ [cur]" "[a]" "length a + 1"] Cons [of "[cur]" "[a]" "length a + 1"] Cons [of chunks "cur @ [a]"]
    by (simp del: chunk_loop.simps)
qed simp

lemma chunk_loop_split:
  assumes "cur = [] \<and> n = 0 \<or> argv_fits b cur \<and> n = argv_cost cur"
  shows "concat (chunk_loop b [] cur n args) = cur @ args \<and> list_all (argv_fits b) (chunk_loop b [] cur n args)"
  using assms
proof (induction args arbitrary: cur n)
  case Nil
  then show ?case by (auto simp: argv_fits_def)
next
  case (Cons a args)
  show ?case
  proof (cases "cur \<noteq> [] \<and> b < n + (length a + 1)")
    case True
    have "argv_fits b [a]" by (simp add: argv_fits_def)
    moreover have "argv_fits b cur" using Cons.prems True by auto
    ultimately show ?thesis
      using Cons.IH [of "[a]" "length a + 1"] True chunk_loop_acc [of b "[cur]" "[a]" "length a + 1" args] by simp
  next
    case False
    have "argv_fits b (cur @ [a]) \<and> n + (length a + 1) = argv_cost (cur @ [a])"
      using Cons.prems False by (auto simp: argv_fits_def)
    then show ?thesis using Cons.IH [of "cur @ [a]" "n + (length a + 1)"] False by (auto simp: Let_def)
  qed
qed

text \<open>The number of chunks, from the load of the current one.\<close>

fun chunk_count :: "nat \<Rightarrow> nat \<Rightarrow> string list \<Rightarrow> nat" where
  "chunk_count b l [] = 1"
| "chunk_count b l (a # args) =
     (if b < l + (length a + 1) then Suc (chunk_count b (length a + 1) args) else chunk_count b (l + (length a + 1)) args)"

lemma chunk_loop_length: "cur \<noteq> [] \<Longrightarrow> length (chunk_loop b [] cur n args) = chunk_count b n args"
proof (induction args arbitrary: cur n)
  case (Cons a args)
  then show ?case using chunk_loop_acc [of b "[cur]" "[a]" "length a + 1" args] Cons.IH [of "[a]"] Cons.IH [of "cur @ [a]"]
    by (auto simp: Let_def)
qed simp

lemma chunk_count_mono: "l \<le> l' \<Longrightarrow> chunk_count b l args \<le> chunk_count b l' args \<and> chunk_count b l' args \<le> Suc (chunk_count b l args)"
proof (induction args arbitrary: l l')
  case (Cons a args)
  let ?c = "length a + 1"
  have "chunk_count b ?c args \<le> chunk_count b (l + ?c) args \<and> chunk_count b (l + ?c) args \<le> Suc (chunk_count b ?c args)"
    by (rule Cons.IH) simp
  moreover have "chunk_count b (l + ?c) args \<le> chunk_count b (l' + ?c) args \<and> chunk_count b (l' + ?c) args \<le> Suc (chunk_count b (l + ?c) args)"
    by (rule Cons.IH) (use Cons.prems in simp)
  ultimately show ?case using Cons.prems by auto
qed simp

lemma chunk_count_fit: "l + argv_cost c \<le> b \<or> c = [] \<Longrightarrow> chunk_count b l (c @ args) = chunk_count b (l + argv_cost c) args"
  by (induction c arbitrary: l) (auto simp: add.assoc)

lemma chunk_count_least:
  "list_all (argv_fits b) cs \<Longrightarrow> chunk_count b l (concat cs) \<le> Suc (length cs)"
proof (induction cs arbitrary: l)
  case (Cons c cs)
  then obtain a r where c: "c = a # r" by (cases c) (auto simp: argv_fits_def)
  let ?n = "length a + 1"
  have fit: "?n + argv_cost r \<le> b \<or> r = []" using Cons.prems c by (auto simp: argv_fits_def)
  have "chunk_count b ?n (r @ concat cs) \<le> Suc (length cs)"
    unfolding chunk_count_fit [OF fit] by (rule Cons.IH) (use Cons.prems in simp)
  moreover have "chunk_count b (l + ?n) (r @ concat cs) \<le> Suc (chunk_count b ?n (r @ concat cs))"
    using chunk_count_mono [of ?n "l + ?n" b "r @ concat cs"] by simp
  ultimately show ?case by (auto simp: c)
qed simp

text \<open>
  C35. The chunks of an argument list, joined, are the list; no chunk is empty, and each fits the budget or is a single
  argument; and no split of the list with these properties has fewer chunks.
\<close>
theorem chunkArgv_exact:
  "concat (chunkArgv args) = args \<and> list_all (argv_fits argvChunkBudgetBytes) (chunkArgv args)
   \<and> (\<forall>cs. concat cs = args \<and> list_all (argv_fits argvChunkBudgetBytes) cs \<longrightarrow> length (chunkArgv args) \<le> length cs)"
proof -
  let ?b = argvChunkBudgetBytes
  have least: "length (chunkArgv args) \<le> length cs" if cs: "concat cs = args" "list_all (argv_fits ?b) cs" for cs
  proof (cases cs)
    case Nil
    then show ?thesis using cs by (auto simp: chunkArgv_def)
  next
    case (Cons c ds)
    then obtain a r where c: "c = a # r" using cs by (cases c) (auto simp: argv_fits_def)
    let ?n = "length a + 1"
    have fit: "?n + argv_cost r \<le> ?b \<or> r = []" using cs Cons c by (auto simp: argv_fits_def)
    have "length (chunkArgv args) = chunk_count ?b ?n (r @ concat ds)"
      using cs Cons c chunk_loop_length [of "[a]" ?b ?n "r @ concat ds"] by (auto simp: chunkArgv_def)
    also have "\<dots> \<le> Suc (length ds)"
      unfolding chunk_count_fit [OF fit] by (rule chunk_count_least) (use cs Cons in simp)
    finally show ?thesis using Cons by simp
  qed
  have "concat (chunkArgv args) = args \<and> list_all (argv_fits ?b) (chunkArgv args)"
    using chunk_loop_split [of "[]" 0 ?b args] by (auto simp: chunkArgv_def)
  then show ?thesis using least by blast
qed

theorem chunkArgv_exact_witness:
  "length (chunkArgv [''a.go'', ''b.go'']) \<le> length [[''a.go'', ''b.go'']]"
proof -
  have "concat [[''a.go'', ''b.go'']] = [''a.go'', ''b.go''] \<and> list_all (argv_fits argvChunkBudgetBytes) [[''a.go'', ''b.go'']]"
    by (simp add: argv_fits_def argvChunkBudgetBytes_def)
  then show ?thesis using chunkArgv_exact [of "[''a.go'', ''b.go'']"] by blast
qed


subsection \<open>Joined outputs\<close>

lemma raw_lines_Nil [simp]: "raw_lines [] = []"
  by (simp add: raw_lines_def)

lemma raw_lines_lf: "raw_lines (b @ lf # c) = raw_lines (b @ [lf]) @ raw_lines c"
  by (simp add: raw_lines_def split_on_append_sep butlast_append Let_def)

lemma raw_lines_close: "b \<noteq> [] \<Longrightarrow> last b \<noteq> lf \<Longrightarrow> raw_lines (b @ [lf]) = raw_lines b"
proof -
  assume b: "b \<noteq> []" "last b \<noteq> lf"
  have "last (split_on lf b) \<noteq> []"
  proof
    assume "last (split_on lf b) = []"
    then have s: "split_on lf b = butlast (split_on lf b) @ [[]]" by (metis append_butlast_last_id split_on_neq_Nil)
    have j: "b = join_with [lf] (butlast (split_on lf b) @ [[]])" using join_split_on [of lf b] s by simp
    have "butlast (split_on lf b) \<noteq> []" using j b(1) by auto
    then have "\<exists>p. b = p @ [lf]" using j join_with_append [of "butlast (split_on lf b)" "[[]]" "[lf]"] by auto
    then show False using b by auto
  qed
  then show ?thesis by (simp add: raw_lines_def split_on_append_sep)
qed

lemma stitch_lines: "raw_lines (stitch buf out) = raw_lines buf @ raw_lines out"
proof (cases "out = [] \<or> buf = []")
  case False
  show ?thesis
  proof (cases "last buf = lf")
    case True
    then obtain p where p: "buf = p @ [lf]" using False by (metis append_butlast_last_id)
    show ?thesis using False raw_lines_lf [of p out] by (simp add: stitch_def p)
  next
    case neq: False
    then show ?thesis using False raw_lines_lf [of buf out] raw_lines_close [of buf] by (simp add: stitch_def)
  qed
qed (auto simp: stitch_def)


text \<open>The children of a chunked call, and the first error among them.\<close>

definition chunk_calls ::
    "osProc \<Rightarrow> (nat \<Rightarrow> cause option \<times> cause option) \<Rightarrow> string \<Rightarrow> string \<Rightarrow> string list \<Rightarrow> string list \<Rightarrow> nat \<Rightarrow> string list list \<Rightarrow> invoked list" where
  "chunk_calls P ctx binary cwd env fl k chunks = map (\<lambda>(j, c). invokeInDir P (snd (ctx j)) binary cwd env (fl @ c)) (enumerate k chunks)"

fun first_failure :: "invoked list \<Rightarrow> runError option" where
  "first_failure [] = None"
| "first_failure (v # vs) = (case iv_err v of Some e \<Rightarrow> Some (Invoke_failed e) | None \<Rightarrow> first_failure vs)"

lemma chunk_runs_exact:
  assumes "\<forall>j. k \<le> j \<and> j < k + length chunks \<longrightarrow> fst (ctx j) = None"
  shows "raw_lines (cr_stdout (chunk_runs P ctx bin cwd env fl k r chunks)) = raw_lines (cr_stdout r) @ concat (map (raw_lines \<circ> iv_stdout) (chunk_calls P ctx bin cwd env fl k chunks))
   \<and> raw_lines (cr_stderr (chunk_runs P ctx bin cwd env fl k r chunks)) = raw_lines (cr_stderr r) @ concat (map (raw_lines \<circ> iv_stderr) (chunk_calls P ctx bin cwd env fl k chunks))
   \<and> cr_exitCode (chunk_runs P ctx bin cwd env fl k r chunks) = fold max (map iv_code (chunk_calls P ctx bin cwd env fl k chunks)) (cr_exitCode r)
   \<and> cr_err (chunk_runs P ctx bin cwd env fl k r chunks) = (case cr_err r of Some e \<Rightarrow> Some e | None \<Rightarrow> first_failure (chunk_calls P ctx bin cwd env fl k chunks))"
  using assms
proof (induction chunks arbitrary: k r)
  case Nil
  then show ?case by (simp add: chunk_calls_def split: option.splits)
next
  case (Cons c cs)
  let ?v = "invokeInDir P (snd (ctx k)) bin cwd env (fl @ c)"
  have k: "fst (ctx k) = None" using Cons.prems by simp
  have calls: "chunk_calls P ctx bin cwd env fl k (c # cs) = ?v # chunk_calls P ctx bin cwd env fl (Suc k) cs"
    by (simp add: chunk_calls_def)
  have prem: "\<forall>j. Suc k \<le> j \<and> j < Suc k + length cs \<longrightarrow> fst (ctx j) = None" using Cons.prems by simp
  have m: "(if a < b then b else a) = max b a" for a b :: int by simp
  let ?r = "\<lparr>cr_stdout = stitch (cr_stdout r) (iv_stdout ?v), cr_stderr = stitch (cr_stderr r) (iv_stderr ?v), cr_exitCode = max (iv_code ?v) (cr_exitCode r),
      cr_err = (case iv_err ?v of Some e \<Rightarrow> if cr_err r = None then Some (Invoke_failed e) else cr_err r | None \<Rightarrow> cr_err r)\<rparr>"
  have step: "chunk_runs P ctx bin cwd env fl k r (c # cs) = chunk_runs P ctx bin cwd env fl (Suc k) ?r cs" by (simp only: chunk_runs.simps k option.case Let_def m)
  show ?case unfolding calls step using Cons.IH [OF prem, of ?r] by (simp add: stitch_lines split: option.splits)
qed

text \<open>
  A chunked call that is not cancelled hands every argument to exactly one child and in order, and joins what the children print line
  by line: no line is lost, split or merged.  Its exit code is the largest one, or 0, and its error is the first one.
\<close>
theorem chunkedInvoke_exact:
  assumes "\<And>k. k < length (chunkArgv positional) \<Longrightarrow> fst (ctx k) = None"
  shows "let calls = chunk_calls P ctx binary cwd env fl 0 (chunkArgv positional); r = chunkedInvoke P ctx binary cwd env fl positional
    in raw_lines (cr_stdout r) = concat (map (raw_lines \<circ> iv_stdout) calls) \<and> raw_lines (cr_stderr r) = concat (map (raw_lines \<circ> iv_stderr) calls)
      \<and> cr_exitCode r = fold max (map iv_code calls) 0 \<and> cr_err r = first_failure calls \<and> concat (chunkArgv positional) = positional"
proof -
  have "concat (chunkArgv positional) = positional"
    using chunk_loop_split [of "[]" 0 argvChunkBudgetBytes positional] by (auto simp: chunkArgv_def)
  then show ?thesis using chunk_runs_exact [of 0 "chunkArgv positional" ctx P binary cwd env fl "\<lparr>cr_stdout = [], cr_stderr = [], cr_exitCode = 0, cr_err = None\<rparr>"] assms
    by (simp add: chunkedInvoke_def Let_def)
qed


theorem chunkedInvoke_exact_witness:
  "raw_lines (cr_stdout (chunkedInvoke \<lparr>op_environ = [], op_run = (\<lambda>c. (''l'', [], None))\<rparr> (\<lambda>k. (None, None)) ''x'' [] [] [] [''a.go''])) = [''l'']"
proof -
  have c: "chunkArgv [''a.go''] = [[''a.go'']]" by (simp add: chunkArgv_def argvChunkBudgetBytes_def)
  have "raw_lines ''l'' = [''l'']" by (simp add: raw_lines_def)
  then show ?thesis
    using chunkedInvoke_exact [of "[''a.go'']" "\<lambda>k. (None, None)" "\<lparr>op_environ = [], op_run = (\<lambda>c. (''l'', [], None))\<rparr>" "''x''" "[]" "[]" "[]"]
    by (simp add: c chunk_calls_def invokeInDir_def classify_def Let_def)
qed


subsection \<open>What the key covers\<close>

lemma nat_digits_inject: "nat_digits m = nat_digits n \<Longrightarrow> m = n"
  by (metis parse_nat_digits option.inject)

lemma nat_digits_no_colon: "CHR '':'' \<notin> set (nat_digits n)"
  using nat_digits_chars by fastforce

lemma append_sep_inject: "x \<notin> set a \<Longrightarrow> x \<notin> set b \<Longrightarrow> a @ x # r = b @ x # s \<Longrightarrow> a = b \<and> r = s"
  by (induction a arbitrary: b) (case_tac b; auto)+

lemma writeField_inject: "writeField t v @ r = writeField t w @ s \<Longrightarrow> v = w \<and> r = s"
proof -
  assume "writeField t v @ r = writeField t w @ s"
  then have e: "nat_digits (length v) @ CHR '':'' # v @ r = nat_digits (length w) @ CHR '':'' # w @ s" by (simp add: writeField_def)
  from append_sep_inject [OF nat_digits_no_colon nat_digits_no_colon e] have "nat_digits (length v) = nat_digits (length w)" "v @ r = w @ s" by simp_all
  then show ?thesis using nat_digits_inject by (metis append_eq_append_conv)
qed

lemma writeField_hd: "t \<noteq> [] \<Longrightarrow> \<exists>q. writeField t v = hd t # q"
  by (cases t) (simp_all add: writeField_def)

lemma key_text_inject: "key_text n v s w = key_text n' v' s' w' \<Longrightarrow> n = n' \<and> v = v' \<and> s = s' \<and> w = w'"
  unfolding key_text_def using writeField_inject [of "''workspace''" w "[]" w' "[]"] by (auto dest!: writeField_inject)

interpretation plugkey: keyed_digest sha256 "\<lambda>(n, v, s, w). key_text n v s w" "\<lambda>(n, v, s, w). sha256 (key_text n v s w)" "\<lambda>_. True"
  by unfold_locales (auto dest: key_text_inject)

lemma fields_inject:
  assumes "c \<noteq> hd t" and "t \<noteq> []" and "r \<noteq> [] \<longrightarrow> hd r = c" and "s \<noteq> [] \<longrightarrow> hd s = c"
    and "concat (map (writeField t) xs) @ r = concat (map (writeField t) ys) @ s"
  shows "xs = ys \<and> r = s"
  using assms(5)
proof (induction xs arbitrary: ys)
  case Nil
  show ?case
  proof (cases ys)
    case (Cons y zs)
    then show ?thesis using Nil assms(1-4) writeField_hd [OF assms(2), of y] by auto
  qed (use Nil in simp)
next
  case (Cons x xs)
  show ?case
  proof (cases ys)
    case Nil
    then show ?thesis using Cons.prems assms(1-4) writeField_hd [OF assms(2), of x] by force
  next
    case (Cons y zs)
    then show ?thesis using Cons.prems Cons.IH [of zs] writeField_inject [of t x _ y] by auto
  qed
qed

definition tail_text :: "string list \<Rightarrow> string list \<Rightarrow> bytes" where
  "tail_text tags env = concat (map (writeField ''tag'') (sort tags)) @ concat (map (writeField ''env'') (sort env))"

lemma concat_fields_hd: "t \<noteq> [] \<Longrightarrow> concat (map (writeField t) xs) \<noteq> [] \<longrightarrow> hd (concat (map (writeField t) xs)) = hd t"
proof (cases xs)
  case (Cons x ys)
  assume "t \<noteq> []"
  from writeField_hd [OF this, of x] obtain q where "writeField t x = hd t # q" ..
  then show ?thesis by (simp add: Cons)
qed simp

lemma tail_text_hd: "tail_text tags env \<noteq> [] \<Longrightarrow> hd (tail_text tags env) \<noteq> CHR ''f''"
  using concat_fields_hd [of "''tag''" "sort tags"] concat_fields_hd [of "''env''" "sort env"] by (auto simp: tail_text_def hd_append)

lemma tail_text_inject: "tail_text a b = tail_text c d \<Longrightarrow> mset a = mset c \<and> mset b = mset d"
proof -
  assume e: "tail_text a b = tail_text c d"
  have "sort a = sort c \<and> concat (map (writeField ''env'') (sort b)) = concat (map (writeField ''env'') (sort d))"
    using e concat_fields_hd [of "''env''" "sort b"] concat_fields_hd [of "''env''" "sort d"]
    by (intro fields_inject [of "CHR ''e''" "''tag''"]) (simp_all add: tail_text_def)
  moreover have "sort b = sort d" if "concat (map (writeField ''env'') (sort b)) = concat (map (writeField ''env'') (sort d))"
    using that fields_inject [of "CHR ''x''" "''env''" "[]" "[]" "sort b" "sort d"] by simp
  ultimately show ?thesis by (metis mset_sort)
qed

lemma workspace_text_inject:
  assumes "list_all (\<lambda>f. length (snd f) = 32) fs" "list_all (\<lambda>f. length (snd f) = 32) gs"
    and "workspace_text fs a b = workspace_text gs c d"
  shows "fs = gs \<and> mset a = mset c \<and> mset b = mset d"
proof -
  have "fs = gs \<and> tail_text a b = tail_text c d"
    using assms unfolding workspace_text_def tail_text_def [symmetric]
  proof (induction fs arbitrary: gs)
    case Nil
    then show ?case using tail_text_hd [of a b] by (cases gs) (auto simp: writeField_def)
  next
    case (Cons f fs)
    show ?case
    proof (cases gs)
      case Nil
      then have "tail_text c d = writeField ''file'' (fst f) @ snd f @ concat (map (\<lambda>f. writeField ''file'' (fst f) @ snd f) fs) @ tail_text a b"
        using Cons.prems by simp
      then have "tail_text c d \<noteq> [] \<and> hd (tail_text c d) = CHR ''f''" by (simp add: writeField_def)
      then show ?thesis using tail_text_hd [of c d] by blast
    next
      case (Cons g hs)
      have e: "writeField ''file'' (fst f) @ snd f @ concat (map (\<lambda>f. writeField ''file'' (fst f) @ snd f) fs) @ tail_text a b
          = writeField ''file'' (fst g) @ snd g @ concat (map (\<lambda>f. writeField ''file'' (fst f) @ snd f) hs) @ tail_text c d"
        using Cons.prems Cons by simp
      from writeField_inject [OF e] show ?thesis using Cons.prems Cons.IH [of hs] Cons by (auto simp: prod_eq_iff)
    qed
  qed
  then show ?thesis using tail_text_inject by blast
qed

lemma efold_hash_lengths: "efold (hash_visit root) vs fs = Inr gs \<Longrightarrow> list_all (\<lambda>f. length (snd f) = 32) fs \<Longrightarrow> list_all (\<lambda>f. length (snd f) = 32) gs"
  by (induction vs arbitrary: fs) (auto simp: hash_visit_def split: sum.splits prod.splits)

lemma file_hashes_lengths: "file_hashes lstat root = Inr fs \<Longrightarrow> list_all (\<lambda>f. length (snd f) = 32) fs"
proof -
  assume "file_hashes lstat root = Inr fs"
  then obtain t where "map_sum (\<lambda>e. e) (sort_key fst) (efold (hash_visit root) (go_visits hash_skips [] (Base root) t) []) = Inr fs"
    by (auto simp: file_hashes_def ebind_Inr_iff)
  then obtain gs where g: "efold (hash_visit root) (go_visits hash_skips [] (Base root) t) [] = Inr gs" "fs = sort_key fst gs"
    by (cases "efold (hash_visit root) (go_visits hash_skips [] (Base root) t) []") auto
  show ?thesis using efold_hash_lengths [OF g(1)] by (simp add: g(2) list_all_iff)
qed

lemma CacheKey_Inr:
  assumes "CacheKey lstat n v s ws = Inr k"
  obtains fs where "file_hashes lstat (sp_ModuleRoot ws) = Inr fs"
    "k = hex_encode (sha256 (key_text n v s (hex_encode (sha256 (workspace_text fs (sp_BuildTags ws) (sp_Env ws))))))"
  using assms by (auto simp: CacheKey_def WorkspaceContentHash_def ebind_Inr_iff split: if_splits sum.splits)

text \<open>
  Two runs with the same key have the same linter name, version and settings hash, the same Go files with the same digests, and the same
  build tags and environment up to their order; or two texts at hand are a collision of SHA-256.
\<close>
lemma CacheKey_covers:
  assumes "CacheKey lstat n v s ws = Inr k" and "CacheKey lstat' n' v' s' ws' = Inr k"
    and "file_hashes lstat (sp_ModuleRoot ws) = Inr fs" and "file_hashes lstat' (sp_ModuleRoot ws') = Inr fs'"
  shows "n = n' \<and> v = v' \<and> s = s' \<and> fs = fs' \<and> mset (sp_BuildTags ws) = mset (sp_BuildTags ws') \<and> mset (sp_Env ws) = mset (sp_Env ws')
    \<or> (\<exists>x y. collision sha256 x y \<and>
        (x = workspace_text fs (sp_BuildTags ws) (sp_Env ws) \<and> y = workspace_text fs' (sp_BuildTags ws') (sp_Env ws')
         \<or> x = key_text n v s (hex_encode (sha256 (workspace_text fs (sp_BuildTags ws) (sp_Env ws))))
           \<and> y = key_text n' v' s' (hex_encode (sha256 (workspace_text fs' (sp_BuildTags ws') (sp_Env ws'))))))"
proof -
  let ?w = "workspace_text fs (sp_BuildTags ws) (sp_Env ws)" and ?w' = "workspace_text fs' (sp_BuildTags ws') (sp_Env ws')"
  let ?k = "key_text n v s (hex_encode (sha256 ?w))" and ?k' = "key_text n' v' s' (hex_encode (sha256 ?w'))"
  have keys: "sha256 ?k = sha256 ?k'"
    using CacheKey_Inr [OF assms(1)] CacheKey_Inr [OF assms(2)] assms(3,4) by (metis hex_encode_inject sum.inject(2))
  show ?thesis
  proof (cases "collision sha256 ?k ?k' \<or> collision sha256 ?w ?w'")
    case False
    then have e: "n = n'" "v = v'" "s = s'" "sha256 ?w = sha256 ?w'"
      using plugkey.same_key [of "(n, v, s, hex_encode (sha256 ?w))" "(n', v', s', hex_encode (sha256 ?w'))"] keys by auto
    then have "?w = ?w'" using False by (auto simp: collision_def)
    then show ?thesis using e workspace_text_inject [OF file_hashes_lengths [OF assms(3)] file_hashes_lengths [OF assms(4)]] by blast
  qed blast
qed

end
