(* ===== verification/PluginReplay.thy ===== *)
theory PluginReplay
  imports SubprocProps SarifCollect
begin

text \<open>
  The cache of plugin runs over time: entries and temporary files are apart, what is stored is found again, and a hit replays the
  answer of an earlier run with the same key.  The place of the module is not part of the key, and a module whose directory has a skipped
  name has no files in it.
\<close>

subsection \<open>Paths of the cache\<close>

definition hexkey :: "string \<Rightarrow> bool" where "hexkey k \<longleftrightarrow> (\<exists>b. length b = 32 \<and> k = hex_encode b)"

lemma hexkey_CacheKey: "CacheKey lstat n v s ws = Inr k \<Longrightarrow> hexkey k"
  by (erule CacheKey_Inr) (auto simp: hexkey_def)

lemma hexkey_run_key: "run_key H r b ws = Inr k \<Longrightarrow> hexkey k"
  by (auto simp: run_key_def ebind_Inr_iff dest: hexkey_CacheKey)

lemma hexkey_plain: "hexkey k \<Longrightarrow> plain_seg k \<and> plain_seg (take 2 k) \<and> k \<noteq> [] \<and> CHR ''.'' \<notin> set k"
proof -
  assume "hexkey k"
  then obtain b where b: "length b = 32" "k = Hex b" by (auto simp: hexkey_def Hex_def)
  moreover have "CHR ''.'' \<notin> set k" using hex_encode_chars [of "CHR ''.''" b] b(2) by (auto simp: Hex_def)
  ultimately show ?thesis using Hex_plain [OF b(1)] by (auto simp: plain_seg_def)
qed

lemma hexkey_length: "hexkey k \<Longrightarrow> length k = 64"
  by (auto simp: hexkey_def)

lemma entry_prefix: "root \<noteq> [] \<Longrightarrow> hexkey k \<Longrightarrow> subproc_entryPath root k = root_prefix root [take 2 k, k]"
  using Join_root [of root "[take 2 k, k]"] hexkey_plain [of k] hexkey_length [of k] by (simp add: subproc_entryPath_def)

lemma entry_last: "root \<noteq> [] \<Longrightarrow> hexkey k \<Longrightarrow> last (split_on (CHR ''/'') (subproc_entryPath root k)) = k"
  using split_root_prefix [of "[take 2 k, k]" root] hexkey_plain [of k] by (simp add: entry_prefix)

lemma temp_last:
  assumes "hexkey k"
  shows "last (split_on (CHR ''/'') (temp_path i path k)) = ''.'' @ k @ ''.'' @ nat_digits (unle (rnd i))"
proof -
  let ?n = "''.'' @ k @ ''.'' @ nat_digits (unle (rnd i))"
  have "CHR ''/'' \<notin> set k" using hexkey_plain [OF assms] by (simp add: plain_seg_def)
  moreover have "CHR ''/'' \<notin> set (nat_digits (unle (rnd i)))" using nat_digits_chars by fastforce
  ultimately have n: "CHR ''/'' \<notin> set ?n" by simp
  have "last (split_on (CHR ''/'') (d @ CHR ''/'' # ?n)) = ?n" for d
    using split_on_id [OF n] by (simp add: split_on_append_sep)
  moreover obtain d where "temp_path i path k = d @ CHR ''/'' # ?n"
  proof (cases "HasSuffix (Dir path) ''/''")
    case True
    then obtain e where e: "Dir path = e @ ''/''" unfolding HasSuffix_def by (metis append_take_drop_id)
    show ?thesis by (rule that [of e]) (use True in \<open>simp add: temp_path_def e\<close>)
  qed (use that in \<open>simp add: temp_path_def\<close>)
  ultimately show ?thesis by simp
qed

lemma temp_not_entry: "root \<noteq> [] \<Longrightarrow> hexkey k \<Longrightarrow> hexkey k' \<Longrightarrow> subproc_entryPath root k' \<noteq> temp_path i path k"
proof
  assume a: "root \<noteq> []" "hexkey k" "hexkey k'" and e: "subproc_entryPath root k' = temp_path i path k"
  have "k' = ''.'' @ k @ ''.'' @ nat_digits (unle (rnd i))" using temp_last [OF a(2), of i path] entry_last [OF a(1,3)] e by metis
  then have "CHR ''.'' \<in> set k'" by simp
  then show False using hexkey_plain [OF a(3)] by blast
qed

lemma entry_inject: "root \<noteq> [] \<Longrightarrow> hexkey k \<Longrightarrow> hexkey k' \<Longrightarrow> subproc_entryPath root k = subproc_entryPath root k' \<Longrightarrow> k = k'"
  by (metis entry_last)


subsection \<open>Storing and finding\<close>

definition entry_bytes :: "diagnostic list \<Rightarrow> bytes" where
  "entry_bytes ds = json_marshal (entry_json cacheFormatVersion ds)"

lemma Store_other: "p \<noteq> subproc_entryPath root k \<Longrightarrow> p \<noteq> temp_path i (subproc_entryPath root k) k \<Longrightarrow> fst (Store i root k ds fs) p = fs p"
  by (simp add: Store_def Let_def os_remove_def split: option.splits)

lemma Store_entry:
  assumes "root \<noteq> []" "hexkey k"
  shows "fst (Store i root k ds fs) (subproc_entryPath root k) = fs (subproc_entryPath root k)
    \<or> fst (Store i root k ds fs) (subproc_entryPath root k) = Some (entry_bytes ds, now i)"
  using temp_not_entry [OF assms assms(2), of i "subproc_entryPath root k"]
  by (simp add: Store_def Let_def os_remove_def entry_bytes_def split: option.splits)

lemma Store_done:
  "snd (Store i root k ds fs) = None \<Longrightarrow> fst (Store i root k ds fs) (subproc_entryPath root k) = Some (entry_bytes ds, now i)"
  by (simp add: Store_def Let_def entry_bytes_def split: option.splits if_splits)

lemma Lookup_keeps: "fst (Lookup dec i root k fs) p = fs p \<or> fst (Lookup dec i root k fs) p = None"
  by (simp add: Lookup_def Let_def os_remove_def split: sum.splits option.splits prod.splits)

lemma Lookup_hit:
  assumes "snd (Lookup dec i root k fs) = Inr (Some ds)"
  obtains data t where "fs (subproc_entryPath root k) = Some (data, t)" "dec data = Inr (cacheFormatVersion, ds)"
  using assms by (auto simp: Lookup_def Let_def os_readfile_def split: sum.splits option.splits prod.splits if_splits)

text \<open>What the JSON decoder promises of the entries the cache writes.\<close>

definition storable :: "diagnostic \<Rightarrow> bool" where
  "storable d \<longleftrightarrow> utf8_diagnostic d \<and> (\<forall>p \<in> insert (Pos d) (set (map RelPosition (Related d))). \<bar>Line p\<bar> < 2 ^ 63 \<and> \<bar>Column p\<bar> < 2 ^ 63)"

definition entry_decoder :: "(bytes \<Rightarrow> (int \<times> diagnostic list) result) \<Rightarrow> bool" where
  "entry_decoder dec \<longleftrightarrow> (\<forall>ds. list_all storable ds \<longrightarrow> dec (entry_bytes ds) = Inr (cacheFormatVersion, ds))"

text \<open>
  What a plugin run stored is found: after a store that reports no error, a lookup of its key with a working file system returns the same
  diagnostics, and a lookup of any other key is as before.
\<close>
theorem Store_Lookup:
  assumes "entry_decoder dec" and "list_all storable ds" and "root \<noteq> []" and "hexkey k" and "hexkey k'" and "read_err j = None"
    and "snd (Store i root k ds fs) = None"
  shows "snd (Lookup dec j root k (fst (Store i root k ds fs))) = Inr (Some ds)
    \<and> (k' \<noteq> k \<longrightarrow> snd (Lookup dec j root k' (fst (Store i root k ds fs))) = snd (Lookup dec j root k' fs))"
proof -
  let ?fs = "fst (Store i root k ds fs)"
  have "dec (entry_bytes ds) = Inr (cacheFormatVersion, ds)" using assms(1,2) by (simp add: entry_decoder_def)
  then have "snd (Lookup dec j root k ?fs) = Inr (Some ds)"
    using Store_done [OF assms(7)] hexkey_plain [OF assms(4)] assms(6) by (simp add: Lookup_def os_readfile_def io.defs)
  moreover have "?fs (subproc_entryPath root k') = fs (subproc_entryPath root k')" if "k' \<noteq> k"
    by (rule Store_other) (use that entry_inject [OF assms(3,5,4)] temp_not_entry [OF assms(3,4,5)] in auto)
  ultimately show ?thesis by (auto simp: Lookup_def Let_def os_readfile_def os_remove_def split: option.splits sum.splits)
qed


subsection \<open>Replays\<close>

record pluginRun =
  pr_host :: pluginHost
  pr_ctx :: "cause option"
  pr_io :: storeIO
  pr_runner :: customRunner
  pr_ws :: workspaceRef

definition plugin_step :: "pluginRun \<Rightarrow> filesys \<Rightarrow> filesys \<times> (runError + diagnostic list)" where
  "plugin_step p fs = CustomRunner_Run (pr_host p) (pr_ctx p) (pr_io p) (pr_runner p) (pr_ws p) fs"

definition has_key :: "pluginRun \<Rightarrow> string \<Rightarrow> bool" where
  "has_key p k \<longleftrightarrow> (\<exists>b. resolveBinary (ph_lookPath (pr_host p)) (pr_runner p) = Inr b \<and> run_key (pr_host p) (pr_runner p) b (pr_ws p) = Inr k)"

definition answers :: "pluginRun \<Rightarrow> diagnostic list \<Rightarrow> bool" where
  "answers p ds \<longleftrightarrow> (\<exists>b. resolveBinary (ph_lookPath (pr_host p)) (pr_runner p) = Inr b \<and> run_plugin (pr_host p) (pr_ctx p) (pr_runner p) b (pr_ws p) = Inr ds)"

definition sound_host :: "pluginRun \<Rightarrow> bool" where
  "sound_host p \<longleftrightarrow> entry_decoder (ph_entry (pr_host p)) \<and> (\<forall>ds. answers p ds \<longrightarrow> list_all storable ds)"

text \<open>A cache directory over time: it starts without entries, plugins run, entries are removed.\<close>

inductive plugin_runs :: "string \<Rightarrow> pluginRun list \<Rightarrow> filesys \<Rightarrow> bool" for root where
  start: "(\<And>k. hexkey k \<Longrightarrow> fs (subproc_entryPath root k) = None) \<Longrightarrow> plugin_runs root [] fs"
| run: "plugin_runs root ps fs \<Longrightarrow> cu_cache (pr_runner p) = Some root \<Longrightarrow> sound_host p \<Longrightarrow> plugin_runs root (p # ps) (fst (plugin_step p fs))"
| evict: "plugin_runs root ps fs \<Longrightarrow> plugin_runs root ps (fs(q := None))"

definition replayable :: "string \<Rightarrow> pluginRun list \<Rightarrow> filesys \<Rightarrow> bool" where
  "replayable root ps fs \<longleftrightarrow>
     (\<forall>k data t. hexkey k \<longrightarrow> fs (subproc_entryPath root k) = Some (data, t) \<longrightarrow>
        (\<exists>q\<in>set ps. \<exists>ds. has_key q k \<and> answers q ds \<and> list_all storable ds \<and> data = entry_bytes ds))"

lemma plugin_step_cases:
  assumes "cu_cache (pr_runner p) = Some root"
  obtains (early) e where "plugin_step p fs = (fs, Inl e)"
  | (hit) k ds where "has_key p k" "plugin_step p fs = (fst (Lookup (ph_entry (pr_host p)) (pr_io p) root k fs), Inr ds)"
      "snd (Lookup (ph_entry (pr_host p)) (pr_io p) root k fs) = Inr (Some ds)"
  | (failed) k e where "has_key p k" "plugin_step p fs = (fst (Lookup (ph_entry (pr_host p)) (pr_io p) root k fs), Inl e)"
  | (stored) k ds where "has_key p k" "answers p ds"
      "fst (plugin_step p fs) = fst (Store (pr_io p) root k ds (fst (Lookup (ph_entry (pr_host p)) (pr_io p) root k fs)))"
      "\<And>ds'. snd (plugin_step p fs) = Inr ds' \<Longrightarrow> ds' = ds"
proof (cases "resolveBinary (ph_lookPath (pr_host p)) (pr_runner p)")
  case (Inl e)
  then show thesis using early by (simp add: plugin_step_def CustomRunner_Run_def)
next
  case b: (Inr b)
  show thesis
  proof (cases "run_key (pr_host p) (pr_runner p) b (pr_ws p)")
    case (Inl e)
    then show thesis using early b by (simp add: plugin_step_def CustomRunner_Run_def)
  next
    case k: (Inr k)
    have hk: "has_key p k" using b k by (auto simp: has_key_def)
    obtain fs1 res where l: "Lookup (ph_entry (pr_host p)) (pr_io p) root k fs = (fs1, res)" by force
    have run: "plugin_step p fs = (case res of Inr (Some ds) \<Rightarrow> (fs1, Inr ds) | _ \<Rightarrow>
        (case run_plugin (pr_host p) (pr_ctx p) (pr_runner p) b (pr_ws p) of Inl e \<Rightarrow> (fs1, Inl e)
         | Inr ds \<Rightarrow> (case Store (pr_io p) root k ds fs1 of (fs2, Some e) \<Rightarrow> (fs2, Inl (Failed e)) | (fs2, None) \<Rightarrow> (fs2, Inr ds))))"
      using b k l assms by (auto simp: plugin_step_def CustomRunner_Run_def split: sum.splits option.splits)
    show thesis
    proof (cases "\<exists>ds. res = Inr (Some ds)")
      case True
      then show thesis using hit [OF hk] run l by auto
    next
      case miss: False
      show thesis
      proof (cases "run_plugin (pr_host p) (pr_ctx p) (pr_runner p) b (pr_ws p)")
        case (Inl e)
        then show thesis using failed [OF hk] run l miss by (auto split: sum.splits option.splits)
      next
        case (Inr ds)
        then have "answers p ds" using b by (auto simp: answers_def)
        then show thesis using stored [OF hk] run l miss Inr by (auto split: sum.splits option.splits prod.splits)
      qed
    qed
  qed
qed

lemma has_key_hex: "has_key p k \<Longrightarrow> hexkey k"
  by (auto simp: has_key_def dest: hexkey_run_key)

lemma replayable_mono:
  assumes "replayable root ps fs" and "set ps \<subseteq> set qs" and "\<And>q. fs' q = fs q \<or> fs' q = None"
  shows "replayable root qs fs'"
  using assms unfolding replayable_def by (metis option.distinct(1) subsetD)

lemma replayable_Store:
  assumes "replayable root ps fs" and "root \<noteq> []" and "has_key p k" and "answers p ds" and "list_all storable ds" and "p \<in> set ps"
  shows "replayable root ps (fst (Store i root k ds fs))"
  unfolding replayable_def
proof (intro allI impI)
  fix k' data t assume k': "hexkey k'" and e: "fst (Store i root k ds fs) (subproc_entryPath root k') = Some (data, t)"
  have hk: "hexkey k" using has_key_hex assms(3) .
  show "\<exists>q\<in>set ps. \<exists>ds. has_key q k' \<and> answers q ds \<and> list_all storable ds \<and> data = entry_bytes ds"
  proof (cases "k' = k \<and> data = entry_bytes ds")
    case True
    then show ?thesis using assms by blast
  next
    case False
    have "fst (Store i root k ds fs) (subproc_entryPath root k') = fs (subproc_entryPath root k')"
    proof (cases "k' = k")
      case True
      then show ?thesis using Store_entry [OF assms(2) hk, of i ds fs] False e by auto
    next
      case neq: False
      then show ?thesis using Store_other temp_not_entry [OF assms(2) hk k'] entry_inject [OF assms(2) k' hk] by metis
    qed
    then show ?thesis using assms(1) k' e unfolding replayable_def by metis
  qed
qed

lemma plugin_runs_replayable:
  assumes "plugin_runs root ps fs" and "root \<noteq> []"
  shows "replayable root ps fs"
  using assms(1)
proof induction
  case (start fs)
  then show ?case by (simp add: replayable_def)
next
  case (run ps fs p)
  have more: "replayable root (p # ps) (fst (Lookup dec i root k fs))" for dec i k
    by (rule replayable_mono [OF run.IH]) (use Lookup_keeps in auto)
  show ?case
  proof (cases rule: plugin_step_cases [OF run.hyps(2), of fs, case_names early hit failed stored])
    case (early e)
    then show ?thesis using replayable_mono [OF run.IH, of "p # ps" fs] by auto
  next
    case (stored k ds)
    have "list_all storable ds" using run.hyps(3) stored(2) by (simp add: sound_host_def)
    then show ?thesis unfolding stored(3) by (intro replayable_Store [OF more assms(2) stored(1,2)]) simp_all
  qed (use more in auto)
next
  case (evict ps fs q)
  then show ?case by (intro replayable_mono [OF evict.IH]) auto
qed

subsection \<open>What equal keys mean\<close>

text \<open>
  What a run reads for its key: the contents of the binary and of \<^verbatim>\<open>go.sum\<close>, the encoded settings, and the Go files the hash
  walks over, by their relative names; the walk leaves out the skipped directories, the root included, and does not follow links.
\<close>

definition plugin_binary :: "pluginRun \<Rightarrow> bytes option" where
  "plugin_binary p =
     (case resolveBinary (ph_lookPath (pr_host p)) (pr_runner p) of
        Inl _ \<Rightarrow> None
      | Inr b \<Rightarrow> (case ph_read (pr_host p) b of Inl _ \<Rightarrow> None | Inr d \<Rightarrow> Some d))"

definition plugin_gosum :: "pluginRun \<Rightarrow> bytes option" where
  "plugin_gosum p = (case ph_read (pr_host p) (Join [sp_ModuleRoot (pr_ws p), ''go.sum'']) of Inl _ \<Rightarrow> None | Inr d \<Rightarrow> Some d)"

definition plugin_settings :: "pluginRun \<Rightarrow> bytes option" where
  "plugin_settings p = (case ph_marshal (pr_host p) (cu_settings (pr_runner p)) of Inl _ \<Rightarrow> None | Inr d \<Rightarrow> Some d)"

definition read_visit :: "visit \<Rightarrow> (string \<times> bytes) option" where
  "read_visit v = (case v of Inr (segs, Inr data) \<Rightarrow> Some (rel_name segs, data) | _ \<Rightarrow> None)"

definition hashed_files :: "(string \<Rightarrow> dtree result) \<Rightarrow> string \<Rightarrow> (string \<times> bytes) list" where
  "hashed_files lstat root =
     (case lstat root of Inl _ \<Rightarrow> [] | Inr t \<Rightarrow> sort_key fst (List.map_filter read_visit (go_visits hash_skips [] (Base root) t)))"

definition plugin_files :: "pluginRun \<Rightarrow> (string \<times> bytes) list" where
  "plugin_files p = hashed_files (ph_lstat (pr_host p)) (sp_ModuleRoot (pr_ws p))"

definition same_inputs :: "pluginRun \<Rightarrow> pluginRun \<Rightarrow> bool" where
  "same_inputs p q \<longleftrightarrow>
     cu_name (pr_runner p) = cu_name (pr_runner q) \<and> plugin_binary p = plugin_binary q \<and> plugin_gosum p = plugin_gosum q
     \<and> plugin_settings p = plugin_settings q \<and> plugin_files p = plugin_files q
     \<and> mset (sp_BuildTags (pr_ws p)) = mset (sp_BuildTags (pr_ws q)) \<and> mset (sp_Env (pr_ws p)) = mset (sp_Env (pr_ws q))"

text \<open>The texts that are hashed on the way to the key.\<close>

definition hex_digest :: "bytes option \<Rightarrow> string" where
  "hex_digest t = (case t of None \<Rightarrow> [] | Some d \<Rightarrow> hex_encode (sha256 d))"

definition version_bytes :: "pluginRun \<Rightarrow> bytes" where
  "version_bytes p = version_text (hex_digest (plugin_binary p)) (hex_digest (plugin_gosum p))"

definition files_bytes :: "pluginRun \<Rightarrow> bytes" where
  "files_bytes p = workspace_text (map (apsnd sha256) (plugin_files p)) (sp_BuildTags (pr_ws p)) (sp_Env (pr_ws p))"

definition key_bytes :: "pluginRun \<Rightarrow> bytes" where
  "key_bytes p = key_text (cu_name (pr_runner p)) (hex_encode (sha256 (version_bytes p))) (hex_digest (plugin_settings p)) (hex_encode (sha256 (files_bytes p)))"

definition run_texts :: "pluginRun \<Rightarrow> bytes set" where
  "run_texts p = {version_bytes p, files_bytes p, key_bytes p} \<union> snd ` set (plugin_files p)
     \<union> set_option (plugin_binary p) \<union> set_option (plugin_gosum p) \<union> set_option (plugin_settings p)"

lemma insort_key_map: "insort_key fst (apsnd h x) (map (apsnd h) xs) = map (apsnd h) (insort_key fst x xs)"
  by (induction xs) auto

lemma sort_key_apsnd: "sort_key fst (map (apsnd h) xs) = map (apsnd h) (sort_key fst xs)"
  by (induction xs) (simp_all add: insort_key_map)

lemma efold_hashed: "efold (hash_visit root) vs fs = Inr gs \<Longrightarrow> gs = fs @ map (apsnd sha256) (List.map_filter read_visit vs)"
proof (induction vs arbitrary: fs)
  case (Cons v vs)
  consider e where "v = Inl e" | segs e where "v = Inr (segs, Inl e)" | segs d where "v = Inr (segs, Inr d)"
    by (metis obj_sumE surj_pair)
  then show ?case
  proof cases
    case (3 segs d)
    then have h: "hash_visit root v fs = Inr (fs @ [(rel_name segs, sha256 d)])" and r: "read_visit v = Some (rel_name segs, d)"
      by (simp_all add: hash_visit_def read_visit_def)
    show ?thesis using Cons.IH [of "fs @ [(rel_name segs, sha256 d)]"] Cons.prems by (simp add: h r List.map_filter_simps)
  next
    case 1
    then have "hash_visit root v fs = Inl e" by (simp add: hash_visit_def)
    then show ?thesis using Cons.prems by simp
  next
    case (2 segs e)
    then have "\<exists>e'. hash_visit root v fs = Inl e'" by (simp add: hash_visit_def)
    then show ?thesis using Cons.prems by auto
  qed
qed (simp add: List.map_filter_simps)

lemma file_hashes_hashed: "file_hashes lstat root = Inr fs \<Longrightarrow> fs = map (apsnd sha256) (hashed_files lstat root)"
proof -
  assume f: "file_hashes lstat root = Inr fs"
  then obtain t where t: "lstat root = Inr t" by (auto simp: file_hashes_def ebind_Inr_iff)
  obtain gs where g: "efold (hash_visit root) (go_visits hash_skips [] (Base root) t) [] = Inr gs" "fs = sort_key fst gs"
    using f t by (cases "efold (hash_visit root) (go_visits hash_skips [] (Base root) t) []") (simp_all add: file_hashes_def)
  show ?thesis using efold_hashed [OF g(1)] by (simp add: g(2) hashed_files_def t sort_key_apsnd)
qed

lemma has_key_text:
  assumes "has_key p k"
  shows "k = hex_encode (sha256 (key_bytes p))"
proof -
  obtain b v s where b: "resolveBinary (ph_lookPath (pr_host p)) (pr_runner p) = Inr b" "linterVersion (pr_host p) (pr_runner p) b (pr_ws p) = Inr v"
      "settingsHash (pr_host p) (pr_runner p) = Inr s" "CacheKey (ph_lstat (pr_host p)) (cu_name (pr_runner p)) v s (pr_ws p) = Inr k"
    using assms by (auto simp: has_key_def run_key_def ebind_Inr_iff)
  have v: "v = hex_encode (sha256 (version_bytes p))"
    using b(1,2) by (auto simp: linterVersion_def sha256File_def version_bytes_def plugin_binary_def plugin_gosum_def hex_digest_def Let_def
        split: sum.splits if_splits)
  have s: "s = hex_digest (plugin_settings p)"
    using b(3) by (auto simp: settingsHash_def plugin_settings_def hex_digest_def split: sum.splits)
  obtain fs where "file_hashes (ph_lstat (pr_host p)) (sp_ModuleRoot (pr_ws p)) = Inr fs"
    "k = hex_encode (sha256 (key_text (cu_name (pr_runner p)) v s (hex_encode (sha256 (workspace_text fs (sp_BuildTags (pr_ws p)) (sp_Env (pr_ws p)))))))"
    using CacheKey_Inr [OF b(4)] .
  then show ?thesis using file_hashes_hashed by (simp add: key_bytes_def files_bytes_def plugin_files_def v s)
qed

lemma hex_digest_inject:
  assumes inj: "\<forall>x \<in> set_option a. \<forall>y \<in> set_option b. sha256 x = sha256 y \<longrightarrow> x = y" and eq: "hex_digest a = hex_digest b"
  shows "a = b"
proof -
  have ne: "hex_encode (sha256 d) \<noteq> []" for d using length_hex_encode [of "sha256 d"] by fastforce
  show ?thesis
  proof (cases a)
    case None
    then show ?thesis using eq ne ne [symmetric] by (cases b) (auto simp: hex_digest_def)
  next
    case (Some x)
    then obtain y where "b = Some y" "sha256 x = sha256 y" using eq ne by (cases b) (simp_all add: hex_digest_def)
    then show ?thesis using inj Some by simp
  qed
qed

lemma hashed_inject:
  assumes "\<forall>x \<in> snd ` set fs. \<forall>y \<in> snd ` set gs. sha256 x = sha256 y \<longrightarrow> x = y" and "map (apsnd sha256) fs = map (apsnd sha256) gs"
  shows "fs = gs"
proof (rule list.inj_map_strong [OF _ assms(2)])
  fix f g assume f: "f \<in> set fs" "g \<in> set gs" "apsnd sha256 f = apsnd sha256 g"
  then have "fst f = fst g" "sha256 (snd f) = sha256 (snd g)" by (metis fst_apsnd, metis snd_apsnd)
  then show "f = g" using assms(1) f(1,2) by (blast intro: prod_eqI)
qed

lemma same_key_inputs:
  assumes "has_key p k" and "has_key q k"
  shows "same_inputs p q \<or> (\<exists>x\<in>run_texts p. \<exists>y\<in>run_texts q. collision sha256 x y)"
proof (cases "\<exists>x\<in>run_texts p. \<exists>y\<in>run_texts q. collision sha256 x y")
  case False
  then have inj: "x = y" if "x \<in> run_texts p" "y \<in> run_texts q" "sha256 x = sha256 y" for x y using that unfolding collision_def by blast
  have mem: "version_bytes r \<in> run_texts r" "files_bytes r \<in> run_texts r" "key_bytes r \<in> run_texts r"
    "x \<in> snd ` set (plugin_files r) \<Longrightarrow> x \<in> run_texts r" "x \<in> set_option (plugin_binary r) \<Longrightarrow> x \<in> run_texts r"
    "x \<in> set_option (plugin_gosum r) \<Longrightarrow> x \<in> run_texts r" "x \<in> set_option (plugin_settings r) \<Longrightarrow> x \<in> run_texts r" for r x
    by (simp_all add: run_texts_def)
  have "sha256 (key_bytes p) = sha256 (key_bytes q)" using has_key_text [OF assms(1)] has_key_text [OF assms(2)] hex_encode_inject by metis
  from inj [OF mem(3) mem(3) this] have k: "cu_name (pr_runner p) = cu_name (pr_runner q)" "sha256 (version_bytes p) = sha256 (version_bytes q)"
    "hex_digest (plugin_settings p) = hex_digest (plugin_settings q)" "sha256 (files_bytes p) = sha256 (files_bytes q)"
    unfolding key_bytes_def by (auto dest!: key_text_inject)
  have "version_bytes p = version_bytes q" using inj [OF mem(1) mem(1) k(2)] .
  then have v: "hex_digest (plugin_binary p) = hex_digest (plugin_binary q)" "hex_digest (plugin_gosum p) = hex_digest (plugin_gosum q)"
    using writeField_inject [of "''go.sum''" _ "[]" _ "[]"] unfolding version_bytes_def version_text_def by (auto dest!: writeField_inject)
  have "files_bytes p = files_bytes q" using inj [OF mem(2) mem(2) k(4)] .
  then have w: "map (apsnd sha256) (plugin_files p) = map (apsnd sha256) (plugin_files q)
      \<and> mset (sp_BuildTags (pr_ws p)) = mset (sp_BuildTags (pr_ws q)) \<and> mset (sp_Env (pr_ws p)) = mset (sp_Env (pr_ws q))"
    unfolding files_bytes_def by (intro workspace_text_inject) (auto simp: list_all_iff)
  have "plugin_files p = plugin_files q" by (rule hashed_inject) (use inj mem(4) w in blast)+
  moreover have "plugin_binary p = plugin_binary q" by (rule hex_digest_inject) (use inj mem(5) v in blast)+
  moreover have "plugin_gosum p = plugin_gosum q" by (rule hex_digest_inject) (use inj mem(6) v in blast)+
  moreover have "plugin_settings p = plugin_settings q" by (rule hex_digest_inject) (use inj mem(7) k in blast)+
  ultimately show ?thesis using k(1) w by (simp add: same_inputs_def)
qed blast

text \<open>
  C13. A plugin run with a cache answers what the plugin answers, or what it answered in an earlier run over the cache directory
  with the same linter name, the same contents of the plugin binary and of \<^verbatim>\<open>go.sum\<close>, the same encoded settings, the same Go files among
  those the hash visits, by relative name and content, and the same build tags and environment up to order: whatever runs shared
  the directory before, with any of their system calls failing and any entries removed, no other result is returned, unless two of
  the texts the two runs hash are an explicit collision of SHA-256.  Files the hash does not visit and the place of the module are
  not covered.
\<close>
theorem plugin_replay:
  assumes "plugin_runs root ps fs" and "root \<noteq> []" and "cu_cache (pr_runner p) = Some root" and "sound_host p" and "snd (plugin_step p fs) = Inr ds"
  shows "answers p ds \<or> (\<exists>q\<in>set ps. answers q ds \<and> (same_inputs p q \<or> (\<exists>x\<in>run_texts p. \<exists>y\<in>run_texts q. collision sha256 x y)))"
proof (cases rule: plugin_step_cases [OF assms(3), of fs, case_names early hit failed stored])
  case (hit k ds')
  then have eq: "ds' = ds" using assms(5) by simp
  obtain data t where e: "fs (subproc_entryPath root k) = Some (data, t)" "ph_entry (pr_host p) data = Inr (cacheFormatVersion, ds)"
    using Lookup_hit [OF hit(3)] eq by metis
  then obtain q ds0 where q: "q \<in> set ps" "has_key q k" "answers q ds0" "list_all storable ds0" "data = entry_bytes ds0"
    using plugin_runs_replayable [OF assms(1,2)] has_key_hex [OF hit(1)] unfolding replayable_def by metis
  then have "ds0 = ds" using e(2) assms(4) by (simp add: sound_host_def entry_decoder_def)
  then show ?thesis using q same_key_inputs [OF hit(1)] by blast
qed (use assms(5) in auto)


subsection \<open>An entry decoder\<close>

text \<open>What reading an entry into the structs of the cache takes from it.\<close>

definition position_view :: "jval \<Rightarrow> position" where
  "position_view v = \<lparr>Filename = string_at [''filename''] v, Line = int_at [''line''] v, Column = int_at [''column''] v\<rparr>"

definition object_view :: "bytes \<Rightarrow> (jval \<Rightarrow> 'a) \<Rightarrow> jval \<Rightarrow> 'a" where
  "object_view k f v = f (case jpath [k] v of Some w \<Rightarrow> w | None \<Rightarrow> JNull)"

definition edit_view :: "jval \<Rightarrow> textedit" where
  "edit_view v = \<lparr>Start = object_view ''start'' position_view v, End = object_view ''end'' position_view v, NewText = string_at [''new_text''] v\<rparr>"

definition fix_view :: "jval \<Rightarrow> suggestedfix" where
  "fix_view v = \<lparr>FixMessage = string_at [''message''] v, TextEdits = map edit_view (array_at [''text_edits''] v)\<rparr>"

definition related_view :: "jval \<Rightarrow> relatedinformation" where
  "related_view v = \<lparr>RelPosition = object_view ''position'' position_view v, RelMessage = string_at [''message''] v\<rparr>"

definition diagnostic_view :: "jval \<Rightarrow> diagnostic" where
  "diagnostic_view v =
     \<lparr>Linter = string_at [''linter''] v, Message = string_at [''message''] v, Severity = string_at [''severity''] v,
      Pos = object_view ''pos'' position_view v, SourceLines = map (string_at []) (array_at [''source_lines''] v),
      SuggestedFixes = map fix_view (array_at [''suggested_fixes''] v), Related = map related_view (array_at [''related''] v)\<rparr>"

lemmas view_defs = string_at_def int_at_def array_at_def object_view_def omit_if_def jint_def

lemma position_view_json [simp]: "position_view (position_json p) = p"
  by (simp add: position_view_def position_json_def view_defs)

lemma edit_view_json [simp]: "edit_view (edit_json e) = e"
  by (simp add: edit_view_def edit_json_def view_defs)

lemma fix_view_json [simp]: "fix_view (fix_json s) = s"
  by (simp add: fix_view_def fix_json_def view_defs comp_def)

lemma related_view_json [simp]: "related_view (related_json r) = r"
  by (simp add: related_view_def related_json_def view_defs)

lemma diagnostic_view_json [simp]: "diagnostic_view (diagnostic_json d) = d"
  by (simp add: diagnostic_view_def diagnostic_json_def view_defs comp_def)

definition entry_read :: "bytes \<Rightarrow> (int \<times> diagnostic list) result" where
  "entry_read b =
     (case json_decode b of None \<Rightarrow> Inl ''invalid entry'' | Some v \<Rightarrow> Inr (int_at [''v''] v, map diagnostic_view (array_at [''diags''] v)))"

lemma entry_read_decodes: "entry_decoder entry_read"
proof -
  have "entry_read (entry_bytes ds) = Inr (cacheFormatVersion, ds)" if u: "list_all storable ds" for ds
  proof -
    have w: "jwf (entry_json cacheFormatVersion ds)" "jfits (entry_json cacheFormatVersion ds) max_depth"
      using u by (simp_all add: entry_json_def diagnostic_json_wf storable_def list_all_iff max_depth_def)
    have "json_decode (entry_bytes ds) = Some (entry_json cacheFormatVersion ds)"
      using json_marshal_reads_back [OF w(1)] w(2) unfolding reads_back_def json_decode_def entry_bytes_def
      by (elim allE [of _ "2 * length (json_marshal (entry_json cacheFormatVersion ds)) + 1"] allE [of _ max_depth] allE [of _ "[]"]) (simp add: num_stop_def)
    then show ?thesis by (simp add: entry_read_def entry_json_def view_defs comp_def)
  qed
  then show ?thesis by (simp add: entry_decoder_def)
qed



subsection \<open>What the key leaves out\<close>

lemma hash_visits_moved: "efold (hash_visit root) vs fs = Inr gs \<Longrightarrow> efold (hash_visit root') vs fs = Inr gs"
  by (induction vs arbitrary: fs) (auto simp: hash_visit_def split: sum.splits prod.splits)

text \<open>
  The place of the module is not in the key, although findings have absolute paths: a module moved or copied to another place has the
  same key, so a shared cache replays the paths of the first place.
\<close>

lemma moved_module_same_key:
  assumes "run_key H r b ws = Inr k" and "ph_lstat H (sp_ModuleRoot ws) = Inr (Branch (Inr es))" and "ph_lstat H root' = Inr (Branch (Inr es))"
    and "IsAbs root'" and "\<not> hash_skips (Base (sp_ModuleRoot ws))" and "\<not> hash_skips (Base root')"
    and "ph_read H (Join [root', ''go.sum'']) = ph_read H (Join [sp_ModuleRoot ws, ''go.sum''])"
  shows "run_key H r b (ws\<lparr>sp_ModuleRoot := root'\<rparr>) = Inr k"
proof -
  obtain v s where v: "linterVersion H r b ws = Inr v" "settingsHash H r = Inr s" "CacheKey (ph_lstat H) (cu_name r) v s ws = Inr k"
    using assms(1) by (auto simp: run_key_def ebind_Inr_iff)
  obtain fs where f: "file_hashes (ph_lstat H) (sp_ModuleRoot ws) = Inr fs"
      "k = hex_encode (sha256 (key_text (cu_name r) v s (hex_encode (sha256 (workspace_text fs (sp_BuildTags ws) (sp_Env ws))))))"
    using CacheKey_Inr [OF v(3)] .
  let ?vs = "concat (map (\<lambda>(n, t). go_visits hash_skips [n] n t) es)"
  obtain gs where "efold (hash_visit (sp_ModuleRoot ws)) ?vs [] = Inr gs" "fs = sort_key fst gs"
    using f(1) assms(2,5) by (cases "efold (hash_visit (sp_ModuleRoot ws)) ?vs []") (auto simp: file_hashes_def)
  then have "file_hashes (ph_lstat H) root' = Inr fs"
    using hash_visits_moved [of "sp_ModuleRoot ws" ?vs "[]" gs root'] assms(3,6) by (simp add: file_hashes_def)
  moreover have "linterVersion H r b (ws\<lparr>sp_ModuleRoot := root'\<rparr>) = Inr v"
    using v(1) assms(7) by (simp add: linterVersion_def sha256File_def Let_def split: sum.splits if_splits)
  ultimately show ?thesis using v(2) f(2) assms(4) by (auto simp: run_key_def CacheKey_def WorkspaceContentHash_def IsAbs_def HasPrefix_def)
qed

text \<open>
  The skipped names apply to the root itself: a module whose directory is called \<^verbatim>\<open>testdata\<close>, or is reached through a symbolic
  link, has no files in its key, and edits to it never change it.
\<close>

lemma skipped_root_unhashed: "hash_skips (Base root) \<Longrightarrow> lstat root = Inr (Branch (Inr es)) \<Longrightarrow> file_hashes lstat root = Inr []"
  by (simp add: file_hashes_def)

lemma linked_root_unhashed: "\<not> HasSuffix (Base root) ''.go'' \<Longrightarrow> lstat root = Inr (Leaf x) \<Longrightarrow> file_hashes lstat root = Inr []"
  by (simp add: file_hashes_def)

text \<open>A plugin that exits with status 1 and prints nothing but an error message counts as a clean run without findings.\<close>

lemma exit_one_is_clean:
  assumes "op_run (ph_proc H) = (\<lambda>c. ([], err, Some (Exited 1 t)))"
  shows "run_plugin H None r b ws = Inr []"
  using assms by (simp add: run_plugin_def invokeInDir_def classify_def parseCustomNDJSON_def Subproc_Canonicalize_def TrimSpace_def Let_def)

text \<open>The strict decoder stops after the first value of a line, so whatever follows it is dropped without an error.\<close>

lemma rest_of_line_dropped:
  assumes "\<And>a b l. ld_strict D a = Inr l \<Longrightarrow> ld_strict D (a @ b) = Inr l" and "ld_strict D a = Inr l"
  shows "decode_line D (a @ b) = decode_line D a"
  using assms by (simp add: decode_line_def)

lemma fewer_visits: "(\<And>n. skip n \<Longrightarrow> skip' n) \<Longrightarrow> set (go_visits skip' segs name t) \<subseteq> set (go_visits skip segs name t)"
proof (induction skip segs name t rule: go_visits.induct)
  case (3 skip segs name es)
  show ?case
  proof (cases "skip' name")
    case False
    then have no: "\<not> skip name" using 3(2) by blast
    have "set (go_visits skip' (segs @ [n]) n t) \<subseteq> set (go_visits skip (segs @ [n]) n t)" if "(n, t) \<in> set es" for n t
      by (rule 3(1) [OF no that refl]) (rule 3(2))
    then have "(\<Union>(n, t)\<in>set es. set (go_visits skip' (segs @ [n]) n t)) \<subseteq> (\<Union>(n, t)\<in>set es. set (go_visits skip (segs @ [n]) n t))"
      by (intro UN_mono) auto
    then show ?thesis using False no by (simp add: split_def)
  qed simp
qed auto

lemma efold_names: "efold (\<lambda>v fs. ebind v (\<lambda>(segs, r). Inr (fs @ [rel_name segs]))) vs fs = Inr gs \<Longrightarrow> set gs = set fs \<union> {rel_name segs | segs r. Inr (segs, r) \<in> set vs}"
proof (induction vs arbitrary: fs)
  case (Cons v vs)
  then show ?case by (cases v) (auto split: prod.splits)
qed simp

lemma efold_hashes: "efold (hash_visit root) vs fs = Inr gs \<Longrightarrow> fst ` set gs = fst ` set fs \<union> {rel_name segs | segs r. Inr (segs, r) \<in> set vs}"
proof (induction vs arbitrary: fs)
  case (Cons v vs)
  then show ?case by (cases v) (auto simp: hash_visit_def split: prod.splits sum.splits)
qed simp

text \<open>
  Every Go file a run hands to a child is in the key of the run: the enumeration skips more directories than the hash, never fewer.
\<close>
theorem enumerated_is_hashed:
  assumes "enumerateGoFiles lstat root = Inr files" and "file_hashes lstat root = Inr hs"
  shows "set files \<subseteq> fst ` set hs"
proof -
  obtain t where t: "lstat root = Inr t" using assms(1) by (auto simp: enumerateGoFiles_def split: sum.splits)
  let ?e = "go_visits skipDirNames [] (Base root) t" and ?h = "go_visits hash_skips [] (Base root) t"
  have sub: "set ?e \<subseteq> set ?h" by (rule fewer_visits) (auto simp: hash_skips_def skipDirNames_def)
  obtain gs where g: "efold (\<lambda>v fs. ebind v (\<lambda>(segs, r). Inr (fs @ [rel_name segs]))) ?e [] = Inr gs" "files = sort gs"
    using assms(1) t by (cases "efold (\<lambda>v fs. ebind v (\<lambda>(segs, r). Inr (fs @ [rel_name segs]))) ?e []") (auto simp: enumerateGoFiles_def)
  obtain ks where k: "efold (hash_visit root) ?h [] = Inr ks" "hs = sort_key fst ks"
    using assms(2) t by (cases "efold (hash_visit root) ?h []") (auto simp: file_hashes_def)
  have "{rel_name segs | segs r. Inr (segs, r) \<in> set ?e} \<subseteq> {rel_name segs | segs r. Inr (segs, r) \<in> set ?h}" using sub by blast
  then show ?thesis using efold_names [OF g(1)] efold_hashes [OF k(1)] by (simp add: g(2) k(2))
qed


subsection \<open>Examples\<close>

definition demo_tree :: dtree where
  "demo_tree = Branch (Inr [(''a.go'', Leaf (Inr ''package a'')), (''testdata'', Branch (Inr [(''b.go'', Leaf (Inr ''package b''))]))])"

definition calm_io :: storeIO where
  "calm_io = \<lparr>now = 0, rnd = [], mkdir_err = None, rand_err = None, write_err = None, link_err = None, remove_err = None, read_err = None,
     stat_err = None, chtimes_err = None, close_err = None, rename_err = None\<rparr>"

definition demo_plugin :: pluginRun where
  "demo_plugin =
     \<lparr>pr_host = \<lparr>ph_proc = \<lparr>op_environ = [], op_run = (\<lambda>c. ([], [], None))\<rparr>, ph_lookPath = Inr, ph_read = (\<lambda>p. if p = ''/p'' then Inr ''x'' else Inl ErrNotExist),
        ph_lstat = (\<lambda>p. Inr demo_tree), ph_marshal = (\<lambda>s. Inr ''{}''), ph_lines = \<lparr>ld_strict = (\<lambda>l. Inl ''no''), ld_relaxed = (\<lambda>l. Inl ''no'')\<rparr>,
        ph_entry = entry_read\<rparr>,
      pr_ctx = None, pr_io = calm_io,
      pr_runner = \<lparr>cu_name = ''p'', cu_settings = \<lparr>cu_Type = [], cu_Path = ''/p'', cu_Description = [], cu_OriginalURL = [], cu_Settings = Inl []\<rparr>, cu_cache = Some ''/c''\<rparr>,
      pr_ws = \<lparr>sp_ModuleRoot = ''/m'', sp_BuildTags = [], sp_Env = []\<rparr>\<rparr>"

lemma demo_resolves: "resolveBinary (ph_lookPath (pr_host demo_plugin)) (pr_runner demo_plugin) = Inr ''/p''"
  by (simp add: demo_plugin_def resolveBinary_def IsAbs_def HasPrefix_def)

lemma demo_runs: "run_plugin (pr_host demo_plugin) (pr_ctx demo_plugin) (pr_runner demo_plugin) b (pr_ws demo_plugin) = Inr []"
  by (simp add: demo_plugin_def run_plugin_def invokeInDir_def classify_def parseCustomNDJSON_def Subproc_Canonicalize_def TrimSpace_def)

lemma demo_answers: "answers demo_plugin ds \<longleftrightarrow> ds = []"
  by (auto simp: answers_def demo_resolves demo_runs)

lemma demo_sound: "sound_host demo_plugin"
proof -
  have "ph_entry (pr_host demo_plugin) = entry_read" by (simp add: demo_plugin_def)
  then show ?thesis using entry_read_decodes by (simp add: sound_host_def demo_answers)
qed

lemma demo_key: "\<exists>k. run_key (pr_host demo_plugin) (pr_runner demo_plugin) ''/p'' (pr_ws demo_plugin) = Inr k"
  by (simp add: run_key_def linterVersion_def settingsHash_def sha256File_def CacheKey_def WorkspaceContentHash_def file_hashes_def demo_plugin_def demo_tree_def
      hash_visit_def hash_skips_def IsAbs_def HasPrefix_def HasSuffix_def Base_def Join_def Clean_def clean_segs_def ErrNotExist_def)

lemma demo_succeeds: "\<exists>ds. snd (plugin_step demo_plugin fs) = Inr ds"
proof -
  obtain k where k: "run_key (pr_host demo_plugin) (pr_runner demo_plugin) ''/p'' (pr_ws demo_plugin) = Inr k" using demo_key by blast
  have s: "snd (Store (pr_io demo_plugin) root k ds g) = None" for root ds g
    using hexkey_plain [OF hexkey_run_key [OF k]] by (simp add: Store_def demo_plugin_def calm_io_def Let_def)
  have c: "cu_cache (pr_runner demo_plugin) = Some ''/c''" by (simp add: demo_plugin_def)
  show ?thesis unfolding plugin_step_def CustomRunner_Run_def
    using s by (auto simp: demo_resolves k c demo_runs split: prod.splits sum.splits option.splits) (metis snd_conv option.distinct(1))+
qed

theorem plugin_replay_witness: "\<exists>ds. snd (plugin_step demo_plugin (fst (plugin_step demo_plugin Map.empty))) = Inr ds
  \<and> (answers demo_plugin ds \<or> (\<exists>q\<in>{demo_plugin}. answers q ds \<and> (same_inputs demo_plugin q \<or> (\<exists>x\<in>run_texts demo_plugin. \<exists>y\<in>run_texts q. collision sha256 x y))))"
proof -
  have c: "cu_cache (pr_runner demo_plugin) = Some ''/c''" by (simp add: demo_plugin_def)
  have start: "plugin_runs ''/c'' [] Map.empty" by (rule plugin_runs.start) simp
  have runs: "plugin_runs ''/c'' [demo_plugin] (fst (plugin_step demo_plugin Map.empty))" by (rule plugin_runs.run [OF start c demo_sound])
  obtain ds where "snd (plugin_step demo_plugin (fst (plugin_step demo_plugin Map.empty))) = Inr ds" using demo_succeeds by blast
  then show ?thesis using plugin_replay [OF runs _ c demo_sound] by auto
qed

theorem Store_Lookup_witness:
  "snd (Lookup entry_read calm_io ''/c'' (hex_encode (replicate 32 CHR ''a'')) (fst (Store calm_io ''/c'' (hex_encode (replicate 32 CHR ''a'')) [] Map.empty))) = Inr (Some [])"
proof -
  let ?k = "hex_encode (replicate 32 CHR ''a'')"
  have k: "hexkey ?k" unfolding hexkey_def by (intro exI [of _ "replicate 32 CHR ''a''"]) simp
  have "snd (Store calm_io ''/c'' ?k [] Map.empty) = None" using hexkey_plain [OF k] by (simp add: Store_def calm_io_def Let_def)
  then show ?thesis using Store_Lookup [OF entry_read_decodes _ _ k k, of "[]" "''/c''" calm_io calm_io Map.empty] by (simp add: calm_io_def)
qed

theorem enumerated_is_hashed_witness: "\<exists>hs. file_hashes (\<lambda>p. Inr demo_tree) ''/m'' = Inr hs \<and> set [''a.go''] \<subseteq> fst ` set hs"
proof -
  have e: "enumerateGoFiles (\<lambda>p. Inr demo_tree) ''/m'' = Inr [''a.go'']"
    by (simp add: enumerateGoFiles_def demo_tree_def skipDirNames_def HasSuffix_def Base_def rel_name_def)
  obtain hs where "file_hashes (\<lambda>p. Inr demo_tree) ''/m'' = Inr hs"
    by (simp add: file_hashes_def demo_tree_def hash_skips_def hash_visit_def HasSuffix_def Base_def)
  then show ?thesis using enumerated_is_hashed [OF e] by blast
qed

end
