(* ===== verification/Commands.thy ===== *)
theory Commands
  imports SarifCollect RunCommand ConfigLoad SubprocProps
begin

text \<open>
  The other commands (\<^verbatim>\<open>cmd/plaid-lint\<close>: \<^verbatim>\<open>main.go\<close>, \<^verbatim>\<open>collect.go\<close>, \<^verbatim>\<open>cache.go\<close>, \<^verbatim>\<open>config.go\<close>, \<^verbatim>\<open>linters.go\<close>, \<^verbatim>\<open>version.go\<close>,
  \<^verbatim>\<open>help.go\<close>) and the memory limit of the process (\<^verbatim>\<open>internal/memlimit\<close>).

  The parsing of flags (\<^verbatim>\<open>flag\<close>) is an argument that yields the values of the flags, \<open>None\<close> for a bad command line.  Messages on
  standard error and help texts are left out.  A command yields what it prints, what it writes to files and its exit code.
\<close>

subsection \<open>Dispatch\<close>

datatype subcommand =
  Cmd_run "string list" | Cmd_unit "string list" | Cmd_collect "string list" | Cmd_linters "string list" | Cmd_version "string list"
  | Cmd_cache "string list" | Cmd_config "string list" | Cmd_help "string list" | Top_help | Unknown string

definition dispatch :: "string list \<Rightarrow> subcommand" where
  "dispatch args =
     (case args of
        [] \<Rightarrow> Cmd_run []
      | first # rest \<Rightarrow>
          if first \<in> set [''--help'', ''-h''] then Top_help
          else if first = ''--version'' then Cmd_version []
          else if first = ''run'' then Cmd_run rest
          else if first = ''unit'' then Cmd_unit rest
          else if first = ''collect'' then Cmd_collect rest
          else if first = ''linters'' then Cmd_linters rest
          else if first = ''version'' then Cmd_version rest
          else if first = ''cache'' then Cmd_cache rest
          else if first = ''config'' then Cmd_config rest
          else if first = ''help'' then Cmd_help rest
          else if HasPrefix first ''-'' then Cmd_run args
          else Unknown first)"

definition runHelp :: "string list \<Rightarrow> nat" where
  "runHelp args =
     (case args of
        [] \<Rightarrow> exitSuccess
      | a # _ \<Rightarrow> if a \<in> set [''run'', ''linters'', ''version'', ''cache'', ''config'', ''help''] then exitSuccess else exitCLIError)"


subsection \<open>Collect\<close>

record collectFlags =
  kf_Help :: bool
  kf_FailOnFindings :: bool
  kf_IgnoreLinters :: "string list"
  kf_Out :: string
  kf_OutSarif :: string
  kf_OutText :: string
  kf_Verdict :: string
  kf_Paths :: "string list"

record collectHost =
  kh_read :: "string \<Rightarrow> bytes result"
  kh_decode :: "bytes \<Rightarrow> sarifRun list result"
  kh_parse :: "string list \<Rightarrow> collectFlags option"
  kh_write :: "string \<Rightarrow> string option"

record cmdOutcome =
  oc_stdout :: bytes
  oc_files :: "(string \<times> bytes) list"
  oc_code :: nat

definition ends :: "nat \<Rightarrow> cmdOutcome" where
  "ends code = \<lparr>oc_stdout = [], oc_files = [], oc_code = code\<rparr>"

definition report_text :: "diagnostic list \<Rightarrow> bytes" where
  "report_text ds = concat (map (\<lambda>d. PosString d @ '': '' @ Message d @ '' ('' @ Linter d @ '')'' @ [lf]) ds)"

definition enforced :: "string list \<Rightarrow> diagnostic list \<Rightarrow> nat" where
  "enforced ignored ds = length (filter (\<lambda>d. Linter d \<notin> set ignored) ds)"

definition verdict_text :: "string list \<Rightarrow> diagnostic list \<Rightarrow> nat \<Rightarrow> bytes" where
  "verdict_text ignored ds nsup =
     ''schema=1'' @ [lf] @ ''findings='' @ itoa (int (length ds)) @ [lf] @ ''enforced='' @ itoa (int (enforced ignored ds)) @ [lf]
     @ ''ignored='' @ itoa (int (length ds) - int (enforced ignored ds)) @ [lf] @ ''superseded='' @ itoa (int nsup) @ [lf]"

text \<open>The aggregate reports that were asked for, in the order they are written; the first failure ends the writing.\<close>

definition artifacts :: "collectFlags \<Rightarrow> diagnostic list \<Rightarrow> nat \<Rightarrow> (string \<times> bytes) list" where
  "artifacts f ds nsup =
     (if kf_OutSarif f \<noteq> [] then [(kf_OutSarif f, RenderAggregateSarif ds)] else [])
     @ (if kf_OutText f \<noteq> [] then [(kf_OutText f, report_text ds)] else [])
     @ (if kf_Verdict f \<noteq> [] then [(kf_Verdict f, verdict_text (kf_IgnoreLinters f) ds nsup)] else [])"

fun write_all :: "(string \<Rightarrow> string option) \<Rightarrow> (string \<times> bytes) list \<Rightarrow> (string \<times> bytes) list \<times> bool" where
  "write_all w [] = ([], True)"
| "write_all w ((p, b) # ps) =
     (case w p of Some e \<Rightarrow> ([], False) | None \<Rightarrow> (let (done, ok) = write_all w ps in ((p, b) # done, ok)))"

definition finish_collect :: "collectHost \<Rightarrow> collectFlags \<Rightarrow> diagnostic list \<Rightarrow> (string \<times> bytes) list \<Rightarrow> (string \<times> bytes) list \<times> nat" where
  "finish_collect H f ds done =
     (if kf_Verdict f = [] \<and> kf_FailOnFindings f \<and> 0 < enforced (kf_IgnoreLinters f) ds then (done, exitIssuesFound)
      else if kf_Out f \<noteq> [] then
        (case kh_write H (kf_Out f) of Some e \<Rightarrow> (done, exitInternalError) | None \<Rightarrow> (done @ [(kf_Out f, [])], exitSuccess))
      else (done, exitSuccess))"

definition runCollect :: "collectHost \<Rightarrow> string list \<Rightarrow> cmdOutcome" where
  "runCollect H args =
     (case expandArgsFiles (kh_read H) args of
        Inl e \<Rightarrow> ends exitCLIError
      | Inr as \<Rightarrow>
          (case kh_parse H as of
             None \<Rightarrow> ends exitCLIError
           | Some f \<Rightarrow>
               if kf_Help f then ends exitSuccess
               else if kf_Paths f = [] then ends exitCLIError
               else case Collect_files (kh_read H) (kh_decode H) (kf_Paths f) of
                      Inl e \<Rightarrow> ends exitInternalError
                    | Inr (ds, nsup) \<Rightarrow>
                        (let text = report_text ds; (done, ok) = write_all (kh_write H) (artifacts f ds nsup)
                         in if \<not> ok then \<lparr>oc_stdout = text, oc_files = done, oc_code = exitInternalError\<rparr>
                            else let (files, code) = finish_collect H f ds done
                                 in \<lparr>oc_stdout = text, oc_files = files, oc_code = code\<rparr>)))"


subsection \<open>Cache\<close>

text \<open>The loop that finds the unit of a size: the divisor and the index into the unit letters.\<close>

function unit_loop :: "int \<Rightarrow> int \<Rightarrow> nat \<Rightarrow> int \<times> nat" where
  "unit_loop v d e = (if 1024 \<le> v then unit_loop (v div 1024) (d * 1024) (Suc e) else (d, e))"
  by pat_completeness auto
termination
  by (relation "measure (\<lambda>(v, d, e). nat v)") auto

declare unit_loop.simps [simp del]

text \<open>\<open>fmt1 n d\<close> is \<^verbatim>\<open>%.1f\<close> of the quotient; the index into the letters may be out of range, which panics.\<close>

definition humanizeBytes :: "(int \<Rightarrow> int \<Rightarrow> string) \<Rightarrow> int \<Rightarrow> string option" where
  "humanizeBytes fmt1 n =
     (if n < 1024 then Some (itoa n @ '' B'')
      else let (d, e) = unit_loop (n div 1024) 1024 0
           in if e < length ''KMGTPE'' then Some (fmt1 n d @ [''KMGTPE'' ! e]) else None)"

datatype rootStat = Is_dir | Is_file | Not_there | Stat_failed string

record cacheHost =
  ch_root :: string
  ch_stat :: rootStat
  ch_removeAll :: "string option"
  ch_sizes :: "int list"
  ch_fmt1 :: "int \<Rightarrow> int \<Rightarrow> string"

text \<open>What the command prints, whether it removed the cache, and the exit code.\<close>

definition runCacheClean :: "cacheHost \<Rightarrow> bytes \<times> bool \<times> nat" where
  "runCacheClean H =
     (case ch_stat H of
        Not_there \<Rightarrow> (''No cache to clean at '' @ ch_root H @ [lf], False, exitSuccess)
      | Stat_failed e \<Rightarrow> ([], False, exitInternalError)
      | _ \<Rightarrow> (case ch_removeAll H of
                Some e \<Rightarrow> ([], False, exitInternalError)
              | None \<Rightarrow> (''Cleaned cache at '' @ ch_root H @ [lf], True, exitSuccess)))"

definition runCacheStatus :: "cacheHost \<Rightarrow> (bytes \<times> nat) option" where
  "runCacheStatus H =
     (let hdr = ''Dir: '' @ ch_root H @ [lf]
      in case ch_stat H of
           Not_there \<Rightarrow> Some (hdr @ ''Size: 0 B (cache not yet populated)'' @ [lf], exitSuccess)
         | Stat_failed e \<Rightarrow> Some (hdr, exitInternalError)
         | Is_file \<Rightarrow> Some (hdr @ ''Size: ??? (cache root is not a directory)'' @ [lf], exitSuccess)
         | Is_dir \<Rightarrow>
             map_option (\<lambda>s. (hdr @ ''Size: '' @ s @ '' on disk ('' @ itoa (int (length (ch_sizes H))) @ '' files)'' @ [lf], exitSuccess))
               (humanizeBytes (ch_fmt1 H) (sum_list (ch_sizes H))))"

definition runCache :: "cacheHost \<Rightarrow> string list \<Rightarrow> (bytes \<times> nat) option" where
  "runCache H args =
     (case args of
        [] \<Rightarrow> Some ([], exitCLIError)
      | first # rest \<Rightarrow>
          if first = ''clean'' then (case runCacheClean H of (out, _, code) \<Rightarrow> Some (out, code))
          else if first = ''status'' then runCacheStatus H
          else if first \<in> set [''--help'', ''-h'', ''help''] then Some ([], exitSuccess)
          else Some ([], exitCLIError))"


subsection \<open>Configuration path, linters, version\<close>

definition exitDeferredEngine :: nat where "exitDeferredEngine = 5"

definition runConfigPath :: "('s, 't, 'w) codecs \<Rightarrow> fileEnv \<Rightarrow> (string list \<Rightarrow> (bool \<times> loadFlags) option) \<Rightarrow> string list \<Rightarrow> (bytes \<times> nat) option" where
  "runConfigPath C E parse args =
     (case parse args of
        None \<Rightarrow> Some ([], exitCLIError)
      | Some (help, fl) \<Rightarrow>
          if help then Some ([], exitSuccess)
          else map_option (\<lambda>r. case r of
                 Inl e \<Rightarrow> ([], exitConfigError)
               | Inr (c, ws, path) \<Rightarrow> ((if path = [] then ''(no config file found)'' else path) @ [lf], exitSuccess)) (loadConfig C E fl))"

definition runConfig :: "('s, 't, 'w) codecs \<Rightarrow> fileEnv \<Rightarrow> (string list \<Rightarrow> (bool \<times> loadFlags) option) \<Rightarrow> string list \<Rightarrow> (bytes \<times> nat) option" where
  "runConfig C E parse args =
     (case args of
        [] \<Rightarrow> Some ([], exitCLIError)
      | a # rest \<Rightarrow>
          if a = ''path'' then runConfigPath C E parse rest
          else if a = ''verify'' then Some ([], exitDeferredEngine)
          else if a \<in> set [''--help'', ''-h'', ''help''] then Some ([], exitSuccess)
          else Some ([], exitCLIError))"

record linterListEntry =
  le_Name :: string
  le_Enabled :: bool
  le_IsFormatter :: bool

definition linters_text :: "linterListEntry list \<Rightarrow> bytes" where
  "linters_text es =
     ''Enabled by your configuration linters:'' @ [lf]
     @ concat (map (\<lambda>l. ''  '' @ le_Name l @ (if le_IsFormatter l then '' (formatter)'' else []) @ [lf]) (filter le_Enabled es))
     @ [lf] @ ''Disabled by your configuration linters:'' @ [lf]
     @ concat (map (\<lambda>l. ''  '' @ le_Name l @ [lf]) (filter (\<lambda>l. \<not> le_Enabled l) es))"

text \<open>The stages are those of \<open>runRun\<close>; \<open>list_all_linters\<close> is the registry as a list, \<open>enc\<close> the indenting JSON encoder.\<close>

definition runLinters ::
    "('s, 't, 'r, 'f) runStages \<Rightarrow> ('r \<Rightarrow> linterListEntry list) \<Rightarrow> (linterListEntry list \<Rightarrow> bytes) \<Rightarrow> bool \<Rightarrow> bytes \<times> nat" where
  "runLinters S list_all_linters enc asJSON =
     (case st_parse S of
        None \<Rightarrow> ([], exitCLIError)
      | Some rf \<Rightarrow>
          if st_help S then ([], exitSuccess)
          else case st_load S of
                 Inl _ \<Rightarrow> ([], exitConfigError)
               | Inr base \<Rightarrow>
                   (let c = applyOverlay (st_marshal S) rf (Some base)
                    in if st_validate S c \<noteq> [] then ([], exitConfigError)
                       else case st_build S c of
                              Inl _ \<Rightarrow> ([], exitInternalError)
                            | Inr (c', reg) \<Rightarrow>
                                (let es = list_all_linters reg in (if asJSON then enc es else linters_text es, exitSuccess))))"

record versionInfo =
  vi_Version :: string
  vi_Commit :: string
  vi_Date :: string
  vi_Go :: string
  vi_OS :: string
  vi_Arch :: string

definition take_setting :: "string \<times> string \<Rightarrow> versionInfo \<Rightarrow> versionInfo" where
  "take_setting kv v =
     (if fst kv = ''vcs.revision'' then (if vi_Commit v = ''unknown'' \<or> vi_Commit v = [] then v\<lparr>vi_Commit := snd kv\<rparr> else v)
      else if fst kv = ''vcs.time'' then (if vi_Date v = ''unknown'' \<or> vi_Date v = [] then v\<lparr>vi_Date := snd kv\<rparr> else v)
      else v)"

text \<open>The build information is the version of the main module and the settings.\<close>

definition resolveVersion :: "versionInfo \<Rightarrow> (string \<times> (string \<times> string) list) option \<Rightarrow> versionInfo" where
  "resolveVersion v info =
     (case info of
        None \<Rightarrow> v
      | Some (mainVersion, settings) \<Rightarrow>
          fold take_setting settings
            (if (vi_Version v = ''v0-dev'' \<or> vi_Version v = []) \<and> mainVersion \<noteq> [] \<and> mainVersion \<noteq> ''(devel)''
             then v\<lparr>vi_Version := mainVersion\<rparr> else v))"


subsection \<open>The memory limit\<close>

definition sanityCeiling :: nat where "sanityCeiling = 256 * 1024 * 1024 * 1024"

definition saneLimit :: "nat \<Rightarrow> nat option" where
  "saneLimit v = (if v = 0 \<or> sanityCeiling \<le> v then None else Some v)"

definition parseV2Limit :: "bytes \<Rightarrow> nat option" where
  "parseV2Limit b =
     (let s = TrimSpace b
      in if s = [] \<or> s = ''max'' then None else case ParseUint64 s of None \<Rightarrow> None | Some v \<Rightarrow> saneLimit v)"

definition parseV1Limit :: "bytes \<Rightarrow> nat option" where
  "parseV1Limit b = (case ParseUint64 (TrimSpace b) of None \<Rightarrow> None | Some v \<Rightarrow> saneLimit v)"

definition detectCgroupLimit :: "(string \<Rightarrow> bytes result) \<Rightarrow> nat option" where
  "detectCgroupLimit read =
     (let v1 = (case read ''/sys/fs/cgroup/memory/memory.limit_in_bytes'' of Inl _ \<Rightarrow> None | Inr b \<Rightarrow> parseV1Limit b)
      in case read ''/sys/fs/cgroup/memory.max'' of
           Inl _ \<Rightarrow> v1
         | Inr b \<Rightarrow> (case parseV2Limit b of Some v \<Rightarrow> Some v | None \<Rightarrow> v1))"

text \<open>
  The limit handed to the runtime, if any.  Three quarters are taken in floating point; a limit below \<open>2 ^ 38\<close> and its three quarters
  have few enough bits for the product to be exact, and the conversion to an integer rounds down.
\<close>

definition MemLimit_Apply :: "(string \<Rightarrow> string) \<Rightarrow> (string \<Rightarrow> bytes result) \<Rightarrow> nat option" where
  "MemLimit_Apply env read =
     (if env ''GOMEMLIMIT'' \<noteq> [] then None
      else if env ''PLAID_DISABLE_AUTO_GOMEMLIMIT'' = ''1'' then None
      else case detectCgroupLimit read of
             None \<Rightarrow> None
           | Some limit \<Rightarrow> (let target = limit * 3 div 4 in if target = 0 then None else Some target))"

end
