(* ===== verification/CommandProps.thy ===== *)
theory CommandProps
  imports Commands
begin

text \<open>
  What the commands promise: \<^verbatim>\<open>collect\<close> as a gate over the reports of the unit actions, the unit letters of \<^verbatim>\<open>cache status\<close>, and the
  memory limit.
\<close>

subsection \<open>The gate\<close>

record unitReport =
  ur_path :: string
  ur_pkg :: string
  ur_mode :: string
  ur_files :: "string list"
  ur_compiled :: bool
  ur_diags :: "diagnostic list"

definition report_run :: "unitReport \<Rightarrow> collectRun" where
  "report_run u =
     \<lparr>cr_pkg = ur_pkg u, cr_mode = ur_mode u, cr_goFiles = sort (ur_files u), cr_compiles = ur_compiled u, cr_diags = map sarif_visible (ur_diags u)\<rparr>"

definition reported :: "collectHost \<Rightarrow> unitReport \<Rightarrow> bool" where
  "reported H u \<longleftrightarrow> unit_ok (ur_pkg u) (ur_mode u) (ur_files u) (ur_diags u)
     \<and> kh_read H (ur_path u) = Inr (renderSarif (ur_pkg u) (ur_mode u) (ur_diags u) (ur_files u) (ur_compiled u))"

definition nul_free :: "diagnostic \<Rightarrow> bool" where
  "nul_free d \<longleftrightarrow> CHR 0x00 \<notin> set (Filename (Pos d)) \<and> CHR 0x00 \<notin> set (Linter d)"

lemma read_reports:
  assumes "unmarshals (kh_decode H)" and "list_all (reported H) us"
  shows "read_runs (readSarifRun (kh_read H) (kh_decode H)) (map ur_path us) = Inr (map report_run us)"
  using assms(2)
proof (induction us)
  case (Cons u us)
  then have "readSarifRun (kh_read H) (kh_decode H) (ur_path u) = Inr (report_run u)"
    using unit_read_back [OF assms(1)] by (auto simp: reported_def report_run_def)
  then show ?case using Cons by simp
qed simp

lemma itoa_no_nul: "CHR 0x00 \<notin> set (itoa n)"
  using nat_digits_chars [of "CHR 0x00"] by (auto simp: itoa_def)

lemma dedup_key_linter: "nul_free d \<Longrightarrow> nul_free e \<Longrightarrow> dedup_key d = dedup_key e \<Longrightarrow> Linter d = Linter e"
proof -
  assume n: "nul_free d" "nul_free e" and k: "dedup_key d = dedup_key e"
  note sep = append_sep_inject [of "CHR 0x00"]
  have k: "Filename (Pos d) @ CHR 0x00 # itoa (Line (Pos d)) @ CHR 0x00 # itoa (Column (Pos d)) @ CHR 0x00 # Linter d @ CHR 0x00 # Message d
      = Filename (Pos e) @ CHR 0x00 # itoa (Line (Pos e)) @ CHR 0x00 # itoa (Column (Pos e)) @ CHR 0x00 # Linter e @ CHR 0x00 # Message e"
    using k by (simp add: dedup_key_def nul_def)
  from sep [OF _ _ k] n have k: "itoa (Line (Pos d)) @ CHR 0x00 # itoa (Column (Pos d)) @ CHR 0x00 # Linter d @ CHR 0x00 # Message d
      = itoa (Line (Pos e)) @ CHR 0x00 # itoa (Column (Pos e)) @ CHR 0x00 # Linter e @ CHR 0x00 # Message e" by (simp add: nul_free_def)
  from sep [OF itoa_no_nul itoa_no_nul k] have k: "itoa (Column (Pos d)) @ CHR 0x00 # Linter d @ CHR 0x00 # Message d
      = itoa (Column (Pos e)) @ CHR 0x00 # Linter e @ CHR 0x00 # Message e" by simp
  from sep [OF itoa_no_nul itoa_no_nul k] have k: "Linter d @ CHR 0x00 # Message d = Linter e @ CHR 0x00 # Message e" by simp
  from sep [OF _ _ k] n show ?thesis by (simp add: nul_free_def)
qed

lemma collected_linters:
  assumes "\<forall>d\<in>set (live_diags rs). nul_free d"
  shows "Linter ` set (first_of_key {} (live_diags rs)) = Linter ` set (live_diags rs)"
proof
  let ?ds = "first_of_key {} (live_diags rs)"
  have sub: "set ?ds \<subseteq> set (live_diags rs)" and keys: "dedup_key ` set ?ds = dedup_key ` set (live_diags rs)"
    using first_of_key_props [of "{}" "live_diags rs"] by auto
  show "Linter ` set ?ds \<subseteq> Linter ` set (live_diags rs)" using sub by auto
  show "Linter ` set (live_diags rs) \<subseteq> Linter ` set ?ds"
  proof
    fix l assume "l \<in> Linter ` set (live_diags rs)"
    then obtain d where d: "d \<in> set (live_diags rs)" "l = Linter d" by auto
    then obtain e where e: "e \<in> set ?ds" "dedup_key e = dedup_key d" using keys by (metis imageE imageI)
    then have "nul_free e" using sub assms by blast
    then have "Linter e = l" using dedup_key_linter e(2) assms d by blast
    then show "l \<in> Linter ` set ?ds" using e(1) by blast
  qed
qed

lemma write_all_ok: "(\<And>p. w p = None) \<Longrightarrow> write_all w ps = (ps, True)"
  by (induction w ps rule: write_all.induct) simp_all

lemma enforced_zero: "enforced ig ds = 0 \<longleftrightarrow> Linter ` set ds \<subseteq> set ig"
  by (auto simp: enforced_def filter_empty_conv)

lemma live_nul_free:
  assumes "\<forall>u\<in>set us. \<forall>d\<in>set (ur_diags u). nul_free d"
  shows "\<forall>d\<in>set (live_diags (map report_run us)). nul_free d"
  using assms by (fastforce simp: live_diags_def report_run_def nul_free_def sarif_visible_def)

text \<open>
  C14. The gate of a build: \<^verbatim>\<open>collect --fail-on-findings\<close> over the SARIF files the unit actions wrote succeeds exactly when every
  finding of the units is by an ignored linter or is an \<^verbatim>\<open>unused\<close> finding of a unit whose files a test variant covers; otherwise it exits
  with the code for findings.  Every report that was asked for is written in both cases, the marker file only on success.
\<close>
theorem collect_gate:
  assumes "unmarshals (kh_decode H)" and "list_all (reported H) us" and "us \<noteq> []"
    and "\<forall>u\<in>set us. \<forall>d\<in>set (ur_diags u). nul_free d"
    and "expandArgsFiles (kh_read H) args = Inr as" and "kh_parse H as = Some f" and "\<not> kf_Help f" and "kf_Paths f = map ur_path us"
    and "kf_FailOnFindings f" and "kf_Verdict f = []" and "\<And>p. kh_write H p = None"
  shows "let clean = (\<forall>d\<in>set (live_diags (map report_run us)). Linter d \<in> set (kf_IgnoreLinters f));
      ds = Sort (first_of_key {} (live_diags (map report_run us)))
    in oc_code (runCollect H args) = (if clean then exitSuccess else exitIssuesFound) \<and> oc_stdout (runCollect H args) = report_text ds
      \<and> oc_files (runCollect H args) = artifacts f ds (dropped_count (map report_run us)) @ (if clean \<and> kf_Out f \<noteq> [] then [(kf_Out f, [])] else [])"
proof -
  let ?rs = "map report_run us"
  let ?ds = "Sort (first_of_key {} (live_diags ?rs))"
  have c: "Collect_files (kh_read H) (kh_decode H) (kf_Paths f) = Inr (?ds, dropped_count ?rs)"
    by (simp add: Collect_files_def assms(8) read_reports [OF assms(1,2)] merge_runs_state)
  have "Linter ` set ?ds = Linter ` set (live_diags ?rs)"
    using collected_linters [OF live_nul_free [OF assms(4)]] by (simp add: Sort_key)
  then have e: "enforced (kf_IgnoreLinters f) ?ds = 0 \<longleftrightarrow> (\<forall>d\<in>set (live_diags ?rs). Linter d \<in> set (kf_IgnoreLinters f))"
    unfolding enforced_zero by (simp only: image_subset_iff)
  have p: "kf_Paths f \<noteq> []" using assms(3,8) by simp
  have run: "runCollect H args = (case finish_collect H f ?ds (artifacts f ?ds (dropped_count ?rs)) of (files, code) \<Rightarrow>
      \<lparr>oc_stdout = report_text ?ds, oc_files = files, oc_code = code\<rparr>)"
    by (simp add: runCollect_def assms(5,6,7) p c write_all_ok [of "kh_write H", OF assms(11)])
  show ?thesis
  proof (cases "\<forall>d\<in>set (live_diags ?rs). Linter d \<in> set (kf_IgnoreLinters f)")
    case True
    then have "enforced (kf_IgnoreLinters f) ?ds = 0" using e by blast
    then show ?thesis unfolding run Let_def using True by (simp add: finish_collect_def assms(11))
  next
    case False
    then have "0 < enforced (kf_IgnoreLinters f) ?ds" using e by blast
    then show ?thesis unfolding run Let_def using False by (simp only: finish_collect_def assms(9,10)) simp
  qed
qed

definition demo_collect :: collectHost where
  "demo_collect =
     \<lparr>kh_read = (\<lambda>p. Inr (renderSarif ''p'' ''full'' [mk_diag ''vet'' ''m'' ''b.go'' 3 1] [''b.go''] True)), kh_decode = demo_unmarshal,
      kh_parse = (\<lambda>as. Some \<lparr>kf_Help = False, kf_FailOnFindings = True, kf_IgnoreLinters = [], kf_Out = ''ok'', kf_OutSarif = [], kf_OutText = ''t'', kf_Verdict = [],
         kf_Paths = as\<rparr>),
      kh_write = (\<lambda>p. None)\<rparr>"

definition demo_report :: unitReport where
  "demo_report = \<lparr>ur_path = ''x'', ur_pkg = ''p'', ur_mode = ''full'', ur_files = [''b.go''], ur_compiled = True, ur_diags = [mk_diag ''vet'' ''m'' ''b.go'' 3 1]\<rparr>"

theorem collect_gate_witness: "oc_code (runCollect demo_collect [''x'']) = exitIssuesFound"
proof -
  have u: "unmarshals (kh_decode demo_collect)" by (simp add: unmarshals_def demo_unmarshal_def demo_collect_def)
  have r: "list_all (reported demo_collect) [demo_report]"
    by (simp add: reported_def demo_report_def demo_collect_def unit_ok_def sarif_ok_def utf8_diagnostic_def mk_diag_def utf8_position_def int64_def)
  have l: "live_diags (map report_run [demo_report]) = [sarif_visible (mk_diag ''vet'' ''m'' ''b.go'' 3 1)]"
    by (simp add: live_diags_def dropped_def report_run_def demo_report_def sarif_visible_def mk_diag_def)
  have n: "\<forall>u\<in>set [demo_report]. \<forall>d\<in>set (ur_diags u). nul_free d" by (simp add: demo_report_def nul_free_def mk_diag_def)
  have x: "expandArgsFiles (kh_read demo_collect) [''x''] = Inr [''x'']" by (simp add: HasPrefix_def)
  let ?f = "\<lparr>kf_Help = False, kf_FailOnFindings = True, kf_IgnoreLinters = [], kf_Out = ''ok'', kf_OutSarif = [], kf_OutText = ''t'', kf_Verdict = [], kf_Paths = [''x'']\<rparr>"
  have f: "kh_parse demo_collect [''x''] = Some ?f" "\<And>p. kh_write demo_collect p = None" by (simp_all add: demo_collect_def)
  show ?thesis
    using collect_gate [OF u r _ n x f(1) _ _ _ _ f(2)] unfolding Let_def l by (simp add: demo_report_def)
qed


subsection \<open>Sizes\<close>

lemma unit_loop_bounds:
  assumes "0 < d" and "d * v \<le> n" and "n < d * (v + 1)" and "1 \<le> v" and "d = 1024 ^ Suc e"
  shows "\<exists>d' e'. unit_loop v d e = (d', e') \<and> d' = 1024 ^ Suc e' \<and> d' \<le> n \<and> n < 1024 * d'"
  using assms
proof (induction v d e rule: unit_loop.induct)
  case (1 v d e)
  show ?case
  proof (cases "1024 \<le> v")
    case True
    have "d * (1024 * (v div 1024)) \<le> d * v" using 1(2) by (intro mult_left_mono) auto
    then have lo: "d * 1024 * (v div 1024) \<le> n" using 1(3) by (simp only: mult.assoc)
    have "v + 1 \<le> 1024 * (v div 1024 + 1)" by simp
    then have "d * (v + 1) \<le> d * (1024 * (v div 1024 + 1))" using 1(2) by (intro mult_left_mono) auto
    then have hi: "n < d * 1024 * (v div 1024 + 1)" using 1(4) by (simp only: mult.assoc)
    have "\<exists>d' e'. unit_loop (v div 1024) (d * 1024) (Suc e) = (d', e') \<and> d' = 1024 ^ Suc e' \<and> d' \<le> n \<and> n < 1024 * d'"
      by (rule 1(1) [OF True _ lo hi]) (use True 1 in simp_all)
    then show ?thesis using True by (subst unit_loop.simps) simp
  next
    case False
    have "d * 1 \<le> d * v" using 1(2,5) by (intro mult_left_mono) auto
    moreover have "d * (v + 1) \<le> d * 1024" using 1(2) False by (intro mult_left_mono) auto
    ultimately have "d \<le> n \<and> n < 1024 * d" using 1(3,4) by linarith
    then show ?thesis using 1(6) False by (subst unit_loop.simps) (simp only: if_False, blast)
  qed
qed

text \<open>
  A size that fits 64 bits is always shown: the index into the unit letters stays in range, and the unit is the largest one not above the
  size, so that the shown number is at least 1 and below 1024.
\<close>
theorem humanizeBytes_total:
  assumes "0 \<le> n" and "n < 2 ^ 63"
  shows "if n < 1024 then humanizeBytes fmt1 n = Some (itoa n @ '' B'')
    else \<exists>e<6. humanizeBytes fmt1 n = Some (fmt1 n (1024 ^ Suc e) @ [''KMGTPE'' ! e]) \<and> 1024 ^ Suc e \<le> n \<and> n < 1024 * 1024 ^ Suc e"
proof (cases "n < 1024")
  case False
  obtain d e where u: "unit_loop (n div 1024) 1024 0 = (d, e)" "d = 1024 ^ Suc e" "d \<le> n" "n < 1024 * d"
  proof -
    have "\<exists>d' e'. unit_loop (n div 1024) 1024 0 = (d', e') \<and> d' = 1024 ^ Suc e' \<and> d' \<le> n \<and> n < 1024 * d'"
      by (rule unit_loop_bounds) (use False in auto)
    then show ?thesis using that by blast
  qed
  have "e < 6"
  proof (rule ccontr)
    assume "\<not> e < 6"
    then have "(1024::int) ^ 7 \<le> 1024 ^ Suc e" by (intro power_increasing) auto
    then show False using u(2,3) assms(2) by simp
  qed
  then have "humanizeBytes fmt1 n = Some (fmt1 n (1024 ^ Suc e) @ [''KMGTPE'' ! e])"
    using False u(1,2) by (simp add: humanizeBytes_def del: power_Suc)
  then show ?thesis using False u(2-4) \<open>e < 6\<close> by auto
qed (simp add: humanizeBytes_def)

theorem humanizeBytes_total_witness: "\<exists>e<6. humanizeBytes (\<lambda>n d. itoa (n div d)) 5000000 = Some (itoa (5000000 div 1024 ^ Suc e) @ [''KMGTPE'' ! e])"
  using humanizeBytes_total [of 5000000 "\<lambda>n d. itoa (n div d)"] by (auto simp del: power_Suc)


subsection \<open>The memory limit\<close>

text \<open>
  The runtime is given a limit only when none is set and the detection is not disabled; it is then positive, at most three
  quarters of the limit of the control group, less than a byte below them, and below 192 GiB.
\<close>
theorem memory_limit_bounds:
  assumes "MemLimit_Apply env read = Some target"
  shows "env ''GOMEMLIMIT'' = [] \<and> env ''PLAID_DISABLE_AUTO_GOMEMLIMIT'' \<noteq> ''1'' \<and> 0 < target \<and> target < 192 * 2 ^ 30
    \<and> (\<exists>limit. detectCgroupLimit read = Some limit \<and> 4 * target \<le> 3 * limit \<and> 3 * limit < 4 * target + 4)"
proof -
  obtain limit where l: "detectCgroupLimit read = Some limit" "target = limit * 3 div 4" "0 < target"
    using assms by (auto simp: MemLimit_Apply_def Let_def split: if_splits option.splits)
  have "limit < sanityCeiling"
    using l(1) by (auto simp: detectCgroupLimit_def parseV1Limit_def parseV2Limit_def saneLimit_def Let_def split: sum.splits option.splits if_splits)
  then show ?thesis using l assms by (auto simp: MemLimit_Apply_def sanityCeiling_def split: if_splits)
qed

theorem memory_limit_bounds_witness: "\<exists>t. MemLimit_Apply (\<lambda>v. []) (\<lambda>p. Inr ''4096'') = Some t \<and> t < 192 * 2 ^ 30"
proof -
  have "ParseUint64 (TrimSpace ''4096'') = Some 4096" by (simp add: ParseUint64_def digit_val_def trim_eval)
  then have "MemLimit_Apply (\<lambda>v. []) (\<lambda>p. Inr ''4096'') = Some 3072"
    by (simp add: MemLimit_Apply_def detectCgroupLimit_def parseV2Limit_def saneLimit_def sanityCeiling_def trim_eval Let_def)
  then show ?thesis using memory_limit_bounds by blast
qed

end
