(* ===== verification/WorkspaceState.thy ===== *)
theory WorkspaceState
  imports GoLib "HOL-Library.Multiset" "HOL-Library.Word"
begin

text \<open>
  The workspace of a run (\<^verbatim>\<open>internal/workspace/workspace.go\<close>) with the reference counts of its snapshots
  (\<^verbatim>\<open>Acquire\<close>, \<^verbatim>\<open>decref\<close> in \<^verbatim>\<open>internal/gopls/cache/snapshot.go\<close>, \<^verbatim>\<open>ReleaseInitialRef\<close> in \<^verbatim>\<open>lifecycle.go\<close>).

  A snapshot is its sequence number; one with count 0 is destroyed.  Calls run concurrently: each critical section under the mutex is
  one step, and the release of the reference to the previous snapshot, which \<^verbatim>\<open>Invalidate\<close> and \<^verbatim>\<open>Close\<close> do after they have unlocked, is a
  later step.  An operation that fails the assertion on the count panics, which is \<open>None\<close>.  The contents of a snapshot are not modelled.
\<close>

record overlayEntry =
  oe_content :: string
  oe_version :: "32 word"

record wsState =
  wk_refs :: "nat \<Rightarrow> nat"
  wk_next :: nat
  wk_current :: "nat option"
  wk_closed :: bool
  wk_overlays :: "string \<rightharpoonup> overlayEntry"
  wk_handles :: "(nat \<times> bool) list"
  wk_pending :: "nat multiset"

definition NewWorkspace :: wsState where
  "NewWorkspace = \<lparr>wk_refs = (\<lambda>_. 0)(0 := 1), wk_next = 1, wk_current = Some 0, wk_closed = False, wk_overlays = Map.empty, wk_handles = [], wk_pending = {#}\<rparr>"


subsection \<open>Counting references\<close>

definition Acquire :: "nat \<Rightarrow> wsState \<Rightarrow> wsState option" where
  "Acquire s st = (if wk_refs st s = 0 then None else Some (st\<lparr>wk_refs := (wk_refs st)(s := wk_refs st s + 1)\<rparr>))"

definition decref :: "nat \<Rightarrow> wsState \<Rightarrow> wsState option" where
  "decref s st = (if wk_refs st s = 0 then None else Some (st\<lparr>wk_refs := (wk_refs st)(s := wk_refs st s - 1)\<rparr>))"


subsection \<open>Operations\<close>

text \<open>Setting the content of a path, or clearing it; \<open>ap\<close> makes a path absolute.\<close>

definition SetContent :: "(string \<Rightarrow> string) \<Rightarrow> string \<Rightarrow> string option \<Rightarrow> wsState \<Rightarrow> wsState" where
  "SetContent ap path content st =
     (let path = (if IsAbs path then path else ap path)
      in if wk_closed st then st
         else case content of
                None \<Rightarrow> st\<lparr>wk_overlays := (wk_overlays st)(path := None)\<rparr>
              | Some c \<Rightarrow>
                  (let v = (case wk_overlays st path of Some prev \<Rightarrow> oe_version prev + 1 | None \<Rightarrow> 1)
                   in st\<lparr>wk_overlays := (wk_overlays st)(path \<mapsto> \<lparr>oe_content = c, oe_version = v\<rparr>)\<rparr>))"

datatype fileAction = Act_Change | Act_Delete | Act_Create

record modification =
  md_path :: string
  md_action :: fileAction
  md_onDisk :: bool

text \<open>How a changed path reads: the call fails, or gives a handle whose content reads or not.\<close>

datatype viewRead = Read_failed | Handle bool

definition actionFor :: "bool \<Rightarrow> bool \<Rightarrow> fileAction" where
  "actionFor contentOk onDisk = (if \<not> contentOk then Act_Delete else if \<not> onDisk then Act_Create else Act_Change)"

definition modification_of :: "(string \<Rightarrow> viewRead) \<Rightarrow> (string \<Rightarrow> bool) \<Rightarrow> (string \<rightharpoonup> overlayEntry) \<Rightarrow> string \<Rightarrow> modification list" where
  "modification_of rd stat ov p =
     (case rd p of
        Read_failed \<Rightarrow> if ov p \<noteq> None then [] else [\<lparr>md_path = p, md_action = Act_Delete, md_onDisk = True\<rparr>]
      | Handle ok \<Rightarrow> [\<lparr>md_path = p, md_action = actionFor ok (stat p), md_onDisk = (ov p = None)\<rparr>])"

definition modifications :: "(string \<Rightarrow> string) \<Rightarrow> (string \<Rightarrow> viewRead) \<Rightarrow> (string \<Rightarrow> bool) \<Rightarrow> (string \<rightharpoonup> overlayEntry) \<Rightarrow> string list \<Rightarrow> modification list" where
  "modifications ap rd stat ov paths = concat (map (\<lambda>p. modification_of rd stat ov (if IsAbs p then p else ap p)) paths)"

text \<open>
  The critical section of \<^verbatim>\<open>Invalidate\<close>: the new snapshot is born with one reference, the one to the previous snapshot is released later.
  The result is the number of the new snapshot and the modifications it was cloned with, \<open>None\<close> when closed.
\<close>

definition Invalidate ::
    "(string \<Rightarrow> string) \<Rightarrow> (string \<Rightarrow> viewRead) \<Rightarrow> (string \<Rightarrow> bool) \<Rightarrow> string list \<Rightarrow> wsState \<Rightarrow> wsState \<times> (nat \<times> modification list) option" where
  "Invalidate ap rd stat paths st =
     (case wk_current st of
        Some prev \<Rightarrow>
          if wk_closed st then (st, None)
          else (st\<lparr>wk_refs := (wk_refs st)(wk_next st := 1), wk_next := wk_next st + 1, wk_current := Some (wk_next st),
                   wk_pending := add_mset prev (wk_pending st)\<rparr>,
                Some (wk_next st, modifications ap rd stat (wk_overlays st) paths))
      | None \<Rightarrow> (st, None))"

text \<open>The handle of a snapshot is its place in the list of handles.\<close>

definition Snapshot_handle :: "wsState \<Rightarrow> (wsState \<times> nat option) option" where
  "Snapshot_handle st =
     (case wk_current st of
        Some s \<Rightarrow>
          if wk_closed st then Some (st, None)
          else map_option (\<lambda>st'. (st'\<lparr>wk_handles := wk_handles st' @ [(s, False)]\<rparr>, Some (length (wk_handles st')))) (Acquire s st)
      | None \<Rightarrow> Some (st, None))"

definition Close :: "wsState \<Rightarrow> wsState" where
  "Close st =
     (if wk_closed st then st
      else st\<lparr>wk_closed := True, wk_current := None,
              wk_pending := (case wk_current st of Some s \<Rightarrow> add_mset s (wk_pending st) | None \<Rightarrow> wk_pending st)\<rparr>)"

definition ReleaseInitialRef :: "nat \<Rightarrow> wsState \<Rightarrow> wsState option" where
  "ReleaseInitialRef s st = decref s (st\<lparr>wk_pending := wk_pending st - {#s#}\<rparr>)"

text \<open>\<^verbatim>\<open>Release\<close> of a handle; the boolean tells whether it returns \<^verbatim>\<open>ErrReleased\<close>.\<close>

definition Release :: "nat \<Rightarrow> wsState \<Rightarrow> (wsState \<times> bool) option" where
  "Release h st =
     (case wk_handles st ! h of
        (s, released) \<Rightarrow>
          if released then Some (st, True)
          else map_option (\<lambda>st'. (st', False)) (decref s (st\<lparr>wk_handles := (wk_handles st)[h := (s, True)]\<rparr>)))"


subsection \<open>Runs\<close>

inductive ws_run :: "wsState option \<Rightarrow> bool" where
  new: "ws_run (Some NewWorkspace)"
| set: "ws_run (Some st) \<Longrightarrow> ws_run (Some (SetContent ap p c st))"
| invalidate: "ws_run (Some st) \<Longrightarrow> ws_run (Some (fst (Invalidate ap rd stat paths st)))"
| snapshot: "ws_run (Some st) \<Longrightarrow> ws_run (map_option fst (Snapshot_handle st))"
| close: "ws_run (Some st) \<Longrightarrow> ws_run (Some (Close st))"
| drop: "ws_run (Some st) \<Longrightarrow> s \<in># wk_pending st \<Longrightarrow> ws_run (ReleaseInitialRef s st)"
| release: "ws_run (Some st) \<Longrightarrow> h < length (wk_handles st) \<Longrightarrow> ws_run (map_option fst (Release h st))"

definition handle_refs :: "wsState \<Rightarrow> nat multiset" where
  "handle_refs st = mset (map fst (filter (\<lambda>h. \<not> snd h) (wk_handles st)))"

definition owners :: "wsState \<Rightarrow> nat multiset" where
  "owners st = handle_refs st + wk_pending st + (case wk_current st of Some s \<Rightarrow> {#s#} | None \<Rightarrow> {#})"

definition ws_inv :: "wsState \<Rightarrow> bool" where
  "ws_inv st \<longleftrightarrow> (\<forall>s. wk_refs st s = count (owners st) s) \<and> (\<forall>s\<in>#owners st. s < wk_next st) \<and> (wk_closed st \<longleftrightarrow> wk_current st = None)"

lemma inv_refs_zero: "ws_inv st \<Longrightarrow> wk_next st \<le> s \<Longrightarrow> wk_refs st s = 0"
  by (metis count_inI leD ws_inv_def)

lemma inv_owned: "ws_inv st \<Longrightarrow> s \<in># owners st \<Longrightarrow> wk_refs st s \<noteq> 0"
  by (simp add: ws_inv_def)

lemma handle_refs_append: "handle_refs (st\<lparr>wk_handles := wk_handles st @ [(s, False)]\<rparr>) = add_mset s (handle_refs st)"
  by (simp add: handle_refs_def)

lemma filter_released:
  assumes "h < length hs" and "hs ! h = (s, False)"
  shows "mset (map fst (filter (\<lambda>h. \<not> snd h) hs)) = add_mset s (mset (map fst (filter (\<lambda>h. \<not> snd h) (hs[h := (s, True)]))))"
proof -
  have "hs = take h hs @ hs ! h # drop (Suc h) hs" using assms(1) by (simp add: id_take_nth_drop)
  then obtain a b where hs: "hs = a @ (s, False) # b" "length a = h" using assms by (metis length_take min.absorb4)
  then show ?thesis by (simp add: list_update_append)
qed

lemma inv_new: "ws_inv NewWorkspace"
  by (simp add: ws_inv_def NewWorkspace_def owners_def handle_refs_def)

lemma inv_set: "ws_inv st \<Longrightarrow> ws_inv (SetContent ap p c st)"
  by (simp add: ws_inv_def SetContent_def owners_def handle_refs_def Let_def split: option.splits)

lemma inv_invalidate: "ws_inv st \<Longrightarrow> ws_inv (fst (Invalidate ap rd stat paths st))"
proof (cases "wk_current st")
  case (Some s)
  assume i: "ws_inv st"
  have s: "s < wk_next st" using i Some by (auto simp: ws_inv_def owners_def)
  have "count (owners st) (wk_next st) = 0" using inv_refs_zero [OF i order_refl] i by (simp add: ws_inv_def)
  moreover have "\<not> wk_closed st" using i Some by (simp add: ws_inv_def)
  ultimately show ?thesis using i Some s
    by (auto simp: ws_inv_def Invalidate_def owners_def handle_refs_def less_Suc_eq)
qed (simp add: Invalidate_def)

lemma inv_snapshot:
  assumes "ws_inv st"
  shows "\<exists>r. Snapshot_handle st = Some r \<and> ws_inv (fst r)"
proof (cases "wk_current st")
  case (Some s)
  have "s \<in># owners st" using Some by (simp add: owners_def)
  then have "wk_refs st s \<noteq> 0" using inv_owned [OF assms] by blast
  moreover have "\<not> wk_closed st" using assms Some by (simp add: ws_inv_def)
  moreover have "s < wk_next st" using assms \<open>s \<in># owners st\<close> by (simp add: ws_inv_def)
  ultimately show ?thesis using assms Some by (auto simp: Snapshot_handle_def Acquire_def ws_inv_def owners_def handle_refs_def)
qed (use assms in \<open>simp add: Snapshot_handle_def\<close>)

lemma inv_close: "ws_inv st \<Longrightarrow> ws_inv (Close st)"
  by (auto simp: ws_inv_def Close_def owners_def handle_refs_def split: option.splits)

lemma inv_decref:
  assumes "ws_inv st" and "owners st = add_mset s (owners st1)"
    and "wk_refs st1 = wk_refs st" "wk_next st1 = wk_next st" "wk_current st1 = wk_current st" "wk_closed st1 = wk_closed st"
  shows "\<exists>st'. decref s st1 = Some st' \<and> ws_inv st'"
proof -
  let ?st = "st1\<lparr>wk_refs := (wk_refs st1)(s := wk_refs st1 s - 1)\<rparr>"
  have "wk_refs st1 s \<noteq> 0" using inv_owned [OF assms(1), of s] assms(2,3) by simp
  moreover have "owners ?st = owners st1" by (simp add: owners_def handle_refs_def)
  moreover have "ws_inv ?st"
    unfolding ws_inv_def \<open>owners ?st = owners st1\<close> using assms(1) by (simp add: ws_inv_def assms(2-6))
  ultimately show ?thesis by (simp add: decref_def)
qed

lemma inv_drop:
  assumes "ws_inv st" and "s \<in># wk_pending st"
  shows "\<exists>st'. ReleaseInitialRef s st = Some st' \<and> ws_inv st'"
  unfolding ReleaseInitialRef_def
proof (rule inv_decref [OF assms(1)])
  obtain P where "wk_pending st = add_mset s P" using assms(2) by (metis insert_DiffM)
  then show "owners st = add_mset s (owners (st\<lparr>wk_pending := wk_pending st - {#s#}\<rparr>))" by (simp add: owners_def handle_refs_def)
qed simp_all

lemma inv_release:
  assumes "ws_inv st" and "h < length (wk_handles st)"
  shows "\<exists>r. Release h st = Some r \<and> ws_inv (fst r)"
proof (cases "wk_handles st ! h")
  case (Pair s released)
  show ?thesis
  proof (cases released)
    case True
    then show ?thesis using assms(1) Pair by (simp add: Release_def)
  next
    case False
    let ?st = "st\<lparr>wk_handles := (wk_handles st)[h := (s, True)]\<rparr>"
    have "handle_refs st = add_mset s (handle_refs ?st)"
      unfolding handle_refs_def using filter_released [OF assms(2), of s] Pair False by simp
    then have "owners st = add_mset s (owners ?st)" by (simp add: owners_def)
    then have "\<exists>st'. decref s ?st = Some st' \<and> ws_inv st'" by (rule inv_decref [OF assms(1)]) simp_all
    then show ?thesis using Pair False by (auto simp: Release_def)
  qed
qed

lemma ws_run_inv: "ws_run so \<Longrightarrow> \<exists>st. so = Some st \<and> ws_inv st"
proof (induction rule: ws_run.induct)
  case (snapshot st)
  then show ?case using inv_snapshot [of st] by auto
next
  case (drop st s)
  then show ?case using inv_drop [of st s] by auto
next
  case (release st h)
  then show ?case using inv_release [of st h] by auto
qed (auto intro: inv_new inv_set inv_invalidate inv_close)

text \<open>
  C25. However calls of \<^verbatim>\<open>Snapshot\<close>, \<^verbatim>\<open>Release\<close>, \<^verbatim>\<open>Invalidate\<close>, \<^verbatim>\<open>SetContent\<close> and \<^verbatim>\<open>Close\<close> interleave, the assertion on reference counts never
  fails; the snapshot of a handle that was not released is not destroyed, nor is the current one; and a snapshot is kept
  only by an open handle, by being the current one or by a release under way: when the workspace is closed and those are done, every
  snapshot is destroyed.
\<close>
theorem snapshots_counted:
  assumes "ws_run so"
  shows "\<exists>st. so = Some st \<and> (\<forall>h\<in>set (wk_handles st). \<not> snd h \<longrightarrow> 0 < wk_refs st (fst h)) \<and> (\<forall>s. wk_current st = Some s \<longrightarrow> 0 < wk_refs st s)
    \<and> (wk_closed st \<and> wk_pending st = {#} \<and> (\<forall>h\<in>set (wk_handles st). snd h) \<longrightarrow> (\<forall>s. wk_refs st s = 0))"
proof -
  obtain st where st: "so = Some st" "ws_inv st" using ws_run_inv [OF assms] by blast
  have "fst h \<in># owners st" if "h \<in> set (wk_handles st)" "\<not> snd h" for h using that by (auto simp: owners_def handle_refs_def)
  moreover have "s \<in># owners st" if "wk_current st = Some s" for s using that by (simp add: owners_def)
  moreover have "owners st = {#}" if "wk_closed st" "wk_pending st = {#}" "\<forall>h\<in>set (wk_handles st). snd h"
  proof -
    have "filter (\<lambda>h. \<not> snd h) (wk_handles st) = []" using that(3) by (simp add: filter_empty_conv)
    moreover have "wk_current st = None" using that(1) st(2) by (simp add: ws_inv_def)
    ultimately show ?thesis using that(2) by (simp only: owners_def handle_refs_def) simp
  qed
  ultimately show ?thesis using st inv_owned [OF st(2)] by (auto simp: ws_inv_def)
qed

theorem snapshots_counted_witness: "0 < wk_refs (fst (the (Snapshot_handle NewWorkspace))) 0"
proof -
  have s: "Snapshot_handle NewWorkspace = Some (NewWorkspace\<lparr>wk_refs := (\<lambda>_. 0)(0 := 2), wk_handles := [(0, False)]\<rparr>, Some 0)"
    by (auto simp: Snapshot_handle_def Acquire_def NewWorkspace_def)
  have "ws_run (map_option fst (Snapshot_handle NewWorkspace))" by (intro ws_run.intros)
  from snapshots_counted [OF this] show ?thesis by (auto simp: s)
qed

text \<open>A released handle stays released: releasing it again returns the error and changes nothing.\<close>

lemma release_twice:
  assumes "Release h st = Some (st', False)" and "h < length (wk_handles st)"
  shows "Release h st' = Some (st', True)"
  using assms by (auto simp: Release_def decref_def split: prod.splits if_splits)

text \<open>
  Invalidation leaves the handles that are out and the overlays alone, makes the next number current, and marks a path as on disk exactly when it has no
  overlay.
\<close>

lemma Invalidate_effect:
  assumes "ws_inv st" and "\<not> wk_closed st"
  shows "\<exists>ms. snd (Invalidate ap rd stat paths st) = Some (wk_next st, ms) \<and> wk_current (fst (Invalidate ap rd stat paths st)) = Some (wk_next st)
    \<and> wk_handles (fst (Invalidate ap rd stat paths st)) = wk_handles st \<and> wk_overlays (fst (Invalidate ap rd stat paths st)) = wk_overlays st
    \<and> (\<forall>m\<in>set ms. md_onDisk m \<longleftrightarrow> wk_overlays st (md_path m) = None)"
  using assms
  by (auto simp: Invalidate_def ws_inv_def modifications_def modification_of_def split: option.splits viewRead.splits if_splits)

end
