(* ===== verification/Spec2Isabelle.thy ===== *)
theory Spec2Isabelle
  imports Prelude Bytes GoLib Diagnostics CanonicalPath ExclConfig Nolint Exclusion FilterProps Streaming FilterDigest
    Envelope FileStore AtomicWrite Backend Gocacheprog GocacheClient CacheDir L2Cache JsonText Json JsonProps L1Cache
    L0Cache CacheRun Gate Estimator IRManager
    UnitConfig UnitStore UnitKey AnalyzerGraph Collect
    EditDistance Registry UnitTypecheck UnitRun UnitSession
    GraphWalk EngineKeys Engine EngineProps EngineHistory EngineLaws EngineRun UnitWorker ConfigMerge RunCommand
    JsonMarshal Printers PrinterProps SarifCollect ConfigLoad ConfigProps Subproc SubprocProps PluginReplay Commands CommandProps
    WorkspaceState
begin

text \<open>
  plaid-lint is a Go linter driver: it loads a configuration, selects analyzers, analyses packages in
  process, per build unit, or through child processes, filters what they report, caches every stage on disk, and prints reports.
  The order below is the order of the code, from the data every part shares to the commands.

  \<^bold>\<open>Parts and how they interact.\<close>  The command \<^verbatim>\<open>run\<close> (\<^verbatim>\<open>src/cmd/plaid-lint/run.go\<close>) loads the configuration (\<^verbatim>\<open>src/internal/config\<close>), lays the command
  line over it, builds the registry of linters (\<^verbatim>\<open>src/internal/registry\<close>), builds the exclusion filter (\<^verbatim>\<open>src/internal/exclusion\<close>), runs the engine
  (\<^verbatim>\<open>src/internal/engine\<close>), which asks the diagnostic cache (\<^verbatim>\<open>src/internal/l0\<close>) before it analyses a package and runs subprocess linters
  (\<^verbatim>\<open>src/internal/subproc\<close>) beside the in-process ones, and hands the result to the printers (\<^verbatim>\<open>src/internal/output\<close>).  The caches of types and analyzer results
  (\<^verbatim>\<open>src/internal/cache\<close>) share one directory and an entry format; the scheduler (\<^verbatim>\<open>src/internal/scheduler\<close>, \<^verbatim>\<open>src/internal/l3\<close>) admits analysis actions under a memory budget.
  The command \<^verbatim>\<open>unit\<close> (\<^verbatim>\<open>src/cmd/plaid-lint/unit.go\<close>, \<^verbatim>\<open>unit_worker.go\<close>) analyses one package from declared inputs (\<^verbatim>\<open>src/internal/unit\<close>), under a cache of its own
  (\<^verbatim>\<open>src/internal/unitcache\<close>), and writes a SARIF file and a facts file; the command \<^verbatim>\<open>collect\<close> merges many such SARIF files.

  \<^bold>\<open>Conventions.\<close>  A Go string or byte slice is a list of characters, a character being a byte.  Structs are records, enumerations datatypes, 64-bit
  counters words.  An operation that can fail returns a sum whose left side is the error, or an option where the code panics or signals
  absence.  Files are explicit maps and every system call takes its failure from an argument; code outside the repository (regular
  expressions, the Go parser and type checker, the struct decoder of JSON, gob, the helper process, children) is an argument of the definitions
  that use it, and what the code relies on is a named hypothesis.  Iteration over a Go map is a list in an arbitrary order, or an
  order given as an argument.  Concurrency is an inductive step relation with one step per critical section.

  \<^bold>\<open>Foundations.\<close>

  \<^item> \<open>Prelude\<close> byte strings, errors, collections of simplification rules, facts on lists, sorting and stable insertion.
  \<^item> \<open>Bytes\<close> little-endian words, hexadecimal, length-prefixed frames and SHA-256; the locales \<open>codec\<close>, \<open>exact_codec\<close> (a reader inverts a writer on any
    continuation, and accepts nothing else) and \<open>keyed_digest\<close> (an injective encoding below a hash: equal digests mean equal inputs or a collision at hand).
  \<^item> \<open>GoLib\<close> the functions of \<^verbatim>\<open>strings\<close>, \<^verbatim>\<open>path/filepath\<close>, \<^verbatim>\<open>strconv\<close> and \<^verbatim>\<open>fmt\<close> the code calls.

  \<^bold>\<open>Diagnostics and printers\<close> (\<^verbatim>\<open>src/internal/output\<close>, \<^verbatim>\<open>src/internal/canonicalpath\<close>).

  \<^item> \<open>Diagnostics\<close> records, rendering, the severity sanitizer, the stable sort: sorted, a permutation, independent of the input order up to the key.
  \<^item> \<open>CanonicalPath\<close> file names made portable for the caches and resolved when printing: resolving undoes canonicalising.
  \<^item> \<open>JsonMarshal\<close>, \<open>Printers\<close>, \<open>PrinterProps\<close> the encoder and the nine formats: groups lose and reorder nothing, a TeamCity attribute cannot break out of its message, a
    JSON report determines its diagnostics.

  \<^bold>\<open>Exclusion filter\<close> (\<^verbatim>\<open>src/internal/exclusion\<close>, the rules of \<^verbatim>\<open>src/internal/config\<close>).

  \<^item> \<open>ExclConfig\<close>, \<open>Nolint\<close>, \<open>Exclusion\<close> rules, presets and their validation, directives with their ranges, construction of the filter and every stage of its decision.
  \<^item> \<open>FilterProps\<close> caches of parsed files never change an answer; batch filtering keeps what the cache-free decision keeps; the package skip is sound.  The
    locale \<open>stream_filter\<close>, interpreted as \<open>flt\<close>, carries both this and \<open>Streaming\<close>, where packages arrive one by one in any order.
  \<^item> \<open>FilterDigest\<close> the configuration digest, byte for byte: equal digests filter equally.

  \<^bold>\<open>Disk caches\<close> (\<^verbatim>\<open>src/internal/cache\<close>, \<^verbatim>\<open>src/internal/l0\<close>).

  \<^item> \<open>Envelope\<close>, \<open>FileStore\<close>, \<open>AtomicWrite\<close> the entry format with its exact reader (\<open>sect\<close>), action identifiers (\<open>actionid\<close>), atomic publication under crashing writers,
    readers and the collector.
  \<^item> \<open>Backend\<close>, \<open>Gocacheprog\<close>, \<open>GocacheClient\<close> the storage interface as the locale \<open>backend\<close>, provided by the local directory (\<open>localb\<close>) and by any helper process that keeps the
    protocol (locale \<open>cacheprog_helper\<close>, a sublocale of \<open>backend\<close>, shown consistent by \<open>refh\<close>); the multiplexing client never mixes responses.
  \<^item> \<open>CacheDir\<close> root, version stamp, purge and collector.
  \<^item> \<open>L2Cache\<close>, \<open>L1Cache\<close>, \<open>L0Cache\<close> the three tiers with their keys and codecs; \<open>entry_tier\<close> extends \<open>backend\<close> and is interpreted as \<open>l2tier\<close>; digests of
    rows by \<open>row_digest\<close> (\<open>prow\<close>, \<open>arow\<close>) and the keys by \<open>l0key\<close>, \<open>salt\<close>, \<open>derived\<close>, \<open>cfgdigest\<close>.
  \<^item> \<open>JsonText\<close>, \<open>Json\<close>, \<open>JsonProps\<close> the canonicaliser over a decoder model: idempotent, and equal exactly on equal values.
  \<^item> \<open>CacheRun\<close> any history of openings, purges, collections, reads and writes by any number of processes: a hit returns what computing would.

  \<^bold>\<open>Scheduler\<close> (\<^verbatim>\<open>src/internal/scheduler\<close>, \<^verbatim>\<open>src/internal/l3\<close>).

  \<^item> \<open>Gate\<close> the budget gate: bounds under every interleaving, no deadlock, finite schedules.
  \<^item> \<open>Estimator\<close>, \<open>IRManager\<close> the sliding windows refine the history of observations, the pin counts refine the set of live pins.

  \<^bold>\<open>Unit actions\<close> (\<^verbatim>\<open>src/internal/unit\<close>, \<^verbatim>\<open>src/internal/unitcache\<close>, \<^verbatim>\<open>src/cmd/plaid-lint/unit*.go\<close>).

  \<^item> \<open>UnitConfig\<close>, \<open>UnitTypecheck\<close>, \<open>AnalyzerGraph\<close>, \<open>UnitRun\<close> the declared inputs, the loading of the package, the memoised graph of analyzers against its memo-free
    reference, and the action with its two outputs.
  \<^item> \<open>UnitKey\<close>, \<open>UnitStore\<close>, \<open>UnitSession\<close> the key covers every declared input, the store decodes exactly what was encoded (\<open>chunk\<close>), and a
    process that serves one configuration over a shared store leaves the outputs of a cold run.
  \<^item> \<open>UnitWorker\<close> one answer per request line, in order; the loop relies on the session through the locale \<open>server\<close> (\<open>unit_server\<close>).
  \<^item> \<open>Collect\<close>, \<open>SarifCollect\<close> merging of reports, and the round trip from the file a unit prints to what the collector reads.

  \<^bold>\<open>Registry and engine\<close> (\<^verbatim>\<open>src/internal/registry\<close>, \<^verbatim>\<open>src/internal/engine\<close>, \<^verbatim>\<open>src/internal/workspace\<close>).

  \<^item> \<open>EditDistance\<close>, \<open>Registry\<close> the two-row distance equals its recursive definition; a built registry runs exactly the selected linters.
  \<^item> \<open>GraphWalk\<close>, \<open>EngineKeys\<close>, \<open>Engine\<close>, \<open>EngineProps\<close>, \<open>EngineHistory\<close>, \<open>EngineLaws\<close>, \<open>EngineRun\<close> the keys with their memo tables, the in-process run, and the entry point.  The engine relies on
    the diagnostic cache only through the locale \<open>l0_store\<close> (\<open>l0s\<close>).  After any
    sequence of runs over a cache a whole run reports what it reports without the cache, less the findings of packages that an earlier run met only
    as dependencies (a defect of the code, \<open>dep_entry_hides\<close>), for drivers whose findings are a function of what the key covers.
  \<^item> \<open>WorkspaceState\<close> overlays and snapshots with their reference counts under interleaved calls.

  \<^bold>\<open>Configuration and commands\<close> (\<^verbatim>\<open>src/internal/config\<close>, \<^verbatim>\<open>src/cmd/plaid-lint\<close>).

  \<^item> \<open>ConfigMerge\<close>, \<open>ConfigLoad\<close>, \<open>ConfigProps\<close> layering, search, decoding, migration of v1 files and validation: the nearest file wins, validation is exact, layering is
    associative but for one documented exception, and the explicit zero of some flags is lost.
  \<^item> \<open>RunCommand\<close> stages, exit codes, confinement of report paths, transparency of the cache down to the bytes of the reports.
  \<^item> \<open>Commands\<close>, \<open>CommandProps\<close> dispatch, \<^verbatim>\<open>collect\<close> and the small commands, the memory limit.
  \<^item> \<open>Subproc\<close>, \<open>SubprocProps\<close>, \<open>PluginReplay\<close> child processes, chunked argument lists, the plugin cache and its key (\<open>plugkey\<close>).

  \<^bold>\<open>Bounds and fuel.\<close>  The JSON decoder runs on fuel twice the length of the text plus one, and every call consumes a byte or returns; nesting stops at
  10000 as in the library.  Lengths are bounded by the widths of their fields (below 2 to the 63 for a Go slice, below 2 to the 64 for a frame).  The
  walk of the unit key has as fuel the number of real directories plus one, which is shown to suffice in spite of link cycles; the search of the
  configuration has the length of the path plus one.  The graph of analyzers is walked with any fuel above the number of analyzers in
  reach, or above the rank of the roots, which is a hypothesis of each theorem and enough for a result.  The other loops
  terminate by a measure.  The limits of the code are kept: 16 MiB for a request line of the worker, 4 MiB for a line of a plugin.

  \<^bold>\<open>Digests.\<close>  SHA-256 is defined and computes.  Statements about keys do not assume it injective: they end in an explicit pair of different inputs with
  equal digests, built from the inputs of the statement.

  \<^bold>\<open>Not modelled.\<close>  The fork of gopls (\<^verbatim>\<open>src/internal/gopls\<close>: parsing, type checking, loading, the analysis driver, generated protocol types and tables), whose results are
  arguments of the engine; the wrapped analyzers and their option structs, which are walks over syntax trees and calls of packages outside the
  repository; the serialisation of file sets and export data, which the caches treat as opaque bytes; the text of help and log messages, profiles,
  traces, metrics and wall-clock durations; the starting of the cache helper and its handshake; benchmarks and build rules.
\<close>

end
